(* ===== verification/Prelude.thy ===== *)
theory Prelude
  imports Complex_Main "HOL-Library.AList"
begin

text \<open>
  Shared vocabulary of the development: Python exceptions as values, results that are an
  exception or a value, Python dictionaries as insertion-ordered association lists, clock
  readings, and the generic lemmas the components share.
\<close>

named_theorems dict_simps \<open>lookup, keys and well-formedness of dictionary updates\<close>
named_theorems py_simps \<open>evaluation rules of the Python operations the sources use\<close>

section \<open>Exceptions and results\<close>

text \<open>
  The exception classes the modelled code raises, each with its message. \<open>ResourceSpecError\<close>,
  \<open>DagSpecError\<close> and \<open>FinalOutputResolutionError\<close> are the sources' own subclasses of
  \<open>ValueError\<close>; the others are Python's.
\<close>

datatype pyerr =
    ValueError string
  | TypeError string
  | KeyError string
  | IndexError string
  | AttributeError string
  | AssertionError
  | OverflowError
  | RuntimeError string
  | PermissionError string
  | TimeoutError string
  | FileNotFoundError string
  | OSError string
  | ArtifactError string
  | ResourceSpecError string
  | DagSpecError string
  | ResourceLimitExceeded string
  | FinalOutputResolutionError string string

type_synonym 'a result = "pyerr + 'a"

text \<open>Sequencing: an exception ends the computation, as \<open>raise\<close> does.\<close>

fun rbind :: "'e + 'a \<Rightarrow> ('a \<Rightarrow> 'e + 'b) \<Rightarrow> 'e + 'b" where
  "rbind (Inl e) f = Inl e"
| "rbind (Inr x) f = f x"

text \<open>A guard \<open>if not ok: raise e\<close> in front of the rest.\<close>

definition guard_or :: "bool \<Rightarrow> 'e \<Rightarrow> 'e + 'b \<Rightarrow> 'e + 'b" where
  "guard_or ok e k = (if ok then k else Inl e)"

text \<open>A list comprehension whose body may raise: left to right, the first exception wins.\<close>

fun rmap :: "('a \<Rightarrow> 'e + 'b) \<Rightarrow> 'a list \<Rightarrow> 'e + 'b list" where
  "rmap f [] = Inr []"
| "rmap f (x # xs) = rbind (f x) (\<lambda>y. rbind (rmap f xs) (\<lambda>ys. Inr (y # ys)))"

text \<open>A loop over a list that threads a state and may raise.\<close>

fun rfold :: "('s \<Rightarrow> 'a \<Rightarrow> 'e + 's) \<Rightarrow> 's \<Rightarrow> 'a list \<Rightarrow> 'e + 's" where
  "rfold f s [] = Inr s"
| "rfold f s (x # xs) = rbind (f s x) (\<lambda>s'. rfold f s' xs)"

text \<open>\<open>except A as exc: raise B from exc\<close>.\<close>

definition map_err :: "('e \<Rightarrow> 'f) \<Rightarrow> 'e + 'a \<Rightarrow> 'f + 'a" where
  "map_err g r = (case r of Inl e \<Rightarrow> Inl (g e) | Inr x \<Rightarrow> Inr x)"

lemma rbind_eq_Inr [simp]: "rbind m f = Inr y \<longleftrightarrow> (\<exists>x. m = Inr x \<and> f x = Inr y)"
  by (cases m) auto

lemma rbind_eq_Inl: "rbind m f = Inl e \<longleftrightarrow> m = Inl e \<or> (\<exists>x. m = Inr x \<and> f x = Inl e)"
  by (cases m) auto

lemma guard_or_eq_Inr [simp]: "guard_or ok e k = Inr y \<longleftrightarrow> ok \<and> k = Inr y"
  by (auto simp: guard_or_def)

lemma map_err_eq_Inr [simp]: "map_err g r = Inr y \<longleftrightarrow> r = Inr y"
  by (auto simp: map_err_def split: sum.splits)

lemma rmap_eq_Inr: "rmap f xs = Inr ys \<longleftrightarrow> list_all2 (\<lambda>x y. f x = Inr y) xs ys"
  by (induction xs arbitrary: ys) (auto simp: list_all2_Cons1)

lemma rmap_length: "rmap f xs = Inr ys \<Longrightarrow> length ys = length xs"
  by (simp add: rmap_eq_Inr list_all2_lengthD)

lemma rmap_Inl: "rmap f xs = Inl e \<Longrightarrow> \<exists>x \<in> set xs. f x = Inl e"
  by (induction xs) (auto simp: rbind_eq_Inl)

lemma rmap_in: "rmap f xs = Inr ys \<Longrightarrow> y \<in> set ys \<Longrightarrow> \<exists>x \<in> set xs. f x = Inr y"
  by (induction xs arbitrary: ys) auto

lemma rmap_map_idem:
  "(\<And>x. x \<in> set xs \<Longrightarrow> f x = Inr x) \<Longrightarrow> rmap f xs = Inr xs"
  by (induction xs) auto

lemma rmap_cong [fundef_cong]:
  "xs = ys \<Longrightarrow> (\<And>x. x \<in> set ys \<Longrightarrow> f x = g x) \<Longrightarrow> rmap f xs = rmap g ys"
  by (induction ys arbitrary: xs) auto

lemma rfold_append: "rfold f s (xs @ ys) = rbind (rfold f s xs) (\<lambda>s'. rfold f s' ys)"
proof (induction xs arbitrary: s)
  case (Cons x xs)
  then show ?case by (cases "f s x") auto
qed simp

text \<open>Every step of a successful loop keeps an invariant, so the loop does.\<close>

lemma rfold_invariant:
  assumes "rfold f s xs = Inr t" and "P s"
    and "\<And>s x s'. x \<in> set xs \<Longrightarrow> P s \<Longrightarrow> f s x = Inr s' \<Longrightarrow> P s'"
  shows "P t"
  using assms
proof (induction xs arbitrary: s)
  case (Cons x xs)
  from Cons.prems(1) obtain u where "f s x = Inr u" and "rfold f u xs = Inr t" by auto
  with Cons.prems(2,3) Cons.IH [of u] show ?case by (metis list.set_intros)
qed simp

lemma foldl_invariant:
  assumes "P s" and "\<And>s x. x \<in> set xs \<Longrightarrow> P s \<Longrightarrow> P (f s x)"
  shows "P (foldl f s xs)"
  using assms by (induction xs arbitrary: s) auto

section \<open>Clock readings\<close>

text \<open>
  \<open>time.time()\<close> returns a number of seconds. Readings are exact rationals here and an argument of
  every operation that reads the clock; the rounding of IEEE doubles is not modelled.
\<close>

type_synonym time = rat

section \<open>Dictionaries\<close>

text \<open>
  A Python dictionary keeps insertion order, and the code iterates over it (nodes in registration
  order, pending tasks in submission order). It is an association list: assignment replaces in
  place or appends (\<open>AList.update\<close>), \<open>del\<close> and \<open>pop\<close> remove (\<open>AList.delete\<close>), and
  \<open>map_of\<close> is \<open>get\<close>. \<open>dict_ok\<close> says that keys are distinct, which every operation keeps.
\<close>

type_synonym ('k, 'v) dict = "('k \<times> 'v) list"

definition dput :: "'k \<Rightarrow> 'v \<Rightarrow> ('k, 'v) dict \<Rightarrow> ('k, 'v) dict" where
  "dput k v d = AList.update k v d"

definition ddel :: "'k \<Rightarrow> ('k, 'v) dict \<Rightarrow> ('k, 'v) dict" where
  "ddel k d = AList.delete k d"

definition dkeys :: "('k, 'v) dict \<Rightarrow> 'k list" where
  "dkeys d = map fst d"

definition dvals :: "('k, 'v) dict \<Rightarrow> 'v list" where
  "dvals d = map snd d"

definition dhas :: "'k \<Rightarrow> ('k, 'v) dict \<Rightarrow> bool" where
  "dhas k d = (k \<in> set (map fst d))"

definition dict_ok :: "('k, 'v) dict \<Rightarrow> bool" where
  "dict_ok d = distinct (map fst d)"

text \<open>\<open>d.setdefault(k, v)\<close> as an update, and \<open>d.get(k, v)\<close> with a default.\<close>

definition dsetdefault :: "'k \<Rightarrow> 'v \<Rightarrow> ('k, 'v) dict \<Rightarrow> ('k, 'v) dict" where
  "dsetdefault k v d = (if dhas k d then d else dput k v d)"

definition dgetd :: "('k, 'v) dict \<Rightarrow> 'k \<Rightarrow> 'v \<Rightarrow> 'v" where
  "dgetd d k v = (case map_of d k of None \<Rightarrow> v | Some x \<Rightarrow> x)"

text \<open>Changing every value in place, as a loop over \<open>d.values()\<close> that mutates them does.\<close>

definition dmapv :: "('k \<Rightarrow> 'v \<Rightarrow> 'w) \<Rightarrow> ('k, 'v) dict \<Rightarrow> ('k, 'w) dict" where
  "dmapv f d = map (\<lambda>(k, v). (k, f k v)) d"

lemma in_dput: "x \<in> set (dput k v d) \<Longrightarrow> x = (k, v) \<or> x \<in> set d"
  by (induction d) (auto simp: dput_def split: if_splits)

lemma map_of_dput [dict_simps, simp]:
  "map_of (dput k v d) x = (if x = k then Some v else map_of d x)"
  by (simp add: dput_def update_conv')

lemma map_of_ddel [dict_simps, simp]:
  "map_of (ddel k d) x = (if x = k then None else map_of d x)"
  by (simp add: ddel_def delete_conv')

lemma set_dkeys_dput [dict_simps, simp]: "set (dkeys (dput k v d)) = insert k (set (dkeys d))"
  by (simp add: dput_def dkeys_def dom_update flip: dom_map_of_conv_image_fst)
    (simp add: dom_map_of_conv_image_fst dom_update)

lemma set_dkeys_ddel [dict_simps, simp]: "set (dkeys (ddel k d)) = set (dkeys d) - {k}"
  by (auto simp: ddel_def dkeys_def AList.delete_eq)

lemma dict_ok_empty [dict_simps, simp]: "dict_ok []"
  by (simp add: dict_ok_def)

lemma dict_ok_dput [dict_simps, simp, intro]: "dict_ok d \<Longrightarrow> dict_ok (dput k v d)"
  by (simp add: dict_ok_def dput_def distinct_update)

lemma dict_ok_ddel [dict_simps, simp, intro]: "dict_ok d \<Longrightarrow> dict_ok (ddel k d)"
  by (simp add: dict_ok_def ddel_def distinct_delete)

lemma dhas_iff: "dhas k d \<longleftrightarrow> map_of d k \<noteq> None"
  by (auto simp: dhas_def map_of_eq_None_iff)

lemma dhas_dkeys: "dhas k d \<longleftrightarrow> k \<in> set (dkeys d)"
  by (simp add: dhas_def dkeys_def)

lemma map_of_dkeys: "map_of d k = Some v \<Longrightarrow> k \<in> set (dkeys d)"
  by (metis dhas_dkeys dhas_iff option.distinct(1))

lemma dkeys_dput_old: "map_of d k = Some w \<Longrightarrow> set (dkeys (dput k v d)) = set (dkeys d)"
  by (simp add: map_of_dkeys insert_absorb)

lemma dkeys_dput_same: "dhas k d \<Longrightarrow> dkeys (dput k v d) = dkeys d"
  by (induction d) (auto simp: dput_def dhas_def dkeys_def)

lemma dhas_dput [dict_simps, simp]: "dhas x (dput k v d) \<longleftrightarrow> x = k \<or> dhas x d"
  by (auto simp: dhas_iff)

lemma dhas_ddel [dict_simps, simp]: "dhas x (ddel k d) \<longleftrightarrow> x \<noteq> k \<and> dhas x d"
  by (auto simp: dhas_iff)

lemma dhas_Nil [simp]: "\<not> dhas k []"
  by (simp add: dhas_def)

text \<open>The library rewrites the lookup in an append with \<open>++\<close>; here it is a case distinction.\<close>

declare map_of_append [simp del]

lemma map_of_app: "map_of (d @ e) k = (case map_of d k of None \<Rightarrow> map_of e k | Some v \<Rightarrow> Some v)"
  by (simp add: map_of_append map_add_def split: option.splits)

lemma map_of_in: "map_of d k = Some v \<Longrightarrow> (k, v) \<in> set d"
  by (rule map_of_SomeD)

lemma in_map_of: "dict_ok d \<Longrightarrow> (k, v) \<in> set d \<Longrightarrow> map_of d k = Some v"
  by (simp add: dict_ok_def)

lemma in_dict_iff: "dict_ok d \<Longrightarrow> (k, v) \<in> set d \<longleftrightarrow> map_of d k = Some v"
  by (meson in_map_of map_of_in)

lemma in_dvals_iff: "dict_ok d \<Longrightarrow> v \<in> set (dvals d) \<longleftrightarrow> (\<exists>k. map_of d k = Some v)"
  unfolding dvals_def by (metis (no_types, lifting) image_iff image_set in_map_of map_of_in prod.collapse snd_conv)

lemma map_of_dmapv [dict_simps, simp]: "map_of (dmapv f d) k = map_option (f k) (map_of d k)"
  by (induction d) (auto simp: dmapv_def)

lemma dkeys_dmapv [dict_simps, simp]: "dkeys (dmapv f d) = dkeys d"
  by (induction d) (auto simp: dmapv_def dkeys_def)

lemma dict_ok_dmapv [dict_simps, simp]: "dict_ok (dmapv f d) = dict_ok d"
  using dkeys_dmapv [of f d] by (simp add: dict_ok_def dkeys_def)

lemma length_dmapv [simp]: "length (dmapv f d) = length d"
  by (simp add: dmapv_def)

lemma dput_new: "\<not> dhas k d \<Longrightarrow> dput k v d = d @ [(k, v)]"
  by (induction d) (auto simp: dput_def dhas_def)

lemma ddel_absent: "\<not> dhas k d \<Longrightarrow> ddel k d = d"
  by (induction d) (auto simp: ddel_def dhas_def)

lemma ddel_append: "ddel k (xs @ ys) = ddel k xs @ ddel k ys"
  by (simp add: ddel_def AList.delete_eq)

lemma ddel_dput_new: "\<not> dhas k d \<Longrightarrow> ddel k (dput k v d) = d"
  by (simp add: dput_new ddel_append ddel_absent) (simp add: ddel_def)

lemma length_dput_new: "\<not> dhas k d \<Longrightarrow> length (dput k v d) = Suc (length d)"
  by (simp add: dput_new)

lemma length_dput_old: "dhas k d \<Longrightarrow> length (dput k v d) = length d"
  by (induction d) (auto simp: dput_def dhas_def)

lemma set_ddel: "set (ddel k d) = {p \<in> set d. fst p \<noteq> k}"
  by (auto simp: ddel_def AList.delete_eq)

lemma dkeys_ddel: "dkeys (ddel k d) = filter (\<lambda>x. x \<noteq> k) (dkeys d)"
  by (induction d) (auto simp: ddel_def dkeys_def)

text \<open>Sums over a dictionary, the shape of every reservation count.\<close>

definition dsum :: "('k \<Rightarrow> 'v \<Rightarrow> 'n::comm_monoid_add) \<Rightarrow> ('k, 'v) dict \<Rightarrow> 'n" where
  "dsum f d = sum_list (map (\<lambda>(k, v). f k v) d)"

lemma dsum_Nil [simp]: "dsum f [] = 0"
  by (simp add: dsum_def)

lemma dsum_Cons [simp]: "dsum f ((k, v) # d) = f k v + dsum f d"
  by (simp add: dsum_def)

lemma dsum_dput_new: "\<not> dhas k d \<Longrightarrow> dsum f (dput k v d) = dsum f d + f k v"
  by (simp add: dput_new dsum_def)

lemma dsum_ddel:
  fixes f :: "'k \<Rightarrow> 'v \<Rightarrow> 'n::ab_group_add"
  shows "dict_ok d \<Longrightarrow> map_of d k = Some v \<Longrightarrow> dsum f (ddel k d) = dsum f d - f k v"
proof (induction d)
  case (Cons p d)
  obtain k' v' where p: "p = (k', v')" by (cases p)
  show ?case
  proof (cases "k' = k")
    case True
    with Cons.prems p have "\<not> dhas k d" and "v' = v"
      by (auto simp: dict_ok_def dhas_def)
    with True p show ?thesis using ddel_absent [of k d] by (simp add: ddel_def)
  next
    case False
    with Cons p show ?thesis
      by (simp add: ddel_def dict_ok_def)
  qed
qed simp

lemma dsum_nonneg:
  fixes f :: "'k \<Rightarrow> 'v \<Rightarrow> int"
  shows "(\<And>k v. (k, v) \<in> set d \<Longrightarrow> 0 \<le> f k v) \<Longrightarrow> 0 \<le> dsum f d"
  by (induction d) (auto simp: dsum_def intro!: add_nonneg_nonneg)

lemma dsum_cong: "(\<And>k v. (k, v) \<in> set d \<Longrightarrow> f k v = g k v) \<Longrightarrow> dsum f d = dsum g d"
  by (induction d) auto

section \<open>Lists\<close>

text \<open>\<open>next((x for x in xs if p(x)), None)\<close>.\<close>

definition first_match :: "('a \<Rightarrow> bool) \<Rightarrow> 'a list \<Rightarrow> 'a option" where
  "first_match p xs = List.find p xs"

lemma first_match_Some: "first_match p xs = Some x \<Longrightarrow> x \<in> set xs \<and> p x"
  by (auto simp: first_match_def find_Some_iff)

lemma first_match_None: "first_match p xs = None \<longleftrightarrow> (\<forall>x \<in> set xs. \<not> p x)"
  by (auto simp: first_match_def find_None_iff)

text \<open>Removing the first element that satisfies a predicate.\<close>

fun remove_first :: "('a \<Rightarrow> bool) \<Rightarrow> 'a list \<Rightarrow> 'a list" where
  "remove_first p [] = []"
| "remove_first p (x # xs) = (if p x then xs else x # remove_first p xs)"

lemma set_remove_first_subset: "set (remove_first p xs) \<subseteq> set xs"
  by (induction xs) auto

text \<open>\<open>dict.fromkeys(xs)\<close>: the distinct elements, in order of first occurrence.\<close>

fun dedup :: "'a list \<Rightarrow> 'a list" where
  "dedup [] = []"
| "dedup (x # xs) = x # filter (\<lambda>y. y \<noteq> x) (dedup xs)"

lemma set_dedup [simp]: "set (dedup xs) = set xs"
  by (induction xs) auto

lemma distinct_dedup [simp]: "distinct (dedup xs)"
  by (induction xs) auto

end
