(* ===== verification/PyValue.thy ===== *)
theory PyValue
  imports Prelude
begin

text \<open>
  The dynamic values that cross Maze's interfaces: what \<open>json.loads\<close> can return. The
  operations of Python's language and standard library the sources apply to them are defined here:
  truth, \<open>or\<close>, \<open>dict.get\<close>, \<open>str\<close>, \<open>repr\<close>, \<open>float\<close>, \<open>int\<close>, \<open>str.strip\<close>, \<open>str.lower\<close>,
  \<open>str.split\<close>. Characters are code points below 256; finite floats are exact rationals (no
  rounding to IEEE doubles).
\<close>

section \<open>Values\<close>

datatype pyfloat = Fin rat | PosInf | NegInf | NaN

datatype pyval =
    VNone
  | VBool bool
  | VInt int
  | VFloat pyfloat
  | VStr string
  | VList "pyval list"
  | VDict "(string \<times> pyval) list"

fun truthy :: "pyval \<Rightarrow> bool" where
  "truthy VNone = False"
| "truthy (VBool b) = b"
| "truthy (VInt n) = (n \<noteq> 0)"
| "truthy (VFloat (Fin q)) = (q \<noteq> 0)"
| "truthy (VFloat _) = True"
| "truthy (VStr s) = (s \<noteq> [])"
| "truthy (VList xs) = (xs \<noteq> [])"
| "truthy (VDict d) = (d \<noteq> [])"

text \<open>\<open>a or b\<close>.\<close>

definition vor :: "pyval \<Rightarrow> pyval \<Rightarrow> pyval" where
  "vor a b = (if truthy a then a else b)"

text \<open>\<open>==\<close> between a field and an expected value: numbers and booleans are compared by value.\<close>

definition py_number :: "pyval \<Rightarrow> rat option" where
  "py_number v = (case v of VBool b \<Rightarrow> Some (if b then 1 else 0) | VInt n \<Rightarrow> Some (of_int n) | VFloat (Fin q) \<Rightarrow> Some q | _ \<Rightarrow> None)"

definition py_eq :: "pyval \<Rightarrow> pyval \<Rightarrow> bool" where
  "py_eq a b = (case (py_number a, py_number b) of (Some x, Some y) \<Rightarrow> x = y | _ \<Rightarrow> a = b)"

text \<open>\<open>d.get(k)\<close>, \<open>d.get(k, v)\<close> and \<open>k in d\<close>.\<close>

definition vget :: "(string, pyval) dict \<Rightarrow> string \<Rightarrow> pyval" where
  "vget d k = dgetd d k VNone"

abbreviation vgetd :: "(string, pyval) dict \<Rightarrow> string \<Rightarrow> pyval \<Rightarrow> pyval" where
  "vgetd d k v \<equiv> dgetd d k v"

definition is_dict :: "pyval \<Rightarrow> bool" where
  "is_dict v = (case v of VDict _ \<Rightarrow> True | _ \<Rightarrow> False)"

definition is_str :: "pyval \<Rightarrow> bool" where
  "is_str v = (case v of VStr _ \<Rightarrow> True | _ \<Rightarrow> False)"

text \<open>\<open>isinstance(v, int)\<close> and \<open>isinstance(v, bool)\<close>: \<open>bool\<close> is a subclass of \<open>int\<close>.\<close>

definition is_bool :: "pyval \<Rightarrow> bool" where
  "is_bool v = (case v of VBool _ \<Rightarrow> True | _ \<Rightarrow> False)"

text \<open>The dictionary \<open>v\<close>, or the empty one: \<open>v or {}\<close> where \<open>v\<close> is a dictionary or \<open>None\<close>.\<close>

definition dict_or_empty :: "pyval \<Rightarrow> (string, pyval) dict" where
  "dict_or_empty v = (case v of VDict d \<Rightarrow> d | _ \<Rightarrow> [])"

text \<open>\<open>v or {}\<close> where the result is then read with \<open>get\<close>: a truthy value that is no dictionary has none.\<close>

definition or_empty :: "pyval \<Rightarrow> (string, pyval) dict result" where
  "or_empty v =
     (if \<not> truthy v then Inr [] else (case v of VDict d \<Rightarrow> Inr d | _ \<Rightarrow> Inl (AttributeError ''get'')))"

text \<open>The value of a finite number (booleans are not counted as numbers by the code that asks).\<close>

definition num_of :: "pyval \<Rightarrow> rat option" where
  "num_of v = (case v of VInt n \<Rightarrow> Some (of_int n) | VFloat (Fin q) \<Rightarrow> Some q | _ \<Rightarrow> None)"

abbreviation vnum :: "rat \<Rightarrow> pyval" where
  "vnum q \<equiv> VFloat (Fin q)"

lemma vget_Nil [py_simps, simp]: "vget [] k = VNone"
  by (simp add: vget_def dgetd_def)

lemma vget_Cons [py_simps, simp]: "vget ((k', v) # d) k = (if k' = k then v else vget d k)"
  by (simp add: vget_def dgetd_def)

lemma dgetd_Nil [py_simps, simp]: "dgetd [] k v = v"
  by (simp add: dgetd_def)

lemma dgetd_Cons [py_simps, simp]: "dgetd ((k', x) # d) k v = (if k' = k then x else dgetd d k v)"
  by (simp add: dgetd_def)

lemma dhas_Cons [py_simps, simp]: "dhas k ((k', x) # d) \<longleftrightarrow> k' = k \<or> dhas k d"
  by (auto simp: dhas_def)

lemma vget_dput [py_simps, simp]: "vget (dput k v d) x = (if x = k then v else vget d x)"
  by (simp add: vget_def dgetd_def)

lemma vor_true: "truthy a \<Longrightarrow> vor a b = a"
  by (simp add: vor_def)

lemma vor_false: "\<not> truthy a \<Longrightarrow> vor a b = b"
  by (simp add: vor_def)

section \<open>Characters and strings\<close>

definition is_space :: "char \<Rightarrow> bool" where
  "is_space c = (let n = of_char c :: nat in
     (9 \<le> n \<and> n \<le> 13) \<or> (28 \<le> n \<and> n \<le> 32) \<or> n = 133 \<or> n = 160)"

definition is_digit :: "char \<Rightarrow> bool" where
  "is_digit c = (let n = of_char c :: nat in 48 \<le> n \<and> n \<le> 57)"

definition is_upper :: "char \<Rightarrow> bool" where
  "is_upper c = (let n = of_char c :: nat in
     (65 \<le> n \<and> n \<le> 90) \<or> (192 \<le> n \<and> n \<le> 222 \<and> n \<noteq> 215))"

definition lower_char :: "char \<Rightarrow> char" where
  "lower_char c = (if is_upper c then char_of (of_char c + 32 :: nat) else c)"

definition py_lower :: "string \<Rightarrow> string" where
  "py_lower s = map lower_char s"

definition py_strip :: "string \<Rightarrow> string" where
  "py_strip s = rev (dropWhile is_space (rev (dropWhile is_space s)))"

text \<open>\<open>s.split(c)\<close> for a one-character separator.\<close>

fun split_on :: "char \<Rightarrow> string \<Rightarrow> string list" where
  "split_on c [] = [[]]"
| "split_on c (x # xs) =
     (if x = c then [] # split_on c xs
      else (case split_on c xs of [] \<Rightarrow> [[x]] | w # ws \<Rightarrow> (x # w) # ws))"

text \<open>\<open>sub in s\<close>.\<close>

fun has_infix :: "string \<Rightarrow> string \<Rightarrow> bool" where
  "has_infix sub [] = (sub = [])"
| "has_infix sub (c # s) = (take (length sub) (c # s) = sub \<or> has_infix sub s)"

lemma split_on_nonempty: "split_on c s \<noteq> []"
  by (induction s) (auto split: list.splits)

lemma split_on_no_sep: "c \<notin> set s \<Longrightarrow> split_on c s = [s]"
  by (induction s) auto

lemma split_on_sep: "c \<notin> set s \<Longrightarrow> split_on c (s @ c # t) = s # split_on c t"
  by (induction s) auto

lemma split_on_parts: "w \<in> set (split_on c s) \<Longrightarrow> c \<notin> set w"
proof (induction s arbitrary: w)
  case (Cons x s)
  then show ?case by (cases "split_on c s") (auto split: if_splits)
qed simp

lemma dropWhile_id: "dropWhile p xs = xs \<longleftrightarrow> xs = [] \<or> \<not> p (hd xs)"
  by (rule dropWhile_eq_self_iff)

lemma hd_dropWhile_fails: "dropWhile p xs \<noteq> [] \<Longrightarrow> \<not> p (hd (dropWhile p xs))"
  by (induction xs) auto

lemma strip_hd:
  assumes "py_strip s \<noteq> []"
  shows "\<not> is_space (hd (py_strip s)) \<and> \<not> is_space (last (py_strip s))"
proof -
  let ?t = "dropWhile is_space s"
  let ?u = "dropWhile is_space (rev ?t)"
  have u: "?u \<noteq> []" using assms by (simp add: py_strip_def)
  then have last: "\<not> is_space (hd ?u)" by (rule hd_dropWhile_fails)
  from u have t: "?t \<noteq> []" by (cases "?t = []") simp_all
  then have "\<not> is_space (hd ?t)" by (rule hd_dropWhile_fails)
  moreover have "last ?u = hd ?t"
  proof -
    obtain ps where "rev ?t = ps @ ?u" by (metis takeWhile_dropWhile_id)
    then have "last (rev ?t) = last ?u" using u by (metis last_appendR)
    with t show ?thesis by (simp add: last_rev)
  qed
  ultimately show ?thesis using last u by (simp add: py_strip_def hd_rev last_rev)
qed

lemma strip_idem [simp]: "py_strip (py_strip s) = py_strip s"
proof (cases "py_strip s = []")
  case False
  then have h: "\<not> is_space (hd (py_strip s))" "\<not> is_space (last (py_strip s))"
    using strip_hd by auto
  have "dropWhile is_space (py_strip s) = py_strip s"
    using h by (simp add: dropWhile_id)
  moreover have "dropWhile is_space (rev (py_strip s)) = rev (py_strip s)"
    using h False by (simp add: dropWhile_id hd_rev)
  ultimately show ?thesis by (simp add: py_strip_def [of "py_strip s"])
qed (simp add: py_strip_def [of "[]"])

lemma strip_no_space: "(\<forall>c \<in> set s. \<not> is_space c) \<Longrightarrow> py_strip s = s"
proof (cases "s = []")
  case False
  assume ns: "\<forall>c \<in> set s. \<not> is_space c"
  have "dropWhile is_space s = s" "dropWhile is_space (rev s) = rev s"
    using False ns by (simp_all add: dropWhile_id hd_rev)
  then show ?thesis by (simp add: py_strip_def)
qed (simp add: py_strip_def)

section \<open>Decimal numerals, \<open>str\<close> and \<open>repr\<close>\<close>

definition digit_char :: "nat \<Rightarrow> char" where
  "digit_char d = char_of (48 + d)"

fun show_nat :: "nat \<Rightarrow> string" where
  "show_nat n = (if n < 10 then [digit_char n] else show_nat (n div 10) @ [digit_char (n mod 10)])"

declare show_nat.simps [simp del]

definition show_int :: "int \<Rightarrow> string" where
  "show_int i = (if i < 0 then CHR ''-'' # show_nat (nat (- i)) else show_nat (nat i))"

text \<open>
  A finite float prints its integer part, a point and the fraction's decimal digits (at most 17,
  trailing zeros dropped, at least one digit). Python's exponent notation for magnitudes outside
  1e-4 .. 1e16 is not reproduced.
\<close>

fun frac_digits :: "nat \<Rightarrow> rat \<Rightarrow> string" where
  "frac_digits 0 q = []"
| "frac_digits (Suc n) q =
     (if q = 0 then [] else digit_char (nat \<lfloor>q * 10\<rfloor>) # frac_digits n (q * 10 - of_int \<lfloor>q * 10\<rfloor>))"

definition show_fin :: "rat \<Rightarrow> string" where
  "show_fin q =
     (let a = \<bar>q\<bar>; f = frac_digits 17 (a - of_int \<lfloor>a\<rfloor>)
      in (if q < 0 then ''-'' else '''') @ show_nat (nat \<lfloor>a\<rfloor>) @ ''.'' @ (if f = [] then ''0'' else f))"

fun show_float :: "pyfloat \<Rightarrow> string" where
  "show_float (Fin q) = show_fin q"
| "show_float PosInf = ''inf''"
| "show_float NegInf = ''-inf''"
| "show_float NaN = ''nan''"

definition hex_char :: "nat \<Rightarrow> char" where
  "hex_char d = char_of (if d < 10 then 48 + d else 87 + d)"

definition escape_char :: "char \<Rightarrow> char \<Rightarrow> string" where
  "escape_char q c =
     (let n = of_char c :: nat in
      if c = q \<or> n = 92 then [char_of (92::nat), c]
      else if n = 10 then [char_of (92::nat), CHR ''n'']
      else if n = 13 then [char_of (92::nat), CHR ''r'']
      else if n = 9 then [char_of (92::nat), CHR ''t'']
      else if n < 32 \<or> (127 \<le> n \<and> n \<le> 160) \<or> n = 173
        then [char_of (92::nat), CHR ''x'', hex_char (n div 16), hex_char (n mod 16)]
      else [c])"

text \<open>\<open>repr\<close> of a string: double quotes when it holds a single quote and no double one.\<close>

definition repr_str :: "string \<Rightarrow> string" where
  "repr_str s =
     (let q = (if CHR 0x27 \<in> set s \<and> CHR 0x22 \<notin> set s then CHR 0x22 else CHR 0x27)
      in q # concat (map (escape_char q) s) @ [q])"

fun join_with :: "string \<Rightarrow> string list \<Rightarrow> string" where
  "join_with sep [] = []"
| "join_with sep [x] = x"
| "join_with sep (x # y # ys) = x @ sep @ join_with sep (y # ys)"

fun py_repr :: "pyval \<Rightarrow> string" where
  "py_repr VNone = ''None''"
| "py_repr (VBool b) = (if b then ''True'' else ''False'')"
| "py_repr (VInt n) = show_int n"
| "py_repr (VFloat f) = show_float f"
| "py_repr (VStr s) = repr_str s"
| "py_repr (VList xs) = ''['' @ join_with '', '' (map py_repr xs) @ '']''"
| "py_repr (VDict d) =
     [CHR 0x7B] @ join_with '', '' (map (\<lambda>(k, v). repr_str k @ '': '' @ py_repr v) d) @ [CHR 0x7D]"

definition py_str :: "pyval \<Rightarrow> string" where
  "py_str v = (case v of VStr s \<Rightarrow> s | _ \<Rightarrow> py_repr v)"

lemma py_str_VStr [py_simps, simp]: "py_str (VStr s) = s"
  by (simp add: py_str_def)

section \<open>\<open>float\<close> and \<open>int\<close>\<close>

definition digit_val :: "char \<Rightarrow> nat" where
  "digit_val c = of_char c - 48"

text \<open>
  A run of digits in which single underscores may separate digits, as Python's numeric literals
  allow: the value read, the number of digits, and the rest.
\<close>

fun read_digits :: "nat \<Rightarrow> nat \<Rightarrow> string \<Rightarrow> nat \<times> nat \<times> string" where
  "read_digits a n [] = (a, n, [])"
| "read_digits a n (c # s) =
     (if is_digit c then read_digits (10 * a + digit_val c) (Suc n) s
      else if c = CHR ''_'' \<and> 0 < n \<and> (case s of [] \<Rightarrow> False | d # _ \<Rightarrow> is_digit d)
        then read_digits a n s
      else (a, n, c # s))"

definition read_exponent :: "string \<Rightarrow> int option" where
  "read_exponent s =
     (if s = [] then Some 0
      else if hd s \<in> {CHR ''e'', CHR ''E''} then
        (let neg = (tl s \<noteq> [] \<and> hd (tl s) = CHR ''-'');
             body = (if tl s \<noteq> [] \<and> hd (tl s) \<in> {CHR ''+'', CHR ''-''} then tl (tl s) else tl s);
             (v, n, rest) = read_digits 0 0 body
         in if 0 < n \<and> rest = [] then Some (if neg then - int v else int v) else None)
      else None)"

definition pow10 :: "int \<Rightarrow> rat" where
  "pow10 e = (if 0 \<le> e then 10 ^ nat e else 1 / 10 ^ nat (- e))"

definition read_decimal :: "string \<Rightarrow> rat option" where
  "read_decimal s =
     (let (a, n, r) = read_digits 0 0 s;
          (f, m, r') = (case r of c # t \<Rightarrow> if c = CHR ''.'' then read_digits 0 0 t else (0, 0, r)
                                | [] \<Rightarrow> (0, 0, r))
      in if n + m = 0 then None
         else (case read_exponent r' of None \<Rightarrow> None
               | Some e \<Rightarrow> Some ((of_nat a + of_nat f / 10 ^ m) * pow10 e)))"

text \<open>A magnitude beyond the range of a double is infinite; \<open>dbl\<close> is that range.\<close>

definition dbl :: int where
  "dbl = 2 ^ 1024"

definition clip_float :: "rat \<Rightarrow> pyfloat" where
  "clip_float q = (if of_int dbl \<le> q then PosInf else if q \<le> - of_int dbl then NegInf else Fin q)"

definition parse_float :: "string \<Rightarrow> pyfloat option" where
  "parse_float s0 =
     (let s = py_strip s0;
          neg = (s \<noteq> [] \<and> hd s = CHR ''-'');
          body = (if s \<noteq> [] \<and> hd s \<in> {CHR ''+'', CHR ''-''} then tl s else s);
          w = py_lower body
      in if w = ''inf'' \<or> w = ''infinity'' then Some (if neg then NegInf else PosInf)
         else if w = ''nan'' then Some NaN
         else map_option (\<lambda>q. clip_float (if neg then - q else q)) (read_decimal body))"

text \<open>\<open>float(v)\<close>: an integer beyond the double range raises \<open>OverflowError\<close>.\<close>

fun py_float :: "pyval \<Rightarrow> pyfloat result" where
  "py_float (VBool b) = Inr (Fin (if b then 1 else 0))"
| "py_float (VInt n) = (if \<bar>n\<bar> < dbl then Inr (Fin (of_int n)) else Inl OverflowError)"
| "py_float (VFloat f) = Inr (case f of Fin q \<Rightarrow> clip_float q | _ \<Rightarrow> f)"
| "py_float (VStr s) = (case parse_float s of Some f \<Rightarrow> Inr f
                        | None \<Rightarrow> Inl (ValueError ''could not convert string to float''))"
| "py_float _ = Inl (TypeError ''float() argument must be a string or a real number'')"

text \<open>\<open>int(x)\<close> of a float truncates towards zero.\<close>

definition trunc_rat :: "rat \<Rightarrow> int" where
  "trunc_rat q = (if q < 0 then - \<lfloor>- q\<rfloor> else \<lfloor>q\<rfloor>)"

fun int_of_float :: "pyfloat \<Rightarrow> int result" where
  "int_of_float (Fin q) = Inr (trunc_rat q)"
| "int_of_float NaN = Inl (ValueError ''cannot convert float NaN to integer'')"
| "int_of_float _ = Inl OverflowError"

text \<open>\<open>int(v)\<close> of a value: strings hold an optionally signed run of digits.\<close>

definition parse_int :: "string \<Rightarrow> int option" where
  "parse_int s0 =
     (let s = py_strip s0;
          neg = (s \<noteq> [] \<and> hd s = CHR ''-'');
          body = (if s \<noteq> [] \<and> hd s \<in> {CHR ''+'', CHR ''-''} then tl s else s);
          (a, n, r) = read_digits 0 0 body
      in if 0 < n \<and> r = [] then Some (if neg then - int a else int a) else None)"

fun py_int :: "pyval \<Rightarrow> int result" where
  "py_int (VBool b) = Inr (if b then 1 else 0)"
| "py_int (VInt n) = Inr n"
| "py_int (VFloat f) = int_of_float f"
| "py_int (VStr s) = (case parse_int s of Some n \<Rightarrow> Inr n
                      | None \<Rightarrow> Inl (ValueError ''invalid literal for int() with base 10''))"
| "py_int _ = Inl (TypeError ''int() argument must be a string or a real number'')"

text \<open>
  \<open>dict(v)\<close>: a copy of a dictionary, or the dictionary of a list of pairs (with string keys: other
  keys are outside the value model and rejected).
\<close>

fun as_pair :: "pyval \<Rightarrow> (string \<times> pyval) result" where
  "as_pair (VList [VStr k, v]) = Inr (k, v)"
| "as_pair (VStr [a, b]) = Inr ([a], VStr [b])"
| "as_pair _ = Inl (TypeError ''cannot convert dictionary update sequence element'')"

fun py_dict :: "pyval \<Rightarrow> (string, pyval) dict result" where
  "py_dict (VDict d) = Inr d"
| "py_dict (VList xs) = rbind (rmap as_pair xs) (\<lambda>ps. Inr (foldl (\<lambda>d (k, v). dput k v d) [] ps))"
| "py_dict (VStr s) = (if s = [] then Inr [] else Inl (ValueError ''dictionary update sequence element''))"
| "py_dict _ = Inl (TypeError ''object is not iterable'')"

text \<open>The range of \<open>float\<close>: a finite result lies within a double's exponent range.\<close>

lemma dbl_pos [simp]: "0 < dbl" "0 \<le> dbl"
  by (simp_all add: dbl_def)

lemma dbl_large: "n \<le> 2 ^ 64 \<Longrightarrow> n < dbl"
proof -
  assume "n \<le> 2 ^ 64"
  moreover have "(2::int) ^ 64 < 2 ^ 1024" by (rule power_strict_increasing) auto
  ultimately show ?thesis unfolding dbl_def by linarith
qed

lemma one_less_dbl [simp]: "1 < dbl" "1 \<le> dbl"
  using dbl_large [of 1] by simp_all

lemma trunc_rat_bound: "- of_int dbl < q \<Longrightarrow> q < of_int dbl \<Longrightarrow> \<bar>trunc_rat q\<bar> < dbl"
proof (cases "q < 0")
  case True
  assume "- of_int dbl < q"
  then have "\<lfloor>- q\<rfloor> < dbl" by (simp add: floor_less_iff minus_less_iff)
  moreover have "0 \<le> \<lfloor>- q\<rfloor>" using True by simp
  ultimately show ?thesis using True by (simp add: trunc_rat_def)
next
  case False
  assume "q < of_int dbl"
  then have "\<lfloor>q\<rfloor> < dbl" by (simp add: floor_less_iff)
  with False show ?thesis by (simp add: trunc_rat_def)
qed

lemma clip_float_Fin: "clip_float q = Fin r \<longleftrightarrow> r = q \<and> - of_int dbl < q \<and> q < of_int dbl"
  by (auto simp: clip_float_def)

lemma parse_float_range:
  "parse_float s = Some (Fin q) \<Longrightarrow> - of_int dbl < q \<and> q < of_int dbl"
  by (auto simp: parse_float_def clip_float_Fin Let_def split: if_splits)

lemma of_int_range: "\<bar>n\<bar> < dbl \<Longrightarrow> - of_int dbl < (of_int n :: rat) \<and> (of_int n :: rat) < of_int dbl"
  by (metis abs_less_iff minus_less_iff of_int_less_iff of_int_minus)

lemma py_float_range:
  assumes "py_float v = Inr (Fin q)"
  shows "- of_int dbl < q \<and> q < of_int dbl"
proof (cases v)
  case (VInt n)
  with assms show ?thesis by (auto dest!: of_int_range split: if_splits)
next
  case (VFloat f)
  with assms show ?thesis by (cases f) (auto simp: clip_float_Fin)
next
  case (VStr s)
  with assms show ?thesis by (auto dest!: parse_float_range split: option.splits)
next
  case (VBool b)
  with assms have "q = of_int 0 \<or> q = of_int 1" by (auto split: if_splits)
  then show ?thesis using of_int_range [of 0] of_int_range [of 1] by auto
qed (use assms in auto)

lemma trunc_of_int [py_simps, simp]: "trunc_rat (of_int n) = n"
  by (simp add: trunc_rat_def)

lemma trunc_nonneg: "0 \<le> q \<Longrightarrow> 0 \<le> trunc_rat q"
  by (simp add: trunc_rat_def)

lemma py_float_int: "\<bar>n\<bar> < dbl \<Longrightarrow> py_float (VInt n) = Inr (Fin (of_int n))"
  by simp

end
