(* ===== verification/Dag_Context.thy ===== *)
theory Dag_Context
  imports Prelude
begin

text \<open>
  Workflow affinity: \<open>maze/core/scheduler/dag_context.py\<close>. The manager remembers the node the first
  task of a workflow ran on and counts, per node, the workflows that prefer it; the resource manager
  orders its candidates by both. A workflow id is \<open>None\<close> or a string, and \<open>present\<close> is its truth value.
\<close>

definition present :: "string option \<Rightarrow> bool" where
  "present w = (case w of None \<Rightarrow> False | Some s \<Rightarrow> s \<noteq> [])"

record dag_context =
  ctx_workflow_id :: string
  preferred_node :: string
  preferred_ip :: string
  created_time :: time
  last_used_time :: time
  selected_task_count :: nat

record dag_contexts =
  run2ctx :: "(string, dag_context) dict"
  node_load_counter :: "(string, int) dict"

definition no_contexts :: dag_contexts where
  "no_contexts = \<lparr>run2ctx = [], node_load_counter = []\<rparr>"

definition touch :: "time \<Rightarrow> dag_context \<Rightarrow> dag_context" where
  "touch now c = c\<lparr>last_used_time := now, selected_task_count := selected_task_count c + 1\<rparr>"

definition get_context :: "dag_contexts \<Rightarrow> string option \<Rightarrow> dag_context option" where
  "get_context m w = (if present w then map_of (run2ctx m) (the w) else None)"

definition preferred_node_id :: "dag_contexts \<Rightarrow> string option \<Rightarrow> string option" where
  "preferred_node_id m w = map_option preferred_node (get_context m w)"

definition node_context_load :: "dag_contexts \<Rightarrow> string \<Rightarrow> int" where
  "node_context_load m n = dgetd (node_load_counter m) n 0"

text \<open>\<open>counter[n] += k\<close>: a missing entry counts as zero.\<close>

definition counter_add :: "string \<Rightarrow> int \<Rightarrow> (string, int) dict \<Rightarrow> (string, int) dict" where
  "counter_add n k c = dput n (dgetd c n 0 + k) c"

definition record_selection ::
    "time \<Rightarrow> dag_contexts \<Rightarrow> string option \<Rightarrow> string \<Rightarrow> string
     \<Rightarrow> dag_contexts \<times> dag_context option \<times> bool" where
  "record_selection now m w node_id node_ip =
     (if \<not> present w then (m, None, False)
      else (case map_of (run2ctx m) (the w) of
              None \<Rightarrow>
                (let c = touch now \<lparr>ctx_workflow_id = the w, preferred_node = node_id,
                           preferred_ip = node_ip, created_time = now, last_used_time = now,
                           selected_task_count = 0\<rparr>
                 in (\<lparr>run2ctx = dput (the w) c (run2ctx m),
                      node_load_counter = counter_add node_id 1 (node_load_counter m)\<rparr>, Some c, True))
            | Some c0 \<Rightarrow>
                (let c = touch now c0
                 in (m\<lparr>run2ctx := dput (the w) c (run2ctx m)\<rparr>, Some c, False))))"

definition counter_drop :: "string \<Rightarrow> (string, int) dict \<Rightarrow> (string, int) dict" where
  "counter_drop n c =
     (if dhas n c then
        (let c' = counter_add n (- 1) c in if dgetd c' n 0 \<le> 0 then ddel n c' else c')
      else c)"

definition release_context :: "dag_contexts \<Rightarrow> string option \<Rightarrow> dag_contexts \<times> bool" where
  "release_context m w =
     (if \<not> present w then (m, False)
      else (case map_of (run2ctx m) (the w) of
              None \<Rightarrow> (m, False)
            | Some c \<Rightarrow> (\<lparr>run2ctx = ddel (the w) (run2ctx m),
                          node_load_counter = counter_drop (preferred_node c) (node_load_counter m)\<rparr>,
                        True)))"

definition release_node_contexts :: "dag_contexts \<Rightarrow> string \<Rightarrow> dag_contexts \<times> string list" where
  "release_node_contexts m n =
     (let released = map fst (filter (\<lambda>(w, c). preferred_node c = n) (run2ctx m))
      in (foldl (\<lambda>m w. fst (release_context m (Some w))) m released, released))"

section \<open>The counter is the number of contexts\<close>

text \<open>
  The number of contexts that prefer a node, and the invariant: contexts are stored under their own
  non-empty workflow id, and the counter holds exactly the positive numbers.
\<close>

definition contexts_on :: "dag_contexts \<Rightarrow> string \<Rightarrow> int" where
  "contexts_on m n = dsum (\<lambda>_ c. if preferred_node c = n then 1 else 0) (run2ctx m)"

definition contexts_ok :: "dag_contexts \<Rightarrow> bool" where
  "contexts_ok m \<longleftrightarrow>
     dict_ok (run2ctx m) \<and> dict_ok (node_load_counter m)
     \<and> (\<forall>w c. map_of (run2ctx m) w = Some c \<longrightarrow> w \<noteq> [] \<and> ctx_workflow_id c = w)
     \<and> (\<forall>n. map_of (node_load_counter m) n
             = (if contexts_on m n = 0 then None else Some (contexts_on m n)))"

lemma contexts_ok_load: "contexts_ok m \<Longrightarrow> node_context_load m n = contexts_on m n"
  by (simp add: contexts_ok_def node_context_load_def dgetd_def split: option.splits)

lemma contexts_on_nonneg: "0 \<le> contexts_on m n"
  by (auto simp: contexts_on_def intro!: dsum_nonneg)

lemma contexts_ok_empty: "contexts_ok no_contexts"
  by (simp add: contexts_ok_def no_contexts_def contexts_on_def)

lemma dsum_dput_same:
  "dict_ok d \<Longrightarrow> map_of d k = Some v \<Longrightarrow> f k v' = f k v \<Longrightarrow> dsum f (dput k v' d) = dsum f d"
  by (induction d) (auto simp: dput_def dict_ok_def dsum_def split: if_splits)

lemma contexts_on_new:
  assumes "\<not> dhas w (run2ctx m)"
  shows "contexts_on \<lparr>run2ctx = dput w c (run2ctx m), node_load_counter = l\<rparr> n
         = contexts_on m n + (if preferred_node c = n then 1 else 0)"
  by (simp add: contexts_on_def dsum_dput_new [OF assms])

lemma contexts_on_drop:
  assumes "dict_ok (run2ctx m)" and "map_of (run2ctx m) w = Some c"
  shows "contexts_on \<lparr>run2ctx = ddel w (run2ctx m), node_load_counter = l\<rparr> n
         = contexts_on m n - (if preferred_node c = n then 1 else 0)"
  by (simp add: contexts_on_def dsum_ddel [OF assms])

lemma contexts_on_pos:
  assumes "contexts_ok m" and "map_of (run2ctx m) w = Some c"
  shows "0 < contexts_on m (preferred_node c)"
proof -
  have ok: "dict_ok (run2ctx m)" using assms(1) by (simp add: contexts_ok_def)
  have "0 \<le> contexts_on \<lparr>run2ctx = ddel w (run2ctx m), node_load_counter = []\<rparr> (preferred_node c)"
    by (rule contexts_on_nonneg)
  then show ?thesis by (simp add: contexts_on_drop [OF ok assms(2)])
qed

lemma dict_ok_counter_drop: "dict_ok c \<Longrightarrow> dict_ok (counter_drop n c)"
  by (auto simp: counter_drop_def counter_add_def Let_def)

lemma counter_drop_spec:
  assumes "map_of c n = (if k = 0 then None else Some k)" and "0 < k"
  shows "map_of (counter_drop n c) x =
     (if x = n then (if k - 1 = 0 then None else Some (k - 1)) else map_of c x)"
  using assms by (auto simp: counter_drop_def counter_add_def Let_def dgetd_def dhas_iff)

lemma record_selection_ok:
  assumes "contexts_ok m"
  shows "contexts_ok (fst (record_selection now m w node_id node_ip))"
proof (cases "present w")
  case True
  then obtain v where w: "w = Some v" "v \<noteq> []" by (auto simp: present_def split: option.splits)
  show ?thesis
  proof (cases "map_of (run2ctx m) v")
    case None
    then have new: "\<not> dhas v (run2ctx m)" by (simp add: dhas_iff)
    have nn: "0 \<le> contexts_on m n" for n by (rule contexts_on_nonneg)
    then have nz: "contexts_on m n + 1 \<noteq> 0" for n by (metis add_nonneg_eq_0_iff zero_le_one zero_neq_one)
    show ?thesis
      using assms w None nz True
      by (auto simp: record_selection_def contexts_ok_def Let_def contexts_on_new [OF new] touch_def
          counter_add_def dgetd_def)
  next
    case (Some c)
    have ok: "dict_ok (run2ctx m)" using assms by (simp add: contexts_ok_def)
    have "contexts_on (m\<lparr>run2ctx := dput v (touch now c) (run2ctx m)\<rparr>) n = contexts_on m n" for n
      by (simp add: contexts_on_def touch_def dsum_dput_same [OF ok Some])
    then show ?thesis
      using assms w Some True
      by (auto simp: record_selection_def contexts_ok_def Let_def touch_def)
  qed
qed (simp add: record_selection_def assms)

lemma release_context_ok:
  assumes "contexts_ok m"
  shows "contexts_ok (fst (release_context m w))"
proof (cases "present w \<and> map_of (run2ctx m) (the w) \<noteq> None")
  case True
  then obtain c where c: "map_of (run2ctx m) (the w) = Some c" by auto
  have ok: "dict_ok (run2ctx m)" "dict_ok (node_load_counter m)" using assms by (auto simp: contexts_ok_def)
  have pos: "0 < contexts_on m (preferred_node c)" by (rule contexts_on_pos [OF assms c])
  have cnt: "map_of (node_load_counter m) n
      = (if contexts_on m n = 0 then None else Some (contexts_on m n))" for n
    using assms by (simp add: contexts_ok_def)
  show ?thesis
    using assms True c ok
    by (auto simp: release_context_def contexts_ok_def contexts_on_drop [OF ok(1) c]
        counter_drop_spec [OF cnt pos] dict_ok_counter_drop)
qed (auto simp: release_context_def assms split: option.splits)

lemma fold_release_ok:
  "contexts_ok m \<Longrightarrow> contexts_ok (foldl (\<lambda>m w. fst (release_context m (Some w))) m ws)"
  by (rule foldl_invariant) (auto intro: release_context_ok)

lemma release_node_ok: "contexts_ok m \<Longrightarrow> contexts_ok (fst (release_node_contexts m n))"
  by (simp add: release_node_contexts_def Let_def fold_release_ok)

lemma release_context_lookup:
  "map_of (run2ctx (fst (release_context m w))) v =
     (if present w \<and> w = Some v then None else map_of (run2ctx m) v)"
  by (auto simp: release_context_def present_def split: option.splits)

lemma fold_release_lookup:
  "[] \<notin> set ws \<Longrightarrow>
   map_of (run2ctx (foldl (\<lambda>m w. fst (release_context m (Some w))) m ws)) v =
     (if v \<in> set ws then None else map_of (run2ctx m) v)"
  by (induction ws arbitrary: m) (auto simp: release_context_lookup present_def)

lemma release_node_lookup:
  assumes "contexts_ok m"
  shows "map_of (run2ctx (fst (release_node_contexts m n))) v =
     (case map_of (run2ctx m) v of None \<Rightarrow> None
      | Some c \<Rightarrow> if preferred_node c = n then None else Some c)"
proof -
  let ?ws = "map fst (filter (\<lambda>(w, c). preferred_node c = n) (run2ctx m))"
  have ok: "dict_ok (run2ctx m)" using assms by (simp add: contexts_ok_def)
  have mem: "w \<in> set ?ws \<longleftrightarrow> (\<exists>c. map_of (run2ctx m) w = Some c \<and> preferred_node c = n)" for w
    using in_dict_iff [OF ok] by force
  moreover have "[] \<notin> set ?ws" using assms unfolding mem contexts_ok_def by blast
  ultimately show ?thesis
    by (auto simp: release_node_contexts_def Let_def fold_release_lookup simp del: set_map split: option.splits)
qed

section \<open>The contract the resource manager relies on\<close>

text \<open>
  What the resource manager needs of the affinity store: the operations keep its invariant, a first
  selection fixes the preferred node, later ones keep it, and a released node is preferred by nobody.
\<close>

locale affinity_store =
  fixes ok :: "'m \<Rightarrow> bool"
    and prefers :: "'m \<Rightarrow> string option \<Rightarrow> string option"
    and load :: "'m \<Rightarrow> string \<Rightarrow> int"
    and select :: "time \<Rightarrow> 'm \<Rightarrow> string option \<Rightarrow> string \<Rightarrow> string \<Rightarrow> 'm"
    and release :: "'m \<Rightarrow> string option \<Rightarrow> 'm"
    and release_node :: "'m \<Rightarrow> string \<Rightarrow> 'm"
  assumes select_ok: "ok m \<Longrightarrow> ok (select t m w n ip)"
    and release_ok: "ok m \<Longrightarrow> ok (release m w)"
    and node_ok: "ok m \<Longrightarrow> ok (release_node m n)"
    and prefers_absent: "\<not> present w \<Longrightarrow> prefers m w = None"
    and select_prefers: "present w \<Longrightarrow>
      prefers (select t m w n ip) w = (case prefers m w of None \<Rightarrow> Some n | Some x \<Rightarrow> Some x)"
    and select_other: "v \<noteq> w \<Longrightarrow> prefers (select t m w n ip) v = prefers m v"
    and release_prefers: "prefers (release m w) v = (if v = w then None else prefers m v)"
    and node_prefers: "ok m \<Longrightarrow>
      prefers (release_node m n) v = (if prefers m v = Some n then None else prefers m v)"
    and load_nonneg: "ok m \<Longrightarrow> 0 \<le> load m n"
    and load_used: "ok m \<Longrightarrow> prefers m w = Some n \<Longrightarrow> 0 < load m n"
begin

lemma affinity_sticks:
  assumes "present w" and "prefers m w = Some n"
  shows "prefers (select t m w n' ip) w = Some n"
  using assms by (simp add: select_prefers)

lemma affinity_sticks_many:
  assumes "present w" and "prefers m w = Some n"
  shows "prefers (foldl (\<lambda>m (t, v, n', ip). select t m v n' ip) m sels) w = Some n"
  using assms
proof (induction sels arbitrary: m)
  case (Cons s sels)
  obtain t v n' ip where s: "s = (t, v, n', ip)" by (cases s)
  have "prefers (select t m v n' ip) w = Some n"
    using Cons.prems affinity_sticks select_other by (cases "v = w") auto
  with Cons s show ?case by simp
qed simp

lemma released_node_unused: "ok m \<Longrightarrow> prefers (release_node m n) v \<noteq> Some n"
  by (simp add: node_prefers)

lemma release_undoes_first:
  assumes "prefers m w = None"
  shows "prefers (release (select t m w n ip) w) v = prefers m v"
  using assms by (simp add: release_prefers select_other)

end

lemma pnode_iff: "preferred_node_id m (Some v) =
    (if v = [] then None else map_option preferred_node (map_of (run2ctx m) v))"
  by (simp add: preferred_node_id_def get_context_def present_def)

interpretation affinity: affinity_store
    contexts_ok preferred_node_id node_context_load
    "\<lambda>t m w n ip. fst (record_selection t m w n ip)"
    "\<lambda>m w. fst (release_context m w)"
    "\<lambda>m n. fst (release_node_contexts m n)"
proof (unfold_locales, goal_cases)
  case (4 w m)
  then show ?case by (simp add: preferred_node_id_def get_context_def)
next
  case (5 w t m n ip)
  then show ?case
    by (auto simp: record_selection_def pnode_iff present_def touch_def Let_def split: option.splits)
next
  case (6 v w t m n ip)
  then show ?case
    by (cases v) (auto simp: record_selection_def pnode_iff present_def Let_def
        preferred_node_id_def get_context_def split: option.splits)
next
  case (7 m w v)
  then show ?case
    by (cases v) (auto simp: pnode_iff release_context_lookup present_def preferred_node_id_def get_context_def)
next
  case (8 m n v)
  then show ?case
    by (cases v) (auto simp: pnode_iff release_node_lookup preferred_node_id_def get_context_def present_def
        split: option.splits)
next
  case (10 m w n)
  then show ?case
    by (auto simp: preferred_node_id_def get_context_def contexts_ok_load contexts_on_pos split: if_splits)
qed (simp_all add: record_selection_ok release_context_ok release_node_ok contexts_ok_load contexts_on_nonneg)

section \<open>Histories\<close>

text \<open>One call of the manager's mutating operations.\<close>

inductive context_step :: "dag_contexts \<Rightarrow> dag_contexts \<Rightarrow> bool" where
  step_record: "context_step m (fst (record_selection now m w node_id node_ip))"
| step_release: "context_step m (fst (release_context m w))"
| step_release_node: "context_step m (fst (release_node_contexts m n))"

lemma context_steps_ok: "context_step\<^sup>*\<^sup>* no_contexts m \<Longrightarrow> contexts_ok m"
  by (induction rule: rtranclp_induct)
    (auto simp: contexts_ok_empty elim!: context_step.cases
      intro: record_selection_ok release_context_ok release_node_ok)

lemma dsum_indicator:
  "dsum (\<lambda>k v. if p k v then 1 else (0::int)) d = int (length (filter (\<lambda>(k, v). p k v) d))"
  by (induction d) (auto simp: dsum_def)

text \<open>
  After any sequence of selections and releases, the load of a node that the scheduler sorts by
  is the number of workflows whose context prefers that node, and only positive loads are stored.
\<close>

theorem context_load_exact:
  assumes "context_step\<^sup>*\<^sup>* no_contexts m"
  shows "node_context_load m n = int (length (filter (\<lambda>(w, c). preferred_node c = n) (run2ctx m)))
    \<and> (dhas n (node_load_counter m) \<longleftrightarrow> 0 < node_context_load m n)"
proof -
  have ok: "contexts_ok m" by (rule context_steps_ok [OF assms])
  then have "dhas n (node_load_counter m) \<longleftrightarrow> contexts_on m n \<noteq> 0"
    by (simp add: contexts_ok_def dhas_iff)
  then show ?thesis
    using contexts_on_nonneg [of m n]
    by (simp add: contexts_ok_load [OF ok]) (auto simp: contexts_on_def dsum_indicator)
qed

theorem context_load_exact_witness:
  "node_context_load (fst (record_selection 5 no_contexts (Some ''w1'') ''n1'' ''ip1'')) ''n1'' = 1"
proof -
  let ?m = "fst (record_selection 5 no_contexts (Some ''w1'') ''n1'' ''ip1'')"
  have "context_step\<^sup>*\<^sup>* no_contexts ?m" by (intro r_into_rtranclp step_record)
  from context_load_exact [OF this, of "''n1''"] show ?thesis
    by (simp add: record_selection_def no_contexts_def present_def touch_def Let_def dput_def)
qed

end
