(* ===== verification/Cluster.thy ===== *)
theory Cluster
  imports PyValue Dag_Context "HOL-Library.List_Lexorder" "HOL-Library.Char_ord"
begin

text \<open>
  The cluster's ledger: \<open>Node\<close> and the state, leases and membership operations of
  \<open>ResourceManager\<close> in \<open>maze/core/scheduler/resource.py\<close>. Ray's answer to \<open>ray.nodes()\<close> and the clock
  are arguments of the operations. Amounts are exact rationals; a resource dictionary with a missing
  entry is the record whose entry is 0, as every read uses \<open>.get(key, 0)\<close>.
\<close>

section \<open>Data\<close>

record gpu_res =
  gpu_num :: rat
  gpu_mem :: rat
  gpu_capacity :: "rat option"

record node_res =
  res_cpu :: rat
  res_cpu_mem :: rat
  res_gpus :: "(int, gpu_res) dict"

record node =
  node_id :: string
  node_ip :: string
  available :: node_res
  total :: node_res
  capabilities :: "(string, pyval) dict"
  registered_time :: time
  last_seen_time :: time
  last_ray_seen_time :: time
  last_update_time :: time

text \<open>What a task or instance asks for (\<open>task_need_resources\<close>).\<close>

record need =
  need_cpu :: rat
  need_cpu_mem :: rat
  need_gpu :: rat
  need_gpu_mem :: rat
  need_node :: "string option"
  need_target :: "string option"
  need_avoid :: "string list"
  need_capability :: "string option"

record lease =
  lease_kind :: string
  lease_run :: "string option"
  lease_task :: "string option"
  lease_attempt :: "int option"
  lease_dispatch :: "string option"
  lease_node :: string
  lease_gpu :: "int option"
  lease_need :: need

record manager =
  head_node_id :: "string option"
  head_node_ip :: "string option"
  nodes :: "(string, node) dict"
  active_leases :: "(string, lease) dict"
  running_task_counts :: "(string, int) dict"
  disabled_node_ids :: "string set"
  contexts :: dag_contexts
  scheduling_policy :: string
  last_dead_check :: "time option"

text \<open>A node as Ray reports it, and \<open>ray.nodes()\<close>: \<open>None\<close> when the query raises.\<close>

record ray_node =
  ray_alive :: bool
  ray_address :: "string option"

type_synonym ray = "(string \<times> ray_node) list option"

definition empty_manager :: manager where
  "empty_manager = \<lparr>head_node_id = None, head_node_ip = None, nodes = [], active_leases = [],
     running_task_counts = [], disabled_node_ids = {}, contexts = no_contexts,
     scheduling_policy = ''default'', last_dead_check = None\<rparr>"

definition new_node ::
    "time \<Rightarrow> string \<Rightarrow> string \<Rightarrow> node_res \<Rightarrow> node_res \<Rightarrow> (string, pyval) dict \<Rightarrow> node" where
  "new_node now nid ip avail tot caps =
     \<lparr>node_id = nid, node_ip = ip, available = avail, total = tot,
      capabilities = (if caps = [] then [(''workspace_sandbox'', VBool True)] else caps),
      registered_time = now, last_seen_time = now, last_ray_seen_time = now, last_update_time = now\<rparr>"

section \<open>Ray membership\<close>

definition ray_node_index :: "ray \<Rightarrow> (string, ray_node) dict option" where
  "ray_node_index r = map_option (foldl (\<lambda>d (k, v). dput k v d) []) r"

definition is_node_alive :: "(string, ray_node) dict \<Rightarrow> string \<Rightarrow> bool" where
  "is_node_alive ray n = (case map_of ray n of None \<Rightarrow> False | Some r \<Rightarrow> ray_alive r)"

section \<open>Re-registration of a node\<close>

text \<open>Python compares dictionaries without regard to order.\<close>

definition same_dict :: "('k, 'v) dict \<Rightarrow> ('k, 'v) dict \<Rightarrow> bool" where
  "same_dict a b = (length a = length b \<and> list_all (\<lambda>(k, v). map_of b k = Some v) a)"

definition same_res :: "node_res \<Rightarrow> node_res \<Rightarrow> bool" where
  "same_res a b = (res_cpu a = res_cpu b \<and> res_cpu_mem a = res_cpu_mem b
                   \<and> same_dict (res_gpus a) (res_gpus b))"

text \<open>What is in use of a GPU: its total less its available amount (an absent one counts 0).\<close>

definition used_gpu :: "node_res \<Rightarrow> int \<Rightarrow> gpu_res \<Rightarrow> rat \<times> rat" where
  "used_gpu avail g t =
     (case map_of (res_gpus avail) g of
        None \<Rightarrow> (gpu_num t, gpu_mem t)
      | Some a \<Rightarrow> (gpu_num t - gpu_num a, gpu_mem t - gpu_mem a))"

definition less_used :: "rat \<times> rat \<Rightarrow> gpu_res \<Rightarrow> gpu_res" where
  "less_used u a = a\<lparr>gpu_num := max 0 (gpu_num a - fst u), gpu_mem := max 0 (gpu_mem a - snd u)\<rparr>"

definition update_registration ::
    "time \<Rightarrow> string \<Rightarrow> node_res \<Rightarrow> (string, pyval) dict \<Rightarrow> node \<Rightarrow> node \<times> string" where
  "update_registration now ip res caps nd =
     (let nd1 = nd\<lparr>last_seen_time := now, node_ip := ip,
                  capabilities := (if caps = [] then capabilities nd else caps)\<rparr>
      in if same_res res (total nd) then (nd1, ''already_registered'')
         else
           (let t = total nd; a = available nd;
                used = dmapv (used_gpu a) (res_gpus t);
                gpus = foldl (\<lambda>gs (g, u). case map_of gs g of None \<Rightarrow> gs
                                          | Some x \<Rightarrow> dput g (less_used u x) gs) (res_gpus res) used
            in (nd1\<lparr>total := res,
                    available := \<lparr>res_cpu = max 0 (res_cpu res - (res_cpu t - res_cpu a)),
                                  res_cpu_mem = max 0 (res_cpu_mem res - (res_cpu_mem t - res_cpu_mem a)),
                                  res_gpus = gpus\<rparr>,
                    last_update_time := now\<rparr>, ''updated'')))"

section \<open>Recomputing what is available\<close>

text \<open>
  The loop of \<open>_recompute_node_available_resources\<close>: CPU, memory and, per GPU, the reservations of
  the leases on one node.
\<close>

type_synonym reserved = "rat \<times> rat \<times> (int, rat \<times> rat) dict"

definition reserve_step :: "string \<Rightarrow> reserved \<Rightarrow> lease \<Rightarrow> reserved" where
  "reserve_step n acc l =
     (if lease_node l \<noteq> n then acc
      else
        (let (c, m, gs) = acc; r = lease_need l;
             c' = c + need_cpu r; m' = m + need_cpu_mem r
         in case lease_gpu l of None \<Rightarrow> (c', m', gs)
            | Some g \<Rightarrow>
                (let (a, b) = dgetd gs g (0, 0)
                 in (c', m', dput g (a + need_gpu r, b + need_gpu_mem r) gs))))"

definition recomputed :: "(string, lease) dict \<Rightarrow> string \<Rightarrow> node_res \<Rightarrow> node_res" where
  "recomputed leases n t =
     (let (c, m, gs) = foldl (reserve_step n) (0, 0, []) (dvals leases)
      in \<lparr>res_cpu = max 0 (res_cpu t - c), res_cpu_mem = max 0 (res_cpu_mem t - m),
          res_gpus = dmapv (\<lambda>g x. less_used (dgetd gs g (0, 0)) x) (res_gpus t)\<rparr>)"

definition recompute_node_available :: "time \<Rightarrow> string \<Rightarrow> manager \<Rightarrow> manager" where
  "recompute_node_available now n m =
     (case map_of (nodes m) n of
        None \<Rightarrow> m
      | Some nd \<Rightarrow> m\<lparr>nodes := dput n (nd\<lparr>available := recomputed (active_leases m) n (total nd),
                                          last_update_time := now\<rparr>) (nodes m)\<rparr>)"

section \<open>Leases\<close>

definition is_task_on :: "string \<Rightarrow> lease \<Rightarrow> bool" where
  "is_task_on n l = (lease_kind l = ''task'' \<and> lease_node l = n)"

definition release_lease :: "time \<Rightarrow> string option \<Rightarrow> manager \<Rightarrow> manager \<times> bool" where
  "release_lease now lid m =
     (case lid of None \<Rightarrow> (m, False)
      | Some i \<Rightarrow>
         (case map_of (active_leases m) i of
            None \<Rightarrow> (m, False)
          | Some l \<Rightarrow>
             (let m1 = m\<lparr>active_leases := ddel i (active_leases m)\<rparr>; n = lease_node l
              in if dhas n (nodes m1)
                 then
                   (let m2 = (if lease_kind l = ''task''
                              then m1\<lparr>running_task_counts :=
                                dput n (max 0 (dgetd (running_task_counts m1) n 0 - 1)) (running_task_counts m1)\<rparr>
                              else m1)
                    in (recompute_node_available now n m2, True))
                 else (m1, True))))"

definition release_task_resource :: "time \<Rightarrow> string option list \<Rightarrow> manager \<Rightarrow> manager" where
  "release_task_resource now lids m = foldl (\<lambda>m l. fst (release_lease now l m)) m lids"

section \<open>Membership\<close>

text \<open>Dropping a node: its counts, its disabled mark and the workflow contexts that prefer it.\<close>

definition drop_node :: "string \<Rightarrow> manager \<Rightarrow> manager" where
  "drop_node n m =
     m\<lparr>nodes := ddel n (nodes m), running_task_counts := ddel n (running_task_counts m),
       disabled_node_ids := disabled_node_ids m - {n},
       contexts := fst (release_node_contexts (contexts m) n)\<rparr>"

definition init_head ::
    "time \<Rightarrow> string \<Rightarrow> string \<Rightarrow> node_res \<Rightarrow> pyval list \<Rightarrow> manager \<Rightarrow> manager" where
  "init_head now nid ip res models m =
     m\<lparr>head_node_id := Some nid, head_node_ip := Some ip,
       nodes := dput nid (new_node now nid ip res res
                 [(''workspace_sandbox'', VBool True), (''local_models'', VList models)]) (nodes m),
       running_task_counts := dsetdefault nid 0 (running_task_counts m)\<rparr>"

text \<open>\<open>check_dead_node\<close>: at most once per half second of the monotonic clock.\<close>

definition check_due :: "time \<Rightarrow> manager \<Rightarrow> bool" where
  "check_due now m = (case last_dead_check m of None \<Rightarrow> True | Some t \<Rightarrow> \<not> now - t < 1 / 2)"

definition check_dead_node :: "time \<Rightarrow> ray \<Rightarrow> manager \<Rightarrow> manager \<times> bool option" where
  "check_dead_node now r m =
     (if \<not> check_due now m then (m, None)
      else
        (let m1 = m\<lparr>last_dead_check := Some now\<rparr>
         in case ray_node_index r of
              None \<Rightarrow> (m1, Some False)
            | Some ray \<Rightarrow> (foldl (\<lambda>m n. if is_node_alive ray n then m else drop_node n m) m1
                            (dkeys (nodes m1)), Some True)))"

definition stop_worker :: "string \<Rightarrow> manager \<Rightarrow> manager result" where
  "stop_worker n m =
     (if dhas n (nodes m)
      then Inr (m\<lparr>nodes := ddel n (nodes m), disabled_node_ids := disabled_node_ids m - {n},
                  contexts := fst (release_node_contexts (contexts m) n)\<rparr>)
      else Inl (KeyError n))"

text \<open>
  Sort keys of the sources are tuples of numbers that may end in an address: compared from left to
  right, as Python compares tuples.
\<close>

datatype rank = Rank "rat list" string

instantiation rank :: linorder
begin

definition less_eq_rank :: "rank \<Rightarrow> rank \<Rightarrow> bool" where
  "less_eq_rank r s = (case (r, s) of (Rank a x, Rank b y) \<Rightarrow> a < b \<or> (a = b \<and> x \<le> y))"

definition less_rank :: "rank \<Rightarrow> rank \<Rightarrow> bool" where
  "less_rank r s = (case (r, s) of (Rank a x, Rank b y) \<Rightarrow> a < b \<or> (a = b \<and> x < y))"

instance
  by standard (auto simp: less_eq_rank_def less_rank_def split: rank.splits)

end

lemma rank_le [simp]: "Rank a x \<le> Rank b y \<longleftrightarrow> a < b \<or> (a = b \<and> x \<le> y)"
  by (simp add: less_eq_rank_def)

section \<open>The cluster snapshot\<close>

record device =
  dev_id :: int
  dev_total_count :: rat
  dev_available_count :: rat
  dev_total_memory :: rat
  dev_available_memory :: rat

record gpu_view =
  view_total_count :: rat
  view_available_count :: rat
  view_devices :: "device list"

definition gpu_or_zero :: "(int, gpu_res) dict \<Rightarrow> int \<Rightarrow> gpu_res" where
  "gpu_or_zero d g = dgetd d g \<lparr>gpu_num = 0, gpu_mem = 0, gpu_capacity = None\<rparr>"

definition gpu_snapshot :: "node \<Rightarrow> gpu_view" where
  "gpu_snapshot nd =
     (let ts = res_gpus (total nd); avs = res_gpus (available nd);
          ids = sort (dedup (dkeys ts @ dkeys avs))
      in \<lparr>view_total_count = sum_list (map (\<lambda>g. gpu_num (gpu_or_zero ts g)) ids),
          view_available_count = sum_list (map (\<lambda>g. gpu_num (gpu_or_zero avs g)) ids),
          view_devices = map (\<lambda>g. \<lparr>dev_id = g,
              dev_total_count = gpu_num (gpu_or_zero ts g), dev_available_count = gpu_num (gpu_or_zero avs g),
              dev_total_memory = gpu_mem (gpu_or_zero ts g),
              dev_available_memory = gpu_mem (gpu_or_zero avs g)\<rparr>) ids\<rparr>)"

record node_row =
  row_id :: string
  row_ip :: string
  row_head :: bool
  row_alive :: "bool option"
  row_disabled :: bool
  row_stale :: bool
  row_running :: int
  row_cpu :: "rat \<times> rat"
  row_cpu_mem :: "rat \<times> rat"
  row_gpu :: gpu_view

definition worker_stale_after :: time where "worker_stale_after = 30"

definition refresh_head_models :: "pyval list \<Rightarrow> manager \<Rightarrow> manager" where
  "refresh_head_models models m =
     (case head_node_id m of None \<Rightarrow> m
      | Some h \<Rightarrow> (case map_of (nodes m) h of None \<Rightarrow> m
          | Some nd \<Rightarrow> m\<lparr>nodes := dput h (nd\<lparr>capabilities :=
                dput ''local_models'' (VList models) (capabilities nd)\<rparr>) (nodes m)\<rparr>))"

definition make_row :: "time \<Rightarrow> manager \<Rightarrow> string \<Rightarrow> node \<Rightarrow> bool option \<Rightarrow> node_row" where
  "make_row now m n nd alive =
     \<lparr>row_id = n, row_ip = node_ip nd, row_head = (Some n = head_node_id m), row_alive = alive,
      row_disabled = (n \<in> disabled_node_ids m),
      row_stale = (Some n \<noteq> head_node_id m \<and> alive = Some True \<and> worker_stale_after < now - last_seen_time nd),
      row_running = dgetd (running_task_counts m) n 0,
      row_cpu = (res_cpu (total nd), res_cpu (available nd)),
      row_cpu_mem = (res_cpu_mem (total nd), res_cpu_mem (available nd)),
      row_gpu = gpu_snapshot nd\<rparr>"

text \<open>
  One turn of the loop over the registered nodes: with an answer from Ray, a node Ray does not list
  makes \<open>ray_node.get\<close> fail on \<open>None\<close>; without one, the liveness is unknown.
\<close>

definition row_step ::
    "time \<Rightarrow> (string, ray_node) dict option \<Rightarrow> manager \<times> node_row list result \<Rightarrow> string
     \<Rightarrow> manager \<times> node_row list result" where
  "row_step now ray acc n =
     (case acc of
        (m, Inl e) \<Rightarrow> (m, Inl e)
      | (m, Inr rows) \<Rightarrow>
          (case map_of (nodes m) n of
             None \<Rightarrow> (m, Inr rows)
           | Some nd \<Rightarrow>
               (case ray of
                  None \<Rightarrow> (m, Inr (rows @ [make_row now m n nd None]))
                | Some idx \<Rightarrow>
                    (case map_of idx n of
                       None \<Rightarrow> (m, Inl (AttributeError ''NoneType object has no attribute get''))
                     | Some r \<Rightarrow>
                         (let nd1 = (if ray_alive r then nd\<lparr>last_ray_seen_time := now\<rparr> else nd);
                              m1 = m\<lparr>nodes := dput n nd1 (nodes m)\<rparr>
                          in (m1, Inr (rows @ [make_row now m1 n nd1 (Some (ray_alive r))])))))))"

record cluster_view =
  cl_head :: "string option"
  cl_ray_available :: bool
  cl_policy :: string
  cl_disabled :: "string set"
  cl_nodes :: "node_row list"
  cl_unregistered :: "(string \<times> string option) list"

definition unregistered_rows :: "(string, ray_node) dict \<Rightarrow> manager \<Rightarrow> (string \<times> string option) list" where
  "unregistered_rows ray m =
     map (\<lambda>(n, r). (n, ray_address r)) (filter (\<lambda>(n, r). \<not> dhas n (nodes m) \<and> ray_alive r) ray)"

definition get_cluster_resources ::
    "time \<Rightarrow> ray \<Rightarrow> pyval list \<Rightarrow> manager \<Rightarrow> manager \<times> cluster_view result" where
  "get_cluster_resources now r models m =
     (let m0 = refresh_head_models models m; ray = ray_node_index r;
          (m1, rows) = foldl (row_step now ray) (m0, Inr []) (dkeys (nodes m0))
      in (m1, rbind rows (\<lambda>rs. Inr
           \<lparr>cl_head = head_node_id m1, cl_ray_available = (ray \<noteq> None), cl_policy = scheduling_policy m1,
            cl_disabled = disabled_node_ids m1,
            cl_nodes = sort_key (\<lambda>x. Rank [if row_head x then 0 else 1] (row_ip x)) rs,
            cl_unregistered = sort_key (\<lambda>x. Rank [] (case snd x of None \<Rightarrow> [] | Some a \<Rightarrow> a))
              (unregistered_rows (case ray of None \<Rightarrow> [] | Some d \<Rightarrow> d) m1)\<rparr>)))"

text \<open>The answer of \<open>set_node_disabled\<close> holds a snapshot, taken after the change.\<close>

definition set_node_disabled ::
    "time \<Rightarrow> ray \<Rightarrow> pyval list \<Rightarrow> string \<Rightarrow> bool \<Rightarrow> manager
     \<Rightarrow> manager \<times> (bool \<times> cluster_view) result" where
  "set_node_disabled now r models n disabled m =
     (if Some n = head_node_id m \<and> disabled then (m, Inl (ValueError ''head node cannot be disabled''))
      else if \<not> dhas n (nodes m) then (m, Inl (KeyError (''node not registered: '' @ n)))
      else
        (let m1 = m\<lparr>disabled_node_ids := (if disabled then insert n (disabled_node_ids m)
                                         else disabled_node_ids m - {n})\<rparr>;
             (m2, view) = get_cluster_resources now r models m1
         in (m2, rbind view (\<lambda>v. Inr (n \<in> disabled_node_ids m1, v)))))"

definition supported_policies :: "(string \<times> bool) list" where
  "supported_policies = [(''default'', True), (''least-loaded'', True),
                         (''prefer-gpu-free'', False), (''spread'', False)]"

definition set_scheduling_policy :: "string option \<Rightarrow> manager \<Rightarrow> manager" where
  "set_scheduling_policy p m =
     (let s = py_lower (py_strip (case p of None \<Rightarrow> ''default'' | Some x \<Rightarrow> if x = [] then ''default'' else x))
      in m\<lparr>scheduling_policy := (if dhas s supported_policies then s else ''default'')\<rparr>)"

text \<open>Worker registration. GPU ids arrive as strings; \<open>int(k)\<close> may raise.\<close>

record worker_res =
  wres_cpu :: rat
  wres_cpu_mem :: rat
  wres_gpus :: "(string, gpu_res) dict"

datatype registration =
    RayUnavailable
  | ClusterMismatch "string list"
  | Registered string string "string list"

definition int_keys :: "(string, 'v) dict \<Rightarrow> (int, 'v) dict result" where
  "int_keys d = rfold (\<lambda>acc (k, v). case parse_int k of
      None \<Rightarrow> Inl (ValueError ''invalid literal for int() with base 10'')
    | Some i \<Rightarrow> Inr (dput i v acc)) [] d"

definition canonical_ip :: "ray_node \<Rightarrow> string \<Rightarrow> string" where
  "canonical_ip r ip = (case ray_address r of None \<Rightarrow> ip | Some a \<Rightarrow> if a = [] then ip else a)"

definition stale_ids :: "(string, ray_node) dict \<Rightarrow> string \<Rightarrow> string \<Rightarrow> manager \<Rightarrow> string list" where
  "stale_ids ray n ip m =
     map fst (filter (\<lambda>(k, nd). k \<noteq> n \<and> node_ip nd = ip \<and> \<not> is_node_alive ray k) (nodes m))"

definition register_node ::
    "time \<Rightarrow> string \<Rightarrow> string \<Rightarrow> node_res \<Rightarrow> (string, pyval) dict \<Rightarrow> manager \<Rightarrow> manager \<times> string" where
  "register_node now n ip res caps m =
     (let (nd, status) =
        (case map_of (nodes m) n of
           Some old \<Rightarrow> update_registration now ip res caps old
         | None \<Rightarrow> (new_node now n ip res res caps, ''created''));
        m1 = m\<lparr>nodes := dput n nd (nodes m)\<rparr>;
        m2 = m1\<lparr>running_task_counts :=
               dput n (int (length (filter (is_task_on n) (dvals (active_leases m1))))) (running_task_counts m1)\<rparr>
      in (recompute_node_available now n m2, status))"

definition start_worker ::
    "time \<Rightarrow> ray \<Rightarrow> string \<Rightarrow> string \<Rightarrow> worker_res \<Rightarrow> (string, pyval) dict \<Rightarrow> manager
     \<Rightarrow> (manager \<times> registration) result" where
  "start_worker now r n ip res caps0 m =
     (case ray_node_index r of
        None \<Rightarrow> Inr (m, RayUnavailable)
      | Some ray \<Rightarrow>
         if \<not> is_node_alive ray n
         then Inr (m, ClusterMismatch (sort (map fst (filter (\<lambda>(k, x). ray_alive x) ray))))
         else
           (let ip' = canonical_ip (the (map_of ray n)) ip;
                caps = (if caps0 = [] then [(''workspace_sandbox'', VBool True)] else caps0)
            in rbind (int_keys (wres_gpus res)) (\<lambda>gpus.
                 (let removed = stale_ids ray n ip' m;
                      m1 = foldl (\<lambda>m k. drop_node k m) m removed;
                      reg = register_node now n ip'
                        \<lparr>res_cpu = wres_cpu res, res_cpu_mem = wres_cpu_mem res, res_gpus = gpus\<rparr> caps m1
                  in Inr (fst reg, Registered ip' (snd reg) removed)))))"

section \<open>The ledger: what the leases reserve\<close>

text \<open>The abstract reservation of a node: sums over its leases.\<close>

definition reserved_cpu :: "(string, lease) dict \<Rightarrow> string \<Rightarrow> rat" where
  "reserved_cpu ls n = dsum (\<lambda>_ l. if lease_node l = n then need_cpu (lease_need l) else 0) ls"

definition reserved_mem :: "(string, lease) dict \<Rightarrow> string \<Rightarrow> rat" where
  "reserved_mem ls n = dsum (\<lambda>_ l. if lease_node l = n then need_cpu_mem (lease_need l) else 0) ls"

definition reserved_gpu :: "(string, lease) dict \<Rightarrow> string \<Rightarrow> int \<Rightarrow> rat" where
  "reserved_gpu ls n g =
     dsum (\<lambda>_ l. if lease_node l = n \<and> lease_gpu l = Some g then need_gpu (lease_need l) else 0) ls"

definition reserved_gpu_mem :: "(string, lease) dict \<Rightarrow> string \<Rightarrow> int \<Rightarrow> rat" where
  "reserved_gpu_mem ls n g =
     dsum (\<lambda>_ l. if lease_node l = n \<and> lease_gpu l = Some g then need_gpu_mem (lease_need l) else 0) ls"

definition tasks_on :: "(string, lease) dict \<Rightarrow> string \<Rightarrow> int" where
  "tasks_on ls n = dsum (\<lambda>_ l. if is_task_on n l then 1 else 0) ls"

lemmas reserved_defs = reserved_cpu_def reserved_mem_def reserved_gpu_def reserved_gpu_mem_def tasks_on_def

lemma reserved_Cons:
  "reserved_cpu ((i, l) # ls) n = (if lease_node l = n then need_cpu (lease_need l) else 0) + reserved_cpu ls n"
  "reserved_mem ((i, l) # ls) n = (if lease_node l = n then need_cpu_mem (lease_need l) else 0) + reserved_mem ls n"
  "reserved_gpu ((i, l) # ls) n g =
     (if lease_node l = n \<and> lease_gpu l = Some g then need_gpu (lease_need l) else 0) + reserved_gpu ls n g"
  "reserved_gpu_mem ((i, l) # ls) n g =
     (if lease_node l = n \<and> lease_gpu l = Some g then need_gpu_mem (lease_need l) else 0) + reserved_gpu_mem ls n g"
  by (simp_all add: reserved_defs)

text \<open>The loop computes exactly these sums.\<close>

lemma reserve_loop:
  "\<exists>gs'. foldl (reserve_step n) (c, m, gs) (dvals ls) = (c + reserved_cpu ls n, m + reserved_mem ls n, gs')
     \<and> (\<forall>g. dgetd gs' g (0, 0) =
           (fst (dgetd gs g (0, 0)) + reserved_gpu ls n g, snd (dgetd gs g (0, 0)) + reserved_gpu_mem ls n g))"
proof (induction ls arbitrary: c m gs)
  case Nil
  then show ?case
    by (auto simp: dvals_def reserved_cpu_def reserved_mem_def reserved_gpu_def reserved_gpu_mem_def)
next
  case (Cons p ls)
  obtain k l where p: "p = (k, l)" by (cases p)
  obtain c' m' gs1 where st: "reserve_step n (c, m, gs) l = (c', m', gs1)" by (metis prod_cases3)
  have here: "c' = c + (if lease_node l = n then need_cpu (lease_need l) else 0)"
    "m' = m + (if lease_node l = n then need_cpu_mem (lease_need l) else 0)"
    using st by (auto simp: reserve_step_def Let_def split: if_splits option.splits prod.splits)
  have gpu: "dgetd gs1 g (0, 0) =
      (fst (dgetd gs g (0, 0)) + (if lease_node l = n \<and> lease_gpu l = Some g then need_gpu (lease_need l) else 0),
       snd (dgetd gs g (0, 0)) + (if lease_node l = n \<and> lease_gpu l = Some g then need_gpu_mem (lease_need l) else 0))" for g
    using st
    by (auto simp: reserve_step_def Let_def dgetd_def split: if_splits option.splits prod.splits)
  have e: "foldl (reserve_step n) (c, m, gs) (dvals (p # ls)) = foldl (reserve_step n) (c', m', gs1) (dvals ls)"
    by (simp add: dvals_def p st)
  obtain gs' where gs': "foldl (reserve_step n) (c', m', gs1) (dvals ls)
        = (c' + reserved_cpu ls n, m' + reserved_mem ls n, gs')"
      "\<forall>g. dgetd gs' g (0, 0) = (fst (dgetd gs1 g (0, 0)) + reserved_gpu ls n g,
                              snd (dgetd gs1 g (0, 0)) + reserved_gpu_mem ls n g)"
    using Cons.IH by blast
  have "foldl (reserve_step n) (c, m, gs) (dvals (p # ls))
      = (c + reserved_cpu (p # ls) n, m + reserved_mem (p # ls) n, gs')"
    by (rule trans [OF e trans [OF gs'(1)]]) (simp add: here p reserved_Cons)
  moreover have "dgetd gs' g (0, 0) = (fst (dgetd gs g (0, 0)) + reserved_gpu (p # ls) n g,
      snd (dgetd gs g (0, 0)) + reserved_gpu_mem (p # ls) n g)" for g
    unfolding p reserved_Cons gs'(2) [rule_format] gpu by simp
  ultimately show ?case by blast
qed

lemma recomputed_closed:
  "recomputed ls n t =
     \<lparr>res_cpu = max 0 (res_cpu t - reserved_cpu ls n), res_cpu_mem = max 0 (res_cpu_mem t - reserved_mem ls n),
      res_gpus = dmapv (\<lambda>g x. less_used (reserved_gpu ls n g, reserved_gpu_mem ls n g) x) (res_gpus t)\<rparr>"
proof -
  obtain gs where "foldl (reserve_step n) (0, 0, []) (dvals ls) = (reserved_cpu ls n, reserved_mem ls n, gs)"
      and "\<forall>g. dgetd gs g (0, 0) = (reserved_gpu ls n g, reserved_gpu_mem ls n g)"
    using reserve_loop [of n 0 0 "[]" ls] by auto
  then show ?thesis by (simp add: recomputed_def)
qed

lemma reserved_add:
  assumes "\<not> dhas i ls"
  shows "reserved_cpu (dput i l ls) n = reserved_cpu ls n + (if lease_node l = n then need_cpu (lease_need l) else 0)"
    "reserved_mem (dput i l ls) n = reserved_mem ls n + (if lease_node l = n then need_cpu_mem (lease_need l) else 0)"
    "reserved_gpu (dput i l ls) n g = reserved_gpu ls n g
       + (if lease_node l = n \<and> lease_gpu l = Some g then need_gpu (lease_need l) else 0)"
    "reserved_gpu_mem (dput i l ls) n g = reserved_gpu_mem ls n g
       + (if lease_node l = n \<and> lease_gpu l = Some g then need_gpu_mem (lease_need l) else 0)"
    "tasks_on (dput i l ls) n = tasks_on ls n + (if is_task_on n l then 1 else 0)"
  unfolding reserved_defs by (simp_all only: dsum_dput_new [OF assms])

lemma reserved_drop:
  assumes "dict_ok ls" "map_of ls i = Some l"
  shows "reserved_cpu (ddel i ls) n = reserved_cpu ls n - (if lease_node l = n then need_cpu (lease_need l) else 0)"
    "reserved_mem (ddel i ls) n = reserved_mem ls n - (if lease_node l = n then need_cpu_mem (lease_need l) else 0)"
    "reserved_gpu (ddel i ls) n g = reserved_gpu ls n g
       - (if lease_node l = n \<and> lease_gpu l = Some g then need_gpu (lease_need l) else 0)"
    "reserved_gpu_mem (ddel i ls) n g = reserved_gpu_mem ls n g
       - (if lease_node l = n \<and> lease_gpu l = Some g then need_gpu_mem (lease_need l) else 0)"
    "tasks_on (ddel i ls) n = tasks_on ls n - (if is_task_on n l then 1 else 0)"
  unfolding reserved_defs by (simp_all only: dsum_ddel [OF assms])

lemma tasks_on_length: "tasks_on ls n = int (length (filter (is_task_on n) (dvals ls)))"
  by (induction ls) (auto simp: tasks_on_def dvals_def)

lemma tasks_on_nonneg: "0 \<le> tasks_on ls n"
  by (simp add: tasks_on_length)

definition needs_nonneg :: "need \<Rightarrow> bool" where
  "needs_nonneg r = (0 \<le> need_cpu r \<and> 0 \<le> need_cpu_mem r \<and> 0 \<le> need_gpu r \<and> 0 \<le> need_gpu_mem r)"

text \<open>
  The invariant of the manager. Every registered node holds exactly its total less what the leases
  on it reserve (never below zero), its running-task count is the number of task leases on it, only
  registered nodes are disabled, and the affinity store is consistent.
\<close>

definition node_ok :: "(string, lease) dict \<Rightarrow> string \<Rightarrow> node \<Rightarrow> bool" where
  "node_ok ls n nd = (available nd = recomputed ls n (total nd) \<and> dict_ok (res_gpus (total nd)))"

definition manager_ok :: "manager \<Rightarrow> bool" where
  "manager_ok m \<longleftrightarrow>
     dict_ok (nodes m) \<and> dict_ok (active_leases m) \<and> contexts_ok (contexts m)
     \<and> disabled_node_ids m \<subseteq> set (dkeys (nodes m))
     \<and> (\<forall>i l. map_of (active_leases m) i = Some l \<longrightarrow> needs_nonneg (lease_need l))
     \<and> (\<forall>n nd. map_of (nodes m) n = Some nd \<longrightarrow>
          node_ok (active_leases m) n nd
          \<and> dgetd (running_task_counts m) n 0 = tasks_on (active_leases m) n)"

lemma manager_ok_empty: "manager_ok empty_manager"
  by (simp add: manager_ok_def empty_manager_def contexts_ok_empty)

lemma manager_ok_node:
  "manager_ok m \<Longrightarrow> map_of (nodes m) n = Some nd \<Longrightarrow>
     available nd = recomputed (active_leases m) n (total nd) \<and> dict_ok (res_gpus (total nd))
     \<and> dgetd (running_task_counts m) n 0 = tasks_on (active_leases m) n"
  by (auto simp: manager_ok_def node_ok_def)

lemma recompute_fields [simp]:
  "active_leases (recompute_node_available now n m) = active_leases m"
  "running_task_counts (recompute_node_available now n m) = running_task_counts m"
  "disabled_node_ids (recompute_node_available now n m) = disabled_node_ids m"
  "contexts (recompute_node_available now n m) = contexts m"
  "set (dkeys (nodes (recompute_node_available now n m))) = set (dkeys (nodes m))"
  "dict_ok (nodes (recompute_node_available now n m)) = dict_ok (nodes m)"
  by (auto simp: recompute_node_available_def dkeys_def dict_ok_def dput_def update_keys dom_update
      map_of_eq_None_iff distinct_update split: option.splits)
     (metis map_of_eq_None_iff option.distinct(1))+

section \<open>Every operation keeps the invariant\<close>

lemma recompute_lookup [simp]:
  "map_of (nodes (recompute_node_available now n m)) k =
     (if k = n then map_option (\<lambda>nd. nd\<lparr>available := recomputed (active_leases m) n (total nd),
                                       last_update_time := now\<rparr>) (map_of (nodes m) n)
      else map_of (nodes m) k)"
  by (auto simp: recompute_node_available_def split: option.splits)

text \<open>Recomputing one node establishes the invariant when the others satisfy it.\<close>

lemma recompute_ok:
  assumes "dict_ok (nodes m)" "dict_ok (active_leases m)" "contexts_ok (contexts m)"
    and "disabled_node_ids m \<subseteq> set (dkeys (nodes m))"
    and "\<forall>i l. map_of (active_leases m) i = Some l \<longrightarrow> needs_nonneg (lease_need l)"
    and "\<And>k nd. map_of (nodes m) k = Some nd \<Longrightarrow> k \<noteq> n \<Longrightarrow> node_ok (active_leases m) k nd"
    and "\<And>nd. map_of (nodes m) n = Some nd \<Longrightarrow> dict_ok (res_gpus (total nd))"
    and "\<And>k nd. map_of (nodes m) k = Some nd \<Longrightarrow>
           dgetd (running_task_counts m) k 0 = tasks_on (active_leases m) k"
  shows "manager_ok (recompute_node_available now n m)"
  using assms by (auto simp: manager_ok_def node_ok_def split: if_splits)

lemma recomputed_drop_other:
  assumes "dict_ok ls" "map_of ls i = Some l" "lease_node l \<noteq> k"
  shows "recomputed (ddel i ls) k t = recomputed ls k t"
  using assms(3) by (simp add: recomputed_closed reserved_drop [OF assms(1,2)])

lemma recomputed_add_other:
  assumes "\<not> dhas i ls" "lease_node l \<noteq> k"
  shows "recomputed (dput i l ls) k t = recomputed ls k t"
  using assms(2) by (simp add: recomputed_closed reserved_add [OF assms(1)])

lemma node_ok_gpus: "node_ok ls n nd \<Longrightarrow> dict_ok (res_gpus (total nd))"
  by (simp add: node_ok_def)

lemma release_lease_ok:
  assumes ok: "manager_ok m"
  shows "manager_ok (fst (release_lease now lid m))"
proof (cases "lid = None \<or> map_of (active_leases m) (the lid) = None")
  case True
  then show ?thesis using ok by (auto simp: release_lease_def split: option.splits)
next
  case False
  then obtain i l where i: "lid = Some i" and l: "map_of (active_leases m) i = Some l" by auto
  let ?ls = "ddel i (active_leases m)" and ?n = "lease_node l"
  have d: "dict_ok (active_leases m)" using ok by (simp add: manager_ok_def)
  have task: "tasks_on ?ls k = tasks_on (active_leases m) k - (if is_task_on k l then 1 else 0)" for k
    by (rule reserved_drop(5) [OF d l])
  have other: "node_ok (active_leases m) k nd \<Longrightarrow> k \<noteq> ?n \<Longrightarrow> node_ok ?ls k nd" for k nd
    using recomputed_drop_other [OF d l] by (auto simp: node_ok_def)
  have kind: "is_task_on k l \<longleftrightarrow> lease_kind l = ''task'' \<and> k = ?n" for k by (auto simp: is_task_on_def)
  define c where "c = (if lease_kind l = ''task''
      then dput ?n (max 0 (dgetd (running_task_counts m) ?n 0 - 1)) (running_task_counts m)
      else running_task_counts m)"
  let ?m = "m\<lparr>active_leases := ?ls, running_task_counts := c\<rparr>"
  show ?thesis
  proof (cases "dhas ?n (nodes m)")
    case True
    have gp: "map_of (nodes m) k = Some nd \<Longrightarrow> dict_ok (res_gpus (total nd))" for k nd
      using manager_ok_node [OF ok] by blast
    have cnt: "dgetd c k 0 = tasks_on ?ls k" if "map_of (nodes m) k = Some nd" for k nd
      using manager_ok_node [OF ok that] tasks_on_nonneg [of ?ls k] task [of k] kind [of k]
      by (auto simp: c_def dgetd_def)
    have "manager_ok (recompute_node_available now ?n ?m)"
      using ok by (intro recompute_ok) (auto simp: manager_ok_def cnt gp intro: other split: if_splits)
    moreover have "fst (release_lease now lid m) = recompute_node_available now ?n ?m"
      using True by (simp add: release_lease_def i l Let_def c_def)
    ultimately show ?thesis by simp
  next
    case False
    then have "\<And>k nd. map_of (nodes m) k = Some nd \<Longrightarrow> k \<noteq> ?n" by (auto simp: dhas_iff)
    with False ok show ?thesis
      by (auto simp: release_lease_def i l Let_def manager_ok_def task kind intro!: other split: if_splits)
  qed
qed

lemma drop_node_ok:
  assumes "manager_ok m"
  shows "manager_ok (drop_node n m)"
  using assms by (auto simp: drop_node_def manager_ok_def release_node_ok dgetd_def split: if_splits)

lemma drop_nodes_ok: "manager_ok m \<Longrightarrow> manager_ok (foldl (\<lambda>m n. drop_node n m) m ns)"
  by (rule foldl_invariant) (auto intro: drop_node_ok)

lemma check_dead_node_ok:
  assumes ok: "manager_ok m"
  shows "manager_ok (fst (check_dead_node now r m))"
proof -
  have "manager_ok (m\<lparr>last_dead_check := Some now\<rparr>)" using ok by (simp add: manager_ok_def)
  then show ?thesis
    using ok by (auto simp: check_dead_node_def Let_def drop_node_ok split: option.splits
        intro!: foldl_invariant [where P = manager_ok])
qed

lemma stop_worker_ok:
  assumes "manager_ok m" "stop_worker n m = Inr m'"
  shows "manager_ok m'"
  using assms by (auto simp: stop_worker_def manager_ok_def release_node_ok split: if_splits)

text \<open>Writing back a node that differs only in its capabilities or clock readings.\<close>

lemma put_node_ok:
  assumes "manager_ok m" "map_of (nodes m) n = Some nd"
    and "available nd' = available nd" "total nd' = total nd"
  shows "manager_ok (m\<lparr>nodes := dput n nd' (nodes m)\<rparr>)"
  using assms by (auto simp: manager_ok_def node_ok_def)

lemma refresh_head_ok: "manager_ok m \<Longrightarrow> manager_ok (refresh_head_models models m)"
  by (auto simp: refresh_head_models_def intro!: put_node_ok split: option.splits)

lemma row_step_ok: "manager_ok (fst acc) \<Longrightarrow> manager_ok (fst (row_step now ray acc n))"
  by (cases acc) (auto simp: row_step_def Let_def intro!: put_node_ok split: sum.splits option.splits)

lemma cluster_resources_ok:
  assumes "manager_ok m"
  shows "manager_ok (fst (get_cluster_resources now r models m))"
proof -
  let ?start = "refresh_head_models models m"
  have "manager_ok (fst (foldl (row_step now (ray_node_index r)) (?start, Inr []) (dkeys (nodes ?start))))"
    by (rule foldl_invariant [where P = "\<lambda>acc. manager_ok (fst acc)"])
      (simp_all add: refresh_head_ok assms row_step_ok)
  then show ?thesis by (simp add: get_cluster_resources_def Let_def case_prod_beta)
qed

lemma set_node_disabled_ok:
  assumes "manager_ok m"
  shows "manager_ok (fst (set_node_disabled now r models n d m))"
proof -
  let ?m1 = "m\<lparr>disabled_node_ids := (if d then insert n (disabled_node_ids m) else disabled_node_ids m - {n})\<rparr>"
  have "dhas n (nodes m) \<Longrightarrow> manager_ok ?m1" using assms by (auto simp: manager_ok_def dhas_dkeys)
  then have "dhas n (nodes m) \<Longrightarrow> manager_ok (fst (get_cluster_resources now r models ?m1))"
    by (rule cluster_resources_ok)
  then show ?thesis using assms by (simp add: set_node_disabled_def Let_def case_prod_beta)
qed

lemma set_policy_ok: "manager_ok m \<Longrightarrow> manager_ok (set_scheduling_policy p m)"
  by (simp add: set_scheduling_policy_def manager_ok_def Let_def)

text \<open>With no lease left, a node has everything it registered.\<close>

lemma recomputed_none:
  assumes "0 \<le> res_cpu t" "0 \<le> res_cpu_mem t"
    and "\<And>g x. (g, x) \<in> set (res_gpus t) \<Longrightarrow> 0 \<le> gpu_num x \<and> 0 \<le> gpu_mem x"
  shows "recomputed [] n t = t"
proof -
  have "dmapv (\<lambda>g x. less_used (0, 0) x) (res_gpus t) = res_gpus t"
    using assms(3) unfolding dmapv_def less_used_def by (intro map_idI) (auto simp: max_absorb2)
  then show ?thesis using assms(1,2) by (simp add: recomputed_closed reserved_defs)
qed

lemma init_head_ok:
  assumes "manager_ok m" "active_leases m = []" "\<not> dhas nid (running_task_counts m)"
    and "dict_ok (res_gpus res)" "0 \<le> res_cpu res" "0 \<le> res_cpu_mem res"
    and "\<And>g x. (g, x) \<in> set (res_gpus res) \<Longrightarrow> 0 \<le> gpu_num x \<and> 0 \<le> gpu_mem x"
  shows "manager_ok (init_head now nid ip res models m)"
proof -
  have "recomputed [] n res = res" for n using recomputed_none assms(5-7) by blast
  moreover have "dgetd (running_task_counts m) nid 0 = 0" using assms(3) by (simp add: dgetd_def dhas_iff)
  ultimately show ?thesis
    using assms(1-4)
    by (auto simp: init_head_def manager_ok_def node_ok_def new_node_def dsetdefault_def dgetd_def tasks_on_def)
qed

lemma int_keys_ok: "int_keys d = Inr g \<Longrightarrow> dict_ok g"
  unfolding int_keys_def
  by (rule rfold_invariant [where P = dict_ok]) (auto split: option.splits)

lemma update_registration_total:
  "dict_ok (res_gpus res) \<Longrightarrow> dict_ok (res_gpus (total nd)) \<Longrightarrow>
   dict_ok (res_gpus (total (fst (update_registration now ip res caps nd))))"
  by (auto simp: update_registration_def Let_def)

lemma register_node_ok:
  assumes ok: "manager_ok m" and g: "dict_ok (res_gpus res)"
  shows "manager_ok (fst (register_node now n ip res caps m))"
proof -
  define nd where "nd = fst (case map_of (nodes m) n of
      Some old \<Rightarrow> update_registration now ip res caps old | None \<Rightarrow> (new_node now n ip res res caps, ''created''))"
  define m1 where "m1 = m\<lparr>nodes := dput n nd (nodes m),
      running_task_counts := dput n (tasks_on (active_leases m) n) (running_task_counts m)\<rparr>"
  have "dict_ok (res_gpus (total nd))"
    using ok g by (auto simp: nd_def new_node_def manager_ok_def node_ok_def update_registration_total split: option.splits)
  then have "manager_ok (recompute_node_available now n m1)"
    using ok by (intro recompute_ok) (auto simp: m1_def manager_ok_def dgetd_def split: if_splits)
  moreover have "fst (register_node now n ip res caps m) = recompute_node_available now n m1"
    by (simp add: register_node_def m1_def nd_def tasks_on_length Let_def split: prod.splits)
  ultimately show ?thesis by simp
qed

lemma start_worker_ok:
  assumes ok: "manager_ok m" and st: "start_worker now r n ip res caps m = Inr (m', reg)"
  shows "manager_ok m'"
proof (cases "reg")
  case (Registered ip' status removed)
  with st obtain ray gpus where "int_keys (wres_gpus res) = Inr gpus"
      and m': "m' = fst (register_node now n ip'
        \<lparr>res_cpu = wres_cpu res, res_cpu_mem = wres_cpu_mem res, res_gpus = gpus\<rparr>
        (if caps = [] then [(''workspace_sandbox'', VBool True)] else caps)
        (foldl (\<lambda>m k. drop_node k m) m (stale_ids ray n ip' m)))"
    by (auto simp: start_worker_def Let_def split: option.splits if_splits prod.splits)
  then show ?thesis
    unfolding m' using int_keys_ok by (intro register_node_ok drop_nodes_ok ok) simp
qed (use st ok in \<open>auto simp: start_worker_def Let_def split: option.splits if_splits prod.splits\<close>)

section \<open>Leases as a contract\<close>

text \<open>
  What the scheduler relies on when it gives leases back: a release keeps the invariant, removes
  exactly the lease it names, reports whether it was held, and an unknown lease changes nothing.
\<close>

locale lease_ledger =
  fixes ok :: "'s \<Rightarrow> bool"
    and held :: "'s \<Rightarrow> string set"
    and give_back :: "string option \<Rightarrow> 's \<Rightarrow> 's \<times> bool"
  assumes back_ok: "ok s \<Longrightarrow> ok (fst (give_back i s))"
    and back_held: "held (fst (give_back i s)) = held s - {x. i = Some x}"
    and back_reports: "snd (give_back i s) \<longleftrightarrow> (\<exists>x. i = Some x \<and> x \<in> held s)"
    and back_absent: "\<not> snd (give_back i s) \<Longrightarrow> fst (give_back i s) = s"
begin

lemma double_release:
  shows "give_back i (fst (give_back i s)) = (fst (give_back i s), False)"
proof -
  have "\<not> snd (give_back i (fst (give_back i s)))" by (auto simp: back_reports back_held)
  with back_absent show ?thesis by (metis prod.collapse)
qed

lemma release_many_held:
  "held (foldl (\<lambda>s i. fst (give_back i s)) s is) = held s - {x. Some x \<in> set is}"
  by (induction "is" arbitrary: s) (auto simp: back_held)

lemma release_many_ok: "ok s \<Longrightarrow> ok (foldl (\<lambda>s i. fst (give_back i s)) s is)"
  by (rule foldl_invariant) (auto intro: back_ok)

end

lemma release_lease_leases:
  "active_leases (fst (release_lease now i m)) = (case i of None \<Rightarrow> active_leases m | Some x \<Rightarrow> ddel x (active_leases m))"
  by (auto simp: release_lease_def Let_def ddel_absent dhas_iff split: option.splits)

interpretation leases: lease_ledger manager_ok "\<lambda>m. set (dkeys (active_leases m))" "release_lease now" for now
proof (unfold_locales, goal_cases)
  case (2 i s)
  then show ?case by (auto simp: release_lease_leases split: option.splits)
next
  case (3 i s)
  have "x \<in> set (dkeys (active_leases s)) \<longleftrightarrow> map_of (active_leases s) x \<noteq> None" for x
    by (simp add: dhas_iff flip: dhas_dkeys)
  then show ?case by (auto simp: release_lease_def Let_def split: option.splits)
next
  case (4 i s)
  then show ?case by (auto simp: release_lease_def Let_def split: option.splits)
qed (rule release_lease_ok)

lemma release_lease_total:
  "map_of (nodes m) n = Some nd \<Longrightarrow>
   \<exists>nd'. map_of (nodes (fst (release_lease now i m))) n = Some nd' \<and> total nd' = total nd"
  by (auto simp: release_lease_def Let_def split: option.splits)

lemma release_many_total:
  "map_of (nodes m) n = Some nd \<Longrightarrow>
   \<exists>nd'. map_of (nodes (release_task_resource now is m)) n = Some nd' \<and> total nd' = total nd"
proof (induction "is" arbitrary: m nd)
  case (Cons i "is")
  obtain nd1 where "map_of (nodes (fst (release_lease now i m))) n = Some nd1" "total nd1 = total nd"
    using release_lease_total [OF Cons.prems] by blast
  with Cons.IH [OF this(1)] show ?case by (simp add: release_task_resource_def)
qed (simp add: release_task_resource_def)

lemma release_all_free:
  assumes ok: "manager_ok m" and all: "set (dkeys (active_leases m)) \<subseteq> {x. Some x \<in> set is}"
    and n: "map_of (nodes m) n = Some nd"
    and pos: "0 \<le> res_cpu (total nd)" "0 \<le> res_cpu_mem (total nd)"
      "\<And>g x. (g, x) \<in> set (res_gpus (total nd)) \<Longrightarrow> 0 \<le> gpu_num x \<and> 0 \<le> gpu_mem x"
  shows "\<exists>nd'. map_of (nodes (release_task_resource now is m)) n = Some nd'
    \<and> available nd' = total nd' \<and> total nd' = total nd"
proof -
  let ?m = "release_task_resource now is m"
  obtain nd' where nd': "map_of (nodes ?m) n = Some nd'" "total nd' = total nd"
    using release_many_total [OF n] by blast
  have "manager_ok ?m" unfolding release_task_resource_def by (rule leases.release_many_ok [OF ok])
  moreover have "set (dkeys (active_leases ?m)) = {}"
    unfolding release_task_resource_def leases.release_many_held using all by auto
  then have "active_leases ?m = []" by (simp add: dkeys_def)
  ultimately have "available nd' = recomputed [] n (total nd')" using manager_ok_node nd'(1) by metis
  then show ?thesis using nd' pos recomputed_none by metis
qed

end
