(* ===== verification/Placement.thy ===== *)
theory Placement
  imports Cluster
begin

text \<open>
  Placement: \<open>ResourceManager.select_node\<close> of \<open>maze/core/scheduler/resource.py\<close>. Every registered node
  becomes a candidate with the reasons that rule it out; the first runnable candidate in the order of
  the scheduling policy gets the lease.
\<close>

section \<open>Requests and candidates\<close>

record request =
  req_need :: need
  req_kind :: string
  req_anchor :: "(string, pyval) dict"
  req_workflow :: "string option"
  req_run :: "string option"
  req_task :: "string option"
  req_attempt :: "int option"
  req_dispatch :: "string option"

record candidate =
  cand_order :: nat
  cand_id :: string
  cand_ip :: string
  cand_alive :: bool
  cand_disabled :: bool
  cand_running :: int
  cand_load :: int
  cand_cpu :: rat
  cand_free_gpus :: rat
  cand_reject :: "string list"
  cand_gpu :: "int option"

definition can_run :: "candidate \<Rightarrow> bool" where
  "can_run c = (cand_reject c = [])"

text \<open>\<open>a or b\<close> on optional strings.\<close>

definition or_str :: "string option \<Rightarrow> string option \<Rightarrow> string option" where
  "or_str a b = (if present a then a else b)"

definition anchor_str :: "(string, pyval) dict \<Rightarrow> string \<Rightarrow> string option" where
  "anchor_str a k = (case vget a k of VStr s \<Rightarrow> Some s | _ \<Rightarrow> None)"

definition target_of :: "manager \<Rightarrow> request \<Rightarrow> string option" where
  "target_of m q =
     (if anchor_str (req_anchor q) ''model_scope'' = Some ''head'' then head_node_id m
      else or_str (need_node (req_need q)) (need_target (req_need q)))"

definition required_model :: "request \<Rightarrow> pyval" where
  "required_model q = vor (vget (req_anchor q) ''local_model'') (vget (req_anchor q) ''model'')"

definition required_backend :: "request \<Rightarrow> string" where
  "required_backend q =
     py_lower (py_strip (py_str (vor (vor (vget (req_anchor q) ''backend'') (vget (req_anchor q) ''engine''))
                                     (VStr ''vllm''))))"

definition local_model_supports_backend :: "(string, pyval) dict \<Rightarrow> string \<Rightarrow> bool" where
  "local_model_supports_backend model backend =
     (case vget model ''backends'' of
        VList bs \<Rightarrow> VStr backend \<in> set bs
      | _ \<Rightarrow> vor (vget model ''backend'') (VStr ''transformers'') = VStr backend)"

definition node_models :: "node \<Rightarrow> (string, pyval) dict list" where
  "node_models nd =
     (case vget (capabilities nd) ''local_models'' of
        VList xs \<Rightarrow> map (\<lambda>v. case v of VDict d \<Rightarrow> d | _ \<Rightarrow> []) (filter is_dict xs)
      | _ \<Rightarrow> [])"

definition matching_models :: "pyval \<Rightarrow> node \<Rightarrow> (string, pyval) dict list" where
  "matching_models model nd = filter (\<lambda>d. vget d ''id'' = model) (node_models nd)"

section \<open>Why a node is ruled out\<close>

definition only_if :: "bool \<Rightarrow> 'a list \<Rightarrow> 'a list" where
  "only_if b xs = (if b then xs else [])"

definition model_reasons :: "request \<Rightarrow> node \<Rightarrow> string list" where
  "model_reasons q nd =
     (let model = required_model q in
      if \<not> truthy model then []
      else if matching_models model nd = [] then [''missing_model'']
      else if \<not> list_ex (\<lambda>d. local_model_supports_backend d (required_backend q)) (matching_models model nd)
        then [''model_backend_unavailable'']
      else [])"

definition gpu_options :: "need \<Rightarrow> node \<Rightarrow> int list" where
  "gpu_options r nd =
     map fst (filter (\<lambda>(g, x). need_gpu_mem r \<le> gpu_mem x \<and> need_gpu r \<le> gpu_num x) (res_gpus (available nd)))"

definition available_gpu_count :: "node \<Rightarrow> rat" where
  "available_gpu_count nd = dsum (\<lambda>_ x. gpu_num x) (res_gpus (available nd))"

definition gpu_reasons :: "need \<Rightarrow> node \<Rightarrow> string list" where
  "gpu_reasons r nd =
     (if \<not> 0 < need_gpu r then []
      else if available_gpu_count nd < need_gpu r then [''insufficient_gpu'']
      else if gpu_options r nd = [] then [''insufficient_gpu_mem'']
      else [])"

definition pick_gpu :: "need \<Rightarrow> node \<Rightarrow> int option" where
  "pick_gpu r nd =
     (if 0 < need_gpu r \<and> gpu_reasons r nd = [] then Some (hd (sort (gpu_options r nd))) else None)"

definition avoid_ids :: "need \<Rightarrow> string list" where
  "avoid_ids r = filter (\<lambda>x. x \<noteq> []) (need_avoid r)"

definition reject_reasons :: "(string, ray_node) dict \<Rightarrow> manager \<Rightarrow> request \<Rightarrow> string \<Rightarrow> node \<Rightarrow> string list" where
  "reject_reasons ray m q n nd =
     (let r = req_need q; pinned = (target_of m q = Some n); cap = need_capability r in
        only_if (\<not> is_node_alive ray n) (''node_not_alive'' # only_if pinned [''specified_node_unavailable''])
      @ only_if (n \<in> set (avoid_ids r)) [''avoided_after_failure'']
      @ only_if (n \<in> disabled_node_ids m) (''node_disabled'' # only_if pinned [''specified_node_unavailable''])
      @ only_if (res_cpu (available nd) < need_cpu r) [''insufficient_cpu'']
      @ only_if (res_cpu_mem (available nd) < need_cpu_mem r) [''insufficient_cpu_mem'']
      @ only_if (present cap \<and> \<not> truthy (vget (capabilities nd) (the cap))) [''missing_capability'']
      @ model_reasons q nd
      @ gpu_reasons r nd)"

definition make_candidate ::
    "(string, ray_node) dict \<Rightarrow> manager \<Rightarrow> request \<Rightarrow> nat \<times> string \<times> node \<Rightarrow> candidate" where
  "make_candidate ray m q x =
     (case x of (i, n, nd) \<Rightarrow>
       \<lparr>cand_order = i, cand_id = n, cand_ip = node_ip nd, cand_alive = is_node_alive ray n,
        cand_disabled = (n \<in> disabled_node_ids m), cand_running = dgetd (running_task_counts m) n 0,
        cand_load = node_context_load (contexts m) n, cand_cpu = res_cpu (available nd),
        cand_free_gpus = view_available_count (gpu_snapshot nd),
        cand_reject = reject_reasons ray m q n nd, cand_gpu = pick_gpu (req_need q) nd\<rparr>)"

definition candidates :: "(string, ray_node) dict \<Rightarrow> manager \<Rightarrow> request \<Rightarrow> candidate list" where
  "candidates ray m q =
     map (make_candidate ray m q)
       (filter (\<lambda>(i, n, nd). \<not> present (target_of m q) \<or> Some n = target_of m q)
         (enumerate 0 (nodes m)))"

section \<open>Failure reasons\<close>

definition reason_priority :: "string list" where
  "reason_priority =
     [''specified_node_unavailable'', ''node_disabled'', ''missing_capability'', ''avoided_after_failure'',
      ''insufficient_cpu'', ''insufficient_cpu_mem'', ''insufficient_gpu'', ''insufficient_gpu_mem'']"

definition rejects :: "string \<Rightarrow> candidate \<Rightarrow> bool" where
  "rejects r c = (r \<in> set (cand_reject c))"

definition candidate_failure_reason :: "candidate list \<Rightarrow> string option \<Rightarrow> string" where
  "candidate_failure_reason cs target =
     (let eligible = filter (\<lambda>c. cand_alive c \<and> \<not> cand_disabled c) cs in
      if present target \<and> \<not> list_ex (\<lambda>c. Some (cand_id c) = target) cs then ''specified_node_unavailable''
      else if cs = [] then ''no_registered_alive_node''
      else if present target \<and> list_ex (rejects ''specified_node_unavailable'') cs
        then ''specified_node_unavailable''
      else if list_all (rejects ''node_not_alive'') cs then ''no_registered_alive_node''
      else if list_all (rejects ''node_disabled'') cs then ''all_candidate_nodes_disabled''
      else if eligible \<noteq> [] \<and> list_all (rejects ''missing_model'') eligible then ''missing_model''
      else if eligible \<noteq> [] \<and> list_all (\<lambda>c. rejects ''missing_model'' c \<or> rejects ''model_backend_unavailable'' c) eligible
        then ''model_backend_unavailable''
      else (case first_match (\<lambda>r. list_ex (rejects r) cs) reason_priority of
              Some r \<Rightarrow> r | None \<Rightarrow> ''resource_unavailable''))"

text \<open>
  The capacities of the GPUs a rejected request could in principle use: \<open>all(capacities)\<close> rules out
  missing and zero ones. \<open>None\<close> when the request exceeds none of them.
\<close>

definition capacity_known :: "rat option \<Rightarrow> bool" where
  "capacity_known c = (case c of None \<Rightarrow> False | Some x \<Rightarrow> x \<noteq> 0)"

definition node_capacities :: "node \<Rightarrow> rat option list" where
  "node_capacities nd = map gpu_capacity (dvals (res_gpus (total nd)))"

definition capacity_eligible :: "candidate \<Rightarrow> bool" where
  "capacity_eligible c =
     (cand_alive c \<and> \<not> cand_disabled c
      \<and> \<not> list_ex (\<lambda>r. rejects r c)
          [''missing_model'', ''model_backend_unavailable'', ''missing_capability'', ''avoided_after_failure''])"

definition capacity_exceeded :: "manager \<Rightarrow> need \<Rightarrow> candidate list \<Rightarrow> rat option" where
  "capacity_exceeded m r cs =
     (let caps = concat (map (\<lambda>c. case map_of (nodes m) (cand_id c) of None \<Rightarrow> [] | Some nd \<Rightarrow> node_capacities nd)
                   (filter capacity_eligible cs))
      in if need_gpu r \<noteq> 0 \<and> caps \<noteq> [] \<and> list_all capacity_known caps
            \<and> Max (set (map the caps)) < need_gpu_mem r
         then Some (Max (set (map the caps))) else None)"

section \<open>Order of preference\<close>

definition candidate_sort_key :: "manager \<Rightarrow> request \<Rightarrow> string option \<Rightarrow> candidate \<Rightarrow> rank" where
  "candidate_sort_key m q affinity c =
     (let ctx = (if present (req_workflow q)
                 then [if present affinity \<and> Some (cand_id c) \<noteq> affinity then 1 else 0,
                       of_int (node_context_load (contexts m) (cand_id c))]
                 else []);
          running = of_int (dgetd (running_task_counts m) (cand_id c) 0)
      in if scheduling_policy m \<in> {''least-loaded'', ''spread''}
         then Rank (ctx @ [running, - cand_cpu c]) (cand_ip c)
         else if scheduling_policy m = ''prefer-gpu-free'' \<and> need_gpu (req_need q) = 0
         then Rank (ctx @ [if 0 < cand_free_gpus c then 1 else 0, running]) (cand_ip c)
         else Rank (ctx @ [of_nat (cand_order c)]) [])"

section \<open>Selection\<close>

record selection =
  sel_node :: "(string \<times> string \<times> int option) option"
  sel_reason :: string
  sel_candidates :: "candidate list"
  sel_lease :: "string option"
  sel_max_capacity :: "rat option"

definition failed_selection :: "string \<Rightarrow> candidate list \<Rightarrow> rat option \<Rightarrow> selection" where
  "failed_selection reason cs cap =
     \<lparr>sel_node = None, sel_reason = reason, sel_candidates = cs, sel_lease = None, sel_max_capacity = cap\<rparr>"

definition take_gpu :: "need \<Rightarrow> int option \<Rightarrow> (int, gpu_res) dict \<Rightarrow> (int, gpu_res) dict" where
  "take_gpu r gid gs =
     (case gid of None \<Rightarrow> gs
      | Some g \<Rightarrow> (case map_of gs g of None \<Rightarrow> gs
          | Some x \<Rightarrow> dput g (x\<lparr>gpu_mem := gpu_mem x - need_gpu_mem r, gpu_num := gpu_num x - need_gpu r\<rparr>) gs))"

definition take_resources :: "time \<Rightarrow> need \<Rightarrow> int option \<Rightarrow> node \<Rightarrow> node" where
  "take_resources now r gid nd =
     nd\<lparr>available := \<lparr>res_cpu = res_cpu (available nd) - need_cpu r,
                      res_cpu_mem = res_cpu_mem (available nd) - need_cpu_mem r,
                      res_gpus = take_gpu r gid (res_gpus (available nd))\<rparr>,
        last_update_time := now\<rparr>"

definition request_lease :: "request \<Rightarrow> string \<Rightarrow> int option \<Rightarrow> lease" where
  "request_lease q n gid =
     \<lparr>lease_kind = req_kind q, lease_run = or_str (req_run q) (req_workflow q), lease_task = req_task q,
      lease_attempt = req_attempt q, lease_dispatch = req_dispatch q, lease_node = n, lease_gpu = gid,
      lease_need = req_need q\<rparr>"

text \<open>The state change of a successful selection; \<open>lid\<close> is the fresh \<open>uuid4\<close>.\<close>

definition commit :: "time \<Rightarrow> string \<Rightarrow> request \<Rightarrow> string \<Rightarrow> int option \<Rightarrow> manager \<Rightarrow> manager" where
  "commit now lid q n gid m =
     (case map_of (nodes m) n of
        None \<Rightarrow> m
      | Some nd \<Rightarrow>
          m\<lparr>nodes := dput n (take_resources now (req_need q) gid nd) (nodes m),
            running_task_counts :=
              (if req_kind q = ''task''
               then dput n (dgetd (running_task_counts m) n 0 + 1) (running_task_counts m)
               else running_task_counts m),
            contexts := fst (record_selection now (contexts m) (req_workflow q) n (node_ip nd)),
            active_leases := dput lid (request_lease q n gid) (active_leases m)\<rparr>)"

definition best :: "manager \<Rightarrow> request \<Rightarrow> candidate list \<Rightarrow> candidate" where
  "best m q cs = hd (sort_key (candidate_sort_key m q (preferred_node_id (contexts m) (req_workflow q))) cs)"

definition select_node ::
    "time \<Rightarrow> string \<Rightarrow> ray \<Rightarrow> pyval list \<Rightarrow> request \<Rightarrow> manager \<Rightarrow> (manager \<times> selection) result" where
  "select_node now lid r models q m0 =
     (if 1 < need_gpu (req_need q) then Inl AssertionError
      else
        (let m = refresh_head_models models m0 in
         case ray_node_index r of
           None \<Rightarrow> Inr (m, failed_selection ''ray_cluster_unavailable'' [] None)
         | Some ray \<Rightarrow>
            (let cs = candidates ray m q; run = filter can_run cs in
             if run = [] then
               (case capacity_exceeded m (req_need q) cs of
                  Some cap \<Rightarrow> Inr (m, failed_selection ''resource_capacity_exceeded'' cs (Some cap))
                | None \<Rightarrow> Inr (m, failed_selection (candidate_failure_reason cs (target_of m q)) cs None))
             else
               (let c = best m q run in
                Inr (commit now lid q (cand_id c) (cand_gpu c) m,
                     \<lparr>sel_node = Some (cand_id c, cand_ip c, cand_gpu c), sel_reason = ''selected'',
                      sel_candidates = cs, sel_lease = Some lid, sel_max_capacity = None\<rparr>)))))"

text \<open>
  \<open>gpu_capacity_mib\<close>: the largest GPU a request may be placed on, over the enabled nodes that serve it;
  unknown when a capacity is missing or zero.
\<close>

definition capacity_node :: "manager \<Rightarrow> need \<Rightarrow> (string, pyval) dict \<Rightarrow> string \<Rightarrow> node \<Rightarrow> bool" where
  "capacity_node m r anchor n nd =
     (let target = (if anchor_str anchor ''model_scope'' = Some ''head'' then head_node_id m
                    else or_str (need_target r) (need_node r));
          model = vor (vget anchor ''local_model'') (vget anchor ''model'')
      in n \<notin> disabled_node_ids m \<and> (present target \<longrightarrow> Some n = target) \<and> n \<notin> set (need_avoid r)
         \<and> (truthy model \<longrightarrow> list_ex (\<lambda>d. vget d ''id'' = model
               \<and> local_model_supports_backend d (py_str (vgetd anchor ''backend'' (VStr ''vllm'')))) (node_models nd))
         \<and> (present (need_capability r) \<longrightarrow> truthy (vget (capabilities nd) (the (need_capability r)))))"

definition gpu_capacity_mib :: "manager \<Rightarrow> need \<Rightarrow> (string, pyval) dict \<Rightarrow> rat option" where
  "gpu_capacity_mib m r anchor =
     (let caps = concat (map (\<lambda>(n, nd). if capacity_node m r anchor n nd then node_capacities nd else []) (nodes m))
      in if caps \<noteq> [] \<and> list_all capacity_known caps then Some (Max (set (map the caps))) else None)"

section \<open>What makes a candidate runnable\<close>

text \<open>The specification of a fitting node, without reasons and orders.\<close>

definition model_served :: "request \<Rightarrow> node \<Rightarrow> bool" where
  "model_served q nd \<longleftrightarrow>
     truthy (required_model q) \<longrightarrow>
       (\<exists>d \<in> set (matching_models (required_model q) nd). local_model_supports_backend d (required_backend q))"

definition gpu_fits :: "need \<Rightarrow> node \<Rightarrow> int \<Rightarrow> bool" where
  "gpu_fits r nd g \<longleftrightarrow>
     (\<exists>x. map_of (res_gpus (available nd)) g = Some x \<and> need_gpu_mem r \<le> gpu_mem x \<and> need_gpu r \<le> gpu_num x)"

definition fits :: "(string, ray_node) dict \<Rightarrow> manager \<Rightarrow> request \<Rightarrow> string \<Rightarrow> node \<Rightarrow> bool" where
  "fits ray m q n nd \<longleftrightarrow>
     is_node_alive ray n \<and> n \<notin> set (avoid_ids (req_need q)) \<and> n \<notin> disabled_node_ids m
     \<and> need_cpu (req_need q) \<le> res_cpu (available nd) \<and> need_cpu_mem (req_need q) \<le> res_cpu_mem (available nd)
     \<and> (present (need_capability (req_need q)) \<longrightarrow>
          truthy (vget (capabilities nd) (the (need_capability (req_need q)))))
     \<and> model_served q nd
     \<and> (0 < need_gpu (req_need q) \<longrightarrow> (\<exists>g. gpu_fits (req_need q) nd g))"

lemma only_if_Nil [simp]: "only_if b xs = [] \<longleftrightarrow> (b \<longrightarrow> xs = [])"
  by (simp add: only_if_def)

lemma model_reasons_Nil: "model_reasons q nd = [] \<longleftrightarrow> model_served q nd"
  by (auto simp: model_reasons_def model_served_def Let_def list_ex_iff)

lemma gpu_options_iff:
  "dict_ok (res_gpus (available nd)) \<Longrightarrow> g \<in> set (gpu_options r nd) \<longleftrightarrow> gpu_fits r nd g"
  by (force simp: gpu_options_def gpu_fits_def in_dict_iff image_iff)

definition gpus_nonneg :: "node \<Rightarrow> bool" where
  "gpus_nonneg nd \<longleftrightarrow> (\<forall>(g, x) \<in> set (res_gpus (available nd)). 0 \<le> gpu_num x \<and> 0 \<le> gpu_mem x)"

lemma sum_list_ge_member:
  fixes f :: "'a \<Rightarrow> rat"
  assumes "x \<in> set xs" "\<And>y. y \<in> set xs \<Longrightarrow> 0 \<le> f y"
  shows "f x \<le> sum_list (map f xs)"
  using assms
proof (induction xs)
  case (Cons y ys)
  have "0 \<le> sum_list (map f ys)" using Cons.prems(2) by (intro sum_list_nonneg) auto
  moreover have "0 \<le> f y" using Cons.prems(2) by simp
  ultimately show ?case using Cons by (auto intro: add_increasing add_increasing2)
qed simp

lemma gpu_count_ge:
  assumes "gpus_nonneg nd" "map_of (res_gpus (available nd)) g = Some x"
  shows "gpu_num x \<le> available_gpu_count nd"
proof -
  have "(g, x) \<in> set (res_gpus (available nd))" by (rule map_of_SomeD [OF assms(2)])
  then have "(\<lambda>(k, v). gpu_num v) (g, x) \<le> sum_list (map (\<lambda>(k, v). gpu_num v) (res_gpus (available nd)))"
    using assms(1) by (intro sum_list_ge_member) (auto simp: gpus_nonneg_def)
  then show ?thesis by (simp add: available_gpu_count_def dsum_def)
qed

lemma gpu_reasons_Nil:
  assumes "dict_ok (res_gpus (available nd))" "gpus_nonneg nd"
  shows "gpu_reasons r nd = [] \<longleftrightarrow> (0 < need_gpu r \<longrightarrow> (\<exists>g. gpu_fits r nd g))"
proof -
  have "gpu_fits r nd g \<Longrightarrow> \<not> available_gpu_count nd < need_gpu r" for g
    using gpu_count_ge [OF assms(2)] unfolding gpu_fits_def by force
  moreover have "gpu_options r nd = [] \<longleftrightarrow> (\<nexists>g. gpu_fits r nd g)"
    using gpu_options_iff [OF assms(1)] by (metis list.set_intros(1) neq_Nil_conv empty_iff list.set(1))
  ultimately show ?thesis by (auto simp: gpu_reasons_def)
qed

lemma reject_reasons_Nil:
  assumes "dict_ok (res_gpus (available nd))" "gpus_nonneg nd"
  shows "reject_reasons ray m q n nd = [] \<longleftrightarrow> fits ray m q n nd"
  by (auto simp: reject_reasons_def Let_def fits_def model_reasons_Nil gpu_reasons_Nil [OF assms])

text \<open>The nodes of a consistent manager meet those two conditions.\<close>

lemma recomputed_gpus:
  "dict_ok (res_gpus t) \<Longrightarrow> dict_ok (res_gpus (recomputed ls n t))"
  by (simp add: recomputed_closed)

lemma manager_ok_gpus:
  assumes "manager_ok m" "map_of (nodes m) n = Some nd"
  shows "dict_ok (res_gpus (available nd))" "gpus_nonneg nd"
proof -
  have av: "available nd = recomputed (active_leases m) n (total nd)" "dict_ok (res_gpus (total nd))"
    using manager_ok_node [OF assms] by auto
  then show "dict_ok (res_gpus (available nd))" by (simp add: recomputed_gpus)
  show "gpus_nonneg nd"
    unfolding gpus_nonneg_def av(1) by (auto simp: recomputed_closed dmapv_def less_used_def)
qed

lemma candidate_iff:
  assumes "manager_ok m"
  shows "(\<exists>c \<in> set (candidates ray m q). cand_id c = n) \<longleftrightarrow>
    dhas n (nodes m) \<and> (present (target_of m q) \<longrightarrow> target_of m q = Some n)"
proof
  assume "\<exists>c \<in> set (candidates ray m q). cand_id c = n"
  then show "dhas n (nodes m) \<and> (present (target_of m q) \<longrightarrow> target_of m q = Some n)"
    by (auto simp: candidates_def make_candidate_def in_set_enumerate_eq dhas_def image_iff)
      (metis fst_conv nth_mem)+
next
  assume r: "dhas n (nodes m) \<and> (present (target_of m q) \<longrightarrow> target_of m q = Some n)"
  then obtain i where i: "i < length (nodes m)" "fst (nodes m ! i) = n"
    by (auto simp: dhas_def in_set_conv_nth)
  let ?c = "make_candidate ray m q (i, nodes m ! i)"
  have "?c \<in> set (candidates ray m q)"
    using r i unfolding candidates_def by (auto simp: in_set_enumerate_eq case_prod_beta intro!: imageI)
  moreover have "cand_id ?c = n" using i by (simp add: make_candidate_def case_prod_beta)
  ultimately show "\<exists>c \<in> set (candidates ray m q). cand_id c = n" by blast
qed

lemma candidate_fields:
  assumes ok: "manager_ok m" and c: "c \<in> set (candidates ray m q)"
  obtains nd where "map_of (nodes m) (cand_id c) = Some nd" "cand_ip c = node_ip nd"
    "cand_cpu c = res_cpu (available nd)" "cand_gpu c = pick_gpu (req_need q) nd"
    "can_run c \<longleftrightarrow> fits ray m q (cand_id c) nd"
    "present (target_of m q) \<longrightarrow> target_of m q = Some (cand_id c)"
    "cand_order c < length (nodes m)" "nodes m ! cand_order c = (cand_id c, nd)"
proof -
  from c obtain i where i: "i < length (nodes m)" "c = make_candidate ray m q (i, nodes m ! i)"
      "present (target_of m q) \<longrightarrow> target_of m q = Some (fst (nodes m ! i))"
    by (auto simp: candidates_def in_set_enumerate_eq case_prod_beta)
  obtain n nd where p: "nodes m ! i = (n, nd)" by (cases "nodes m ! i")
  have "(n, nd) \<in> set (nodes m)" using i(1) p by (metis nth_mem)
  then have nd: "map_of (nodes m) n = Some nd" using ok by (simp add: in_dict_iff manager_ok_def)
  have "can_run c \<longleftrightarrow> fits ray m q n nd"
    using reject_reasons_Nil [OF manager_ok_gpus [OF ok nd]]
    by (simp add: i(2) p make_candidate_def can_run_def)
  with nd i p show ?thesis by (intro that [of nd]) (auto simp: make_candidate_def)
qed

section \<open>What a selection does\<close>

lemma refresh_head_fields [simp]:
  "active_leases (refresh_head_models ms m) = active_leases m"
  "running_task_counts (refresh_head_models ms m) = running_task_counts m"
  "disabled_node_ids (refresh_head_models ms m) = disabled_node_ids m"
  "contexts (refresh_head_models ms m) = contexts m"
  "scheduling_policy (refresh_head_models ms m) = scheduling_policy m"
  "head_node_id (refresh_head_models ms m) = head_node_id m"
  by (auto simp: refresh_head_models_def split: option.splits)

lemma refresh_head_lookup:
  "map_of (nodes m) n = Some nd \<Longrightarrow> \<exists>nd'. map_of (nodes (refresh_head_models ms m)) n = Some nd'
     \<and> available nd' = available nd \<and> total nd' = total nd \<and> node_ip nd' = node_ip nd"
  by (auto simp: refresh_head_models_def split: option.splits)

lemma target_refresh [simp]: "target_of (refresh_head_models ms m) q = target_of m q"
  by (simp add: target_of_def)

lemma best_in:
  assumes "cs \<noteq> []"
  shows "best m q cs \<in> set cs"
  unfolding best_def by (metis assms hd_in_set set_sort sort_key_simps(1) set_empty)

lemma best_least:
  assumes "c \<in> set cs"
  shows "candidate_sort_key m q (preferred_node_id (contexts m) (req_workflow q)) (best m q cs)
    \<le> candidate_sort_key m q (preferred_node_id (contexts m) (req_workflow q)) c"
proof -
  let ?f = "candidate_sort_key m q (preferred_node_id (contexts m) (req_workflow q))"
  have "sorted (map ?f (sort_key ?f cs))" by simp
  moreover have "c \<in> set (sort_key ?f cs)" using assms by simp
  ultimately show ?thesis unfolding best_def
    by (cases "sort_key ?f cs") auto
qed

text \<open>The three outcomes of a selection that does not raise.\<close>

lemma select_cases:
  assumes "select_node now lid r models q m0 = Inr (m', s)"
  obtains
    (no_ray) "ray_node_index r = None" "m' = refresh_head_models models m0"
      "sel_node s = None" "sel_reason s = ''ray_cluster_unavailable''"
  | (none) ray where "ray_node_index r = Some ray" "m' = refresh_head_models models m0"
      "filter can_run (candidates ray m' q) = []" "sel_node s = None" "sel_lease s = None"
  | (chosen) ray m c where "ray_node_index r = Some ray" "m = refresh_head_models models m0"
      "need_gpu (req_need q) \<le> 1"
      "c = best m q (filter can_run (candidates ray m q))" "c \<in> set (candidates ray m q)" "can_run c"
      "m' = commit now lid q (cand_id c) (cand_gpu c) m"
      "sel_node s = Some (cand_id c, cand_ip c, cand_gpu c)" "sel_lease s = Some lid" "sel_reason s = ''selected''"
proof (cases "ray_node_index r")
  case None
  with assms show ?thesis
    by (intro no_ray) (auto simp: select_node_def failed_selection_def Let_def split: if_splits)
next
  case (Some ray)
  let ?m = "refresh_head_models models m0" and ?run = "filter can_run (candidates ray (refresh_head_models models m0) q)"
  show ?thesis
  proof (cases "?run = []")
    case True
    with assms Some show ?thesis
      by (intro none [of ray]) (auto simp: select_node_def failed_selection_def Let_def split: if_splits option.splits)
  next
    case False
    then have "best ?m q ?run \<in> set ?run" by (rule best_in)
    with assms Some False show ?thesis
      by (intro chosen [of ray ?m "best ?m q ?run"])
        (auto simp: select_node_def Let_def split: if_splits)
  qed
qed

lemma pick_gpu_fits:
  assumes "dict_ok (res_gpus (available nd))" "gpus_nonneg nd" "0 < need_gpu r" "\<exists>g. gpu_fits r nd g"
  shows "\<exists>g. pick_gpu r nd = Some g \<and> gpu_fits r nd g"
proof -
  have ne: "gpu_options r nd \<noteq> []"
    using assms(4) gpu_options_iff [OF assms(1)] by (metis empty_iff list.set(1))
  then have "hd (sort (gpu_options r nd)) \<in> set (gpu_options r nd)"
    by (metis hd_in_set set_sort set_empty)
  moreover have "gpu_reasons r nd = []" using assms by (simp add: gpu_reasons_Nil)
  ultimately show ?thesis using assms(3) gpu_options_iff [OF assms(1)] by (auto simp: pick_gpu_def)
qed

lemma pick_gpu_None: "\<not> 0 < need_gpu r \<Longrightarrow> pick_gpu r nd = None"
  by (simp add: pick_gpu_def)

section \<open>Taking resources keeps the ledger exact\<close>

lemma less_used_take:
  assumes "0 \<le> a" "a \<le> gpu_num (less_used u x)" "0 \<le> b" "b \<le> gpu_mem (less_used u x)"
  shows "(less_used u x)\<lparr>gpu_mem := gpu_mem (less_used u x) - b, gpu_num := gpu_num (less_used u x) - a\<rparr>
     = less_used (fst u + a, snd u + b) x"
  using assms by (auto simp: less_used_def)

lemma dput_dmapv:
  "dict_ok d \<Longrightarrow> map_of d k = Some v \<Longrightarrow> (\<And>j. j \<noteq> k \<Longrightarrow> f' j = f j) \<Longrightarrow>
   dput k (f' k v) (dmapv f d) = dmapv f' d"
proof (induction d)
  case (Cons p d)
  obtain j w where p: "p = (j, w)" by (cases p)
  show ?case
  proof (cases "j = k")
    case True
    with Cons.prems p have "k \<notin> set (map fst d)" by (auto simp: dict_ok_def)
    then have "dmapv f d = dmapv f' d"
      using Cons.prems(3) unfolding dmapv_def by (intro map_cong) (auto simp: image_iff)
    with True Cons.prems(2) p show ?thesis by (simp add: dput_def dmapv_def)
  next
    case False
    with Cons p show ?thesis by (simp add: dput_def dmapv_def dict_ok_def)
  qed
qed simp

text \<open>
  A node whose available resources are the recomputed ones still has them after a fitting request
  took its share, with the new lease counted.
\<close>

lemma take_recomputed:
  assumes node: "available nd = recomputed ls n (total nd)" "dict_ok (res_gpus (total nd))"
    and r: "needs_nonneg (req_need q)"
    and cpu: "need_cpu (req_need q) \<le> res_cpu (available nd)" "need_cpu_mem (req_need q) \<le> res_cpu_mem (available nd)"
    and gid: "gid = None \<or> (\<exists>g. gid = Some g \<and> gpu_fits (req_need q) nd g)"
    and new: "\<not> dhas lid ls"
  shows "available (take_resources now (req_need q) gid nd)
    = recomputed (dput lid (request_lease q n gid) ls) n (total nd)"
proof -
  let ?r = "req_need q" and ?ls = "dput lid (request_lease q n gid) ls"
  let ?f = "\<lambda>g x. less_used (reserved_gpu ls n g, reserved_gpu_mem ls n g) x"
  let ?f' = "\<lambda>g x. less_used (reserved_gpu ?ls n g, reserved_gpu_mem ?ls n g) x"
  have l: "lease_node (request_lease q n gid) = n" "lease_need (request_lease q n gid) = ?r"
      "lease_gpu (request_lease q n gid) = gid" by (simp_all add: request_lease_def)
  have add: "reserved_gpu ?ls n g = reserved_gpu ls n g + (if gid = Some g then need_gpu ?r else 0)"
      "reserved_gpu_mem ?ls n g = reserved_gpu_mem ls n g + (if gid = Some g then need_gpu_mem ?r else 0)" for g
    by (simp_all add: reserved_add [OF new] request_lease_def)
  have av: "res_gpus (available nd) = dmapv ?f (res_gpus (total nd))"
    using node(1) by (simp add: recomputed_closed)
  have gpus: "take_gpu ?r gid (res_gpus (available nd)) = dmapv ?f' (res_gpus (total nd))"
  proof (cases gid)
    case None
    have "?f' = ?f" unfolding add using None by simp
    then show ?thesis unfolding av using None by (simp add: take_gpu_def)
  next
    case (Some g)
    with gid obtain x where x: "map_of (res_gpus (available nd)) g = Some x"
        "need_gpu_mem ?r \<le> gpu_mem x" "need_gpu ?r \<le> gpu_num x" by (auto simp: gpu_fits_def)
    then obtain t where t: "map_of (res_gpus (total nd)) g = Some t" "x = ?f g t"
      by (auto simp: av)
    have step: "x\<lparr>gpu_mem := gpu_mem x - need_gpu_mem ?r, gpu_num := gpu_num x - need_gpu ?r\<rparr> = ?f' g t"
      using x(2,3) r less_used_take [of "need_gpu ?r" "(reserved_gpu ls n g, reserved_gpu_mem ls n g)" t "need_gpu_mem ?r"]
      unfolding add t(2) using Some by (simp add: needs_nonneg_def)
    have "take_gpu ?r gid (res_gpus (available nd))
        = dput g (x\<lparr>gpu_mem := gpu_mem x - need_gpu_mem ?r, gpu_num := gpu_num x - need_gpu ?r\<rparr>)
            (res_gpus (available nd))"
      using x(1) Some by (simp add: take_gpu_def)
    also have "\<dots> = dput g (?f' g t) (dmapv ?f (res_gpus (total nd)))" by (simp only: step av)
    also have "\<dots> = dmapv ?f' (res_gpus (total nd))"
      by (rule dput_dmapv [OF node(2) t(1)]) (unfold add, simp add: Some)
    finally show ?thesis .
  qed
  have "res_cpu (available nd) - need_cpu ?r = max 0 (res_cpu (total nd) - reserved_cpu ?ls n)"
    using node(1) cpu(1) r by (auto simp: recomputed_closed reserved_add [OF new] l needs_nonneg_def)
  moreover have "res_cpu_mem (available nd) - need_cpu_mem ?r = max 0 (res_cpu_mem (total nd) - reserved_mem ?ls n)"
    using node(1) cpu(2) r by (auto simp: recomputed_closed reserved_add [OF new] l needs_nonneg_def)
  ultimately show ?thesis unfolding recomputed_closed [of ?ls] by (simp add: take_resources_def gpus)
qed

lemma commit_ok:
  assumes ok: "manager_ok m" and n: "map_of (nodes m) n = Some nd"
    and r: "needs_nonneg (req_need q)" and new: "\<not> dhas lid (active_leases m)"
    and cpu: "need_cpu (req_need q) \<le> res_cpu (available nd)" "need_cpu_mem (req_need q) \<le> res_cpu_mem (available nd)"
    and gid: "gid = None \<or> (\<exists>g. gid = Some g \<and> gpu_fits (req_need q) nd g)"
  shows "manager_ok (commit now lid q n gid m)"
proof -
  let ?ls = "dput lid (request_lease q n gid) (active_leases m)"
  have node: "available nd = recomputed (active_leases m) n (total nd)" "dict_ok (res_gpus (total nd))"
    using manager_ok_node [OF ok n] by auto
  have l: "lease_node (request_lease q n gid) = n" "lease_kind (request_lease q n gid) = req_kind q"
    "lease_need (request_lease q n gid) = req_need q"
    by (simp_all add: request_lease_def)
  have tot: "total (take_resources now (req_need q) gid nd) = total nd" by (simp add: take_resources_def)
  have "node_ok ?ls n (take_resources now (req_need q) gid nd)"
    unfolding node_ok_def tot using node(2) take_recomputed [OF node r cpu gid new] by simp
  moreover have "node_ok ?ls k nd'" if "map_of (nodes m) k = Some nd'" "k \<noteq> n" for k nd'
    using manager_ok_node [OF ok that(1)] recomputed_add_other [OF new] that(2) l(1) unfolding node_ok_def by metis
  moreover have "tasks_on ?ls k = tasks_on (active_leases m) k + (if req_kind q = ''task'' \<and> n = k then 1 else 0)" for k
    by (simp add: reserved_add [OF new] is_task_on_def l)
  ultimately show ?thesis
    using ok n l(3) r by (auto simp: commit_def manager_ok_def record_selection_ok dgetd_def)
qed

lemma select_node_ok:
  assumes ok: "manager_ok m0" and sel: "select_node now lid r models q m0 = Inr (m', s)"
    and r: "needs_nonneg (req_need q)" and new: "\<not> dhas lid (active_leases m0)"
  shows "manager_ok m'"
  using sel
proof (cases rule: select_cases)
  case (chosen ray m c)
  have okm: "manager_ok m" unfolding chosen(2) by (rule refresh_head_ok [OF ok])
  obtain nd where nd: "map_of (nodes m) (cand_id c) = Some nd" "cand_gpu c = pick_gpu (req_need q) nd"
      "fits ray m q (cand_id c) nd"
    using candidate_fields [OF okm chosen(5)] chosen(6) by metis
  note g = manager_ok_gpus [OF okm nd(1)]
  have "cand_gpu c = None \<or> (\<exists>g. cand_gpu c = Some g \<and> gpu_fits (req_need q) nd g)"
    using nd(2,3) pick_gpu_fits [OF g] pick_gpu_None unfolding fits_def by metis
  moreover have "\<not> dhas lid (active_leases m)" using new by (simp add: chosen(2))
  ultimately show ?thesis
    unfolding chosen(7) using nd(1,3) by (intro commit_ok [OF okm nd(1) r]) (auto simp: fits_def)
qed (auto intro: refresh_head_ok ok)

section \<open>The manager's histories\<close>

text \<open>
  One call of an operation that changes the manager. A request has no negative amount (C2 shows that
  of normalised resources), a new lease id is fresh, and a head node registers no negative amount.
\<close>

inductive manager_step :: "manager \<Rightarrow> manager \<Rightarrow> bool" where
  step_init: "\<lbrakk>active_leases m = []; \<not> dhas nid (running_task_counts m); dict_ok (res_gpus res);
      0 \<le> res_cpu res; 0 \<le> res_cpu_mem res;
      \<forall>(g, x) \<in> set (res_gpus res). 0 \<le> gpu_num x \<and> 0 \<le> gpu_mem x\<rbrakk>
    \<Longrightarrow> manager_step m (init_head now nid ip res models m)"
| step_select: "\<lbrakk>select_node now lid r models q m = Inr (m', s); needs_nonneg (req_need q);
      \<not> dhas lid (active_leases m)\<rbrakk> \<Longrightarrow> manager_step m m'"
| step_release_lease: "manager_step m (fst (release_lease now i m))"
| step_start: "start_worker now r n ip res caps m = Inr (m', reg) \<Longrightarrow> manager_step m m'"
| step_dead: "manager_step m (fst (check_dead_node now r m))"
| step_stop: "stop_worker n m = Inr m' \<Longrightarrow> manager_step m m'"
| step_disable: "manager_step m (fst (set_node_disabled now r models n d m))"
| step_snapshot: "manager_step m (fst (get_cluster_resources now r models m))"
| step_policy: "manager_step m (set_scheduling_policy p m)"
| step_finish: "manager_step m (m\<lparr>contexts := fst (release_context (contexts m) w)\<rparr>)"

inductive_cases manager_stepE: "manager_step m m'"

lemma manager_step_ok: "manager_step m m' \<Longrightarrow> manager_ok m \<Longrightarrow> manager_ok m'"
proof (erule manager_stepE, goal_cases)
  case (1 nid res now ip models)
  then show ?case by (auto intro!: init_head_ok)
next
  case 10
  then show ?case by (auto simp: manager_ok_def release_context_ok)
qed (auto intro: select_node_ok release_lease_ok start_worker_ok check_dead_node_ok stop_worker_ok
    set_node_disabled_ok cluster_resources_ok set_policy_ok)

definition reachable_manager :: "manager \<Rightarrow> bool" where
  "reachable_manager m = manager_step\<^sup>*\<^sup>* empty_manager m"

lemma reachable_ok: "reachable_manager m \<Longrightarrow> manager_ok m"
  unfolding reachable_manager_def
  by (induction rule: rtranclp_induct) (auto intro: manager_ok_empty manager_step_ok)

section \<open>A sample cluster\<close>

text \<open>One head node with four CPUs and a 24 GiB GPU, and a task that asks for half of the GPU.\<close>

definition sample_res :: node_res where
  "sample_res = \<lparr>res_cpu = 4, res_cpu_mem = 100,
     res_gpus = [(0, \<lparr>gpu_num = 1, gpu_mem = 24000, gpu_capacity = Some 24576\<rparr>)]\<rparr>"

definition sample_manager :: manager where
  "sample_manager = init_head 0 ''h'' ''ip'' sample_res [] empty_manager"

definition sample_ray :: ray where
  "sample_ray = Some [(''h'', \<lparr>ray_alive = True, ray_address = Some ''ip''\<rparr>)]"

definition sample_request :: "rat \<Rightarrow> request" where
  "sample_request g = \<lparr>req_need = \<lparr>need_cpu = 1, need_cpu_mem = 0, need_gpu = 1, need_gpu_mem = g,
      need_node = None, need_target = None, need_avoid = [], need_capability = None\<rparr>,
    req_kind = ''task'', req_anchor = [], req_workflow = Some ''w'', req_run = None, req_task = Some ''t'',
    req_attempt = Some 1, req_dispatch = None\<rparr>"

definition sample_selected :: manager where
  "sample_selected = commit 1 ''L'' (sample_request 12000) ''h'' (Some 0) (refresh_head_models [] sample_manager)"

lemma sample_step: "manager_step empty_manager sample_manager"
  unfolding sample_manager_def
  by (rule step_init) (simp_all add: empty_manager_def sample_res_def dict_ok_def)

lemma sample_reachable: "reachable_manager sample_manager"
  unfolding reachable_manager_def using sample_step by (rule r_into_rtranclp)

lemmas sample_defs = sample_manager_def init_head_def empty_manager_def new_node_def sample_res_def
  no_contexts_def sample_ray_def sample_request_def

lemma sample_candidates:
  "candidates [(''h'', \<lparr>ray_alive = True, ray_address = Some ''ip''\<rparr>)] (refresh_head_models [] sample_manager)
     (sample_request g) =
   [\<lparr>cand_order = 0, cand_id = ''h'', cand_ip = ''ip'', cand_alive = True, cand_disabled = False,
     cand_running = 0, cand_load = 0, cand_cpu = 4, cand_free_gpus = 1,
     cand_reject = (if g \<le> 24000 then [] else [''insufficient_gpu_mem'']),
     cand_gpu = (if g \<le> 24000 then Some 0 else None)\<rparr>]"
  by (simp add: candidates_def make_candidate_def sample_defs refresh_head_models_def dput_def target_of_def
      anchor_str_def or_str_def present_def reject_reasons_def is_node_alive_def only_if_def avoid_ids_def
      model_reasons_def required_model_def vor_def gpu_reasons_def available_gpu_count_def gpu_options_def
      pick_gpu_def dsetdefault_def dgetd_def node_context_load_def gpu_snapshot_def dkeys_def gpu_or_zero_def)

lemma sample_index: "ray_node_index sample_ray = Some [(''h'', \<lparr>ray_alive = True, ray_address = Some ''ip''\<rparr>)]"
  by (simp add: ray_node_index_def sample_ray_def dput_def)

lemma sample_select:
  "\<exists>s. select_node 1 ''L'' sample_ray [] (sample_request 12000) sample_manager = Inr (sample_selected, s)
     \<and> sel_node s = Some (''h'', ''ip'', Some 0) \<and> sel_lease s = Some ''L''"
  by (simp add: select_node_def sample_index sample_candidates can_run_def best_def sample_selected_def)
    (simp add: sample_request_def)

lemma sample_needs: "0 \<le> g \<Longrightarrow> needs_nonneg (req_need (sample_request g))"
  by (simp add: needs_nonneg_def sample_request_def)

lemma sample_no_lease: "active_leases sample_manager = []"
  by (simp add: sample_defs)

lemma sample_selected_step: "manager_step sample_manager sample_selected"
  using sample_select by (auto intro!: step_select sample_needs simp: sample_no_lease)

lemma sample_selected_reachable: "reachable_manager sample_selected"
  using sample_reachable sample_selected_step unfolding reachable_manager_def by (rule rtranclp.rtrancl_into_rtrancl)

lemma select_chosen_node:
  assumes ok: "manager_ok m0" and sel: "select_node now lid r models q m0 = Inr (m', s)"
    and node: "sel_node s = Some (n, ip, g)"
  obtains ray m nd where "ray_node_index r = Some ray" "m = refresh_head_models models m0" "manager_ok m"
    "map_of (nodes m) n = Some nd" "ip = node_ip nd" "g = pick_gpu (req_need q) nd" "fits ray m q n nd"
    "present (target_of m q) \<longrightarrow> target_of m q = Some n" "m' = commit now lid q n g m" "sel_lease s = Some lid"
  using sel
proof (cases rule: select_cases)
  case (chosen ray m c)
  have okm: "manager_ok m" unfolding chosen(2) by (rule refresh_head_ok [OF ok])
  show ?thesis
    by (rule candidate_fields [OF okm chosen(5)], rule that [OF chosen(1,2) okm])
      (use chosen node in auto)
qed (use node in auto)

text \<open>A GPU was picked exactly when one was asked for, and it fits.\<close>

lemma picked_gpu:
  assumes ok: "manager_ok m" and nd: "map_of (nodes m) n = Some nd" and f: "fits ray m q n nd"
  shows "if 0 < need_gpu (req_need q)
    then \<exists>g. pick_gpu (req_need q) nd = Some g \<and> gpu_fits (req_need q) nd g
    else pick_gpu (req_need q) nd = None"
  using pick_gpu_fits [OF manager_ok_gpus [OF ok nd]] pick_gpu_None f unfolding fits_def by auto

text \<open>The chosen node ranks first among the fitting ones.\<close>

lemma chosen_least:
  assumes ok: "manager_ok m0" and sel: "select_node now lid r models q m0 = Inr (m', s)"
    and node: "sel_node s = Some (n, ip, g)" and m: "m = refresh_head_models models m0"
    and ray: "ray_node_index r = Some ray"
    and b: "map_of (nodes m) b = Some nd" "fits ray m q b nd" "present (target_of m q) \<longrightarrow> target_of m q = Some b"
  shows "\<exists>c d. cand_id c = n \<and> cand_id d = b
    \<and> candidate_sort_key m q (preferred_node_id (contexts m) (req_workflow q)) c
      \<le> candidate_sort_key m q (preferred_node_id (contexts m) (req_workflow q)) d"
  using sel
proof (cases rule: select_cases)
  case (chosen ray' m1 c)
  have okm: "manager_ok m" unfolding m by (rule refresh_head_ok [OF ok])
  have eq: "ray' = ray" "m1 = m" using chosen(1,2) ray m by auto
  obtain d where d: "d \<in> set (candidates ray m q)" "cand_id d = b"
    using candidate_iff [OF okm] b(1,3) by (metis dhas_iff option.distinct(1))
  obtain nd' where "map_of (nodes m) (cand_id d) = Some nd'" "can_run d \<longleftrightarrow> fits ray m q (cand_id d) nd'"
    using candidate_fields [OF okm d(1)] by metis
  with b d have "d \<in> set (filter can_run (candidates ray m q))" by simp
  from best_least [OF this, of m q] show ?thesis
    using chosen(4,8) node d(2) unfolding eq by auto
qed (use node ray in auto)

lemma placement_complete_aux:
  assumes "manager_ok m0" and "ray_node_index r = Some ray" and "need_gpu (req_need q) \<le> 1"
    and "m = refresh_head_models models m0"
  shows "(\<exists>m' s. select_node now lid r models q m0 = Inr (m', s) \<and> sel_node s \<noteq> None)
    \<longleftrightarrow> (\<exists>n nd. map_of (nodes m) n = Some nd \<and> fits ray m q n nd
          \<and> (present (target_of m q) \<longrightarrow> target_of m q = Some n))" (is "?sel \<longleftrightarrow> ?fit")
proof
  note ok0 = assms(1)
  then have ok: "manager_ok m" unfolding assms(4) by (rule refresh_head_ok)
  show ?fit if ?sel
  proof -
    from that obtain m' s n ip g
      where s: "select_node now lid r models q m0 = Inr (m', s)" "sel_node s = Some (n, ip, g)" by auto
    show ?thesis by (rule select_chosen_node [OF ok0 s]) (use assms(2,4) in auto)
  qed
  show ?sel if ?fit
  proof -
    from that obtain n nd where n: "map_of (nodes m) n = Some nd" "fits ray m q n nd"
        "present (target_of m q) \<longrightarrow> target_of m q = Some n" by blast
    then obtain c where c: "c \<in> set (candidates ray m q)" "cand_id c = n"
      using candidate_iff [OF ok] by (metis dhas_iff option.distinct(1))
    obtain nd' where "map_of (nodes m) (cand_id c) = Some nd'" "can_run c \<longleftrightarrow> fits ray m q (cand_id c) nd'"
      using candidate_fields [OF ok c(1)] by metis
    with n c have "can_run c" by simp
    with c(1) have "filter can_run (candidates ray m q) \<noteq> []" by (auto simp: filter_empty_conv)
    then show ?thesis using assms by (simp add: select_node_def Let_def)
  qed
qed

text \<open>Releasing the lease a commit made.\<close>

lemma commit_leases:
  "map_of (nodes m) n = Some nd \<Longrightarrow>
   active_leases (commit now lid q n g m) = dput lid (request_lease q n g) (active_leases m)"
  by (simp add: commit_def)

lemma commit_totals:
  "map_option total (map_of (nodes (commit now lid q n g m)) k) = map_option total (map_of (nodes m) k)"
  by (auto simp: commit_def take_resources_def split: option.splits)

lemma release_totals:
  "map_option total (map_of (nodes (fst (release_lease now i m))) k) = map_option total (map_of (nodes m) k)"
  by (auto simp: release_lease_def Let_def dhas_iff split: option.splits)

lemma refresh_totals:
  "map_option total (map_of (nodes (refresh_head_models ms m)) k) = map_option total (map_of (nodes m) k)"
  by (auto simp: refresh_head_models_def split: option.splits)

text \<open>Two consistent managers with the same leases and totals offer the same resources.\<close>

lemma ledger_determines:
  assumes "manager_ok m" "manager_ok m'" "active_leases m' = active_leases m"
    and "map_option total (map_of (nodes m') n) = map_option total (map_of (nodes m) n)"
  shows "map_option available (map_of (nodes m') n) = map_option available (map_of (nodes m) n)
    \<and> (dhas n (nodes m) \<longrightarrow> dgetd (running_task_counts m') n 0 = dgetd (running_task_counts m) n 0)"
proof (cases "map_of (nodes m) n")
  case None
  with assms(4) show ?thesis by (simp add: dhas_iff)
next
  case (Some nd)
  with assms(4) obtain nd' where nd': "map_of (nodes m') n = Some nd'" "total nd' = total nd" by auto
  show ?thesis
    using manager_ok_node [OF assms(1) Some] manager_ok_node [OF assms(2) nd'(1)] assms(3) nd' Some by simp
qed

section \<open>Properties\<close>

text \<open>
  C1: The ledger is exact in every reachable state: a registered node has available its total less
  what its leases reserve (CPU, memory and each GPU, never below zero), and its running-task count is
  the number of task leases on it; so no sequence of selections, releases, registrations, node
  losses and disablings leaks or duplicates capacity.
\<close>

theorem ledger_exact:
  assumes "reachable_manager m" and "map_of (nodes m) n = Some nd"
  shows "res_cpu (available nd) = max 0 (res_cpu (total nd) - reserved_cpu (active_leases m) n)
    \<and> res_cpu_mem (available nd) = max 0 (res_cpu_mem (total nd) - reserved_mem (active_leases m) n)
    \<and> (\<forall>g. map_of (res_gpus (available nd)) g =
          map_option (less_used (reserved_gpu (active_leases m) n g, reserved_gpu_mem (active_leases m) n g))
            (map_of (res_gpus (total nd)) g))
    \<and> dgetd (running_task_counts m) n 0 = int (length (filter (is_task_on n) (dvals (active_leases m))))"
  using manager_ok_node [OF reachable_ok [OF assms(1)] assms(2)]
  by (simp add: recomputed_closed tasks_on_length)

theorem ledger_exact_witness:
  "\<exists>nd. map_of (nodes sample_selected) ''h'' = Some nd \<and> res_cpu (available nd) = 3"
proof -
  have n: "\<exists>nd. map_of (nodes sample_selected) ''h'' = Some nd \<and> res_cpu (total nd) = 4"
    by (simp add: sample_selected_def commit_def refresh_head_models_def sample_defs dput_def take_resources_def)
  moreover have "reserved_cpu (active_leases sample_selected) ''h'' = 1"
    by (simp add: sample_selected_def commit_def refresh_head_models_def sample_defs dput_def
        reserved_defs request_lease_def)
  ultimately show ?thesis using ledger_exact [OF sample_selected_reachable, of "''h''"] by auto
qed

text \<open>
  C2: A task is placed only on a registered node that Ray reports alive, that is not disabled and not
  on the request's avoid list, that is the pinned node if one is pinned, that offers the required
  capability and model backend, and that has the CPU, memory and one GPU the request needs.
\<close>

theorem placement_safe:
  assumes "reachable_manager m0" and "select_node now lid r models q m0 = Inr (m', s)"
    and "sel_node s = Some (n, ip, g)"
  shows "\<exists>ray nd. ray_node_index r = Some ray \<and> map_of (nodes (refresh_head_models models m0)) n = Some nd
    \<and> ip = node_ip nd \<and> fits ray m0 q n nd
    \<and> (present (target_of m0 q) \<longrightarrow> target_of m0 q = Some n)
    \<and> (if 0 < need_gpu (req_need q) then \<exists>i. g = Some i \<and> gpu_fits (req_need q) nd i else g = None)"
proof (rule select_chosen_node [OF reachable_ok [OF assms(1)] assms(2,3)])
  fix ray m nd
  assume a: "ray_node_index r = Some ray" "m = refresh_head_models models m0" "manager_ok m"
    "map_of (nodes m) n = Some nd" "ip = node_ip nd" "g = pick_gpu (req_need q) nd" "fits ray m q n nd"
    "present (target_of m q) \<longrightarrow> target_of m q = Some n" "m' = commit now lid q n g m" "sel_lease s = Some lid"
  then show ?thesis using picked_gpu [OF a(3,4,7)] by (intro exI [of _ ray] exI [of _ nd]) (auto simp: fits_def)
qed

theorem placement_safe_witness:
  "\<exists>s nd. select_node 1 ''L'' sample_ray [] (sample_request 12000) sample_manager = Inr (sample_selected, s)
     \<and> map_of (nodes (refresh_head_models [] sample_manager)) ''h'' = Some nd
     \<and> gpu_fits (req_need (sample_request 12000)) nd 0"
proof -
  obtain s where s: "select_node 1 ''L'' sample_ray [] (sample_request 12000) sample_manager = Inr (sample_selected, s)"
      "sel_node s = Some (''h'', ''ip'', Some 0)" using sample_select by blast
  show ?thesis
    using placement_safe [OF sample_reachable s] s(1) by (auto simp: sample_request_def)
qed

text \<open>
  A placement never over-commits: after a selection the leases on the chosen node, the new one
  included, reserve no more CPU, memory and GPU share than the node registered, for every kind of
  resource the request asks for.
\<close>

theorem placement_admits_within_capacity:
  assumes "reachable_manager m0" and "select_node now lid r models q m0 = Inr (m', s)"
    and "sel_node s = Some (n, ip, g)" and "needs_nonneg (req_need q)" and "\<not> dhas lid (active_leases m0)"
  shows "\<exists>nd. map_of (nodes m') n = Some nd
    \<and> (0 < need_cpu (req_need q) \<longrightarrow> reserved_cpu (active_leases m') n \<le> res_cpu (total nd))
    \<and> (0 < need_cpu_mem (req_need q) \<longrightarrow> reserved_mem (active_leases m') n \<le> res_cpu_mem (total nd))
    \<and> (0 < need_gpu (req_need q) \<longrightarrow> (\<exists>i t. g = Some i \<and> map_of (res_gpus (total nd)) i = Some t
         \<and> reserved_gpu (active_leases m') n i \<le> gpu_num t
         \<and> (0 < need_gpu_mem (req_need q) \<longrightarrow> reserved_gpu_mem (active_leases m') n i \<le> gpu_mem t)))"
proof (rule select_chosen_node [OF reachable_ok [OF assms(1)] assms(2,3)])
  fix ray m nd
  assume a: "ray_node_index r = Some ray" "m = refresh_head_models models m0" "manager_ok m"
    "map_of (nodes m) n = Some nd" "ip = node_ip nd" "g = pick_gpu (req_need q) nd" "fits ray m q n nd"
    "present (target_of m q) \<longrightarrow> target_of m q = Some n" "m' = commit now lid q n g m" "sel_lease s = Some lid"
  have new: "\<not> dhas lid (active_leases m)" using assms(5) by (simp add: a(2))
  have av: "available nd = recomputed (active_leases m) n (total nd)" using manager_ok_node [OF a(3,4)] by simp
  have cpu: "need_cpu (req_need q) \<le> res_cpu (available nd)" "need_cpu_mem (req_need q) \<le> res_cpu_mem (available nd)"
    using a(7) by (auto simp: fits_def)
  let ?nd = "take_resources now (req_need q) g nd"
  have m': "map_of (nodes m') n = Some ?nd" "total ?nd = total nd"
      "active_leases m' = dput lid (request_lease q n g) (active_leases m)"
    by (simp_all add: a(4,9) commit_def take_resources_def)
  have gpu: "\<exists>i t. g = Some i \<and> map_of (res_gpus (total nd)) i = Some t
       \<and> reserved_gpu (active_leases m') n i \<le> gpu_num t
       \<and> (0 < need_gpu_mem (req_need q) \<longrightarrow> reserved_gpu_mem (active_leases m') n i \<le> gpu_mem t)"
    if pos: "0 < need_gpu (req_need q)"
  proof -
    obtain i x where i: "g = Some i" "map_of (res_gpus (available nd)) i = Some x"
        "need_gpu_mem (req_need q) \<le> gpu_mem x" "need_gpu (req_need q) \<le> gpu_num x"
      using picked_gpu [OF a(3,4,7)] pos unfolding a(6) gpu_fits_def by auto
    then obtain t where "map_of (res_gpus (total nd)) i = Some t"
        "x = less_used (reserved_gpu (active_leases m) n i, reserved_gpu_mem (active_leases m) n i) t"
      by (auto simp: av recomputed_closed)
    with i pos show ?thesis unfolding m'(3) reserved_add [OF new]
      by (auto simp: request_lease_def less_used_def)
  qed
  show ?thesis
    using cpu gpu unfolding m'(3) reserved_add [OF new] av recomputed_closed
    by (intro exI [of _ ?nd] conjI m'(1)) (auto simp: request_lease_def m')
qed

theorem placement_admits_within_capacity_witness:
  "\<exists>nd. map_of (nodes sample_selected) ''h'' = Some nd
     \<and> reserved_cpu (active_leases sample_selected) ''h'' \<le> res_cpu (total nd)"
proof -
  obtain s where s: "select_node 1 ''L'' sample_ray [] (sample_request 12000) sample_manager = Inr (sample_selected, s)"
      "sel_node s = Some (''h'', ''ip'', Some 0)" using sample_select by blast
  have "needs_nonneg (req_need (sample_request 12000))" by (rule sample_needs) simp
  from placement_admits_within_capacity [OF sample_reachable s this] sample_no_lease
  show ?thesis by (auto simp: sample_request_def)
qed

text \<open>
  Placement is complete: when Ray answers and some registered node fits the request (and is the
  pinned one if one is pinned), the request is placed; and it is placed only then.
\<close>

theorem placement_complete:
  assumes "reachable_manager m0" and "ray_node_index r = Some ray" and "need_gpu (req_need q) \<le> 1"
    and "m = refresh_head_models models m0"
  shows "(\<exists>m' s. select_node now lid r models q m0 = Inr (m', s) \<and> sel_node s \<noteq> None)
    \<longleftrightarrow> (\<exists>n nd. map_of (nodes m) n = Some nd \<and> fits ray m q n nd
          \<and> (present (target_of m q) \<longrightarrow> target_of m q = Some n))"
  by (rule placement_complete_aux [OF reachable_ok [OF assms(1)] assms(2-4)])

theorem placement_complete_witness:
  "\<not> (\<exists>n nd. map_of (nodes (refresh_head_models [] sample_manager)) n = Some nd
      \<and> fits [(''h'', \<lparr>ray_alive = True, ray_address = Some ''ip''\<rparr>)] (refresh_head_models [] sample_manager)
           (sample_request 30000) n nd
      \<and> (present (target_of (refresh_head_models [] sample_manager) (sample_request 30000)) \<longrightarrow>
           target_of (refresh_head_models [] sample_manager) (sample_request 30000) = Some n))"
proof -
  have "need_gpu (req_need (sample_request 30000)) \<le> 1" by (simp add: sample_request_def)
  note iff = placement_complete [OF sample_reachable sample_index this refl, of 1 "''L''" "[]"]
  have "\<not> (\<exists>m' s. select_node 1 ''L'' sample_ray [] (sample_request 30000) sample_manager = Inr (m', s)
      \<and> sel_node s \<noteq> None)"
    by (auto simp: select_node_def sample_index sample_candidates can_run_def failed_selection_def Let_def
        split: option.splits if_splits)
  then show ?thesis unfolding iff .
qed

text \<open>
  Affinity decides first: when the node a workflow already ran on still fits, the workflow's next
  task is placed there, whatever the scheduling policy and the load of the other nodes.
\<close>

theorem affinity_wins:
  assumes "reachable_manager m0" and "select_node now lid r models q m0 = Inr (m', s)"
    and "sel_node s = Some (n, ip, g)" and "ray_node_index r = Some ray"
    and "m = refresh_head_models models m0"
    and "preferred_node_id (contexts m0) (req_workflow q) = Some a" and "a \<noteq> []"
    and "map_of (nodes m) a = Some nd" and "fits ray m q a nd"
    and "present (target_of m q) \<longrightarrow> target_of m q = Some a"
  shows "n = a"
proof (rule ccontr)
  assume "n \<noteq> a"
  have w: "present (req_workflow q)"
    using assms(6) by (auto simp: preferred_node_id_def get_context_def split: if_splits)
  have p: "preferred_node_id (contexts m) (req_workflow q) = Some a" "present (Some a)"
    using assms(5-7) by (simp_all add: present_def)
  obtain c d where "cand_id c = n" "cand_id d = a"
      "candidate_sort_key m q (Some a) c \<le> candidate_sort_key m q (Some a) d"
    using chosen_least [OF reachable_ok [OF assms(1)] assms(2,3,5,4,8,9,10)] p(1) by auto
  with \<open>n \<noteq> a\<close> w p(2) show False
    by (auto simp: candidate_sort_key_def Let_def split: if_splits)
qed

theorem affinity_wins_witness:
  "\<exists>m' s ip g. select_node 2 ''L2'' sample_ray [] ((sample_request 12000)\<lparr>req_need := (req_need (sample_request 0))\<lparr>need_gpu := 0\<rparr>\<rparr>)
      sample_selected = Inr (m', s) \<and> sel_node s = Some (''h'', ip, g)"
proof -
  let ?q = "(sample_request 12000)\<lparr>req_need := (req_need (sample_request 0))\<lparr>need_gpu := 0\<rparr>\<rparr>"
  let ?m = "refresh_head_models [] sample_selected"
  let ?ray = "[(''h'', \<lparr>ray_alive = True, ray_address = Some ''ip''\<rparr>)]"
  have h: "\<exists>nd. map_of (nodes ?m) ''h'' = Some nd \<and> fits ?ray ?m ?q ''h'' nd"
    by (simp add: sample_selected_def commit_def refresh_head_models_def sample_defs dput_def take_resources_def
        fits_def is_node_alive_def avoid_ids_def model_served_def required_model_def vor_def present_def)
  have t: "\<not> present (target_of ?m ?q)" "need_gpu (req_need ?q) \<le> 1"
    by (simp_all add: target_of_def sample_request_def anchor_str_def or_str_def present_def)
  obtain m' s where s: "select_node 2 ''L2'' sample_ray [] ?q sample_selected = Inr (m', s)" "sel_node s \<noteq> None"
    using placement_complete_aux [OF reachable_ok [OF sample_selected_reachable] sample_index t(2) refl] h t(1) by blast
  then obtain n ip g where n: "sel_node s = Some (n, ip, g)" by auto
  have "preferred_node_id (contexts sample_selected) (req_workflow ?q) = Some ''h''"
    by (simp add: sample_selected_def commit_def refresh_head_models_def sample_defs dput_def
        preferred_node_id_def get_context_def present_def record_selection_def touch_def Let_def)
  then have "n = ''h''"
    using affinity_wins [OF sample_selected_reachable s(1) n sample_index refl] h t(1) by blast
  with s n show ?thesis by blast
qed

text \<open>
  Under the \<open>least-loaded\<close> policy (and its alias \<open>spread\<close>), a task without a workflow goes to a
  node on which no more tasks run than on any other node that fits.
\<close>

theorem least_loaded_choice:
  assumes "reachable_manager m0" and "select_node now lid r models q m0 = Inr (m', s)"
    and "sel_node s = Some (n, ip, g)" and "ray_node_index r = Some ray"
    and "m = refresh_head_models models m0"
    and "scheduling_policy m0 \<in> {''least-loaded'', ''spread''}" and "\<not> present (req_workflow q)"
    and "map_of (nodes m) b = Some nd" and "fits ray m q b nd"
    and "present (target_of m q) \<longrightarrow> target_of m q = Some b"
  shows "tasks_on (active_leases m0) n \<le> tasks_on (active_leases m0) b"
proof -
  have ok: "manager_ok m" unfolding assms(5) by (intro refresh_head_ok reachable_ok assms(1))
  have "dgetd (running_task_counts m) n 0 \<le> dgetd (running_task_counts m) b 0"
    using chosen_least [OF reachable_ok [OF assms(1)] assms(2,3,5,4,8,9,10)] assms(5-7)
    by (auto simp: candidate_sort_key_def Let_def split: if_splits)
  moreover have "\<exists>nd'. map_of (nodes m) n = Some nd'"
    by (rule select_chosen_node [OF reachable_ok [OF assms(1)] assms(2,3)]) (use assms(5) in auto)
  ultimately show ?thesis using manager_ok_node [OF ok] assms(5,8) by (metis refresh_head_fields(1))
qed

theorem least_loaded_choice_witness:
  "\<exists>m' s n ip g. select_node 2 ''L2'' sample_ray []
        ((sample_request 12000)\<lparr>req_need := (req_need (sample_request 0))\<lparr>need_gpu := 0\<rparr>, req_workflow := None\<rparr>)
        (set_scheduling_policy (Some ''least-loaded'') sample_manager) = Inr (m', s)
     \<and> sel_node s = Some (n, ip, g)
     \<and> tasks_on (active_leases (set_scheduling_policy (Some ''least-loaded'') sample_manager)) n
       \<le> tasks_on (active_leases (set_scheduling_policy (Some ''least-loaded'') sample_manager)) ''h''"
proof -
  let ?start = "set_scheduling_policy (Some ''least-loaded'') sample_manager"
  let ?q = "(sample_request 12000)\<lparr>req_need := (req_need (sample_request 0))\<lparr>need_gpu := 0\<rparr>, req_workflow := None\<rparr>"
  let ?m = "refresh_head_models [] ?start"
  let ?ray = "[(''h'', \<lparr>ray_alive = True, ray_address = Some ''ip''\<rparr>)]"
  have reach: "reachable_manager ?start"
    using sample_reachable step_policy unfolding reachable_manager_def by (rule rtranclp.rtrancl_into_rtrancl)
  have pol: "scheduling_policy ?start = ''least-loaded''"
    by (simp add: set_scheduling_policy_def supported_policies_def py_lower_def py_strip_def is_space_def
        lower_char_def is_upper_def)
  have "\<exists>nd. map_of (nodes ?m) ''h'' = Some nd \<and> fits ?ray ?m ?q ''h'' nd"
    by (simp add: set_scheduling_policy_def refresh_head_models_def sample_defs dput_def Let_def
        fits_def is_node_alive_def avoid_ids_def model_served_def required_model_def vor_def present_def)
  then obtain nd where nd: "map_of (nodes ?m) ''h'' = Some nd" "fits ?ray ?m ?q ''h'' nd" by blast
  have t: "\<not> present (target_of ?m ?q)" "need_gpu (req_need ?q) \<le> 1" "\<not> present (req_workflow ?q)"
    by (simp_all add: target_of_def sample_request_def anchor_str_def or_str_def present_def)
  obtain m' s where s: "select_node 2 ''L2'' sample_ray [] ?q ?start = Inr (m', s)" "sel_node s \<noteq> None"
    using placement_complete_aux [OF reachable_ok [OF reach] sample_index t(2) refl] nd t(1) by blast
  then obtain n ip g where n: "sel_node s = Some (n, ip, g)" by auto
  have "tasks_on (active_leases ?start) n \<le> tasks_on (active_leases ?start) ''h''"
    using least_loaded_choice [OF reach s(1) n sample_index refl _ t(3) nd] pol t(1) by blast
  then show ?thesis using s(1) n by blast
qed

text \<open>
  Releasing the lease of a placement undoes it: the leases are those of before, every node
  offers exactly the resources it offered before, and its running-task count is back; a second
  release of the same lease reports \<open>False\<close> and changes nothing.
\<close>

theorem select_release_round_trip:
  assumes "reachable_manager m0" and "select_node now lid r models q m0 = Inr (m', s)"
    and "sel_node s \<noteq> None" and "needs_nonneg (req_need q)" and "\<not> dhas lid (active_leases m0)"
    and "m2 = fst (release_lease now2 (Some lid) m')"
  shows "active_leases m2 = active_leases m0
    \<and> map_option available (map_of (nodes m2) k) = map_option available (map_of (nodes m0) k)
    \<and> (dhas k (nodes m0) \<longrightarrow> dgetd (running_task_counts m2) k 0 = dgetd (running_task_counts m0) k 0)
    \<and> release_lease now3 (Some lid) m2 = (m2, False)"
proof -
  have ok0: "manager_ok m0" by (rule reachable_ok [OF assms(1)])
  have ok2: "manager_ok m2" unfolding assms(6)
    by (intro release_lease_ok select_node_ok [OF ok0 assms(2,4,5)])
  obtain n ip g where node: "sel_node s = Some (n, ip, g)" using assms(3) by auto
  have "active_leases m' = dput lid (request_lease q n g) (active_leases m0)
      \<and> (\<forall>k. map_option total (map_of (nodes m') k) = map_option total (map_of (nodes m0) k))"
    by (rule select_chosen_node [OF ok0 assms(2) node])
      (simp add: commit_leases commit_totals refresh_totals)
  then have l: "active_leases m2 = active_leases m0"
    and t: "map_option total (map_of (nodes m2) k) = map_option total (map_of (nodes m0) k)"
    unfolding assms(6) by (simp_all add: release_lease_leases ddel_dput_new assms(5) release_totals)
  have "map_of (active_leases m2) lid = None" using l assms(5) by (simp add: dhas_iff)
  then have "release_lease now3 (Some lid) m2 = (m2, False)" by (simp add: release_lease_def)
  then show ?thesis using ledger_determines [OF ok0 ok2 l t] l by simp
qed

theorem select_release_round_trip_witness:
  "map_option available (map_of (nodes (fst (release_lease 9 (Some ''L'') sample_selected))) ''h'') = Some sample_res
   \<and> release_lease 10 (Some ''L'') (fst (release_lease 9 (Some ''L'') sample_selected))
     = (fst (release_lease 9 (Some ''L'') sample_selected), False)"
proof -
  obtain s where s: "select_node 1 ''L'' sample_ray [] (sample_request 12000) sample_manager = Inr (sample_selected, s)"
      "sel_node s \<noteq> None" using sample_select by auto
  have "needs_nonneg (req_need (sample_request 12000))" by (rule sample_needs) simp
  from select_release_round_trip [OF sample_reachable s this _ refl, of 9 "''h''" 10]
  show ?thesis by (simp add: sample_no_lease) (simp add: sample_manager_def init_head_def empty_manager_def new_node_def)
qed

text \<open>
  A request is reported as \<open>resource_capacity_exceeded\<close> (which the scheduler does not retry) only
  when it asks for a GPU and for more memory than any GPU of the nodes that could serve it has.
\<close>

theorem capacity_exceeded_sound:
  assumes "reachable_manager m0" and "select_node now lid r models q m0 = Inr (m', s)"
    and "sel_max_capacity s = Some cap"
  shows "sel_node s = None \<and> sel_reason s = ''resource_capacity_exceeded'' \<and> need_gpu (req_need q) \<noteq> 0
    \<and> cap < need_gpu_mem (req_need q)
    \<and> (\<forall>c \<in> set (sel_candidates s). capacity_eligible c \<longrightarrow>
        (\<forall>nd. map_of (nodes m') (cand_id c) = Some nd \<longrightarrow>
          (\<forall>x \<in> set (node_capacities nd). \<exists>y. x = Some y \<and> y \<noteq> 0 \<and> y \<le> cap)))"
proof -
  let ?m = "refresh_head_models models m0"
  from assms(2,3) obtain ray where ray: "ray_node_index r = Some ray" "m' = ?m"
      "sel_node s = None" "sel_reason s = ''resource_capacity_exceeded''" "sel_candidates s = candidates ray ?m q"
      "capacity_exceeded ?m (req_need q) (candidates ray ?m q) = Some cap"
    by (auto simp: select_node_def failed_selection_def Let_def split: if_splits option.splits)
  define caps where "caps = concat (map (\<lambda>c. case map_of (nodes ?m) (cand_id c) of None \<Rightarrow> [] | Some nd \<Rightarrow> node_capacities nd)
      (filter capacity_eligible (candidates ray ?m q)))"
  have c: "need_gpu (req_need q) \<noteq> 0" "list_all capacity_known caps" "cap = Max (set (map the caps))"
      "cap < need_gpu_mem (req_need q)"
    using ray(6) unfolding capacity_exceeded_def caps_def [symmetric] by (auto simp: Let_def split: if_splits)
  have key: "\<exists>y. x = Some y \<and> y \<noteq> 0 \<and> y \<le> cap" if "x \<in> set caps" for x
  proof -
    have "capacity_known x" using c(2) that by (simp add: list_all_iff)
    moreover have "the x \<le> cap" unfolding c(3) using that by (intro Max_ge) auto
    ultimately show ?thesis by (auto simp: capacity_known_def split: option.splits)
  qed
  have "x \<in> set caps" if "c \<in> set (candidates ray ?m q)" "capacity_eligible c"
      "map_of (nodes ?m) (cand_id c) = Some nd" "x \<in> set (node_capacities nd)" for c nd x
    using that by (force simp: caps_def)
  then have "\<forall>c \<in> set (candidates ray ?m q). capacity_eligible c \<longrightarrow>
      (\<forall>nd. map_of (nodes ?m) (cand_id c) = Some nd \<longrightarrow>
        (\<forall>x \<in> set (node_capacities nd). \<exists>y. x = Some y \<and> y \<noteq> 0 \<and> y \<le> cap))"
    using key by blast
  then show ?thesis unfolding ray(2,5) using ray(3,4) c(1,4) by blast
qed

theorem capacity_exceeded_sound_witness:
  "\<exists>s. select_node 1 ''L'' sample_ray [] (sample_request 30000) sample_manager
       = Inr (refresh_head_models [] sample_manager, s) \<and> sel_reason s = ''resource_capacity_exceeded''"
proof -
  have "\<exists>s. select_node 1 ''L'' sample_ray [] (sample_request 30000) sample_manager
        = Inr (refresh_head_models [] sample_manager, s) \<and> sel_max_capacity s = Some 24576"
    by (simp add: select_node_def sample_index sample_candidates can_run_def failed_selection_def
        capacity_exceeded_def capacity_eligible_def rejects_def)
      (simp add: refresh_head_models_def sample_defs dput_def node_capacities_def dvals_def capacity_known_def
        failed_selection_def)
  then obtain s where "select_node 1 ''L'' sample_ray [] (sample_request 30000) sample_manager
        = Inr (refresh_head_models [] sample_manager, s)" "sel_max_capacity s = Some 24576" by blast
  from this(1) capacity_exceeded_sound [OF sample_reachable this] show ?thesis by blast
qed

section \<open>The cluster view and node losses\<close>

lemma row_steps_Inl: "foldl (row_step now ray) (m, Inl e) ns = (m, Inl e)"
  by (induction ns) (auto simp: row_step_def)

lemma row_step_keys:
  "fst (row_step now ray (m, Inr rows) n) = m' \<Longrightarrow> set (dkeys (nodes m')) = set (dkeys (nodes m))"
  by (auto simp: row_step_def Let_def dkeys_dput_old simp del: set_dkeys_dput split: option.splits)

text \<open>The loop over the rows ends without an exception exactly when Ray lists every node of the loop.\<close>

lemma row_steps_error:
  "set ns \<subseteq> set (dkeys (nodes m)) \<Longrightarrow>
   (\<exists>m' rows'. foldl (row_step now (Some idx)) (m, Inr rows) ns = (m', Inr rows'))
     \<longleftrightarrow> (\<forall>n \<in> set ns. dhas n idx)"
proof (induction ns arbitrary: m rows)
  case (Cons n ns)
  then obtain nd where nd: "map_of (nodes m) n = Some nd" by (auto simp: dhas_iff simp flip: dhas_dkeys)
  show ?case
  proof (cases "map_of idx n")
    case None
    then have "row_step now (Some idx) (m, Inr rows) n = (m, Inl (AttributeError ''NoneType object has no attribute get''))"
      using nd by (simp add: row_step_def)
    then show ?thesis using None by (simp add: row_steps_Inl dhas_iff)
  next
    case (Some r)
    define s1 where "s1 = row_step now (Some idx) (m, Inr rows) n"
    then obtain m1 rows1 where s1: "s1 = (m1, Inr rows1)" using nd Some by (auto simp: row_step_def Let_def)
    then have "set (dkeys (nodes m1)) = set (dkeys (nodes m))" using row_step_keys s1_def by (metis fst_conv)
    with Cons Some s1 show ?thesis by (simp add: dhas_iff flip: s1_def)
  qed
qed simp

text \<open>
  The cluster view (and with it the answer of \<open>set_node_disabled\<close>) is delivered when Ray cannot be
  queried; when Ray answers, it is delivered exactly when Ray lists every registered node, and raises
  \<open>AttributeError\<close> otherwise.
\<close>

theorem cluster_view_delivered:
  assumes "r = None \<or> ray_node_index r = Some idx"
  shows "(\<exists>v. snd (get_cluster_resources now r models m) = Inr v)
    \<longleftrightarrow> r = None \<or> (\<forall>n \<in> set (dkeys (nodes m)). dhas n idx)"
proof -
  let ?m = "refresh_head_models models m"
  have keys: "set (dkeys (nodes ?m)) = set (dkeys (nodes m))"
    by (auto simp: refresh_head_models_def dkeys_dput_old simp del: set_dkeys_dput split: option.splits)
  show ?thesis
  proof (cases r)
    case None
    have "\<exists>m' rows'. foldl (row_step now None) (m1, Inr rows) ns = (m', Inr rows')" for m1 rows ns
      by (induction ns arbitrary: m1 rows) (auto simp: row_step_def split: option.splits)
    then show ?thesis using None
      by (auto simp: get_cluster_resources_def ray_node_index_def Let_def case_prod_beta) (metis rbind.simps(2) snd_conv)
  next
    case (Some _)
    with assms have idx: "ray_node_index r = Some idx" by simp
    define acc where "acc = foldl (row_step now (Some idx)) (?m, Inr []) (dkeys (nodes ?m))"
    have "(\<exists>m' rows'. acc = (m', Inr rows')) \<longleftrightarrow> (\<forall>n \<in> set (dkeys (nodes m)). dhas n idx)"
      unfolding acc_def using row_steps_error [of "dkeys (nodes ?m)" ?m now idx "[]"] keys by simp
    moreover have "(\<exists>v. snd (get_cluster_resources now r models m) = Inr v) \<longleftrightarrow> (\<exists>m' rows'. acc = (m', Inr rows'))"
      using acc_def [symmetric] by (cases acc) (auto simp: get_cluster_resources_def idx Let_def)
    ultimately show ?thesis using Some by simp
  qed
qed

theorem cluster_view_delivered_witness:
  "\<not> (\<exists>v. snd (get_cluster_resources 5 (Some []) [] sample_manager) = Inr v)"
  using cluster_view_delivered [of "Some []" "[]" 5 "[]" sample_manager]
  by (simp add: ray_node_index_def) (simp add: sample_defs dput_def dkeys_def)

lemma drop_dead_fold:
  fixes ray
  defines "step \<equiv> \<lambda>m n. if is_node_alive ray n then m else drop_node n m"
  shows "manager_ok m \<Longrightarrow>
     map_of (nodes (foldl step m ns)) k =
       (if k \<in> set ns \<and> \<not> is_node_alive ray k then None else map_of (nodes m) k)
     \<and> active_leases (foldl step m ns) = active_leases m
     \<and> (k \<in> set ns \<and> \<not> is_node_alive ray k \<longrightarrow>
          (\<forall>w. preferred_node_id (contexts (foldl step m ns)) w \<noteq> Some k))"
proof (induction ns rule: rev_induct)
  case (snoc n ns)
  let ?m = "foldl step m ns"
  have "manager_ok ?m"
    unfolding step_def by (rule foldl_invariant) (auto intro: snoc.prems drop_node_ok)
  then have ctx: "contexts_ok (contexts ?m)" by (simp add: manager_ok_def)
  show ?case
  proof (cases "is_node_alive ray n")
    case True
    then have "foldl step m (ns @ [n]) = ?m" by (simp add: step_def)
    with snoc True show ?thesis by auto
  next
    case False
    then have e: "foldl step m (ns @ [n]) = drop_node n ?m" by (simp add: step_def)
    have "preferred_node_id (contexts (drop_node n ?m)) w
        = (if preferred_node_id (contexts ?m) w = Some n then None else preferred_node_id (contexts ?m) w)" for w
      by (simp add: drop_node_def affinity.node_prefers [OF ctx])
    with snoc False show ?thesis unfolding e by (auto simp: drop_node_def)
  qed
qed simp

text \<open>
  A completed check for dead nodes keeps exactly the registered nodes Ray reports alive, leaves no
  workflow with affinity to a dropped node, and keeps every lease, so that a node that registers
  again is charged for the tasks still running on it.
\<close>

theorem dead_nodes_dropped:
  assumes "reachable_manager m" and "check_dead_node now r m = (m', Some True)"
  shows "\<exists>ray. ray_node_index r = Some ray
    \<and> (\<forall>n. dhas n (nodes m') \<longleftrightarrow> dhas n (nodes m) \<and> is_node_alive ray n)
    \<and> (\<forall>n w. dhas n (nodes m) \<and> \<not> dhas n (nodes m') \<longrightarrow> preferred_node_id (contexts m') w \<noteq> Some n)
    \<and> active_leases m' = active_leases m"
proof -
  let ?m = "m\<lparr>last_dead_check := Some now\<rparr>"
  from assms(2) obtain ray where ray: "ray_node_index r = Some ray"
      "m' = foldl (\<lambda>m n. if is_node_alive ray n then m else drop_node n m) ?m (dkeys (nodes m))"
    by (auto simp: check_dead_node_def Let_def split: if_splits option.splits)
  have "manager_ok ?m" using reachable_ok [OF assms(1)] by (simp add: manager_ok_def)
  note f = drop_dead_fold [OF this, of ray "dkeys (nodes m)", folded ray(2)]
  have has: "dhas n (nodes m') \<longleftrightarrow> dhas n (nodes m) \<and> is_node_alive ray n" for n
    using f [of n] by (auto simp: dhas_iff simp flip: dhas_dkeys)
  have pref: "preferred_node_id (contexts m') w \<noteq> Some n" if "dhas n (nodes m)" "\<not> dhas n (nodes m')" for n w
    using f [of n] has that by (auto simp flip: dhas_dkeys)
  have "active_leases m' = active_leases m" using f [of undefined] by simp
  with ray(1) show ?thesis by (intro exI [of _ ray] conjI allI impI has) (auto simp: pref)
qed

theorem dead_nodes_dropped_witness:
  "nodes (fst (check_dead_node 9 (Some []) sample_selected)) = [] \<and> dhas ''L'' (active_leases sample_selected)"
proof -
  have "\<exists>m'. check_dead_node 9 (Some []) sample_selected = (m', Some True)"
    by (simp add: check_dead_node_def check_due_def ray_node_index_def sample_selected_def commit_def
        refresh_head_models_def sample_defs dput_def)
  then obtain m' where m': "check_dead_node 9 (Some []) sample_selected = (m', Some True)" by blast
  have "\<not> dhas n (nodes m')" for n
    using dead_nodes_dropped [OF sample_selected_reachable m'] by (auto simp: ray_node_index_def is_node_alive_def)
  then have "nodes m' = []" by (metis dhas_def list.set_intros(1) list.simps(9) neq_Nil_conv)
  moreover have "dhas ''L'' (active_leases sample_selected)"
    by (simp add: sample_selected_def commit_def refresh_head_models_def sample_defs dput_def)
  ultimately show ?thesis using m' by simp
qed

end
