(* ===== verification/Scheduling.thy ===== *)
theory Scheduling
  imports PyValue Dag_Context "HOL-Library.Multiset"
begin

text \<open>
  Task queues and priorities: \<open>maze/core/scheduler/strategy.py\<close> and \<open>maze/core/scheduler/queues.py\<close>.
  Times and scores are real numbers; \<open>math.log2\<close>, \<open>math.log\<close> and \<open>math.exp\<close> are \<open>log 2\<close>, \<open>ln\<close> and
  \<open>exp\<close>. A number in a task's scheduling context is \<open>None\<close> when it is missing or not a number. The
  object identity of a task is its \<open>uid\<close>; the queue lock makes every operation atomic.
\<close>

section \<open>Tasks and the scheduling algorithms\<close>

record hacs_meta =
  meta_static :: bool
  meta_predicted :: real
  meta_weight :: real
  meta_queue_wait :: real
  meta_workflow_wait :: real
  meta_remaining :: real
  meta_phi :: real
  meta_multiplier :: real
  meta_score :: real
  meta_starved :: bool
  meta_average :: real
  meta_samples :: nat

record qtask =
  uid :: nat
  kind :: "string option"
  created :: "real option"
  queue_entered :: "real option"
  queue_label :: "string option"
  queue_sequence :: "nat option"
  mode :: "string option"
  predicted :: "real option"
  submitted :: "real option"
  n_desc :: "real option"
  n_anc :: "real option"
  remaining :: "real option"
  metadata :: "hacs_meta option"

record hacs =
  alpha :: real
  beta :: real
  ema_alpha :: real
  starvation :: real
  average :: real
  samples :: nat

datatype strategy = Fcfs | Hacs hacs

definition queue_names :: "string list" where
  "queue_names = [''gpu'', ''cpu'', ''io'']"

definition float_value :: "real option \<Rightarrow> real \<Rightarrow> real" where
  "float_value v d = (case v of None \<Rightarrow> d | Some x \<Rightarrow> x)"

definition epsilon :: real where "epsilon = 1 / 1000"

definition default_duration :: "string \<Rightarrow> real" where
  "default_duration k = (if k = ''gpu'' then 60 else if k = ''cpu'' then 30 else 10)"

text \<open>\<open>str(v or d).strip().lower()\<close>.\<close>

definition clean :: "string option \<Rightarrow> string \<Rightarrow> string" where
  "clean v d = py_lower (py_strip (if present v then the v else d))"

definition task_kind :: "qtask \<Rightarrow> string" where
  "task_kind t = (let k = clean (kind t) ''cpu'' in if k \<in> set queue_names then k else ''cpu'')"

definition safe_power :: "real \<Rightarrow> real \<Rightarrow> real" where
  "safe_power b e = exp (max (- 700) (min 700 (ln b * e)))"

section \<open>The HACS score\<close>

definition hacs_mode :: "qtask \<Rightarrow> bool" where
  "hacs_mode t = (py_lower (if present (mode t) then the (mode t) else ''dynamic'') = ''static'')"

definition predicted_duration :: "qtask \<Rightarrow> real" where
  "predicted_duration t =
     (let d = default_duration (task_kind t); p = float_value (predicted t) d
      in max (if p \<le> 0 then d else p) epsilon)"

definition queue_wait :: "qtask \<Rightarrow> real \<Rightarrow> real" where
  "queue_wait t now = max 0 (now - float_value (queue_entered t) (float_value (created t) now))"

definition workflow_wait :: "qtask \<Rightarrow> real \<Rightarrow> real" where
  "workflow_wait t now = max 0 (now - float_value (submitted t) (float_value (created t) now))"

definition refresh_task_metadata :: "hacs \<Rightarrow> qtask \<Rightarrow> real \<Rightarrow> hacs_meta" where
  "refresh_task_metadata h t now =
     (let wait = queue_wait t now; pred = predicted_duration t; avg = max (average h) epsilon;
          nd = max 0 (float_value (n_desc t) 0); na = max 0 (float_value (n_anc t) 0);
          rem = max 0 (float_value (remaining t) 0);
          phi = (if hacs_mode t then wait / (alpha h * avg) - rem else 0);
          weight = (if hacs_mode t then log 2 (2 + 2 * nd) else na + wait / (alpha h * avg));
          mult = (if hacs_mode t then safe_power (beta h) phi else 1)
      in \<lparr>meta_static = hacs_mode t, meta_predicted = pred, meta_weight = weight, meta_queue_wait = wait,
          meta_workflow_wait = workflow_wait t now, meta_remaining = rem, meta_phi = phi,
          meta_multiplier = mult,
          meta_score = (if hacs_mode t then weight * mult / pred else weight / pred),
          meta_starved = (starvation h \<le> wait), meta_average = avg, meta_samples = samples h\<rparr>)"

text \<open>Keys: \<open>(sequence,)\<close> for FCFS, \<open>(0, sequence)\<close> or \<open>(1, -score, sequence)\<close> for HACS.\<close>

datatype prio = Seq nat | Starved nat | Scored real nat

fun prio_parts :: "prio \<Rightarrow> nat \<times> real \<times> nat" where
  "prio_parts (Seq n) = (0, 0, n)"
| "prio_parts (Starved n) = (1, 0, n)"
| "prio_parts (Scored x n) = (2, x, n)"

definition parts_le :: "nat \<times> real \<times> nat \<Rightarrow> nat \<times> real \<times> nat \<Rightarrow> bool" where
  "parts_le a b = (case (a, b) of ((i, x, m), (j, y, n)) \<Rightarrow> i < j \<or> (i = j \<and> (x < y \<or> (x = y \<and> m \<le> n))))"

lemma prio_parts_inj: "prio_parts p = prio_parts q \<Longrightarrow> p = q"
  by (cases p; cases q) auto

instantiation prio :: linorder
begin

definition less_eq_prio :: "prio \<Rightarrow> prio \<Rightarrow> bool" where
  "less_eq_prio p q = parts_le (prio_parts p) (prio_parts q)"

definition less_prio :: "prio \<Rightarrow> prio \<Rightarrow> bool" where
  "less_prio p q = (parts_le (prio_parts p) (prio_parts q) \<and> p \<noteq> q)"

instance
proof
  fix x y z :: prio
  show "(x < y) = (x \<le> y \<and> \<not> y \<le> x)"
    by (cases x; cases y) (auto simp: less_eq_prio_def less_prio_def parts_le_def)
  show "x \<le> x" by (cases x) (auto simp: less_eq_prio_def parts_le_def)
  show "x \<le> y \<Longrightarrow> y \<le> z \<Longrightarrow> x \<le> z"
    by (cases x; cases y; cases z) (auto simp: less_eq_prio_def parts_le_def)
  show "x \<le> y \<Longrightarrow> y \<le> x \<Longrightarrow> x = y"
    by (cases x; cases y) (auto simp: less_eq_prio_def parts_le_def)
  show "x \<le> y \<or> y \<le> x"
    by (cases x; cases y) (auto simp: less_eq_prio_def parts_le_def)
qed

end

lemma prio_le [simp]:
  "Seq a \<le> Seq b \<longleftrightarrow> a \<le> b"
  "Starved a \<le> Starved b \<longleftrightarrow> a \<le> b"
  "Starved a \<le> Scored x b"
  "\<not> Scored x a \<le> Starved b"
  "Scored x a \<le> Scored y b \<longleftrightarrow> x < y \<or> (x = y \<and> a \<le> b)"
  by (simp_all add: less_eq_prio_def parts_le_def)

fun priority_key :: "strategy \<Rightarrow> qtask \<Rightarrow> nat \<Rightarrow> real \<Rightarrow> prio" where
  "priority_key Fcfs t n now = Seq n"
| "priority_key (Hacs h) t n now =
     (let m = refresh_task_metadata h t now
      in if meta_starved m then Starved n else Scored (- meta_score m) n)"

text \<open>Computing a HACS key leaves the metadata on the task.\<close>

fun note_metadata :: "strategy \<Rightarrow> qtask \<Rightarrow> real \<Rightarrow> qtask" where
  "note_metadata Fcfs t now = t"
| "note_metadata (Hacs h) t now = t\<lparr>metadata := Some (refresh_task_metadata h t now)\<rparr>"

definition observe_workflow_completion :: "real option \<Rightarrow> strategy \<Rightarrow> strategy \<times> bool" where
  "observe_workflow_completion d s =
     (case s of Fcfs \<Rightarrow> (Fcfs, False)
      | Hacs h \<Rightarrow>
         (case d of None \<Rightarrow> (Hacs h, False)
          | Some x \<Rightarrow> if x \<le> 0 then (Hacs h, False)
              else (Hacs (h\<lparr>average := (if samples h = 0 then x
                                       else ema_alpha h * x + (1 - ema_alpha h) * average h),
                           samples := samples h + 1\<rparr>), True)))"

section \<open>Configuration\<close>

definition positive_float :: "pyfloat \<Rightarrow> string \<Rightarrow> rat result" where
  "positive_float v name =
     (case v of Fin q \<Rightarrow> if 0 < q then Inr q else Inl (ValueError (name @ '' must be finite and > 0''))
      | _ \<Rightarrow> Inl (ValueError (name @ '' must be finite and > 0'')))"

definition bounded_fraction :: "pyfloat \<Rightarrow> string \<Rightarrow> rat result" where
  "bounded_fraction v name =
     rbind (positive_float v name) (\<lambda>q. if 1 < q then Inl (ValueError (name @ '' must be <= 1'')) else Inr q)"

definition new_hacs :: "pyfloat \<Rightarrow> pyfloat \<Rightarrow> pyfloat \<Rightarrow> pyfloat \<Rightarrow> pyfloat \<Rightarrow> strategy result" where
  "new_hacs a b avg ema starve =
     rbind (positive_float a ''HACS alpha'') (\<lambda>a.
     rbind (positive_float b ''HACS beta'') (\<lambda>b.
     guard_or (1 < b) (ValueError ''HACS beta must be > 1'')
     (rbind (bounded_fraction ema ''HACS DCT EMA alpha'') (\<lambda>e.
      rbind (positive_float starve ''HACS starvation seconds'') (\<lambda>s.
      rbind (positive_float avg ''HACS initial DCT seconds'') (\<lambda>g.
      Inr (Hacs \<lparr>alpha = of_rat a, beta = of_rat b, ema_alpha = of_rat e, starvation = of_rat s,
                 average = of_rat g, samples = 0\<rparr>)))))))"

text \<open>An environment variable is a string or absent.\<close>

definition configured_float :: "(string \<Rightarrow> string option) \<Rightarrow> string \<Rightarrow> rat \<Rightarrow> rat \<Rightarrow> pyfloat result" where
  "configured_float env name d least =
     rbind (case env name of None \<Rightarrow> Inr (Fin d)
            | Some s \<Rightarrow> (case parse_float s of Some f \<Rightarrow> Inr f | None \<Rightarrow> Inl (ValueError (name @ '' must be a number''))))
       (\<lambda>f. case f of
          Fin q \<Rightarrow> if q \<le> least then Inl (ValueError (name @ '' must be finite'')) else Inr (Fin q)
        | _ \<Rightarrow> Inl (ValueError (name @ '' must be finite'')))"

definition upper_char :: "char \<Rightarrow> char" where
  "upper_char c = (let n = of_char c :: nat in
     if (97 \<le> n \<and> n \<le> 122) \<or> (224 \<le> n \<and> n \<le> 254 \<and> n \<noteq> 247) then char_of (n - 32) else c)"

definition is_hacs_algorithm :: "string option \<Rightarrow> bool result" where
  "is_hacs_algorithm s =
     (case s of None \<Rightarrow> Inr False
      | Some x \<Rightarrow> (let u = map upper_char (py_strip x) in
          if u = ''HACS'' then Inr True else if u = ''FCFS'' then Inr False
          else Inl (ValueError ''unsupported scheduling algorithm'')))"

definition create_scheduling_strategy :: "(string \<Rightarrow> string option) \<Rightarrow> string option \<Rightarrow> strategy result" where
  "create_scheduling_strategy env s =
     rbind (is_hacs_algorithm s) (\<lambda>hacs.
       if hacs then
         rbind (configured_float env ''MAZE_HACS_ALPHA'' 2 0) (\<lambda>a.
         rbind (configured_float env ''MAZE_HACS_BETA'' 5 1) (\<lambda>b.
         rbind (configured_float env ''MAZE_HACS_INITIAL_DCT_SECONDS'' 60 0) (\<lambda>g.
         rbind (configured_float env ''MAZE_HACS_DCT_EMA_ALPHA'' (1 / 5) 0) (\<lambda>e.
         rbind (configured_float env ''MAZE_HACS_STARVATION_SECONDS'' 600 0) (\<lambda>st.
         new_hacs a b g e st)))))
       else Inr Fcfs)"

section \<open>The three queues\<close>

record queued =
  q_key :: prio
  q_seq :: nat
  q_task :: qtask

record queues =
  q_lists :: "(string, queued list) dict"
  q_next :: nat

definition empty_queues :: queues where
  "empty_queues = \<lparr>q_lists = map (\<lambda>n. (n, [])) queue_names, q_next = 0\<rparr>"

definition queue_of :: "queues \<Rightarrow> string \<Rightarrow> queued list" where
  "queue_of s n = dgetd (q_lists s) n []"

definition set_queue :: "string \<Rightarrow> queued list \<Rightarrow> queues \<Rightarrow> queues" where
  "set_queue n xs s = s\<lparr>q_lists := dput n xs (q_lists s)\<rparr>"

definition normalize_queue_name :: "string option \<Rightarrow> string" where
  "normalize_queue_name v = (let n = clean v ''cpu'' in if n \<in> set queue_names then n else ''cpu'')"

definition put :: "strategy \<Rightarrow> real \<Rightarrow> qtask \<Rightarrow> string option \<Rightarrow> queues \<Rightarrow> queues \<times> string" where
  "put st now t0 qn s =
     (let name = normalize_queue_name (if present qn then qn else Some (task_kind t0));
          n = q_next s;
          t = t0\<lparr>queue_label := Some name, queue_sequence := Some n, queue_entered := Some now\<rparr>;
          item = \<lparr>q_key = priority_key st t n now, q_seq = n, q_task = note_metadata st t now\<rparr>
      in (set_queue name (queue_of s name @ [item]) (s\<lparr>q_next := n + 1\<rparr>), name))"

definition refresh_item :: "strategy \<Rightarrow> real \<Rightarrow> queued \<Rightarrow> queued" where
  "refresh_item st now x =
     x\<lparr>q_key := priority_key st (q_task x) (q_seq x) now, q_task := note_metadata st (q_task x) now\<rparr>"

definition refresh_queue :: "strategy \<Rightarrow> real \<Rightarrow> string \<Rightarrow> queues \<Rightarrow> queues" where
  "refresh_queue st now name s =
     set_queue name (sort_key q_key (map (refresh_item st now) (queue_of s name))) s"

definition peek :: "strategy \<Rightarrow> real \<Rightarrow> string option \<Rightarrow> queues \<Rightarrow> queues \<times> qtask option" where
  "peek st now qn s =
     (let name = normalize_queue_name qn; s' = refresh_queue st now name s
      in (s', case queue_of s' name of [] \<Rightarrow> None | x # _ \<Rightarrow> Some (q_task x)))"

definition take_item :: "string option \<Rightarrow> nat option \<Rightarrow> queues \<Rightarrow> (queues \<times> queued) result" where
  "take_item qn want s =
     (let name = normalize_queue_name qn in
      case queue_of s name of
        [] \<Rightarrow> Inl (IndexError ''pop from empty queue'')
      | x # xs \<Rightarrow>
          (case want of
             None \<Rightarrow> Inr (set_queue name xs s, x)
           | Some u \<Rightarrow>
               (case first_match (\<lambda>y. uid (q_task y) = u) (x # xs) of
                  None \<Rightarrow> Inl (ValueError ''cannot pop a task that is not in the resource queue'')
                | Some y \<Rightarrow> Inr (set_queue name (remove_first (\<lambda>y. uid (q_task y) = u) (x # xs)) s, y))))"

definition restore :: "queued \<Rightarrow> string option \<Rightarrow> queues \<Rightarrow> queues \<times> string" where
  "restore x qn s =
     (let name = normalize_queue_name (if present qn then qn else queue_label (q_task x))
      in (set_queue name (queue_of s name @ [x\<lparr>q_task := (q_task x)\<lparr>queue_label := Some name\<rparr>\<rparr>]) s, name))"

definition has_task :: "queues \<Rightarrow> bool" where
  "has_task s = list_ex (\<lambda>n. queue_of s n \<noteq> []) queue_names"

definition queue_snapshot :: "strategy \<Rightarrow> real \<Rightarrow> queues \<Rightarrow> queues \<times> (string \<times> qtask list) list" where
  "queue_snapshot st now s =
     (let s' = foldl (\<lambda>s n. refresh_queue st now n s) s queue_names;
          s'' = s'\<lparr>q_lists := dmapv (\<lambda>n xs. map (\<lambda>x. x\<lparr>q_task := (q_task x)\<lparr>queue_label := Some n\<rparr>\<rparr>) xs) (q_lists s')\<rparr>
      in (s'', map (\<lambda>n. (n, map q_task (queue_of s'' n))) queue_names))"

section \<open>Queues as a contract\<close>

text \<open>
  What the queues need of a strategy: keys are recomputed from the item and the clock alone, and two
  items with different sequence numbers never have equal keys. Then the order after a refresh does
  not depend on where in the list a claimed task was restored.
\<close>

locale keyed_queue =
  fixes refresh :: "real \<Rightarrow> 'i \<Rightarrow> 'i" and key :: "'i \<Rightarrow> 'k::linorder" and ident :: "'i \<Rightarrow> nat"
  assumes refresh_ident: "ident (refresh now x) = ident x"
    and key_ident: "key (refresh now x) = key (refresh now y) \<Longrightarrow> ident x = ident y"
begin

lemma head_least:
  assumes "sort_key key (map (refresh now) xs) = h # ys" and "x \<in> set xs"
  shows "key h \<le> key (refresh now x)"
proof -
  have "sorted (map key (h # ys))" using sorted_sort_key [of key "map (refresh now) xs"] assms(1) by simp
  moreover have "refresh now x \<in> set (h # ys)"
    using assms(2) by (metis assms(1) image_eqI set_map set_sort)
  ultimately show ?thesis by auto
qed

lemma head_refreshed:
  assumes "sort_key key (map (refresh now) xs) = h # ys"
  shows "\<exists>x \<in> set xs. h = refresh now x"
proof -
  have "h \<in> set (sort_key key (map (refresh now) xs))" by (simp only: assms list.set_intros)
  then show ?thesis by auto
qed

lemma order_independent:
  assumes "mset xs = mset ys" and "distinct (map ident xs)"
  shows "sort_key key (map (refresh now) xs) = sort_key key (map (refresh now) ys)"
proof (rule sort_key_inj_key_eq)
  show "mset (map (refresh now) xs) = mset (sort_key key (map (refresh now) ys))"
    using assms(1) by simp
  show "inj_on key (set (map (refresh now) xs))"
  proof (rule inj_onI)
    fix a b assume "a \<in> set (map (refresh now) xs)" "b \<in> set (map (refresh now) xs)" and k: "key a = key b"
    then obtain x y where xy: "x \<in> set xs" "y \<in> set xs" "a = refresh now x" "b = refresh now y" by auto
    have "ident x = ident y" by (rule key_ident [of now]) (use k xy in simp)
    with xy assms(2) have "x = y" by (simp add: distinct_map inj_on_def)
    with xy show "a = b" by simp
  qed
qed simp

end

lemma refresh_item_fields [simp]:
  "q_seq (refresh_item st now x) = q_seq x"
  "uid (q_task (refresh_item st now x)) = uid (q_task x)"
  "queue_label (q_task (refresh_item st now x)) = queue_label (q_task x)"
  by (cases st; simp add: refresh_item_def)+

interpretation keyed: keyed_queue "refresh_item st" q_key q_seq for st
  by unfold_locales (cases st; auto simp: refresh_item_def Let_def split: if_splits)+

section \<open>The invariant of the queues\<close>

definition all_items :: "queues \<Rightarrow> queued list" where
  "all_items s = concat (dvals (q_lists s))"

definition queues_ok :: "queues \<Rightarrow> bool" where
  "queues_ok s \<longleftrightarrow> dkeys (q_lists s) = queue_names
     \<and> (\<forall>n \<in> set queue_names. \<forall>x \<in> set (queue_of s n). queue_label (q_task x) = Some n)"

lemma queues_shape:
  assumes "dkeys (q_lists s) = queue_names"
  obtains a b c where "q_lists s = [(''gpu'', a), (''cpu'', b), (''io'', c)]"
  using assms by (auto simp: dkeys_def queue_names_def map_eq_Cons_conv)

lemma queues_ok_empty: "queues_ok empty_queues"
  by (simp add: queues_ok_def empty_queues_def dkeys_def comp_def queue_of_def queue_names_def)

lemma set_queue_fields [simp]:
  "q_next (set_queue n xs s) = q_next s"
  "queue_of (set_queue n xs s) k = (if k = n then xs else queue_of s k)"
  by (auto simp: set_queue_def queue_of_def dgetd_def)

lemma set_queue_keys:
  "dkeys (q_lists s) = queue_names \<Longrightarrow> n \<in> set queue_names \<Longrightarrow> dkeys (q_lists (set_queue n xs s)) = queue_names"
  by (erule queues_shape) (auto simp: set_queue_def dkeys_def dput_def queue_names_def)

lemma set_queue_ok:
  assumes "queues_ok s" "n \<in> set queue_names" "\<And>x. x \<in> set xs \<Longrightarrow> queue_label (q_task x) = Some n"
  shows "queues_ok (set_queue n xs s)"
  using assms set_queue_keys by (auto simp: queues_ok_def)

lemma set_queue_items:
  assumes "dkeys (q_lists s) = queue_names" "n \<in> set queue_names"
  shows "mset (map f (all_items (set_queue n xs s))) + mset (map f (queue_of s n))
       = mset (map f (all_items s)) + mset (map f xs)"
  using assms(2)
  by (rule_tac queues_shape [OF assms(1)])
    (auto simp: set_queue_def all_items_def dvals_def dput_def queue_of_def queue_names_def)

lemma normalize_in [simp]: "normalize_queue_name v \<in> set queue_names"
  by (simp add: normalize_queue_name_def Let_def) (simp add: queue_names_def)

lemma normalize_id: "n \<in> set queue_names \<Longrightarrow> normalize_queue_name (Some n) = n"
  by (auto simp: normalize_queue_name_def queue_names_def clean_def present_def py_lower_def py_strip_def
      is_space_def lower_char_def is_upper_def Let_def)

lemma remove_first_mset:
  "first_match p xs = Some y \<Longrightarrow> mset xs = add_mset y (mset (remove_first p xs))"
  by (induction xs) (auto simp: first_match_def split: if_splits)

lemma note_label [simp]: "queue_label (note_metadata st t now) = queue_label t"
  by (cases st) auto

lemma put_ok: "queues_ok s \<Longrightarrow> queues_ok (fst (put st now t qn s))"
  unfolding put_def Let_def fst_conv
  by (rule set_queue_ok) (auto simp: queues_ok_def queue_of_def)

lemma refresh_ok: "queues_ok s \<Longrightarrow> n \<in> set queue_names \<Longrightarrow> queues_ok (refresh_queue st now n s)"
  unfolding refresh_queue_def by (rule set_queue_ok) (auto simp: queues_ok_def)

lemma take_cases:
  assumes "take_item qn want s = Inr (s', x)"
  obtains rest where "s' = set_queue (normalize_queue_name qn) rest s"
    "mset (queue_of s (normalize_queue_name qn)) = add_mset x (mset rest)"
    "x \<in> set (queue_of s (normalize_queue_name qn))"
    "want \<noteq> None \<longrightarrow> uid (q_task x) = the want"
proof (cases "queue_of s (normalize_queue_name qn)")
  case (Cons y ys)
  show ?thesis
  proof (cases want)
    case None
    with assms Cons show ?thesis by (intro that [of ys]) (auto simp: take_item_def Let_def)
  next
    case (Some u)
    with assms Cons have f: "first_match (\<lambda>y. uid (q_task y) = u) (y # ys) = Some x"
        and s': "s' = set_queue (normalize_queue_name qn) (remove_first (\<lambda>y. uid (q_task y) = u) (y # ys)) s"
      by (auto simp: take_item_def Let_def split: option.splits)
    show ?thesis
      by (rule that [OF s']) (use Cons Some remove_first_mset [OF f] first_match_Some [OF f] in auto)
  qed
qed (use assms in \<open>simp add: take_item_def Let_def\<close>)

lemma take_ok:
  assumes "queues_ok s" "take_item qn want s = Inr (s', x)"
  shows "queues_ok s'"
proof (rule take_cases [OF assms(2)])
  fix rest
  assume s': "s' = set_queue (normalize_queue_name qn) rest s"
    and "mset (queue_of s (normalize_queue_name qn)) = add_mset x (mset rest)"
  then have sub: "set rest \<subseteq> set (queue_of s (normalize_queue_name qn))"
    by (metis set_mset_add_mset_insert set_mset_mset subset_insertI)
  show ?thesis unfolding s'
    using assms(1) sub by (intro set_queue_ok) (auto simp: queues_ok_def)
qed

lemma restore_ok: "queues_ok s \<Longrightarrow> queues_ok (fst (restore x qn s))"
  unfolding restore_def Let_def fst_conv by (rule set_queue_ok) (auto simp: queues_ok_def)

lemma peek_ok: "queues_ok s \<Longrightarrow> queues_ok (fst (peek st now qn s))"
  by (simp add: peek_def Let_def refresh_ok)

lemma snapshot_ok:
  assumes "queues_ok s"
  shows "queues_ok (fst (queue_snapshot st now s))"
proof -
  let ?s = "foldl (\<lambda>s n. refresh_queue st now n s) s queue_names"
  have "queues_ok ?s" by (rule foldl_invariant) (auto simp: assms refresh_ok)
  then show ?thesis
    by (auto simp: queue_snapshot_def Let_def queues_ok_def queue_of_def dgetd_def split: option.splits)
qed

section \<open>Histories of the queues\<close>

text \<open>
  The scheduler puts tasks, peeks, takes a task (it then holds the claim), and either restores the
  claimed task or is done with it. The state is the queues, the claimed items and the finished ones.
\<close>

type_synonym claims = "queues \<times> queued list \<times> queued list"

inductive queue_step :: "claims \<Rightarrow> claims \<Rightarrow> bool" where
  q_put: "queue_step (s, c, d) (fst (put st now t qn s), c, d)"
| q_peek: "queue_step (s, c, d) (fst (peek st now qn s), c, d)"
| q_view: "queue_step (s, c, d) (fst (queue_snapshot st now s), c, d)"
| q_take: "take_item qn want s = Inr (s', x) \<Longrightarrow> queue_step (s, c, d) (s', x # c, d)"
| q_restore: "x \<in> set c \<Longrightarrow> queue_step (s, c, d) (fst (restore x qn s), remove1 x c, d)"
| q_done: "x \<in> set c \<Longrightarrow> queue_step (s, c, d) (s, remove1 x c, x # d)"

inductive_cases queue_stepE: "queue_step (s, c, d) z"

definition seqs :: "queues \<Rightarrow> nat multiset" where
  "seqs s = mset (map q_seq (all_items s))"

lemma seqs_set_queue:
  assumes "queues_ok s" "n \<in> set queue_names"
  shows "seqs (set_queue n xs s) + mset (map q_seq (queue_of s n)) = seqs s + mset (map q_seq xs)"
  using set_queue_items [of s n q_seq xs] assms by (simp add: seqs_def queues_ok_def)

lemma seqs_next [simp]: "seqs (s\<lparr>q_next := k\<rparr>) = seqs s"
  by (simp add: seqs_def all_items_def)

lemma seqs_append:
  assumes "queues_ok s" "n \<in> set queue_names"
  shows "seqs (set_queue n (queue_of s n @ [x]) s) = add_mset (q_seq x) (seqs s)"
  using seqs_set_queue [OF assms, of "queue_of s n @ [x]"] by simp

lemma queue_of_next [simp]: "queue_of (s\<lparr>q_next := k\<rparr>) n = queue_of s n"
  by (simp add: queue_of_def)

lemma seqs_put:
  assumes "queues_ok s"
  shows "seqs (fst (put st now t qn s)) = add_mset (q_next s) (seqs s)
    \<and> q_next (fst (put st now t qn s)) = Suc (q_next s)"
proof -
  have "queues_ok (s\<lparr>q_next := Suc (q_next s)\<rparr>)" using assms by (simp add: queues_ok_def)
  from seqs_append [OF this normalize_in] show ?thesis by (simp add: put_def Let_def)
qed

lemma seqs_refresh: "queues_ok s \<Longrightarrow> n \<in> set queue_names \<Longrightarrow> seqs (refresh_queue st now n s) = seqs s"
proof -
  assume a: "queues_ok s" "n \<in> set queue_names"
  have "mset (map q_seq (sort_key q_key (map (refresh_item st now) (queue_of s n)))) = mset (map q_seq (queue_of s n))"
    by (simp add: image_mset.compositionality comp_def)
  with seqs_set_queue [OF a] show ?thesis unfolding refresh_queue_def by (metis add_right_cancel)
qed

lemma seqs_peek: "queues_ok s \<Longrightarrow> seqs (fst (peek st now qn s)) = seqs s \<and> q_next (fst (peek st now qn s)) = q_next s"
  by (simp add: peek_def Let_def seqs_refresh) (simp add: refresh_queue_def)

lemma seqs_snapshot:
  assumes "queues_ok s"
  shows "seqs (fst (queue_snapshot st now s)) = seqs s \<and> q_next (fst (queue_snapshot st now s)) = q_next s"
proof -
  let ?s = "foldl (\<lambda>s n. refresh_queue st now n s) s queue_names"
  have "queues_ok ?s \<and> seqs ?s = seqs s \<and> q_next ?s = q_next s"
    by (rule foldl_invariant) (auto simp: assms refresh_ok seqs_refresh, simp add: refresh_queue_def)
  moreover have "map q_seq (concat (dvals (dmapv (\<lambda>n xs. map (\<lambda>x. x\<lparr>q_task := (q_task x)\<lparr>queue_label := Some n\<rparr>\<rparr>) xs) d)))
      = map q_seq (concat (dvals d))" for d :: "(string, queued list) dict"
    by (induction d) (auto simp: dmapv_def dvals_def comp_def)
  ultimately show ?thesis by (simp add: queue_snapshot_def Let_def seqs_def all_items_def)
qed

lemma seqs_take:
  assumes "queues_ok s" "take_item qn want s = Inr (s', x)"
  shows "seqs s = add_mset (q_seq x) (seqs s') \<and> q_next s' = q_next s"
proof (rule take_cases [OF assms(2)])
  let ?n = "normalize_queue_name qn"
  fix rest
  assume s': "s' = set_queue ?n rest s" and m: "mset (queue_of s ?n) = add_mset x (mset rest)"
  have "seqs s' + mset (map q_seq (queue_of s ?n)) = seqs s + mset (map q_seq rest)"
    unfolding s' by (rule seqs_set_queue [OF assms(1) normalize_in])
  moreover have "mset (map q_seq (queue_of s ?n)) = add_mset (q_seq x) (mset (map q_seq rest))"
    using m by simp
  ultimately show ?thesis by (simp add: s')
qed

lemma seqs_restore:
  "queues_ok s \<Longrightarrow> seqs (fst (restore x qn s)) = add_mset (q_seq x) (seqs s)
    \<and> q_next (fst (restore x qn s)) = q_next s"
  by (simp add: restore_def Let_def seqs_append)

definition claims_ok :: "claims \<Rightarrow> bool" where
  "claims_ok z \<longleftrightarrow> (case z of (s, c, d) \<Rightarrow>
     queues_ok s \<and> seqs s + mset (map q_seq c) + mset (map q_seq d) = mset [0..<q_next s])"

lemma remove1_seqs: "x \<in> set c \<Longrightarrow> mset (map q_seq c) = add_mset (q_seq x) (mset (map q_seq (remove1 x c)))"
  by (metis image_mset_add_mset insert_DiffM mset_map mset_remove1 set_mset_mset)

lemma queue_step_ok: "queue_step z z' \<Longrightarrow> claims_ok z \<Longrightarrow> claims_ok z'"
proof (induction rule: queue_step.induct)
  case (q_put s c d st now t qn)
  then show ?case using seqs_put [of s] by (auto simp: claims_ok_def put_ok atLeast0_lessThan_Suc)
next
  case (q_take qn want s s' x c d)
  then show ?case using seqs_take [of s qn want s' x] by (auto simp: claims_ok_def take_ok)
next
  case (q_restore x c s d qn)
  then show ?case using seqs_restore [of s x qn] remove1_seqs [of x c] by (auto simp: claims_ok_def restore_ok)
next
  case (q_done x c s d)
  then show ?case using remove1_seqs [of x c] by (auto simp: claims_ok_def)
qed (auto simp: claims_ok_def peek_ok snapshot_ok seqs_peek seqs_snapshot)

lemma claims_reachable: "queue_step\<^sup>*\<^sup>* (empty_queues, [], []) z \<Longrightarrow> claims_ok z"
proof (induction rule: rtranclp_induct)
  case base
  show ?case using queues_ok_empty
    by (simp add: claims_ok_def seqs_def all_items_def) (simp add: empty_queues_def dvals_def queue_names_def)
qed (rule queue_step_ok)

lemma claims_distinct:
  assumes "claims_ok (s, c, d)" "n \<in> set queue_names"
  shows "distinct (map q_seq (queue_of s n))" "x \<in> set c \<Longrightarrow> q_seq x \<notin> q_seq ` set (queue_of s n)"
proof -
  have keys: "dkeys (q_lists s) = queue_names" using assms(1) by (simp add: claims_ok_def queues_ok_def)
  have "mset (map q_seq (all_items s) @ map q_seq c @ map q_seq d) = mset [0..<q_next s]"
    using assms(1) by (simp add: claims_ok_def seqs_def add.assoc)
  then have "distinct (map q_seq (all_items s) @ map q_seq c @ map q_seq d)"
    by (metis mset_eq_imp_distinct_iff distinct_upt)
  moreover obtain us vs where "all_items s = us @ queue_of s n @ vs"
  proof -
    obtain v where v: "map_of (q_lists s) n = Some v"
      using assms(2) keys by (metis dhas_dkeys dhas_iff not_None_eq)
    then have "queue_of s n \<in> set (dvals (q_lists s))"
      by (auto simp: queue_of_def dgetd_def dvals_def image_iff dest!: map_of_in intro: bexI [of _ "(n, v)"])
    then obtain us vs where "dvals (q_lists s) = us @ queue_of s n # vs" by (meson split_list)
    then show ?thesis by (intro that [of "concat us" "concat vs"]) (simp add: all_items_def)
  qed
  ultimately have "distinct (map q_seq us @ map q_seq (queue_of s n) @ map q_seq vs @ map q_seq c)" by auto
  then show "distinct (map q_seq (queue_of s n))" "x \<in> set c \<Longrightarrow> q_seq x \<notin> q_seq ` set (queue_of s n)"
    by auto
qed

section \<open>Facts about the head of a queue\<close>

lemma peek_head:
  assumes "peek st now qn s = (s', Some t)"
  obtains x where "x \<in> set (queue_of s (normalize_queue_name qn))" "t = note_metadata st (q_task x) now"
    "\<forall>y \<in> set (queue_of s (normalize_queue_name qn)).
       priority_key st (q_task x) (q_seq x) now \<le> priority_key st (q_task y) (q_seq y) now"
proof -
  let ?q = "queue_of s (normalize_queue_name qn)"
  from assms obtain h ys where h: "sort_key q_key (map (refresh_item st now) ?q) = h # ys" "t = q_task h"
    by (auto simp: peek_def refresh_queue_def Let_def split: list.splits)
  obtain x where x: "x \<in> set ?q" "h = refresh_item st now x" using keyed.head_refreshed [OF h(1)] by blast
  show ?thesis
    using keyed.head_least [OF h(1)] x h(2) by (intro that [of x]) (auto simp: refresh_item_def)
qed

lemma peek_None: "snd (peek st now qn s) = None \<longleftrightarrow> queue_of s (normalize_queue_name qn) = []"
proof -
  have "length (sort_key q_key (map (refresh_item st now) xs)) = length xs" for xs by simp
  then have "sort_key q_key (map (refresh_item st now) xs) = [] \<longleftrightarrow> xs = []" for xs by (metis length_0_conv)
  then show ?thesis by (simp add: peek_def refresh_queue_def Let_def split: list.splits) (metis list.distinct(1))
qed

text \<open>The parameters of a HACS strategy, and that observing a completion keeps them.\<close>

definition hacs_ok :: "hacs \<Rightarrow> bool" where
  "hacs_ok h \<longleftrightarrow> 0 < alpha h \<and> 1 < beta h \<and> 0 < ema_alpha h \<and> ema_alpha h \<le> 1
     \<and> 0 < starvation h \<and> 0 < average h"

lemma positive_float_Inr: "positive_float v n = Inr q \<Longrightarrow> v = Fin q \<and> 0 < q"
  by (auto simp: positive_float_def split: pyfloat.splits if_splits)

lemma new_hacs_ok: "new_hacs a b g e st = Inr s \<Longrightarrow> \<exists>h. s = Hacs h \<and> hacs_ok h"
  by (auto simp: new_hacs_def hacs_ok_def bounded_fraction_def dest!: positive_float_Inr split: if_splits)

lemma observe_ok:
  assumes "hacs_ok h"
  shows "\<exists>h'. fst (observe_workflow_completion d (Hacs h)) = Hacs h' \<and> hacs_ok h'"
proof -
  have "0 < ema_alpha h * x + (1 - ema_alpha h) * average h" if "0 < x" for x
    using assms that by (intro add_pos_nonneg) (auto simp: hacs_ok_def)
  then show ?thesis
    using assms by (auto simp: observe_workflow_completion_def hacs_ok_def split: option.splits)
qed

section \<open>Properties\<close>

definition sample_task :: "nat \<Rightarrow> qtask" where
  "sample_task u = \<lparr>uid = u, kind = Some ''gpu'', created = Some 0, queue_entered = None, queue_label = None,
     queue_sequence = None, mode = Some ''dynamic'', predicted = None, submitted = None, n_desc = None,
     n_anc = None, remaining = None, metadata = None\<rparr>"

definition two_tasks :: queues where
  "two_tasks = fst (put Fcfs 5 (sample_task 2) None (fst (put Fcfs 4 (sample_task 1) None empty_queues)))"

text \<open>
  No task is lost or duplicated: after any sequence of puts, peeks, snapshots, takes, restores and
  completions, every sequence number handed out is queued, claimed or finished, exactly once.
\<close>

theorem tasks_conserved:
  assumes "queue_step\<^sup>*\<^sup>* (empty_queues, [], []) (s, c, d)"
  shows "mset (map q_seq (all_items s)) + mset (map q_seq c) + mset (map q_seq d) = mset [0..<q_next s]"
  using claims_reachable [OF assms] by (simp add: claims_ok_def seqs_def)

lemma two_tasks_reachable: "queue_step\<^sup>*\<^sup>* (empty_queues, [], []) (two_tasks, [], [])"
  unfolding two_tasks_def by (rule rtranclp_trans; rule r_into_rtranclp, rule q_put)

theorem tasks_conserved_witness:
  "\<exists>s x. take_item (Some ''gpu'') (Some 2) two_tasks = Inr (s, x)
     \<and> mset (map q_seq (all_items s)) + {#q_seq x#} = mset [0..<2]"
proof -
  have "\<exists>s x. take_item (Some ''gpu'') (Some 2) two_tasks = Inr (s, x) \<and> q_next s = 2"
    by (simp add: take_item_def two_tasks_def put_def empty_queues_def queue_names_def queue_of_def set_queue_def
        dput_def sample_task_def normalize_queue_name_def task_kind_def clean_def present_def py_lower_def
        py_strip_def is_space_def lower_char_def is_upper_def Let_def first_match_def)
  then obtain s x where t: "take_item (Some ''gpu'') (Some 2) two_tasks = Inr (s, x)" "q_next s = 2" by blast
  have "queue_step\<^sup>*\<^sup>* (empty_queues, [], []) (s, [x], [])"
    using two_tasks_reachable q_take [OF t(1)] by (rule rtranclp.rtrancl_into_rtrancl)
  from tasks_conserved [OF this] t show ?thesis by (metis (no_types, lifting) add_0_right list.simps(8,9) mset.simps)
qed

text \<open>
  Under FCFS the head of a queue is the task put into it first among those in it, also after
  claimed tasks were put back; and a peek finds a task exactly when the queue is not empty.
\<close>

theorem fcfs_head_is_oldest:
  assumes "peek Fcfs now qn s = (s', r)"
  shows "case r of None \<Rightarrow> queue_of s (normalize_queue_name qn) = []
    | Some t \<Rightarrow> (\<exists>x \<in> set (queue_of s (normalize_queue_name qn)). q_task x = t
        \<and> (\<forall>y \<in> set (queue_of s (normalize_queue_name qn)). q_seq x \<le> q_seq y))"
proof (cases r)
  case None
  with assms show ?thesis using peek_None [of Fcfs now qn s] by simp
next
  case (Some t)
  with assms have "peek Fcfs now qn s = (s', Some t)" by simp
  from peek_head [OF this] obtain x where "x \<in> set (queue_of s (normalize_queue_name qn))" "t = q_task x"
      "\<forall>y \<in> set (queue_of s (normalize_queue_name qn)). q_seq x \<le> q_seq y"
    by auto
  with Some show ?thesis by auto
qed

theorem fcfs_head_is_oldest_witness:
  "\<exists>x \<in> set (queue_of two_tasks ''gpu''). \<forall>y \<in> set (queue_of two_tasks ''gpu''). q_seq x \<le> q_seq y"
proof -
  have n: "normalize_queue_name (Some ''gpu'') = ''gpu''" by (rule normalize_id) (simp add: queue_names_def)
  have "queue_of two_tasks ''gpu'' \<noteq> []"
    by (simp add: two_tasks_def put_def empty_queues_def queue_names_def queue_of_def set_queue_def
        dput_def sample_task_def normalize_queue_name_def task_kind_def clean_def present_def py_lower_def
        py_strip_def is_space_def lower_char_def is_upper_def Let_def)
  moreover obtain s' r where "peek Fcfs 9 (Some ''gpu'') two_tasks = (s', r)" by (cases "peek Fcfs 9 (Some ''gpu'') two_tasks")
  ultimately show ?thesis
    using fcfs_head_is_oldest [of 9 "Some ''gpu''" two_tasks s' r] n by (auto split: option.splits)
qed

lemma hacs_key_le:
  "priority_key (Hacs h) t m now \<le> priority_key (Hacs h) u n now \<longleftrightarrow>
     (if meta_starved (refresh_task_metadata h t now)
      then meta_starved (refresh_task_metadata h u now) \<longrightarrow> m \<le> n
      else \<not> meta_starved (refresh_task_metadata h u now)
        \<and> (meta_score (refresh_task_metadata h u now) < meta_score (refresh_task_metadata h t now)
           \<or> (meta_score (refresh_task_metadata h u now) = meta_score (refresh_task_metadata h t now) \<and> m \<le> n)))"
  by (auto simp: Let_def)

lemma meta_starved_iff: "meta_starved (refresh_task_metadata h t now) \<longleftrightarrow> starvation h \<le> queue_wait t now"
  by (simp add: refresh_task_metadata_def Let_def)

text \<open>
  HACS never starves: when some queued task has waited for the starvation bound, the head is the
  earliest put of those; otherwise the head has the highest score, the earliest put one among equals.
\<close>

theorem hacs_head:
  assumes "peek (Hacs h) now qn s = (s', Some t)"
  shows "\<exists>x \<in> set (queue_of s (normalize_queue_name qn)).
     t = (q_task x)\<lparr>metadata := Some (refresh_task_metadata h (q_task x) now)\<rparr>
     \<and> (if \<exists>y \<in> set (queue_of s (normalize_queue_name qn)). starvation h \<le> queue_wait (q_task y) now
        then starvation h \<le> queue_wait (q_task x) now
          \<and> (\<forall>y \<in> set (queue_of s (normalize_queue_name qn)).
               starvation h \<le> queue_wait (q_task y) now \<longrightarrow> q_seq x \<le> q_seq y)
        else \<forall>y \<in> set (queue_of s (normalize_queue_name qn)).
               meta_score (refresh_task_metadata h (q_task y) now) \<le> meta_score (refresh_task_metadata h (q_task x) now)
               \<and> (meta_score (refresh_task_metadata h (q_task y) now) = meta_score (refresh_task_metadata h (q_task x) now)
                  \<longrightarrow> q_seq x \<le> q_seq y))"
proof (rule peek_head [OF assms])
  let ?q = "set (queue_of s (normalize_queue_name qn))"
  fix x
  assume x: "x \<in> ?q" "t = note_metadata (Hacs h) (q_task x) now"
    and least: "\<forall>y \<in> ?q. priority_key (Hacs h) (q_task x) (q_seq x) now \<le> priority_key (Hacs h) (q_task y) (q_seq y) now"
  show ?thesis
    using x least unfolding hacs_key_le meta_starved_iff
    by (intro bexI [OF _ x(1)] conjI) (auto split: if_splits)
qed

definition sample_hacs :: hacs where
  "sample_hacs = \<lparr>alpha = 2, beta = 5, ema_alpha = 1 / 5, starvation = 600, average = 60, samples = 0\<rparr>"

theorem hacs_head_witness:
  "\<exists>t. snd (peek (Hacs sample_hacs) 1000 (Some ''gpu'') two_tasks) = Some t \<and> uid t = 1"
proof -
  have n: "normalize_queue_name (Some ''gpu'') = ''gpu''" by (rule normalize_id) (simp add: queue_names_def)
  have q: "map (\<lambda>x. (q_seq x, uid (q_task x), queue_wait (q_task x) 1000)) (queue_of two_tasks ''gpu'')
      = [(0, 1, 996), (1, 2, 995)]"
    by (simp add: two_tasks_def put_def empty_queues_def queue_names_def queue_of_def set_queue_def
        dput_def sample_task_def normalize_queue_name_def task_kind_def clean_def present_def py_lower_def
        py_strip_def is_space_def lower_char_def is_upper_def Let_def queue_wait_def float_value_def)
  then obtain a b where ab: "queue_of two_tasks ''gpu'' = [a, b]" "q_seq a = 0" "uid (q_task a) = 1"
      "queue_wait (q_task a) 1000 = 996" "q_seq b = 1" "queue_wait (q_task b) 1000 = 995"
    by (auto simp: map_eq_Cons_conv)
  have "snd (peek (Hacs sample_hacs) 1000 (Some ''gpu'') two_tasks) \<noteq> None" by (simp add: peek_None n ab)
  then obtain s' t where p: "peek (Hacs sample_hacs) 1000 (Some ''gpu'') two_tasks = (s', Some t)"
    by (metis not_None_eq prod.collapse)
  have st: "starvation sample_hacs = 600" by (simp add: sample_hacs_def)
  from hacs_head [OF p] ab show ?thesis unfolding n st p by auto
qed

text \<open>
  A claim that is put back leaves no trace: taking a task out of its queue and restoring it gives,
  at the next peek with any strategy, the same head as if it had never been taken.
\<close>

theorem claim_round_trip:
  assumes "queue_step\<^sup>*\<^sup>* (empty_queues, [], []) (s, c, d)" and "take_item qn want s = Inr (s1, x)"
  shows "snd (peek st now qn (fst (restore x None s1))) = snd (peek st now qn s)"
proof (rule take_cases [OF assms(2)])
  let ?n = "normalize_queue_name qn"
  fix rest
  assume s1: "s1 = set_queue ?n rest s" and m: "mset (queue_of s ?n) = add_mset x (mset rest)"
    and x: "x \<in> set (queue_of s ?n)"
  have ok: "claims_ok (s, c, d)" by (rule claims_reachable [OF assms(1)])
  then have lab: "queue_label (q_task x) = Some ?n" using x by (auto simp: claims_ok_def queues_ok_def)
  then have same: "x\<lparr>q_task := (q_task x)\<lparr>queue_label := Some ?n\<rparr>\<rparr> = x" by simp
  have "normalize_queue_name (Some ?n) = ?n" by (simp add: normalize_id)
  then have "queue_of (fst (restore x None s1)) ?n = rest @ [x]"
    using same by (simp add: restore_def Let_def present_def lab s1)
  moreover have "sort_key q_key (map (refresh_item st now) (rest @ [x]))
      = sort_key q_key (map (refresh_item st now) (queue_of s ?n))"
  proof (rule keyed.order_independent)
    show "mset (rest @ [x]) = mset (queue_of s ?n)" using m by simp
    then show "distinct (map q_seq (rest @ [x]))"
      using claims_distinct(1) [OF ok normalize_in] by (metis mset_eq_imp_distinct_iff mset_map)
  qed
  ultimately show ?thesis by (simp add: peek_def refresh_queue_def Let_def split: list.splits)
qed

theorem claim_round_trip_witness:
  "\<exists>s1 x. take_item (Some ''gpu'') (Some 1) two_tasks = Inr (s1, x)
     \<and> snd (peek Fcfs 9 (Some ''gpu'') (fst (restore x None s1))) = snd (peek Fcfs 9 (Some ''gpu'') two_tasks)"
proof -
  have "\<exists>s x. take_item (Some ''gpu'') (Some 1) two_tasks = Inr (s, x)"
    by (simp add: take_item_def two_tasks_def put_def empty_queues_def queue_names_def queue_of_def set_queue_def
        dput_def sample_task_def normalize_queue_name_def task_kind_def clean_def present_def py_lower_def
        py_strip_def is_space_def lower_char_def is_upper_def Let_def first_match_def)
  then obtain s x where t: "take_item (Some ''gpu'') (Some 1) two_tasks = Inr (s, x)" by blast
  with claim_round_trip [OF two_tasks_reachable t] show ?thesis by blast
qed

definition observe_all :: "strategy \<Rightarrow> real option list \<Rightarrow> strategy" where
  "observe_all s ds = foldl (\<lambda>s d. fst (observe_workflow_completion d s)) s ds"

lemma observe_average:
  assumes "hacs_ok h" "observe_workflow_completion d (Hacs h) = (Hacs h', b)"
    and "\<And>x. d = Some x \<Longrightarrow> 0 < x \<Longrightarrow> lo \<le> x \<and> x \<le> hi"
    and "0 < samples h \<Longrightarrow> lo \<le> average h \<and> average h \<le> hi" and "0 < samples h'"
  shows "lo \<le> average h' \<and> average h' \<le> hi"
proof (cases "d = None \<or> the d \<le> 0")
  case True
  with assms show ?thesis by (auto simp: observe_workflow_completion_def split: option.splits if_splits)
next
  case False
  then obtain x where x: "d = Some x" "0 < x" by auto
  with assms(3) have r: "lo \<le> x" "x \<le> hi" by auto
  let ?w = "ema_alpha h"
  have w: "0 \<le> ?w" "0 \<le> 1 - ?w" using assms(1) by (auto simp: hacs_ok_def)
  show ?thesis
  proof (cases "samples h = 0")
    case True
    with assms(2) x r show ?thesis by (auto simp: observe_workflow_completion_def)
  next
    case False
    with assms(4) have a: "lo \<le> average h" "average h \<le> hi" by auto
    have h': "average h' = ?w * x + (1 - ?w) * average h"
      using assms(2) x False by (auto simp: observe_workflow_completion_def)
    have "?w * lo + (1 - ?w) * lo \<le> average h'" "average h' \<le> ?w * hi + (1 - ?w) * hi"
      unfolding h' using w r a by (auto intro!: add_mono mult_left_mono)
    then show ?thesis by (simp add: algebra_simps)
  qed
qed

text \<open>
  A configured HACS strategy keeps sound parameters over any completions it observes (so no score
  divides by zero), and its average completion time stays within any interval that holds all the
  observed durations, once there is one.
\<close>

theorem hacs_parameters_sound:
  assumes "create_scheduling_strategy env (Some name) = Inr (Hacs h)"
    and "observe_all (Hacs h) ds = s"
  shows "\<exists>h'. s = Hacs h' \<and> 0 < alpha h' \<and> 1 < beta h' \<and> 0 < ema_alpha h' \<and> ema_alpha h' \<le> 1
     \<and> 0 < starvation h' \<and> 0 < average h'
     \<and> (0 < samples h' \<and> (\<forall>x. Some x \<in> set ds \<and> 0 < x \<longrightarrow> lo \<le> x \<and> x \<le> hi)
          \<longrightarrow> lo \<le> average h' \<and> average h' \<le> hi)"
proof -
  have h: "hacs_ok h \<and> samples h = 0"
    using assms(1) new_hacs_ok
    by (auto simp: create_scheduling_strategy_def new_hacs_def split: if_splits) (fastforce simp: new_hacs_def)+
  have "\<exists>h'. observe_all (Hacs h) ds = Hacs h' \<and> hacs_ok h'
     \<and> (0 < samples h' \<and> (\<forall>x. Some x \<in> set ds \<and> 0 < x \<longrightarrow> lo \<le> x \<and> x \<le> hi)
          \<longrightarrow> lo \<le> average h' \<and> average h' \<le> hi)"
  proof (induction ds rule: rev_induct)
    case Nil
    with h show ?case by (simp add: observe_all_def)
  next
    case (snoc d ds)
    then obtain h1 where h1: "observe_all (Hacs h) ds = Hacs h1" "hacs_ok h1"
        "0 < samples h1 \<and> (\<forall>x. Some x \<in> set ds \<and> 0 < x \<longrightarrow> lo \<le> x \<and> x \<le> hi)
          \<longrightarrow> lo \<le> average h1 \<and> average h1 \<le> hi" by blast
    obtain h2 where h2: "fst (observe_workflow_completion d (Hacs h1)) = Hacs h2" "hacs_ok h2"
      using observe_ok [OF h1(2)] by blast
    then obtain b where b: "observe_workflow_completion d (Hacs h1) = (Hacs h2, b)" by (metis prod.collapse)
    have "lo \<le> average h2 \<and> average h2 \<le> hi"
      if "0 < samples h2" "\<forall>x. Some x \<in> set (ds @ [d]) \<and> 0 < x \<longrightarrow> lo \<le> x \<and> x \<le> hi"
      by (rule observe_average [OF h1(2) b]) (use h1(3) that in auto)
    with h1 h2 show ?case by (simp add: observe_all_def)
  qed
  then show ?thesis unfolding assms(2) by (simp add: hacs_ok_def)
qed

theorem hacs_parameters_sound_witness:
  "\<exists>h h'. create_scheduling_strategy (\<lambda>_. None) (Some ''HACS'') = Inr (Hacs h)
     \<and> observe_all (Hacs h) [Some 10, Some 20] = Hacs h' \<and> 10 \<le> average h' \<and> average h' \<le> 20"
proof -
  have "create_scheduling_strategy (\<lambda>_. None) (Some ''HACS'') = Inr (Hacs sample_hacs)"
    by (simp add: create_scheduling_strategy_def is_hacs_algorithm_def upper_char_def py_strip_def is_space_def
        configured_float_def new_hacs_def positive_float_def bounded_fraction_def sample_hacs_def of_rat_divide)
  moreover have "\<exists>h'. observe_all (Hacs sample_hacs) [Some 10, Some 20] = Hacs h' \<and> samples h' = 2"
    by (simp add: observe_all_def observe_workflow_completion_def sample_hacs_def)
  ultimately show ?thesis
    using hacs_parameters_sound [of "\<lambda>_. None" "''HACS''" sample_hacs "[Some 10, Some 20]" _ 10 20] by fastforce
qed

end
