(* ===== verification/Resources.thy ===== *)
theory Resources
  imports PyValue
begin

text \<open>
  Resource semantics of tasks: \<open>maze/core/workflow/resources.py\<close> and the memory policy of
  \<open>maze/core/resource_policy.py\<close>. A resource specification is the dictionary the code builds;
  a model anchor is a dictionary, the empty one standing for \<open>None\<close> (the code writes
  \<open>anchor or {}\<close>).
\<close>

named_theorems resource_simps \<open>evaluation of resource normalisation\<close>

section \<open>Normalising a resource specification\<close>

text \<open>\<open>_int_value\<close>: \<open>TypeError\<close> and \<open>ValueError\<close> give the default, \<open>OverflowError\<close> is not caught.\<close>

definition int_value :: "pyval \<Rightarrow> int \<Rightarrow> int result" where
  "int_value v d =
     (case rbind (py_float v) int_of_float of
        Inr n \<Rightarrow> Inr n
      | Inl OverflowError \<Rightarrow> Inl OverflowError
      | Inl _ \<Rightarrow> Inr d)"

definition task_kinds :: "string list" where
  "task_kinds = [''cpu'', ''gpu'', ''io'']"

definition resource_hint_keys :: "string list" where
  "resource_hint_keys =
     [''target_node_id'', ''node_id'', ''avoid_node_ids'', ''required_capability'', ''gpu_mem_limit'']"

text \<open>\<open>if k in raw and raw[k] is not None\<close>: a missing key and a null one are the same.\<close>

definition given :: "(string, pyval) dict \<Rightarrow> string \<Rightarrow> bool" where
  "given raw k = (vget raw k \<noteq> VNone)"

definition pick_amount :: "(string, pyval) dict \<Rightarrow> string list \<Rightarrow> int \<Rightarrow> int result" where
  "pick_amount raw ks d =
     (case first_match (given raw) ks of None \<Rightarrow> Inr d | Some k \<Rightarrow> int_value (vget raw k) d)"

text \<open>
  The hints copied from the raw dictionary, in the order of the source's literal (the source's is a
  set, so the order of these keys is not fixed there).
\<close>

definition hint_given :: "(string, pyval) dict \<Rightarrow> string \<Rightarrow> bool" where
  "hint_given raw k = (vget raw k \<noteq> VNone \<and> vget raw k \<noteq> VStr [])"

definition base_resources :: "int \<Rightarrow> int \<Rightarrow> int \<Rightarrow> (string, pyval) dict" where
  "base_resources c g i = [(''cpu_num'', VInt c), (''gpu_mem'', VInt g), (''io_num'', VInt i)]"

definition copy_hints :: "(string, pyval) dict \<Rightarrow> (string, pyval) dict \<Rightarrow> (string, pyval) dict" where
  "copy_hints raw d = d @ map (\<lambda>k. (k, vget raw k)) (filter (hint_given raw) resource_hint_keys)"

definition check_limit :: "(string, pyval) dict \<Rightarrow> (string, pyval) dict result" where
  "check_limit d =
     (if dhas ''gpu_mem_limit'' d
      then rbind (int_value (vget d ''gpu_mem_limit'') 0) (\<lambda>n.
        if n \<le> 0 then Inl (ResourceSpecError ''resources.gpu_mem_limit must be a positive MiB limit'')
        else Inr (dput ''gpu_mem_limit'' (VInt n) d))
      else Inr d)"

definition normalize_raw :: "(string, pyval) dict \<Rightarrow> (string, pyval) dict result" where
  "normalize_raw raw =
     rbind (pick_amount raw [''cpu_num'', ''cpu''] 1) (\<lambda>c.
     rbind (pick_amount raw [''io_num''] 0) (\<lambda>i.
     rbind (pick_amount raw [''gpu_mem'', ''gpu_memory_mb''] 0) (\<lambda>g.
     guard_or (0 \<le> c) (ResourceSpecError ''resources.cpu_num must be non-negative'')
     (guard_or (0 \<le> g) (ResourceSpecError ''resources.gpu_mem must be non-negative'')
     (guard_or (0 \<le> i) (ResourceSpecError ''resources.io_num must be non-negative'')
     (check_limit (copy_hints raw (base_resources (if c \<le> 0 then 1 else c) g i))))))))"

definition normalize_resources :: "pyval \<Rightarrow> (string, pyval) dict result" where
  "normalize_resources resources =
     rbind (if truthy resources then py_dict resources else Inr []) normalize_raw"

section \<open>Model memory estimates\<close>

definition mib :: rat where "mib = 1024 * 1024"

text \<open>\<open>positive_int\<close> of the policy module catches \<open>OverflowError\<close> too.\<close>

definition positive_int :: "pyval \<Rightarrow> int" where
  "positive_int v = (case rbind (py_float v) int_of_float of Inr n \<Rightarrow> max 0 n | Inl _ \<Rightarrow> 0)"

definition model_memory_mib :: "(string, pyval) dict \<Rightarrow> int" where
  "model_memory_mib anchor =
     (let estimates = map (\<lambda>k. positive_int (vget anchor k))
            [''gpu_mem'', ''estimated_gpu_mem_mb'', ''estimated_gpu_memory_mb'', ''gpu_memory_mb''];
          weight = positive_int (vor (vget anchor ''estimated_weight_memory_bytes'')
                                     (vget anchor ''weight_bytes''))
      in foldr max estimates \<lceil>of_int weight * (6 / 5) / mib\<rceil>)"

definition apply_model_anchor_estimate ::
    "pyval \<Rightarrow> (string, pyval) dict \<Rightarrow> (string, pyval) dict result" where
  "apply_model_anchor_estimate resources anchor =
     rbind (normalize_resources resources) (\<lambda>d.
       let estimate = model_memory_mib anchor in
       if estimate \<noteq> 0
       then rbind (py_int (vget d ''gpu_mem'')) (\<lambda>g. Inr (dput ''gpu_mem'' (VInt (max g estimate)) d))
       else Inr d)"

section \<open>Task kinds\<close>

definition normalize_task_kind ::
    "pyval \<Rightarrow> (string, pyval) dict \<Rightarrow> (string, pyval) dict \<Rightarrow> string result" where
  "normalize_task_kind task_kind resources anchor =
     (if task_kind \<noteq> VNone then
        (let k = py_lower (py_strip (py_str task_kind)) in
         if k \<in> set task_kinds then Inr k
         else Inl (ResourceSpecError ''task_kind must be one of: cpu, gpu, io''))
      else rbind (int_value (vget resources ''gpu_mem'') 0) (\<lambda>g.
        if 0 < g then Inr ''gpu''
        else if truthy (vget anchor ''local_model'') then Inr ''gpu''
        else Inr ''cpu''))"

definition validate_task_resources ::
    "string \<Rightarrow> (string, pyval) dict \<Rightarrow> (string, pyval) dict \<Rightarrow> unit result" where
  "validate_task_resources kind resources anchor =
     (if kind \<notin> set task_kinds
      then Inl (ResourceSpecError ''task_kind must be one of: cpu, gpu, io'')
      else rbind (int_value (vget resources ''gpu_mem'') 0) (\<lambda>g.
        if kind \<in> {''cpu'', ''io''} \<and> 0 < g
        then Inl (ResourceSpecError (kind @ '' tasks must not request gpu_mem''))
        else if kind \<in> {''cpu'', ''io''} \<and> truthy (vget anchor ''local_model'')
        then Inl (ResourceSpecError (kind @ '' tasks must not include model_anchor.local_model''))
        else Inr ()))"

definition normalize_task_semantics ::
    "pyval \<Rightarrow> pyval \<Rightarrow> pyval \<Rightarrow> (string \<times> (string, pyval) dict) result" where
  "normalize_task_semantics task_kind resources model_anchor =
     rbind (if truthy model_anchor then py_dict model_anchor else Inr []) (\<lambda>anchor.
     rbind (apply_model_anchor_estimate resources anchor) (\<lambda>d.
     rbind (normalize_task_kind task_kind d anchor) (\<lambda>kind.
     rbind (validate_task_resources kind d anchor) (\<lambda>_. Inr (kind, d)))))"

definition require_schedulable_resources ::
    "string \<Rightarrow> (string, pyval) dict \<Rightarrow> (string, pyval) dict \<Rightarrow> unit result" where
  "require_schedulable_resources kind resources anchor =
     rbind (validate_task_resources kind resources anchor) (\<lambda>_.
     if kind = ''gpu'' then
       rbind (int_value (vget resources ''gpu_mem'') 0) (\<lambda>g.
         guard_or (0 < g) (ResourceSpecError
           ''gpu tasks must declare resources.gpu_mem or use a model/resource-history estimate before scheduling'')
           (Inr ()))
     else Inr ())"

definition to_internal_scheduler_resources ::
    "pyval \<Rightarrow> pyval \<Rightarrow> (string, pyval) dict \<Rightarrow> (string, pyval) dict result" where
  "to_internal_scheduler_resources resources task_kind anchor =
     rbind (normalize_resources resources) (\<lambda>d.
     rbind (normalize_task_kind task_kind d anchor) (\<lambda>_.
     rbind (py_int (vget d ''gpu_mem'')) (\<lambda>g.
     Inr (dput ''gpu_mem'' (vget d ''gpu_mem'')
         (dput ''gpu'' (VInt (if 0 < g then 1 else 0))
         (dput ''cpu_mem'' (VInt 0)
         (dput ''cpu'' (vget d ''cpu_num'') d)))))))"

section \<open>Memory recommendations\<close>

definition gpu_peak_keys :: "string list" where
  "gpu_peak_keys =
     [''gpu_memory_peak_reserved_bytes'', ''gpu_memory_peak_allocated_bytes'',
      ''peak_cuda_reserved_bytes'', ''peak_cuda_allocated_bytes'', ''gpu_memory_observed_bytes'']"

definition observed_peak_bytes :: "(string, pyval) dict \<Rightarrow> int option" where
  "observed_peak_bytes metrics =
     (let values = map (\<lambda>k. positive_int (vget metrics k)) (filter (\<lambda>k. dhas k metrics) gpu_peak_keys)
      in if values = [] then None else Some (Max (set values)))"

record decision =
  declared :: "(string, pyval) dict"
  effective :: "(string, pyval) dict"
  sources :: "string list"
  sample_count :: int

definition peak_margin :: rat where "peak_margin = 23 / 20"
definition oom_growth :: rat where "oom_growth = 5 / 4"

text \<open>One candidate amount of \<open>recommend_resources\<close>: a larger value wins and names its source.\<close>

definition raise_to :: "int \<Rightarrow> string \<Rightarrow> int \<times> string list \<Rightarrow> int \<times> string list" where
  "raise_to x label p = (if fst p < x then (x, snd p @ [label]) else p)"

definition oom_amount :: "(string, pyval) dict \<Rightarrow> int \<Rightarrow> int \<Rightarrow> int" where
  "oom_amount failure requested amount =
     (let peak = positive_int (vget failure ''peak_bytes'');
          a = positive_int (vget failure ''allocated_bytes'');
          allocated = (if a \<noteq> 0 then a else peak);
          needed = positive_int (vget failure ''attempted_allocation_bytes'')
      in foldr max [amount, \<lceil>of_int (allocated + needed) * peak_margin / mib\<rceil>,
                    \<lceil>of_int requested * oom_growth\<rceil>] (requested + 256))"

definition recommend_resources ::
    "pyval \<Rightarrow> (string, pyval) dict \<Rightarrow> (string, pyval) dict \<Rightarrow> (string, pyval) dict option
     \<Rightarrow> decision result" where
  "recommend_resources decl history anchor failure =
     rbind (normalize_resources decl) (\<lambda>eff.
     let requested = positive_int (vget eff ''gpu_mem'');
         peak = positive_int (vget history ''success_peak_bytes'');
         (amount, srcs) =
           raise_to (positive_int (vget history ''oom_lower_bound_mib'')) ''oom_history''
          (raise_to \<lceil>of_int peak * peak_margin / mib\<rceil> ''observed_peak''
          (raise_to (model_memory_mib anchor) ''model_weights'' (requested, [''declared''])));
         (amount', srcs') =
           (case failure of None \<Rightarrow> (amount, srcs)
            | Some f \<Rightarrow> (oom_amount f requested amount, srcs @ [''oom_lower_bound'']));
         limit = positive_int (vget eff ''gpu_mem_limit'')
     in if limit \<noteq> 0 \<and> limit < amount'
        then Inl (ResourceLimitExceeded ''Estimated GPU memory exceeds gpu_mem_limit'')
        else Inr \<lparr>declared = eff, effective = dput ''gpu_mem'' (VInt amount') eff, sources = srcs',
                  sample_count = positive_int (vget history ''success_samples'')\<rparr>)"

section \<open>Facts\<close>

lemma int_value_int: "\<bar>n\<bar> < dbl \<Longrightarrow> int_value (VInt n) d = Inr n"
  by (simp add: int_value_def)

lemma int_value_range: "int_value v d = Inr n \<Longrightarrow> \<bar>d\<bar> < dbl \<Longrightarrow> \<bar>n\<bar> < dbl"
proof -
  assume iv: "int_value v d = Inr n" and d: "\<bar>d\<bar> < dbl"
  show ?thesis
  proof (cases "rbind (py_float v) int_of_float")
    case (Inr m)
    then obtain f where f: "py_float v = Inr f" "int_of_float f = Inr m" by auto
    then obtain q where "f = Fin q" "m = trunc_rat q" by (cases f) auto
    with f(1) have "\<bar>m\<bar> < dbl" using py_float_range trunc_rat_bound by blast
    with iv Inr show ?thesis by (simp add: int_value_def)
  next
    case (Inl e)
    with iv d show ?thesis by (cases e) (simp_all add: int_value_def)
  qed
qed

lemma pick_amount_range:
  "pick_amount raw ks d = Inr n \<Longrightarrow> \<bar>d\<bar> < dbl \<Longrightarrow> \<bar>n\<bar> < dbl"
  by (auto simp: pick_amount_def split: option.splits dest: int_value_range)

lemma positive_int_nonneg [simp]: "0 \<le> positive_int v"
  by (simp add: positive_int_def split: sum.splits)

lemma positive_int_int: "\<bar>n\<bar> < dbl \<Longrightarrow> positive_int (VInt n) = max 0 n"
  by (simp add: positive_int_def)

lemma positive_int_None [simp]: "positive_int VNone = 0"
  by (simp add: positive_int_def)

text \<open>The shape of a normalised specification, the invariant every later step relies on.\<close>

definition norm_shape :: "int \<Rightarrow> int \<Rightarrow> int \<Rightarrow> (string, pyval) dict \<Rightarrow> (string, pyval) dict \<Rightarrow> bool" where
  "norm_shape c g i hints d \<longleftrightarrow>
     d = base_resources c g i @ hints \<and> 1 \<le> c \<and> 0 \<le> g \<and> 0 \<le> i
     \<and> c < dbl \<and> g < dbl \<and> i < dbl
     \<and> map fst hints = filter (\<lambda>k. dhas k hints) resource_hint_keys
     \<and> (\<forall>(k, v) \<in> set hints. v \<noteq> VNone \<and> v \<noteq> VStr [])
     \<and> (\<forall>v. map_of hints ''gpu_mem_limit'' = Some v \<longrightarrow> (\<exists>n. v = VInt n \<and> 0 < n \<and> n < dbl))"


lemma map_of_base [resource_simps]:
  "map_of (base_resources c g i @ h) k =
     (if k = ''cpu_num'' then Some (VInt c) else if k = ''gpu_mem'' then Some (VInt g)
      else if k = ''io_num'' then Some (VInt i) else map_of h k)"
  by (auto simp: base_resources_def)

lemma vget_base [resource_simps]:
  "vget (base_resources c g i @ h) k =
     (if k = ''cpu_num'' then VInt c else if k = ''gpu_mem'' then VInt g
      else if k = ''io_num'' then VInt i else vget h k)"
  by (auto simp: vget_def dgetd_def map_of_base)

lemma dput_gpu_base [resource_simps]:
  "dput ''gpu_mem'' (VInt x) (base_resources c g i @ h) = base_resources c x i @ h"
  by (simp add: base_resources_def dput_def)

lemma dput_same: "map_of d k = Some v \<Longrightarrow> dput k v d = d"
  by (induction d) (auto simp: dput_def)

lemma dput_append_right: "\<not> dhas k d \<Longrightarrow> dput k v (d @ e) = d @ dput k v e"
  by (induction d) (auto simp: dput_def dhas_def)

lemma map_fst_dput: "dhas k d \<Longrightarrow> map fst (dput k v d) = map fst d"
  by (induction d) (auto simp: dput_def dhas_def)

lemma map_vget_keys:
  assumes "distinct (map fst h)"
  shows "map (\<lambda>k. (k, vget h k)) (map fst h) = h"
  using assms
proof (induction h)
  case (Cons p h)
  obtain k v where p: "p = (k, v)" by (cases p)
  have "map (\<lambda>x. (x, vget ((k, v) # h) x)) (map fst h) = map (\<lambda>x. (x, vget h x)) (map fst h)"
    using Cons.prems p by (intro map_cong [OF refl]) auto
  with Cons p show ?case by simp
qed simp

lemma hint_keys_base: "k \<in> set resource_hint_keys \<Longrightarrow> \<not> dhas k (base_resources c g i)"
  by (auto simp: resource_hint_keys_def base_resources_def)

lemma distinct_hint_keys: "distinct resource_hint_keys"
  by (simp add: resource_hint_keys_def)

lemma given_base: "given (base_resources c g i @ h) k \<longleftrightarrow> k \<in> {''cpu_num'', ''gpu_mem'', ''io_num''} \<or> given h k"
  by (simp add: given_def vget_base)

lemma hint_given_shape:
  assumes "norm_shape c g i h d" and "k \<in> set resource_hint_keys"
  shows "hint_given d k \<longleftrightarrow> dhas k h"
proof -
  have nb: "k \<noteq> ''cpu_num'' \<and> k \<noteq> ''gpu_mem'' \<and> k \<noteq> ''io_num''"
    using assms(2) by (auto simp: resource_hint_keys_def)
  have d: "d = base_resources c g i @ h" and ok: "\<forall>(k, v) \<in> set h. v \<noteq> VNone \<and> v \<noteq> VStr []"
    using assms(1) by (auto simp: norm_shape_def)
  show ?thesis
  proof (cases "map_of h k")
    case None
    with d nb show ?thesis by (simp add: hint_given_def map_of_base vget_def dgetd_def dhas_iff)
  next
    case (Some v)
    with ok have "v \<noteq> VNone \<and> v \<noteq> VStr []" by (auto dest!: map_of_in)
    with d nb Some show ?thesis
      by (simp add: hint_given_def map_of_base vget_def dgetd_def dhas_iff)
  qed
qed

lemma copy_hints_shape:
  assumes "norm_shape c g i h d"
  shows "copy_hints d (base_resources c g i) = d"
proof -
  have d: "d = base_resources c g i @ h"
    and ks: "map fst h = filter (\<lambda>k. dhas k h) resource_hint_keys"
    using assms by (auto simp: norm_shape_def)
  have "filter (hint_given d) resource_hint_keys = map fst h"
    unfolding ks using hint_given_shape [OF assms] by (intro filter_cong) auto
  moreover have "map (\<lambda>k. (k, vget d k)) (map fst h) = map (\<lambda>k. (k, vget h k)) (map fst h)"
  proof (intro map_cong [OF refl])
    fix k assume "k \<in> set (map fst h)"
    then have "k \<in> set resource_hint_keys" unfolding ks by simp
    then show "(k, vget d k) = (k, vget h k)" using d by (auto simp: vget_base resource_hint_keys_def)
  qed
  moreover have "distinct (map fst h)"
    unfolding ks by (simp add: distinct_hint_keys)
  ultimately have "map (\<lambda>k. (k, vget d k)) (filter (hint_given d) resource_hint_keys) = h"
    using map_vget_keys [of h] by (simp del: map_map)
  then show ?thesis using d by (simp add: copy_hints_def)
qed

text \<open>A normalised specification normalises to itself.\<close>

lemma norm_shape_fixed:
  assumes sh: "norm_shape c g i h d"
  shows "normalize_raw d = Inr d"
proof -
  have d: "d = base_resources c g i @ h" using sh by (simp add: norm_shape_def)
  have cgi: "1 \<le> c" "0 \<le> g" "0 \<le> i" "c < dbl" "g < dbl" "i < dbl"
    using sh by (auto simp: norm_shape_def)
  have "pick_amount d [''cpu_num'', ''cpu''] 1 = Inr c" "pick_amount d [''io_num''] 0 = Inr i"
    "pick_amount d [''gpu_mem'', ''gpu_memory_mb''] 0 = Inr g"
    using d cgi by (simp_all add: pick_amount_def first_match_def given_base vget_base int_value_int)
  moreover have "check_limit d = Inr d"
  proof (cases "dhas ''gpu_mem_limit'' d")
    case True
    then have "map_of h ''gpu_mem_limit'' \<noteq> None" using d by (simp add: dhas_iff map_of_base)
    then obtain n where n: "map_of h ''gpu_mem_limit'' = Some (VInt n)" "0 < n" "n < dbl"
      using sh by (auto simp: norm_shape_def)
    then have "map_of d ''gpu_mem_limit'' = Some (VInt n)" using d by (simp add: map_of_base)
    moreover from this have "vget d ''gpu_mem_limit'' = VInt n" by (simp add: vget_def dgetd_def)
    ultimately show ?thesis using n by (simp add: check_limit_def int_value_int dput_same)
  qed (simp add: check_limit_def)
  ultimately show ?thesis
    using cgi copy_hints_shape [OF sh] by (simp add: normalize_raw_def)
qed

lemma check_limit_shape:
  assumes "check_limit (base_resources c g i @ h) = Inr d"
    and "1 \<le> c" "0 \<le> g" "0 \<le> i" "c < dbl" "g < dbl" "i < dbl"
    and ks: "map fst h = filter (\<lambda>k. dhas k h) resource_hint_keys"
    and vs: "\<forall>(k, v) \<in> set h. v \<noteq> VNone \<and> v \<noteq> VStr []"
  shows "\<exists>h'. norm_shape c g i h' d"
proof (cases "dhas ''gpu_mem_limit'' h")
  case True
  let ?l = "''gpu_mem_limit''"
  from True assms(1) obtain n where n: "int_value (vget h ?l) 0 = Inr n" "0 < n"
      "d = dput ?l (VInt n) (base_resources c g i @ h)"
    by (auto simp: check_limit_def dhas_iff map_of_base vget_base split: if_splits)
  from n(1) have "\<bar>n\<bar> < dbl" by (rule int_value_range) simp
  then have "n < dbl" by simp
  have "\<not> dhas ?l (base_resources c g i)" by (simp add: base_resources_def)
  with n(3) have d: "d = base_resources c g i @ dput ?l (VInt n) h"
    by (simp add: dput_append_right)
  have keys: "map fst (dput ?l (VInt n) h) = filter (\<lambda>k. dhas k (dput ?l (VInt n) h)) resource_hint_keys"
    unfolding map_fst_dput [OF True] ks using True by (intro filter_cong) auto
  have vals: "\<forall>(k, v) \<in> set (dput ?l (VInt n) h). v \<noteq> VNone \<and> v \<noteq> VStr []"
    using vs by (induction h) (auto simp: dput_def split: if_splits)
  have lim: "\<forall>v. map_of (dput ?l (VInt n) h) ?l = Some v \<longrightarrow> (\<exists>n. v = VInt n \<and> 0 < n \<and> n < dbl)"
    using n(2) \<open>n < dbl\<close> by simp
  have "norm_shape c g i (dput ?l (VInt n) h) d"
    unfolding norm_shape_def by (intro conjI d keys vals lim assms(2-7))
  then show ?thesis ..
next
  case False
  then have "d = base_resources c g i @ h"
    using assms(1) by (simp add: check_limit_def dhas_iff map_of_base)
  moreover have "\<forall>v. map_of h ''gpu_mem_limit'' = Some v \<longrightarrow> (\<exists>n. v = VInt n \<and> 0 < n \<and> n < dbl)"
    using False by (simp add: dhas_iff)
  ultimately have "norm_shape c g i h d"
    unfolding norm_shape_def by (intro conjI ks vs assms(2-7))
  then show ?thesis ..
qed

lemma copied_hints_ok:
  fixes raw
  defines "h \<equiv> map (\<lambda>k. (k, vget raw k)) (filter (hint_given raw) resource_hint_keys)"
  shows "map fst h = filter (\<lambda>k. dhas k h) resource_hint_keys"
    and "\<forall>(k, v) \<in> set h. v \<noteq> VNone \<and> v \<noteq> VStr []"
proof -
  have m: "map fst h = filter (hint_given raw) resource_hint_keys" by (simp add: h_def comp_def)
  have "k \<in> set resource_hint_keys \<Longrightarrow> dhas k h \<longleftrightarrow> hint_given raw k" for k
    unfolding dhas_def m by simp
  then show "map fst h = filter (\<lambda>k. dhas k h) resource_hint_keys"
    unfolding m by (intro filter_cong) auto
  show "\<forall>(k, v) \<in> set h. v \<noteq> VNone \<and> v \<noteq> VStr []"
    by (auto simp: h_def hint_given_def)
qed

lemma normalize_raw_shape:
  assumes "normalize_raw raw = Inr d"
  shows "\<exists>c g i h. norm_shape c g i h d"
proof -
  from assms obtain c i g where
      c: "pick_amount raw [''cpu_num'', ''cpu''] 1 = Inr c"
    and i: "pick_amount raw [''io_num''] 0 = Inr i"
    and g: "pick_amount raw [''gpu_mem'', ''gpu_memory_mb''] 0 = Inr g"
    and pos: "0 \<le> c" "0 \<le> g" "0 \<le> i"
    and lim: "check_limit (copy_hints raw (base_resources (if c \<le> 0 then 1 else c) g i)) = Inr d"
    by (auto simp: normalize_raw_def)
  have lt: "\<bar>c\<bar> < dbl" "\<bar>i\<bar> < dbl" "\<bar>g\<bar> < dbl"
    using c i g pick_amount_range by fastforce+
  then have "\<exists>h. norm_shape (if c \<le> 0 then 1 else c) g i h d"
    using pos lim unfolding copy_hints_def
    by (intro check_limit_shape [OF _ _ _ _ _ _ _ copied_hints_ok]) (simp_all add: abs_less_iff)
  then show ?thesis by blast
qed

lemma normalize_resources_shape:
  "normalize_resources r = Inr d \<Longrightarrow> \<exists>c g i h. norm_shape c g i h d"
  by (auto simp: normalize_resources_def intro: normalize_raw_shape)

lemma norm_shape_nonempty: "norm_shape c g i h d \<Longrightarrow> d \<noteq> []"
  by (auto simp: norm_shape_def base_resources_def)

lemma norm_shape_resources: "norm_shape c g i h d \<Longrightarrow> normalize_resources (VDict d) = Inr d"
  using norm_shape_nonempty norm_shape_fixed by (fastforce simp: normalize_resources_def)

lemma norm_shape_gpu: "norm_shape c g i h d \<Longrightarrow> vget d ''gpu_mem'' = VInt g"
  by (auto simp: norm_shape_def vget_base)

lemma norm_shape_set_gpu:
  "norm_shape c g i h d \<Longrightarrow> 0 \<le> x \<Longrightarrow> x < dbl
   \<Longrightarrow> norm_shape c x i h (dput ''gpu_mem'' (VInt x) d)"
  by (auto simp: norm_shape_def dput_gpu_base)


lemma positive_int_range: "positive_int v < dbl"
proof (cases "rbind (py_float v) int_of_float")
  case (Inr m)
  then have "\<exists>f q. py_float v = Inr f \<and> f = Fin q \<and> m = trunc_rat q"
    by (auto elim: int_of_float.elims)
  then have "\<bar>m\<bar> < dbl" using py_float_range trunc_rat_bound by blast
  moreover have "positive_int v = max 0 m" unfolding positive_int_def Inr by (rule sum.case)
  ultimately show ?thesis by simp
qed (simp add: positive_int_def)

lemma ceiling_share:
  assumes "0 \<le> w" "0 \<le> r" "r \<le> mib"
  shows "\<lceil>of_int w * r / mib\<rceil> \<le> w" "0 \<le> \<lceil>of_int w * r / mib\<rceil>"
proof -
  have "(of_int w :: rat) * r \<le> of_int w * mib" using assms by (intro mult_left_mono) auto
  then have "of_int w * r / mib \<le> of_int w" by (simp add: mib_def field_simps)
  then show "\<lceil>of_int w * r / mib\<rceil> \<le> w" by (simp add: ceiling_le)
  have "0 \<le> of_int w * r / mib" using assms by (simp add: mib_def)
  then show "0 \<le> \<lceil>of_int w * r / mib\<rceil>" by linarith
qed

lemma model_memory_range: "0 \<le> model_memory_mib a \<and> model_memory_mib a < dbl"
proof -
  let ?w = "positive_int (vor (vget a ''estimated_weight_memory_bytes'') (vget a ''weight_bytes''))"
  have "0 \<le> \<lceil>of_int ?w * (6 / 5) / mib\<rceil>" "\<lceil>of_int ?w * (6 / 5) / mib\<rceil> \<le> ?w"
    using ceiling_share [of ?w "6 / 5"] by (simp_all add: mib_def)
  moreover define x where "x = \<lceil>of_int ?w * (6 / 5) / mib\<rceil>"
  ultimately have "0 \<le> x" "x < dbl" using positive_int_range le_less_trans by blast+
  then show ?thesis unfolding model_memory_mib_def Let_def x_def [symmetric]
    by (simp add: positive_int_range le_max_iff_disj)
qed

lemma apply_estimate_shape:
  assumes "apply_model_anchor_estimate r a = Inr d"
  shows "\<exists>c g i h. norm_shape c g i h d \<and> model_memory_mib a \<le> g"
proof -
  from assms obtain d0 where d0: "normalize_resources r = Inr d0" by (auto simp: apply_model_anchor_estimate_def)
  then obtain c g i h where sh: "norm_shape c g i h d0" using normalize_resources_shape by blast
  let ?e = "model_memory_mib a"
  have g: "0 \<le> g" "g < dbl" using sh by (auto simp: norm_shape_def)
  show ?thesis
  proof (cases "?e = 0")
    case True
    with assms d0 sh g show ?thesis by (auto simp: apply_model_anchor_estimate_def)
  next
    case False
    with assms d0 have "d = dput ''gpu_mem'' (VInt (max g ?e)) d0"
      by (simp add: apply_model_anchor_estimate_def norm_shape_gpu [OF sh])
    moreover have "norm_shape c (max g ?e) i h (dput ''gpu_mem'' (VInt (max g ?e)) d0)"
      using sh g model_memory_range [of a] by (intro norm_shape_set_gpu) auto
    ultimately show ?thesis by (metis max.cobounded2)
  qed
qed

lemma apply_estimate_fixed:
  assumes "norm_shape c g i h d" and "model_memory_mib a \<le> g"
  shows "apply_model_anchor_estimate (VDict d) a = Inr d"
proof -
  have "dput ''gpu_mem'' (VInt g) d = d"
    using assms(1) by (intro dput_same) (auto simp: norm_shape_def map_of_base)
  with assms show ?thesis
    by (simp add: apply_model_anchor_estimate_def norm_shape_resources [OF assms(1)]
        norm_shape_gpu [OF assms(1)] Let_def max_absorb1)
qed

lemma norm_shape_int_gpu: "norm_shape c g i h d \<Longrightarrow> int_value (vget d ''gpu_mem'') x = Inr g"
proof -
  assume sh: "norm_shape c g i h d"
  then have "\<bar>g\<bar> < dbl" by (auto simp: norm_shape_def)
  then show ?thesis using norm_shape_gpu [OF sh] int_value_int by simp
qed

lemma task_kind_range:
  "normalize_task_kind tk d a = Inr k \<Longrightarrow> k \<in> set task_kinds"
  by (auto simp: normalize_task_kind_def task_kinds_def Let_def split: if_splits)

lemma task_kind_fixed:
  "k \<in> set task_kinds \<Longrightarrow> normalize_task_kind (VStr k) d a = Inr k"
  by (auto simp: normalize_task_kind_def task_kinds_def Let_def py_strip_def py_lower_def is_space_def
      lower_char_def is_upper_def)

lemma validate_gpu:
  assumes "norm_shape c g i h d" and "validate_task_resources k d a = Inr u"
  shows "k \<in> {''cpu'', ''io''} \<longrightarrow> g = 0 \<and> \<not> truthy (vget a ''local_model'')"
  using assms by (auto simp: validate_task_resources_def norm_shape_int_gpu norm_shape_def split: if_splits)

text \<open>What a successful normalisation delivers, in one lemma.\<close>

lemma semantics_shape:
  assumes "normalize_task_semantics tk r a = Inr (k, d)"
  obtains anchor c g i h where
    "(if truthy a then py_dict a else Inr []) = Inr anchor"
    "norm_shape c g i h d" "model_memory_mib anchor \<le> g" "k \<in> set task_kinds"
    "validate_task_resources k d anchor = Inr ()"
proof -
  from assms obtain anchor where
      an: "(if truthy a then py_dict a else Inr []) = Inr anchor"
      "apply_model_anchor_estimate r anchor = Inr d"
      "normalize_task_kind tk d anchor = Inr k" "validate_task_resources k d anchor = Inr ()"
    by (auto simp: normalize_task_semantics_def)
  then obtain c g i h where "norm_shape c g i h d" "model_memory_mib anchor \<le> g"
    using apply_estimate_shape by blast
  with an that task_kind_range show ?thesis by blast
qed

lemma task_semantics_fixed_point_aux:
  assumes "normalize_task_semantics tk r a = Inr (k, d)"
  shows "normalize_task_semantics (VStr k) (VDict d) a = Inr (k, d)"
proof -
  obtain anchor c g i h where
      a: "(if truthy a then py_dict a else Inr []) = Inr anchor" "norm_shape c g i h d"
        "model_memory_mib anchor \<le> g" "k \<in> set task_kinds" "validate_task_resources k d anchor = Inr ()"
    by (rule semantics_shape [OF assms])
  then show ?thesis
    by (simp add: normalize_task_semantics_def apply_estimate_fixed task_kind_fixed)
qed

section \<open>Properties\<close>

text \<open>
  Normalising a resource specification is idempotent: the dictionary it returns, given back as
  the specification, is returned unchanged. Every layer (client, DAG spec, task record, scheduler)
  normalises again, so this is what keeps their views of a task's resources equal.
\<close>

theorem normalize_resources_idempotent:
  assumes "normalize_resources r = Inr d"
  shows "normalize_resources (VDict d) = Inr d"
  using normalize_resources_shape [OF assms] norm_shape_resources by blast

theorem normalize_resources_idempotent_witness:
  "\<exists>d. normalize_resources (VDict [(''cpu'', VInt 4), (''gpu_memory_mb'', VInt 8192)]) = Inr d
     \<and> normalize_resources (VDict d) = Inr d"
proof -
  let ?r = "VDict [(''cpu'', VInt 4), (''gpu_memory_mb'', VInt 8192)]"
  have "normalize_resources ?r = Inr (base_resources 4 8192 0)"
    using dbl_large [of 4] dbl_large [of 8192]
    by (simp add: normalize_resources_def normalize_raw_def pick_amount_def first_match_def given_def
        int_value_int check_limit_def copy_hints_def hint_given_def resource_hint_keys_def base_resources_def)
  then show ?thesis using normalize_resources_idempotent [of ?r] by blast
qed

text \<open>
  An accepted task has one of the three kinds, asks for at least one CPU and no negative amount,
  holds at least the GPU memory its model anchor is estimated to need, and a \<open>cpu\<close> or \<open>io\<close> task
  holds no GPU memory and names no local model.
\<close>

theorem task_semantics_sound:
  assumes "normalize_task_semantics tk r (VDict anchor) = Inr (k, d)"
  shows "k \<in> {''cpu'', ''gpu'', ''io''}
    \<and> (\<exists>c g i. vget d ''cpu_num'' = VInt c \<and> vget d ''gpu_mem'' = VInt g \<and> vget d ''io_num'' = VInt i
        \<and> 1 \<le> c \<and> 0 \<le> i \<and> model_memory_mib anchor \<le> g
        \<and> (k \<noteq> ''gpu'' \<longrightarrow> g = 0 \<and> \<not> truthy (vget anchor ''local_model'')))"
proof -
  obtain anc c g i h where a: "(if truthy (VDict anchor) then py_dict (VDict anchor) else Inr []) = Inr anc"
      and sh: "norm_shape c g i h d" and m: "model_memory_mib anc \<le> g"
      and k: "k \<in> set task_kinds" and v: "validate_task_resources k d anc = Inr ()"
    by (rule semantics_shape [OF assms])
  from a have "anc = anchor" by (auto split: if_splits)
  moreover have "k \<noteq> ''gpu'' \<longrightarrow> k \<in> {''cpu'', ''io''}" using k by (auto simp: task_kinds_def)
  ultimately show ?thesis
    using sh m k validate_gpu [OF sh v] by (auto simp: norm_shape_def vget_base task_kinds_def)
qed

theorem task_semantics_sound_witness:
  "\<exists>d. normalize_task_semantics VNone (VDict []) (VDict [(''local_model'', VStr ''m''), (''gpu_mem'', VInt 512)])
       = Inr (''gpu'', d) \<and> (\<exists>g. vget d ''gpu_mem'' = VInt g \<and> 512 \<le> g)"
proof -
  let ?a = "[(''local_model'', VStr ''m''), (''gpu_mem'', VInt 512)]"
  let ?d = "base_resources 1 512 0"
  have m: "model_memory_mib ?a = 512"
    using dbl_large [of 512] by (simp add: model_memory_mib_def positive_int_int vor_def mib_def)
  have "normalize_resources (VDict []) = Inr (base_resources 1 0 0)"
    by (simp add: normalize_resources_def normalize_raw_def pick_amount_def first_match_def given_def
        check_limit_def copy_hints_def hint_given_def base_resources_def)
  then have n: "normalize_task_semantics VNone (VDict []) (VDict ?a) = Inr (''gpu'', ?d)"
    using m dbl_large [of 512]
    by (simp add: normalize_task_semantics_def apply_model_anchor_estimate_def normalize_task_kind_def
        validate_task_resources_def task_kinds_def int_value_int base_resources_def dput_def)
  show ?thesis using task_semantics_sound [OF n] n m by auto
qed

text \<open>
  Accepted task semantics are a fixed point: submitting the returned kind and resources with the
  same model anchor returns them again, so the core, the scheduler and a retry agree on them.
\<close>

theorem task_semantics_fixed_point:
  assumes "normalize_task_semantics tk r a = Inr (k, d)"
  shows "normalize_task_semantics (VStr k) (VDict d) a = Inr (k, d)"
  by (rule task_semantics_fixed_point_aux [OF assms])

theorem task_semantics_fixed_point_witness:
  "\<exists>d. normalize_task_semantics VNone (VDict []) VNone = Inr (''cpu'', d)
     \<and> normalize_task_semantics (VStr ''cpu'') (VDict d) VNone = Inr (''cpu'', d)"
proof -
  have m: "model_memory_mib [] = 0"
    by (simp add: model_memory_mib_def vor_def mib_def)
  have n: "normalize_task_semantics VNone (VDict []) VNone = Inr (''cpu'', base_resources 1 0 0)"
    using m
    by (simp add: normalize_task_semantics_def apply_model_anchor_estimate_def normalize_task_kind_def
        validate_task_resources_def task_kinds_def int_value_int base_resources_def
        normalize_resources_def normalize_raw_def pick_amount_def first_match_def given_def
        check_limit_def copy_hints_def hint_given_def)
  show ?thesis using task_semantics_fixed_point [OF n] n by blast
qed

lemma raise_to_ge: "x \<le> fst (raise_to x l p)" "fst p \<le> fst (raise_to x l p)"
  by (auto simp: raise_to_def)

lemma oom_amount_ge: "amount \<le> oom_amount f r amount" "r + 256 \<le> oom_amount f r amount"
  unfolding oom_amount_def Let_def by (simp_all add: le_max_iff_disj)

lemma recommendation_effective:
  assumes "recommend_resources decl history anchor failure = Inr d"
  obtains eff g where "normalize_resources decl = Inr eff" "effective d = dput ''gpu_mem'' (VInt g) eff"
proof -
  from assms obtain eff where eff: "normalize_resources decl = Inr eff" by (auto simp: recommend_resources_def)
  obtain n xs where p: "raise_to (positive_int (vget history ''oom_lower_bound_mib'')) ''oom_history''
      (raise_to \<lceil>of_int (positive_int (vget history ''success_peak_bytes'')) * peak_margin / mib\<rceil> ''observed_peak''
        (raise_to (model_memory_mib anchor) ''model_weights'' (positive_int (vget eff ''gpu_mem''), [''declared'']))) = (n, xs)"
    by fastforce
  have "\<exists>g. effective d = dput ''gpu_mem'' (VInt g) eff"
    using assms unfolding recommend_resources_def eff rbind.simps Let_def p prod.case
    by (cases failure) (auto split: if_splits)
  with eff that show ?thesis by blast
qed

text \<open>The amount a recommendation settles on, and what it is at least.\<close>

lemma recommendation_amount:
  assumes "recommend_resources decl history anchor failure = Inr dec"
  obtains g r where
    "vget (effective dec) ''gpu_mem'' = VInt g"
    "r = positive_int (vget (declared dec) ''gpu_mem'')"
    "r \<le> g" "model_memory_mib anchor \<le> g"
    "\<lceil>of_int (positive_int (vget history ''success_peak_bytes'')) * peak_margin / mib\<rceil> \<le> g"
    "positive_int (vget history ''oom_lower_bound_mib'') \<le> g"
    "failure \<noteq> None \<longrightarrow> r + 256 \<le> g"
    "positive_int (vget (declared dec) ''gpu_mem_limit'') = 0
     \<or> g \<le> positive_int (vget (declared dec) ''gpu_mem_limit'')"
proof -
  from assms obtain eff where eff: "normalize_resources decl = Inr eff"
    by (auto simp: recommend_resources_def)
  define r where "r = positive_int (vget eff ''gpu_mem'')"
  define ob where "ob = positive_int (vget history ''oom_lower_bound_mib'')"
  define p where "p = \<lceil>of_int (positive_int (vget history ''success_peak_bytes'')) * peak_margin / mib\<rceil>"
  define a1 where "a1 = raise_to (model_memory_mib anchor) ''model_weights'' (r, [''declared''])"
  define a2 where "a2 = raise_to p ''observed_peak'' a1"
  define a3 where "a3 = raise_to ob ''oom_history'' a2"
  define lim where "lim = positive_int (vget eff ''gpu_mem_limit'')"
  define g where "g = (case failure of None \<Rightarrow> fst a3 | Some f \<Rightarrow> oom_amount f r (fst a3))"
  have dec: "\<not> (lim \<noteq> 0 \<and> lim < g) \<and> declared dec = eff
      \<and> effective dec = dput ''gpu_mem'' (VInt g) eff"
    using assms
    unfolding recommend_resources_def eff rbind.simps Let_def g_def lim_def a3_def a2_def a1_def p_def ob_def r_def
    by (cases failure) (auto split: if_splits prod.splits)
  have "r \<le> fst a1" "model_memory_mib anchor \<le> fst a1" "fst a1 \<le> fst a2" "p \<le> fst a2"
    "fst a2 \<le> fst a3" "ob \<le> fst a3"
    unfolding a3_def a2_def a1_def by (auto simp: raise_to_def)
  moreover have "fst a3 \<le> g" "failure \<noteq> None \<longrightarrow> r + 256 \<le> g"
    unfolding g_def using oom_amount_ge by (auto split: option.splits)
  moreover have "vget (effective dec) ''gpu_mem'' = VInt g" using dec by simp
  ultimately show ?thesis using that [of g r] dec unfolding r_def ob_def p_def lim_def by auto
qed

text \<open>
  A memory recommendation never goes below what was declared, what the model's weights need,
  the peak observed in earlier runs or the lower bound learnt from earlier out-of-memory failures;
  after an out-of-memory failure it grows by at least 256 MiB; and it respects the declared limit.
\<close>

theorem recommendation_bounds:
  assumes "recommend_resources decl history anchor failure = Inr dec"
  shows "\<exists>g. vget (effective dec) ''gpu_mem'' = VInt g
    \<and> positive_int (vget (declared dec) ''gpu_mem'') \<le> g
    \<and> model_memory_mib anchor \<le> g
    \<and> \<lceil>of_int (positive_int (vget history ''success_peak_bytes'')) * peak_margin / mib\<rceil> \<le> g
    \<and> positive_int (vget history ''oom_lower_bound_mib'') \<le> g
    \<and> (failure \<noteq> None \<longrightarrow> positive_int (vget (declared dec) ''gpu_mem'') + 256 \<le> g)
    \<and> (positive_int (vget (declared dec) ''gpu_mem_limit'') = 0
        \<or> g \<le> positive_int (vget (declared dec) ''gpu_mem_limit''))"
  by (rule recommendation_amount [OF assms]) blast

theorem recommendation_bounds_witness:
  "\<exists>dec. recommend_resources (VDict [(''gpu_mem'', VInt 1024)]) [] [] (Some []) = Inr dec
     \<and> (\<exists>g. vget (effective dec) ''gpu_mem'' = VInt g \<and> 1280 \<le> g)"
proof -
  let ?r = "VDict [(''gpu_mem'', VInt 1024)]"
  let ?b = "base_resources 1 1024 0"
  have n: "normalize_resources ?r = Inr ?b"
    using dbl_large [of 1024]
    by (simp add: normalize_resources_def normalize_raw_def pick_amount_def first_match_def given_def
        int_value_int check_limit_def copy_hints_def hint_given_def resource_hint_keys_def base_resources_def)
  have lim: "vget ?b ''gpu_mem_limit'' = VNone" by (simp add: base_resources_def)
  have "\<exists>dec. recommend_resources ?r [] [] (Some []) = Inr dec \<and> declared dec = ?b"
    unfolding recommend_resources_def n rbind.simps Let_def lim by (simp split: prod.splits)
  then obtain dec where dec: "recommend_resources ?r [] [] (Some []) = Inr dec" and d: "declared dec = ?b"
    by blast
  have "positive_int (vget (declared dec) ''gpu_mem'') = 1024"
    using dbl_large [of 1024] by (simp add: d base_resources_def positive_int_int)
  with recommendation_bounds [OF dec] dec show ?thesis by auto
qed

end
