(* ===== verification/Workflow_Graph.thy ===== *)
theory Workflow_Graph
  imports Resources
begin

text \<open>
  Static workflow graphs: \<open>maze/core/workflow/workflow.py\<close> and the task record of
  \<open>maze/core/workflow/task.py\<close>. A \<open>networkx.DiGraph\<close> is its nodes and edges in insertion order; the two
  networkx algorithms the code calls (\<open>is_directed_acyclic_graph\<close>, \<open>topological_sort\<close>) are arguments, and
  the locale \<open>graph_library\<close> states what networkx documents of them.
\<close>

section \<open>The graph algorithms the code relies on\<close>

type_synonym edges = "(string \<times> string) list"
type_synonym dag_test = "string list \<Rightarrow> edges \<Rightarrow> bool"
type_synonym topo_sort = "string list \<Rightarrow> edges \<Rightarrow> string list"

definition graph_ok :: "string list \<Rightarrow> edges \<Rightarrow> bool" where
  "graph_ok ns es \<longleftrightarrow> distinct ns \<and> (\<forall>(s, t) \<in> set es. s \<in> set ns \<and> t \<in> set ns)"

text \<open>Every edge points forward in the order.\<close>

definition forward :: "string list \<Rightarrow> edges \<Rightarrow> bool" where
  "forward xs es \<longleftrightarrow> (\<forall>us v vs. xs = us @ v # vs \<longrightarrow> (\<forall>(s, t) \<in> set es. t = v \<longrightarrow> s \<in> set us))"

locale graph_library =
  fixes is_dag :: dag_test and topo :: topo_sort
  assumes dag_iff: "graph_ok ns es \<Longrightarrow> is_dag ns es \<longleftrightarrow> acyclic (set es)"
    and topo_nodes: "graph_ok ns es \<Longrightarrow> acyclic (set es) \<Longrightarrow> distinct (topo ns es) \<and> set (topo ns es) = set ns"
    and topo_forward: "graph_ok ns es \<Longrightarrow> acyclic (set es) \<Longrightarrow> forward (topo ns es) es"
begin

lemma dag_insert:
  assumes "graph_ok ns es" "is_dag ns es" "s \<in> set ns" "t \<in> set ns"
  shows "is_dag ns (es @ [(s, t)]) \<longleftrightarrow> (t, s) \<notin> (set es)\<^sup>*"
proof -
  have ok: "graph_ok ns (es @ [(s, t)])" using assms by (auto simp: graph_ok_def)
  show ?thesis
    using assms(2) unfolding dag_iff [OF assms(1)] dag_iff [OF ok] by (simp add: acyclic_insert)
qed

text \<open>A value computed along the topological order from the predecessors satisfies its equation.\<close>

lemma topo_fold:
  assumes ok: "graph_ok ns es" and ac: "acyclic (set es)"
    and xs: "topo ns es = us @ v # vs" and e: "(s, v) \<in> set es"
  shows "s \<in> set us" "s \<noteq> v" "s \<notin> set vs"
proof -
  show s: "s \<in> set us" using topo_forward [OF ok ac] xs e by (force simp: forward_def)
  have "distinct (us @ v # vs)" using topo_nodes [OF ok ac] xs by simp
  with s show "s \<noteq> v" "s \<notin> set vs" by auto
qed

end

text \<open>
  A reference implementation (repeatedly take a node no remaining node points to), which meets the
  contract and lets the model run.
\<close>

fun kahn :: "nat \<Rightarrow> string list \<Rightarrow> edges \<Rightarrow> string list option" where
  "kahn 0 ns es = (if ns = [] then Some [] else None)"
| "kahn (Suc k) ns es =
     (if ns = [] then Some []
      else (case first_match (\<lambda>n. list_all (\<lambda>(s, t). t = n \<longrightarrow> s \<notin> set ns) es) ns of
              None \<Rightarrow> None
            | Some n \<Rightarrow> map_option (\<lambda>xs. n # xs) (kahn k (remove1 n ns) es)))"

definition kahn_dag :: dag_test where
  "kahn_dag ns es = (kahn (length ns) ns es \<noteq> None)"

definition kahn_sort :: topo_sort where
  "kahn_sort ns es = (case kahn (length ns) ns es of None \<Rightarrow> [] | Some xs \<Rightarrow> xs)"

lemma kahn_total:
  "acyclic (set es) \<Longrightarrow> length ns \<le> k \<Longrightarrow> \<exists>xs. kahn k ns es = Some xs"
proof (induction k arbitrary: ns)
  case (Suc k)
  show ?case
  proof (cases "ns = []")
    case False
    have "wf (set es)" using Suc.prems(1) by (simp add: finite_acyclic_wf)
    then obtain n where n: "n \<in> set ns" "\<And>s. (s, n) \<in> set es \<Longrightarrow> s \<notin> set ns"
      using False by (metis (no_types, lifting) wfE_min hd_in_set)
    then have "list_all (\<lambda>(s, t). t = n \<longrightarrow> s \<notin> set ns) es" by (auto simp: list_all_iff)
    with n(1) obtain m where m: "first_match (\<lambda>n. list_all (\<lambda>(s, t). t = n \<longrightarrow> s \<notin> set ns) es) ns = Some m"
      using first_match_None [of "\<lambda>n. list_all (\<lambda>(s, t). t = n \<longrightarrow> s \<notin> set ns) es" ns] by fastforce
    then have "m \<in> set ns" using first_match_Some by fastforce
    then have "length (remove1 m ns) \<le> k" using Suc.prems(2) by (simp add: length_remove1)
    then obtain xs where "kahn k (remove1 m ns) es = Some xs" using Suc.IH Suc.prems(1) by blast
    with False m show ?thesis by simp
  qed simp
qed auto

lemma kahn_perm: "kahn k ns es = Some xs \<Longrightarrow> distinct ns \<Longrightarrow> distinct xs \<and> set xs = set ns"
proof (induction k arbitrary: ns xs)
  case (Suc k)
  show ?case
  proof (cases "ns = []")
    case False
    with Suc.prems obtain n ys where n: "first_match (\<lambda>n. list_all (\<lambda>(s, t). t = n \<longrightarrow> s \<notin> set ns) es) ns = Some n"
        "kahn k (remove1 n ns) es = Some ys" "xs = n # ys" by (auto split: option.splits)
    have "n \<in> set ns" using first_match_Some [OF n(1)] by simp
    moreover have "distinct ys \<and> set ys = set ns - {n}" using Suc.IH [OF n(2)] Suc.prems(2) by simp
    ultimately show ?thesis using n(3) by auto
  qed (use Suc in simp)
qed (auto split: if_splits)

lemma kahn_forward:
  "kahn k ns es = Some xs \<Longrightarrow> distinct ns \<Longrightarrow>
   xs = us @ v # vs \<Longrightarrow> (s, v) \<in> set es \<Longrightarrow> s \<in> set ns \<Longrightarrow> s \<in> set us"
proof (induction k arbitrary: ns xs us)
  case (Suc k)
  from Suc.prems obtain n ys where n: "first_match (\<lambda>n. list_all (\<lambda>(s, t). t = n \<longrightarrow> s \<notin> set ns) es) ns = Some n"
      "kahn k (remove1 n ns) es = Some ys" "xs = n # ys" by (auto split: option.splits if_splits)
  have free: "(s, n) \<in> set es \<Longrightarrow> s \<notin> set ns" for s
    using first_match_Some [OF n(1)] by (auto simp: list_all_iff)
  show ?case
  proof (cases us)
    case Nil
    with Suc.prems n(3) free show ?thesis by auto
  next
    case (Cons u us')
    with Suc.prems n(3) have u: "u = n" "ys = us' @ v # vs" by auto
    show ?thesis
    proof (cases "s = n")
      case False
      then have "s \<in> set us'" using Suc.IH [OF n(2) _ u(2) Suc.prems(4)] Suc.prems(2,5) by simp
      with Cons show ?thesis by simp
    qed (use Cons u in simp)
  qed
qed (auto split: if_splits)

lemma takeWhile_pos: "s \<in> set us \<Longrightarrow> length (takeWhile (\<lambda>x. x \<noteq> s) (us @ vs)) < length us"
  by (induction us) auto

lemma forward_acyclic:
  assumes "forward xs es" "distinct xs" "\<And>s t. (s, t) \<in> set es \<Longrightarrow> t \<in> set xs"
  shows "acyclic (set es)"
proof -
  define pos where "pos v = length (takeWhile (\<lambda>x. x \<noteq> v) xs)" for v
  have "pos s < pos t" if e: "(s, t) \<in> set es" for s t
  proof -
    obtain us vs where xs: "xs = us @ t # vs" using assms(3) [OF e] by (meson split_list)
    then have "s \<in> set us" using assms(1) e by (force simp: forward_def)
    then have "pos s < length us" unfolding pos_def xs by (rule takeWhile_pos)
    moreover have "pos t = length us"
      using assms(2) unfolding pos_def xs by (simp add: takeWhile_append)
    ultimately show ?thesis by simp
  qed
  then have "set es \<subseteq> measure pos" by auto
  then show ?thesis by (meson wf_acyclic wf_measure wf_subset)
qed

interpretation kahn: graph_library kahn_dag kahn_sort
proof (unfold_locales, goal_cases)
  case (1 ns es)
  then have d: "distinct ns" by (simp add: graph_ok_def)
  have "acyclic (set es)" if k: "kahn (length ns) ns es = Some xs" for xs
  proof (rule forward_acyclic)
    show "forward xs es" unfolding forward_def
      using kahn_forward [OF k d] 1 by (fastforce simp: graph_ok_def)
    show "distinct xs" using kahn_perm [OF k d] by simp
    show "\<And>s t. (s, t) \<in> set es \<Longrightarrow> t \<in> set xs" using 1 kahn_perm [OF k d] by (auto simp: graph_ok_def)
  qed
  then show ?case unfolding kahn_dag_def using kahn_total [of es ns "length ns"] by auto
next
  case (2 ns es)
  then obtain xs where "kahn (length ns) ns es = Some xs" using kahn_total by blast
  with 2 kahn_perm show ?case by (auto simp: kahn_sort_def graph_ok_def)
next
  case (3 ns es)
  then obtain xs where "kahn (length ns) ns es = Some xs" using kahn_total by blast
  with 3 kahn_forward [OF this] show ?case by (fastforce simp: kahn_sort_def graph_ok_def forward_def)
qed

section \<open>Tasks and workflows\<close>

record code_task =
  ct_workflow :: string
  ct_id :: string
  ct_name :: string
  ct_kind :: string
  ct_input :: pyval
  ct_output :: pyval
  ct_code_str :: pyval
  ct_code_ser :: pyval
  ct_declared :: "(string, pyval) dict option"
  ct_resources :: "(string, pyval) dict option"
  ct_file_context :: pyval
  ct_model_anchor :: pyval
  ct_max_retries :: pyval
  ct_retry_backoff :: pyval
  ct_retry_on :: pyval
  ct_timeout :: pyval
  ct_completed :: bool
  ct_created :: time
  ct_started :: "time option"
  ct_finished :: "time option"

definition new_task :: "time \<Rightarrow> string \<Rightarrow> string \<Rightarrow> string \<Rightarrow> code_task" where
  "new_task now wid tid name =
     \<lparr>ct_workflow = wid, ct_id = tid, ct_name = name, ct_kind = ''cpu'', ct_input = VNone, ct_output = VNone,
      ct_code_str = VNone, ct_code_ser = VNone, ct_declared = None, ct_resources = None,
      ct_file_context = VNone, ct_model_anchor = VNone, ct_max_retries = VNone,
      ct_retry_backoff = VInt 0, ct_retry_on = VNone, ct_timeout = VNone, ct_completed = False, ct_created = now, ct_started = None,
      ct_finished = None\<rparr>"

definition mark_started :: "time \<Rightarrow> code_task \<Rightarrow> code_task" where
  "mark_started now t = t\<lparr>ct_started := Some now\<rparr>"

definition save_task ::
    "pyval \<Rightarrow> pyval \<Rightarrow> pyval \<Rightarrow> pyval \<Rightarrow> pyval \<Rightarrow> pyval \<Rightarrow> pyval \<Rightarrow> pyval \<Rightarrow> pyval \<Rightarrow> pyval
     \<Rightarrow> pyval \<Rightarrow> pyval \<Rightarrow> code_task \<Rightarrow> code_task result" where
  "save_task inp outp code_str code_ser res kind file_context anchor max_retries backoff retry_on timeout t =
     rbind (normalize_resources res) (\<lambda>decl.
     rbind (normalize_task_semantics kind res anchor) (\<lambda>(k, eff).
     Inr (t\<lparr>ct_input := inp, ct_output := outp, ct_code_str := code_str, ct_code_ser := code_ser,
            ct_declared := Some decl, ct_kind := k, ct_resources := Some eff, ct_file_context := file_context,
            ct_model_anchor := anchor, ct_max_retries := max_retries, ct_retry_backoff := vor backoff (VInt 0),
            ct_retry_on := retry_on, ct_timeout := timeout\<rparr>)))"

text \<open>The attributes \<open>prepare_for_strategy\<close> writes on a graph node.\<close>

record node_attrs =
  attr_kind :: string
  attr_duration :: nat
  n_anc :: nat
  n_desc :: nat

record workflow =
  wf_id :: string
  g_nodes :: "string list"
  g_edges :: edges
  tasks :: "(string, code_task) dict"
  remaining_task_num :: int
  total_gpu_tasks :: int
  remaining_gpu_tasks :: int
  remaining_value_tasks :: "int option"
  attrs :: "(string, node_attrs) dict"

definition empty_workflow :: "string \<Rightarrow> workflow" where
  "empty_workflow wid = \<lparr>wf_id = wid, g_nodes = [], g_edges = [], tasks = [], remaining_task_num = 0,
     total_gpu_tasks = 0, remaining_gpu_tasks = 0, remaining_value_tasks = None, attrs = []\<rparr>"

definition add_task :: "string \<Rightarrow> code_task \<Rightarrow> workflow \<Rightarrow> workflow result" where
  "add_task tid t w =
     (if tid \<noteq> ct_id t then Inl (ValueError ''task_id must match task.task_id'')
      else Inr (w\<lparr>tasks := dput tid t (tasks w),
                  g_nodes := (if tid \<in> set (g_nodes w) then g_nodes w else g_nodes w @ [tid]),
                  remaining_task_num := remaining_task_num w + 1\<rparr>))"

definition add_edge :: "dag_test \<Rightarrow> string \<Rightarrow> string \<Rightarrow> workflow \<Rightarrow> workflow result" where
  "add_edge is_dag s t w =
     (if s \<notin> set (g_nodes w) \<or> t \<notin> set (g_nodes w)
      then Inl (ValueError ''Both tasks must exist in the workflow before adding an edge.'')
      else
        (let es = (if (s, t) \<in> set (g_edges w) then g_edges w else g_edges w @ [(s, t)])
         in if is_dag (g_nodes w) es then Inr (w\<lparr>g_edges := es\<rparr>)
            else Inl (ValueError ''The edge would make the workflow contain a cycle.'')))"

definition predecessors :: "workflow \<Rightarrow> string \<Rightarrow> string list" where
  "predecessors w n = map fst (filter (\<lambda>(s, t). t = n) (g_edges w))"

definition successors :: "workflow \<Rightarrow> string \<Rightarrow> string list" where
  "successors w n = map snd (filter (\<lambda>(s, t). s = n) (g_edges w))"

definition get_start_task :: "workflow \<Rightarrow> string list" where
  "get_start_task w = filter (\<lambda>n. predecessors w n = []) (g_nodes w)"

definition get_total_task_num :: "workflow \<Rightarrow> nat" where
  "get_total_task_num w = length (g_nodes w)"

definition mark_task_started :: "time \<Rightarrow> string \<Rightarrow> workflow \<Rightarrow> workflow" where
  "mark_task_started now tid w =
     (case map_of (tasks w) tid of None \<Rightarrow> w
      | Some t \<Rightarrow> w\<lparr>tasks := dput tid (mark_started now t) (tasks w)\<rparr>)"

definition kind_duration :: "string \<Rightarrow> nat option" where
  "kind_duration k = (if k = ''gpu'' then Some 60 else if k = ''cpu'' then Some 30
                      else if k = ''io'' then Some 10 else None)"

definition task_type :: "workflow \<Rightarrow> string \<Rightarrow> string" where
  "task_type w n = (case map_of (tasks w) n of None \<Rightarrow> ''cpu''
                    | Some t \<Rightarrow> if ct_kind t = [] then ''cpu'' else ct_kind t)"

text \<open>One node of the loop over the topological order: one more than the deepest neighbour.\<close>

definition depth_step :: "(string \<Rightarrow> string list) \<Rightarrow> (string, nat) dict \<Rightarrow> string \<Rightarrow> (string, nat) dict" where
  "depth_step nb d n =
     dput n (if nb n = [] then 0 else Max (set (map (\<lambda>p. dgetd d p 0) (nb n))) + 1) d"

definition depths :: "(string \<Rightarrow> string list) \<Rightarrow> string list \<Rightarrow> (string, nat) dict" where
  "depths nb xs = foldl (depth_step nb) [] xs"

definition prepare_for_strategy :: "topo_sort \<Rightarrow> string \<Rightarrow> workflow \<Rightarrow> workflow result" where
  "prepare_for_strategy topo strategy w =
     (if strategy \<noteq> ''HACS'' then Inr w
      else if \<not> list_all (\<lambda>n. kind_duration (task_type w n) \<noteq> None) (g_nodes w) then Inl (KeyError ''task_type'')
      else
        (let gpus = int (length (filter (\<lambda>n. task_type w n = ''gpu'') (g_nodes w)));
             xs = topo (g_nodes w) (g_edges w);
             anc = depths (predecessors w) xs; desc = depths (successors w) (rev xs)
         in Inr (w\<lparr>total_gpu_tasks := gpus, remaining_gpu_tasks := gpus, remaining_value_tasks := Some gpus,
                   attrs := map (\<lambda>n. (n, \<lparr>attr_kind = task_type w n,
                                attr_duration = the (kind_duration (task_type w n)),
                                n_anc = dgetd anc n 0, n_desc = dgetd desc n 0\<rparr>)) (g_nodes w)\<rparr>)))"

definition is_completed :: "workflow \<Rightarrow> string \<Rightarrow> bool" where
  "is_completed w p = (case map_of (tasks w) p of None \<Rightarrow> False | Some t \<Rightarrow> ct_completed t)"

definition less_one :: "int \<Rightarrow> int" where
  "less_one n = (if 0 < n then n - 1 else n)"

definition finish_task :: "time \<Rightarrow> string \<Rightarrow> string \<Rightarrow> workflow \<Rightarrow> (workflow \<times> string list) result" where
  "finish_task now tid strategy w =
     (case map_of (tasks w) tid of
        None \<Rightarrow> Inl (ValueError (''Task '' @ tid @ '' not found in workflow.''))
      | Some t \<Rightarrow>
          (let w1 = w\<lparr>remaining_task_num := remaining_task_num w - 1,
                     tasks := dput tid (t\<lparr>ct_completed := True, ct_finished := Some now\<rparr>) (tasks w)\<rparr>;
               gpu = (strategy = ''HACS'' \<and> map_option attr_kind (map_of (attrs w) tid) = Some ''gpu'');
               w2 = (if gpu then w1\<lparr>remaining_gpu_tasks := less_one (remaining_gpu_tasks w1),
                                    remaining_value_tasks := map_option less_one (remaining_value_tasks w1)\<rparr>
                     else w1)
           in Inr (w2, filter (\<lambda>s. list_all (is_completed w2) (predecessors w2 s)) (successors w2 tid))))"

text \<open>Every operation keeps the graph a well-formed DAG over exactly the workflow's tasks.\<close>

definition workflow_ok :: "workflow \<Rightarrow> bool" where
  "workflow_ok w \<longleftrightarrow> dict_ok (tasks w) \<and> graph_ok (g_nodes w) (g_edges w) \<and> acyclic (set (g_edges w))
     \<and> distinct (g_edges w) \<and> set (g_nodes w) = set (dkeys (tasks w))"

lemma workflow_ok_empty: "workflow_ok (empty_workflow i)"
  by (simp add: workflow_ok_def empty_workflow_def graph_ok_def dkeys_def acyclic_def)

lemma add_task_ok: "workflow_ok w \<Longrightarrow> add_task tid t w = Inr w' \<Longrightarrow> workflow_ok w'"
  by (auto simp: add_task_def workflow_ok_def graph_ok_def split: if_splits)

lemma add_edge_ok:
  assumes lib: "graph_library is_dag topo" and ok: "workflow_ok w" and add: "add_edge is_dag s t w = Inr w'"
  shows "workflow_ok w'"
proof -
  define es where "es = (if (s, t) \<in> set (g_edges w) then g_edges w else g_edges w @ [(s, t)])"
  from add have st: "s \<in> set (g_nodes w)" "t \<in> set (g_nodes w)" "is_dag (g_nodes w) es" "w' = w\<lparr>g_edges := es\<rparr>"
    by (auto simp: add_edge_def es_def Let_def split: if_splits)
  have "graph_ok (g_nodes w) es" using ok st(1,2) by (auto simp: es_def workflow_ok_def graph_ok_def)
  moreover from this have "acyclic (set es)" using st(3) graph_library.dag_iff [OF lib] by blast
  moreover have "distinct es" using ok by (auto simp: es_def workflow_ok_def)
  ultimately show ?thesis using ok by (simp add: st(4) workflow_ok_def)
qed

lemma finish_task_ok:
  assumes "workflow_ok w" "finish_task now tid strategy w = Inr (w', ready)"
  shows "workflow_ok w'" "g_edges w' = g_edges w" "g_nodes w' = g_nodes w"
    "is_completed w' p \<longleftrightarrow> p = tid \<or> is_completed w p" "dhas tid (tasks w)"
  using assms
  by (auto simp: finish_task_def workflow_ok_def Let_def is_completed_def dhas_iff map_of_dkeys insert_absorb
      split: option.splits if_splits)

lemma preds_iff: "p \<in> set (predecessors w n) \<longleftrightarrow> (p, n) \<in> set (g_edges w)"
  by (force simp: predecessors_def)

lemma succs_iff: "s \<in> set (successors w n) \<longleftrightarrow> (n, s) \<in> set (g_edges w)"
  by (force simp: successors_def)

lemma succs_distinct: "distinct (g_edges w) \<Longrightarrow> distinct (successors w n)"
  by (auto simp: successors_def distinct_map inj_on_def)

lemma finish_ready:
  assumes "finish_task now tid strategy w = Inr (w', ready)"
  shows "ready = filter (\<lambda>s. list_all (is_completed w') (predecessors w' s)) (successors w' tid)"
  using assms by (auto simp: finish_task_def Let_def split: option.splits if_splits)

section \<open>Depths\<close>

definition depth_eq :: "(string \<Rightarrow> string list) \<Rightarrow> (string \<Rightarrow> nat) \<Rightarrow> string \<Rightarrow> bool" where
  "depth_eq nb f v \<longleftrightarrow> f v = (if nb v = [] then 0 else Max (f ` set (nb v)) + 1)"

lemma depths_eq:
  assumes "distinct xs" and "\<And>us v vs. xs = us @ v # vs \<Longrightarrow> set (nb v) \<subseteq> set us" and "v \<in> set xs"
  shows "depth_eq nb (\<lambda>n. dgetd (depths nb xs) n 0) v"
  using assms
proof (induction xs rule: rev_induct)
  case (snoc x xs)
  let ?d = "depths nb xs" and ?d' = "depths nb (xs @ [x])"
  have d': "?d' = depth_step nb ?d x" by (simp add: depths_def)
  have sub: "set (nb v) \<subseteq> set xs" if "v \<in> set (xs @ [x])" for v
  proof -
    obtain us vs where s: "xs @ [x] = us @ v # vs" using \<open>v \<in> set (xs @ [x])\<close> by (meson split_list)
    have "set us \<subseteq> set xs" using s by (cases vs rule: rev_cases) auto
    with snoc.prems(2) [OF s] show ?thesis by blast
  qed
  have same: "dgetd ?d' n 0 = dgetd ?d n 0" if "n \<noteq> x" for n
    using that by (simp add: d' depth_step_def dgetd_def)
  have img: "(\<lambda>n. dgetd ?d' n 0) ` set (nb v) = (\<lambda>n. dgetd ?d n 0) ` set (nb v)" if "v \<in> set (xs @ [x])" for v
  proof (rule image_cong [OF refl])
    fix y assume "y \<in> set (nb v)"
    then have "y \<noteq> x" using sub [OF that] snoc.prems(1) by auto
    then show "dgetd ?d' y 0 = dgetd ?d y 0" by (rule same)
  qed
  show ?case
  proof (cases "v = x")
    case True
    have "dgetd ?d' x 0 = (if nb x = [] then 0 else Max ((\<lambda>n. dgetd ?d n 0) ` set (nb x)) + 1)"
      by (simp add: d' depth_step_def dgetd_def)
    then show ?thesis unfolding True depth_eq_def using img [of x] by simp
  next
    case False
    then have v: "v \<in> set xs" using snoc.prems(3) by simp
    have "depth_eq nb (\<lambda>n. dgetd ?d n 0) v"
    proof (rule snoc.IH)
      fix us w vs assume "xs = us @ w # vs"
      then show "set (nb w) \<subseteq> set us" using snoc.prems(2) [of us w "vs @ [x]"] by simp
    qed (use snoc.prems(1) v in auto)
    then show ?thesis unfolding depth_eq_def using img [of v] same [OF False] v by simp
  qed
qed simp

section \<open>Properties\<close>

text \<open>
  An edge is accepted exactly when both tasks exist and no path leads from its target back to its
  source; a rejected edge leaves no trace and an accepted one keeps the workflow a DAG over its tasks.
\<close>

theorem edge_accepted_iff:
  assumes "graph_library is_dag topo" and "workflow_ok w"
  shows "((\<exists>w'. add_edge is_dag s t w = Inr w') \<longleftrightarrow>
      dhas s (tasks w) \<and> dhas t (tasks w) \<and> (t, s) \<notin> (set (g_edges w))\<^sup>*)
    \<and> (\<forall>w'. add_edge is_dag s t w = Inr w' \<longrightarrow>
         workflow_ok w' \<and> set (g_edges w') = insert (s, t) (set (g_edges w)) \<and> tasks w' = tasks w)"
proof -
  have nodes: "n \<in> set (g_nodes w) \<longleftrightarrow> dhas n (tasks w)" for n
    using assms(2) by (simp add: workflow_ok_def dhas_dkeys)
  have gok: "graph_ok (g_nodes w) (g_edges w)" "acyclic (set (g_edges w))" using assms(2) by (auto simp: workflow_ok_def)
  then have dag: "is_dag (g_nodes w) (g_edges w)" using graph_library.dag_iff [OF assms(1)] by blast
  have "(t, s) \<notin> (set (g_edges w))\<^sup>*" if "(s, t) \<in> set (g_edges w)"
    using that gok(2) by (meson acyclic_def rtrancl_into_trancl2)
  then have "(\<exists>w'. add_edge is_dag s t w = Inr w') \<longleftrightarrow>
      s \<in> set (g_nodes w) \<and> t \<in> set (g_nodes w) \<and> (t, s) \<notin> (set (g_edges w))\<^sup>*"
    using graph_library.dag_insert [OF assms(1) gok(1) dag] dag by (auto simp: add_edge_def Let_def)
  moreover have "workflow_ok w' \<and> set (g_edges w') = insert (s, t) (set (g_edges w)) \<and> tasks w' = tasks w"
    if "add_edge is_dag s t w = Inr w'" for w'
    using add_edge_ok [OF assms that] that by (auto simp: add_edge_def Let_def split: if_splits)
  ultimately show ?thesis by (simp add: nodes)
qed

definition sample_chain :: workflow where
  "sample_chain = (empty_workflow ''w'')\<lparr>g_nodes := [''a'', ''b''], g_edges := [(''a'', ''b'')],
     tasks := [(''a'', new_task 0 ''w'' ''a'' ''A''), (''b'', new_task 0 ''w'' ''b'' ''B'')], remaining_task_num := 2\<rparr>"

lemma sample_chain_ok: "workflow_ok sample_chain"
proof -
  have "acyclic {(''a'', ''b'')}" by (rule wf_acyclic [OF wf_subset [OF wf_measure [of "\<lambda>x. if x = ''b'' then 1 else 0"]]]) simp
  then show ?thesis
    by (simp add: workflow_ok_def sample_chain_def empty_workflow_def dict_ok_def graph_ok_def dkeys_def)
qed

theorem edge_accepted_iff_witness:
  "add_edge kahn_dag ''b'' ''a'' sample_chain = Inl (ValueError ''The edge would make the workflow contain a cycle.'')"
proof -
  have "\<not> (\<exists>w'. add_edge kahn_dag ''b'' ''a'' sample_chain = Inr w')"
    using edge_accepted_iff [OF kahn.graph_library_axioms sample_chain_ok, of "''b''" "''a''"]
    by (auto simp: sample_chain_def)
  then show ?thesis by (auto simp: add_edge_def Let_def sample_chain_def split: if_splits)
qed

definition anc_of :: "workflow \<Rightarrow> string \<Rightarrow> nat" where
  "anc_of w n = (case map_of (attrs w) n of None \<Rightarrow> 0 | Some a \<Rightarrow> n_anc a)"

definition desc_of :: "workflow \<Rightarrow> string \<Rightarrow> nat" where
  "desc_of w n = (case map_of (attrs w) n of None \<Rightarrow> 0 | Some a \<Rightarrow> n_desc a)"

lemma split_unique:
  assumes "distinct xs" "xs = p @ v # q" "xs = p' @ v # q'"
  shows "p = p' \<and> q = q'"
proof -
  have "v \<notin> set p" "v \<notin> set q" using assms(1,2) by auto
  then show ?thesis using assms(2,3) by (metis append_Cons_eq_iff)
qed

lemma successors_later:
  assumes "graph_library is_dag topo" "graph_ok ns es" "acyclic (set es)"
    and "topo ns es = us @ v # vs" and "(v, s) \<in> set es"
  shows "s \<in> set vs"
proof -
  have xs: "distinct (topo ns es)" "set (topo ns es) = set ns"
    using graph_library.topo_nodes [OF assms(1-3)] by auto
  have "s \<in> set (topo ns es)" using assms(2,5) xs(2) by (auto simp: graph_ok_def)
  then obtain ps qs where s: "topo ns es = ps @ s # qs" by (meson split_list)
  have "v \<in> set ps" by (rule graph_library.topo_fold(1) [OF assms(1-3) s assms(5)])
  then obtain p q where "ps = p @ v # q" by (meson split_list)
  with s have "topo ns es = p @ v # (q @ s # qs)" by simp
  from split_unique [OF xs(1) assms(4) this] show ?thesis by simp
qed

lemma prepared_attrs:
  assumes "prepare_for_strategy topo ''HACS'' w = Inr w'" and "v \<in> set (g_nodes w)"
  shows "anc_of w' v = dgetd (depths (predecessors w) (topo (g_nodes w) (g_edges w))) v 0
    \<and> desc_of w' v = dgetd (depths (successors w) (rev (topo (g_nodes w) (g_edges w)))) v 0"
  using assms
  by (auto simp: prepare_for_strategy_def Let_def map_of_map_restrict anc_of_def desc_of_def split: if_splits)

text \<open>
  HACS preparation labels every node with its exact depth from both ends: \<open>n_anc\<close> is 0 for a node
  without predecessors and one more than its deepest predecessor otherwise, \<open>n_desc\<close> likewise over
  successors.
\<close>

theorem hacs_depths_exact:
  assumes "graph_library is_dag topo" and "workflow_ok w"
    and "prepare_for_strategy topo ''HACS'' w = Inr w'" and "n \<in> set (g_nodes w)"
  shows "anc_of w' n = (if predecessors w n = [] then 0 else Max (anc_of w' ` set (predecessors w n)) + 1)
    \<and> desc_of w' n = (if successors w n = [] then 0 else Max (desc_of w' ` set (successors w n)) + 1)"
proof -
  let ?xs = "topo (g_nodes w) (g_edges w)"
  have g: "graph_ok (g_nodes w) (g_edges w)" "acyclic (set (g_edges w))" using assms(2) by (auto simp: workflow_ok_def)
  note fold = graph_library.topo_fold [OF assms(1) g]
  have xs: "distinct ?xs" "set ?xs = set (g_nodes w)" using graph_library.topo_nodes [OF assms(1) g] by auto
  have "depth_eq (predecessors w) (\<lambda>v. dgetd (depths (predecessors w) ?xs) v 0) n"
    using fold(1) xs assms(4) by (intro depths_eq) (auto simp: preds_iff)
  moreover have "depth_eq (successors w) (\<lambda>v. dgetd (depths (successors w) (rev ?xs)) v 0) n"
  proof (intro depths_eq)
    fix us v vs assume "rev ?xs = us @ v # vs"
    then have "?xs = rev vs @ v # rev us" by (simp add: rev_eq_append_conv rev_swap)
    then show "set (successors w v) \<subseteq> set us"
      using successors_later [OF assms(1) g] by (fastforce simp: succs_iff)
  qed (use xs assms(4) in auto)
  moreover have "set (predecessors w n) \<subseteq> set (g_nodes w)" "set (successors w n) \<subseteq> set (g_nodes w)"
    using g(1) by (auto simp: graph_ok_def preds_iff succs_iff)
  moreover from this have "anc_of w' ` set (predecessors w n)
      = (\<lambda>v. dgetd (depths (predecessors w) ?xs) v 0) ` set (predecessors w n)"
      "desc_of w' ` set (successors w n)
      = (\<lambda>v. dgetd (depths (successors w) (rev ?xs)) v 0) ` set (successors w n)"
    using prepared_attrs [OF assms(3)] by (intro image_cong refl; blast)+
  ultimately show ?thesis using prepared_attrs [OF assms(3,4)] unfolding depth_eq_def by simp
qed

theorem hacs_depths_exact_witness:
  "\<exists>w'. prepare_for_strategy kahn_sort ''HACS'' sample_chain = Inr w' \<and> anc_of w' ''b'' = 1"
proof -
  have "\<exists>w'. prepare_for_strategy kahn_sort ''HACS'' sample_chain = Inr w'"
    by (simp add: prepare_for_strategy_def sample_chain_def task_type_def new_task_def kind_duration_def Let_def)
  then obtain w' where w': "prepare_for_strategy kahn_sort ''HACS'' sample_chain = Inr w'" by blast
  have n: "predecessors sample_chain ''a'' = []" "predecessors sample_chain ''b'' = [''a'']"
      "''a'' \<in> set (g_nodes sample_chain)" "''b'' \<in> set (g_nodes sample_chain)"
    by (simp_all add: sample_chain_def predecessors_def)
  note d = hacs_depths_exact [OF kahn.graph_library_axioms sample_chain_ok w']
  show ?thesis using d [OF n(3)] d [OF n(4)] n w' by simp
qed

text \<open>Finishing tasks one after another, as their results arrive; the tasks each finish releases.\<close>

fun finish_all :: "string \<Rightarrow> (time \<times> string) list \<Rightarrow> workflow \<Rightarrow> (workflow \<times> string list) result" where
  "finish_all strategy [] w = Inr (w, [])"
| "finish_all strategy ((now, t) # fs) w =
     rbind (finish_task now t strategy w) (\<lambda>(w1, r).
     rbind (finish_all strategy fs w1) (\<lambda>(w2, rs). Inr (w2, r @ rs)))"

lemma ready_iff:
  assumes "workflow_ok w" "finish_task now tid strategy w = Inr (w', ready)"
  shows "distinct ready"
    "s \<in> set ready \<longleftrightarrow> (tid, s) \<in> set (g_edges w) \<and> (\<forall>p. (p, s) \<in> set (g_edges w) \<longrightarrow> p = tid \<or> is_completed w p)"
proof -
  note f = finish_task_ok [OF assms]
  have "distinct (successors w' tid)" using f(1) by (intro succs_distinct) (simp add: workflow_ok_def)
  then show "distinct ready" unfolding finish_ready [OF assms(2)] by simp
  show "s \<in> set ready \<longleftrightarrow> (tid, s) \<in> set (g_edges w) \<and> (\<forall>p. (p, s) \<in> set (g_edges w) \<longrightarrow> p = tid \<or> is_completed w p)"
    unfolding finish_ready [OF assms(2)] using f(2,4) by (auto simp: succs_iff preds_iff list_all_iff)
qed

lemma finish_all_released:
  assumes "workflow_ok w" "finish_all strategy fs w = Inr (w', released)" "distinct (map snd fs)"
    and "\<forall>t \<in> snd ` set fs. \<not> is_completed w t"
  shows "distinct released \<and> (\<forall>s. s \<in> set released \<longleftrightarrow>
      (\<exists>p. (p, s) \<in> set (g_edges w) \<and> \<not> is_completed w p)
      \<and> (\<forall>p. (p, s) \<in> set (g_edges w) \<longrightarrow> is_completed w p \<or> p \<in> snd ` set fs))"
  using assms
proof (induction fs arbitrary: w released)
  case (Cons f fs)
  obtain now t where f: "f = (now, t)" by (cases f)
  with Cons.prems obtain w1 r rs where st: "finish_task now t strategy w = Inr (w1, r)"
      "finish_all strategy fs w1 = Inr (w', rs)" "released = r @ rs" by auto
  note ok = finish_task_ok [OF Cons.prems(1) st(1)] and r = ready_iff [OF Cons.prems(1) st(1)]
  have t: "\<not> is_completed w t" using Cons.prems(4) f by simp
  have "\<forall>u \<in> snd ` set fs. \<not> is_completed w1 u" using Cons.prems(3,4) ok(4) f by auto
  with Cons.IH [OF ok(1) st(2)] Cons.prems(3) f have rs: "distinct rs"
      "s \<in> set rs \<longleftrightarrow> (\<exists>p. (p, s) \<in> set (g_edges w) \<and> \<not> (p = t \<or> is_completed w p))
        \<and> (\<forall>p. (p, s) \<in> set (g_edges w) \<longrightarrow> (p = t \<or> is_completed w p) \<or> p \<in> snd ` set fs)" for s
    by (auto simp: ok(2,4))
  have "set r \<inter> set rs = {}" using r(2) rs(2) by blast
  moreover have "s \<in> set r \<or> s \<in> set rs \<longleftrightarrow>
      (\<exists>p. (p, s) \<in> set (g_edges w) \<and> \<not> is_completed w p)
      \<and> (\<forall>p. (p, s) \<in> set (g_edges w) \<longrightarrow> is_completed w p \<or> p \<in> snd ` set (f # fs))" for s
    unfolding r(2) rs(2) f using t by auto
  ultimately show ?case using r(1) rs(1) st(3) by simp
qed auto

text \<open>
  C25: Finishing the tasks of a fresh workflow in any order releases no task twice, and releases exactly
  the tasks with predecessors all of whose predecessors have finished: no task is queued early, none is
  forgotten, and together with the start tasks every task is queued once.
\<close>

theorem released_exactly_once:
  assumes "workflow_ok w" and "\<forall>t. \<not> is_completed w t"
    and "finish_all strategy fs w = Inr (w', released)" and "distinct (map snd fs)"
  shows "distinct (get_start_task w @ released)
    \<and> set released = {s \<in> set (g_nodes w). predecessors w s \<noteq> [] \<and> set (predecessors w s) \<subseteq> snd ` set fs}"
proof -
  have g: "graph_ok (g_nodes w) (g_edges w)" using assms(1) by (simp add: workflow_ok_def)
  note r = finish_all_released [OF assms(1,3,4)]
  have pre: "predecessors w s \<noteq> [] \<longleftrightarrow> (\<exists>p. (p, s) \<in> set (g_edges w))" for s
    using preds_iff [of _ w s] by (metis list.set_intros(1) neq_Nil_conv empty_iff list.set(1))
  have iff: "s \<in> set released \<longleftrightarrow> s \<in> set (g_nodes w) \<and> predecessors w s \<noteq> [] \<and> set (predecessors w s) \<subseteq> snd ` set fs" for s
    using r assms(2) g unfolding pre by (auto simp: graph_ok_def preds_iff subset_iff)
  moreover have "distinct (get_start_task w)" using g by (simp add: get_start_task_def graph_ok_def)
  ultimately show ?thesis using r assms(2) by (auto simp: get_start_task_def)
qed

theorem released_exactly_once_witness:
  "\<exists>w' r. finish_all ''FCFS'' [(1, ''a'')] sample_chain = Inr (w', r) \<and> set r = {''b''}"
proof -
  have "\<exists>w' r. finish_all ''FCFS'' [(1, ''a'')] sample_chain = Inr (w', r)"
    by (simp add: finish_task_def sample_chain_def new_task_def Let_def)
  then obtain w' r where f: "finish_all ''FCFS'' [(1, ''a'')] sample_chain = Inr (w', r)" by blast
  have c: "\<forall>t. \<not> is_completed sample_chain t" by (simp add: is_completed_def sample_chain_def new_task_def)
  have "set r = {s \<in> set (g_nodes sample_chain). predecessors sample_chain s \<noteq> []
      \<and> set (predecessors sample_chain s) \<subseteq> snd ` set [(1::time, ''a'')]}"
    using released_exactly_once [OF sample_chain_ok c f] by simp
  then have "set r = {''b''}" by (auto simp: sample_chain_def predecessors_def)
  with f show ?thesis by blast
qed

end
