(* ===== verification/Dag_Spec.thy ===== *)
theory Dag_Spec
  imports Workflow_Graph "HOL-Library.List_Lexorder" "HOL-Library.Char_ord"
begin

text \<open>
  DAG submit specifications: \<open>maze/core/workflow/dag_spec.py\<close>. A payload is a JSON value; normalising it
  gives the dictionary that is stored, compared with an earlier submission of the same workflow id,
  and built into a \<open>Workflow\<close>. networkx is the contract of the theory Workflow_Graph.
\<close>

abbreviation dag_err :: "string \<Rightarrow> pyerr" where
  "dag_err s \<equiv> DagSpecError s"

section \<open>Helpers\<close>

definition ensure_mapping :: "pyval \<Rightarrow> string \<Rightarrow> (string, pyval) dict result" where
  "ensure_mapping v label = (case v of VDict d \<Rightarrow> Inr d | _ \<Rightarrow> Inl (dag_err (label @ '' must be an object'')))"

definition optional_float :: "pyval \<Rightarrow> pyval result" where
  "optional_float v = (if v = VNone then Inr VNone else rbind (py_float v) (\<lambda>f. Inr (VFloat f)))"

definition optional_int :: "pyval \<Rightarrow> pyval result" where
  "optional_int v = (if v = VNone then Inr VNone else rbind (py_int v) (\<lambda>n. Inr (VInt (max 0 n))))"

definition optional_str_list :: "pyval \<Rightarrow> pyval result" where
  "optional_str_list v =
     (case v of VNone \<Rightarrow> Inr VNone
      | VList xs \<Rightarrow> Inr (VList (map (\<lambda>x. VStr (py_str x)) xs))
      | _ \<Rightarrow> Inl (dag_err ''retry_on must be a list''))"

definition optional_workflow_id :: "pyval \<Rightarrow> pyval result" where
  "optional_workflow_id v =
     (case v of VNone \<Rightarrow> Inr VNone
      | VStr s \<Rightarrow> if s = [] \<or> s \<noteq> py_strip s
                  then Inl (dag_err ''workflow_id must be a non-empty string without surrounding whitespace'')
                  else Inr (VStr s)
      | _ \<Rightarrow> Inl (dag_err ''workflow_id must be a non-empty string without surrounding whitespace''))"

definition split_endpoint :: "string \<Rightarrow> string \<Rightarrow> (string \<times> string) result" where
  "split_endpoint v label =
     (case split_on (CHR ''.'') v of
        [a, b] \<Rightarrow> if a \<noteq> [] \<and> b \<noteq> [] then Inr (a, b)
                  else Inl (dag_err (''edge '' @ label @ '' endpoint must use '' @ repr_str ''<node>.<port>'' @ '' syntax''))
      | _ \<Rightarrow> Inl (dag_err (''edge '' @ label @ '' endpoint must use '' @ repr_str ''<node>.<port>'' @ '' syntax'')))"

text \<open>\<open>[str(item) for item in v]\<close>: lists, strings and dictionaries can be iterated.\<close>

definition py_iter :: "pyval \<Rightarrow> pyval list result" where
  "py_iter v = (case v of VList xs \<Rightarrow> Inr xs | VStr s \<Rightarrow> Inr (map (\<lambda>c. VStr [c]) s)
                | VDict d \<Rightarrow> Inr (map VStr (dkeys d)) | _ \<Rightarrow> Inl (TypeError ''object is not iterable''))"

definition str_list :: "pyval \<Rightarrow> pyval result" where
  "str_list v = rbind (py_iter (vor v (VList []))) (\<lambda>xs. Inr (VList (map (\<lambda>x. VStr (py_str x)) xs)))"

definition dict_copy :: "pyval \<Rightarrow> (string, pyval) dict result" where
  "dict_copy v = py_dict (vor v (VDict []))"

text \<open>\<open>max(0.0, x)\<close>: Python keeps the first argument unless the second is greater.\<close>

fun max0 :: "pyfloat \<Rightarrow> pyfloat" where
  "max0 (Fin q) = Fin (if 0 < q then q else 0)"
| "max0 PosInf = PosInf"
| "max0 _ = Fin 0"

definition id_first :: "char \<Rightarrow> bool" where
  "id_first c = (let n = of_char c :: nat in (65 \<le> n \<and> n \<le> 90) \<or> (97 \<le> n \<and> n \<le> 122) \<or> n = 95)"

definition id_rest :: "char \<Rightarrow> bool" where
  "id_rest c = (id_first c \<or> is_digit c \<or> c = CHR ''-'')"

definition node_id_ok :: "string \<Rightarrow> bool" where
  "node_id_ok s = (case s of [] \<Rightarrow> False | c # cs \<Rightarrow> id_first c \<and> list_all id_rest cs \<and> length cs \<le> 127)"

definition is_lower_hex :: "char \<Rightarrow> bool" where
  "is_lower_hex c = (is_digit c \<or> (let n = of_char c :: nat in 97 \<le> n \<and> n \<le> 102))"

definition canonical_uuid :: "string \<Rightarrow> bool" where
  "canonical_uuid s =
     (map length (split_on (CHR ''-'') s) = [8, 4, 4, 4, 12]
      \<and> list_all (list_all is_lower_hex) (split_on (CHR ''-'') s))"

section \<open>Nodes\<close>

definition output_entry :: "string \<Rightarrow> string \<Rightarrow> pyval" where
  "output_entry name dt = VDict [(''name'', VStr name), (''data_type'', VStr dt)]"

definition parse_output :: "string \<Rightarrow> pyval \<Rightarrow> (string \<times> string) result" where
  "parse_output nid v =
     (case v of
        VStr s \<Rightarrow> Inr (s, ''any'')
      | VDict d \<Rightarrow> Inr (py_str (vor (vor (vget d ''name'') (vget d ''key'')) (VStr [])),
                       py_str (vor (vget d ''data_type'') (VStr ''any'')))
      | _ \<Rightarrow> Inl (dag_err (''node '' @ nid @ '' outputs entries must be strings or objects'')))"

fun normalize_output_list :: "string \<Rightarrow> string list \<Rightarrow> pyval list \<Rightarrow> pyval list result" where
  "normalize_output_list nid seen [] = Inr []"
| "normalize_output_list nid seen (v # vs) =
     rbind (parse_output nid v) (\<lambda>(name, dt).
     if name = [] then Inl (dag_err (''node '' @ nid @ '' has an output without name''))
     else if name \<in> set seen then Inl (dag_err (''node '' @ nid @ '' has duplicate output: '' @ name))
     else rbind (normalize_output_list nid (name # seen) vs) (\<lambda>os. Inr (output_entry name dt # os)))"

definition normalize_outputs :: "pyval \<Rightarrow> string \<Rightarrow> pyval list result" where
  "normalize_outputs outputs nid =
     (case outputs of VList (v # vs) \<Rightarrow> normalize_output_list nid [] (v # vs)
      | _ \<Rightarrow> Inl (dag_err (''node '' @ nid @ '' outputs must be a non-empty list'')))"

text \<open>\<open>_validate_run_input_refs\<close>: the number of references to run inputs in a value.\<close>

fun validate_run_input_refs :: "pyval \<Rightarrow> nat result" where
  "validate_run_input_refs (VDict d) =
     (if dhas ''__maze_run_input__'' d then
        (if set (dkeys d) = {''__maze_run_input__'', ''key''}
            \<and> vget d ''__maze_run_input__'' = VBool True
            \<and> is_str (vget d ''key'') \<and> truthy (vget d ''key'')
         then Inr 1 else Inl (dag_err ''malformed workflow run input reference''))
      else rbind (rmap (\<lambda>(k, v). validate_run_input_refs v) d) (\<lambda>ns. Inr (sum_list ns)))"
| "validate_run_input_refs (VList xs) = rbind (rmap validate_run_input_refs xs) (\<lambda>ns. Inr (sum_list ns))"
| "validate_run_input_refs _ = Inr 0"

definition input_entry :: "string \<Rightarrow> string \<Rightarrow> pyval \<Rightarrow> string \<Rightarrow> bool \<Rightarrow> pyval" where
  "input_entry key schema v dt has =
     VDict [(''key'', VStr key), (''input_schema'', VStr schema), (''value'', v),
            (''data_type'', VStr dt), (''has_value'', VBool has)]"

definition normalize_input :: "string \<Rightarrow> string \<Rightarrow> pyval \<Rightarrow> pyval result" where
  "normalize_input nid name v =
     (case v of
        VDict d \<Rightarrow>
          (if dhas ''from'' d \<or> dhas ''value'' d \<or> dhas ''data_type'' d then
             (let dt = py_str (vor (vget d ''data_type'') (VStr ''any'')); schema = vget d ''input_schema'' in
              if schema = VStr ''from_run'' then
                rbind (validate_run_input_refs (vget d ''value'')) (\<lambda>n.
                  if n = 0
                  then Inl (dag_err (''node '' @ nid @ '' input '' @ name @ '' has a malformed run input reference''))
                  else Inr (input_entry name ''from_run'' (vget d ''value'') dt False))
              else if schema = VStr ''from_task'' then
                Inr (input_entry name ''from_task''
                       (VStr (py_str (vor (vor (vget d ''value'') (vget d ''from'')) (VStr [])))) dt
                       (truthy (vgetd d ''has_value'' (VBool True))))
              else if schema = VStr ''from_user'' then
                Inr (input_entry name ''from_user'' (vget d ''value'') dt
                       (truthy (vgetd d ''has_value'' (VBool (dhas ''value'' d)))))
              else if dhas ''from'' d then
                Inr (input_entry name ''from_task'' (VStr (py_str (vget d ''from''))) dt True)
              else Inr (input_entry name ''from_user'' (vget d ''value'') dt (dhas ''value'' d)))
           else Inr (input_entry name ''from_user'' v ''any'' True))
      | _ \<Rightarrow> Inr (input_entry name ''from_user'' v ''any'' True))"

definition normalize_inputs :: "pyval \<Rightarrow> string \<Rightarrow> (string, pyval) dict result" where
  "normalize_inputs inputs nid =
     (case inputs of
        VDict d \<Rightarrow> rmap (\<lambda>(k, v). rbind (normalize_input nid k v) (\<lambda>e. Inr (k, e))) d
      | _ \<Rightarrow> Inl (dag_err (''node '' @ nid @ '' inputs must be an object'')))"

text \<open>\<open>_normalize_task_semantics\<close>: a resource error becomes a specification error of the node.\<close>

definition spec_error :: "string \<Rightarrow> pyerr \<Rightarrow> pyerr" where
  "spec_error nid e = (case e of ResourceSpecError s \<Rightarrow> dag_err (''node '' @ nid @ '': '' @ s) | _ \<Rightarrow> e)"

definition node_dict ::
    "string \<Rightarrow> string \<Rightarrow> (string, pyval) dict \<Rightarrow> pyval list \<Rightarrow> string \<Rightarrow> (string, pyval) dict
     \<Rightarrow> pyval \<Rightarrow> pyval \<Rightarrow> pyval \<Rightarrow> pyval \<Rightarrow> pyval \<Rightarrow> pyfloat \<Rightarrow> pyval \<Rightarrow> pyval \<Rightarrow> (string, pyval) dict
     \<Rightarrow> (string, pyval) dict" where
  "node_dict nid name inputs outputs kind res code_str code_ser file_context anchor retries backoff retry_on timeout meta =
     [(''id'', VStr nid), (''type'', VStr ''code''), (''task_name'', VStr name), (''inputs'', VDict inputs),
      (''outputs'', VList outputs), (''task_kind'', VStr kind), (''resources'', VDict res),
      (''code_str'', code_str), (''code_ser'', code_ser), (''file_context'', file_context),
      (''model_anchor'', anchor), (''max_retries'', retries), (''retry_backoff_seconds'', VFloat backoff),
      (''retry_on'', retry_on), (''timeout_seconds'', timeout), (''metadata'', VDict meta)]"

definition normalize_node :: "pyval \<Rightarrow> (string, pyval) dict result" where
  "normalize_node raw =
     rbind (ensure_mapping raw ''node'') (\<lambda>node.
     let nid = py_strip (py_str (vor (vget node ''id'') (VStr [])));
         ty = py_str (vor (vget node ''type'') (VStr ''code''));
         code_str = vgetd node ''code_str'' (vget node ''code'');
         code_ser = vget node ''code_ser''
     in
     guard_or (node_id_ok nid) (dag_err (''invalid node id '' @ repr_str nid))
     (guard_or (ty \<in> {''code'', ''python_task'', ''task''}) (dag_err (''unsupported node type for '' @ nid))
     (guard_or (truthy code_str \<or> truthy code_ser) (dag_err (''node '' @ nid @ '' requires code_str/code or code_ser''))
     (rbind (normalize_outputs (vget node ''outputs'') nid) (\<lambda>outputs.
      rbind (dict_copy (vget node ''model_anchor'')) (\<lambda>anchor_dict.
      let anchor = (if anchor_dict = [] then VNone else VDict anchor_dict) in
      rbind (map_err (spec_error nid)
              (normalize_task_semantics (vget node ''task_kind'') (vget node ''resources'') anchor)) (\<lambda>(kind, res).
      rbind (normalize_inputs (vor (vget node ''inputs'') (VDict [])) nid) (\<lambda>inputs.
      rbind (optional_int (vget node ''max_retries'')) (\<lambda>retries.
      rbind (py_float (vor (vget node ''retry_backoff_seconds'') (VInt 0))) (\<lambda>backoff.
      rbind (optional_str_list (vget node ''retry_on'')) (\<lambda>retry_on.
      rbind (optional_float (vget node ''timeout_seconds'')) (\<lambda>timeout.
      rbind (dict_copy (vget node ''metadata'')) (\<lambda>meta.
      Inr (node_dict nid
             (py_str (vor (vor (vget node ''task_name'') (vget node ''name'')) (VStr nid)))
             inputs outputs kind res code_str code_ser (vget node ''file_context'') anchor retries
             (max0 backoff) retry_on timeout meta))))))))))))))"

section \<open>Edges\<close>

definition node_outputs :: "(string, pyval) dict \<Rightarrow> string list" where
  "node_outputs node =
     (case vget node ''outputs'' of
        VList os \<Rightarrow> map (\<lambda>v. case v of VDict d \<Rightarrow> py_str (vget d ''name'') | _ \<Rightarrow> []) os
      | _ \<Rightarrow> [])"

record edge =
  source_task_id :: string
  source_output :: string
  target_task_id :: string
  target_input :: string

definition edge_val :: "edge \<Rightarrow> pyval" where
  "edge_val e = VDict [(''source_task_id'', VStr (source_task_id e)), (''source_output'', VStr (source_output e)),
                       (''target_task_id'', VStr (target_task_id e)), (''target_input'', VStr (target_input e))]"

type_synonym node_map = "(string, (string, pyval) dict) dict"

definition str_or :: "(string, pyval) dict \<Rightarrow> string \<Rightarrow> string \<Rightarrow> string" where
  "str_or d a b = py_str (vor (vor (vget d a) (vget d b)) (VStr []))"

definition normalize_edge :: "node_map \<Rightarrow> pyval \<Rightarrow> edge result" where
  "normalize_edge nodes raw =
     rbind (ensure_mapping raw ''edge'') (\<lambda>d.
     rbind (if dhas ''from'' d \<and> dhas ''to'' d then
              rbind (split_endpoint (py_str (vget d ''from'')) ''from'') (\<lambda>(s, so).
              rbind (split_endpoint (py_str (vget d ''to'')) ''to'') (\<lambda>(t, ti). Inr (s, so, t, ti)))
            else Inr (str_or d ''source'' ''source_task_id'', str_or d ''source_output'' ''output'',
                      str_or d ''target'' ''target_task_id'', str_or d ''target_input'' ''input''))
       (\<lambda>(s, so, t, ti).
        guard_or (dhas s nodes) (dag_err (''edge source references unknown node: '' @ s))
       (guard_or (dhas t nodes) (dag_err (''edge target references unknown node: '' @ t))
       (guard_or (so \<noteq> []) (dag_err (''edge from '' @ s @ '' is missing source output''))
       (guard_or (ti \<noteq> []) (dag_err (''edge to '' @ t @ '' is missing target input''))
       (guard_or (so \<in> set (node_outputs (the (map_of nodes s))))
          (dag_err (''edge references unknown output: '' @ s @ ''.'' @ so))
        (Inr \<lparr>source_task_id = s, source_output = so, target_task_id = t, target_input = ti\<rparr>)))))))"

definition edge_pairs :: "edge list \<Rightarrow> edges" where
  "edge_pairs es = dedup (map (\<lambda>e. (source_task_id e, target_task_id e)) es)"

definition validate_graph :: "dag_test \<Rightarrow> string list \<Rightarrow> edge list \<Rightarrow> unit result" where
  "validate_graph is_dag ids es =
     guard_or (is_dag ids (edge_pairs es)) (dag_err ''DAG spec contains a cycle'') (Inr ())"

section \<open>Run configuration and input contract\<close>

definition when_has :: "bool \<Rightarrow> string \<Rightarrow> pyval \<Rightarrow> (string, pyval) dict" where
  "when_has b k v = (if b then [(k, v)] else [])"

definition normalize_run :: "pyval \<Rightarrow> (string, pyval) dict result" where
  "normalize_run run0 =
     rbind (if truthy run0 then ensure_mapping run0 ''run'' else Inr []) (\<lambda>run.
     rbind (optional_float (vget run ''timeout_seconds'')) (\<lambda>timeout.
     rbind (str_list (vget run ''tags'')) (\<lambda>tags.
     rbind (dict_copy (vget run ''metadata'')) (\<lambda>meta.
     guard_or (dhas ''inputs'' run \<longrightarrow> vget run ''inputs'' = VNone \<or> is_dict (vget run ''inputs''))
       (dag_err ''run inputs must be an object'')
     (guard_or (dhas ''run_id'' run \<longrightarrow> (case vget run ''run_id'' of VStr s \<Rightarrow> canonical_uuid s | _ \<Rightarrow> False))
       (dag_err ''run_id must be a canonical UUID'')
     (guard_or (\<not> dhas ''idempotency_key'' run \<and> \<not> dhas ''idempotency_fingerprint'' run)
       (dag_err ''idempotency_key and idempotency_fingerprint were removed; use run_id'')
     (Inr ([(''workspace_dir'', vor (vget run ''workspace_dir'') (vget run ''workspace'')),
            (''artifact_mode'', VBool (truthy (vgetd run ''artifact_mode'' (VBool True)))),
            (''file_context'', vget run ''file_context''), (''timeout_seconds'', timeout), (''tags'', tags),
            (''metadata'', VDict meta)]
           @ when_has (dhas ''inputs'' run) ''inputs'' (vget run ''inputs'')
           @ when_has (dhas ''run_id'' run) ''run_id'' (vget run ''run_id''))))))))) "

definition stored_run_config :: "(string, pyval) dict \<Rightarrow> (string, pyval) dict" where
  "stored_run_config run = ddel ''run_id'' (ddel ''inputs'' run)"

definition strings_of :: "pyval \<Rightarrow> string list option" where
  "strings_of v =
     (case v of VList xs \<Rightarrow> if list_all is_str xs then Some (map py_str xs) else None | _ \<Rightarrow> None)"

definition runtime_entry_ok :: "pyval \<Rightarrow> bool" where
  "runtime_entry_ok v =
     (case v of
        VDict d \<Rightarrow>
          (case vget d ''required'' of
             VBool b \<Rightarrow> set (dkeys d) = (if b then {''required''} else {''required'', ''default''})
           | _ \<Rightarrow> False)
      | _ \<Rightarrow> False)"

definition normalize_input_contract :: "pyval \<Rightarrow> pyval result" where
  "normalize_input_contract v =
     (if v = VNone then Inr VNone
      else rbind (ensure_mapping v ''input_contract'') (\<lambda>c.
        (case strings_of (vget c ''constants'') of
           None \<Rightarrow> Inl (dag_err ''workflow input constants must be a list of names'')
         | Some cs \<Rightarrow>
            (case vget c ''runtime'' of
               VDict rt \<Rightarrow>
                 (if \<not> distinct cs then Inl (dag_err ''malformed workflow input contract'')
                  else if set cs \<inter> set (dkeys rt) \<noteq> {}
                    then Inl (dag_err ''workflow input cannot be both constant and runtime-bound'')
                  else if \<not> list_all (\<lambda>(k, x). runtime_entry_ok x) rt
                    then Inl (dag_err ''malformed workflow runtime input'')
                  else Inr (VDict [(''constants'', VList (map VStr (sort cs))), (''runtime'', VDict rt)]))
             | _ \<Rightarrow> Inl (dag_err ''malformed workflow input contract'')))))"

section \<open>The specification\<close>

record dag_spec =
  ds_schema :: pyval
  ds_workflow_id :: pyval
  ds_name :: string
  ds_description :: pyval
  ds_nodes :: "(string, pyval) dict list"
  ds_edges :: "edge list"
  ds_run :: "(string, pyval) dict"
  ds_tags :: pyval
  ds_metadata :: "(string, pyval) dict"
  ds_contract :: pyval
  ds_final_refs :: "pyval option"

definition node_id_of :: "(string, pyval) dict \<Rightarrow> string" where
  "node_id_of node = py_str (vget node ''id'')"

definition contract_field :: "pyval \<Rightarrow> (string, pyval) dict" where
  "contract_field c = when_has (c \<noteq> VNone) ''input_contract'' c"

definition refs_field :: "pyval option \<Rightarrow> (string, pyval) dict" where
  "refs_field r = (case r of None \<Rightarrow> [] | Some v \<Rightarrow> [(''final_output_refs'', v)])"

text \<open>The dictionary \<open>metadata["dag_spec"]\<close>: the specification without run inputs and run id.\<close>

definition stored_spec :: "pyval \<Rightarrow> dag_spec \<Rightarrow> (string, pyval) dict" where
  "stored_spec name s =
     [(''schema'', ds_schema s), (''workflow_id'', ds_workflow_id s), (''name'', name),
      (''description'', ds_description s), (''nodes'', VList (map VDict (ds_nodes s))),
      (''edges'', VList (map edge_val (ds_edges s))), (''run'', VDict (stored_run_config (ds_run s)))]
     @ contract_field (ds_contract s) @ refs_field (ds_final_refs s)"

text \<open>The dictionary returned by \<open>dag_spec_from_payload\<close>.\<close>

definition spec_payload :: "dag_spec \<Rightarrow> (string, pyval) dict" where
  "spec_payload s =
     [(''schema'', ds_schema s), (''workflow_id'', ds_workflow_id s), (''name'', VStr (ds_name s)),
      (''description'', ds_description s), (''nodes'', VList (map VDict (ds_nodes s))),
      (''edges'', VList (map edge_val (ds_edges s))), (''run'', VDict (ds_run s)), (''tags'', ds_tags s),
      (''metadata'', VDict (ds_metadata s))]
     @ contract_field (ds_contract s) @ refs_field (ds_final_refs s)"

definition as_list :: "pyval \<Rightarrow> string \<Rightarrow> pyval list result" where
  "as_list v msg = (case v of VList xs \<Rightarrow> Inr xs | _ \<Rightarrow> Inl (dag_err msg))"

definition dag_spec_from_payload :: "dag_test \<Rightarrow> pyval \<Rightarrow> dag_spec result" where
  "dag_spec_from_payload is_dag payload =
     rbind (ensure_mapping payload ''DAG spec'') (\<lambda>p.
     rbind (as_list (vget p ''nodes'') ''nodes must be a non-empty list'') (\<lambda>raw_nodes.
     guard_or (raw_nodes \<noteq> []) (dag_err ''nodes must be a non-empty list'')
     (rbind (as_list (vor (vget p ''edges'') (VList [])) ''edges must be a list'') (\<lambda>raw_edges.
      rbind (rmap normalize_node raw_nodes) (\<lambda>nodes.
      guard_or (distinct (map node_id_of nodes)) (dag_err ''duplicate node ids'')
      (rbind (rmap (normalize_edge (map (\<lambda>n. (node_id_of n, n)) nodes)) raw_edges) (\<lambda>es.
       rbind (validate_graph is_dag (map node_id_of nodes) es) (\<lambda>_.
       rbind (normalize_run (vor (vget p ''run'') (VDict []))) (\<lambda>run.
       rbind (normalize_input_contract (vget p ''input_contract'')) (\<lambda>contract.
       rbind (dict_copy (vget p ''metadata'')) (\<lambda>meta0.
       let name = vor (vget p ''name'') (VStr ''dag-workflow'');
           meta1 = dsetdefault ''run_kind'' (VStr ''dag'') (dsetdefault ''workflow_name'' name meta0) in
       rbind (optional_workflow_id (vget p ''workflow_id'')) (\<lambda>wid.
       rbind (str_list (vget p ''tags'')) (\<lambda>tags.
       let s = \<lparr>ds_schema = vor (vget p ''schema'') (VStr ''maze.workflow/v1''), ds_workflow_id = wid,
                ds_name = py_str name, ds_description = vget p ''description'', ds_nodes = nodes, ds_edges = es,
                ds_run = run, ds_tags = tags, ds_metadata = meta1, ds_contract = contract,
                ds_final_refs = (if dhas ''final_output_refs'' p then Some (vget p ''final_output_refs'') else None)\<rparr>
       in Inr (s\<lparr>ds_metadata := dput ''dag_spec'' (VDict (stored_spec name s)) meta1\<rparr>))))))))))))))"

text \<open>The immutable part a stable workflow id is compared by.\<close>

definition dag_definition_from_spec :: "dag_spec \<Rightarrow> (string, pyval) dict" where
  "dag_definition_from_spec s =
     [(''schema'', ds_schema s), (''nodes'', VList (map VDict (ds_nodes s))), (''edges'', VList (map edge_val (ds_edges s)))]
     @ contract_field (ds_contract s)"

definition dag_file_context :: "dag_spec \<Rightarrow> string option \<Rightarrow> bool \<Rightarrow> pyval result" where
  "dag_file_context s base_url artifact_mode =
     (let run = ds_run s; ws = vor (vget run ''workspace_dir'') (vget run ''workspace'') in
      if vget run ''file_context'' \<noteq> VNone then rbind (py_dict (vget run ''file_context'')) (\<lambda>d. Inr (VDict d))
      else if \<not> truthy ws then Inr VNone
      else Inr (VDict ([(''enabled'', VBool True), (''workspace_dir'', VStr (py_str ws))]
             @ (if artifact_mode \<and> base_url \<noteq> None \<and> base_url \<noteq> Some []
                then [(''artifact_store'', VDict [(''type'', VStr ''head_http''),
                        (''base_url'', VStr (rev (dropWhile (\<lambda>c. c = CHR ''/'') (rev (the base_url)))))])]
                else []))))"

section \<open>Building the workflow\<close>

text \<open>Task inputs: one dictionary of input entries per node, in node order; an edge fills or checks one.\<close>

definition node_inputs :: "(string, pyval) dict \<Rightarrow> (string, pyval) dict" where
  "node_inputs node = dict_or_empty (vget node ''inputs'')"

definition edge_ref :: "edge \<Rightarrow> string" where
  "edge_ref e = source_task_id e @ ''.output.'' @ source_output e"

definition apply_edge ::
    "(string, (string, pyval) dict) dict \<Rightarrow> edge \<Rightarrow> (string, (string, pyval) dict) dict result" where
  "apply_edge maps e =
     (let inputs = dgetd maps (target_task_id e) []; existing = dict_or_empty (vget inputs (target_input e));
          fresh = VDict [(''key'', VStr (target_input e)), (''input_schema'', VStr ''from_task''),
                    (''value'', VStr (edge_ref e)), (''data_type'', vgetd existing ''data_type'' (VStr ''any'')),
                    (''has_value'', VBool True)]
      in if existing \<noteq> [] \<and> vget existing ''input_schema'' = VStr ''from_user'' \<and> truthy (vget existing ''has_value'')
         then Inl (dag_err ''input has both a literal value and an edge'')
         else if existing \<noteq> [] \<and> vget existing ''input_schema'' = VStr ''from_task''
         then (if py_str (vor (vget existing ''value'') (VStr []))
                    \<in> {edge_ref e, source_task_id e @ ''.'' @ source_output e}
               then Inr (dput (target_task_id e)
                      (dput (target_input e)
                        (VDict (dput ''has_value'' (VBool True) (dput ''value'' (VStr (edge_ref e)) existing))) inputs) maps)
               else Inl (dag_err ''input has conflicting edge references''))
         else Inr (dput (target_task_id e) (dput (target_input e) fresh inputs) maps))"

fun numbered :: "nat \<Rightarrow> pyval list \<Rightarrow> (string, pyval) dict" where
  "numbered i [] = []"
| "numbered i (x # xs) = (show_nat i, x) # numbered (Suc i) xs"

definition input_params :: "(string, pyval) dict \<Rightarrow> pyval" where
  "input_params inputs = VDict [(''input_params'', VDict (numbered 1 (dvals inputs)))]"

definition build_task_inputs ::
    "(string, pyval) dict list \<Rightarrow> edge list \<Rightarrow> (string, (string, pyval) dict) dict result" where
  "build_task_inputs nodes es = rfold apply_edge (map (\<lambda>n. (node_id_of n, node_inputs n)) nodes) es"

definition output_param :: "pyval \<Rightarrow> pyval" where
  "output_param o' =
     (let d = dict_or_empty o' in VDict [(''key'', vget d ''name''), (''data_type'', vget d ''data_type'')])"

definition build_task_output :: "(string, pyval) dict \<Rightarrow> pyval" where
  "build_task_output node =
     VDict [(''output_params'',
       VDict (numbered 1 (map output_param (case vget node ''outputs'' of VList os \<Rightarrow> os | _ \<Rightarrow> []))))]"

definition build_task ::
    "time \<Rightarrow> string \<Rightarrow> (string, (string, pyval) dict) dict \<Rightarrow> (string, pyval) dict \<Rightarrow> code_task result" where
  "build_task now wid maps node =
     save_task (input_params (dgetd maps (node_id_of node) [])) (build_task_output node)
       (vget node ''code_str'') (vget node ''code_ser'') (vget node ''resources'') (vget node ''task_kind'')
       (vget node ''file_context'') (vget node ''model_anchor'') (vget node ''max_retries'')
       (vgetd node ''retry_backoff_seconds'' (VInt 0)) (vget node ''retry_on'') (vget node ''timeout_seconds'')
       (new_task now wid (node_id_of node) (py_str (vget node ''task_name'')))"

definition build_dag_workflow ::
    "dag_test \<Rightarrow> time \<Rightarrow> string \<Rightarrow> pyval \<Rightarrow> (workflow \<times> (string, pyval) dict) result" where
  "build_dag_workflow is_dag now wid payload =
     rbind (dag_spec_from_payload is_dag payload) (\<lambda>s.
     rbind (build_task_inputs (ds_nodes s) (ds_edges s)) (\<lambda>maps.
     rbind (rfold (\<lambda>w node. rbind (build_task now wid maps node) (\<lambda>t. add_task (node_id_of node) t w))
              (empty_workflow wid) (ds_nodes s)) (\<lambda>w.
     rbind (rfold (\<lambda>w e. add_edge is_dag (source_task_id e) (target_task_id e) w) w (ds_edges s)) (\<lambda>w'.
     Inr (w', dag_definition_from_spec s)))))"

section \<open>Normal forms are fixed points\<close>

lemma show_nat_nonempty [simp]: "show_nat n \<noteq> []"
  by (subst show_nat.simps) simp

lemma py_str_truthy: "truthy v \<Longrightarrow> py_str v \<noteq> []"
proof (cases v)
  case (VFloat f)
  then show ?thesis by (cases f) (auto simp: py_str_def show_fin_def Let_def)
qed (auto simp: py_str_def show_int_def)

lemma vor_default_nonempty: "truthy d \<Longrightarrow> py_str (vor v d) \<noteq> []"
  by (simp add: vor_def py_str_truthy)

lemma vor_VStr [simp]: "vor (VStr s) d = (if s = [] then d else VStr s)"
  by (simp add: vor_def)

lemma vor_VNone [simp]: "vor VNone d = d"
  by (simp add: vor_def)

lemma vor_self_empty [simp]: "vor v (VStr []) = VStr s \<Longrightarrow> vor (VStr s) (VStr []) = VStr s"
  by simp

lemma parse_output_fixed:
  assumes "parse_output nid v = Inr (name, dt)" "name \<noteq> []"
  shows "parse_output nid' (output_entry name dt) = Inr (name, dt)"
proof -
  have "dt \<noteq> []"
    using assms(1) by (cases v) (auto simp: parse_output_def vor_default_nonempty)
  with assms(2) show ?thesis by (simp add: parse_output_def output_entry_def)
qed

lemma output_list_fixed:
  "normalize_output_list nid seen vs = Inr os \<Longrightarrow> normalize_output_list nid seen os = Inr os"
proof (induction vs arbitrary: seen os)
  case (Cons v vs)
  then obtain name dt os' where v: "parse_output nid v = Inr (name, dt)" "name \<noteq> []" "name \<notin> set seen"
      "normalize_output_list nid (name # seen) vs = Inr os'" "os = output_entry name dt # os'"
    by (auto split: if_splits)
  with Cons.IH [OF v(4)] parse_output_fixed [OF v(1,2)] show ?case by simp
qed simp

lemma outputs_fixed:
  assumes "normalize_outputs v nid = Inr os"
  shows "normalize_outputs (VList os) nid = Inr os \<and> os \<noteq> []"
proof -
  from assms obtain x xs where v: "v = VList (x # xs)" "normalize_output_list nid [] (x # xs) = Inr os"
    by (auto simp: normalize_outputs_def split: pyval.splits list.splits)
  then have "os \<noteq> []" by (auto split: if_splits)
  with output_list_fixed [OF v(2)] show ?thesis
    by (cases os) (auto simp: normalize_outputs_def)
qed

text \<open>The names of normalised outputs are distinct and non-empty.\<close>

lemma output_list_names:
  "normalize_output_list nid seen vs = Inr os \<Longrightarrow>
   distinct (map (\<lambda>v. case v of VDict d \<Rightarrow> py_str (vget d ''name'') | _ \<Rightarrow> []) os)
   \<and> (\<forall>n \<in> set (map (\<lambda>v. case v of VDict d \<Rightarrow> py_str (vget d ''name'') | _ \<Rightarrow> []) os). n \<noteq> [] \<and> n \<notin> set seen)"
proof (induction vs arbitrary: seen os)
  case (Cons v vs)
  then obtain name dt os' where v: "name \<noteq> []" "name \<notin> set seen"
      "normalize_output_list nid (name # seen) vs = Inr os'" "os = output_entry name dt # os'"
    by (auto split: if_splits)
  with Cons.IH [OF v(3)] show ?case by (auto simp: output_entry_def)
qed simp

lemma input_entry_fixed:
  assumes "dt \<noteq> []" "schema \<in> {''from_task'', ''from_user''}" "schema = ''from_task'' \<longrightarrow> is_str v"
  shows "normalize_input nid k (input_entry k schema v dt has) = Inr (input_entry k schema v dt has)"
  using assms by (auto simp: normalize_input_def input_entry_def is_str_def split: pyval.splits)

lemma run_entry_fixed:
  assumes "dt \<noteq> []" "validate_run_input_refs v = Inr n" "n \<noteq> 0"
  shows "normalize_input nid k (input_entry k ''from_run'' v dt False) = Inr (input_entry k ''from_run'' v dt False)"
  using assms by (simp add: normalize_input_def input_entry_def)

lemma normalize_input_shape:
  assumes "normalize_input nid k v = Inr e"
  obtains schema w dt has where "e = input_entry k schema w dt has" "dt \<noteq> []"
    "schema \<in> {''from_task'', ''from_user''} \<and> (schema = ''from_task'' \<longrightarrow> is_str w)
     \<or> schema = ''from_run'' \<and> \<not> has \<and> (\<exists>n. validate_run_input_refs w = Inr n \<and> n \<noteq> 0)"
proof (cases "\<exists>d. v = VDict d \<and> (dhas ''from'' d \<or> dhas ''value'' d \<or> dhas ''data_type'' d)")
  case True
  then obtain d where d: "v = VDict d" "dhas ''from'' d \<or> dhas ''value'' d \<or> dhas ''data_type'' d" by blast
  have dt: "py_str (vor (vget d ''data_type'') (VStr ''any'')) \<noteq> []" by (simp add: vor_default_nonempty)
  consider (run) "vget d ''input_schema'' = VStr ''from_run''" | (task) "vget d ''input_schema'' = VStr ''from_task''"
    | (user) "vget d ''input_schema'' = VStr ''from_user''"
    | (other) "vget d ''input_schema'' \<notin> {VStr ''from_run'', VStr ''from_task'', VStr ''from_user''}" by blast
  then show ?thesis
  proof cases
    case run
    with assms d dt show ?thesis by (intro that) (auto simp: normalize_input_def Let_def split: if_splits)
  next
    case task
    with assms d dt show ?thesis by (intro that) (auto simp: normalize_input_def Let_def is_str_def)
  next
    case user
    with assms d dt show ?thesis by (intro that) (auto simp: normalize_input_def Let_def is_str_def)
  next
    case other
    show ?thesis
    proof (cases "dhas ''from'' d")
      case True
      with other assms d dt show ?thesis by (intro that) (auto simp: normalize_input_def Let_def is_str_def)
    next
      case False
      with other assms d dt show ?thesis by (intro that) (auto simp: normalize_input_def Let_def is_str_def)
    qed
  qed
next
  case False
  then have "e = input_entry k ''from_user'' v ''any'' True"
    using assms by (cases v) (auto simp: normalize_input_def)
  then show ?thesis by (intro that) auto
qed

lemma normalize_input_fixed:
  assumes "normalize_input nid k v = Inr e"
  shows "normalize_input nid k e = Inr e"
proof (rule normalize_input_shape [OF assms])
  fix schema w dt has
  assume e: "e = input_entry k schema w dt has" and dt: "dt \<noteq> []"
    and c: "schema \<in> {''from_task'', ''from_user''} \<and> (schema = ''from_task'' \<longrightarrow> is_str w)
     \<or> schema = ''from_run'' \<and> \<not> has \<and> (\<exists>n. validate_run_input_refs w = Inr n \<and> n \<noteq> 0)"
  from c show ?thesis
  proof
    assume "schema \<in> {''from_task'', ''from_user''} \<and> (schema = ''from_task'' \<longrightarrow> is_str w)"
    then show ?thesis unfolding e by (intro input_entry_fixed [OF dt]) simp_all
  next
    assume "schema = ''from_run'' \<and> \<not> has \<and> (\<exists>n. validate_run_input_refs w = Inr n \<and> n \<noteq> 0)"
    then obtain n where "schema = ''from_run''" "has = False" "validate_run_input_refs w = Inr n" "n \<noteq> 0" by auto
    then show ?thesis unfolding e using run_entry_fixed [OF dt] by simp
  qed
qed

lemma inputs_fixed: "normalize_inputs v nid = Inr d \<Longrightarrow> normalize_inputs (vor (VDict d) (VDict [])) nid = Inr d"
proof -
  assume n: "normalize_inputs v nid = Inr d"
  then obtain d0 where d0: "rmap (\<lambda>(k, v). rbind (normalize_input nid k v) (\<lambda>e. Inr (k, e))) d0 = Inr d"
    by (auto simp: normalize_inputs_def split: pyval.splits)
  have "rmap (\<lambda>(k, v). rbind (normalize_input nid k v) (\<lambda>e. Inr (k, e))) d = Inr d"
  proof (rule rmap_map_idem)
    fix x assume "x \<in> set d"
    then obtain y where "y \<in> set d0" "(\<lambda>(k, v). rbind (normalize_input nid k v) (\<lambda>e. Inr (k, e))) y = Inr x"
      using rmap_in [OF d0] by blast
    then obtain k v' e where "x = (k, e)" "normalize_input nid k v' = Inr e" by (auto split: prod.splits)
    then show "(\<lambda>(k, v). rbind (normalize_input nid k v) (\<lambda>e. Inr (k, e))) x = Inr x"
      using normalize_input_fixed by auto
  qed
  then show ?thesis by (cases d) (auto simp: normalize_inputs_def vor_def)
qed

lemma optional_int_fixed: "optional_int v = Inr w \<Longrightarrow> optional_int w = Inr w"
  by (auto simp: optional_int_def split: if_splits)

lemma py_float_fixed: "py_float v = Inr f \<Longrightarrow> py_float (VFloat f) = Inr f"
  by (cases f) (auto dest!: py_float_range simp: clip_float_def)

lemma optional_float_fixed: "optional_float v = Inr w \<Longrightarrow> optional_float w = Inr w"
  by (auto simp: optional_float_def dest: py_float_fixed split: if_splits)

lemma backoff_fixed:
  assumes "py_float v = Inr f"
  shows "rbind (py_float (vor (VFloat (max0 f)) (VInt 0))) (\<lambda>g. Inr (max0 g)) = Inr (max0 f)"
proof (cases f)
  case (Fin q)
  with assms have "- of_int dbl < q" "q < of_int dbl" using py_float_range by blast+
  with Fin show ?thesis by (auto simp: vor_def clip_float_def)
qed (auto simp: vor_def)

lemma optional_str_list_fixed: "optional_str_list v = Inr w \<Longrightarrow> optional_str_list w = Inr w"
  by (cases v) (auto simp: optional_str_list_def)

lemma dict_copy_fixed: "dict_copy v = Inr d \<Longrightarrow> dict_copy (VDict d) = Inr d"
  by (simp add: dict_copy_def vor_def)

lemma anchor_fixed:
  "dict_copy v = Inr d \<Longrightarrow> dict_copy (if d = [] then VNone else VDict d) = Inr d"
  by (simp add: dict_copy_def vor_def)

lemma node_id_strip: "node_id_ok s \<Longrightarrow> py_strip s = s"
proof (rule strip_no_space)
  assume ok: "node_id_ok s"
  have "id_rest c \<Longrightarrow> \<not> is_space c" for c
    by (auto simp: id_rest_def id_first_def is_digit_def is_space_def Let_def)
  moreover have "\<forall>c \<in> set s. id_rest c"
    using ok by (cases s) (auto simp: node_id_ok_def list_all_iff id_rest_def)
  ultimately show "\<forall>c \<in> set s. \<not> is_space c" by blast
qed

lemma node_id_nonempty: "node_id_ok s \<Longrightarrow> s \<noteq> []"
  by (auto simp: node_id_ok_def)

text \<open>What a successful node normalisation went through.\<close>

lemma normalize_node_cases:
  assumes "normalize_node raw = Inr n"
  obtains node nid name inputs outputs kind res code_str code_ser fc ad retries f retry_on timeout meta where
    "raw = VDict node" "node_id_ok nid" "name \<noteq> []" "truthy code_str \<or> truthy code_ser"
    "normalize_outputs (vget node ''outputs'') nid = Inr outputs"
    "dict_copy (vget node ''model_anchor'') = Inr ad"
    "normalize_task_semantics (vget node ''task_kind'') (vget node ''resources'')
       (if ad = [] then VNone else VDict ad) = Inr (kind, res)"
    "normalize_inputs (vor (vget node ''inputs'') (VDict [])) nid = Inr inputs"
    "optional_int (vget node ''max_retries'') = Inr retries"
    "py_float (vor (vget node ''retry_backoff_seconds'') (VInt 0)) = Inr f"
    "optional_str_list (vget node ''retry_on'') = Inr retry_on"
    "optional_float (vget node ''timeout_seconds'') = Inr timeout"
    "dict_copy (vget node ''metadata'') = Inr meta"
    "n = node_dict nid name inputs outputs kind res code_str code_ser fc
           (if ad = [] then VNone else VDict ad) retries (max0 f) retry_on timeout meta"
proof -
  from assms obtain node where node: "raw = VDict node"
    by (cases raw) (auto simp: normalize_node_def ensure_mapping_def)
  let ?nid = "py_strip (py_str (vor (vget node ''id'') (VStr [])))"
  have id: "node_id_ok ?nid" using assms by (auto simp: node normalize_node_def ensure_mapping_def Let_def)
  have "py_str (vor (vor (vget node ''task_name'') (vget node ''name'')) (VStr ?nid)) \<noteq> []"
    using node_id_nonempty [OF id] by (simp add: vor_default_nonempty)
  with assms id show ?thesis
    by (auto simp: node normalize_node_def ensure_mapping_def Let_def simp del: insert_iff
        intro!: that [where node = node and nid = ?nid and code_str = "vgetd node ''code_str'' (vget node ''code'')"
          and code_ser = "vget node ''code_ser''" and fc = "vget node ''file_context''"])
qed

lemma node_dict_get:
  fixes nid name inputs outputs kind res code_str code_ser fc anchor retries backoff retry_on timeout meta
  defines "n \<equiv> node_dict nid name inputs outputs kind res code_str code_ser fc anchor retries backoff retry_on timeout meta"
  shows "vget n ''id'' = VStr nid" "vget n ''type'' = VStr ''code''" "vget n ''task_name'' = VStr name"
    "vget n ''inputs'' = VDict inputs" "vget n ''outputs'' = VList outputs" "vget n ''task_kind'' = VStr kind"
    "vget n ''resources'' = VDict res" "vgetd n ''code_str'' x = code_str" "vget n ''code_str'' = code_str"
    "vget n ''code_ser'' = code_ser"
    "vget n ''file_context'' = fc" "vget n ''model_anchor'' = anchor" "vget n ''max_retries'' = retries"
    "vget n ''retry_backoff_seconds'' = VFloat backoff" "vget n ''retry_on'' = retry_on"
    "vget n ''timeout_seconds'' = timeout" "vget n ''metadata'' = VDict meta"
    "vgetd n ''retry_backoff_seconds'' x = VFloat backoff"
  by (simp_all add: n_def node_dict_def)

lemma normalize_node_fixed:
  assumes "normalize_node raw = Inr n"
  shows "normalize_node (VDict n) = Inr n"
proof (rule normalize_node_cases [OF assms])
  fix node nid name inputs outputs kind res code_str code_ser fc ad retries f retry_on timeout meta
  let ?anchor = "if ad = [] then VNone else VDict ad"
  assume a: "raw = VDict node" "node_id_ok nid" "name \<noteq> []" "truthy code_str \<or> truthy code_ser"
    "normalize_outputs (vget node ''outputs'') nid = Inr outputs"
    "dict_copy (vget node ''model_anchor'') = Inr ad"
    "normalize_task_semantics (vget node ''task_kind'') (vget node ''resources'') ?anchor = Inr (kind, res)"
    "normalize_inputs (vor (vget node ''inputs'') (VDict [])) nid = Inr inputs"
    "optional_int (vget node ''max_retries'') = Inr retries"
    "py_float (vor (vget node ''retry_backoff_seconds'') (VInt 0)) = Inr f"
    "optional_str_list (vget node ''retry_on'') = Inr retry_on"
    "optional_float (vget node ''timeout_seconds'') = Inr timeout"
    "dict_copy (vget node ''metadata'') = Inr meta"
    "n = node_dict nid name inputs outputs kind res code_str code_ser fc ?anchor retries (max0 f) retry_on timeout meta"
  have id: "py_strip nid = nid" "nid \<noteq> []" using a(2) by (simp_all add: node_id_strip node_id_nonempty)
  obtain g where g: "py_float (vor (VFloat (max0 f)) (VInt 0)) = Inr g" "max0 g = max0 f"
    using backoff_fixed [OF a(10)] by auto
  have sem: "map_err (spec_error nid) (normalize_task_semantics (VStr kind) (VDict res) ?anchor) = Inr (kind, res)"
    using task_semantics_fixed_point_aux [OF a(7)] by simp
  show ?thesis
    unfolding a(14) normalize_node_def ensure_mapping_def pyval.case rbind.simps Let_def node_dict_get
    using id a(2,3,4) outputs_fixed [OF a(5)] anchor_fixed [OF a(6)] sem inputs_fixed [OF a(8)] optional_int_fixed [OF a(9)]
      g optional_str_list_fixed [OF a(11)] optional_float_fixed [OF a(12)] dict_copy_fixed [OF a(13)]
    by (simp add: guard_or_def)
qed

lemma normalize_edge_cases:
  assumes "normalize_edge nodes raw = Inr e"
  shows "dhas (source_task_id e) nodes" "dhas (target_task_id e) nodes" "source_output e \<noteq> []" "target_input e \<noteq> []"
    "source_output e \<in> set (node_outputs (the (map_of nodes (source_task_id e))))"
  using assms by (auto simp: normalize_edge_def simp del: insert_iff split: if_splits)

lemma normalize_edge_fixed:
  assumes "normalize_edge nodes raw = Inr e"
  shows "normalize_edge nodes (edge_val e) = Inr e"
  using normalize_edge_cases [OF assms]
  by (auto simp: normalize_edge_def ensure_mapping_def edge_val_def str_or_def guard_or_def)

lemma str_list_fixed: "str_list v = Inr w \<Longrightarrow> str_list w = Inr w"
  by (auto simp: str_list_def vor_def py_iter_def)

lemma normalize_run_again:
  assumes "normalize_run r = Inr run"
  shows "\<exists>run'. normalize_run (vor (VDict run) (VDict [])) = Inr run'"
proof -
  from assms obtain d timeout tags meta where d: "optional_float (vget d ''timeout_seconds'') = Inr timeout"
      "str_list (vget d ''tags'') = Inr tags" "dict_copy (vget d ''metadata'') = Inr meta"
      "dhas ''inputs'' d \<longrightarrow> vget d ''inputs'' = VNone \<or> is_dict (vget d ''inputs'')"
      "dhas ''run_id'' d \<longrightarrow> (case vget d ''run_id'' of VStr s \<Rightarrow> canonical_uuid s | _ \<Rightarrow> False)"
      "run = [(''workspace_dir'', vor (vget d ''workspace_dir'') (vget d ''workspace'')),
            (''artifact_mode'', VBool (truthy (vgetd d ''artifact_mode'' (VBool True)))),
            (''file_context'', vget d ''file_context''), (''timeout_seconds'', timeout), (''tags'', tags),
            (''metadata'', VDict meta)]
           @ when_has (dhas ''inputs'' d) ''inputs'' (vget d ''inputs'')
           @ when_has (dhas ''run_id'' d) ''run_id'' (vget d ''run_id'')"
    by (auto simp: normalize_run_def)
  have t: "truthy (VDict run)" using d(6) by simp
  have g: "vget run ''timeout_seconds'' = timeout" "vget run ''tags'' = tags" "vget run ''metadata'' = VDict meta"
    "dhas ''inputs'' run = dhas ''inputs'' d" "dhas ''run_id'' run = dhas ''run_id'' d"
    "dhas ''inputs'' d \<longrightarrow> vget run ''inputs'' = vget d ''inputs''"
    "dhas ''run_id'' d \<longrightarrow> vget run ''run_id'' = vget d ''run_id''"
    "\<not> dhas ''idempotency_key'' run" "\<not> dhas ''idempotency_fingerprint'' run"
    unfolding d(6) when_has_def by (simp_all split: if_splits)
  show ?thesis
    using t d(4,5) g optional_float_fixed [OF d(1)] str_list_fixed [OF d(2)] dict_copy_fixed [OF d(3)]
    by (simp add: normalize_run_def vor_true ensure_mapping_def guard_or_def)
qed

lemma strings_of_VStr [simp]: "strings_of (VList (map VStr cs)) = Some cs"
  by (simp add: strings_of_def list_all_iff is_str_def comp_def)

lemma contract_cases:
  assumes "normalize_input_contract v = Inr c" "v \<noteq> VNone"
  obtains cs rt where "distinct cs" "set cs \<inter> set (dkeys rt) = {}" "list_all (\<lambda>(k, x). runtime_entry_ok x) rt"
    "c = VDict [(''constants'', VList (map VStr (sort cs))), (''runtime'', VDict rt)]"
proof -
  from assms obtain d where d: "v = VDict d"
    by (cases v) (auto simp: normalize_input_contract_def ensure_mapping_def)
  with assms obtain cs where cs: "strings_of (vget d ''constants'') = Some cs"
    by (cases "strings_of (vget d ''constants'')") (auto simp: normalize_input_contract_def ensure_mapping_def)
  with d assms obtain rt where rt: "vget d ''runtime'' = VDict rt"
    by (cases "vget d ''runtime''") (auto simp: normalize_input_contract_def ensure_mapping_def)
  show ?thesis
    using assms(1) by (intro that [of cs rt])
      (auto simp: d cs rt normalize_input_contract_def ensure_mapping_def split: if_splits)
qed

lemma contract_again:
  assumes "normalize_input_contract v = Inr c"
  shows "normalize_input_contract c = Inr c"
proof (cases "v = VNone")
  case False
  show ?thesis
    by (rule contract_cases [OF assms False])
      (simp add: normalize_input_contract_def ensure_mapping_def sorted_sort_id)
qed (use assms in \<open>simp add: normalize_input_contract_def\<close>)

lemma workflow_id_again: "optional_workflow_id v = Inr w \<Longrightarrow> optional_workflow_id w = Inr w"
  by (auto simp: optional_workflow_id_def split: pyval.splits if_splits)

text \<open>What a successful submission went through.\<close>

lemma spec_cases:
  assumes "dag_spec_from_payload is_dag payload = Inr s"
  obtains p raw_nodes raw_edges run0 where
    "payload = VDict p" "raw_nodes \<noteq> []" "rmap normalize_node raw_nodes = Inr (ds_nodes s)"
    "distinct (map node_id_of (ds_nodes s))"
    "rmap (normalize_edge (map (\<lambda>n. (node_id_of n, n)) (ds_nodes s))) raw_edges = Inr (ds_edges s)"
    "validate_graph is_dag (map node_id_of (ds_nodes s)) (ds_edges s) = Inr ()"
    "normalize_run run0 = Inr (ds_run s)" "normalize_input_contract (vget p ''input_contract'') = Inr (ds_contract s)"
    "optional_workflow_id (vget p ''workflow_id'') = Inr (ds_workflow_id s)" "str_list (vget p ''tags'') = Inr (ds_tags s)"
    "ds_schema s = vor (vget p ''schema'') (VStr ''maze.workflow/v1'')"
    "ds_name s = py_str (vor (vget p ''name'') (VStr ''dag-workflow''))"
proof -
  from assms obtain p where p: "payload = VDict p"
    by (cases payload) (auto simp: dag_spec_from_payload_def ensure_mapping_def)
  show ?thesis
    using assms unfolding p dag_spec_from_payload_def ensure_mapping_def pyval.case rbind.simps Let_def
    by (auto intro: that [OF p])
qed

lemma spec_payload_get:
  "vget (spec_payload s) ''schema'' = ds_schema s" "vget (spec_payload s) ''workflow_id'' = ds_workflow_id s"
  "vget (spec_payload s) ''name'' = VStr (ds_name s)" "vget (spec_payload s) ''nodes'' = VList (map VDict (ds_nodes s))"
  "vget (spec_payload s) ''edges'' = VList (map edge_val (ds_edges s))" "vget (spec_payload s) ''run'' = VDict (ds_run s)"
  "vget (spec_payload s) ''tags'' = ds_tags s" "vget (spec_payload s) ''metadata'' = VDict (ds_metadata s)"
  "vget (spec_payload s) ''input_contract'' = ds_contract s"
  by (auto simp: spec_payload_def contract_field_def when_has_def refs_field_def split: option.splits)

lemma rmap_map_val: "rmap f (map g xs) = rmap (\<lambda>x. f (g x)) xs"
  by (induction xs) auto

lemma nodes_again: "rmap normalize_node raws = Inr ns \<Longrightarrow> rmap normalize_node (map VDict ns) = Inr ns"
  unfolding rmap_map_val by (rule rmap_map_idem) (auto dest!: rmap_in intro: normalize_node_fixed)

lemma edges_again: "rmap (normalize_edge m) raws = Inr es \<Longrightarrow> rmap (normalize_edge m) (map edge_val es) = Inr es"
  unfolding rmap_map_val by (rule rmap_map_idem) (auto dest!: rmap_in intro: normalize_edge_fixed)

text \<open>Submitting a normalised specification again is accepted and defines the same graph.\<close>

lemma spec_again:
  assumes "dag_spec_from_payload is_dag payload = Inr s"
  shows "\<exists>s'. dag_spec_from_payload is_dag (VDict (spec_payload s)) = Inr s'
     \<and> ds_schema s' = ds_schema s \<and> ds_nodes s' = ds_nodes s \<and> ds_edges s' = ds_edges s
     \<and> ds_contract s' = ds_contract s \<and> ds_workflow_id s' = ds_workflow_id s \<and> ds_name s' = ds_name s"
proof (rule spec_cases [OF assms])
  fix p raw_nodes raw_edges run0
  assume a: "payload = VDict p" "raw_nodes \<noteq> []" "rmap normalize_node raw_nodes = Inr (ds_nodes s)"
    "distinct (map node_id_of (ds_nodes s))"
    "rmap (normalize_edge (map (\<lambda>n. (node_id_of n, n)) (ds_nodes s))) raw_edges = Inr (ds_edges s)"
    "validate_graph is_dag (map node_id_of (ds_nodes s)) (ds_edges s) = Inr ()"
    "normalize_run run0 = Inr (ds_run s)" "normalize_input_contract (vget p ''input_contract'') = Inr (ds_contract s)"
    "optional_workflow_id (vget p ''workflow_id'') = Inr (ds_workflow_id s)" "str_list (vget p ''tags'') = Inr (ds_tags s)"
    "ds_schema s = vor (vget p ''schema'') (VStr ''maze.workflow/v1'')"
    "ds_name s = py_str (vor (vget p ''name'') (VStr ''dag-workflow''))"
  have ne: "ds_nodes s \<noteq> []" using rmap_length [OF a(3)] a(2) by auto
  have name: "ds_name s \<noteq> []" unfolding a(12) by (simp add: vor_default_nonempty)
  have schema: "vor (ds_schema s) x = ds_schema s" for x
    unfolding a(11) by (auto simp: vor_def)
  have edges: "vor (VList (map edge_val (ds_edges s))) (VList []) = VList (map edge_val (ds_edges s))"
    by (auto simp: vor_def)
  obtain run' where run': "normalize_run (vor (VDict (ds_run s)) (VDict [])) = Inr run'"
    using normalize_run_again [OF a(7)] by blast
  have meta: "dict_copy (VDict d) = Inr d" for d by (simp add: dict_copy_def vor_def)
  show ?thesis
    unfolding dag_spec_from_payload_def ensure_mapping_def pyval.case rbind.simps spec_payload_get as_list_def edges
      nodes_again [OF a(3)] edges_again [OF a(5)] run' meta contract_again [OF a(8)] workflow_id_again [OF a(9)]
      str_list_fixed [OF a(10)] a(6)
    using ne a(4) name by (simp add: Let_def guard_or_def schema)
qed

text \<open>A validated specification's graph.\<close>

lemma spec_graph:
  assumes "graph_library is_dag topo" and "dag_spec_from_payload is_dag payload = Inr s"
  shows "graph_ok (map node_id_of (ds_nodes s)) (edge_pairs (ds_edges s))" "acyclic (set (edge_pairs (ds_edges s)))"
proof (rule_tac [!] spec_cases [OF assms(2)])
  fix p raw_nodes raw_edges run0
  assume a: "distinct (map node_id_of (ds_nodes s))"
    "rmap (normalize_edge (map (\<lambda>n. (node_id_of n, n)) (ds_nodes s))) raw_edges = Inr (ds_edges s)"
    "validate_graph is_dag (map node_id_of (ds_nodes s)) (ds_edges s) = Inr ()"
  have "source_task_id e \<in> node_id_of ` set (ds_nodes s) \<and> target_task_id e \<in> node_id_of ` set (ds_nodes s)"
    if "e \<in> set (ds_edges s)" for e
    using rmap_in [OF a(2) that] normalize_edge_cases(1,2) by (fastforce simp: dhas_def)
  then show ok: "graph_ok (map node_id_of (ds_nodes s)) (edge_pairs (ds_edges s))"
    using a(1) by (auto simp: graph_ok_def edge_pairs_def)
  show "acyclic (set (edge_pairs (ds_edges s)))"
    using a(3) graph_library.dag_iff [OF assms(1) ok] by (simp add: validate_graph_def)
qed

lemma spec_node_raw:
  assumes "dag_spec_from_payload is_dag payload = Inr s" "n \<in> set (ds_nodes s)"
  shows "\<exists>raw. normalize_node raw = Inr n"
proof (rule spec_cases [OF assms(1)])
  fix raw_nodes
  assume r: "rmap normalize_node raw_nodes = Inr (ds_nodes s)"
  from rmap_in [OF r assms(2)] show ?thesis by blast
qed

lemma build_task_ok:
  assumes "normalize_node raw = Inr node"
  shows "\<exists>t. build_task now wid maps node = Inr t \<and> ct_id t = node_id_of node \<and> \<not> ct_completed t"
proof (rule normalize_node_cases [OF assms])
  fix d nid name inputs outputs kind res code_str code_ser fc ad retries f retry_on timeout meta
  let ?anchor = "if ad = [] then VNone else VDict ad"
  assume sem: "normalize_task_semantics (vget d ''task_kind'') (vget d ''resources'') ?anchor = Inr (kind, res)"
    and n: "node = node_dict nid name inputs outputs kind res code_str code_ser fc ?anchor retries (max0 f) retry_on timeout meta"
  have fix1: "normalize_task_semantics (VStr kind) (VDict res) ?anchor = Inr (kind, res)"
    by (rule task_semantics_fixed_point_aux [OF sem])
  then have "\<exists>decl. normalize_resources (VDict res) = Inr decl"
    by (auto simp: normalize_task_semantics_def apply_model_anchor_estimate_def)
  then show ?thesis
    using fix1 unfolding build_task_def save_task_def node_id_of_def n node_dict_get
    by (auto simp: new_task_def)
qed

lemma build_tasks_loop:
  assumes "\<And>n. n \<in> set ns \<Longrightarrow> \<exists>t. build_task now wid maps n = Inr t \<and> ct_id t = node_id_of n \<and> \<not> ct_completed t"
    and "distinct (map node_id_of ns)" and "workflow_ok w" "\<forall>n \<in> set ns. node_id_of n \<notin> set (g_nodes w)"
    and "\<forall>t. \<not> is_completed w t"
  shows "\<exists>w'. rfold (\<lambda>w node. rbind (build_task now wid maps node) (\<lambda>t. add_task (node_id_of node) t w)) w ns = Inr w'
    \<and> workflow_ok w' \<and> g_nodes w' = g_nodes w @ map node_id_of ns \<and> g_edges w' = g_edges w
    \<and> (\<forall>t. \<not> is_completed w' t)"
  using assms
proof (induction ns arbitrary: w)
  case (Cons n ns)
  obtain t where t: "build_task now wid maps n = Inr t" "ct_id t = node_id_of n" "\<not> ct_completed t"
    using Cons.prems(1) by (meson list.set_intros(1))
  let ?w = "w\<lparr>tasks := dput (node_id_of n) t (tasks w), g_nodes := g_nodes w @ [node_id_of n],
      remaining_task_num := remaining_task_num w + 1\<rparr>"
  have add: "add_task (node_id_of n) t w = Inr ?w" using Cons.prems(4) by (simp add: add_task_def t(2))
  have ok: "workflow_ok ?w" by (rule add_task_ok [OF Cons.prems(3) add])
  have nc: "\<forall>u. \<not> is_completed ?w u" using Cons.prems(5) t(3) by (auto simp: is_completed_def)
  have "\<exists>w'. rfold (\<lambda>w node. rbind (build_task now wid maps node) (\<lambda>t. add_task (node_id_of node) t w)) ?w ns = Inr w'
    \<and> workflow_ok w' \<and> g_nodes w' = g_nodes ?w @ map node_id_of ns \<and> g_edges w' = g_edges ?w
    \<and> (\<forall>t. \<not> is_completed w' t)"
  proof (intro Cons.IH ok nc)
    show "\<forall>m \<in> set ns. node_id_of m \<notin> set (g_nodes ?w)"
    proof
      fix m assume "m \<in> set ns"
      then have "node_id_of m \<in> set (map node_id_of ns)" "node_id_of m \<notin> set (g_nodes w)"
        using Cons.prems(4) by auto
      moreover have "node_id_of n \<notin> set (map node_id_of ns)" using Cons.prems(2) by simp
      ultimately show "node_id_of m \<notin> set (g_nodes ?w)" by auto
    qed
  qed (use Cons.prems(1,2) in simp_all)
  then show ?case by (auto simp: t(1) add)
qed simp

lemma add_edge_succeeds:
  assumes lib: "graph_library is_dag topo" and ok: "workflow_ok w" and st: "s \<in> set (g_nodes w)" "t \<in> set (g_nodes w)"
    and ac: "acyclic (insert (s, t) (set (g_edges w)))"
  shows "\<exists>w'. add_edge is_dag s t w = Inr w' \<and> workflow_ok w' \<and> g_nodes w' = g_nodes w \<and> tasks w' = tasks w
    \<and> set (g_edges w') = insert (s, t) (set (g_edges w))"
proof -
  define es where "es = (if (s, t) \<in> set (g_edges w) then g_edges w else g_edges w @ [(s, t)])"
  have es: "graph_ok (g_nodes w) es" "set es = insert (s, t) (set (g_edges w))"
    using ok st by (auto simp: es_def workflow_ok_def graph_ok_def)
  then have "is_dag (g_nodes w) es" using graph_library.dag_iff [OF lib es(1)] ac by simp
  then have "add_edge is_dag s t w = Inr (w\<lparr>g_edges := es\<rparr>)" using st by (simp add: add_edge_def es_def Let_def)
  with add_edge_ok [OF lib ok this] es(2) show ?thesis by simp
qed

lemma add_edges_loop:
  assumes lib: "graph_library is_dag topo"
  shows "workflow_ok w \<Longrightarrow> \<forall>e \<in> set es. source_task_id e \<in> set (g_nodes w) \<and> target_task_id e \<in> set (g_nodes w) \<Longrightarrow>
   acyclic (set (g_edges w) \<union> set (edge_pairs es)) \<Longrightarrow>
   \<exists>w'. rfold (\<lambda>w e. add_edge is_dag (source_task_id e) (target_task_id e) w) w es = Inr w'
     \<and> workflow_ok w' \<and> g_nodes w' = g_nodes w \<and> tasks w' = tasks w
     \<and> set (g_edges w') = set (g_edges w) \<union> set (edge_pairs es)"
proof (induction es arbitrary: w)
  case (Cons e es)
  let ?st = "(source_task_id e, target_task_id e)"
  have all: "set (edge_pairs (e # es)) = insert ?st (set (edge_pairs es))"
    unfolding edge_pairs_def set_dedup by simp
  have "acyclic (insert ?st (set (g_edges w)))"
    by (rule acyclic_subset [OF Cons.prems(3)]) (simp add: all, blast)
  then obtain w1 where w1: "add_edge is_dag (source_task_id e) (target_task_id e) w = Inr w1" "workflow_ok w1"
      "g_nodes w1 = g_nodes w" "tasks w1 = tasks w" "set (g_edges w1) = insert ?st (set (g_edges w))"
    using add_edge_succeeds [OF lib Cons.prems(1)] Cons.prems(2) by (metis list.set_intros(1))
  have "acyclic (set (g_edges w1) \<union> set (edge_pairs es))" using Cons.prems(3) by (simp add: w1(5) all)
  with Cons.IH [OF w1(2)] Cons.prems(2) w1 show ?case by (fastforce simp: all)
qed (simp add: edge_pairs_def)

section \<open>Properties\<close>

text \<open>
  C30: An accepted specification has valid, pairwise distinct node ids; every edge joins two of its
  nodes and carries an output its source declares; and the graph has no cycle.
\<close>

theorem dag_spec_sound:
  assumes "graph_library is_dag topo" and "dag_spec_from_payload is_dag payload = Inr s"
  shows "distinct (map node_id_of (ds_nodes s)) \<and> (\<forall>n \<in> set (ds_nodes s). node_id_ok (node_id_of n))
    \<and> (\<forall>e \<in> set (ds_edges s). \<exists>a \<in> set (ds_nodes s). \<exists>b \<in> set (ds_nodes s).
          node_id_of a = source_task_id e \<and> node_id_of b = target_task_id e
          \<and> source_output e \<in> set (node_outputs a) \<and> target_input e \<noteq> [])
    \<and> acyclic {(source_task_id e, target_task_id e) | e. e \<in> set (ds_edges s)}"
proof -
  have edges: "set (edge_pairs (ds_edges s)) = {(source_task_id e, target_task_id e) | e. e \<in> set (ds_edges s)}"
    by (auto simp: edge_pairs_def)
  show ?thesis
  proof (rule spec_cases [OF assms(2)], intro conjI ballI)
    fix p raw_nodes raw_edges run0
    assume a: "rmap normalize_node raw_nodes = Inr (ds_nodes s)" "distinct (map node_id_of (ds_nodes s))"
      "rmap (normalize_edge (map (\<lambda>n. (node_id_of n, n)) (ds_nodes s))) raw_edges = Inr (ds_edges s)"
    show "distinct (map node_id_of (ds_nodes s))" by fact
    show "node_id_ok (node_id_of n)" if n: "n \<in> set (ds_nodes s)" for n
    proof -
      obtain raw where "normalize_node raw = Inr n" using rmap_in [OF a(1) n] by blast
      then show ?thesis by (rule normalize_node_cases) (simp add: node_id_of_def node_dict_get)
    qed
    show "\<exists>x \<in> set (ds_nodes s). \<exists>y \<in> set (ds_nodes s). node_id_of x = source_task_id e
        \<and> node_id_of y = target_task_id e \<and> source_output e \<in> set (node_outputs x) \<and> target_input e \<noteq> []"
      if e: "e \<in> set (ds_edges s)" for e
    proof -
      let ?m = "map (\<lambda>n. (node_id_of n, n)) (ds_nodes s)"
      obtain raw where "normalize_edge ?m raw = Inr e" using rmap_in [OF a(3) e] by blast
      note c = normalize_edge_cases [OF this]
      obtain x where x: "map_of ?m (source_task_id e) = Some x" using c(1) by (auto simp: dhas_iff)
      then have "x \<in> set (ds_nodes s)" "node_id_of x = source_task_id e" by (auto dest!: map_of_in)
      moreover obtain y where "y \<in> set (ds_nodes s)" "node_id_of y = target_task_id e"
        using c(2) by (auto simp: dhas_def)
      ultimately show ?thesis using c(4,5) x by auto
    qed
    show "acyclic {(source_task_id e, target_task_id e) | e. e \<in> set (ds_edges s)}"
      using spec_graph(2) [OF assms] unfolding edges .
  qed
qed

text \<open>A one-node payload, with its normal form.\<close>

definition sample_payload :: pyval where
  "sample_payload = VDict [(''nodes'', VList [VDict [(''id'', VStr ''a''), (''code'', VStr ''x''),
     (''outputs'', VList [VStr ''o'']), (''resources'', VDict [(''cpu'', VInt 1)])]])]"

lemma sample_semantics: "normalize_task_semantics VNone (VDict [(''cpu'', VInt 1)]) VNone = Inr (''cpu'', base_resources 1 0 0)"
  by (simp add: normalize_task_semantics_def apply_model_anchor_estimate_def normalize_task_kind_def
      validate_task_resources_def task_kinds_def int_value_int base_resources_def model_memory_mib_def vor_def mib_def
      normalize_resources_def normalize_raw_def pick_amount_def first_match_def given_def
      check_limit_def copy_hints_def hint_given_def resource_hint_keys_def)

lemma sample_spec: "\<exists>s. dag_spec_from_payload kahn_dag sample_payload = Inr s \<and> ds_edges s = []
   \<and> map node_id_of (ds_nodes s) = [''a''] \<and> map node_inputs (ds_nodes s) = [[]]"
  by (simp add: dag_spec_from_payload_def sample_payload_def ensure_mapping_def as_list_def normalize_node_def
      vor_def node_id_ok_def id_first_def py_strip_def is_space_def normalize_outputs_def parse_output_def dict_copy_def
      sample_semantics normalize_inputs_def optional_int_def optional_str_list_def optional_float_def Let_def
      node_id_of_def node_dict_def validate_graph_def edge_pairs_def kahn_dag_def first_match_def
      normalize_run_def str_list_def py_iter_def when_has_def normalize_input_contract_def optional_workflow_id_def
      guard_or_def node_inputs_def dict_or_empty_def)

theorem dag_spec_sound_witness:
  "\<exists>s. dag_spec_from_payload kahn_dag sample_payload = Inr s
     \<and> (\<forall>n \<in> set (ds_nodes s). node_id_ok (node_id_of n))"
proof -
  obtain s where s: "dag_spec_from_payload kahn_dag sample_payload = Inr s" using sample_spec by blast
  from dag_spec_sound [OF kahn.graph_library_axioms s] s show ?thesis by blast
qed

text \<open>
  Normalisation is stable: an accepted specification, submitted again in its stored form (as the
  builder does, and a client that resubmits a workflow id), is accepted and has the same definition,
  workflow id and name.
\<close>

theorem dag_definition_stable:
  assumes "dag_spec_from_payload is_dag payload = Inr s"
  shows "\<exists>s'. dag_spec_from_payload is_dag (VDict (spec_payload s)) = Inr s'
    \<and> dag_definition_from_spec s' = dag_definition_from_spec s
    \<and> ds_workflow_id s' = ds_workflow_id s \<and> ds_name s' = ds_name s"
  using spec_again [OF assms] by (fastforce simp: dag_definition_from_spec_def)

theorem dag_definition_stable_witness:
  "\<exists>s s'. dag_spec_from_payload kahn_dag sample_payload = Inr s
     \<and> dag_spec_from_payload kahn_dag (VDict (spec_payload s)) = Inr s'
     \<and> dag_definition_from_spec s' = dag_definition_from_spec s"
proof -
  obtain s where s: "dag_spec_from_payload kahn_dag sample_payload = Inr s" using sample_spec by blast
  from dag_definition_stable [OF s] s show ?thesis by blast
qed

text \<open>
  Building cannot fail after validation, except for an input given twice: if the task inputs of an
  accepted specification can be assembled, the workflow is built, with exactly the nodes and edges of
  the specification, acyclic, and with no task completed.
\<close>

theorem build_after_validation:
  assumes "graph_library is_dag topo" and "dag_spec_from_payload is_dag payload = Inr s"
    and "build_task_inputs (ds_nodes s) (ds_edges s) = Inr maps"
  shows "\<exists>w. build_dag_workflow is_dag now wid payload = Inr (w, dag_definition_from_spec s)
    \<and> workflow_ok w \<and> g_nodes w = map node_id_of (ds_nodes s)
    \<and> set (g_edges w) = {(source_task_id e, target_task_id e) | e. e \<in> set (ds_edges s)}
    \<and> (\<forall>t. \<not> is_completed w t)"
proof -
  note g = spec_graph [OF assms(1,2)]
  have "\<exists>t. build_task now wid maps n = Inr t \<and> ct_id t = node_id_of n \<and> \<not> ct_completed t"
    if n: "n \<in> set (ds_nodes s)" for n
    using spec_node_raw [OF assms(2) n] build_task_ok by blast
  moreover have "distinct (map node_id_of (ds_nodes s))" using g(1) by (simp add: graph_ok_def)
  ultimately obtain w1 where w1: "rfold (\<lambda>w node. rbind (build_task now wid maps node) (\<lambda>t. add_task (node_id_of node) t w))
        (empty_workflow wid) (ds_nodes s) = Inr w1"
      "workflow_ok w1" "g_nodes w1 = map node_id_of (ds_nodes s)" "g_edges w1 = []" "\<forall>t. \<not> is_completed w1 t"
    using build_tasks_loop [of "ds_nodes s" now wid maps "empty_workflow wid"] workflow_ok_empty
    by (force simp: empty_workflow_def is_completed_def)
  have "\<forall>e \<in> set (ds_edges s). source_task_id e \<in> set (g_nodes w1) \<and> target_task_id e \<in> set (g_nodes w1)"
    using g(1) w1(3) by (force simp: graph_ok_def edge_pairs_def)
  then obtain w where w: "rfold (\<lambda>w e. add_edge is_dag (source_task_id e) (target_task_id e) w) w1 (ds_edges s) = Inr w"
      "workflow_ok w" "g_nodes w = g_nodes w1" "tasks w = tasks w1" "set (g_edges w) = set (edge_pairs (ds_edges s))"
    using add_edges_loop [OF assms(1) w1(2), of "ds_edges s"] g(2) w1(4) by auto
  have "build_dag_workflow is_dag now wid payload = Inr (w, dag_definition_from_spec s)"
    using assms(2,3) w1(1) w(1) by (simp add: build_dag_workflow_def)
  moreover have "\<not> is_completed w t" for t using w1(5) w(4) by (simp add: is_completed_def)
  ultimately show ?thesis using w w1(3) by (auto simp: edge_pairs_def)
qed

theorem build_after_validation_witness:
  "\<exists>w d. build_dag_workflow kahn_dag 0 ''w'' sample_payload = Inr (w, d) \<and> g_nodes w = [''a'']"
proof -
  obtain s where s: "dag_spec_from_payload kahn_dag sample_payload = Inr s" "ds_edges s = []"
      "map node_id_of (ds_nodes s) = [''a'']" using sample_spec by (elim exE conjE) (rule that)
  then have "\<exists>maps. build_task_inputs (ds_nodes s) (ds_edges s) = Inr maps" by (simp add: build_task_inputs_def)
  then obtain maps where m: "build_task_inputs (ds_nodes s) (ds_edges s) = Inr maps" ..
  from build_after_validation [OF kahn.graph_library_axioms s(1) m, of 0 "''w''"] s(3) show ?thesis by auto
qed

end
