(* ===== verification/Event_Log.thy ===== *)
theory Event_Log
  imports PyValue
begin

text \<open>
  The event log every run keeps: \<open>append_event\<close> numbers an event with the run's counter and appends
  it, \<open>get_events\<close> returns the events after a cursor (the same code in
  \<open>maze/core/workflow/dynamic.py\<close> and \<open>static_run.py\<close>). The locale \<open>event_log\<close> is the contract
  between a run and the clients that poll it; both kinds of run interpret it.
\<close>

type_synonym event = "(string, pyval) dict"

text \<open>
  \<open>int(event.get("seq", 0))\<close>. The logs only hold events numbered by \<open>stamp_event\<close>, so \<open>int\<close> does
  not raise on them.
\<close>

definition seq_number :: "event \<Rightarrow> int" where
  "seq_number e = (case py_int (vgetd e ''seq'' (VInt 0)) of Inr n \<Rightarrow> n | Inl _ \<Rightarrow> 0)"

definition stamp_event :: "nat \<Rightarrow> string \<Rightarrow> event \<Rightarrow> event" where
  "stamp_event n ts e =
     dput ''schema_version'' (VInt 1) (dput ''timestamp'' (VStr ts) (dput ''seq'' (VInt (int n)) e))"

definition events_after :: "int option \<Rightarrow> event list \<Rightarrow> event list" where
  "events_after after evs =
     (case after of None \<Rightarrow> evs | Some n \<Rightarrow> filter (\<lambda>e. n < seq_number e) evs)"

text \<open>A log is numbered when its events carry the numbers from one up to the counter, in order.\<close>

definition numbered :: "event list \<Rightarrow> nat \<Rightarrow> bool" where
  "numbered evs n = (map seq_number evs = map int [1..<Suc n])"

lemma seq_number_stamp [simp]: "seq_number (stamp_event n ts e) = int n"
  by (simp add: seq_number_def stamp_event_def dgetd_def)

lemma seq_number_ddel: "k \<noteq> ''seq'' \<Longrightarrow> seq_number (ddel k e) = seq_number e"
  by (simp add: seq_number_def dgetd_def)

lemma numbered_Nil [simp]: "numbered [] 0"
  by (simp add: numbered_def)

lemma numbered_length: "numbered evs n \<Longrightarrow> length evs = n"
  unfolding numbered_def by (metis length_map length_upt diff_Suc_1)

lemma numbered_snoc: "numbered evs n \<Longrightarrow> seq_number e = int (Suc n) \<Longrightarrow> numbered (evs @ [e]) (Suc n)"
  by (simp add: numbered_def)

lemma numbered_nth: "numbered evs n \<Longrightarrow> i < n \<Longrightarrow> seq_number (evs ! i) = int (Suc i)"
proof -
  assume n: "numbered evs n" and i: "i < n"
  have "seq_number (evs ! i) = map seq_number evs ! i"
    using n i by (simp add: numbered_length)
  also have "\<dots> = int (Suc i)"
    using n i by (simp add: numbered_def del: upt_Suc)
  finally show ?thesis .
qed

text \<open>A cursor cuts the log exactly: nothing is skipped, nothing is sent twice.\<close>

lemma events_after_drop: "numbered evs n \<Longrightarrow> events_after (Some (int k)) evs = drop k evs"
proof (induction evs arbitrary: n rule: rev_induct)
  case (snoc e evs)
  from snoc.prems have len: "n = Suc (length evs)" using numbered_length by fastforce
  have n: "numbered evs (length evs)" and e: "seq_number e = int (Suc (length evs))"
    using snoc.prems unfolding len numbered_def by simp_all
  show ?case
    using snoc.IH [OF n] e by (auto simp: events_after_def)
qed (simp add: events_after_def)

locale event_log =
  fixes evs :: "'s \<Rightarrow> event list" and counter :: "'s \<Rightarrow> nat" and op :: "'a \<Rightarrow> 's \<Rightarrow> 's"
  assumes append_only:
    "evs (op a s) = evs s \<and> counter (op a s) = counter s
     \<or> (\<exists>e. evs (op a s) = evs s @ [e] \<and> counter (op a s) = Suc (counter s)
            \<and> seq_number e = int (Suc (counter s)))"
begin

definition keeps :: "'s \<Rightarrow> bool" where
  "keeps s = numbered (evs s) (counter s)"

lemma keeps_step: "keeps s \<Longrightarrow> keeps (op a s)"
  using append_only [of a s] unfolding keeps_def by (auto simp: numbered_snoc)

lemma keeps_run: "keeps s \<Longrightarrow> keeps (fold op as s)"
  by (induction "as" arbitrary: s) (auto intro: keeps_step)

lemma log_step: "\<exists>new. evs (op a s) = evs s @ new"
  using append_only [of a s] by auto

lemma log_run: "\<exists>new. evs (fold op as s) = evs s @ new"
proof (induction "as" arbitrary: s)
  case (Cons a "as")
  obtain x where x: "evs (op a s) = evs s @ x" using log_step by blast
  obtain y where "evs (fold op as (op a s)) = evs (op a s) @ y" using Cons.IH by blast
  with x show ?case by simp
qed simp

text \<open>A client that remembers the last number it saw receives exactly the events added since.\<close>

theorem poll_exact:
  assumes "keeps s"
  shows "evs s @ events_after (Some (int (counter s))) (evs (fold op as s)) = evs (fold op as s)"
proof -
  have len: "counter s = length (evs s)"
    using assms unfolding keeps_def by (simp add: numbered_length)
  obtain new where new: "evs (fold op as s) = evs s @ new" using log_run by blast
  have "numbered (evs (fold op as s)) (counter (fold op as s))"
    using keeps_run [OF assms] by (simp add: keeps_def)
  from events_after_drop [OF this, of "counter s"] new len show ?thesis by simp
qed

end

end
