(* ===== verification/Dynamic_Run.thy ===== *)
theory Dynamic_Run
  imports Workflow_Graph Dag_Context Event_Log "HOL-Library.List_Lexorder" "HOL-Library.Char_ord"
begin

text \<open>
  Dynamic runs: \<open>maze/core/workflow/dynamic.py\<close>. A run is a state machine driven by client requests
  (register, append, finalize, cancel) and by the scheduler's messages (started, finished, retrying,
  failed). \<open>to_json_safe\<close> is the identity on the JSON values of the model; \<open>hashlib.sha256\<close> is the
  argument \<open>sha\<close>, a fresh \<open>uuid4\<close> an argument of the operation that draws it, the clock an argument too.
\<close>

section \<open>Task specifications\<close>

record param =
  p_name :: pyval
  p_type :: pyval

record task_spec =
  spec_id :: string
  spec_name :: string
  spec_code_str :: pyval
  spec_code_ser :: pyval
  spec_inputs :: "param list"
  spec_outputs :: "param list"
  spec_anchor :: pyval
  spec_kind :: string
  spec_resources :: "(string, pyval) dict"
  spec_ref_type :: pyval
  spec_path :: pyval
  spec_hash :: pyval
  spec_preview :: pyval
  spec_max_retries :: pyval
  spec_backoff :: pyval
  spec_retry_on :: pyval
  spec_timeout :: pyval

definition normalize_param :: "pyval \<Rightarrow> param result" where
  "normalize_param v =
     (case v of
        VStr s \<Rightarrow> Inr \<lparr>p_name = VStr s, p_type = VStr ''str''\<rparr>
      | VDict d \<Rightarrow>
          (let name = vor (vget d ''name'') (vget d ''key'') in
           if truthy name
           then Inr \<lparr>p_name = name, p_type = vor (vor (vget d ''data_type'') (vget d ''dataType'')) (VStr ''str'')\<rparr>
           else Inl (ValueError ''Task parameter entries require name or key''))
      | _ \<Rightarrow> Inl (ValueError (''Unsupported task parameter entry: '' @ py_repr v)))"

definition normalize_params :: "pyval \<Rightarrow> param list result" where
  "normalize_params params =
     (if \<not> truthy params then Inr []
      else (case params of
              VDict d \<Rightarrow> rmap normalize_param (dvals d)
            | VList xs \<Rightarrow> rmap normalize_param xs
            | VStr s \<Rightarrow> rmap (\<lambda>c. normalize_param (VStr [c])) s
            | _ \<Rightarrow> Inl (TypeError ''object is not iterable'')))"

text \<open>\<open>_resource_number\<close> and the comparisons of \<open>merge_dynamic_resources\<close>.\<close>

definition resource_number :: "pyval \<Rightarrow> pyval \<Rightarrow> pyval result" where
  "resource_number v d =
     (case py_float v of
        Inr (Fin q) \<Rightarrow> Inr (if of_int \<lfloor>q\<rfloor> = q then VInt \<lfloor>q\<rfloor> else VFloat (Fin q))
      | Inr f \<Rightarrow> Inr (VFloat f)
      | Inl OverflowError \<Rightarrow> Inl OverflowError
      | Inl _ \<Rightarrow> Inr d)"

fun less_than :: "pyval \<Rightarrow> rat \<Rightarrow> bool" where
  "less_than (VInt n) q = (of_int n < q)"
| "less_than (VFloat (Fin x)) q = (x < q)"
| "less_than (VFloat NegInf) q = True"
| "less_than _ q = False"

definition set_number :: "(string, pyval) dict \<Rightarrow> string \<Rightarrow> string \<Rightarrow> pyval \<Rightarrow> (string, pyval) dict
    \<Rightarrow> (string, pyval) dict result" where
  "set_number override from to d res =
     (if dhas from override \<and> vget override from \<notin> {VNone, VStr []}
      then rbind (resource_number (vget override from) (vgetd res to d)) (\<lambda>v. Inr (dput to v res))
      else Inr res)"

definition at_least :: "string \<Rightarrow> int \<Rightarrow> (string, pyval) dict \<Rightarrow> (string, pyval) dict" where
  "at_least k n res = (if less_than (vget res k) (of_int n) then dput k (VInt n) res else res)"

definition set_str :: "string \<Rightarrow> pyval \<Rightarrow> (string, pyval) dict \<Rightarrow> (string, pyval) dict" where
  "set_str k v res = (if truthy v then dput k (VStr (py_str v)) res else res)"

definition merge_dynamic_resources ::
    "pyval \<Rightarrow> (string, pyval) dict \<Rightarrow> (string, pyval) dict result" where
  "merge_dynamic_resources base override =
     rbind (normalize_task_semantics VNone base VNone) (\<lambda>(_, res0).
     rbind (set_number override ''cpu_num'' ''cpu_num'' (VInt 0) res0) (\<lambda>res1.
     rbind (set_number override ''gpu_mem'' ''gpu_mem'' (VInt 0) res1) (\<lambda>res2.
     rbind (set_number override ''io_num'' ''io_num'' (VInt 0) res2) (\<lambda>res3.
     rbind (set_number override ''cpu'' ''cpu_num'' (VInt 1) res3) (\<lambda>res4.
     let res5 = at_least ''io_num'' 0 (at_least ''gpu_mem'' 0 (at_least ''cpu_num'' 1 res4));
         target = vor (vor (vor (vget override ''target_node_id'') (vget override ''node_id''))
                           (vget res5 ''target_node_id'')) (vget res5 ''node_id'');
         res6 = set_str ''target_node_id'' target res5;
         res7 = set_str ''required_capability''
                  (vor (vget override ''required_capability'') (vget res6 ''required_capability'')) res6;
         res8 = (if vget override ''gpu_mem_limit'' \<noteq> VNone
                 then dput ''gpu_mem_limit'' (vget override ''gpu_mem_limit'') res7 else res7)
     in rbind (normalize_task_semantics VNone (VDict res8) VNone) (\<lambda>(_, res). Inr res))))))"

definition default_resources :: pyval where
  "default_resources = VDict [(''cpu_num'', VInt 1), (''gpu_mem'', VInt 0), (''io_num'', VInt 0)]"

definition code_preview :: "pyval \<Rightarrow> pyval" where
  "code_preview v =
     (case v of
        VStr s \<Rightarrow> if s = [] then VNone
          else (let t = py_strip s in VStr (if 240 < length t then take 237 t @ ''...'' else t))
      | _ \<Rightarrow> VNone)"

definition hash_code :: "(string \<Rightarrow> string) \<Rightarrow> pyval \<Rightarrow> pyval \<Rightarrow> pyval" where
  "hash_code sha code_str code_ser =
     (let source = (if code_str \<noteq> VNone then code_str else code_ser)
      in if source = VNone then VNone else VStr (sha (py_str source)))"

definition list_or_none :: "pyval \<Rightarrow> pyval result" where
  "list_or_none v =
     (case v of VNone \<Rightarrow> Inr VNone | VList xs \<Rightarrow> Inr (VList xs) | VStr s \<Rightarrow> Inr (VList (map (\<lambda>c. VStr [c]) s))
      | VDict d \<Rightarrow> Inr (VList (map VStr (dkeys d))) | _ \<Rightarrow> Inl (TypeError ''object is not iterable''))"

text \<open>The resources of a payload reach \<open>merge_dynamic_resources\<close> unchecked; it calls \<open>get\<close> on them.\<close>

definition override_dict :: "pyval \<Rightarrow> (string, pyval) dict result" where
  "override_dict v =
     (if \<not> truthy v then Inr []
      else (case v of VDict d \<Rightarrow> Inr d | VList _ \<Rightarrow> Inl (AttributeError ''get'') | VStr _ \<Rightarrow> Inl (AttributeError ''get'')
            | _ \<Rightarrow> Inl (TypeError ''argument is not iterable'')))"

definition task_spec_from_payload ::
    "(string \<Rightarrow> string) \<Rightarrow> string \<Rightarrow> (string, pyval) dict \<Rightarrow> task_spec result" where
  "task_spec_from_payload sha fresh p =
     (let sid = py_str (vor (vget p ''task_spec_id'') (VStr fresh));
          name = py_str (vor (vor (vget p ''task_name'') (vget p ''name'')) (VStr sid));
          code_str = vget p ''code_str''; code_ser = vget p ''code_ser''
      in guard_or (code_ser \<noteq> VNone \<or> code_str \<noteq> VNone)
           (ValueError ''Dynamic task spec requires code_str or code_ser'')
        (rbind (normalize_params (vor (vor (vget p ''inputs'') (vget p ''input_params'')) (VList []))) (\<lambda>ins.
         rbind (normalize_params (vor (vor (vget p ''outputs'') (vget p ''output_params'')) (VList []))) (\<lambda>outs.
         rbind (py_dict (vor (vor (vget p ''model_anchor'') (vget p ''modelAnchor'')) (VDict []))) (\<lambda>ad.
         rbind (override_dict (vget p ''resources'')) (\<lambda>over.
         rbind (merge_dynamic_resources default_resources over) (\<lambda>res.
         let anchor = (if ad = [] then VNone else VDict ad) in
         rbind (normalize_task_semantics (vget p ''task_kind'') (VDict res) anchor) (\<lambda>(kind, eff).
         rbind (list_or_none (vget p ''retry_on'')) (\<lambda>retry.
         Inr \<lparr>spec_id = sid, spec_name = name, spec_code_str = code_str, spec_code_ser = code_ser,
              spec_inputs = ins, spec_outputs = outs, spec_anchor = anchor, spec_kind = kind,
              spec_resources = eff, spec_ref_type = vor (vget p ''task_ref_type'') (VStr ''inline''),
              spec_path = vor (vget p ''task_path'') (vget p ''relative_path''),
              spec_hash = vor (vget p ''code_hash'') (hash_code sha code_str code_ser),
              spec_preview = vor (vget p ''code_preview'') (code_preview code_str),
              spec_max_retries = vget p ''max_retries'',
              spec_backoff = vor (vgetd p ''retry_backoff_seconds'' (VInt 0)) (VInt 0),
              spec_retry_on = retry, spec_timeout = vget p ''timeout_seconds''\<rparr>)))))))))"

section \<open>Task inputs and outputs\<close>

definition is_output_ref :: "pyval \<Rightarrow> bool" where
  "is_output_ref v =
     (case v of VDict d \<Rightarrow> vget d ''__maze_output_ref__'' = VBool True \<or> (dhas ''task_id'' d \<and> dhas ''output_key'' d)
      | _ \<Rightarrow> False)"

definition hashable :: "pyval \<Rightarrow> bool" where
  "hashable v = (case v of VList _ \<Rightarrow> False | VDict _ \<Rightarrow> False | _ \<Rightarrow> True)"

definition known_input_params :: "task_spec \<Rightarrow> (string, pyval) dict \<Rightarrow> param list" where
  "known_input_params s inputs =
     spec_inputs s @ map (\<lambda>k. \<lparr>p_name = VStr k, p_type = VStr ''str''\<rparr>)
       (filter (\<lambda>k. VStr k \<notin> set (map p_name (spec_inputs s))) (dkeys inputs))"

definition input_value :: "(string, pyval) dict \<Rightarrow> pyval \<Rightarrow> pyval option" where
  "input_value inputs k = (case k of VStr s \<Rightarrow> map_of inputs s | _ \<Rightarrow> None)"

definition io_entry :: "pyval \<Rightarrow> string \<Rightarrow> pyval \<Rightarrow> pyval \<Rightarrow> bool \<Rightarrow> pyval" where
  "io_entry k schema dt v has =
     VDict [(''key'', k), (''input_schema'', VStr schema), (''data_type'', dt), (''value'', v), (''has_value'', VBool has)]"

definition input_step ::
    "(string, pyval) dict \<Rightarrow> pyval list \<times> pyval list \<Rightarrow> param \<Rightarrow> (pyval list \<times> pyval list) result" where
  "input_step inputs acc p =
     (let (entries, parents) = acc; v = input_value inputs (p_name p);
          x = (case v of None \<Rightarrow> VNone | Some y \<Rightarrow> y)
      in if is_output_ref x then
           (let d = dict_or_empty x in
            if \<not> dhas ''task_id'' d then Inl (KeyError ''task_id'')
            else if \<not> dhas ''output_key'' d then Inl (KeyError ''output_key'')
            else if \<not> hashable (vget d ''task_id'') then Inl (TypeError ''unhashable type'')
            else Inr (entries @ [io_entry (p_name p) ''from_task'' (p_type p)
                        (VStr (py_str (vget d ''task_id'') @ ''.output.'' @ py_str (vget d ''output_key''))) True],
                      parents @ [vget d ''task_id'']))
         else Inr (entries @ [io_entry (p_name p) ''from_user'' (p_type p) x (v \<noteq> None)], parents))"

definition build_task_input :: "task_spec \<Rightarrow> (string, pyval) dict \<Rightarrow> (pyval \<times> pyval list) result" where
  "build_task_input s inputs =
     guard_or (list_all (\<lambda>p. hashable (p_name p)) (spec_inputs s)) (TypeError ''unhashable type'')
     (rbind (rfold (input_step inputs) ([], []) (known_input_params s inputs)) (\<lambda>(entries, parents).
     Inr (VDict [(''input_params'', VDict (map (\<lambda>(i, e). (show_nat i, e)) (enumerate 1 entries)))], parents)))"

definition build_task_output :: "task_spec \<Rightarrow> pyval" where
  "build_task_output s =
     VDict [(''output_params'', VDict (map (\<lambda>(i, p). (show_nat i, VDict [(''key'', p_name p), (''data_type'', p_type p)]))
       (enumerate 1 (spec_outputs s))))]"

section \<open>The run\<close>

record dyn_task =
  dt_task :: code_task
  dt_spec :: string
  dt_request :: "string option"

record drun =
  run_id :: string
  max_tasks :: int
  timeout_seconds :: pyval
  file_context :: pyval
  created :: time
  updated :: time
  task_specs :: "(string, task_spec) dict"
  dtasks :: "(string, dyn_task) dict"
  task_parents :: "(string, string set) dict"
  pending_tasks :: "string list"
  submitted_tasks :: "string set"
  running_tasks :: "string set"
  completed_tasks :: "string set"
  failed_tasks :: "string set"
  task_errors :: "(string, pyval) dict"
  file_manifests :: "(string, pyval) dict"
  fault_tolerance :: "(string, pyval) dict"
  request_ids :: "(string, string) dict"
  events :: "event list"
  event_seq :: nat
  status :: string
  finished_time :: "time option"
  finalized :: bool
  failed :: bool
  final_result :: pyval
  cancel_reason :: pyval
  failure_reason :: pyval
  metadata :: "(string, pyval) dict"

definition new_run :: "time \<Rightarrow> string \<Rightarrow> int \<Rightarrow> pyval \<Rightarrow> pyval \<Rightarrow> (string, pyval) dict \<Rightarrow> drun" where
  "new_run now rid limit timeout files meta =
     \<lparr>run_id = rid, max_tasks = limit, timeout_seconds = timeout, file_context = files,
      created = now, updated = now,
      task_specs = [], dtasks = [], task_parents = [], pending_tasks = [], submitted_tasks = {},
      running_tasks = {}, completed_tasks = {}, failed_tasks = {}, task_errors = [], file_manifests = [], fault_tolerance = [],
      request_ids = [], events = [], event_seq = 0, status = ''created'', finished_time = None,
      finalized = False, failed = False, final_result = VNone, cancel_reason = VNone,
      failure_reason = VNone, metadata = meta\<rparr>"

definition terminal_statuses :: "string list" where
  "terminal_statuses = [''finalized'', ''failed'', ''canceled'', ''timed_out'', ''interrupted'']"

definition is_terminal :: "drun \<Rightarrow> bool" where
  "is_terminal r = (status r \<in> set terminal_statuses)"

text \<open>The limit in seconds, when the run has one: an integer or a float (an infinite one never passes).\<close>

definition time_limit :: "drun \<Rightarrow> rat option" where
  "time_limit r =
     (case timeout_seconds r of VInt n \<Rightarrow> Some (of_int n) | VFloat (Fin q) \<Rightarrow> Some q | _ \<Rightarrow> None)"

definition seconds_until_timeout :: "time \<Rightarrow> drun \<Rightarrow> rat option" where
  "seconds_until_timeout now r =
     (if is_terminal r then None else map_option (\<lambda>t. max 0 (t - (now - created r))) (time_limit r))"

definition error_value :: "string \<Rightarrow> string \<Rightarrow> pyval" where
  "error_value ty msg = VDict [(''error_type'', VStr ty), (''message'', VStr msg)]"

text \<open>
  What \<open>mark_timed_out_if_needed\<close>, \<open>cancel\<close> and \<open>interrupt\<close> share: every pending, submitted or running
  task gets the error and becomes failed, and the run ends.
\<close>

definition active_ids :: "drun \<Rightarrow> string set" where
  "active_ids r = set (pending_tasks r) \<union> submitted_tasks r \<union> running_tasks r"

definition end_active :: "time \<Rightarrow> pyval \<Rightarrow> string \<Rightarrow> drun \<Rightarrow> drun" where
  "end_active now err st r =
     r\<lparr>task_errors := foldl (\<lambda>d k. dput k err d) (task_errors r) (sorted_list_of_set (active_ids r)),
       failed_tasks := failed_tasks r \<union> active_ids r, pending_tasks := [], submitted_tasks := {},
       running_tasks := {}, status := st, finished_time := Some now, updated := now\<rparr>"

definition mark_timed_out_if_needed :: "time \<Rightarrow> drun \<Rightarrow> drun \<times> bool" where
  "mark_timed_out_if_needed now r =
     (case time_limit r of
        None \<Rightarrow> (r, False)
      | Some t \<Rightarrow>
          if is_terminal r \<or> now - created r \<le> t then (r, False)
          else (let err = error_value ''timeout'' (''Dynamic run timed out after '' @ py_str (timeout_seconds r) @ '' seconds'')
                in ((end_active now err ''timed_out'' r)\<lparr>failure_reason := err\<rparr>, True)))"

definition terminal_error :: "string \<Rightarrow> drun \<Rightarrow> pyerr" where
  "terminal_error action r =
     (let tail = action @ '': '' @ run_id r in
      if finalized r then ValueError (''Dynamic run is already finalized and cannot '' @ tail)
      else if failed r then ValueError (''Dynamic run has failed and cannot '' @ tail)
      else if status r = ''canceled'' then ValueError (''Dynamic run is canceled and cannot '' @ tail)
      else if status r = ''timed_out'' then TimeoutError (''Dynamic run timed out and cannot '' @ tail)
      else ValueError (''Dynamic run is terminal ('' @ status r @ '') and cannot '' @ tail))"

text \<open>
  A request changes the run even when it is refused (the timeout check marks the run first), so an
  operation returns the run and a result.
\<close>

definition check_can_mutate :: "time \<Rightarrow> string \<Rightarrow> drun \<Rightarrow> drun \<times> unit result" where
  "check_can_mutate now action r =
     (let r1 = fst (mark_timed_out_if_needed now r)
      in (r1, if is_terminal r1 then Inl (terminal_error action r1) else Inr ()))"

definition register_task_spec :: "time \<Rightarrow> task_spec \<Rightarrow> drun \<Rightarrow> drun \<times> unit result" where
  "register_task_spec now s r =
     (case check_can_mutate now ''register task specs'' r of
        (r1, Inl e) \<Rightarrow> (r1, Inl e)
      | (r1, Inr _) \<Rightarrow> (r1\<lparr>task_specs := dput (spec_id s) s (task_specs r1), updated := now\<rparr>, Inr ()))"

definition resolve_task_spec ::
    "time \<Rightarrow> (string \<Rightarrow> string) \<Rightarrow> string \<Rightarrow> string option \<Rightarrow> (string, pyval) dict option \<Rightarrow> drun
     \<Rightarrow> drun \<times> task_spec result" where
  "resolve_task_spec now sha fresh sid inline r =
     (case inline of
        Some p \<Rightarrow>
          (case task_spec_from_payload sha fresh p of
             Inl e \<Rightarrow> (r, Inl e)
           | Inr s \<Rightarrow> (case register_task_spec now s r of (r1, Inl e) \<Rightarrow> (r1, Inl e) | (r1, Inr _) \<Rightarrow> (r1, Inr s)))
      | None \<Rightarrow>
          (if \<not> present sid then (r, Inl (ValueError ''append_task requires task_spec_id or task_spec''))
           else (case map_of (task_specs r) (the sid) of
                   None \<Rightarrow> (r, Inl (ValueError (''Dynamic task spec not found: '' @ the sid)))
                 | Some s \<Rightarrow> (r, Inr s))))"

definition get_task_for_request_id :: "drun \<Rightarrow> string option \<Rightarrow> string option" where
  "get_task_for_request_id r q = (if present q then map_of (request_ids r) (the q) else None)"

definition is_task_ready :: "drun \<Rightarrow> string \<Rightarrow> bool" where
  "is_task_ready r t = (dgetd (task_parents r) t {} \<subseteq> completed_tasks r)"

text \<open>The task an append creates, before it is linked into the run, and its parents.\<close>

definition build_dynamic_task ::
    "time \<Rightarrow> string \<Rightarrow> task_spec \<Rightarrow> (string, pyval) dict \<Rightarrow> (string, pyval) dict \<Rightarrow> pyval \<Rightarrow> drun
     \<Rightarrow> (code_task \<times> pyval list) result" where
  "build_dynamic_task now tid s inputs override anchor r =
     rbind (build_task_input s inputs) (\<lambda>(inp, parents).
     rbind (merge_dynamic_resources (VDict (spec_resources s)) override) (\<lambda>res0.
     rbind (if anchor \<noteq> VNone then rbind (py_dict anchor) (\<lambda>d. Inr (VDict d)) else Inr (spec_anchor s)) (\<lambda>anc.
     rbind (normalize_task_semantics
              (if anchor \<noteq> VNone \<and> truthy (vget (dict_or_empty anc) ''local_model'') then VNone else VStr (spec_kind s))
              (VDict res0) anc) (\<lambda>(kind, res).
     rbind (save_task inp (build_task_output s) (spec_code_str s) (spec_code_ser s) (VDict res) (VStr kind)
              VNone anc (spec_max_retries s) (spec_backoff s) (spec_retry_on s) (spec_timeout s)
              (new_task now (run_id r) tid (spec_name s))) (\<lambda>t.
     Inr (t, parents))))))"

definition default_fault_tolerance :: pyval where
  "default_fault_tolerance = VDict [(''enabled'', VBool True), (''status'', VStr ''idle''), (''attempts'', VList [])]"

definition start_run :: "drun \<Rightarrow> drun" where
  "start_run r = (if status r = ''created'' then r\<lparr>status := ''running''\<rparr> else r)"

definition link_task ::
    "time \<Rightarrow> string \<Rightarrow> dyn_task \<Rightarrow> string set \<Rightarrow> string option \<Rightarrow> drun \<Rightarrow> drun" where
  "link_task now tid t parents req r =
     (let r1 = r\<lparr>dtasks := dput tid t (dtasks r),
                fault_tolerance := dput tid default_fault_tolerance (fault_tolerance r),
                task_parents := dput tid parents (task_parents r),
                request_ids := (if present req then dput (the req) tid (request_ids r) else request_ids r)\<rparr>;
          r2 = (if is_task_ready r1 tid then r1\<lparr>submitted_tasks := insert tid (submitted_tasks r1)\<rparr>
                else r1\<lparr>pending_tasks := pending_tasks r1 @ [tid]\<rparr>)
      in (start_run r2)\<lparr>updated := now\<rparr>)"

text \<open>The error for parents the run does not have (a parent that is not a string is listed by its text).\<close>

definition unknown_parents :: "string set \<Rightarrow> drun \<Rightarrow> pyerr" where
  "unknown_parents ps r =
     ValueError (''Dynamic task parents not found: ''
       @ py_repr (VList (map VStr (sorted_list_of_set (ps - set (dkeys (dtasks r)))))))"

definition append_task ::
    "time \<Rightarrow> string \<Rightarrow> task_spec \<Rightarrow> (string, pyval) dict \<Rightarrow> string list \<Rightarrow> string option
     \<Rightarrow> (string, pyval) dict \<Rightarrow> pyval \<Rightarrow> drun \<Rightarrow> drun \<times> (string \<times> bool) result" where
  "append_task now tid s inputs parents req override anchor r =
     (case check_can_mutate now ''append tasks'' r of
        (r1, Inl e) \<Rightarrow> (r1, Inl e)
      | (r1, Inr _) \<Rightarrow>
         (case get_task_for_request_id r1 req of
            Some t \<Rightarrow> (r1, Inr (t, True))
          | None \<Rightarrow>
             if max_tasks r1 \<le> int (length (dtasks r1))
             then (r1, Inl (ValueError (''Dynamic run exceeded max_tasks='' @ show_int (max_tasks r1))))
             else (case build_dynamic_task now tid s inputs override anchor r1 of
                     Inl e \<Rightarrow> (r1, Inl e)
                   | Inr (t, ip) \<Rightarrow>
                      (if list_all (\<lambda>p. dhas p (dtasks r1)) parents
                          \<and> list_all (\<lambda>v. \<exists>p \<in> set (dkeys (dtasks r1)). v = VStr p) ip
                       then (link_task now tid \<lparr>dt_task = t, dt_spec = spec_id s, dt_request = req\<rparr>
                               (set parents \<union> set (map py_str ip)) req r1, Inr (tid, False))
                       else (r1, Inl (unknown_parents (set parents \<union> set (map py_str ip)) r1))))))"

section \<open>Progress messages\<close>

definition set_fault_tolerance :: "time \<Rightarrow> string \<Rightarrow> pyval \<Rightarrow> drun \<Rightarrow> drun" where
  "set_fault_tolerance now t v r =
     (if truthy v then r\<lparr>fault_tolerance := dput t v (fault_tolerance r), updated := now\<rparr> else r)"

definition set_task_file_manifest :: "time \<Rightarrow> string \<Rightarrow> pyval \<Rightarrow> drun \<Rightarrow> drun" where
  "set_task_file_manifest now t v r =
     (if truthy v then r\<lparr>file_manifests := dput t v (file_manifests r), updated := now\<rparr> else r)"

definition on_task :: "string \<Rightarrow> (code_task \<Rightarrow> code_task) \<Rightarrow> drun \<Rightarrow> drun" where
  "on_task t f r =
     (case map_of (dtasks r) t of None \<Rightarrow> r
      | Some x \<Rightarrow> r\<lparr>dtasks := dput t (x\<lparr>dt_task := f (dt_task x)\<rparr>) (dtasks r)\<rparr>)"

definition mark_started_run :: "time \<Rightarrow> string \<Rightarrow> drun \<Rightarrow> drun" where
  "mark_started_run now t r =
     (if is_terminal r then r
      else (start_run ((on_task t (mark_started now) r)\<lparr>running_tasks := insert t (running_tasks r)\<rparr>))\<lparr>updated := now\<rparr>)"

definition mark_finished :: "time \<Rightarrow> string \<Rightarrow> pyval \<Rightarrow> drun \<Rightarrow> drun \<times> string list" where
  "mark_finished now t ft r =
     (if is_terminal r then (r, [])
      else
        (let r1 = on_task t (\<lambda>x. x\<lparr>ct_completed := True, ct_finished := Some now\<rparr>)
                (set_fault_tolerance now t ft
                  (r\<lparr>running_tasks := running_tasks r - {t}, completed_tasks := insert t (completed_tasks r)\<rparr>));
             ready = filter (is_task_ready r1) (pending_tasks r1)
         in (r1\<lparr>submitted_tasks := submitted_tasks r1 \<union> set ready,
                pending_tasks := filter (\<lambda>p. \<not> is_task_ready r1 p) (pending_tasks r1), updated := now\<rparr>, ready)))"

definition mark_retrying :: "time \<Rightarrow> string \<Rightarrow> pyval \<Rightarrow> pyval \<Rightarrow> drun \<Rightarrow> drun" where
  "mark_retrying now t err ft r =
     (if is_terminal r then r
      else (set_fault_tolerance now t ft
              (r\<lparr>running_tasks := running_tasks r - {t},
                 task_errors := (if err \<noteq> VNone then dput t err (task_errors r) else task_errors r)\<rparr>))\<lparr>updated := now\<rparr>)"

definition is_timeout_reason :: "pyval \<Rightarrow> bool" where
  "is_timeout_reason v = (case v of VDict d \<Rightarrow> vget d ''error_type'' = VStr ''timeout'' | _ \<Rightarrow> False)"

definition mark_failed :: "time \<Rightarrow> string \<Rightarrow> pyval \<Rightarrow> pyval \<Rightarrow> drun \<Rightarrow> drun" where
  "mark_failed now t reason ft r =
     (if is_terminal r then r
      else (set_fault_tolerance now t ft
              (r\<lparr>running_tasks := running_tasks r - {t}, failed_tasks := insert t (failed_tasks r),
                 task_errors := dput t reason (task_errors r)\<rparr>))
             \<lparr>failed := True, status := (if is_timeout_reason reason then ''timed_out'' else ''failed''),
              failure_reason := reason, finished_time := Some now, updated := now\<rparr>)"

section \<open>Ending a run\<close>

definition can_finalize :: "drun \<Rightarrow> bool" where
  "can_finalize r =
     (list_all (\<lambda>t. t \<in> completed_tasks r \<or> t \<in> failed_tasks r) (dkeys (dtasks r))
      \<and> pending_tasks r = [] \<and> running_tasks r = {})"

definition finalize :: "time \<Rightarrow> pyval \<Rightarrow> drun \<Rightarrow> drun \<times> unit result" where
  "finalize now res r =
     (if finalized r then (r, Inr ())
      else (case check_can_mutate now ''finalize'' r of
              (r1, Inl e) \<Rightarrow> (r1, Inl e)
            | (r1, Inr _) \<Rightarrow>
                if \<not> can_finalize r1
                then (r1, Inl (ValueError ''Dynamic run still has active tasks and cannot be finalized''))
                else (r1\<lparr>finalized := True, status := ''finalized'', finished_time := Some now,
                         final_result := res, updated := now\<rparr>, Inr ())))"

definition cancel :: "time \<Rightarrow> pyval \<Rightarrow> drun \<Rightarrow> drun \<times> bool result" where
  "cancel now reason r =
     (if status r = ''canceled'' then (r, Inr False)
      else (case check_can_mutate now ''cancel'' r of
              (r1, Inl e) \<Rightarrow> (r1, Inl e)
            | (r1, Inr _) \<Rightarrow>
                ((end_active now (error_value ''canceled'' (py_str (vor reason (VStr ''Dynamic run canceled''))))
                   ''canceled'' r1)\<lparr>cancel_reason := reason\<rparr>, Inr True)))"

definition interrupt :: "time \<Rightarrow> pyval \<Rightarrow> drun \<Rightarrow> drun \<times> bool" where
  "interrupt now reason r =
     (if is_terminal r then (r, False)
      else ((end_active now (error_value ''interrupted''
               (py_str (vor reason (VStr ''Scheduler process exited before the dynamic run completed''))))
               ''interrupted'' r)\<lparr>failure_reason := reason\<rparr>, True))"

section \<open>Events and views\<close>

definition append_event :: "time \<Rightarrow> string \<Rightarrow> event \<Rightarrow> drun \<Rightarrow> drun \<times> event result" where
  "append_event now ts ev r =
     (let v = vor (vget ev ''data'') (VDict []) in
      if \<not> is_dict v then (r, Inl (ValueError ''Dynamic run event data must be a JSON object''))
      else
        (let d = dput ''run_status'' (VStr (status r)) (dput ''run_id'' (VStr (run_id r)) (dict_or_empty v));
             n = event_seq r + 1;
             e = ddel ''ts'' (stamp_event n ts (dput ''data'' (VDict d) ev))
         in (r\<lparr>event_seq := n, events := events r @ [e], updated := now\<rparr>, Inr e)))"

definition get_events :: "int option \<Rightarrow> drun \<Rightarrow> event list" where
  "get_events after r = events_after after (events r)"

definition update_metadata :: "time \<Rightarrow> pyval \<Rightarrow> drun \<Rightarrow> drun" where
  "update_metadata now v r =
     (case v of VDict d \<Rightarrow> r\<lparr>metadata := foldl (\<lambda>m (k, x). dput k x m) (metadata r) d, updated := now\<rparr> | _ \<Rightarrow> r)"

definition task_status :: "drun \<Rightarrow> string \<Rightarrow> string" where
  "task_status r t =
     (if t \<in> failed_tasks r then ''failed'' else if t \<in> completed_tasks r then ''completed''
      else if t \<in> running_tasks r then ''running'' else if t \<in> submitted_tasks r then ''submitted''
      else ''pending'')"

text \<open>The counts and the graph of a snapshot.\<close>

definition task_counts :: "drun \<Rightarrow> (string \<times> nat) list" where
  "task_counts r =
     [(''total'', length (dtasks r)), (''pending'', length (pending_tasks r)),
      (''submitted'', card (submitted_tasks r)), (''running'', card (running_tasks r)),
      (''completed'', card (completed_tasks r)), (''failed'', card (failed_tasks r))]"

definition graph_edges :: "drun \<Rightarrow> (string \<times> string) set" where
  "graph_edges r = {(p, t). \<exists>ps. map_of (task_parents r) t = Some ps \<and> p \<in> ps}"


section \<open>Histories of a run\<close>

text \<open>
  Everything that happens to a run: client requests, the scheduler's messages, the deadline check and
  the shutdown. \<open>perform\<close> applies the operation the code calls; a \<open>uuid4\<close> is fresh, so an append
  brings an id the run does not have.
\<close>

datatype dyn_op =
    Register time task_spec
  | Append time string task_spec "(string, pyval) dict" "string list" "string option" "(string, pyval) dict" pyval
  | Started time string
  | Finished time string pyval
  | Retrying time string pyval pyval
  | Failed time string pyval pyval
  | Finalize time pyval
  | Cancel time pyval
  | Interrupt time pyval
  | Deadline time
  | Emit time string event
  | Metadata time pyval
  | Manifest time string pyval
  | Fault time string pyval

fun perform :: "dyn_op \<Rightarrow> drun \<Rightarrow> drun" where
  "perform (Register now s) r = fst (register_task_spec now s r)"
| "perform (Append now tid s inputs parents req over anchor) r =
     fst (append_task now tid s inputs parents req over anchor r)"
| "perform (Started now t) r = mark_started_run now t r"
| "perform (Finished now t ft) r = fst (mark_finished now t ft r)"
| "perform (Retrying now t err ft) r = mark_retrying now t err ft r"
| "perform (Failed now t why ft) r = mark_failed now t why ft r"
| "perform (Finalize now res) r = fst (finalize now res r)"
| "perform (Cancel now why) r = fst (cancel now why r)"
| "perform (Interrupt now why) r = fst (interrupt now why r)"
| "perform (Deadline now) r = fst (mark_timed_out_if_needed now r)"
| "perform (Emit now ts e) r = fst (append_event now ts e r)"
| "perform (Metadata now v) r = update_metadata now v r"
| "perform (Manifest now t v) r = set_task_file_manifest now t v r"
| "perform (Fault now t v) r = set_fault_tolerance now t v r"

fun fresh :: "dyn_op \<Rightarrow> drun \<Rightarrow> bool" where
  "fresh (Append _ tid _ _ _ _ _ _) r = (\<not> dhas tid (dtasks r))"
| "fresh _ r = True"

inductive reachable_run :: "drun \<Rightarrow> bool" where
  new: "reachable_run (new_run now rid limit timeout files meta)"
| step: "reachable_run r \<Longrightarrow> fresh a r \<Longrightarrow> reachable_run (perform a r)"

inductive later :: "drun \<Rightarrow> drun \<Rightarrow> bool" for r where
  same: "later r r"
| then_: "later r s \<Longrightarrow> fresh a s \<Longrightarrow> later r (perform a s)"

text \<open>The part of a run that its end freezes; the rest is log, metadata and bookkeeping of attempts.\<close>

definition lifecycle where
  "lifecycle r =
     ((status r, finalized r, failed r, final_result r, cancel_reason r, failure_reason r, finished_time r),
      (dtasks r, task_parents r, pending_tasks r, submitted_tasks r, running_tasks r, completed_tasks r,
       failed_tasks r, task_errors r, request_ids r, task_specs r))"

lemma timed_out_cases:
  "mark_timed_out_if_needed now r = (r, False) \<or>
   (\<not> is_terminal r \<and> (\<exists>err. mark_timed_out_if_needed now r
      = ((end_active now err ''timed_out'' r)\<lparr>failure_reason := err\<rparr>, True)))"
  unfolding mark_timed_out_if_needed_def by (auto simp: Let_def split: option.splits)

lemma timed_out_terminal: "is_terminal r \<Longrightarrow> mark_timed_out_if_needed now r = (r, False)"
  using timed_out_cases [of now r] by blast

lemma end_active_terminal: "st \<in> set terminal_statuses \<Longrightarrow> is_terminal ((end_active now err st r)\<lparr>failure_reason := x\<rparr>)"
  by (simp add: is_terminal_def end_active_def)

lemma check_can_mutate_cases:
  obtains (ok) "check_can_mutate now a r = (r, Inr ())" "\<not> is_terminal r"
  | (refused) e where "check_can_mutate now a r = (r, Inl e)" "is_terminal r"
  | (late) e err where "\<not> is_terminal r"
      "check_can_mutate now a r = ((end_active now err ''timed_out'' r)\<lparr>failure_reason := err\<rparr>, Inl e)"
proof -
  have t: "is_terminal ((end_active now err ''timed_out'' r)\<lparr>failure_reason := err\<rparr>)" for err
    by (rule end_active_terminal) (simp add: terminal_statuses_def)
  show thesis
  proof (cases "mark_timed_out_if_needed now r = (r, False)")
    case True
    then have "check_can_mutate now a r = (r, if is_terminal r then Inl (terminal_error a r) else Inr ())"
      by (simp add: check_can_mutate_def)
    then show thesis using ok refused by (cases "is_terminal r") simp_all
  next
    case False
    then obtain err where "\<not> is_terminal r"
        "mark_timed_out_if_needed now r = ((end_active now err ''timed_out'' r)\<lparr>failure_reason := err\<rparr>, True)"
      using timed_out_cases [of now r] by blast
    with t [of err] show thesis
      by (intro late [of err "terminal_error a ((end_active now err ''timed_out'' r)\<lparr>failure_reason := err\<rparr>)"])
        (simp_all add: check_can_mutate_def Let_def)
  qed
qed

lemma check_can_mutate_terminal: "is_terminal r \<Longrightarrow> check_can_mutate now a r = (r, Inl (terminal_error a r))"
  by (simp add: check_can_mutate_def timed_out_terminal)

lemma lifecycle_bookkeeping [simp]:
  "lifecycle (r\<lparr>updated := t\<rparr>) = lifecycle r"
  "lifecycle (set_fault_tolerance now k v r) = lifecycle r"
  "lifecycle (set_task_file_manifest now k v r) = lifecycle r"
  "lifecycle (update_metadata now v r) = lifecycle r"
  "lifecycle (fst (append_event now ts e r)) = lifecycle r"
  by (auto simp: lifecycle_def set_fault_tolerance_def set_task_file_manifest_def update_metadata_def
      append_event_def Let_def split: pyval.splits)

lemma terminal_frozen: "is_terminal r \<Longrightarrow> lifecycle (perform a r) = lifecycle r"
proof (cases a)
  case (Cancel now why)
  then show "is_terminal r \<Longrightarrow> ?thesis" by (simp add: cancel_def check_can_mutate_terminal)
qed (auto simp: register_task_spec_def append_task_def check_can_mutate_terminal mark_started_run_def
    mark_finished_def mark_retrying_def mark_failed_def finalize_def interrupt_def timed_out_terminal)


section \<open>The invariant\<close>

text \<open>Parents exist before their task: the tasks are in a topological order as they are appended.\<close>

fun parents_earlier :: "string set \<Rightarrow> (string, string set) dict \<Rightarrow> bool" where
  "parents_earlier seen [] = True"
| "parents_earlier seen ((t, ps) # d) = (ps \<subseteq> seen \<and> parents_earlier (insert t seen) d)"

text \<open>What no operation but an append changes, and what only the end of a run changes.\<close>

definition shape where
  "shape r = (dkeys (dtasks r), task_parents r, request_ids r, max_tasks r)"

definition shape_ok :: "drun \<Rightarrow> bool" where
  "shape_ok r =
     (distinct (dkeys (dtasks r)) \<and> dkeys (task_parents r) = dkeys (dtasks r)
      \<and> parents_earlier {} (task_parents r) \<and> int (length (dtasks r)) \<le> max 0 (max_tasks r)
      \<and> (\<forall>q t. map_of (request_ids r) q = Some t \<longrightarrow> t \<in> set (dkeys (dtasks r))))"

text \<open>While a run is active its pending tasks are exactly the blocked ones, its submitted tasks the others.\<close>

definition active_ok :: "drun \<Rightarrow> bool" where
  "active_ok r =
     (status r \<in> {''created'', ''running''} \<and> \<not> finalized r \<and> \<not> failed r \<and> failed_tasks r = {}
      \<and> pending_tasks r = filter (\<lambda>t. \<not> is_task_ready r t) (dkeys (dtasks r))
      \<and> submitted_tasks r = {t \<in> set (dkeys (dtasks r)). is_task_ready r t})"

definition run_ok :: "drun \<Rightarrow> bool" where
  "run_ok r = (shape_ok r \<and> (\<not> is_terminal r \<longrightarrow> active_ok r))"

lemma parents_earlier_append:
  "parents_earlier s (d @ [(t, ps)]) \<longleftrightarrow> parents_earlier s d \<and> ps \<subseteq> s \<union> set (dkeys d)"
  by (induction s d rule: parents_earlier.induct) (auto simp: dkeys_def)

lemma length_dkeys: "length (dkeys d) = length d"
  by (simp add: dkeys_def)

lemma shape_ok_cong: "shape r = shape s \<Longrightarrow> shape_ok r = shape_ok s"
proof -
  assume e: "shape r = shape s"
  then have "length (dtasks r) = length (dtasks s)"
    by (metis Pair_inject length_dkeys shape_def)
  with e show ?thesis by (simp add: shape_ok_def shape_def)
qed

lemma dkeys_on_task [simp]: "dkeys (dtasks (on_task t f r)) = dkeys (dtasks r)"
  by (auto simp: on_task_def dkeys_dput_same dhas_iff split: option.splits)

lemma on_task_frame [simp]:
  "task_parents (on_task t f r) = task_parents r" "request_ids (on_task t f r) = request_ids r"
  "max_tasks (on_task t f r) = max_tasks r" "pending_tasks (on_task t f r) = pending_tasks r"
  "submitted_tasks (on_task t f r) = submitted_tasks r" "running_tasks (on_task t f r) = running_tasks r"
  "completed_tasks (on_task t f r) = completed_tasks r" "failed_tasks (on_task t f r) = failed_tasks r"
  "status (on_task t f r) = status r" "finalized (on_task t f r) = finalized r" "failed (on_task t f r) = failed r"
  "events (on_task t f r) = events r" "event_seq (on_task t f r) = event_seq r"
  by (simp_all add: on_task_def split: option.splits)

lemma set_fault_frame [simp]:
  "dtasks (set_fault_tolerance now t v r) = dtasks r"
  "task_parents (set_fault_tolerance now t v r) = task_parents r"
  "request_ids (set_fault_tolerance now t v r) = request_ids r"
  "max_tasks (set_fault_tolerance now t v r) = max_tasks r"
  "pending_tasks (set_fault_tolerance now t v r) = pending_tasks r"
  "submitted_tasks (set_fault_tolerance now t v r) = submitted_tasks r"
  "running_tasks (set_fault_tolerance now t v r) = running_tasks r"
  "completed_tasks (set_fault_tolerance now t v r) = completed_tasks r"
  "failed_tasks (set_fault_tolerance now t v r) = failed_tasks r"
  "status (set_fault_tolerance now t v r) = status r"
  "finalized (set_fault_tolerance now t v r) = finalized r"
  "failed (set_fault_tolerance now t v r) = failed r"
  "events (set_fault_tolerance now t v r) = events r"
  "event_seq (set_fault_tolerance now t v r) = event_seq r"
  by (simp_all add: set_fault_tolerance_def)

lemma start_run_frame [simp]:
  "dtasks (start_run r) = dtasks r" "task_parents (start_run r) = task_parents r"
  "request_ids (start_run r) = request_ids r" "max_tasks (start_run r) = max_tasks r"
  "pending_tasks (start_run r) = pending_tasks r" "submitted_tasks (start_run r) = submitted_tasks r"
  "running_tasks (start_run r) = running_tasks r"
  "completed_tasks (start_run r) = completed_tasks r" "failed_tasks (start_run r) = failed_tasks r"
  "finalized (start_run r) = finalized r" "failed (start_run r) = failed r"
  "events (start_run r) = events r" "event_seq (start_run r) = event_seq r"
  by (simp_all add: start_run_def)

lemma status_start_run: "status (start_run r) = (if status r = ''created'' then ''running'' else status r)"
  by (simp add: start_run_def)

lemma shape_end_active [simp]: "shape (end_active now err st r) = shape r"
  by (simp add: shape_def end_active_def)

lemma shape_updates [simp]:
  "shape (r\<lparr>failure_reason := v\<rparr>) = shape r" "shape (r\<lparr>cancel_reason := v\<rparr>) = shape r"
  by (simp_all add: shape_def)

lemma append_task_cases:
  obtains (same) "fst (append_task now tid s inputs parents req over anchor r) = r"
  | (late) err where "\<not> is_terminal r" "fst (append_task now tid s inputs parents req over anchor r)
        = (end_active now err ''timed_out'' r)\<lparr>failure_reason := err\<rparr>"
  | (linked) t ps where "fst (append_task now tid s inputs parents req over anchor r) = link_task now tid t ps req r"
      "\<not> is_terminal r" "ps \<subseteq> set (dkeys (dtasks r))" "int (length (dtasks r)) < max_tasks r"
      "get_task_for_request_id r req = None"
proof (cases rule: check_can_mutate_cases [of now "''append tasks''" r])
  case ok
  show thesis
  proof (cases "fst (append_task now tid s inputs parents req over anchor r) = r")
    case False
    have *: "list_all (\<lambda>v. \<exists>p \<in> K. v = VStr p) ip \<Longrightarrow> set (map py_str ip) \<subseteq> K" for ip K
      by (auto simp: list_all_iff py_str_def)
    have "get_task_for_request_id r req = None \<and> int (length (dtasks r)) < max_tasks r \<and>
        (\<exists>t ip. list_all (\<lambda>p. dhas p (dtasks r)) parents
          \<and> list_all (\<lambda>v. \<exists>p \<in> set (dkeys (dtasks r)). v = VStr p) ip
          \<and> fst (append_task now tid s inputs parents req over anchor r)
            = link_task now tid t (set parents \<union> set (map py_str ip)) req r)"
      using False ok unfolding append_task_def
      by (auto split: option.splits if_splits sum.splits simp del: set_map)
    then obtain t ip where f: "get_task_for_request_id r req = None" "int (length (dtasks r)) < max_tasks r"
        "list_all (\<lambda>p. dhas p (dtasks r)) parents" "list_all (\<lambda>v. \<exists>p \<in> set (dkeys (dtasks r)). v = VStr p) ip"
        "fst (append_task now tid s inputs parents req over anchor r)
          = link_task now tid t (set parents \<union> set (map py_str ip)) req r"
      by blast
    have "set parents \<union> set (map py_str ip) \<subseteq> set (dkeys (dtasks r))"
      using f(3) * [OF f(4)] by (auto simp: list_all_iff dhas_dkeys)
    from linked [OF f(5) ok(2) this f(2,1)] show thesis .
  qed (rule same)
next
  case (refused e)
  then show thesis by (intro same) (simp add: append_task_def)
next
  case (late e err)
  then show thesis by (intro that(2)) (simp_all add: append_task_def)
qed


lemma dkeys_dput_fresh: "\<not> dhas k d \<Longrightarrow> dkeys (dput k v d) = dkeys d @ [k]"
  by (simp add: dput_new dkeys_def)

lemma is_task_ready_frame:
  "task_parents r = task_parents s \<Longrightarrow> completed_tasks r = completed_tasks s \<Longrightarrow> is_task_ready r t = is_task_ready s t"
  by (simp add: is_task_ready_def)

lemma link_task_frame:
  "dtasks (link_task now tid t ps req r) = dput tid t (dtasks r)"
  "task_parents (link_task now tid t ps req r) = dput tid ps (task_parents r)"
  "request_ids (link_task now tid t ps req r)
     = (if present req then dput (the req) tid (request_ids r) else request_ids r)"
  "max_tasks (link_task now tid t ps req r) = max_tasks r"
  "completed_tasks (link_task now tid t ps req r) = completed_tasks r"
  "running_tasks (link_task now tid t ps req r) = running_tasks r"
  "failed_tasks (link_task now tid t ps req r) = failed_tasks r"
  "finalized (link_task now tid t ps req r) = finalized r" "failed (link_task now tid t ps req r) = failed r"
  "status (link_task now tid t ps req r) = (if status r = ''created'' then ''running'' else status r)"
  "pending_tasks (link_task now tid t ps req r)
     = (if ps \<subseteq> completed_tasks r then pending_tasks r else pending_tasks r @ [tid])"
  "submitted_tasks (link_task now tid t ps req r)
     = (if ps \<subseteq> completed_tasks r then insert tid (submitted_tasks r) else submitted_tasks r)"
  "events (link_task now tid t ps req r) = events r" "event_seq (link_task now tid t ps req r) = event_seq r"
  by (simp_all add: link_task_def Let_def is_task_ready_def dgetd_def status_start_run)

lemma link_task_ready:
  "is_task_ready (link_task now tid t ps req r) x
     = (if x = tid then ps \<subseteq> completed_tasks r else is_task_ready r x)"
  by (simp add: is_task_ready_def link_task_frame dgetd_def)

lemma link_task_run_ok:
  assumes ok: "run_ok r" and act: "\<not> is_terminal r" and new: "\<not> dhas tid (dtasks r)"
    and ps: "ps \<subseteq> set (dkeys (dtasks r))" and lim: "int (length (dtasks r)) < max_tasks r"
  shows "run_ok (link_task now tid t ps req r)"
proof -
  let ?r = "link_task now tid t ps req r"
  have sh: "shape_ok r" and ac: "active_ok r" using ok act by (simp_all add: run_ok_def)
  have newk: "tid \<notin> set (dkeys (dtasks r))" using new by (simp add: dhas_dkeys)
  have newp: "\<not> dhas tid (task_parents r)" using newk sh by (simp add: shape_ok_def dhas_dkeys)
  have keys: "dkeys (dtasks ?r) = dkeys (dtasks r) @ [tid]"
    by (simp add: link_task_frame dkeys_dput_fresh [OF new])
  have par: "task_parents ?r = task_parents r @ [(tid, ps)]"
    by (simp add: link_task_frame dput_new [OF newp])
  have "parents_earlier {} (task_parents ?r)"
    unfolding par parents_earlier_append using sh ps by (simp add: shape_ok_def)
  moreover have "dkeys (task_parents ?r) = dkeys (dtasks ?r)"
    using sh unfolding keys par by (simp add: shape_ok_def dkeys_def)
  moreover have "int (length (dtasks ?r)) \<le> max 0 (max_tasks ?r)"
    using lim by (simp add: link_task_frame length_dput_new [OF new])
  moreover have "distinct (dkeys (dtasks ?r))" using sh newk by (simp add: keys shape_ok_def)
  moreover have "map_of (request_ids ?r) q = Some x \<Longrightarrow> x \<in> set (dkeys (dtasks ?r))" for q x
    using sh by (auto simp: keys link_task_frame(3) shape_ok_def split: if_splits)
  ultimately have "shape_ok ?r" unfolding shape_ok_def by blast
  moreover have "active_ok ?r"
  proof -
    have rd: "x \<in> set (dkeys (dtasks r)) \<Longrightarrow> is_task_ready ?r x = is_task_ready r x" for x
      using newk by (auto simp: link_task_ready)
    have "pending_tasks ?r = filter (\<lambda>x. \<not> is_task_ready ?r x) (dkeys (dtasks ?r))"
      using ac rd by (simp add: active_ok_def keys link_task_frame(11) link_task_ready cong: filter_cong)
    moreover have "submitted_tasks ?r = {x \<in> set (dkeys (dtasks ?r)). is_task_ready ?r x}"
      using ac rd newk by (auto simp: active_ok_def keys link_task_frame(12) link_task_ready)
    ultimately show ?thesis using ac by (auto simp: active_ok_def link_task_frame(7-10))
  qed
  ultimately show ?thesis by (simp add: run_ok_def)
qed

text \<open>The end of a run keeps its shape, and a terminal run has nothing else to keep.\<close>

lemma run_ok_terminal: "shape_ok r \<Longrightarrow> shape s = shape r \<Longrightarrow> is_terminal s \<Longrightarrow> run_ok s"
  using shape_ok_cong [of s r] by (simp add: run_ok_def)

lemma run_ok_ended: "run_ok r \<Longrightarrow> shape s = shape r \<Longrightarrow> is_terminal s \<Longrightarrow> run_ok s"
  by (rule run_ok_terminal [of r]) (simp_all add: run_ok_def)

lemma run_ok_timed_out: "run_ok r \<Longrightarrow> run_ok ((end_active now err ''timed_out'' r)\<lparr>failure_reason := err\<rparr>)"
  by (rule run_ok_terminal [of r]) (simp_all add: run_ok_def end_active_terminal terminal_statuses_def)

text \<open>Operations that touch neither the tasks nor the sets keep the invariant.\<close>

definition core where
  "core r = (pending_tasks r, submitted_tasks r, completed_tasks r, failed_tasks r, finalized r, failed r)"

lemma run_ok_frame:
  assumes "run_ok r" and "shape s = shape r" and "core s = core r"
    and "status s = status r \<or> status r = ''created'' \<and> status s = ''running''"
  shows "run_ok s"
proof -
  have rd: "is_task_ready s x = is_task_ready r x" for x
    using assms(2,3) by (intro is_task_ready_frame) (simp_all add: shape_def core_def)
  have t: "is_terminal s = is_terminal r"
    using assms(4) by (auto simp: is_terminal_def terminal_statuses_def)
  have "active_ok r \<Longrightarrow> active_ok s"
    using assms(2-4) rd by (auto simp: active_ok_def core_def shape_def)
  then show ?thesis
    using assms(1) t shape_ok_cong [OF assms(2)] by (simp add: run_ok_def)
qed


lemma mark_finished_frame:
  fixes now t ft r
  assumes "\<not> is_terminal r"
  defines "s \<equiv> fst (mark_finished now t ft r)"
  shows "shape s = shape r" "completed_tasks s = insert t (completed_tasks r)" "status s = status r"
    "failed_tasks s = failed_tasks r" "finalized s = finalized r" "failed s = failed r"
    "task_parents s = task_parents r"
    "pending_tasks s = filter (\<lambda>x. \<not> is_task_ready s x) (pending_tasks r)"
    "submitted_tasks s = submitted_tasks r \<union> {x \<in> set (pending_tasks r). is_task_ready s x}"
    "snd (mark_finished now t ft r) = filter (is_task_ready s) (pending_tasks r)"
  using assms by (auto simp: mark_finished_def Let_def shape_def is_task_ready_def [abs_def])

lemma mark_finished_ready:
  assumes "\<not> is_terminal r" and "is_task_ready r x"
  shows "is_task_ready (fst (mark_finished now t ft r)) x"
  using assms(2) by (auto simp: is_task_ready_def mark_finished_frame(2,7) [OF assms(1)])

lemma mark_finished_run_ok:
  assumes ok: "run_ok r" and act: "\<not> is_terminal r"
  shows "run_ok (fst (mark_finished now t ft r))"
proof -
  let ?s = "fst (mark_finished now t ft r)"
  note fr = mark_finished_frame [OF act, of now t ft]
  note mono = mark_finished_ready [OF act, of _ now t ft]
  have ac: "active_ok r" using ok act by (simp add: run_ok_def)
  have keys: "dkeys (dtasks ?s) = dkeys (dtasks r)" using fr(1) by (simp add: shape_def)
  have pend: "pending_tasks r = filter (\<lambda>x. \<not> is_task_ready r x) (dkeys (dtasks r))"
    and subm: "submitted_tasks r = {x \<in> set (dkeys (dtasks r)). is_task_ready r x}"
    using ac by (simp_all add: active_ok_def)
  have "pending_tasks ?s = filter (\<lambda>x. \<not> is_task_ready ?s x) (dkeys (dtasks ?s))"
    unfolding fr(8) pend keys filter_filter by (rule filter_cong) (use mono in auto)
  moreover have "submitted_tasks ?s = {x \<in> set (dkeys (dtasks ?s)). is_task_ready ?s x}"
    unfolding fr(9) subm pend keys using mono by auto
  ultimately have "active_ok ?s" using ac fr(3-6) by (simp add: active_ok_def)
  then show ?thesis using ok shape_ok_cong [OF fr(1)] by (simp add: run_ok_def)
qed

lemma run_ok_register: "run_ok r \<Longrightarrow> run_ok (fst (register_task_spec now s r))"
proof (cases rule: check_can_mutate_cases [of now "''register task specs''" r])
  case ok
  assume "run_ok r"
  then show ?thesis
    by (rule run_ok_frame) (simp_all add: register_task_spec_def ok shape_def core_def)
qed (simp_all add: register_task_spec_def run_ok_timed_out)

lemma run_ok_append:
  assumes "run_ok r" and "\<not> dhas tid (dtasks r)"
  shows "run_ok (fst (append_task now tid s inputs parents req over anchor r))"
  using assms
  by (cases rule: append_task_cases [of now tid s inputs parents req over anchor r])
    (simp_all add: run_ok_timed_out link_task_run_ok)

lemma run_ok_started: "run_ok r \<Longrightarrow> run_ok (mark_started_run now t r)"
proof (cases "is_terminal r")
  case False
  assume "run_ok r"
  then show ?thesis
    by (rule run_ok_frame) (use False in \<open>simp_all add: mark_started_run_def shape_def core_def status_start_run\<close>)
qed (simp add: mark_started_run_def)

lemma run_ok_retrying: "run_ok r \<Longrightarrow> run_ok (mark_retrying now t err ft r)"
  by (erule run_ok_frame) (simp_all add: mark_retrying_def shape_def core_def)

lemma run_ok_failed: "run_ok r \<Longrightarrow> run_ok (mark_failed now t why ft r)"
proof (cases "is_terminal r")
  case False
  assume "run_ok r"
  then show ?thesis
    by (intro run_ok_terminal [of r])
      (use False in \<open>simp_all add: run_ok_def mark_failed_def shape_def is_terminal_def terminal_statuses_def\<close>)
qed (simp add: mark_failed_def)

lemma run_ok_finalize: "run_ok r \<Longrightarrow> run_ok (fst (finalize now res r))"
proof (cases rule: check_can_mutate_cases [of now "''finalize''" r])
  case ok
  assume "run_ok r"
  then show ?thesis
  proof (cases "finalized r \<or> \<not> can_finalize r")
    case True
    with ok \<open>run_ok r\<close> show ?thesis by (auto simp: finalize_def)
  next
    case False
    with ok \<open>run_ok r\<close> show ?thesis
      by (intro run_ok_terminal [of r])
        (simp_all add: run_ok_def finalize_def shape_def is_terminal_def terminal_statuses_def)
  qed
qed (simp_all add: finalize_def run_ok_timed_out)

lemma run_ok_cancel: "run_ok r \<Longrightarrow> run_ok (fst (cancel now why r))"
proof (cases rule: check_can_mutate_cases [of now "''cancel''" r])
  case ok
  assume "run_ok r"
  then show ?thesis
  proof (cases "status r = ''canceled''")
    case False
    then show ?thesis
      by (intro run_ok_ended [OF \<open>run_ok r\<close>])
        (simp_all add: ok cancel_def is_terminal_def end_active_def terminal_statuses_def shape_def)
  qed (simp add: cancel_def)
qed (simp_all add: cancel_def run_ok_timed_out)

lemma run_ok_interrupt: "run_ok r \<Longrightarrow> run_ok (fst (interrupt now why r))"
proof (cases "is_terminal r")
  case False
  assume "run_ok r"
  from this show ?thesis
    by (rule run_ok_ended)
      (use False in \<open>simp_all add: interrupt_def is_terminal_def end_active_def terminal_statuses_def shape_def\<close>)
qed (simp add: interrupt_def)

lemma run_ok_perform: "run_ok r \<Longrightarrow> fresh a r \<Longrightarrow> run_ok (perform a r)"
proof (cases a)
  case (Finished now t ft)
  assume "run_ok r"
  then have "run_ok (fst (mark_finished now t ft r))"
    using mark_finished_run_ok [of r now t ft] by (cases "is_terminal r") (simp_all add: mark_finished_def)
  then show ?thesis by (simp add: Finished)
next
  case (Deadline now)
  assume "run_ok r"
  with Deadline show ?thesis using timed_out_cases [of now r] run_ok_timed_out by fastforce
next
  case (Emit now ts e)
  assume "run_ok r"
  then show ?thesis by (rule run_ok_frame) (simp_all add: Emit append_event_def Let_def shape_def core_def)
next
  case (Metadata now v)
  assume "run_ok r"
  then show ?thesis
    by (rule run_ok_frame) (simp_all add: Metadata update_metadata_def shape_def core_def split: pyval.splits)
next
  case (Manifest now t v)
  assume "run_ok r"
  then show ?thesis
    by (rule run_ok_frame) (simp_all add: Manifest set_task_file_manifest_def shape_def core_def)
next
  case (Fault now t v)
  assume "run_ok r"
  then show ?thesis by (rule run_ok_frame) (simp_all add: Fault shape_def core_def)
qed (simp_all add: run_ok_register run_ok_append run_ok_started run_ok_retrying run_ok_failed run_ok_finalize
    run_ok_cancel run_ok_interrupt)

lemma run_ok_new: "run_ok (new_run now rid limit timeout files meta)"
  by (simp add: run_ok_def shape_ok_def active_ok_def new_run_def dkeys_def)

lemma reachable_run_ok: "reachable_run r \<Longrightarrow> run_ok r"
  by (induction rule: reachable_run.induct) (auto intro: run_ok_new run_ok_perform)


lemma shape_perform:
  "shape (perform a r) = shape r \<or>
   (\<exists>now tid t ps req. perform a r = link_task now tid t ps req r \<and> get_task_for_request_id r req = None)"
proof (cases a)
  case (Register now s)
  then show ?thesis
    by (cases rule: check_can_mutate_cases [of now "''register task specs''" r])
      (simp_all add: register_task_spec_def shape_def end_active_def)
next
  case (Append now tid s inputs parents req over anchor)
  show ?thesis
  proof (cases rule: append_task_cases [of now tid s inputs parents req over anchor r])
    case (linked t ps)
    then show ?thesis
      unfolding Append perform.simps by (intro disjI2 exI [of _ now] exI [of _ tid] exI [of _ t]) blast
  qed (simp_all add: Append)
next
  case (Finished now t ft)
  have "shape (fst (mark_finished now t ft r)) = shape r"
    by (cases "is_terminal r") (simp_all add: mark_finished_frame(1), simp add: mark_finished_def)
  then show ?thesis by (simp add: Finished)
next
  case (Finalize now res)
  then show ?thesis
    by (cases rule: check_can_mutate_cases [of now "''finalize''" r])
      (simp_all add: finalize_def shape_def end_active_def)
next
  case (Cancel now why)
  then show ?thesis
    by (cases rule: check_can_mutate_cases [of now "''cancel''" r])
      (simp_all add: cancel_def shape_def end_active_def)
next
  case (Deadline now)
  then show ?thesis using timed_out_cases [of now r] by (auto simp: shape_def end_active_def)
qed (simp_all add: shape_def mark_started_run_def mark_retrying_def mark_failed_def interrupt_def
    end_active_def append_event_def Let_def update_metadata_def set_task_file_manifest_def split: pyval.splits)

lemma request_kept_step:
  "map_of (request_ids r) q = Some t \<Longrightarrow> map_of (request_ids (perform a r)) q = Some t"
  using shape_perform [of a r]
  by (auto simp: shape_def link_task_frame(3) get_task_for_request_id_def split: if_splits)

lemma request_kept:
  "later r s \<Longrightarrow> map_of (request_ids r) q = Some t \<Longrightarrow> map_of (request_ids s) q = Some t"
  by (induction rule: later.induct) (auto intro: request_kept_step)

lemma parents_earlier_rank:
  "parents_earlier {} d \<Longrightarrow> distinct (dkeys d) \<Longrightarrow>
   \<exists>f :: string \<Rightarrow> nat. (\<forall>x \<in> set (dkeys d). f x < length d)
     \<and> (\<forall>t ps. map_of d t = Some ps \<longrightarrow> (\<forall>p \<in> ps. p \<in> set (dkeys d) \<and> f p < f t))"
proof (induction d rule: rev_induct)
  case (snoc e d)
  obtain t ps where e: "e = (t, ps)" by (cases e)
  have new: "t \<notin> set (dkeys d)" and dd: "distinct (dkeys d)" and pe: "parents_earlier {} d"
    and ps: "ps \<subseteq> set (dkeys d)"
    using snoc.prems unfolding e parents_earlier_append by (auto simp: dkeys_def)
  obtain f :: "string \<Rightarrow> nat" where f: "\<forall>x \<in> set (dkeys d). f x < length d"
    "\<forall>t ps. map_of d t = Some ps \<longrightarrow> (\<forall>p \<in> ps. p \<in> set (dkeys d) \<and> f p < f t)"
    using snoc.IH [OF pe dd] by blast
  let ?f = "f(t := length d)"
  have old: "map_of d x = Some qs \<Longrightarrow> x \<noteq> t" for x qs using new map_of_dkeys by metis
  have keys: "set (dkeys (d @ [e])) = insert t (set (dkeys d))" by (simp add: e dkeys_def)
  have "\<forall>x \<in> set (dkeys (d @ [e])). ?f x < length (d @ [e])"
    using f(1) by (auto simp: keys less_Suc_eq)
  moreover have "p \<in> set (dkeys (d @ [e])) \<and> ?f p < ?f x"
    if "map_of (d @ [e]) x = Some qs" "p \<in> qs" for x qs p
  proof (cases "map_of d x")
    case None
    with that have "x = t" "qs = ps" by (auto simp: map_of_app e split: if_splits)
    with that(2) ps new f(1) show ?thesis by (auto simp: keys)
  next
    case (Some rs)
    with that have "qs = rs" by (simp add: map_of_app)
    with that(2) Some f(2) old [OF Some] new show ?thesis by (auto simp: keys)
  qed
  ultimately show ?case by blast
qed (simp add: dkeys_def)

lemma run_ok_acyclic: assumes "run_ok r" shows "acyclic (graph_edges r)"
proof -
  have "parents_earlier {} (task_parents r)" "distinct (dkeys (task_parents r))"
    using assms by (simp_all add: run_ok_def shape_ok_def)
  from parents_earlier_rank [OF this] obtain f :: "string \<Rightarrow> nat" where
    "\<forall>t ps. map_of (task_parents r) t = Some ps \<longrightarrow> (\<forall>p \<in> ps. p \<in> set (dkeys (task_parents r)) \<and> f p < f t)"
    by blast
  then have "graph_edges r \<subseteq> measure f" by (auto simp: graph_edges_def)
  then show ?thesis by (meson wf_acyclic wf_measure wf_subset)
qed

lemma run_ok_edges: assumes "run_ok r" shows "graph_edges r \<subseteq> set (dkeys (dtasks r)) \<times> set (dkeys (dtasks r))"
proof -
  have "parents_earlier {} (task_parents r)" "distinct (dkeys (task_parents r))"
    and k: "dkeys (task_parents r) = dkeys (dtasks r)"
    using assms by (simp_all add: run_ok_def shape_ok_def)
  from parents_earlier_rank [OF this(1,2)] show ?thesis
    unfolding k [symmetric] by (auto simp: graph_edges_def intro: map_of_dkeys)
qed

text \<open>A completed history of an append with a request id: the id is known from then on.\<close>

lemma append_records_request:
  assumes "append_task now tid s inputs parents (Some q) over anchor r = (r1, Inr (t, dup))" and "q \<noteq> []"
  shows "map_of (request_ids r1) q = Some t"
proof (cases rule: check_can_mutate_cases [of now "''append tasks''" r])
  case ok
  with assms show ?thesis
    by (auto simp: append_task_def get_task_for_request_id_def present_def link_task_frame(3)
        split: option.splits if_splits sum.splits)
qed (use assms in \<open>simp_all add: append_task_def\<close>)

lemma append_known_request:
  assumes "map_of (request_ids r) q = Some t" and "q \<noteq> []"
  shows "append_task now tid s inputs parents (Some q) over anchor r = (r, Inr (t, True))
    \<or> is_terminal (fst (append_task now tid s inputs parents (Some q) over anchor r))
      \<and> (\<exists>e. snd (append_task now tid s inputs parents (Some q) over anchor r) = Inl e)"
proof (cases rule: check_can_mutate_cases [of now "''append tasks''" r])
  case ok
  with assms show ?thesis by (simp add: append_task_def get_task_for_request_id_def present_def)
next
  case (refused e)
  then show ?thesis by (simp add: append_task_def)
next
  case (late e err)
  then show ?thesis by (simp add: append_task_def end_active_terminal terminal_statuses_def)
qed


text \<open>The dynamic run provides the event-log contract.\<close>

lemma mark_timed_out_events [simp]:
  "events (fst (mark_timed_out_if_needed now r)) = events r"
  "event_seq (fst (mark_timed_out_if_needed now r)) = event_seq r"
  using timed_out_cases [of now r] by (auto simp: end_active_def)

lemma check_can_mutate_events [simp]:
  "events (fst (check_can_mutate now a r)) = events r"
  "event_seq (fst (check_can_mutate now a r)) = event_seq r"
  by (simp_all add: check_can_mutate_def Let_def)

lemma append_task_events [simp]:
  "events (fst (append_task now tid s inputs parents req over anchor r)) = events r"
  "event_seq (fst (append_task now tid s inputs parents req over anchor r)) = event_seq r"
  by (cases rule: append_task_cases [of now tid s inputs parents req over anchor r];
      simp add: end_active_def link_task_frame)+

lemma events_quiet:
  assumes "\<nexists>now ts e. a = Emit now ts e"
  shows "events (perform a r) = events r \<and> event_seq (perform a r) = event_seq r"
proof (cases a)
  case (Emit now ts e)
  with assms show ?thesis by blast
next
  case (Register now s)
  then show ?thesis
    by (cases rule: check_can_mutate_cases [of now "''register task specs''" r])
      (simp_all add: register_task_spec_def end_active_def)
next
  case (Finalize now res)
  then show ?thesis
    by (cases rule: check_can_mutate_cases [of now "''finalize''" r])
      (simp_all add: finalize_def end_active_def)
next
  case (Cancel now why)
  then show ?thesis
    by (cases rule: check_can_mutate_cases [of now "''cancel''" r]) (simp_all add: cancel_def end_active_def)
qed (simp_all add: mark_started_run_def mark_finished_def Let_def mark_retrying_def mark_failed_def
    interrupt_def end_active_def update_metadata_def set_task_file_manifest_def split: pyval.splits)

interpretation dyn_events: event_log events event_seq perform
proof
  fix a r
  show "events (perform a r) = events r \<and> event_seq (perform a r) = event_seq r
    \<or> (\<exists>e. events (perform a r) = events r @ [e] \<and> event_seq (perform a r) = Suc (event_seq r)
           \<and> seq_number e = int (Suc (event_seq r)))"
  proof (cases "\<exists>now ts e. a = Emit now ts e")
    case True
    then obtain now ts e where a: "a = Emit now ts e" by blast
    show ?thesis by (auto simp: a append_event_def Let_def seq_number_ddel)
  next
    case False
    then show ?thesis using events_quiet [of a r] by blast
  qed
qed

lemma reachable_keeps: "reachable_run r \<Longrightarrow> dyn_events.keeps r"
proof (induction rule: reachable_run.induct)
  case (new now rid limit timeout files meta)
  show ?case by (simp add: dyn_events.keeps_def new_run_def)
qed (rule dyn_events.keeps_step)

lemma later_frozen_aux: "later r s \<Longrightarrow> is_terminal r \<Longrightarrow> lifecycle s = lifecycle r \<and> is_terminal s"
proof (induction rule: later.induct)
  case (then_ s a)
  then have "lifecycle (perform a s) = lifecycle s" by (simp add: terminal_frozen)
  with then_ show ?case by (simp add: lifecycle_def is_terminal_def)
qed simp

lemma can_finalize_iff:
  assumes "run_ok r" and "\<not> is_terminal r"
  shows "can_finalize r \<longleftrightarrow> set (dkeys (dtasks r)) \<subseteq> completed_tasks r \<and> running_tasks r = {}"
proof -
  have ac: "active_ok r" using assms by (simp add: run_ok_def)
  have "pending_tasks r = []" if all: "set (dkeys (dtasks r)) \<subseteq> completed_tasks r"
  proof -
    have "is_task_ready r t" for t
      using run_ok_edges [OF assms(1)] all
      by (fastforce simp: is_task_ready_def graph_edges_def dgetd_def split: option.splits)
    then show ?thesis using ac by (simp add: active_ok_def)
  qed
  then show ?thesis using ac by (auto simp: can_finalize_def active_ok_def list_all_iff)
qed


section \<open>Properties\<close>

text \<open>
  the end of a dynamic run is final. Once a run is finalized, failed, canceled, timed out or
  interrupted, no sequence of later requests and scheduler messages changes its status, results,
  tasks, task sets, errors, request ids or specs; appends and registrations are refused with the
  error of that end, and a late finish message releases no task.
\<close>

theorem dynamic_end_is_final:
  assumes "is_terminal r" and "later r s"
  shows "lifecycle s = lifecycle r
    \<and> append_task now tid sp inputs parents req over anchor s = (s, Inl (terminal_error ''append tasks'' s))
    \<and> register_task_spec now sp s = (s, Inl (terminal_error ''register task specs'' s))
    \<and> mark_finished now t ft s = (s, [])"
  using later_frozen_aux [OF assms(2,1)]
  by (simp_all add: append_task_def register_task_spec_def check_can_mutate_terminal mark_finished_def)

definition sample_spec :: task_spec where
  "sample_spec =
     \<lparr>spec_id = ''s'', spec_name = ''step'', spec_code_str = VStr ''pass'', spec_code_ser = VNone,
      spec_inputs = [], spec_outputs = [], spec_anchor = VNone, spec_kind = ''cpu'',
      spec_resources = base_resources 1 0 0,
      spec_ref_type = VStr ''inline'', spec_path = VNone, spec_hash = VNone, spec_preview = VNone,
      spec_max_retries = VNone, spec_backoff = VInt 0, spec_retry_on = VNone, spec_timeout = VNone\<rparr>"

lemma sample_run_semantics:
  "normalize_resources (VDict (base_resources 1 0 0)) = Inr (base_resources 1 0 0)"
  "normalize_task_semantics VNone (VDict (base_resources 1 0 0)) VNone = Inr (''cpu'', base_resources 1 0 0)"
  "normalize_task_semantics (VStr ''cpu'') (VDict (base_resources 1 0 0)) VNone = Inr (''cpu'', base_resources 1 0 0)"
proof -
  have m: "model_memory_mib [] = 0" by (simp add: model_memory_mib_def vor_def mib_def)
  have base: "normalize_resources (VDict (base_resources 1 0 0)) = Inr (base_resources 1 0 0)"
    by (simp add: normalize_resources_def normalize_raw_def pick_amount_def first_match_def given_def
        check_limit_def copy_hints_def hint_given_def base_resources_def int_value_int resource_hint_keys_def)
  then show "normalize_resources (VDict (base_resources 1 0 0)) = Inr (base_resources 1 0 0)" .
  show n: "normalize_task_semantics VNone (VDict (base_resources 1 0 0)) VNone = Inr (''cpu'', base_resources 1 0 0)"
  proof -
    have "vget (base_resources 1 0 0) ''gpu_mem'' = VInt 0" by (simp add: base_resources_def)
    with m base show ?thesis
      by (simp add: normalize_task_semantics_def apply_model_anchor_estimate_def normalize_task_kind_def
          validate_task_resources_def task_kinds_def int_value_int)
  qed
  show "normalize_task_semantics (VStr ''cpu'') (VDict (base_resources 1 0 0)) VNone
      = Inr (''cpu'', base_resources 1 0 0)"
    by (rule task_semantics_fixed_point_aux [OF n])
qed

lemma sample_merge: "merge_dynamic_resources (VDict (base_resources 1 0 0)) [] = Inr (base_resources 1 0 0)"
proof -
  have "at_least ''io_num'' 0 (at_least ''gpu_mem'' 0 (at_least ''cpu_num'' 1 (base_resources 1 0 0)))
      = base_resources 1 0 0"
    by (simp add: at_least_def base_resources_def)
  moreover have "vget (base_resources 1 0 0) ''target_node_id'' = VNone" "vget (base_resources 1 0 0) ''node_id'' = VNone"
    "vget (base_resources 1 0 0) ''required_capability'' = VNone"
    by (simp_all add: base_resources_def)
  ultimately show ?thesis
    by (simp add: merge_dynamic_resources_def sample_run_semantics set_number_def set_str_def vor_def Let_def)
qed

lemma sample_task:
  "\<exists>t. build_dynamic_task now tid sample_spec [] [] VNone r = Inr (t, [])"
  by (simp add: build_dynamic_task_def sample_spec_def build_task_input_def known_input_params_def
      sample_merge sample_run_semantics save_task_def dkeys_def)

lemma sample_append_links:
  assumes "\<not> is_terminal r" and "timeout_seconds r = VNone" and "get_task_for_request_id r q = None"
    and "int (length (dtasks r)) < max_tasks r" and "list_all (\<lambda>p. dhas p (dtasks r)) ps"
  shows "\<exists>t. append_task now tid sample_spec [] ps q [] VNone r = (link_task now tid t (set ps) q r, Inr (tid, False))"
proof -
  obtain t where t: "build_dynamic_task now tid sample_spec [] [] VNone r = Inr (t, [])" using sample_task by blast
  have "check_can_mutate now ''append tasks'' r = (r, Inr ())"
    using assms(1,2) by (simp add: check_can_mutate_def mark_timed_out_if_needed_def time_limit_def)
  with t assms(3-) show ?thesis
    by (intro exI [of _ "\<lparr>dt_task = t, dt_spec = spec_id sample_spec, dt_request = q\<rparr>"])
      (simp add: append_task_def)
qed

definition sample_new :: drun where
  "sample_new = new_run 0 ''r'' 5 VNone VNone []"

abbreviation sample_append :: "string \<Rightarrow> string list \<Rightarrow> string option \<Rightarrow> dyn_op" where
  "sample_append t ps q \<equiv> Append 1 t sample_spec [] ps q [] VNone"

text \<open>Two tasks, the second waiting for the first, which has finished.\<close>

definition sample_ops :: "dyn_op list" where
  "sample_ops = [sample_append ''a'' [] (Some ''q''), sample_append ''b'' [''a''] None, Started 2 ''a'',
                 Finished 3 ''a'' VNone]"

definition sample_run :: drun where
  "sample_run = fold perform sample_ops sample_new"

lemma sample_run_ex:
  obtains ta tb where "sample_run = fst (mark_finished 3 ''a'' VNone (mark_started_run 2 ''a''
      (link_task 1 ''b'' tb {''a''} None (link_task 1 ''a'' ta {} (Some ''q'') sample_new))))"
proof -
  have "\<exists>t. append_task 1 ''a'' sample_spec [] [] (Some ''q'') [] VNone sample_new
      = (link_task 1 ''a'' t (set []) (Some ''q'') sample_new, Inr (''a'', False))"
    by (rule sample_append_links)
      (simp_all add: sample_new_def new_run_def is_terminal_def terminal_statuses_def get_task_for_request_id_def)
  then obtain ta where a: "append_task 1 ''a'' sample_spec [] [] (Some ''q'') [] VNone sample_new
      = (link_task 1 ''a'' ta {} (Some ''q'') sample_new, Inr (''a'', False))" by auto
  let ?r = "link_task 1 ''a'' ta {} (Some ''q'') sample_new"
  have "\<exists>t. append_task 1 ''b'' sample_spec [] [''a''] None [] VNone ?r
      = (link_task 1 ''b'' t (set [''a'']) None ?r, Inr (''b'', False))"
    by (rule sample_append_links)
      (simp_all add: sample_new_def new_run_def is_terminal_def terminal_statuses_def get_task_for_request_id_def
        link_task_def present_def is_task_ready_def dgetd_def start_run_def dput_def)
  then obtain tb where "append_task 1 ''b'' sample_spec [] [''a''] None [] VNone ?r
      = (link_task 1 ''b'' tb {''a''} None ?r, Inr (''b'', False))" by auto
  with a show thesis by (intro that [of tb ta]) (simp add: sample_run_def sample_ops_def)
qed

lemmas sample_run_simps = sample_new_def new_run_def is_terminal_def terminal_statuses_def link_task_def
  present_def is_task_ready_def dgetd_def start_run_def dput_def mark_started_run_def mark_finished_def
  on_task_def set_fault_tolerance_def dkeys_def

lemma sample_run_facts:
  "status sample_run = ''running''" "pending_tasks sample_run = []" "submitted_tasks sample_run = {''a'', ''b''}"
  "completed_tasks sample_run = {''a''}" "running_tasks sample_run = {}" "dkeys (dtasks sample_run) = [''a'', ''b'']"
  "map_of (request_ids sample_run) ''q'' = Some ''a''" "timeout_seconds sample_run = VNone"
  "event_seq sample_run = 0" "finalized sample_run = False"
proof -
  obtain ta tb where s: "sample_run = fst (mark_finished 3 ''a'' VNone (mark_started_run 2 ''a''
      (link_task 1 ''b'' tb {''a''} None (link_task 1 ''a'' ta {} (Some ''q'') sample_new))))"
    by (rule sample_run_ex)
  define r where "r = link_task 1 ''b'' tb {''a''} None (link_task 1 ''a'' ta {} (Some ''q'') sample_new)"
  define u where "u = mark_started_run 2 ''a'' r"
  have run: "sample_run = fst (mark_finished 3 ''a'' VNone u)" by (simp add: s r_def u_def)
  have r: "status r = ''running''" "pending_tasks r = [''b'']" "submitted_tasks r = {''a''}" "completed_tasks r = {}"
    "running_tasks r = {}" "dkeys (dtasks r) = [''a'', ''b'']" "request_ids r = [(''q'', ''a'')]"
    "task_parents r = [(''a'', {}), (''b'', {''a''})]" "event_seq r = 0" "finalized r = False"
    by (simp_all add: r_def link_task_frame sample_new_def new_run_def present_def dput_def dkeys_def)
  have t: "timeout_seconds r = VNone"
    by (simp add: r_def link_task_def Let_def start_run_def sample_new_def new_run_def)
  have u: "\<not> is_terminal u" "pending_tasks u = [''b'']" "submitted_tasks u = {''a''}" "completed_tasks u = {}"
    "running_tasks u = {''a''}" "dkeys (dtasks u) = [''a'', ''b'']" "request_ids u = [(''q'', ''a'')]"
    "task_parents u = [(''a'', {}), (''b'', {''a''})]" "event_seq u = 0" "status u = ''running''" "finalized u = False"
    "timeout_seconds u = VNone"
    using r t by (simp_all add: u_def mark_started_run_def is_terminal_def terminal_statuses_def status_start_run)
      (simp add: start_run_def on_task_def split: option.splits)
  note f = mark_finished_frame [OF u(1), of 3 "''a''" VNone, folded run]
  have ready: "is_task_ready sample_run ''b''" using f(2,7) u by (simp add: is_task_ready_def dgetd_def)
  show "status sample_run = ''running''" "pending_tasks sample_run = []" "submitted_tasks sample_run = {''a'', ''b''}"
    "completed_tasks sample_run = {''a''}" "dkeys (dtasks sample_run) = [''a'', ''b'']"
    "map_of (request_ids sample_run) ''q'' = Some ''a''" "finalized sample_run = False"
    using f u ready by (auto simp: shape_def)
  show "running_tasks sample_run = {}" "timeout_seconds sample_run = VNone" "event_seq sample_run = 0"
    using u by (simp_all add: run mark_finished_def Let_def set_fault_tolerance_def on_task_def split: option.splits)
qed

lemma sample_run_reachable: "reachable_run sample_run"
proof -
  have f: "\<not> dhas ''b'' (dtasks (perform (sample_append ''a'' [] (Some ''q'')) sample_new))"
    using sample_append_links [of sample_new "Some ''q''" "[]" 1 "''a''"]
    by (auto simp: sample_run_simps get_task_for_request_id_def)
  show ?thesis
    unfolding sample_run_def sample_ops_def fold.simps comp_def id_def sample_new_def
    by (intro reachable_run.intros)
      (use f in \<open>simp_all add: sample_new_def new_run_def\<close>)
qed


lemma sample_active: "\<not> is_terminal sample_run"
  by (simp add: is_terminal_def terminal_statuses_def sample_run_facts)

lemma sample_not_late: "mark_timed_out_if_needed now sample_run = (sample_run, False)"
  by (simp add: mark_timed_out_if_needed_def time_limit_def sample_run_facts)

theorem dynamic_end_is_final_witness:
  "\<exists>r. is_terminal r \<and> lifecycle (perform (Finished 6 ''b'' VNone) r) = lifecycle r
     \<and> mark_finished 7 ''b'' VNone r = (r, [])"
proof -
  let ?r = "fst (interrupt 5 VNone sample_run)"
  have t: "is_terminal ?r"
    using end_active_terminal [of "''interrupted''"] sample_active by (simp add: interrupt_def terminal_statuses_def)
  have l: "later ?r (perform (Finished 6 ''b'' VNone) ?r)"
    by (rule later.then_ [OF later.same]) simp
  show ?thesis
    using t dynamic_end_is_final [OF t l, THEN conjunct1]
      dynamic_end_is_final [OF t later.same, THEN conjunct2, THEN conjunct2, THEN conjunct2] by blast
qed

text \<open>
  C29: tasks of a dynamic run are released exactly. While the run is active its submitted tasks are
  the tasks whose parents have all completed and its pending tasks are the others, in the order they
  were appended; when a task finishes, the tasks handed to the scheduler are the tasks that this
  finish unblocked, each once.
\<close>

theorem dynamic_release_exact:
  assumes "reachable_run r" and "\<not> is_terminal r"
    and m: "mark_finished now t ft r = (s, ready)"
  shows "submitted_tasks r = {x \<in> set (dkeys (dtasks r)). is_task_ready r x}
    \<and> pending_tasks r = filter (\<lambda>x. \<not> is_task_ready r x) (dkeys (dtasks r))
    \<and> completed_tasks s = insert t (completed_tasks r) \<and> distinct ready
    \<and> set ready = {x \<in> set (dkeys (dtasks r)). \<not> is_task_ready r x \<and> is_task_ready s x}"
proof -
  have ok: "shape_ok r" "active_ok r"
    using reachable_run_ok [OF assms(1)] assms(2) by (simp_all add: run_ok_def)
  have p: "pending_tasks r = filter (\<lambda>x. \<not> is_task_ready r x) (dkeys (dtasks r))"
    using ok(2) by (simp add: active_ok_def)
  have "ready = filter (is_task_ready s) (pending_tasks r)" "completed_tasks s = insert t (completed_tasks r)"
    using mark_finished_frame(10,2) [OF assms(2), of now t ft] m by simp_all
  then show ?thesis
    using ok by (auto simp: p shape_ok_def active_ok_def)
qed

theorem dynamic_release_exact_witness:
  "reachable_run sample_run \<and> is_task_ready sample_run ''b'' \<and> pending_tasks sample_run = []
     \<and> completed_tasks (fst (mark_finished 9 ''b'' VNone sample_run)) = {''a'', ''b''}"
proof -
  obtain s ready where m: "mark_finished 9 ''b'' VNone sample_run = (s, ready)" by (cases "mark_finished 9 ''b'' VNone sample_run")
  note d = dynamic_release_exact [OF sample_run_reachable sample_active m]
  have "''b'' \<in> submitted_tasks sample_run" by (simp add: sample_run_facts)
  then have "is_task_ready sample_run ''b''" using d by blast
  with d m show ?thesis by (auto simp: sample_run_reachable sample_run_facts)
qed

text \<open>
  the graph of a dynamic run is an acyclic graph over its own tasks, however clients append, and
  the run never holds more than \<open>max_tasks\<close> tasks.
\<close>

theorem dynamic_graph_acyclic:
  assumes "reachable_run r"
  shows "acyclic (graph_edges r)
    \<and> graph_edges r \<subseteq> set (dkeys (dtasks r)) \<times> set (dkeys (dtasks r))
    \<and> int (length (dtasks r)) \<le> max 0 (max_tasks r)"
  using reachable_run_ok [OF assms] run_ok_acyclic run_ok_edges by (auto simp: run_ok_def shape_ok_def)

theorem dynamic_graph_acyclic_witness:
  "acyclic (graph_edges sample_run) \<and> length (dtasks sample_run) = 2"
  using dynamic_graph_acyclic [OF sample_run_reachable] length_dkeys [of "dtasks sample_run"]
  by (simp add: sample_run_facts)

text \<open>
  appends are idempotent in their request id. Once an append with a request id has returned a
  task, every later append with that id (whatever its other arguments, whatever happened since)
  returns the same task as an existing one and leaves the run unchanged, unless the run has ended, and
  then it is refused.
\<close>

theorem append_idempotent:
  assumes "append_task now tid sp inputs parents (Some q) over anchor r = (r1, Inr (t, dup))" and "q \<noteq> []"
    and "later r1 s"
  shows "append_task now' tid' sp' inputs' parents' (Some q) over' anchor' s = (s, Inr (t, True))
    \<or> is_terminal (fst (append_task now' tid' sp' inputs' parents' (Some q) over' anchor' s))
      \<and> (\<exists>e. snd (append_task now' tid' sp' inputs' parents' (Some q) over' anchor' s) = Inl e)"
  by (rule append_known_request [OF request_kept [OF assms(3) append_records_request [OF assms(1,2)]] assms(2)])

theorem append_idempotent_witness:
  "\<exists>r t. append_task 1 ''a'' sample_spec [] [] (Some ''q'') [] VNone sample_new = (r, Inr (''a'', False))
     \<and> append_task 4 ''z'' sample_spec [] [] (Some ''q'') [] VNone (perform (Started 2 ''a'') r)
       = (perform (Started 2 ''a'') r, Inr (''a'', True))"
proof -
  obtain t where a: "append_task 1 ''a'' sample_spec [] [] (Some ''q'') [] VNone sample_new
      = (link_task 1 ''a'' t (set []) (Some ''q'') sample_new, Inr (''a'', False))"
    using sample_append_links [of sample_new "Some ''q''" "[]" 1 "''a''"]
    by (auto simp: sample_run_simps get_task_for_request_id_def)
  let ?r = "link_task 1 ''a'' t (set []) (Some ''q'') sample_new"
  let ?s = "perform (Started 2 ''a'') ?r"
  have l: "later ?r ?s" by (rule later.then_ [OF later.same]) simp
  have st: "\<not> is_terminal ?r" "timeout_seconds ?r = VNone"
    by (simp_all add: sample_run_simps Let_def)
  then have act: "\<not> is_terminal ?s" and none: "timeout_seconds ?s = VNone"
    by (simp_all add: mark_started_run_def is_terminal_def terminal_statuses_def start_run_def on_task_def
        split: option.splits)
  have "check_can_mutate 4 ''append tasks'' ?s = (?s, Inr ())"
    using act none by (simp add: check_can_mutate_def mark_timed_out_if_needed_def time_limit_def)
  moreover have "get_task_for_request_id ?s (Some ''q'') = Some ''a''"
    using st(1) by (simp add: get_task_for_request_id_def mark_started_run_def link_task_frame present_def)
  ultimately have "fst (append_task 4 ''z'' sample_spec [] [] (Some ''q'') [] VNone ?s) = ?s"
    by (simp add: append_task_def del: perform.simps)
  with act have "append_task 4 ''z'' sample_spec [] [] (Some ''q'') [] VNone ?s = (?s, Inr (''a'', True))"
    using append_idempotent [OF a _ l, of 4 "''z''" sample_spec "[]" "[]" "[]" VNone] by (simp del: perform.simps)
  with a show ?thesis by blast
qed


text \<open>
  a run can be finalized exactly when its work is done. For an active run whose deadline has not
  passed, \<open>finalize\<close> succeeds if and only if every task has completed and none is running; it then
  stores the result and ends the run, and otherwise it changes nothing.
\<close>

theorem finalize_exact:
  assumes "reachable_run r" and "\<not> is_terminal r" and "mark_timed_out_if_needed now r = (r, False)"
  shows "finalize now res r =
    (if set (dkeys (dtasks r)) \<subseteq> completed_tasks r \<and> running_tasks r = {}
     then (r\<lparr>finalized := True, status := ''finalized'', finished_time := Some now, final_result := res,
             updated := now\<rparr>, Inr ())
     else (r, Inl (ValueError ''Dynamic run still has active tasks and cannot be finalized'')))"
proof -
  have ok: "run_ok r" by (rule reachable_run_ok [OF assms(1)])
  then have nf: "\<not> finalized r" using assms(2) by (simp add: run_ok_def active_ok_def)
  have "check_can_mutate now ''finalize'' r = (r, Inr ())"
    using assms(2,3) by (simp add: check_can_mutate_def)
  then show ?thesis using nf can_finalize_iff [OF ok assms(2)] by (simp add: finalize_def)
qed

theorem finalize_exact_witness:
  "finalize 8 (VInt 1) sample_run
     = (sample_run, Inl (ValueError ''Dynamic run still has active tasks and cannot be finalized''))"
  by (subst finalize_exact [OF sample_run_reachable sample_active sample_not_late]) (simp add: sample_run_facts)

text \<open>
  a successful cancel reports every task of the run as failed, the tasks that had completed
  included: \<open>submitted_tasks\<close> keeps a task after it finishes, so \<open>cancel\<close> adds finished tasks to
  \<open>failed_tasks\<close> (and overwrites their error), and the snapshot looks at \<open>failed_tasks\<close> first.
\<close>

theorem cancel_fails_completed_tasks:
  assumes "reachable_run r" and "cancel now why r = (s, Inr True)" and "t \<in> set (dkeys (dtasks r))"
  shows "completed_tasks s = completed_tasks r \<and> task_status s t = ''failed''"
proof -
  have nc: "status r \<noteq> ''canceled''" using assms(2) by (auto simp: cancel_def)
  show ?thesis
  proof (cases rule: check_can_mutate_cases [of now "''cancel''" r])
    case ok
    then have "active_ok r" using reachable_run_ok [OF assms(1)] by (simp add: run_ok_def)
    then have "t \<in> active_ids r" using assms(3) by (auto simp: active_ok_def active_ids_def)
    with ok nc assms(2) show ?thesis by (auto simp: cancel_def end_active_def task_status_def)
  qed (use nc assms(2) in \<open>simp_all add: cancel_def\<close>)
qed

theorem cancel_fails_completed_tasks_witness:
  "task_status sample_run ''a'' = ''completed'' \<and> task_status (fst (cancel 9 VNone sample_run)) ''a'' = ''failed''
     \<and> ''a'' \<in> completed_tasks (fst (cancel 9 VNone sample_run))"
proof -
  have "check_can_mutate 9 ''cancel'' sample_run = (sample_run, Inr ())"
    using sample_active sample_not_late [of 9] by (simp add: check_can_mutate_def)
  then obtain s where s: "cancel 9 VNone sample_run = (s, Inr True)"
    by (simp add: cancel_def sample_run_facts)
  have "failed_tasks sample_run = {}"
    using reachable_run_ok [OF sample_run_reachable] sample_active by (simp add: run_ok_def active_ok_def)
  then have "task_status sample_run ''a'' = ''completed''" by (simp add: task_status_def sample_run_facts)
  moreover have "''a'' \<in> set (dkeys (dtasks sample_run))" by (simp add: sample_run_facts)
  ultimately show ?thesis
    using cancel_fails_completed_tasks [OF sample_run_reachable s, of "''a''"] s by (simp add: sample_run_facts)
qed

text \<open>
  C32: polling the event log of a dynamic run is exact. A client that remembers the last sequence
  number of a reachable run and asks for the events after it, after any further operations, receives
  exactly the events recorded since, in order.
\<close>

theorem dynamic_poll_exact:
  assumes "reachable_run r"
  shows "events r @ get_events (Some (int (event_seq r))) (fold perform ops r) = events (fold perform ops r)"
  unfolding get_events_def by (rule dyn_events.poll_exact [OF reachable_keeps [OF assms]])

theorem dynamic_poll_exact_witness:
  "length (get_events (Some 0) (perform (Emit 1 ''t'' [(''type'', VStr ''x'')]) sample_run)) = 1"
proof -
  let ?ops = "[Emit 1 ''t'' [(''type'', VStr ''x'')]]"
  have "events sample_run = []"
    using reachable_keeps [OF sample_run_reachable] numbered_length
    by (fastforce simp: dyn_events.keeps_def sample_run_facts)
  moreover have "length (events (perform (Emit 1 ''t'' [(''type'', VStr ''x'')]) sample_run))
      = Suc (length (events sample_run))"
    by (simp add: append_event_def vor_def is_dict_def Let_def)
  ultimately show ?thesis
    using dynamic_poll_exact [OF sample_run_reachable, of ?ops] by (simp add: sample_run_facts del: perform.simps)
qed

end
