(* ===== verification/Run_Snapshot.thy ===== *)
theory Run_Snapshot
  imports PyValue "HOL-Library.List_Lexorder" "HOL-Library.Char_ord"
begin

text \<open>
  What the snapshots of static and dynamic runs share: the compact resource usage of a task
  (\<open>maze/metrics/usage.py\<close>), the view of a task's inputs and outputs and the rounded durations
  (\<open>workflow/static_run.py\<close>, \<open>workflow/dynamic.py\<close>).
\<close>

section \<open>Rounding\<close>

text \<open>\<open>round(q, 6)\<close>: to six decimals, ties to even. Floats are exact rationals here.\<close>

definition round_int :: "rat \<Rightarrow> int" where
  "round_int q = (let n = \<lfloor>q\<rfloor>; r = q - of_int n in if r < 1 / 2 \<or> (r = 1 / 2 \<and> even n) then n else n + 1)"

definition round6 :: "rat \<Rightarrow> rat" where
  "round6 q = of_int (round_int (q * 1000000)) / 1000000"

lemma round_int_of_int [simp]: "round_int (of_int n) = n"
  by (simp add: round_int_def)

lemma round_int_mono: "a \<le> b \<Longrightarrow> round_int a \<le> round_int b"
proof -
  assume ab: "a \<le> b"
  show ?thesis
  proof (cases "\<lfloor>a\<rfloor> = \<lfloor>b\<rfloor>")
    case True
    with ab show ?thesis by (auto simp: round_int_def Let_def)
  next
    case False
    with ab have "\<lfloor>a\<rfloor> + 1 \<le> \<lfloor>b\<rfloor>" using floor_mono [OF ab] by linarith
    moreover have "round_int a \<le> \<lfloor>a\<rfloor> + 1" "\<lfloor>b\<rfloor> \<le> round_int b" by (simp_all add: round_int_def Let_def)
    ultimately show ?thesis by linarith
  qed
qed

lemma round6_mono: "a \<le> b \<Longrightarrow> round6 a \<le> round6 b"
  unfolding round6_def by (intro divide_right_mono) (simp_all add: round_int_mono)

lemma round6_int [simp]: "round6 (of_int n) = of_int n"
proof -
  have "round_int (of_int n * 1000000) = n * 1000000"
    by (metis of_int_mult of_int_numeral round_int_of_int)
  then show ?thesis by (simp add: round6_def)
qed

lemma round6_0 [simp]: "round6 0 = 0" using round6_int [of 0] by simp

lemma round6_1 [simp]: "round6 1 = 1" using round6_int [of 1] by simp

text \<open>
  \<open>_duration_seconds\<close>: times are numbers or \<open>None\<close>. For any other value the code's subtraction would raise; a run only ever
  sets its times from the clock, so the definition gives \<open>None\<close> there.
\<close>

definition duration_seconds :: "pyval \<Rightarrow> pyval \<Rightarrow> pyval" where
  "duration_seconds started finished =
     (case (num_of started, num_of finished) of
        (Some a, Some b) \<Rightarrow> vnum (round6 (max 0 (b - a)))
      | _ \<Rightarrow> VNone)"

lemma duration_nonneg: "duration_seconds a b = vnum q \<Longrightarrow> 0 \<le> q"
  using round6_mono [of 0] by (fastforce simp: duration_seconds_def split: option.splits)

section \<open>Inputs and outputs\<close>

text \<open>The items of a dictionary sorted by key.\<close>

definition sorted_items :: "(string, 'a) dict \<Rightarrow> (string, 'a) dict" where
  "sorted_items d = sort_key fst d"

lemma set_sorted_items [simp]: "set (sorted_items d) = set d"
  by (simp add: sorted_items_def)

lemma dict_ok_sorted_items [simp]: "dict_ok (sorted_items d) = dict_ok d"
  unfolding dict_ok_def sorted_items_def distinct_map by (simp add: inj_on_def)

lemma map_of_sorted_items: "dict_ok d \<Longrightarrow> map_of (sorted_items d) k = map_of d k"
  by (metis dict_ok_sorted_items in_dict_iff not_None_eq set_sorted_items)

definition io_info :: "string \<times> pyval \<Rightarrow> pyval result" where
  "io_info p =
     (case snd p of
        VDict i \<Rightarrow> Inr (VDict [(''name'', vget i ''key''), (''data_type'', vgetd i ''data_type'' (VStr ''any'')),
          (''input_schema'', vget i ''input_schema''), (''value'', vget i ''value''),
          (''has_value'', vget i ''has_value'')])
      | _ \<Rightarrow> Inl (AttributeError ''get''))"

definition task_io_snapshot :: "pyval \<Rightarrow> pyval list result" where
  "task_io_snapshot io =
     (if \<not> truthy io then Inr []
      else rbind (or_empty io) (\<lambda>d.
           rbind (or_empty (vor (vget d ''input_params'') (vget d ''output_params''))) (\<lambda>ps.
           rmap io_info (sorted_items ps))))"

section \<open>Resource usage\<close>

definition usage_number :: "pyval \<Rightarrow> pyval" where
  "usage_number v =
     (case num_of v of None \<Rightarrow> VNone | Some q \<Rightarrow> if 0 \<le> q then v else VNone)"

definition larger :: "pyval \<Rightarrow> pyval \<Rightarrow> pyval" where
  "larger a b = (case (num_of a, num_of b) of (Some x, Some y) \<Rightarrow> if x < y then b else a | _ \<Rightarrow> a)"

definition max_number :: "pyval list \<Rightarrow> pyval" where
  "max_number vs = (case filter (\<lambda>v. v \<noteq> VNone) vs of [] \<Rightarrow> VNone | w # ws \<Rightarrow> foldl larger w ws)"

definition peak_sources :: "string list" where
  "peak_sources = [''gpu_memory_peak_allocated_bytes'', ''gpu_memory_peak_reserved_bytes'',
     ''peak_cuda_allocated_bytes'', ''peak_cuda_reserved_bytes'']"

definition average_cores :: "pyval \<Rightarrow> pyval \<Rightarrow> pyval \<Rightarrow> pyval" where
  "average_cores cpu_time duration reported =
     (case (num_of cpu_time, num_of duration) of
        (Some c, Some t) \<Rightarrow> if t \<noteq> 0 then vnum (c / t) else usage_number reported
      | _ \<Rightarrow> usage_number reported)"

definition resource_usage :: "pyval \<Rightarrow> pyval \<Rightarrow> pyval result" where
  "resource_usage metrics0 duration0 =
     rbind (or_empty metrics0) (\<lambda>metrics.
     if is_dict (vget metrics ''resource_usage'') then Inr (vget metrics ''resource_usage'')
     else rbind (or_empty (vget metrics ''model_instance'')) (\<lambda>model.
       let from_model = (vget model ''measurement_phase'' = VStr ''task_execution'');
           source = (if from_model then model else metrics);
           num = (\<lambda>k. usage_number (vget source k));
           duration = usage_number duration0;
           observed = num ''gpu_memory_peak_observed_bytes'';
           gpu_peak = (if observed = VNone \<and> \<not> from_model \<and> vget source ''memory_scope'' \<noteq> VStr ''model_instance''
                       then max_number (map num peak_sources) else observed)
       in Inr (VDict [(''duration_seconds'', duration),
            (''cpu'', VDict [(''time'', num ''cpu_time_seconds''),
               (''average_cores'', average_cores (num ''cpu_time_seconds'') duration (vget source ''cpu_average_cores'')),
               (''peak_cores'', num ''cpu_peak_cores'')]),
            (''memory'', VDict [(''process_rss_peak_bytes'', num ''process_rss_peak_bytes'')]),
            (''gpu'', VDict [(''memory_peak'', gpu_peak), (''utilization_peak'', num ''gpu_utilization_peak_percent'')]),
            (''disk'', VDict [(''read_bytes'', num ''process_io_read_bytes''),
               (''write_bytes'', num ''process_io_write_bytes'')])])))"

end
