(* ===== verification/Static_Run.thy ===== *)
theory Static_Run
  imports Workflow_Graph Event_Log Run_Snapshot
begin

text \<open>
  Static runs: \<open>StaticRun\<close> of \<open>maze/core/workflow/static_run.py\<close>. A run holds a dictionary per task
  (its node) with status, parents, children, times and results. \<open>to_json_safe\<close> and \<open>deepcopy\<close> are the
  identity on the JSON values of the model; the clock is an argument.
\<close>

section \<open>Task nodes\<close>

type_synonym task_node = "(string, pyval) dict"

definition upd :: "(string \<times> pyval) list \<Rightarrow> task_node \<Rightarrow> task_node" where
  "upd kvs n = foldl (\<lambda>d (k, v). dput k v d) n kvs"

definition upd_if :: "bool \<Rightarrow> string \<Rightarrow> pyval \<Rightarrow> task_node \<Rightarrow> task_node" where
  "upd_if b k v n = (if b then dput k v n else n)"

definition node_status :: "task_node \<Rightarrow> pyval" where
  "node_status n = vget n ''status''"

definition node_ids :: "task_node \<Rightarrow> string \<Rightarrow> string list" where
  "node_ids n k = (case vget n k of VList xs \<Rightarrow> map py_str xs | _ \<Rightarrow> [])"

definition open_statuses :: "pyval list" where
  "open_statuses = [VStr ''pending'', VStr ''queued'', VStr ''running'']"

definition is_open :: "task_node \<Rightarrow> bool" where
  "is_open n = (node_status n \<in> set open_statuses)"

definition succeeded :: "task_node \<Rightarrow> bool" where
  "succeeded n = (node_status n = VStr ''succeeded'')"

definition idle_fault_tolerance :: pyval where
  "idle_fault_tolerance = VDict [(''enabled'', VBool True), (''status'', VStr ''idle''), (''attempts'', VList [])]"

definition opt_dict :: "(string, pyval) dict option \<Rightarrow> pyval" where
  "opt_dict d = (case d of None \<Rightarrow> VNone | Some x \<Rightarrow> VDict x)"

definition new_node :: "workflow \<Rightarrow> string \<Rightarrow> code_task \<Rightarrow> task_node result" where
  "new_node w t c =
     (let parents = sort (predecessors w t); children = sort (successors w t)
      in rbind (task_io_snapshot (ct_input c)) (\<lambda>ins.
         rbind (task_io_snapshot (ct_output c)) (\<lambda>outs.
         Inr [(''task_id'', VStr t), (''task_name'', VStr (ct_name c)), (''task_kind'', VStr (ct_kind c)),
          (''status'', VStr (if parents \<noteq> [] then ''pending'' else ''queued'')),
          (''parents'', VList (map VStr parents)), (''children'', VList (map VStr children)),
          (''created_time'', vnum (ct_created c)), (''started_time'', VNone), (''finished_time'', VNone),
          (''duration_seconds'', VNone), (''resources'', opt_dict (ct_resources c)),
          (''model_anchor'', ct_model_anchor c), (''inputs'', VList ins), (''outputs'', VList outs),
          (''selected_node'', VNone), (''result_summary'', VNone), (''error'', VNone), (''attempt'', VInt 0),
          (''dispatch_id'', VNone), (''lease_id'', VNone), (''last_error'', VNone), (''pending_reason'', VNone),
          (''schedule_decision'', VNone), (''file_manifest'', VNone), (''fault_tolerance'', idle_fault_tolerance)])))"

section \<open>References in the final outputs\<close>

definition is_final_output_ref :: "pyval \<Rightarrow> bool" where
  "is_final_output_ref v = (case v of VDict d \<Rightarrow> vget d ''__maze_output_ref__'' = VBool True | _ \<Rightarrow> False)"

definition output_names :: "code_task \<Rightarrow> pyval list" where
  "output_names c =
     map (\<lambda>v. vget (dict_or_empty v) ''key'')
       (dvals (dict_or_empty (vgetd (dict_or_empty (ct_output c)) ''output_params'' (VDict []))))"

definition check_ref :: "workflow \<Rightarrow> (string, pyval) dict \<Rightarrow> unit result" where
  "check_ref w d =
     (if \<not> (vget d ''__maze_output_ref__'' = VBool True
            \<and> set (dkeys d) = {''__maze_output_ref__'', ''task_id'', ''output_key''})
      then Inl (ValueError ''Malformed final output reference'')
      else (case vget d ''task_id'' of
              VStr t \<Rightarrow>
                (case map_of (tasks w) t of
                   None \<Rightarrow> Inl (ValueError (''Unknown final output task: '' @ repr_str t))
                 | Some c \<Rightarrow>
                     if is_str (vget d ''output_key'') \<and> vget d ''output_key'' \<in> set (output_names c) then Inr ()
                     else Inl (ValueError (''Unknown final output '' @ py_repr (vget d ''output_key'') @ '' for task '' @ t)))
            | v \<Rightarrow> Inl (ValueError (''Unknown final output task: '' @ py_repr v))))"

fun validate_final_output_refs :: "workflow \<Rightarrow> pyval \<Rightarrow> unit result" where
  "validate_final_output_refs w (VDict d) =
     (if dhas ''__maze_output_ref__'' d then check_ref w d
      else rbind (rmap (\<lambda>(k, v). validate_final_output_refs w v) d) (\<lambda>_. Inr ()))"
| "validate_final_output_refs w (VList xs) =
     rbind (rmap (validate_final_output_refs w) xs) (\<lambda>_. Inr ())"
| "validate_final_output_refs w _ = Inr ()"

definition resolve_ref :: "(string, task_node) dict \<Rightarrow> (string, pyval) dict \<Rightarrow> pyval result" where
  "resolve_ref ns d =
     (case (vget d ''task_id'', vget d ''output_key'') of
        (VStr t, VStr k) \<Rightarrow>
          (case map_of ns t of
             None \<Rightarrow> Inl (KeyError t)
           | Some n \<Rightarrow>
               (case vget n ''result_summary'' of
                  VDict res \<Rightarrow> (if dhas k res then Inr (vget res k) else Inl (FinalOutputResolutionError t k))
                | _ \<Rightarrow> Inl (FinalOutputResolutionError t k)))
      | _ \<Rightarrow> Inl (KeyError ''task_id''))"

fun resolve_final_output_refs :: "(string, task_node) dict \<Rightarrow> pyval \<Rightarrow> pyval result" where
  "resolve_final_output_refs ns (VDict d) =
     (if vget d ''__maze_output_ref__'' = VBool True then resolve_ref ns d
      else rbind (rmap (\<lambda>(k, v). rbind (resolve_final_output_refs ns v) (\<lambda>x. Inr (k, x))) d) (\<lambda>kvs. Inr (VDict kvs)))"
| "resolve_final_output_refs ns (VList xs) =
     rbind (rmap (resolve_final_output_refs ns) xs) (\<lambda>ys. Inr (VList ys))"
| "resolve_final_output_refs ns v = Inr v"

section \<open>The run\<close>

record srun =
  srun_id :: string
  srun_workflow :: string
  sstatus :: string
  stimeout :: pyval
  stags :: "pyval list"
  smetadata :: "(string, pyval) dict"
  srun_inputs :: "(string, pyval) dict"
  screated :: time
  ssubmitted :: "time option"
  supdated :: time
  sstarted :: "time option"
  sfinished :: "time option"
  serror :: pyval
  sresult :: pyval
  srefs :: "pyval option"
  sevents :: "event list"
  sevent_seq :: nat
  scontinuations :: "(string, pyval) dict"
  sgraph :: "string list \<times> edges"
  snodes :: "(string, task_node) dict"

text \<open>\<open>final_output_refs\<close> is \<open>None\<close> when the caller left it unset.\<close>

definition new_static_run ::
    "time \<Rightarrow> string \<Rightarrow> string \<Rightarrow> workflow \<Rightarrow> pyval \<Rightarrow> pyval list \<Rightarrow> (string, pyval) dict \<Rightarrow> pyval option
     \<Rightarrow> (string, pyval) dict \<Rightarrow> srun result" where
  "new_static_run now rid wid w timeout tags meta refs inputs =
     rbind (case refs of None \<Rightarrow> Inr () | Some v \<Rightarrow> validate_final_output_refs w v) (\<lambda>_.
     rbind (rmap (\<lambda>(t, c). rbind (new_node w t c) (\<lambda>n. Inr (t, n))) (sorted_items (tasks w))) (\<lambda>ns.
     Inr \<lparr>srun_id = rid, srun_workflow = wid, sstatus = ''created'', stimeout = timeout, stags = tags,
          smetadata = meta, srun_inputs = inputs, screated = now, ssubmitted = None, supdated = now,
          sstarted = None, sfinished = None, serror = VNone, sresult = VNone, srefs = refs, sevents = [],
          sevent_seq = 0, scontinuations = [], sgraph = (sort (dkeys (tasks w)), sort_key fst (sort_key snd (g_edges w))), snodes = ns\<rparr>))"

definition static_terminal_statuses :: "string list" where
  "static_terminal_statuses = [''succeeded'', ''failed'', ''cancelled'', ''timed_out'', ''interrupted'']"

definition static_terminal :: "srun \<Rightarrow> bool" where
  "static_terminal r = (sstatus r \<in> set static_terminal_statuses)"

definition deadline_time :: "srun \<Rightarrow> rat option" where
  "deadline_time r =
     (let base = (case ssubmitted r of Some t \<Rightarrow> if t \<noteq> 0 then t else screated r | None \<Rightarrow> screated r)
      in map_option (\<lambda>t. base + t) (num_of (stimeout r)))"

definition static_seconds_until_timeout :: "time \<Rightarrow> srun \<Rightarrow> rat option" where
  "static_seconds_until_timeout now r =
     (if static_terminal r then None else map_option (\<lambda>d. max 0 (d - now)) (deadline_time r))"

definition end_node :: "time \<Rightarrow> string \<Rightarrow> pyval \<Rightarrow> task_node \<Rightarrow> task_node" where
  "end_node now status err n =
     (if is_open n
      then upd [(''status'', VStr status), (''finished_time'', vnum now),
                (''duration_seconds'', duration_seconds (vget n ''started_time'') (vnum now)),
                (''pending_reason'', VNone), (''error'', err)] n
      else n)"

definition static_error :: "string \<Rightarrow> string \<Rightarrow> pyval" where
  "static_error ty msg = VDict [(''error_type'', VStr ty), (''message'', VStr msg)]"

definition static_timed_out_if_needed :: "time \<Rightarrow> srun \<Rightarrow> srun \<times> bool" where
  "static_timed_out_if_needed now r =
     (case deadline_time r of
        None \<Rightarrow> (r, False)
      | Some d \<Rightarrow>
          if static_terminal r \<or> now \<le> d then (r, False)
          else (let msg = ''Run timed out after '' @ py_str (stimeout r) @ '' seconds''
                in (r\<lparr>sstatus := ''timed_out'',
                      serror := VDict [(''error_type'', VStr ''timeout''), (''message'', VStr msg),
                                       (''timeout_seconds'', stimeout r), (''deadline_time'', vnum d)],
                      sfinished := Some now,
                      snodes := dmapv (\<lambda>_. end_node now ''timed_out'' (static_error ''timeout'' msg)) (snodes r),
                      supdated := now\<rparr>, True)))"

section \<open>Progress of tasks\<close>

definition on_node :: "string \<Rightarrow> (task_node \<Rightarrow> task_node) \<Rightarrow> srun \<Rightarrow> srun" where
  "on_node t f r =
     (case map_of (snodes r) t of None \<Rightarrow> r | Some n \<Rightarrow> r\<lparr>snodes := dput t (f n) (snodes r)\<rparr>)"

definition static_mark_started :: "time \<Rightarrow> srun \<Rightarrow> srun" where
  "static_mark_started now r =
     r\<lparr>sstarted := (case sstarted r of None \<Rightarrow> Some now | Some t \<Rightarrow> Some t),
       sstatus := (if sstatus r = ''created'' then ''running'' else sstatus r), supdated := now\<rparr>"

definition mark_task_queued :: "time \<Rightarrow> string \<Rightarrow> srun \<Rightarrow> srun" where
  "mark_task_queued now t r =
     (case map_of (snodes r) t of
        None \<Rightarrow> r
      | Some n \<Rightarrow> if node_status n = VStr ''pending''
                  then (on_node t (upd [(''status'', VStr ''queued'')]) r)\<lparr>supdated := now\<rparr> else r)"

definition started_node :: "time \<Rightarrow> (string, pyval) dict \<Rightarrow> task_node \<Rightarrow> task_node" where
  "started_node now info n =
     (let sd = vor (vget info ''schedule_decision'') (VDict []); sdd = dict_or_empty sd;
          n1 = upd [(''status'', VStr ''running''), (''started_time'', vnum now), (''pending_reason'', VNone),
                    (''schedule_decision'', sd), (''declared_resources'', vget sdd ''declared_resources''),
                    (''resource_decision'', vget sdd ''resource_decision'')] n;
          n2 = upd_if (truthy (vget sdd ''requested_resources'')) ''resources'' (vget sdd ''requested_resources'') n1
      in upd [(''selected_node'', VDict [(''node_id'', vget info ''node_id''), (''node_ip'', vget info ''node_ip''),
                                         (''gpu_id'', vget info ''gpu_id'')]),
              (''attempt'', vor (vor (vget info ''attempt'') (vget n2 ''attempt'')) (VInt 1)),
              (''dispatch_id'', vget info ''dispatch_id''), (''lease_id'', vget info ''lease_id'')] n2)"

definition static_task_started :: "time \<Rightarrow> string \<Rightarrow> (string, pyval) dict \<Rightarrow> srun \<Rightarrow> srun" where
  "static_task_started now t info r = on_node t (started_node now info) (static_mark_started now r)"

definition pending_node :: "pyval \<Rightarrow> pyval \<Rightarrow> task_node \<Rightarrow> task_node" where
  "pending_node reason decision n =
     upd [(''pending_reason'', reason), (''schedule_decision'', decision)]
       (upd_if (node_status n \<in> {VStr ''pending'', VStr ''queued''}) ''status'' (VStr ''queued'') n)"

definition mark_task_pending :: "time \<Rightarrow> string \<Rightarrow> pyval \<Rightarrow> pyval \<Rightarrow> srun \<Rightarrow> srun" where
  "mark_task_pending now t reason decision r =
     (if dhas t (snodes r) then (on_node t (pending_node reason decision) r)\<lparr>supdated := now\<rparr> else r)"

definition with_fault :: "pyval \<Rightarrow> task_node \<Rightarrow> task_node" where
  "with_fault ft n = upd_if (truthy ft) ''fault_tolerance'' ft n"

text \<open>\<open>attempt\<close>, \<open>dispatch_id\<close> and \<open>lease_id\<close>, when they are given.\<close>

definition with_ids :: "pyval \<Rightarrow> pyval \<Rightarrow> pyval \<Rightarrow> task_node \<Rightarrow> task_node" where
  "with_ids attempt dispatch lease n =
     upd_if (lease \<noteq> VNone) ''lease_id'' lease (upd_if (dispatch \<noteq> VNone) ''dispatch_id'' dispatch
       (upd_if (attempt \<noteq> VNone) ''attempt'' attempt n))"

definition retry_node :: "pyval \<Rightarrow> pyval \<Rightarrow> pyval \<Rightarrow> (string, pyval) dict \<Rightarrow> task_node \<Rightarrow> task_node" where
  "retry_node err attempt ft info n =
     with_fault ft (with_ids (vgetd info ''attempt'' attempt) (vget info ''dispatch_id'') (vget info ''lease_id'')
       (upd [(''status'', VStr ''queued''), (''last_error'', err), (''error'', VNone), (''pending_reason'', VNone)] n))"

definition mark_task_retry ::
    "time \<Rightarrow> string \<Rightarrow> pyval \<Rightarrow> pyval \<Rightarrow> pyval \<Rightarrow> (string, pyval) dict \<Rightarrow> srun \<Rightarrow> srun" where
  "mark_task_retry now t err attempt ft info r =
     (if dhas t (snodes r) then (on_node t (retry_node err attempt ft info) r)\<lparr>supdated := now\<rparr> else r)"

definition error_is_timeout :: "pyval \<Rightarrow> bool" where
  "error_is_timeout v = (case v of VDict d \<Rightarrow> vget d ''error_type'' = VStr ''timeout'' | _ \<Rightarrow> False)"

definition published :: "pyval \<Rightarrow> bool" where
  "published v = (case v of VDict d \<Rightarrow> vget d ''published'' = VBool True | _ \<Rightarrow> False)"

definition failed_node ::
    "time \<Rightarrow> pyval \<Rightarrow> pyval \<Rightarrow> pyval \<Rightarrow> pyval \<Rightarrow> pyval \<Rightarrow> pyval \<Rightarrow> task_node \<Rightarrow> task_node" where
  "failed_node now err manifest ft attempt dispatch lease n =
     with_fault ft (with_ids attempt dispatch lease (upd_if (published manifest) ''file_manifest'' manifest
       (upd [(''status'', VStr (if error_is_timeout err then ''timed_out'' else ''failed'')),
             (''finished_time'', vnum now),
             (''duration_seconds'', duration_seconds (vget n ''started_time'') (vnum now)),
             (''error'', err), (''last_error'', err)] n)))"

definition mark_task_failed ::
    "time \<Rightarrow> string \<Rightarrow> pyval \<Rightarrow> pyval \<Rightarrow> pyval \<Rightarrow> pyval \<Rightarrow> pyval \<Rightarrow> pyval \<Rightarrow> srun \<Rightarrow> srun" where
  "mark_task_failed now t err manifest ft attempt dispatch lease r =
     (on_node t (failed_node now err manifest ft attempt dispatch lease) r)
       \<lparr>sstatus := (if error_is_timeout err then ''timed_out'' else ''failed''), serror := err,
        sfinished := Some now, supdated := now\<rparr>"

definition parents_succeeded :: "srun \<Rightarrow> string \<Rightarrow> bool" where
  "parents_succeeded r t =
     list_all (\<lambda>p. case map_of (snodes r) p of None \<Rightarrow> False | Some n \<Rightarrow> succeeded n)
       (case map_of (snodes r) t of None \<Rightarrow> [] | Some n \<Rightarrow> node_ids n ''parents'')"

definition all_tasks_finished :: "srun \<Rightarrow> bool" where
  "all_tasks_finished r = list_all succeeded (dvals (snodes r))"

definition final_result :: "srun \<Rightarrow> pyval result" where
  "final_result r =
     (case srefs r of
        Some refs \<Rightarrow> resolve_final_output_refs (snodes r) refs
      | None \<Rightarrow> Inr (VDict (map (\<lambda>(t, n). (t, vget n ''result_summary''))
                            (filter (\<lambda>(t, n). succeeded n) (sorted_items (snodes r))))))"

definition mark_succeeded :: "time \<Rightarrow> srun \<Rightarrow> srun result" where
  "mark_succeeded now r =
     (if sstatus r = ''succeeded'' then Inr r
      else rbind (final_result r) (\<lambda>res.
           Inr (r\<lparr>sstatus := ''succeeded'', sfinished := Some now, sresult := res, supdated := now\<rparr>)))"

text \<open>A finish message, with the fields \<open>mark_task_finished\<close> takes.\<close>

record finish_msg =
  f_result :: pyval
  f_manifest :: pyval
  f_metrics :: pyval
  f_started :: pyval
  f_finished :: pyval
  f_duration_ms :: pyval
  f_node :: pyval
  f_fault :: pyval
  f_attempt :: pyval
  f_dispatch :: pyval
  f_lease :: pyval

definition finished_node :: "time \<Rightarrow> finish_msg \<Rightarrow> task_node \<Rightarrow> task_node" where
  "finished_node now m n =
     (let n1 = upd_if (f_started m \<noteq> VNone) ''started_time'' (f_started m) (upd [(''status'', VStr ''succeeded'')] n);
          fin = vor (f_finished m) (vnum now);
          n2 = upd [(''finished_time'', fin), (''duration_seconds'', duration_seconds (vget n1 ''started_time'') fin)] n1;
          n3 = upd_if (f_duration_ms m \<noteq> VNone) ''duration_ms'' (f_duration_ms m) n2;
          n4 = upd_if (truthy (f_node m)) ''selected_node''
                 (VDict (dput ''node_id'' (f_node m) (dict_or_empty (vget n3 ''selected_node'')))) n3
      in with_fault (f_fault m)
           (upd [(''metrics'', vor (f_metrics m) (VDict [])), (''result_summary'', f_result m),
                 (''file_manifest'', f_manifest m), (''pending_reason'', VNone)]
             (with_ids (f_attempt m) (f_dispatch m) (f_lease m) n4)))"

text \<open>A child that waited only for this task becomes queued.\<close>

definition queue_child :: "srun \<Rightarrow> string \<Rightarrow> srun" where
  "queue_child r c =
     (case map_of (snodes r) c of
        None \<Rightarrow> r
      | Some n \<Rightarrow> if node_status n = VStr ''pending'' \<and> parents_succeeded r c
                  then on_node c (upd [(''status'', VStr ''queued'')]) r else r)"

definition resolution_detail :: "string \<Rightarrow> string \<Rightarrow> string \<Rightarrow> pyval" where
  "resolution_detail finishing t k =
     VDict [(''error_type'', VStr ''final_output_resolution''),
       (''message'', VStr (''Task '' @ t @ '' did not return final output '' @ repr_str k)),
       (''details'', VDict [(''finishing_task_id'', VStr finishing), (''referenced_task_id'', VStr t),
                            (''output_key'', VStr k)])]"

text \<open>
  \<open>mark_task_finished\<close>: when the last task finishes and the final outputs cannot be resolved, the run
  is put back to what it was and the finishing task is marked failed instead. \<open>mark_succeeded\<close> raises
  no other error on references that were validated; another one would leave the method.
\<close>

definition mark_task_finished :: "time \<Rightarrow> string \<Rightarrow> finish_msg \<Rightarrow> srun \<Rightarrow> (srun \<times> pyval) result" where
  "mark_task_finished now t m r =
     (case map_of (snodes r) t of
        None \<Rightarrow> Inr (r, VNone)
      | Some n \<Rightarrow>
          if succeeded n then Inr (r, VNone)
          else
            (let r1 = on_node t (finished_node now m) r;
                 r2 = foldl queue_child r1 (node_ids n ''children'')
             in if all_tasks_finished r2
                then (case mark_succeeded now r2 of
                        Inr r3 \<Rightarrow> Inr (r3, VNone)
                      | Inl (FinalOutputResolutionError rt k) \<Rightarrow>
                          (let err = resolution_detail t rt k
                           in Inr (mark_task_failed now t err VNone (f_fault m) (f_attempt m) (f_dispatch m)
                                     (f_lease m) r, err))
                      | Inl e \<Rightarrow> Inl e)
                else Inr (r2\<lparr>supdated := now\<rparr>, VNone)))"

section \<open>Ending a run\<close>

definition mark_cancelled :: "time \<Rightarrow> pyval \<Rightarrow> srun \<Rightarrow> srun" where
  "mark_cancelled now reason r =
     (if static_terminal r then r
      else r\<lparr>sstatus := ''cancelled'', serror := VDict [(''message'', vor reason (VStr ''Run cancelled''))],
             sfinished := Some now,
             snodes := dmapv (\<lambda>_ n. upd_if (is_open n) ''status'' (VStr ''cancelled'') n) (snodes r),
             supdated := now\<rparr>)"

definition mark_interrupted :: "time \<Rightarrow> pyval \<Rightarrow> srun \<Rightarrow> srun \<times> bool" where
  "mark_interrupted now reason r =
     (if static_terminal r then (r, False)
      else (let msg = vor reason (VStr ''Head process restarted before run completed'')
            in (r\<lparr>sstatus := ''interrupted'', serror := VDict [(''message'', msg)], sfinished := Some now,
                  snodes := dmapv (\<lambda>_. end_node now ''cancelled''
                    (VDict [(''error_type'', VStr ''interrupted''), (''message'', msg)])) (snodes r),
                  supdated := now\<rparr>, True)))"

section \<open>Events and views\<close>

definition event_data :: "srun \<Rightarrow> event \<Rightarrow> event" where
  "event_data r ev =
     (case vor (vget ev ''data'') (VDict []) of
        VDict d \<Rightarrow> dput ''data'' (VDict (dsetdefault ''run_status'' (VStr (sstatus r))
                     (dsetdefault ''workflow_id'' (VStr (srun_workflow r))
                       (dsetdefault ''run_id'' (VStr (srun_id r)) d)))) ev
      | _ \<Rightarrow> ev)"

definition static_append_event :: "time \<Rightarrow> string \<Rightarrow> event \<Rightarrow> srun \<Rightarrow> srun \<times> event" where
  "static_append_event now ts ev r =
     (let n = sevent_seq r + 1; e = stamp_event n ts (event_data r ev)
      in (r\<lparr>sevent_seq := n, sevents := sevents r @ [e], supdated := now\<rparr>, e))"

definition static_get_events :: "int option \<Rightarrow> srun \<Rightarrow> event list" where
  "static_get_events after r = events_after after (sevents r)"

definition count_status :: "srun \<Rightarrow> string \<Rightarrow> nat" where
  "count_status r s = length (filter (\<lambda>n. node_status n = VStr s) (dvals (snodes r)))"

definition static_task_counts :: "srun \<Rightarrow> (string, nat) dict" where
  "static_task_counts r =
     (''total'', length (snodes r))
       # map (\<lambda>s. (s, count_status r s))
           [''pending'', ''queued'', ''running'', ''succeeded'', ''failed'', ''cancelled'', ''timed_out'']"

definition completed_count :: "srun \<Rightarrow> nat" where
  "completed_count r =
     dgetd (static_task_counts r) ''succeeded'' 0 + dgetd (static_task_counts r) ''failed'' 0
     + dgetd (static_task_counts r) ''cancelled'' 0 + dgetd (static_task_counts r) ''timed_out'' 0"

definition progress_fraction :: "srun \<Rightarrow> rat" where
  "progress_fraction r =
     round6 (of_nat (completed_count r) / of_nat (if length (snodes r) = 0 then 1 else length (snodes r)))"

definition opt_time :: "time option \<Rightarrow> pyval" where
  "opt_time t = (case t of None \<Rightarrow> VNone | Some q \<Rightarrow> vnum q)"

definition node_view :: "task_node \<Rightarrow> pyval result" where
  "node_view n =
     rbind (resource_usage (vget n ''metrics'') (vget n ''duration_seconds'')) (\<lambda>u.
     Inr (VDict (dput ''resource_usage'' u n)))"

definition static_snapshot :: "srun \<Rightarrow> pyval result" where
  "static_snapshot r =
     rbind (rmap (\<lambda>(t, n). rbind (node_view n) (\<lambda>v. Inr (t, v))) (snodes r)) (\<lambda>views.
     Inr (VDict [(''schema'', VStr ''static_run''), (''schema_version'', VInt 1), (''kind'', VStr ''static''),
       (''run_type'', VStr ''static''), (''run_id'', VStr (srun_id r)), (''workflow_id'', VStr (srun_workflow r)),
       (''status'', VStr (sstatus r)), (''timeout_seconds'', stimeout r),
       (''deadline_time'', opt_time (deadline_time r)), (''tags'', VList (stags r)),
       (''metadata'', VDict (smetadata r)), (''run_inputs'', VDict (srun_inputs r)),
       (''created_time'', vnum (screated r)), (''submitted_time'', opt_time (ssubmitted r)),
       (''updated_time'', vnum (supdated r)), (''started_time'', opt_time (sstarted r)),
       (''finished_time'', opt_time (sfinished r)),
       (''duration_seconds'', duration_seconds (opt_time (sstarted r)) (opt_time (sfinished r))),
       (''progress'', VDict [(''completed'', VInt (int (completed_count r))),
          (''total'', VInt (int (length (snodes r)))), (''fraction'', vnum (progress_fraction r))]),
       (''task_counts'', VDict (map (\<lambda>(k, v). (k, VInt (int v))) (static_task_counts r))),
       (''task_nodes'', VDict views),
       (''graph'', VDict [(''nodes'', VList (map VStr (fst (sgraph r)))),
          (''edges'', VList (map (\<lambda>(s, t). VDict [(''source'', VStr s), (''target'', VStr t)]) (snd (sgraph r))))]),
       (''event_count'', VInt (int (length (sevents r)))), (''last_event_seq'', VInt (int (sevent_seq r))),
       (''finish_continuations'', VDict (scontinuations r)),
       (''result_summary'', sresult r),
       (''final_output_refs'', (case srefs r of None \<Rightarrow> VNone | Some v \<Rightarrow> v)),
       (''error_summary'', serror r)]))"

section \<open>A submission that failed\<close>

text \<open>The end of a run whose submission failed (\<open>_mark_static_dispatch_failed\<close> of \<open>path.py\<close>), whatever its status was.\<close>

definition cancelled_node :: "time \<Rightarrow> pyval \<Rightarrow> task_node \<Rightarrow> task_node" where
  "cancelled_node now err n =
     (if is_open n
      then upd [(''status'', VStr ''cancelled''), (''finished_time'', vnum now), (''pending_reason'', VNone), (''error'', err)] n
      else n)"

definition fail_static_run :: "time \<Rightarrow> pyval \<Rightarrow> srun \<Rightarrow> srun" where
  "fail_static_run now err r =
     r\<lparr>sstatus := ''failed'', sfinished := Some now, serror := err, snodes := dmapv (\<lambda>_. cancelled_node now err) (snodes r), supdated := now\<rparr>"

section \<open>Histories of a run\<close>

text \<open>
  What reaches a run. The core drops a scheduler message for a run that has ended
  (\<open>path.py\<close>, the scheduler loop and \<open>_handle_static_finish_scheduler_event\<close>), and marks the task failed
  once more when its finish returned an error. A submission that failed ends the run directly (\<open>unsent\<close>).
\<close>

datatype static_op =
    SQueued time string
  | SStarted time string "(string, pyval) dict"
  | SPending time string pyval pyval
  | SRetry time string pyval pyval pyval "(string, pyval) dict"
  | SFinished time string finish_msg
  | SFailed time string pyval pyval pyval pyval pyval pyval
  | SDeadline time
  | SCancel time pyval
  | SInterrupt time pyval
  | SEmit time string event

definition deliver_finish :: "time \<Rightarrow> string \<Rightarrow> finish_msg \<Rightarrow> srun \<Rightarrow> srun" where
  "deliver_finish now t m r =
     (case mark_task_finished now t m r of
        Inl e \<Rightarrow> r
      | Inr (r', err) \<Rightarrow>
          if err = VNone then r'
          else mark_task_failed now t err VNone (f_fault m) (f_attempt m) (f_dispatch m) (f_lease m) r')"

fun message :: "static_op \<Rightarrow> srun \<Rightarrow> srun" where
  "message (SStarted now t info) r = static_task_started now t info r"
| "message (SPending now t reason decision) r = mark_task_pending now t reason decision r"
| "message (SRetry now t err attempt ft info) r = mark_task_retry now t err attempt ft info r"
| "message (SFinished now t m) r = deliver_finish now t m r"
| "message (SFailed now t err manifest ft attempt dispatch lease) r =
     mark_task_failed now t err manifest ft attempt dispatch lease r"
| "message (SQueued now t) r = mark_task_queued now t r"
| "message _ r = r"

fun static_perform :: "static_op \<Rightarrow> srun \<Rightarrow> srun" where
  "static_perform (SDeadline now) r = fst (static_timed_out_if_needed now r)"
| "static_perform (SCancel now why) r = mark_cancelled now why r"
| "static_perform (SInterrupt now why) r = fst (mark_interrupted now why r)"
| "static_perform (SEmit now ts e) r = fst (static_append_event now ts e r)"
| "static_perform a r = (if static_terminal r then r else message a r)"

inductive reachable_static :: "workflow \<Rightarrow> srun \<Rightarrow> bool" for w where
  new: "new_static_run now rid wid w timeout tags meta refs inputs = Inr r \<Longrightarrow> reachable_static w r"
| step: "reachable_static w r \<Longrightarrow> reachable_static w (static_perform a r)"
| unsent: "reachable_static w r \<Longrightarrow> reachable_static w (fail_static_run now err r)"

section \<open>Nodes\<close>

lemma vget_upd [simp]:
  "vget (upd kvs n) k = (case map_of (rev kvs) k of Some v \<Rightarrow> v | None \<Rightarrow> vget n k)"
proof (induction kvs arbitrary: n)
  case (Cons p kvs)
  then show ?case by (cases p) (auto simp: upd_def map_of_app split: option.splits)
qed (simp add: upd_def)

lemma vget_upd_if [simp]: "vget (upd_if b k v n) x = (if b \<and> x = k then v else vget n x)"
  by (simp add: upd_if_def)

lemmas node_defs = started_node_def pending_node_def with_fault_def with_ids_def retry_node_def failed_node_def
  finished_node_def end_node_def Let_def

text \<open>No operation touches the links of a node.\<close>

definition links :: "task_node \<Rightarrow> pyval \<times> pyval" where
  "links n = (vget n ''parents'', vget n ''children'')"

lemma links_kept [simp]:
  "links (started_node now info n) = links n" "links (pending_node a b n) = links n"
  "links (retry_node e a ft i n) = links n" "links (failed_node now e mf ft a d l n) = links n"
  "links (finished_node now m n) = links n" "links (end_node now s e n) = links n"
  "links (upd [(''status'', v)] n) = links n" "links (upd_if c ''status'' v n) = links n"
  by (simp_all add: links_def node_defs)

lemma links_ids: "links n = links n' \<Longrightarrow> node_ids n ''parents'' = node_ids n' ''parents''"
  "links n = links n' \<Longrightarrow> node_ids n ''children'' = node_ids n' ''children''"
  by (simp_all add: links_def node_ids_def)

lemma node_status_after [simp]:
  "node_status (started_node now info n) = VStr ''running''"
  "node_status (retry_node e a ft i n) = VStr ''queued''"
  "node_status (failed_node now e mf ft a d l n) = VStr (if error_is_timeout e then ''timed_out'' else ''failed'')"
  "node_status (finished_node now m n) = VStr ''succeeded''"
  "node_status (pending_node a b n)
     = (if node_status n \<in> {VStr ''pending'', VStr ''queued''} then VStr ''queued'' else node_status n)"
  "node_status (end_node now s e n) = (if is_open n then VStr s else node_status n)"
  "node_status (upd [(''status'', v)] n) = v"
  by (simp_all add: node_status_def node_defs)

lemma on_node_fields [simp]:
  "sstatus (on_node t f r) = sstatus r" "srefs (on_node t f r) = srefs r"
  "sevents (on_node t f r) = sevents r" "sevent_seq (on_node t f r) = sevent_seq r"
  "dkeys (snodes (on_node t f r)) = dkeys (snodes r)" "length (snodes (on_node t f r)) = length (snodes r)"
  by (auto simp: on_node_def dkeys_dput_same length_dput_old dhas_iff split: option.splits)

lemma map_of_on_node [simp]:
  "map_of (snodes (on_node t f r)) x = (if x = t then map_option f (map_of (snodes r) x) else map_of (snodes r) x)"
  by (auto simp: on_node_def split: option.splits)


section \<open>The invariant\<close>

definition node_statuses :: "pyval list" where
  "node_statuses = map VStr [''pending'', ''queued'', ''running'', ''succeeded'', ''failed'', ''cancelled'', ''timed_out'']"

definition node_ok :: "workflow \<Rightarrow> srun \<Rightarrow> string \<Rightarrow> task_node \<Rightarrow> bool" where
  "node_ok w r t n =
     (node_status n \<in> set node_statuses
      \<and> links n = (VList (map VStr (sort (predecessors w t))), VList (map VStr (sort (successors w t))))
      \<and> (node_status n = VStr ''pending'' \<longrightarrow> \<not> parents_succeeded r t))"

definition static_ok :: "workflow \<Rightarrow> srun \<Rightarrow> bool" where
  "static_ok w r =
     (dict_ok (snodes r) \<and> dkeys (snodes r) = dkeys (sorted_items (tasks w))
      \<and> (\<forall>t n. map_of (snodes r) t = Some n \<longrightarrow> node_ok w r t n)
      \<and> (\<forall>v. srefs r = Some v \<longrightarrow> validate_final_output_refs w v = Inr ())
      \<and> sstatus r \<in> set (''created'' # ''running'' # static_terminal_statuses)
      \<and> (sstatus r = ''succeeded'' \<longrightarrow> all_tasks_finished r)
      \<and> (\<not> static_terminal r \<and> snodes r \<noteq> [] \<longrightarrow> \<not> all_tasks_finished r))"

definition succ_set :: "srun \<Rightarrow> string set" where
  "succ_set r = {t. \<exists>n. map_of (snodes r) t = Some n \<and> succeeded n}"

lemma node_ids_links:
  "links n = (VList (map VStr ps), VList (map VStr cs)) \<Longrightarrow> node_ids n ''parents'' = ps \<and> node_ids n ''children'' = cs"
  by (simp add: links_def node_ids_def comp_def)

lemma parents_succeeded_iff:
  assumes "map_of (snodes r) t = Some n" and "links n = (VList (map VStr ps), cs)"
  shows "parents_succeeded r t \<longleftrightarrow> set ps \<subseteq> succ_set r"
proof -
  have "node_ids n ''parents'' = ps" using assms(2) by (simp add: links_def node_ids_def comp_def)
  then show ?thesis
    using assms(1) by (auto simp: parents_succeeded_def succ_set_def list_all_iff split: option.splits)
qed

lemma all_finished_iff: "dict_ok (snodes r) \<Longrightarrow> all_tasks_finished r \<longleftrightarrow> set (dkeys (snodes r)) \<subseteq> succ_set r"
proof -
  assume ok: "dict_ok (snodes r)"
  have "all_tasks_finished r \<longleftrightarrow> (\<forall>k n. map_of (snodes r) k = Some n \<longrightarrow> succeeded n)"
    unfolding all_tasks_finished_def list_all_iff using in_dvals_iff [OF ok] by blast
  also have "\<dots> \<longleftrightarrow> set (dkeys (snodes r)) \<subseteq> succ_set r"
  proof
    assume a: "\<forall>k n. map_of (snodes r) k = Some n \<longrightarrow> succeeded n"
    show "set (dkeys (snodes r)) \<subseteq> succ_set r"
    proof
      fix t
      assume "t \<in> set (dkeys (snodes r))"
      then have "map_of (snodes r) t \<noteq> None" by (simp only: dhas_iff [symmetric] dhas_dkeys)
      then obtain n where "map_of (snodes r) t = Some n" by blast
      with a show "t \<in> succ_set r" by (simp add: succ_set_def)
    qed
  next
    assume a: "set (dkeys (snodes r)) \<subseteq> succ_set r"
    show "\<forall>k n. map_of (snodes r) k = Some n \<longrightarrow> succeeded n"
    proof (intro allI impI)
      fix k n
      assume k: "map_of (snodes r) k = Some n"
      have "k \<in> succ_set r" by (rule subsetD [OF a map_of_dkeys [OF k]])
      with k show "succeeded n" by (simp add: succ_set_def)
    qed
  qed
  finally show ?thesis .
qed

text \<open>
  The frame of every operation that finishes no task: statuses may change, but no task becomes pending
  and none becomes succeeded.
\<close>

definition calm :: "task_node \<Rightarrow> task_node \<Rightarrow> bool" where
  "calm n n' =
     (links n' = links n \<and> node_status n' \<in> set node_statuses
      \<and> (node_status n' = VStr ''pending'' \<longrightarrow> node_status n = VStr ''pending'') \<and> (succeeded n' \<longrightarrow> succeeded n))"

definition calmer :: "srun \<Rightarrow> srun \<Rightarrow> bool" where
  "calmer r s =
     (dkeys (snodes s) = dkeys (snodes r) \<and> srefs s = srefs r
      \<and> (\<forall>t n'. map_of (snodes s) t = Some n' \<longrightarrow>
           (\<exists>n. map_of (snodes r) t = Some n \<and> calm n n')))"

lemma dict_ok_keys: "dkeys d = dkeys e \<Longrightarrow> dict_ok d = dict_ok e"
  by (simp add: dict_ok_def dkeys_def)

lemma static_ok_calmer:
  assumes ok: "static_ok w r" and c: "calmer r s"
    and st: "sstatus s \<in> set (''created'' # ''running'' # static_terminal_statuses)" "sstatus s \<noteq> ''succeeded''"
    and ended: "static_terminal s \<or> \<not> static_terminal r"
  shows "static_ok w s"
proof -
  have keys: "dkeys (snodes s) = dkeys (snodes r)" and refs: "srefs s = srefs r"
    using c by (simp_all add: calmer_def)
  have sub: "succ_set s \<subseteq> succ_set r" using c by (fastforce simp: calmer_def calm_def succ_set_def)
  have dok: "dict_ok (snodes r)" "dict_ok (snodes s)"
    using ok dict_ok_keys [OF keys] by (simp_all add: static_ok_def)
  have "node_ok w s t n'" if t: "map_of (snodes s) t = Some n'" for t n'
  proof -
    obtain n where n: "map_of (snodes r) t = Some n" "links n' = links n" "node_status n' \<in> set node_statuses"
      "node_status n' = VStr ''pending'' \<longrightarrow> node_status n = VStr ''pending''"
      using c t unfolding calmer_def calm_def by blast
    have no: "node_ok w r t n" using ok n(1) by (simp add: static_ok_def)
    then have l: "links n = (VList (map VStr (sort (predecessors w t))), VList (map VStr (sort (successors w t))))"
      by (simp add: node_ok_def)
    have "parents_succeeded s t \<Longrightarrow> parents_succeeded r t"
      using parents_succeeded_iff [OF n(1) l] parents_succeeded_iff [OF t] n(2) l sub by auto
    with no n l show ?thesis by (auto simp: node_ok_def)
  qed
  moreover have "\<not> all_tasks_finished s" if "\<not> static_terminal s" "snodes s \<noteq> []"
  proof -
    have "snodes r \<noteq> []" using keys that(2) by (auto simp: dkeys_def)
    then have "\<not> all_tasks_finished r" using ok that(1) ended by (simp add: static_ok_def)
    then show ?thesis
      using all_finished_iff [OF dok(1)] all_finished_iff [OF dok(2)] keys sub by auto
  qed
  ultimately show ?thesis using ok keys refs dok st by (simp add: static_ok_def)
qed

lemma node_known: "static_ok w r \<Longrightarrow> map_of (snodes r) t = Some n \<Longrightarrow> node_status n \<in> set node_statuses"
  unfolding static_ok_def node_ok_def by blast

lemma calm_refl: "node_status n \<in> set node_statuses \<Longrightarrow> calm n n"
  by (simp add: calm_def)

lemma calmer_on_node:
  assumes ok: "static_ok w r" and f: "\<And>n. node_status n \<in> set node_statuses \<Longrightarrow> calm n (f n)"
  shows "calmer r (on_node t f r)"
  unfolding calmer_def
proof (intro conjI allI impI)
  fix x n'
  assume x: "map_of (snodes (on_node t f r)) x = Some n'"
  then obtain n where n: "map_of (snodes r) x = Some n" "n' = (if x = t then f n else n)"
    by (auto split: if_splits)
  with node_known [OF ok n(1)] f calm_refl show "\<exists>n. map_of (snodes r) x = Some n \<and> calm n n'" by auto
qed simp_all

lemma calmer_dmapv:
  assumes ok: "static_ok w r" and f: "\<And>n. node_status n \<in> set node_statuses \<Longrightarrow> calm n (f n)"
    and s: "snodes s = dmapv (\<lambda>_. f) (snodes r)" "srefs s = srefs r"
  shows "calmer r s"
  unfolding calmer_def s
proof (intro conjI allI impI)
  fix x n'
  assume "map_of (dmapv (\<lambda>_. f) (snodes r)) x = Some n'"
  then obtain n where n: "map_of (snodes r) x = Some n" "n' = f n" by auto
  with node_known [OF ok n(1)] f show "\<exists>n. map_of (snodes r) x = Some n \<and> calm n n'" by auto
qed simp_all

lemma calmer_cong:
  "calmer r s \<Longrightarrow> snodes s' = snodes s \<Longrightarrow> srefs s' = srefs s \<Longrightarrow> calmer r s'"
  by (simp add: calmer_def)


lemma calm_end:
  assumes "node_status n \<in> set node_statuses" and "s \<in> {''timed_out'', ''cancelled''}" and "links n' = links n"
    and "node_status n' = (if is_open n then VStr s else node_status n)"
  shows "calm n n'"
proof (cases "is_open n")
  case True
  with assms show ?thesis by (auto simp: calm_def succeeded_def node_statuses_def)
next
  case False
  with assms show ?thesis by (simp add: calm_def succeeded_def)
qed

lemma node_status_upd_if: "node_status (upd_if b ''status'' v n) = (if b then v else node_status n)"
  by (simp add: node_status_def)

lemma calm_nodes:
  "node_status n \<in> set node_statuses \<Longrightarrow> calm n (started_node now info n)"
  "node_status n \<in> set node_statuses \<Longrightarrow> calm n (pending_node a b n)"
  "node_status n \<in> set node_statuses \<Longrightarrow> calm n (retry_node e att ft i n)"
  "node_status n \<in> set node_statuses \<Longrightarrow> calm n (failed_node now e mf ft att d l n)"
  "node_status n \<in> set node_statuses \<Longrightarrow> calm n (upd [(''status'', VStr ''queued'')] n)"
  "node_status n \<in> set node_statuses \<Longrightarrow> s \<in> {''timed_out'', ''cancelled''} \<Longrightarrow> calm n (end_node now s e n)"
  "node_status n \<in> set node_statuses \<Longrightarrow> calm n (upd_if (is_open n) ''status'' (VStr ''cancelled'') n)"
  by (simp_all add: calm_def succeeded_def node_statuses_def)
    (auto intro: calm_end simp: node_statuses_def node_status_upd_if
      simp flip: calm_def succeeded_def)

lemma static_ok_timed_out:
  assumes "static_ok w r" shows "static_ok w (fst (static_timed_out_if_needed now r))"
proof (cases "static_timed_out_if_needed now r = (r, False)")
  case False
  let ?s = "fst (static_timed_out_if_needed now r)"
  have s: "sstatus ?s = ''timed_out''" "srefs ?s = srefs r"
    using False by (auto simp: static_timed_out_if_needed_def Let_def split: option.splits if_splits)
  obtain err where "snodes ?s = dmapv (\<lambda>_. end_node now ''timed_out'' err) (snodes r)"
    using False by (auto simp: static_timed_out_if_needed_def Let_def split: option.splits if_splits)
  then have "calmer r ?s" using calmer_dmapv [OF assms] calm_nodes(6) s(2) by blast
  from static_ok_calmer [OF assms this] s show ?thesis
    by (simp add: static_terminal_statuses_def static_terminal_def)
qed (simp add: assms)

lemma static_ok_cancelled:
  assumes "static_ok w r" shows "static_ok w (mark_cancelled now why r)"
proof (cases "static_terminal r")
  case False
  let ?s = "mark_cancelled now why r"
  have "calmer r ?s"
    by (rule calmer_dmapv [OF assms, of "\<lambda>n. upd_if (is_open n) ''status'' (VStr ''cancelled'') n"])
      (simp_all add: calm_nodes mark_cancelled_def False)
  from static_ok_calmer [OF assms this] False show ?thesis
    by (simp add: static_terminal_statuses_def static_terminal_def mark_cancelled_def)
qed (simp add: assms mark_cancelled_def)

lemma static_ok_unsent:
  assumes "static_ok w r" shows "static_ok w (fail_static_run now err r)"
proof -
  have "calmer r (fail_static_run now err r)"
  proof (rule calmer_dmapv [OF assms, of "cancelled_node now err"])
    show "calm n (cancelled_node now err n)" if "node_status n \<in> set node_statuses" for n
      by (rule calm_end [OF that, of "''cancelled''"]) (simp_all add: cancelled_node_def links_def node_status_def)
  qed (simp_all add: fail_static_run_def)
  from static_ok_calmer [OF assms this] show ?thesis
    by (simp add: static_terminal_statuses_def static_terminal_def fail_static_run_def)
qed

lemma static_ok_interrupted:
  assumes "static_ok w r" shows "static_ok w (fst (mark_interrupted now why r))"
proof (cases "static_terminal r")
  case False
  let ?s = "fst (mark_interrupted now why r)"
  obtain err where "snodes ?s = dmapv (\<lambda>_. end_node now ''cancelled'' err) (snodes r)" "srefs ?s = srefs r"
    "sstatus ?s = ''interrupted''"
    using False by (simp add: mark_interrupted_def Let_def)
  moreover from this have "calmer r ?s" using calmer_dmapv [OF assms] calm_nodes(6) by blast
  ultimately show ?thesis using static_ok_calmer [OF assms, of ?s]
    by (simp add: static_terminal_statuses_def static_terminal_def)
qed (simp add: assms mark_interrupted_def)

text \<open>An update of the status and of fields the invariant does not mention.\<close>

lemma static_ok_active:
  assumes "static_ok w r" and "calmer r s" and "\<not> static_terminal r"
    and "sstatus s = sstatus r \<or> sstatus s = ''running'' \<or> sstatus s \<in> {''failed'', ''timed_out''}"
  shows "static_ok w s"
proof -
  have "sstatus r \<in> {''created'', ''running''}"
    using assms(1,3) by (auto simp: static_ok_def static_terminal_def)
  then show ?thesis
    using static_ok_calmer [OF assms(1,2)] assms(3,4) by (auto simp: static_terminal_statuses_def)
qed

lemma static_ok_failed:
  assumes "static_ok w r" shows "static_ok w (mark_task_failed now t err manifest ft att d l r)"
proof -
  let ?s = "mark_task_failed now t err manifest ft att d l r"
  have "calmer r (on_node t (failed_node now err manifest ft att d l) r)"
    by (rule calmer_on_node [OF assms calm_nodes(4)])
  then have "calmer r ?s" by (rule calmer_cong) (simp_all add: mark_task_failed_def)
  from static_ok_calmer [OF assms this] show ?thesis
    by (simp add: static_terminal_statuses_def static_terminal_def mark_task_failed_def)
qed


section \<open>Finishing a task\<close>

definition queued_if :: "bool \<Rightarrow> task_node \<Rightarrow> task_node" where
  "queued_if b n = (if b \<and> node_status n = VStr ''pending'' then upd [(''status'', VStr ''queued'')] n else n)"

lemma queued_if_facts [simp]:
  "succeeded (queued_if b n) = succeeded n" "links (queued_if b n) = links n"
  by (simp_all add: queued_if_def succeeded_def)

lemma map_of_queue_child:
  "map_of (snodes (queue_child r c)) x
     = map_option (queued_if (x = c \<and> parents_succeeded r c)) (map_of (snodes r) x)"
proof -
  have id: "map_option (queued_if False) y = y" for y
    by (cases y) (simp_all add: queued_if_def)
  show ?thesis
    by (cases "x = c") (auto simp: queue_child_def id queued_if_def split: option.splits)
qed

lemma queue_child_fields [simp]:
  "sstatus (queue_child r c) = sstatus r" "srefs (queue_child r c) = srefs r"
  "sevents (queue_child r c) = sevents r" "sevent_seq (queue_child r c) = sevent_seq r"
  "dkeys (snodes (queue_child r c)) = dkeys (snodes r)"
  by (simp_all add: queue_child_def split: option.splits)

lemma parents_queue_child [simp]: "parents_succeeded (queue_child r c) x = parents_succeeded r x"
proof -
  have p: "(case map_of (snodes (queue_child r c)) p of None \<Rightarrow> False | Some n \<Rightarrow> succeeded n)
      = (case map_of (snodes r) p of None \<Rightarrow> False | Some n \<Rightarrow> succeeded n)" for p
    by (simp add: map_of_queue_child split: option.splits)
  have "(case map_of (snodes (queue_child r c)) x of None \<Rightarrow> [] | Some n \<Rightarrow> node_ids n ''parents'')
      = (case map_of (snodes r) x of None \<Rightarrow> [] | Some n \<Rightarrow> node_ids n ''parents'')"
    by (simp add: map_of_queue_child split: option.splits) (metis links_ids(1) queued_if_facts(2))
  then show ?thesis unfolding parents_succeeded_def p by simp
qed

lemma queued_if_twice: "queued_if a (queued_if b n) = queued_if (a \<or> b) n"
  by (auto simp: queued_if_def)

lemma map_of_queue_children:
  "map_of (snodes (foldl queue_child r cs)) x
     = map_option (queued_if (x \<in> set cs \<and> parents_succeeded r x)) (map_of (snodes r) x)"
proof (induction cs arbitrary: r)
  case Nil
  then show ?case by (simp add: queued_if_def option.map_ident)
next
  case (Cons c cs)
  then show ?case
    by (cases "map_of (snodes r) x") (auto simp: map_of_queue_child queued_if_twice intro: arg_cong2 [where f = queued_if])
qed

lemma queue_children_fields [simp]:
  "sstatus (foldl queue_child r cs) = sstatus r" "srefs (foldl queue_child r cs) = srefs r"
  "sevents (foldl queue_child r cs) = sevents r" "sevent_seq (foldl queue_child r cs) = sevent_seq r"
  "dkeys (snodes (foldl queue_child r cs)) = dkeys (snodes r)"
  by (induction cs arbitrary: r) simp_all

lemma parents_queue_children [simp]: "parents_succeeded (foldl queue_child r cs) x = parents_succeeded r x"
  by (induction cs arbitrary: r) simp_all

lemma succ_queue_children [simp]: "succ_set (foldl queue_child r cs) = succ_set r"
  by (auto simp: succ_set_def map_of_queue_children)

lemma succ_finished:
  "map_of (snodes r) t = Some n \<Longrightarrow> succ_set (on_node t (finished_node now m) r) = insert t (succ_set r)"
  by (auto simp: succ_set_def succeeded_def split: if_splits)

text \<open>The nodes after a finish: the task succeeded, and every task it unblocked is queued.\<close>

definition after_finish :: "time \<Rightarrow> string \<Rightarrow> finish_msg \<Rightarrow> srun \<Rightarrow> srun" where
  "after_finish now t m r =
     foldl queue_child (on_node t (finished_node now m) r)
       (case map_of (snodes r) t of None \<Rightarrow> [] | Some n \<Rightarrow> node_ids n ''children'')"

lemma after_finish_fields [simp]:
  "sstatus (after_finish now t m r) = sstatus r" "srefs (after_finish now t m r) = srefs r"
  "sevents (after_finish now t m r) = sevents r" "sevent_seq (after_finish now t m r) = sevent_seq r"
  "dkeys (snodes (after_finish now t m r)) = dkeys (snodes r)"
  by (simp_all add: after_finish_def)

lemma succ_after_finish:
  "map_of (snodes r) t = Some n \<Longrightarrow> succ_set (after_finish now t m r) = insert t (succ_set r)"
  by (simp add: after_finish_def succ_finished)

lemma after_finish_node_ok:
  assumes ok: "static_ok w r" and t: "map_of (snodes r) t = Some n"
    and x: "map_of (snodes (after_finish now t m r)) x = Some n'"
  shows "node_ok w (after_finish now t m r) x n'"
proof -
  let ?r1 = "on_node t (finished_node now m) r" and ?s = "after_finish now t m r"
  have nt: "node_ok w r t n" using ok t unfolding static_ok_def by blast
  then have ids: "node_ids n ''children'' = sort (successors w t)"
    using node_ids_links [of n] by (simp add: node_ok_def)
  then have "?s = foldl queue_child ?r1 (sort (successors w t))" by (simp add: after_finish_def t)
  with x obtain n1 where n1: "map_of (snodes ?r1) x = Some n1"
      "n' = queued_if (x \<in> set (successors w t) \<and> parents_succeeded ?r1 x) n1"
    by (auto simp: map_of_queue_children)
  from n1(1) obtain n0 where n0: "map_of (snodes r) x = Some n0" "n1 = (if x = t then finished_node now m n0 else n0)"
    by (auto split: if_splits)
  have no: "node_ok w r x n0" using ok n0(1) unfolding static_ok_def by blast
  have l1: "links n1 = links n0" using n0(2) by simp
  have l: "links n' = links n0" using n1(2) l1 by simp
  have st: "node_status n' \<in> set node_statuses"
    using no n0(2) n1(2) by (auto simp: node_ok_def queued_if_def) (auto simp: node_statuses_def)
  have par: "\<not> parents_succeeded ?s x" if pend: "node_status n' = VStr ''pending''"
  proof -
    have np: "node_status n1 = VStr ''pending''" "\<not> (x \<in> set (successors w t) \<and> parents_succeeded ?r1 x)"
      using pend n1(2) by (auto simp: queued_if_def split: if_splits)
    then have "x \<noteq> t" and "node_status n0 = VStr ''pending''" using n0(2) by (auto split: if_splits)
    then have blocked: "\<not> parents_succeeded r x" using no by (simp add: node_ok_def)
    have ps: "links n0 = (VList (map VStr (sort (predecessors w x))), VList (map VStr (sort (successors w x))))"
      using no by (simp add: node_ok_def)
    have "\<not> parents_succeeded ?r1 x"
    proof (cases "x \<in> set (successors w t)")
      case False
      then have "t \<notin> set (predecessors w x)" by (simp add: preds_iff succs_iff)
      then show ?thesis
        using blocked parents_succeeded_iff [OF n0(1) ps] parents_succeeded_iff [OF n1(1)] l1 ps succ_finished [OF t]
        by auto
    qed (use np in blast)
    then show ?thesis by (simp add: after_finish_def)
  qed
  show ?thesis using no l st par by (simp add: node_ok_def)
qed

text \<open>A validated reference finds its node: resolving it can only miss an output the task did not return.\<close>

lemma resolve_errors:
  assumes "validate_final_output_refs w v = Inr ()" and "set (dkeys (tasks w)) \<subseteq> set (dkeys ns)"
    and "resolve_final_output_refs ns v = Inl e"
  shows "\<exists>t k. e = FinalOutputResolutionError t k"
  using assms
proof (induction ns v arbitrary: e rule: resolve_final_output_refs.induct)
  case (1 ns d)
  show ?case
  proof (cases "vget d ''__maze_output_ref__'' = VBool True")
    case True
    then have "dhas ''__maze_output_ref__'' d" by (auto simp: vget_def dgetd_def dhas_iff split: option.splits)
    with 1(2) have "check_ref w d = Inr ()" by simp
    then obtain t c k where "vget d ''task_id'' = VStr t" "map_of (tasks w) t = Some c" "vget d ''output_key'' = VStr k"
      by (auto simp: check_ref_def is_str_def split: if_splits pyval.splits option.splits)
    moreover from this have "map_of ns t \<noteq> None"
      using 1(3) map_of_dkeys dhas_iff dhas_dkeys by (metis subsetD)
    ultimately show ?thesis using 1(4) True
      by (auto simp: resolve_ref_def split: option.splits pyval.splits if_splits)
  next
    case False
    have nd: "\<not> dhas ''__maze_output_ref__'' d"
    proof
      assume h: "dhas ''__maze_output_ref__'' d"
      then have "check_ref w d = Inr ()" using 1(2) by simp
      then show False using False by (simp add: check_ref_def split: if_splits)
    qed
    have vals: "(k, v) \<in> set d \<Longrightarrow> validate_final_output_refs w v = Inr ()" for k v
    proof -
      assume kv: "(k, v) \<in> set d"
      obtain us where "rmap (\<lambda>(k, v). validate_final_output_refs w v) d = Inr us" using 1(2) nd by auto
      then have "list_all2 (\<lambda>x y. (case x of (k, v) \<Rightarrow> validate_final_output_refs w v) = Inr y) d us"
        by (simp add: rmap_eq_Inr)
      with kv show ?thesis by (metis (mono_tags, lifting) case_prod_conv in_set_conv_nth list_all2_conv_all_nth old.unit.exhaust)
    qed
    have "\<exists>x \<in> set d. (case x of (k, v) \<Rightarrow> rbind (resolve_final_output_refs ns v) (\<lambda>x. Inr (k, x))) = Inl e"
      using 1(4) False rmap_Inl by (fastforce simp: rbind_eq_Inl)
    then obtain k v where "(k, v) \<in> set d" "resolve_final_output_refs ns v = Inl e"
      by (auto simp: rbind_eq_Inl)
    with 1(1) False vals 1(3) show ?thesis by blast
  qed
next
  case (2 ns xs)
  have vals: "v \<in> set xs \<Longrightarrow> validate_final_output_refs w v = Inr ()" for v
  proof -
    assume v: "v \<in> set xs"
    obtain us where "rmap (validate_final_output_refs w) xs = Inr us" using 2(2) by auto
    then have "list_all2 (\<lambda>x y. validate_final_output_refs w x = Inr y) xs us" by (simp add: rmap_eq_Inr)
    with v show ?thesis by (metis in_set_conv_nth list_all2_conv_all_nth old.unit.exhaust)
  qed
  obtain v where "v \<in> set xs" "resolve_final_output_refs ns v = Inl e"
    using 2(4) rmap_Inl by (fastforce simp: rbind_eq_Inl)
  with 2(1) vals 2(3) show ?case by blast
qed simp_all




lemma mark_task_finished_eq:
  assumes t: "map_of (snodes r) t = Some n" and new: "\<not> succeeded n"
  shows "mark_task_finished now t m r =
    (let s = after_finish now t m r in
     if all_tasks_finished s
     then (case mark_succeeded now s of
             Inr r3 \<Rightarrow> Inr (r3, VNone)
           | Inl (FinalOutputResolutionError rt k) \<Rightarrow>
               Inr (mark_task_failed now t (resolution_detail t rt k) VNone (f_fault m) (f_attempt m) (f_dispatch m)
                      (f_lease m) r, resolution_detail t rt k)
           | Inl e \<Rightarrow> Inl e)
     else Inr (s\<lparr>supdated := now\<rparr>, VNone))"
  unfolding mark_task_finished_def after_finish_def Let_def using assms by simp

text \<open>The state right after the node updates, before the run's own status is settled.\<close>

definition nodes_ok :: "workflow \<Rightarrow> srun \<Rightarrow> bool" where
  "nodes_ok w r =
     (dict_ok (snodes r) \<and> dkeys (snodes r) = dkeys (sorted_items (tasks w))
      \<and> (\<forall>t n. map_of (snodes r) t = Some n \<longrightarrow> node_ok w r t n)
      \<and> (\<forall>v. srefs r = Some v \<longrightarrow> validate_final_output_refs w v = Inr ()))"

lemma static_ok_nodes:
  "static_ok w r \<longleftrightarrow> nodes_ok w r
     \<and> sstatus r \<in> set (''created'' # ''running'' # static_terminal_statuses)
     \<and> (sstatus r = ''succeeded'' \<longrightarrow> all_tasks_finished r)
     \<and> (\<not> static_terminal r \<and> snodes r \<noteq> [] \<longrightarrow> \<not> all_tasks_finished r)"
  by (simp add: static_ok_def nodes_ok_def)

lemma nodes_ok_after:
  assumes "static_ok w r" and "map_of (snodes r) t = Some n"
  shows "nodes_ok w (after_finish now t m r)"
proof -
  have k: "dkeys (snodes (after_finish now t m r)) = dkeys (snodes r)" by simp
  have "dict_ok (snodes (after_finish now t m r))"
    using dict_ok_keys [OF k] assms(1) by (simp add: static_ok_def)
  then show ?thesis
    using assms after_finish_node_ok [OF assms] by (simp add: nodes_ok_def static_ok_def)
qed

lemma nodes_ok_cong: "nodes_ok w r \<Longrightarrow> snodes s = snodes r \<Longrightarrow> srefs s = srefs r \<Longrightarrow> nodes_ok w s"
  by (simp add: nodes_ok_def node_ok_def parents_succeeded_def)

lemma final_result_errors_nodes:
  "nodes_ok w r \<Longrightarrow> final_result r = Inl e \<Longrightarrow> \<exists>t k. e = FinalOutputResolutionError t k"
proof -
  assume ok: "nodes_ok w r" and e: "final_result r = Inl e"
  then obtain v where v: "srefs r = Some v" "resolve_final_output_refs (snodes r) v = Inl e"
    by (auto simp: final_result_def split: option.splits)
  have "validate_final_output_refs w v = Inr ()" using ok v(1) by (simp add: nodes_ok_def)
  moreover have "set (dkeys (tasks w)) \<subseteq> set (dkeys (snodes r))"
    using ok by (simp add: nodes_ok_def) (simp add: dkeys_def)
  ultimately show ?thesis using resolve_errors v(2) by blast
qed

lemma mark_task_finished_ok:
  assumes ok: "static_ok w r" and act: "\<not> static_terminal r"
  shows "\<exists>r' err. mark_task_finished now t m r = Inr (r', err) \<and> static_ok w r'"
proof (cases "map_of (snodes r) t")
  case None
  then show ?thesis using ok by (simp add: mark_task_finished_def)
next
  case (Some n)
  show ?thesis
  proof (cases "succeeded n")
    case True
    then show ?thesis using ok Some by (simp add: mark_task_finished_def)
  next
    case False
    let ?s = "after_finish now t m r"
    have nok: "nodes_ok w ?s" by (rule nodes_ok_after [OF ok Some])
    have st: "sstatus r \<in> {''created'', ''running''}"
      using ok act by (auto simp: static_ok_def static_terminal_def)
    then have ns: "sstatus ?s \<noteq> ''succeeded''" by auto
    show ?thesis
    proof (cases "all_tasks_finished ?s")
      case False
      have n1: "nodes_ok w (?s\<lparr>supdated := now\<rparr>)" by (rule nodes_ok_cong [OF nok]) simp_all
      have "static_ok w (?s\<lparr>supdated := now\<rparr>)"
        using n1 False st ns unfolding static_ok_nodes by (auto simp: all_tasks_finished_def)
      then show ?thesis
        using False \<open>\<not> succeeded n\<close> by (simp add: mark_task_finished_eq [OF Some] Let_def)
    next
      case True
      show ?thesis
      proof (cases "final_result ?s")
        case (Inr res)
        let ?u = "?s\<lparr>sstatus := ''succeeded'', sfinished := Some now, sresult := res, supdated := now\<rparr>"
        have "nodes_ok w ?u" by (rule nodes_ok_cong [OF nok]) simp_all
        then have "static_ok w ?u"
          using True unfolding static_ok_nodes
          by (simp add: all_tasks_finished_def static_terminal_def static_terminal_statuses_def)
        then show ?thesis
          using True \<open>\<not> succeeded n\<close> Inr ns by (simp add: mark_task_finished_eq [OF Some] mark_succeeded_def)
      next
        case (Inl e)
        then obtain rt k where e: "e = FinalOutputResolutionError rt k" using final_result_errors_nodes [OF nok] by blast
        show ?thesis
          using True \<open>\<not> succeeded n\<close> Inl e ns static_ok_failed [OF ok]
          by (simp add: mark_task_finished_eq [OF Some] mark_succeeded_def)
      qed
    qed
  qed
qed


lemma static_ok_message:
  assumes ok: "static_ok w r" and act: "\<not> static_terminal r"
  shows "static_ok w (message a r)"
proof -
  note calm_on = calmer_on_node [OF ok]
  have one: "static_ok w s" if "calmer r (on_node t f r)" "snodes s = snodes (on_node t f r)"
      "srefs s = srefs (on_node t f r)" "sstatus s = sstatus r \<or> sstatus s = ''running''" for s t f
    using static_ok_active [OF ok calmer_cong [OF that(1-3)] act] that(4) by blast
  show ?thesis
  proof (cases a)
    case (SQueued now t)
    show ?thesis
      using one [OF calm_on [OF calm_nodes(5)], of "(on_node t (upd [(''status'', VStr ''queued'')]) r)\<lparr>supdated := now\<rparr>" t] ok
      by (simp add: SQueued mark_task_queued_def split: option.splits)
  next
    case (SStarted now t info)
    let ?s = "static_task_started now t info r"
    have "calmer r (on_node t (started_node now info) r)" by (rule calm_on [OF calm_nodes(1)])
    moreover have "snodes ?s = snodes (on_node t (started_node now info) r)"
      by (simp add: static_task_started_def static_mark_started_def on_node_def split: option.splits)
    moreover have "srefs ?s = srefs (on_node t (started_node now info) r)"
      "sstatus ?s = sstatus r \<or> sstatus ?s = ''running''"
      by (simp_all add: static_task_started_def static_mark_started_def)
    ultimately show ?thesis unfolding SStarted message.simps by (rule one)
  next
    case (SPending now t reason decision)
    show ?thesis
      using one [OF calm_on [OF calm_nodes(2)], of "(on_node t (pending_node reason decision) r)\<lparr>supdated := now\<rparr>" t] ok
      by (simp add: SPending mark_task_pending_def)
  next
    case (SRetry now t err att ft info)
    show ?thesis
      using one [OF calm_on [OF calm_nodes(3)], of "(on_node t (retry_node err att ft info) r)\<lparr>supdated := now\<rparr>" t] ok
      by (simp add: SRetry mark_task_retry_def)
  next
    case (SFinished now t m)
    obtain r' err where "mark_task_finished now t m r = Inr (r', err)" "static_ok w r'"
      using mark_task_finished_ok [OF ok act] by blast
    then show ?thesis by (simp add: SFinished deliver_finish_def static_ok_failed)
  qed (simp_all add: ok static_ok_failed)
qed

lemma static_ok_perform: "static_ok w r \<Longrightarrow> static_ok w (static_perform a r)"
proof (cases a)
  case (SEmit now ts e)
  assume "static_ok w r"
  let ?s = "fst (static_append_event now ts e r)"
  have f: "snodes ?s = snodes r" "srefs ?s = srefs r" "sstatus ?s = sstatus r"
    by (simp_all add: static_append_event_def Let_def)
  from \<open>static_ok w r\<close> show ?thesis
    using nodes_ok_cong [OF _ f(1,2), of w] f
    by (simp add: SEmit static_ok_nodes all_tasks_finished_def static_terminal_def)
qed (simp_all add: static_ok_timed_out static_ok_cancelled static_ok_interrupted static_ok_message del: message.simps)

lemma new_node_facts:
  assumes "new_node w t c = Inr n"
  shows "node_status n = VStr (if predecessors w t \<noteq> [] then ''pending'' else ''queued'')"
    and "links n = (VList (map VStr (sort (predecessors w t))), VList (map VStr (sort (successors w t))))"
  using assms by (auto simp: new_node_def Let_def node_status_def links_def) (metis set_empty set_sort)+

lemma new_nodes:
  assumes "rmap (\<lambda>(t, c). rbind (new_node w t c) (\<lambda>n. Inr (t, n))) ts = Inr ns"
  shows "dkeys ns = dkeys ts \<and> (\<forall>(t, n) \<in> set ns. \<exists>c. new_node w t c = Inr n)"
  using assms by (induction ts arbitrary: ns) (auto simp: dkeys_def)

lemma static_ok_new:
  assumes w: "workflow_ok w" and new: "new_static_run now rid wid w timeout tags meta refs inputs = Inr r"
  shows "static_ok w r"
proof -
  have ns: "rmap (\<lambda>(t, c). rbind (new_node w t c) (\<lambda>n. Inr (t, n))) (sorted_items (tasks w)) = Inr (snodes r)"
    and st: "sstatus r = ''created''" and refs: "srefs r = refs"
    and val: "refs = Some v \<Longrightarrow> validate_final_output_refs w v = Inr ()" for v
    using new by (auto simp: new_static_run_def)
  note k = new_nodes [OF ns]
  have "dict_ok (sorted_items (tasks w))" using w by (simp add: workflow_ok_def)
  then have dok: "dict_ok (snodes r)" using dict_ok_keys k by blast
  have facts: "node_status n = VStr (if predecessors w t \<noteq> [] then ''pending'' else ''queued'')"
      "links n = (VList (map VStr (sort (predecessors w t))), VList (map VStr (sort (successors w t))))"
    if "map_of (snodes r) t = Some n" for t n
    using new_node_facts k map_of_in [OF that] by blast+
  have none: "succ_set r = {}"
    by (auto simp: succ_set_def succeeded_def dest!: facts(1) split: if_splits)
  have "node_ok w r t n" if t: "map_of (snodes r) t = Some n" for t n
    using facts [OF t] parents_succeeded_iff [OF t facts(2) [OF t]] none
    by (auto simp: node_ok_def node_statuses_def)
  moreover have "snodes r \<noteq> [] \<Longrightarrow> \<not> all_tasks_finished r"
    using all_finished_iff [OF dok] none by (auto simp: dkeys_def)
  ultimately show ?thesis
    using dok k st refs val by (simp add: static_ok_def)
qed

lemma reachable_static_ok: "reachable_static w r \<Longrightarrow> workflow_ok w \<Longrightarrow> static_ok w r"
  by (induction rule: reachable_static.induct) (auto intro: static_ok_new static_ok_perform static_ok_unsent)


section \<open>Properties\<close>

text \<open>
  C27: no task of a static run is forgotten. In every state a run of a well-formed workflow can reach,
  a task still marked pending waits for a parent that has not succeeded, whatever the order of the
  scheduler's messages; the run is marked succeeded only when all its tasks have succeeded, and a run
  whose tasks have all succeeded has ended.
\<close>

theorem static_progress_exact:
  assumes "workflow_ok w" and "reachable_static w r"
  shows "(\<forall>t n. map_of (snodes r) t = Some n \<longrightarrow> node_status n = VStr ''pending'' \<longrightarrow>
            (\<exists>p \<in> set (predecessors w t). p \<notin> succ_set r))
    \<and> (sstatus r = ''succeeded'' \<longrightarrow> all_tasks_finished r)
    \<and> (snodes r \<noteq> [] \<and> all_tasks_finished r \<longrightarrow> static_terminal r)"
proof -
  have ok: "static_ok w r" by (rule reachable_static_ok [OF assms(2,1)])
  have "\<exists>p \<in> set (predecessors w t). p \<notin> succ_set r"
    if t: "map_of (snodes r) t = Some n" and p: "node_status n = VStr ''pending''" for t n
  proof -
    have no: "node_ok w r t n" using ok t unfolding static_ok_def by blast
    then have "\<not> set (sort (predecessors w t)) \<subseteq> succ_set r"
      using p parents_succeeded_iff [OF t] unfolding node_ok_def by blast
    then show ?thesis by auto
  qed
  then show ?thesis using ok unfolding static_ok_def by blast
qed

definition sample_two :: workflow where
  "sample_two = (empty_workflow ''w'')\<lparr>g_nodes := [''a'', ''b''], g_edges := [(''a'', ''b'')],
     tasks := [(''a'', new_task 0 ''w'' ''a'' ''A''), (''b'', new_task 0 ''w'' ''b'' ''B'')], remaining_task_num := 2\<rparr>"

lemma sample_two_ok: "workflow_ok sample_two"
proof -
  have "acyclic {(''a'', ''b'')}"
    by (rule wf_acyclic [OF wf_subset [OF wf_measure [of "\<lambda>x. if x = ''b'' then 1 else 0"]]]) simp
  then show ?thesis
    by (simp add: workflow_ok_def sample_two_def empty_workflow_def dict_ok_def graph_ok_def dkeys_def)
qed

lemma new_node_plain:
  "ct_input c = VNone \<Longrightarrow> ct_output c = VNone \<Longrightarrow> \<exists>n. new_node w t c = Inr n"
  unfolding new_node_def Let_def by (simp add: task_io_snapshot_def)

lemma sample_static_new:
  obtains r where "new_static_run 0 ''r'' ''w'' sample_two VNone [] [] None [] = Inr r"
    "dkeys (snodes r) = [''a'', ''b'']" "\<not> static_terminal r" "srefs r = None"
proof -
  have so: "sorted_items (tasks sample_two) = tasks sample_two"
    by (simp add: sample_two_def sorted_items_def)
  let ?a = "new_task 0 ''w'' ''a'' ''A''" and ?b = "new_task 0 ''w'' ''b'' ''B''"
  have ts: "tasks sample_two = [(''a'', ?a), (''b'', ?b)]" by (simp add: sample_two_def)
  have plain: "ct_input ?a = VNone" "ct_output ?a = VNone" "ct_input ?b = VNone" "ct_output ?b = VNone"
    by (simp_all add: new_task_def)
  obtain na nb where n: "new_node sample_two ''a'' ?a = Inr na" "new_node sample_two ''b'' ?b = Inr nb"
    using new_node_plain [OF plain(1,2)] new_node_plain [OF plain(3,4)] by blast
  define ns where "ns = [(''a'', na), (''b'', nb)]"
  have ns: "rmap (\<lambda>(t, c). rbind (new_node sample_two t c) (\<lambda>n. Inr (t, n))) (tasks sample_two) = Inr ns"
    by (simp add: ts n ns_def)
  have "dkeys ns = dkeys (tasks sample_two)" using new_nodes [OF ns] by blast
  then have "dkeys ns = [''a'', ''b'']" by (simp add: sample_two_def dkeys_def)
  moreover obtain r where r: "new_static_run 0 ''r'' ''w'' sample_two VNone [] [] None [] = Inr r"
    using ns so by (simp add: new_static_run_def)
  moreover have "snodes r = ns" "sstatus r = ''created''" "srefs r = None"
    using r ns so by (auto simp: new_static_run_def)
  ultimately show thesis
    by (intro that [OF r]) (simp_all add: static_terminal_def static_terminal_statuses_def)
qed

theorem static_progress_exact_witness:
  "\<exists>r n. reachable_static sample_two r \<and> map_of (snodes r) ''b'' = Some n
     \<and> (node_status n = VStr ''pending'' \<longrightarrow> ''a'' \<notin> succ_set r)"
proof -
  obtain r where r: "new_static_run 0 ''r'' ''w'' sample_two VNone [] [] None [] = Inr r" "dkeys (snodes r) = [''a'', ''b'']"
    by (rule sample_static_new)
  have reach: "reachable_static sample_two r" by (rule reachable_static.new [OF r(1)])
  have "''b'' \<in> set (dkeys (snodes r))" using r(2) by simp
  then have "map_of (snodes r) ''b'' \<noteq> None" by (simp only: dhas_iff [symmetric] dhas_dkeys)
  then obtain n where n: "map_of (snodes r) ''b'' = Some n" by blast
  have "predecessors sample_two ''b'' = [''a'']" by (simp add: predecessors_def sample_two_def)
  then have "node_status n = VStr ''pending'' \<longrightarrow> ''a'' \<notin> succ_set r"
    using static_progress_exact [OF sample_two_ok reach, THEN conjunct1] n by fastforce
  with reach n show ?thesis by blast
qed

lemma filter_split: "length (filter P xs) + length (filter (\<lambda>x. \<not> P x) xs) = length xs"
  by (induction xs) auto

lemma status_partition:
  assumes "\<forall>n \<in> set ns. node_status n \<in> set node_statuses"
  shows "sum_list (map (\<lambda>s. length (filter (\<lambda>n. node_status n = VStr s) ns))
     [''pending'', ''queued'', ''running'', ''succeeded'', ''failed'', ''cancelled'', ''timed_out'']) = length ns"
  using assms by (induction ns) (auto simp: node_statuses_def)

lemma open_partition:
  assumes "\<forall>n \<in> set ns. node_status n \<in> set node_statuses"
  shows "length (filter is_open ns) = length (filter (\<lambda>n. node_status n = VStr ''pending'') ns)
     + length (filter (\<lambda>n. node_status n = VStr ''queued'') ns) + length (filter (\<lambda>n. node_status n = VStr ''running'') ns)"
  using assms by (induction ns) (auto simp: node_statuses_def is_open_def open_statuses_def)

lemma completed_count_eq:
  "completed_count r = count_status r ''succeeded'' + count_status r ''failed'' + count_status r ''cancelled''
     + count_status r ''timed_out''"
  by (simp add: completed_count_def static_task_counts_def)

text \<open>
  the progress of a static run adds up. In every reachable state the counts by status partition the
  tasks, the completed tasks are exactly those not pending, queued or running, and the reported fraction
  lies between 0 and 1 and is 1 once no task is open.
\<close>

theorem static_counts_partition:
  assumes "workflow_ok w" and "reachable_static w r"
  shows "sum_list (map snd (tl (static_task_counts r))) = length (snodes r)
    \<and> completed_count r + length (filter is_open (dvals (snodes r))) = length (snodes r)
    \<and> 0 \<le> progress_fraction r \<and> progress_fraction r \<le> 1
    \<and> (snodes r \<noteq> [] \<and> \<not> list_ex is_open (dvals (snodes r)) \<longrightarrow> progress_fraction r = 1)"
proof -
  let ?ns = "dvals (snodes r)" and ?n = "length (snodes r)"
  have ok: "static_ok w r" by (rule reachable_static_ok [OF assms(2,1)])
  then have dok: "dict_ok (snodes r)" by (simp add: static_ok_def)
  have known: "\<forall>n \<in> set ?ns. node_status n \<in> set node_statuses"
    using node_known [OF ok] in_dvals_iff [OF dok] by blast
  have len: "length ?ns = ?n" by (simp add: dvals_def)
  have parts: "sum_list (map snd (tl (static_task_counts r))) = ?n"
    using status_partition [OF known] len by (simp add: static_task_counts_def count_status_def)
  have compl: "completed_count r + length (filter is_open ?ns) = ?n"
    using parts open_partition [OF known] by (simp add: completed_count_eq static_task_counts_def count_status_def)
  have "(of_nat (completed_count r) :: rat) \<le> of_nat (if ?n = 0 then 1 else ?n)"
    using compl by (simp only: of_nat_le_iff) auto
  then have "of_nat (completed_count r) / of_nat (if ?n = 0 then 1 else ?n) \<le> (1 :: rat)"
    by (simp add: divide_le_eq_1 split: if_splits)
  then have "progress_fraction r \<le> round6 1" unfolding progress_fraction_def by (rule round6_mono)
  moreover have "round6 0 \<le> progress_fraction r"
    unfolding progress_fraction_def by (rule round6_mono) simp
  moreover have "progress_fraction r = 1" if "snodes r \<noteq> []" "\<not> list_ex is_open ?ns"
  proof -
    have "filter is_open ?ns = []" using that(2) by (auto simp: list_ex_iff filter_empty_conv)
    then have "completed_count r = ?n" using compl by simp
    with that(1) show ?thesis by (simp add: progress_fraction_def)
  qed
  ultimately show ?thesis using parts compl by simp
qed

theorem static_counts_partition_witness:
  "\<exists>r. reachable_static sample_two r \<and> sum_list (map snd (tl (static_task_counts r))) = 2"
proof -
  obtain r where r: "new_static_run 0 ''r'' ''w'' sample_two VNone [] [] None [] = Inr r" "dkeys (snodes r) = [''a'', ''b'']"
    by (rule sample_static_new)
  have reach: "reachable_static sample_two r" by (rule reachable_static.new [OF r(1)])
  have "length (dkeys (snodes r)) = length (snodes r)" by (simp add: dkeys_def)
  then have "length (snodes r) = 2" using r(2) by simp
  with static_counts_partition [OF sample_two_ok reach] reach show ?thesis by metis
qed

section \<open>The event log of a static run\<close>

lemma events_quiet_on_node [simp]:
  "sevents (mark_task_failed now t err mf ft att d l r) = sevents r"
  "sevent_seq (mark_task_failed now t err mf ft att d l r) = sevent_seq r"
  by (simp_all add: mark_task_failed_def)

lemma finish_quiet:
  assumes "mark_task_finished now t m r = Inr (r', err)"
  shows "sevents r' = sevents r \<and> sevent_seq r' = sevent_seq r"
proof (cases "map_of (snodes r) t")
  case None
  with assms show ?thesis by (simp add: mark_task_finished_def)
next
  case (Some n)
  show ?thesis
  proof (cases "succeeded n")
    case True
    with assms Some show ?thesis by (simp add: mark_task_finished_def)
  next
    case False
    show ?thesis
      using assms by (auto simp: mark_task_finished_eq [OF Some False] Let_def mark_succeeded_def
          split: if_splits sum.splits pyerr.splits)
  qed
qed

lemma message_quiet: "sevents (message a r) = sevents r \<and> sevent_seq (message a r) = sevent_seq r"
proof (cases a)
  case (SFinished now t m)
  then show ?thesis
    using finish_quiet [of now t m r]
    by (auto simp: deliver_finish_def split: sum.splits)
qed (auto simp: mark_task_queued_def static_task_started_def static_mark_started_def mark_task_pending_def
    mark_task_retry_def split: option.splits)

lemma ending_quiet [simp]:
  "sevents (fst (static_timed_out_if_needed now r)) = sevents r"
  "sevent_seq (fst (static_timed_out_if_needed now r)) = sevent_seq r"
  "sevents (mark_cancelled now why r) = sevents r" "sevent_seq (mark_cancelled now why r) = sevent_seq r"
  "sevents (fst (mark_interrupted now why r)) = sevents r"
  "sevent_seq (fst (mark_interrupted now why r)) = sevent_seq r"
  by (simp_all add: static_timed_out_if_needed_def mark_cancelled_def mark_interrupted_def Let_def split: option.splits)

lemma static_perform_log:
  "sevents (static_perform a r) = sevents r \<and> sevent_seq (static_perform a r) = sevent_seq r
   \<or> (\<exists>e. sevents (static_perform a r) = sevents r @ [e] \<and> sevent_seq (static_perform a r) = Suc (sevent_seq r)
          \<and> seq_number e = int (Suc (sevent_seq r)))"
  by (cases a) (simp_all add: message_quiet static_append_event_def Let_def del: message.simps)

interpretation static_events: event_log sevents sevent_seq static_perform
  by unfold_locales (rule static_perform_log)

lemma reachable_static_keeps: "reachable_static w r \<Longrightarrow> static_events.keeps r"
proof (induction rule: reachable_static.induct)
  case (new now rid wid timeout tags meta refs inputs r)
  then show ?case by (auto simp: static_events.keeps_def new_static_run_def)
next
  case (unsent r now err)
  then show ?case by (simp add: static_events.keeps_def fail_static_run_def)
qed (rule static_events.keeps_step)

section \<open>More properties\<close>

text \<open>What an operation leaves of a run that has ended: everything but its log.\<close>

definition static_outcome where
  "static_outcome r = (sstatus r, snodes r, sresult r, serror r, sfinished r, srefs r)"

lemma ended_step: "static_terminal r \<Longrightarrow> static_outcome (static_perform a r) = static_outcome r"
  by (cases a) (simp_all add: static_outcome_def static_timed_out_if_needed_def mark_cancelled_def mark_interrupted_def
      static_append_event_def Let_def split: option.splits)

lemma ended_run: "static_terminal r \<Longrightarrow> static_outcome (fold static_perform as r) = static_outcome r"
proof (induction "as" arbitrary: r)
  case (Cons a "as")
  have e: "static_outcome (static_perform a r) = static_outcome r" by (rule ended_step [OF Cons.prems])
  with Cons.prems have "static_terminal (static_perform a r)" by (simp add: static_outcome_def static_terminal_def)
  from Cons.IH [OF this] e show ?case by simp
qed simp

text \<open>
  C28: finishing a task is all or nothing. On a run that has not ended it never raises; either the task
  joins the succeeded ones and the run succeeds exactly when it was the last, or it was the last, the
  declared final outputs could not be resolved, and then the run fails with the reported error and no
  other task has changed.
\<close>

theorem static_finish_atomic:
  assumes "workflow_ok w" and "reachable_static w r" and "\<not> static_terminal r"
    and "map_of (snodes r) t = Some n" and "\<not> succeeded n"
  shows "\<exists>r' err. mark_task_finished now t m r = Inr (r', err)
    \<and> (if err = VNone
       then succ_set r' = insert t (succ_set r)
            \<and> (sstatus r' = ''succeeded'') = (insert t (succ_set r) = set (dkeys (snodes r)))
       else insert t (succ_set r) = set (dkeys (snodes r)) \<and> succ_set r' = succ_set r
            \<and> sstatus r' = ''failed'' \<and> serror r' = err \<and> sresult r' = sresult r
            \<and> (\<forall>x. x = t \<or> map_of (snodes r') x = map_of (snodes r) x))"
proof -
  let ?s = "after_finish now t m r"
  have ok: "static_ok w r" by (rule reachable_static_ok [OF assms(2,1)])
  have nok: "nodes_ok w ?s" by (rule nodes_ok_after [OF ok assms(4)])
  note succ = succ_after_finish [OF assms(4), of now m]
  have ns: "sstatus ?s \<noteq> ''succeeded''"
    using assms(3) by (auto simp: static_terminal_def static_terminal_statuses_def)
  have fin: "all_tasks_finished ?s = (insert t (succ_set r) = set (dkeys (snodes r)))"
  proof -
    have sub: "insert t (succ_set r) \<subseteq> set (dkeys (snodes r))"
    proof
      fix x
      assume "x \<in> insert t (succ_set r)"
      then obtain n where "map_of (snodes r) x = Some n" using assms(4) by (auto simp: succ_set_def)
      then show "x \<in> set (dkeys (snodes r))" by (rule map_of_dkeys)
    qed
    have "dict_ok (snodes ?s)" using nok by (simp add: nodes_ok_def)
    from all_finished_iff [OF this] sub show ?thesis by (auto simp: succ)
  qed
  note eq = mark_task_finished_eq [OF assms(4,5), of now m]
  have cong: "snodes u = snodes v \<Longrightarrow> succ_set u = succ_set v" for u v by (simp add: succ_set_def)
  show ?thesis
  proof (cases "all_tasks_finished ?s")
    case False
    with fin ns show ?thesis
      using succ cong [of "?s\<lparr>supdated := now\<rparr>" ?s] by (simp add: eq Let_def)
  next
    case True
    show ?thesis
    proof (cases "final_result ?s")
      case (Inr res)
      let ?u = "?s\<lparr>sstatus := ''succeeded'', sfinished := Some now, sresult := res, supdated := now\<rparr>"
      have "succ_set ?u = succ_set ?s" by (rule cong) simp
      with True fin ns Inr succ show ?thesis by (simp add: eq mark_succeeded_def)
    next
      case (Inl e)
      then obtain rt k where e: "e = FinalOutputResolutionError rt k" using final_result_errors_nodes [OF nok] by blast
      let ?err = "resolution_detail t rt k"
      let ?u = "mark_task_failed now t ?err VNone (f_fault m) (f_attempt m) (f_dispatch m) (f_lease m) r"
      have err: "?err \<noteq> VNone" "\<not> error_is_timeout ?err"
        by (simp_all add: resolution_detail_def error_is_timeout_def)
      have nodes: "map_of (snodes ?u) x = map_of (snodes r) x \<or> x = t" for x by (simp add: mark_task_failed_def)
      have "succ_set ?u = succ_set r"
        using assms(4,5) err(2) by (auto simp: succ_set_def mark_task_failed_def succeeded_def split: if_splits)
      moreover have "sstatus ?u = ''failed''" "serror ?u = ?err" "sresult ?u = sresult r"
        using err(2) by (simp_all add: mark_task_failed_def on_node_def split: option.splits)
      ultimately show ?thesis
        using True fin ns Inl e err nodes by (simp add: eq mark_succeeded_def) blast
    qed
  qed
qed

lemma new_run_unsucceeded:
  assumes "new_static_run now rid wid w timeout tags meta refs inputs = Inr r"
  shows "succ_set r = {}"
proof -
  have ns: "rmap (\<lambda>(t, c). rbind (new_node w t c) (\<lambda>n. Inr (t, n))) (sorted_items (tasks w)) = Inr (snodes r)"
    using assms by (auto simp: new_static_run_def)
  have "\<not> succeeded n" if "map_of (snodes r) t = Some n" for t n
  proof -
    have "(t, n) \<in> set (snodes r)" using that by (rule map_of_in)
    then obtain c where "new_node w t c = Inr n" using new_nodes [OF ns] by blast
    from new_node_facts(1) [OF this] show ?thesis by (simp add: succeeded_def)
  qed
  then show ?thesis by (auto simp: succ_set_def)
qed

definition sample_finish :: finish_msg where
  "sample_finish = \<lparr>f_result = VDict [(''x'', VInt 1)], f_manifest = VNone, f_metrics = VNone, f_started = VNone,
     f_finished = VNone, f_duration_ms = VNone, f_node = VNone, f_fault = VNone, f_attempt = VNone,
     f_dispatch = VNone, f_lease = VNone\<rparr>"

lemma sample_static_nodes:
  obtains r n where "reachable_static sample_two r" "\<not> static_terminal r" "map_of (snodes r) ''a'' = Some n"
    "succ_set r = {}" "dkeys (snodes r) = [''a'', ''b'']"
proof -
  obtain r where r: "new_static_run 0 ''r'' ''w'' sample_two VNone [] [] None [] = Inr r"
      "dkeys (snodes r) = [''a'', ''b'']" "\<not> static_terminal r"
    by (rule sample_static_new)
  have reach: "reachable_static sample_two r" by (rule reachable_static.new [OF r(1)])
  have "''a'' \<in> set (dkeys (snodes r))" using r(2) by simp
  then have "map_of (snodes r) ''a'' \<noteq> None" by (simp only: dhas_iff [symmetric] dhas_dkeys)
  then obtain n where n: "map_of (snodes r) ''a'' = Some n" by blast
  from reach r n new_run_unsucceeded [OF r(1)] show thesis by (intro that)
qed

theorem static_finish_atomic_witness:
  "\<exists>r r'. mark_task_finished 5 ''a'' sample_finish r = Inr (r', VNone) \<and> ''a'' \<in> succ_set r' \<and> sstatus r' \<noteq> ''succeeded''"
proof -
  obtain r n where r: "reachable_static sample_two r" "\<not> static_terminal r" "map_of (snodes r) ''a'' = Some n"
    "succ_set r = {}" "dkeys (snodes r) = [''a'', ''b'']" by (rule sample_static_nodes)
  have "\<not> succeeded n" using r(3,4) by (auto simp: succ_set_def)
  moreover have "insert ''a'' (succ_set r) \<noteq> set (dkeys (snodes r))" using r(4,5) by auto
  ultimately obtain r' where r': "mark_task_finished 5 ''a'' sample_finish r = Inr (r', VNone)"
      "succ_set r' = insert ''a'' (succ_set r)" "sstatus r' \<noteq> ''succeeded''"
    using static_finish_atomic [OF sample_two_ok r(1-3), of 5 sample_finish] by (auto split: if_splits)
  show ?thesis by (intro exI [of _ r] exI [of _ r']) (simp add: r')
qed

lemma is_open_end [simp]: "s \<in> {''timed_out'', ''cancelled''} \<Longrightarrow> \<not> is_open (end_node now s e n)"
  unfolding is_open_def by (auto simp: is_open_def open_statuses_def)

lemma end_node_closed: "is_open n \<or> end_node now s e n = n"
  by (simp add: end_node_def)

lemma end_shuts:
  assumes "\<not> static_terminal r" and "a \<in> {SDeadline now, SCancel now why, SInterrupt now why}"
    and "static_terminal (static_perform a r)"
  shows "\<exists>f. snodes (static_perform a r) = dmapv (\<lambda>_. f) (snodes r) \<and> (\<forall>n. \<not> is_open (f n) \<and> (is_open n \<or> f n = n))"
proof -
  consider "a = SDeadline now" | "a = SCancel now why" | "a = SInterrupt now why" using assms(2) by blast
  then show ?thesis
  proof cases
    case 1
    with assms obtain e where "snodes (static_perform a r) = dmapv (\<lambda>_. end_node now ''timed_out'' e) (snodes r)"
      by (auto simp: static_timed_out_if_needed_def Let_def split: option.splits if_splits)
    then show ?thesis by (intro exI [of _ "end_node now ''timed_out'' e"]) (simp add: end_node_closed)
  next
    case 2
    let ?f = "\<lambda>n. upd_if (is_open n) ''status'' (VStr ''cancelled'') n"
    have "\<not> is_open (?f n) \<and> (is_open n \<or> ?f n = n)" for n
      by (cases "is_open n") (simp_all add: upd_if_def is_open_def node_status_def open_statuses_def)
    with 2 assms(1) show ?thesis by (intro exI [of _ ?f]) (simp add: mark_cancelled_def)
  next
    case 3
    with assms(1) obtain e where "snodes (static_perform a r) = dmapv (\<lambda>_. end_node now ''cancelled'' e) (snodes r)"
      by (simp add: mark_interrupted_def Let_def)
    then show ?thesis by (intro exI [of _ "end_node now ''cancelled'' e"]) (simp add: end_node_closed)
  qed
qed

text \<open>
  the end of a static run is final. When a deadline, a cancellation or a core restart ends the run,
  no task is left open, the tasks that were already finished are untouched, and whatever arrives
  afterwards changes nothing of the run but its log.
\<close>

theorem static_end_is_final:
  assumes "\<not> static_terminal r" and "a \<in> {SDeadline now, SCancel now why, SInterrupt now why}"
    and "static_terminal (static_perform a r)"
  shows "\<not> list_ex is_open (dvals (snodes (fold static_perform as (static_perform a r))))
    \<and> (\<forall>t n. map_of (snodes r) t = Some n \<and> \<not> is_open n \<longrightarrow>
          map_of (snodes (fold static_perform as (static_perform a r))) t = Some n)
    \<and> static_outcome (fold static_perform as (static_perform a r)) = static_outcome (static_perform a r)"
proof -
  have same: "static_outcome (fold static_perform as (static_perform a r)) = static_outcome (static_perform a r)"
    by (rule ended_run [OF assms(3)])
  then have nodes: "snodes (fold static_perform as (static_perform a r)) = snodes (static_perform a r)"
    by (simp add: static_outcome_def)
  have shut: "\<exists>f. snodes (static_perform a r) = dmapv (\<lambda>_. f) (snodes r) \<and> (\<forall>n. \<not> is_open (f n) \<and> (is_open n \<or> f n = n))"
    by (rule end_shuts [OF assms])
  then obtain f where f: "snodes (static_perform a r) = dmapv (\<lambda>_. f) (snodes r)"
    "\<And>n. \<not> is_open (f n)" "\<And>n. is_open n \<or> f n = n" by blast
  have "\<not> list_ex is_open (dvals (snodes (static_perform a r)))"
    by (auto simp: f list_ex_iff dvals_def dmapv_def)
  moreover have "map_of (snodes (static_perform a r)) t = Some n" if "map_of (snodes r) t = Some n" "\<not> is_open n" for t n
    using that f(3) [of n] by (simp add: f(1))
  ultimately show ?thesis using same nodes by simp
qed

theorem static_end_is_final_witness:
  "\<exists>r. reachable_static sample_two r \<and> snodes r \<noteq> []
    \<and> \<not> list_ex is_open (dvals (snodes (fold static_perform [SStarted 6 ''a'' []] (static_perform (SCancel 5 VNone) r))))"
proof -
  obtain r n where r: "reachable_static sample_two r" "\<not> static_terminal r" "map_of (snodes r) ''a'' = Some n"
    by (rule sample_static_nodes)
  moreover have "static_terminal (static_perform (SCancel 5 VNone) r)"
    using r(2) by (simp add: mark_cancelled_def static_terminal_def static_terminal_statuses_def)
  ultimately have "\<not> list_ex is_open (dvals (snodes (fold static_perform [SStarted 6 ''a'' []] (static_perform (SCancel 5 VNone) r))))"
    using static_end_is_final [OF r(2), of "SCancel 5 VNone" 5 VNone "[SStarted 6 ''a'' []]"] by simp
  with r show ?thesis by (intro exI [of _ r]) auto
qed

text \<open>
  a client that polls a static run with the last sequence number it saw receives exactly the events
  recorded since, in order, whatever happened to the run in between.
\<close>

theorem static_poll_exact:
  assumes "reachable_static w r"
  shows "sevents r @ static_get_events (Some (int (sevent_seq r))) (fold static_perform as r)
           = sevents (fold static_perform as r)"
  using static_events.poll_exact [OF reachable_static_keeps [OF assms]] by (simp add: static_get_events_def)

theorem static_poll_exact_witness:
  "\<exists>r. reachable_static sample_two r
     \<and> sevents r @ static_get_events (Some (int (sevent_seq r))) (fold static_perform [SEmit 1 ''t'' [], SCancel 2 VNone] r)
         = sevents (fold static_perform [SEmit 1 ''t'' [], SCancel 2 VNone] r)"
proof -
  obtain r n where "reachable_static sample_two r" by (rule sample_static_nodes)
  with static_poll_exact [OF this] show ?thesis by blast
qed

end
