(* ===== verification/Task_Error.thy ===== *)
theory Task_Error
  imports PyValue
begin

text \<open>
  Errors of task attempts: \<open>maze/core/scheduler/error.py\<close>. An error travels as a JSON dictionary (its
  envelope). Out-of-memory messages of the GPU backends are parsed here, once, into the amounts the
  resource policy uses. Time stamps and tracebacks are arguments.
\<close>

type_synonym envelope = "(string, pyval) dict"

section \<open>Out-of-memory messages\<close>

definition oom_markers :: "string list" where
  "oom_markers = [''cuda out of memory'', ''outofmemoryerror'', ''cublas_status_alloc_failed'', ''hip out of memory'',
     ''memory allocation failed'']"

text \<open>\<open>looks_like_oom\<close> on the text \<open>str(value or "")\<close>.\<close>

definition oom_text :: "string \<Rightarrow> bool" where
  "oom_text s =
     (let t = py_lower s
      in has_infix ''out of memory'' t \<and> list_ex (\<lambda>d. has_infix d t) [''cuda'', ''gpu'', ''hip'']
         \<or> list_ex (\<lambda>m. has_infix m t) oom_markers)"

definition str_or_empty :: "pyval \<Rightarrow> string" where
  "str_or_empty v = (if truthy v then py_str v else [])"

definition looks_like_oom :: "pyval \<Rightarrow> bool" where
  "looks_like_oom v = oom_text (str_or_empty v)"

text \<open>
  The three regular expressions of \<open>memory_failure_from_message\<close> as matchers on the lower-cased text (the
  patterns ignore case): an amount is a run of digits and dots, optional blanks and a unit; \<open>re.search\<close>
  takes the leftmost match.
\<close>

definition optional_char :: "char list \<Rightarrow> string \<Rightarrow> string \<times> string" where
  "optional_char cs s = (case s of c # r \<Rightarrow> if c \<in> set cs then ([c], r) else ([], s) | [] \<Rightarrow> ([], []))"

definition take_unit :: "string \<Rightarrow> (string \<times> string) option" where
  "take_unit s =
     (let (p, s1) = optional_char ''kmgt'' s; (i, s2) = optional_char ''i'' s1
      in (case s2 of c # r \<Rightarrow> if c = CHR ''b'' then Some (p @ i @ [c], r) else None | [] \<Rightarrow> None))"

definition amount_char :: "char \<Rightarrow> bool" where
  "amount_char c = (is_digit c \<or> c = CHR ''.'')"

definition amount_at :: "string \<Rightarrow> (string \<times> string \<times> string) option" where
  "amount_at s =
     (let num = takeWhile amount_char s
      in if num = [] then None
         else map_option (\<lambda>(u, r). (num, u, r)) (take_unit (dropWhile is_space (dropWhile amount_char s))))"

definition after_phrase :: "string \<Rightarrow> string \<Rightarrow> string option" where
  "after_phrase p s = (if take (length p) s = p then Some (drop (length p) s) else None)"

definition after_blanks :: "string \<Rightarrow> string option" where
  "after_blanks s = (if s \<noteq> [] \<and> is_space (hd s) then Some (dropWhile is_space s) else None)"

definition phrase_amount_at :: "string \<Rightarrow> string \<Rightarrow> (string \<times> string) option" where
  "phrase_amount_at p s =
     Option.bind (after_phrase p s) (\<lambda>r. Option.bind (after_blanks r) (\<lambda>r.
     map_option (\<lambda>(n, u, _). (n, u)) (amount_at r)))"

definition attempted_at :: "string \<Rightarrow> (string \<times> string) option" where
  "attempted_at s =
     (case phrase_amount_at ''tried to allocate'' s of Some x \<Rightarrow> Some x
      | None \<Rightarrow> phrase_amount_at ''allocating'' s)"

definition allocated_at :: "string \<Rightarrow> (string \<times> string) option" where
  "allocated_at s =
     Option.bind (amount_at s) (\<lambda>(n, u, r). Option.bind (after_blanks r) (\<lambda>r.
     map_option (\<lambda>_. (n, u)) (after_phrase ''is allocated by pytorch'' r)))"

definition capacity_at :: "string \<Rightarrow> (string \<times> string) option" where
  "capacity_at s = phrase_amount_at ''total capacity of'' s"

fun re_search :: "(string \<Rightarrow> 'a option) \<Rightarrow> string \<Rightarrow> 'a option" where
  "re_search m [] = m []"
| "re_search m (c # s) = (case m (c # s) of Some x \<Rightarrow> Some x | None \<Rightarrow> re_search m s)"

definition unit_bytes :: "(string, int) dict" where
  "unit_bytes = [(''b'', 1), (''kb'', 1000), (''mb'', 1000 ^ 2), (''gb'', 1000 ^ 3), (''tb'', 1000 ^ 4),
     (''kib'', 1024), (''mib'', 1024 ^ 2), (''gib'', 1024 ^ 3), (''tib'', 1024 ^ 4)]"

text \<open>\<open>int(float(number) * units[unit])\<close>; the unit \<open>iB\<close> matches the pattern but has no size.\<close>

definition amount_bytes :: "string \<Rightarrow> string \<Rightarrow> int result" where
  "amount_bytes num u =
     rbind (py_float (VStr num)) (\<lambda>f.
     (case map_of unit_bytes u of None \<Rightarrow> Inl (KeyError u)
      | Some k \<Rightarrow> int_of_float (case f of Fin q \<Rightarrow> clip_float (q * of_int k) | _ \<Rightarrow> f)))"

definition oom_patterns :: "(string \<times> (string \<Rightarrow> (string \<times> string) option)) list" where
  "oom_patterns = [(''attempted_allocation_bytes'', attempted_at), (''allocated_bytes'', allocated_at),
     (''capacity_bytes'', capacity_at)]"

definition parse_amount ::
    "string \<Rightarrow> envelope \<Rightarrow> string \<times> (string \<Rightarrow> (string \<times> string) option) \<Rightarrow> envelope result" where
  "parse_amount t d p =
     (case re_search (snd p) t of None \<Rightarrow> Inr d
      | Some (num, u) \<Rightarrow> rbind (amount_bytes num u) (\<lambda>n. Inr (dput (fst p) (VInt n) d)))"

definition memory_failure_from_message :: "string \<Rightarrow> string \<Rightarrow> envelope option result" where
  "memory_failure_from_message message scope =
     (if \<not> oom_text message then Inr None
      else
        (let t = py_lower message;
             cuda = list_ex (\<lambda>k. has_infix k t) [''cuda'', ''gpu'', ''cublas'', ''hip'']
         in rbind (rfold (parse_amount t)
              [(''scope'', VStr scope), (''device_type'', VStr (if cuda then ''cuda'' else ''unknown''))] oom_patterns)
              (\<lambda>d. Inr (Some d))))"

section \<open>Envelopes\<close>

definition retryable_default :: "string \<Rightarrow> bool" where
  "retryable_default ty =
     (ty \<in> {''resource_unavailable'', ''resource_insufficient'', ''node_lost'', ''artifact_error''})"

record error_site =
  site_origin :: string
  site_node :: pyval
  site_ip :: pyval
  site_attempt :: pyval

definition scheduler_site :: "pyval \<Rightarrow> error_site" where
  "scheduler_site attempt =
     \<lparr>site_origin = ''scheduler'', site_node = VNone, site_ip = VNone, site_attempt = attempt\<rparr>"

text \<open>\<open>make_error_envelope\<close>; \<open>retryable\<close> is \<open>None\<close> for the default of the type.\<close>

definition make_error_envelope ::
    "string \<Rightarrow> string \<Rightarrow> string \<Rightarrow> bool option \<Rightarrow> pyval \<Rightarrow> error_site \<Rightarrow> string \<Rightarrow> envelope" where
  "make_error_envelope ts ty message retryable traceback site exception_type =
     [(''error_type'', VStr ty), (''message'', VStr message),
      (''retryable'', VBool (case retryable of None \<Rightarrow> retryable_default ty | Some b \<Rightarrow> b)),
      (''traceback'', traceback), (''origin'', VStr (site_origin site)), (''node_id'', site_node site),
      (''node_ip'', site_ip site), (''attempt'', site_attempt site), (''timestamp'', VStr ts)]
     @ (if exception_type = [] then [] else [(''exception_type'', VStr exception_type)])"

text \<open>What an exception shows: \<open>str(exc)\<close>, its class, its traceback and a \<open>memory_failure\<close> it may carry.\<close>

record raised =
  exc_message :: string
  exc_class :: string
  exc_traceback :: string
  exc_memory :: "envelope option"

definition exception_to_error_envelope ::
    "string \<Rightarrow> string \<Rightarrow> raised \<Rightarrow> bool option \<Rightarrow> error_site \<Rightarrow> envelope result" where
  "exception_to_error_envelope ts ty exc retryable site =
     (let res = make_error_envelope ts ty (exc_message exc) retryable (VStr (exc_traceback exc)) site (exc_class exc)
      in rbind (case exc_memory exc of
                  Some d \<Rightarrow> if d \<noteq> [] then Inr (Some d) else memory_failure_from_message (exc_message exc) ''task''
                | None \<Rightarrow> memory_failure_from_message (exc_message exc) ''task'')
         (\<lambda>failure. Inr (case failure of None \<Rightarrow> res | Some d \<Rightarrow> dput ''memory_failure'' (VDict d) res)))"

definition task_error_envelope :: string where
  "task_error_envelope = ''__maze_task_error_envelope__''"

definition task_error_result :: "envelope \<Rightarrow> pyval" where
  "task_error_result e = VDict [(task_error_envelope, VBool True), (''error'', VDict e)]"

definition is_task_error_result :: "pyval \<Rightarrow> bool" where
  "is_task_error_result v = (case v of VDict d \<Rightarrow> vget d task_error_envelope = VBool True | _ \<Rightarrow> False)"

section \<open>Facts\<close>

lemma is_task_error_result_made [simp]: "is_task_error_result (task_error_result e)"
  by (simp add: is_task_error_result_def task_error_result_def)

lemma make_error_fields [simp]:
  "vget (make_error_envelope ts ty msg b tb site x) ''error_type'' = VStr ty"
  "vget (make_error_envelope ts ty msg b tb site x) ''message'' = VStr msg"
  "vget (make_error_envelope ts ty msg b tb site x) ''retryable''
     = VBool (case b of None \<Rightarrow> retryable_default ty | Some c \<Rightarrow> c)"
  "vget (make_error_envelope ts ty msg b tb site x) ''attempt'' = site_attempt site"
  by (simp_all add: make_error_envelope_def vget_def dgetd_def)

lemma exception_fields:
  assumes "exception_to_error_envelope ts ty exc b site = Inr e"
  shows "vget e ''error_type'' = VStr ty"
    and "vget e ''retryable'' = VBool (case b of None \<Rightarrow> retryable_default ty | Some c \<Rightarrow> c)"
proof -
  let ?m = "make_error_envelope ts ty (exc_message exc) b (VStr (exc_traceback exc)) site (exc_class exc)"
  obtain f where "e = (case f of None \<Rightarrow> ?m | Some d \<Rightarrow> dput ''memory_failure'' (VDict d) ?m)"
    using assms unfolding exception_to_error_envelope_def Let_def by (simp only: rbind_eq_Inr sum.inject) (elim exE conjE, rule that, erule sym)
  then have "vget e k = vget ?m k" if "k \<noteq> ''memory_failure''" for k
    using that by (simp split: option.splits)
  then show "vget e ''error_type'' = VStr ty"
    and "vget e ''retryable'' = VBool (case b of None \<Rightarrow> retryable_default ty | Some c \<Rightarrow> c)"
    by simp_all
qed

lemma memory_failure_is_oom: "memory_failure_from_message m s = Inr (Some d) \<Longrightarrow> oom_text m"
  by (simp add: memory_failure_from_message_def split: if_splits)

end
