(* ===== verification/Task_Runtime.thy ===== *)
theory Task_Runtime
  imports Task_Error Resources Placement
begin

text \<open>
  A task inside the scheduler: \<open>TaskRuntime\<close> of \<open>maze/core/scheduler/runtime.py\<close>, with its attempts and
  the trace of its recoveries (the dictionary \<open>fault_tolerance\<close>). Clocks and \<open>uuid4\<close> are arguments.
\<close>

section \<open>The recovery trace\<close>

record attempt_entry =
  en_attempt :: pyval
  en_failure :: envelope
  en_diagnosis :: envelope
  en_repair :: envelope
  en_scheduled :: bool
  en_next :: "int option"
  en_outcome :: "envelope option"
  en_time :: string

record trace =
  tr_status :: string
  tr_attempts :: "attempt_entry list"

definition idle_trace :: trace where
  "idle_trace = \<lparr>tr_status = ''idle'', tr_attempts = []\<rparr>"

section \<open>The task\<close>

text \<open>\<open>t_eligible\<close> and \<open>t_backoff\<close> are \<open>None\<close> for an infinite delay.\<close>

record rtask =
  t_status :: string
  t_workflow :: string
  t_id :: string
  t_input :: pyval
  t_kind :: string
  t_resources :: "(string, pyval) dict"
  t_declared :: "(string, pyval) dict"
  t_context :: "(string, pyval) dict"
  t_decision :: "(string, pyval) dict"
  t_internal :: "(string, pyval) dict"
  t_anchor :: pyval
  t_route :: pyval
  t_files :: pyval
  t_max_retries :: int
  t_backoff :: "rat option"
  t_retry_on :: "string list"
  t_timeout :: "pyfloat option"
  t_result :: pyval
  t_manifest :: pyval
  t_node :: "(string \<times> string \<times> int option) option"
  t_attempt :: int
  t_dispatch :: "string option"
  t_lease :: "string option"
  t_previous :: "(int \<times> string \<times> string option) option"
  t_last_error :: "envelope option"
  t_metrics :: pyval
  t_eligible :: "rat option"
  t_started :: "rat option"
  t_pending :: "string option"
  t_trace :: trace
  t_corrections :: int
  t_published :: bool

definition default_retry_on :: "string list" where
  "default_retry_on = [''node_lost'', ''resource_unavailable'', ''resource_insufficient'', ''invocation_error'']"

definition normalize_max_retries :: "pyval \<Rightarrow> int result" where
  "normalize_max_retries v = (if v = VNone then Inr 1 else rbind (py_int v) (\<lambda>n. Inr (max 0 n)))"

definition normalize_retry_on :: "pyval \<Rightarrow> string list result" where
  "normalize_retry_on v =
     (case v of
        VNone \<Rightarrow> Inr default_retry_on
      | VList xs \<Rightarrow> Inr (map py_str xs)
      | VStr s \<Rightarrow> Inr (map (\<lambda>c. [c]) s)
      | VDict d \<Rightarrow> Inr (dkeys d)
      | _ \<Rightarrow> Inl (TypeError ''object is not iterable''))"

definition backoff_seconds :: "pyval \<Rightarrow> rat option result" where
  "backoff_seconds v =
     rbind (py_float (vor v (VInt 0))) (\<lambda>f.
     Inr (case f of Fin q \<Rightarrow> Some (max 0 q) | PosInf \<Rightarrow> None | _ \<Rightarrow> Some 0))"

definition timeout_of :: "pyval \<Rightarrow> pyfloat option result" where
  "timeout_of v = (if v = VNone then Inr None else rbind (py_float v) (\<lambda>f. Inr (Some f)))"

text \<open>\<open>dict(v or {})\<close>\<close>

definition dict_arg :: "pyval \<Rightarrow> (string, pyval) dict result" where
  "dict_arg v = (if truthy v then py_dict v else Inr [])"

text \<open>The message a task is built from, with the keys the scheduler reads.\<close>

record run_request =
  rq_workflow :: string
  rq_task :: string
  rq_input :: pyval
  rq_resources :: pyval
  rq_kind :: pyval
  rq_anchor :: pyval
  rq_files :: pyval
  rq_max_retries :: pyval
  rq_backoff :: pyval
  rq_retry_on :: pyval
  rq_timeout :: pyval
  rq_context :: pyval
  rq_decision :: pyval
  rq_declared :: pyval

definition new_rtask :: "run_request \<Rightarrow> rtask result" where
  "new_rtask q =
     (let anchor = dict_or_empty (rq_anchor q) in
      rbind (if rq_kind q = VNone then or_empty (rq_resources q) else Inr []) (\<lambda>raw.
      rbind (normalize_task_kind (rq_kind q) raw anchor) (\<lambda>kind.
      rbind (normalize_resources (rq_resources q)) (\<lambda>res.
      rbind (normalize_resources (vor (rq_declared q) (rq_resources q))) (\<lambda>decl.
      rbind (dict_arg (rq_context q)) (\<lambda>ctx.
      rbind (dict_arg (rq_decision q)) (\<lambda>dec.
      rbind (require_schedulable_resources kind res anchor) (\<lambda>_.
      rbind (to_internal_scheduler_resources (VDict res) (VStr kind) anchor) (\<lambda>internal.
      rbind (normalize_max_retries (rq_max_retries q)) (\<lambda>n.
      rbind (backoff_seconds (rq_backoff q)) (\<lambda>backoff.
      rbind (normalize_retry_on (rq_retry_on q)) (\<lambda>on.
      rbind (timeout_of (rq_timeout q)) (\<lambda>timeout.
      Inr \<lparr>t_status = ''ready'', t_workflow = rq_workflow q, t_id = rq_task q, t_input = rq_input q, t_kind = kind,
           t_resources = res, t_declared = decl, t_context = ctx, t_decision = dec, t_internal = internal,
           t_anchor = rq_anchor q, t_route = VNone, t_files = rq_files q, t_max_retries = n, t_backoff = backoff,
           t_retry_on = on, t_timeout = timeout, t_result = VNone, t_manifest = VNone, t_node = None,
           t_attempt = 0, t_dispatch = None, t_lease = None, t_previous = None, t_last_error = None,
           t_metrics = VNone, t_eligible = Some 0, t_started = None, t_pending = None, t_trace = idle_trace,
           t_corrections = 0, t_published = True\<rparr>)))))))))))))"

section \<open>Attempts\<close>

definition begin_attempt :: "time \<Rightarrow> string \<Rightarrow> string option \<Rightarrow> rtask \<Rightarrow> rtask" where
  "begin_attempt now dispatch lease t =
     t\<lparr>t_attempt := t_attempt t + 1, t_dispatch := Some dispatch, t_lease := lease, t_manifest := VNone,
       t_started := Some now, t_pending := None\<rparr>"

text \<open>\<open>elapsed >= timeout\<close>\<close>

definition reached :: "rat \<Rightarrow> pyfloat \<Rightarrow> bool" where
  "reached q f = (case f of Fin x \<Rightarrow> x \<le> q | NegInf \<Rightarrow> True | _ \<Rightarrow> False)"

definition has_timed_out :: "time \<Rightarrow> rtask \<Rightarrow> bool" where
  "has_timed_out now t =
     (case (t_timeout t, t_started t) of
        (Some limit, Some started) \<Rightarrow> t_status t = ''running'' \<and> reached (now - started) limit
      | _ \<Rightarrow> False)"

definition should_retry :: "envelope \<Rightarrow> rtask \<Rightarrow> bool" where
  "should_retry e t =
     ((case vget e ''error_type'' of VStr ty \<Rightarrow> ty \<in> set (t_retry_on t) | _ \<Rightarrow> False)
      \<and> truthy (vgetd e ''retryable'' (VBool False)) \<and> t_attempt t \<le> t_max_retries t)"

definition schedule_retry :: "time \<Rightarrow> envelope \<Rightarrow> rtask \<Rightarrow> rtask result" where
  "schedule_retry now e t =
     rbind (to_internal_scheduler_resources (VDict (t_resources t)) (VStr (t_kind t)) (dict_or_empty (t_anchor t)))
       (\<lambda>internal. Inr (t\<lparr>t_last_error := Some e, t_internal := internal, t_status := ''retrying'', t_pending := None,
                          t_eligible := map_option (\<lambda>b. now + b) (t_backoff t)\<rparr>))"

definition clear_attempt_identity :: "rtask \<Rightarrow> rtask" where
  "clear_attempt_identity t =
     t\<lparr>t_previous := (case t_dispatch t of None \<Rightarrow> t_previous t | Some d \<Rightarrow> Some (t_attempt t, d, t_lease t)),
       t_dispatch := None, t_lease := None, t_started := None, t_node := None\<rparr>"

section \<open>What a task asks of the resource manager\<close>

definition hint_str :: "(string, pyval) dict \<Rightarrow> string \<Rightarrow> string option" where
  "hint_str d k = (case vget d k of VStr s \<Rightarrow> Some s | _ \<Rightarrow> None)"

definition hint_int :: "(string, pyval) dict \<Rightarrow> string \<Rightarrow> rat" where
  "hint_int d k = (case vget d k of VInt n \<Rightarrow> of_int n | _ \<Rightarrow> 0)"

definition avoid_list :: "(string, pyval) dict \<Rightarrow> string list" where
  "avoid_list d = (case vget d ''avoid_node_ids'' of VList xs \<Rightarrow> map py_str (filter truthy xs) | _ \<Rightarrow> [])"

text \<open>\<open>_task_execution_resources\<close>: a task served by a model instance takes no GPU of its own.\<close>

definition execution_need :: "rtask \<Rightarrow> need" where
  "execution_need t =
     (let d = t_internal t; routed = truthy (t_route t)
      in \<lparr>need_cpu = hint_int d ''cpu'', need_cpu_mem = hint_int d ''cpu_mem'',
          need_gpu = (if routed then 0 else hint_int d ''gpu''),
          need_gpu_mem = (if routed then 0 else hint_int d ''gpu_mem''),
          need_node = hint_str d ''node_id'', need_target = hint_str d ''target_node_id'',
          need_avoid = avoid_list d, need_capability = hint_str d ''required_capability''\<rparr>)"

definition task_request :: "string \<Rightarrow> rtask \<Rightarrow> request" where
  "task_request dispatch t =
     \<lparr>req_need = execution_need t, req_kind = ''task'',
      req_anchor = (if truthy (t_route t) then [] else dict_or_empty (t_anchor t)),
      req_workflow = Some (t_workflow t), req_run = Some (t_workflow t), req_task = Some (t_id t),
      req_attempt = Some (t_attempt t + 1), req_dispatch = Some dispatch\<rparr>"

section \<open>Facts\<close>

lemma copied_hint:
  assumes "normalize_resources (VDict raw) = Inr d" and "hint_given raw k" and "k \<in> set resource_hint_keys"
    and "k \<noteq> ''gpu_mem_limit''"
  shows "vget d k = vget raw k"
proof -
  have "raw \<noteq> []" using assms(2) by (auto simp: hint_given_def)
  then have "normalize_raw raw = Inr d" using assms(1) by (simp add: normalize_resources_def)
  then obtain c g i where cl: "check_limit (copy_hints raw (base_resources c g i)) = Inr d"
    by (auto simp: normalize_raw_def guard_or_def split: if_splits)
  let ?d0 = "copy_hints raw (base_resources c g i)"
  have nb: "k \<noteq> ''cpu_num'' \<and> k \<noteq> ''gpu_mem'' \<and> k \<noteq> ''io_num''"
    using assms(3) by (auto simp: resource_hint_keys_def)
  have "map_of (map (\<lambda>k. (k, vget raw k)) (filter (hint_given raw) resource_hint_keys)) k = Some (vget raw k)"
    using assms(2,3) by (simp add: map_of_map_restrict o_def restrict_map_def)
  then have "vget ?d0 k = vget raw k"
    using nb by (simp add: copy_hints_def vget_def dgetd_def map_of_base del: map_of_append)
  moreover have "vget d k = vget ?d0 k"
    using cl assms(4) by (auto simp: check_limit_def split: if_splits)
  ultimately show ?thesis by simp
qed

lemma internal_facts:
  assumes "to_internal_scheduler_resources (VDict res) kind anchor = Inr d"
  obtains n c g where "normalize_resources (VDict res) = Inr n" "1 \<le> c" "0 \<le> g"
    "vget d ''cpu'' = VInt c" "vget d ''cpu_mem'' = VInt 0" "vget d ''gpu'' = VInt (if 0 < g then 1 else 0)"
    "vget d ''gpu_mem'' = VInt g" "\<And>k. k \<in> set resource_hint_keys \<Longrightarrow> vget d k = vget n k"
proof -
  obtain n g where n: "normalize_resources (VDict res) = Inr n" "py_int (vget n ''gpu_mem'') = Inr g"
    and d: "d = dput ''gpu_mem'' (vget n ''gpu_mem'') (dput ''gpu'' (VInt (if 0 < g then 1 else 0))
         (dput ''cpu_mem'' (VInt 0) (dput ''cpu'' (vget n ''cpu_num'') n)))"
    using assms by (auto simp: to_internal_scheduler_resources_def)
  obtain c g' i h where sh: "norm_shape c g' i h n" using normalize_resources_shape [OF n(1)] by blast
  then have v: "vget n ''cpu_num'' = VInt c" "vget n ''gpu_mem'' = VInt g'" "1 \<le> c" "0 \<le> g'"
    by (auto simp: norm_shape_def vget_base)
  with n(2) have "g = g'" by simp
  show thesis
  proof (rule that [OF n(1) v(3,4)])
    show "vget d k = vget n k" if "k \<in> set resource_hint_keys" for k
    proof -
      have "k \<noteq> ''cpu'' \<and> k \<noteq> ''cpu_mem'' \<and> k \<noteq> ''gpu'' \<and> k \<noteq> ''gpu_mem''"
        using that by (auto simp: resource_hint_keys_def)
      then show ?thesis by (simp add: d)
    qed
  qed (simp_all add: d v \<open>g = g'\<close>)
qed

definition internal_ok :: "rtask \<Rightarrow> bool" where
  "internal_ok t = (\<exists>res kind anchor. to_internal_scheduler_resources (VDict res) kind anchor = Inr (t_internal t))"

lemma execution_need_ok: "internal_ok t \<Longrightarrow> needs_nonneg (execution_need t) \<and> need_gpu (execution_need t) \<le> 1"
proof -
  assume "internal_ok t"
  then obtain res kind anchor where "to_internal_scheduler_resources (VDict res) kind anchor = Inr (t_internal t)"
    by (auto simp: internal_ok_def)
  then show ?thesis
    by (rule internal_facts) (simp add: execution_need_def needs_nonneg_def hint_int_def Let_def)
qed

lemma internal_ok_cong: "t_internal t' = t_internal t \<Longrightarrow> internal_ok t' = internal_ok t"
  by (simp add: internal_ok_def)

lemma new_rtask_facts:
  assumes "new_rtask q = Inr t"
  shows "t_attempt t = 0 \<and> t_status t = ''ready'' \<and> t_lease t = None \<and> t_dispatch t = None \<and> internal_ok t
    \<and> t_corrections t = 0 \<and> t_trace t = idle_trace \<and> 0 \<le> t_max_retries t \<and> t_workflow t = rq_workflow q \<and> t_id t = rq_task q"
proof -
  obtain res kind anchor n where t: "to_internal_scheduler_resources (VDict res) kind anchor = Inr (t_internal t)"
      "normalize_max_retries (rq_max_retries q) = Inr n" "t_max_retries t = n"
      "t_attempt t = 0 \<and> t_status t = ''ready'' \<and> t_lease t = None \<and> t_dispatch t = None
       \<and> t_corrections t = 0 \<and> t_trace t = idle_trace \<and> t_workflow t = rq_workflow q \<and> t_id t = rq_task q"
    using assms unfolding new_rtask_def Let_def by (auto simp del: rbind.simps)
  have "0 \<le> n" using t(2) by (auto simp: normalize_max_retries_def split: if_splits)
  with t show ?thesis unfolding internal_ok_def by blast
qed

lemma schedule_retry_facts:
  assumes "schedule_retry now e t = Inr t'"
  shows "t_status t' = ''retrying'' \<and> internal_ok t' \<and> t_attempt t' = t_attempt t \<and> t_lease t' = t_lease t
    \<and> t_dispatch t' = t_dispatch t \<and> t_max_retries t' = t_max_retries t \<and> t_workflow t' = t_workflow t \<and> t_id t' = t_id t
    \<and> t_corrections t' = t_corrections t \<and> t_trace t' = t_trace t"
proof -
  obtain x where x: "to_internal_scheduler_resources (VDict (t_resources t)) (VStr (t_kind t)) (dict_or_empty (t_anchor t)) = Inr x"
    and t': "t' = t\<lparr>t_last_error := Some e, t_internal := x, t_status := ''retrying'', t_pending := None,
                    t_eligible := map_option (\<lambda>b. now + b) (t_backoff t)\<rparr>"
    using assms by (auto simp: schedule_retry_def)
  have "internal_ok t'" using x unfolding internal_ok_def t' by (intro exI) simp
  then show ?thesis by (simp add: t')
qed

section \<open>A sample task\<close>

definition sample_rtask :: "(string, pyval) dict \<Rightarrow> rtask" where
  "sample_rtask hints =
     \<lparr>t_status = ''ready'', t_workflow = ''w'', t_id = ''a'', t_input = VNone, t_kind = ''cpu'',
      t_resources = base_resources 1 0 0 @ hints, t_declared = base_resources 1 0 0, t_context = [], t_decision = [],
      t_internal = dput ''gpu_mem'' (VInt 0) (dput ''gpu'' (VInt 0) (dput ''cpu_mem'' (VInt 0) (dput ''cpu'' (VInt 1)
        (base_resources 1 0 0 @ hints)))),
      t_anchor = VNone, t_route = VNone, t_files = VNone, t_max_retries = 1, t_backoff = Some 0,
      t_retry_on = default_retry_on, t_timeout = None, t_result = VNone, t_manifest = VNone, t_node = None,
      t_attempt = 0, t_dispatch = None, t_lease = None, t_previous = None, t_last_error = None, t_metrics = VNone,
      t_eligible = Some 0, t_started = None, t_pending = None, t_trace = idle_trace, t_corrections = 0,
      t_published = True\<rparr>"

lemma sample_internal:
  assumes "norm_shape 1 0 0 hints (base_resources 1 0 0 @ hints)"
  shows "to_internal_scheduler_resources (VDict (base_resources 1 0 0 @ hints)) (VStr ''cpu'') []
    = Inr (t_internal (sample_rtask hints))"
proof -
  have n: "normalize_resources (VDict (base_resources 1 0 0 @ hints)) = Inr (base_resources 1 0 0 @ hints)"
    using norm_shape_fixed [OF assms] norm_shape_nonempty [OF assms] by (simp add: normalize_resources_def)
  show ?thesis
    by (simp add: to_internal_scheduler_resources_def n normalize_task_kind_def vget_base sample_rtask_def)
      (simp add: task_kinds_def py_lower_def py_strip_def is_space_def lower_char_def is_upper_def Let_def)
qed

lemma select_node_total: "need_gpu (req_need q) \<le> 1 \<Longrightarrow> \<exists>m' s. select_node now lid r models q m = Inr (m', s)"
  unfolding select_node_def Let_def by (auto split: option.splits if_splits)

end
