(* ===== verification/Fault_Tolerance.thy ===== *)
theory Fault_Tolerance
  imports Task_Runtime
begin

text \<open>
  Recovery from failed attempts: \<open>maze/core/fault_tolerance.py\<close> and \<open>enrich_error_for_task\<close> of
  \<open>scheduler/error.py\<close>. A failure is diagnosed, a repair is applied to the task (another node, corrected
  inputs, more memory), and every decision is recorded in the task's trace.
\<close>

section \<open>Diagnosis\<close>

record diagnosis =
  dg_category :: string
  dg_reason :: pyval
  dg_recoverable :: bool
  dg_details :: envelope

definition set_if_missing :: "string \<Rightarrow> pyval \<Rightarrow> envelope \<Rightarrow> envelope" where
  "set_if_missing k v e = dput k (vor (vget e k) v) e"

definition enrich_error_for_task :: "string \<Rightarrow> envelope \<Rightarrow> rtask \<Rightarrow> envelope result" where
  "enrich_error_for_task ts e t =
     rbind (if truthy (vget e ''memory_failure'') \<or> truthy (t_route t) then Inr None
            else memory_failure_from_message (py_str (vgetd e ''message'' (VStr []))) ''task'') (\<lambda>failure.
     let e1 = (case failure of None \<Rightarrow> e | Some d \<Rightarrow> dput ''memory_failure'' (VDict d) e);
         e2 = set_if_missing ''attempt'' (VInt (t_attempt t)) (dsetdefault ''timestamp'' (VStr ts) e1)
     in Inr (case t_node t of
               None \<Rightarrow> e2
             | Some (n, ip, _) \<Rightarrow> set_if_missing ''node_ip'' (VStr ip) (set_if_missing ''node_id'' (VStr n) e2)))"

definition node_recoverability :: "rtask \<Rightarrow> string \<Rightarrow> bool \<times> envelope" where
  "node_recoverability t ty =
     (let failed = (case t_node t of None \<Rightarrow> VNone | Some (n, _) \<Rightarrow> VStr n);
          target = vor (vget (t_resources t) ''target_node_id'') (vget (t_resources t) ''node_id'');
          files = dict_or_empty (t_files t);
          portable = truthy (vget files ''artifact_store'');
          details = (\<lambda>ok reason artifact. [(''recoverable'', VBool ok), (''reason'', VStr reason),
                                            (''artifact_recoverable'', VBool artifact)])
      in if truthy target \<and> truthy failed \<and> target = failed
         then (False, details False ''task_pinned_to_failed_node'' False @ [(''target_node_id'', target)])
         else if truthy (vget files ''enabled'')
         then (portable, details portable
                 (if portable then ''artifact_store_available'' else ''file_context_not_portable_without_artifact_store'')
                 portable)
         else (ty = ''node_lost'', details (ty = ''node_lost'') ''inputs_replayable_from_scheduler_state'' True))"

definition invocation_reason :: "string \<Rightarrow> string" where
  "invocation_reason message =
     (let s = py_lower message; says = (\<lambda>w. has_infix w s)
      in if says ''max_tokens'' \<or> says ''finish_reason'' \<or> says ''length'' then ''max_tokens_insufficient''
         else if says ''json'' \<or> says ''expecting value'' \<or> says ''malformed'' then ''json_parse_failed''
         else if says ''schema'' \<or> says ''validation'' \<or> says ''required field'' then ''schema_mismatch''
         else if says ''missing'' \<and> (says ''arg'' \<or> says ''tool'') then ''tool_invocation_args_missing''
         else ''invocation_error'')"

definition diagnose_failure :: "envelope \<Rightarrow> rtask \<Rightarrow> diagnosis" where
  "diagnose_failure e t =
     (let ty = py_str (vor (vget e ''error_type'') (VStr ''unknown''));
          message = str_or_empty (vget e ''message'')
      in if ty = ''missing_model''
         then \<lparr>dg_category = ''model'', dg_reason = VStr ''checkpoint_missing'', dg_recoverable = False, dg_details = []\<rparr>
         else if ty = ''model_deployment_failed''
         then \<lparr>dg_category = ''model'', dg_reason = VStr ''deployment_failed'', dg_recoverable = False, dg_details = []\<rparr>
         else if ty = ''resource_insufficient''
         then \<lparr>dg_category = ''resource'',
               dg_reason = VStr (if looks_like_oom (VDict e) \<or> oom_text message then ''gpu_oom'' else ''resource_insufficient''),
               dg_recoverable = True, dg_details = []\<rparr>
         else if ty \<in> {''node_lost'', ''resource_unavailable''}
         then (let (ok, details) = node_recoverability t ty
               in \<lparr>dg_category = ''worker'',
                   dg_reason = VStr (if ty = ''node_lost'' then ''worker_lost'' else ''worker_resource_unavailable''),
                   dg_recoverable = ok, dg_details = details\<rparr>)
         else if ty = ''invocation_error''
         then \<lparr>dg_category = ''invocation'',
               dg_reason = vor (vor (vget e ''invocation_reason'') (vget (dict_or_empty (vget e ''details'')) ''reason''))
                               (VStr (invocation_reason message)),
               dg_recoverable = t_corrections t < 1,
               dg_details = [(''correction_count'', VInt (t_corrections t)), (''max_corrections'', VInt 1)]\<rparr>
         else \<lparr>dg_category = ''unknown'', dg_reason = VStr ty,
               dg_recoverable = truthy (vgetd e ''retryable'' (VBool False)), dg_details = []\<rparr>)"

definition diagnosis_dict :: "diagnosis \<Rightarrow> envelope" where
  "diagnosis_dict d =
     [(''category'', VStr (dg_category d)), (''reason'', dg_reason d), (''recoverable'', VBool (dg_recoverable d)),
      (''details'', VDict (dg_details d))]"

section \<open>Corrections of a task's inputs\<close>

definition input_entry :: "string \<Rightarrow> pyval \<Rightarrow> envelope" where
  "input_entry data_type v =
     [(''input_schema'', VStr ''from_user''), (''data_type'', VStr data_type), (''value'', v), (''has_value'', VBool True)]"

definition dict_update :: "envelope \<Rightarrow> envelope \<Rightarrow> envelope" where
  "dict_update new d = foldl (\<lambda>d (k, v). dput k v d) d new"

definition names_input :: "string \<Rightarrow> pyval \<Rightarrow> bool" where
  "names_input key v = (case v of VDict d \<Rightarrow> vget d ''key'' = VStr key | _ \<Rightarrow> False)"

fun update_first_input :: "string \<Rightarrow> envelope \<Rightarrow> (string, pyval) dict \<Rightarrow> (string, pyval) dict" where
  "update_first_input key new [] = []"
| "update_first_input key new ((k, v) # ps) =
     (if names_input key v then (k, VDict (dict_update new (dict_or_empty v))) # ps
      else (k, v) # update_first_input key new ps)"

definition next_input_key :: "(string, pyval) dict \<Rightarrow> string" where
  "next_input_key ps =
     show_int ((case List.map_filter parse_int (dkeys ps) of [] \<Rightarrow> 0 | n # ns \<Rightarrow> foldl max n ns) + 1)"

definition input_params_of :: "pyval \<Rightarrow> (string, pyval) dict" where
  "input_params_of inp = dict_or_empty (vget (dict_or_empty inp) ''input_params'')"

definition has_task_input :: "rtask \<Rightarrow> string \<Rightarrow> bool" where
  "has_task_input t key = list_ex (names_input key) (dvals (input_params_of (t_input t)))"

definition set_task_input :: "string \<Rightarrow> pyval \<Rightarrow> string \<Rightarrow> rtask \<Rightarrow> rtask" where
  "set_task_input key v data_type t =
     (case t_input t of
        VDict d \<Rightarrow>
          (let ps = input_params_of (t_input t);
               ps' = (if has_task_input t key then update_first_input key (input_entry data_type v) ps
                      else dput (next_input_key ps) (VDict ((''key'', VStr key) # input_entry data_type v)) ps)
           in t\<lparr>t_input := VDict (dput ''input_params'' (VDict ps') d)\<rparr>)
      | _ \<Rightarrow> t)"

text \<open>\<open>_int_resource\<close> catches no \<open>OverflowError\<close>.\<close>

definition int_resource :: "pyval \<Rightarrow> int \<Rightarrow> int result" where
  "int_resource v d =
     (case rbind (py_float v) int_of_float of
        Inl OverflowError \<Rightarrow> Inl OverflowError
      | Inl _ \<Rightarrow> Inr d
      | Inr n \<Rightarrow> Inr n)"

section \<open>Repairs\<close>

definition refused :: "string \<Rightarrow> string \<Rightarrow> envelope" where
  "refused ty reason = [(''type'', VStr ty), (''applied'', VBool False), (''reason'', VStr reason)]"

definition apply_invocation_correction ::
    "rtask \<Rightarrow> envelope \<Rightarrow> diagnosis \<Rightarrow> (rtask \<times> envelope) result" where
  "apply_invocation_correction t e dg =
     (if 1 \<le> t_corrections t then Inr (t, refused ''invocation_correction'' ''correction_limit_reached'')
      else if \<not> has_task_input t ''invocation_repair''
      then Inr (t, refused ''invocation_correction'' ''no_invocation_context'')
      else
        (let reason = vor (dg_reason dg) (VStr ''invocation_error'');
             details = dict_or_empty (vget e ''details'');
             payload = VDict [(''reason'', reason), (''message'', vget e ''message''), (''details'', VDict details)];
             t1 = set_task_input ''invocation_repair'' payload ''dict'' t;
             changes = [(''invocation_repair'', VDict [(''to'', payload)])]
         in rbind (if reason = VStr ''max_tokens_insufficient''
                   then rbind (int_resource (vget details ''max_tokens'') 512) (\<lambda>current.
                     let updated = max (current + 256) (current * 2)
                     in if has_task_input t1 ''max_tokens_override''
                        then Inr (set_task_input ''max_tokens_override'' (VInt updated) ''int'' t1,
                                  changes @ [(''max_tokens_override'',
                                    VDict [(''from'', VInt current), (''to'', VInt updated)])])
                        else Inr (t1, changes))
                   else Inr (t1, changes))
            (\<lambda>(t2, ch). Inr (t2\<lparr>t_corrections := t_corrections t2 + 1\<rparr>,
               [(''type'', VStr ''invocation_correction''), (''applied'', VBool True), (''strategy'', reason),
                (''changes'', VDict ch)]))))"

definition list_items :: "pyval \<Rightarrow> pyval list" where
  "list_items v = (case v of VList xs \<Rightarrow> xs | _ \<Rightarrow> [])"

definition apply_node_recovery :: "rtask \<Rightarrow> envelope \<Rightarrow> diagnosis \<Rightarrow> rtask \<times> envelope" where
  "apply_node_recovery t e dg =
     (let failed = (if truthy (vget e ''node_id'') then vget e ''node_id''
                    else (case t_node t of None \<Rightarrow> vget e ''node_id'' | Some (n, _) \<Rightarrow> VStr n))
      in if \<not> truthy failed then (t, refused ''node_reselect'' ''missing_failed_node'')
         else
           (let avoid = list_items (vget (t_resources t) ''avoid_node_ids'');
                avoid' = (if failed \<in> set avoid then avoid else avoid @ [failed]);
                res = dput ''avoid_node_ids'' (VList avoid') (t_resources t)
            in (t\<lparr>t_resources := res\<rparr>,
                [(''type'', VStr ''node_reselect''), (''applied'', VBool True), (''adjusted_resources'', VDict res),
                 (''avoid_node_id'', failed),
                 (''artifact_recoverable'', vget (dg_details dg) ''artifact_recoverable'')])))"

text \<open>
  \<open>ResourceDecision.to_dict\<close>, with the task's declared resources in place of the normalised ones and
  without the resource context, which no amount depends on.
\<close>

definition decision_dict :: "rtask \<Rightarrow> decision \<Rightarrow> envelope" where
  "decision_dict t d =
     [(''declared'', VDict (t_declared t)), (''effective'', VDict (effective d)),
      (''sources'', VList (map VStr (sources d))),
      (''sample_count'', VInt (sample_count d))]"

definition reanchor_scope :: "envelope \<Rightarrow> bool" where
  "reanchor_scope failure =
     (vget failure ''device_type'' = VStr ''cuda''
      \<and> vgetd failure ''scope'' (VStr ''task'') \<in> {VStr ''task'', VStr ''model_instance''})"

definition apply_repair_action :: "rtask \<Rightarrow> envelope \<Rightarrow> diagnosis \<Rightarrow> (rtask \<times> envelope) result" where
  "apply_repair_action t e dg =
     (if \<not> dg_recoverable dg
      then Inr (t, [(''type'', VStr ''none''), (''applied'', VBool False),
                    (''reason'', vor (dg_reason dg) (VStr ''not_recoverable''))])
      else if dg_category dg = ''resource'' then
        rbind (or_empty (vget e ''memory_failure'')) (\<lambda>failure.
        if reanchor_scope failure then
          (case recommend_resources (VDict (t_resources t)) [] (dict_or_empty (t_anchor t)) (Some failure) of
             Inl (ResourceLimitExceeded m) \<Rightarrow>
               Inr (t, refused ''none'' ''resource_limit_exceeded'' @ [(''message'', VStr m)])
           | Inl x \<Rightarrow> Inl x
           | Inr d \<Rightarrow>
               Inr (t, [(''type'', VStr ''resource_reanchor''), (''applied'', VBool True),
                        (''scope'', vgetd failure ''scope'' (VStr ''task'')),
                        (''adjusted_resources'', VDict (effective d)),
                        (''resource_decision'', VDict (decision_dict t d)), (''reason'', VStr ''cuda_oom'')]))
        else Inr (t, [(''type'', VStr ''retry_without_resource_change''), (''applied'', VBool True),
                      (''reason'', VStr ''resource_request_unchanged''),
                      (''requested_resources'', VDict (t_resources t))]))
      else if dg_category dg = ''worker'' then Inr (apply_node_recovery t e dg)
      else if dg_category dg = ''invocation'' then apply_invocation_correction t e dg
      else Inr (t, [(''type'', VStr ''retry''), (''applied'', VBool True), (''reason'', VStr ''retryable_failure'')]))"

section \<open>The trace\<close>

definition failure_snapshot :: "envelope \<Rightarrow> envelope" where
  "failure_snapshot e =
     map (\<lambda>k. (k, vget e k))
       [''error_type'', ''message'', ''origin'', ''node_id'', ''node_ip'', ''attempt'', ''timestamp'', ''details'']"

fun close_first_open :: "envelope \<Rightarrow> attempt_entry list \<Rightarrow> attempt_entry list" where
  "close_first_open out [] = []"
| "close_first_open out (x # xs) =
     (if en_outcome x = None then x\<lparr>en_outcome := Some out\<rparr> # xs else x # close_first_open out xs)"

definition close_open_attempt :: "envelope \<Rightarrow> trace \<Rightarrow> trace" where
  "close_open_attempt out tr = tr\<lparr>tr_attempts := rev (close_first_open out (rev (tr_attempts tr)))\<rparr>"

definition outcome :: "string \<Rightarrow> string \<Rightarrow> rtask \<Rightarrow> envelope" where
  "outcome ts status t = [(''status'', VStr status), (''attempt'', VInt (t_attempt t)), (''timestamp'', VStr ts)]"

definition record_retry_decision ::
    "string \<Rightarrow> envelope \<Rightarrow> diagnosis \<Rightarrow> envelope \<Rightarrow> bool \<Rightarrow> int option \<Rightarrow> rtask \<Rightarrow> rtask" where
  "record_retry_decision ts e dg repair scheduled next t =
     (let tr = (if scheduled
                then close_open_attempt (outcome ts ''failed'' t
                       @ [(''message'', VStr ''Retry attempt failed before recovery completed.'')]) (t_trace t)
                else t_trace t);
          entry = \<lparr>en_attempt = vor (vget e ''attempt'') (VInt (t_attempt t)), en_failure = failure_snapshot e,
                   en_diagnosis = diagnosis_dict dg, en_repair = repair, en_scheduled = scheduled,
                   en_next = (if scheduled then next else None),
                   en_outcome = (if scheduled then None else Some (outcome ts ''failed'' t)), en_time = ts\<rparr>
      in t\<lparr>t_trace := \<lparr>tr_status = (if scheduled then ''retrying'' else ''failed''),
                       tr_attempts = tr_attempts tr @ [entry]\<rparr>\<rparr>)"

definition record_success :: "string \<Rightarrow> rtask \<Rightarrow> rtask" where
  "record_success ts t =
     (let tr = close_open_attempt (outcome ts ''succeeded'' t) (t_trace t)
      in t\<lparr>t_trace := tr\<lparr>tr_status := (if tr_attempts tr = [] then ''succeeded'' else ''recovered'')\<rparr>\<rparr>)"

definition record_final_failure :: "string \<Rightarrow> envelope \<Rightarrow> rtask \<Rightarrow> rtask" where
  "record_final_failure ts e t =
     t\<lparr>t_trace := (close_open_attempt (outcome ts ''failed'' t @ [(''error'', VDict (failure_snapshot e))]) (t_trace t))
         \<lparr>tr_status := ''failed''\<rparr>\<rparr>"

section \<open>The trace keeps at most its last attempt open\<close>

definition trace_ok :: "trace \<Rightarrow> bool" where
  "trace_ok tr =
     ((\<forall>x \<in> set (butlast (tr_attempts tr)). en_outcome x \<noteq> None)
      \<and> (tr_attempts tr \<noteq> [] \<longrightarrow> (tr_status tr = ''retrying'') = (en_outcome (last (tr_attempts tr)) = None)))"

definition closed :: "trace \<Rightarrow> bool" where
  "closed tr = (\<forall>x \<in> set (tr_attempts tr). en_outcome x \<noteq> None)"

lemma trace_ok_idle [simp]: "trace_ok idle_trace"
  by (simp add: trace_ok_def idle_trace_def)

lemma close_first_open_closed:
  "(\<forall>x \<in> set (tl xs). en_outcome x \<noteq> None) \<Longrightarrow> \<forall>x \<in> set (close_first_open out xs). en_outcome x \<noteq> None"
proof (cases xs)
  case (Cons y ys)
  assume a: "\<forall>x \<in> set (tl xs). en_outcome x \<noteq> None"
  have "\<forall>x \<in> set zs. en_outcome x \<noteq> None \<Longrightarrow> close_first_open out zs = zs" for zs
    by (induction zs) auto
  with a Cons show ?thesis by auto
qed simp

lemma butlast_tl_rev: "set (butlast xs) = set (tl (rev xs))"
  by (metis butlast_rev rev_rev_ident set_rev)

lemma close_open_closed: "trace_ok tr \<Longrightarrow> closed (close_open_attempt out tr)"
  using close_first_open_closed [of "rev (tr_attempts tr)" out]
  by (simp add: trace_ok_def closed_def close_open_attempt_def butlast_tl_rev)

lemma length_close_open [simp]: "length (tr_attempts (close_open_attempt out tr)) = length (tr_attempts tr)"
proof -
  have "length (close_first_open out xs) = length xs" for xs by (induction xs) auto
  then show ?thesis by (simp add: close_open_attempt_def)
qed

lemma closed_ok: "closed tr \<Longrightarrow> tr_status tr \<noteq> ''retrying'' \<Longrightarrow> trace_ok tr"
  by (auto simp: closed_def trace_ok_def dest: in_set_butlastD)

lemma closed_tr_status [simp]: "closed (tr\<lparr>tr_status := s\<rparr>) = closed tr"
  by (simp add: closed_def)

lemma record_retry_ok: "trace_ok (t_trace t) \<Longrightarrow> trace_ok (t_trace (record_retry_decision ts e dg rep True next t))"
proof -
  assume ok: "trace_ok (t_trace t)"
  show ?thesis
    using close_open_closed [OF ok, of "outcome ts ''failed'' t
       @ [(''message'', VStr ''Retry attempt failed before recovery completed.'')]"]
    by (simp add: record_retry_decision_def trace_ok_def closed_def Let_def)
qed

lemma record_success_ok: "trace_ok (t_trace t) \<Longrightarrow> trace_ok (t_trace (record_success ts t)) \<and> closed (t_trace (record_success ts t))"
proof -
  assume ok: "trace_ok (t_trace t)"
  note c = close_open_closed [OF ok, of "outcome ts ''succeeded'' t"]
  then have "closed (t_trace (record_success ts t))" by (simp add: record_success_def Let_def)
  moreover have "tr_status (t_trace (record_success ts t)) \<noteq> ''retrying''" by (simp add: record_success_def Let_def)
  ultimately show ?thesis using closed_ok by blast
qed

lemma close_first_open_one:
  assumes "\<forall>x \<in> set (tl xs). en_outcome x \<noteq> None" and "en_outcome y \<noteq> None"
  shows "\<forall>x \<in> set (close_first_open out (y # xs)). en_outcome x \<noteq> None"
  using assms close_first_open_closed [of xs out] by auto

text \<open>A rejected retry records its attempt closed; the final failure closes the attempt that was still open.\<close>

lemma record_failure_ok:
  assumes "trace_ok (t_trace t)"
  shows "closed (t_trace (record_final_failure ts e' (record_retry_decision ts e dg rep False next t)))"
    (is "closed (t_trace ?u)")
proof -
  define y where "y = \<lparr>en_attempt = vor (vget e ''attempt'') (VInt (t_attempt t)), en_failure = failure_snapshot e,
    en_diagnosis = diagnosis_dict dg, en_repair = rep, en_scheduled = False, en_next = None,
    en_outcome = Some (outcome ts ''failed'' t), en_time = ts\<rparr>"
  have tr: "tr_attempts (t_trace (record_retry_decision ts e dg rep False next t)) = tr_attempts (t_trace t) @ [y]"
    by (simp add: record_retry_decision_def Let_def y_def)
  obtain out where out: "tr_attempts (t_trace ?u) = rev (close_first_open out (y # rev (tr_attempts (t_trace t))))"
    by (simp add: record_final_failure_def close_open_attempt_def tr)
  have "\<forall>x \<in> set (tl (rev (tr_attempts (t_trace t)))). en_outcome x \<noteq> None"
    using assms by (simp add: trace_ok_def butlast_tl_rev)
  then have "\<forall>x \<in> set (close_first_open out (y # rev (tr_attempts (t_trace t)))). en_outcome x \<noteq> None"
    by (rule close_first_open_one) (simp add: y_def)
  then show ?thesis unfolding closed_def out by simp
qed

lemma record_failure_status [simp]: "tr_status (t_trace (record_final_failure ts e t)) = ''failed''"
  by (simp add: record_final_failure_def)

text \<open>Recording changes the trace only; a repair changes the resources, inputs and corrections only.\<close>

lemma record_kept [simp]:
  "t_workflow (record_retry_decision ts e dg rep b next t) = t_workflow t"
  "t_id (record_retry_decision ts e dg rep b next t) = t_id t"
  "t_lease (record_retry_decision ts e dg rep b next t) = t_lease t"
  "t_status (record_retry_decision ts e dg rep b next t) = t_status t"
  "t_attempt (record_retry_decision ts e dg rep b next t) = t_attempt t"
  "t_max_retries (record_retry_decision ts e dg rep b next t) = t_max_retries t"
  "t_internal (record_retry_decision ts e dg rep b next t) = t_internal t"
  "t_workflow (record_final_failure ts e t) = t_workflow t" "t_id (record_final_failure ts e t) = t_id t"
  "t_lease (record_final_failure ts e t) = t_lease t" "t_status (record_final_failure ts e t) = t_status t"
  "t_attempt (record_final_failure ts e t) = t_attempt t"
  "t_max_retries (record_final_failure ts e t) = t_max_retries t"
  "t_internal (record_final_failure ts e t) = t_internal t"
  "t_workflow (record_success ts t) = t_workflow t" "t_id (record_success ts t) = t_id t"
  "t_lease (record_success ts t) = t_lease t" "t_status (record_success ts t) = t_status t"
  "t_attempt (record_success ts t) = t_attempt t" "t_max_retries (record_success ts t) = t_max_retries t"
  "t_internal (record_success ts t) = t_internal t"
  by (simp_all add: record_retry_decision_def record_final_failure_def record_success_def Let_def)

definition repaired :: "rtask \<Rightarrow> rtask \<Rightarrow> bool" where
  "repaired t t' = (\<exists>i r c. t' = t\<lparr>t_input := i, t_resources := r, t_corrections := c\<rparr>)"

lemma repairedI: "t' = t\<lparr>t_input := i, t_resources := r, t_corrections := c\<rparr> \<Longrightarrow> repaired t t'"
  unfolding repaired_def by blast

lemma repaired_refl [simp]: "repaired t t"
  by (rule repairedI [where i = "t_input t" and r = "t_resources t" and c = "t_corrections t"]) simp

lemma repaired_input: "repaired t u \<Longrightarrow> repaired t (set_task_input k v dt u)"
proof -
  assume "repaired t u"
  then obtain i r c where u: "u = t\<lparr>t_input := i, t_resources := r, t_corrections := c\<rparr>" by (auto simp: repaired_def)
  obtain j where "set_task_input k v dt u = u\<lparr>t_input := j\<rparr>"
    by (cases "t_input u") (auto simp: set_task_input_def Let_def intro: that [of "t_input u"])
  then show ?thesis by (intro repairedI [where i = j and r = r and c = c]) (simp add: u)
qed

lemma repaired_corrections: "repaired t u \<Longrightarrow> repaired t (u\<lparr>t_corrections := n\<rparr>)"
proof -
  assume "repaired t u"
  then obtain i r c where u: "u = t\<lparr>t_input := i, t_resources := r, t_corrections := c\<rparr>" by (auto simp: repaired_def)
  show ?thesis by (intro repairedI [where i = i and r = r and c = n]) (simp add: u)
qed

lemma repaired_resources: "repaired t (t\<lparr>t_resources := r\<rparr>)"
  by (rule repairedI [where i = "t_input t" and r = r and c = "t_corrections t"]) simp

lemma correction_repaired: "apply_invocation_correction t e dg = Inr (t1, rep) \<Longrightarrow> repaired t t1"
  unfolding apply_invocation_correction_def Let_def
  by (auto split: if_splits intro!: repaired_corrections repaired_input)

lemma node_recovery_repaired: "repaired t (fst (apply_node_recovery t e dg))"
  by (simp add: apply_node_recovery_def Let_def repaired_resources)

lemma repair_repaired: "apply_repair_action t e dg = Inr (t1, rep) \<Longrightarrow> repaired t t1"
  unfolding apply_repair_action_def
  using correction_repaired node_recovery_repaired [of t e dg]
  by (auto split: if_splits sum.splits pyerr.splits)

lemma repaired_same:
  assumes "repaired t t'"
  shows "t_workflow t' = t_workflow t" "t_id t' = t_id t" "t_lease t' = t_lease t" "t_status t' = t_status t"
    "t_attempt t' = t_attempt t" "t_max_retries t' = t_max_retries t" "t_internal t' = t_internal t"
    "t_trace t' = t_trace t" "t_dispatch t' = t_dispatch t"
  using assms by (auto simp: repaired_def)

section \<open>Properties\<close>

lemma node_recovery_avoid_list:
  assumes "apply_node_recovery t e dg = (t1, rep)" and "vget rep ''avoid_node_id'' = VStr n"
  shows "n \<noteq> [] \<and> (\<exists>xs. t_resources t1 = dput ''avoid_node_ids'' (VList xs) (t_resources t) \<and> VStr n \<in> set xs)
    \<and> t1 = t\<lparr>t_resources := t_resources t1\<rparr>"
proof -
  define failed where "failed = (if truthy (vget e ''node_id'') then vget e ''node_id''
     else (case t_node t of None \<Rightarrow> vget e ''node_id'' | Some (n, _) \<Rightarrow> VStr n))"
  have tr: "truthy failed"
  proof (rule ccontr)
    assume "\<not> truthy failed"
    then have "rep = refused ''node_reselect'' ''missing_failed_node''"
      using assms(1) by (simp add: apply_node_recovery_def failed_def)
    with assms(2) show False by (simp add: refused_def vget_def dgetd_def)
  qed
  define avoid where "avoid = list_items (vget (t_resources t) ''avoid_node_ids'')"
  define xs where "xs = (if failed \<in> set avoid then avoid else avoid @ [failed])"
  have r: "t1 = t\<lparr>t_resources := dput ''avoid_node_ids'' (VList xs) (t_resources t)\<rparr>"
    "vget rep ''avoid_node_id'' = failed"
    using assms(1) tr unfolding apply_node_recovery_def Let_def failed_def [symmetric] avoid_def [symmetric]
      xs_def [symmetric] by (auto simp: vget_def dgetd_def)
  have "failed = VStr n" using r(2) assms(2) by simp
  moreover have "failed \<in> set xs" by (simp add: xs_def)
  ultimately show ?thesis using r(1) tr by auto
qed

text \<open>The node \<open>n\<close> is on the task's avoid list.\<close>

definition avoids :: "string \<Rightarrow> rtask \<Rightarrow> bool" where
  "avoids n t = (n \<noteq> [] \<and> (\<exists>xs. map_of (t_resources t) ''avoid_node_ids'' = Some (VList xs) \<and> VStr n \<in> set xs))"

text \<open>
  What may happen to the task afterwards: further repairs of any category, the resources a repair asks for (which the
  scheduler gives the task when the recovery ends), retries, and changes that leave its declared resources alone (dispatch,
  completion, the trace).
\<close>

inductive task_change :: "rtask \<Rightarrow> rtask \<Rightarrow> bool" where
  repair: "apply_repair_action t e dg = Inr (t', rep) \<Longrightarrow> task_change t t'"
| adjust: "apply_repair_action t e dg = Inr (u, rep) \<Longrightarrow> vget rep ''adjusted_resources'' = VDict (t_resources t') \<Longrightarrow> task_change t t'"
| retry: "schedule_retry now err t = Inr t' \<Longrightarrow> task_change t t'"
| other: "t_resources t' = t_resources t \<Longrightarrow> task_change t t'"

lemma recovery_avoids:
  assumes "apply_node_recovery t e dg = (t1, rep)" and "vget rep ''avoid_node_id'' = VStr n"
  shows "avoids n t1"
  using node_recovery_avoid_list [OF assms] by (auto simp: avoids_def)

lemma node_recovery_keeps_avoided: "avoids n t \<Longrightarrow> avoids n (fst (apply_node_recovery t e dg))"
  by (auto simp: avoids_def apply_node_recovery_def Let_def vget_def dgetd_def list_items_def)

lemma correction_resources: "apply_invocation_correction t e dg = Inr (t1, rep) \<Longrightarrow> t_resources t1 = t_resources t"
proof -
  have "t_resources (set_task_input k v ty u) = t_resources u" for k v ty u
    by (simp add: set_task_input_def Let_def split: pyval.split)
  then show "apply_invocation_correction t e dg = Inr (t1, rep) \<Longrightarrow> ?thesis"
    by (auto simp: apply_invocation_correction_def Let_def split: if_splits sum.splits)
qed

lemma repair_keeps_avoided: "apply_repair_action t e dg = Inr (t', rep) \<Longrightarrow> avoids n t \<Longrightarrow> avoids n t'"
  using node_recovery_keeps_avoided [of n t e dg] correction_resources [of t e dg t' rep]
  unfolding apply_repair_action_def by (auto simp: avoids_def split: if_splits sum.splits pyerr.splits)

lemma recommendation_avoids:
  assumes "recommend_resources (VDict (t_resources t)) hist anchor failure = Inr d" and "avoids n t"
  shows "map_of (effective d) ''avoid_node_ids'' = map_of (t_resources t) ''avoid_node_ids''"
proof -
  obtain xs where xs: "map_of (t_resources t) ''avoid_node_ids'' = Some (VList xs)" using assms(2) by (auto simp: avoids_def)
  obtain eff g where eff: "normalize_resources (VDict (t_resources t)) = Inr eff" "effective d = dput ''gpu_mem'' (VInt g) eff"
    by (rule recommendation_effective [OF assms(1)])
  have k: "''avoid_node_ids'' \<in> set resource_hint_keys" by (simp add: resource_hint_keys_def)
  have "hint_given (t_resources t) ''avoid_node_ids''" by (simp add: hint_given_def vget_def dgetd_def xs)
  from copied_hint [OF eff(1) this k] have "vget eff ''avoid_node_ids'' = VList xs" by (simp add: vget_def dgetd_def xs)
  then have "map_of eff ''avoid_node_ids'' = Some (VList xs)" by (auto simp: vget_def dgetd_def split: option.splits)
  then show ?thesis by (simp add: eff(2) xs)
qed

lemma adjusted_avoids:
  assumes "apply_repair_action t e dg = Inr (u, rep)" and "vget rep ''adjusted_resources'' = VDict (t_resources t')" and "avoids n t"
  shows "avoids n t'"
proof -
  have none: "vget (refused ty m) ''adjusted_resources'' = VNone" "vget (refused ty m @ [(''message'', v)]) ''adjusted_resources'' = VNone" for ty m v
    by (simp_all add: refused_def vget_def dgetd_def)
  have cor: "vget rep ''adjusted_resources'' = VNone" if "apply_invocation_correction t e dg = Inr (u, rep)"
    using that none by (auto simp: apply_invocation_correction_def Let_def vget_def dgetd_def split: if_splits sum.splits)
  have resources: "t_resources (fst (apply_node_recovery t e dg)) = t_resources t'"
    if "vget (snd (apply_node_recovery t e dg)) ''adjusted_resources'' = VDict (t_resources t')"
    using that none by (auto simp: apply_node_recovery_def Let_def vget_def dgetd_def refused_def split: if_splits)
  consider (node) "dg_category dg = ''worker''" "apply_node_recovery t e dg = (u, rep)"
    | (model) d where "recommend_resources (VDict (t_resources t)) [] (dict_or_empty (t_anchor t))
        (Some (projr (or_empty (vget e ''memory_failure'')))) = Inr d" "vget rep ''adjusted_resources'' = VDict (effective d)"
    using assms(1,2) cor none unfolding apply_repair_action_def
    by (auto simp: vget_def dgetd_def split: if_splits sum.splits pyerr.splits)
  then show ?thesis
  proof cases
    case node
    then show ?thesis using node_recovery_keeps_avoided [OF assms(3), of e dg] resources assms(2)
      by (simp add: avoids_def)
  next
    case model
    then show ?thesis using recommendation_avoids [OF model(1) assms(3)] assms(2,3) by (simp add: avoids_def)
  qed
qed

lemma task_change_avoids: "task_change\<^sup>*\<^sup>* t t' \<Longrightarrow> avoids n t \<Longrightarrow> avoids n t'"
proof (induction rule: rtranclp_induct)
  case (step t' t'')
  have "avoids n t'" by (rule step.IH [OF step.prems])
  have same: "t_resources t'' = t_resources t' \<Longrightarrow> avoids n t''" using \<open>avoids n t'\<close> by (simp add: avoids_def)
  from step.hyps(2) show ?case
  proof cases
    case (repair e dg rep)
    then show ?thesis by (rule repair_keeps_avoided) fact
  next
    case (adjust e dg u rep)
    then show ?thesis by (rule adjusted_avoids) fact
  next
    case (retry now err)
    then have "t_resources t'' = t_resources t'" by (auto simp: schedule_retry_def split: sum.splits)
    then show ?thesis by (rule same)
  qed (rule same)
qed

text \<open>
  C18: a task never returns to a node it failed on. Once a recovery has put the node on the task's avoid list, then after any
  later repairs, retries and dispatches of the task, also further failures on other nodes, the scheduler resources computed by
  the latest retry carry the node, and no placement of the task, on any reachable state of the resource manager, selects it.
\<close>

theorem retry_avoids_failed_node:
  assumes "apply_node_recovery t e dg = (t1, rep)" and "vget rep ''avoid_node_id'' = VStr n"
    and "task_change\<^sup>*\<^sup>* t1 u" and "schedule_retry now err u = Inr t2" and "reachable_manager m"
    and "select_node now' lid r models (task_request dispatch t2) m = Inr (m', s)"
  shows "map_option fst (sel_node s) \<noteq> Some n"
proof
  assume "map_option fst (sel_node s) = Some n"
  then obtain ip g where sel: "sel_node s = Some (n, ip, g)" by auto
  obtain xs where n: "n \<noteq> []" and xs: "map_of (t_resources u) ''avoid_node_ids'' = Some (VList xs)" "VStr n \<in> set xs"
    using task_change_avoids [OF assms(3) recovery_avoids [OF assms(1,2)]] by (auto simp: avoids_def)
  have int: "to_internal_scheduler_resources (VDict (t_resources u)) (VStr (t_kind u)) (dict_or_empty (t_anchor u))
      = Inr (t_internal t2)"
    using assms(4) by (auto simp: schedule_retry_def)
  have avoid: "vget (t_internal t2) ''avoid_node_ids'' = VList xs"
  proof (rule internal_facts [OF int])
    fix d c g
    assume d: "normalize_resources (VDict (t_resources u)) = Inr d"
      "\<And>k. k \<in> set resource_hint_keys \<Longrightarrow> vget (t_internal t2) k = vget d k"
    have k: "''avoid_node_ids'' \<in> set resource_hint_keys" by (simp add: resource_hint_keys_def)
    have "hint_given (t_resources u) ''avoid_node_ids''" by (simp add: hint_given_def dhas_iff vget_def dgetd_def xs(1))
    from copied_hint [OF d(1) this k] d(2) [OF k] show ?thesis by (simp add: vget_def dgetd_def xs(1))
  qed
  have mem: "n \<in> set (avoid_ids (req_need (task_request dispatch t2)))"
    using xs(2) n avoid by (force simp: task_request_def execution_need_def avoid_list_def avoid_ids_def Let_def)
  obtain ray nd where "fits ray m (task_request dispatch t2) n nd"
    by (rule select_chosen_node [OF reachable_ok [OF assms(5)] assms(6) sel]) (auto simp: fits_def)
  with mem show False by (simp add: fits_def)
qed

theorem retry_avoids_failed_node_witness:
  "\<exists>t1 rep t2 m' s. apply_node_recovery (sample_rtask []) [(''node_id'', VStr ''h'')]
       \<lparr>dg_category = ''worker'', dg_reason = VNone, dg_recoverable = True, dg_details = []\<rparr> = (t1, rep)
     \<and> schedule_retry 5 [] t1 = Inr t2
     \<and> select_node 6 ''L'' sample_ray [] (task_request ''d'' t2) sample_manager = Inr (m', s)
     \<and> map_option fst (sel_node s) \<noteq> Some ''h''"
proof -
  let ?dg = "\<lparr>dg_category = ''worker'', dg_reason = VNone, dg_recoverable = True, dg_details = []\<rparr>"
  let ?hints = "[(''avoid_node_ids'', VList [VStr ''h''])]" and ?b = "base_resources 1 0 0"
  obtain t1 rep where ap: "apply_node_recovery (sample_rtask []) [(''node_id'', VStr ''h'')] ?dg = (t1, rep)"
    by (cases "apply_node_recovery (sample_rtask []) [(''node_id'', VStr ''h'')] ?dg") auto
  have t1: "t_resources t1 = ?b @ ?hints" "t_kind t1 = ''cpu''" "t_anchor t1 = VNone" "t_backoff t1 = Some 0"
    "vget rep ''avoid_node_id'' = VStr ''h''"
    using ap by (auto simp: apply_node_recovery_def Let_def sample_rtask_def vget_def dgetd_def base_resources_def dput_def list_items_def)
  have "norm_shape 1 0 0 ?hints (?b @ ?hints)"
    by (simp add: norm_shape_def resource_hint_keys_def)
  from sample_internal [OF this]
  have "to_internal_scheduler_resources (VDict (t_resources t1)) (VStr (t_kind t1)) (dict_or_empty (t_anchor t1))
      = Inr (t_internal (sample_rtask ?hints))"
    by (simp add: t1 dict_or_empty_def)
  then obtain t2 where t2: "schedule_retry 5 [] t1 = Inr t2" by (simp add: schedule_retry_def)
  then have "internal_ok t2" using schedule_retry_facts by blast
  then have "need_gpu (req_need (task_request ''d'' t2)) \<le> 1" using execution_need_ok by (simp add: task_request_def)
  then obtain m' s where sel: "select_node 6 ''L'' sample_ray [] (task_request ''d'' t2) sample_manager = Inr (m', s)"
    using select_node_total by blast
  have "map_option fst (sel_node s) \<noteq> Some ''h''"
    by (rule retry_avoids_failed_node [OF ap t1(5) rtranclp.rtrancl_refl t2 sample_reachable sel])
  with ap t2 sel show ?thesis by blast
qed

end
