(* ===== verification/Scheduler_Core.thy ===== *)
theory Scheduler_Core
  imports Fault_Tolerance
begin

text \<open>
  The scheduler's core: the attempt protocol of \<open>maze/core/scheduler/scheduler.py\<close> over the workflows of
  \<open>runtime.py\<close>, the recovery coordinator of \<open>recovery.py\<close> and the resource manager of the theory
  \<open>Placement\<close>. Tasks are shared objects (the queue, the workflow table and a pending recovery name the
  same one), so the state holds a store from identities to tasks.

  The order of the queues is the subject of \<open>Scheduling\<close>; here a step takes any queued task. Ray, the
  model instances and the clocks are arguments: where a task's launch, its cleanup or its model route is
  decided by them, the outcome is an argument of the operation. An exception that leaves an operation ends
  the scheduler process (\<open>_run_critical_thread\<close>), so it is a result value here.
\<close>

section \<open>State\<close>

record message =
  m_type :: string
  m_workflow :: string
  m_task :: string
  m_attempt :: int
  m_dispatch :: "string option"
  m_lease :: "string option"
  m_error :: "envelope option"
  m_pre_dispatch :: bool
  m_capacity :: bool
  m_reason :: "string option"
  m_trace :: trace

text \<open>What runs after a deferred message was sent (\<open>on_sent\<close>).\<close>

datatype after = No_call | Publish nat | Requeue nat

record pending_recovery =
  pr_task :: nat
  pr_identity :: "int \<times> string option \<times> string option"
  pr_error :: envelope
  pr_repair :: envelope

text \<open>
  \<open>outbox\<close> holds the deferred messages of the submit and supervisor threads, \<open>sent\<close> what reached the core.
  \<open>retained\<close> is a ghost: the leases kept on purpose because a failed cleanup may still hold the GPU.
\<close>

record sched =
  mgr :: manager
  objs :: "(nat, rtask) dict"
  next_id :: nat
  wfs :: "(string, (string, nat) dict) dict"
  queue :: "nat list"
  stopped :: "string set"
  waiting :: "(string \<times> string, nat list) dict"
  recovering :: "pending_recovery list"
  outbox :: "(message \<times> after) list"
  sent :: "message list"
  retained :: "string set"

definition new_sched :: "manager \<Rightarrow> sched" where
  "new_sched m =
     \<lparr>mgr = m, objs = [], next_id = 0, wfs = [], queue = [], stopped = {}, waiting = [], recovering = [],
      outbox = [], sent = [], retained = {}\<rparr>"

abbreviation obj :: "sched \<Rightarrow> nat \<Rightarrow> rtask option" where
  "obj s i \<equiv> map_of (objs s) i"

definition upd_obj :: "nat \<Rightarrow> (rtask \<Rightarrow> rtask) \<Rightarrow> sched \<Rightarrow> sched" where
  "upd_obj i f s = (case obj s i of None \<Rightarrow> s | Some t \<Rightarrow> s\<lparr>objs := dput i (f t) (objs s)\<rparr>)"

definition base_message :: "string \<Rightarrow> rtask \<Rightarrow> message" where
  "base_message ty t =
     \<lparr>m_type = ty, m_workflow = t_workflow t, m_task = t_id t, m_attempt = t_attempt t, m_dispatch = t_dispatch t,
      m_lease = t_lease t, m_error = None, m_pre_dispatch = False, m_capacity = False, m_reason = None,
      m_trace = t_trace t\<rparr>"

definition post :: "message \<Rightarrow> after \<Rightarrow> sched \<Rightarrow> sched" where
  "post m a s = s\<lparr>outbox := outbox s @ [(m, a)]\<rparr>"

section \<open>Workflows\<close>

definition has_status :: "sched \<Rightarrow> string \<Rightarrow> nat \<Rightarrow> bool" where
  "has_status s st i = (case obj s i of None \<Rightarrow> False | Some t \<Rightarrow> t_status t = st)"

definition registered :: "sched \<Rightarrow> rtask \<Rightarrow> nat \<Rightarrow> bool" where
  "registered s t i =
     (case map_of (wfs s) (t_workflow t) of None \<Rightarrow> False | Some ts \<Rightarrow> map_of ts (t_id t) = Some i)"

definition running_in :: "string \<Rightarrow> sched \<Rightarrow> nat list" where
  "running_in w s = (case map_of (wfs s) w of None \<Rightarrow> [] | Some ts \<Rightarrow> filter (has_status s ''running'') (dvals ts))"

definition all_running :: "sched \<Rightarrow> nat list" where
  "all_running s = concat (map (\<lambda>(w, ts). filter (has_status s ''running'') (dvals ts)) (wfs s))"

definition cancel_workflow :: "string \<Rightarrow> sched \<Rightarrow> sched \<times> nat list" where
  "cancel_workflow w s = (s\<lparr>wfs := ddel w (wfs s)\<rparr>, running_in w s)"

text \<open>\<open>WorkflowRuntimeManager.add_task\<close>: refuses a second task with the same id.\<close>

definition add_task :: "nat \<Rightarrow> rtask \<Rightarrow> sched \<Rightarrow> sched \<times> bool" where
  "add_task i t s =
     (let ts = dgetd (wfs s) (t_workflow t) [];
          s1 = s\<lparr>wfs := dsetdefault (t_workflow t) [] (wfs s)\<rparr>
      in case map_of ts (t_id t) of
           None \<Rightarrow> (s1\<lparr>wfs := dput (t_workflow t) (dput (t_id t) i ts) (wfs s1)\<rparr>, True)
         | Some j \<Rightarrow> (s1, j = i))"

section \<open>Model routes\<close>

definition model_backends :: "string list" where
  "model_backends = [''vllm'', ''transformers'']"

definition validate_model_backend :: "pyval \<Rightarrow> string result" where
  "validate_model_backend v =
     (case v of
        VNone \<Rightarrow> Inr ''vllm''
      | VStr s \<Rightarrow> (let b = py_lower (py_strip s) in
                   if b \<in> set model_backends then Inr b else Inl (ValueError ''Unsupported model backend''))
      | _ \<Rightarrow> Inl (ValueError ''backend must be a string''))"

definition anchor_model :: "rtask \<Rightarrow> pyval" where
  "anchor_model t = (let a = dict_or_empty (t_anchor t) in vor (vget a ''local_model'') (vget a ''model''))"

definition task_model_key :: "rtask \<Rightarrow> (string \<times> string) option result" where
  "task_model_key t =
     (let a = dict_or_empty (t_anchor t) in
      if \<not> truthy (anchor_model t) then Inr None
      else rbind (validate_model_backend (vor (vor (vget a ''backend'') (vget a ''engine'')) (VStr ''vllm'')))
             (\<lambda>b. Inr (Some (py_str (anchor_model t), b))))"

definition wake :: "sched \<Rightarrow> nat \<Rightarrow> sched" where
  "wake s i =
     (case obj s i of None \<Rightarrow> s
      | Some t \<Rightarrow> if t_workflow t \<in> stopped s then s
                  else (upd_obj i (\<lambda>t. t\<lparr>t_status := ''ready'', t_pending := None\<rparr>) s)\<lparr>queue := queue s @ [i]\<rparr>)"

definition wake_model_waiters :: "string \<times> string \<Rightarrow> sched \<Rightarrow> sched" where
  "wake_model_waiters key s = foldl wake (s\<lparr>waiting := ddel key (waiting s)\<rparr>) (dgetd (waiting s) key [])"

definition route_key :: "pyval \<Rightarrow> (string \<times> string) option" where
  "route_key route =
     (let r = dict_or_empty route; m = vget r ''model''; b = vget r ''backend''
      in if truthy m \<and> truthy b then Some (py_str m, py_lower (py_strip (py_str b))) else None)"

definition release_model_route :: "nat \<Rightarrow> sched \<Rightarrow> sched" where
  "release_model_route i s =
     (case obj s i of None \<Rightarrow> s
      | Some t \<Rightarrow>
          if \<not> truthy (t_route t) then s
          else (let s1 = upd_obj i (\<lambda>t. t\<lparr>t_route := VNone\<rparr>) s
                in case route_key (t_route t) of None \<Rightarrow> s1 | Some k \<Rightarrow> wake_model_waiters k s1))"

definition of_workflow :: "sched \<Rightarrow> string \<Rightarrow> nat \<Rightarrow> bool" where
  "of_workflow s w i = (case obj s i of None \<Rightarrow> False | Some t \<Rightarrow> t_workflow t = w)"

definition remove_model_waiters :: "string \<Rightarrow> sched \<Rightarrow> sched" where
  "remove_model_waiters w s =
     (if w = [] then s
      else s\<lparr>waiting := filter (\<lambda>(k, v). v \<noteq> []) (dmapv (\<lambda>_ os. filter (\<lambda>i. \<not> of_workflow s w i) os) (waiting s))\<rparr>)"

section \<open>Ending a workflow\<close>

definition lease_of :: "sched \<Rightarrow> nat \<Rightarrow> string option" where
  "lease_of s i = (case obj s i of None \<Rightarrow> None | Some t \<Rightarrow> t_lease t)"

definition release_leases :: "time \<Rightarrow> nat list \<Rightarrow> sched \<Rightarrow> sched" where
  "release_leases now os s = s\<lparr>mgr := release_task_resource now (map (lease_of s) os) (mgr s)\<rparr>"

definition release_dag_context :: "string \<Rightarrow> sched \<Rightarrow> sched" where
  "release_dag_context w s =
     s\<lparr>mgr := (mgr s)\<lparr>contexts := fst (release_context (contexts (mgr s)) (Some w))\<rparr>\<rparr>"

text \<open>
  The steps by which a workflow is given up, the same in \<open>_stop_workflow_request\<close>, in
  \<open>_terminate_rejected_workflow\<close> and at the end of \<open>_retry_or_fail_task\<close>.
\<close>

definition abandon_workflow :: "time \<Rightarrow> string \<Rightarrow> sched \<Rightarrow> sched" where
  "abandon_workflow now w s =
     (let s1 = remove_model_waiters w s;
          (s2, os) = cancel_workflow w s1;
          s3 = foldl (\<lambda>s i. release_model_route i s) s2 os
      in release_dag_context w (release_leases now os s3))"

definition stop_workflow :: "time \<Rightarrow> string \<Rightarrow> sched \<Rightarrow> sched" where
  "stop_workflow now w s = abandon_workflow now w (s\<lparr>stopped := insert w (stopped s)\<rparr>)"

definition clear_workflow :: "string \<Rightarrow> sched \<Rightarrow> sched" where
  "clear_workflow w s =
     (let s1 = remove_model_waiters w (s\<lparr>stopped := insert w (stopped s)\<rparr>)
      in release_dag_context w (s1\<lparr>wfs := ddel w (wfs s1)\<rparr>))"

definition terminate_rejected :: "time \<Rightarrow> string \<Rightarrow> sched \<Rightarrow> sched" where
  "terminate_rejected now w s = (if w = [] then s else stop_workflow now w s)"

section \<open>Receiving a task\<close>

definition rejected_message :: "string \<Rightarrow> run_request \<Rightarrow> raised \<Rightarrow> message result" where
  "rejected_message ts q exc =
     rbind (exception_to_error_envelope ts ''scheduler_error'' exc None (scheduler_site VNone)) (\<lambda>e.
     Inr \<lparr>m_type = ''task_exception'', m_workflow = rq_workflow q, m_task = rq_task q, m_attempt = 0,
          m_dispatch = None, m_lease = None, m_error = Some e, m_pre_dispatch = True, m_capacity = False,
          m_reason = Some ''task_rejected_by_scheduler'', m_trace = idle_trace\<rparr>)"

text \<open>\<open>shown\<close> renders the exception that rejected the task.\<close>

definition receive_run_task :: "time \<Rightarrow> string \<Rightarrow> (pyerr \<Rightarrow> raised) \<Rightarrow> bool \<Rightarrow> run_request \<Rightarrow> sched \<Rightarrow> sched result" where
  "receive_run_task now ts shown is_code q s =
     (if rq_workflow q \<in> stopped s then Inr s
      else
        (case (if is_code then new_rtask q else Inl (ValueError ''Unsupported task_type'')) of
           Inr t \<Rightarrow> Inr (s\<lparr>objs := dput (next_id s) t (objs s), queue := queue s @ [next_id s],
                           next_id := Suc (next_id s)\<rparr>)
         | Inl x \<Rightarrow>
             (let s1 = terminate_rejected now (rq_workflow q) s
              in rbind (rejected_message ts q (shown x)) (\<lambda>m. Inr (s1\<lparr>sent := sent s1 @ [m]\<rparr>)))))"

section \<open>A failed attempt\<close>

definition fail_prefix ::
    "string \<Rightarrow> nat \<Rightarrow> envelope \<Rightarrow> pyval \<Rightarrow> sched \<Rightarrow> (envelope \<times> sched) result" where
  "fail_prefix ts i e metrics s =
     (case obj s i of None \<Rightarrow> Inl (KeyError ''task'')
      | Some t \<Rightarrow>
          rbind (enrich_error_for_task ts e t) (\<lambda>e1.
          let s1 = upd_obj i (\<lambda>t. t\<lparr>t_last_error := Some e1, t_metrics := metrics\<rparr>) s;
              s2 = release_model_route i s1
          in Inr (e1, s2\<lparr>stopped := insert (t_workflow t) (stopped s2)\<rparr>)))"

definition exception_message :: "envelope \<Rightarrow> rtask \<Rightarrow> message" where
  "exception_message e t =
     (let m = (base_message ''task_exception'' t)\<lparr>m_error := Some e\<rparr>
      in if t_attempt t = 0 then m\<lparr>m_pre_dispatch := True\<rparr>
         else if vget e ''error_type'' = VStr ''resource_capacity_exceeded'' \<and> t_dispatch t = None
         then (case t_previous t of
                 Some (a, d, l) \<Rightarrow> m\<lparr>m_attempt := a, m_dispatch := Some d, m_lease := l, m_capacity := True\<rparr>
               | None \<Rightarrow> m)
         else m)"

text \<open>The end of \<open>_retry_or_fail_task\<close>: no retry, the workflow is given up.\<close>

definition give_up ::
    "time \<Rightarrow> string \<Rightarrow> nat \<Rightarrow> envelope \<Rightarrow> diagnosis \<Rightarrow> envelope option \<Rightarrow> sched \<Rightarrow> sched" where
  "give_up now ts i e dg repair s =
     (case obj s i of None \<Rightarrow> s
      | Some t \<Rightarrow>
          (let rep = (case repair of Some r \<Rightarrow> r
                      | None \<Rightarrow> refused ''none'' (if should_retry e t then ''not_recoverable'' else ''retry_policy_rejected''));
               e1 = dput ''repair_action'' (VDict rep) e;
               t1 = record_final_failure ts e1 (record_retry_decision ts e1 dg rep False None (t\<lparr>t_last_error := Some e1\<rparr>));
               s1 = abandon_workflow now (t_workflow t) (upd_obj i (\<lambda>_. t1) s)
           in post (exception_message e1 t1) No_call s1))"

text \<open>
  \<open>prepare_cleanup\<close>: what must happen before a retry with more memory. For a model instance the manager of
  the instances decides (\<open>Inl\<close> when it raises, \<open>Inr True\<close> for back-pressure on admissions).
\<close>

definition prepare_cleanup :: "raised + bool \<Rightarrow> rtask \<Rightarrow> envelope \<Rightarrow> raised + envelope" where
  "prepare_cleanup instances t repair =
     (if vget repair ''scope'' = VStr ''task'' then Inr repair
      else (case instances of
              Inl x \<Rightarrow> Inl x
            | Inr backpressure \<Rightarrow>
                Inr (if backpressure
                     then dput ''resource_decision''
                            (VDict (dput ''sources'' (VList [VStr ''admission_backpressure''])
                              (dput ''effective'' (VDict (t_resources t))
                                (dict_or_empty (vget repair ''resource_decision'')))))
                            (dput ''adjusted_resources'' (VDict (t_resources t))
                              (dput ''type'' (VStr ''instance_backpressure'') repair))
                     else repair)))"

definition recovery_limit :: nat where
  "recovery_limit = 16"

definition queue_full :: raised where
  "queue_full = \<lparr>exc_message = ''Resource recovery queue is full'', exc_class = ''builtins.RuntimeError'',
     exc_traceback = [], exc_memory = None\<rparr>"

definition submit_recovery :: "nat \<Rightarrow> rtask \<Rightarrow> envelope \<Rightarrow> envelope \<Rightarrow> sched \<Rightarrow> raised + sched" where
  "submit_recovery i t e repair s =
     (if recovery_limit \<le> length (recovering s) then Inl queue_full
      else Inr ((upd_obj i (\<lambda>t. t\<lparr>t_status := ''recovering''\<rparr>) s)
        \<lparr>recovering := recovering s @ [\<lparr>pr_task = i, pr_identity = (t_attempt t, t_dispatch t, t_lease t),
           pr_error = e, pr_repair = repair\<rparr>]\<rparr>))"

definition cleanup_error :: "string \<Rightarrow> raised \<Rightarrow> envelope result" where
  "cleanup_error ts x = exception_to_error_envelope ts ''resource_cleanup_failed'' x None (scheduler_site VNone)"

text \<open>The retry of a task: recorded, announced, and queued once the message was sent.\<close>

definition announce_retry ::
    "time \<Rightarrow> string \<Rightarrow> nat \<Rightarrow> envelope \<Rightarrow> diagnosis \<Rightarrow> envelope \<Rightarrow> rtask \<Rightarrow> sched \<Rightarrow> sched result" where
  "announce_retry now ts i e dg repair t s =
     rbind (schedule_retry now e t) (\<lambda>t1.
     let t2 = record_retry_decision ts e dg repair True (Some (t_attempt t1 + 1)) t1
     in Inr (post ((base_message ''task_retry'' t2)\<lparr>m_error := Some e\<rparr>) (Requeue i) (upd_obj i (\<lambda>_. t2) s)))"

text \<open>A cleanup that could not even start: the same method again, with an error that is never retried.\<close>

definition fail_without_retry :: "time \<Rightarrow> string \<Rightarrow> nat \<Rightarrow> envelope \<Rightarrow> pyval \<Rightarrow> sched \<Rightarrow> sched result" where
  "fail_without_retry now ts i e metrics s =
     rbind (fail_prefix ts i e metrics s) (\<lambda>(e1, s1).
     case obj s1 i of None \<Rightarrow> Inl (KeyError ''task'')
     | Some t \<Rightarrow> Inr (give_up now ts i e1 (diagnose_failure e1 t) None s1))"

definition retry_or_fail ::
    "time \<Rightarrow> string \<Rightarrow> raised + bool \<Rightarrow> nat \<Rightarrow> envelope \<Rightarrow> pyval \<Rightarrow> sched \<Rightarrow> sched result" where
  "retry_or_fail now ts instances i e metrics s =
     rbind (fail_prefix ts i e metrics s) (\<lambda>(e1, s1).
     case obj s1 i of None \<Rightarrow> Inl (KeyError ''task'')
     | Some t \<Rightarrow>
         (let dg = diagnose_failure e1 t in
          if \<not> (should_retry e1 t \<and> dg_recoverable dg) then Inr (give_up now ts i e1 dg None s1)
          else rbind (apply_repair_action t e1 dg) (\<lambda>(t1, repair).
            let s2 = upd_obj i (\<lambda>_. t1) s1 in
            if \<not> truthy (vget repair ''applied'') then Inr (give_up now ts i e1 dg (Some repair) s2)
            else
              (let s3 = s2\<lparr>stopped := stopped s2 - {t_workflow t}\<rparr> in
               if vget repair ''type'' = VStr ''resource_reanchor'' then
                 (case (case prepare_cleanup instances t1 repair of
                          Inl x \<Rightarrow> Inl x | Inr rep \<Rightarrow> submit_recovery i t1 e1 rep s3) of
                    Inr s4 \<Rightarrow> Inr s4
                  | Inl x \<Rightarrow> rbind (cleanup_error ts x) (\<lambda>e2.
                      fail_without_retry now ts i e2 VNone (upd_obj i (\<lambda>t. t\<lparr>t_max_retries := 0\<rparr>) s3)))
               else
                 (let e2 = dput ''repair_action'' (VDict repair) e1;
                      e3 = (if truthy (vget repair ''adjusted_resources'')
                            then dput ''adjusted_resources'' (vget repair ''adjusted_resources'') e2 else e2);
                      s4 = s3\<lparr>mgr := fst (release_lease now (t_lease t1) (mgr s3))\<rparr>
                  in announce_retry now ts i e3 dg repair t1 s4)))))"

lemma retry_or_fail_final:
  "\<not> truthy (vgetd e ''retryable'' (VBool False)) \<Longrightarrow> fail_prefix ts i e metrics s = Inr (e1, s1) \<Longrightarrow>
   vgetd e1 ''retryable'' (VBool False) = vgetd e ''retryable'' (VBool False) \<Longrightarrow>
   retry_or_fail now ts instances i e metrics s = fail_without_retry now ts i e metrics s"
  by (simp add: retry_or_fail_def fail_without_retry_def should_retry_def Let_def split: option.splits)

section \<open>Dispatching the head of a queue\<close>

definition pop_task :: "nat \<Rightarrow> sched \<Rightarrow> sched" where
  "pop_task i s = s\<lparr>queue := remove1 i (queue s)\<rparr>"

definition set_pending :: "nat \<Rightarrow> string \<Rightarrow> sched \<Rightarrow> sched" where
  "set_pending i reason s =
     (case obj s i of None \<Rightarrow> s
      | Some t \<Rightarrow>
          (let t1 = t\<lparr>t_status := ''pending'', t_pending := Some reason\<rparr>; s1 = upd_obj i (\<lambda>_. t1) s
           in if t_pending t = Some reason then s1
              else post ((base_message ''task_pending'' t1)\<lparr>m_reason := Some reason\<rparr>) No_call s1))"

text \<open>
  \<open>_wait_for_model\<close>: the task leaves the queue for its model's waiting list, unless a route turned up
  meanwhile (\<open>late\<close>).
\<close>

definition wait_for_model :: "nat \<Rightarrow> pyval \<Rightarrow> sched \<Rightarrow> sched result" where
  "wait_for_model i late s =
     (case obj s i of None \<Rightarrow> Inl (KeyError ''task'')
      | Some t \<Rightarrow>
          rbind (task_model_key t) (\<lambda>k.
          case k of None \<Rightarrow> Inl (ValueError ''model-routed task has no model key'')
          | Some key \<Rightarrow>
              if truthy late
              then Inr ((upd_obj i (\<lambda>t. t\<lparr>t_route := late, t_status := ''ready'', t_pending := None\<rparr>) (pop_task i s))
                          \<lparr>queue := remove1 i (queue s) @ [i]\<rparr>)
              else Inr ((pop_task i s)\<lparr>waiting := dput key (dgetd (waiting s) key [] @ [i]) (waiting s)\<rparr>)))"

text \<open>
  What the outside decides for one dispatch: the model routes offered, Ray's view of the nodes, the
  scanned models, the fresh ids, and the exception the launch raises, if any.
\<close>

record dispatch_env =
  d_route :: pyval
  d_late_route :: pyval
  d_ray :: ray
  d_models :: "pyval list"
  d_lease :: string
  d_dispatch :: string
  d_launch :: "raised option"
  d_instances :: "raised + bool"

definition requires_route :: "rtask \<Rightarrow> bool" where
  "requires_route t = truthy (anchor_model t)"

definition capacity_error :: "string \<Rightarrow> string \<Rightarrow> envelope" where
  "capacity_error ts msg = make_error_envelope ts ''resource_capacity_exceeded'' msg None VNone (scheduler_site VNone) []"

text \<open>\<open>_run_task_with_lease\<close> and the message that announces the attempt.\<close>

definition run_task ::
    "time \<Rightarrow> string \<Rightarrow> dispatch_env \<Rightarrow> string \<times> string \<times> int option \<Rightarrow> nat \<Rightarrow> sched \<Rightarrow> sched result" where
  "run_task now ts env node i s =
     (let s1 = upd_obj i (begin_attempt now (d_dispatch env) (Some (d_lease env))) s in
      case d_launch env of
        Some x \<Rightarrow>
          (let s2 = s1\<lparr>mgr := fst (release_lease now (Some (d_lease env)) (mgr s1))\<rparr>
           in case obj s2 i of None \<Rightarrow> Inl (KeyError ''task'')
              | Some t \<Rightarrow> rbind (exception_to_error_envelope ts ''scheduler_error'' x None
                            (scheduler_site (VInt (t_attempt t)))) (\<lambda>e.
                          retry_or_fail now ts (d_instances env) i e VNone s2))
      | None \<Rightarrow>
          (let s2 = upd_obj i (\<lambda>t. t\<lparr>t_status := ''running'', t_node := Some node, t_published := False\<rparr>) s1
           in case obj s2 i of None \<Rightarrow> Inl (KeyError ''task'')
              | Some t \<Rightarrow> Inr (post (base_message ''start_task'' t) (Publish i) s2)))"

definition place_task :: "time \<Rightarrow> string \<Rightarrow> dispatch_env \<Rightarrow> nat \<Rightarrow> rtask \<Rightarrow> sched \<Rightarrow> sched result" where
  "place_task now ts env i t s =
     rbind (select_node now (d_lease env) (d_ray env) (d_models env) (task_request (d_dispatch env) t) (mgr s)) (\<lambda>(m, sel).
     let s1 = s\<lparr>mgr := m\<rparr> in
     case sel_node sel of
       Some node \<Rightarrow> run_task now ts env node i (upd_obj i (\<lambda>t. t\<lparr>t_pending := None\<rparr>) (pop_task i s1))
     | None \<Rightarrow>
         (let s2 = release_model_route i s1 in
          if sel_reason sel = ''resource_capacity_exceeded''
          then retry_or_fail now ts (d_instances env) i
                 (capacity_error ts ''Request exceeds every eligible GPU capacity'') VNone (pop_task i s2)
          else Inr (set_pending i (sel_reason sel) s2)))"

definition eligible :: "time \<Rightarrow> rtask \<Rightarrow> bool" where
  "eligible now t = (case t_eligible t of None \<Rightarrow> False | Some q \<Rightarrow> q \<le> now)"

definition dispatch_head :: "time \<Rightarrow> string \<Rightarrow> dispatch_env \<Rightarrow> nat \<Rightarrow> sched \<Rightarrow> sched result" where
  "dispatch_head now ts env i s =
     (case obj s i of None \<Rightarrow> Inl (KeyError ''task'')
      | Some t0 \<Rightarrow>
          if i \<notin> set (queue s) then Inr s
          else if t_workflow t0 \<in> stopped s then Inr (pop_task i (release_model_route i s))
          else if \<not> eligible now t0 then Inr s
          else
            (let t = t0\<lparr>t_status := ''ready''\<rparr>; s1 = upd_obj i (\<lambda>_. t) s;
                 capacity = gpu_capacity_mib (mgr s1) (execution_need t) (dict_or_empty (t_anchor t))
             in if (case capacity of None \<Rightarrow> False | Some c \<Rightarrow> c < hint_int (t_resources t) ''gpu_mem'')
                then retry_or_fail now ts (d_instances env) i
                       (capacity_error ts ''Request exceeds eligible GPU capacity'') VNone (pop_task i s1)
                else if requires_route t \<and> \<not> truthy (t_route t) \<and> \<not> truthy (d_route env)
                then wait_for_model i (d_late_route env) (set_pending i ''model_instance_unavailable'' s1)
                else
                  (let t2 = (if requires_route t \<and> \<not> truthy (t_route t) then t\<lparr>t_route := d_route env\<rparr> else t);
                       (s2, added) = add_task i t2 (upd_obj i (\<lambda>_. t2) s1)
                   in if \<not> added then Inr (pop_task i (release_model_route i s2))
                      else place_task now ts env i t2 s2)))"

section \<open>Finished, failed and timed-out attempts\<close>

definition runs :: "sched \<Rightarrow> nat \<Rightarrow> bool" where
  "runs s i = (case obj s i of None \<Rightarrow> False | Some t \<Rightarrow> t_status t = ''running'' \<and> registered s t i)"

text \<open>
  One finished reference of the supervisor's loop, for a result that is there. A task whose workflow is gone is skipped. The last
  handler of the loop, for an exception that this code itself raises half-way (a summary that cannot be built), is left out; what
  Ray raises for the task is \<open>task_failed\<close>.
\<close>

definition task_finished :: "time \<Rightarrow> string \<Rightarrow> nat \<Rightarrow> pyval \<Rightarrow> pyval \<Rightarrow> sched \<Rightarrow> sched" where
  "task_finished now ts i result manifest s =
     (if \<not> runs s i then s
      else
        (let s1 = upd_obj i (\<lambda>t. t\<lparr>t_manifest := manifest\<rparr>) s;
             s2 = release_model_route i s1;
             s3 = upd_obj i (\<lambda>t. t\<lparr>t_result := result, t_status := ''finished''\<rparr>) s2;
             s4 = release_leases now [i] s3;
             s5 = upd_obj i (record_success ts) s4
         in case obj s5 i of None \<Rightarrow> s5 | Some t \<Rightarrow> post (base_message ''finish_task'' t) No_call s5))"

definition task_failed ::
    "time \<Rightarrow> string \<Rightarrow> raised + bool \<Rightarrow> nat \<Rightarrow> envelope \<Rightarrow> pyval \<Rightarrow> sched \<Rightarrow> sched result" where
  "task_failed now ts instances i e metrics s =
     (if runs s i then retry_or_fail now ts instances i e metrics s else Inr s)"

definition timeout_error :: "string \<Rightarrow> rtask \<Rightarrow> envelope" where
  "timeout_error ts t =
     make_error_envelope ts ''timeout'' (''Task timed out'') None VNone (scheduler_site (VInt (t_attempt t))) []"

definition fail_if_timed_out :: "time \<Rightarrow> string \<Rightarrow> raised + bool \<Rightarrow> sched \<Rightarrow> nat \<Rightarrow> sched result" where
  "fail_if_timed_out now ts instances s i =
     (case obj s i of None \<Rightarrow> Inr s
      | Some t \<Rightarrow>
          if t_published t \<and> has_timed_out now t
          then retry_or_fail now ts instances i (timeout_error ts t) VNone s else Inr s)"

definition fail_timed_out_tasks :: "time \<Rightarrow> string \<Rightarrow> raised + bool \<Rightarrow> sched \<Rightarrow> sched result" where
  "fail_timed_out_tasks now ts instances s = rfold (fail_if_timed_out now ts instances) s (all_running s)"

text \<open>A model that could not be deployed fails the tasks that wait for it.\<close>

definition fail_waiter :: "time \<Rightarrow> string \<Rightarrow> string \<Rightarrow> string \<Rightarrow> sched \<Rightarrow> nat \<Rightarrow> sched result" where
  "fail_waiter now ts ty msg s i =
     (case obj s i of None \<Rightarrow> Inr s
      | Some t \<Rightarrow>
          if t_workflow t \<in> stopped s then Inr s
          else retry_or_fail now ts (Inr False) i
                 (make_error_envelope ts ty msg (Some False) VNone (scheduler_site (VInt (t_attempt t))) []) VNone s)"

definition fail_model_waiters ::
    "time \<Rightarrow> string \<Rightarrow> string \<Rightarrow> string \<Rightarrow> string \<times> string \<Rightarrow> sched \<Rightarrow> sched result" where
  "fail_model_waiters now ts ty msg key s =
     rfold (fail_waiter now ts ty msg) (s\<lparr>waiting := ddel key (waiting s)\<rparr>) (dgetd (waiting s) key [])"

section \<open>Completed recoveries\<close>

definition identity_of :: "rtask \<Rightarrow> int \<times> string option \<times> string option" where
  "identity_of t = (t_attempt t, t_dispatch t, t_lease t)"

definition recovery_valid :: "sched \<Rightarrow> pending_recovery \<Rightarrow> bool" where
  "recovery_valid s p =
     (case obj s (pr_task p) of None \<Rightarrow> False
      | Some t \<Rightarrow> registered s t (pr_task p) \<and> identity_of t = pr_identity p)"

definition adjust_task :: "envelope \<Rightarrow> rtask \<Rightarrow> rtask" where
  "adjust_task repair t =
     (let res = dict_or_empty (vget repair ''adjusted_resources'');
          t1 = t\<lparr>t_resources := res, t_decision := dict_or_empty (vget repair ''resource_decision'')\<rparr>
      in if truthy (t_anchor t) \<and> vget repair ''type'' = VStr ''resource_reanchor''
         then t1\<lparr>t_anchor := VDict (dput ''estimated_gpu_mem_mb'' (vget res ''gpu_mem'')
                (dput ''gpu_mem'' (vget res ''gpu_mem'') (dict_or_empty (t_anchor t))))\<rparr>
         else t1)"

text \<open>
  One completed recovery of \<open>_drain_resource_recoveries\<close>: \<open>failure\<close> is the exception of its cleanup. A
  lease whose cleanup failed stays reserved, except that of a caller of a model instance.
\<close>

definition finish_recovery ::
    "time \<Rightarrow> string \<Rightarrow> nat \<Rightarrow> raised option \<Rightarrow> sched \<Rightarrow> sched result" where
  "finish_recovery now ts k failure s0 =
     (if length (recovering s0) \<le> k then Inr s0
      else
        (let p = recovering s0 ! k; i = pr_task p; lease = snd (snd (pr_identity p));
             s = s0\<lparr>recovering := take k (recovering s0) @ drop (Suc k) (recovering s0)\<rparr>;
             freed = s\<lparr>mgr := fst (release_lease now lease (mgr s))\<rparr>;
             kept = s\<lparr>retained := retained s \<union> set_option lease\<rparr>
         in case failure of
              Some x \<Rightarrow>
                if \<not> recovery_valid s p then Inr kept
                else rbind (cleanup_error ts x) (\<lambda>e.
                     retry_or_fail now ts (Inr False) i e VNone
                       (if vget (pr_repair p) ''scope'' = VStr ''model_instance'' then freed else kept))
            | None \<Rightarrow>
                (case obj freed i of None \<Rightarrow> Inr freed
                 | Some t \<Rightarrow>
                     if \<not> recovery_valid s p \<or> t_workflow t \<in> stopped s then Inr freed
                     else
                       (let t1 = adjust_task (pr_repair p) t;
                            e = dput ''repair_action'' (VDict (pr_repair p)) (pr_error p);
                            s1 = upd_obj i (\<lambda>_. t1) freed
                        in announce_retry now ts i e (diagnose_failure e t1) (pr_repair p) t1 s1))))"

section \<open>Sending a deferred message\<close>

definition flush_message :: "nat \<Rightarrow> sched \<Rightarrow> sched" where
  "flush_message k s =
     (if length (outbox s) \<le> k then s
      else
        (let (m, a) = outbox s ! k;
             s1 = s\<lparr>outbox := take k (outbox s) @ drop (Suc k) (outbox s), sent := sent s @ [m]\<rparr>
         in case a of
              No_call \<Rightarrow> s1
            | Publish i \<Rightarrow> upd_obj i (\<lambda>t. t\<lparr>t_published := True\<rparr>) s1
            | Requeue i \<Rightarrow> (upd_obj i clear_attempt_identity s1)\<lparr>queue := queue s1 @ [i]\<rparr>))"

section \<open>Histories\<close>

text \<open>
  A step of the scheduler. Its threads hold the scheduler's lock in every operation, so their steps
  interleave as wholes; the deferred messages of the submit and the supervisor thread leave in any order.
  The core clears a workflow only when its run has ended with no task running (\<open>path.py\<close>,
  \<open>finalize_dynamic_run\<close>, \<open>_continue_static_finish\<close>, \<open>_handle_static_finish_scheduler_event\<close>).
  \<open>woken\<close> is an instance that became ready. The submit thread drops the head of a stopped workflow before it takes the lock;
  that is the first branch of \<open>dispatch_head\<close>, as one step. \<open>manage\<close> is any operation of the resource manager that grants no
  task lease: membership, dead nodes, placement of model instances.
\<close>

definition task_leases :: "manager \<Rightarrow> (string \<times> lease) set" where
  "task_leases m = {(k, l). map_of (active_leases m) k = Some l \<and> lease_kind l = ''task''}"

inductive sched_step :: "sched \<Rightarrow> sched \<Rightarrow> bool" where
  receive: "receive_run_task now ts shown code q s = Inr s' \<Longrightarrow> sched_step s s'"
| dispatch: "dispatch_head now ts env i s = Inr s' \<Longrightarrow> \<not> dhas (d_lease env) (active_leases (mgr s)) \<Longrightarrow> sched_step s s'"
| finished: "sched_step s (task_finished now ts i result manifest s)"
| failed: "task_failed now ts instances i e metrics s = Inr s' \<Longrightarrow> sched_step s s'"
| timed_out: "fail_timed_out_tasks now ts instances s = Inr s' \<Longrightarrow> sched_step s s'"
| waiters: "fail_model_waiters now ts ty msg key s = Inr s' \<Longrightarrow> sched_step s s'"
| recovered: "finish_recovery now ts k failure s = Inr s' \<Longrightarrow> sched_step s s'"
| woken: "sched_step s (wake_model_waiters key s)"
| flush: "sched_step s (flush_message k s)"
| stop: "sched_step s (stop_workflow now w s)"
| clear: "running_in w s = [] \<Longrightarrow> sched_step s (clear_workflow w s)"
| manage: "manager_step (mgr s) m \<Longrightarrow> task_leases m \<subseteq> task_leases (mgr s) \<Longrightarrow> sched_step s (s\<lparr>mgr := m\<rparr>)"

definition reachable_sched :: "sched \<Rightarrow> bool" where
  "reachable_sched s = (\<exists>m. reachable_manager m \<and> task_leases m = {} \<and> sched_step\<^sup>*\<^sup>* (new_sched m) s)"

end
