(* ===== verification/Scheduler_Safety.thy ===== *)
theory Scheduler_Safety
  imports Scheduler_Core
begin

text \<open>
  What the scheduler's core keeps: every task is in one place at a time, every task lease has an owner,
  a stopped workflow stays stopped. The preorder \<open>eases\<close> collects the steps that take nothing new;
  the few steps that do are treated one by one.
\<close>

section \<open>The invariant\<close>

definition requeues :: "(message \<times> after) list \<Rightarrow> nat list" where
  "requeues box = concat (map (\<lambda>(m, a). case a of Requeue i \<Rightarrow> [i] | _ \<Rightarrow> []) box)"

text \<open>How often a task waits somewhere: in a queue, for a model, to be queued again, or for its cleanup.\<close>

definition parked :: "sched \<Rightarrow> nat \<Rightarrow> nat" where
  "parked s i = count_list (queue s) i + count_list (concat (dvals (waiting s))) i
     + count_list (requeues (outbox s)) i + count_list (map pr_task (recovering s)) i"

definition held :: "sched \<Rightarrow> string set" where
  "held s = retained s \<union> {k. \<exists>p \<in> set (recovering s). snd (snd (pr_identity p)) = Some k}"

definition task_ok :: "rtask \<Rightarrow> bool" where
  "task_ok t = (internal_ok t \<and> trace_ok (t_trace t))"

definition objs_ok :: "sched \<Rightarrow> bool" where
  "objs_ok s = (\<forall>i t. obj s i = Some t \<longrightarrow> task_ok t \<and> i < next_id s)"

definition place_ok :: "sched \<Rightarrow> bool" where
  "place_ok s = (\<forall>i. parked s i + (if runs s i then 1 else 0) \<le> 1 \<and> (0 < parked s i \<longrightarrow> obj s i \<noteq> None))"

definition table_ok :: "sched \<Rightarrow> bool" where
  "table_ok s =
     (\<forall>w ts. map_of (wfs s) w = Some ts \<longrightarrow>
        dict_ok ts \<and> (\<forall>k i. map_of ts k = Some i \<longrightarrow> (\<exists>t. obj s i = Some t \<and> t_workflow t = w \<and> t_id t = k)))"

definition covered :: "sched \<Rightarrow> bool" where
  "covered s =
     (\<forall>k l. (k, l) \<in> task_leases (mgr s) \<longrightarrow>
        k \<in> held s \<or> (\<exists>i t. obj s i = Some t \<and> runs s i \<and> t_lease t = Some k))"

definition core_ok :: "sched \<Rightarrow> bool" where
  "core_ok s = (manager_ok (mgr s) \<and> objs_ok s \<and> place_ok s \<and> table_ok s \<and> covered s)"

definition stop_ok :: "sched \<Rightarrow> bool" where
  "stop_ok s = (dict_ok (wfs s) \<and> (\<forall>w \<in> stopped s. map_of (wfs s) w = None))"

section \<open>Steps that take nothing new\<close>

definition same_task :: "sched \<Rightarrow> nat \<Rightarrow> rtask \<Rightarrow> rtask \<Rightarrow> bool" where
  "same_task s' i t t' =
     (t_workflow t' = t_workflow t \<and> t_id t' = t_id t \<and> (task_ok t \<longrightarrow> task_ok t') \<and> (runs s' i \<longrightarrow> t_lease t' = t_lease t))"

text \<open>The tasks of \<open>P\<close> may be parked anew.\<close>

definition eases_but :: "nat set \<Rightarrow> sched \<Rightarrow> sched \<Rightarrow> bool" where
  "eases_but P s s' =
     ((\<forall>i t'. obj s' i = Some t' \<longrightarrow> (\<exists>t. obj s i = Some t \<and> same_task s' i t t'))
      \<and> (\<forall>i. obj s' i = None \<longrightarrow> obj s i = None) \<and> next_id s' = next_id s
      \<and> (\<forall>i. i \<in> P \<or> parked s' i \<le> parked s i) \<and> (\<forall>i. runs s' i \<longrightarrow> runs s i)
      \<and> (\<forall>w ts. map_of (wfs s') w = Some ts \<longrightarrow> map_of (wfs s) w = Some ts)
      \<and> (manager_ok (mgr s) \<longrightarrow> manager_ok (mgr s')) \<and> task_leases (mgr s') \<subseteq> task_leases (mgr s)
      \<and> (\<forall>i t k l. obj s i = Some t \<and> runs s i \<and> \<not> runs s' i \<and> t_lease t = Some k \<and> (k, l) \<in> task_leases (mgr s')
            \<longrightarrow> k \<in> held s')
      \<and> (\<forall>k l. k \<in> held s \<and> (k, l) \<in> task_leases (mgr s') \<longrightarrow> k \<in> held s'))"

abbreviation eases :: "sched \<Rightarrow> sched \<Rightarrow> bool" where
  "eases \<equiv> eases_but {}"

lemma runs_obj: "runs s i \<Longrightarrow> \<exists>t. obj s i = Some t"
  by (auto simp: runs_def split: option.splits)

lemma eases_obj: "eases_but P s s' \<Longrightarrow> obj s' i = Some t' \<Longrightarrow> \<exists>t. obj s i = Some t \<and> same_task s' i t t'"
  unfolding eases_but_def by blast

lemma eases_obj_None: "eases_but P s s' \<Longrightarrow> obj s' i = None \<longleftrightarrow> obj s i = None"
  unfolding eases_but_def by (metis option.exhaust option.distinct(1))

lemma eases_kept: "eases_but P s s' \<Longrightarrow> obj s i = Some t \<Longrightarrow> \<exists>t'. obj s' i = Some t' \<and> same_task s' i t t'"
proof -
  assume e: "eases_but P s s'" and t: "obj s i = Some t"
  obtain t' where t': "obj s' i = Some t'" using eases_obj_None [OF e] t by (metis not_None_eq)
  with eases_obj [OF e t'] t show ?thesis by auto
qed

lemma easesD:
  assumes "eases_but P s s'"
  shows "next_id s' = next_id s" "i \<notin> P \<Longrightarrow> parked s' i \<le> parked s i" "runs s' i \<Longrightarrow> runs s i"
    "map_of (wfs s') w = Some ts \<Longrightarrow> map_of (wfs s) w = Some ts" "manager_ok (mgr s) \<Longrightarrow> manager_ok (mgr s')"
    "x \<in> task_leases (mgr s') \<Longrightarrow> x \<in> task_leases (mgr s)"
    "obj s i = Some t \<Longrightarrow> runs s i \<Longrightarrow> \<not> runs s' i \<Longrightarrow> t_lease t = Some k \<Longrightarrow> (k, l) \<in> task_leases (mgr s') \<Longrightarrow> k \<in> held s'"
    "k \<in> held s \<Longrightarrow> (k, l) \<in> task_leases (mgr s') \<Longrightarrow> k \<in> held s'"
  using assms unfolding eases_but_def by blast+

lemma eases_refl [simp]: "eases_but P s s"
  unfolding eases_but_def same_task_def by blast

lemma eases_trans:
  assumes a: "eases_but P s u" and b: "eases_but Q u v"
  shows "eases_but (P \<union> Q) s v"
  unfolding eases_but_def
proof (intro conjI allI impI)
  fix i t'
  assume v: "obj v i = Some t'"
  obtain x where x: "obj u i = Some x" "same_task v i x t'" using eases_obj [OF b v] by blast
  obtain t where t: "obj s i = Some t" "same_task u i t x" using eases_obj [OF a x(1)] by blast
  have "same_task v i t t'" using x(2) t(2) easesD(3) [OF b, of i] by (auto simp: same_task_def)
  with t(1) show "\<exists>t. obj s i = Some t \<and> same_task v i t t'" by blast
next
  fix i show "obj v i = None \<Longrightarrow> obj s i = None" using eases_obj_None a b by blast
next
  show "next_id v = next_id s" using easesD(1) [OF a] easesD(1) [OF b] by simp
next
  fix i show "i \<in> P \<union> Q \<or> parked v i \<le> parked s i"
    using easesD(2) [OF a, of i] easesD(2) [OF b, of i] by (metis UnCI le_trans)
next
  fix i t k l
  assume h: "obj s i = Some t \<and> runs s i \<and> \<not> runs v i \<and> t_lease t = Some k \<and> (k, l) \<in> task_leases (mgr v)"
  then have u: "(k, l) \<in> task_leases (mgr u)" using easesD(6) [OF b] by blast
  show "k \<in> held v"
  proof (cases "runs u i")
    case True
    obtain x where x: "obj u i = Some x" "same_task u i t x" using eases_kept [OF a] h by blast
    with True h have "t_lease x = Some k" by (simp add: same_task_def)
    with easesD(7) [OF b x(1) True] h show ?thesis by blast
  next
    case False
    then have "k \<in> held u" using easesD(7) [OF a] h u by blast
    then show ?thesis using easesD(8) [OF b] h by blast
  qed
next
  fix k l
  assume h: "k \<in> held s \<and> (k, l) \<in> task_leases (mgr v)"
  then have "(k, l) \<in> task_leases (mgr u)" using easesD(6) [OF b] by blast
  with h have "k \<in> held u" using easesD(8) [OF a] by blast
  with h show "k \<in> held v" using easesD(8) [OF b] by blast
qed (use easesD(3,4,5,6) [OF a] easesD(3,4,5,6) [OF b] in blast)+

lemma eases_eases: "eases s u \<Longrightarrow> eases u v \<Longrightarrow> eases s v"
  using eases_trans [of "{}" s u "{}" v] by simp

definition settled :: "sched \<Rightarrow> nat \<Rightarrow> bool" where
  "settled s i = (parked s i + (if runs s i then 1 else 0) \<le> 1 \<and> obj s i \<noteq> None)"

lemma place_eases_but:
  assumes ok: "place_ok s" and e: "eases_but P s s'" and P: "\<forall>i \<in> P. settled s' i"
  shows "place_ok s'"
  unfolding place_ok_def
proof
  fix i
  show "parked s' i + (if runs s' i then 1 else 0) \<le> 1 \<and> (0 < parked s' i \<longrightarrow> obj s' i \<noteq> None)"
  proof (cases "i \<in> P")
    case True
    with P show ?thesis by (simp add: settled_def)
  next
    case False
    have p: "parked s' i \<le> parked s i" "runs s' i \<Longrightarrow> runs s i" using easesD(2) [OF e False] easesD(3) [OF e] by blast+
    have o: "parked s i + (if runs s i then 1 else 0) \<le> 1" "0 < parked s i \<longrightarrow> obj s i \<noteq> None"
      using ok by (simp_all add: place_ok_def)
    have "parked s' i + (if runs s' i then 1 else 0) \<le> 1" using p o(1) by (auto split: if_splits)
    moreover have "obj s' i \<noteq> None" if "0 < parked s' i" using that p o(2) by (simp add: eases_obj_None [OF e])
    ultimately show ?thesis by simp
  qed
qed

lemma place_eases: "place_ok s \<Longrightarrow> eases s s' \<Longrightarrow> place_ok s'"
  by (rule place_eases_but [of s "{}"]) simp_all

lemma core_eases_but:
  assumes ok: "core_ok s" and e: "eases_but P s s'" and P: "\<forall>i \<in> P. settled s' i"
  shows "core_ok s'"
  unfolding core_ok_def
proof (intro conjI)
  show "manager_ok (mgr s')" using ok easesD(5) [OF e] by (simp add: core_ok_def)
  show "objs_ok s'"
    unfolding objs_ok_def
  proof (intro allI impI)
    fix i t'
    assume "obj s' i = Some t'"
    then obtain t where "obj s i = Some t" "same_task s' i t t'" using eases_obj [OF e] by blast
    then show "task_ok t' \<and> i < next_id s'"
      using ok easesD(1) [OF e] by (simp add: core_ok_def objs_ok_def same_task_def)
  qed
  show "place_ok s'" using ok place_eases_but [OF _ e P] by (simp add: core_ok_def)
  show "table_ok s'"
    unfolding table_ok_def
  proof (intro allI impI conjI)
    fix w ts
    assume "map_of (wfs s') w = Some ts"
    then have w: "map_of (wfs s) w = Some ts" by (rule easesD(4) [OF e])
    then show "dict_ok ts" using ok by (simp add: core_ok_def table_ok_def)
    fix k i
    assume "map_of ts k = Some i"
    with w ok obtain t where t: "obj s i = Some t" "t_workflow t = w" "t_id t = k"
      unfolding core_ok_def table_ok_def by blast
    with eases_kept [OF e t(1)] show "\<exists>t. obj s' i = Some t \<and> t_workflow t = w \<and> t_id t = k"
      by (auto simp: same_task_def)
  qed
  show "covered s'"
    unfolding covered_def
  proof (intro allI impI)
    fix k l
    assume kl: "(k, l) \<in> task_leases (mgr s')"
    then have "(k, l) \<in> task_leases (mgr s)" by (rule easesD(6) [OF e])
    with ok consider "k \<in> held s" | i t where "obj s i = Some t" "runs s i" "t_lease t = Some k"
      unfolding core_ok_def covered_def by blast
    then show "k \<in> held s' \<or> (\<exists>i t. obj s' i = Some t \<and> runs s' i \<and> t_lease t = Some k)"
    proof cases
      case 1
      with kl show ?thesis using easesD(8) [OF e] by blast
    next
      case 2
      show ?thesis
      proof (cases "runs s' i")
        case True
        with eases_kept [OF e 2(1)] 2(3) show ?thesis by (auto simp: same_task_def)
      next
        case False
        with easesD(7) [OF e 2(1,2) _ 2(3) kl] show ?thesis by blast
      qed
    qed
  qed
qed

lemma core_eases: "core_ok s \<Longrightarrow> eases s s' \<Longrightarrow> core_ok s'"
  by (rule core_eases_but [of s "{}"]) simp_all

section \<open>Building blocks\<close>

lemma obj_upd [simp]: "obj (upd_obj i f s) x = (if x = i then map_option f (obj s i) else obj s x)"
  by (auto simp: upd_obj_def split: option.splits)

lemma upd_obj_fields [simp]:
  "mgr (upd_obj i f s) = mgr s" "next_id (upd_obj i f s) = next_id s" "wfs (upd_obj i f s) = wfs s"
  "queue (upd_obj i f s) = queue s" "stopped (upd_obj i f s) = stopped s" "waiting (upd_obj i f s) = waiting s"
  "recovering (upd_obj i f s) = recovering s" "outbox (upd_obj i f s) = outbox s" "sent (upd_obj i f s) = sent s"
  "retained (upd_obj i f s) = retained s"
  by (simp_all add: upd_obj_def split: option.splits)

lemma post_fields [simp]:
  "mgr (post m a s) = mgr s" "next_id (post m a s) = next_id s" "wfs (post m a s) = wfs s" "objs (post m a s) = objs s"
  "queue (post m a s) = queue s" "stopped (post m a s) = stopped s" "waiting (post m a s) = waiting s"
  "recovering (post m a s) = recovering s" "retained (post m a s) = retained s"
  "outbox (post m a s) = outbox s @ [(m, a)]" "sent (post m a s) = sent s"
  by (simp_all add: post_def)

lemma requeues_append [simp]: "requeues (xs @ ys) = requeues xs @ requeues ys"
  by (simp add: requeues_def)

lemma requeues_Nil [simp]: "requeues [] = []"
  by (simp add: requeues_def)

lemma requeues_Cons [simp]:
  "requeues ((m, No_call) # b) = requeues b" "requeues ((m, Publish i) # b) = requeues b"
  "requeues ((m, Requeue i) # b) = i # requeues b"
  by (simp_all add: requeues_def)

lemma count_list_remove1: "count_list (remove1 x xs) y = count_list xs y - (if x = y then 1 else 0)"
  by (induction xs) auto

lemma count_list_pos: "0 < count_list xs x \<longleftrightarrow> x \<in> set xs"
  using count_list_0_iff by (metis gr0I not_gr_zero)

lemma runs_iff:
  "runs s i \<longleftrightarrow> (\<exists>t ts. obj s i = Some t \<and> t_status t = ''running''
     \<and> map_of (wfs s) (t_workflow t) = Some ts \<and> map_of ts (t_id t) = Some i)"
  by (auto simp: runs_def registered_def split: option.splits)

definition like :: "sched \<Rightarrow> nat \<Rightarrow> rtask \<Rightarrow> rtask \<Rightarrow> bool" where
  "like s i t t' =
     (t_workflow t' = t_workflow t \<and> t_id t' = t_id t \<and> t_lease t' = t_lease t \<and> (task_ok t \<longrightarrow> task_ok t')
      \<and> (t_status t' = ''running'' \<longrightarrow> t_status t = ''running'') \<and> (runs s i \<longrightarrow> t_status t' = ''running''))"

lemma like_refl: "obj s i = Some t \<Longrightarrow> like s i t t"
  by (auto simp: like_def runs_iff)

lemma like_runs:
  assumes "\<And>i. rel_option (like s i) (obj s i) (obj s' i)" and "wfs s' = wfs s"
  shows "runs s' i = runs s i"
  using assms(1) [of i] assms(2) by (auto simp: runs_iff like_def option_rel_Some1 option_rel_Some2)

lemma easesI:
  assumes rel: "\<And>i. rel_option (like s i) (obj s i) (obj s' i)" and w: "wfs s' = wfs s" and n: "next_id s' = next_id s"
    and p: "\<And>i. parked s' i \<le> parked s i" and m: "manager_ok (mgr s) \<Longrightarrow> manager_ok (mgr s')"
    and l: "task_leases (mgr s') \<subseteq> task_leases (mgr s)" and h: "held s \<subseteq> held s'"
  shows "eases s s'"
  unfolding eases_but_def
proof (intro conjI allI impI)
  note r = like_runs [OF rel w]
  fix i t'
  assume "obj s' i = Some t'"
  with rel [of i] obtain t where "obj s i = Some t" "like s i t t'" by (auto simp: option_rel_Some2)
  then show "\<exists>t. obj s i = Some t \<and> same_task s' i t t'" by (auto simp: like_def same_task_def)
next
  fix i show "obj s' i = None \<Longrightarrow> obj s i = None" using rel [of i] by simp
next
  fix i t k l'
  assume "obj s i = Some t \<and> runs s i \<and> \<not> runs s' i \<and> t_lease t = Some k \<and> (k, l') \<in> task_leases (mgr s')"
  then show "k \<in> held s'" using like_runs [OF rel w] by blast
qed (use w n p m l h like_runs [OF rel w] in auto)

lemma held_cong: "recovering s' = recovering s \<Longrightarrow> retained s' = retained s \<Longrightarrow> held s' = held s"
  by (simp add: held_def)

lemma parked_cong:
  "queue s' = queue s \<Longrightarrow> waiting s' = waiting s \<Longrightarrow> requeues (outbox s') = requeues (outbox s) \<Longrightarrow>
   recovering s' = recovering s \<Longrightarrow> parked s' i = parked s i"
  by (simp add: parked_def)

text \<open>Changes outside the store: the stop set, sent messages, what the manager frees.\<close>

lemma eases_frame:
  assumes "objs s' = objs s" "wfs s' = wfs s" "next_id s' = next_id s"
    and "\<And>i. parked s' i \<le> parked s i" and "manager_ok (mgr s) \<Longrightarrow> manager_ok (mgr s')"
    and "task_leases (mgr s') \<subseteq> task_leases (mgr s)" and "held s \<subseteq> held s'"
  shows "eases s s'"
proof (rule easesI)
  show "rel_option (like s i) (obj s i) (obj s' i)" for i
    using like_refl [of s i] by (cases "obj s i") (simp_all add: assms(1))
qed (use assms in auto)

lemma eases_upd:
  assumes "\<And>t. obj s i = Some t \<Longrightarrow> like s i t (f t)"
  shows "eases s (upd_obj i f s)"
proof (rule easesI)
  show "rel_option (like s x) (obj s x) (obj (upd_obj i f s) x)" for x
    using assms like_refl by (cases "obj s x") auto
  show "parked (upd_obj i f s) x \<le> parked s x" for x by (simp add: parked_def)
qed (simp_all add: held_def)

section \<open>Leases\<close>

lemmas leases_release [simp] = release_lease_leases

lemma task_leases_release:
  "task_leases (fst (release_lease now k m)) = {x \<in> task_leases m. k \<noteq> Some (fst x)}"
  by (auto simp: task_leases_def split: option.splits if_splits)

lemma task_leases_releases:
  "task_leases (release_task_resource now ks m) = {x \<in> task_leases m. Some (fst x) \<notin> set ks}"
proof (induction ks arbitrary: m)
  case (Cons k ks)
  show ?case unfolding release_task_resource_def
    by (simp add: Cons.IH [unfolded release_task_resource_def] task_leases_release) auto
qed (simp add: release_task_resource_def)

lemma release_task_resource_ok: "manager_ok m \<Longrightarrow> manager_ok (release_task_resource now ks m)"
  unfolding release_task_resource_def by (induction ks arbitrary: m) (auto intro: release_lease_ok)

lemma task_leases_context [simp]: "task_leases (m\<lparr>contexts := c\<rparr>) = task_leases m"
  by (simp add: task_leases_def)

lemma eases_stopped [simp]: "eases s (s\<lparr>stopped := x\<rparr>)"
  by (rule eases_frame) (simp_all add: parked_def held_def)

lemma eases_sent [simp]: "eases s (s\<lparr>sent := x\<rparr>)"
  by (rule eases_frame) (simp_all add: parked_def held_def)

lemma eases_post: "(\<forall>i. a \<noteq> Requeue i) \<Longrightarrow> eases s (post m a s)"
  by (rule eases_frame) (cases a; simp add: parked_def held_def)+

lemma eases_pop: "eases s (pop_task i s)"
  by (rule eases_frame) (simp_all add: parked_def held_def pop_task_def count_list_remove1)

section \<open>Model waiters\<close>

lemma count_ddel: "count_list (concat (dvals (ddel k d))) i \<le> count_list (concat (dvals d)) i"
  by (induction d) (auto simp: ddel_def dvals_def)

lemma count_concat_ddel:
  "count_list (dgetd d k []) i + count_list (concat (dvals (ddel k d))) i \<le> count_list (concat (dvals d)) i"
proof (induction d)
  case (Cons p d)
  show ?case using Cons count_ddel [of k d i] by (cases p) (auto simp: dgetd_def ddel_def dvals_def split: option.splits)
qed (simp add: dgetd_def ddel_def dvals_def)

lemma parked_not_runs: "place_ok s \<Longrightarrow> 0 < parked s i \<Longrightarrow> \<not> runs s i"
  unfolding place_ok_def by (auto dest!: spec [of _ i] split: if_splits)

lemma task_ok_cong: "t_internal t' = t_internal t \<Longrightarrow> t_trace t' = t_trace t \<Longrightarrow> task_ok t' = task_ok t"
  by (simp add: task_ok_def internal_ok_def)

lemma wake_fields [simp]:
  "mgr (wake s i) = mgr s" "next_id (wake s i) = next_id s" "wfs (wake s i) = wfs s" "stopped (wake s i) = stopped s"
  "waiting (wake s i) = waiting s" "recovering (wake s i) = recovering s" "outbox (wake s i) = outbox s"
  "sent (wake s i) = sent s" "retained (wake s i) = retained s"
  by (simp_all add: wake_def split: option.splits)

lemma wakes_fields [simp]:
  "mgr (foldl wake s os) = mgr s" "next_id (foldl wake s os) = next_id s" "wfs (foldl wake s os) = wfs s"
  "stopped (foldl wake s os) = stopped s" "waiting (foldl wake s os) = waiting s"
  "recovering (foldl wake s os) = recovering s" "outbox (foldl wake s os) = outbox s" "sent (foldl wake s os) = sent s"
  "retained (foldl wake s os) = retained s"
  by (induction os arbitrary: s) simp_all

lemma parked_wake: "parked (wake s i) x \<le> parked s x + (if x = i then 1 else 0)"
  by (auto simp: parked_def wake_def split: option.splits)

lemma like_wake:
  assumes "\<not> runs s i"
  shows "rel_option (like s x) (obj s x) (obj (wake s i) x)"
proof (cases "obj s x")
  case (Some t)
  note r = like_refl [OF Some]
  have "like s i t (t\<lparr>t_status := ''ready'', t_pending := None\<rparr>)" if "x = i"
    using assms that task_ok_cong [of "t\<lparr>t_status := ''ready'', t_pending := None\<rparr>" t] by (simp add: like_def)
  with Some r show ?thesis by (auto simp: wake_def split: option.splits)
qed (auto simp: wake_def split: option.splits)

lemma like_chain:
  assumes "like s i t u" and "like s' i u v" and "runs s' i = runs s i"
  shows "like s i t v"
  using assms by (auto simp: like_def)

lemma wakes_like:
  assumes "\<forall>i \<in> set os. \<not> runs s i"
  shows "rel_option (like s x) (obj s x) (obj (foldl wake s os) x)
    \<and> parked (foldl wake s os) x \<le> parked s x + count_list os x"
  using assms
proof (induction os arbitrary: s)
  case Nil
  show ?case using like_refl [of s x] by (cases "obj s x") simp_all
next
  case (Cons i os)
  have ni: "\<not> runs s i" using Cons.prems by simp
  have runs: "runs (wake s i) y = runs s y" for y by (rule like_runs [OF like_wake [OF ni]]) simp
  have IH: "rel_option (like (wake s i) x) (obj (wake s i) x) (obj (foldl wake (wake s i) os) x)"
    "parked (foldl wake (wake s i) os) x \<le> parked (wake s i) x + count_list os x"
    using Cons.IH [of "wake s i"] Cons.prems runs by auto
  have "rel_option (like s x) (obj s x) (obj (foldl wake (wake s i) os) x)"
    using like_wake [OF ni, of x] IH(1) like_chain runs [of x]
    by (cases "obj s x"; cases "obj (wake s i) x") (auto simp: option_rel_Some1)
  moreover have "parked (foldl wake (wake s i) os) x \<le> parked s x + count_list (i # os) x"
    using IH(2) parked_wake [of s i x] by auto
  ultimately show ?case by simp
qed

lemma wake_waiters_eases:
  assumes "place_ok s"
  shows "eases s (wake_model_waiters k s)"
proof -
  let ?u = "s\<lparr>waiting := ddel k (waiting s)\<rparr>" and ?os = "dgetd (waiting s) k []"
  have runs: "runs ?u i = runs s i" for i by (simp add: runs_iff)
  have cnt: "count_list ?os i + count_list (concat (dvals (waiting ?u))) i \<le> count_list (concat (dvals (waiting s))) i" for i
    using count_concat_ddel by simp
  have "\<not> runs ?u i" if "i \<in> set ?os" for i
  proof -
    have "0 < count_list ?os i" using that by (simp add: count_list_pos)
    then have "0 < parked s i" using cnt [of i] by (simp add: parked_def)
    then show ?thesis using parked_not_runs [OF assms] runs by blast
  qed
  then have w: "rel_option (like ?u x) (obj ?u x) (obj (foldl wake ?u ?os) x)"
      "parked (foldl wake ?u ?os) x \<le> parked ?u x + count_list ?os x" for x
    using wakes_like [of ?os ?u x] by blast+
  have like: "like ?u x t t' = like s x t t'" for x t t' by (simp add: like_def runs)
  show ?thesis
    unfolding wake_model_waiters_def
  proof (rule easesI)
    show "rel_option (like s x) (obj s x) (obj (foldl wake ?u ?os) x)" for x
      using w(1) [of x] by (simp add: like [abs_def])
    show "parked (foldl wake ?u ?os) x \<le> parked s x" for x
      using w(2) [of x] cnt [of x] by (simp add: parked_def)
  qed (simp_all add: held_def)
qed

lemma like_upd_simple:
  assumes "obj s i = Some t" and "t_workflow t' = t_workflow t" "t_id t' = t_id t" "t_lease t' = t_lease t"
    "t_status t' = t_status t" "t_internal t' = t_internal t" "t_trace t' = t_trace t"
  shows "like s i t t'"
  using assms task_ok_cong [of t' t] by (auto simp: like_def runs_iff)

lemma release_route_eases:
  assumes "place_ok s"
  shows "eases s (release_model_route i s)"
proof (cases "obj s i")
  case (Some t)
  let ?s1 = "upd_obj i (\<lambda>t. t\<lparr>t_route := VNone\<rparr>) s"
  have e: "eases s ?s1" by (rule eases_upd) (rule like_upd_simple, auto)
  have "eases ?s1 (wake_model_waiters k ?s1)" for k by (rule wake_waiters_eases [OF place_eases [OF assms e]])
  with e eases_eases Some show ?thesis by (auto simp: release_model_route_def Let_def split: option.splits)
qed (simp add: release_model_route_def)

lemma release_routes_eases:
  "place_ok s \<Longrightarrow> eases s (foldl (\<lambda>s i. release_model_route i s) s os)"
proof (induction os arbitrary: s)
  case (Cons i os)
  note e = release_route_eases [OF Cons.prems, of i]
  from Cons.IH [OF place_eases [OF Cons.prems e]] e eases_eases show ?case by simp
qed simp

lemma count_concat_filter:
  "count_list (concat (dvals (filter (\<lambda>(k, v). v \<noteq> []) (dmapv (\<lambda>_ os. filter P os) d)))) i \<le> count_list (concat (dvals d)) i"
proof (induction d)
  case (Cons p d)
  have "count_list (filter P os) i \<le> count_list os i" for os by (induction os) auto
  from Cons this [of "snd p"] show ?case by (cases p) (auto simp: dvals_def dmapv_def)
qed (simp add: dvals_def dmapv_def)

lemma remove_waiters_fields [simp]:
  "mgr (remove_model_waiters w s) = mgr s" "next_id (remove_model_waiters w s) = next_id s"
  "wfs (remove_model_waiters w s) = wfs s" "stopped (remove_model_waiters w s) = stopped s"
  "recovering (remove_model_waiters w s) = recovering s" "outbox (remove_model_waiters w s) = outbox s"
  "sent (remove_model_waiters w s) = sent s" "retained (remove_model_waiters w s) = retained s"
  "objs (remove_model_waiters w s) = objs s" "queue (remove_model_waiters w s) = queue s"
  by (simp_all add: remove_model_waiters_def)

lemma remove_waiters_eases: "eases s (remove_model_waiters w s)"
proof (rule eases_frame)
  show "parked (remove_model_waiters w s) i \<le> parked s i" for i
    using count_concat_filter [of "\<lambda>i. \<not> of_workflow s w i" "waiting s" i]
    by (simp add: parked_def) (simp add: remove_model_waiters_def)
qed (simp_all add: held_def)

section \<open>Giving up a workflow\<close>

text \<open>What waking and releasing routes leave alone of every task.\<close>

definition ident :: "sched \<Rightarrow> nat \<Rightarrow> (string \<times> string \<times> string option \<times> int \<times> int \<times> trace) option" where
  "ident s i = map_option (\<lambda>t. (t_workflow t, t_id t, t_lease t, t_attempt t, t_max_retries t, t_trace t)) (obj s i)"

lemma ident_objs: "objs s' = objs s \<Longrightarrow> ident s' x = ident s x"
  by (simp add: ident_def)

lemma ident_upd:
  assumes "\<And>t. (t_workflow (f t), t_id (f t), t_lease (f t), t_attempt (f t), t_max_retries (f t), t_trace (f t))
    = (t_workflow t, t_id t, t_lease t, t_attempt t, t_max_retries t, t_trace t)"
  shows "ident (upd_obj i f s) x = ident s x"
  using assms by (simp add: ident_def option.map_comp comp_def)

lemma ident_wake [simp]: "ident (wake s i) x = ident s x"
proof (cases "obj s i")
  case (Some t)
  have "ident ((upd_obj i (\<lambda>t. t\<lparr>t_status := ''ready'', t_pending := None\<rparr>) s)\<lparr>queue := q\<rparr>) x
      = ident (upd_obj i (\<lambda>t. t\<lparr>t_status := ''ready'', t_pending := None\<rparr>) s) x" for q
    by (rule ident_objs) simp
  with Some show ?thesis by (simp add: wake_def ident_upd)
qed (simp add: wake_def)

lemma ident_wakes [simp]: "ident (foldl wake s os) x = ident s x"
  by (induction os arbitrary: s) simp_all

lemma ident_release_route [simp]: "ident (release_model_route i s) x = ident s x"
proof -
  have w: "ident (wake_model_waiters k u) x = ident u x" for k u
    by (simp add: wake_model_waiters_def ident_objs [of "u\<lparr>waiting := ddel k (waiting u)\<rparr>" u])
  show ?thesis
    by (simp add: release_model_route_def Let_def w ident_upd split: option.splits)
qed

lemma ident_release_routes [simp]: "ident (foldl (\<lambda>s i. release_model_route i s) s os) x = ident s x"
  by (induction os arbitrary: s) simp_all

lemma lease_of_ident: "lease_of s x = (case ident s x of None \<Rightarrow> None | Some (_, _, l, _) \<Rightarrow> l)"
  by (simp add: lease_of_def ident_def split: option.splits)

lemma route_fields [simp]:
  "mgr (release_model_route i s) = mgr s" "next_id (release_model_route i s) = next_id s"
  "wfs (release_model_route i s) = wfs s" "stopped (release_model_route i s) = stopped s"
  "recovering (release_model_route i s) = recovering s" "outbox (release_model_route i s) = outbox s"
  "sent (release_model_route i s) = sent s" "retained (release_model_route i s) = retained s"
  by (simp_all add: release_model_route_def wake_model_waiters_def Let_def split: option.splits)

lemma routes_fields [simp]:
  "mgr (foldl (\<lambda>s i. release_model_route i s) s os) = mgr s"
  "wfs (foldl (\<lambda>s i. release_model_route i s) s os) = wfs s"
  "stopped (foldl (\<lambda>s i. release_model_route i s) s os) = stopped s"
  "recovering (foldl (\<lambda>s i. release_model_route i s) s os) = recovering s"
  "retained (foldl (\<lambda>s i. release_model_route i s) s os) = retained s"
  by (induction os arbitrary: s) simp_all

lemma runs_cong: "objs s' = objs s \<Longrightarrow> wfs s' = wfs s \<Longrightarrow> runs s' i = runs s i"
  by (simp add: runs_iff)

lemma running_in_iff:
  "map_of (wfs s) (t_workflow t) = Some ts \<Longrightarrow> map_of ts (t_id t) = Some i \<Longrightarrow> obj s i = Some t \<Longrightarrow>
   t_status t = ''running'' \<Longrightarrow> i \<in> set (running_in (t_workflow t) s)"
  by (auto simp: running_in_def has_status_def dvals_def dest!: map_of_in intro: image_eqI [rotated])

definition abandoned :: "time \<Rightarrow> string \<Rightarrow> sched \<Rightarrow> sched" where
  "abandoned now w s = foldl (\<lambda>s i. release_model_route i s) ((remove_model_waiters w s)\<lparr>wfs := ddel w (wfs s)\<rparr>)
     (running_in w s)"

lemma has_status_cong: "objs s' = objs s \<Longrightarrow> has_status s' = has_status s"
  by (intro ext) (simp add: has_status_def)

lemma running_in_remove [simp]: "running_in w (remove_model_waiters v s) = running_in w s"
  by (simp add: running_in_def has_status_cong [of "remove_model_waiters v s" s] split: option.split)

lemma abandon_eq:
  "abandon_workflow now w s = release_dag_context w (release_leases now (running_in w s) (abandoned now w s))"
  by (simp add: abandon_workflow_def cancel_workflow_def abandoned_def Let_def)

lemma abandon_fields [simp]:
  "wfs (abandon_workflow now w s) = ddel w (wfs s)" "stopped (abandon_workflow now w s) = stopped s"
  "recovering (abandon_workflow now w s) = recovering s" "retained (abandon_workflow now w s) = retained s"
  by (simp_all add: abandon_eq release_dag_context_def release_leases_def abandoned_def)

lemma release_context_manager_ok: "manager_ok m \<Longrightarrow> manager_ok (m\<lparr>contexts := fst (release_context (contexts m) w)\<rparr>)"
  by (rule manager_step_ok [OF step_finish])

lemma abandon_eases:
  assumes ok: "place_ok s"
  shows "eases s (abandon_workflow now w s)"
proof -
  let ?s1 = "remove_model_waiters w s"
  let ?s2 = "?s1\<lparr>wfs := ddel w (wfs s)\<rparr>" and ?s3 = "abandoned now w s" and ?os = "running_in w s"
  let ?s5 = "abandon_workflow now w s"
  have runs2: "runs ?s2 i \<Longrightarrow> runs s i" for i by (auto simp: runs_iff split: if_splits)
  have parked2: "parked ?s2 i \<le> parked s i" for i
    using easesD(2) [OF remove_waiters_eases, of i w s, simplified] by (simp add: parked_def)
  have "place_ok ?s2"
    unfolding place_ok_def
  proof (intro allI conjI impI)
    fix i
    have o: "parked s i + (if runs s i then 1 else 0) \<le> 1" "0 < parked s i \<longrightarrow> obj s i \<noteq> None"
      using ok by (simp_all add: place_ok_def)
    show "parked ?s2 i + (if runs ?s2 i then 1 else 0) \<le> 1"
      using o(1) parked2 [of i] runs2 [of i] by (auto split: if_splits)
    show "obj ?s2 i \<noteq> None" if "0 < parked ?s2 i" using o(2) that parked2 [of i] by simp
  qed
  then have e: "eases ?s2 ?s3" unfolding abandoned_def by (rule release_routes_eases)
  have o5: "objs ?s5 = objs ?s3" "wfs ?s5 = wfs ?s3" "next_id ?s5 = next_id ?s3"
    and p5: "parked ?s5 i = parked ?s3 i" for i
    by (simp_all add: abandon_eq release_dag_context_def release_leases_def parked_def abandoned_def)
  note r5 = runs_cong [OF o5(1,2)]
  have m3: "mgr ?s3 = mgr s" by (simp add: abandoned_def)
  have l5: "task_leases (mgr ?s5) = {x \<in> task_leases (mgr s). Some (fst x) \<notin> lease_of ?s3 ` set ?os}"
    by (simp add: abandon_eq release_dag_context_def release_leases_def task_leases_releases m3)
  show ?thesis
    unfolding eases_but_def
  proof (intro conjI allI impI)
    fix i t'
    assume "obj ?s5 i = Some t'"
    then obtain t where "obj ?s2 i = Some t" "same_task ?s3 i t t'" using eases_obj [OF e] o5(1) by metis
    then show "\<exists>t. obj s i = Some t \<and> same_task ?s5 i t t'" by (auto simp: same_task_def r5)
  next
    fix i show "obj ?s5 i = None \<Longrightarrow> obj s i = None" using eases_obj_None [OF e, of i] o5(1) by simp
  next
    show "next_id ?s5 = next_id s" using easesD(1) [OF e] o5(3) by simp
  next
    fix i show "i \<in> {} \<or> parked ?s5 i \<le> parked s i" using p5 easesD(2) [OF e, of i, simplified] parked2 [of i] by simp
  next
    fix i show "runs ?s5 i \<Longrightarrow> runs s i" using r5 easesD(3) [OF e] runs2 by blast
  next
    fix v ts show "map_of (wfs ?s5) v = Some ts \<Longrightarrow> map_of (wfs s) v = Some ts" by (simp split: if_splits)
  next
    show "manager_ok (mgr s) \<Longrightarrow> manager_ok (mgr ?s5)"
      by (simp add: abandon_eq release_dag_context_def release_leases_def m3
          release_context_manager_ok release_task_resource_ok)
  next
    show "task_leases (mgr ?s5) \<subseteq> task_leases (mgr s)" by (auto simp: l5)
  next
    fix i t k l
    assume a: "obj s i = Some t \<and> runs s i \<and> \<not> runs ?s5 i \<and> t_lease t = Some k \<and> (k, l) \<in> task_leases (mgr ?s5)"
    then have act: "(k, l) \<in> task_leases (mgr ?s3)" by (auto simp: l5 m3)
    show "k \<in> held ?s5"
    proof (cases "runs ?s2 i")
      case True
      then have "k \<in> held ?s3" using easesD(7) [OF e _ True, of t k l] a r5 act by simp
      then show ?thesis by (simp add: held_def abandoned_def)
    next
      case False
      obtain ts where ts: "t_status t = ''running''" "map_of (wfs s) (t_workflow t) = Some ts" "map_of ts (t_id t) = Some i"
        using a by (auto simp: runs_iff)
      with False a have w: "t_workflow t = w" by (auto simp: runs_iff split: if_splits)
      then have "i \<in> set ?os" using running_in_iff ts a by blast
      moreover have "lease_of ?s3 i = Some k"
        using a ident_objs [of ?s2 s i] by (simp add: lease_of_ident abandoned_def) (simp add: ident_def)
      ultimately have "(k, l) \<notin> task_leases (mgr ?s5)" unfolding l5 by force
      with a show ?thesis by blast
    qed
  next
    fix k l show "k \<in> held s \<and> (k, l) \<in> task_leases (mgr ?s5) \<Longrightarrow> k \<in> held ?s5" by (simp add: held_def)
  qed
qed

lemma ident_abandon [simp]: "ident (abandon_workflow now w s) x = ident s x"
proof -
  have "ident (abandon_workflow now w s) x = ident (abandoned now w s) x"
    by (rule ident_objs) (simp add: abandon_eq release_dag_context_def release_leases_def)
  also have "\<dots> = ident s x" unfolding abandoned_def by simp (rule ident_objs, simp)
  finally show ?thesis .
qed

section \<open>Moving a task\<close>

lemma eases_idle:
  assumes t: "obj s i = Some t" and o: "\<And>x. obj s' x = (if x = i then Some t' else obj s x)"
    and same: "t_workflow t' = t_workflow t" "t_id t' = t_id t" "task_ok t \<Longrightarrow> task_ok t'" "\<not> runs s' i"
    and w: "wfs s' = wfs s" and n: "next_id s' = next_id s"
    and p: "\<And>x. x \<noteq> i \<Longrightarrow> parked s' x \<le> parked s x" and m: "manager_ok (mgr s) \<Longrightarrow> manager_ok (mgr s')"
    and l: "task_leases (mgr s') \<subseteq> task_leases (mgr s)"
    and h: "\<And>k l. k \<in> held s \<Longrightarrow> (k, l) \<in> task_leases (mgr s') \<Longrightarrow> k \<in> held s'"
    and lost: "\<And>k l. runs s i \<Longrightarrow> t_lease t = Some k \<Longrightarrow> (k, l) \<in> task_leases (mgr s') \<Longrightarrow> k \<in> held s'"
  shows "eases_but {i} s s'"
proof -
  have r: "runs s' x \<longleftrightarrow> x \<noteq> i \<and> runs s x" for x using same(4) by (cases "x = i") (auto simp: runs_iff o w)
  show ?thesis
    unfolding eases_but_def
  proof (intro conjI allI impI)
    fix x t''
    assume "obj s' x = Some t''"
    then show "\<exists>t. obj s x = Some t \<and> same_task s' x t t''"
      using t same r [of x] by (auto simp: o same_task_def split: if_splits)
  next
    fix x show "obj s' x = None \<Longrightarrow> obj s x = None" by (simp add: o split: if_splits)
  next
    fix x show "x \<in> {i} \<or> parked s' x \<le> parked s x" using p [of x] by blast
  next
    fix x u k l
    assume a: "obj s x = Some u \<and> runs s x \<and> \<not> runs s' x \<and> t_lease u = Some k \<and> (k, l) \<in> task_leases (mgr s')"
    then have "x = i" using r by blast
    with a t lost [of k l] show "k \<in> held s'" by auto
  qed (use r w n m l h in auto)
qed

lemma eases_move:
  assumes t: "obj s i = Some t" and o: "\<And>x. obj s' x = (if x = i then Some t' else obj s x)"
    and same: "t_workflow t' = t_workflow t" "t_id t' = t_id t" "task_ok t \<Longrightarrow> task_ok t'" "t_status t' \<noteq> ''running''"
    and rest: "wfs s' = wfs s" "next_id s' = next_id s"
      "\<And>x. x \<noteq> i \<Longrightarrow> parked s' x \<le> parked s x" "manager_ok (mgr s) \<Longrightarrow> manager_ok (mgr s')"
      "task_leases (mgr s') \<subseteq> task_leases (mgr s)"
      "\<And>k l. k \<in> held s \<Longrightarrow> (k, l) \<in> task_leases (mgr s') \<Longrightarrow> k \<in> held s'"
      "\<And>k l. runs s i \<Longrightarrow> t_lease t = Some k \<Longrightarrow> (k, l) \<in> task_leases (mgr s') \<Longrightarrow> k \<in> held s'"
  shows "eases_but {i} s s' \<and> \<not> runs s' i"
proof -
  have r: "\<not> runs s' i" using same(4) by (simp add: runs_iff o)
  moreover have "eases_but {i} s s'"
    by (rule eases_idle [OF t o same(1-3) r rest(1-5)]) (use rest(6,7) in blast)+
  ultimately show ?thesis by blast
qed

section \<open>A failed attempt\<close>

lemma ident_obj: "obj s i = Some t \<Longrightarrow> ident s i = Some (t_workflow t, t_id t, t_lease t, t_attempt t, t_max_retries t, t_trace t)"
  by (simp add: ident_def)

lemma ident_Some:
  "ident s i = Some (w, k, l, a, m, tr) \<Longrightarrow>
   \<exists>t. obj s i = Some t \<and> t_workflow t = w \<and> t_id t = k \<and> t_lease t = l \<and> t_attempt t = a \<and> t_max_retries t = m \<and> t_trace t = tr"
  by (auto simp: ident_def)

lemma fail_prefix_facts:
  assumes p: "fail_prefix ts i e metrics s = Inr (e1, s1)" and ok: "place_ok s"
  shows "eases s s1 \<and> wfs s1 = wfs s \<and> mgr s1 = mgr s \<and> recovering s1 = recovering s \<and> retained s1 = retained s
    \<and> (\<forall>x. ident s1 x = ident s x) \<and> (\<forall>t. obj s i = Some t \<longrightarrow> stopped s1 = insert (t_workflow t) (stopped s))"
proof -
  obtain t where t: "obj s i = Some t" using p by (auto simp: fail_prefix_def split: option.splits)
  let ?f = "\<lambda>t. t\<lparr>t_last_error := Some e1, t_metrics := metrics\<rparr>"
  let ?u = "upd_obj i ?f s"
  have s1: "s1 = (release_model_route i ?u)\<lparr>stopped := insert (t_workflow t) (stopped s)\<rparr>"
    using p t by (auto simp: fail_prefix_def Let_def)
  have e1: "eases s ?u" by (rule eases_upd) (rule like_upd_simple, auto)
  have e2: "eases ?u (release_model_route i ?u)" by (rule release_route_eases [OF place_eases [OF ok e1]])
  have "eases s s1" unfolding s1 by (rule eases_eases [OF eases_eases [OF e1 e2]]) simp
  moreover have "ident s1 x = ident s x" for x
  proof -
    have "ident s1 x = ident (release_model_route i ?u) x" by (rule ident_objs) (simp add: s1)
    also have "\<dots> = ident s x" by (simp add: ident_upd)
    finally show ?thesis .
  qed
  ultimately show ?thesis using t by (simp add: s1)
qed

lemma like_record:
  assumes "obj s i = Some t" and "t_workflow t' = t_workflow t" "t_id t' = t_id t" "t_lease t' = t_lease t"
    "t_status t' = t_status t" "t_internal t' = t_internal t" "trace_ok (t_trace t) \<Longrightarrow> trace_ok (t_trace t')"
  shows "like s i t t'"
  using assms internal_ok_cong [of t' t] by (auto simp: like_def runs_iff task_ok_def)

lemma final_trace_ok:
  "trace_ok (t_trace t) \<Longrightarrow> trace_ok (t_trace (record_final_failure ts e (record_retry_decision ts e' dg rep False n (t\<lparr>t_last_error := x\<rparr>))))"
  using record_failure_ok [of "t\<lparr>t_last_error := x\<rparr>" ts e e' dg rep n] by (intro closed_ok) simp_all

definition budget :: "sched \<Rightarrow> nat \<Rightarrow> (int \<times> int) option" where
  "budget s i = map_option (\<lambda>t. (t_attempt t, t_max_retries t)) (obj s i)"

lemma budget_ident: "ident s' x = ident s x \<Longrightarrow> budget s' x = budget s x"
  unfolding ident_def budget_def by (cases "obj s' x"; cases "obj s x") auto

lemma budget_objs: "objs s' = objs s \<Longrightarrow> budget s' x = budget s x"
  by (simp add: budget_def)

lemma budget_upd:
  "obj s i = Some t \<Longrightarrow> t_attempt (f t) = t_attempt t \<Longrightarrow> t_max_retries (f t) = t_max_retries t \<Longrightarrow>
   budget (upd_obj i f s) x = budget s x"
  by (simp add: budget_def)

lemma give_up_facts:
  assumes ok: "place_ok s" and t: "obj s i = Some t"
  shows "eases s (give_up now ts i e dg rep s) \<and> wfs (give_up now ts i e dg rep s) = ddel (t_workflow t) (wfs s)
    \<and> stopped (give_up now ts i e dg rep s) = stopped s
    \<and> (\<forall>x. budget (give_up now ts i e dg rep s) x = budget s x)"
proof -
  define r where "r = (case rep of Some r \<Rightarrow> r
    | None \<Rightarrow> refused ''none'' (if should_retry e t then ''not_recoverable'' else ''retry_policy_rejected''))"
  define e1 where "e1 = dput ''repair_action'' (VDict r) e"
  define t1 where "t1 = record_final_failure ts e1 (record_retry_decision ts e1 dg r False None (t\<lparr>t_last_error := Some e1\<rparr>))"
  let ?u = "upd_obj i (\<lambda>_. t1) s"
  let ?v = "abandon_workflow now (t_workflow t) ?u"
  have g: "give_up now ts i e dg rep s = post (exception_message e1 t1) No_call ?v"
    unfolding give_up_def Let_def r_def e1_def t1_def by (simp add: t)
  have "like s i t t1"
    by (rule like_record [OF t]) (simp_all add: t1_def final_trace_ok)
  then have e2: "eases s ?u" by (intro eases_upd) (simp add: t)
  have e3: "eases ?u ?v" by (rule abandon_eases [OF place_eases [OF ok e2]])
  have e4: "eases ?v (post (exception_message e1 t1) No_call ?v)" by (rule eases_post) simp
  have "eases s (give_up now ts i e dg rep s)"
    unfolding g by (rule eases_eases [OF eases_eases [OF e2 e3] e4])
  moreover have "budget (give_up now ts i e dg rep s) x = budget s x" for x
  proof -
    have "budget (give_up now ts i e dg rep s) x = budget ?u x"
      unfolding g by (rule budget_ident) (rule trans [OF ident_objs ident_abandon], simp)
    also have "\<dots> = budget s x" by (rule budget_upd [OF t]) (simp_all add: t1_def)
    finally show ?thesis .
  qed
  ultimately show ?thesis by (simp add: g)
qed

lemma settledI: "\<not> runs s i \<Longrightarrow> parked s i \<le> 1 \<Longrightarrow> obj s i = Some t \<Longrightarrow> settled s i"
  by (simp add: settled_def)

lemma announce_retry_facts:
  assumes a: "announce_retry now ts i e dg rep t s = Inr s'" and t: "obj s i = Some t" and free: "parked s i = 0"
    and l: "\<And>k l. t_lease t = Some k \<Longrightarrow> (k, l) \<in> task_leases (mgr s) \<Longrightarrow> k \<in> held s"
  shows "eases_but {i} s s' \<and> settled s' i \<and> \<not> runs s' i \<and> stopped s' = stopped s \<and> wfs s' = wfs s
    \<and> (\<forall>x. budget s' x = budget s x)"
proof -
  obtain t1 where r: "schedule_retry now e t = Inr t1" using a by (auto simp: announce_retry_def)
  note f = schedule_retry_facts [OF r]
  define t2 where "t2 = record_retry_decision ts e dg rep True (Some (t_attempt t1 + 1)) t1"
  have s': "s' = post ((base_message ''task_retry'' t2)\<lparr>m_error := Some e\<rparr>) (Requeue i) (upd_obj i (\<lambda>_. t2) s)"
    using a r by (simp add: announce_retry_def t2_def Let_def)
  have "internal_ok t2" using f internal_ok_cong [of t2 t1] by (simp add: t2_def)
  then have tr: "task_ok t2" if "task_ok t"
    using that f record_retry_ok [of t1 ts e dg rep] by (simp add: task_ok_def t2_def)
  have p: "parked s' x = parked s x + (if x = i then 1 else 0)" for x by (simp add: s' parked_def)
  have "eases_but {i} s s' \<and> \<not> runs s' i"
  proof (rule eases_move [OF t])
    show "obj s' x = (if x = i then Some t2 else obj s x)" for x by (simp add: s' t)
  qed (use f tr p l in \<open>simp_all add: s' t2_def held_def\<close>)
  moreover have "budget s' x = budget s x" for x
  proof -
    have "budget s' x = budget (upd_obj i (\<lambda>_. t2) s) x" by (rule budget_objs) (simp add: s')
    also have "\<dots> = budget s x" using f by (intro budget_upd [OF t]) (simp_all add: t2_def)
    finally show ?thesis .
  qed
  ultimately show ?thesis using settledI [of s' i t2] p free by (simp add: s' t)
qed

end
