(* ===== verification/Scheduler_Steps.thy ===== *)
theory Scheduler_Steps
  imports Scheduler_Safety
begin

text \<open>
  The steps of the scheduler's core that move a task on: the retry or the failure of an attempt, the
  launch of a new one, the end of a cleanup. Each keeps the invariant of \<open>Scheduler_Safety\<close>.
\<close>

section \<open>Retrying or failing\<close>

text \<open>
  The frame of a failed attempt of the task \<open>i\<close>: nobody else is parked anew or changes its budget, and the
  task itself comes out settled; if it is still waiting anywhere, it may be tried once more.
\<close>

definition fails_well :: "nat \<Rightarrow> string \<Rightarrow> sched \<Rightarrow> sched \<Rightarrow> bool" where
  "fails_well i w s s' =
     (eases_but {i} s s' \<and> settled s' i \<and> \<not> runs s' i \<and> (stop_ok s \<longrightarrow> stop_ok s') \<and> stopped s - {w} \<subseteq> stopped s'
      \<and> (\<forall>x. x \<noteq> i \<longrightarrow> budget s' x = budget s x)
      \<and> (0 < parked s' i \<longrightarrow> budget s' i = budget s i \<and> (\<forall>t. obj s i = Some t \<longrightarrow> t_attempt t \<le> t_max_retries t)))"

text \<open>What happened to the state before the decision: nothing but the stop set and the failed task.\<close>

definition failing :: "nat \<Rightarrow> string \<Rightarrow> sched \<Rightarrow> sched \<Rightarrow> bool" where
  "failing i w s u =
     (eases s u \<and> wfs u = wfs s \<and> mgr u = mgr s \<and> held u = held s \<and> stopped s - {w} \<subseteq> stopped u \<and> stopped u \<subseteq> insert w (stopped s)
      \<and> (\<forall>x. x \<noteq> i \<longrightarrow> budget u x = budget s x))"

lemma failing_trans: "failing i w s u \<Longrightarrow> failing i w u v \<Longrightarrow> failing i w s v"
  unfolding failing_def by (auto intro: eases_eases)

lemma failing_prefix:
  assumes "fail_prefix ts i e metrics s = Inr (e1, s1)" "place_ok s" "obj s i = Some t"
  shows "failing i (t_workflow t) s s1 \<and> budget s1 i = budget s i"
proof -
  note f = fail_prefix_facts [OF assms(1,2)]
  have "budget s1 x = budget s x" for x by (rule budget_ident) (use f in blast)
  with f assms(3) show ?thesis by (auto simp: failing_def held_def)
qed

lemma failing_upd:
  assumes "obj s i = Some t" "like s i t (f t)"
  shows "failing i w s (upd_obj i f s)"
  using assms eases_upd [of s i f] by (auto simp: failing_def held_def budget_def)

lemma failing_unstop: "failing i w s (s\<lparr>stopped := stopped s - {w}\<rparr>)"
  by (auto simp: failing_def held_def budget_def)

lemma failing_obj:
  assumes "failing i w s u" "obj s i = Some t"
  obtains t' where "obj u i = Some t'" "t_workflow t' = t_workflow t"
  using assms eases_kept [of "{}" s u i t] by (auto simp: failing_def same_task_def)

lemma give_up_fails_well:
  assumes ok: "place_ok s" and t: "obj s i = Some t" and free: "parked s i = 0" and u: "failing i (t_workflow t) s u"
  shows "fails_well i (t_workflow t) s (give_up now ts i e dg rep u)"
proof -
  let ?v = "give_up now ts i e dg rep u"
  have e: "eases s u" using u by (simp add: failing_def)
  obtain t' where t': "obj u i = Some t'" "t_workflow t' = t_workflow t" using failing_obj [OF u t] .
  have g: "eases u ?v" "wfs ?v = ddel (t_workflow t) (wfs s)" "stopped ?v = stopped u" "\<And>x. budget ?v x = budget u x"
    using give_up_facts [OF place_eases [OF ok e] t'(1), of now ts e dg rep] t'(2) u by (auto simp: failing_def)
  have v: "eases s ?v" by (rule eases_eases [OF e g(1)])
  have p: "parked ?v i = 0" using easesD(2) [OF v, of i] free by simp
  obtain t'' where t'': "obj ?v i = Some t''" "t_workflow t'' = t_workflow t"
    using eases_kept [OF v t] by (auto simp: same_task_def)
  have r: "\<not> runs ?v i" using t'' by (simp add: runs_iff g(2))
  have "stop_ok ?v" if "stop_ok s" using that u by (auto simp: stop_ok_def g failing_def)
  moreover have "eases_but {i} s ?v" using eases_trans [OF v eases_refl [of "{i}"]] by simp
  ultimately show ?thesis using settledI [OF r _ t''(1)] p r u by (auto simp: fails_well_def g failing_def)
qed

lemma retry_fails_well:
  assumes ok: "place_ok s" and t: "obj s i = Some t" and free: "parked s i = 0" and u: "failing i (t_workflow t) s u"
    and b: "budget u i = budget s i" "t_attempt t \<le> t_max_retries t" and st: "t_workflow t \<notin> stopped u"
    and v: "eases_but {i} u v" "settled v i" "\<not> runs v i" "stopped v = stopped u" "wfs v = wfs u" "\<And>x. budget v x = budget u x"
  shows "fails_well i (t_workflow t) s v"
proof -
  have "eases_but {i} s v" using eases_trans [of "{}" s u "{i}" v] u v(1) by (simp add: failing_def)
  moreover have "stop_ok v" if "stop_ok s"
    unfolding stop_ok_def
  proof (intro conjI ballI)
    show "dict_ok (wfs v)" using that u v(5) by (simp add: stop_ok_def failing_def)
    fix x assume "x \<in> stopped v"
    then have "x \<in> stopped s" using st u v(4) by (auto simp: failing_def)
    with that show "map_of (wfs v) x = None" using u v(5) by (simp add: stop_ok_def failing_def)
  qed
  ultimately show ?thesis using u b v t by (auto simp: fails_well_def failing_def)
qed

lemma submit_recovery_facts:
  assumes a: "submit_recovery i t e rep s = Inr s'" and t: "obj s i = Some t" and free: "parked s i = 0"
  shows "eases_but {i} s s' \<and> settled s' i \<and> \<not> runs s' i \<and> stopped s' = stopped s \<and> wfs s' = wfs s
    \<and> (\<forall>x. budget s' x = budget s x)"
proof -
  let ?u = "upd_obj i (\<lambda>t. t\<lparr>t_status := ''recovering''\<rparr>) s"
    and ?p = "\<lparr>pr_task = i, pr_identity = (t_attempt t, t_dispatch t, t_lease t), pr_error = e, pr_repair = rep\<rparr>"
  have s': "s' = ?u\<lparr>recovering := recovering s @ [?p]\<rparr>"
    using a by (auto simp: submit_recovery_def split: if_splits)
  have p: "parked s' x = parked s x + (if x = i then 1 else 0)" for x by (simp add: s' parked_def)
  have h: "held s' = held s \<union> set_option (t_lease t)" by (auto simp: s' held_def)
  have tk: "task_ok (t\<lparr>t_status := ''recovering''\<rparr>) = task_ok t" by (rule task_ok_cong) simp_all
  have "eases_but {i} s s' \<and> \<not> runs s' i"
  proof (rule eases_move [OF t])
    show "obj s' x = (if x = i then Some (t\<lparr>t_status := ''recovering''\<rparr>) else obj s x)" for x by (simp add: s' t)
    show "k \<in> held s'" if "t_lease t = Some k" for k using that by (simp add: h)
  qed (use tk p in \<open>simp_all add: s' h [unfolded s']\<close>)
  moreover have "budget s' x = budget s x" for x
  proof -
    have "budget s' x = budget ?u x" by (rule budget_objs) (simp add: s')
    also have "\<dots> = budget s x" by (rule budget_upd [OF t]) simp_all
    finally show ?thesis .
  qed
  ultimately show ?thesis using settledI [of s' i "t\<lparr>t_status := ''recovering''\<rparr>"] p free by (simp add: s' t)
qed

lemma fail_without_retry_fails_well:
  assumes f: "fail_without_retry now ts i e metrics u = Inr s'" and ok: "place_ok s" and t: "obj s i = Some t"
    and free: "parked s i = 0" and u: "failing i (t_workflow t) s u"
  shows "fails_well i (t_workflow t) s s'"
proof -
  obtain e1 u1 t1 where p: "fail_prefix ts i e metrics u = Inr (e1, u1)" "obj u1 i = Some t1"
      "s' = give_up now ts i e1 (diagnose_failure e1 t1) None u1"
    using f by (auto simp: fail_without_retry_def split: option.splits)
  obtain t' where t': "obj u i = Some t'" "t_workflow t' = t_workflow t" using failing_obj [OF u t] .
  have "place_ok u" using place_eases [OF ok] u by (simp add: failing_def)
  then have "failing i (t_workflow t) u u1" using failing_prefix [OF p(1) _ t'(1)] t'(2) by simp
  with u have "failing i (t_workflow t) s u1" by (rule failing_trans)
  then show ?thesis unfolding p(3) by (rule give_up_fails_well [OF ok t free])
qed

text \<open>The decision itself, from the state in which the failed attempt is recorded.\<close>

lemma retry_or_fail_cases:
  assumes "retry_or_fail now ts inst i e metrics s = Inr s'" "obj s i \<noteq> None"
  obtains e1 s1 t where "fail_prefix ts i e metrics s = Inr (e1, s1)" "obj s1 i = Some t"
    and "\<exists>dg rep. s' = give_up now ts i e1 dg rep s1"
  | e1 s1 t t1 rep where "fail_prefix ts i e metrics s = Inr (e1, s1)" "obj s1 i = Some t" "repaired t t1"
    and "\<exists>dg. s' = give_up now ts i e1 dg (Some rep) (upd_obj i (\<lambda>_. t1) s1)"
  | e1 s1 t t1 rep s3 where "fail_prefix ts i e metrics s = Inr (e1, s1)" "obj s1 i = Some t" "repaired t t1"
    and "t_attempt t \<le> t_max_retries t"
    and "s3 = (upd_obj i (\<lambda>_. t1) s1)\<lparr>stopped := stopped s1 - {t_workflow t}\<rparr>"
    and "(\<exists>rep1. submit_recovery i t1 e1 rep1 s3 = Inr s')
       \<or> (\<exists>e2. fail_without_retry now ts i e2 VNone (upd_obj i (\<lambda>t. t\<lparr>t_max_retries := 0\<rparr>) s3) = Inr s')
       \<or> (\<exists>e3 dg. announce_retry now ts i e3 dg rep t1 (s3\<lparr>mgr := fst (release_lease now (t_lease t1) (mgr s3))\<rparr>) = Inr s')"
proof -
  obtain e1 s1 where p: "fail_prefix ts i e metrics s = Inr (e1, s1)"
    using assms(1) by (auto simp: retry_or_fail_def)
  obtain t where t: "obj s1 i = Some t"
    using assms(1) p by (auto simp: retry_or_fail_def split: option.splits)
  let ?dg = "diagnose_failure e1 t"
  show ?thesis
  proof (cases "should_retry e1 t \<and> dg_recoverable ?dg")
    case False
    then have "s' = give_up now ts i e1 ?dg None s1" using assms(1) p t by (auto simp: retry_or_fail_def Let_def)
    with p t that(1) show ?thesis by blast
  next
    case True
    then have b: "t_attempt t \<le> t_max_retries t" by (simp add: should_retry_def)
    obtain t1 rep where r: "apply_repair_action t e1 ?dg = Inr (t1, rep)"
      using assms(1) p t True by (auto simp: retry_or_fail_def Let_def)
    note rp = repair_repaired [OF r]
    show ?thesis
    proof (cases "truthy (vget rep ''applied'')")
      case False
      then have "s' = give_up now ts i e1 ?dg (Some rep) (upd_obj i (\<lambda>_. t1) s1)"
        using assms(1) p t True r by (auto simp: retry_or_fail_def Let_def)
      with p t rp that(2) show ?thesis by blast
    next
      case applied: True
      define s3 where "s3 = (upd_obj i (\<lambda>_. t1) s1)\<lparr>stopped := stopped s1 - {t_workflow t}\<rparr>"
      have "(\<exists>rep1. submit_recovery i t1 e1 rep1 s3 = Inr s')
         \<or> (\<exists>e2. fail_without_retry now ts i e2 VNone (upd_obj i (\<lambda>t. t\<lparr>t_max_retries := 0\<rparr>) s3) = Inr s')
         \<or> (\<exists>e3 dg. announce_retry now ts i e3 dg rep t1 (s3\<lparr>mgr := fst (release_lease now (t_lease t1) (mgr s3))\<rparr>) = Inr s')"
        using assms(1) p t True r applied unfolding s3_def
        by (auto simp: retry_or_fail_def Let_def split: if_splits sum.splits)
      with p t rp b s3_def that(3) show ?thesis by blast
    qed
  qed
qed

lemma like_repaired: "obj s i = Some t \<Longrightarrow> repaired t t1 \<Longrightarrow> like s i t t1"
  using repaired_same [of t t1] by (intro like_upd_simple) simp_all

lemma eases_release_lease: "eases s (s\<lparr>mgr := fst (release_lease now k (mgr s))\<rparr>)"
  by (rule eases_frame) (simp_all add: parked_def held_def release_lease_ok task_leases_release)

lemma retry_or_fail_fails_well:
  assumes f: "retry_or_fail now ts inst i e metrics s = Inr s'" and ok: "place_ok s" and t: "obj s i = Some t"
    and free: "parked s i = 0"
  shows "fails_well i (t_workflow t) s s'"
proof -
  have t0: "obj s i \<noteq> None" using t by simp
  show ?thesis
  proof (rule retry_or_fail_cases [OF f t0])
    fix e1 s1 x
    assume p: "fail_prefix ts i e metrics s = Inr (e1, s1)" and "\<exists>dg rep. s' = give_up now ts i e1 dg rep s1"
    then show ?thesis using give_up_fails_well [OF ok t free] failing_prefix [OF p ok t] by blast
  next
    fix e1 s1 x t1 rep
    assume p: "fail_prefix ts i e metrics s = Inr (e1, s1)" and x: "obj s1 i = Some x" "repaired x t1"
      and g: "\<exists>dg. s' = give_up now ts i e1 dg (Some rep) (upd_obj i (\<lambda>_. t1) s1)"
    have "failing i (t_workflow t) s1 (upd_obj i (\<lambda>_. t1) s1)" by (rule failing_upd [OF x(1) like_repaired [OF x]])
    with failing_prefix [OF p ok t] failing_trans have "failing i (t_workflow t) s (upd_obj i (\<lambda>_. t1) s1)" by blast
    with g show ?thesis using give_up_fails_well [OF ok t free] by blast
  next
    fix e1 s1 x t1 rep s3
    assume p: "fail_prefix ts i e metrics s = Inr (e1, s1)" and x: "obj s1 i = Some x" "repaired x t1"
      and b: "t_attempt x \<le> t_max_retries x"
      and s3: "s3 = (upd_obj i (\<lambda>_. t1) s1)\<lparr>stopped := stopped s1 - {t_workflow x}\<rparr>"
      and c: "(\<exists>rep1. submit_recovery i t1 e1 rep1 s3 = Inr s')
       \<or> (\<exists>e2. fail_without_retry now ts i e2 VNone (upd_obj i (\<lambda>t. t\<lparr>t_max_retries := 0\<rparr>) s3) = Inr s')
       \<or> (\<exists>e3 dg. announce_retry now ts i e3 dg rep t1 (s3\<lparr>mgr := fst (release_lease now (t_lease t1) (mgr s3))\<rparr>) = Inr s')"
    let ?w = "t_workflow t"
    have f1: "failing i ?w s s1" "budget s1 i = budget s i" using failing_prefix [OF p ok t] by auto
    have w: "t_workflow x = ?w" using failing_obj [OF f1(1) t] x(1) by auto
    have "failing i ?w s1 (upd_obj i (\<lambda>_. t1) s1)" by (rule failing_upd [OF x(1) like_repaired [OF x]])
    moreover have "failing i ?w (upd_obj i (\<lambda>_. t1) s1) s3"
      using failing_unstop [of i ?w "upd_obj i (\<lambda>_. t1) s1"] by (simp add: s3 w)
    ultimately have f3: "failing i ?w s s3" using f1(1) failing_trans by blast
    have o3: "obj s3 i = Some t1" using x(1) by (simp add: s3)
    have ok3: "place_ok s3" and free3: "parked s3 i = 0"
      using place_eases [OF ok] easesD(2) [of "{}" s s3 i] f3 free by (auto simp: failing_def)
    have "budget s3 i = budget s1 i" using x repaired_same [OF x(2)] by (simp add: budget_def s3)
    with f1(2) have b3: "budget s3 i = budget s i" by simp
    have "t_attempt t \<le> t_max_retries t" using b f1(2) x(1) t by (simp add: budget_def)
    note finish = retry_fails_well [OF ok t free f3 b3 this]
    have st: "?w \<notin> stopped s3" by (simp add: s3 w)
    from c consider rep1 where "submit_recovery i t1 e1 rep1 s3 = Inr s'"
      | e2 where "fail_without_retry now ts i e2 VNone (upd_obj i (\<lambda>t. t\<lparr>t_max_retries := 0\<rparr>) s3) = Inr s'"
      | e3 dg where "announce_retry now ts i e3 dg rep t1 (s3\<lparr>mgr := fst (release_lease now (t_lease t1) (mgr s3))\<rparr>) = Inr s'"
      by blast
    then show ?thesis
    proof cases
      case 1
      from submit_recovery_facts [OF this o3 free3] show ?thesis by (intro finish st) auto
    next
      case 2
      have "failing i ?w s3 (upd_obj i (\<lambda>t. t\<lparr>t_max_retries := 0\<rparr>) s3)"
        by (rule failing_upd [OF o3]) (rule like_upd_simple [OF o3], simp_all)
      with f3 failing_trans have "failing i ?w s (upd_obj i (\<lambda>t. t\<lparr>t_max_retries := 0\<rparr>) s3)" by blast
      then show ?thesis by (rule fail_without_retry_fails_well [OF 2 ok t free])
    next
      case 3
      let ?u = "s3\<lparr>mgr := fst (release_lease now (t_lease t1) (mgr s3))\<rparr>"
      have e: "eases s3 ?u" by (rule eases_release_lease)
      have a: "eases_but {i} ?u s'" "settled s' i" "\<not> runs s' i" "stopped s' = stopped s3" "wfs s' = wfs s3" "\<And>x. budget s' x = budget s3 x"
        using announce_retry_facts [OF 3] o3 free3 by (auto simp: parked_def task_leases_release budget_def)
      with a eases_trans [OF e a(1)] show ?thesis by (intro finish st) auto
    qed
  qed
qed

section \<open>The whole invariant\<close>

definition budget_ok :: "sched \<Rightarrow> bool" where
  "budget_ok s =
     (\<forall>i t. obj s i = Some t \<longrightarrow>
        (0 < parked s i \<longrightarrow> t_attempt t \<le> t_max_retries t) \<and> (runs s i \<longrightarrow> t_attempt t \<le> t_max_retries t + 1))"

definition sched_ok :: "sched \<Rightarrow> bool" where
  "sched_ok s = (core_ok s \<and> stop_ok s \<and> budget_ok s)"

lemma sched_okD:
  assumes "sched_ok s"
  shows "place_ok s" "manager_ok (mgr s)" "stop_ok s" "core_ok s" "budget_ok s"
  using assms by (simp_all add: sched_ok_def core_ok_def)

lemma budgetD: "budget s' x = budget s x \<Longrightarrow> obj s x = Some t \<Longrightarrow> obj s' x = Some t' \<Longrightarrow>
  t_attempt t' = t_attempt t \<and> t_max_retries t' = t_max_retries t"
  by (simp add: budget_def)

lemma sched_ok_but:
  assumes ok: "sched_ok s" and e: "eases_but {i} s s'" and st: "settled s' i" and r: "\<not> runs s' i" and so: "stop_ok s'"
    and b: "\<And>x. x \<noteq> i \<Longrightarrow> budget s' x = budget s x"
    and bi: "\<And>t. obj s' i = Some t \<Longrightarrow> 0 < parked s' i \<Longrightarrow> t_attempt t \<le> t_max_retries t"
  shows "sched_ok s'"
proof -
  have "core_ok s'" using core_eases_but [OF _ e] ok st by (simp add: sched_ok_def)
  moreover have "budget_ok s'"
    unfolding budget_ok_def
  proof (intro allI impI)
    fix x t'
    assume t': "obj s' x = Some t'"
    show "(0 < parked s' x \<longrightarrow> t_attempt t' \<le> t_max_retries t') \<and> (runs s' x \<longrightarrow> t_attempt t' \<le> t_max_retries t' + 1)"
    proof (cases "x = i")
      case True
      with t' bi r show ?thesis by simp
    next
      case False
      obtain t where t: "obj s x = Some t" using eases_obj [OF e t'] by blast
      have "parked s' x \<le> parked s x" "runs s' x \<Longrightarrow> runs s x"
        using easesD(2) [OF e, of x] easesD(3) [OF e] False by auto
      then show ?thesis using ok t budgetD [OF b [OF False] t t'] by (simp add: sched_ok_def budget_ok_def)
    qed
  qed
  ultimately show ?thesis using so by (simp add: sched_ok_def)
qed

lemma sched_ok_eases:
  assumes ok: "sched_ok s" and e: "eases s s'" and so: "stop_ok s'" and b: "\<And>x. budget s' x = budget s x"
  shows "sched_ok s'"
proof -
  have "core_ok s'" using core_eases [OF _ e] ok by (simp add: sched_ok_def)
  moreover have "budget_ok s'"
    unfolding budget_ok_def
  proof (intro allI impI)
    fix x t'
    assume t': "obj s' x = Some t'"
    obtain t where t: "obj s x = Some t" using eases_obj [OF e t'] by blast
    have "parked s' x \<le> parked s x" "runs s' x \<Longrightarrow> runs s x" using easesD(2) [OF e, of x] easesD(3) [OF e] by auto
    then show "(0 < parked s' x \<longrightarrow> t_attempt t' \<le> t_max_retries t') \<and> (runs s' x \<longrightarrow> t_attempt t' \<le> t_max_retries t' + 1)"
      using ok t budgetD [OF b t t'] by (simp add: sched_ok_def budget_ok_def)
  qed
  ultimately show ?thesis using so by (simp add: sched_ok_def)
qed

lemma sched_ok_fails:
  assumes ok: "sched_ok s" and f: "fails_well i w s s'"
  shows "sched_ok s'"
proof (rule sched_ok_but [OF ok])
  fix t' assume t': "obj s' i = Some t'" "0 < parked s' i"
  have "eases_but {i} s s'" using f by (simp add: fails_well_def)
  from eases_obj [OF this t'(1)] obtain t where t: "obj s i = Some t" by blast
  then show "t_attempt t' \<le> t_max_retries t'"
    using f budgetD [OF _ t t'(1)] t'(2) by (simp add: fails_well_def)
qed (use f ok in \<open>auto simp: fails_well_def sched_ok_def\<close>)

lemma stop_ok_frame: "stop_ok s \<Longrightarrow> wfs s' = wfs s \<Longrightarrow> stopped s' = stopped s \<Longrightarrow> stop_ok s'"
  by (simp add: stop_ok_def)

text \<open>A failed attempt of a task whose workflow is not stopped.\<close>

lemma retry_or_fail_ok:
  assumes "retry_or_fail now ts inst i e metrics s = Inr s'" "sched_ok s" "obj s i = Some t" "parked s i = 0"
  shows "sched_ok s' \<and> (t_workflow t \<notin> stopped s \<longrightarrow> stopped s \<subseteq> stopped s')"
proof -
  have f: "fails_well i (t_workflow t) s s'" by (rule retry_or_fail_fails_well) (use assms sched_okD in auto)
  with sched_ok_fails [OF assms(2) f] show ?thesis by (auto simp: fails_well_def)
qed

lemma runs_free: "sched_ok s \<Longrightarrow> runs s i \<Longrightarrow> parked s i = 0"
  using parked_not_runs [of s i] sched_okD by blast

lemma runs_live: "sched_ok s \<Longrightarrow> runs s i \<Longrightarrow> obj s i = Some t \<Longrightarrow> t_workflow t \<notin> stopped s"
  using sched_okD(3) by (auto simp: stop_ok_def runs_iff)

lemma task_failed_ok:
  assumes "task_failed now ts inst i e metrics s = Inr s'" "sched_ok s"
  shows "sched_ok s' \<and> stopped s \<subseteq> stopped s'"
proof (cases "runs s i")
  case True
  obtain t where t: "obj s i = Some t" using runs_obj [OF True] by blast
  show ?thesis
    using assms True retry_or_fail_ok [OF _ assms(2) t runs_free [OF assms(2) True]] runs_live [OF assms(2) True t]
    by (simp add: task_failed_def)
qed (use assms in \<open>simp add: task_failed_def\<close>)

section \<open>Stopping, clearing, managing\<close>

lemma stop_workflow_ok: "sched_ok s \<Longrightarrow> sched_ok (stop_workflow now w s) \<and> stopped s \<subseteq> stopped (stop_workflow now w s)"
proof -
  assume ok: "sched_ok s"
  let ?u = "s\<lparr>stopped := insert w (stopped s)\<rparr>" and ?v = "stop_workflow now w s"
  have e: "eases s ?u" by (rule eases_stopped)
  have v: "eases s ?v" unfolding stop_workflow_def
    by (rule eases_eases [OF e abandon_eases]) (rule place_eases [OF sched_okD(1) [OF ok] e])
  have "sched_ok ?v"
  proof (rule sched_ok_eases [OF ok v])
    show "stop_ok ?v" using sched_okD(3) [OF ok] by (auto simp: stop_workflow_def stop_ok_def)
    show "budget ?v x = budget s x" for x
      unfolding stop_workflow_def by (rule budget_ident) (rule trans [OF ident_abandon ident_objs], simp)
  qed
  then show ?thesis by (auto simp: stop_workflow_def)
qed

lemma clear_workflow_ok:
  assumes ok: "sched_ok s" and none: "running_in w s = []"
  shows "sched_ok (clear_workflow w s) \<and> stopped s \<subseteq> stopped (clear_workflow w s)"
proof -
  let ?u = "remove_model_waiters w s" and ?v = "clear_workflow w s"
  have w: "wfs ?v = ddel w (wfs s)" and o: "objs ?v = objs s"
    by (simp_all add: clear_workflow_def release_dag_context_def)
  have r: "runs ?v i \<longleftrightarrow> runs s i" for i
  proof
    assume "runs s i"
    then obtain t ts where t: "obj s i = Some t" "t_status t = ''running''"
        "map_of (wfs s) (t_workflow t) = Some ts" "map_of ts (t_id t) = Some i" by (auto simp: runs_iff)
    then have "i \<in> set (running_in (t_workflow t) s)" using running_in_iff by blast
    with none have "t_workflow t \<noteq> w" by auto
    with t show "runs ?v i" by (auto simp: runs_iff w o)
  qed (auto simp: runs_iff w o split: if_splits)
  have p: "parked ?v i \<le> parked s i" for i
    using easesD(2) [OF remove_waiters_eases, of i w "s\<lparr>stopped := insert w (stopped s)\<rparr>"]
    by (simp add: parked_def clear_workflow_def release_dag_context_def)
  have v: "eases s ?v"
    unfolding eases_but_def
  proof (intro conjI allI impI)
    fix i t' show "obj ?v i = Some t' \<Longrightarrow> \<exists>t. obj s i = Some t \<and> same_task ?v i t t'"
      using o by (simp add: same_task_def)
  qed (use o r p release_context_manager_ok in
      \<open>auto simp: clear_workflow_def release_dag_context_def held_def split: if_splits\<close>)
  have "sched_ok ?v"
  proof (rule sched_ok_eases [OF ok v])
    show "stop_ok ?v" using sched_okD(3) [OF ok]
      by (auto simp: clear_workflow_def release_dag_context_def stop_ok_def)
  qed (simp add: budget_def o)
  then show ?thesis by (auto simp: clear_workflow_def release_dag_context_def)
qed

lemma manage_ok:
  assumes ok: "sched_ok s" and m: "manager_step (mgr s) m" "task_leases m \<subseteq> task_leases (mgr s)"
  shows "sched_ok (s\<lparr>mgr := m\<rparr>)"
proof (rule sched_ok_eases [OF ok])
  show "eases s (s\<lparr>mgr := m\<rparr>)"
    by (rule eases_frame) (use m manager_step_ok in \<open>auto simp: parked_def held_def\<close>)
qed (use sched_okD(3) [OF ok] in \<open>auto simp: budget_def stop_ok_def\<close>)

section \<open>Sending a message\<close>

lemma requeues_remove:
  assumes "k < length box" "box ! k = (m, a)"
  shows "count_list (requeues (take k box @ drop (Suc k) box)) i + (if a = Requeue i then 1 else 0) = count_list (requeues box) i"
proof -
  have "requeues box = requeues (take k box) @ requeues [(m, a)] @ requeues (drop (Suc k) box)"
    using id_take_nth_drop [OF assms(1)] assms(2) by (metis append_Cons append_Nil requeues_append)
  then show ?thesis by (cases a) (simp_all add: requeues_def)
qed

lemma parked_le_1: "place_ok s \<Longrightarrow> parked s i \<le> 1"
  unfolding place_ok_def by (metis add_leD1)

lemma flush_message_ok:
  assumes ok: "sched_ok s"
  shows "sched_ok (flush_message k s) \<and> stopped (flush_message k s) = stopped s"
proof (cases "k < length (outbox s)")
  case True
  obtain m a where ma: "outbox s ! k = (m, a)" by (cases "outbox s ! k")
  define u where "u = s\<lparr>outbox := take k (outbox s) @ drop (Suc k) (outbox s), sent := sent s @ [m]\<rparr>"
  note cnt = requeues_remove [OF True ma]
  have pu: "parked u i + (if a = Requeue i then 1 else 0) = parked s i" for i
    using cnt [of i] by (simp add: parked_def u_def)
  have eu: "eases s u"
  proof (rule eases_frame)
    show "parked u i \<le> parked s i" for i using pu [of i] by (simp split: if_splits)
  qed (simp_all add: u_def held_def)
  have uo: "sched_ok u"
    by (rule sched_ok_eases [OF ok eu]) (use sched_okD(3) [OF ok] in \<open>simp_all add: u_def stop_ok_def budget_def\<close>)
  show ?thesis
  proof (cases a)
    case No_call
    then have "flush_message k s = u" using True ma by (simp add: flush_message_def u_def)
    with uo show ?thesis by (simp add: u_def)
  next
    case (Publish i)
    let ?f = "\<lambda>t. t\<lparr>t_published := True\<rparr>"
    have f: "flush_message k s = upd_obj i ?f u" using True ma Publish by (simp add: flush_message_def u_def)
    have "sched_ok (upd_obj i ?f u)"
    proof (rule sched_ok_eases [OF uo])
      show "eases u (upd_obj i ?f u)" by (rule eases_upd) (rule like_upd_simple, auto)
      show "budget (upd_obj i ?f u) x = budget u x" for x by (simp add: budget_def option.map_comp comp_def)
    qed (use sched_okD(3) [OF uo] in \<open>simp add: stop_ok_def\<close>)
    then show ?thesis by (simp add: f) (simp add: u_def)
  next
    case (Requeue i)
    define v where "v = (upd_obj i clear_attempt_identity u)\<lparr>queue := queue u @ [i]\<rparr>"
    have f: "flush_message k s = v" using True ma Requeue by (simp add: flush_message_def u_def v_def)
    have ps: "0 < parked s i" using pu [of i] Requeue by simp
    then obtain t where t: "obj s i = Some t" using sched_okD(1) [OF ok] by (auto simp: place_ok_def)
    have pi: "parked s i \<le> 1" "\<not> runs s i"
      using parked_not_runs [OF sched_okD(1) [OF ok] ps] parked_le_1 [OF sched_okD(1) [OF ok]] by auto
    have tu: "obj u i = Some t" using t by (simp add: u_def)
    have ru: "\<not> runs u i" using pi(2) by (simp add: runs_iff u_def)
    have pv: "parked v x = parked u x + (if x = i then 1 else 0)" for x by (simp add: v_def parked_def)
    have tk: "task_ok (clear_attempt_identity t) = task_ok t" by (rule task_ok_cong) (simp_all add: clear_attempt_identity_def)
    have rv: "\<not> runs v i" using ru tu by (auto simp: runs_iff v_def clear_attempt_identity_def)
    have ev: "eases_but {i} u v"
    proof (rule eases_idle [OF tu])
      show "obj v x = (if x = i then Some (clear_attempt_identity t) else obj u x)" for x by (simp add: v_def tu)
    qed (use rv ru pv tk in \<open>simp_all add: held_def v_def clear_attempt_identity_def\<close>)
    have "sched_ok v"
    proof (rule sched_ok_but [OF uo ev])
      show "settled v i" using pv [of i] pu [of i] pi rv tu Requeue by (intro settledI [where t = "clear_attempt_identity t"]) (auto simp: v_def)
      show "stop_ok v" using sched_okD(3) [OF uo] by (simp add: stop_ok_def v_def)
      show "budget v x = budget u x" for x by (simp add: v_def budget_def clear_attempt_identity_def option.map_comp comp_def)
      fix t' assume "obj v i = Some t'"
      then show "t_attempt t' \<le> t_max_retries t'"
        using ps t tu sched_okD(5) [OF ok] by (auto simp: v_def budget_ok_def clear_attempt_identity_def)
    qed (rule rv)
    then show ?thesis by (simp add: f) (simp add: v_def u_def)
  qed
qed (use ok in \<open>simp add: flush_message_def\<close>)

section \<open>A finished task\<close>

lemma task_finished_ok:
  assumes ok: "sched_ok s"
  shows "sched_ok (task_finished now ts i result manifest s) \<and> stopped (task_finished now ts i result manifest s) = stopped s"
proof (cases "runs s i")
  case True
  obtain t where t: "obj s i = Some t" using runs_obj [OF True] by blast
  define s1 where "s1 = upd_obj i (\<lambda>t. t\<lparr>t_manifest := manifest\<rparr>) s"
  define s2 where "s2 = release_model_route i s1"
  define f :: "rtask \<Rightarrow> rtask" where "f = (\<lambda>t. t\<lparr>t_result := result, t_status := ''finished''\<rparr>)"
  define s5 where "s5 = upd_obj i (record_success ts) (release_leases now [i] (upd_obj i f s2))"
  have e1: "eases s s1" unfolding s1_def by (rule eases_upd) (rule like_upd_simple, auto)
  have e2: "eases s s2" unfolding s2_def
    by (rule eases_eases [OF e1 release_route_eases [OF place_eases [OF sched_okD(1) [OF ok] e1]]])
  have b2: "budget s2 x = budget s x" for x
    unfolding s2_def s1_def by (rule budget_ident) (simp add: ident_upd)
  have ok2: "sched_ok s2"
    by (rule sched_ok_eases [OF ok e2 _ b2]) (use sched_okD(3) [OF ok] in \<open>simp add: s2_def s1_def stop_ok_def\<close>)
  obtain t2 where t2: "obj s2 i = Some t2" using eases_kept [OF e2 t] by blast
  have p2: "parked s2 i = 0" using easesD(2) [OF e2, of i] runs_free [OF ok True] by simp
  let ?t5 = "record_success ts (f t2)"
  have o5: "obj s5 x = (if x = i then Some ?t5 else obj s2 x)" for x
    using t2 by (simp add: s5_def release_leases_def)
  have l5: "task_leases (mgr s5) = {x \<in> task_leases (mgr s2). t_lease t2 \<noteq> Some (fst x)}"
    by (simp add: s5_def release_leases_def task_leases_releases lease_of_def t2 f_def) (auto dest: sym)
  have same: "t_workflow ?t5 = t_workflow t2" "t_id ?t5 = t_id t2" "t_status ?t5 \<noteq> ''running''" "t_internal ?t5 = t_internal t2"
      "t_attempt ?t5 = t_attempt t2" "t_max_retries ?t5 = t_max_retries t2"
    by (simp_all add: f_def record_success_def Let_def)
  have tk: "task_ok ?t5" if "task_ok t2"
    using that record_success_ok [of "f t2" ts] internal_ok_cong [OF same(4)] by (simp add: task_ok_def f_def)
  have p5: "parked s5 x = parked s2 x" for x by (simp add: s5_def release_leases_def parked_def)
  have e5: "eases_but {i} s2 s5 \<and> \<not> runs s5 i"
    by (rule eases_move [OF t2 o5])
      (use same tk p5 l5 release_task_resource_ok in \<open>auto simp: s5_def release_leases_def held_def\<close>)
  have ok5: "sched_ok s5"
  proof (rule sched_ok_but [OF ok2])
    show "eases_but {i} s2 s5" "\<not> runs s5 i" using e5 by auto
    show "settled s5 i" using p5 p2 e5 o5 by (simp add: settled_def)
    show "stop_ok s5" using sched_okD(3) [OF ok2] by (simp add: s5_def release_leases_def stop_ok_def)
    show "budget s5 x = budget s2 x" if "x \<noteq> i" for x using that o5 by (simp add: budget_def)
  qed (use p5 p2 in simp)
  have eq: "task_finished now ts i result manifest s = post (base_message ''finish_task'' ?t5) No_call s5"
  proof -
    have "task_finished now ts i result manifest s
        = (case obj s5 i of None \<Rightarrow> s5 | Some t \<Rightarrow> post (base_message ''finish_task'' t) No_call s5)"
      by (simp only: task_finished_def s1_def s2_def s5_def f_def Let_def True if_False not_True_eq_False)
    also have "\<dots> = post (base_message ''finish_task'' ?t5) No_call s5" by (simp only: o5 if_True simp_thms option.case)
    finally show ?thesis .
  qed
  have "sched_ok (post (base_message ''finish_task'' ?t5) No_call s5)"
    by (rule sched_ok_eases [OF ok5 eases_post]) (use sched_okD(3) [OF ok5] in \<open>simp_all add: stop_ok_def budget_def\<close>)
  then show ?thesis unfolding eq by (simp add: s5_def release_leases_def s2_def s1_def)
qed (use ok in \<open>simp add: task_finished_def\<close>)

section \<open>A new task\<close>

lemma enqueue_ok:
  assumes ok: "sched_ok s" and t: "task_ok t" "t_status t \<noteq> ''running''" "t_attempt t \<le> t_max_retries t"
  shows "sched_ok (s\<lparr>objs := dput (next_id s) t (objs s), queue := queue s @ [next_id s], next_id := Suc (next_id s)\<rparr>)"
    (is "sched_ok ?v")
proof -
  let ?n = "next_id s"
  have new: "obj s ?n = None" using ok by (cases "obj s ?n") (auto simp: sched_ok_def core_ok_def objs_ok_def)
  have o: "obj ?v x = (if x = ?n then Some t else obj s x)" for x by simp
  have p: "parked ?v x = parked s x + (if x = ?n then 1 else 0)" for x by (simp add: parked_def)
  have pn: "parked s ?n = 0" using sched_okD(1) [OF ok] new by (auto simp: place_ok_def)
  have rn: "\<not> runs s ?n" using runs_obj new by fastforce
  have r: "runs ?v x \<longleftrightarrow> runs s x" for x using rn t(2) by (cases "x = ?n") (auto simp: runs_iff o)
  have "objs_ok ?v" using ok t(1) o by (fastforce simp: sched_ok_def core_ok_def objs_ok_def less_SucI)
  moreover have "place_ok ?v"
    unfolding place_ok_def
  proof
    fix x show "parked ?v x + (if runs ?v x then 1 else 0) \<le> 1 \<and> (0 < parked ?v x \<longrightarrow> obj ?v x \<noteq> None)"
      using sched_okD(1) [OF ok] pn rn by (cases "x = ?n") (auto simp: place_ok_def p r)
  qed
  moreover have "table_ok ?v"
    unfolding table_ok_def
  proof (intro allI impI conjI)
    fix w ts assume w: "map_of (wfs ?v) w = Some ts"
    then show "dict_ok ts" using ok by (simp add: sched_ok_def core_ok_def table_ok_def)
    fix k i assume k: "map_of ts k = Some i"
    have "map_of (wfs s) w = Some ts" using w by simp
    with k ok obtain t' where "obj s i = Some t'" "t_workflow t' = w" "t_id t' = k"
      unfolding sched_ok_def core_ok_def table_ok_def by blast
    with new show "\<exists>t. obj ?v i = Some t \<and> t_workflow t = w \<and> t_id t = k" by (auto simp: o)
  qed
  moreover have "covered ?v"
    unfolding covered_def
  proof (intro allI impI)
    fix k l assume "(k, l) \<in> task_leases (mgr ?v)"
    then consider "k \<in> held s" | i u where "obj s i = Some u" "runs s i" "t_lease u = Some k"
      using ok unfolding sched_ok_def core_ok_def covered_def by auto
    then show "k \<in> held ?v \<or> (\<exists>i t. obj ?v i = Some t \<and> runs ?v i \<and> t_lease t = Some k)"
    proof cases
      case 1 then show ?thesis by (simp add: held_def)
    next
      case 2
      then have "obj ?v i = Some u \<and> runs ?v i \<and> t_lease u = Some k" using new unfolding r o by auto
      then show ?thesis by blast
    qed
  qed
  moreover have "budget_ok ?v"
    unfolding budget_ok_def
  proof (intro allI impI)
    fix x u assume u: "obj ?v x = Some u"
    show "(0 < parked ?v x \<longrightarrow> t_attempt u \<le> t_max_retries u) \<and> (runs ?v x \<longrightarrow> t_attempt u \<le> t_max_retries u + 1)"
      using ok u t(3) rn unfolding r p o by (cases "x = ?n") (auto simp: sched_ok_def budget_ok_def)
  qed
  ultimately show ?thesis using ok by (simp add: sched_ok_def core_ok_def stop_ok_def)
qed

lemma receive_ok:
  assumes r: "receive_run_task now ts shown code q s = Inr s'" and ok: "sched_ok s"
  shows "sched_ok s' \<and> stopped s \<subseteq> stopped s'"
proof (cases "rq_workflow q \<in> stopped s")
  case False
  show ?thesis
  proof (cases "if code then new_rtask q else Inl (ValueError ''Unsupported task_type'')")
    case (Inr t)
    then have t: "new_rtask q = Inr t" by (simp split: if_splits)
    note f = new_rtask_facts [OF t]
    have "task_ok t" using f by (simp add: task_ok_def)
    then show ?thesis using r False Inr f enqueue_ok [OF ok, of t] by (auto simp: receive_run_task_def)
  next
    case (Inl x)
    have st: "sched_ok (terminate_rejected now (rq_workflow q) s)" "stopped s \<subseteq> stopped (terminate_rejected now (rq_workflow q) s)"
      using stop_workflow_ok [OF ok] ok by (auto simp: terminate_rejected_def)
    obtain m where s': "s' = (terminate_rejected now (rq_workflow q) s)\<lparr>sent := sent (terminate_rejected now (rq_workflow q) s) @ [m]\<rparr>"
      using r False Inl by (auto simp: receive_run_task_def Let_def)
    have "sched_ok s'" unfolding s'
      by (rule sched_ok_eases [OF st(1) eases_sent]) (use sched_okD(3) [OF st(1)] in \<open>simp_all add: stop_ok_def budget_def\<close>)
    then show ?thesis using st(2) s' by simp
  qed
qed (use assms in \<open>simp add: receive_run_task_def\<close>)

section \<open>A finished recovery\<close>

lemma count_remove_nth:
  assumes "k < length xs"
  shows "count_list (take k xs @ drop (Suc k) xs) x + (if xs ! k = x then 1 else 0) = count_list xs x"
proof -
  have "count_list xs x = count_list (take k xs @ xs ! k # drop (Suc k) xs) x"
    using id_take_nth_drop [OF assms] by metis
  then show ?thesis by simp
qed

text \<open>The recovery leaves the list: its lease is freed, or is kept for the cleanup that failed.\<close>

lemma recovery_done:
  assumes ok: "sched_ok s0" and k: "k < length (recovering s0)" and p: "p = recovering s0 ! k"
    and s: "s = s0\<lparr>recovering := take k (recovering s0) @ drop (Suc k) (recovering s0)\<rparr>"
    and v: "v = s\<lparr>mgr := fst (release_lease now (snd (snd (pr_identity p))) (mgr s))\<rparr>
      \<or> v = s\<lparr>retained := retained s \<union> set_option (snd (snd (pr_identity p)))\<rparr>"
  shows "sched_ok v \<and> stopped v = stopped s0 \<and> objs v = objs s0 \<and> wfs v = wfs s0 \<and> parked v (pr_task p) = 0
    \<and> (\<forall>t. obj s0 (pr_task p) = Some t \<longrightarrow> t_attempt t \<le> t_max_retries t)"
proof -
  let ?i = "pr_task p" and ?l = "snd (snd (pr_identity p))"
  have cnt: "count_list (map pr_task (recovering s)) x + (if ?i = x then 1 else 0) = count_list (map pr_task (recovering s0)) x" for x
    using count_remove_nth [of k "map pr_task (recovering s0)" x] k by (simp add: s p take_map drop_map)
  have f: "objs v = objs s0" "wfs v = wfs s0" "next_id v = next_id s0" "stopped v = stopped s0" "queue v = queue s0"
      "waiting v = waiting s0" "outbox v = outbox s0" "recovering v = recovering s"
    using v by (auto simp: s)
  have pv: "parked v x + (if ?i = x then 1 else 0) = parked s0 x" for x
    using cnt [of x] by (simp add: parked_def f)
  have rv: "runs v x = runs s0 x" for x by (rule runs_cong [OF f(1,2)])
  have sub: "q = p \<or> q \<in> set (recovering s)" if "q \<in> set (recovering s0)" for q
  proof -
    have rs: "recovering s = take k (recovering s0) @ drop (Suc k) (recovering s0)" by (simp add: s)
    have "set (recovering s0) = set (take k (recovering s0) @ p # drop (Suc k) (recovering s0))"
      unfolding p by (rule arg_cong [OF id_take_nth_drop [OF k]])
    also have "\<dots> = insert p (set (recovering s))" unfolding rs by (simp only: set_append list.set Un_insert_right)
    finally show ?thesis using that by blast
  qed
  have h: "x \<in> held v" if "x \<in> held s0" "(x, l) \<in> task_leases (mgr v)" for x l
    using v
  proof
    assume v: "v = s\<lparr>mgr := fst (release_lease now ?l (mgr s))\<rparr>"
    with that(2) have "?l \<noteq> Some x" by (auto simp: task_leases_release)
    with that(1) sub show ?thesis by (auto simp: held_def v) (auto simp: s)
  next
    assume v: "v = s\<lparr>retained := retained s \<union> set_option ?l\<rparr>"
    with that(1) sub show ?thesis by (auto simp: held_def v) (auto simp: s)
  qed
  have e: "eases s0 v"
    unfolding eases_but_def
  proof (intro conjI allI impI)
    show "x \<in> {} \<or> parked v x \<le> parked s0 x" for x using pv [of x] by (simp split: if_splits)
    show "manager_ok (mgr s0) \<Longrightarrow> manager_ok (mgr v)" using v by (auto simp: s release_lease_ok)
    show "task_leases (mgr v) \<subseteq> task_leases (mgr s0)" using v by (auto simp: s task_leases_release)
  qed (use h in \<open>auto simp: f rv same_task_def\<close>)
  have pos: "0 < parked s0 ?i" using pv [of ?i] by simp
  have "parked v ?i = 0" using pv [of ?i] parked_le_1 [OF sched_okD(1) [OF ok], of ?i] by simp
  moreover have "sched_ok v"
    by (rule sched_ok_eases [OF ok e]) (use sched_okD(3) [OF ok] f in \<open>simp_all add: stop_ok_def budget_def\<close>)
  moreover have "\<forall>t. obj s0 ?i = Some t \<longrightarrow> t_attempt t \<le> t_max_retries t"
    using pos sched_okD(5) [OF ok] by (simp add: budget_ok_def)
  ultimately show ?thesis by (simp add: f)
qed

lemma finish_recovery_ok:
  assumes r: "finish_recovery now ts k failure s0 = Inr s'" and ok: "sched_ok s0"
  shows "sched_ok s' \<and> stopped s0 \<subseteq> stopped s'"
proof (cases "k < length (recovering s0)")
  case True
  define p where "p = recovering s0 ! k"
  define s where "s = s0\<lparr>recovering := take k (recovering s0) @ drop (Suc k) (recovering s0)\<rparr>"
  define freed where "freed = s\<lparr>mgr := fst (release_lease now (snd (snd (pr_identity p))) (mgr s))\<rparr>"
  define kept where "kept = s\<lparr>retained := retained s \<union> set_option (snd (snd (pr_identity p)))\<rparr>"
  let ?i = "pr_task p"
  note F = recovery_done [OF ok True p_def s_def disjI1 [OF freed_def]]
  note K = recovery_done [OF ok True p_def s_def disjI2 [OF kept_def]]
  have so: "objs s = objs s0" "wfs s = wfs s0" "stopped s = stopped s0" by (simp_all add: s_def)
  have live: "t_workflow t \<notin> stopped s0" if "recovery_valid s p" "obj s0 ?i = Some t" for t
    using that sched_okD(3) [OF ok] by (auto simp: recovery_valid_def registered_def stop_ok_def so split: option.splits)
  show ?thesis
  proof (cases failure)
    case (Some x)
    show ?thesis
    proof (cases "recovery_valid s p")
      case False
      then have "s' = kept" using r True Some
        by (simp add: finish_recovery_def p_def [symmetric] s_def [symmetric] kept_def [symmetric] Let_def)
      with K show ?thesis by simp
    next
      case v: True
      obtain t where t: "obj s0 ?i = Some t" using v by (auto simp: recovery_valid_def so split: option.splits)
      obtain e u where u: "u = freed \<or> u = kept" "retry_or_fail now ts (Inr False) ?i e VNone u = Inr s'"
        using r True Some v
        by (auto simp: finish_recovery_def p_def [symmetric] s_def [symmetric] kept_def [symmetric] freed_def [symmetric]
              Let_def split: if_splits)
      have "sched_ok u" "objs u = objs s0" "parked u ?i = 0" "stopped u = stopped s0" using u(1) F K by auto
      with retry_or_fail_ok [OF u(2), of t] t live [OF v t] show ?thesis by simp
    qed
  next
    case None
    show ?thesis
    proof (cases "obj s0 ?i = None \<or> \<not> recovery_valid s p \<or> (\<exists>t. obj s0 ?i = Some t \<and> t_workflow t \<in> stopped s0)")
      case True
      with r \<open>k < length (recovering s0)\<close> None F have "s' = freed"
        by (auto simp: finish_recovery_def p_def [symmetric] s_def [symmetric] freed_def [symmetric] Let_def so split: option.splits)
      with F show ?thesis by simp
    next
      case False
      then obtain t where t: "obj s0 ?i = Some t" and v: "recovery_valid s p" "t_workflow t \<notin> stopped s0" by auto
      let ?t1 = "adjust_task (pr_repair p) t" and ?u = "upd_obj ?i (\<lambda>_. adjust_task (pr_repair p) t) freed"
      have tf: "obj freed ?i = Some t" using t F by simp
      obtain e dg where a: "announce_retry now ts ?i e dg (pr_repair p) ?t1 ?u = Inr s'"
        using r \<open>k < length (recovering s0)\<close> None t v F tf
        by (auto simp: finish_recovery_def p_def [symmetric] s_def [symmetric] freed_def [symmetric] Let_def so)
      have same: "t_workflow ?t1 = t_workflow t" "t_id ?t1 = t_id t" "t_lease ?t1 = t_lease t" "t_status ?t1 = t_status t"
          "t_internal ?t1 = t_internal t" "t_trace ?t1 = t_trace t" "t_attempt ?t1 = t_attempt t" "t_max_retries ?t1 = t_max_retries t"
        by (simp_all add: adjust_task_def Let_def)
      have eu: "eases freed ?u"
        by (rule eases_upd) (use tf same in \<open>auto intro!: like_upd_simple\<close>)
      have bu: "budget ?u x = budget freed x" for x by (rule budget_upd [OF tf]) (simp_all add: same)
      have oku: "sched_ok ?u"
        by (rule sched_ok_eases [OF _ eu stop_ok_frame [of freed, OF sched_okD(3) [of freed]] bu]) (use F in simp_all)
      have pu: "parked ?u ?i = 0" using F by (simp add: parked_def)
      have lease: "t_lease t = snd (snd (pr_identity p))"
        using v(1) t by (cases "pr_identity p") (auto simp: recovery_valid_def so identity_of_def split: option.splits)
      have "eases_but {?i} ?u s' \<and> settled s' ?i \<and> \<not> runs s' ?i \<and> stopped s' = stopped ?u \<and> wfs s' = wfs ?u
          \<and> (\<forall>x. budget s' x = budget ?u x)"
        by (rule announce_retry_facts [OF a _ pu]) (use tf in \<open>auto simp: same lease freed_def task_leases_release\<close>)
      note A = this
      have "sched_ok s'"
      proof (rule sched_ok_but [OF oku])
        fix t' assume t': "obj s' ?i = Some t'"
        have "budget s' ?i = budget s0 ?i" using A bu F by (simp add: budget_def)
        from budgetD [OF this t t'] F t show "t_attempt t' \<le> t_max_retries t'" by simp
      qed (use A sched_okD(3) [OF oku] in \<open>simp_all add: stop_ok_def\<close>)
      with A F show ?thesis by simp
    qed
  qed
qed (use assms in \<open>simp add: finish_recovery_def\<close>)

end
