(* ===== verification/Scheduler_Dispatch.thy ===== *)
theory Scheduler_Dispatch
  imports Scheduler_Steps
begin

text \<open>
  The launch of an attempt, the loops over the tasks that timed out or lost their model, and what the
  scheduler's core guarantees in every state it can reach.
\<close>

section \<open>Registering a task\<close>

lemma add_task_facts:
  assumes a: "add_task i t s = (s', added)"
  shows "objs s' = objs s \<and> mgr s' = mgr s \<and> next_id s' = next_id s \<and> queue s' = queue s \<and> stopped s' = stopped s
    \<and> waiting s' = waiting s \<and> recovering s' = recovering s \<and> outbox s' = outbox s \<and> retained s' = retained s
    \<and> sent s' = sent s"
  using a by (auto simp: add_task_def Let_def split: option.splits)

lemma add_task_table:
  assumes "add_task i t s = (s', added)"
  shows "map_of (wfs s') w =
    (if w = t_workflow t
     then Some (if map_of (dgetd (wfs s) w []) (t_id t) = None then dput (t_id t) i (dgetd (wfs s) w []) else dgetd (wfs s) w [])
     else map_of (wfs s) w)"
  using assms by (auto simp: add_task_def Let_def dgetd_def dsetdefault_def dhas_iff split: option.splits)

lemma add_task_added: "add_task i t s = (s', True) \<Longrightarrow> registered s' t i"
  unfolding registered_def by (subst add_task_table, assumption) (auto simp: add_task_def Let_def split: option.splits)

lemma register_task_ok:
  assumes a: "add_task i t s = (s', added)" and ok: "sched_ok s" and t: "obj s i = Some t" "t_status t \<noteq> ''running''"
    and st: "t_workflow t \<notin> stopped s"
  shows "sched_ok s'"
proof -
  note f = add_task_facts [OF a] and tb = add_task_table [OF a]
  let ?d = "dgetd (wfs s) (t_workflow t) []"
  have look: "map_of (wfs s') w = Some ts \<Longrightarrow> map_of ts k = Some j \<Longrightarrow>
      (\<exists>us. map_of (wfs s) w = Some us \<and> map_of us k = Some j) \<or> (w = t_workflow t \<and> k = t_id t \<and> j = i)" for w ts k j
    by (auto simp: tb dgetd_def split: if_splits option.splits)
  have keep: "map_of (wfs s) w = Some us \<Longrightarrow> map_of us k = Some j \<Longrightarrow> \<exists>ts. map_of (wfs s') w = Some ts \<and> map_of ts k = Some j" for w us k j
    by (auto simp: tb dgetd_def)
  have r: "runs s' x \<longleftrightarrow> runs s x" for x
  proof
    assume "runs s' x"
    then obtain u ts where u: "obj s x = Some u" "t_status u = ''running''"
        "map_of (wfs s') (t_workflow u) = Some ts" "map_of ts (t_id u) = Some x" using f by (auto simp: runs_iff)
    from look [OF u(3,4)] t u show "runs s x" by (auto simp: runs_iff)
  next
    assume "runs s x" then show "runs s' x" using keep f by (fastforce simp: runs_iff)
  qed
  have p: "parked s' x = parked s x" for x using f by (simp add: parked_def)
  have "table_ok s'"
    unfolding table_ok_def
  proof (intro allI impI conjI)
    fix w ts assume w: "map_of (wfs s') w = Some ts"
    have d: "dict_ok ?d" using ok by (auto simp: sched_ok_def core_ok_def table_ok_def dgetd_def split: option.splits)
    then show "dict_ok ts" using w ok by (auto simp: tb sched_ok_def core_ok_def table_ok_def split: if_splits)
    fix k j assume k: "map_of ts k = Some j"
    from look [OF w k] show "\<exists>t. obj s' j = Some t \<and> t_workflow t = w \<and> t_id t = k"
    proof
      assume "\<exists>us. map_of (wfs s) w = Some us \<and> map_of us k = Some j"
      then show ?thesis using ok f unfolding sched_ok_def core_ok_def table_ok_def by auto
    qed (use t f in auto)
  qed
  moreover have "dict_ok (wfs s')"
    using a sched_okD(3) [OF ok] by (auto simp: stop_ok_def add_task_def Let_def dsetdefault_def split: option.splits)
  then have "stop_ok s'" using ok st f by (auto simp: sched_ok_def stop_ok_def tb)
  ultimately show ?thesis using ok f
    by (simp add: sched_ok_def core_ok_def objs_ok_def place_ok_def covered_def held_def budget_ok_def p r)
qed

section \<open>Launching an attempt\<close>

lemma select_node_leases:
  assumes "select_node now lid r models q m0 = Inr (m', sel)" and "manager_ok m0"
  shows "(sel_node sel = None \<longrightarrow> active_leases m' = active_leases m0)
    \<and> (sel_node sel \<noteq> None \<longrightarrow> (\<exists>l. active_leases m' = dput lid l (active_leases m0) \<and> lease_kind l = req_kind q))"
  using assms(1)
proof (cases rule: select_cases)
  case (chosen ray m c)
  have "manager_ok m" unfolding chosen(2) by (rule refresh_head_ok [OF assms(2)])
  from candidate_fields [OF this chosen(5)] obtain nd where nd: "map_of (nodes m) (cand_id c) = Some nd" by metis
  have "active_leases m = active_leases m0" by (simp add: chosen(2))
  with nd show ?thesis unfolding chosen(7) chosen(8) by (auto simp: commit_def request_lease_def)
qed auto

text \<open>\<open>m\<close> is the manager after the selection: it has one lease more than before, the attempt's own.\<close>

lemma launch_failed_ok:
  assumes ok: "sched_ok s" and t: "obj s i = Some t" "t_status t \<noteq> ''running''" and free: "parked s i = 0"
    and m: "manager_ok m" "active_leases m = dput lid l (active_leases (mgr s))"
    and v: "v = (upd_obj i (begin_attempt now d (Some lid)) s)\<lparr>mgr := fst (release_lease now (Some lid) m)\<rparr>"
  shows "sched_ok v \<and> parked v i = 0 \<and> stopped v = stopped s \<and> obj v i = Some (begin_attempt now d (Some lid) t)"
proof -
  let ?t = "begin_attempt now d (Some lid) t"
  have same: "t_workflow ?t = t_workflow t" "t_id ?t = t_id t" "t_status ?t = t_status t" by (simp_all add: begin_attempt_def)
  have tk: "task_ok ?t = task_ok t" by (rule task_ok_cong) (simp_all add: begin_attempt_def)
  have o: "obj v x = (if x = i then Some ?t else obj s x)" for x by (simp add: v t)
  have p: "parked v x = parked s x" for x by (simp add: v parked_def)
  have l: "task_leases (mgr v) \<subseteq> task_leases (mgr s)" by (auto simp: v task_leases_release) (auto simp: task_leases_def m(2))
  have nr: "\<not> runs s i" using t by (simp add: runs_iff)
  have e: "eases_but {i} s v \<and> \<not> runs v i"
    by (rule eases_move [OF t(1) o]) (use same tk p l t(2) nr in \<open>simp_all add: v held_def release_lease_ok m(1)\<close>)
  have "sched_ok v"
  proof (rule sched_ok_but [OF ok])
    show "eases_but {i} s v" "\<not> runs v i" using e by auto
    show "settled v i" using e free p o by (simp add: settled_def)
    show "stop_ok v" using sched_okD(3) [OF ok] by (simp add: stop_ok_def v)
    show "x \<noteq> i \<Longrightarrow> budget v x = budget s x" for x using o by (simp add: budget_def)
  qed (use free p in simp)
  with o [of i] p [of i] free t show ?thesis by (simp add: v)
qed

lemma launched_ok:
  assumes ok: "sched_ok s" and t: "obj s i = Some t" "t_status t \<noteq> ''running''" and free: "parked s i = 0"
    and m: "manager_ok m" "active_leases m = dput lid l (active_leases (mgr s))"
    and reg: "registered s t i" and b: "t_attempt t \<le> t_max_retries t"
    and t': "t' = (begin_attempt now d (Some lid) t)\<lparr>t_status := ''running'', t_node := Some node, t_published := False\<rparr>"
    and o: "\<And>x. obj v x = (if x = i then Some t' else obj s x)"
    and f: "mgr v = m" "next_id v = next_id s" "wfs v = wfs s" "stopped v = stopped s" "held v = held s" "\<And>x. parked v x = parked s x"
  shows "sched_ok v"
proof -
  have same: "t_workflow t' = t_workflow t" "t_id t' = t_id t" "t_status t' = ''running''" "t_lease t' = Some lid"
      "t_attempt t' = t_attempt t + 1" "t_max_retries t' = t_max_retries t"
    by (simp_all add: t' begin_attempt_def)
  have tk: "task_ok t' = task_ok t" by (rule task_ok_cong) (simp_all add: t' begin_attempt_def)
  have nr: "\<not> runs s i" using t by (simp add: runs_iff)
  have r: "runs v x \<longleftrightarrow> x = i \<or> runs s x" for x
    using reg same by (cases "x = i") (auto simp: runs_iff registered_def o f(3) split: option.splits)
  have "objs_ok v" using ok o tk t f(2) by (simp add: sched_ok_def core_ok_def objs_ok_def)
  moreover have "place_ok v"
    unfolding place_ok_def
  proof
    fix x show "parked v x + (if runs v x then 1 else 0) \<le> 1 \<and> (0 < parked v x \<longrightarrow> obj v x \<noteq> None)"
      using sched_okD(1) [OF ok] free by (cases "x = i") (auto simp: place_ok_def f(6) r o)
  qed
  moreover have "table_ok v"
    unfolding table_ok_def
  proof (intro allI impI conjI)
    fix w ts assume "map_of (wfs v) w = Some ts"
    then have w: "map_of (wfs s) w = Some ts" by (simp add: f)
    then show "dict_ok ts" using ok by (simp add: sched_ok_def core_ok_def table_ok_def)
    fix k j assume "map_of ts k = Some j"
    with w ok obtain u where "obj s j = Some u" "t_workflow u = w" "t_id u = k"
      unfolding sched_ok_def core_ok_def table_ok_def by blast
    then show "\<exists>t. obj v j = Some t \<and> t_workflow t = w \<and> t_id t = k" using t same by (auto simp: o)
  qed
  moreover have "covered v"
    unfolding covered_def
  proof (intro allI impI)
    fix k l' assume kl: "(k, l') \<in> task_leases (mgr v)"
    show "k \<in> held v \<or> (\<exists>i t. obj v i = Some t \<and> runs v i \<and> t_lease t = Some k)"
    proof (cases "k = lid")
      case True
      then have "obj v i = Some t' \<and> runs v i \<and> t_lease t' = Some k" using o r same by simp
      then show ?thesis by blast
    next
      case False
      then have "(k, l') \<in> task_leases (mgr s)" using kl by (simp add: f(1) m(2) task_leases_def)
      then consider "k \<in> held s" | j u where "obj s j = Some u" "runs s j" "t_lease u = Some k"
        using ok unfolding sched_ok_def core_ok_def covered_def by auto
      then show ?thesis
      proof cases
        case 2
        then have "obj v j = Some u \<and> runs v j \<and> t_lease u = Some k" using nr o r by auto
        then show ?thesis by blast
      qed (simp add: f(5))
    qed
  qed
  moreover have "budget_ok v"
    unfolding budget_ok_def
  proof (intro allI impI)
    fix x u assume u: "obj v x = Some u"
    show "(0 < parked v x \<longrightarrow> t_attempt u \<le> t_max_retries u) \<and> (runs v x \<longrightarrow> t_attempt u \<le> t_max_retries u + 1)"
      using ok u b free same by (cases "x = i") (auto simp: sched_ok_def budget_ok_def f(6) r o)
  qed
  ultimately show ?thesis using ok m(1) f by (simp add: sched_ok_def core_ok_def stop_ok_def)
qed

lemma run_task_ok:
  assumes r: "run_task now ts env node i (s\<lparr>mgr := m\<rparr>) = Inr s'"
    and ok: "sched_ok s" and t: "obj s i = Some t" "t_status t \<noteq> ''running''" and free: "parked s i = 0"
    and m: "manager_ok m" "active_leases m = dput (d_lease env) l (active_leases (mgr s))"
    and reg: "registered s t i" and b: "t_attempt t \<le> t_max_retries t" and st: "t_workflow t \<notin> stopped s"
  shows "sched_ok s' \<and> stopped s \<subseteq> stopped s'"
proof (cases "d_launch env")
  case None
  let ?t' = "(begin_attempt now (d_dispatch env) (Some (d_lease env)) t)\<lparr>t_status := ''running'', t_node := Some node, t_published := False\<rparr>"
  have o: "obj s' x = (if x = i then Some ?t' else obj s x)" for x
    using r None t by (auto simp: run_task_def Let_def)
  have f: "mgr s' = m" "next_id s' = next_id s" "wfs s' = wfs s" "stopped s' = stopped s" "held s' = held s" "\<And>x. parked s' x = parked s x"
    using r None t by (auto simp: run_task_def Let_def held_def parked_def)
  have "sched_ok s'" by (rule launched_ok [OF ok t free m reg b refl o f])
  with f show ?thesis by simp
next
  case (Some x)
  define v where "v = (upd_obj i (begin_attempt now (d_dispatch env) (Some (d_lease env))) s)\<lparr>mgr := fst (release_lease now (Some (d_lease env)) m)\<rparr>"
  note L = launch_failed_ok [OF ok t free m v_def]
  have mg: "mgr (upd_obj i (begin_attempt now (d_dispatch env) (Some (d_lease env))) (s\<lparr>mgr := m\<rparr>)) = m" by simp
  have eq: "(upd_obj i (begin_attempt now (d_dispatch env) (Some (d_lease env))) (s\<lparr>mgr := m\<rparr>))
      \<lparr>mgr := fst (release_lease now (Some (d_lease env)) m)\<rparr> = v"
    by (simp add: v_def upd_obj_def t)
  obtain e where "retry_or_fail now ts (d_instances env) i e VNone v = Inr s'"
    using r [unfolded run_task_def Let_def Some option.case mg eq] L by auto
  from retry_or_fail_ok [OF this] L st show ?thesis by (auto simp: begin_attempt_def)
qed

section \<open>Placing a task\<close>

lemma pending_ok:
  assumes ok: "sched_ok s" and nr: "\<not> runs s i"
  shows "sched_ok (set_pending i reason s) \<and> stopped (set_pending i reason s) = stopped s
    \<and> (\<forall>x. parked (set_pending i reason s) x = parked s x) \<and> wfs (set_pending i reason s) = wfs s
    \<and> queue (set_pending i reason s) = queue s \<and> waiting (set_pending i reason s) = waiting s"
proof (cases "obj s i")
  case (Some t)
  let ?t = "t\<lparr>t_status := ''pending'', t_pending := Some reason\<rparr>"
  let ?u = "upd_obj i (\<lambda>_. ?t) s"
  have "task_ok ?t = task_ok t" by (rule task_ok_cong) simp_all
  then have "like s i t ?t" using nr by (simp add: like_def)
  then have e: "eases s ?u" by (intro eases_upd) (simp add: Some)
  have bu: "budget ?u x = budget s x" for x by (rule budget_upd [OF Some]) simp_all
  have u: "sched_ok ?u"
    by (rule sched_ok_eases [OF ok e stop_ok_frame [OF sched_okD(3) [OF ok]] bu]) simp_all
  have "sched_ok (post m No_call ?u)" for m
    by (rule sched_ok_eases [OF u eases_post stop_ok_frame [OF sched_okD(3) [OF u]]]) (simp_all add: budget_def)
  with u show ?thesis by (simp add: set_pending_def Some Let_def parked_def)
qed (use ok in \<open>simp add: set_pending_def\<close>)

lemma pop_task_ok:
  assumes ok: "sched_ok s" and i: "i \<in> set (queue s)"
  shows "sched_ok (pop_task i s) \<and> parked (pop_task i s) i = 0"
proof
  show "sched_ok (pop_task i s)"
    by (rule sched_ok_eases [OF ok eases_pop stop_ok_frame [OF sched_okD(3) [OF ok]]]) (simp_all add: pop_task_def budget_def)
  have "0 < count_list (queue s) i" using i by (simp add: count_list_pos)
  then show "parked (pop_task i s) i = 0" using parked_le_1 [OF sched_okD(1) [OF ok], of i]
    by (simp add: parked_def pop_task_def count_list_remove1)
qed

lemma queued_facts:
  assumes ok: "sched_ok s" and i: "i \<in> set (queue s)"
  shows "\<not> runs s i" "obj s i = Some t \<Longrightarrow> t_attempt t \<le> t_max_retries t"
proof -
  have "0 < parked s i" using i count_list_pos [of "queue s" i] by (simp add: parked_def)
  then show "\<not> runs s i" "obj s i = Some t \<Longrightarrow> t_attempt t \<le> t_max_retries t"
    using parked_not_runs sched_okD [OF ok] by (auto simp: budget_ok_def)
qed

lemma release_route_ok:
  assumes ok: "sched_ok s"
  shows "sched_ok (release_model_route i s)"
  by (rule sched_ok_eases [OF ok release_route_eases [OF sched_okD(1) [OF ok]] stop_ok_frame [OF sched_okD(3) [OF ok]]
        budget_ident [OF ident_release_route]]) simp_all

lemma wake_waiters_ok:
  assumes ok: "sched_ok s"
  shows "sched_ok (wake_model_waiters k s)" and "stopped (wake_model_waiters k s) = stopped s"
proof -
  have i: "ident (wake_model_waiters k s) x = ident s x" for x
    by (simp add: wake_model_waiters_def ident_objs [of "s\<lparr>waiting := ddel k (waiting s)\<rparr>" s])
  show "sched_ok (wake_model_waiters k s)"
    by (rule sched_ok_eases [OF ok wake_waiters_eases [OF sched_okD(1) [OF ok]] stop_ok_frame [OF sched_okD(3) [OF ok]]
          budget_ident [OF i]]) (simp_all add: wake_model_waiters_def)
  show "stopped (wake_model_waiters k s) = stopped s" by (simp add: wake_model_waiters_def)
qed

lemma release_route_queue: "set (queue s) \<subseteq> set (queue (release_model_route i s))"
proof -
  have w: "set (queue u) \<subseteq> set (queue (foldl wake u os))" for u os
    by (induction os arbitrary: u) (force simp: wake_def split: option.splits)+
  have "set (queue u) \<subseteq> set (queue (wake_model_waiters k u))" for k u
    using w [of "u\<lparr>waiting := ddel k (waiting u)\<rparr>"] by (simp add: wake_model_waiters_def)
  from this [of "upd_obj i (\<lambda>t. t\<lparr>t_route := VNone\<rparr>) s"] show ?thesis
    by (simp add: release_model_route_def Let_def split: option.splits)
qed

lemma place_task_ok:
  assumes p: "place_task now ts env i t s = Inr s'" and ok: "sched_ok s" and i: "i \<in> set (queue s)"
    and t: "obj s i = Some t" "t_status t \<noteq> ''running''" and reg: "registered s t i" and live: "t_workflow t \<notin> stopped s"
    and fresh: "\<not> dhas (d_lease env) (active_leases (mgr s))"
  shows "sched_ok s' \<and> stopped s \<subseteq> stopped s'"
proof -
  let ?q = "task_request (d_dispatch env) t"
  have "internal_ok t" using ok t by (simp add: sched_ok_def core_ok_def objs_ok_def task_ok_def)
  then have need: "needs_nonneg (req_need ?q)" using execution_need_ok by (simp add: task_request_def)
  obtain m sel where sel: "select_node now (d_lease env) (d_ray env) (d_models env) ?q (mgr s) = Inr (m, sel)"
    using p by (auto simp: place_task_def)
  note mok = select_node_ok [OF sched_okD(2) [OF ok] sel need fresh]
    and L = select_node_leases [OF sel sched_okD(2) [OF ok]]
  show ?thesis
  proof (cases "sel_node sel")
    case (Some node)
    define u where "u = upd_obj i (\<lambda>t. t\<lparr>t_pending := None\<rparr>) (pop_task i s)"
    note pop = pop_task_ok [OF ok i]
    have o: "obj (pop_task i s) i = Some t" using t by (simp add: pop_task_def)
    have eu: "eases (pop_task i s) u" unfolding u_def by (rule eases_upd) (rule like_upd_simple, auto)
    have bu: "budget u x = budget (pop_task i s) x" for x unfolding u_def by (rule budget_upd [OF o]) simp_all
    have ou: "sched_ok u"
      by (rule sched_ok_eases [OF conjunct1 [OF pop] eu stop_ok_frame [OF sched_okD(3) [OF conjunct1 [OF pop]]] bu])
        (simp_all add: u_def)
    have pu: "parked u i = 0" using pop by (simp add: u_def parked_def)
    have um: "upd_obj i (\<lambda>t. t\<lparr>t_pending := None\<rparr>) (pop_task i (s\<lparr>mgr := m\<rparr>)) = u\<lparr>mgr := m\<rparr>"
      by (simp add: u_def upd_obj_def pop_task_def t)
    obtain l where l: "active_leases m = dput (d_lease env) l (active_leases (mgr u))"
      using L Some by (auto simp: u_def pop_task_def)
    have r: "run_task now ts env node i (u\<lparr>mgr := m\<rparr>) = Inr s'"
      using p sel Some by (simp add: place_task_def Let_def um)
    have "sched_ok s' \<and> stopped u \<subseteq> stopped s'"
      by (rule run_task_ok [OF r ou _ _ pu mok l, of "t\<lparr>t_pending := None\<rparr>"])
        (use o t reg live queued_facts(2) [OF ok i t(1)] in \<open>simp_all add: u_def registered_def pop_task_def split: option.splits\<close>)
    then show ?thesis by (simp add: u_def pop_task_def)
  next
    case None
    define u where "u = release_model_route i (s\<lparr>mgr := m\<rparr>)"
    have lm: "task_leases m = task_leases (mgr s)" using L None by (simp add: task_leases_def)
    have e1: "eases s (s\<lparr>mgr := m\<rparr>)" by (rule eases_frame) (simp_all add: mok lm parked_def held_def)
    have "sched_ok (s\<lparr>mgr := m\<rparr>)"
      by (rule sched_ok_eases [OF ok e1 stop_ok_frame [OF sched_okD(3) [OF ok]]]) (simp_all add: budget_def)
    then have u: "sched_ok u" unfolding u_def by (rule release_route_ok)
    have iu: "i \<in> set (queue u)" using i release_route_queue [of "s\<lparr>mgr := m\<rparr>" i] by (auto simp: u_def)
    have su: "stopped u = stopped s" by (simp add: u_def)
    have "ident u i = ident s i" unfolding u_def by (rule trans [OF ident_release_route ident_objs]) simp
    with ident_obj [OF t(1)] obtain tu where tu: "obj u i = Some tu" "t_workflow tu = t_workflow t"
      using ident_Some by metis
    show ?thesis
    proof (cases "sel_reason sel = ''resource_capacity_exceeded''")
      case True
      obtain e where r: "retry_or_fail now ts (d_instances env) i e VNone (pop_task i u) = Inr s'"
        using p sel None True by (auto simp: place_task_def Let_def u_def)
      from retry_or_fail_ok [OF r, of tu] pop_task_ok [OF u iu] tu live su show ?thesis by (simp add: pop_task_def)
    next
      case False
      then have "s' = set_pending i (sel_reason sel) u" using p sel None by (simp add: place_task_def Let_def u_def)
      with pending_ok [OF u queued_facts(1) [OF u iu]] su show ?thesis by simp
    qed
  qed
qed

section \<open>The head of a queue\<close>

lemma count_dput: "count_list (concat (dvals (dput k (dgetd d k [] @ [i]) d))) x = count_list (concat (dvals d)) x + (if x = i then 1 else 0)"
  by (induction d) (auto simp: dput_def dgetd_def dvals_def)

lemma ready_ok:
  assumes ok: "sched_ok s" and t: "obj s i = Some t" and nr: "\<not> runs s i"
    and f: "t_workflow t' = t_workflow t" "t_id t' = t_id t" "t_lease t' = t_lease t" "t_internal t' = t_internal t"
      "t_trace t' = t_trace t" "t_status t' = ''ready''" "t_attempt t' = t_attempt t" "t_max_retries t' = t_max_retries t"
  shows "sched_ok (upd_obj i (\<lambda>_. t') s)"
proof -
  have "like s i t t'" using nr f task_ok_cong [of t' t] by (simp add: like_def)
  then have e: "eases s (upd_obj i (\<lambda>_. t') s)" by (intro eases_upd) (simp add: t)
  have b: "budget (upd_obj i (\<lambda>_. t') s) x = budget s x" for x by (rule budget_upd [OF t]) (simp_all add: f)
  show ?thesis by (rule sched_ok_eases [OF ok e stop_ok_frame [OF sched_okD(3) [OF ok]] b]) simp_all
qed

lemma wait_for_model_ok:
  assumes w: "wait_for_model i late s = Inr s'" and ok: "sched_ok s" and i: "i \<in> set (queue s)"
  shows "sched_ok s' \<and> stopped s' = stopped s"
proof -
  obtain t key where t: "obj s i = Some t" "task_model_key t = Inr (Some key)"
    using w by (auto simp: wait_for_model_def split: option.splits)
  have cnt: "0 < count_list (queue s) i" using i by (simp add: count_list_pos)
  show ?thesis
  proof (cases "truthy late")
    case True
    let ?t = "t\<lparr>t_route := late, t_status := ''ready'', t_pending := None\<rparr>"
    let ?v = "upd_obj i (\<lambda>_. ?t) s"
    have s': "s' = ?v\<lparr>queue := remove1 i (queue s) @ [i]\<rparr>"
      using w t True by (simp add: wait_for_model_def upd_obj_def pop_task_def)
    have v: "sched_ok ?v" by (rule ready_ok [OF ok t(1) queued_facts(1) [OF ok i]]) simp_all
    have "eases ?v s'"
    proof (rule eases_frame)
      show "parked s' x \<le> parked ?v x" for x using cnt by (auto simp: s' parked_def count_list_remove1)
    qed (simp_all add: s' held_def)
    from sched_ok_eases [OF v this stop_ok_frame [OF sched_okD(3) [OF v]]] show ?thesis by (simp add: s' budget_def)
  next
    case False
    then have s': "s' = (pop_task i s)\<lparr>waiting := dput key (dgetd (waiting s) key [] @ [i]) (waiting s)\<rparr>"
      using w t by (simp add: wait_for_model_def)
    have "eases s s'"
    proof (rule eases_frame)
      show "parked s' x \<le> parked s x" for x
        using cnt by (auto simp: s' parked_def pop_task_def count_dput count_list_remove1)
    qed (simp_all add: s' held_def pop_task_def)
    from sched_ok_eases [OF ok this stop_ok_frame [OF sched_okD(3) [OF ok]]] show ?thesis by (simp add: s' pop_task_def budget_def)
  qed
qed

lemma dispatch_head_ok:
  assumes d: "dispatch_head now ts env i s = Inr s'" and ok: "sched_ok s"
    and fresh: "\<not> dhas (d_lease env) (active_leases (mgr s))"
  shows "sched_ok s' \<and> stopped s \<subseteq> stopped s'"
proof -
  obtain t0 where t0: "obj s i = Some t0" using d by (auto simp: dispatch_head_def split: option.splits)
  show ?thesis
  proof (cases "i \<in> set (queue s)")
    case i: True
    show ?thesis
    proof (cases "t_workflow t0 \<in> stopped s")
      case True
      have r: "sched_ok (release_model_route i s)" "i \<in> set (queue (release_model_route i s))"
        using release_route_ok [OF ok] release_route_queue i by auto
      have "s' = pop_task i (release_model_route i s)" using d t0 i True by (simp add: dispatch_head_def)
      with pop_task_ok [OF r] show ?thesis by (simp add: pop_task_def)
    next
      case live: False
      show ?thesis
      proof (cases "eligible now t0")
        case e: True
        let ?t = "t0\<lparr>t_status := ''ready''\<rparr>"
        let ?s1 = "upd_obj i (\<lambda>_. ?t) s"
        have ok1: "sched_ok ?s1" by (rule ready_ok [OF ok t0 queued_facts(1) [OF ok i]]) simp_all
        have i1: "i \<in> set (queue ?s1)" using i by simp
        have o1: "obj ?s1 i = Some ?t" using t0 by simp
        consider (capacity) e where "retry_or_fail now ts (d_instances env) i e VNone (pop_task i ?s1) = Inr s'"
          | (wait) late where "wait_for_model i late (set_pending i ''model_instance_unavailable'' ?s1) = Inr s'"
          | (place) r s2 added where "add_task i (?t\<lparr>t_route := r\<rparr>) (upd_obj i (\<lambda>_. ?t\<lparr>t_route := r\<rparr>) ?s1) = (s2, added)"
              "(if added then place_task now ts env i (?t\<lparr>t_route := r\<rparr>) s2 = Inr s' else s' = pop_task i (release_model_route i s2))"
        proof -
          define c where "c = (case gpu_capacity_mib (mgr ?s1) (execution_need ?t) (dict_or_empty (t_anchor ?t)) of
            None \<Rightarrow> False | Some c \<Rightarrow> c < hint_int (t_resources ?t) ''gpu_mem'')"
          define w where "w = (requires_route ?t \<and> \<not> truthy (t_route ?t))"
          define t2 where "t2 = (if w then ?t\<lparr>t_route := d_route env\<rparr> else ?t)"
          have eq: "dispatch_head now ts env i s = (if c
              then retry_or_fail now ts (d_instances env) i
                 (capacity_error ts ''Request exceeds eligible GPU capacity'') VNone (pop_task i ?s1)
              else if w \<and> \<not> truthy (d_route env)
              then wait_for_model i (d_late_route env) (set_pending i ''model_instance_unavailable'' ?s1)
              else (case add_task i t2 (upd_obj i (\<lambda>_. t2) ?s1) of
                (s2, added) \<Rightarrow> if \<not> added then Inr (pop_task i (release_model_route i s2)) else place_task now ts env i t2 s2))"
            unfolding dispatch_head_def Let_def c_def w_def t2_def t0 option.case
            using i live e by (simp only: simp_thms if_False if_True not_False_eq_True conj_assoc)
          have r: "t2 = ?t\<lparr>t_route := if w then d_route env else t_route t0\<rparr>" by (simp add: t2_def)
          show thesis
          proof (cases "c \<or> (w \<and> \<not> truthy (d_route env))")
            case True
            then show thesis using d capacity wait unfolding eq by (auto split: if_splits)
          next
            case False
            obtain s2 added where a: "add_task i t2 (upd_obj i (\<lambda>_. t2) ?s1) = (s2, added)" by (metis surj_pair)
            with False d have "if added then place_task now ts env i t2 s2 = Inr s' else s' = pop_task i (release_model_route i s2)"
              unfolding eq by auto
            from place [OF a [unfolded r] this [unfolded r]] show thesis .
          qed
        qed
        then show ?thesis
        proof cases
          case capacity
          from retry_or_fail_ok [OF capacity, of ?t] pop_task_ok [OF ok1 i1] o1 live show ?thesis by (simp add: pop_task_def)
        next
          case wait
          from pending_ok [OF ok1 queued_facts(1) [OF ok1 i1]] wait_for_model_ok [OF wait] i1 show ?thesis by simp
        next
          case place
          let ?t2 = "?t\<lparr>t_route := r\<rparr>"
          let ?u = "upd_obj i (\<lambda>_. ?t2) ?s1"
          have oku: "sched_ok ?u" by (rule ready_ok [OF ok1 o1 queued_facts(1) [OF ok1 i1]]) simp_all
          have ou: "obj ?u i = Some ?t2" using t0 by simp
          have ok2: "sched_ok s2" by (rule register_task_ok [OF place(1) oku ou]) (use live in simp_all)
          note f = add_task_facts [OF place(1)]
          have o2: "obj s2 i = Some ?t2" and i2: "i \<in> set (queue s2)" using f ou i by simp_all
          show ?thesis
          proof (cases added)
            case True
            then have p: "place_task now ts env i ?t2 s2 = Inr s'" and reg: "registered s2 ?t2 i"
              using place add_task_added by auto
            have "sched_ok s' \<and> stopped s2 \<subseteq> stopped s'"
              by (rule place_task_ok [OF p ok2 i2 o2 _ reg]) (use live fresh f in simp_all)
            with f show ?thesis by simp
          next
            case False
            have r: "sched_ok (release_model_route i s2)" "i \<in> set (queue (release_model_route i s2))"
              using release_route_ok [OF ok2] release_route_queue i2 by auto
            from False place have "s' = pop_task i (release_model_route i s2)" by simp
            with pop_task_ok [OF r] f show ?thesis by (simp add: pop_task_def)
          qed
        qed
      qed (use d t0 i live ok in \<open>simp add: dispatch_head_def\<close>)
    qed
  qed (use d t0 ok in \<open>simp add: dispatch_head_def\<close>)
qed

section \<open>Loops over several tasks\<close>

text \<open>Every task of the list is looked at while it is parked nowhere; a failure parks only itself.\<close>

lemma fold_fails_ok:
  assumes step: "\<And>s i s'. f s i = Inr s' \<Longrightarrow> sched_ok s \<Longrightarrow> parked s i = 0 \<Longrightarrow>
      ((\<exists>w. fails_well i w s s') \<or> s' = s) \<and> (keeps \<longrightarrow> stopped s \<subseteq> stopped s')"
  shows "rfold f s is = Inr s' \<Longrightarrow> sched_ok s \<Longrightarrow> distinct is \<Longrightarrow> (\<forall>i \<in> set is. parked s i = 0) \<Longrightarrow>
    sched_ok s' \<and> (keeps \<longrightarrow> stopped s \<subseteq> stopped s')"
proof (induction "is" arbitrary: s)
  case (Cons i js)
  obtain u where u: "f s i = Inr u" "rfold f u js = Inr s'" using Cons.prems(1) by auto
  note st = step [OF u(1) Cons.prems(2)]
  have "sched_ok u \<and> (\<forall>j. j \<noteq> i \<longrightarrow> parked u j \<le> parked s j)"
  proof -
    have "(\<exists>w. fails_well i w s u) \<or> u = s" using st Cons.prems(4) by simp
    then show ?thesis
    proof (elim disjE exE)
    fix w assume w: "fails_well i w s u"
    then have "eases_but {i} s u" by (simp add: fails_well_def)
    with sched_ok_fails [OF Cons.prems(2) w] easesD(2) show ?thesis by blast
    qed (use Cons.prems(2) in simp)
  qed
  moreover have "\<forall>j \<in> set js. parked u j = 0"
  proof
    fix j assume j: "j \<in> set js"
    then have "j \<noteq> i" "parked s j = 0" using Cons.prems(3,4) by auto
    with calculation show "parked u j = 0" by (metis le_zero_eq)
  qed
  ultimately have "sched_ok s' \<and> (keeps \<longrightarrow> stopped u \<subseteq> stopped s')" using Cons.IH [OF u(2)] Cons.prems(3) by simp
  with st Cons.prems(4) show ?case by auto
qed simp

lemma table_entry:
  assumes ok: "sched_ok s" and ts: "(w, ts) \<in> set (wfs s)"
  shows "dict_ok ts" "(k, i) \<in> set ts \<Longrightarrow> map_of (wfs s) w = Some ts \<and> map_of ts k = Some i
    \<and> (\<exists>t. obj s i = Some t \<and> t_workflow t = w \<and> t_id t = k)"
proof -
  have m: "map_of (wfs s) w = Some ts" using ts ok by (simp add: sched_ok_def stop_ok_def in_dict_iff)
  then show d: "dict_ok ts" using ok by (simp add: sched_ok_def core_ok_def table_ok_def)
  assume "(k, i) \<in> set ts"
  then have "map_of ts k = Some i" using d by (simp add: in_dict_iff)
  with m ok show "map_of (wfs s) w = Some ts \<and> map_of ts k = Some i \<and> (\<exists>t. obj s i = Some t \<and> t_workflow t = w \<and> t_id t = k)"
    unfolding sched_ok_def core_ok_def table_ok_def by blast
qed

lemma all_running_runs:
  assumes ok: "sched_ok s" and i: "i \<in> set (all_running s)"
  shows "runs s i"
proof -
  obtain v ts k where ts: "(v, ts) \<in> set (wfs s)" "(k, i) \<in> set ts" "has_status s ''running'' i"
    using i by (auto simp: all_running_def dvals_def)
  with table_entry(2) [OF ok ts(1,2)] show ?thesis by (auto simp: runs_iff has_status_def)
qed

lemma distinct_concat_dict:
  assumes "dict_ok d" and "\<And>w ts. (w, ts) \<in> set d \<Longrightarrow> distinct (f ts)"
    and "\<And>w ts v us x. (w, ts) \<in> set d \<Longrightarrow> (v, us) \<in> set d \<Longrightarrow> x \<in> set (f ts) \<Longrightarrow> x \<in> set (f us) \<Longrightarrow> w = v"
  shows "distinct (concat (map (\<lambda>(w, ts). f ts) d))"
  using assms
proof (induction d)
  case (Cons p d)
  obtain w ts where p: "p = (w, ts)" by (cases p)
  have "distinct (concat (map (\<lambda>(w, ts). f ts) d))"
    using Cons.IH Cons.prems(1) Cons.prems(2,3) by (simp add: dict_ok_def) (metis list.set_intros(2))
  moreover have "x \<notin> set (concat (map (\<lambda>(w, ts). f ts) d))" if "x \<in> set (f ts)" for x
  proof
    assume "x \<in> set (concat (map (\<lambda>(w, ts). f ts) d))"
    then obtain v us where "(v, us) \<in> set d" "x \<in> set (f us)" by auto
    moreover from this have "w = v" using Cons.prems(3) [of w ts v us x] that p by simp
    ultimately show False using Cons.prems(1) p by (force simp: dict_ok_def)
  qed
  ultimately show ?case using Cons.prems(2) [of w ts] p by auto
qed simp

lemma all_running_distinct:
  assumes ok: "sched_ok s"
  shows "distinct (all_running s)"
  unfolding all_running_def
proof (rule distinct_concat_dict)
  show "dict_ok (wfs s)" using ok by (simp add: sched_ok_def stop_ok_def)
  fix w ts assume ts: "(w, ts) \<in> set (wfs s)"
  have "inj_on snd (set ts)"
  proof (rule inj_onI)
    fix p q assume p: "p \<in> set ts" and q: "q \<in> set ts" and e: "snd p = snd q"
    have p': "(fst p, snd p) \<in> set ts" using p by simp
    have q': "(fst q, snd p) \<in> set ts" using q by (simp add: e)
    from table_entry(2) [OF ok ts p'] table_entry(2) [OF ok ts q'] have "fst p = fst q" by auto
    with e show "p = q" by (simp add: prod_eq_iff)
  qed
  then have "distinct (dvals ts)" using table_entry(1) [OF ok ts] by (simp add: dvals_def dict_ok_def distinct_map)
  then show "distinct (filter (has_status s ''running'') (dvals ts))" by simp
  fix v us x
  assume "(v, us) \<in> set (wfs s)" "x \<in> set (filter (has_status s ''running'') (dvals ts))"
    "x \<in> set (filter (has_status s ''running'') (dvals us))"
  then obtain k j where "(k, x) \<in> set ts" "(j, x) \<in> set us" "(v, us) \<in> set (wfs s)" by (auto simp: dvals_def)
  with table_entry(2) [OF ok ts] table_entry(2) [OF ok] show "w = v" by fastforce
qed

lemma timed_out_ok:
  assumes r: "fail_timed_out_tasks now ts inst s = Inr s'" and ok: "sched_ok s"
  shows "sched_ok s'"
proof (rule conjunct1 [OF fold_fails_ok [where keeps = False, OF _ r [unfolded fail_timed_out_tasks_def] ok all_running_distinct [OF ok]]])
  show "\<forall>i \<in> set (all_running s). parked s i = 0" using all_running_runs [OF ok] runs_free [OF ok] by blast
  fix u i u'
  assume "fail_if_timed_out now ts inst u i = Inr u'" "sched_ok u" "parked u i = 0"
  then show "((\<exists>w. fails_well i w u u') \<or> u' = u) \<and> (False \<longrightarrow> stopped u \<subseteq> stopped u')"
    using retry_or_fail_fails_well sched_okD(1) by (fastforce simp: fail_if_timed_out_def split: option.splits if_splits)
qed

lemma count_le_distinct: "(\<And>x. count_list xs x \<le> 1) \<Longrightarrow> distinct xs"
proof (induction xs)
  case (Cons y ys)
  have "count_list ys x \<le> 1" for x using Cons.prems [of x] by (simp split: if_splits)
  moreover have "y \<notin> set ys" using Cons.prems [of y] count_list_pos [of ys y] by auto
  ultimately show ?case using Cons.IH by simp
qed simp

lemma waiters_ok:
  assumes r: "fail_model_waiters now ts ty msg key s = Inr s'" and ok: "sched_ok s"
  shows "sched_ok s' \<and> stopped s \<subseteq> stopped s'"
proof -
  let ?u = "s\<lparr>waiting := ddel key (waiting s)\<rparr>" and ?os = "dgetd (waiting s) key []"
  have cnt: "count_list ?os i + parked ?u i \<le> parked s i" for i
    using count_concat_ddel [of "waiting s" key i] by (simp add: parked_def)
  have e: "eases s ?u" by (rule eases_frame) (use cnt in \<open>auto simp: held_def intro: order_trans [OF le_add2]\<close>)
  have oku: "sched_ok ?u"
    by (rule sched_ok_eases [OF ok e stop_ok_frame [OF sched_okD(3) [OF ok]]]) (simp_all add: budget_def)
  have le: "count_list ?os i \<le> 1 \<and> (i \<in> set ?os \<longrightarrow> parked ?u i = 0)" for i
    using cnt [of i] parked_le_1 [OF sched_okD(1) [OF ok], of i] count_list_pos [of ?os i] by (auto; linarith)
  have d: "distinct ?os" using le by (intro count_le_distinct) simp
  have "sched_ok s' \<and> (True \<longrightarrow> stopped ?u \<subseteq> stopped s')"
  proof (rule fold_fails_ok [OF _ r [unfolded fail_model_waiters_def] oku d])
    show "\<forall>i \<in> set ?os. parked ?u i = 0" using le by simp
    fix v i v'
    assume v: "fail_waiter now ts ty msg v i = Inr v'" "sched_ok v" "parked v i = 0"
    show "((\<exists>w. fails_well i w v v') \<or> v' = v) \<and> (True \<longrightarrow> stopped v \<subseteq> stopped v')"
    proof (cases "\<exists>t. obj v i = Some t \<and> t_workflow t \<notin> stopped v")
      case True
      then obtain t e where t: "obj v i = Some t" "t_workflow t \<notin> stopped v"
          "retry_or_fail now ts (Inr False) i e VNone v = Inr v'" using v(1) by (auto simp: fail_waiter_def)
      from retry_or_fail_fails_well [OF t(3) sched_okD(1) [OF v(2)] t(1) v(3)] retry_or_fail_ok [OF t(3) v(2) t(1) v(3)] t(2)
      show ?thesis by blast
    qed (use v(1) in \<open>auto simp: fail_waiter_def split: option.splits\<close>)
  qed
  then show ?thesis by simp
qed

section \<open>Every reachable state\<close>

lemma new_sched_ok: "manager_ok m \<Longrightarrow> task_leases m = {} \<Longrightarrow> sched_ok (new_sched m)"
  by (simp add: sched_ok_def core_ok_def objs_ok_def place_ok_def table_ok_def covered_def stop_ok_def budget_ok_def
      new_sched_def parked_def runs_iff dvals_def)

inductive_cases sched_stepE: "sched_step s s'"

lemma sched_step_ok: "sched_step s s' \<Longrightarrow> sched_ok s \<Longrightarrow> sched_ok s'"
  by (erule sched_stepE)
    (simp_all add: receive_ok dispatch_head_ok task_finished_ok task_failed_ok timed_out_ok waiters_ok wake_waiters_ok
      finish_recovery_ok flush_message_ok stop_workflow_ok clear_workflow_ok manage_ok)

lemma reachable_sched_ok:
  assumes "reachable_sched s"
  shows "sched_ok s"
proof -
  obtain m where m: "reachable_manager m" "task_leases m = {}" "sched_step\<^sup>*\<^sup>* (new_sched m) s"
    using assms by (auto simp: reachable_sched_def)
  from m(3) show ?thesis
    by (induction rule: rtranclp_induct) (use new_sched_ok reachable_ok m sched_step_ok in blast)+
qed

end
