(* ===== verification/Scheduler_Properties.thy ===== *)
theory Scheduler_Properties
  imports Scheduler_Dispatch
begin

text \<open>
  What the scheduler's core guarantees in every state it can reach: leases have owners, a stop is final,
  attempts are bounded, a task is in one place, and a head that fits is launched.
\<close>

section \<open>A sample history\<close>

text \<open>One task of one CPU, received and then dispatched to the only node.\<close>

definition sample_run_request :: run_request where
  "sample_run_request =
     \<lparr>rq_workflow = ''w'', rq_task = ''a'', rq_input = VNone, rq_resources = VDict (base_resources 1 0 0),
      rq_kind = VStr ''cpu'', rq_anchor = VNone, rq_files = VNone, rq_max_retries = VInt 1, rq_backoff = VInt 0,
      rq_retry_on = VNone, rq_timeout = VNone, rq_context = VNone, rq_decision = VNone, rq_declared = VNone\<rparr>"

definition sample_env :: dispatch_env where
  "sample_env =
     \<lparr>d_route = VNone, d_late_route = VNone, d_ray = sample_ray, d_models = [], d_lease = ''L'', d_dispatch = ''d'',
      d_launch = None, d_instances = Inr False\<rparr>"

definition sample_received :: sched where
  "sample_received = (new_sched sample_manager)\<lparr>objs := [(0, sample_rtask [])], queue := [0], next_id := 1\<rparr>"

lemma sample_new: "new_rtask sample_run_request = Inr (sample_rtask [])"
proof -
  have n: "norm_shape 1 0 0 [] (base_resources 1 0 0 @ [])" by (simp add: norm_shape_def)
  have r: "normalize_resources (VDict (base_resources 1 0 0)) = Inr (base_resources 1 0 0)"
    using norm_shape_fixed [OF n] norm_shape_nonempty [OF n] by (simp add: normalize_resources_def)
  have i: "to_internal_scheduler_resources (VDict (base_resources 1 0 0)) (VStr ''cpu'') [] = Inr (t_internal (sample_rtask []))"
    using sample_internal [OF n] by simp
  have k: "normalize_task_kind (VStr ''cpu'') [] [] = Inr ''cpu''" by (rule task_kind_fixed) (simp add: task_kinds_def)
  have v: "require_schedulable_resources ''cpu'' (base_resources 1 0 0) [] = Inr ()"
    by (simp add: require_schedulable_resources_def validate_task_resources_def vget_def dgetd_def base_resources_def int_value_int
        task_kinds_def)
  have x: "vor VNone (VDict (base_resources 1 0 0)) = VDict (base_resources 1 0 0)" by (simp add: vor_def)
  show ?thesis
    by (simp add: new_rtask_def sample_run_request_def dict_or_empty_def k r x dict_arg_def v i
        normalize_max_retries_def backoff_seconds_def normalize_retry_on_def timeout_of_def vor_def Let_def)
      (simp add: sample_rtask_def)
qed

lemma sample_receive: "receive_run_task 0 '''' (\<lambda>_. \<lparr>exc_message = '''', exc_class = '''', exc_traceback = [], exc_memory = None\<rparr>)
    True sample_run_request (new_sched sample_manager) = Inr sample_received"
  by (simp add: receive_run_task_def new_sched_def sample_received_def sample_new) (simp add: dput_def)

lemma sample_task_leases: "task_leases sample_manager = {}"
  by (simp add: task_leases_def sample_no_lease)

lemma sample_received_reachable: "reachable_sched sample_received"
  unfolding reachable_sched_def
  using sample_reachable sample_task_leases receive [OF sample_receive] by blast

section \<open>Launching\<close>

lemma run_task_launches:
  assumes "d_launch env = None" and "obj s i = Some t" and "registered s t i"
  shows "\<exists>s' t'. run_task now ts env node i s = Inr s' \<and> runs s' i \<and> obj s' i = Some t' \<and> t_attempt t' = t_attempt t + 1
    \<and> t_lease t' = Some (d_lease env) \<and> t_node t' = Some node \<and> queue s' = queue s \<and> mgr s' = mgr s"
proof -
  let ?t = "(begin_attempt now (d_dispatch env) (Some (d_lease env)) t)\<lparr>t_status := ''running'', t_node := Some node, t_published := False\<rparr>"
  obtain s' where s': "run_task now ts env node i s = Inr s'" "obj s' i = Some ?t" "queue s' = queue s" "wfs s' = wfs s"
      "mgr s' = mgr s"
    using assms(1,2) by (auto simp: run_task_def Let_def)
  have "runs s' i"
    using assms(3) s'(2,4) by (simp add: runs_def registered_def begin_attempt_def split: option.splits)
  with s' show ?thesis by (auto simp: begin_attempt_def)
qed

lemma ready_same:
  "execution_need (t\<lparr>t_status := st\<rparr>) = execution_need t" "requires_route (t\<lparr>t_status := st\<rparr>) = requires_route t"
  "task_request d (t\<lparr>t_status := st\<rparr>) = task_request d t"
  by (simp_all add: execution_need_def requires_route_def anchor_model_def task_request_def Let_def)

lemma add_task_new:
  assumes "\<forall>ts j. map_of (wfs s) (t_workflow t) = Some ts \<and> map_of ts (t_id t) = Some j \<longrightarrow> j = i"
  shows "snd (add_task i t s)"
  using assms by (auto simp: add_task_def Let_def dgetd_def split: option.splits)

lemma placed_launch:
  assumes ok: "sched_ok s" and i: "i \<in> set (queue s)" and t: "obj s i = Some t" and reg: "registered s t i"
    and env: "d_launch env = None"
    and ray: "ray_node_index (d_ray env) = Some ray" and m: "m = refresh_head_models (d_models env) (mgr s)"
    and fit: "map_of (nodes m) n = Some nd" "fits ray m (task_request (d_dispatch env) t) n nd"
      "present (target_of m (task_request (d_dispatch env) t)) \<longrightarrow> target_of m (task_request (d_dispatch env) t) = Some n"
  shows "\<exists>s' t' l. place_task now ts env i t s = Inr s' \<and> runs s' i \<and> i \<notin> set (queue s') \<and> obj s' i = Some t'
    \<and> t_lease t' = Some (d_lease env) \<and> t_attempt t' = t_attempt t + 1 \<and> (d_lease env, l) \<in> task_leases (mgr s')"
proof -
  let ?q = "task_request (d_dispatch env) t"
  have "internal_ok t" using ok t by (simp add: sched_ok_def core_ok_def objs_ok_def task_ok_def)
  then have g: "need_gpu (req_need ?q) \<le> 1" using execution_need_ok by (simp add: task_request_def)
  obtain m' sel node where sel: "select_node now (d_lease env) (d_ray env) (d_models env) ?q (mgr s) = Inr (m', sel)"
      "sel_node sel = Some node"
    using placement_complete_aux [OF sched_okD(2) [OF ok] ray g m, of now "d_lease env"] fit by auto
  let ?u = "upd_obj i (\<lambda>t. t\<lparr>t_pending := None\<rparr>) (pop_task i (s\<lparr>mgr := m'\<rparr>))"
  have "obj ?u i = Some (t\<lparr>t_pending := None\<rparr>)" using t by (simp add: pop_task_def)
  moreover have "registered ?u (t\<lparr>t_pending := None\<rparr>) i"
    using reg by (simp add: registered_def pop_task_def split: option.splits)
  ultimately obtain s' t' where s': "run_task now ts env node i ?u = Inr s'" "runs s' i" "obj s' i = Some t'"
      "t_attempt t' = t_attempt t + 1" "t_lease t' = Some (d_lease env)" "queue s' = queue ?u" "mgr s' = m'"
    using run_task_launches [OF env] by (fastforce simp: pop_task_def)
  have p: "place_task now ts env i t s = Inr s'" using sel s'(1) by (simp add: place_task_def Let_def)
  have "count_list (queue s) i \<le> 1" using parked_le_1 [OF sched_okD(1) [OF ok], of i] by (simp add: parked_def)
  then have "count_list (queue s') i = 0" by (simp add: s'(6) pop_task_def count_list_remove1)
  then have "i \<notin> set (queue s')" by (simp add: count_list_0_iff)
  moreover obtain l where "(d_lease env, l) \<in> task_leases (mgr s')"
    using select_node_leases [OF sel(1) sched_okD(2) [OF ok]] sel(2) by (auto simp: s'(7) task_leases_def task_request_def)
  ultimately show ?thesis using p s' by blast
qed

text \<open>The task as the dispatch places it: with the route it has, or with the one that was admitted for it just now.\<close>

definition with_route :: "dispatch_env \<Rightarrow> rtask \<Rightarrow> rtask" where
  "with_route env t = (if requires_route t \<and> \<not> truthy (t_route t) then t\<lparr>t_route := d_route env\<rparr> else t)"

lemma with_route_fields [simp]:
  "t_workflow (with_route env t) = t_workflow t" "t_id (with_route env t) = t_id t" "t_lease (with_route env t) = t_lease t"
  "t_internal (with_route env t) = t_internal t" "t_trace (with_route env t) = t_trace t"
  "t_status (with_route env t) = t_status t" "t_attempt (with_route env t) = t_attempt t"
  "t_max_retries (with_route env t) = t_max_retries t"
  by (simp_all add: with_route_def)

lemma with_route_ready:
  "with_route env (t\<lparr>t_status := st\<rparr>) = (with_route env t)\<lparr>t_status := st\<rparr>"
  by (simp add: with_route_def ready_same)

lemma dispatch_head_place:
  assumes "i \<in> set (queue s)" and "obj s i = Some t" and "t_workflow t \<notin> stopped s" and "eligible now t"
    and route: "requires_route t \<longrightarrow> truthy (t_route t) \<or> truthy (d_route env)"
    and "\<forall>c. gpu_capacity_mib (mgr s) (execution_need t) (dict_or_empty (t_anchor t)) = Some c
        \<longrightarrow> hint_int (t_resources t) ''gpu_mem'' \<le> c"
    and u: "u = (with_route env t)\<lparr>t_status := ''ready''\<rparr>"
    and a: "add_task i u (upd_obj i (\<lambda>_. u) (upd_obj i (\<lambda>_. t\<lparr>t_status := ''ready''\<rparr>) s)) = (s2, True)"
  shows "dispatch_head now ts env i s = place_task now ts env i u s2"
proof -
  let ?t = "t\<lparr>t_status := ''ready''\<rparr>"
  have c: "\<not> (case gpu_capacity_mib (mgr s) (execution_need t) (dict_or_empty (t_anchor t)) of
      None \<Rightarrow> False | Some c \<Rightarrow> c < hint_int (t_resources ?t) ''gpu_mem'')"
    using assms(6) by (auto split: option.splits)
  have w: "(requires_route t \<and> \<not> truthy (t_route t) \<and> \<not> truthy (d_route env)) = False" using route by blast
  have v: "(if requires_route t \<and> \<not> truthy (t_route t) then ?t\<lparr>t_route := d_route env\<rparr> else ?t) = u"
    by (simp add: u with_route_def)
  show ?thesis using assms(1-4) c a unfolding dispatch_head_def Let_def by (simp add: ready_same v w del: not_not)
qed

lemma head_launched:
  assumes ok: "sched_ok s" and "i \<in> set (queue s)" and "obj s i = Some t" and "t_workflow t \<notin> stopped s"
    and "eligible now t" and "requires_route t \<longrightarrow> truthy (t_route t) \<or> truthy (d_route env)" and "d_launch env = None"
    and "\<forall>ts j. map_of (wfs s) (t_workflow t) = Some ts \<and> map_of ts (t_id t) = Some j \<longrightarrow> j = i"
    and "\<forall>c. gpu_capacity_mib (mgr s) (execution_need t) (dict_or_empty (t_anchor t)) = Some c
        \<longrightarrow> hint_int (t_resources t) ''gpu_mem'' \<le> c"
    and "ray_node_index (d_ray env) = Some ray" and "m = refresh_head_models (d_models env) (mgr s)"
    and "q = task_request (d_dispatch env) (with_route env t)"
    and "map_of (nodes m) n = Some nd" and "fits ray m q n nd"
    and "present (target_of m q) \<longrightarrow> target_of m q = Some n"
  shows "\<exists>s' t' l. dispatch_head now ts env i s = Inr s' \<and> runs s' i \<and> i \<notin> set (queue s') \<and> obj s' i = Some t'
    \<and> t_lease t' = Some (d_lease env) \<and> t_attempt t' = t_attempt t + 1 \<and> (d_lease env, l) \<in> task_leases (mgr s')"
proof -
  let ?t = "t\<lparr>t_status := ''ready''\<rparr>"
  define w where "w = (with_route env t)\<lparr>t_status := ''ready''\<rparr>"
  define u where "u = upd_obj i (\<lambda>_. w) (upd_obj i (\<lambda>_. ?t) s)"
  obtain s2 added where a: "add_task i w u = (s2, added)" by (metis surj_pair)
  have "snd (add_task i w u)" by (rule add_task_new) (use assms(8) in \<open>simp add: u_def w_def\<close>)
  with a have ad: "added" by simp
  have ok1: "sched_ok (upd_obj i (\<lambda>_. ?t) s)"
    by (rule ready_ok [OF ok assms(3) queued_facts(1) [OF ok assms(2)]]) simp_all
  have oku: "sched_ok u" unfolding u_def
    by (rule ready_ok [OF ok1 _ queued_facts(1) [OF ok1], of _ ?t]) (use assms(2,3) in \<open>simp_all add: w_def\<close>)
  note f = add_task_facts [OF a]
  have ok2: "sched_ok s2" by (rule register_task_ok [OF a oku]) (use assms(3,4) in \<open>simp_all add: u_def w_def\<close>)
  have reg: "registered s2 w i" using a ad add_task_added by simp
  have "\<exists>s' t' l. place_task now ts env i w s2 = Inr s' \<and> runs s' i \<and> i \<notin> set (queue s') \<and> obj s' i = Some t'
    \<and> t_lease t' = Some (d_lease env) \<and> t_attempt t' = t_attempt w + 1 \<and> (d_lease env, l) \<in> task_leases (mgr s')"
    by (rule placed_launch [OF ok2 _ _ reg assms(7,10), of m n nd])
      (use assms f in \<open>simp_all add: u_def w_def ready_same\<close>)
  moreover have "dispatch_head now ts env i s = place_task now ts env i w s2"
    by (rule dispatch_head_place [OF assms(2-6,9) w_def]) (use a ad u_def in simp)
  ultimately show ?thesis by (simp add: w_def)
qed

lemma sample_dispatch_facts:
  "obj sample_received 0 = Some (sample_rtask [])" "queue sample_received = [0]" "stopped sample_received = {}"
  "wfs sample_received = []" "mgr sample_received = sample_manager" "eligible 1 (sample_rtask [])"
  "\<not> requires_route (sample_rtask [])" "d_launch sample_env = None" "d_ray sample_env = sample_ray"
  "d_models sample_env = []" "d_lease sample_env = ''L''" "d_dispatch sample_env = ''d''"
  by (simp_all add: sample_received_def new_sched_def eligible_def sample_rtask_def requires_route_def anchor_model_def
      sample_env_def dict_or_empty_def vget_def dgetd_def vor_def)

lemma sample_with_route: "with_route env (sample_rtask []) = sample_rtask []"
  by (simp add: with_route_def sample_dispatch_facts)

lemma sample_need:
  "execution_need (sample_rtask []) = \<lparr>need_cpu = 1, need_cpu_mem = 0, need_gpu = 0, need_gpu_mem = 0, need_node = None,
     need_target = None, need_avoid = [], need_capability = None\<rparr>"
  by (simp add: execution_need_def sample_rtask_def base_resources_def hint_int_def hint_str_def avoid_list_def
      vget_def dgetd_def dput_def Let_def)

lemma sample_fields [simp]:
  "t_anchor (sample_rtask h) = VNone" "t_route (sample_rtask h) = VNone" "t_workflow (sample_rtask h) = ''w''"
  "t_id (sample_rtask h) = ''a''" "t_attempt (sample_rtask h) = 0" "t_resources (sample_rtask []) = base_resources 1 0 0"
  "t_max_retries (sample_rtask h) = 1" "t_lease (sample_rtask h) = None"
  by (simp_all add: sample_rtask_def)

lemma sample_task_request:
  "task_request ''d'' (sample_rtask []) =
     \<lparr>req_need = \<lparr>need_cpu = 1, need_cpu_mem = 0, need_gpu = 0, need_gpu_mem = 0, need_node = None,
        need_target = None, need_avoid = [], need_capability = None\<rparr>, req_kind = ''task'', req_anchor = [],
      req_workflow = Some ''w'', req_run = Some ''w'', req_task = Some ''a'', req_attempt = Some 1, req_dispatch = Some ''d''\<rparr>"
  by (simp add: task_request_def sample_need dict_or_empty_def)

lemma sample_node: "\<exists>nd. map_of (nodes (refresh_head_models [] sample_manager)) ''h'' = Some nd
  \<and> fits [(''h'', \<lparr>ray_alive = True, ray_address = Some ''ip''\<rparr>)] (refresh_head_models [] sample_manager)
      (task_request ''d'' (sample_rtask [])) ''h'' nd"
  by (simp add: sample_task_request fits_def sample_defs refresh_head_models_def dput_def is_node_alive_def
      avoid_ids_def present_def model_served_def required_model_def anchor_str_def or_str_def vget_def dgetd_def vor_def)

lemma sample_capacity:
  "gpu_capacity_mib sample_manager (execution_need (sample_rtask [])) (dict_or_empty VNone) = Some c \<Longrightarrow> 0 \<le> c"
  by (simp add: gpu_capacity_mib_def sample_need capacity_node_def node_capacities_def capacity_known_def sample_defs
      dict_or_empty_def dput_def Let_def dvals_def split: if_splits)

lemma sample_running:
  "\<exists>s' t' l. reachable_sched s' \<and> runs s' 0 \<and> 0 \<notin> set (queue s') \<and> obj s' 0 = Some t' \<and> t_lease t' = Some ''L'' \<and> t_attempt t' = 1 \<and> (''L'', l) \<in> task_leases (mgr s')"
proof -
  obtain nd where nd: "map_of (nodes (refresh_head_models [] sample_manager)) ''h'' = Some nd"
      "fits [(''h'', \<lparr>ray_alive = True, ray_address = Some ''ip''\<rparr>)] (refresh_head_models [] sample_manager)
      (task_request ''d'' (sample_rtask [])) ''h'' nd"
    using sample_node by blast
  have "\<exists>s' t' l. dispatch_head 1 '''' sample_env 0 sample_received = Inr s' \<and> runs s' 0 \<and> 0 \<notin> set (queue s')
      \<and> obj s' 0 = Some t' \<and> t_lease t' = Some (d_lease sample_env) \<and> t_attempt t' = t_attempt (sample_rtask []) + 1
      \<and> (d_lease sample_env, l) \<in> task_leases (mgr s')"
    by (rule head_launched [OF reachable_sched_ok [OF sample_received_reachable] _ sample_dispatch_facts(1) _ sample_dispatch_facts(6) _ sample_dispatch_facts(8)
          _ _ _ refl refl, of "[(''h'', \<lparr>ray_alive = True, ray_address = Some ''ip''\<rparr>)]" "''h''" nd])
      (use nd sample_capacity in \<open>simp_all add: sample_dispatch_facts sample_index sample_with_route hint_int_def vget_def dgetd_def
        base_resources_def target_of_def sample_task_request present_def anchor_str_def or_str_def Let_def\<close>)
  then obtain s' t' l where s': "dispatch_head 1 '''' sample_env 0 sample_received = Inr s'" "runs s' 0" "0 \<notin> set (queue s')"
      "obj s' 0 = Some t'" "t_lease t' = Some ''L''" "t_attempt t' = 1" "(''L'', l) \<in> task_leases (mgr s')"
    by (auto simp: sample_dispatch_facts)
  have "sched_step sample_received s'"
    by (rule dispatch [OF s'(1)]) (simp add: sample_dispatch_facts sample_no_lease dhas_def)
  with sample_received_reachable have "reachable_sched s'"
    unfolding reachable_sched_def by (meson rtranclp.rtrancl_into_rtrancl)
  with s' show ?thesis by blast
qed


text \<open>
  C6: a task at the head of a queue that is eligible, belongs to no stopped workflow and fits a live node is launched, provided
  that it needs no route to a model, holds one or is admitted one by this dispatch, that the launch itself does not raise, that
  the GPU memory it asks for does not exceed the capacity of its kind of placement, that no other task is registered under its
  id, and that the node it is bound to, if any, is that node. Then the dispatch succeeds, and the task runs, has left the queue,
  holds the new lease and counts one attempt more: with a route where it needs one and room in the cluster, such a head of a
  queue never waits.
\<close>

theorem fitting_head_launched:
  assumes "reachable_sched s" and "i \<in> set (queue s)" and "obj s i = Some t" and "t_workflow t \<notin> stopped s"
    and "eligible now t" and "requires_route t \<longrightarrow> truthy (t_route t) \<or> truthy (d_route env)" and "d_launch env = None"
    and "\<forall>ts j. map_of (wfs s) (t_workflow t) = Some ts \<and> map_of ts (t_id t) = Some j \<longrightarrow> j = i"
    and "\<forall>c. gpu_capacity_mib (mgr s) (execution_need t) (dict_or_empty (t_anchor t)) = Some c
        \<longrightarrow> hint_int (t_resources t) ''gpu_mem'' \<le> c"
    and "ray_node_index (d_ray env) = Some ray" and "m = refresh_head_models (d_models env) (mgr s)"
    and "q = task_request (d_dispatch env) (with_route env t)"
    and "map_of (nodes m) n = Some nd" and "fits ray m q n nd"
    and "present (target_of m q) \<longrightarrow> target_of m q = Some n"
  shows "\<exists>s' t' l. dispatch_head now ts env i s = Inr s' \<and> runs s' i \<and> i \<notin> set (queue s') \<and> obj s' i = Some t'
    \<and> t_lease t' = Some (d_lease env) \<and> t_attempt t' = t_attempt t + 1 \<and> (d_lease env, l) \<in> task_leases (mgr s')"
  by (rule head_launched [OF reachable_sched_ok [OF assms(1)] assms(2-)])

theorem fitting_head_launched_witness:
  "\<exists>s s' t' l. reachable_sched s \<and> dispatch_head 1 '''' sample_env 0 s = Inr s' \<and> runs s' 0 \<and> 0 \<notin> set (queue s')
     \<and> obj s' 0 = Some t' \<and> t_lease t' = Some ''L'' \<and> t_attempt t' = 1 \<and> (''L'', l) \<in> task_leases (mgr s')"
proof -
  obtain nd where nd: "map_of (nodes (refresh_head_models [] sample_manager)) ''h'' = Some nd"
      "fits [(''h'', \<lparr>ray_alive = True, ray_address = Some ''ip''\<rparr>)] (refresh_head_models [] sample_manager)
      (task_request ''d'' (sample_rtask [])) ''h'' nd"
    using sample_node by blast
  have "\<exists>s' t' l. dispatch_head 1 '''' sample_env 0 sample_received = Inr s' \<and> runs s' 0 \<and> 0 \<notin> set (queue s')
      \<and> obj s' 0 = Some t' \<and> t_lease t' = Some (d_lease sample_env) \<and> t_attempt t' = t_attempt (sample_rtask []) + 1
      \<and> (d_lease sample_env, l) \<in> task_leases (mgr s')"
    by (rule fitting_head_launched [OF sample_received_reachable _ sample_dispatch_facts(1) _ sample_dispatch_facts(6) _ sample_dispatch_facts(8)
          _ _ _ refl refl, of "[(''h'', \<lparr>ray_alive = True, ray_address = Some ''ip''\<rparr>)]" "''h''" nd])
      (use nd sample_capacity in \<open>simp_all add: sample_dispatch_facts sample_index sample_with_route hint_int_def vget_def dgetd_def
        base_resources_def target_of_def sample_task_request present_def anchor_str_def or_str_def Let_def\<close>)
  then show ?thesis using sample_received_reachable by (auto simp: sample_dispatch_facts)
qed


text \<open>
  C3: no lease leaks. In every reachable state of the scheduler each task lease the resource manager holds
  is held for a reason: by a registered running task of a workflow that is not stopped, by a cleanup that
  is still under way, or on purpose because its cleanup failed and may still use the GPU.
\<close>

theorem no_lease_leak:
  assumes "reachable_sched s" and "map_of (active_leases (mgr s)) k = Some l" and "lease_kind l = ''task''"
  shows "(\<exists>i t. obj s i = Some t \<and> runs s i \<and> t_lease t = Some k \<and> t_workflow t \<notin> stopped s)
    \<or> (\<exists>p \<in> set (recovering s). snd (snd (pr_identity p)) = Some k) \<or> k \<in> retained s"
proof -
  have ok: "sched_ok s" by (rule reachable_sched_ok [OF assms(1)])
  have "(k, l) \<in> task_leases (mgr s)" using assms(2,3) by (simp add: task_leases_def)
  with ok have "k \<in> held s \<or> (\<exists>i t. obj s i = Some t \<and> runs s i \<and> t_lease t = Some k)"
    unfolding sched_ok_def core_ok_def covered_def by blast
  then show ?thesis using runs_live [OF ok] by (auto simp: held_def)
qed

theorem no_lease_leak_witness:
  "\<exists>s l. reachable_sched s \<and> map_of (active_leases (mgr s)) ''L'' = Some l \<and> lease_kind l = ''task''
     \<and> ((\<exists>i t. obj s i = Some t \<and> runs s i \<and> t_lease t = Some ''L'' \<and> t_workflow t \<notin> stopped s)
       \<or> (\<exists>p \<in> set (recovering s). snd (snd (pr_identity p)) = Some ''L'') \<or> ''L'' \<in> retained s)"
proof -
  obtain s l where s: "reachable_sched s" "map_of (active_leases (mgr s)) ''L'' = Some l" "lease_kind l = ''task''"
    using sample_running by (auto simp: task_leases_def)
  with no_lease_leak [OF s] show ?thesis by blast
qed

section \<open>Stops, attempts and places\<close>

lemma timeouts_keep_stop:
  "rfold (fail_if_timed_out now ts inst) s is = Inr s' \<Longrightarrow> sched_ok s \<Longrightarrow> distinct is \<Longrightarrow> (\<forall>i \<in> set is. parked s i = 0) \<Longrightarrow>
   (\<forall>i \<in> set is. \<forall>t. obj s i = Some t \<longrightarrow> t_workflow t \<noteq> w) \<Longrightarrow> w \<in> stopped s \<Longrightarrow> w \<in> stopped s'"
proof (induction "is" arbitrary: s)
  case (Cons i js)
  obtain u where u: "fail_if_timed_out now ts inst s i = Inr u" "rfold (fail_if_timed_out now ts inst) u js = Inr s'"
    using Cons.prems(1) by auto
  consider "u = s" | t where "obj s i = Some t" "fails_well i (t_workflow t) s u"
    using u(1) retry_or_fail_fails_well [OF _ sched_okD(1) [OF Cons.prems(2)]] Cons.prems(4)
    by (fastforce simp: fail_if_timed_out_def split: option.splits if_splits)
  then show ?case
  proof cases
    case 1
    with Cons show ?thesis using u(2) by simp
  next
    case 2
    have e: "eases_but {i} s u" using 2(2) by (simp add: fails_well_def)
    have ok: "sched_ok u" by (rule sched_ok_fails [OF Cons.prems(2) 2(2)])
    have p: "parked u j = 0" if "j \<in> set js" for j
      using easesD(2) [OF e, of j] Cons.prems(3,4) that by force
    have o: "t_workflow t' \<noteq> w" if "j \<in> set js" "obj u j = Some t'" for j t'
      using eases_obj [OF e that(2)] Cons.prems(5) that(1) by (auto simp: same_task_def)
    have "w \<in> stopped u" using 2 Cons.prems(5,6) by (auto simp: fails_well_def)
    with Cons.IH [OF u(2) ok] Cons.prems(3) p o show ?thesis by simp
  qed
qed simp

lemma step_keeps_stop:
  assumes step: "sched_step s s'" and ok: "sched_ok s" and w: "w \<in> stopped s"
  shows "w \<in> stopped s'"
  using step
proof (cases rule: sched_step.cases)
  case (timed_out now ts inst)
  show ?thesis
  proof (rule timeouts_keep_stop [OF timed_out [unfolded fail_timed_out_tasks_def] ok all_running_distinct [OF ok] _ _ w])
    show "\<forall>i \<in> set (all_running s). parked s i = 0" using all_running_runs [OF ok] runs_free [OF ok] by blast
    show "\<forall>i \<in> set (all_running s). \<forall>t. obj s i = Some t \<longrightarrow> t_workflow t \<noteq> w"
      using all_running_runs [OF ok] runs_live [OF ok] w by blast
  qed
qed (use receive_ok dispatch_head_ok task_finished_ok task_failed_ok waiters_ok wake_waiters_ok finish_recovery_ok flush_message_ok
    stop_workflow_ok clear_workflow_ok ok w in \<open>fastforce+\<close>)

text \<open>
  C5: a stop is final. Whatever the scheduler does after a workflow was stopped, failed or cleared, the
  workflow stays stopped and none of its tasks runs.
\<close>

theorem stop_is_final:
  assumes "reachable_sched s" and "sched_step\<^sup>*\<^sup>* s s'" and "w \<in> stopped s"
  shows "w \<in> stopped s' \<and> (\<forall>i t. obj s' i = Some t \<and> t_workflow t = w \<longrightarrow> \<not> runs s' i)"
proof -
  have "sched_ok s' \<and> w \<in> stopped s'"
    using assms(2)
  proof (induction rule: rtranclp_induct)
    case base
    show ?case using reachable_sched_ok [OF assms(1)] assms(3) by simp
  next
    case (step u v)
    then show ?case using sched_step_ok step_keeps_stop by blast
  qed
  then show ?thesis using runs_live by blast
qed

theorem stop_is_final_witness:
  "\<exists>s s'. reachable_sched s \<and> sched_step\<^sup>*\<^sup>* s s' \<and> ''w'' \<in> stopped s
     \<and> ''w'' \<in> stopped s' \<and> (\<forall>i t. obj s' i = Some t \<and> t_workflow t = ''w'' \<longrightarrow> \<not> runs s' i)"
proof -
  let ?s = "stop_workflow 0 ''w'' sample_received" and ?s' = "flush_message 0 (stop_workflow 0 ''w'' sample_received)"
  have r: "reachable_sched ?s"
    using sample_received_reachable stop unfolding reachable_sched_def by (meson rtranclp.rtrancl_into_rtrancl)
  have s: "sched_step\<^sup>*\<^sup>* ?s ?s'" using flush by blast
  have w: "''w'' \<in> stopped ?s" by (simp add: stop_workflow_def)
  from stop_is_final [OF r s w] r s w show ?thesis by blast
qed

text \<open>
  C7: attempts are bounded. A running task has made at most one attempt more than its retries allow, and a
  task that waits in a queue, for a model, for its retry message or for a cleanup may still be tried again.
\<close>

theorem attempts_bounded:
  assumes "reachable_sched s" and "obj s i = Some t"
  shows "(runs s i \<longrightarrow> t_attempt t \<le> t_max_retries t + 1) \<and> (0 < parked s i \<longrightarrow> t_attempt t \<le> t_max_retries t)"
  using sched_okD(5) [OF reachable_sched_ok [OF assms(1)]] assms(2) by (simp add: budget_ok_def)

theorem attempts_bounded_witness:
  "\<exists>s t. reachable_sched s \<and> obj s 0 = Some t \<and> runs s 0 \<and> t_attempt t \<le> t_max_retries t + 1"
proof -
  obtain s t where s: "reachable_sched s" "obj s 0 = Some t" "runs s 0" using sample_running by blast
  with attempts_bounded [OF s(1,2)] show ?thesis by blast
qed

text \<open>
  C4: a task is in one place. In every reachable state no task waits twice, in the queues, in the waiting
  lists of the models, among the announced retries or the cleanups, and a task that runs waits nowhere; so
  no attempt is ever launched while another attempt of the same task is under way.
\<close>

theorem task_in_one_place:
  assumes "reachable_sched s"
  shows "parked s i + (if runs s i then 1 else 0) \<le> 1"
  using sched_okD(1) [OF reachable_sched_ok [OF assms]] by (simp add: place_ok_def)

theorem task_in_one_place_witness:
  "\<exists>s. reachable_sched s \<and> runs s 0 \<and> parked s 0 + (if runs s 0 then 1 else 0) \<le> 1"
proof -
  obtain s where s: "reachable_sched s" "runs s 0" using sample_running by blast
  with task_in_one_place [OF s(1), of 0] show ?thesis by blast
qed

end
