(* ===== verification/Resource_History.thy ===== *)
theory Resource_History
  imports Resources "HOL-Library.List_Lexorder" "HOL-Library.Char_ord"
begin

text \<open>
  What earlier runs taught about memory: \<open>ResourceHistoryStore\<close> of \<open>maze/core/resource_history.py\<close> and the
  contexts of \<open>maze/core/resource_policy.py\<close> its profiles are kept by. The store reads and writes one JSON
  file under its lock, so a history is a sequence of \<open>record_observation\<close>; the file's content is the state
  here, and reading a file another program wrote is not modelled.
\<close>

section \<open>Contexts\<close>

record rcontext =
  cx_scope :: string
  cx_identity :: string
  cx_backend :: string
  cx_dtype :: string
  cx_features :: "(string \<times> int) list"

definition context_dict :: "rcontext \<Rightarrow> pyval" where
  "context_dict c =
     VDict [(''scope'', VStr (cx_scope c)), (''identity'', VStr (cx_identity c)), (''backend'', VStr (cx_backend c)),
            (''dtype'', VStr (cx_dtype c)),
            (''features'', VList (map (\<lambda>(k, n). VList [VStr k, VInt n]) (cx_features c)))]"

text \<open>\<open>fp\<close> is \<open>_fingerprint\<close>, the SHA-256 of the JSON text.\<close>

definition context_key :: "(pyval \<Rightarrow> string) \<Rightarrow> rcontext \<Rightarrow> string" where
  "context_key fp c = fp (context_dict c)"

fun bit_length :: "nat \<Rightarrow> nat" where
  "bit_length n = (if n = 0 then 0 else Suc (bit_length (n div 2)))"

declare bit_length.simps [simp del]

text \<open>\<open>1 << (n - 1).bit_length()\<close>: sizes are grouped by powers of two.\<close>

definition size_class :: "int \<Rightarrow> int" where
  "size_class n = 2 ^ bit_length (nat (n - 1))"

definition dtype_names :: "string list" where
  "dtype_names = [''dtype'', ''torch_dtype'', ''precision'']"

definition count_names :: "string list" where
  "count_names = [''max_tokens'', ''max_new_tokens'', ''batch_size'', ''sequence_length'']"

definition is_text_name :: "string \<Rightarrow> bool" where
  "is_text_name n = list_ex (\<lambda>w. has_infix w n) [''text'', ''prompt'', ''question'', ''context'']"

record features =
  ft_counts :: "(string, int) dict"
  ft_text :: nat
  ft_dtype :: string

text \<open>One parameter of the task's input.\<close>

definition add_feature :: "features \<Rightarrow> pyval \<Rightarrow> features" where
  "add_feature f param =
     (let p = dict_or_empty param in
      if vget p ''input_schema'' \<noteq> VStr ''from_user'' then f
      else (let name = py_str (vgetd p ''key'' (VStr [])); v = vget p ''value'';
                f1 = (case v of VStr s \<Rightarrow> if name \<in> set dtype_names then f\<lparr>ft_dtype := s\<rparr> else f | _ \<Rightarrow> f)
            in if is_str v \<and> is_text_name name then f1\<lparr>ft_text := ft_text f1 + length (py_str v)\<rparr>
               else if name \<in> set count_names \<and> 0 < positive_int v
               then f1\<lparr>ft_counts := dput name (size_class (positive_int v)) (ft_counts f1)\<rparr>
               else f1))"

definition feature_list :: "features \<Rightarrow> (string \<times> int) list" where
  "feature_list f =
     (let d = (if ft_text f = 0 then ft_counts f else dput ''text_chars'' (size_class (int (ft_text f))) (ft_counts f))
      in sort_key fst d)"

text \<open>
  \<open>context_for_task\<close>. \<open>code_dtype\<close> is \<open>_code_dtype\<close>, which reads the syntax tree of the task's code, and is
  an argument.
\<close>

definition context_for_task ::
    "(pyval \<Rightarrow> string) \<Rightarrow> (string \<Rightarrow> string) \<Rightarrow> pyval \<Rightarrow> pyval \<Rightarrow> pyval \<Rightarrow> (string, pyval) dict \<Rightarrow> rcontext" where
  "context_for_task fp code_dtype code_str code_ser task_input anchor =
     (let model = vor (vget anchor ''local_model'') (vget anchor ''model'');
          code = py_str (vor code_str (VStr []));
          params = dvals (dict_or_empty (vget (dict_or_empty task_input) ''input_params''));
          f = foldl add_feature \<lparr>ft_counts = [], ft_text = 0, ft_dtype = code_dtype code\<rparr> params
      in if truthy model
         then \<lparr>cx_scope = ''model_instance'',
               cx_identity = fp (VList [vor (vget anchor ''checkpoint_fingerprint'') model, vget anchor ''revision'']),
               cx_backend = py_str (vor (vor (vget anchor ''backend'') (vget anchor ''engine'')) (VStr ''vllm'')),
               cx_dtype = py_str (vor (vor (vget anchor ''dtype'') (vget anchor ''torch_dtype'')) (VStr [])),
               cx_features = feature_list f\<rparr>
         else \<lparr>cx_scope = ''task'', cx_identity = fp (VList [vor code_str (VStr []), vor code_ser (VStr [])]),
               cx_backend = [], cx_dtype = ft_dtype f, cx_features = feature_list f\<rparr>)"

section \<open>The store\<close>

definition max_profiles :: nat where "max_profiles = 1024"
definition max_observation_ids :: nat where "max_observation_ids = 8192"
definition max_recent :: nat where "max_recent = 100"

record profile =
  pf_context :: rcontext
  pf_samples :: int
  pf_peak :: int
  pf_oom :: int
  pf_observed :: time

record bucket =
  bk_runs :: int
  bk_successes :: int
  bk_failures :: int
  bk_peak :: int
  bk_status :: string
  bk_error :: pyval
  bk_observed :: time

record observation =
  ob_run :: string
  ob_task :: string
  ob_name :: "string option"
  ob_status :: string
  ob_time :: time
  ob_requested :: "(string, pyval) dict"
  ob_anchor :: pyval
  ob_node :: pyval
  ob_metrics :: "(string, pyval) dict"
  ob_error :: pyval
  ob_peak :: int
  ob_id :: "string option"
  ob_context :: "rcontext option"

record history =
  hs_models :: "(string, bucket) dict"
  hs_tasks :: "(string, bucket) dict"
  hs_recent :: "observation list"
  hs_profiles :: "(string, profile) dict"
  hs_ids :: "string list"

definition empty_history :: history where
  "empty_history = \<lparr>hs_models = [], hs_tasks = [], hs_recent = [], hs_profiles = [], hs_ids = []\<rparr>"

definition model_anchor_key :: "pyval \<Rightarrow> string option" where
  "model_anchor_key v =
     (case v of
        VDict a \<Rightarrow>
          (let model = vor (vget a ''local_model'') (vget a ''model'') in
           if \<not> truthy model then None
           else Some (py_str (vor (vget a ''backend'') (VStr ''transformers'')) @ '':'' @
                      py_str (vor (vget a ''model_scope'') (VStr ''local'')) @ '':'' @ py_str model))
      | _ \<Rightarrow> None)"

text \<open>\<open>_peak_gpu_bytes\<close>; \<open>_int_value\<close> of this file is the one of \<open>workflow/resources.py\<close> (theory
  \<open>Resources\<close>), and lets the \<open>OverflowError\<close> of an infinite measurement through.\<close>

definition peak_gpu_bytes :: "(string, pyval) dict \<Rightarrow> int result" where
  "peak_gpu_bytes metrics =
     rbind (rmap (\<lambda>k. int_value (vget metrics k) 0) gpu_peak_keys) (\<lambda>xs. Inr (Max (set xs)))"

definition profile_dict :: "profile \<Rightarrow> (string, pyval) dict" where
  "profile_dict p =
     [(''context'', context_dict (pf_context p)), (''success_samples'', VInt (pf_samples p)),
      (''success_peak_bytes'', VInt (pf_peak p)), (''oom_lower_bound_mib'', VInt (pf_oom p))]"

definition found :: "(string, profile) dict \<Rightarrow> string \<Rightarrow> int \<times> int \<times> int" where
  "found ps k = (case map_of ps k of None \<Rightarrow> (0, 0, 0) | Some p \<Rightarrow> (pf_samples p, pf_peak p, pf_oom p))"

text \<open>The evidence for a context; a model with features also counts what its plain profile knows.\<close>

definition lookup_history :: "(pyval \<Rightarrow> string) \<Rightarrow> rcontext \<Rightarrow> history \<Rightarrow> (string, pyval) dict" where
  "lookup_history fp c h =
     (let own = (case map_of (hs_profiles h) (context_key fp c) of None \<Rightarrow> [] | Some p \<Rightarrow> profile_dict p);
          (n, peak, oom) = found (hs_profiles h) (context_key fp c)
      in if cx_scope c = ''model_instance'' \<and> cx_features c \<noteq> []
         then (case found (hs_profiles h) (context_key fp (c\<lparr>cx_features := []\<rparr>)) of
                 (n', peak', oom') \<Rightarrow>
                   dput ''success_samples'' (VInt (n + n'))
                     (dput ''oom_lower_bound_mib'' (VInt (max oom oom'))
                       (dput ''success_peak_bytes'' (VInt (max peak peak')) own)))
         else own)"

definition apply_history ::
    "(pyval \<Rightarrow> string) \<Rightarrow> pyval \<Rightarrow> (string, pyval) dict \<Rightarrow> rcontext option \<Rightarrow> history \<Rightarrow> (string, pyval) dict result" where
  "apply_history fp resources anchor context h =
     (case context of
        None \<Rightarrow> normalize_resources resources
      | Some c \<Rightarrow> rbind (recommend_resources (vor resources (VDict [])) (lookup_history fp c h) anchor None)
                    (\<lambda>d. Inr (effective d)))"

definition update_record :: "string \<Rightarrow> observation \<Rightarrow> (string, bucket) dict \<Rightarrow> (string, bucket) dict" where
  "update_record k ob d =
     (let b = (case map_of d k of
                 None \<Rightarrow> \<lparr>bk_runs = 0, bk_successes = 0, bk_failures = 0, bk_peak = 0, bk_status = [],
                          bk_error = VNone, bk_observed = 0\<rparr>
               | Some b \<Rightarrow> b);
          ok = (ob_status ob = ''succeeded'')
      in dput k \<lparr>bk_runs = bk_runs b + 1, bk_successes = bk_successes b + (if ok then 1 else 0),
                 bk_failures = bk_failures b + (if ok then 0 else 1),
                 bk_peak = (if ob_peak ob = 0 then bk_peak b else max (bk_peak b) (ob_peak ob)),
                 bk_status = ob_status ob, bk_error = vget (dict_or_empty (ob_error ob)) ''error_type'',
                 bk_observed = ob_time ob\<rparr> d)"

text \<open>\<open>min(d, key=f)\<close>, the first key of the smallest value, and the eviction that keeps a table bounded.\<close>

definition oldest :: "('v \<Rightarrow> time) \<Rightarrow> (string, 'v) dict \<Rightarrow> string" where
  "oldest f d = fst (foldl (\<lambda>b x. if f (snd x) < f (snd b) then x else b) (hd d) (tl d))"

definition evict :: "('v \<Rightarrow> time) \<Rightarrow> (string, 'v) dict \<Rightarrow> (string, 'v) dict" where
  "evict f d = (if max_profiles < length d then ddel (oldest f d) d else d)"

definition keep_last :: "nat \<Rightarrow> 'a list \<Rightarrow> 'a list" where
  "keep_last n xs = drop (length xs - n) xs"

definition learn :: "rcontext \<Rightarrow> observation \<Rightarrow> int \<Rightarrow> profile \<Rightarrow> profile" where
  "learn c ob required p =
     (let ok = (ob_status ob = ''succeeded''); peak = observed_peak_bytes (ob_metrics ob);
          scope = vgetd (ob_metrics ob) ''memory_scope'' (VStr ''task'');
          p1 = (case peak of
                  Some b \<Rightarrow> if ok \<and> scope = VStr (cx_scope c)
                            then p\<lparr>pf_samples := pf_samples p + 1, pf_peak := max (pf_peak p) b\<rparr> else p
                | None \<Rightarrow> p);
          failure = dict_or_empty (vget (dict_or_empty (ob_error ob)) ''memory_failure'');
          p2 = (if \<not> ok \<and> required \<noteq> 0 \<and>
                   (cx_scope c = ''task'' \<or> cx_features c \<noteq> [] \<or> vget failure ''phase'' = VStr ''load'')
                then p1\<lparr>pf_oom := max (pf_oom p1) required\<rparr> else p1)
      in p2\<lparr>pf_observed := ob_time ob\<rparr>)"

definition learn_profile ::
    "(pyval \<Rightarrow> string) \<Rightarrow> rcontext \<Rightarrow> observation \<Rightarrow> int \<Rightarrow> (string, profile) dict \<Rightarrow> (string, profile) dict" where
  "learn_profile fp c ob required d =
     (let p = (case map_of d (context_key fp c) of
                 None \<Rightarrow> \<lparr>pf_context = c, pf_samples = 0, pf_peak = 0, pf_oom = 0, pf_observed = 0\<rparr>
               | Some p \<Rightarrow> p)
      in evict pf_observed (dput (context_key fp c) (learn c ob required p) d))"

text \<open>The file after the observation was stored.\<close>

definition store :: "(pyval \<Rightarrow> string) \<Rightarrow> observation \<Rightarrow> int \<Rightarrow> history \<Rightarrow> history" where
  "store fp ob required h =
     (let name = (case ob_name ob of None \<Rightarrow> ob_task ob | Some n \<Rightarrow> if n = [] then ob_task ob else n)
      in \<lparr>hs_models = evict bk_observed (case model_anchor_key (ob_anchor ob) of
                         None \<Rightarrow> hs_models h | Some k \<Rightarrow> update_record k ob (hs_models h)),
          hs_tasks = evict bk_observed (update_record name ob (hs_tasks h)),
          hs_recent = keep_last max_recent (hs_recent h @ [ob]),
          hs_profiles = (case ob_context ob of None \<Rightarrow> hs_profiles h
                         | Some c \<Rightarrow> learn_profile fp c ob required (hs_profiles h)),
          hs_ids = (case ob_id ob of None \<Rightarrow> hs_ids h
                    | Some i \<Rightarrow> if i = [] then hs_ids h else keep_last max_observation_ids (hs_ids h @ [i]))\<rparr>)"

definition record_observation ::
    "(pyval \<Rightarrow> string) \<Rightarrow> time \<Rightarrow> string \<Rightarrow> string \<Rightarrow> string option \<Rightarrow> string \<Rightarrow> pyval \<Rightarrow> pyval \<Rightarrow>
     (string, pyval) dict \<Rightarrow> pyval \<Rightarrow> pyval \<Rightarrow> rcontext option \<Rightarrow> string option \<Rightarrow> int \<Rightarrow> history \<Rightarrow>
     (history \<times> observation) result" where
  "record_observation fp now run task name status resources anchor metrics error node context oid required h =
     rbind (normalize_resources resources) (\<lambda>requested.
     rbind (peak_gpu_bytes metrics) (\<lambda>peak.
       let ob = \<lparr>ob_run = run, ob_task = task, ob_name = name, ob_status = status, ob_time = now,
                 ob_requested = requested, ob_anchor = anchor, ob_node = node, ob_metrics = metrics,
                 ob_error = (if is_dict error then error else VNone), ob_peak = peak, ob_id = oid,
                 ob_context = context\<rparr>
       in if oid \<notin> {None, Some []} \<and> the oid \<in> set (hs_ids h) then Inr (h, ob)
          else Inr (store fp ob required h, ob)))"

inductive history_step :: "(pyval \<Rightarrow> string) \<Rightarrow> history \<Rightarrow> history \<Rightarrow> bool" for fp where
  recorded: "record_observation fp now run task name status res anchor metrics error node context oid required h
    = Inr (h', ob) \<Longrightarrow> history_step fp h h'"

definition reachable_history :: "(pyval \<Rightarrow> string) \<Rightarrow> history \<Rightarrow> bool" where
  "reachable_history fp h = (history_step fp)\<^sup>*\<^sup>* empty_history h"

section \<open>Facts\<close>

text \<open>The size classes are the powers of two, and a size is in its class.\<close>

lemma bit_length_bounds: "n < 2 ^ bit_length n \<and> (n \<noteq> 0 \<longrightarrow> 2 ^ bit_length n \<le> 2 * n)"
proof (induction n rule: bit_length.induct)
  case (1 n)
  show ?case
  proof (cases "n = 0")
    case False
    then have ih: "n div 2 < 2 ^ bit_length (n div 2)" "n div 2 \<noteq> 0 \<longrightarrow> 2 ^ bit_length (n div 2) \<le> 2 * (n div 2)"
      using 1 by blast+
    have b: "bit_length n = Suc (bit_length (n div 2))" using False by (subst bit_length.simps) simp
    show ?thesis
    proof (cases "n div 2 = 0")
      case True
      then have "n = 1" using False by linarith
      have "bit_length (Suc 0) = 1" by (simp add: bit_length.simps [of "Suc 0"] bit_length.simps [of 0])
      with \<open>n = 1\<close> show ?thesis by simp
    next
      case half: False
      have "n < 2 * 2 ^ bit_length (n div 2)" using ih(1) by linarith
      moreover have "2 * 2 ^ bit_length (n div 2) \<le> 2 * n" using ih(2) half by linarith
      ultimately show ?thesis by (simp add: b)
    qed
  qed (simp add: bit_length.simps [of 0])
qed

lemma size_class_bounds:
  assumes "0 < n"
  shows "n \<le> size_class n" and "size_class n < 2 * n"
proof -
  have b: "nat (n - 1) < 2 ^ bit_length (nat (n - 1))"
    "nat (n - 1) \<noteq> 0 \<longrightarrow> 2 ^ bit_length (nat (n - 1)) \<le> 2 * nat (n - 1)"
    using bit_length_bounds by blast+
  have e: "size_class n = int (2 ^ bit_length (nat (n - 1)))" by (simp add: size_class_def)
  show "n \<le> size_class n" unfolding e using b(1) assms by linarith
  show "size_class n < 2 * n"
  proof (cases "n = 1")
    case True
    then show ?thesis by (simp add: size_class_def bit_length.simps [of 0])
  next
    case False
    then show ?thesis unfolding e using b(2) assms by linarith
  qed
qed

lemma length_evict: "length d \<le> max_profiles + 1 \<Longrightarrow> d \<noteq> [] \<Longrightarrow> length (evict f d) \<le> max_profiles"
proof -
  assume l: "length d \<le> max_profiles + 1" and ne: "d \<noteq> []"
  have in1: "foldl (\<lambda>b x. if f (snd x) < f (snd b) then x else b) b xs \<in> insert b (set xs)" for b xs
  proof (induction xs arbitrary: b)
    case (Cons x xs)
    show ?case using Cons.IH [of "if f (snd x) < f (snd b) then x else b"] by auto
  qed simp
  have "oldest f d \<in> set (dkeys d)"
    using in1 [of "hd d" "tl d"] ne by (cases d) (force simp: oldest_def dkeys_def)+
  then have "length (ddel (oldest f d) d) < length d"
    by (auto simp: ddel_def AList.delete_eq dkeys_def intro!: length_filter_less)
  then show ?thesis using l by (auto simp: evict_def)
qed


lemma length_dput_le: "length (dput k v d) \<le> Suc (length d)"
  by (cases "dhas k d") (simp_all add: length_dput_new length_dput_old)

lemma dput_not_Nil [simp]: "dput k v d \<noteq> []"
  by (metis dhas_Nil dhas_dput)

lemma length_evict_dput: "length d \<le> max_profiles \<Longrightarrow> length (evict f (dput k v d)) \<le> max_profiles"
  by (rule length_evict) (use length_dput_le [of k v d] in simp_all)

lemma length_evict_le: "length d \<le> max_profiles \<Longrightarrow> evict f d = d"
  by (simp add: evict_def)

lemma length_keep_last: "length (keep_last n xs) \<le> n"
  by (simp add: keep_last_def)

text \<open>The tables stay within their limits, and a stored observation is remembered by its identifier.\<close>

definition bounded :: "history \<Rightarrow> bool" where
  "bounded h = (length (hs_profiles h) \<le> max_profiles \<and> length (hs_models h) \<le> max_profiles \<and>
     length (hs_tasks h) \<le> max_profiles \<and> length (hs_recent h) \<le> max_recent \<and>
     length (hs_ids h) \<le> max_observation_ids)"

lemma store_bounded: "bounded h \<Longrightarrow> bounded (store fp ob required h)"
  by (auto simp: bounded_def store_def Let_def length_keep_last length_evict_dput length_evict_le update_record_def
      learn_profile_def split: option.splits)

lemma record_cases:
  assumes "record_observation fp now run task name status res anchor metrics error node context oid required h = Inr (h', ob)"
  shows "h' = h \<or> h' = store fp ob required h"
  using assms by (auto simp: record_observation_def Let_def split: if_splits)

lemma reachable_bounded: "reachable_history fp h \<Longrightarrow> bounded h"
  unfolding reachable_history_def
proof (induction rule: rtranclp_induct)
  case base
  show ?case by (simp add: bounded_def empty_history_def)
next
  case (step h h')
  from step.hyps(2) show ?case by cases (auto dest!: record_cases intro: store_bounded step.IH)
qed

text \<open>
  The history file stays bounded however many observations are recorded: at most 1024 profiles, models and
  tasks, 100 recent observations and 8192 remembered identifiers.
\<close>

theorem history_bounded:
  assumes "reachable_history fp h"
  shows "length (hs_profiles h) \<le> 1024 \<and> length (hs_models h) \<le> 1024 \<and> length (hs_tasks h) \<le> 1024
    \<and> length (hs_recent h) \<le> 100 \<and> length (hs_ids h) \<le> 8192"
  using reachable_bounded [OF assms]
  by (simp add: bounded_def max_profiles_def max_recent_def max_observation_ids_def)

theorem history_bounded_witness: "length (hs_recent empty_history) \<le> 100"
  using history_bounded [of "\<lambda>_. []" empty_history] by (simp add: reachable_history_def)

lemma store_id: "ob_id ob = Some i \<Longrightarrow> i \<noteq> [] \<Longrightarrow> i \<in> set (hs_ids (store fp ob required h))"
  by (simp add: store_def Let_def keep_last_def max_observation_ids_def)

lemma record_id:
  assumes "record_observation fp now run task name status res anchor metrics error node context (Some i) required h
      = Inr (h1, ob)" and "i \<noteq> []"
  shows "i \<in> set (hs_ids h1)"
proof -
  from assms have "ob_id ob = Some i" "h1 = h \<and> i \<in> set (hs_ids h) \<or> h1 = store fp ob required h"
    by (auto simp: record_observation_def Let_def split: if_splits)
  then show ?thesis using store_id assms(2) by blast
qed

text \<open>
  Recording is idempotent: an observation recorded again under the same identifier leaves the history as
  it is, so a retried report never counts twice.
\<close>

theorem record_idempotent:
  assumes "record_observation fp now run task name status res anchor metrics error node context (Some i) required h
      = Inr (h1, ob)"
    and "i \<noteq> []"
    and "record_observation fp now' run' task' name' status' res' anchor' metrics' error' node' context' (Some i) required' h1
      = Inr (h2, ob')"
  shows "h2 = h1"
  using record_id [OF assms(1,2)] assms(2,3) by (auto simp: record_observation_def Let_def)

section \<open>Learning from failures\<close>

lemma lookup_oom:
  assumes "0 \<le> required" "required < dbl" and "map_of (hs_profiles h) (context_key fp c) = Some p" "required \<le> pf_oom p"
    and "pf_oom p < dbl"
    and "\<And>q. map_of (hs_profiles h) (context_key fp (c\<lparr>cx_features := []\<rparr>)) = Some q \<Longrightarrow> pf_oom q < dbl"
  shows "required \<le> positive_int (vget (lookup_history fp c h) ''oom_lower_bound_mib'')"
proof -
  have "\<bar>pf_oom p\<bar> < dbl" using assms(1,4,5) by linarith
  then have p: "positive_int (VInt (pf_oom p)) = pf_oom p" using assms(1,4) by (simp add: positive_int_int)
  obtain n' peak' oom' where f: "found (hs_profiles h) (context_key fp (c\<lparr>cx_features := []\<rparr>)) = (n', peak', oom')"
    by (metis prod_cases3)
  have "oom' < dbl"
    using f assms(6) dbl_large [of 0] by (auto simp: found_def split: option.splits)
  then have "\<bar>max (pf_oom p) oom'\<bar> < dbl" "required \<le> max (pf_oom p) oom'" using assms(1,4,5) by auto
  then have m: "required \<le> positive_int (VInt (max (pf_oom p) oom'))" by (simp add: positive_int_int)
  show ?thesis
    unfolding lookup_history_def assms(3) Let_def found_def option.case prod.case f [unfolded found_def]
    using p m assms(4) by (simp add: vget_def profile_dict_def dgetd_def)
qed


lemma learn_oom:
  assumes "ob_status ob \<noteq> ''succeeded''" "required \<noteq> 0"
    and "cx_scope c = ''task'' \<or> cx_features c \<noteq> []"
  shows "required \<le> pf_oom (learn c ob required p)" and "pf_oom (learn c ob required p) = max (pf_oom p) required"
  using assms by (auto simp: learn_def Let_def split: option.splits)

lemma recommendation_oom:
  assumes "recommend_resources decl hist anchor failure = Inr dec"
  shows "\<exists>g. vget (effective dec) ''gpu_mem'' = VInt g \<and> positive_int (vget hist ''oom_lower_bound_mib'') \<le> g"
  by (rule recommendation_amount [OF assms]) blast

lemma learn_mono: "pf_oom p \<le> pf_oom (learn c ob r p)" "pf_oom (learn c ob r p) \<le> max (pf_oom p) r"
  by (auto simp: learn_def Let_def split: option.splits)

lemma evict_lookup: "map_of (evict f d) k = Some p \<Longrightarrow> map_of d k = Some p"
  by (auto simp: evict_def split: if_splits)

definition fresh_profile :: "rcontext \<Rightarrow> profile" where
  "fresh_profile c = \<lparr>pf_context = c, pf_samples = 0, pf_peak = 0, pf_oom = 0, pf_observed = 0\<rparr>"

lemma learn_profile_lookup:
  assumes "map_of (learn_profile fp c ob r d) k = Some p"
  shows "map_of d k = Some p \<or> k = context_key fp c \<and>
    (\<exists>p0. p = learn c ob r p0 \<and> (map_of d k = Some p0 \<or> map_of d k = None \<and> p0 = fresh_profile c))"
  using evict_lookup [OF assms [unfolded learn_profile_def Let_def]]
  by (auto simp: fresh_profile_def split: if_splits option.splits)

text \<open>What a history knows about a context: its profile is there and has met a failure with the memory \<open>r\<close>.\<close>

definition small_profiles :: "history \<Rightarrow> bool" where
  "small_profiles h = (\<forall>(k, q) \<in> set (hs_profiles h). pf_oom q < dbl)"

definition knows_failure :: "int \<Rightarrow> string \<Rightarrow> history \<Rightarrow> bool" where
  "knows_failure r k h = (\<exists>p. map_of (hs_profiles h) k = Some p \<and> r \<le> pf_oom p)"

text \<open>A later observation, of any context and outcome, after which the profile \<open>k\<close> is still in the table.\<close>

inductive kept_step :: "(pyval \<Rightarrow> string) \<Rightarrow> string \<Rightarrow> history \<Rightarrow> history \<Rightarrow> bool" for fp k where
  kept: "record_observation fp now run task name status res anchor metrics error node context oid required h = Inr (h', ob) \<Longrightarrow>
    required < dbl \<Longrightarrow> dhas k (hs_profiles h') \<Longrightarrow> kept_step fp k h h'"

lemma store_profiles:
  "hs_profiles (store fp ob r h) = (case ob_context ob of None \<Rightarrow> hs_profiles h | Some c \<Rightarrow> learn_profile fp c ob r (hs_profiles h))"
  by (simp add: store_def Let_def)

lemma small_profiles_iff: "small_profiles h \<longleftrightarrow> (\<forall>p \<in> snd ` set (hs_profiles h). pf_oom p < dbl)"
  by (auto simp: small_profiles_def)

lemma in_evict: "x \<in> set (evict f d) \<Longrightarrow> x \<in> set d"
  by (auto simp: evict_def ddel_def AList.delete_eq split: if_splits)

lemma store_small:
  assumes "small_profiles h" and "r < dbl"
  shows "small_profiles (store fp ob r h)"
proof (cases "ob_context ob")
  case (Some c)
  define p0 where "p0 = (case map_of (hs_profiles h) (context_key fp c) of None \<Rightarrow> fresh_profile c | Some p \<Rightarrow> p)"
  have "pf_oom p0 < dbl"
    using assms(1) dbl_large [of 0] map_of_SomeD by (fastforce simp: p0_def fresh_profile_def small_profiles_def split: option.split)
  then have l: "pf_oom (learn c ob r p0) < dbl" using learn_mono(2) [of c ob r p0] assms(2) by linarith
  have "hs_profiles (store fp ob r h) = evict pf_observed (dput (context_key fp c) (learn c ob r p0) (hs_profiles h))"
    by (simp add: store_profiles Some learn_profile_def Let_def p0_def fresh_profile_def cong: option.case_cong)
  moreover have "q = learn c ob r p0 \<or> (k, q) \<in> set (hs_profiles h)"
    if "(k, q) \<in> set (dput (context_key fp c) (learn c ob r p0) (hs_profiles h))" for k q
    using in_dput [OF that] by auto
  ultimately show ?thesis using assms(1) l in_evict by (fastforce simp: small_profiles_def)
qed (use assms(1) in \<open>simp add: small_profiles_def store_profiles\<close>)

lemma store_knows:
  assumes "knows_failure r k h" and "dhas k (hs_profiles (store fp ob r' h))"
  shows "knows_failure r k (store fp ob r' h)"
proof -
  obtain p where p: "map_of (hs_profiles h) k = Some p" "r \<le> pf_oom p" using assms(1) by (auto simp: knows_failure_def)
  obtain q where q: "map_of (hs_profiles (store fp ob r' h)) k = Some q" using assms(2) by (auto simp: dhas_iff)
  have "q = p \<or> (\<exists>c. q = learn c ob r' p)"
    using learn_profile_lookup [of fp _ ob r' "hs_profiles h" k q] p(1) q by (auto simp: store_profiles split: option.splits)
  then have "pf_oom p \<le> pf_oom q" using learn_mono(1) by auto
  with p(2) q show ?thesis by (auto simp: knows_failure_def)
qed

lemma kept_steps_know:
  "(kept_step fp k)\<^sup>*\<^sup>* h h' \<Longrightarrow> knows_failure r k h \<Longrightarrow> small_profiles h \<Longrightarrow> knows_failure r k h' \<and> small_profiles h'"
proof (induction rule: rtranclp_induct)
  case (step x y)
  from step.hyps(2) show ?case
    by cases (use step.IH step.prems in \<open>auto dest!: record_cases intro: store_knows store_small\<close>)
qed simp

lemma failure_known:
  assumes "record_observation fp now run task name status res anchor metrics error node (Some c) oid required h = Inr (h1, ob)"
    and "h1 \<noteq> h" and "status \<noteq> ''succeeded''" and "0 < required" and "cx_scope c = ''task'' \<or> cx_features c \<noteq> []"
    and "dhas (context_key fp c) (hs_profiles h1)"
  shows "h1 = store fp ob required h \<and> knows_failure required (context_key fp c) h1"
proof -
  have h1: "h1 = store fp ob required h" "ob_status ob = status" "ob_context ob = Some c"
    using assms(1,2) by (auto simp: record_observation_def Let_def split: if_splits)
  obtain p where p: "map_of (hs_profiles h1) (context_key fp c) = Some p" using assms(6) by (auto simp: dhas_iff)
  define p0 where "p0 = (case map_of (hs_profiles h) (context_key fp c) of None \<Rightarrow> fresh_profile c | Some p \<Rightarrow> p)"
  have e: "hs_profiles h1 = evict pf_observed (dput (context_key fp c) (learn c ob required p0) (hs_profiles h))"
    by (simp add: h1 store_profiles learn_profile_def Let_def p0_def fresh_profile_def cong: option.case_cong)
  have "p = learn c ob required p0" using evict_lookup [OF p [unfolded e]] by simp
  then have "required \<le> pf_oom p" using learn_oom(1) [of ob required c p0] h1(2) assms(3-5) by simp
  with p h1(1) show ?thesis by (auto simp: knows_failure_def)
qed



definition sample_context :: rcontext where
  "sample_context = \<lparr>cx_scope = ''task'', cx_identity = ''c'', cx_backend = [], cx_dtype = [], cx_features = []\<rparr>"

definition sample_record :: "(history \<times> observation) result" where
  "sample_record = record_observation (\<lambda>_. ''k'') 1 ''r'' ''t'' None ''failed'' VNone VNone [] VNone VNone
     (Some sample_context) (Some ''o'') 2048 empty_history"

lemma sample_record: "sample_record = Inr (fst (projr sample_record), snd (projr sample_record))"
  by code_simp

theorem record_idempotent_witness:
  "record_observation (\<lambda>_. ''k'') 2 ''r'' ''t'' None ''failed'' VNone VNone [] VNone VNone (Some sample_context) (Some ''o'') 2048
     (fst (projr sample_record)) = Inr (fst (projr sample_record), snd (projr sample_record)\<lparr>ob_time := 2\<rparr>)"
proof -
  have r: "record_observation (\<lambda>_. ''k'') 2 ''r'' ''t'' None ''failed'' VNone VNone [] VNone VNone (Some sample_context) (Some ''o'') 2048
     (fst (projr sample_record))
     = Inr (fst (projr (record_observation (\<lambda>_. ''k'') 2 ''r'' ''t'' None ''failed'' VNone VNone [] VNone VNone
         (Some sample_context) (Some ''o'') 2048 (fst (projr sample_record)))), snd (projr sample_record)\<lparr>ob_time := 2\<rparr>)"
    by code_simp
  from record_idempotent [OF sample_record [unfolded sample_record_def] _ this [unfolded sample_record_def]]
  show ?thesis using r unfolding sample_record_def by simp
qed

definition sample_later :: history where
  "sample_later = fst (projr (record_observation (\<lambda>_. ''k'') 2 ''r'' ''u'' None ''succeeded'' VNone VNone [] VNone VNone
     (Some sample_context) (Some ''o2'') 0 (fst (projr sample_record))))"

lemma sample_later_step: "kept_step (\<lambda>_. ''k'') ''k'' (fst (projr sample_record)) sample_later"
proof -
  let ?r = "record_observation (\<lambda>_. ''k'') 2 ''r'' ''u'' None ''succeeded'' VNone VNone [] VNone VNone
     (Some sample_context) (Some ''o2'') 0 (fst (projr sample_record))"
  have r: "?r = Inr (sample_later, snd (projr ?r))" unfolding sample_later_def by code_simp
  have "dhas ''k'' (hs_profiles sample_later)" by code_simp
  with kept_step.kept [OF r] dbl_large [of 0] show ?thesis by simp
qed



end
