(* ===== verification/Instance_Pool.thy ===== *)
theory Instance_Pool
  imports Scheduler_Core Resource_History
begin

text \<open>
  The pool of model servers: the registry of \<open>LlmInstanceManager\<close> in
  \<open>maze/core/scheduler/llm_instance.py\<close>. Every method takes the manager's lock for its whole body, so a
  history of the pool is a sequence of the operations below; \<open>stop_llm_instance\<close> holds the lock in three
  separate regions and is three operations. The server processes, their Ray actors and the creation of an
  actor are outside: an actor is a number, and what its calls return is an argument.

  \<open>defaultdict\<close> entries that only a lookup creates (an empty set, a zero) are not kept, every lookup here
  has the default. Sets are lists without order. Where a lookup would raise \<open>KeyError\<close> after the state has
  been changed, the change is lost in the model; no reachable pool takes that branch.
\<close>

section \<open>State\<close>

text \<open>The pair of a model and a backend that keys the tables.\<close>

datatype mkey = Key (key_model: pyval) (key_backend: string)

type_synonym anchor = "(string, pyval) dict"

text \<open>The pair \<open>(workflow, task)\<close> a request for a model is known by.\<close>

type_synonym request_key = "string \<times> string"

record instance_meta =
  li_model :: pyval
  li_served :: pyval
  li_backend :: string
  li_node :: string
  li_node_ip :: string
  li_gpu :: pyval
  li_port :: string
  li_addr :: string
  li_endpoint :: string
  li_status :: string
  li_limit :: int
  li_generation :: "string option"
  li_inflight :: int
  li_total :: int
  li_created :: time
  li_last_used :: "time option"
  li_context :: "(string, pyval) dict"
  li_decision :: "(string, pyval) dict"

record instance_detail =
  ld_model :: pyval
  ld_served :: pyval
  ld_backend :: string
  ld_host :: string
  ld_port :: "string option"
  ld_endpoint :: "string option"
  ld_status :: string
  ld_node :: string
  ld_node_ip :: string
  ld_gpu :: pyval
  ld_resources :: "(string, rat) dict"
  ld_lease :: "string option"
  ld_group :: "int option"
  ld_generation :: "string option"
  ld_auto_key :: "mkey option"
  ld_metrics :: "(string, pyval) dict"
  ld_context :: "(string, pyval) dict"
  ld_decision :: "(string, pyval) dict"

record pool =
  inst_addr :: "(string, string) dict"
  inst_actor :: "(string, nat) dict"
  details :: "(string, instance_detail) dict"
  metas :: "(string, instance_meta) dict"
  inst_state :: "(string, string) dict"
  stop_events :: "(string, bool) dict"
  cleanup_errors :: "(string, string) dict"
  runtime_errors :: "(string, string) dict"
  claims :: "string set"
  cancelled_starts :: "string set"
  auto_deploy :: "(string, mkey) dict"
  routing :: "(mkey, string list) dict"
  affinity :: "(string option \<times> mkey, string) dict"
  demand :: "(mkey, request_key list) dict"
  demand_anchors :: "(mkey, anchor) dict"
  request_anchors :: "(mkey, (request_key, anchor) dict) dict"
  admission_limits :: "(mkey, int) dict"
  deploying :: "(mkey, int) dict"
  max_requests :: int
  scale_threshold :: rat
  idle_limit :: rat

definition new_pool :: "int \<Rightarrow> rat \<Rightarrow> rat \<Rightarrow> pool" where
  "new_pool n threshold idle =
     \<lparr>inst_addr = [], inst_actor = [], details = [], metas = [], inst_state = [], stop_events = [],
      cleanup_errors = [], runtime_errors = [], claims = {}, cancelled_starts = {}, auto_deploy = [],
      routing = [], affinity = [], demand = [], demand_anchors = [], request_anchors = [],
      admission_limits = [], deploying = [], max_requests = max 1 n, scale_threshold = max (1 / 10) threshold,
      idle_limit = max 1 idle\<rparr>"

definition meta_key :: "instance_meta \<Rightarrow> mkey" where
  "meta_key m = Key (li_model m) (li_backend m)"

definition upd_meta :: "string \<Rightarrow> (instance_meta \<Rightarrow> instance_meta) \<Rightarrow> pool \<Rightarrow> pool" where
  "upd_meta i f s =
     (case map_of (metas s) i of None \<Rightarrow> s | Some m \<Rightarrow> s\<lparr>metas := dput i (f m) (metas s)\<rparr>)"

definition upd_detail :: "string \<Rightarrow> (instance_detail \<Rightarrow> instance_detail) \<Rightarrow> pool \<Rightarrow> pool" where
  "upd_detail i f s =
     (case map_of (details s) i of None \<Rightarrow> s | Some d \<Rightarrow> s\<lparr>details := dput i (f d) (details s)\<rparr>)"

section \<open>Demand\<close>

text \<open>\<open>validate_model_backend\<close> is in the theory \<open>Scheduler_Core\<close>. A list or a dictionary as a model cannot
  be hashed, and every use of the key then raises.\<close>

definition unhashable :: "pyval \<Rightarrow> bool" where
  "unhashable v = (case v of VList _ \<Rightarrow> True | VDict _ \<Rightarrow> True | _ \<Rightarrow> False)"

definition model_key_from_anchor :: "anchor \<Rightarrow> mkey option result" where
  "model_key_from_anchor a =
     (let model = vor (vget a ''local_model'') (vget a ''model'') in
      if \<not> truthy model then Inr None
      else rbind (validate_model_backend (vor (vor (vget a ''backend'') (vget a ''engine'')) (VStr ''vllm'')))
             (\<lambda>b. guard_or (\<not> unhashable model) (TypeError ''unhashable type'') (Inr (Some (Key model b)))))"

definition request_id :: "string option \<Rightarrow> string option \<Rightarrow> request_key" where
  "request_id workflow task =
     (let w = (case workflow of None \<Rightarrow> [] | Some w \<Rightarrow> w)
      in (w, case task of Some t \<Rightarrow> t | None \<Rightarrow> w))"

text \<open>\<open>max(xs, key=f)\<close>: the first of the largest.\<close>

definition max_by :: "('a \<Rightarrow> 'b::linorder) \<Rightarrow> 'a list \<Rightarrow> 'a" where
  "max_by f xs = foldl (\<lambda>b x. if f b < f x then x else b) (hd xs) (tl xs)"

definition refresh_pending_anchor :: "mkey \<Rightarrow> pool \<Rightarrow> pool" where
  "refresh_pending_anchor k s =
     (let as = dvals (dgetd (request_anchors s) k []) in
      if as = [] then s\<lparr>demand_anchors := ddel k (demand_anchors s)\<rparr>
      else s\<lparr>demand_anchors := dput k (max_by model_memory_mib as) (demand_anchors s)\<rparr>)"

definition add_demand :: "mkey \<Rightarrow> request_key \<Rightarrow> anchor \<Rightarrow> pool \<Rightarrow> pool" where
  "add_demand k q a s =
     refresh_pending_anchor k
       (s\<lparr>demand := dput k (List.insert q (dgetd (demand s) k [])) (demand s),
          request_anchors := dput k (dput q a (dgetd (request_anchors s) k [])) (request_anchors s)\<rparr>)"

definition drop_demand :: "mkey \<Rightarrow> request_key \<Rightarrow> pool \<Rightarrow> pool" where
  "drop_demand k q s =
     refresh_pending_anchor k
       (s\<lparr>demand := dput k (filter (\<lambda>x. x \<noteq> q) (dgetd (demand s) k [])) (demand s),
          request_anchors := dput k (ddel q (dgetd (request_anchors s) k [])) (request_anchors s)\<rparr>)"

text \<open>The value is the number of requests that now wait for the model.\<close>

definition record_model_demand ::
    "anchor \<Rightarrow> string option \<Rightarrow> string option \<Rightarrow> pool \<Rightarrow> (pool \<times> (mkey \<times> nat) option) result" where
  "record_model_demand a workflow task s =
     rbind (model_key_from_anchor a) (\<lambda>ko. case ko of None \<Rightarrow> Inr (s, None)
       | Some k \<Rightarrow> let s' = add_demand k (request_id workflow task) a s
                  in Inr (s', Some (k, length (dgetd (demand s') k []))))"

definition mark_model_deploying :: "pyval \<Rightarrow> string \<Rightarrow> string option \<Rightarrow> pool \<Rightarrow> pool \<times> bool" where
  "mark_model_deploying model backend inst s =
     (let k = Key model backend; up = (\<lambda>s. s\<lparr>deploying := dput k (dgetd (deploying s) k 0 + 1) (deploying s)\<rparr>)
      in case inst of None \<Rightarrow> (up s, True)
       | Some i \<Rightarrow> if dhas i (auto_deploy s) then (s, False)
                   else (up (s\<lparr>auto_deploy := dput i k (auto_deploy s)\<rparr>), True))"

definition deploying_down :: "mkey \<Rightarrow> pool \<Rightarrow> pool \<times> bool" where
  "deploying_down k s =
     (let n = dgetd (deploying s) k 0 in
      if n \<le> 0 then (s, False) else (s\<lparr>deploying := dput k (n - 1) (deploying s)\<rparr>, True))"

definition clear_model_deploying :: "pyval option \<Rightarrow> string \<Rightarrow> string option \<Rightarrow> pool \<Rightarrow> pool \<times> bool" where
  "clear_model_deploying model backend inst s =
     (case inst of
        Some i \<Rightarrow> (case map_of (auto_deploy s) i of None \<Rightarrow> (s, False)
                   | Some k \<Rightarrow> deploying_down k (s\<lparr>auto_deploy := ddel i (auto_deploy s)\<rparr>))
      | None \<Rightarrow> (case model of Some m \<Rightarrow> deploying_down (Key m backend) s | None \<Rightarrow> (s, False)))"

definition auto_deployment_has_demand :: "string \<Rightarrow> pool \<Rightarrow> bool" where
  "auto_deployment_has_demand i s =
     (case map_of (auto_deploy s) i of None \<Rightarrow> False | Some k \<Rightarrow> dgetd (demand s) k [] \<noteq> [])"

definition auto_deployment_is_orphaned :: "string \<Rightarrow> pool \<Rightarrow> bool" where
  "auto_deployment_is_orphaned i s =
     (case map_of (auto_deploy s) i of None \<Rightarrow> False | Some k \<Rightarrow> dgetd (demand s) k [] = [])"

definition has_ready_or_deploying_model :: "pyval \<Rightarrow> pyval \<Rightarrow> string option \<Rightarrow> pool \<Rightarrow> bool result" where
  "has_ready_or_deploying_model model backend excluded s =
     rbind (validate_model_backend backend) (\<lambda>b.
       let k = Key model b; n = dgetd (deploying s) k 0;
           n' = (if (case excluded of None \<Rightarrow> None | Some i \<Rightarrow> map_of (auto_deploy s) i) = Some k
                 then max 0 (n - 1) else n)
       in Inr (0 < n' \<or> (\<exists>i \<in> set (dgetd (routing s) k []). map_of (inst_state s) i = Some ''ready'')))"

section \<open>Starting an instance\<close>

text \<open>\<open>_remove_routing_registration\<close>: the instance leaves the routing set of its model and loses every
  workflow that preferred it.\<close>

definition remove_routing_registration :: "string \<Rightarrow> string option \<Rightarrow> pool \<Rightarrow> pool" where
  "remove_routing_registration i status s =
     (let s1 = (case map_of (metas s) i of None \<Rightarrow> s
                | Some m \<Rightarrow>
                    s\<lparr>routing := dput (meta_key m) (filter (\<lambda>j. j \<noteq> i) (dgetd (routing s) (meta_key m) [])) (routing s),
                      metas := (case status of None \<Rightarrow> metas s
                                | Some x \<Rightarrow> dput i (m\<lparr>li_status := x\<rparr>) (metas s))\<rparr>)
      in s1\<lparr>affinity := filter (\<lambda>(k, j). j \<noteq> i) (affinity s1)\<rparr>)"

text \<open>The instance is out of service: its state, its record and the routing tables say so.\<close>

definition withdraw :: "string \<Rightarrow> string \<Rightarrow> pool \<Rightarrow> pool" where
  "withdraw i status s =
     remove_routing_registration i (Some status)
       (upd_detail i (\<lambda>d. d\<lparr>ld_status := status\<rparr>) (s\<lparr>inst_state := dput i status (inst_state s)\<rparr>))"

text \<open>\<open>fresh\<close> is the generation \<open>uuid.uuid4().hex\<close> would make.\<close>

definition register_starting_instance ::
    "string \<Rightarrow> nat \<Rightarrow> pyval \<Rightarrow> string \<Rightarrow> string \<Rightarrow> string \<Rightarrow> pyval \<Rightarrow> (string, rat) dict \<Rightarrow> string option \<Rightarrow>
     string option \<Rightarrow> pyval \<Rightarrow> string \<Rightarrow> pool \<Rightarrow> pool result" where
  "register_starting_instance i actor model backend node ip gpu resources lease generation served fresh s =
     (if i \<in> cancelled_starts s then Inl (RuntimeError ''startup was cancelled'')
      else if dhas i (inst_actor s) then Inl (RuntimeError ''is already registered'')
      else Inr (s\<lparr>inst_actor := dput i actor (inst_actor s),
                  details := dput i \<lparr>ld_model = model, ld_served = vor served model, ld_backend = backend,
                    ld_host = ip, ld_port = None, ld_endpoint = None, ld_status = ''launching'', ld_node = node,
                    ld_node_ip = ip, ld_gpu = gpu, ld_resources = resources, ld_lease = lease, ld_group = None,
                    ld_generation = (if generation \<in> {None, Some []} then Some fresh else generation),
                    ld_auto_key = map_of (auto_deploy s) i, ld_metrics = [], ld_context = [],
                    ld_decision = []\<rparr> (details s),
                  inst_state := dput i ''launching'' (inst_state s),
                  stop_events := dput i False (stop_events s),
                  cleanup_errors := ddel i (cleanup_errors s),
                  runtime_errors := ddel i (runtime_errors s)\<rparr>))"

text \<open>What the launched server reports of itself.\<close>

record launch_info =
  la_backend :: string
  la_port :: string
  la_group :: "int option"

definition record_launch :: "string \<Rightarrow> nat \<Rightarrow> launch_info \<Rightarrow> pool \<Rightarrow> (pool \<times> string) result" where
  "record_launch i actor info s =
     (if map_of (inst_actor s) i \<noteq> Some actor then Inl (RuntimeError ''launch was cancelled'')
      else if map_of (inst_state s) i \<noteq> Some ''launching'' then Inl (RuntimeError ''is stopping'')
      else (case map_of (details s) i of None \<Rightarrow> Inl (KeyError i)
        | Some d \<Rightarrow>
            if la_backend info \<noteq> ld_backend d then Inl (RuntimeError ''launched unexpected backend'')
            else (let addr = ld_node_ip d @ '':'' @ la_port info in
                  Inr (s\<lparr>details := dput i (d\<lparr>ld_port := Some (la_port info),
                            ld_endpoint := Some (''http://'' @ addr @ ''/v1''), ld_group := la_group info\<rparr>) (details s),
                         inst_addr := dput i addr (inst_addr s)\<rparr>, la_port info))))"

definition or_else :: "'a option \<Rightarrow> 'a option \<Rightarrow> 'a option" where
  "or_else a b = (case a of None \<Rightarrow> b | Some x \<Rightarrow> Some x)"

text \<open>
  \<open>register_instance\<close>: the instance becomes routable. Only \<open>_mark_ready\<close> calls it in the system, with the
  record of the launching instance; \<open>blank\<close> holds the entries a record without a predecessor has not.
\<close>

definition blank_detail :: instance_detail where
  "blank_detail =
     \<lparr>ld_model = VNone, ld_served = VNone, ld_backend = [], ld_host = [], ld_port = None, ld_endpoint = None,
      ld_status = [], ld_node = [], ld_node_ip = [], ld_gpu = VNone, ld_resources = [], ld_lease = None,
      ld_group = None, ld_generation = None, ld_auto_key = None, ld_metrics = [], ld_context = [], ld_decision = []\<rparr>"

definition ready_detail :: "instance_detail \<Rightarrow> pyval \<Rightarrow> pyval \<Rightarrow> string \<Rightarrow> string \<Rightarrow> string \<Rightarrow> string \<Rightarrow> pyval \<Rightarrow>
     (string, rat) dict \<Rightarrow> string option \<Rightarrow> int option \<Rightarrow> string option \<Rightarrow> instance_detail" where
  "ready_detail d model served backend ip port node gpu resources lease grp gen =
     d\<lparr>ld_model := model, ld_served := served, ld_backend := backend, ld_host := ip, ld_port := Some port,
       ld_endpoint := Some (''http://'' @ ip @ '':'' @ port @ ''/v1''), ld_status := ''ready'', ld_node := node,
       ld_node_ip := ip, ld_gpu := gpu, ld_resources := resources, ld_lease := or_else lease (ld_lease d),
       ld_group := or_else grp (ld_group d), ld_generation := or_else gen (ld_generation d)\<rparr>"

definition register_instance ::
    "time \<Rightarrow> string \<Rightarrow> pyval \<Rightarrow> string \<Rightarrow> string \<Rightarrow> pyval \<Rightarrow> string \<Rightarrow> (string, rat) dict \<Rightarrow> pyval \<Rightarrow>
     string option \<Rightarrow> int option \<Rightarrow> string option \<Rightarrow> pyval \<Rightarrow> pool \<Rightarrow> (pool \<times> instance_meta) result" where
  "register_instance now i model ip node gpu port resources backend0 lease grp gen served0 s =
     rbind (validate_model_backend backend0) (\<lambda>backend.
       let served = vor served0 model; k = Key model backend; addr = ip @ '':'' @ port;
           old = (case map_of (details s) i of None \<Rightarrow> blank_detail | Some d \<Rightarrow> d);
           prev = map_of (metas s) i;
           m = \<lparr>li_model = model, li_served = served, li_backend = backend, li_node = node, li_node_ip = ip,
                li_gpu = gpu, li_port = port, li_addr = addr, li_endpoint = ''http://'' @ addr @ ''/v1'',
                li_status = ''ready'', li_limit = dgetd (admission_limits s) k (max_requests s),
                li_generation = (if gen \<in> {None, Some []} then ld_generation old else gen),
                li_inflight = (case prev of None \<Rightarrow> 0 | Some p \<Rightarrow> li_inflight p),
                li_total = (case prev of None \<Rightarrow> 0 | Some p \<Rightarrow> li_total p),
                li_created = (case prev of None \<Rightarrow> now | Some p \<Rightarrow> li_created p),
                li_last_used = (case prev of None \<Rightarrow> None | Some p \<Rightarrow> li_last_used p),
                li_context = (case prev of None \<Rightarrow> [] | Some p \<Rightarrow> li_context p),
                li_decision = (case prev of None \<Rightarrow> [] | Some p \<Rightarrow> li_decision p)\<rparr>
       in Inr (fst (clear_model_deploying None ''vllm'' (Some i)
                 (s\<lparr>inst_addr := dput i addr (inst_addr s),
                    details := dput i (ready_detail old model served backend ip port node gpu resources lease grp gen)
                                 (details s),
                    metas := dput i m (metas s),
                    inst_state := dput i ''ready'' (inst_state s),
                    routing := dput k (List.insert i (dgetd (routing s) k [])) (routing s)\<rparr>)), m))"

definition mark_ready :: "time \<Rightarrow> string \<Rightarrow> nat \<Rightarrow> pool \<Rightarrow> (pool \<times> instance_meta) result" where
  "mark_ready now i actor s =
     (if map_of (inst_actor s) i \<noteq> Some actor then Inl (RuntimeError ''launch was cancelled'')
      else if map_of (inst_state s) i \<noteq> Some ''launching'' then Inl (RuntimeError ''is stopping'')
      else (case map_of (details s) i of None \<Rightarrow> Inl (KeyError i)
        | Some d \<Rightarrow>
            register_instance now i (ld_model d) (ld_node_ip d) (ld_node d) (ld_gpu d)
              (case ld_port d of None \<Rightarrow> ''None'' | Some p \<Rightarrow> p) (ld_resources d) (VStr (ld_backend d)) (ld_lease d)
              (ld_group d) (ld_generation d) (ld_served d) s))"

definition request_start_cancellation :: "string \<Rightarrow> pool \<Rightarrow> pool \<times> string option" where
  "request_start_cancellation i s0 =
     (let s = s0\<lparr>cancelled_starts := insert i (cancelled_starts s0)\<rparr>; st = map_of (inst_state s) i
      in if st \<notin> {Some ''launching'', Some ''ready''} then (s, st)
         else (let s1 = withdraw i ''stopping'' s in
               (s1\<lparr>cleanup_errors := ddel i (cleanup_errors s1), stop_events := dput i False (stop_events s1),
                   claims := insert i (claims s1)\<rparr>, st)))"

definition clear_start_cancellation :: "string \<Rightarrow> pool \<Rightarrow> pool" where
  "clear_start_cancellation i s = s\<lparr>cancelled_starts := cancelled_starts s - {i}\<rparr>"

definition set_resource_decision :: "string \<Rightarrow> anchor \<Rightarrow> anchor \<Rightarrow> pool \<Rightarrow> pool result" where
  "set_resource_decision i context decision s =
     (case (map_of (details s) i, map_of (metas s) i) of
        (Some d, Some m) \<Rightarrow>
          Inr (s\<lparr>details := dput i (d\<lparr>ld_context := context, ld_decision := decision\<rparr>) (details s),
                 metas := dput i (m\<lparr>li_context := context, li_decision := decision\<rparr>) (metas s)\<rparr>)
      | _ \<Rightarrow> Inl (KeyError i))"


section \<open>Routing\<close>

text \<open>
  What the caller of \<open>route_model_request\<close> gets: the endpoint to use and how the choice was made.
\<close>

record route_info =
  rt_model :: pyval
  rt_served :: pyval
  rt_backend :: string
  rt_instance :: string
  rt_endpoint :: string
  rt_addr :: string
  rt_node :: string
  rt_node_ip :: string
  rt_gpu :: pyval
  rt_generation :: "string option"
  rt_workflow :: "string option"
  rt_hit :: bool
  rt_inflight :: int

text \<open>
  The identity a request insists on, when its anchor names a checkpoint or a revision:
  \<open>context_for_task(model_anchor=model_anchor).identity\<close>. \<open>fingerprint\<close> is the SHA-256 of the JSON text, an
  argument; without code there is no dtype to read from it.
\<close>

definition expected_identity :: "(pyval \<Rightarrow> string) \<Rightarrow> anchor \<Rightarrow> string option" where
  "expected_identity fingerprint a =
     (if truthy (vget a ''checkpoint_fingerprint'') \<or> truthy (vget a ''revision'')
      then Some (cx_identity (context_for_task fingerprint (\<lambda>_. []) VNone VNone VNone a))
      else None)"

definition identity_fits :: "string option \<Rightarrow> instance_meta \<Rightarrow> bool" where
  "identity_fits expected m =
     (case expected of None \<Rightarrow> True
      | Some e \<Rightarrow> (let v = vget (li_context m) ''identity'' in v = VNone \<or> v = VStr e))"

definition route_fits :: "pool \<Rightarrow> int \<Rightarrow> string option \<Rightarrow> string \<Rightarrow> bool result" where
  "route_fits s required expected i =
     (case map_of (metas s) i of None \<Rightarrow> Inr False
      | Some m \<Rightarrow>
          if map_of (inst_state s) i \<noteq> Some ''ready'' then Inr False
          else (case map_of (details s) i of None \<Rightarrow> Inl (KeyError i)
            | Some d \<Rightarrow> Inr (of_int required \<le> dgetd (ld_resources d) ''gpu_mem'' 0 \<and> identity_fits expected m)))"

definition route_candidates :: "pool \<Rightarrow> mkey \<Rightarrow> int \<Rightarrow> string option \<Rightarrow> string list result" where
  "route_candidates s k required expected =
     rbind (rmap (\<lambda>i. rbind (route_fits s required expected i) (\<lambda>b. Inr (i, b))) (sort (dgetd (routing s) k [])))
       (\<lambda>ps. Inr (map fst (filter snd ps)))"

definition has_room :: "pool \<Rightarrow> string \<Rightarrow> bool" where
  "has_room s i = (case map_of (metas s) i of None \<Rightarrow> False | Some m \<Rightarrow> li_inflight m < li_limit m)"

definition route_rank :: "pool \<Rightarrow> string \<Rightarrow> rank" where
  "route_rank s i =
     (case map_of (metas s) i of None \<Rightarrow> Rank [0, 0] i
      | Some m \<Rightarrow> Rank [of_int (li_inflight m), case li_last_used m of None \<Rightarrow> 0 | Some t \<Rightarrow> t] i)"

text \<open>The instance that serves, and whether the workflow's affinity chose it.\<close>

definition choose_route :: "pool \<Rightarrow> string option \<Rightarrow> mkey \<Rightarrow> string list \<Rightarrow> (string \<times> bool) option" where
  "choose_route s workflow k cs =
     (let spread = (let av = filter (has_room s) cs in
                    if av = [] then None else Some (hd (sort_key (route_rank s) av), False))
      in case map_of (affinity s) (workflow, k) of
           Some i \<Rightarrow> if i \<in> set cs \<and> has_room s i then Some (i, True) else spread
         | None \<Rightarrow> spread)"

definition admit :: "time \<Rightarrow> string option \<Rightarrow> mkey \<Rightarrow> request_key \<Rightarrow> string \<Rightarrow> bool \<Rightarrow> pool \<Rightarrow> (pool \<times> route_info option) result" where
  "admit now workflow k q i hit s =
     (case map_of (metas s) i of None \<Rightarrow> Inl (KeyError i)
      | Some m0 \<Rightarrow>
          (let m = m0\<lparr>li_inflight := li_inflight m0 + 1, li_total := li_total m0 + 1, li_last_used := Some now\<rparr>;
               s1 = (if \<not> hit \<and> workflow \<notin> {None, Some []}
                     then s\<lparr>affinity := dput (workflow, k) i (affinity s)\<rparr> else s)
           in Inr (drop_demand k q (s1\<lparr>metas := dput i m (metas s1)\<rparr>),
                   Some \<lparr>rt_model = key_model k, rt_served = vor (li_served m) (key_model k), rt_backend = key_backend k,
                         rt_instance = i, rt_endpoint = li_endpoint m, rt_addr = li_addr m, rt_node = li_node m,
                         rt_node_ip = li_node_ip m, rt_gpu = li_gpu m, rt_generation = li_generation m,
                         rt_workflow = workflow, rt_hit = hit, rt_inflight = li_inflight m\<rparr>)))"

definition route_model_request ::
    "time \<Rightarrow> (pyval \<Rightarrow> string) \<Rightarrow> string option \<Rightarrow> anchor \<Rightarrow> string option \<Rightarrow> pool \<Rightarrow> (pool \<times> route_info option) result" where
  "route_model_request now fingerprint workflow a task s =
     rbind (model_key_from_anchor a) (\<lambda>ko. case ko of None \<Rightarrow> Inr (s, None)
       | Some k \<Rightarrow>
           let q = request_id workflow task in
           rbind (route_candidates s k (model_memory_mib a) (expected_identity fingerprint a)) (\<lambda>cs.
             case choose_route s workflow k cs of
               None \<Rightarrow> rbind (record_model_demand a workflow task s) (\<lambda>(s', _). Inr (s', None))
             | Some (i, hit) \<Rightarrow> admit now workflow k q i hit s))"

text \<open>A released route; the caller passes the instance the route names.\<close>

definition release_model_route :: "time \<Rightarrow> string option \<Rightarrow> pool \<Rightarrow> pool" where
  "release_model_route now inst s =
     (case inst of None \<Rightarrow> s
      | Some i \<Rightarrow> upd_meta i (\<lambda>m. m\<lparr>li_inflight := max 0 (li_inflight m - 1), li_last_used := Some now\<rparr>) s)"

text \<open>\<open>clear_workflow_state\<close> returns the automatic deployments nobody waits for any more.\<close>

definition forget_requests :: "string \<Rightarrow> pool \<Rightarrow> mkey \<Rightarrow> pool" where
  "forget_requests w s k =
     (let rs = filter (\<lambda>q. fst q \<noteq> w) (dgetd (demand s) k []) in
      refresh_pending_anchor k
        (s\<lparr>demand := dput k rs (demand s),
           request_anchors := dput k (filter (\<lambda>(q, a). q \<in> set rs) (dgetd (request_anchors s) k []))
                                (request_anchors s)\<rparr>))"

definition clear_workflow_state :: "string option \<Rightarrow> pool \<Rightarrow> pool \<times> string list" where
  "clear_workflow_state workflow s =
     (case workflow of
        None \<Rightarrow> (s, [])
      | Some w \<Rightarrow>
          if w = [] then (s, [])
          else (let s1 = foldl (forget_requests w) s (dkeys (demand s));
                    s2 = s1\<lparr>affinity := filter (\<lambda>((u, k), i). u \<noteq> Some w) (affinity s1)\<rparr>
                in (s2, sort (map fst (filter (\<lambda>(i, k). dgetd (demand s2) k [] = []) (auto_deploy s2))))))"

section \<open>Recovery from memory failures\<close>

text \<open>
  \<open>prepare_memory_recovery\<close>: with requests in flight the instance goes on, one request at a time;
  without, it drains. The value says whether the caller has to wait.
\<close>

definition prepare_memory_recovery :: "string \<Rightarrow> pool \<Rightarrow> (pool \<times> bool) result" where
  "prepare_memory_recovery i s =
     (case map_of (metas s) i of None \<Rightarrow> Inl (KeyError i)
      | Some m \<Rightarrow>
          if map_of (inst_state s) i \<noteq> Some ''ready''
          then Inl (RuntimeError ''Model instance is already being recovered or stopped'')
          else if 0 < li_inflight m
          then Inr (s\<lparr>metas := dput i (m\<lparr>li_limit := 1\<rparr>) (metas s),
                      admission_limits := dput (meta_key m) 1 (admission_limits s)\<rparr>, True)
          else Inr (remove_routing_registration i (Some ''draining'')
                      (s\<lparr>inst_state := dput i ''draining'' (inst_state s)\<rparr>), False))"

text \<open>One poll of \<open>wait_for_admission\<close>.\<close>

definition admission_open :: "string \<Rightarrow> pool \<Rightarrow> bool" where
  "admission_open i s = (case map_of (metas s) i of None \<Rightarrow> True | Some m \<Rightarrow> li_inflight m < li_limit m)"

definition undersized_idle_instances ::
    "(pyval \<Rightarrow> string) \<Rightarrow> mkey \<Rightarrow> int \<Rightarrow> anchor \<Rightarrow> pool \<Rightarrow> string list result" where
  "undersized_idle_instances fingerprint k required a s =
     (let expected = (if a = [] then None else expected_identity fingerprint a)
      in rbind (rmap (\<lambda>i.
           if map_of (inst_state s) i \<noteq> Some ''ready'' then Inr (i, False)
           else (case (map_of (metas s) i, map_of (details s) i) of
                   (Some m, Some d) \<Rightarrow>
                     Inr (i, li_inflight m = 0 \<and>
                       (dgetd (ld_resources d) ''gpu_mem'' 0 < of_int required \<or> \<not> identity_fits expected m))
                 | _ \<Rightarrow> Inl (KeyError i))) (dgetd (routing s) k []))
         (\<lambda>ps. Inr (map fst (filter snd ps))))"

definition runtime_failure :: "string \<Rightarrow> nat \<Rightarrow> string \<Rightarrow> pool \<Rightarrow> pool" where
  "runtime_failure i actor failure s =
     (if map_of (inst_actor s) i \<noteq> Some actor \<or> map_of (inst_state s) i \<noteq> Some ''ready'' then s
      else (let s1 = withdraw i ''unhealthy'' s in s1\<lparr>runtime_errors := dput i failure (runtime_errors s1)\<rparr>))"

definition record_metrics :: "string \<Rightarrow> nat \<Rightarrow> anchor \<Rightarrow> pool \<Rightarrow> pool" where
  "record_metrics i actor metrics s =
     (if metrics = [] \<or> map_of (inst_actor s) i \<noteq> Some actor then s
      else upd_detail i (\<lambda>d. d\<lparr>ld_metrics := dput ''measurement_phase'' (VStr ''runtime'') metrics\<rparr>) s)"


section \<open>Scaling\<close>

record recommendation =
  sr_key :: mkey
  sr_pending :: nat
  sr_active :: nat
  sr_deploying :: int
  sr_ratio :: "rat option"
  sr_gpu_mem :: int
  sr_anchor :: anchor
  sr_reason :: string

text \<open>\<open>sr_ratio\<close> is \<open>None\<close> for the infinite ratio of a model nothing serves.\<close>

definition recommend_for :: "pool \<Rightarrow> mkey \<Rightarrow> nat \<Rightarrow> recommendation option" where
  "recommend_for s k n =
     (let active = length (dgetd (routing s) k []); dep = dgetd (deploying s) k 0;
          d = int active + dep; limit = scale_threshold s * of_int d; a = dgetd (demand_anchors s) k []
      in if n = 0 then None
         else if 0 < d \<and> (of_nat n < limit \<or> 0 < dep \<and> of_nat n \<le> limit) then None
         else Some \<lparr>sr_key = k, sr_pending = n, sr_active = active, sr_deploying = dep,
                    sr_ratio = (if d = 0 then None else Some (of_nat n / of_int d)),
                    sr_gpu_mem = model_memory_mib a, sr_anchor = a,
                    sr_reason = (if d = 0 then ''no_active_instance'' else ''pending_ratio_exceeded'')\<rparr>)"

definition scale_out_recommendations :: "pool \<Rightarrow> recommendation list" where
  "scale_out_recommendations s = List.map_filter (\<lambda>(k, rs). recommend_for s k (length rs)) (demand s)"

text \<open>\<open>last_used_time or created_time or x\<close>, where a reading of zero counts as none.\<close>

definition idle_since :: "instance_meta \<Rightarrow> time \<Rightarrow> time" where
  "idle_since m x =
     (case li_last_used m of
        Some t \<Rightarrow> if t \<noteq> 0 then t else if li_created m \<noteq> 0 then li_created m else x
      | None \<Rightarrow> if li_created m \<noteq> 0 then li_created m else x)"

definition lru_scale_in_candidates :: "time \<Rightarrow> rat option \<Rightarrow> pool \<Rightarrow> (string \<times> time \<times> rat) list" where
  "lru_scale_in_candidates now idle s =
     (let limit = (case idle of None \<Rightarrow> idle_limit s | Some x \<Rightarrow> x)
      in map (\<lambda>(i, m). (i, idle_since m now, now - idle_since m now))
           (sort_key (\<lambda>(i, m). idle_since m 0)
             (filter (\<lambda>(i, m). map_of (inst_state s) i = Some ''ready'' \<and> li_inflight m \<le> 0 \<and>
                               limit \<le> now - idle_since m now) (metas s))))"

text \<open>\<open>claim_lru_scale_in\<close> takes an idle instance out of the routing before it is stopped.\<close>

definition claim_lru_scale_in ::
    "string \<Rightarrow> time option \<Rightarrow> time \<Rightarrow> rat option \<Rightarrow> bool \<Rightarrow> pool \<Rightarrow> (pool \<times> bool) result" where
  "claim_lru_scale_in i expected now idle no_pending s =
     (let limit = (case idle of None \<Rightarrow> idle_limit s | Some x \<Rightarrow> x) in
      if map_of (inst_state s) i \<noteq> Some ''ready'' then Inr (s, False)
      else (case map_of (metas s) i of None \<Rightarrow> Inr (s, False)
        | Some m \<Rightarrow>
            if li_inflight m \<noteq> 0 then Inr (s, False)
            else if no_pending \<and> dgetd (demand s) (meta_key m) [] \<noteq> [] then Inr (s, False)
            else if expected \<notin> {None, Some (idle_since m now)} then Inr (s, False)
            else if now - idle_since m now < limit then Inr (s, False)
            else guard_or (dhas i (details s)) (KeyError i)
              (let s1 = withdraw i ''stopping'' s in
               Inr (s1\<lparr>cleanup_errors := ddel i (cleanup_errors s1), stop_events := dput i False (stop_events s1),
                       claims := insert i (claims s1)\<rparr>, True))))"

definition cancel_lru_scale_in_claim :: "string \<Rightarrow> pool \<Rightarrow> pool \<times> bool" where
  "cancel_lru_scale_in_claim i s =
     (if i \<notin> claims s \<or> map_of (inst_state s) i \<noteq> Some ''stopping'' then (s, False)
      else (case (map_of (metas s) i, map_of (details s) i) of
              (Some m, Some d) \<Rightarrow>
                (s\<lparr>claims := claims s - {i}, inst_state := dput i ''ready'' (inst_state s),
                   details := dput i (d\<lparr>ld_status := ''ready''\<rparr>) (details s),
                   metas := dput i (m\<lparr>li_status := ''ready''\<rparr>) (metas s),
                   routing := dput (meta_key m) (List.insert i (dgetd (routing s) (meta_key m) [])) (routing s)\<rparr>, True)
            | _ \<Rightarrow> (s, False)))"

section \<open>Stopping an instance\<close>

definition finalize_stopped_instance :: "string \<Rightarrow> nat option \<Rightarrow> pool \<Rightarrow> (pool \<times> bool) result" where
  "finalize_stopped_instance i expected s =
     (if expected \<noteq> None \<and> map_of (inst_actor s) i \<noteq> expected then Inr (s, False)
      else (case map_of (inst_state s) i of None \<Rightarrow> Inr (s, False)
        | Some st \<Rightarrow>
            if st \<noteq> ''stopped'' then Inl (RuntimeError ''Cannot forget LLM instance'')
            else (let s1 = remove_routing_registration i None s;
                      s2 = s1\<lparr>inst_actor := ddel i (inst_actor s1), inst_addr := ddel i (inst_addr s1),
                              details := ddel i (details s1), metas := ddel i (metas s1),
                              inst_state := ddel i (inst_state s1), stop_events := ddel i (stop_events s1),
                              cleanup_errors := ddel i (cleanup_errors s1),
                              runtime_errors := ddel i (runtime_errors s1)\<rparr>;
                      s3 = fst (clear_model_deploying None ''vllm'' (Some i) s2)
                  in Inr (s3\<lparr>claims := claims s3 - {i}, cancelled_starts := cancelled_starts s3 - {i}\<rparr>, True))))"

text \<open>
  The first locked region of \<open>stop_llm_instance\<close>: the instance is another one by now, was stopped before,
  is stopped by somebody else (wait for the event), or is the caller's to stop.
\<close>

datatype stop_call = Stop_gone | Stop_done | Stop_wait | Stop_owner "nat option"

definition begin_stop :: "string \<Rightarrow> bool \<Rightarrow> nat option \<Rightarrow> pool \<Rightarrow> (pool \<times> stop_call) result" where
  "begin_stop i final expected s =
     (let actor = map_of (inst_actor s) i in
      if expected \<noteq> None \<and> actor \<noteq> expected then Inr (s, Stop_gone)
      else if \<not> dhas i (details s) then Inl (KeyError i)
      else (let st = dgetd (inst_state s) i ''ready''; s1 = s\<lparr>stop_events := dsetdefault i False (stop_events s)\<rparr> in
        if st = ''stopped''
        then (if final then rbind (finalize_stopped_instance i actor s1) (\<lambda>(s2, _). Inr (s2, Stop_done))
              else Inr (s1, Stop_done))
        else if st = ''stopping''
        then Inr (s1\<lparr>claims := claims s1 - {i}\<rparr>, if i \<in> claims s1 then Stop_owner actor else Stop_wait)
        else (let s2 = withdraw i ''stopping'' s1 in
              Inr (s2\<lparr>cleanup_errors := ddel i (cleanup_errors s2), stop_events := dput i False (stop_events s2)\<rparr>,
                   Stop_owner actor))))"

text \<open>The region a waiting caller enters when the event was set.\<close>

definition after_wait :: "string \<Rightarrow> bool \<Rightarrow> nat option \<Rightarrow> nat option \<Rightarrow> pool \<Rightarrow> (pool \<times> stop_call) result" where
  "after_wait i final expected actor s =
     (if expected \<noteq> None \<and> map_of (inst_actor s) i \<noteq> expected then Inr (s, Stop_gone)
      else (case map_of (inst_state s) i of
          None \<Rightarrow> Inr (s, Stop_done)
        | Some st \<Rightarrow>
            if st = ''stopped''
            then (if final then rbind (finalize_stopped_instance i actor s) (\<lambda>(s2, _). Inr (s2, Stop_done))
                  else Inr (s, Stop_done))
            else Inl (RuntimeError (''Failed to stop LLM instance: '' @
                        dgetd (cleanup_errors s) i ''cleanup did not finish''))))"

definition set_status :: "string \<Rightarrow> string \<Rightarrow> pool \<Rightarrow> pool" where
  "set_status i st s =
     upd_meta i (\<lambda>m. m\<lparr>li_status := st\<rparr>)
       (upd_detail i (\<lambda>d. d\<lparr>ld_status := st\<rparr>) (s\<lparr>inst_state := dput i st (inst_state s)\<rparr>))"

definition set_stop_event :: "string \<Rightarrow> pool \<Rightarrow> pool" where
  "set_stop_event i s = (if dhas i (stop_events s) then s\<lparr>stop_events := dput i True (stop_events s)\<rparr> else s)"

text \<open>The owner's cleanup failed: the instance stays registered and may be stopped again.\<close>

definition stop_failed :: "string \<Rightarrow> nat option \<Rightarrow> string \<Rightarrow> pool \<Rightarrow> pool" where
  "stop_failed i actor err s =
     set_stop_event i
       (if dhas i (details s) \<and> map_of (inst_actor s) i = actor
        then (let s1 = set_status i ''cleanup_pending'' s in
              s1\<lparr>cleanup_errors := dput i err (cleanup_errors s1)\<rparr>)
        else s)"

definition stop_succeeded :: "string \<Rightarrow> nat option \<Rightarrow> bool \<Rightarrow> pool \<Rightarrow> pool result" where
  "stop_succeeded i actor final s =
     (if dhas i (details s) \<and> map_of (inst_actor s) i = actor
      then (let s1 = set_status i ''stopped'' s;
                s2 = set_stop_event i (s1\<lparr>cleanup_errors := ddel i (cleanup_errors s1),
                                          runtime_errors := ddel i (runtime_errors s1)\<rparr>)
            in if final then rbind (finalize_stopped_instance i actor s2) (\<lambda>(s3, _). Inr s3) else Inr s2)
      else Inr (set_stop_event i s))"

section \<open>Views\<close>

definition get_instance_resource_detail :: "string \<Rightarrow> pool \<Rightarrow> instance_detail result" where
  "get_instance_resource_detail i s = (case map_of (details s) i of None \<Rightarrow> Inl (KeyError i) | Some d \<Rightarrow> Inr d)"

definition get_instance_state :: "string \<Rightarrow> pool \<Rightarrow> string option" where
  "get_instance_state i s = map_of (inst_state s) i"

definition has_instance :: "string \<Rightarrow> pool \<Rightarrow> bool" where
  "has_instance i s = dhas i (inst_actor s)"

definition opt_str :: "string option \<Rightarrow> pyval" where
  "opt_str x = (case x of None \<Rightarrow> VNone | Some s \<Rightarrow> VStr s)"

definition get_instance_info :: "string \<Rightarrow> pool \<Rightarrow> (string, pyval) dict result" where
  "get_instance_info i s =
     (case map_of (details s) i of None \<Rightarrow> Inl (KeyError i)
      | Some d \<Rightarrow>
          (let info = [(''instance_id'', VStr i), (''model'', ld_model d), (''backend'', VStr (ld_backend d)),
                       (''host'', VStr (ld_host d)), (''port'', opt_str (ld_port d)),
                       (''endpoint'', opt_str (ld_endpoint d)), (''status'', VStr (ld_status d))];
               info' = (if ld_served d \<noteq> ld_model d then dput ''served_model'' (ld_served d) info else info)
           in Inr (dput ''memory_metrics'' (VDict (ld_metrics d)) info')))"

definition resource_metrics_for_route :: "string \<Rightarrow> string option \<Rightarrow> pool \<Rightarrow> (string, pyval) dict" where
  "resource_metrics_for_route i generation s =
     (case map_of (details s) i of None \<Rightarrow> []
      | Some d \<Rightarrow>
          if ld_generation d \<noteq> generation \<or> ld_metrics d = [] then []
          else foldl (\<lambda>m (k, v). dput k v m) (ld_metrics d)
                 [(''instance_id'', VStr i), (''model'', ld_model d), (''backend'', VStr (ld_backend d)),
                  (''node_id'', VStr (ld_node d)), (''gpu_id'', ld_gpu d),
                  (''generation_id'', opt_str (ld_generation d))])"

section \<open>Histories\<close>

text \<open>
  A fleet is the pool with what its callers hold: the routes they have not released, by instance, and the
  stops that are under way, by instance and actor. A caller releases a route it holds; a cleanup ends for
  the caller that began it. An identifier is not started again while routes to it are open.
\<close>

record fleet =
  pool_of :: pool
  open_routes :: "string list"
  stopping_now :: "(string \<times> nat) list"

inductive fleet_step :: "fleet \<Rightarrow> fleet \<Rightarrow> bool" where
  demanded: "record_model_demand a w t (pool_of f) = Inr (p, r) \<Longrightarrow> fleet_step f (f\<lparr>pool_of := p\<rparr>)"
| routed: "route_model_request now fp w a t (pool_of f) = Inr (p, Some r) \<Longrightarrow>
    fleet_step f (f\<lparr>pool_of := p, open_routes := rt_instance r # open_routes f\<rparr>)"
| refused: "route_model_request now fp w a t (pool_of f) = Inr (p, None) \<Longrightarrow> fleet_step f (f\<lparr>pool_of := p\<rparr>)"
| released: "i \<in> set (open_routes f) \<Longrightarrow>
    fleet_step f (f\<lparr>pool_of := release_model_route now (Some i) (pool_of f), open_routes := remove1 i (open_routes f)\<rparr>)"
| cleared: "fleet_step f (f\<lparr>pool_of := fst (clear_workflow_state w (pool_of f))\<rparr>)"
| deploy: "fleet_step f (f\<lparr>pool_of := fst (mark_model_deploying m b (Some i) (pool_of f))\<rparr>)"
| undeploy: "fleet_step f (f\<lparr>pool_of := fst (clear_model_deploying m b (Some i) (pool_of f))\<rparr>)"
| started: "register_starting_instance i act m b n ip g rs l gen srv fresh (pool_of f) = Inr p \<Longrightarrow>
    i \<notin> set (open_routes f) \<Longrightarrow> fleet_step f (f\<lparr>pool_of := p\<rparr>)"
| launched: "record_launch i act info (pool_of f) = Inr (p, port) \<Longrightarrow> fleet_step f (f\<lparr>pool_of := p\<rparr>)"
| ready: "mark_ready now i act (pool_of f) = Inr (p, meta) \<Longrightarrow> fleet_step f (f\<lparr>pool_of := p\<rparr>)"
| cancel_start: "fleet_step f (f\<lparr>pool_of := fst (request_start_cancellation i (pool_of f))\<rparr>)"
| uncancel: "fleet_step f (f\<lparr>pool_of := clear_start_cancellation i (pool_of f)\<rparr>)"
| decided: "set_resource_decision i c d (pool_of f) = Inr p \<Longrightarrow> fleet_step f (f\<lparr>pool_of := p\<rparr>)"
| recovery: "prepare_memory_recovery i (pool_of f) = Inr (p, wait) \<Longrightarrow> fleet_step f (f\<lparr>pool_of := p\<rparr>)"
| failure: "fleet_step f (f\<lparr>pool_of := runtime_failure i act err (pool_of f)\<rparr>)"
| measured: "fleet_step f (f\<lparr>pool_of := record_metrics i act ms (pool_of f)\<rparr>)"
| claimed: "claim_lru_scale_in i e now idle np (pool_of f) = Inr (p, ok) \<Longrightarrow> fleet_step f (f\<lparr>pool_of := p\<rparr>)"
| unclaimed: "fleet_step f (f\<lparr>pool_of := fst (cancel_lru_scale_in_claim i (pool_of f))\<rparr>)"
| stop_owned: "begin_stop i final e (pool_of f) = Inr (p, Stop_owner (Some act)) \<Longrightarrow>
    fleet_step f (f\<lparr>pool_of := p, stopping_now := (i, act) # stopping_now f\<rparr>)"
| stop_other: "begin_stop i final e (pool_of f) = Inr (p, c) \<Longrightarrow> c \<in> {Stop_gone, Stop_done, Stop_wait} \<Longrightarrow>
    fleet_step f (f\<lparr>pool_of := p\<rparr>)"
| stop_waited: "after_wait i final e (Some act) (pool_of f) = Inr (p, c) \<Longrightarrow> fleet_step f (f\<lparr>pool_of := p\<rparr>)"
| stop_fails: "(i, act) \<in> set (stopping_now f) \<Longrightarrow>
    fleet_step f (f\<lparr>pool_of := stop_failed i (Some act) err (pool_of f), stopping_now := remove1 (i, act) (stopping_now f)\<rparr>)"
| stop_ends: "(i, act) \<in> set (stopping_now f) \<Longrightarrow> stop_succeeded i (Some act) final (pool_of f) = Inr p \<Longrightarrow>
    fleet_step f (f\<lparr>pool_of := p, stopping_now := remove1 (i, act) (stopping_now f)\<rparr>)"
| finalized: "finalize_stopped_instance i e (pool_of f) = Inr (p, ok) \<Longrightarrow> fleet_step f (f\<lparr>pool_of := p\<rparr>)"

definition new_fleet :: "int \<Rightarrow> rat \<Rightarrow> rat \<Rightarrow> fleet" where
  "new_fleet n threshold idle = \<lparr>pool_of = new_pool n threshold idle, open_routes = [], stopping_now = []\<rparr>"

definition reachable_fleet :: "fleet \<Rightarrow> bool" where
  "reachable_fleet f = (\<exists>n threshold idle. fleet_step\<^sup>*\<^sup>* (new_fleet n threshold idle) f)"


end
