(* ===== verification/Instance_Safety.thy ===== *)
theory Instance_Safety
  imports Instance_Pool
begin

text \<open>
  The invariant of the model pool. \<open>books_ok\<close>: the tables know the same instances. \<open>routing_ok\<close>: the routing
  sets hold exactly the ready instances of each model. \<open>load_ok\<close>: the requests in flight are the open routes
  and never exceed the maximum. \<open>claims_ok\<close>: a claimed instance is stopping, and one cleanup at most is under
  way for it. \<open>affinity_ok\<close>: a workflow prefers only routable instances. \<open>demand_ok\<close>: the waiting requests of
  a model and the anchors kept for them. \<open>deploy_ok\<close>: the counts of the automatic deployments.
\<close>

section \<open>The invariant\<close>

definition books_ok :: "pool \<Rightarrow> bool" where
  "books_ok p = (dict_ok (metas p) \<and> (\<forall>i.
     dhas i (details p) = dhas i (inst_state p) \<and> dhas i (inst_actor p) = dhas i (inst_state p) \<and>
     (dhas i (metas p) \<longrightarrow> dhas i (inst_state p)) \<and>
     (map_of (inst_state p) i = Some ''ready'' \<longrightarrow> dhas i (metas p)) \<and>
     (map_of (inst_state p) i = Some ''launching'' \<longrightarrow> \<not> dhas i (metas p))))"

definition routable :: "pool \<Rightarrow> mkey \<Rightarrow> string \<Rightarrow> bool" where
  "routable p k i = (map_of (inst_state p) i = Some ''ready'' \<and> map_option meta_key (map_of (metas p) i) = Some k)"

definition routing_ok :: "pool \<Rightarrow> bool" where
  "routing_ok p = (\<forall>k. distinct (dgetd (routing p) k []) \<and> (\<forall>i. i \<in> set (dgetd (routing p) k []) \<longleftrightarrow> routable p k i))"

definition meta_load_ok :: "int \<Rightarrow> string list \<Rightarrow> string \<Rightarrow> instance_meta \<Rightarrow> bool" where
  "meta_load_ok n rs i m =
     (li_inflight m = int (count_list rs i) \<and> li_inflight m \<le> n \<and> 1 \<le> li_limit m \<and> li_limit m \<le> n)"

definition load_ok :: "pool \<Rightarrow> string list \<Rightarrow> bool" where
  "load_ok p rs = (1 \<le> max_requests p \<and> (\<forall>k n. map_of (admission_limits p) k = Some n \<longrightarrow> n = 1) \<and>
     (\<forall>i m. map_of (metas p) i = Some m \<longrightarrow> meta_load_ok (max_requests p) rs i m) \<and>
     (\<forall>i. dhas i (inst_state p) \<longrightarrow> \<not> dhas i (metas p) \<longrightarrow> i \<notin> set rs))"

definition claims_ok :: "pool \<Rightarrow> (string \<times> nat) list \<Rightarrow> bool" where
  "claims_ok p ss = ((\<forall>i \<in> claims p. map_of (inst_state p) i = Some ''stopping'') \<and> distinct (map fst ss) \<and>
     (\<forall>(i, a) \<in> set ss. map_of (inst_state p) i = Some ''stopping'' \<and> map_of (inst_actor p) i = Some a \<and> i \<notin> claims p))"

definition affinity_ok :: "pool \<Rightarrow> bool" where
  "affinity_ok p = (\<forall>((w, k), i) \<in> set (affinity p). w \<notin> {None, Some []} \<and> routable p k i)"

definition agree_ok :: "pool \<Rightarrow> bool" where
  "agree_ok p = (\<forall>i d m. map_of (details p) i = Some d \<longrightarrow> map_of (metas p) i = Some m \<longrightarrow>
     Key (ld_model d) (ld_backend d) = meta_key m)"

definition anchor_max :: "anchor list \<Rightarrow> anchor option \<Rightarrow> bool" where
  "anchor_max as ao =
     (case ao of None \<Rightarrow> as = []
      | Some a \<Rightarrow> a \<in> set as \<and> (\<forall>x \<in> set as. model_memory_mib x \<le> model_memory_mib a))"

definition key_demand_ok :: "mkey \<Rightarrow> request_key list \<Rightarrow> (request_key, anchor) dict \<Rightarrow> anchor option \<Rightarrow> bool" where
  "key_demand_ok k rs ras ao =
     (distinct rs \<and> dict_ok ras \<and> set rs = set (dkeys ras) \<and>
      (\<forall>a \<in> set (dvals ras). model_key_from_anchor a = Inr (Some k)) \<and> anchor_max (dvals ras) ao)"

definition demand_ok :: "pool \<Rightarrow> bool" where
  "demand_ok p = (dict_ok (demand p) \<and>
     (\<forall>k. key_demand_ok k (dgetd (demand p) k []) (dgetd (request_anchors p) k []) (map_of (demand_anchors p) k)))"

definition deploy_ok :: "pool \<Rightarrow> bool" where
  "deploy_ok p = (dict_ok (auto_deploy p) \<and>
     (\<forall>k. dgetd (deploying p) k 0 = int (length (filter (\<lambda>x. snd x = k) (auto_deploy p)))))"

definition fleet_ok :: "fleet \<Rightarrow> bool" where
  "fleet_ok f = (let p = pool_of f in
     books_ok p \<and> routing_ok p \<and> load_ok p (open_routes f) \<and> claims_ok p (stopping_now f) \<and> affinity_ok p \<and>
     agree_ok p \<and> demand_ok p \<and> deploy_ok p)"

lemma fleet_okI:
  assumes "books_ok p" "routing_ok p" "load_ok p (open_routes f)" "claims_ok p (stopping_now f)" "affinity_ok p"
    "agree_ok p" "demand_ok p" "deploy_ok p" "p = pool_of f"
  shows "fleet_ok f"
  using assms by (simp add: fleet_ok_def)

lemma fleet_okD:
  assumes "fleet_ok f"
  shows "books_ok (pool_of f)" "routing_ok (pool_of f)" "load_ok (pool_of f) (open_routes f)"
    "claims_ok (pool_of f) (stopping_now f)" "affinity_ok (pool_of f)" "agree_ok (pool_of f)"
    "demand_ok (pool_of f)" "deploy_ok (pool_of f)"
  using assms by (simp_all add: fleet_ok_def Let_def)

lemma new_fleet_ok: "fleet_ok (new_fleet n threshold idle)"
  by (rule fleet_okI) (simp_all add: new_fleet_def new_pool_def books_ok_def routing_ok_def routable_def load_ok_def
      claims_ok_def affinity_ok_def agree_ok_def demand_ok_def key_demand_ok_def anchor_max_def deploy_ok_def
      dgetd_def dkeys_def dvals_def)

lemmas pool_oks = books_ok_def routing_ok_def routable_def load_ok_def claims_ok_def affinity_ok_def agree_ok_def
  demand_ok_def deploy_ok_def

section \<open>Demand\<close>

lemma dgetd_dput [dict_simps]: "dgetd (dput k v d) x e = (if x = k then v else dgetd d x e)"
  by (simp add: dgetd_def)

lemma max_by_from:
  fixes f :: "'a \<Rightarrow> 'b::linorder"
  shows "foldl (\<lambda>b x. if f b < f x then x else b) a xs \<in> insert a (set xs) \<and>
    (\<forall>x \<in> insert a (set xs). f x \<le> f (foldl (\<lambda>b x. if f b < f x then x else b) a xs))"
proof (induction xs arbitrary: a)
  case (Cons y ys)
  show ?case
  proof (cases "f a < f y")
    case True
    then show ?thesis using Cons.IH [of y] by (auto intro: order_trans [OF less_imp_le])
  next
    case False
    then show ?thesis using Cons.IH [of a] by (auto simp: not_less intro: order_trans)
  qed
qed simp

lemma max_by_max:
  fixes f :: "'a \<Rightarrow> 'b::linorder"
  assumes "xs \<noteq> []"
  shows "max_by f xs \<in> set xs" and "x \<in> set xs \<Longrightarrow> f x \<le> f (max_by f xs)"
  using max_by_from [where a = "hd xs" and f = f and xs = "tl xs"] assms unfolding max_by_def
  by (cases xs; simp; blast)+

lemma refresh_fields [simp]:
  "demand (refresh_pending_anchor k s) = demand s"
  "request_anchors (refresh_pending_anchor k s) = request_anchors s"
  "refresh_pending_anchor k s = s\<lparr>demand_anchors := demand_anchors (refresh_pending_anchor k s)\<rparr> \<longleftrightarrow> True"
  by (simp_all add: refresh_pending_anchor_def Let_def)

text \<open>What an operation on the demand leaves alone: everything but the three tables.\<close>

definition no_demand :: "pool \<Rightarrow> pool" where
  "no_demand s = s\<lparr>demand := [], request_anchors := [], demand_anchors := []\<rparr>"

definition same_but_demand :: "pool \<Rightarrow> pool \<Rightarrow> bool" where
  "same_but_demand s s' = (no_demand s = no_demand s')"

lemma no_demand_ok:
  "books_ok (no_demand s) = books_ok s" "routing_ok (no_demand s) = routing_ok s"
  "load_ok (no_demand s) rs = load_ok s rs" "claims_ok (no_demand s) ss = claims_ok s ss"
  "affinity_ok (no_demand s) = affinity_ok s" "agree_ok (no_demand s) = agree_ok s"
  "deploy_ok (no_demand s) = deploy_ok s" "metas (no_demand s) = metas s" "inst_state (no_demand s) = inst_state s"
  "auto_deploy (no_demand s) = auto_deploy s" "deploying (no_demand s) = deploying s" "routing (no_demand s) = routing s"
  by (simp_all add: no_demand_def pool_oks)

lemma same_but_demand_ok:
  assumes "same_but_demand s s'"
  shows "books_ok s' = books_ok s" "routing_ok s' = routing_ok s" "load_ok s' rs = load_ok s rs"
    "claims_ok s' ss = claims_ok s ss" "affinity_ok s' = affinity_ok s" "agree_ok s' = agree_ok s"
    "deploy_ok s' = deploy_ok s" "metas s' = metas s" "inst_state s' = inst_state s" "auto_deploy s' = auto_deploy s"
    "deploying s' = deploying s" "routing s' = routing s"
  using assms no_demand_ok unfolding same_but_demand_def by metis+

lemma refresh_anchor_max:
  "anchor_max (dvals (dgetd (request_anchors s) x [])) (map_of (demand_anchors s) x) \<or> x = k \<Longrightarrow>
   anchor_max (dvals (dgetd (request_anchors s) x [])) (map_of (demand_anchors (refresh_pending_anchor k s)) x)"
  by (cases "x = k") (auto simp: refresh_pending_anchor_def Let_def anchor_max_def max_by_max)

text \<open>Changing the requests of one model and refreshing its anchor keeps the tables of the demand in step.\<close>

lemma demand_update_ok:
  assumes ok: "demand_ok s"
    and new: "distinct rs" "dict_ok ras" "set rs = set (dkeys ras)"
      "\<And>a. a \<in> set (dvals ras) \<Longrightarrow> model_key_from_anchor a = Inr (Some k)"
  shows "demand_ok (refresh_pending_anchor k
    (s\<lparr>demand := dput k rs (demand s), request_anchors := dput k ras (request_anchors s)\<rparr>))"
proof -
  let ?s = "s\<lparr>demand := dput k rs (demand s), request_anchors := dput k ras (request_anchors s)\<rparr>"
  have am: "anchor_max (dvals (dgetd (request_anchors ?s) x []))
      (map_of (demand_anchors (refresh_pending_anchor k ?s)) x)" for x
    by (rule refresh_anchor_max) (use ok in \<open>auto simp: demand_ok_def key_demand_ok_def dgetd_dput\<close>)
  have "key_demand_ok x (dgetd (demand ?s) x []) (dgetd (request_anchors ?s) x [])
      (map_of (demand_anchors (refresh_pending_anchor k ?s)) x)" for x
    using am [of x] ok new unfolding key_demand_ok_def demand_ok_def by (simp add: dgetd_dput)
  then show ?thesis using ok by (simp add: demand_ok_def)
qed

lemma add_demand_ok:
  assumes "demand_ok s" "model_key_from_anchor a = Inr (Some k)"
  shows "demand_ok (add_demand k q a s)" and "same_but_demand s (add_demand k q a s)"
proof -
  have k: "key_demand_ok k (dgetd (demand s) k []) (dgetd (request_anchors s) k []) (map_of (demand_anchors s) k)"
    using assms(1) by (simp add: demand_ok_def)
  show "demand_ok (add_demand k q a s)"
    unfolding add_demand_def
  proof (rule demand_update_ok [OF assms(1)])
    fix x assume "x \<in> set (dvals (dput q a (dgetd (request_anchors s) k [])))"
    then show "model_key_from_anchor x = Inr (Some k)"
      using k assms(2) by (auto simp: key_demand_ok_def in_dvals_iff split: if_splits)
  qed (use k in \<open>auto simp: key_demand_ok_def\<close>)
  show "same_but_demand s (add_demand k q a s)"
    by (simp add: same_but_demand_def no_demand_def add_demand_def refresh_pending_anchor_def Let_def)
qed

lemma drop_demand_ok:
  assumes "demand_ok s"
  shows "demand_ok (drop_demand k q s)" and "same_but_demand s (drop_demand k q s)"
proof -
  have k: "key_demand_ok k (dgetd (demand s) k []) (dgetd (request_anchors s) k []) (map_of (demand_anchors s) k)"
    using assms(1) by (simp add: demand_ok_def)
  show "demand_ok (drop_demand k q s)"
    unfolding drop_demand_def
  proof (rule demand_update_ok [OF assms(1)])
    fix x assume "x \<in> set (dvals (ddel q (dgetd (request_anchors s) k [])))"
    then show "model_key_from_anchor x = Inr (Some k)"
      using k by (auto simp: key_demand_ok_def dvals_def set_ddel)
  qed (use k in \<open>auto simp: key_demand_ok_def\<close>)
  show "same_but_demand s (drop_demand k q s)"
    by (simp add: same_but_demand_def no_demand_def drop_demand_def refresh_pending_anchor_def Let_def)
qed

lemma same_but_demand_refl: "same_but_demand s s"
  by (simp add: same_but_demand_def)

lemma same_but_demand_trans: "same_but_demand r s \<Longrightarrow> same_but_demand s t \<Longrightarrow> same_but_demand r t"
  by (simp add: same_but_demand_def)

lemma forget_requests_ok:
  assumes "demand_ok s"
  shows "demand_ok (forget_requests w s k)" and "same_but_demand s (forget_requests w s k)"
    and "dkeys (demand (forget_requests w s k)) = dkeys (dput k [] (demand s))"
    and "dgetd (demand (forget_requests w s k)) x [] =
      (if x = k then filter (\<lambda>q. fst q \<noteq> w) (dgetd (demand s) k []) else dgetd (demand s) x [])"
proof -
  let ?rs = "filter (\<lambda>q. fst q \<noteq> w) (dgetd (demand s) k [])"
  let ?ras = "dgetd (request_anchors s) k []"
  have k: "key_demand_ok k (dgetd (demand s) k []) ?ras (map_of (demand_anchors s) k)"
    using assms(1) by (simp add: demand_ok_def)
  show "demand_ok (forget_requests w s k)"
    unfolding forget_requests_def Let_def
  proof (rule demand_update_ok [OF assms(1)])
    show "dict_ok (filter (\<lambda>(q, a). q \<in> set ?rs) ?ras)"
      using k by (simp add: key_demand_ok_def dict_ok_def distinct_map_filter)
    show "set ?rs = set (dkeys (filter (\<lambda>(q, a). q \<in> set ?rs) ?ras))"
      using k by (force simp: key_demand_ok_def dkeys_def)
    fix x assume "x \<in> set (dvals (filter (\<lambda>(q, a). q \<in> set ?rs) ?ras))"
    then show "model_key_from_anchor x = Inr (Some k)"
      using k by (auto simp: key_demand_ok_def dvals_def)
  qed (use k in \<open>auto simp: key_demand_ok_def\<close>)
  show "same_but_demand s (forget_requests w s k)"
    by (simp add: same_but_demand_def no_demand_def forget_requests_def refresh_pending_anchor_def Let_def)
  show "dkeys (demand (forget_requests w s k)) = dkeys (dput k [] (demand s))"
    by (simp add: forget_requests_def Let_def dkeys_def dput_def update_keys)
  show "dgetd (demand (forget_requests w s k)) x [] =
      (if x = k then filter (\<lambda>q. fst q \<noteq> w) (dgetd (demand s) k []) else dgetd (demand s) x [])"
    by (simp add: forget_requests_def Let_def dgetd_dput)
qed

lemma forget_all_ok:
  assumes "demand_ok s"
  shows "demand_ok (foldl (forget_requests w) s ks)" and "same_but_demand s (foldl (forget_requests w) s ks)"
    and "dgetd (demand (foldl (forget_requests w) s ks)) x [] =
      (if x \<in> set ks then filter (\<lambda>q. fst q \<noteq> w) (dgetd (demand s) x []) else dgetd (demand s) x [])"
proof -
  have "demand_ok (foldl (forget_requests w) s ks) \<and> same_but_demand s (foldl (forget_requests w) s ks) \<and>
    dgetd (demand (foldl (forget_requests w) s ks)) x [] =
      (if x \<in> set ks then filter (\<lambda>q. fst q \<noteq> w) (dgetd (demand s) x []) else dgetd (demand s) x [])"
    using assms
  proof (induction ks arbitrary: s)
    case (Cons k ks)
    note f = forget_requests_ok [OF Cons.prems, of w k]
    show ?case
      using Cons.IH [OF f(1)] f(2) same_but_demand_trans by (auto simp: f(4))
  qed (simp add: same_but_demand_refl)
  then show "demand_ok (foldl (forget_requests w) s ks)" and "same_but_demand s (foldl (forget_requests w) s ks)"
    and "dgetd (demand (foldl (forget_requests w) s ks)) x [] =
      (if x \<in> set ks then filter (\<lambda>q. fst q \<noteq> w) (dgetd (demand s) x []) else dgetd (demand s) x [])"
    by blast+
qed


section \<open>Leaving the service\<close>

lemma meta_key_update [simp]:
  "meta_key (m\<lparr>li_status := x\<rparr>) = meta_key m" "meta_key (m\<lparr>li_limit := n\<rparr>) = meta_key m"
  "meta_key (m\<lparr>li_inflight := n\<rparr>) = meta_key m" "meta_key (m\<lparr>li_total := n\<rparr>) = meta_key m"
  "meta_key (m\<lparr>li_last_used := u\<rparr>) = meta_key m" "meta_key (m\<lparr>li_context := c\<rparr>) = meta_key m"
  "meta_key (m\<lparr>li_decision := c\<rparr>) = meta_key m"
  by (simp_all add: meta_key_def)

lemma meta_load_ok_update [simp]:
  "meta_load_ok n rs i (m\<lparr>li_status := x\<rparr>) = meta_load_ok n rs i m"
  "meta_load_ok n rs i (m\<lparr>li_total := t\<rparr>) = meta_load_ok n rs i m"
  "meta_load_ok n rs i (m\<lparr>li_last_used := u\<rparr>) = meta_load_ok n rs i m"
  "meta_load_ok n rs i (m\<lparr>li_context := c\<rparr>) = meta_load_ok n rs i m"
  "meta_load_ok n rs i (m\<lparr>li_decision := c\<rparr>) = meta_load_ok n rs i m"
  by (simp_all add: meta_load_ok_def)

lemma meta_load_ok_limit: "meta_load_ok n rs i m \<Longrightarrow> 1 \<le> k \<Longrightarrow> k \<le> n \<Longrightarrow> meta_load_ok n rs i (m\<lparr>li_limit := k\<rparr>)"
  by (simp add: meta_load_ok_def)

lemma upd_detail_fields [simp]:
  "map_of (details (upd_detail i f s)) j = (if j = i then map_option f (map_of (details s) i) else map_of (details s) j)"
  "dhas j (details (upd_detail i f s)) = dhas j (details s)"
  "upd_detail i f s\<lparr>details := x\<rparr> = s\<lparr>details := x\<rparr>"
  "inst_actor (upd_detail i f s) = inst_actor s" "metas (upd_detail i f s) = metas s"
  "inst_state (upd_detail i f s) = inst_state s" "claims (upd_detail i f s) = claims s"
  "auto_deploy (upd_detail i f s) = auto_deploy s" "routing (upd_detail i f s) = routing s"
  "affinity (upd_detail i f s) = affinity s" "demand (upd_detail i f s) = demand s"
  "demand_anchors (upd_detail i f s) = demand_anchors s" "request_anchors (upd_detail i f s) = request_anchors s"
  "admission_limits (upd_detail i f s) = admission_limits s" "deploying (upd_detail i f s) = deploying s"
  "max_requests (upd_detail i f s) = max_requests s" "stop_events (upd_detail i f s) = stop_events s"
  by (auto simp: upd_detail_def dhas_iff split: option.splits)

lemma upd_meta_fields [simp]:
  "map_of (metas (upd_meta i f s)) j = (if j = i then map_option f (map_of (metas s) i) else map_of (metas s) j)"
  "dhas j (metas (upd_meta i f s)) = dhas j (metas s)" "dict_ok (metas s) \<Longrightarrow> dict_ok (metas (upd_meta i f s))"
  "inst_actor (upd_meta i f s) = inst_actor s" "details (upd_meta i f s) = details s"
  "inst_state (upd_meta i f s) = inst_state s" "claims (upd_meta i f s) = claims s"
  "auto_deploy (upd_meta i f s) = auto_deploy s" "routing (upd_meta i f s) = routing s"
  "affinity (upd_meta i f s) = affinity s" "demand (upd_meta i f s) = demand s"
  "demand_anchors (upd_meta i f s) = demand_anchors s" "request_anchors (upd_meta i f s) = request_anchors s"
  "admission_limits (upd_meta i f s) = admission_limits s" "deploying (upd_meta i f s) = deploying s"
  "max_requests (upd_meta i f s) = max_requests s" "stop_events (upd_meta i f s) = stop_events s"
  by (auto simp: upd_meta_def dhas_iff split: option.splits)

lemma remove_routing_fields [simp]:
  "map_of (metas (remove_routing_registration i st s)) j =
     (if j = i then map_option (\<lambda>m. case st of None \<Rightarrow> m | Some x \<Rightarrow> m\<lparr>li_status := x\<rparr>) (map_of (metas s) i)
      else map_of (metas s) j)"
  "dhas j (metas (remove_routing_registration i st s)) = dhas j (metas s)"
  "dict_ok (metas s) \<Longrightarrow> dict_ok (metas (remove_routing_registration i st s))"
  "dgetd (routing (remove_routing_registration i st s)) k [] =
     (if map_option meta_key (map_of (metas s) i) = Some k then filter (\<lambda>j. j \<noteq> i) (dgetd (routing s) k [])
      else dgetd (routing s) k [])"
  "affinity (remove_routing_registration i st s) = filter (\<lambda>(k, j). j \<noteq> i) (affinity s)"
  "inst_actor (remove_routing_registration i st s) = inst_actor s"
  "details (remove_routing_registration i st s) = details s"
  "inst_state (remove_routing_registration i st s) = inst_state s"
  "claims (remove_routing_registration i st s) = claims s"
  "auto_deploy (remove_routing_registration i st s) = auto_deploy s"
  "demand (remove_routing_registration i st s) = demand s"
  "demand_anchors (remove_routing_registration i st s) = demand_anchors s"
  "request_anchors (remove_routing_registration i st s) = request_anchors s"
  "admission_limits (remove_routing_registration i st s) = admission_limits s"
  "deploying (remove_routing_registration i st s) = deploying s"
  "max_requests (remove_routing_registration i st s) = max_requests s"
  "stop_events (remove_routing_registration i st s) = stop_events s"
  by (auto simp: remove_routing_registration_def Let_def dhas_iff dgetd_dput split: option.splits)

lemma deploy_demand_frame:
  "demand (withdraw i st s) = demand s" "request_anchors (withdraw i st s) = request_anchors s"
  "demand_anchors (withdraw i st s) = demand_anchors s" "auto_deploy (withdraw i st s) = auto_deploy s"
  "deploying (withdraw i st s) = deploying s" "claims (withdraw i st s) = claims s"
  by (simp_all add: withdraw_def)

text \<open>An instance that changes to a state outside the service, with its routing registration removed.\<close>

lemma leave_ok:
  assumes ok: "books_ok s" "routing_ok s" "load_ok s rs" "affinity_ok s" "agree_ok s"
    and i: "dhas i (inst_state s)" and st: "st \<notin> {''ready'', ''launching''}"
    and t: "t = remove_routing_registration i x (s\<lparr>details := D, inst_state := dput i st (inst_state s)\<rparr>)"
    and D: "\<And>j. map_of D j = (if j = i then map_option f (map_of (details s) i) else map_of (details s) j)"
    and f: "\<And>d. Key (ld_model (f d)) (ld_backend (f d)) = Key (ld_model d) (ld_backend d)"
  shows "books_ok t" "routing_ok t" "load_ok t rs" "affinity_ok t" "agree_ok t"
proof -
  have r: "routable t k j \<longleftrightarrow> j \<noteq> i \<and> routable s k j" for k j
    using st by (auto simp: t routable_def split: option.splits)
  have "dhas j D = dhas j (details s)" for j by (simp add: dhas_iff D)
  then show "books_ok t" using ok(1) i st unfolding t books_ok_def by (simp; blast)
  show "routing_ok t"
    unfolding routing_ok_def r using ok(2) by (auto simp: t routing_ok_def routable_def)
  show "load_ok t rs"
    using ok(3) i unfolding t load_ok_def by (auto split: option.splits)
  show "affinity_ok t"
    unfolding affinity_ok_def r using ok(4) by (auto simp: t affinity_ok_def)
  show "agree_ok t"
    using ok(5) unfolding t agree_ok_def by (auto simp: f D split: option.splits if_splits)
qed

lemma withdraw_eq:
  "withdraw i st s = remove_routing_registration i (Some st)
     (s\<lparr>details := details (upd_detail i (\<lambda>d. d\<lparr>ld_status := st\<rparr>) s), inst_state := dput i st (inst_state s)\<rparr>)"
  unfolding withdraw_def by (rule arg_cong [where f = "remove_routing_registration i (Some st)"])
    (auto simp: upd_detail_def split: option.splits)

lemma withdraw_ok:
  assumes "books_ok s" "routing_ok s" "load_ok s rs" "affinity_ok s" "agree_ok s"
    and "dhas i (inst_state s)" "st \<notin> {''ready'', ''launching''}"
  shows "books_ok (withdraw i st s)" "routing_ok (withdraw i st s)" "load_ok (withdraw i st s) rs"
    "affinity_ok (withdraw i st s)" "agree_ok (withdraw i st s)"
  by (rule leave_ok [OF assms withdraw_eq upd_detail_fields(1)], simp)+


section \<open>Every step keeps the invariant\<close>

text \<open>Changes of the tables that no part of the invariant reads.\<close>

definition bookkeeping :: "pool \<Rightarrow> pool" where
  "bookkeeping s = s\<lparr>inst_addr := [], stop_events := [], cleanup_errors := [], runtime_errors := [], cancelled_starts := {}\<rparr>"

lemma bookkeeping_ok:
  assumes "bookkeeping s = bookkeeping t"
  shows "books_ok s = books_ok t" "routing_ok s = routing_ok t" "load_ok s rs = load_ok t rs"
    "claims_ok s ss = claims_ok t ss" "affinity_ok s = affinity_ok t" "agree_ok s = agree_ok t"
    "demand_ok s = demand_ok t" "deploy_ok s = deploy_ok t"
proof -
  have b: "books_ok (bookkeeping s) = books_ok s" "routing_ok (bookkeeping s) = routing_ok s"
    "load_ok (bookkeeping s) rs = load_ok s rs" "claims_ok (bookkeeping s) ss = claims_ok s ss"
    "affinity_ok (bookkeeping s) = affinity_ok s" "agree_ok (bookkeeping s) = agree_ok s"
    "demand_ok (bookkeeping s) = demand_ok s" "deploy_ok (bookkeeping s) = deploy_ok s" for s
    by (simp_all add: bookkeeping_def pool_oks)
  show "books_ok s = books_ok t" "routing_ok s = routing_ok t" "load_ok s rs = load_ok t rs"
    "claims_ok s ss = claims_ok t ss" "affinity_ok s = affinity_ok t" "agree_ok s = agree_ok t"
    "demand_ok s = demand_ok t" "deploy_ok s = deploy_ok t"
    by (metis assms b)+
qed

text \<open>The invariant of a fleet over the pool alone, with the routes and stops its callers hold.\<close>

definition pool_ok :: "pool \<Rightarrow> string list \<Rightarrow> (string \<times> nat) list \<Rightarrow> bool" where
  "pool_ok p rs ss = (books_ok p \<and> routing_ok p \<and> load_ok p rs \<and> claims_ok p ss \<and> affinity_ok p \<and> agree_ok p \<and>
     demand_ok p \<and> deploy_ok p)"

lemma fleet_pool_ok: "fleet_ok f = pool_ok (pool_of f) (open_routes f) (stopping_now f)"
  by (simp add: fleet_ok_def pool_ok_def Let_def)

lemma pool_okD:
  assumes "pool_ok p rs ss"
  shows "books_ok p" "routing_ok p" "load_ok p rs" "claims_ok p ss" "affinity_ok p" "agree_ok p" "demand_ok p"
    "deploy_ok p"
  using assms by (simp_all add: pool_ok_def)

lemma pool_okI:
  assumes "books_ok p" "routing_ok p" "load_ok p rs" "claims_ok p ss" "affinity_ok p" "agree_ok p" "demand_ok p"
    "deploy_ok p"
  shows "pool_ok p rs ss"
  using assms by (simp add: pool_ok_def)

lemma bookkeeping_pool_ok: "bookkeeping s = bookkeeping t \<Longrightarrow> pool_ok s rs ss = pool_ok t rs ss"
  unfolding pool_ok_def using bookkeeping_ok by metis

lemma demand_pool_ok: "same_but_demand s t \<Longrightarrow> demand_ok t \<Longrightarrow> pool_ok s rs ss \<Longrightarrow> pool_ok t rs ss"
  unfolding pool_ok_def using same_but_demand_ok by metis

lemma record_model_demand_ok:
  assumes "pool_ok s rs ss" "record_model_demand a w t s = Inr (s', r)"
  shows "pool_ok s' rs ss"
proof -
  from assms(2) consider "s' = s" | k where "model_key_from_anchor a = Inr (Some k)" "s' = add_demand k (request_id w t) a s"
    by (auto simp: record_model_demand_def Let_def split: option.splits)
  then show ?thesis
  proof cases
    case 2
    note d = add_demand_ok [OF pool_okD(7) [OF assms(1)] 2(1), of "request_id w t"]
    show ?thesis unfolding 2(2) by (rule demand_pool_ok [OF d(2,1) assms(1)])
  qed (use assms(1) in simp)
qed

lemma clear_workflow_state_ok:
  assumes "pool_ok s rs ss"
  shows "pool_ok (fst (clear_workflow_state w s)) rs ss"
proof -
  have a: "pool_ok (p\<lparr>affinity := filter P (affinity p)\<rparr>) rs ss" if "pool_ok p rs ss" for p P
    using that unfolding pool_ok_def by (auto simp: pool_oks)
  show ?thesis
    unfolding clear_workflow_state_def
    using assms a demand_pool_ok [OF forget_all_ok(2) forget_all_ok(1)] pool_okD(7) [OF assms]
    by (simp add: Let_def split: option.splits)
qed

lemma deploy_count_ddel:
  "dict_ok d \<Longrightarrow> map_of d i = Some k \<Longrightarrow>
   length (filter (\<lambda>x. snd x = y) d) = length (filter (\<lambda>x. snd x = y) (ddel i d)) + (if y = k then 1 else 0)"
proof (induction d)
  case (Cons p d)
  obtain j v where p: "p = (j, v)" by (cases p)
  show ?case
  proof (cases "j = i")
    case True
    with Cons.prems p have "\<not> dhas i d" by (auto simp: dict_ok_def dhas_def)
    then have "ddel i (p # d) = d" using True p ddel_absent [of i d] by (simp add: ddel_def)
    then show ?thesis using Cons.prems p True by simp
  next
    case False
    then have "ddel i (p # d) = p # ddel i d" using p by (simp add: ddel_def)
    then show ?thesis using Cons p False by (auto simp: dict_ok_def)
  qed
qed simp

lemma deploy_only:
  assumes "pool_ok s rs ss" "t = s\<lparr>auto_deploy := x, deploying := y\<rparr>" "deploy_ok t"
  shows "pool_ok t rs ss"
  using assms(1,3) unfolding pool_ok_def by (simp add: assms(2) pool_oks)

lemma mark_model_deploying_ok:
  assumes "pool_ok s rs ss"
  shows "pool_ok (fst (mark_model_deploying m b (Some i) s)) rs ss"
proof (cases "dhas i (auto_deploy s)")
  case True
  then show ?thesis using assms by (simp add: mark_model_deploying_def Let_def)
next
  case False
  let ?t = "fst (mark_model_deploying m b (Some i) s)" and ?k = "Key m b"
  from False have t: "?t = s\<lparr>auto_deploy := dput i ?k (auto_deploy s),
      deploying := dput ?k (dgetd (deploying s) ?k 0 + 1) (deploying s)\<rparr>"
    by (simp add: mark_model_deploying_def Let_def)
  have "deploy_ok ?t"
    using pool_okD(8) [OF assms] False by (simp add: t deploy_ok_def dgetd_dput dput_new dict_ok_def dhas_def)
  then show ?thesis by (rule deploy_only [OF assms t])
qed

lemma clear_model_deploying_ok:
  assumes "pool_ok s rs ss"
  shows "pool_ok (fst (clear_model_deploying m b (Some i) s)) rs ss"
proof (cases "map_of (auto_deploy s) i")
  case None
  then show ?thesis using assms by (simp add: clear_model_deploying_def)
next
  case (Some k)
  have d: "deploy_ok s" using assms by (simp add: pool_ok_def)
  then have n: "dgetd (deploying s) y 0 = int (length (filter (\<lambda>x. snd x = y) (ddel i (auto_deploy s)))) +
      (if y = k then 1 else 0)" for y
    using deploy_count_ddel [OF _ Some, of y] by (simp add: deploy_ok_def)
  have "deploy_ok (fst (clear_model_deploying m b (Some i) s))"
    using d by (simp add: clear_model_deploying_def Some deploying_down_def Let_def deploy_ok_def dgetd_dput n)
  moreover have "fst (clear_model_deploying m b (Some i) s) =
      s\<lparr>auto_deploy := ddel i (auto_deploy s), deploying := dput k (dgetd (deploying s) k 0 - 1) (deploying s)\<rparr>"
    using n [of k] by (simp add: clear_model_deploying_def Some deploying_down_def Let_def)
  ultimately show ?thesis using deploy_only [OF assms] by simp
qed


section \<open>Starting\<close>

text \<open>Lookups in each of the two dictionaries after an update, for simplification of the invariant.\<close>

lemma claims_frame:
  assumes "claims_ok s ss" "claims t \<subseteq> claims s"
    and st: "\<And>i. map_of (inst_state s) i = Some ''stopping'' \<Longrightarrow> i \<in> claims t \<or> i \<in> fst ` set ss \<Longrightarrow>
      map_of (inst_state t) i = Some ''stopping'' \<and> map_of (inst_actor t) i = map_of (inst_actor s) i"
  shows "claims_ok t ss"
proof -
  have ss: "map_of (inst_state t) i = Some ''stopping'' \<and> map_of (inst_actor t) i = Some a \<and> i \<notin> claims t"
    if "(i, a) \<in> set ss" for i a
  proof -
    from assms(1) that have "map_of (inst_state s) i = Some ''stopping''" "map_of (inst_actor s) i = Some a" "i \<notin> claims s"
      unfolding claims_ok_def by blast+
    moreover from that have "i \<in> fst ` set ss" by force
    ultimately show ?thesis using st [of i] assms(2) by auto
  qed
  have "map_of (inst_state t) i = Some ''stopping''" if "i \<in> claims t" for i
    using assms(1,2) that st [of i] unfolding claims_ok_def by blast
  moreover have "distinct (map fst ss)" using assms(1) by (simp add: claims_ok_def)
  ultimately show ?thesis using ss unfolding claims_ok_def by blast
qed

lemma claims_free:
  assumes "claims_ok s ss" "map_of (inst_state s) i \<noteq> Some ''stopping''"
  shows "i \<notin> claims s" "i \<notin> fst ` set ss"
  using assms by (auto simp: claims_ok_def)

lemma register_starting_ok:
  assumes ok: "pool_ok s rs ss" and i: "i \<notin> set rs"
    and r: "register_starting_instance i act m b n ip g res l gen srv fresh s = Inr t"
  shows "pool_ok t rs ss"
proof -
  have new: "\<not> dhas i (inst_actor s)" using r by (auto simp: register_starting_instance_def split: if_splits)
  then have none: "\<not> dhas i (inst_state s)" "\<not> dhas i (metas s)" "\<not> dhas i (details s)"
    using pool_okD(1) [OF ok] by (auto simp: books_ok_def)
  from r obtain d ev ce re where t: "t = s\<lparr>inst_actor := dput i act (inst_actor s), details := dput i d (details s),
      inst_state := dput i ''launching'' (inst_state s), stop_events := ev, cleanup_errors := ce, runtime_errors := re\<rparr>"
    by (auto simp: register_starting_instance_def split: if_splits)
  have rt: "routable t k j = routable s k j" for k j
    using none by (auto simp: t routable_def dhas_iff)
  show ?thesis
  proof (rule pool_okI)
    show "books_ok t" using pool_okD(1) [OF ok] none by (auto simp: t books_ok_def)
    show "routing_ok t" using pool_okD(2) [OF ok] unfolding routing_ok_def rt by (simp add: t)
    show "load_ok t rs" using pool_okD(3) [OF ok] i by (auto simp: t load_ok_def)
    show "claims_ok t ss"
      by (rule claims_frame [OF pool_okD(4) [OF ok]]) (use none in \<open>auto simp: t dhas_iff\<close>)
    show "affinity_ok t" using pool_okD(5) [OF ok] unfolding affinity_ok_def rt by (simp add: t)
    show "agree_ok t" using pool_okD(6) [OF ok] none by (auto simp: t agree_ok_def dhas_iff)
    show "demand_ok t" using pool_okD(7) [OF ok] by (simp add: t demand_ok_def)
    show "deploy_ok t" using pool_okD(8) [OF ok] by (simp add: t deploy_ok_def)
  qed
qed

text \<open>A record changed in place, its model and backend kept.\<close>

lemma detail_only:
  assumes "pool_ok s rs ss" "map_of (details s) i = Some d" "t = s\<lparr>details := dput i d' (details s)\<rparr>"
    and "ld_model d' = ld_model d" "ld_backend d' = ld_backend d"
  shows "pool_ok t rs ss"
  using assms(1,2,4,5) unfolding pool_ok_def assms(3)
  by (auto simp: pool_oks dhas_iff split: if_splits)

lemma meta_only:
  assumes ok: "pool_ok s rs ss" and m: "map_of (metas s) i = Some m" and t: "t = s\<lparr>metas := dput i m' (metas s)\<rparr>"
    and k: "meta_key m' = meta_key m" and l: "load_ok t rs'"
  shows "pool_ok t rs' ss"
proof -
  have rt: "routable t x j = routable s x j" for x j by (auto simp: t routable_def m k)
  show ?thesis
  proof (rule pool_okI)
    show "books_ok t" using pool_okD(1) [OF ok] m by (auto simp: t books_ok_def dhas_iff)
    show "routing_ok t" using pool_okD(2) [OF ok] unfolding routing_ok_def rt by (simp add: t)
    show "load_ok t rs'" by (rule l)
    show "claims_ok t ss" by (rule claims_frame [OF pool_okD(4) [OF ok]]) (auto simp: t)
    show "affinity_ok t" using pool_okD(5) [OF ok] unfolding affinity_ok_def rt by (simp add: t)
    show "agree_ok t" using pool_okD(6) [OF ok] m k by (auto simp: t agree_ok_def split: if_splits)
    show "demand_ok t" using pool_okD(7) [OF ok] by (simp add: t demand_ok_def)
    show "deploy_ok t" using pool_okD(8) [OF ok] by (simp add: t deploy_ok_def)
  qed
qed

lemma record_launch_ok:
  assumes ok: "pool_ok s rs ss" and r: "record_launch i act info s = Inr (t, port)"
  shows "pool_ok t rs ss"
proof -
  from r obtain d where d0: "map_of (details s) i = Some d"
    by (auto simp: record_launch_def split: if_splits option.splits)
  define d' where "d' = d\<lparr>ld_port := Some (la_port info),
      ld_endpoint := Some (''http://'' @ (ld_node_ip d @ '':'' @ la_port info) @ ''/v1''), ld_group := la_group info\<rparr>"
  define ad where "ad = dput i (ld_node_ip d @ '':'' @ la_port info) (inst_addr s)"
  have d: "map_of (details s) i = Some d" "ld_model d' = ld_model d" "ld_backend d' = ld_backend d"
    "t = s\<lparr>details := dput i d' (details s), inst_addr := ad\<rparr>"
    using r d0 by (auto simp: record_launch_def Let_def d'_def ad_def split: if_splits)
  have "pool_ok (s\<lparr>details := dput i d' (details s)\<rparr>) rs ss"
    by (rule detail_only [OF ok d(1) refl d(2,3)])
  then show ?thesis by (subst bookkeeping_pool_ok [where t = "s\<lparr>details := dput i d' (details s)\<rparr>"])
      (simp_all add: d(4) bookkeeping_def)
qed

lemma set_resource_decision_ok:
  assumes ok: "pool_ok s rs ss" and r: "set_resource_decision i c e s = Inr t"
  shows "pool_ok t rs ss"
proof -
  from r obtain d m d' m' where d: "map_of (details s) i = Some d" "map_of (metas s) i = Some m"
    "d' = d\<lparr>ld_context := c, ld_decision := e\<rparr>" "m' = m\<lparr>li_context := c, li_decision := e\<rparr>"
    "t = s\<lparr>details := dput i d' (details s), metas := dput i m' (metas s)\<rparr>"
    by (auto simp: set_resource_decision_def split: option.splits)
  let ?s = "s\<lparr>details := dput i d' (details s)\<rparr>"
  have s: "pool_ok ?s rs ss" by (rule detail_only [OF ok d(1) refl]) (simp_all add: d(3))
  show ?thesis
  proof (rule meta_only [OF s, where i = i and m = m and m' = m'])
    show "load_ok t rs" using pool_okD(3) [OF ok] d(2) by (auto simp: d(4,5) load_ok_def)
  qed (simp_all add: d)
qed

lemma record_metrics_ok:
  assumes "pool_ok s rs ss"
  shows "pool_ok (record_metrics i act ms s) rs ss"
proof (cases "map_of (details s) i")
  case (Some d)
  show ?thesis
    by (cases "ms = [] \<or> map_of (inst_actor s) i \<noteq> Some act")
      (auto simp: record_metrics_def upd_detail_def Some intro!: assms detail_only [OF assms Some refl])
qed (simp add: record_metrics_def upd_detail_def assms)


text \<open>An instance enters the routing set of its model.\<close>

lemma enter_ok:
  assumes ok: "pool_ok s rs ss"
    and d: "dhas i (details s)" and out: "map_of (inst_state s) i \<noteq> Some ''ready''"
    and stop: "i \<notin> fst ` set ss" "i \<notin> claims t"
    and m: "meta_load_ok (max_requests s) rs i m"
    and agree: "Key (ld_model d') (ld_backend d') = meta_key m"
    and same: "map_option meta_key (map_of (metas s) i) \<in> {None, Some (meta_key m)}"
    and t: "t = s\<lparr>claims := C, inst_state := dput i ''ready'' (inst_state s), details := dput i d' (details s),
      metas := dput i m (metas s),
      routing := dput (meta_key m) (List.insert i (dgetd (routing s) (meta_key m) [])) (routing s)\<rparr>"
    and C: "C \<subseteq> claims s"
  shows "pool_ok t rs ss"
proof -
  have rt: "routable t k j \<longleftrightarrow> (j = i \<and> k = meta_key m) \<or> (j \<noteq> i \<and> routable s k j)" for k j
    by (auto simp: t routable_def)
  have old: "\<not> routable s k i" for k using out by (simp add: routable_def)
  show ?thesis
  proof (rule pool_okI)
    show "books_ok t" using pool_okD(1) [OF ok] d by (auto simp: t books_ok_def)
    show "routing_ok t"
      using pool_okD(2) [OF ok] old unfolding routing_ok_def rt by (auto simp: t dgetd_dput)
    show "load_ok t rs" using pool_okD(3) [OF ok] m by (auto simp: t load_ok_def)
    show "claims_ok t ss"
      by (rule claims_frame [OF pool_okD(4) [OF ok]]) (use stop C in \<open>auto simp: t\<close>)
    show "affinity_ok t"
      using pool_okD(5) [OF ok] old unfolding affinity_ok_def rt by (fastforce simp: t)
    show "agree_ok t" using pool_okD(6) [OF ok] agree by (auto simp: t agree_ok_def split: if_splits)
    show "demand_ok t" using pool_okD(7) [OF ok] by (simp add: t demand_ok_def)
    show "deploy_ok t" using pool_okD(8) [OF ok] by (simp add: t deploy_ok_def)
  qed
qed

lemma pool_limits:
  assumes "load_ok s rs"
  shows "1 \<le> dgetd (admission_limits s) k (max_requests s)" "dgetd (admission_limits s) k (max_requests s) \<le> max_requests s"
  using assms by (auto simp: load_ok_def dgetd_def split: option.splits)

lemma mark_ready_ok:
  assumes ok: "pool_ok s rs ss" and r: "mark_ready now i act s = Inr (t, meta)"
  shows "pool_ok t rs ss"
proof -
  from r have st: "map_of (inst_state s) i = Some ''launching''"
    by (auto simp: mark_ready_def split: if_splits)
  from r obtain d where d: "map_of (details s) i = Some d"
    by (auto simp: mark_ready_def split: if_splits option.splits)
  have none: "map_of (metas s) i = None" and inst: "dhas i (inst_state s)"
    using pool_okD(1) [OF ok] st by (auto simp: books_ok_def dhas_iff)
  have free: "i \<notin> set rs" using pool_okD(3) [OF ok] none inst by (auto simp: load_ok_def dhas_iff)
  have cl: "i \<notin> claims s" "i \<notin> fst ` set ss" using claims_free [OF pool_okD(4) [OF ok]] st by auto
  from r d st obtain d' m b ad where t: "t = fst (clear_model_deploying None ''vllm'' (Some i)
      (s\<lparr>inst_addr := ad, details := dput i d' (details s), metas := dput i m (metas s),
        inst_state := dput i ''ready'' (inst_state s),
        routing := dput (Key (ld_model d) b) (List.insert i (dgetd (routing s) (Key (ld_model d) b) [])) (routing s)\<rparr>))"
    and m: "m = meta" "meta_key meta = Key (ld_model d) b" "Key (ld_model d') (ld_backend d') = Key (ld_model d) b"
    and l: "li_inflight meta = 0" "li_limit meta = dgetd (admission_limits s) (Key (ld_model d) b) (max_requests s)"
    unfolding mark_ready_def register_instance_def Let_def
    by (auto simp: none meta_key_def ready_detail_def split: if_splits)
  let ?t = "s\<lparr>claims := claims s, inst_state := dput i ''ready'' (inst_state s), details := dput i d' (details s),
      metas := dput i m (metas s),
      routing := dput (meta_key m) (List.insert i (dgetd (routing s) (meta_key m) [])) (routing s)\<rparr>"
  have "pool_ok ?t rs ss"
  proof (rule enter_ok [OF ok])
    show "meta_load_ok (max_requests s) rs i m"
      using free pool_limits [OF pool_okD(3) [OF ok]] pool_okD(3) [OF ok]
      by (simp add: meta_load_ok_def m l load_ok_def)
  qed (use d st cl none m in \<open>auto simp: dhas_iff\<close>)
  moreover have b: "bookkeeping (s\<lparr>inst_addr := ad, details := dput i d' (details s), metas := dput i m (metas s),
        inst_state := dput i ''ready'' (inst_state s),
        routing := dput (Key (ld_model d) b) (List.insert i (dgetd (routing s) (Key (ld_model d) b) [])) (routing s)\<rparr>)
      = bookkeeping ?t"
    by (rule pool.equality) (simp_all add: bookkeeping_def m)
  ultimately show ?thesis
    unfolding t by (intro clear_model_deploying_ok) (rule iffD2 [OF bookkeeping_pool_ok [OF b]])
qed


section \<open>Claims and stops\<close>

lemma claim_insert:
  assumes "pool_ok t rs ss" "map_of (inst_state t) i = Some ''stopping''" "i \<notin> fst ` set ss"
  shows "pool_ok (t\<lparr>claims := insert i (claims t)\<rparr>) rs ss"
proof -
  have "claims_ok (t\<lparr>claims := insert i (claims t)\<rparr>) ss"
    using pool_okD(4) [OF assms(1)] assms(2,3) by (force simp: claims_ok_def)
  then show ?thesis using assms(1) unfolding pool_ok_def by (simp add: pool_oks)
qed

lemma claim_remove:
  assumes "pool_ok t rs ss"
  shows "pool_ok (t\<lparr>claims := claims t - {i}\<rparr>) rs ss"
proof -
  have "claims_ok (t\<lparr>claims := claims t - {i}\<rparr>) ss"
    by (rule claims_frame [OF pool_okD(4) [OF assms]]) auto
  then show ?thesis using assms unfolding pool_ok_def by (simp add: pool_oks)
qed

lemma stop_push:
  assumes "pool_ok t rs ss" "map_of (inst_state t) i = Some ''stopping''" "map_of (inst_actor t) i = Some a"
    "i \<notin> claims t" "i \<notin> fst ` set ss"
  shows "pool_ok t rs ((i, a) # ss)"
  using assms unfolding pool_ok_def claims_ok_def by auto

lemma stop_pop: "pool_ok t rs ss \<Longrightarrow> pool_ok t rs (remove1 x ss)"
  unfolding pool_ok_def claims_ok_def by (auto simp: distinct_map dest: notin_set_remove1 inj_on_subset [OF _ set_remove1_subset] subsetD [OF set_remove1_subset])

lemma stop_pop_free:
  assumes "pool_ok t rs ss" "(i, a) \<in> set ss"
  shows "i \<notin> fst ` set (remove1 (i, a) ss)"
proof -
  have d: "distinct (map fst ss)" using assms(1) by (simp add: pool_ok_def claims_ok_def)
  then have "set (remove1 (i, a) ss) = set ss - {(i, a)}" by (simp add: distinct_map set_remove1_eq)
  then show ?thesis using d assms(2) by (force simp: distinct_map inj_on_def)
qed

lemma withdraw_pool_ok:
  assumes ok: "pool_ok s rs ss" and i: "dhas i (inst_state s)" and st: "st \<notin> {''ready'', ''launching''}"
    and c: "i \<notin> claims s" "i \<notin> fst ` set ss"
  shows "pool_ok (withdraw i st s) rs ss"
proof -
  note w = withdraw_ok [OF pool_okD(1,2,3,5,6) [OF ok] i st]
  show ?thesis
  proof (rule pool_okI [OF w(1,2,3) _ w(4,5)])
    show "claims_ok (withdraw i st s) ss"
      by (rule claims_frame [OF pool_okD(4) [OF ok]]) (use c in \<open>auto simp: withdraw_def\<close>)
    show "demand_ok (withdraw i st s)" "deploy_ok (withdraw i st s)"
      using pool_okD(7,8) [OF ok] by (simp_all add: deploy_demand_frame demand_ok_def deploy_ok_def)
  qed
qed

lemma withdraw_state [simp]:
  "map_of (inst_state (withdraw i st s)) i = Some st" "inst_actor (withdraw i st s) = inst_actor s"
  by (simp_all add: withdraw_def)

text \<open>Withdrawing a ready or launching instance for a stop, with its claim.\<close>

lemma withdraw_claimed:
  assumes ok: "pool_ok s rs ss" and i: "map_of (inst_state s) i \<in> {Some ''ready'', Some ''launching''}"
    and b: "bookkeeping t = bookkeeping (withdraw i ''stopping'' s\<lparr>claims := insert i (claims s)\<rparr>)"
  shows "pool_ok t rs ss"
proof -
  have "map_of (inst_state s) i \<noteq> Some ''stopping''" using i by auto
  note free = claims_free [OF pool_okD(4) [OF ok] this]
  have "pool_ok (withdraw i ''stopping'' s) rs ss"
    by (rule withdraw_pool_ok [OF ok]) (use i free in \<open>auto simp: dhas_iff\<close>)
  from claim_insert [OF this _ free(2)] show ?thesis
    by (simp add: bookkeeping_pool_ok [OF b] deploy_demand_frame)
qed

lemma request_start_cancellation_ok:
  assumes ok: "pool_ok s rs ss"
  shows "pool_ok (fst (request_start_cancellation i s)) rs ss"
proof -
  let ?s = "s\<lparr>cancelled_starts := insert i (cancelled_starts s)\<rparr>"
  have s: "pool_ok ?s rs ss" by (rule iffD2 [OF bookkeeping_pool_ok ok]) (simp add: bookkeeping_def)
  show ?thesis
  proof (cases "map_of (inst_state s) i \<in> {Some ''launching'', Some ''ready''}")
    case True
    show ?thesis
      by (rule withdraw_claimed [OF s, where i = i])
        (use True in \<open>auto simp: request_start_cancellation_def Let_def bookkeeping_def deploy_demand_frame\<close>)
  qed (use s in \<open>auto simp: request_start_cancellation_def Let_def\<close>)
qed

lemma claim_lru_scale_in_ok:
  assumes ok: "pool_ok s rs ss" and r: "claim_lru_scale_in i e now idle np s = Inr (t, b)"
  shows "pool_ok t rs ss"
proof (cases b)
  case True
  show ?thesis
    by (rule withdraw_claimed [OF ok, where i = i])
      (use r True in \<open>auto simp: claim_lru_scale_in_def Let_def bookkeeping_def deploy_demand_frame
         split: if_splits option.splits\<close>)
qed (use r ok in \<open>auto simp: claim_lru_scale_in_def Let_def split: if_splits option.splits\<close>)

lemma runtime_failure_ok:
  assumes ok: "pool_ok s rs ss"
  shows "pool_ok (runtime_failure i act err s) rs ss"
proof (cases "map_of (inst_actor s) i \<noteq> Some act \<or> map_of (inst_state s) i \<noteq> Some ''ready''")
  case False
  have "pool_ok (withdraw i ''unhealthy'' s) rs ss"
    by (rule withdraw_pool_ok [OF ok]) (use False claims_free [OF pool_okD(4) [OF ok]] in \<open>auto simp: dhas_iff\<close>)
  then show ?thesis using False
    by (subst bookkeeping_pool_ok [where t = "withdraw i ''unhealthy'' s"])
      (auto simp: runtime_failure_def Let_def bookkeeping_def)
qed (auto simp: runtime_failure_def ok)

lemma prepare_memory_recovery_ok:
  assumes ok: "pool_ok s rs ss" and r: "prepare_memory_recovery i s = Inr (t, b)"
  shows "pool_ok t rs ss"
proof -
  from r obtain m where m: "map_of (metas s) i = Some m" and st: "map_of (inst_state s) i = Some ''ready''"
    by (auto simp: prepare_memory_recovery_def split: option.splits if_splits)
  show ?thesis
  proof (cases "0 < li_inflight m")
    case True
    let ?s = "s\<lparr>admission_limits := dput (meta_key m) 1 (admission_limits s)\<rparr>"
    have s: "pool_ok ?s rs ss" using ok unfolding pool_ok_def by (simp add: pool_oks)
    have t: "t = ?s\<lparr>metas := dput i (m\<lparr>li_limit := 1\<rparr>) (metas ?s)\<rparr>"
      using r m st True by (intro pool.equality) (auto simp: prepare_memory_recovery_def)
    show ?thesis
    proof (rule meta_only [OF s _ t])
      note l = pool_okD(3) [OF ok, unfolded load_ok_def]
      have "meta_load_ok (max_requests s) rs i (m\<lparr>li_limit := 1\<rparr>)"
        using l m by (intro meta_load_ok_limit) auto
      then show "load_ok t rs" using l m unfolding t load_ok_def by simp
    qed (simp_all add: m)
  next
    case False
    have t: "t = remove_routing_registration i (Some ''draining'')
        (s\<lparr>details := details s, inst_state := dput i ''draining'' (inst_state s)\<rparr>)"
      using r m st False by (simp add: prepare_memory_recovery_def)
    have D: "map_of (details s) j = (if j = i then map_option (\<lambda>d. d) (map_of (details s) i) else map_of (details s) j)"
      for j by (simp add: option.map_ident)
    note w = leave_ok [OF pool_okD(1,2,3,5,6) [OF ok] _ _ t D]
    show ?thesis
    proof (rule pool_okI [OF w(1,2,3) _ w(4,5)])
      show "claims_ok t ss"
        by (rule claims_frame [OF pool_okD(4) [OF ok]])
          (use st claims_free [OF pool_okD(4) [OF ok]] in \<open>auto simp: t\<close>)
      show "demand_ok t" "deploy_ok t"
        using pool_okD(7,8) [OF ok] by (simp_all add: t demand_ok_def deploy_ok_def)
    qed (use st in \<open>auto simp: dhas_iff\<close>)
  qed
qed


lemma cancel_lru_scale_in_claim_ok:
  assumes ok: "pool_ok s rs ss"
  shows "pool_ok (fst (cancel_lru_scale_in_claim i s)) rs ss"
proof (cases "i \<in> claims s \<and> map_of (inst_state s) i = Some ''stopping'' \<and> dhas i (metas s)")
  case True
  then obtain m where m: "map_of (metas s) i = Some m" by (auto simp: dhas_iff)
  obtain d where d: "map_of (details s) i = Some d"
    using pool_okD(1) [OF ok] True by (auto simp: books_ok_def dhas_iff)
  have "i \<notin> fst ` set ss" using True pool_okD(4) [OF ok] by (auto simp: claims_ok_def)
  moreover have "meta_load_ok (max_requests s) rs i m" "Key (ld_model d) (ld_backend d) = meta_key m"
    using pool_okD(3,6) [OF ok] m d by (auto simp: load_ok_def agree_ok_def)
  ultimately show ?thesis
    by (intro enter_ok [OF ok, where i = i and C = "claims s - {i}" and d' = "d\<lparr>ld_status := ''ready''\<rparr>"
          and m = "m\<lparr>li_status := ''ready''\<rparr>"])
      (use True m d in \<open>auto simp: cancel_lru_scale_in_claim_def dhas_iff\<close>)
qed (auto simp: cancel_lru_scale_in_claim_def ok dhas_iff split: option.splits)

lemma set_status_ok:
  assumes ok: "pool_ok s rs ss" and i: "map_of (inst_state s) i = Some ''stopping''"
    and st: "st \<notin> {''ready'', ''launching''}" and c: "i \<notin> claims s" "i \<notin> fst ` set ss"
  shows "pool_ok (set_status i st s) rs ss"
proof -
  let ?t = "set_status i st s"
  have rt: "routable ?t k j = routable s k j" for k j
    using st i by (auto simp: routable_def set_status_def split: option.splits)
  show ?thesis
  proof (rule pool_okI)
    show "books_ok ?t" using pool_okD(1) [OF ok] i st by (auto simp: books_ok_def set_status_def dhas_iff)
    show "routing_ok ?t" using pool_okD(2) [OF ok] unfolding routing_ok_def rt by (simp add: set_status_def)
    show "load_ok ?t rs" using pool_okD(3) [OF ok] i by (auto simp: load_ok_def set_status_def dhas_iff)
    show "claims_ok ?t ss"
      by (rule claims_frame [OF pool_okD(4) [OF ok]]) (use c in \<open>auto simp: set_status_def\<close>)
    show "affinity_ok ?t" using pool_okD(5) [OF ok] unfolding affinity_ok_def rt by (simp add: set_status_def)
    show "agree_ok ?t" using pool_okD(6) [OF ok] by (auto simp: agree_ok_def set_status_def split: if_splits)
    show "demand_ok ?t" using pool_okD(7) [OF ok] by (simp add: demand_ok_def set_status_def)
    show "deploy_ok ?t" using pool_okD(8) [OF ok] by (simp add: deploy_ok_def set_status_def)
  qed
qed

lemma set_status_fields [simp]:
  "map_of (inst_state (set_status i st s)) i = Some st" "inst_actor (set_status i st s) = inst_actor s"
  "dhas j (details (set_status i st s)) = dhas j (details s)" "claims (set_status i st s) = claims s"
  by (simp_all add: set_status_def)

lemma finalize_stopped_instance_ok:
  assumes ok: "pool_ok s rs ss" and r: "finalize_stopped_instance i e s = Inr (t, b)"
  shows "pool_ok t rs ss"
proof (cases b)
  case True
  from r True have st: "map_of (inst_state s) i = Some ''stopped''"
    by (auto simp: finalize_stopped_instance_def Let_def split: if_splits option.splits)
  have free: "i \<notin> claims s" "i \<notin> fst ` set ss" using claims_free [OF pool_okD(4) [OF ok]] st by auto
  let ?r = "remove_routing_registration i None s"
  let ?g = "?r\<lparr>inst_actor := ddel i (inst_actor ?r), details := ddel i (details ?r), metas := ddel i (metas ?r),
      inst_state := ddel i (inst_state ?r)\<rparr>"
  have rt: "routable ?g k j \<longleftrightarrow> j \<noteq> i \<and> routable s k j" for k j
    using st by (auto simp: routable_def)
  have "pool_ok ?g rs ss"
  proof (rule pool_okI)
    show "books_ok ?g" using pool_okD(1) [OF ok] by (auto simp: books_ok_def)
    show "routing_ok ?g" using pool_okD(2) [OF ok] unfolding routing_ok_def rt by (auto simp: routable_def st)
    show "load_ok ?g rs" using pool_okD(3) [OF ok] by (auto simp: load_ok_def split: if_splits)
    show "claims_ok ?g ss"
      by (rule claims_frame [OF pool_okD(4) [OF ok]]) (use free in auto)
    show "affinity_ok ?g" using pool_okD(5) [OF ok] unfolding affinity_ok_def rt by auto
    show "agree_ok ?g" using pool_okD(6) [OF ok] by (auto simp: agree_ok_def split: if_splits)
    show "demand_ok ?g" using pool_okD(7) [OF ok] by (simp add: demand_ok_def)
    show "deploy_ok ?g" using pool_okD(8) [OF ok] by (simp add: deploy_ok_def)
  qed
  then have g: "pool_ok h rs ss" if "bookkeeping h = bookkeeping ?g" for h
    by (rule iffD2 [OF bookkeeping_pool_ok [OF that]])
  define h where "h = ?r\<lparr>inst_actor := ddel i (inst_actor ?r), inst_addr := ddel i (inst_addr ?r),
      details := ddel i (details ?r), metas := ddel i (metas ?r), inst_state := ddel i (inst_state ?r),
      stop_events := ddel i (stop_events ?r), cleanup_errors := ddel i (cleanup_errors ?r),
      runtime_errors := ddel i (runtime_errors ?r)\<rparr>"
  let ?c = "fst (clear_model_deploying None ''vllm'' (Some i) h)"
  have h: "bookkeeping h = bookkeeping ?g"
    unfolding h_def bookkeeping_def by (rule pool.equality) (simp_all del: remove_routing_fields)
  have t: "t = ?c\<lparr>claims := claims ?c - {i}, cancelled_starts := cancelled_starts ?c - {i}\<rparr>"
    using r True st unfolding h_def
    by (simp add: finalize_stopped_instance_def Let_def split: if_splits del: remove_routing_fields)
  show ?thesis
    by (rule iffD2 [OF bookkeeping_pool_ok claim_remove [OF clear_model_deploying_ok [OF g [OF h]]]])
      (simp add: t bookkeeping_def)
qed (use r ok in \<open>auto simp: finalize_stopped_instance_def Let_def split: if_splits option.splits\<close>)


lemma begin_stop_ok:
  assumes ok: "pool_ok s rs ss" and r: "begin_stop i final e s = Inr (t, c)"
  shows "pool_ok t rs ss" and "c = Stop_owner ao \<Longrightarrow> map_of (inst_state t) i = Some ''stopping'' \<and>
    map_of (inst_actor t) i = ao \<and> i \<notin> claims t \<and> i \<notin> fst ` set ss"
proof -
  let ?s = "s\<lparr>stop_events := dsetdefault i False (stop_events s)\<rparr>"
  have s: "pool_ok ?s rs ss" by (rule iffD2 [OF bookkeeping_pool_ok ok]) (simp add: bookkeeping_def)
  consider "c = Stop_gone" "t = s"
    | (fin) b where "finalize_stopped_instance i (map_of (inst_actor s) i) ?s = Inr (t, b)" "c = Stop_done"
    | "c = Stop_done" "t = ?s"
    | (held) "map_of (inst_state s) i = Some ''stopping''" "t = ?s\<lparr>claims := claims ?s - {i}\<rparr>"
        "c = (if i \<in> claims s then Stop_owner (map_of (inst_actor s) i) else Stop_wait)"
    | (own) "dhas i (inst_state s)" "map_of (inst_state s) i \<noteq> Some ''stopping''"
        "bookkeeping t = bookkeeping (withdraw i ''stopping'' ?s)" "c = Stop_owner (map_of (inst_actor s) i)"
    using r pool_okD(1) [OF ok]
    by (cases "map_of (inst_state s) i")
      (auto simp: begin_stop_def Let_def dgetd_def books_ok_def dhas_iff bookkeeping_def split: if_splits)
  then have "pool_ok t rs ss \<and> (c = Stop_owner ao \<longrightarrow> map_of (inst_state t) i = Some ''stopping'' \<and>
    map_of (inst_actor t) i = ao \<and> i \<notin> claims t \<and> i \<notin> fst ` set ss)"
  proof cases
    case fin
    then show ?thesis using finalize_stopped_instance_ok [OF s] by auto
  next
    case held
    have "i \<in> claims s \<Longrightarrow> i \<notin> fst ` set ss" using pool_okD(4) [OF ok] by (auto simp: claims_ok_def)
    then show ?thesis using held claim_remove [OF s, of i] by (auto split: if_splits)
  next
    case own
    note free = claims_free [OF pool_okD(4) [OF ok] own(2)]
    have w: "pool_ok (withdraw i ''stopping'' ?s) rs ss"
      by (rule withdraw_pool_ok [OF s]) (use own free in auto)
    have f: "inst_state t = inst_state (withdraw i ''stopping'' ?s)" "inst_actor t = inst_actor s" "claims t = claims s"
      using arg_cong [OF own(3), of inst_state] arg_cong [OF own(3), of inst_actor] arg_cong [OF own(3), of claims]
      by (simp_all add: bookkeeping_def deploy_demand_frame)
    show ?thesis using bookkeeping_pool_ok [OF own(3)] w free own(4) by (simp add: f)
  qed (use ok s in auto)
  then show "pool_ok t rs ss" and "c = Stop_owner ao \<Longrightarrow> map_of (inst_state t) i = Some ''stopping'' \<and>
    map_of (inst_actor t) i = ao \<and> i \<notin> claims t \<and> i \<notin> fst ` set ss"
    by blast+
qed

lemma after_wait_ok:
  assumes ok: "pool_ok s rs ss" and r: "after_wait i final e a s = Inr (t, c)"
  shows "pool_ok t rs ss"
  using r ok finalize_stopped_instance_ok [OF ok]
  by (auto simp: after_wait_def split: if_splits option.splits)

lemma set_stop_event_ok: "pool_ok (set_stop_event i s) rs ss = pool_ok s rs ss"
  by (rule bookkeeping_pool_ok) (simp add: set_stop_event_def bookkeeping_def)

lemma stop_failed_ok:
  assumes ok: "pool_ok s rs ss" and i: "(i, a) \<in> set ss"
  shows "pool_ok (stop_failed i (Some a) err s) rs (remove1 (i, a) ss)"
proof -
  have st: "map_of (inst_state s) i = Some ''stopping''" "i \<notin> claims s"
    using pool_okD(4) [OF ok] i by (auto simp: claims_ok_def)
  have "pool_ok (set_status i ''cleanup_pending'' s) rs (remove1 (i, a) ss)"
    by (rule set_status_ok [OF stop_pop [OF ok] st(1) _ st(2) stop_pop_free [OF ok i]]) simp
  then have "pool_ok (set_status i ''cleanup_pending'' s\<lparr>cleanup_errors := x\<rparr>) rs (remove1 (i, a) ss)" for x
    by (rule iffD2 [OF bookkeeping_pool_ok, rotated]) (simp add: bookkeeping_def)
  then show ?thesis using stop_pop [OF ok] by (simp add: stop_failed_def set_stop_event_ok Let_def)
qed

lemma stop_succeeded_ok:
  assumes ok: "pool_ok s rs ss" and i: "(i, a) \<in> set ss" and r: "stop_succeeded i (Some a) final s = Inr t"
  shows "pool_ok t rs (remove1 (i, a) ss)"
proof -
  have st: "map_of (inst_state s) i = Some ''stopping''" "i \<notin> claims s"
    using pool_okD(4) [OF ok] i by (auto simp: claims_ok_def)
  have "pool_ok (set_status i ''stopped'' s) rs (remove1 (i, a) ss)"
    by (rule set_status_ok [OF stop_pop [OF ok] st(1) _ st(2) stop_pop_free [OF ok i]]) simp
  then have p: "pool_ok (set_stop_event i (set_status i ''stopped'' s\<lparr>cleanup_errors := x, runtime_errors := y\<rparr>))
      rs (remove1 (i, a) ss)" for x y
    unfolding set_stop_event_ok
    by (rule iffD2 [OF bookkeeping_pool_ok, rotated]) (simp add: bookkeeping_def)
  show ?thesis
    using r p finalize_stopped_instance_ok [OF p] stop_pop [OF ok]
    by (auto simp: stop_succeeded_def Let_def set_stop_event_ok split: if_splits)
qed

section \<open>Routing\<close>

text \<open>What the choice of a route finds: a routable instance, large enough, with room.\<close>

lemma route_candidates_in:
  assumes "route_candidates s k req ex = Inr cs" "i \<in> set cs"
  shows "i \<in> set (dgetd (routing s) k [])" and "route_fits s req ex i = Inr True"
proof -
  from assms(1) obtain ps where ps: "rmap (\<lambda>i. rbind (route_fits s req ex i) (\<lambda>b. Inr (i, b)))
      (sort (dgetd (routing s) k [])) = Inr ps" and cs: "cs = map fst (filter snd ps)"
    by (auto simp: route_candidates_def)
  from cs assms(2) have "(i, True) \<in> set ps" by auto
  from rmap_in [OF ps this] show "i \<in> set (dgetd (routing s) k [])" "route_fits s req ex i = Inr True" by auto
qed

lemma hd_sort_key_in: "xs \<noteq> [] \<Longrightarrow> hd (sort_key f xs) \<in> set xs"
  by (metis hd_in_set set_sort sort_key_simps(1) set_empty)

lemma choose_route_in:
  assumes "choose_route s w k cs = Some (i, hit)"
  shows "i \<in> set cs" "has_room s i"
proof -
  let ?av = "filter (has_room s) cs"
  have "i \<in> set ?av"
    using assms hd_sort_key_in [of ?av "route_rank s"]
    by (auto simp: choose_route_def Let_def split: option.splits if_splits)
  then show "i \<in> set cs" "has_room s i" by auto
qed

lemma route_cases:
  assumes "route_model_request now fp w a t s = Inr (s', r)"
  obtains (nothing) "s' = s" "r = None" "model_key_from_anchor a = Inr None"
  | (wait) k x cs where "model_key_from_anchor a = Inr (Some k)" "r = None" "record_model_demand a w t s = Inr (s', x)"
      "route_candidates s k (model_memory_mib a) (expected_identity fp a) = Inr cs" "choose_route s w k cs = None"
  | (route) k cs i hit where "model_key_from_anchor a = Inr (Some k)"
      "route_candidates s k (model_memory_mib a) (expected_identity fp a) = Inr cs"
      "choose_route s w k cs = Some (i, hit)" "admit now w k (request_id w t) i hit s = Inr (s', r)"
proof -
  from assms obtain ko where ko: "model_key_from_anchor a = Inr ko"
    by (auto simp: route_model_request_def)
  show thesis
  proof (cases ko)
    case None
    with assms ko have n: "s' = s" "r = None" "model_key_from_anchor a = Inr None"
      by (auto simp: route_model_request_def)
    show ?thesis by (rule that(1) [OF n])
  next
    case (Some k)
    with assms ko obtain cs where cs: "route_candidates s k (model_memory_mib a) (expected_identity fp a) = Inr cs"
      by (auto simp: route_model_request_def Let_def)
    show ?thesis
    proof (cases "choose_route s w k cs")
      case None
      then show ?thesis using assms ko Some cs wait by (auto simp: route_model_request_def Let_def)
    next
      case (Some p)
      then show ?thesis using assms ko \<open>ko = Some k\<close> cs route
        by (cases p) (simp add: route_model_request_def Let_def)
    qed
  qed
qed


lemma meta_loadD: "load_ok p rs \<Longrightarrow> map_of (metas p) i = Some m \<Longrightarrow> meta_load_ok (max_requests p) rs i m"
  by (simp add: load_ok_def)

lemma meta_load_cong: "count_list rs' j = count_list rs j \<Longrightarrow> meta_load_ok n rs' j m = meta_load_ok n rs j m"
  by (simp add: meta_load_ok_def)

text \<open>Admission and release change the load of one instance by one.\<close>

lemma load_change:
  assumes ok: "pool_ok s rs ss" and m: "map_of (metas s) i = Some m"
    and m': "meta_key m' = meta_key m" "li_limit m' = li_limit m" "li_inflight m' \<le> max_requests s"
      "li_inflight m' = int (count_list rs' i)"
    and rs: "\<And>j. j \<noteq> i \<Longrightarrow> count_list rs' j = count_list rs j"
  shows "pool_ok (s\<lparr>metas := dput i m' (metas s)\<rparr>) rs' ss"
proof (rule meta_only [OF ok m refl m'(1)])
  note l = pool_okD(3) [OF ok]
  have r: "j \<notin> set rs'" if "j \<noteq> i" "j \<notin> set rs" for j
    using rs [OF that(1)] that(2) by (metis count_list_0_iff)
  have a: "meta_load_ok (max_requests s) rs' i m'"
    using meta_loadD [OF l m] m' by (simp add: meta_load_ok_def)
  have b: "meta_load_ok (max_requests s) rs' j x" if "map_of (metas s) j = Some x" "j \<noteq> i" for j x
    using meta_loadD [OF l that(1)] meta_load_cong [OF rs [OF that(2)]] by simp
  show "load_ok (s\<lparr>metas := dput i m' (metas s)\<rparr>) rs'"
    using l a b r unfolding load_ok_def by simp
qed

lemma affinity_put:
  assumes ok: "pool_ok s rs ss" and w: "w \<notin> {None, Some []}" and i: "routable s k i"
  shows "pool_ok (s\<lparr>affinity := dput (w, k) i (affinity s)\<rparr>) rs ss"
proof -
  have "affinity_ok (s\<lparr>affinity := dput (w, k) i (affinity s)\<rparr>)"
    using pool_okD(5) [OF ok] w i
    by (auto simp: affinity_ok_def routable_def dest!: in_dput)
  then show ?thesis using ok unfolding pool_ok_def by (simp add: pool_oks)
qed

lemma admit_ok:
  assumes ok: "pool_ok s rs ss" and r: "admit now w k q i hit s = Inr (t, r)"
    and i: "routable s k i" and room: "has_room s i"
  shows "pool_ok t (i # rs) ss" and "\<exists>x. r = Some x \<and> rt_instance x = i"
proof -
  from i obtain m where m: "map_of (metas s) i = Some m" by (auto simp: routable_def)
  define s1 where "s1 = (if \<not> hit \<and> w \<notin> {None, Some []} then s\<lparr>affinity := dput (w, k) i (affinity s)\<rparr> else s)"
  define m' where "m' = m\<lparr>li_inflight := li_inflight m + 1, li_total := li_total m + 1, li_last_used := Some now\<rparr>"
  have s1: "pool_ok s1 rs ss" unfolding s1_def using ok affinity_put [OF ok _ i] by simp
  have m1: "map_of (metas s1) i = Some m" "max_requests s1 = max_requests s" by (simp_all add: s1_def m)
  have l: "li_inflight m = int (count_list rs i)" "li_inflight m < li_limit m" "li_limit m \<le> max_requests s"
    using meta_loadD [OF pool_okD(3) [OF ok] m] m room by (simp_all add: meta_load_ok_def has_room_def)
  have p: "pool_ok (s1\<lparr>metas := dput i m' (metas s1)\<rparr>) (i # rs) ss"
    by (rule load_change [OF s1 m1(1)]) (use l in \<open>auto simp: m'_def m1\<close>)
  have t: "t = drop_demand k q (s1\<lparr>metas := dput i m' (metas s1)\<rparr>)"
    using r unfolding s1_def m'_def by (simp add: admit_def m Let_def)
  show "pool_ok t (i # rs) ss"
    unfolding t by (rule demand_pool_ok [OF drop_demand_ok(2,1) p]) (rule pool_okD(7) [OF p])+
  show "\<exists>x. r = Some x \<and> rt_instance x = i"
    using r by (auto simp: admit_def m Let_def)
qed

lemma route_model_request_ok:
  assumes ok: "pool_ok s rs ss" and r: "route_model_request now fp w a t s = Inr (s', r)"
  shows "pool_ok s' (case r of None \<Rightarrow> rs | Some x \<Rightarrow> rt_instance x # rs) ss"
  using r
proof (cases rule: route_cases)
  case (wait k x cs)
  then show ?thesis using record_model_demand_ok [OF ok] by simp
next
  case (route k cs i hit)
  have c: "i \<in> set cs" "has_room s i" using choose_route_in [OF route(3)] .
  have "routable s k i"
    using route_candidates_in [OF route(2) c(1)] pool_okD(2) [OF ok] by (simp add: routing_ok_def)
  from admit_ok [OF ok route(4) this c(2)] show ?thesis by auto
qed (use ok in simp)

lemma release_model_route_ok:
  assumes ok: "pool_ok s rs ss" and i: "i \<in> set rs"
  shows "pool_ok (release_model_route now (Some i) s) (remove1 i rs) ss"
proof (cases "map_of (metas s) i")
  case None
  note l = pool_okD(3) [OF ok, unfolded load_ok_def]
  have "meta_load_ok (max_requests s) (remove1 i rs) j m" if "map_of (metas s) j = Some m" for j m
    using l that None by (subst meta_load_cong [where rs = rs]) (auto simp: count_list_remove1)
  then have "load_ok s (remove1 i rs)"
    using l unfolding load_ok_def by (auto dest: notin_set_remove1)
  then show ?thesis using ok None by (simp add: release_model_route_def upd_meta_def pool_ok_def)
next
  case (Some m)
  have l: "li_inflight m = int (count_list rs i)" "li_inflight m \<le> max_requests s"
    using meta_loadD [OF pool_okD(3) [OF ok] Some] by (simp_all add: meta_load_ok_def)
  have "0 < count_list rs i" using i by (simp add: count_list_0_iff neq0_conv [symmetric])
  then show ?thesis
    unfolding release_model_route_def upd_meta_def Some option.case
    by (intro load_change [OF ok Some]) (use l in \<open>auto simp: count_list_remove1\<close>)
qed

section \<open>Reachable fleets\<close>

theorem fleet_step_ok:
  assumes "fleet_step f g" "fleet_ok f"
  shows "fleet_ok g"
  using assms unfolding fleet_pool_ok
proof (induction rule: fleet_step.induct)
  case (stop_owned i final e f p act)
  from begin_stop_ok [OF stop_owned(2,1)] show ?case by (auto intro: stop_push)
next
  case (routed now fp w a t f p r)
  from route_model_request_ok [OF routed(2,1)] show ?case by simp
next
  case (refused now fp w a t f p)
  from route_model_request_ok [OF refused(2,1)] show ?case by simp
qed (auto intro: record_model_demand_ok release_model_route_ok clear_workflow_state_ok mark_model_deploying_ok
    clear_model_deploying_ok register_starting_ok record_launch_ok mark_ready_ok request_start_cancellation_ok
    set_resource_decision_ok prepare_memory_recovery_ok runtime_failure_ok record_metrics_ok claim_lru_scale_in_ok
    cancel_lru_scale_in_claim_ok begin_stop_ok(1) after_wait_ok stop_failed_ok stop_succeeded_ok
    finalize_stopped_instance_ok iffD2 [OF bookkeeping_pool_ok] simp: clear_start_cancellation_def bookkeeping_def)

theorem reachable_fleet_ok:
  assumes "reachable_fleet f"
  shows "fleet_ok f"
proof -
  from assms obtain n x y where "fleet_step\<^sup>*\<^sup>* (new_fleet n x y) f" by (auto simp: reachable_fleet_def)
  then show ?thesis
    by (induction rule: rtranclp_induct) (auto intro: new_fleet_ok fleet_step_ok)
qed


end
