(* ===== verification/Instance_Properties.thy ===== *)
theory Instance_Properties
  imports Instance_Safety
begin

text \<open>
  What the model pool promises its callers in every state it can reach: only a ready instance that is large
  enough and has room serves a request, the load is counted exactly, an instance taken out of service is not
  used any more, and a model that is asked for and not served is recommended.
\<close>

section \<open>A sample history\<close>

text \<open>One instance of one model, started, launched and made ready; then a request is routed to it.\<close>

definition sample_anchor :: anchor where
  "sample_anchor = [(''model'', VStr ''m''), (''gpu_mem'', VInt 8)]"

definition sample_started :: pool where
  "sample_started = projr (register_starting_instance ''i'' 0 (VStr ''m'') ''vllm'' ''n'' ''ip'' (VInt 0) [(''gpu_mem'', 8)]
     None None VNone ''g'' (new_pool 2 1 300))"

definition sample_launched :: pool where
  "sample_launched = fst (projr (record_launch ''i'' 0 \<lparr>la_backend = ''vllm'', la_port = ''1'', la_group = None\<rparr> sample_started))"

definition sample_ready :: pool where
  "sample_ready = fst (projr (mark_ready 5 ''i'' 0 sample_launched))"

definition sample_routed :: "pool \<times> route_info option" where
  "sample_routed = projr (route_model_request 6 (\<lambda>_. []) (Some ''w'') sample_anchor (Some ''t'') sample_ready)"

lemma sample_start:
  "register_starting_instance ''i'' 0 (VStr ''m'') ''vllm'' ''n'' ''ip'' (VInt 0) [(''gpu_mem'', 8)]
     None None VNone ''g'' (new_pool 2 1 300) = Inr sample_started"
  by (simp add: sample_started_def register_starting_instance_def new_pool_def)

lemma sample_launch:
  "record_launch ''i'' 0 \<lparr>la_backend = ''vllm'', la_port = ''1'', la_group = None\<rparr> sample_started
     = Inr (sample_launched, ''1'')"
  by code_simp

lemma sample_mark: "mark_ready 5 ''i'' 0 sample_launched = Inr (sample_ready, snd (projr (mark_ready 5 ''i'' 0 sample_launched)))"
  by code_simp

lemma sample_route: "route_model_request 6 (\<lambda>_. []) (Some ''w'') sample_anchor (Some ''t'') sample_ready = Inr sample_routed"
  by code_simp

definition sample_fleet :: fleet where
  "sample_fleet = \<lparr>pool_of = sample_ready, open_routes = [], stopping_now = []\<rparr>"

lemma sample_fleet_reachable: "reachable_fleet sample_fleet"
proof -
  let ?f = "\<lambda>p. \<lparr>pool_of = p, open_routes = [], stopping_now = []\<rparr>"
  have "fleet_step (new_fleet 2 1 300) (?f sample_started)"
    using started [where f = "new_fleet 2 1 300"] sample_start by (simp add: new_fleet_def)
  moreover have "fleet_step (?f sample_started) (?f sample_launched)"
    using launched [where f = "?f sample_started"] sample_launch by simp
  moreover have "fleet_step (?f sample_launched) (?f sample_ready)"
    using ready [where f = "?f sample_launched"] sample_mark by simp
  ultimately show ?thesis
    unfolding reachable_fleet_def sample_fleet_def by (meson converse_rtranclp_into_rtranclp rtranclp.rtrancl_refl)
qed

section \<open>Routing\<close>

lemma route_admission_aux:
  assumes "fleet_ok f" and r: "route_model_request now fp w a t (pool_of f) = Inr (p, Some r)"
  shows "\<exists>m d. map_of (inst_state (pool_of f)) (rt_instance r) = Some ''ready''
    \<and> map_of (metas (pool_of f)) (rt_instance r) = Some m \<and> map_of (details (pool_of f)) (rt_instance r) = Some d
    \<and> model_key_from_anchor a = Inr (Some (meta_key m))
    \<and> of_int (model_memory_mib a) \<le> dgetd (ld_resources d) ''gpu_mem'' 0
    \<and> identity_fits (expected_identity fp a) m
    \<and> int (count_list (open_routes f) (rt_instance r)) < li_limit m \<and> li_limit m \<le> max_requests (pool_of f)"
  using r
proof (cases rule: route_cases)
  case (route k cs i hit)
  note ok = fleet_okD [OF assms(1)]
  have c: "i \<in> set cs" "has_room (pool_of f) i" using choose_route_in [OF route(3)] .
  note e = route_candidates_in [OF route(2) c(1)]
  from e(1) ok(2) have "routable (pool_of f) k i" by (simp add: routing_ok_def)
  then obtain m where m: "map_of (metas (pool_of f)) i = Some m" "meta_key m = k"
      "map_of (inst_state (pool_of f)) i = Some ''ready''"
    by (auto simp: routable_def)
  have i: "rt_instance r = i" using route(4) m by (auto simp: admit_def Let_def)
  have l: "li_inflight m = int (count_list (open_routes f) i)" "li_limit m \<le> max_requests (pool_of f)"
    using meta_loadD [OF ok(3) m(1)] by (simp_all add: meta_load_ok_def)
  from e(2) m obtain d where "map_of (details (pool_of f)) i = Some d"
      "of_int (model_memory_mib a) \<le> dgetd (ld_resources d) ''gpu_mem'' 0" "identity_fits (expected_identity fp a) m"
    by (auto simp: route_fits_def split: option.splits)
  then show ?thesis using m route(1) l c(2) by (simp add: i has_room_def)
qed simp_all

text \<open>
  C19: A request is only ever sent to an instance that is ready, serves the model and backend asked for, holds
  the memory the request's anchor needs, carries the identity it insists on, and has fewer open routes than
  its admission limit, which never exceeds the configured maximum.
\<close>

theorem route_admission:
  assumes "reachable_fleet f" and "route_model_request now fp w a t (pool_of f) = Inr (p, Some r)"
  shows "\<exists>m d. map_of (inst_state (pool_of f)) (rt_instance r) = Some ''ready''
    \<and> map_of (metas (pool_of f)) (rt_instance r) = Some m \<and> map_of (details (pool_of f)) (rt_instance r) = Some d
    \<and> model_key_from_anchor a = Inr (Some (meta_key m))
    \<and> of_int (model_memory_mib a) \<le> dgetd (ld_resources d) ''gpu_mem'' 0
    \<and> identity_fits (expected_identity fp a) m
    \<and> int (count_list (open_routes f) (rt_instance r)) < li_limit m \<and> li_limit m \<le> max_requests (pool_of f)"
  using route_admission_aux [OF reachable_fleet_ok [OF assms(1)] assms(2)] .

theorem route_admission_witness:
  "\<exists>r m. snd sample_routed = Some r \<and> map_of (metas sample_ready) (rt_instance r) = Some m \<and> 0 < li_limit m"
proof -
  have "snd sample_routed \<noteq> None" by code_simp
  then obtain r where r: "snd sample_routed = Some r" by blast
  from route_admission [OF sample_fleet_reachable, of 6 "\<lambda>_. []" "Some ''w''" sample_anchor "Some ''t''" "fst sample_routed" r]
  moreover have "sample_routed = (fst sample_routed, Some r)" using r by (metis prod.collapse)
  ultimately show ?thesis using sample_route r by (auto simp: sample_fleet_def)
qed

text \<open>
  C20: The in-flight count of every instance is the number of routes to it that were handed out and not yet
  released, and never exceeds the configured maximum: no double count, no leak, no overload.
\<close>

theorem inflight_exact:
  assumes "reachable_fleet f" and "map_of (metas (pool_of f)) i = Some m"
  shows "li_inflight m = int (count_list (open_routes f) i) \<and> li_inflight m \<le> max_requests (pool_of f)"
  using meta_loadD [OF fleet_okD(3) [OF reachable_fleet_ok [OF assms(1)]] assms(2)] by (simp add: meta_load_ok_def)

theorem inflight_exact_witness: "\<exists>m. map_of (metas sample_ready) ''i'' = Some m \<and> li_inflight m = 0"
proof -
  have "map_of (metas sample_ready) ''i'' \<noteq> None" by code_simp
  then show ?thesis using inflight_exact [OF sample_fleet_reachable, of "''i''"] by (auto simp: sample_fleet_def)
qed

lemma route_fits_total:
  assumes "books_ok s"
  shows "\<exists>b. route_fits s req ex i = Inr b"
proof -
  have "map_of (metas s) i = Some m \<Longrightarrow> \<exists>d. map_of (details s) i = Some d" for m
    using assms by (auto simp: books_ok_def dhas_iff)
  then show ?thesis by (auto simp: route_fits_def split: option.splits)
qed

lemma rmap_total: "(\<And>x. x \<in> set xs \<Longrightarrow> \<exists>y. f x = Inr y) \<Longrightarrow> \<exists>ys. rmap f xs = Inr ys"
proof (induction xs)
  case (Cons x xs)
  obtain y ys where "f x = Inr y" "rmap f xs = Inr ys" using Cons.IH Cons.prems by (meson list.set_intros)
  then show ?case by simp
qed simp

text \<open>
  Routing a request never raises in a reachable pool once its model and backend are valid: the lookups in
  the tables of the pool always succeed.
\<close>

theorem route_never_raises:
  assumes "reachable_fleet f" and "model_key_from_anchor a = Inr k"
  shows "\<exists>p r. route_model_request now fp w a t (pool_of f) = Inr (p, r)"
proof (cases k)
  case None
  then show ?thesis using assms(2) by (simp add: route_model_request_def)
next
  case key: (Some k)
  let ?s = "pool_of f"
  note ok = fleet_okD [OF reachable_fleet_ok [OF assms(1)]]
  have "\<exists>cs. route_candidates ?s k (model_memory_mib a) (expected_identity fp a) = Inr cs"
    unfolding route_candidates_def
    using rmap_total [of "sort (dgetd (routing ?s) k [])"
        "\<lambda>i. rbind (route_fits ?s (model_memory_mib a) (expected_identity fp a) i) (\<lambda>b. Inr (i, b))"]
      route_fits_total [OF ok(1)] by (metis (no_types, lifting) rbind.simps(2))
  then obtain cs where cs: "route_candidates ?s k (model_memory_mib a) (expected_identity fp a) = Inr cs" by blast
  show ?thesis
  proof (cases "choose_route ?s w k cs")
    case None
    then show ?thesis using assms(2) key cs
      by (simp add: route_model_request_def record_model_demand_def Let_def)
  next
    case (Some p)
    obtain i hit where p: "p = (i, hit)" by (cases p)
    have "has_room ?s i" using choose_route_in Some p by blast
    then show ?thesis using assms(2) key cs Some p
      by (auto simp: route_model_request_def admit_def has_room_def Let_def split: option.splits)
  qed
qed

theorem route_never_raises_witness:
  "\<exists>p r. route_model_request 6 (\<lambda>_. []) None sample_anchor None sample_ready = Inr (p, r)"
proof -
  have "model_key_from_anchor sample_anchor = Inr (Some (Key (VStr ''m'') ''vllm''))" by code_simp
  from route_never_raises [OF sample_fleet_reachable this] show ?thesis by (simp add: sample_fleet_def)
qed

section \<open>Leaving the service\<close>

lemma claim_facts:
  assumes ok: "fleet_ok f" and c: "claim_lru_scale_in i e now idle np (pool_of f) = Inr (p, True)"
  shows "i \<notin> set (open_routes f) \<and> map_of (inst_state p) i = Some ''stopping''
    \<and> (\<forall>k. i \<notin> set (dgetd (routing p) k [])) \<and> i \<notin> snd ` set (affinity p)"
proof -
  from c obtain m where m: "map_of (metas (pool_of f)) i = Some m" "li_inflight m = 0"
    by (auto simp: claim_lru_scale_in_def Let_def split: if_splits option.splits)
  have "count_list (open_routes f) i = 0"
    using meta_loadD [OF fleet_okD(3) [OF ok] m(1)] m(2) by (simp add: meta_load_ok_def)
  then have free: "i \<notin> set (open_routes f)" by (simp add: count_list_0_iff)
  have st: "map_of (inst_state p) i = Some ''stopping''"
    using c by (auto simp: claim_lru_scale_in_def Let_def split: if_splits option.splits)
  have p: "pool_ok p (open_routes f) (stopping_now f)"
    using claim_lru_scale_in_ok [OF _ c] ok by (simp add: fleet_pool_ok)
  have "\<not> routable p k i" for k using st by (simp add: routable_def)
  then show ?thesis using pool_okD(2,5) [OF p] free st by (auto simp: routing_ok_def affinity_ok_def)
qed

text \<open>
  C21: Scaling in never disturbs a request: an instance can only be claimed while no route to it is open, and
  once claimed it is in no routing set and no workflow prefers it, so no later request reaches it.
\<close>

theorem scale_in_safe:
  assumes "reachable_fleet f" and "claim_lru_scale_in i e now idle np (pool_of f) = Inr (p, True)"
  shows "i \<notin> set (open_routes f) \<and> map_of (inst_state p) i = Some ''stopping''
    \<and> (\<forall>k. i \<notin> set (dgetd (routing p) k [])) \<and> i \<notin> snd ` set (affinity p)"
  using claim_facts [OF reachable_fleet_ok [OF assms(1)] assms(2)] .

theorem scale_in_safe_witness:
  "let p = fst (projr (claim_lru_scale_in ''i'' None 400 None False sample_ready)) in map_of (inst_state p) ''i'' = Some ''stopping''"
proof -
  have "claim_lru_scale_in ''i'' None 400 None False (pool_of sample_fleet)
      = Inr (fst (projr (claim_lru_scale_in ''i'' None 400 None False sample_ready)), True)"
    by code_simp
  from scale_in_safe [OF sample_fleet_reachable this] show ?thesis by simp
qed

text \<open>
  A cleanup has one owner: no instance is being stopped twice at the same time, an instance whose stop is
  under way stays in the state stopping, with the actor the owner saw, until the owner reports, and nobody can
  restore it to the service meanwhile.
\<close>

theorem stop_has_one_owner:
  assumes "reachable_fleet f" and "(i, act) \<in> set (stopping_now f)"
  shows "map_of (inst_state (pool_of f)) i = Some ''stopping'' \<and> map_of (inst_actor (pool_of f)) i = Some act
    \<and> distinct (map fst (stopping_now f)) \<and> \<not> snd (cancel_lru_scale_in_claim i (pool_of f))"
proof -
  have c: "claims_ok (pool_of f) (stopping_now f)" by (rule fleet_okD(4) [OF reachable_fleet_ok [OF assms(1)]])
  then have "distinct (map fst (stopping_now f))" by (simp add: claims_ok_def)
  moreover have "i \<notin> claims (pool_of f)" "map_of (inst_state (pool_of f)) i = Some ''stopping''"
      "map_of (inst_actor (pool_of f)) i = Some act"
    using c assms(2) by (auto simp: claims_ok_def)
  ultimately show ?thesis by (simp add: cancel_lru_scale_in_claim_def)
qed

definition sample_stopping :: fleet where
  "sample_stopping = \<lparr>pool_of = fst (projr (begin_stop ''i'' True None sample_ready)), open_routes = [],
     stopping_now = [(''i'', 0)]\<rparr>"

lemma sample_stopping_reachable: "reachable_fleet sample_stopping"
proof -
  have "begin_stop ''i'' True None sample_ready = Inr (pool_of sample_stopping, Stop_owner (Some 0))" by code_simp
  then have "fleet_step sample_fleet sample_stopping"
    using stop_owned [where f = sample_fleet and act = 0] by (simp add: sample_fleet_def sample_stopping_def)
  then show ?thesis using sample_fleet_reachable unfolding reachable_fleet_def
    by (meson rtranclp.rtrancl_into_rtrancl)
qed

theorem stop_has_one_owner_witness: "map_of (inst_actor (pool_of sample_stopping)) ''i'' = Some 0"
  using stop_has_one_owner [OF sample_stopping_reachable, of "''i''" 0] by (simp add: sample_stopping_def)

section \<open>Demand\<close>

lemma recommended:
  assumes ok: "demand_ok s" and q: "dgetd (demand s) k [] \<noteq> []"
    and none: "dgetd (routing s) k [] = []" "dgetd (deploying s) k 0 = 0"
    and a: "a \<in> set (dvals (dgetd (request_anchors s) k []))"
  shows "\<exists>r \<in> set (scale_out_recommendations s). sr_key r = k \<and> sr_reason r = ''no_active_instance''
    \<and> model_memory_mib a \<le> sr_gpu_mem r \<and> model_key_from_anchor (sr_anchor r) = Inr (Some k)"
proof -
  let ?as = "dvals (dgetd (request_anchors s) k [])"
  have d: "key_demand_ok k (dgetd (demand s) k []) (dgetd (request_anchors s) k []) (map_of (demand_anchors s) k)"
    using ok by (simp add: demand_ok_def)
  then obtain b where b: "map_of (demand_anchors s) k = Some b" "b \<in> set ?as"
      "\<forall>x \<in> set ?as. model_memory_mib x \<le> model_memory_mib b"
    using a by (auto simp: key_demand_ok_def anchor_max_def split: option.splits)
  obtain rs where rs: "map_of (demand s) k = Some rs" "rs \<noteq> []"
    using q by (auto simp: dgetd_def split: option.splits)
  then have "(k, rs) \<in> set (demand s)" by (simp add: map_of_in)
  moreover obtain r where r: "recommend_for s k (length rs) = Some r" "sr_key r = k" "sr_reason r = ''no_active_instance''"
      "sr_gpu_mem r = model_memory_mib b" "sr_anchor r = b"
    using rs(2) none b(1) by (simp add: recommend_for_def Let_def dgetd_def)
  ultimately have "r \<in> set (scale_out_recommendations s)"
    by (force simp: scale_out_recommendations_def List.map_filter_def image_iff)
  moreover have "model_key_from_anchor b = Inr (Some k)" using d b(2) by (simp add: key_demand_ok_def)
  ultimately show ?thesis using r a b(3) by auto
qed

lemma refused_demand:
  assumes ok: "fleet_ok f" and k: "model_key_from_anchor a = Inr (Some k)"
    and r: "route_model_request now fp w a t (pool_of f) = Inr (p, None)"
  shows "p = add_demand k (request_id w t) a (pool_of f)"
  using r
proof (cases rule: route_cases)
  case (wait k' x cs)
  then show ?thesis using k by (simp add: record_model_demand_def Let_def)
next
  case (route k' cs i hit)
  then show ?thesis by (auto simp: admit_def Let_def split: option.splits)
qed (use k in simp)

text \<open>
  Demand is answered: when a request finds no instance and nothing serves its model or is being deployed
  for it, the next scaling decision recommends a deployment of exactly that model and backend, with at least
  the memory the request needs.
\<close>

theorem refused_demand_recommended:
  assumes "reachable_fleet f" and "model_key_from_anchor a = Inr (Some k)"
    and "route_model_request now fp w a t (pool_of f) = Inr (p, None)"
    and "dgetd (routing (pool_of f)) k [] = []" and "dgetd (deploying (pool_of f)) k 0 = 0"
  shows "\<exists>r \<in> set (scale_out_recommendations p). sr_key r = k \<and> sr_reason r = ''no_active_instance''
    \<and> model_memory_mib a \<le> sr_gpu_mem r \<and> model_key_from_anchor (sr_anchor r) = Inr (Some k)"
proof -
  note ok = reachable_fleet_ok [OF assms(1)]
  have p: "p = add_demand k (request_id w t) a (pool_of f)" by (rule refused_demand [OF ok assms(2,3)])
  note d = add_demand_ok [OF fleet_okD(7) [OF ok] assms(2), of "request_id w t", folded p]
  have q: "request_id w t \<in> set (dgetd (demand p) k [])"
      "map_of (dgetd (request_anchors p) k []) (request_id w t) = Some a"
    by (simp_all add: p add_demand_def dgetd_dput)
  then have "a \<in> set (dvals (dgetd (request_anchors p) k []))"
    by (auto simp: dvals_def dest: map_of_in intro!: image_eqI [where x = "(request_id w t, a)"])
  then show ?thesis
    using q(1) assms(4,5) by (intro recommended [OF d(1)]) (auto simp: same_but_demand_ok [OF d(2)])
qed

lemma sample_new_reachable: "reachable_fleet (new_fleet 2 1 300)"
  unfolding reachable_fleet_def by blast

theorem refused_demand_recommended_witness:
  "\<exists>r \<in> set (scale_out_recommendations (add_demand (Key (VStr ''m'') ''vllm'') (''w'', ''t'') sample_anchor (new_pool 2 1 300))).
     8 \<le> sr_gpu_mem r"
proof -
  let ?p = "add_demand (Key (VStr ''m'') ''vllm'') (''w'', ''t'') sample_anchor (new_pool 2 1 300)"
  have k: "model_key_from_anchor sample_anchor = Inr (Some (Key (VStr ''m'') ''vllm''))" by code_simp
  have m: "model_memory_mib sample_anchor = 8" by code_simp
  have r: "route_model_request 1 (\<lambda>_. []) (Some ''w'') sample_anchor (Some ''t'') (pool_of (new_fleet 2 1 300)) = Inr (?p, None)"
    by code_simp
  show ?thesis
    using refused_demand_recommended [OF sample_new_reachable k r] m
    by (auto simp: new_fleet_def new_pool_def dgetd_def)
qed

text \<open>
  Clearing a workflow removes its waiting requests and its preferences everywhere, and touches no other
  workflow's.
\<close>

theorem cleared_workflow_forgotten:
  assumes "reachable_fleet f" and "w \<noteq> []"
  shows "dgetd (demand (fst (clear_workflow_state (Some w) (pool_of f)))) k []
      = filter (\<lambda>q. fst q \<noteq> w) (dgetd (demand (pool_of f)) k [])
    \<and> affinity (fst (clear_workflow_state (Some w) (pool_of f))) = filter (\<lambda>((u, k), i). u \<noteq> Some w) (affinity (pool_of f))"
proof -
  let ?s = "pool_of f"
  have ok: "demand_ok ?s" by (rule fleet_okD(7) [OF reachable_fleet_ok [OF assms(1)]])
  note g = forget_all_ok [OF ok, of w "dkeys (demand ?s)"]
  have "k \<notin> set (dkeys (demand ?s)) \<Longrightarrow> dgetd (demand ?s) k [] = []"
    by (auto simp: dgetd_def split: option.splits dest: map_of_dkeys)
  moreover have "affinity (foldl (forget_requests w) ?s (dkeys (demand ?s))) = affinity ?s"
    using arg_cong [OF g(2) [unfolded same_but_demand_def], of affinity] by (simp add: no_demand_def)
  ultimately show ?thesis
    using assms(2) by (auto simp: clear_workflow_state_def Let_def g(3))
qed


theorem cleared_workflow_forgotten_witness:
  "affinity (fst (clear_workflow_state (Some ''w'') sample_ready)) = filter (\<lambda>((u, k), i). u \<noteq> Some ''w'') (affinity sample_ready)"
  using cleared_workflow_forgotten [OF sample_fleet_reachable, of "''w''"] by (simp add: sample_fleet_def)


end
