(* ===== verification/Standby_Pool.thy ===== *)
theory Standby_Pool
  imports Cluster
begin

text \<open>
  The standby workers of \<open>maze/core/scheduler/standby_worker.py\<close>: warmed processes kept on every node, lent
  to tasks and replaced. A worker is a number, the one of the call of \<open>actor_factory\<close> that made it; \<open>id(actor)\<close>
  is that number, which is right as long as the pool or a lease refers to the actor. Which calls of the
  factory raise is an argument; what the killer raises is ignored by the code, its calls are recorded.
\<close>

section \<open>State\<close>

record standby =
  sb_sizes :: "(string, nat) dict"
  sb_enabled :: bool
  sb_workers :: "(string, (string, nat list) dict) dict"
  sb_busy :: "nat set"
  sb_calls :: nat
  sb_killed :: "nat list"

record standby_lease =
  sl_node :: string
  sl_type :: string
  sl_actor :: nat

definition default_pool_sizes :: "(string, int) dict" where
  "default_pool_sizes = [(''gpu'', 1), (''cpu'', 2), (''io'', 1)]"

definition new_standby :: "(string, int) dict \<Rightarrow> bool \<Rightarrow> standby" where
  "new_standby sizes enabled =
     \<lparr>sb_sizes = map (\<lambda>(t, n). (t, nat n)) (if sizes = [] then default_pool_sizes else sizes),
      sb_enabled = enabled, sb_workers = [], sb_busy = {}, sb_calls = 0, sb_killed = []\<rparr>"

definition env_flag :: "(string \<Rightarrow> string option) \<Rightarrow> string \<Rightarrow> bool \<Rightarrow> bool" where
  "env_flag env name dflt =
     (case env name of None \<Rightarrow> dflt
      | Some v \<Rightarrow> py_lower (py_strip v) \<notin> {''0'', ''false'', ''no'', ''off''})"

definition py_upper :: "string \<Rightarrow> string" where
  "py_upper = map (\<lambda>c. if CHR ''a'' \<le> c \<and> c \<le> CHR ''z'' then char_of ((of_char c :: nat) - 32) else c)"

definition standby_from_env :: "(string \<Rightarrow> string option) \<Rightarrow> standby result" where
  "standby_from_env env =
     rbind (rmap (\<lambda>(t, n). case env (''MAZE_STANDBY_'' @ py_upper t @ ''_WORKERS'') of
              None \<Rightarrow> Inr (t, n) | Some v \<Rightarrow> rbind (py_int (VStr v)) (\<lambda>k. Inr (t, max 0 k))) default_pool_sizes)
       (\<lambda>sizes. Inr (new_standby sizes (env_flag env ''MAZE_STANDBY_WORKERS_ENABLED'' True)))"

definition workers_at :: "standby \<Rightarrow> string \<Rightarrow> string \<Rightarrow> nat list" where
  "workers_at s n t = dgetd (dgetd (sb_workers s) n []) t []"

definition put_workers :: "string \<Rightarrow> string \<Rightarrow> nat list \<Rightarrow> standby \<Rightarrow> standby" where
  "put_workers n t ws s = s\<lparr>sb_workers := dput n (dput t ws (dgetd (sb_workers s) n [])) (sb_workers s)\<rparr>"

section \<open>Filling and emptying a group\<close>

text \<open>
  \<open>while len(workers) < target: workers.append(actor_factory(...))\<close>. The value is the list, the number of
  calls made so far and whether the last call raised.
\<close>

function grow :: "(nat \<Rightarrow> bool) \<Rightarrow> nat \<Rightarrow> nat list \<Rightarrow> nat \<Rightarrow> nat list \<times> nat \<times> bool" where
  "grow raises target ws k =
     (if length ws < target
      then (if raises k then (ws, Suc k, True) else grow raises target (ws @ [k]) (Suc k))
      else (ws, k, False))"
  by pat_completeness auto
termination
  by (relation "measure (\<lambda>(raises, target, ws, k). target - length ws)") auto

text \<open>\<open>while len(workers) > target\<close>: the last idle worker goes, until only busy ones are left.\<close>

function shrink :: "nat set \<Rightarrow> nat \<Rightarrow> nat list \<Rightarrow> nat list \<Rightarrow> nat list \<times> nat list" where
  "shrink busy target ws killed =
     (if target < length ws
      then (case first_match (\<lambda>a. a \<notin> busy) (rev ws) of
              None \<Rightarrow> (ws, killed)
            | Some a \<Rightarrow> shrink busy target (remove1 a ws) (killed @ [a]))
      else (ws, killed))"
  by pat_completeness auto
termination
  by (relation "measure (\<lambda>(busy, target, ws, killed). length ws)")
    (auto simp: length_remove1 dest: first_match_Some)

declare grow.simps [simp del] shrink.simps [simp del]

section \<open>Operations\<close>

definition remove_node :: "string \<Rightarrow> standby \<Rightarrow> standby" where
  "remove_node n s =
     (let ws = concat (dvals (dgetd (sb_workers s) n []))
      in s\<lparr>sb_workers := ddel n (sb_workers s), sb_busy := sb_busy s - set ws, sb_killed := sb_killed s @ ws\<rparr>)"

text \<open>One group of one node; the flag says that the factory raised, which ends \<open>ensure_for_nodes\<close>.\<close>

definition ensure_type :: "(nat \<Rightarrow> bool) \<Rightarrow> string \<Rightarrow> standby \<times> bool \<Rightarrow> string \<times> nat \<Rightarrow> standby \<times> bool" where
  "ensure_type raises n p g =
     (case (p, g) of ((s, failed), (t, target)) \<Rightarrow>
        if failed then (s, True)
        else (case grow raises target (workers_at s n t) (sb_calls s) of
            (ws, k, True) \<Rightarrow> (put_workers n t ws (s\<lparr>sb_calls := k\<rparr>), True)
          | (ws, k, False) \<Rightarrow>
              (case shrink (sb_busy s) target ws (sb_killed s) of
                 (ws', killed) \<Rightarrow> (put_workers n t ws' (s\<lparr>sb_calls := k, sb_killed := killed\<rparr>), False))))"

definition ensure_node :: "(nat \<Rightarrow> bool) \<Rightarrow> standby \<times> bool \<Rightarrow> string \<Rightarrow> standby \<times> bool" where
  "ensure_node raises p n =
     (case p of (s, failed) \<Rightarrow>
        if failed then (s, True)
        else foldl (ensure_type raises n) (s\<lparr>sb_workers := dsetdefault n [] (sb_workers s)\<rparr>, False) (sb_sizes s))"

definition ensure_for_nodes :: "(nat \<Rightarrow> bool) \<Rightarrow> string list \<Rightarrow> standby \<Rightarrow> standby \<times> bool" where
  "ensure_for_nodes raises live s =
     (if \<not> sb_enabled s then (s, False)
      else (let stale = filter (\<lambda>n. n \<notin> set live) (dkeys (sb_workers s))
            in foldl (ensure_node raises) (foldl (\<lambda>s n. remove_node n s) s stale, False) (sort (remdups live))))"

definition acquire :: "string \<Rightarrow> string \<Rightarrow> standby \<Rightarrow> standby \<times> standby_lease option" where
  "acquire n kind s =
     (if \<not> sb_enabled s then (s, None)
      else (let t = py_lower (py_strip (if kind = [] then ''cpu'' else kind)) in
            case first_match (\<lambda>a. a \<notin> sb_busy s) (workers_at s n t) of
              None \<Rightarrow> (s, None)
            | Some a \<Rightarrow> (s\<lparr>sb_busy := insert a (sb_busy s)\<rparr>, Some \<lparr>sl_node = n, sl_type = t, sl_actor = a\<rparr>)))"

text \<open>A worker that is discarded, and every used GPU worker, is killed and replaced.\<close>

definition release_standby :: "(nat \<Rightarrow> bool) \<Rightarrow> standby_lease option \<Rightarrow> bool \<Rightarrow> standby \<Rightarrow> standby" where
  "release_standby raises l discard s0 =
     (case l of None \<Rightarrow> s0
      | Some l \<Rightarrow>
          (let s = s0\<lparr>sb_busy := sb_busy s0 - {sl_actor l}\<rparr> in
           if \<not> discard \<and> sl_type l \<noteq> ''gpu'' then s
           else (case map_of (dgetd (sb_workers s) (sl_node l) []) (sl_type l) of
               None \<Rightarrow> s
             | Some ws \<Rightarrow>
                 if sl_actor l \<notin> set ws then s
                 else (let ws1 = remove1 (sl_actor l) ws;
                           (ws2, k, failed) = (if sb_enabled s
                             then grow raises (dgetd (sb_sizes s) (sl_type l) 0) ws1 (sb_calls s)
                             else (ws1, sb_calls s, False))
                       in put_workers (sl_node l) (sl_type l) ws2
                            (s\<lparr>sb_calls := k, sb_killed := sb_killed s @ [sl_actor l]\<rparr>)))))"

text \<open>\<open>_execution_snapshot\<close>: total, busy and idle workers of every group.\<close>

definition execution_snapshot :: "standby \<Rightarrow> (string, (string, nat \<times> nat \<times> nat) dict) dict" where
  "execution_snapshot s =
     dmapv (\<lambda>n g. dmapv (\<lambda>t ws. let busy = length (filter (\<lambda>a. a \<in> sb_busy s) ws)
                                  in (length ws, busy, length ws - busy)) g) (sb_workers s)"

section \<open>Histories\<close>

text \<open>The pool with the leases its callers hold.\<close>

inductive standby_step :: "standby \<times> standby_lease list \<Rightarrow> standby \<times> standby_lease list \<Rightarrow> bool" where
  ensured: "standby_step (s, ls) (fst (ensure_for_nodes raises live s), ls)"
| removed: "standby_step (s, ls) (remove_node n s, ls)"
| lent: "acquire n kind s = (s', Some l) \<Longrightarrow> standby_step (s, ls) (s', l # ls)"
| denied: "acquire n kind s = (s', None) \<Longrightarrow> standby_step (s, ls) (s', ls)"
| returned: "l \<in> set ls \<Longrightarrow> standby_step (s, ls) (release_standby raises (Some l) discard s, remove1 l ls)"

definition reachable_standby :: "standby \<Rightarrow> standby_lease list \<Rightarrow> bool" where
  "reachable_standby s ls = (\<exists>sizes enabled. standby_step\<^sup>*\<^sup>* (new_standby sizes enabled, []) (s, ls))"

section \<open>The loops\<close>

text \<open>Growing appends fresh workers, and without an exception reaches the target.\<close>

lemma grow_spec:
  "grow raises target ws k = (ws', k', failed) \<Longrightarrow>
   \<exists>new. ws' = ws @ new \<and> set new \<subseteq> {k..<k'} \<and> distinct new \<and> k \<le> k' \<and>
     (failed \<longrightarrow> length ws' < target) \<and> (\<not> failed \<longrightarrow> length ws' = max (length ws) target)"
proof (induction raises target ws k rule: grow.induct)
  case (1 raises target ws k)
  show ?case
  proof (cases "length ws < target \<and> \<not> raises k")
    case True
    then have "grow raises target (ws @ [k]) (Suc k) = (ws', k', failed)"
      using "1.prems" by (simp add: grow.simps [of raises target ws])
    from "1.IH" [OF _ _ this] True obtain new where n: "ws' = (ws @ [k]) @ new" "set new \<subseteq> {Suc k..<k'}" "distinct new"
        "Suc k \<le> k'" "failed \<longrightarrow> length ws' < target" "\<not> failed \<longrightarrow> length ws' = max (length (ws @ [k])) target"
      by blast
    then show ?thesis using True by (intro exI [of _ "k # new"]) (auto simp: max_def)
  qed (use "1.prems" in \<open>auto simp: grow.simps [of raises target ws] split: if_splits\<close>)
qed

text \<open>Shrinking removes idle workers only, and stops at the target or when every worker is busy.\<close>

lemma shrink_spec:
  "shrink busy target ws killed = (ws', killed') \<Longrightarrow> distinct ws \<Longrightarrow>
   set ws' \<subseteq> set ws \<and> distinct ws' \<and> filter (\<lambda>a. a \<in> busy) ws' = filter (\<lambda>a. a \<in> busy) ws \<and>
   length ws' = min (length ws) (max target (length (filter (\<lambda>a. a \<in> busy) ws)))"
proof (induction busy target ws killed rule: shrink.induct)
  case (1 busy target ws killed)
  note s = shrink.simps [of busy target ws killed]
  show ?case
  proof (cases "target < length ws")
    case False
    then show ?thesis using 1 by (auto simp: s)
  next
    case big: True
    show ?thesis
    proof (cases "first_match (\<lambda>a. a \<notin> busy) (rev ws)")
      case None
      then have b: "\<forall>a \<in> set ws. a \<in> busy" by (simp add: first_match_None)
      then have "filter (\<lambda>a. a \<in> busy) ws = ws" by (simp add: filter_id_conv)
      then show ?thesis using 1(2,3) big None by (simp add: s)
    next
      case (Some a)
      then have a: "a \<in> set ws" "a \<notin> busy" using first_match_Some [OF Some] by auto
      have r: "set (remove1 a ws) = set ws - {a}" using 1(3) by (simp add: set_remove1_eq)
      have "shrink busy target (remove1 a ws) (killed @ [a]) = (ws', killed')"
        using 1(2) big Some by (simp add: s)
      from "1.IH" [OF big Some this] 1(3)
      have ih: "set ws' \<subseteq> set (remove1 a ws)" "distinct ws'"
        "filter (\<lambda>a. a \<in> busy) ws' = filter (\<lambda>a. a \<in> busy) (remove1 a ws)"
        "length ws' = min (length (remove1 a ws)) (max target (length (filter (\<lambda>a. a \<in> busy) (remove1 a ws))))"
        by auto
      have f: "filter (\<lambda>a. a \<in> busy) (remove1 a ws) = filter (\<lambda>a. a \<in> busy) ws"
        using a(2) by (simp add: filter_remove1 remove1_idem)
      have "length (filter (\<lambda>a. a \<in> busy) ws) \<le> length (remove1 a ws)"
        using length_filter_le [of "\<lambda>a. a \<in> busy" "remove1 a ws"] f by simp
      then show ?thesis using ih a r big f by (auto simp: length_remove1)
    qed
  qed
qed

text \<open>Without exceptions the whole refill succeeds.\<close>

lemma grow_succeeds: "\<forall>k. \<not> raises k \<Longrightarrow> \<exists>ws' k'. grow raises target ws k = (ws', k', False)"
proof (induction raises target ws k rule: grow.induct)
  case (1 raises target ws k)
  have k: "\<not> raises k" using "1.prems" by blast
  show ?case
  proof (cases "length ws < target")
    case True
    from "1.IH" [OF True k "1.prems"] show ?thesis using True k by (simp add: grow.simps [of raises target ws])
  qed (simp add: grow.simps [of raises target ws])
qed

lemma foldl_flag: "(\<And>s x. \<exists>s'. f (s, False) x = (s', False)) \<Longrightarrow> \<exists>s'. foldl f (s, False) xs = (s', False)"
proof (induction xs arbitrary: s)
  case (Cons x xs)
  obtain s1 where "f (s, False) x = (s1, False)" using Cons.prems by blast
  then show ?case using Cons.IH [OF Cons.prems] by simp
qed simp

lemma ensure_type_succeeds: "\<forall>k. \<not> raises k \<Longrightarrow> \<exists>s'. ensure_type raises n (s, False) g = (s', False)"
proof -
  assume r: "\<forall>k. \<not> raises k"
  obtain t target where g: "g = (t, target)" by (cases g)
  from grow_succeeds [OF r] obtain ws k where "grow raises target (workers_at s n t) (sb_calls s) = (ws, k, False)" by blast
  then show ?thesis by (simp add: ensure_type_def g split: prod.splits)
qed

lemma ensure_for_nodes_succeeds:
  assumes "\<forall>k. \<not> raises k"
  shows "\<exists>s'. ensure_for_nodes raises live s = (s', False)"
proof -
  have "\<exists>s'. ensure_node raises (s, False) n = (s', False)" for s n
    using foldl_flag [where f = "ensure_type raises n"] ensure_type_succeeds [OF assms] by (simp add: ensure_node_def)
  with foldl_flag [where f = "ensure_node raises"] show ?thesis by (simp add: ensure_for_nodes_def Let_def)
qed

section \<open>The invariant\<close>

text \<open>
  A worker is in one group, the busy workers are those lent and still in the pool, and no worker is lent
  twice.
\<close>

definition standby_ok :: "standby \<Rightarrow> standby_lease list \<Rightarrow> bool" where
  "standby_ok s ls =
     ((\<forall>n g. map_of (sb_workers s) n = Some g \<longrightarrow> dict_ok g) \<and>
      (\<forall>n t. distinct (workers_at s n t)) \<and> (\<forall>n t a. a \<in> set (workers_at s n t) \<longrightarrow> a < sb_calls s) \<and>
      (\<forall>n t m u a. a \<in> set (workers_at s n t) \<longrightarrow> a \<in> set (workers_at s m u) \<longrightarrow> n = m \<and> t = u) \<and>
      distinct (map sl_actor ls) \<and> (\<forall>l. l \<in> set ls \<longrightarrow> sl_actor l < sb_calls s) \<and>
      (\<forall>a. a \<in> sb_busy s \<longleftrightarrow> a \<in> sl_actor ` set ls \<and> (\<exists>n t. a \<in> set (workers_at s n t))))"

lemma workers_at_put [simp]:
  "workers_at (put_workers n t ws s) m u = (if m = n \<and> u = t then ws else workers_at s m u)"
  by (auto simp: workers_at_def put_workers_def dgetd_def)

lemma put_workers_fields [simp]:
  "sb_busy (put_workers n t ws s) = sb_busy s" "sb_calls (put_workers n t ws s) = sb_calls s"
  "sb_sizes (put_workers n t ws s) = sb_sizes s" "sb_enabled (put_workers n t ws s) = sb_enabled s"
  "sb_killed (put_workers n t ws s) = sb_killed s"
  by (simp_all add: put_workers_def)

lemma workers_at_update [simp]:
  "workers_at (s\<lparr>sb_busy := b\<rparr>) n t = workers_at s n t" "workers_at (s\<lparr>sb_calls := k\<rparr>) n t = workers_at s n t"
  "workers_at (s\<lparr>sb_killed := x\<rparr>) n t = workers_at s n t"
  by (simp_all add: workers_at_def)

text \<open>Replacing the workers of one group: some old ones, all the busy among them, and fresh ones.\<close>

lemma standby_okD:
  assumes "standby_ok s ls"
  shows "map_of (sb_workers s) n = Some g \<Longrightarrow> dict_ok g" and "distinct (workers_at s n t)"
    and "a \<in> set (workers_at s n t) \<Longrightarrow> a < sb_calls s"
    and "a \<in> set (workers_at s n t) \<Longrightarrow> a \<in> set (workers_at s m u) \<Longrightarrow> n = m \<and> t = u"
    and "distinct (map sl_actor ls)" and "l \<in> set ls \<Longrightarrow> sl_actor l < sb_calls s"
    and "a \<in> sb_busy s \<longleftrightarrow> a \<in> sl_actor ` set ls \<and> (\<exists>n t. a \<in> set (workers_at s n t))"
proof -
  note a = assms [unfolded standby_ok_def]
  note a2 = conjunct2 [OF a] and a3 = conjunct2 [OF conjunct2 [OF a]]
  note a4 = conjunct2 [OF a3] note a5 = conjunct2 [OF a4] note a6 = conjunct2 [OF a5] note a7 = conjunct2 [OF a6]
  show "map_of (sb_workers s) n = Some g \<Longrightarrow> dict_ok g" using conjunct1 [OF a] by blast
  show "distinct (workers_at s n t)" using conjunct1 [OF a2] by blast
  show "a \<in> set (workers_at s n t) \<Longrightarrow> a < sb_calls s" using conjunct1 [OF a3] by blast
  show "a \<in> set (workers_at s n t) \<Longrightarrow> a \<in> set (workers_at s m u) \<Longrightarrow> n = m \<and> t = u"
    using conjunct1 [OF a4] by blast
  show "distinct (map sl_actor ls)" by (rule conjunct1 [OF a5])
  show "l \<in> set ls \<Longrightarrow> sl_actor l < sb_calls s" using conjunct1 [OF a6] by blast
  show "a \<in> sb_busy s \<longleftrightarrow> a \<in> sl_actor ` set ls \<and> (\<exists>n t. a \<in> set (workers_at s n t))" using a7 by blast
qed

lemma standby_okI:
  assumes "\<And>n g. map_of (sb_workers s) n = Some g \<Longrightarrow> dict_ok g" "\<And>n t. distinct (workers_at s n t)"
    "\<And>n t a. a \<in> set (workers_at s n t) \<Longrightarrow> a < sb_calls s"
    "\<And>n t m u a. a \<in> set (workers_at s n t) \<Longrightarrow> a \<in> set (workers_at s m u) \<Longrightarrow> n = m \<and> t = u"
    "distinct (map sl_actor ls)" "\<And>l. l \<in> set ls \<Longrightarrow> sl_actor l < sb_calls s"
    "\<And>a. a \<in> sb_busy s \<longleftrightarrow> a \<in> sl_actor ` set ls \<and> (\<exists>n t. a \<in> set (workers_at s n t))"
  shows "standby_ok s ls"
  unfolding standby_ok_def by (intro conjI allI impI; (rule assms; assumption)?) (use assms(4) in blast)+

lemma replace_group_ok:
  assumes ok: "standby_ok s ls" and ws: "distinct ws" "set ws \<subseteq> set (workers_at s n t) \<union> {sb_calls s..<k}" "sb_calls s \<le> k"
    and busy: "set (workers_at s n t) \<inter> sb_busy s \<subseteq> set ws"
  shows "standby_ok (put_workers n t ws (s\<lparr>sb_calls := k, sb_killed := x\<rparr>)) ls"
proof -
  let ?s = "put_workers n t ws (s\<lparr>sb_calls := k, sb_killed := x\<rparr>)"
  note o = standby_okD [OF ok]
  have ws': "a \<in> set (workers_at s n t) \<or> sb_calls s \<le> a \<and> a < k" if "a \<in> set ws" for a
    using ws(2) that by auto
  have old: "a \<in> set (workers_at s m u) \<or> m = n \<and> u = t \<and> sb_calls s \<le> a" if "a \<in> set (workers_at ?s m u)" for a m u
    using that ws' by (auto split: if_splits)
  show ?thesis
  proof (rule standby_okI)
    fix m g assume "map_of (sb_workers ?s) m = Some g"
    then show "dict_ok g" using o(1) by (auto simp: put_workers_def dgetd_def split: option.splits if_splits)
  next
    fix m u show "distinct (workers_at ?s m u)" using o(2) ws(1) by simp
    fix a assume "a \<in> set (workers_at ?s m u)"
    then show "a < sb_calls ?s" using o(3) [of a] ws' [of a] ws(3) by (fastforce split: if_splits)
  next
    fix m u m' u' a assume in2: "a \<in> set (workers_at ?s m u)" "a \<in> set (workers_at ?s m' u')"
    show "m = m' \<and> u = u'"
    proof (cases "a < sb_calls s")
      case True
      then show ?thesis using old [OF in2(1)] old [OF in2(2)] o(4) [of a m u m' u'] by simp
    next
      case False
      then show ?thesis using old [OF in2(1)] old [OF in2(2)] o(3) [of a m u] o(3) [of a m' u'] by auto
    qed
  next
    show "distinct (map sl_actor ls)" by (rule o(5))
    fix l assume "l \<in> set ls" then show "sl_actor l < sb_calls ?s" using o(6) ws(3) by fastforce
  next
    fix a show "a \<in> sb_busy ?s \<longleftrightarrow> a \<in> sl_actor ` set ls \<and> (\<exists>m u. a \<in> set (workers_at ?s m u))"
    proof
      assume "a \<in> sb_busy ?s"
      then have b: "a \<in> sb_busy s" by simp
      then obtain m u where "a \<in> set (workers_at s m u)" "a \<in> sl_actor ` set ls" using o(7) by blast
      moreover from this b have "a \<in> set (workers_at ?s m u)" using busy by auto
      ultimately show "a \<in> sl_actor ` set ls \<and> (\<exists>m u. a \<in> set (workers_at ?s m u))" by blast
    next
      assume a: "a \<in> sl_actor ` set ls \<and> (\<exists>m u. a \<in> set (workers_at ?s m u))"
      then have "a < sb_calls s" using o(6) by blast
      with a old have "\<exists>m u. a \<in> set (workers_at s m u)" by (meson leD)
      with a o(7) show "a \<in> sb_busy ?s" by simp
    qed
  qed
qed

lemma drop_new:
  "standby_ok (s\<lparr>sb_workers := dsetdefault n [] (sb_workers s)\<rparr>) ls = standby_ok s ls"
  "workers_at (s\<lparr>sb_workers := dsetdefault n [] (sb_workers s)\<rparr>) m u = workers_at s m u"
proof -
  show w: "workers_at (s\<lparr>sb_workers := dsetdefault n [] (sb_workers s)\<rparr>) m u = workers_at s m u" for m u
    by (auto simp: workers_at_def dsetdefault_def dgetd_def dhas_iff)
  show "standby_ok (s\<lparr>sb_workers := dsetdefault n [] (sb_workers s)\<rparr>) ls = standby_ok s ls"
  proof -
    have "(\<forall>m g. map_of (sb_workers (s\<lparr>sb_workers := dsetdefault n [] (sb_workers s)\<rparr>)) m = Some g \<longrightarrow> dict_ok g)
      = (\<forall>m g. map_of (sb_workers s) m = Some g \<longrightarrow> dict_ok g)"
      by (cases "map_of (sb_workers s) n") (simp_all add: dsetdefault_def dhas_iff, metis option.discI)
    then show ?thesis unfolding standby_ok_def w by simp
  qed
qed

lemma ensure_type_ok:
  assumes ok: "standby_ok s ls" and e: "ensure_type raises n (s, failed) (t, target) = (s', failed')"
  shows "standby_ok s' ls" and "sb_busy s' = sb_busy s" and "sb_sizes s' = sb_sizes s"
    and "failed \<Longrightarrow> failed'"
    and "(m, u) \<noteq> (n, t) \<Longrightarrow> workers_at s' m u = workers_at s m u"
    and "\<not> failed' \<Longrightarrow> length (workers_at s' n t) = max target (length (filter (\<lambda>a. a \<in> sb_busy s) (workers_at s' n t)))"
proof -
  note o = standby_okD [OF ok]
  have "standby_ok s' ls \<and> sb_busy s' = sb_busy s \<and> sb_sizes s' = sb_sizes s \<and> (failed \<longrightarrow> failed') \<and>
    ((m, u) \<noteq> (n, t) \<longrightarrow> workers_at s' m u = workers_at s m u) \<and>
    (\<not> failed' \<longrightarrow> length (workers_at s' n t) = max target (length (filter (\<lambda>a. a \<in> sb_busy s) (workers_at s' n t))))"
  proof (cases failed)
    case True
    then show ?thesis using e ok by (simp add: ensure_type_def)
  next
    case False
    obtain ws k stop where g: "grow raises target (workers_at s n t) (sb_calls s) = (ws, k, stop)" by (metis prod_cases3)
    from grow_spec [OF g] obtain new where new: "ws = workers_at s n t @ new" "set new \<subseteq> {sb_calls s..<k}" "distinct new"
        "sb_calls s \<le> k" "\<not> stop \<longrightarrow> length ws = max (length (workers_at s n t)) target"
      by blast
    have d: "distinct ws" using new(1,2,3) o(2) [of n t] o(3) [of _ n t] by fastforce
    have sub: "set ws \<subseteq> set (workers_at s n t) \<union> {sb_calls s..<k}" using new(1,2) by auto
    show ?thesis
    proof (cases stop)
      case True
      then have "s' = put_workers n t ws (s\<lparr>sb_calls := k, sb_killed := sb_killed s\<rparr>)" "failed'"
        using e False g by (simp_all add: ensure_type_def)
      then show ?thesis
        using replace_group_ok [OF ok d sub new(4), of "sb_killed s"] new(1) by auto
    next
      case go: False
      obtain ws' killed where sh: "shrink (sb_busy s) target ws (sb_killed s) = (ws', killed)" by (metis surj_pair)
      note h = shrink_spec [OF sh d]
      have s': "s' = put_workers n t ws' (s\<lparr>sb_calls := k, sb_killed := killed\<rparr>)" "\<not> failed'"
        using e False g go sh by (simp_all add: ensure_type_def)
      have busy: "set (workers_at s n t) \<inter> sb_busy s \<subseteq> set ws'"
      proof
        fix a assume "a \<in> set (workers_at s n t) \<inter> sb_busy s"
        then have "a \<in> set (filter (\<lambda>a. a \<in> sb_busy s) ws)" using new(1) by simp
        then show "a \<in> set ws'" using h by (metis filter_is_subset subsetD)
      qed
      have "standby_ok s' ls"
        unfolding s' by (rule replace_group_ok [OF ok _ _ new(4) busy]) (use h sub in auto)
      moreover have "length ws' = max target (length (filter (\<lambda>a. a \<in> sb_busy s) ws'))"
        using h new(5) go length_filter_le [of "\<lambda>a. a \<in> sb_busy s" ws] by (auto simp: min_def max_def)
      ultimately show ?thesis using s' False by auto
    qed
  qed
  then show "standby_ok s' ls" "sb_busy s' = sb_busy s" "sb_sizes s' = sb_sizes s" "failed \<Longrightarrow> failed'"
    "(m, u) \<noteq> (n, t) \<Longrightarrow> workers_at s' m u = workers_at s m u"
    "\<not> failed' \<Longrightarrow> length (workers_at s' n t) = max target (length (filter (\<lambda>a. a \<in> sb_busy s) (workers_at s' n t)))"
    by blast+
qed


text \<open>A group is full: it has its target, or only busy workers.\<close>

definition full :: "standby \<Rightarrow> string \<Rightarrow> string \<times> nat \<Rightarrow> bool" where
  "full s n g = (length (workers_at s n (fst g)) =
     max (snd g) (length (filter (\<lambda>a. a \<in> sb_busy s) (workers_at s n (fst g)))))"

lemma ensure_types_ok:
  assumes "standby_ok s ls" "foldl (ensure_type raises n) (s, failed) gs = (s', failed')"
  shows "standby_ok s' ls \<and> sb_busy s' = sb_busy s \<and> sb_sizes s' = sb_sizes s \<and> (failed \<longrightarrow> failed') \<and>
    (\<forall>m u. m \<noteq> n \<or> u \<notin> fst ` set gs \<longrightarrow> workers_at s' m u = workers_at s m u) \<and>
    (distinct (map fst gs) \<longrightarrow> \<not> failed' \<longrightarrow> (\<forall>g \<in> set gs. full s' n g))"
  using assms
proof (induction gs arbitrary: s failed)
  case (Cons g gs)
  obtain t target where g: "g = (t, target)" by (cases g)
  obtain s1 f1 where e: "ensure_type raises n (s, failed) (t, target) = (s1, f1)" by (metis surj_pair)
  note h = ensure_type_ok [OF Cons.prems(1) e]
  have r: "foldl (ensure_type raises n) (s1, f1) gs = (s', failed')" using Cons.prems(2) e g by simp
  note ih = Cons.IH [OF h(1) r]
  have w: "workers_at s' m u = workers_at s m u" if "m \<noteq> n \<or> u \<notin> fst ` set (g # gs)" for m u
    using ih h(5) [of m u] that g by auto
  have f: "full s' n g" if "distinct (map fst (g # gs))" "\<not> failed'"
  proof -
    from that g have "t \<notin> fst ` set gs" "\<not> f1" using ih by auto
    then have "workers_at s' n t = workers_at s1 n t" "length (workers_at s1 n t) =
        max target (length (filter (\<lambda>a. a \<in> sb_busy s) (workers_at s1 n t)))"
      using ih h(6) by auto
    then show ?thesis using ih h(2) by (simp add: full_def g)
  qed
  show ?case using ih h(2,3,4) w f by auto
qed simp

lemma ensure_nodes_ok:
  assumes "standby_ok s ls" "foldl (ensure_node raises) (s, failed) ns = (s', failed')"
  shows "standby_ok s' ls \<and> sb_busy s' = sb_busy s \<and> sb_sizes s' = sb_sizes s \<and> (failed \<longrightarrow> failed') \<and>
    (\<forall>m u. m \<notin> set ns \<longrightarrow> workers_at s' m u = workers_at s m u) \<and>
    (distinct ns \<longrightarrow> dict_ok (sb_sizes s) \<longrightarrow> \<not> failed' \<longrightarrow> (\<forall>n \<in> set ns. \<forall>g \<in> set (sb_sizes s). full s' n g))"
  using assms
proof (induction ns arbitrary: s failed)
  case (Cons n ns)
  obtain s1 f1 where e: "ensure_node raises (s, failed) n = (s1, f1)" by (metis surj_pair)
  have h: "standby_ok s1 ls \<and> sb_busy s1 = sb_busy s \<and> sb_sizes s1 = sb_sizes s \<and> (failed \<longrightarrow> f1) \<and>
    (\<forall>m u. m \<noteq> n \<longrightarrow> workers_at s1 m u = workers_at s m u) \<and>
    (dict_ok (sb_sizes s) \<longrightarrow> \<not> f1 \<longrightarrow> (\<forall>g \<in> set (sb_sizes s). full s1 n g))"
  proof (cases failed)
    case True
    then show ?thesis using e Cons.prems(1) by (simp add: ensure_node_def)
  next
    case False
    let ?s = "s\<lparr>sb_workers := dsetdefault n [] (sb_workers s)\<rparr>"
    have r: "foldl (ensure_type raises n) (?s, False) (sb_sizes s) = (s1, f1)" using e False by (simp add: ensure_node_def)
    have "standby_ok ?s ls" using Cons.prems(1) by (simp add: drop_new(1))
    from ensure_types_ok [OF this r] show ?thesis using False by (simp add: drop_new(2) dict_ok_def)
  qed
  have r: "foldl (ensure_node raises) (s1, f1) ns = (s', failed')" using Cons.prems(2) e by simp
  from h have ok1: "standby_ok s1 ls" by blast
  note ih = Cons.IH [OF ok1 r]
  have f: "full s' n g" if "distinct (n # ns)" "dict_ok (sb_sizes s)" "\<not> failed'" "g \<in> set (sb_sizes s)" for g
  proof -
    have "full s1 n g" using h ih that by blast
    moreover have "workers_at s' n u = workers_at s1 n u" for u using ih that by simp
    ultimately show ?thesis using ih by (simp add: full_def)
  qed
  show ?case using ih h f by auto
qed simp

lemma remove_node_ok:
  assumes ok: "standby_ok s ls"
  shows "standby_ok (remove_node n s) ls"
proof -
  note o = standby_okD [OF ok]
  let ?s = "remove_node n s"
  have w: "workers_at ?s m u = (if m = n then [] else workers_at s m u)" for m u
    by (simp add: remove_node_def workers_at_def Let_def dgetd_def)
  have gone: "a \<in> set (concat (dvals (dgetd (sb_workers s) n []))) \<longleftrightarrow> (\<exists>u. a \<in> set (workers_at s n u))" for a
  proof -
    have g: "dict_ok (dgetd (sb_workers s) n [])" using o(1) by (auto simp: dgetd_def split: option.splits)
    show ?thesis using in_dvals_iff [OF g]
      by (auto simp: workers_at_def dgetd_def split: option.splits) (metis not_None_eq)+
  qed
  show ?thesis
  proof (rule standby_okI)
    fix m g assume "map_of (sb_workers ?s) m = Some g"
    then show "dict_ok g" using o(1) by (auto simp: remove_node_def Let_def split: if_splits)
  next
    fix m u show "distinct (workers_at ?s m u)" using o(2) by (simp add: w)
    fix a assume "a \<in> set (workers_at ?s m u)"
    then have "a \<in> set (workers_at s m u)" by (simp add: w split: if_splits)
    from o(3) [OF this] show "a < sb_calls ?s" by (simp add: remove_node_def Let_def)
  next
    fix m u m' u' a assume "a \<in> set (workers_at ?s m u)" "a \<in> set (workers_at ?s m' u')"
    then show "m = m' \<and> u = u'" using o(4) [of a m u m' u'] by (simp add: w split: if_splits)
  next
    fix l assume "l \<in> set ls"
    then show "sl_actor l < sb_calls ?s" using o(6) by (simp add: remove_node_def Let_def)
  next
    fix a
    have "a \<in> sb_busy ?s \<longleftrightarrow> a \<in> sb_busy s \<and> (\<forall>u. a \<notin> set (workers_at s n u))"
      using gone [of a] by (simp add: remove_node_def Let_def)
    also have "\<dots> \<longleftrightarrow> a \<in> sl_actor ` set ls \<and> (\<exists>m u. a \<in> set (workers_at ?s m u))"
      using o(7) [of a] o(4) [of a] by (simp add: w) metis
    finally show "a \<in> sb_busy ?s \<longleftrightarrow> a \<in> sl_actor ` set ls \<and> (\<exists>m u. a \<in> set (workers_at ?s m u))" .
  qed (rule o(5))
qed


lemma ensure_for_nodes_ok:
  assumes ok: "standby_ok s ls" and e: "ensure_for_nodes raises live s = (s', failed)"
  shows "standby_ok s' ls"
    and "sb_enabled s \<Longrightarrow> dict_ok (sb_sizes s) \<Longrightarrow> \<not> failed \<Longrightarrow> n \<in> set live \<Longrightarrow> g \<in> set (sb_sizes s) \<Longrightarrow> full s' n g"
proof -
  let ?r = "foldl (\<lambda>s n. remove_node n s) s (filter (\<lambda>n. n \<notin> set live) (dkeys (sb_workers s)))"
  have r: "standby_ok ?r ls" by (rule foldl_invariant [where P = "\<lambda>s. standby_ok s ls", OF ok remove_node_ok])
  have z: "sb_sizes ?r = sb_sizes s"
    by (rule foldl_invariant [where P = "\<lambda>x. sb_sizes x = sb_sizes s"]) (simp_all add: remove_node_def Let_def)
  show "standby_ok s' ls"
  proof (cases "sb_enabled s")
    case True
    then show ?thesis using e ensure_nodes_ok [OF r, of raises False _ s' failed] by (simp add: ensure_for_nodes_def Let_def)
  qed (use e ok in \<open>simp add: ensure_for_nodes_def\<close>)
  show "full s' n g" if "sb_enabled s" "dict_ok (sb_sizes s)" "\<not> failed" "n \<in> set live" "g \<in> set (sb_sizes s)"
    using e that ensure_nodes_ok [OF r, of raises False _ s' failed] z by (simp add: ensure_for_nodes_def Let_def)
qed

lemma acquire_ok:
  assumes ok: "standby_ok s ls" and a: "acquire n kind s = (s', l)"
  shows "standby_ok s' (case l of None \<Rightarrow> ls | Some x \<Rightarrow> x # ls)"
proof (cases l)
  case None
  then show ?thesis using a ok by (auto simp: acquire_def Let_def split: if_splits option.splits)
next
  case (Some x)
  note o = standby_okD [OF ok]
  from a Some have f: "first_match (\<lambda>a. a \<notin> sb_busy s) (workers_at s n (sl_type x)) = Some (sl_actor x)"
    and s': "s' = s\<lparr>sb_busy := insert (sl_actor x) (sb_busy s)\<rparr>"
    by (auto simp: acquire_def Let_def split: if_splits option.splits)
  have x: "sl_actor x \<in> set (workers_at s n (sl_type x))" "sl_actor x \<notin> sb_busy s"
    using first_match_Some [OF f] by auto
  have new: "sl_actor x \<notin> sl_actor ` set ls" using x o(7) by blast
  show ?thesis
    unfolding Some option.case
  proof (rule standby_okI)
    fix a show "a \<in> sb_busy s' \<longleftrightarrow> a \<in> sl_actor ` set (x # ls) \<and> (\<exists>n t. a \<in> set (workers_at s' n t))"
      using o(7) [of a] x(1) by (auto simp: s')
  next
    fix m t u v a assume "a \<in> set (workers_at s' m t)" "a \<in> set (workers_at s' u v)"
    then show "m = u \<and> t = v" using o(4) [of a m t u v] by (simp add: s')
  next
    show "distinct (map sl_actor (x # ls))" using o(5) new by simp
  next
    fix y assume "y \<in> set (x # ls)"
    then show "sl_actor y < sb_calls s'" using o(6) o(3) [OF x(1)] by (auto simp: s')
  qed (use o(1,2,3) in \<open>simp_all add: s'\<close>)
qed

text \<open>A lease that was given back leaves its worker idle; replacing the worker is a change of its group.\<close>

lemma give_back_ok:
  assumes ok: "standby_ok s ls" and l: "l \<in> set ls"
  shows "standby_ok (s\<lparr>sb_busy := sb_busy s - {sl_actor l}\<rparr>) (remove1 l ls)"
proof -
  note o = standby_okD [OF ok]
  have "distinct ls" using o(5) by (simp add: distinct_map)
  then have s: "set (remove1 l ls) = set ls - {l}" by (simp add: set_remove1_eq)
  have inj: "inj_on sl_actor (set ls)" using o(5) by (simp add: distinct_map)
  then have im: "sl_actor ` set (remove1 l ls) = sl_actor ` set ls - {sl_actor l}"
    using l by (auto simp: s inj_on_def)
  show ?thesis
  proof (rule standby_okI)
    fix m t u v a
    assume "a \<in> set (workers_at (s\<lparr>sb_busy := sb_busy s - {sl_actor l}\<rparr>) m t)"
      "a \<in> set (workers_at (s\<lparr>sb_busy := sb_busy s - {sl_actor l}\<rparr>) u v)"
    then show "m = u \<and> t = v" using o(4) [of a m t u v] by simp
  next
    show "distinct (map sl_actor (remove1 l ls))"
      using \<open>distinct ls\<close> inj by (simp add: distinct_map inj_on_diff s)
  next
    fix a
    show "a \<in> sb_busy (s\<lparr>sb_busy := sb_busy s - {sl_actor l}\<rparr>) \<longleftrightarrow> a \<in> sl_actor ` set (remove1 l ls) \<and>
        (\<exists>n t. a \<in> set (workers_at (s\<lparr>sb_busy := sb_busy s - {sl_actor l}\<rparr>) n t))"
      using o(7) [of a] by (auto simp: im)
  qed (use o(1,2,3,6) s in auto)
qed

lemma release_standby_ok:
  assumes ok: "standby_ok s ls" and l: "l \<in> set ls"
  shows "standby_ok (release_standby raises (Some l) discard s) (remove1 l ls)"
proof -
  let ?s = "s\<lparr>sb_busy := sb_busy s - {sl_actor l}\<rparr>"
  have s: "standby_ok ?s (remove1 l ls)" by (rule give_back_ok [OF ok l])
  note o = standby_okD [OF s]
  show ?thesis
  proof (cases "\<not> discard \<and> sl_type l \<noteq> ''gpu''")
    case True
    then show ?thesis using s by (simp add: release_standby_def Let_def)
  next
    case used: False
    show ?thesis
    proof (cases "map_of (dgetd (sb_workers s) (sl_node l) []) (sl_type l)")
      case None
      with used s show ?thesis by (auto simp: release_standby_def Let_def)
    next
      case (Some ws)
      show ?thesis
      proof (cases "sl_actor l \<in> set ws")
        case False
        with used s Some show ?thesis by (auto simp: release_standby_def Let_def)
      next
        case True
        have at: "workers_at ?s (sl_node l) (sl_type l) = ws" using Some by (simp add: workers_at_def dgetd_def)
        then have at': "workers_at s (sl_node l) (sl_type l) = ws" by simp
        have dws: "distinct ws" using o(2) [of "sl_node l" "sl_type l"] at by simp
        obtain ws2 k failed where g: "(if sb_enabled s
            then grow raises (dgetd (sb_sizes s) (sl_type l) 0) (remove1 (sl_actor l) ws) (sb_calls s)
            else (remove1 (sl_actor l) ws, sb_calls s, False)) = (ws2, k, failed)"
          by (metis prod_cases3)
        have "\<exists>new. ws2 = remove1 (sl_actor l) ws @ new \<and> set new \<subseteq> {sb_calls s..<k} \<and> distinct new \<and> sb_calls s \<le> k"
          using g grow_spec by (cases "sb_enabled s") (fastforce, simp)
        then obtain new where new: "ws2 = remove1 (sl_actor l) ws @ new" "set new \<subseteq> {sb_calls s..<k}" "distinct new"
            "sb_calls s \<le> k" by blast
        have lt: "a < sb_calls s" if "a \<in> set ws" for a using o(3) [of a "sl_node l" "sl_type l"] at that by simp
        have e: "release_standby raises (Some l) discard s = put_workers (sl_node l) (sl_type l) ws2
            (?s\<lparr>sb_calls := k, sb_killed := sb_killed s @ [sl_actor l]\<rparr>)"
          using used Some True g by (auto simp: release_standby_def Let_def)
        show ?thesis
          unfolding e
        proof (rule replace_group_ok [OF s])
          show "distinct ws2" using new(1,2,3) dws lt by (fastforce simp: set_remove1_eq)
          show "set ws2 \<subseteq> set (workers_at ?s (sl_node l) (sl_type l)) \<union> {sb_calls ?s..<k}"
            using new(2) set_remove1_subset [of "sl_actor l" ws] by (auto simp: at' new(1))
          show "set (workers_at ?s (sl_node l) (sl_type l)) \<inter> sb_busy ?s \<subseteq> set ws2"
            using dws by (auto simp: at' new(1) set_remove1_eq)
        qed (use new(4) in simp)
      qed
    qed
  qed
qed

lemma reachable_standby_ok:
  assumes "reachable_standby s ls"
  shows "standby_ok s ls"
proof -
  have step_ok: "standby_ok (fst q) (snd q)" if "standby_step p q" "standby_ok (fst p) (snd p)" for p q
    using that
  proof (induction rule: standby_step.induct)
    case (ensured s ls raises live)
    then show ?case using ensure_for_nodes_ok(1) [of s ls raises live] by (cases "ensure_for_nodes raises live s") simp
  next
    case (lent n kind s s' l ls)
    then show ?case using acquire_ok [OF _ lent(1)] by simp
  next
    case (denied n kind s s' ls)
    then show ?case using acquire_ok [OF _ denied(1)] by simp
  qed (simp_all add: remove_node_ok release_standby_ok)
  from assms obtain sizes en where "standby_step\<^sup>*\<^sup>* (new_standby sizes en, []) (s, ls)"
    by (auto simp: reachable_standby_def)
  then have "standby_ok (fst (s, ls)) (snd (s, ls))"
  proof (induction rule: rtranclp_induct)
    case base
    show ?case by (simp add: standby_ok_def new_standby_def workers_at_def dgetd_def)
  next
    case (step p q)
    show ?case by (rule step_ok [OF step.hyps(2) step.IH])
  qed
  then show ?thesis by simp
qed

section \<open>What the pool promises\<close>

text \<open>
  C23: A standby worker never serves two tasks at once: in every history the leases that are out have different
  workers, and the worker lent next is none of them.
\<close>

theorem no_worker_lent_twice:
  assumes "reachable_standby s ls" and "acquire n kind s = (s', Some l)"
  shows "distinct (map sl_actor ls) \<and> sl_actor l \<notin> sl_actor ` set ls \<and> sl_actor l \<in> set (workers_at s n (sl_type l))"
proof -
  note o = standby_okD [OF reachable_standby_ok [OF assms(1)]]
  have "first_match (\<lambda>a. a \<notin> sb_busy s) (workers_at s n (sl_type l)) = Some (sl_actor l)"
    using assms(2) by (auto simp: acquire_def Let_def split: if_splits option.splits)
  from first_match_Some [OF this] have "sl_actor l \<in> set (workers_at s n (sl_type l))" "sl_actor l \<notin> sb_busy s" by auto
  then show ?thesis using o(5) o(7) [of "sl_actor l"] by blast
qed

definition sample_standby :: standby where
  "sample_standby = fst (ensure_for_nodes (\<lambda>_. False) [''n''] (new_standby [(''cpu'', 1)] True))"

lemma sample_standby_reachable: "reachable_standby sample_standby []"
  unfolding reachable_standby_def sample_standby_def
  using ensured r_into_rtranclp [of standby_step] by blast

theorem no_worker_lent_twice_witness:
  "\<exists>l. snd (acquire ''n'' ''cpu'' sample_standby) = Some l \<and> sl_actor l \<in> set (workers_at sample_standby ''n'' (sl_type l))"
proof -
  have "acquire ''n'' ''cpu'' sample_standby
      = (fst (acquire ''n'' ''cpu'' sample_standby), Some \<lparr>sl_node = ''n'', sl_type = ''cpu'', sl_actor = 0\<rparr>)"
    by code_simp
  from no_worker_lent_twice [OF sample_standby_reachable this] this show ?thesis by (metis snd_conv)
qed

text \<open>
  C22: Refilling an enabled pool ends, and leaves every group of every live node with exactly its target number of
  workers, or with only busy ones when those are more; the one exception is a factory that raises, which ends the
  refilling with its exception and may leave groups short.
\<close>

theorem ensure_fills_every_group:
  assumes "reachable_standby s ls" and "sb_enabled s" and "dict_ok (sb_sizes s)"
    and "n \<in> set live" and "(t, target) \<in> set (sb_sizes s)" and "ensure_for_nodes raises live s = (s', failed)"
  shows "if failed then \<exists>k. raises k
    else length (workers_at s' n t) = max target (length (filter (\<lambda>a. a \<in> sb_busy s') (workers_at s' n t)))"
proof (cases failed)
  case True
  then show ?thesis using ensure_for_nodes_succeeds [of raises live s] assms(6) by auto
next
  case False
  then show ?thesis
    using ensure_for_nodes_ok(2) [OF reachable_standby_ok [OF assms(1)] assms(6,2,3) _ assms(4,5)] by (simp add: full_def)
qed

theorem ensure_fills_every_group_witness:
  "length (workers_at sample_standby ''n'' ''cpu'')
     = max 1 (length (filter (\<lambda>a. a \<in> sb_busy sample_standby) (workers_at sample_standby ''n'' ''cpu'')))"
proof -
  have r: "reachable_standby (new_standby [(''cpu'', 1)] True) []" unfolding reachable_standby_def by blast
  have e: "ensure_for_nodes (\<lambda>_. False) [''n''] (new_standby [(''cpu'', 1)] True) = (sample_standby, False)"
    by code_simp
  have "if False then \<exists>k. (\<lambda>_. False) (k :: nat)
    else length (workers_at sample_standby ''n'' ''cpu'') = max 1 (length (filter (\<lambda>a. a \<in> sb_busy sample_standby) (workers_at sample_standby ''n'' ''cpu'')))"
    by (rule ensure_fills_every_group [OF r _ _ _ _ e]) (simp_all add: new_standby_def dict_ok_def)
  then show ?thesis by simp
qed


end
