(* ===== verification/Runtime_Estimator.thy ===== *)
theory Runtime_Estimator
  imports PyValue "HOL-Library.List_Lexorder" "HOL-Library.Char_ord" "HOL-Library.Multiset"
begin

text \<open>
  The duration predictions of \<open>maze/core/scheduler/runtime_estimator.py\<close>: exponential averages per task kind
  and per task code. Durations are exact rationals; the hash of a task's code is an argument, applied to the
  normalised payload.
\<close>

section \<open>Task identity\<close>

definition estimator_defaults :: "(string, rat) dict" where
  "estimator_defaults = [(''gpu'', 60), (''cpu'', 30), (''io'', 10)]"

definition estimator_kind :: "pyval \<Rightarrow> string" where
  "estimator_kind v =
     (let k = py_lower (py_strip (py_str (vor v (VStr ''cpu''))))
      in if dhas k estimator_defaults then k else ''cpu'')"

text \<open>\<open>_stable_normalize\<close> on JSON values: dictionaries are sorted by key, lists keep their order.\<close>

fun stable_normalize :: "pyval \<Rightarrow> pyval" where
  "stable_normalize (VList xs) = VList (map stable_normalize xs)"
| "stable_normalize (VDict d) = VDict (sort_key fst (map (\<lambda>p. (fst p, stable_normalize (snd p))) d))"
| "stable_normalize v = v"

record est_task =
  et_kind :: pyval
  et_code_str :: pyval
  et_code_ser :: pyval
  et_input :: pyval
  et_args :: "(pyval \<times> pyval) option"

definition hash_payload :: "est_task \<Rightarrow> (string, pyval) dict" where
  "hash_payload t =
     [(''code_str'', et_code_str t), (''code_ser'', et_code_ser t), (''task_input'', et_input t)] @
     (case et_args t of
        Some (args, kwargs) \<Rightarrow> if et_input t = VNone then [(''args'', args), (''kwargs'', kwargs)] else []
      | None \<Rightarrow> [])"

definition code_hash_for_task :: "(pyval \<Rightarrow> string) \<Rightarrow> est_task \<Rightarrow> string option" where
  "code_hash_for_task sha t =
     (if list_all (\<lambda>v. v = VNone) (dvals (hash_payload t)) then None
      else Some (sha (stable_normalize (VDict (hash_payload t)))))"

section \<open>Profiles\<close>

record ema_profile =
  ema_duration :: rat
  ema_samples :: nat
  ema_last :: time

definition new_ema :: ema_profile where
  "new_ema = \<lparr>ema_duration = 0, ema_samples = 0, ema_last = 0\<rparr>"

definition ema_update :: "time \<Rightarrow> rat \<Rightarrow> rat \<Rightarrow> ema_profile \<Rightarrow> ema_profile" where
  "ema_update now d alpha p =
     p\<lparr>ema_duration := (if ema_samples p = 0 then d else alpha * d + (1 - alpha) * ema_duration p),
       ema_samples := Suc (ema_samples p), ema_last := now\<rparr>"

definition ema_confidence :: "ema_profile \<Rightarrow> rat" where
  "ema_confidence p = min 1 (of_nat (ema_samples p) / 10)"

record estimator =
  es_defaults :: "(string, rat) dict"
  es_alpha :: rat
  es_kinds :: "(string, ema_profile) dict"
  es_codes :: "(string \<times> string, ema_profile) dict"

definition new_estimator :: "(string, rat) dict \<Rightarrow> rat \<Rightarrow> estimator" where
  "new_estimator defaults alpha =
     \<lparr>es_defaults = (if defaults = [] then estimator_defaults else defaults), es_alpha = alpha, es_kinds = [], es_codes = []\<rparr>"

datatype prediction_source = Task_kind_default | Task_kind_ema | Task_code_ema

record prediction =
  pd_duration :: rat
  pd_source :: prediction_source
  pd_confidence :: rat
  pd_samples :: nat
  pd_kind :: string
  pd_code :: "string option"

definition from_profile :: "prediction_source \<Rightarrow> string \<Rightarrow> string option \<Rightarrow> ema_profile \<Rightarrow> prediction" where
  "from_profile src kind code p =
     \<lparr>pd_duration = ema_duration p, pd_source = src, pd_confidence = ema_confidence p, pd_samples = ema_samples p,
      pd_kind = kind, pd_code = code\<rparr>"

text \<open>A profile that has samples.\<close>

definition used :: "ema_profile option \<Rightarrow> ema_profile option" where
  "used p = (case p of None \<Rightarrow> None | Some x \<Rightarrow> if 0 < ema_samples x then Some x else None)"

definition predict :: "(pyval \<Rightarrow> string) \<Rightarrow> est_task \<Rightarrow> estimator \<Rightarrow> prediction result" where
  "predict sha t e =
     (let kind = estimator_kind (et_kind t); code = code_hash_for_task sha t in
      case (case code of None \<Rightarrow> None | Some h \<Rightarrow> used (map_of (es_codes e) (kind, h))) of
        Some p \<Rightarrow> Inr (from_profile Task_code_ema kind code p)
      | None \<Rightarrow>
          (case used (map_of (es_kinds e) kind) of
             Some p \<Rightarrow> Inr (from_profile Task_kind_ema kind code p)
           | None \<Rightarrow>
               (case map_of (es_defaults e) ''cpu'' of
                  None \<Rightarrow> Inl (KeyError ''cpu'')
                | Some c \<Rightarrow>
                    Inr \<lparr>pd_duration = dgetd (es_defaults e) kind c, pd_source = Task_kind_default, pd_confidence = 0,
                         pd_samples = 0, pd_kind = kind, pd_code = code\<rparr>)))"

definition observe :: "time \<Rightarrow> pyval \<Rightarrow> string option \<Rightarrow> rat \<Rightarrow> bool \<Rightarrow> estimator \<Rightarrow> estimator" where
  "observe now kind0 code d success e =
     (if \<not> success \<or> d \<le> 0 then e
      else (let kind = estimator_kind kind0;
                e1 = e\<lparr>es_kinds := dput kind (ema_update now d (es_alpha e) (dgetd (es_kinds e) kind new_ema)) (es_kinds e)\<rparr>
            in case code of
                 Some h \<Rightarrow>
                   if h = [] then e1
                   else e1\<lparr>es_codes := dput (kind, h)
                             (ema_update now d (es_alpha e) (dgetd (es_codes e) (kind, h) new_ema)) (es_codes e)\<rparr>
               | None \<Rightarrow> e1))"

definition observe_task :: "(pyval \<Rightarrow> string) \<Rightarrow> time \<Rightarrow> est_task \<Rightarrow> rat \<Rightarrow> bool \<Rightarrow> estimator \<Rightarrow> estimator" where
  "observe_task sha now t d success e =
     observe now (VStr (estimator_kind (et_kind t))) (code_hash_for_task sha t) d success e"

text \<open>A sequence of finished tasks: time, task, duration, success.\<close>

definition observe_all :: "(pyval \<Rightarrow> string) \<Rightarrow> (time \<times> est_task \<times> rat \<times> bool) list \<Rightarrow> estimator \<Rightarrow> estimator" where
  "observe_all sha os e = foldl (\<lambda>e (now, t, d, ok). observe_task sha now t d ok e) e os"

section \<open>Facts\<close>

lemma between:
  fixes lo :: rat
  assumes "0 \<le> a" "a \<le> 1" "lo \<le> x" "x \<le> hi" "lo \<le> y" "y \<le> hi"
  shows "lo \<le> a * x + (1 - a) * y" and "a * x + (1 - a) * y \<le> hi"
proof -
  have "a * lo + (1 - a) * lo \<le> a * x + (1 - a) * y"
    using assms by (intro add_mono mult_left_mono) auto
  then show "lo \<le> a * x + (1 - a) * y" by (simp add: algebra_simps)
  have "a * x + (1 - a) * y \<le> a * hi + (1 - a) * hi"
    using assms by (intro add_mono mult_left_mono) auto
  then show "a * x + (1 - a) * y \<le> hi" by (simp add: algebra_simps)
qed

definition in_range :: "rat \<Rightarrow> rat \<Rightarrow> ema_profile \<Rightarrow> bool" where
  "in_range lo hi p = (0 < ema_samples p \<longrightarrow> lo \<le> ema_duration p \<and> ema_duration p \<le> hi)"

lemma ema_update_range:
  assumes "0 \<le> alpha" "alpha \<le> 1" "lo \<le> d" "d \<le> hi" "in_range lo hi p"
  shows "in_range lo hi (ema_update now d alpha p)"
  using assms between [of alpha lo d hi "ema_duration p"] by (auto simp: in_range_def ema_update_def)

definition estimates_ok :: "rat \<Rightarrow> rat \<Rightarrow> estimator \<Rightarrow> bool" where
  "estimates_ok lo hi e =
     ((\<forall>k p. map_of (es_kinds e) k = Some p \<longrightarrow> in_range lo hi p) \<and>
      (\<forall>k p. map_of (es_codes e) k = Some p \<longrightarrow> in_range lo hi p))"

lemma new_ema_range [simp]: "in_range lo hi new_ema"
  by (simp add: in_range_def new_ema_def)

lemma observe_range:
  assumes "estimates_ok lo hi e" "0 \<le> es_alpha e" "es_alpha e \<le> 1" "success \<and> 0 < d \<longrightarrow> lo \<le> d \<and> d \<le> hi"
  shows "estimates_ok lo hi (observe now kind code d success e)" and "es_alpha (observe now kind code d success e) = es_alpha e"
proof -
  show "es_alpha (observe now kind code d success e) = es_alpha e"
    by (simp add: observe_def Let_def split: option.splits)
  show "estimates_ok lo hi (observe now kind code d success e)"
  proof (cases "\<not> success \<or> d \<le> 0")
    case False
    then have d: "lo \<le> d" "d \<le> hi" using assms(4) by auto
    have k: "in_range lo hi (dgetd (es_kinds e) k new_ema)" and c: "in_range lo hi (dgetd (es_codes e) (k, h) new_ema)" for k h
      using assms(1) by (auto simp: estimates_ok_def dgetd_def split: option.splits)
    note u = ema_update_range [OF assms(2,3) d]
    show ?thesis
      using False assms(1) u [OF k] u [OF c]
      by (simp add: observe_def Let_def estimates_ok_def split: option.splits)
  qed (use assms(1) in \<open>auto simp: observe_def\<close>)
qed

lemma observe_all_range:
  assumes "estimates_ok lo hi e" "0 \<le> es_alpha e" "es_alpha e \<le> 1"
    and "\<forall>(now, t, d, ok) \<in> set os. ok \<and> 0 < d \<longrightarrow> lo \<le> d \<and> d \<le> hi"
  shows "estimates_ok lo hi (observe_all sha os e)"
  using assms
proof (induction os arbitrary: e)
  case (Cons x os)
  obtain now t d ok where x: "x = (now, t, d, ok)" by (metis prod_cases4)
  have d: "ok \<and> 0 < d \<longrightarrow> lo \<le> d \<and> d \<le> hi" using Cons.prems(4) by (simp add: x)
  note o = observe_range [OF Cons.prems(1,2,3) d]
  have r: "\<forall>(now, t, d, ok) \<in> set os. ok \<and> 0 < d \<longrightarrow> lo \<le> d \<and> d \<le> hi" using Cons.prems(4) by simp
  have "estimates_ok lo hi (observe_all sha os (observe_task sha now t d ok e))"
    by (rule Cons.IH) (use o Cons.prems(2,3) r in \<open>simp_all add: observe_task_def\<close>)
  then show ?case by (simp add: observe_all_def x)
qed (simp add: observe_all_def)

text \<open>
  A prediction learnt from observations lies between the shortest and the longest successful duration
  observed, whatever the tasks and the order; failures and non-positive durations have no influence.
\<close>

theorem prediction_in_observed_range:
  assumes "0 \<le> alpha" and "alpha \<le> 1"
    and "\<forall>(now, t, d, ok) \<in> set os. ok \<and> 0 < d \<longrightarrow> lo \<le> d \<and> d \<le> hi"
    and "predict sha t (observe_all sha os (new_estimator defaults alpha)) = Inr p"
    and "pd_source p \<noteq> Task_kind_default"
  shows "lo \<le> pd_duration p \<and> pd_duration p \<le> hi"
proof -
  have "estimates_ok lo hi (observe_all sha os (new_estimator defaults alpha))"
    by (rule observe_all_range) (use assms(1-3) in \<open>simp_all add: estimates_ok_def new_estimator_def\<close>)
  then show ?thesis
    using assms(4,5)
    by (auto simp: predict_def Let_def estimates_ok_def in_range_def from_profile_def used_def
        split: option.splits if_splits)
qed

definition sample_est_task :: est_task where
  "sample_est_task = \<lparr>et_kind = VStr ''GPU'', et_code_str = VStr ''f'', et_code_ser = VNone, et_input = VNone, et_args = None\<rparr>"

theorem prediction_in_observed_range_witness:
  "\<exists>p. predict (\<lambda>_. ''h'') sample_est_task (observe_all (\<lambda>_. ''h'')
       [(1, sample_est_task, 4, True), (2, sample_est_task, 9, True), (3, sample_est_task, 100, False)]
       (new_estimator [] (1 / 5))) = Inr p \<and> 4 \<le> pd_duration p \<and> pd_duration p \<le> 9"
proof -
  let ?os = "[(1, sample_est_task, 4, True), (2, sample_est_task, 9, True), (3, sample_est_task, 100, False)]"
  let ?p = "predict (\<lambda>_. ''h'') sample_est_task (observe_all (\<lambda>_. ''h'') ?os (new_estimator [] (1 / 5)))"
  have p: "?p = Inr (projr ?p)" and src: "pd_source (projr ?p) \<noteq> Task_kind_default" by code_simp+
  have "4 \<le> pd_duration (projr ?p) \<and> pd_duration (projr ?p) \<le> 9"
    by (rule prediction_in_observed_range [OF _ _ _ p src]) simp_all
  with p show ?thesis by metis
qed

text \<open>The hash of a task does not depend on the order of its dictionaries.\<close>

lemma sort_key_mset:
  assumes "mset xs = mset ys" "distinct (map fst xs)"
  shows "sort_key fst xs = sort_key (fst :: 'a::linorder \<times> 'b \<Rightarrow> 'a) ys"
proof (rule properties_for_sort_key [symmetric])
  show "mset (sort_key fst xs) = mset ys" using assms(1) by simp
  show "sorted (map fst (sort_key fst xs))" by simp
  fix k assume ks: "k \<in> set (sort_key fst xs)"
  then have k: "k \<in> set ys" using assms(1) by (metis mset_eq_setD set_sort)
  have d: "distinct (map fst ys)" using assms by (metis mset_eq_imp_distinct_iff mset_map)
  have one: "filter (\<lambda>y. fst k = fst y) zs = [k]" if "distinct (map fst zs)" "k \<in> set zs" for zs
    using that
  proof (induction zs)
    case (Cons z zs)
    show ?case
    proof (cases "z = k")
      case True
      then have "filter (\<lambda>y. fst k = fst y) zs = []" using Cons.prems(1) by (force simp: filter_empty_conv)
      then show ?thesis using True by simp
    next
      case False
      then have "k \<in> set zs" using Cons.prems(2) by simp
      then have "fst k \<in> fst ` set zs" by (rule imageI)
      moreover have "fst z \<notin> fst ` set zs" using Cons.prems(1) by simp
      ultimately have "fst k \<noteq> fst z" by metis
      then show ?thesis using Cons False by auto
    qed
  qed simp
  have "distinct (map fst (sort_key fst xs))"
    using assms(2) by (metis mset_eq_imp_distinct_iff mset_map mset_sort)
  then show "filter (\<lambda>y. fst k = fst y) (sort_key fst xs) = filter (\<lambda>y. fst k = fst y) ys"
    using one d k ks by metis
qed

lemma stable_normalize_order:
  assumes "mset d = mset d'" "dict_ok d"
  shows "stable_normalize (VDict d) = stable_normalize (VDict d')"
proof -
  let ?f = "\<lambda>p. (fst p, stable_normalize (snd p))"
  have "mset (map ?f d) = mset (map ?f d')" using assms(1) by simp
  moreover have "distinct (map fst (map ?f d))" using assms(2) by (simp add: dict_ok_def comp_def)
  ultimately show ?thesis by (simp add: sort_key_mset)
qed

text \<open>
  The identity a prediction is kept by does not depend on the order in which the task's input was built: two
  tasks whose inputs hold the same entries have the same code hash, so they share one profile.
\<close>

theorem code_hash_order_free:
  assumes "et_input t = VDict d" and "mset d = mset d'" and "dict_ok d"
  shows "code_hash_for_task sha (t\<lparr>et_input := VDict d'\<rparr>) = code_hash_for_task sha t"
  using assms stable_normalize_order [OF assms(2,3)]
  by (simp add: code_hash_for_task_def hash_payload_def dvals_def split: option.splits)

theorem code_hash_order_free_witness:
  "code_hash_for_task (\<lambda>_. ''h'') (sample_est_task\<lparr>et_input := VDict [(''b'', VInt 2), (''a'', VInt 1)]\<rparr>) =
   code_hash_for_task (\<lambda>_. ''h'') (sample_est_task\<lparr>et_input := VDict [(''a'', VInt 1), (''b'', VInt 2)]\<rparr>)"
  using code_hash_order_free [of "sample_est_task\<lparr>et_input := VDict [(''a'', VInt 1), (''b'', VInt 2)]\<rparr>"
      "[(''a'', VInt 1), (''b'', VInt 2)]" "[(''b'', VInt 2), (''a'', VInt 1)]" "\<lambda>_. ''h''"]
  by (simp add: dict_ok_def add_mset_commute)


end
