(* ===== verification/Artifact_Store.thy ===== *)
theory Artifact_Store
  imports PyValue "HOL-Library.List_Lexorder" "HOL-Library.Char_ord"
begin

text \<open>
  The content-addressed artifact store of \<open>maze/core/files/artifact_store.py\<close>: blobs on disk under the SHA-256 of
  their bytes, and a SQLite database that says which blobs are private and which capabilities may read them.

  Every database transaction begins with \<open>BEGIN IMMEDIATE\<close> and so excludes the others; an operation that
  commits in between (a private upload, a revocation) is two or more steps here. SHA-256 is an argument, of
  the bytes (\<open>sha\<close>) and of capabilities (\<open>hc\<close>). The foreign keys delete grants and owners with the rows they
  refer to. The creation and migration of the tables and the file permissions are not modelled.
\<close>

section \<open>State\<close>

text \<open>
  \<open>access\<close> has a row for every private artifact; its value is the column \<open>managed_blob\<close> (\<open>private\<close> is always
  1). \<open>secret\<close> is a ghost: the artifacts whose bytes on disk were written while the artifact was private.
\<close>

record 'b artifacts =
  caps :: "string list"
  owners :: "(string \<times> string) list"
  access :: "(string, bool) dict"
  grants :: "(string \<times> string) list"
  blobs :: "(string, 'b) dict"
  secret :: "string set"

definition no_artifacts :: "'b artifacts" where
  "no_artifacts = \<lparr>caps = [], owners = [], access = [], grants = [], blobs = [], secret = {}\<rparr>"

section \<open>Capabilities\<close>

definition capability_hash :: "(string \<Rightarrow> string) \<Rightarrow> string \<Rightarrow> string result" where
  "capability_hash hc c = (if c = [] then Inl (PermissionError ''A valid artifact capability is required'') else Inr (hc c))"

text \<open>\<open>c\<close> is the fresh token; a token whose hash is in use would violate the primary key.\<close>

definition create_capability :: "(string \<Rightarrow> string) \<Rightarrow> string \<Rightarrow> string option \<Rightarrow> 'b artifacts \<Rightarrow> ('b artifacts \<times> string) result" where
  "create_capability hc c owner s =
     (if owner = Some [] then Inl (ValueError ''Artifact capability owner_id must be a non-empty string'')
      else rbind (capability_hash hc c) (\<lambda>h.
        if h \<in> set (caps s) then Inl (RuntimeError ''UNIQUE constraint failed'')
        else Inr (s\<lparr>caps := h # caps s,
                    owners := (case owner of None \<Rightarrow> owners s | Some w \<Rightarrow> (w, h) # owners s)\<rparr>, c)))"

definition require_upload_capability :: "(string \<Rightarrow> string) \<Rightarrow> string option \<Rightarrow> 'b artifacts \<Rightarrow> string result" where
  "require_upload_capability hc c s =
     rbind (capability_hash hc (case c of None \<Rightarrow> [] | Some x \<Rightarrow> x)) (\<lambda>h.
       guard_or (h \<in> set (caps s)) (PermissionError ''Artifact capability is invalid'') (Inr h))"

text \<open>
  The first transaction of \<open>revoke_owner_capabilities\<close>: the owner's capabilities go, with their grants; an
  artifact that nobody may read any more is public again if its bytes were there before it became private.
\<close>

definition has_grant :: "'b artifacts \<Rightarrow> string \<Rightarrow> bool" where
  "has_grant s a = list_ex (\<lambda>(x, h). x = a) (grants s)"

definition drop_access :: "string \<Rightarrow> 'b artifacts \<Rightarrow> 'b artifacts" where
  "drop_access a s = s\<lparr>access := ddel a (access s), grants := filter (\<lambda>(x, h). x \<noteq> a) (grants s)\<rparr>"

definition revoke_owner :: "string \<Rightarrow> 'b artifacts \<Rightarrow> ('b artifacts \<times> nat) result" where
  "revoke_owner w s =
     (if w = [] then Inl (ValueError ''Artifact capability owner_id must be a non-empty string'')
      else (let hs = map snd (filter (\<lambda>(o', h). o' = w) (owners s));
                rows = remdups (map fst (filter (\<lambda>(a, h). h \<in> set hs) (grants s)));
                s1 = s\<lparr>caps := filter (\<lambda>h. h \<notin> set hs) (caps s),
                       owners := filter (\<lambda>(o', h). h \<notin> set hs) (owners s),
                       grants := filter (\<lambda>(a, h). h \<notin> set hs) (grants s)\<rparr>;
                s2 = foldl (\<lambda>s a. if has_grant s a \<or> map_of (access s) a = Some True then s else drop_access a s) s1 rows
            in Inr (s2, length hs)))"

section \<open>Reaping\<close>

text \<open>
  One transaction of \<open>_reap_revoked_managed_blobs\<close>: the first managed artifact without a grant loses its bytes,
  then its row. \<open>reap_crash\<close> is the same transaction cut off after the bytes are gone.
\<close>

definition reapable :: "'b artifacts \<Rightarrow> string list" where
  "reapable s = sort (filter (\<lambda>a. map_of (access s) a = Some True \<and> \<not> has_grant s a) (remdups (dkeys (access s))))"

definition unlink :: "string \<Rightarrow> 'b artifacts \<Rightarrow> 'b artifacts" where
  "unlink a s = s\<lparr>blobs := ddel a (blobs s), secret := secret s - {a}\<rparr>"

definition reap_one :: "'b artifacts \<Rightarrow> 'b artifacts option" where
  "reap_one s = (case reapable s of [] \<Rightarrow> None | a # _ \<Rightarrow> Some (drop_access a (unlink a s)))"

definition reap_crash :: "'b artifacts \<Rightarrow> 'b artifacts" where
  "reap_crash s = (case reapable s of [] \<Rightarrow> s | a # _ \<Rightarrow> unlink a s)"

lemma length_ddel_less: "dhas k d \<Longrightarrow> length (ddel k d) < length d"
  by (auto simp: ddel_def AList.delete_eq dhas_def intro!: length_filter_less)

lemma reap_one_shrinks: "reap_one s = Some t \<Longrightarrow> length (access t) < length (access s)"
proof -
  assume r: "reap_one s = Some t"
  then obtain a as where a: "reapable s = a # as" "t = drop_access a (unlink a s)"
    by (auto simp: reap_one_def split: list.splits)
  then have "a \<in> set (reapable s)" by simp
  then have "dhas a (access s)" by (auto simp: reapable_def dhas_dkeys)
  then show ?thesis by (simp add: a(2) drop_access_def unlink_def length_ddel_less)
qed

text \<open>The loop \<open>while True\<close> without interruption.\<close>

function reap :: "'b artifacts \<Rightarrow> 'b artifacts" where
  "reap s = (case reap_one s of None \<Rightarrow> s | Some t \<Rightarrow> reap t)"
  by pat_completeness auto
termination
  by (relation "measure (\<lambda>s. length (access s))") (auto dest: reap_one_shrinks)

declare reap.simps [simp del]

definition revoke_owner_capabilities :: "string \<Rightarrow> 'b artifacts \<Rightarrow> ('b artifacts \<times> nat) result" where
  "revoke_owner_capabilities w s = rbind (revoke_owner w s) (\<lambda>(t, n). Inr (reap t, n))"

section \<open>Reading\<close>

definition hex_digits :: "string" where
  "hex_digits = ''0123456789abcdef''"

definition valid_sha :: "string \<Rightarrow> bool" where
  "valid_sha a = (length a = 64 \<and> list_all (\<lambda>c. c \<in> set hex_digits) (py_lower a))"

definition check_sha :: "string \<Rightarrow> 'a result \<Rightarrow> 'a result" where
  "check_sha a k = guard_or (valid_sha a) (ValueError ''Invalid sha256'') k"

definition blob_exists :: "string \<Rightarrow> 'b artifacts \<Rightarrow> bool result" where
  "blob_exists a s = check_sha a (Inr (dhas a (blobs s)))"

definition is_private :: "string \<Rightarrow> 'b artifacts \<Rightarrow> bool result" where
  "is_private a s = check_sha a (Inr (dhas a (access s)))"

text \<open>
  \<open>get_file\<close> looks for the blob, asks for the right to read it and then copies it. Here the three are one step: the code
  holds no transaction over the copy, so a grant that is revoked, or a blob that is collected, between the check and the copy is
  not modelled. What is copied then is what the check allowed.
\<close>

definition can_read :: "(string \<Rightarrow> string) \<Rightarrow> string \<Rightarrow> string option \<Rightarrow> 'b artifacts \<Rightarrow> bool result" where
  "can_read hc a c s =
     check_sha a
       (if \<not> dhas a (access s) then Inr True
        else (case c of
            None \<Rightarrow> Inr False
          | Some x \<Rightarrow> if x = [] then Inr False
                      else rbind (capability_hash hc x) (\<lambda>h. Inr ((a, h) \<in> set (grants s)))))"

definition require_read :: "(string \<Rightarrow> string) \<Rightarrow> string \<Rightarrow> string option \<Rightarrow> 'b artifacts \<Rightarrow> unit result" where
  "require_read hc a c s =
     rbind (can_read hc a c s) (\<lambda>b. guard_or b (PermissionError ''Artifact capability is required'') (Inr ()))"

text \<open>\<open>get_file\<close>: the bytes that end up at the target.\<close>

definition get_file :: "('b \<Rightarrow> string) \<Rightarrow> (string \<Rightarrow> string) \<Rightarrow> string \<Rightarrow> string option \<Rightarrow> 'b artifacts \<Rightarrow> 'b result" where
  "get_file sha hc a c s =
     check_sha a
       (case map_of (blobs s) a of
          None \<Rightarrow> Inl (FileNotFoundError ''Artifact not found'')
        | Some b \<Rightarrow> rbind (require_read hc a c s) (\<lambda>_.
            guard_or (sha b = a) (RuntimeError ''Artifact checksum mismatch after copy'') (Inr b)))"

section \<open>Writing\<close>

text \<open>\<open>_mark_private\<close>: the artifact is private from now on, and the capability may read it.\<close>

definition mark_private :: "(string \<Rightarrow> string) \<Rightarrow> string \<Rightarrow> string \<Rightarrow> 'b artifacts \<Rightarrow> ('b artifacts \<times> string) result" where
  "mark_private hc a c s =
     rbind (capability_hash hc c) (\<lambda>h.
       if h \<notin> set (caps s) then Inl (PermissionError ''Artifact capability is invalid'')
       else check_sha a
         (let managed = (\<not> dhas a (blobs s)) in
          Inr (s\<lparr>access := dput a (dgetd (access s) a False \<or> managed) (access s),
                 grants := List.insert (a, h) (grants s)\<rparr>, h)))"

definition write_blob :: "string \<Rightarrow> 'b \<Rightarrow> 'b artifacts \<Rightarrow> 'b artifacts" where
  "write_blob a b s =
     (if dhas a (blobs s) then s
      else s\<lparr>blobs := dput a b (blobs s),
             secret := (if dhas a (access s) then insert a (secret s) else secret s - {a})\<rparr>)"

definition put_private_blob :: "string \<Rightarrow> string \<Rightarrow> 'b \<Rightarrow> 'b artifacts \<Rightarrow> 'b artifacts result" where
  "put_private_blob a h b s =
     check_sha a
       (if dhas a (access s) \<and> (a, h) \<in> set (grants s) \<and> h \<in> set (caps s) then Inr (write_blob a b s)
        else Inl (PermissionError ''Artifact capability is invalid''))"

definition put_public_blob :: "(string \<Rightarrow> string) \<Rightarrow> string \<Rightarrow> string option \<Rightarrow> 'b \<Rightarrow> 'b artifacts \<Rightarrow> 'b artifacts result" where
  "put_public_blob hc a c b s =
     check_sha a
       (if \<not> dhas a (access s) then Inr (write_blob a b s)
        else (case c of
            None \<Rightarrow> Inl (PermissionError ''Artifact capability is required'')
          | Some x \<Rightarrow>
              if x = [] then Inl (PermissionError ''Artifact capability is required'')
              else rbind (capability_hash hc x) (\<lambda>h.
                if (a, h) \<in> set (grants s) \<and> h \<in> set (caps s) then Inr (write_blob a b s)
                else Inl (PermissionError ''Artifact capability is required''))))"

text \<open>\<open>put_bytes\<close> and \<open>put_file\<close> without interference; the file may change between hashing (\<open>b\<close>) and copying
  (\<open>b'\<close>).\<close>

definition put_file ::
    "('b \<Rightarrow> string) \<Rightarrow> (string \<Rightarrow> string) \<Rightarrow> 'b \<Rightarrow> 'b \<Rightarrow> bool \<Rightarrow> string option \<Rightarrow> 'b artifacts \<Rightarrow> ('b artifacts \<times> string) result" where
  "put_file sha hc b b' private c s =
     (let a = sha b in
      if private
      then rbind (mark_private hc a (case c of None \<Rightarrow> [] | Some x \<Rightarrow> x) s) (\<lambda>(t, h).
             rbind (put_private_blob a h b' t) (\<lambda>u. Inr (u, a)))
      else rbind (put_public_blob hc a c b' s) (\<lambda>u. Inr (u, a)))"

definition put_bytes ::
    "('b \<Rightarrow> string) \<Rightarrow> (string \<Rightarrow> string) \<Rightarrow> string \<Rightarrow> 'b \<Rightarrow> bool \<Rightarrow> string option \<Rightarrow> 'b artifacts \<Rightarrow> ('b artifacts \<times> string) result" where
  "put_bytes sha hc a b private c s =
     (if sha b \<noteq> a then Inl (ValueError ''Artifact checksum mismatch'') else put_file sha hc b b private c s)"

section \<open>Histories\<close>

text \<open>
  The transactions of all processes that use the store, interleaved: whoever began a private upload may be
  overtaken by a revocation, and a reaping may be cut off.
\<close>

inductive artifact_step :: "(string \<Rightarrow> string) \<Rightarrow> 'b artifacts \<Rightarrow> 'b artifacts \<Rightarrow> bool" for hc where
  created: "create_capability hc c owner s = Inr (t, x) \<Longrightarrow> artifact_step hc s t"
| revoked: "revoke_owner w s = Inr (t, n) \<Longrightarrow> artifact_step hc s t"
| reaped: "reap_one s = Some t \<Longrightarrow> artifact_step hc s t"
| crashed: "artifact_step hc s (reap_crash s)"
| marked: "mark_private hc a c s = Inr (t, h) \<Longrightarrow> artifact_step hc s t"
| put_private: "put_private_blob a h b s = Inr t \<Longrightarrow> artifact_step hc s t"
| put_public: "put_public_blob hc a c b s = Inr t \<Longrightarrow> artifact_step hc s t"

definition reachable_artifacts :: "(string \<Rightarrow> string) \<Rightarrow> 'b artifacts \<Rightarrow> bool" where
  "reachable_artifacts hc s = (artifact_step hc)\<^sup>*\<^sup>* no_artifacts s"

section \<open>The invariant\<close>

text \<open>
  Grants refer to live capabilities and private artifacts; bytes written while an artifact was private belong
  to a managed artifact; an unmanaged one still has the bytes it had before it became private.
\<close>

definition artifacts_ok :: "'b artifacts \<Rightarrow> bool" where
  "artifacts_ok s =
     ((\<forall>(a, h) \<in> set (grants s). dhas a (access s) \<and> h \<in> set (caps s)) \<and>
      (\<forall>a \<in> secret s. map_of (access s) a = Some True \<and> dhas a (blobs s)) \<and>
      (\<forall>a. map_of (access s) a = Some False \<longrightarrow> dhas a (blobs s)))"

lemma artifacts_okD:
  assumes "artifacts_ok s"
  shows "(a, h) \<in> set (grants s) \<Longrightarrow> dhas a (access s) \<and> h \<in> set (caps s)"
    and "a \<in> secret s \<Longrightarrow> map_of (access s) a = Some True"
    and "a \<in> secret s \<Longrightarrow> dhas a (blobs s)"
    and "map_of (access s) a = Some False \<Longrightarrow> dhas a (blobs s)"
  using assms by (auto simp: artifacts_ok_def)

lemma create_capability_ok:
  assumes "artifacts_ok s" "create_capability hc c owner s = Inr (t, x)"
  shows "artifacts_ok t"
  using assms by (auto simp: artifacts_ok_def create_capability_def split: if_splits)

lemma drop_access_ok:
  assumes "artifacts_ok s" "map_of (access s) a \<noteq> Some True"
  shows "artifacts_ok (drop_access a s)"
  using assms by (auto simp: artifacts_ok_def drop_access_def)

lemma reap_ok:
  assumes ok: "artifacts_ok s" and a: "a \<in> set (reapable s)"
  shows "artifacts_ok (unlink a s)" and "artifacts_ok (drop_access a (unlink a s))"
proof -
  have "map_of (access s) a = Some True" using a by (simp add: reapable_def)
  then show "artifacts_ok (unlink a s)" using ok by (auto simp: artifacts_ok_def unlink_def)
  then show "artifacts_ok (drop_access a (unlink a s))" by (auto simp: artifacts_ok_def drop_access_def unlink_def)
qed

lemma reap_one_ok: "artifacts_ok s \<Longrightarrow> reap_one s = Some t \<Longrightarrow> artifacts_ok t"
  by (auto simp: reap_one_def intro: reap_ok(2) split: list.splits)

lemma reap_crash_ok: "artifacts_ok s \<Longrightarrow> artifacts_ok (reap_crash s)"
  by (auto simp: reap_crash_def intro: reap_ok(1) split: list.splits)

lemma reap_all_ok: "artifacts_ok s \<Longrightarrow> artifacts_ok (reap s)"
proof (induction s rule: reap.induct)
  case (1 s)
  then show ?case by (subst reap.simps) (auto split: option.splits intro: reap_one_ok)
qed

text \<open>The loop of a revocation drops rows of artifacts that are not managed.\<close>

definition drop_unmanaged :: "'b artifacts \<Rightarrow> string \<Rightarrow> 'b artifacts" where
  "drop_unmanaged s a = (if has_grant s a \<or> map_of (access s) a = Some True then s else drop_access a s)"

lemma drop_unmanaged_ok:
  "artifacts_ok s \<Longrightarrow> artifacts_ok (drop_unmanaged s a)" "caps (drop_unmanaged s a) = caps s"
  "blobs (drop_unmanaged s a) = blobs s" "secret (drop_unmanaged s a) = secret s"
  "set (grants (drop_unmanaged s a)) \<subseteq> set (grants s)"
  by (auto simp: drop_unmanaged_def drop_access_ok) (auto simp: drop_access_def)

lemma drop_all_ok:
  "artifacts_ok s \<Longrightarrow> artifacts_ok (foldl drop_unmanaged s as)" "caps (foldl drop_unmanaged s as) = caps s"
  "blobs (foldl drop_unmanaged s as) = blobs s" "secret (foldl drop_unmanaged s as) = secret s"
  "set (grants (foldl drop_unmanaged s as)) \<subseteq> set (grants s)"
proof -
  show "artifacts_ok s \<Longrightarrow> artifacts_ok (foldl drop_unmanaged s as)"
    by (induction as arbitrary: s) (simp_all add: drop_unmanaged_ok)
  show "caps (foldl drop_unmanaged s as) = caps s" "blobs (foldl drop_unmanaged s as) = blobs s"
    "secret (foldl drop_unmanaged s as) = secret s"
    by (induction as arbitrary: s) (simp_all add: drop_unmanaged_ok)
  show "set (grants (foldl drop_unmanaged s as)) \<subseteq> set (grants s)"
    by (induction as arbitrary: s) (auto dest!: subsetD [OF drop_unmanaged_ok(5)])
qed

lemma revoke_owner_facts:
  assumes "revoke_owner w s = Inr (t, n)"
  defines "hs \<equiv> map snd (filter (\<lambda>(o', h). o' = w) (owners s))"
  defines "s1 \<equiv> s\<lparr>caps := filter (\<lambda>h. h \<notin> set hs) (caps s), owners := filter (\<lambda>(o', h). h \<notin> set hs) (owners s),
    grants := filter (\<lambda>(a, h). h \<notin> set hs) (grants s)\<rparr>"
  obtains as where "t = foldl drop_unmanaged s1 as"
proof -
  have d: "(\<lambda>s a. if has_grant s a \<or> map_of (access s) a = Some True then s else drop_access a s) = drop_unmanaged"
    by (intro ext) (simp add: drop_unmanaged_def)
  from assms(1) have "foldl drop_unmanaged s1 (remdups (map fst (filter (\<lambda>(a, h). h \<in> set hs) (grants s)))) = t"
    by (simp add: revoke_owner_def Let_def d s1_def hs_def split: if_splits)
  then show ?thesis by (intro that) (rule sym)
qed

lemma revoke_owner_ok:
  assumes ok: "artifacts_ok s" and r: "revoke_owner w s = Inr (t, n)"
  shows "artifacts_ok t"
  using r
proof (rule revoke_owner_facts)
  let ?hs = "map snd (filter (\<lambda>(o', h). o' = w) (owners s))"
  let ?s1 = "s\<lparr>caps := filter (\<lambda>h. h \<notin> set ?hs) (caps s), owners := filter (\<lambda>(o', h). h \<notin> set ?hs) (owners s),
    grants := filter (\<lambda>(a, h). h \<notin> set ?hs) (grants s)\<rparr>"
  fix as assume t: "t = foldl drop_unmanaged ?s1 as"
  have "artifacts_ok ?s1" using ok by (fastforce simp: artifacts_ok_def)
  then show "artifacts_ok t" unfolding t by (rule drop_all_ok(1))
qed

lemma mark_private_ok:
  assumes ok: "artifacts_ok s" and m: "mark_private hc a c s = Inr (t, h)"
  shows "artifacts_ok t"
proof -
  from m have t: "h \<in> set (caps s)" "t = s\<lparr>access := dput a (dgetd (access s) a False \<or> \<not> dhas a (blobs s)) (access s),
      grants := List.insert (a, h) (grants s)\<rparr>"
    by (auto simp: mark_private_def check_sha_def Let_def split: if_splits)
  show ?thesis
    using ok t(1) unfolding artifacts_ok_def by (auto simp: t(2) dgetd_def split: option.splits if_splits)
qed

lemma write_blob_ok:
  assumes "artifacts_ok s"
  shows "artifacts_ok (write_blob a b s)"
proof (cases "dhas a (blobs s)")
  case False
  then have "map_of (access s) a \<noteq> Some False" using assms by (auto simp: artifacts_ok_def)
  then have "dhas a (access s) \<Longrightarrow> map_of (access s) a = Some True" by (auto simp: dhas_iff)
  then show ?thesis using assms False by (auto simp: artifacts_ok_def write_blob_def)
qed (simp add: write_blob_def assms)

lemma artifact_step_ok:
  assumes "artifact_step hc s t" "artifacts_ok s"
  shows "artifacts_ok t"
  using assms
proof (induction rule: artifact_step.induct)
  case (put_private a h b s t)
  then show ?case by (auto simp: put_private_blob_def check_sha_def write_blob_ok split: if_splits)
next
  case (put_public a c b s t)
  then show ?case
    by (auto simp: put_public_blob_def check_sha_def write_blob_ok split: if_splits option.splits)
qed (auto intro: create_capability_ok revoke_owner_ok reap_one_ok reap_crash_ok mark_private_ok)

lemma reachable_artifacts_ok:
  assumes "reachable_artifacts hc s"
  shows "artifacts_ok s"
  using assms unfolding reachable_artifacts_def
proof (induction rule: rtranclp_induct)
  case base
  show ?case by (simp add: no_artifacts_def artifacts_ok_def)
next
  case (step y z)
  show ?case by (rule artifact_step_ok [OF step.hyps(2) step.IH])
qed

section \<open>Confidentiality and integrity\<close>

text \<open>
  C17: Private artifacts stay private: in every interleaving of uploads, revocations, reapings and crashes, bytes
  that were written while their artifact was private can only be read with a capability that is alive and was
  granted that artifact; without one, reading them is refused.
\<close>

theorem private_bytes_stay_private:
  assumes "reachable_artifacts hc s" and "a \<in> secret s" and "can_read hc a c s = Inr True"
  shows "\<exists>x. c = Some x \<and> x \<noteq> [] \<and> (a, hc x) \<in> set (grants s) \<and> hc x \<in> set (caps s)"
proof -
  note ok = artifacts_okD [OF reachable_artifacts_ok [OF assms(1)]]
  have "dhas a (access s)" using ok(2) [OF assms(2)] by (simp add: dhas_iff)
  with assms(3) obtain x where "c = Some x" "x \<noteq> []" "(a, hc x) \<in> set (grants s)"
    by (auto simp: can_read_def check_sha_def capability_hash_def split: option.splits if_splits)
  with ok(1) show ?thesis by blast
qed

text \<open>
  Revocation is effective at once: after the first transaction of a revocation none of the owner's
  capabilities reads any private bytes, and no artifact became public whose bytes were written privately.
\<close>

theorem revocation_effective:
  assumes "reachable_artifacts hc s" and "(w, hc x) \<in> set (owners s)" and "revoke_owner w s = Inr (t, n)"
    and "a \<in> secret s" and "valid_sha a"
  shows "can_read hc a (Some x) t = Inr False \<and> can_read hc a None t = Inr False \<and> a \<in> secret t"
proof -
  have ok: "artifacts_ok t" by (rule revoke_owner_ok [OF reachable_artifacts_ok [OF assms(1)] assms(3)])
  let ?hs = "map snd (filter (\<lambda>(o', h). o' = w) (owners s))"
  let ?s1 = "s\<lparr>caps := filter (\<lambda>h. h \<notin> set ?hs) (caps s), owners := filter (\<lambda>(o', h). h \<notin> set ?hs) (owners s),
    grants := filter (\<lambda>(a, h). h \<notin> set ?hs) (grants s)\<rparr>"
  obtain as where t: "t = foldl drop_unmanaged ?s1 as" using revoke_owner_facts [OF assms(3)] .
  have "hc x \<in> set ?hs" using assms(2) by force
  then have "hc x \<notin> set (caps t)" by (simp add: t drop_all_ok)
  then have g: "(a, hc x) \<notin> set (grants t)" using artifacts_okD(1) [OF ok] by blast
  have sec: "a \<in> secret t" using assms(4) by (simp add: t drop_all_ok)
  then have "dhas a (access t)" using artifacts_okD(2) [OF ok] by (simp add: dhas_iff)
  then show ?thesis using g sec assms(5) by (simp add: can_read_def check_sha_def guard_or_def capability_hash_def)
qed

lemma reap_done: "reapable (reap s) = []"
proof (induction s rule: reap.induct)
  case (1 s)
  show ?case
  proof (cases "reap_one s")
    case None
    then show ?thesis by (subst reap.simps) (auto simp: reap_one_def split: list.splits)
  next
    case (Some t)
    then show ?thesis using 1 by (subst reap.simps) simp
  qed
qed

lemma reap_blobs: "dhas a (blobs s) \<Longrightarrow> dhas a (blobs (reap s)) \<or> (map_of (access s) a = Some True \<and> \<not> has_grant s a)"
proof (induction s rule: reap.induct)
  case (1 s)
  show ?case
  proof (cases "reapable s")
    case Nil
    then show ?thesis using 1(2) by (subst reap.simps) (simp add: reap_one_def)
  next
    case (Cons x xs)
    then have t: "reap_one s = Some (drop_access x (unlink x s))" by (simp add: reap_one_def)
    have x: "map_of (access s) x = Some True \<and> \<not> has_grant s x"
    proof -
      have "x \<in> set (reapable s)" by (simp add: Cons)
      then show ?thesis by (simp add: reapable_def)
    qed
    show ?thesis
    proof (cases "a = x")
      case False
      then have "dhas a (blobs (drop_access x (unlink x s)))" using 1(2) by (simp add: drop_access_def unlink_def)
      from "1.IH" [OF t this] False show ?thesis
        by (subst reap.simps) (auto simp: t drop_access_def unlink_def has_grant_def list_ex_iff)
    qed (use x in simp)
  qed
qed

text \<open>
  Reaping ends and removes the bytes of every managed artifact that nobody may read any more, and nothing
  else.
\<close>

theorem reaping_exact:
  assumes "reachable_artifacts hc s"
  shows "reap_one (reap s) = None \<and>
    (dhas a (blobs s) \<longrightarrow> dhas a (blobs (reap s)) \<or> (map_of (access s) a = Some True \<and> \<not> has_grant s a))"
  using reap_done [of s] by (auto simp: reap_one_def dest: reap_blobs)

text \<open>
  What was stored comes back: after a successful private upload with a capability, reading with that
  capability returns the uploaded bytes, provided what is on disk under that hash has it.
\<close>

theorem put_get_round_trip:
  assumes "put_bytes sha hc a b True (Some x) s = Inr (t, a')"
    and "\<And>b'. sha b' = a \<Longrightarrow> b' = b" and "\<And>b'. map_of (blobs s) a = Some b' \<Longrightarrow> sha b' = a"
  shows "a' = a \<and> get_file sha hc a (Some x) t = Inr b"
proof -
  from assms(1) obtain u h where a: "sha b = a" "a' = a" "mark_private hc a x s = Inr (u, h)" "put_private_blob a h b u = Inr t"
    by (auto simp: put_bytes_def put_file_def Let_def split: if_splits)
  from a(3) have u: "x \<noteq> []" "h = hc x" "valid_sha a" "blobs u = blobs s"
    by (auto simp: mark_private_def check_sha_def capability_hash_def Let_def split: if_splits)
  from a(4) have t: "t = write_blob a b u" "(a, h) \<in> set (grants u)"
    by (auto simp: put_private_blob_def check_sha_def split: if_splits)
  have "map_of (blobs t) a = Some b"
  proof (cases "map_of (blobs s) a")
    case None
    then show ?thesis by (simp add: t(1) write_blob_def u(4) dhas_iff)
  next
    case (Some b')
    have "b' = b" by (rule assms(2) [OF assms(3) [OF Some]])
    with Some show ?thesis by (simp add: t(1) write_blob_def u(4) dhas_iff)
  qed
  moreover have "can_read hc a (Some x) t = Inr True"
    using t(2) u(1,2,3) by (simp add: t(1) write_blob_def can_read_def check_sha_def guard_or_def capability_hash_def)
  ultimately show ?thesis using a(1,2) u(3) by (simp add: get_file_def check_sha_def guard_or_def require_read_def)
qed

text \<open>A read that succeeds gives bytes of the hash that was asked for, whatever is on disk.\<close>

theorem get_file_integrity:
  assumes "get_file sha hc a c s = Inr b"
  shows "sha b = a"
  using assms by (auto simp: get_file_def check_sha_def split: option.splits)


section \<open>A sample history\<close>

definition sample_sha :: string where
  "sample_sha = replicate 64 (CHR ''a'')"

definition sample_artifacts :: "nat artifacts" where
  "sample_artifacts = fst (projr (put_bytes (\<lambda>_. sample_sha) (\<lambda>c. c) sample_sha 7 True (Some ''c'')
     (fst (projr (create_capability (\<lambda>c. c) ''c'' (Some ''w'') no_artifacts)))))"

lemma sample_artifacts_reachable: "reachable_artifacts (\<lambda>c. c) sample_artifacts"
proof -
  let ?s1 = "fst (projr (create_capability (\<lambda>c. c) ''c'' (Some ''w'') (no_artifacts :: nat artifacts)))"
  let ?s2 = "fst (projr (mark_private (\<lambda>c. c) sample_sha ''c'' ?s1))"
  have 1: "create_capability (\<lambda>c. c) ''c'' (Some ''w'') (no_artifacts :: nat artifacts) = Inr (?s1, ''c'')" by code_simp
  have 2: "mark_private (\<lambda>c. c) sample_sha ''c'' ?s1 = Inr (?s2, ''c'')" by code_simp
  have 3: "put_private_blob sample_sha ''c'' 7 ?s2 = Inr sample_artifacts" by code_simp
  show ?thesis
    unfolding reachable_artifacts_def
    using artifact_step.created [OF 1] artifact_step.marked [OF 2] artifact_step.put_private [OF 3]
    by (meson converse_rtranclp_into_rtranclp rtranclp.rtrancl_refl)
qed

lemma sample_secret: "sample_sha \<in> secret sample_artifacts" by code_simp

theorem private_bytes_stay_private_witness:
  "(sample_sha, ''c'') \<in> set (grants sample_artifacts)"
proof -
  have "can_read (\<lambda>c. c) sample_sha (Some ''c'') sample_artifacts = Inr True" by code_simp
  from private_bytes_stay_private [OF sample_artifacts_reachable sample_secret this] show ?thesis by simp
qed

theorem revocation_effective_witness:
  "can_read (\<lambda>c. c) sample_sha (Some ''c'') (fst (projr (revoke_owner ''w'' sample_artifacts))) = Inr False"
proof -
  have r: "revoke_owner ''w'' sample_artifacts = Inr (fst (projr (revoke_owner ''w'' sample_artifacts)), 1)" by code_simp
  have o: "(''w'', (\<lambda>c. c) ''c'') \<in> set (owners sample_artifacts)" by code_simp
  have v: "valid_sha sample_sha" by code_simp
  from revocation_effective [OF sample_artifacts_reachable o r sample_secret v] show ?thesis by blast
qed

theorem reaping_exact_witness: "reap_one (reap sample_artifacts) = None"
  using reaping_exact [OF sample_artifacts_reachable, of sample_sha] by blast

theorem put_get_round_trip_witness:
  "get_file (\<lambda>_. sample_sha) (\<lambda>c. c) sample_sha (Some ''c'')
     (fst (projr (put_bytes (\<lambda>_. sample_sha) (\<lambda>c. c) sample_sha () True (Some ''c'')
       (fst (projr (create_capability (\<lambda>c. c) ''c'' (Some ''w'') no_artifacts)))))) = Inr ()"
proof -
  let ?s = "fst (projr (create_capability (\<lambda>c. c) ''c'' (Some ''w'') (no_artifacts :: unit artifacts)))"
  have "put_bytes (\<lambda>_. sample_sha) (\<lambda>c. c) sample_sha () True (Some ''c'') ?s
    = Inr (fst (projr (put_bytes (\<lambda>_. sample_sha) (\<lambda>c. c) sample_sha () True (Some ''c'') ?s)), sample_sha)"
    by code_simp
  from put_get_round_trip [OF this] show ?thesis by simp
qed


end
