(* ===== verification/Action.thy ===== *)
theory Action
  imports Prelude
begin

text \<open>
  Code that changes a state and may raise half-way: an action returns the state it leaves behind and a value or an
  exception. \<open>triple P a Q E\<close> says what holds after a success (\<open>Q\<close>) and after an exception (\<open>E\<close>);
  \<open>keeping P a\<close> that the action keeps \<open>P\<close> either way.
\<close>

section \<open>Actions\<close>

type_synonym ('s, 'a) action = "'s \<Rightarrow> 's \<times> 'a result"

definition act_then :: "('s, 'a) action \<Rightarrow> ('a \<Rightarrow> ('s, 'b) action) \<Rightarrow> ('s, 'b) action" where
  "act_then m f w = (case m w of (w1, Inl e) \<Rightarrow> (w1, Inl e) | (w1, Inr x) \<Rightarrow> f x w1)"

definition act_return :: "'a \<Rightarrow> ('s, 'a) action" where
  "act_return x w = (w, Inr x)"

definition act_raise :: "pyerr \<Rightarrow> ('s, 'a) action" where
  "act_raise e w = (w, Inl e)"

definition act_modify :: "('s \<Rightarrow> 's) \<Rightarrow> ('s, unit) action" where
  "act_modify f w = (f w, Inr ())"

definition act_result :: "'a result \<Rightarrow> ('s, 'a) action" where
  "act_result r w = (w, r)"

text \<open>\<open>try: m except Exception as e: h\<close>.\<close>

definition act_catch :: "('s, 'a) action \<Rightarrow> (pyerr \<Rightarrow> ('s, 'a) action) \<Rightarrow> ('s, 'a) action" where
  "act_catch m h w = (case m w of (w1, Inl e) \<Rightarrow> h e w1 | (w1, Inr x) \<Rightarrow> (w1, Inr x))"

lemma act_then_assoc: "act_then m (\<lambda>_. act_then n f) = act_then (act_then m (\<lambda>_. n)) f"
  by (rule ext) (simp add: act_then_def split: prod.split sum.split)

section \<open>Reasoning about actions\<close>

definition triple :: "('s \<Rightarrow> bool) \<Rightarrow> ('s, 'a) action \<Rightarrow> ('a \<Rightarrow> 's \<Rightarrow> bool) \<Rightarrow> ('s \<Rightarrow> bool) \<Rightarrow> bool" where
  "triple P a Q E = (\<forall>w. P w \<longrightarrow> (case a w of (w', Inr x) \<Rightarrow> Q x w' | (w', Inl e) \<Rightarrow> E w'))"

named_theorems act_rules

lemma tripleI: "(\<And>w. P w \<Longrightarrow> (case a w of (w', Inr x) \<Rightarrow> Q x w' | (w', Inl e) \<Rightarrow> E w')) \<Longrightarrow> triple P a Q E"
  by (simp add: triple_def)

lemma tripleD: "triple P a Q E \<Longrightarrow> P w \<Longrightarrow> a w = (w', r) \<Longrightarrow> (case r of Inr x \<Rightarrow> Q x w' | Inl e \<Rightarrow> E w')"
  unfolding triple_def by (metis (mono_tags, lifting) case_prod_conv)

lemma triple_then [act_rules]:
  "triple P m R E \<Longrightarrow> (\<And>x. triple (R x) (f x) Q E) \<Longrightarrow> triple P (act_then m f) Q E"
  unfolding triple_def act_then_def by (fastforce split: prod.splits sum.splits)

lemma triple_conseq:
  "triple P a Q E \<Longrightarrow> (\<And>w. P' w \<Longrightarrow> P w) \<Longrightarrow> (\<And>x w. Q x w \<Longrightarrow> Q' x w) \<Longrightarrow> (\<And>w. E w \<Longrightarrow> E' w) \<Longrightarrow> triple P' a Q' E'"
  unfolding triple_def by (fastforce split: prod.splits sum.splits)

lemma triple_return [act_rules]: "triple (Q x) (act_return x) Q E"
  by (simp add: triple_def act_return_def)

lemma triple_raise [act_rules]: "triple E (act_raise e) Q E"
  by (simp add: triple_def act_raise_def)

lemma triple_modify: "(\<And>w. P w \<Longrightarrow> Q () (f w)) \<Longrightarrow> triple P (act_modify f) Q E"
  by (simp add: triple_def act_modify_def)

text \<open>\<open>keeping P a\<close>: the action keeps \<open>P\<close>, also when it fails.\<close>

definition keeping :: "('s \<Rightarrow> bool) \<Rightarrow> ('s, 'a) action \<Rightarrow> bool" where
  "keeping P a = triple P a (\<lambda>_. P) P"

lemma keeping_then [act_rules]: "keeping P m \<Longrightarrow> (\<And>x. keeping P (f x)) \<Longrightarrow> keeping P (act_then m f)"
  unfolding keeping_def by (rule triple_then)

lemma keeping_return [act_rules]: "keeping P (act_return x)"
  unfolding keeping_def by (rule triple_return)

lemma keeping_raise [act_rules]: "keeping P (act_raise e)"
  unfolding keeping_def by (rule triple_raise)

lemma keeping_D: "keeping P a \<Longrightarrow> P w \<Longrightarrow> P (fst (a w))"
  unfolding keeping_def triple_def by (fastforce split: prod.splits sum.splits)

lemma triple_fst: "triple P a (\<lambda>_. Q) Q \<Longrightarrow> P w \<Longrightarrow> Q (fst (a w))"
  unfolding triple_def by (fastforce split: prod.splits sum.splits)

lemma keeping_triple: "keeping P a \<Longrightarrow> triple P a (\<lambda>_. P) P"
  by (simp add: keeping_def)

lemma keepingI: "(\<And>w. P w \<Longrightarrow> P (fst (a w))) \<Longrightarrow> keeping P a"
  unfolding keeping_def triple_def by (fastforce split: prod.splits sum.splits)

lemma keeping_result [act_rules]: "keeping P (act_result r)"
  by (rule keepingI) (simp add: act_result_def)

lemma keeping_catch [act_rules]: "keeping P m \<Longrightarrow> (\<And>e. keeping P (h e)) \<Longrightarrow> keeping P (act_catch m h)"
  unfolding keeping_def triple_def act_catch_def by (fastforce split: prod.splits sum.splits)

lemma keeping_conj: "keeping P a \<Longrightarrow> keeping Q a \<Longrightarrow> keeping (\<lambda>w. P w \<and> Q w) a"
  unfolding keeping_def triple_def by (fastforce split: prod.splits sum.splits)

lemma keeping_modify: "(\<And>w. P w \<Longrightarrow> P (f w)) \<Longrightarrow> keeping P (act_modify f)"
  by (rule keepingI) (simp add: act_modify_def)

lemma triple_catch [act_rules]: "triple P m Q R \<Longrightarrow> (\<And>e. triple R (h e) Q E) \<Longrightarrow> triple P (act_catch m h) Q E"
  unfolding triple_def act_catch_def by (fastforce split: prod.splits sum.splits)

end
