(* ===== verification/Attempt_Protocol.thy ===== *)
theory Attempt_Protocol
  imports Dynamic_Run
begin

text \<open>
  Which of the scheduler's messages the core believes (\<open>MaPath\<close> in \<open>maze/core/path/path.py\<close>). A task may be tried
  several times, messages of older attempts may arrive late or twice, and the core may fail to record a message it
  has accepted: \<open>_accept_task_attempt_event\<close> decides, the transaction functions undo, and a file manifest is
  published only for the attempt that was accepted as finished. \<open>'r\<close> is the state of a run.
\<close>

section \<open>State\<close>

datatype msg_kind = Start_task | Finish_task | Task_retry | Task_exception

datatype attempt_phase = Attempt_running | Attempt_retrying | Attempt_terminal

type_synonym task_key = "string \<times> string"
type_synonym identity = "int \<times> string \<times> string"
type_synonym message = "(string, pyval) dict"

record attempt_state =
  at_identity :: identity
  at_phase :: attempt_phase
  at_event :: msg_kind
  at_node :: message
  at_error :: pyval

record 'r core =
  task_attempts :: "(task_key, attempt_state) dict"
  rejections :: "task_key set"
  live_runs :: "(string, 'r) dict"

section \<open>Reading a message\<close>

definition text_field :: "message \<Rightarrow> string \<Rightarrow> string option" where
  "text_field d k = (case vget d k of VStr s \<Rightarrow> if s = [] then None else Some s | _ \<Rightarrow> None)"

text \<open>The key of the tables, when run and task are named by non-empty strings.\<close>

definition task_key_of :: "message \<Rightarrow> task_key option" where
  "task_key_of d =
     (case (text_field d ''workflow_id'', text_field d ''task_id'') of (Some r, Some t) \<Rightarrow> Some (r, t) | _ \<Rightarrow> None)"

definition task_attempt_identity :: "message \<Rightarrow> (task_key \<times> identity) option" where
  "task_attempt_identity d =
     (case (task_key_of d, vget d ''attempt'', text_field d ''dispatch_id'', text_field d ''lease_id'') of
        (Some k, VInt n, Some x, Some l) \<Rightarrow> if n < 1 then None else Some (k, n, x, l)
      | _ \<Rightarrow> None)"

definition task_attempt_node :: "message \<Rightarrow> message result" where
  "task_attempt_node d =
     rbind (or_empty (vget d ''schedule_decision'')) (\<lambda>dec.
     rbind (or_empty (vget dec ''selected_node'')) (\<lambda>sel.
     Inr (filter (\<lambda>(k, v). v \<noteq> VNone)
       [(''node_id'', vor (vget d ''node_id'') (vget sel ''node_id'')),
        (''node_ip'', vor (vget d ''node_ip'') (vget sel ''node_ip'')),
        (''gpu_id'', if vget d ''gpu_id'' \<noteq> VNone then vget d ''gpu_id'' else vget sel ''gpu_id'')])))"

definition expected_fields :: "message \<Rightarrow> message" where
  "expected_fields d =
     [(''run_id'', vget d ''workflow_id''), (''task_id'', vget d ''task_id''), (''attempt'', vget d ''attempt''),
      (''dispatch_id'', vget d ''dispatch_id''), (''lease_id'', vget d ''lease_id''), (''published'', VBool False)]"

text \<open>The manifest of a message, empty when it has none.\<close>

definition validate_manifest :: "message \<Rightarrow> message result" where
  "validate_manifest d =
     (if \<not> truthy (vget d ''file_manifest'') then Inr []
      else (case vget d ''file_manifest'' of
          VDict m \<Rightarrow>
            guard_or (list_all (\<lambda>(k, v). py_eq (vget m k) v) (expected_fields d))
              (ArtifactError ''Task manifest does not match the finishing attempt'') (Inr m)
        | _ \<Rightarrow> Inl (ArtifactError ''Task file manifest must be an object'')))"

section \<open>Accepting a message\<close>

definition hashable_key :: "message \<Rightarrow> bool" where
  "hashable_key d = (hashable (vget d ''workflow_id'') \<and> hashable (vget d ''task_id''))"

definition is_rejection :: "msg_kind \<Rightarrow> message \<Rightarrow> bool" where
  "is_rejection m d = (m = Task_exception \<and> vget d ''pre_dispatch'' = VBool True)"

text \<open>A task that is refused before it was ever dispatched: accepted once, and only when no attempt is known.\<close>

definition accept_rejection :: "message \<Rightarrow> 'r core \<Rightarrow> 'r core \<times> bool" where
  "accept_rejection d c =
     (case task_key_of d of
        Some k \<Rightarrow>
          if py_eq (vget d ''attempt'') (VInt 0) \<and> vget d ''dispatch_id'' = VNone \<and> vget d ''lease_id'' = VNone
             \<and> \<not> dhas k (task_attempts c) \<and> k \<notin> rejections c
          then (c\<lparr>rejections := insert k (rejections c)\<rparr>, True)
          else (c, False)
      | None \<Rightarrow> (c, False))"

definition capacity_rejection :: "msg_kind \<Rightarrow> message \<Rightarrow> bool result" where
  "capacity_rejection m d =
     (if m \<noteq> Task_exception \<or> vget d ''capacity_rejection'' \<noteq> VBool True then Inr False
      else rbind (or_empty (vget d ''error'')) (\<lambda>e. Inr (vget e ''error_type'' = VStr ''resource_capacity_exceeded'')))"

text \<open>Whether the message is older than the known attempt, or repeats what is known of it.\<close>

definition outdated :: "msg_kind \<Rightarrow> message \<Rightarrow> identity \<Rightarrow> attempt_state \<Rightarrow> bool result" where
  "outdated m d i a =
     (if fst i < fst (at_identity a) \<or> (fst i = fst (at_identity a) \<and> i \<noteq> at_identity a) then Inr True
      else if i = at_identity a \<and> (at_phase a \<noteq> Attempt_running \<or> m = Start_task)
      then (if at_phase a \<noteq> Attempt_retrying then Inr True else rbind (capacity_rejection m d) (\<lambda>b. Inr (\<not> b)))
      else Inr False)"

definition next_phase :: "msg_kind \<Rightarrow> attempt_phase" where
  "next_phase m = (case m of Start_task \<Rightarrow> Attempt_running | Task_retry \<Rightarrow> Attempt_retrying | _ \<Rightarrow> Attempt_terminal)"

definition put_all :: "message \<Rightarrow> message \<Rightarrow> message" where
  "put_all new d = foldl (\<lambda>d (k, v). dput k v d) d new"

definition new_attempt :: "msg_kind \<Rightarrow> message \<Rightarrow> identity \<Rightarrow> attempt_state option \<Rightarrow> attempt_state result" where
  "new_attempt m d i cur =
     rbind (task_attempt_node d) (\<lambda>node.
     Inr \<lparr>at_identity = i, at_phase = next_phase m, at_event = m,
          at_node = put_all node (case cur of Some a \<Rightarrow> if at_identity a = i then at_node a else [] | None \<Rightarrow> []),
          at_error = (if m = Task_retry \<or> m = Task_exception then vgetd d ''error'' (vget d ''result'') else VNone)\<rparr>)"

definition accept_identified :: "msg_kind \<Rightarrow> message \<Rightarrow> task_key \<Rightarrow> identity \<Rightarrow> 'r core \<Rightarrow> ('r core \<times> bool) result" where
  "accept_identified m d k i c =
     (let cur = map_of (task_attempts c) k in
      if (case cur of Some a \<Rightarrow> at_phase a = Attempt_terminal | None \<Rightarrow> False) then Inr (c, False)
      else
        rbind (if m = Finish_task then validate_manifest d else Inr []) (\<lambda>_.
        rbind (case cur of None \<Rightarrow> Inr False | Some a \<Rightarrow> outdated m d i a) (\<lambda>old.
        if old then Inr (c, False)
        else rbind (new_attempt m d i cur) (\<lambda>a. Inr (c\<lparr>task_attempts := dput k a (task_attempts c)\<rparr>, True)))))"

definition accept_attempt :: "msg_kind \<Rightarrow> message \<Rightarrow> 'r core \<Rightarrow> ('r core \<times> bool) result" where
  "accept_attempt m d c =
     (if is_rejection m d then Inr (accept_rejection d c)
      else if \<not> hashable_key d then Inl (TypeError ''unhashable type'')
      else if (case task_key_of d of Some k \<Rightarrow> k \<in> rejections c | None \<Rightarrow> False) then Inr (c, False)
      else (case task_attempt_identity d of
          None \<Rightarrow> Inr (c, False)
        | Some (k, i) \<Rightarrow> accept_identified m d k i c))"

section \<open>Publishing a manifest\<close>

definition publish_manifest :: "message \<Rightarrow> 'r core \<Rightarrow> message result" where
  "publish_manifest d c =
     rbind (validate_manifest d) (\<lambda>m.
     if m = [] then Inr []
     else (case task_attempt_identity d of
         None \<Rightarrow> Inl (ArtifactError ''Cannot publish a manifest without a task attempt identity'')
       | Some (k, i) \<Rightarrow>
           (case map_of (task_attempts c) k of
              None \<Rightarrow> Inl (ArtifactError ''Cannot publish a manifest from an unaccepted task attempt'')
            | Some a \<Rightarrow>
                if at_identity a \<noteq> i \<or> at_phase a \<noteq> Attempt_terminal \<or> at_event a \<noteq> Finish_task
                then Inl (ArtifactError ''Cannot publish a manifest from an unaccepted task attempt'')
                else
                  (let t = vor (vget d ''finished_at'') (vget m ''created_time'');
                       p = dput ''published'' (VBool True) m
                   in Inr (if t = VNone then p else dput ''published_time'' t p)))))"

section \<open>Transactions\<close>

record 'r transaction =
  tx_key :: "task_key option"
  tx_attempt :: "attempt_state option"
  tx_rejected :: bool
  tx_run :: "(string \<times> 'r) option"
  tx_data :: message
  tx_committed :: bool

definition run_named :: "message \<Rightarrow> 'r core \<Rightarrow> (string \<times> 'r) option" where
  "run_named d c = (case vget d ''workflow_id'' of VStr r \<Rightarrow> map_option (Pair r) (map_of (live_runs c) r) | _ \<Rightarrow> None)"

definition begin_transaction :: "message \<Rightarrow> 'r core \<Rightarrow> 'r transaction result" where
  "begin_transaction d c =
     (if \<not> hashable_key d then Inl (TypeError ''unhashable type'')
      else Inr \<lparr>tx_key = task_key_of d,
                tx_attempt = (case task_key_of d of Some k \<Rightarrow> map_of (task_attempts c) k | None \<Rightarrow> None),
                tx_rejected = (case task_key_of d of Some k \<Rightarrow> k \<in> rejections c | None \<Rightarrow> False),
                tx_run = run_named d c, tx_data = d, tx_committed = False\<rparr>)"

definition commit_transaction :: "'r transaction \<Rightarrow> 'r transaction" where
  "commit_transaction tx = tx\<lparr>tx_committed := True\<rparr>"

definition restore_key :: "'r transaction \<Rightarrow> 'r core \<Rightarrow> 'r core" where
  "restore_key tx c =
     (case tx_key tx of
        None \<Rightarrow> c
      | Some k \<Rightarrow>
          c\<lparr>task_attempts := (case tx_attempt tx of Some a \<Rightarrow> dput k a (task_attempts c) | None \<Rightarrow> ddel k (task_attempts c)),
            rejections := (if tx_rejected tx then insert k (rejections c) else rejections c - {k})\<rparr>)"

definition restore_run :: "'r transaction \<Rightarrow> 'r core \<Rightarrow> 'r core" where
  "restore_run tx c =
     (case tx_run tx of
        None \<Rightarrow> c
      | Some (r, x) \<Rightarrow> if dhas r (live_runs c) then c\<lparr>live_runs := dput r x (live_runs c)\<rparr> else c)"

definition rollback_transaction :: "'r transaction \<Rightarrow> 'r core \<times> message \<Rightarrow> 'r core \<times> message" where
  "rollback_transaction tx cd =
     (if tx_committed tx then cd else (restore_run tx (restore_key tx (fst cd)), tx_data tx))"


section \<open>Rolling back is exact\<close>

lemma dput_restore: "map_of d k = Some v \<Longrightarrow> dput k v (dput k w d) = d"
  unfolding dput_def by (induction d) auto

lemma dput_again: "map_of d k = Some v \<Longrightarrow> dput k v d = d"
  unfolding dput_def by (induction d) auto

text \<open>What handling a message may change: the entries of its task and the state of its run.\<close>

definition touches_only :: "message \<Rightarrow> 'r core \<Rightarrow> 'r core \<Rightarrow> bool" where
  "touches_only d c c' =
     ((task_attempts c' = task_attempts c \<or> (\<exists>k a. task_key_of d = Some k \<and> task_attempts c' = dput k a (task_attempts c))) \<and>
      (rejections c' = rejections c \<or> (\<exists>k. task_key_of d = Some k \<and> rejections c' = insert k (rejections c))) \<and>
      (live_runs c' = live_runs c \<or>
        (\<exists>r x y. vget d ''workflow_id'' = VStr r \<and> map_of (live_runs c) r = Some y \<and> live_runs c' = dput r x (live_runs c))))"

lemma touches_only_refl: "touches_only d c c"
  by (simp add: touches_only_def)

lemma touches_only_attempt: "task_key_of d = Some k \<Longrightarrow> touches_only d c (c\<lparr>task_attempts := dput k a (task_attempts c)\<rparr>)"
  by (auto simp: touches_only_def)

lemma identity_key: "task_attempt_identity d = Some (k, i) \<Longrightarrow> task_key_of d = Some k"
  by (auto simp: task_attempt_identity_def split: option.splits pyval.splits if_splits)

lemma accept_identified_True:
  assumes "accept_identified m d k i c = Inr (c', True)"
  obtains a where "new_attempt m d i (map_of (task_attempts c) k) = Inr a" "c' = c\<lparr>task_attempts := dput k a (task_attempts c)\<rparr>"
    "\<And>b. map_of (task_attempts c) k = Some b \<Longrightarrow> at_phase b \<noteq> Attempt_terminal \<and> outdated m d i b = Inr False"
    "m = Finish_task \<Longrightarrow> \<exists>x. validate_manifest d = Inr x"
  using assms by (auto simp: accept_identified_def Let_def split: if_splits option.splits)

lemma accept_identified_False: "accept_identified m d k i c = Inr (c', False) \<Longrightarrow> c' = c"
  by (auto simp: accept_identified_def Let_def split: if_splits)

lemma accept_attempt_touches:
  assumes "accept_attempt m d c = Inr (c', b)"
  shows "touches_only d c c'"
proof (cases "is_rejection m d")
  case True
  then show ?thesis using assms
    by (auto simp: accept_attempt_def accept_rejection_def touches_only_def split: option.splits if_splits)
next
  case False
  note nr = False
  show ?thesis
  proof (cases "task_attempt_identity d")
    case None
    then show ?thesis using assms nr by (auto simp: accept_attempt_def touches_only_refl split: option.splits if_splits)
  next
    case (Some ki)
    obtain k i where ki: "ki = (k, i)" by (cases ki)
    have key: "task_key_of d = Some k" using Some ki identity_key by simp
    from assms consider "c' = c" | "accept_identified m d k i c = Inr (c', b)"
      using nr Some ki by (auto simp: accept_attempt_def split: option.splits if_splits)
    then show ?thesis
    proof cases
      case 2
      then show ?thesis
        using touches_only_refl [of d c] touches_only_attempt [OF key] accept_identified_False [of m d k i c c']
        by (cases b) (auto elim!: accept_identified_True)
    qed (simp add: touches_only_refl)
  qed
qed

lemma touches_only_run:
  assumes "touches_only d c c'" and "vget d ''workflow_id'' = VStr r" and "map_of (live_runs c') r = Some y" and "live_runs c' = live_runs c"
  shows "touches_only d c (c'\<lparr>live_runs := dput r x (live_runs c')\<rparr>)"
  using assms by (auto simp: touches_only_def)

lemma rollback_exact:
  assumes "begin_transaction d c = Inr tx" and "touches_only d c c'"
  shows "rollback_transaction tx (c', d') = (c, d)"
proof -
  have tx: "tx_key tx = task_key_of d" "tx_run tx = run_named d c" "tx_data tx = d" "\<not> tx_committed tx"
    "\<And>k. task_key_of d = Some k \<Longrightarrow> tx_attempt tx = map_of (task_attempts c) k \<and> tx_rejected tx = (k \<in> rejections c)"
    using assms(1) by (auto simp: begin_transaction_def split: if_splits)
  have a: "task_attempts (restore_key tx c') = task_attempts c"
    using assms(2) tx(1) tx(5)
    by (auto simp: touches_only_def restore_key_def dput_restore dput_again ddel_dput_new ddel_absent dhas_iff split: option.splits)
  have r: "rejections (restore_key tx c') = rejections c"
    using assms(2) tx(1) tx(5) by (auto simp: touches_only_def restore_key_def split: option.splits)
  have l: "live_runs (restore_key tx c') = live_runs c'" by (simp add: restore_key_def split: option.splits)
  have "live_runs (restore_run tx (restore_key tx c')) = live_runs c"
    using assms(2) tx(2) l
    by (auto simp: touches_only_def restore_run_def run_named_def dput_restore dput_again dhas_iff split: option.splits pyval.splits)
  moreover have "task_attempts (restore_run tx (restore_key tx c')) = task_attempts c" "rejections (restore_run tx (restore_key tx c')) = rejections c"
    using a r by (simp_all add: restore_run_def split: option.splits)
  moreover have "core.more (restore_run tx (restore_key tx c')) = core.more c" by simp
  ultimately have "restore_run tx (restore_key tx c') = c" by (intro core.equality)
  then show ?thesis using tx(3,4) by (simp add: rollback_transaction_def)
qed

text \<open>
  Undoing is exact: whatever a handler did to the attempt table, the refused tasks and the run of a message, rolling
  back its transaction restores the core, and the message, as they were before.
\<close>

theorem rollback_restores:
  assumes "begin_transaction d c = Inr tx" and "touches_only d c c'"
  shows "rollback_transaction tx (c', d') = (c, d)"
  by (rule rollback_exact [OF assms])


section \<open>Deliveries\<close>

text \<open>
  A message arrives, and recording it works or fails. \<open>h\<close> is what the message does to its run. The log holds what was
  accepted and recorded.
\<close>

datatype delivery = Delivery msg_kind message bool

datatype entry = Attempt_entry task_key msg_kind identity | Rejection_entry task_key

definition update_run :: "(msg_kind \<Rightarrow> message \<Rightarrow> 'r \<Rightarrow> 'r) \<Rightarrow> msg_kind \<Rightarrow> message \<Rightarrow> 'r core \<Rightarrow> 'r core" where
  "update_run h m d c =
     (case run_named d c of None \<Rightarrow> c | Some (r, x) \<Rightarrow> c\<lparr>live_runs := dput r (h m d x) (live_runs c)\<rparr>)"

fun deliver :: "(msg_kind \<Rightarrow> message \<Rightarrow> 'r \<Rightarrow> 'r) \<Rightarrow> delivery \<Rightarrow> 'r core \<Rightarrow> 'r core \<times> bool" where
  "deliver h (Delivery m d ok) c =
     (case begin_transaction d c of
        Inl _ \<Rightarrow> (c, False)
      | Inr tx \<Rightarrow>
          (case accept_attempt m d c of
             Inl _ \<Rightarrow> (fst (rollback_transaction tx (c, d)), False)
           | Inr (c1, False) \<Rightarrow> (c1, False)
           | Inr (c1, True) \<Rightarrow>
               if ok then (update_run h m d c1, True)
               else (fst (rollback_transaction tx (update_run h m d c1, d)), False)))"

definition entry_of :: "msg_kind \<Rightarrow> message \<Rightarrow> entry list" where
  "entry_of m d =
     (if is_rejection m d then (case task_key_of d of Some k \<Rightarrow> [Rejection_entry k] | None \<Rightarrow> [])
      else (case task_attempt_identity d of Some (k, i) \<Rightarrow> [Attempt_entry k m i] | None \<Rightarrow> []))"

fun log_delivery :: "(msg_kind \<Rightarrow> message \<Rightarrow> 'r \<Rightarrow> 'r) \<Rightarrow> 'r core \<times> entry list \<Rightarrow> delivery \<Rightarrow> 'r core \<times> entry list" where
  "log_delivery h (c, es) (Delivery m d ok) =
     (case deliver h (Delivery m d ok) c of (c', b) \<Rightarrow> (c', if b then es @ entry_of m d else es))"

definition no_core :: "(string, 'r) dict \<Rightarrow> 'r core" where
  "no_core rs = \<lparr>task_attempts = [], rejections = {}, live_runs = rs\<rparr>"

definition deliveries :: "(msg_kind \<Rightarrow> message \<Rightarrow> 'r \<Rightarrow> 'r) \<Rightarrow> (string, 'r) dict \<Rightarrow> delivery list \<Rightarrow> 'r core \<times> entry list" where
  "deliveries h rs ds = foldl (log_delivery h) (no_core rs, []) ds"

lemma update_run_fields [simp]:
  "task_attempts (update_run h m d c) = task_attempts c" "rejections (update_run h m d c) = rejections c"
  by (simp_all add: update_run_def split: option.split prod.split)

lemma update_run_touches: "touches_only d c c1 \<Longrightarrow> live_runs c1 = live_runs c \<Longrightarrow> touches_only d c (update_run h m d c1)"
  by (auto simp: update_run_def run_named_def touches_only_def split: option.splits pyval.splits)

lemma accept_attempt_runs: "accept_attempt m d c = Inr (c', b) \<Longrightarrow> live_runs c' = live_runs c"
  by (auto simp: accept_attempt_def accept_rejection_def accept_identified_def Let_def split: option.splits if_splits)

text \<open>A delivery that is not recorded leaves the core as it was.\<close>

lemma accept_attempt_False: "accept_attempt m d c = Inr (c', False) \<Longrightarrow> c' = c"
  by (auto simp: accept_attempt_def accept_rejection_def dest: accept_identified_False split: option.splits if_splits)

lemma deliver_False: "deliver h (Delivery m d ok) c = (c', False) \<Longrightarrow> c' = c"
proof -
  assume a: "deliver h (Delivery m d ok) c = (c', False)"
  show "c' = c"
  proof (cases "begin_transaction d c")
    case (Inl e)
    then show ?thesis using a by simp
  next
    case (Inr tx)
    note tx = Inr
    show ?thesis
    proof (cases "accept_attempt m d c")
      case (Inl e)
      then show ?thesis using a tx rollback_exact [OF tx touches_only_refl, of d] by simp
    next
      case (Inr r)
      obtain c1 b where r: "r = (c1, b)" by (cases r)
      have t: "touches_only d c c1" "live_runs c1 = live_runs c"
        using accept_attempt_touches accept_attempt_runs Inr r by blast+
      show ?thesis
        using a tx Inr r rollback_exact [OF tx update_run_touches [OF t, of h m], of d] accept_attempt_False [of m d c c1]
        by (cases b; cases ok) auto
    qed
  qed
qed

lemma deliver_True: "deliver h (Delivery m d ok) c = (c', True) \<Longrightarrow> \<exists>c1. accept_attempt m d c = Inr (c1, True) \<and> c' = update_run h m d c1"
  by (cases ok) (auto split: sum.splits prod.splits bool.splits)

declare deliver.simps [simp del]
declare log_delivery.simps [simp del]

section \<open>The history of a task\<close>

definition history :: "task_key \<Rightarrow> entry list \<Rightarrow> (msg_kind \<times> identity) list" where
  "history k es = List.map_filter (\<lambda>e. case e of Attempt_entry k' m i \<Rightarrow> if k' = k then Some (m, i) else None | _ \<Rightarrow> None) es"

definition rejected_in :: "task_key \<Rightarrow> entry list \<Rightarrow> entry list" where
  "rejected_in k es = filter (\<lambda>e. e = Rejection_entry k) es"

text \<open>
  What may follow an accepted message of a task: anything of a later attempt, or of the same attempt its end after its
  start, and the report that the retry does not fit the cluster after the retry was announced; nothing after an end.
\<close>

definition may_follow :: "msg_kind \<times> identity \<Rightarrow> msg_kind \<times> identity \<Rightarrow> bool" where
  "may_follow x y =
     (next_phase (fst x) \<noteq> Attempt_terminal \<and>
      (fst (snd x) < fst (snd y) \<or>
       snd x = snd y \<and> (fst x = Start_task \<and> fst y \<noteq> Start_task \<or> fst x = Task_retry \<and> fst y = Task_exception)))"

lemma history_append [simp]: "history k (xs @ ys) = history k xs @ history k ys"
  unfolding history_def by (induction xs) (simp_all add: List.map_filter_simps split: option.split)

lemma history_simps [simp]:
  "history k [] = []" "history k [Attempt_entry k' m i] = (if k' = k then [(m, i)] else [])" "history k [Rejection_entry k'] = []"
  by (simp_all add: history_def List.map_filter_simps)

lemma rejected_in_simps [simp]:
  "rejected_in k [] = []" "rejected_in k [Attempt_entry k' m i] = []"
  "rejected_in k [Rejection_entry k'] = (if k' = k then [Rejection_entry k] else [])"
  "rejected_in k (xs @ ys) = rejected_in k xs @ rejected_in k ys"
  by (simp_all add: rejected_in_def)

text \<open>The attempt table knows the last accepted message of every task.\<close>

definition knows :: "'r core \<times> entry list \<Rightarrow> task_key \<Rightarrow> bool" where
  "knows cl k =
     (case cl of (c, es) \<Rightarrow>
        successively may_follow (history k es) \<and>
        (case map_of (task_attempts c) k of
           None \<Rightarrow> history k es = []
         | Some a \<Rightarrow> history k es \<noteq> [] \<and> last (history k es) = (at_event a, at_identity a) \<and> at_phase a = next_phase (at_event a)) \<and>
        (if k \<in> rejections c then history k es = [] \<and> length (rejected_in k es) = 1 else rejected_in k es = []))"

lemma outdated_follow:
  assumes "outdated m d i a = Inr False" and "at_phase a = next_phase (at_event a)" and "at_phase a \<noteq> Attempt_terminal"
  shows "may_follow (at_event a, at_identity a) (m, i)"
proof -
  have c: "capacity_rejection m d = Inr b \<Longrightarrow> b \<Longrightarrow> m = Task_exception" for b
    by (auto simp: capacity_rejection_def split: if_splits)
  from assms c show ?thesis
    by (cases "at_event a") (auto simp: outdated_def may_follow_def next_phase_def split: if_splits msg_kind.splits)
qed

lemma knows_step:
  assumes "knows (c, es) k"
  shows "knows (log_delivery h (c, es) (Delivery m d ok)) k"
proof -
  obtain c' b where dl: "deliver h (Delivery m d ok) c = (c', b)" by fastforce
  show ?thesis
  proof (cases b)
    case False
    then have "c' = c" using deliver_False [of h m d ok c c'] dl by simp
    then show ?thesis using assms False dl by (simp add: log_delivery.simps)
  next
    case True
    then obtain c1 where c1: "accept_attempt m d c = Inr (c1, True)" "c' = update_run h m d c1"
      using deliver_True [of h m d ok c c'] dl True by auto
    have out: "log_delivery h (c, es) (Delivery m d ok) = (c', es @ entry_of m d)" using dl True by (simp add: log_delivery.simps)
    show ?thesis
    proof (cases "is_rejection m d")
      case rj: True
      obtain k' where k': "task_key_of d = Some k'" "\<not> dhas k' (task_attempts c)" "k' \<notin> rejections c"
          "c1 = c\<lparr>rejections := insert k' (rejections c)\<rparr>"
        using c1(1) rj by (auto simp: accept_attempt_def accept_rejection_def split: option.splits if_splits)
      show ?thesis using assms k' by (auto simp: out c1(2) entry_of_def rj knows_def dhas_iff split: option.splits)
    next
      case nr: False
      obtain k' i where ki: "task_attempt_identity d = Some (k', i)" and nk: "k' \<notin> rejections c"
          and ai: "accept_identified m d k' i c = Inr (c1, True)"
        using c1(1) nr by (auto simp: accept_attempt_def dest: identity_key split: option.splits if_splits)
      obtain a where a: "new_attempt m d i (map_of (task_attempts c) k') = Inr a"
          "c1 = c\<lparr>task_attempts := dput k' a (task_attempts c)\<rparr>"
          "\<And>b. map_of (task_attempts c) k' = Some b \<Longrightarrow> at_phase b \<noteq> Attempt_terminal \<and> outdated m d i b = Inr False"
        using accept_identified_True [OF ai] by metis
      have af: "at_identity a = i" "at_event a = m" "at_phase a = next_phase m" using a(1) by (auto simp: new_attempt_def)
      have en: "entry_of m d = [Attempt_entry k' m i]" by (simp add: entry_of_def nr ki)
      show ?thesis
      proof (cases "k' = k")
        case False
        then show ?thesis using assms by (simp add: out c1(2) en a(2) knows_def split: option.splits)
      next
        case True
        have "history k es = [] \<or> may_follow (last (history k es)) (m, i)"
        proof (cases "map_of (task_attempts c) k")
          case None
          then show ?thesis using assms by (simp add: knows_def)
        next
          case (Some b)
          then show ?thesis using assms a(3) [of b] outdated_follow [of m d i b] True by (simp add: knows_def)
        qed
        then show ?thesis using assms nk True
          by (auto simp: out c1(2) en a(2) af knows_def successively_append_iff split: option.splits)
      qed
    qed
  qed
qed

lemma deliveries_know: "knows (deliveries h (rs :: (string, 'a) dict) ds) k"
proof -
  have "knows (foldl (log_delivery h) cl ds) k" if "knows cl k" for cl :: "'a core \<times> entry list"
    using that
  proof (induction ds arbitrary: cl)
    case (Cons x ds)
    obtain c es m d ok where "cl = (c, es)" "x = Delivery m d ok" by (metis delivery.exhaust prod.exhaust)
    then show ?case using Cons.IH [OF knows_step [of c es k h m d ok]] Cons.prems by simp
  qed simp
  moreover have "knows (no_core rs :: 'a core, []) k" by (simp add: knows_def no_core_def)
  ultimately show ?thesis unfolding deliveries_def .
qed


lemma history_in_order: "successively may_follow (history k (snd (deliveries h rs ds)))"
  using deliveries_know [of h rs ds k] by (simp add: knows_def case_prod_beta)

text \<open>
  C15: However messages are delayed, repeated, reordered or fail to be recorded, the accepted ones of a task are in
  order: attempts only move forward, an attempt is started once and ends once, and nothing follows the end.
\<close>

theorem attempts_in_order: "successively may_follow (history k (snd (deliveries h rs ds)))"
  by (rule history_in_order)

definition is_final :: "msg_kind \<times> identity \<Rightarrow> bool" where
  "is_final x = (next_phase (fst x) = Attempt_terminal)"

lemma successively_one_final: "successively may_follow xs \<Longrightarrow> length (filter is_final xs) \<le> 1"
proof (induction xs rule: induct_list012)
  case (3 x y zs)
  then have "\<not> is_final x" by (simp add: may_follow_def is_final_def)
  then show ?case using 3 by simp
qed simp_all

text \<open>
  A task has at most one outcome: among all messages of a task that are ever accepted, from whatever attempt, at
  most one reports its end, and a task refused before its dispatch has no other.
\<close>

theorem one_outcome:
  "length (filter is_final (history k (snd (deliveries h rs ds)))) + length (rejected_in k (snd (deliveries h rs ds))) \<le> 1"
proof -
  note kn = deliveries_know [of h rs ds k]
  have "length (filter is_final (history k (snd (deliveries h rs ds)))) \<le> 1"
    by (rule successively_one_final [OF history_in_order])
  then show ?thesis using kn by (auto simp: knows_def case_prod_beta split: if_splits)
qed

text \<open>
  C16: Only results that count are published: a manifest is published only for the attempt whose end was accepted as
  a success, and it names that run, task and attempt; a failed, refused, late or superseded attempt publishes nothing.
\<close>

theorem published_by_accepted_finish:
  assumes "publish_manifest d (fst (deliveries h rs ds)) = Inr p" and "p \<noteq> []"
  shows "\<exists>k i. task_attempt_identity d = Some (k, i) \<and> last (history k (snd (deliveries h rs ds))) = (Finish_task, i) \<and>
    vget p ''published'' = VBool True \<and> py_eq (vget p ''run_id'') (VStr (fst k)) \<and> py_eq (vget p ''task_id'') (VStr (snd k)) \<and>
    py_eq (vget p ''attempt'') (VInt (fst i))"
proof -
  let ?c = "fst (deliveries h rs ds)"
  obtain m where m: "validate_manifest d = Inr m" "m \<noteq> []" using assms by (auto simp: publish_manifest_def split: if_splits)
  then obtain x where x: "task_attempt_identity d = Some x"
    using assms by (cases "task_attempt_identity d") (auto simp: publish_manifest_def)
  obtain k i where ki: "task_attempt_identity d = Some (k, i)" using x by (cases x) simp
  obtain a where ka: "map_of (task_attempts ?c) k = Some a"
    using assms m ki by (cases "map_of (task_attempts ?c) k") (auto simp: publish_manifest_def)
  let ?t = "vor (vget d ''finished_at'') (vget m ''created_time'')"
  have a: "map_of (task_attempts ?c) k = Some a" "at_identity a = i" "at_phase a = Attempt_terminal" "at_event a = Finish_task"
    and p: "p = (if ?t = VNone then dput ''published'' (VBool True) m else dput ''published_time'' ?t (dput ''published'' (VBool True) m))"
    using assms m ki ka by (simp_all add: publish_manifest_def Let_def split: if_splits)
  have "last (history k (snd (deliveries h rs ds))) = (Finish_task, i)"
    using deliveries_know [of h rs ds k] a by (simp add: knows_def case_prod_beta)
  moreover have "py_eq (vget m ''run_id'') (vget d ''workflow_id'')" "py_eq (vget m ''task_id'') (vget d ''task_id'')"
    "py_eq (vget m ''attempt'') (vget d ''attempt'')"
    using m by (auto simp: validate_manifest_def expected_fields_def split: if_splits pyval.splits)
  moreover have "vget d ''workflow_id'' = VStr (fst k)" "vget d ''task_id'' = VStr (snd k)" "vget d ''attempt'' = VInt (fst i)"
    using ki by (auto simp: task_attempt_identity_def task_key_of_def text_field_def split: option.splits pyval.splits if_splits)
  ultimately show ?thesis using ki p by auto
qed

section \<open>A sample history\<close>

definition sample_message :: "int \<Rightarrow> string \<Rightarrow> message" where
  "sample_message n x =
     [(''workflow_id'', VStr ''r''), (''task_id'', VStr ''t''), (''attempt'', VInt n), (''dispatch_id'', VStr x), (''lease_id'', VStr ''l''),
      (''file_manifest'', VDict [(''run_id'', VStr ''r''), (''task_id'', VStr ''t''), (''attempt'', VInt n), (''dispatch_id'', VStr x),
         (''lease_id'', VStr ''l''), (''published'', VBool False)])]"

definition sample_deliveries :: "delivery list" where
  "sample_deliveries =
     [Delivery Start_task (sample_message 1 ''a'') True, Delivery Task_retry (sample_message 1 ''a'') True,
      Delivery Start_task (sample_message 2 ''b'') True, Delivery Finish_task (sample_message 1 ''a'') True,
      Delivery Finish_task (sample_message 2 ''b'') False, Delivery Finish_task (sample_message 2 ''b'') True,
      Delivery Finish_task (sample_message 2 ''b'') True]"

theorem rollback_restores_witness:
  "rollback_transaction (projr (begin_transaction (sample_message 1 ''a'') (no_core [(''r'', 0 :: nat)])))
     (fst (projr (accept_attempt Start_task (sample_message 1 ''a'') (no_core [(''r'', 0)]))), []) = (no_core [(''r'', 0)], sample_message 1 ''a'')"
proof -
  let ?c = "no_core [(''r'', 0 :: nat)]" and ?d = "sample_message 1 ''a''"
  have b: "begin_transaction ?d ?c = Inr (projr (begin_transaction ?d ?c))" by code_simp
  have "accept_attempt Start_task ?d ?c = Inr (projr (accept_attempt Start_task ?d ?c))" by code_simp
  then have "accept_attempt Start_task ?d ?c = Inr (fst (projr (accept_attempt Start_task ?d ?c)), snd (projr (accept_attempt Start_task ?d ?c)))"
    by simp
  from rollback_restores [OF b accept_attempt_touches [OF this]] show ?thesis .
qed

theorem published_by_accepted_finish_witness:
  "last (history (''r'', ''t'') (snd (deliveries (\<lambda>_ _ x. x) [(''r'', 0 :: nat)] sample_deliveries))) = (Finish_task, 2, ''b'', ''l'')"
proof -
  let ?o = "publish_manifest (sample_message 2 ''b'') (fst (deliveries (\<lambda>_ _ x. x) [(''r'', 0 :: nat)] sample_deliveries))"
  have p: "?o = Inr (projr ?o)" "projr ?o \<noteq> []" by code_simp+
  have i: "task_attempt_identity (sample_message 2 ''b'') = Some ((''r'', ''t''), 2, ''b'', ''l'')" by code_simp
  from published_by_accepted_finish [OF p] i show ?thesis by force
qed

end
