(* ===== verification/Run_Store.thy ===== *)
theory Run_Store
  imports Event_Log Runtime_Estimator
begin

text \<open>
  The files of dynamic runs (\<open>maze/core/workflow/dynamic_store.py\<close>): one append-only log of events per run, its
  copy in the run's workspace, and the snapshot; how an event is appended once although every write may fail
  half-way, and how runs are recovered after the process was killed.

  A log file is the list of its events, whether its last line lacks the line feed, and whether some line is no
  JSON (a line that was cut off). JSON text is the value it denotes; \<open>json.dumps\<close> with \<open>sort_keys\<close> fixes the order
  of the keys, so texts are equal when the sorted values are. \<open>to_json_safe\<close> is the identity on JSON values.
\<close>

section \<open>Files\<close>

datatype log_path = Canonical string | Mirror string string

record log_file =
  lf_lines :: "event list"
  lf_open :: bool
  lf_damaged :: bool

record log_state =
  st_events :: "(int, event) dict"
  st_last :: int
  st_separator :: bool

record run_store =
  log_files :: "(log_path, log_file) dict"
  log_states :: "(log_path, log_state) dict"
  run_files :: "(string, event) dict"

definition no_file :: log_file where
  "no_file = \<lparr>lf_lines = [], lf_open = False, lf_damaged = False\<rparr>"

definition no_store :: run_store where
  "no_store = \<lparr>log_files = [], log_states = [], run_files = []\<rparr>"

definition file_of :: "log_path \<Rightarrow> run_store \<Rightarrow> log_file" where
  "file_of p s = dgetd (log_files s) p no_file"

definition forget :: "log_path \<Rightarrow> run_store \<Rightarrow> run_store" where
  "forget p s = s\<lparr>log_states := ddel p (log_states s)\<rparr>"

text \<open>
  What one write leaves behind: everything, nothing, the separating line feed, the line without its end, a part
  of the line, or everything although flushing, \<open>fsync\<close> or \<open>chmod\<close> then failed.
\<close>

datatype write_outcome = Written | Not_written | Separator_only | No_newline | Cut | Unsynced

definition write_line :: "write_outcome \<Rightarrow> bool \<Rightarrow> event \<Rightarrow> log_file \<Rightarrow> log_file" where
  "write_line w sep e f =
     (let glued = lf_open f \<and> \<not> sep in
      case w of
        Not_written \<Rightarrow> f
      | Separator_only \<Rightarrow> if sep then f\<lparr>lf_open := False\<rparr> else f
      | Cut \<Rightarrow> f\<lparr>lf_open := True, lf_damaged := True\<rparr>
      | No_newline \<Rightarrow> \<lparr>lf_lines = lf_lines f @ [e], lf_open = True, lf_damaged = (lf_damaged f \<or> glued)\<rparr>
      | _ \<Rightarrow> \<lparr>lf_lines = lf_lines f @ [e], lf_open = False, lf_damaged = (lf_damaged f \<or> glued)\<rparr>)"

section \<open>Events in text\<close>

text \<open>The value read back from the line of an event.\<close>

definition stored :: "event \<Rightarrow> event" where
  "stored e = (case stable_normalize (VDict e) of VDict d \<Rightarrow> d | _ \<Rightarrow> [])"

definition event_payload :: "bool \<Rightarrow> event \<Rightarrow> event" where
  "event_payload ignore_timestamp e = stored (if ignore_timestamp then ddel ''timestamp'' e else e)"

definition with_schema :: "event \<Rightarrow> event" where
  "with_schema e = foldl (\<lambda>d (k, v). dput k v d) [(''schema_version'', VInt 1)] e"

definition event_sequence :: "event \<Rightarrow> int result" where
  "event_sequence e =
     (case vget e ''seq'' of
        VInt n \<Rightarrow> if n > 0 then Inr n else Inl (ValueError ''Dynamic event seq must be a positive integer'')
      | _ \<Rightarrow> Inl (ValueError ''Dynamic event seq must be a positive integer''))"

section \<open>Reading a log\<close>

definition read_line :: "event list \<times> int set \<times> int option \<Rightarrow> event \<Rightarrow> (event list \<times> int set \<times> int option) result" where
  "read_line a e =
     (case a of (evs, seen, prev) \<Rightarrow>
        rbind (event_sequence e) (\<lambda>n.
          if n \<in> seen then Inl (ValueError ''Duplicate dynamic event sequence'')
          else if (case prev of None \<Rightarrow> False | Some m \<Rightarrow> n \<le> m) then Inl (ValueError ''Non-monotonic dynamic event sequence'')
          else Inr (evs @ [e], insert n seen, Some n)))"

definition load_events_path :: "log_file \<Rightarrow> event list result" where
  "load_events_path f =
     (if lf_damaged f then Inl (ValueError ''Expecting value'')
      else rbind (rfold read_line ([], {}, None) (lf_lines f)) (\<lambda>(evs, _, _). Inr evs))"

definition sequence_or_0 :: "event \<Rightarrow> int" where
  "sequence_or_0 e = (case event_sequence e of Inr n \<Rightarrow> n | Inl _ \<Rightarrow> 0)"

definition state_of :: "log_file \<Rightarrow> event list \<Rightarrow> log_state" where
  "state_of f evs =
     \<lparr>st_events = map (\<lambda>e. (sequence_or_0 e, e)) evs,
      st_last = (if evs = [] then 0 else sequence_or_0 (last evs)), st_separator = lf_open f\<rparr>"

definition event_log_state :: "log_path \<Rightarrow> run_store \<Rightarrow> run_store \<times> log_state result" where
  "event_log_state p s =
     (case map_of (log_states s) p of
        Some st \<Rightarrow> (s, Inr st)
      | None \<Rightarrow>
          (case load_events_path (file_of p s) of
             Inl e \<Rightarrow> (forget p s, Inl e)
           | Inr evs \<Rightarrow> (s\<lparr>log_states := dput p (state_of (file_of p s) evs) (log_states s)\<rparr>, Inr (state_of (file_of p s) evs))))"

section \<open>Appending\<close>

text \<open>The event with the number of \<open>e\<close> that is already there, or \<open>None\<close> when \<open>e\<close> comes next.\<close>

definition event_for_append :: "bool \<Rightarrow> log_path \<Rightarrow> event \<Rightarrow> run_store \<Rightarrow> run_store \<times> (log_state \<times> event option) result" where
  "event_for_append ignore_timestamp p e s =
     (case event_log_state p s of
        (s1, Inl x) \<Rightarrow> (s1, Inl x)
      | (s1, Inr st) \<Rightarrow>
          (s1, rbind (event_sequence e) (\<lambda>n.
             case map_of (st_events st) n of
               Some old \<Rightarrow>
                 if event_payload ignore_timestamp old = event_payload ignore_timestamp e then Inr (st, Some old)
                 else Inl (if ignore_timestamp then RuntimeError ''Persisted event sequence conflict''
                           else ValueError ''Conflicting dynamic event sequence'')
             | None \<Rightarrow>
                 if n \<le> st_last st then Inl (ValueError ''Non-monotonic dynamic event sequence'') else Inr (st, None))))"

definition append_path ::
    "write_outcome \<Rightarrow> bool \<Rightarrow> bool \<Rightarrow> log_path \<Rightarrow> event \<Rightarrow> run_store \<Rightarrow> run_store \<times> event result" where
  "append_path w deduplicate ignore_timestamp p e s =
     (case event_for_append ignore_timestamp p e s of
        (s1, Inl x) \<Rightarrow> (forget p s1, Inl x)
      | (s1, Inr (st, Some old)) \<Rightarrow>
          if deduplicate then (s1, Inr old) else (forget p s1, Inl (ValueError ''Duplicate dynamic event sequence''))
      | (s1, Inr (st, None)) \<Rightarrow>
          let s2 = s1\<lparr>log_files := dput p (write_line w (st_separator st) (stored e) (file_of p s1)) (log_files s1)\<rparr> in
          if w = Written
          then (s2\<lparr>log_states := dput p
                    (st\<lparr>st_events := dput (sequence_or_0 (stored e)) (stored e) (st_events st),
                        st_last := sequence_or_0 (stored e), st_separator := False\<rparr>) (log_states s2)\<rparr>, Inr (stored e))
          else (forget p s2, Inl (OSError ''write'')))"

definition mirror_paths :: "string \<Rightarrow> string option \<Rightarrow> log_path list" where
  "mirror_paths run ws = (case ws of None \<Rightarrow> [] | Some w \<Rightarrow> [Mirror w run])"

text \<open>\<open>append_event\<close>: to the log and to its copy. The list holds the outcomes of the writes in order.\<close>

fun append_each :: "write_outcome list \<Rightarrow> bool \<Rightarrow> event \<Rightarrow> log_path list \<Rightarrow> run_store \<Rightarrow> run_store \<times> unit result" where
  "append_each ws once e [] s = (s, Inr ())"
| "append_each ws once e (p # ps) s =
     (case append_path (case ws of [] \<Rightarrow> Written | w # _ \<Rightarrow> w) once False p e s of
        (s1, Inl x) \<Rightarrow> (s1, Inl x)
      | (s1, Inr _) \<Rightarrow> append_each (tl ws) once e ps s1)"

definition store_append_event ::
    "write_outcome list \<Rightarrow> bool \<Rightarrow> string \<Rightarrow> string option \<Rightarrow> event \<Rightarrow> run_store \<Rightarrow> run_store \<times> unit result" where
  "store_append_event ws once run workspace e s =
     append_each ws once (with_schema e) (Canonical run # mirror_paths run workspace) s"

text \<open>
  \<open>append_event_once\<close>: an event that is in the log already, up to its timestamp, is not appended again; the copy
  receives the event as the log has it, and is read afresh when the log had the event before.
\<close>

definition append_event_once ::
    "write_outcome \<Rightarrow> write_outcome \<Rightarrow> string \<Rightarrow> string option \<Rightarrow> event \<Rightarrow> run_store \<Rightarrow> run_store \<times> unit result" where
  "append_event_once w w' run workspace e s =
     (let payload = with_schema e in
      case event_sequence payload of
        Inl x \<Rightarrow> (s, Inl x)
      | Inr n \<Rightarrow>
          (case event_log_state (Canonical run) s of
             (s1, Inl x) \<Rightarrow> (s1, Inl x)
           | (s1, Inr st) \<Rightarrow>
               (case append_path w True True (Canonical run) payload s1 of
                  (s2, Inl x) \<Rightarrow> (s2, Inl x)
                | (s2, Inr kept) \<Rightarrow>
                    (case workspace of
                       None \<Rightarrow> (s2, Inr ())
                     | Some ws \<Rightarrow>
                         let s3 = (if dhas n (st_events st) then forget (Mirror ws run) s2 else s2) in
                         (case append_path w' True False (Mirror ws run) kept s3 of
                            (s4, Inl x) \<Rightarrow> (s4, Inl x)
                          | (s4, Inr _) \<Rightarrow> (s4, Inr ()))))))"


section \<open>The logs as files\<close>

text \<open>What an append does to one file, without the cache of log states.\<close>

definition find_event :: "int \<Rightarrow> event list \<Rightarrow> event option" where
  "find_event n evs = map_of (map (\<lambda>e. (sequence_or_0 e, e)) evs) n"

definition last_sequence :: "event list \<Rightarrow> int" where
  "last_sequence evs = (if evs = [] then 0 else sequence_or_0 (last evs))"

definition append_file ::
    "write_outcome \<Rightarrow> bool \<Rightarrow> bool \<Rightarrow> event \<Rightarrow> log_file \<Rightarrow> log_file \<times> event result" where
  "append_file w deduplicate ignore_timestamp e f =
     (case load_events_path f of
        Inl x \<Rightarrow> (f, Inl x)
      | Inr evs \<Rightarrow>
          (case event_sequence e of
             Inl x \<Rightarrow> (f, Inl x)
           | Inr n \<Rightarrow>
               (case find_event n evs of
                  Some old \<Rightarrow>
                    (f, if event_payload ignore_timestamp old \<noteq> event_payload ignore_timestamp e
                        then Inl (if ignore_timestamp then RuntimeError ''Persisted event sequence conflict''
                                  else ValueError ''Conflicting dynamic event sequence'')
                        else if deduplicate then Inr old else Inl (ValueError ''Duplicate dynamic event sequence''))
                | None \<Rightarrow>
                    if n \<le> last_sequence evs then (f, Inl (ValueError ''Non-monotonic dynamic event sequence''))
                    else (write_line w (lf_open f) (stored e) f,
                          if w = Written then Inr (stored e) else Inl (OSError ''write'')))))"

text \<open>A log is valid when its events are numbered by rising positive numbers and are as text gives them back.\<close>

definition log_valid :: "event list \<Rightarrow> bool" where
  "log_valid evs =
     (list_all (\<lambda>e. stored e = e \<and> (\<exists>n. event_sequence e = Inr n)) evs \<and> sorted_wrt (<) (map sequence_or_0 evs))"

lemma log_validD:
  assumes "log_valid evs" and "e \<in> set evs"
  shows "event_sequence e = Inr (sequence_or_0 e)" "0 < sequence_or_0 e" "stored e = e"
  using assms unfolding log_valid_def
  by (auto simp: list_all_iff sequence_or_0_def event_sequence_def split: pyval.splits if_splits)

lemma log_valid_Nil [simp]: "log_valid []"
  by (simp add: log_valid_def)

lemma log_valid_snoc:
  "log_valid (evs @ [e]) \<longleftrightarrow>
     log_valid evs \<and> stored e = e \<and> event_sequence e = Inr (sequence_or_0 e) \<and> (\<forall>x \<in> set evs. sequence_or_0 x < sequence_or_0 e)"
  unfolding log_valid_def
  by (auto simp: list_all_iff sorted_wrt_append sequence_or_0_def split: sum.splits)

lemma last_sequence_max: "log_valid evs \<Longrightarrow> x \<in> set evs \<Longrightarrow> sequence_or_0 x \<le> last_sequence evs"
proof (induction evs rule: rev_induct)
  case (snoc e evs)
  then show ?case by (auto simp: log_valid_snoc last_sequence_def)
qed simp

lemma find_event_Some: "find_event n evs = Some e \<Longrightarrow> e \<in> set evs \<and> sequence_or_0 e = n"
  unfolding find_event_def by (auto dest!: map_of_SomeD)

lemma find_event_None: "find_event n evs = None \<longleftrightarrow> n \<notin> sequence_or_0 ` set evs"
  unfolding find_event_def by (force simp: map_of_eq_None_iff)

lemma find_event_in: "log_valid evs \<Longrightarrow> e \<in> set evs \<Longrightarrow> find_event (sequence_or_0 e) evs = Some e"
proof -
  assume v: "log_valid evs" and e: "e \<in> set evs"
  have "distinct (map sequence_or_0 evs)"
    using v unfolding log_valid_def by (metis strict_sorted_iff strict_sorted_equal sorted_wrt_map)
  then show ?thesis
    using e unfolding find_event_def
    by (intro map_of_is_SomeI) (auto simp: comp_def)
qed

definition read_up_to :: "event list \<Rightarrow> event list \<times> int set \<times> int option" where
  "read_up_to pre = (pre, sequence_or_0 ` set pre, if pre = [] then None else Some (last_sequence pre))"

lemma read_up_to_Nil: "read_up_to [] = ([], {}, None)"
  by (simp add: read_up_to_def)

lemma read_line_Inr: "read_line (read_up_to pre) e = Inr a \<Longrightarrow> a = read_up_to (pre @ [e])"
  by (auto simp: read_line_def read_up_to_def last_sequence_def sequence_or_0_def split: if_splits sum.splits)

lemma read_line_ok:
  assumes "log_valid (pre @ [e])"
  shows "read_line (read_up_to pre) e = Inr (read_up_to (pre @ [e]))"
proof -
  have e: "event_sequence e = Inr (sequence_or_0 e)" "\<forall>x \<in> set pre. sequence_or_0 x < sequence_or_0 e"
    using assms by (simp_all add: log_valid_snoc)
  then have "sequence_or_0 e \<notin> sequence_or_0 ` set pre" by fastforce
  moreover have "pre \<noteq> [] \<Longrightarrow> last_sequence pre < sequence_or_0 e" using e(2) by (simp add: last_sequence_def)
  ultimately show ?thesis using e(1) by (auto simp: read_line_def read_up_to_def last_sequence_def)
qed

lemma read_lines: "rfold read_line (read_up_to pre) evs = Inr a \<Longrightarrow> a = read_up_to (pre @ evs)"
proof (induction evs arbitrary: pre)
  case (Cons e evs)
  then obtain b where b: "read_line (read_up_to pre) e = Inr b" "rfold read_line b evs = Inr a" by auto
  have "b = read_up_to (pre @ [e])" by (rule read_line_Inr [OF b(1)])
  then show ?case using Cons.IH [of "pre @ [e]"] b(2) by simp
qed simp

lemma log_valid_prefix: "log_valid (xs @ ys) \<Longrightarrow> log_valid xs"
  by (simp add: log_valid_def sorted_wrt_append)

lemma read_valid: "log_valid (pre @ evs) \<Longrightarrow> rfold read_line (read_up_to pre) evs = Inr (read_up_to (pre @ evs))"
proof (induction evs arbitrary: pre)
  case (Cons e evs)
  then have v: "log_valid ((pre @ [e]) @ evs)" by simp
  have "read_line (read_up_to pre) e = Inr (read_up_to (pre @ [e]))"
    by (rule read_line_ok [OF log_valid_prefix [OF v]])
  then show ?case using Cons.IH [OF v] by simp
qed simp

lemma load_valid: "\<not> lf_damaged f \<Longrightarrow> log_valid (lf_lines f) \<Longrightarrow> load_events_path f = Inr (lf_lines f)"
  using read_valid [of "[]" "lf_lines f"] by (simp add: load_events_path_def read_up_to_def)

lemma load_Inr: "load_events_path f = Inr evs \<Longrightarrow> evs = lf_lines f \<and> \<not> lf_damaged f"
  using read_lines [of "[]" "lf_lines f"] by (auto simp: load_events_path_def read_up_to_def split: if_splits)


text \<open>Text keeps the numbers and is stable.\<close>

lemma map_of_filter_key: "map_of xs k = map_of (filter (\<lambda>p. fst p = k) xs) k"
  by (induction xs) auto

lemma map_of_sort_key: "map_of (sort_key fst xs) k = map_of xs k"
  using map_of_filter_key [of "sort_key fst xs" k] map_of_filter_key [of xs k] sort_key_stable [of fst k xs] by simp

lemma map_of_map_snd: "map_of (map (\<lambda>p. (fst p, f (snd p))) d) k = map_option f (map_of d k)"
  by (induction d) auto

lemma stable_normalize_idem: "stable_normalize (stable_normalize v) = stable_normalize v"
proof (induction v rule: stable_normalize.induct)
  case (2 d)
  have "map (\<lambda>p. (fst p, stable_normalize (snd p))) (sort_key fst (map (\<lambda>p. (fst p, stable_normalize (snd p))) d))
    = sort_key fst (map (\<lambda>p. (fst p, stable_normalize (snd p))) d)"
    using 2 by (intro map_idI) auto
  then show ?case by (simp add: sort_key_id_if_sorted)
qed (simp_all add: map_idI)

lemma stored_alt: "stored e = sort_key fst (map (\<lambda>p. (fst p, stable_normalize (snd p))) e)"
  by (simp add: stored_def)

lemma stored_idem [simp]: "stored (stored e) = stored e"
  using stable_normalize_idem [of "VDict e"] by (simp add: stored_def)

lemma vget_stored: "vget (stored e) k = stable_normalize (vget e k)"
  by (simp add: stored_alt vget_def dgetd_def map_of_sort_key map_of_map_snd split: option.splits)

lemma event_sequence_stored [simp]: "event_sequence (stored e) = event_sequence e"
  by (cases "vget e ''seq''") (simp_all add: event_sequence_def vget_stored)

lemma sequence_or_0_stored [simp]: "sequence_or_0 (stored e) = sequence_or_0 e"
  by (simp add: sequence_or_0_def)

section \<open>The cache is invisible\<close>

text \<open>Cached states are what reading the file would give.\<close>

definition store_ok :: "run_store \<Rightarrow> bool" where
  "store_ok s =
     ((\<forall>p. log_valid (lf_lines (file_of p s))) \<and>
      (\<forall>p st. map_of (log_states s) p = Some st \<longrightarrow>
         st = state_of (file_of p s) (lf_lines (file_of p s)) \<and> \<not> lf_damaged (file_of p s)))"

lemma store_okD:
  assumes "store_ok s"
  shows "log_valid (lf_lines (file_of p s))"
    and "map_of (log_states s) p = Some st \<Longrightarrow> st = state_of (file_of p s) (lf_lines (file_of p s)) \<and> \<not> lf_damaged (file_of p s)"
  using assms by (simp_all add: store_ok_def)

lemma store_okI:
  assumes "\<And>p. log_valid (lf_lines (file_of p s))"
    and "\<And>p st. map_of (log_states s) p = Some st \<Longrightarrow> st = state_of (file_of p s) (lf_lines (file_of p s)) \<and> \<not> lf_damaged (file_of p s)"
  shows "store_ok s"
  using assms by (simp add: store_ok_def)

lemma store_ok_no_store: "store_ok no_store"
  by (rule store_okI) (simp_all add: no_store_def file_of_def no_file_def)

lemma file_of_forget [simp]: "file_of q (forget p s) = file_of q s"
  by (simp add: forget_def file_of_def)

lemma store_ok_forget: "store_ok s \<Longrightarrow> store_ok (forget p s)"
  by (rule store_okI) (auto simp: forget_def file_of_def dest: store_okD split: if_splits)

lemma event_log_state_spec:
  assumes "store_ok s"
  shows "store_ok (fst (event_log_state p s)) \<and> (\<forall>q. file_of q (fst (event_log_state p s)) = file_of q s) \<and>
    (case load_events_path (file_of p s) of
       Inl e \<Rightarrow> snd (event_log_state p s) = Inl e
     | Inr evs \<Rightarrow> snd (event_log_state p s) = Inr (state_of (file_of p s) evs))"
proof (cases "map_of (log_states s) p")
  case (Some st)
  have "load_events_path (file_of p s) = Inr (lf_lines (file_of p s))"
    using store_okD(2) [OF assms Some] store_okD(1) [OF assms] by (simp add: load_valid)
  then show ?thesis using Some store_okD(2) [OF assms Some] assms by (simp add: event_log_state_def)
next
  case None
  note n = None
  show ?thesis
  proof (cases "load_events_path (file_of p s)")
    case (Inl e)
    then show ?thesis using n store_ok_forget [OF assms] by (simp add: event_log_state_def)
  next
    case (Inr evs)
    have e: "evs = lf_lines (file_of p s)" "\<not> lf_damaged (file_of p s)" using load_Inr [OF Inr] by auto
    have "store_ok (s\<lparr>log_states := dput p (state_of (file_of p s) evs) (log_states s)\<rparr>)"
      using e store_okD [OF assms] by (intro store_okI) (auto simp: file_of_def split: if_splits)
    then show ?thesis using n Inr by (simp add: event_log_state_def file_of_def)
  qed
qed


lemma lf_lines_write:
  "lf_lines (write_line w sep e f) = (if w \<in> {Written, Unsynced, No_newline} then lf_lines f @ [e] else lf_lines f)"
  by (cases w) (simp_all add: write_line_def Let_def)

lemma write_line_Written:
  "write_line Written (lf_open f) e f = \<lparr>lf_lines = lf_lines f @ [e], lf_open = False, lf_damaged = lf_damaged f\<rparr>"
  by (simp add: write_line_def Let_def)

lemma log_valid_new:
  "log_valid evs \<Longrightarrow> event_sequence e = Inr n \<Longrightarrow> last_sequence evs < n \<Longrightarrow> log_valid (evs @ [stored e])"
  unfolding log_valid_snoc by (auto simp: sequence_or_0_def [of e] dest: last_sequence_max)

lemma state_of_snoc:
  "find_event (sequence_or_0 e) (lf_lines f) = None \<Longrightarrow>
   state_of \<lparr>lf_lines = lf_lines f @ [e], lf_open = False, lf_damaged = b\<rparr> (lf_lines f @ [e])
   = (state_of f (lf_lines f))\<lparr>st_events := dput (sequence_or_0 e) e (st_events (state_of f (lf_lines f))),
       st_last := sequence_or_0 e, st_separator := False\<rparr>"
  by (simp add: state_of_def find_event_def dput_new dhas_iff)

lemma file_of_put: "file_of q (s\<lparr>log_files := dput p f (log_files s)\<rparr>) = (if q = p then f else file_of q s)"
  by (simp add: file_of_def dgetd_def)

lemma file_of_states [simp]: "file_of q (s\<lparr>log_states := x\<rparr>) = file_of q s"
  by (simp add: file_of_def)

lemma store_ok_written:
  assumes "store_ok s" and "event_sequence e = Inr n" and "last_sequence (lf_lines (file_of p s)) < n"
  shows "store_ok (forget p (s\<lparr>log_files := dput p (write_line w sep (stored e) (file_of p s)) (log_files s)\<rparr>))"
  using store_okD [OF assms(1)] log_valid_new [OF store_okD(1) [OF assms(1)] assms(2,3)]
  by (intro store_okI) (auto simp: file_of_put lf_lines_write forget_def split: if_splits)

lemma append_path_new:
  assumes "store_ok s" and "\<not> lf_damaged (file_of p s)" and "event_sequence e = Inr n" and "last_sequence (lf_lines (file_of p s)) < n"
    and "find_event n (lf_lines (file_of p s)) = None"
  shows "store_ok (s\<lparr>log_files := dput p (write_line Written (lf_open (file_of p s)) (stored e) (file_of p s)) (log_files s),
    log_states := dput p ((state_of (file_of p s) (lf_lines (file_of p s)))\<lparr>
      st_events := dput n (stored e) (st_events (state_of (file_of p s) (lf_lines (file_of p s)))),
      st_last := n, st_separator := False\<rparr>) (log_states s)\<rparr>)"
proof -
  have n: "n = sequence_or_0 (stored e)" using assms(3) by (simp add: sequence_or_0_def)
  show ?thesis
    using store_okD [OF assms(1)] log_valid_new [OF store_okD(1) [OF assms(1)] assms(3,4)] assms(2)
      state_of_snoc [of "stored e" "file_of p s"] assms(5)
    by (intro store_okI) (auto simp: file_of_put write_line_Written n split: if_splits)
qed


lemma append_path_spec:
  assumes "store_ok s"
  shows "store_ok (fst (append_path w once ign p e s)) \<and>
    (\<forall>q. file_of q (fst (append_path w once ign p e s)) = (if q = p then fst (append_file w once ign e (file_of p s)) else file_of q s)) \<and>
    snd (append_path w once ign p e s) = snd (append_file w once ign e (file_of p s))"
proof -
  obtain s1 r where s1: "event_log_state p s = (s1, r)" by fastforce
  have ok1: "store_ok s1" and f1: "\<And>q. file_of q s1 = file_of q s"
    and r: "case load_events_path (file_of p s) of Inl x \<Rightarrow> r = Inl x | Inr evs \<Rightarrow> r = Inr (state_of (file_of p s) evs)"
    using event_log_state_spec [OF assms, of p] s1 by (auto split: sum.splits)
  note base = append_path_def append_file_def event_for_append_def s1 f1
  show ?thesis
  proof (cases "load_events_path (file_of p s)")
    case (Inl x)
    then show ?thesis using r store_ok_forget [OF ok1] by (simp add: base)
  next
    case (Inr evs)
    then have evs: "evs = lf_lines (file_of p s)" "\<not> lf_damaged (file_of p s)" using load_Inr by auto
    have rr: "r = Inr (state_of (file_of p s) evs)" using r Inr by simp
    show ?thesis
    proof (cases "event_sequence e")
      case (Inl x)
      then show ?thesis using \<open>load_events_path _ = _\<close> rr store_ok_forget [OF ok1] by (simp add: base)
    next
      case (Inr n)
      note seq = Inr
      show ?thesis
      proof (cases "find_event n evs")
        case (Some old)
        then show ?thesis using \<open>load_events_path _ = _\<close> rr seq ok1 store_ok_forget [OF ok1]
          by (simp add: base state_of_def find_event_def)
      next
        case None
        note new = None
        show ?thesis
        proof (cases "n \<le> last_sequence evs")
          case True
          then show ?thesis using \<open>load_events_path _ = _\<close> rr seq new store_ok_forget [OF ok1]
            by (simp add: base state_of_def find_event_def last_sequence_def)
        next
          case False
          have d: "\<not> lf_damaged (file_of p s1)" "last_sequence (lf_lines (file_of p s1)) < n"
            "find_event n (lf_lines (file_of p s1)) = None"
            using False evs new by (simp_all add: f1)
          have n: "sequence_or_0 e = n" using seq by (simp add: sequence_or_0_def)
          show ?thesis
            using \<open>load_events_path _ = _\<close> rr seq new False n evs append_path_new [OF ok1 d(1) seq d(2,3)]
              store_ok_written [OF ok1 seq d(2), of w "lf_open (file_of p s)"]
            by (simp add: base state_of_def find_event_def last_sequence_def Let_def file_of_put)
        qed
      qed
    qed
  qed
qed


text \<open>\<open>append_event_once\<close> on the two files.\<close>

definition once_files ::
    "write_outcome \<Rightarrow> write_outcome \<Rightarrow> event \<Rightarrow> log_file \<Rightarrow> log_file \<Rightarrow> (log_file \<times> log_file) \<times> unit result" where
  "once_files w w' e f g =
     (case append_file w True True (with_schema e) f of
        (f1, Inl x) \<Rightarrow> ((f1, g), Inl x)
      | (f1, Inr kept) \<Rightarrow>
          (case append_file w' True False kept g of
             (g1, Inl x) \<Rightarrow> ((f1, g1), Inl x)
           | (g1, Inr _) \<Rightarrow> ((f1, g1), Inr ())))"

lemma append_file_bad_seq:
  "event_sequence e = Inl x \<Longrightarrow> \<exists>y. append_file w once ign e f = (f, Inl y)"
  by (cases "load_events_path f") (simp_all add: append_file_def)

lemma append_event_once_spec:
  assumes "store_ok s" and "event_sequence (with_schema e) = Inr n"
  shows "store_ok (fst (append_event_once w w' run (Some ws) e s)) \<and>
    file_of (Canonical run) (fst (append_event_once w w' run (Some ws) e s))
      = fst (fst (once_files w w' e (file_of (Canonical run) s) (file_of (Mirror ws run) s))) \<and>
    file_of (Mirror ws run) (fst (append_event_once w w' run (Some ws) e s))
      = snd (fst (once_files w w' e (file_of (Canonical run) s) (file_of (Mirror ws run) s))) \<and>
    (\<forall>q. q \<noteq> Canonical run \<longrightarrow> q \<noteq> Mirror ws run \<longrightarrow> file_of q (fst (append_event_once w w' run (Some ws) e s)) = file_of q s) \<and>
    snd (append_event_once w w' run (Some ws) e s)
      = snd (once_files w w' e (file_of (Canonical run) s) (file_of (Mirror ws run) s))"
proof -
  let ?C = "Canonical run" and ?M = "Mirror ws run" and ?e = "with_schema e"
  obtain s1 r where s1: "event_log_state ?C s = (s1, r)" by fastforce
  have ok1: "store_ok s1" and f1: "\<And>q. file_of q s1 = file_of q s"
    and r: "case load_events_path (file_of ?C s) of Inl x \<Rightarrow> r = Inl x | Inr evs \<Rightarrow> r = Inr (state_of (file_of ?C s) evs)"
    using event_log_state_spec [OF assms(1), of ?C] s1 by (auto split: sum.splits)
  obtain s2 r2 where s2: "append_path w True True ?C ?e s1 = (s2, r2)" by fastforce
  have ok2: "store_ok s2" and f2: "\<And>q. file_of q s2 = (if q = ?C then fst (append_file w True True ?e (file_of ?C s)) else file_of q s)"
    and r2: "r2 = snd (append_file w True True ?e (file_of ?C s))"
    using append_path_spec [OF ok1, of w True True ?C ?e] s2 by (auto simp: f1)
  show ?thesis
  proof (cases "load_events_path (file_of ?C s)")
    case (Inl x)
    then have "append_file w True True ?e (file_of ?C s) = (file_of ?C s, Inl x)" by (simp add: append_file_def)
    then show ?thesis using Inl r ok1 by (simp add: append_event_once_def s1 f1 assms(2) once_files_def)
  next
    case (Inr evs)
    then have rr: "r = Inr (state_of (file_of ?C s) evs)" using r by simp
    let ?s3 = "if dhas n (st_events (state_of (file_of ?C s) evs)) then forget ?M s2 else s2"
    have ok3: "store_ok ?s3" using ok2 store_ok_forget by simp
    have f3: "file_of q ?s3 = file_of q s2" for q by simp
    obtain f' rf where af: "append_file w True True ?e (file_of ?C s) = (f', rf)" by fastforce
    show ?thesis
    proof (cases rf)
      case (Inl x)
      then show ?thesis using ok2 r2 af by (simp add: append_event_once_def s1 s2 f2 assms(2) rr once_files_def)
    next
      case (Inr kept)
      obtain s4 r4 where s4: "append_path w' True False ?M kept ?s3 = (s4, r4)" by fastforce
      have "store_ok s4" "\<And>q. file_of q s4 = (if q = ?M then fst (append_file w' True False kept (file_of ?M s)) else file_of q s2)"
        "r4 = snd (append_file w' True False kept (file_of ?M s))"
        using append_path_spec [OF ok3, of w' True False ?M kept] s4 by (auto simp: f3 f2)
      then show ?thesis using Inr r2 af s4
        by (cases r4) (auto simp: append_event_once_def s1 s2 f2 assms(2) rr once_files_def Let_def split: prod.splits sum.splits)
    qed
  qed
qed


section \<open>Histories of a store\<close>

text \<open>
  Appends of all kinds with any outcome of their writes, the end of a run or of the process (its cached states are
  gone), and the snapshot of a run.
\<close>

inductive store_step :: "run_store \<Rightarrow> run_store \<Rightarrow> bool" where
  once: "store_step s (fst (append_event_once w w' run ws e s))"
| appended: "store_step s (fst (store_append_event outcomes once run ws e s))"
| forgot: "store_step s (forget p s)"
| restarted: "store_step s (s\<lparr>log_states := []\<rparr>)"
| saved: "store_step s (s\<lparr>run_files := dput run snap (run_files s)\<rparr>)"

definition reachable_store :: "run_store \<Rightarrow> bool" where
  "reachable_store s = store_step\<^sup>*\<^sup>* no_store s"

lemma append_each_ok: "store_ok s \<Longrightarrow> store_ok (fst (append_each ws dd e ps s))"
proof (induction ws dd e ps s rule: append_each.induct)
  case (2 ws dd e p ps s)
  then show ?case
    using append_path_spec [OF 2(2), of "case ws of [] \<Rightarrow> Written | w # _ \<Rightarrow> w" dd False p e]
    by (auto split: prod.splits sum.splits)
qed simp

lemma append_event_once_ok: "store_ok s \<Longrightarrow> store_ok (fst (append_event_once w w' run ws e s))"
proof (cases "event_sequence (with_schema e)")
  case (Inl x)
  then show "store_ok s \<Longrightarrow> ?thesis" by (simp add: append_event_once_def)
next
  case (Inr n)
  assume ok: "store_ok s"
  show ?thesis
  proof (cases ws)
    case None
    obtain s1 r where s1: "event_log_state (Canonical run) s = (s1, r)" by fastforce
    have ok1: "store_ok s1" using event_log_state_spec [OF ok, of "Canonical run"] s1 by simp
    show ?thesis
      using append_path_spec [OF ok1, of w True True "Canonical run" "with_schema e"] ok1
      by (auto simp: append_event_once_def Inr None s1 split: prod.splits sum.splits)
  next
    case (Some x)
    then show ?thesis using append_event_once_spec [OF ok Inr, of w w' run x] by simp
  qed
qed

lemma store_step_ok: "store_step s t \<Longrightarrow> store_ok s \<Longrightarrow> store_ok t"
proof (induction rule: store_step.induct)
  case (restarted s)
  then show ?case by (intro store_okI) (auto dest: store_okD(1))
next
  case (saved s run snap)
  then show ?case by (intro store_okI) (auto simp: file_of_def dest: store_okD)
qed (auto simp: store_append_event_def append_event_once_ok store_ok_forget simp del: append_each.simps intro!: append_each_ok)

lemma reachable_store_ok: "reachable_store s \<Longrightarrow> store_ok s"
  unfolding reachable_store_def
  by (induction rule: rtranclp_induct) (auto intro: store_ok_no_store store_step_ok)

section \<open>Appending exactly once\<close>

lemma stored_ddel: "stored (ddel k (stored e)) = stored (ddel k e)"
proof -
  let ?g = "map (\<lambda>p. (fst p, stable_normalize (snd p)))" and ?P = "\<lambda>p. fst p \<noteq> k"
  have d: "ddel k xs = filter ?P xs" for xs :: event
    by (induction xs) (auto simp: ddel_def)
  have c: "filter ?P (?g xs) = ?g (filter ?P xs)" for xs :: event by (induction xs) auto
  have "stored e = sort_key fst (?g e)" by (rule stored_alt)
  then have f: "ddel k (stored e) = sort_key fst (?g (filter ?P e))" by (simp add: d filter_sort c)
  have "stored (ddel k (stored e)) = sort_key fst (?g (sort_key fst (?g (filter ?P e))))" unfolding f by (rule stored_alt)
  also have "?g (sort_key fst (?g (filter ?P e))) = sort_key fst (?g (filter ?P e))"
    by (intro map_idI) (auto simp: stable_normalize_idem)
  finally show ?thesis by (simp add: stored_alt d sort_key_id_if_sorted)
qed

lemma event_payload_stored [simp]: "event_payload ign (stored e) = event_payload ign e"
  by (simp add: event_payload_def stored_ddel)

text \<open>What an append that is not cut off does to a readable file: nothing or the one event.\<close>

lemma append_file_fresh:
  assumes "\<not> lf_damaged f" and "log_valid (lf_lines f)" and "event_sequence e = Inr n" and "last_sequence (lf_lines f) < n" and "w \<noteq> Cut"
  shows "\<not> lf_damaged (fst (append_file w once ign e f)) \<and>
    (w = Written \<longrightarrow> append_file w once ign e f = (\<lparr>lf_lines = lf_lines f @ [stored e], lf_open = False, lf_damaged = False\<rparr>, Inr (stored e))) \<and>
    (w \<noteq> Written \<longrightarrow> (\<exists>x. snd (append_file w once ign e f) = Inl x)) \<and>
    lf_lines (fst (append_file w once ign e f)) \<in> {lf_lines f, lf_lines f @ [stored e]}"
proof -
  have "find_event n (lf_lines f) = None"
    using last_sequence_max [OF assms(2)] assms(4) by (fastforce simp: find_event_None)
  then have "append_file w once ign e f = (write_line w (lf_open f) (stored e) f, if w = Written then Inr (stored e) else Inl (OSError ''write''))"
    using assms(3,4) load_valid [OF assms(1,2)] by (simp add: append_file_def)
  then show ?thesis using assms(1,5) by (cases w) (auto simp: write_line_def Let_def)
qed

lemma append_file_again:
  assumes "\<not> lf_damaged f" and "log_valid (lf_lines f)" and "x \<in> set (lf_lines f)" and "event_sequence e = Inr (sequence_or_0 x)"
    and "event_payload ign x = event_payload ign e"
  shows "append_file w True ign e f = (f, Inr x)"
  using assms(4,5) load_valid [OF assms(1,2)] find_event_in [OF assms(2,3)] by (simp add: append_file_def)

text \<open>The two files during the retries of one append: not there yet, in the log only, or in both.\<close>

definition appending :: "event list \<Rightarrow> event list \<Rightarrow> event \<Rightarrow> log_file \<Rightarrow> log_file \<Rightarrow> bool" where
  "appending L M x f g =
     (\<not> lf_damaged f \<and> \<not> lf_damaged g \<and> lf_lines f = L @ [x] \<and> lf_lines g \<in> {M, M @ [x]})"

lemma once_files_replay:
  assumes "appending L M x f g" and "log_valid (L @ [x])" and "log_valid M" and "last_sequence M < sequence_or_0 x"
    and "event_sequence (with_schema e) = Inr (sequence_or_0 x)" and "event_payload True x = event_payload True (with_schema e)"
    and "w' \<noteq> Cut"
  shows "appending L M x (fst (fst (once_files w w' e f g))) (snd (fst (once_files w w' e f g))) \<and>
    (w' = Written \<longrightarrow> snd (once_files w w' e f g) = Inr () \<and> lf_lines (snd (fst (once_files w w' e f g))) = M @ [x])"
proof -
  have f: "\<not> lf_damaged f" "lf_lines f = L @ [x]" and g: "\<not> lf_damaged g" "lf_lines g \<in> {M, M @ [x]}"
    using assms(1) by (auto simp: appending_def)
  have x: "event_sequence x = Inr (sequence_or_0 x)" "stored x = x" using assms(2) by (simp_all add: log_valid_snoc)
  have a: "append_file w True True (with_schema e) f = (f, Inr x)"
    by (rule append_file_again) (use f assms in auto)
  have mx: "log_valid (M @ [x])" using log_valid_new [OF assms(3) x(1) assms(4)] x(2) by simp
  show ?thesis
  proof (cases "lf_lines g = M")
    case True
    then show ?thesis
      using append_file_fresh [OF g(1) _ x(1) _ assms(7), of True False] assms(3,4) f x(2)
      by (auto simp: once_files_def a appending_def split: prod.splits sum.splits)
  next
    case False
    then have gx: "lf_lines g = M @ [x]" using g(2) by simp
    have "append_file v True False x g = (g, Inr x)" for v
      by (rule append_file_again) (use g gx mx x in auto)
    then show ?thesis using f g gx by (simp add: once_files_def a appending_def)
  qed
qed


lemma once_files_first:
  assumes "\<not> lf_damaged f" and "\<not> lf_damaged g" and "log_valid (lf_lines f)" and "log_valid (lf_lines g)"
    and "event_sequence (with_schema e) = Inr n" and "last_sequence (lf_lines f) < n" and "last_sequence (lf_lines g) < n"
    and "w \<noteq> Cut" and "w' \<noteq> Cut"
  shows "(lf_lines (fst (fst (once_files w w' e f g))) = lf_lines f \<and> \<not> lf_damaged (fst (fst (once_files w w' e f g)))
      \<and> snd (fst (once_files w w' e f g)) = g \<and> w \<noteq> Written)
    \<or> appending (lf_lines f) (lf_lines g) (stored (with_schema e)) (fst (fst (once_files w w' e f g))) (snd (fst (once_files w w' e f g)))"
    and "w = Written \<Longrightarrow> w' = Written \<Longrightarrow> snd (once_files w w' e f g) = Inr () \<and>
      lf_lines (snd (fst (once_files w w' e f g))) = lf_lines g @ [stored (with_schema e)]"
proof -
  let ?e = "with_schema e"
  note F = append_file_fresh [OF assms(1,3,5,6,8), of True True]
  have G: "event_sequence (stored ?e) = Inr n" using assms(5) by simp
  note G = append_file_fresh [OF assms(2,4) G assms(7,9), of True False]
  show "(lf_lines (fst (fst (once_files w w' e f g))) = lf_lines f \<and> \<not> lf_damaged (fst (fst (once_files w w' e f g)))
      \<and> snd (fst (once_files w w' e f g)) = g \<and> w \<noteq> Written)
    \<or> appending (lf_lines f) (lf_lines g) (stored ?e) (fst (fst (once_files w w' e f g))) (snd (fst (once_files w w' e f g)))"
  proof (cases "w = Written")
    case True
    then show ?thesis using F G assms(1,2)
      by (auto simp: once_files_def appending_def split: prod.splits sum.splits)
  next
    case False
    then obtain x where "snd (append_file w True True ?e f) = Inl x" using F by blast
    then have "fst (fst (once_files w w' e f g)) = fst (append_file w True True ?e f)" "snd (fst (once_files w w' e f g)) = g"
      by (auto simp: once_files_def split: prod.splits sum.splits)
    then show ?thesis using F assms(2) False by (auto simp: appending_def)
  qed
  show "snd (once_files w w' e f g) = Inr () \<and> lf_lines (snd (fst (once_files w w' e f g))) = lf_lines g @ [stored ?e]"
    if "w = Written" "w' = Written"
    using F G that by (simp add: once_files_def)
qed

text \<open>The attempts to append an event: their outcomes and the event, stamped anew each time.\<close>

datatype attempt = Attempt write_outcome write_outcome event

definition append_attempt :: "string \<Rightarrow> string \<Rightarrow> run_store \<Rightarrow> attempt \<Rightarrow> run_store" where
  "append_attempt run ws s a = (case a of Attempt w w' e \<Rightarrow> fst (append_event_once w w' run (Some ws) e s))"

fun attempt_event :: "attempt \<Rightarrow> event" where "attempt_event (Attempt w w' e) = e"

fun attempt_uncut :: "attempt \<Rightarrow> bool" where "attempt_uncut (Attempt w w' e) = (w \<noteq> Cut \<and> w' \<noteq> Cut)"

definition same_event :: "event \<Rightarrow> event \<Rightarrow> bool" where
  "same_event e e' =
     (event_sequence (with_schema e') = event_sequence (with_schema e) \<and>
      event_payload True (with_schema e') = event_payload True (with_schema e))"

definition append_progress :: "event list \<Rightarrow> event list \<Rightarrow> event \<Rightarrow> log_file \<Rightarrow> log_file \<Rightarrow> bool" where
  "append_progress L M e f g =
     ((lf_lines f = L \<and> lf_lines g = M \<and> \<not> lf_damaged f \<and> \<not> lf_damaged g)
      \<or> (\<exists>e'. same_event e e' \<and> appending L M (stored (with_schema e')) f g))"

lemma append_progress_step:
  assumes "append_progress L M e f g" and "log_valid L" and "log_valid M"
    and "event_sequence (with_schema e) = Inr n" and "last_sequence L < n" and "last_sequence M < n"
    and "same_event e e1" and "w \<noteq> Cut" and "w' \<noteq> Cut"
  shows "append_progress L M e (fst (fst (once_files w w' e1 f g))) (snd (fst (once_files w w' e1 f g))) \<and>
    (w = Written \<longrightarrow> w' = Written \<longrightarrow> snd (once_files w w' e1 f g) = Inr () \<and>
      (\<exists>e'. same_event e e' \<and> lf_lines (fst (fst (once_files w w' e1 f g))) = L @ [stored (with_schema e')]
        \<and> lf_lines (snd (fst (once_files w w' e1 f g))) = M @ [stored (with_schema e')]))"
proof -
  have e1: "event_sequence (with_schema e1) = Inr n" using assms(4,7) by (simp add: same_event_def)
  from assms(1) consider (fresh) "lf_lines f = L" "lf_lines g = M" "\<not> lf_damaged f" "\<not> lf_damaged g"
    | (there) e' where "same_event e e'" "appending L M (stored (with_schema e')) f g"
    unfolding append_progress_def by blast
  then show ?thesis
  proof cases
    case fresh
    obtain f1 g1 r where o: "once_files w w' e1 f g = ((f1, g1), r)" by (metis prod.exhaust)
    have v: "log_valid (lf_lines f)" "log_valid (lf_lines g)" "last_sequence (lf_lines f) < n" "last_sequence (lf_lines g) < n"
      using assms(2,3,5,6) fresh(1,2) by simp_all
    note first = once_files_first [OF fresh(3,4) v(1,2) e1 v(3,4) assms(8,9), unfolded o fresh(1,2) fst_conv snd_conv]
    have "append_progress L M e f1 g1"
      using first(1) fresh(2,4) assms(7) unfolding append_progress_def by blast
    moreover have "\<exists>e'. same_event e e' \<and> lf_lines f1 = L @ [stored (with_schema e')] \<and> lf_lines g1 = M @ [stored (with_schema e')]"
      if "w = Written" "w' = Written"
    proof (intro exI conjI)
      show "same_event e e1" by (rule assms(7))
      show "lf_lines f1 = L @ [stored (with_schema e1)]" using first(1) that(1) by (auto simp: appending_def)
      show "lf_lines g1 = M @ [stored (with_schema e1)]" using first(2) that by simp
    qed
    moreover have "w = Written \<Longrightarrow> w' = Written \<Longrightarrow> r = Inr ()" using first(2) by simp
    ultimately show ?thesis unfolding o fst_conv snd_conv by blast
  next
    case there
    let ?x = "stored (with_schema e')"
    have q: "event_sequence (with_schema e') = Inr n" using there(1) assms(4) by (simp add: same_event_def)
    then have n: "sequence_or_0 ?x = n" by (simp add: sequence_or_0_def)
    have v: "log_valid (L @ [?x])" by (rule log_valid_new [OF assms(2) q assms(5)])
    have "event_payload True ?x = event_payload True (with_schema e1)" using there(1) assms(7) by (simp add: same_event_def)
    from once_files_replay [OF there(2) v assms(3) _ _ this assms(9), of w] n e1 assms(6)
    show ?thesis using there(1) unfolding append_progress_def by (auto simp: appending_def)
  qed
qed


lemma append_attempts_progress:
  assumes "store_ok s" and "append_progress L M e (file_of (Canonical run) s) (file_of (Mirror ws run) s)"
    and "log_valid L" and "log_valid M" and "event_sequence (with_schema e) = Inr n" and "last_sequence L < n" and "last_sequence M < n"
    and "\<forall>a \<in> set tries. attempt_uncut a \<and> same_event e (attempt_event a)"
  shows "store_ok (foldl (append_attempt run ws) s tries) \<and>
    append_progress L M e (file_of (Canonical run) (foldl (append_attempt run ws) s tries))
      (file_of (Mirror ws run) (foldl (append_attempt run ws) s tries))"
  using assms(1,2,8)
proof (induction tries arbitrary: s)
  case (Cons a tries)
  obtain w w' e1 where a: "a = Attempt w w' e1" by (cases a)
  have p: "w \<noteq> Cut" "w' \<noteq> Cut" "same_event e e1" using Cons.prems(3) by (simp_all add: a)
  have q: "event_sequence (with_schema e1) = Inr n" using p(3) assms(5) by (simp add: same_event_def)
  note sp = append_event_once_spec [OF Cons.prems(1) q, of w w' run ws]
  note st = append_progress_step [OF Cons.prems(2) assms(3-7) p(3,1,2)]
  show ?case
    using Cons.IH [of "append_attempt run ws s a"] Cons.prems(3) sp st by (simp add: a append_attempt_def)
qed simp

text \<open>
  C14: An event is appended exactly once: after any number of attempts whose writes fail in any way that does not
  cut a line, or succeed unnoticed, one more attempt succeeds, and the log and its copy have grown by one and the same event.
\<close>

theorem append_once_exactly_once:
  assumes "reachable_store s" and "\<not> lf_damaged (file_of (Canonical run) s)" and "\<not> lf_damaged (file_of (Mirror ws run) s)"
    and "event_sequence (with_schema e) = Inr n"
    and "last_sequence (lf_lines (file_of (Canonical run) s)) < n" and "last_sequence (lf_lines (file_of (Mirror ws run) s)) < n"
    and "\<forall>a \<in> set tries. attempt_uncut a \<and> same_event e (attempt_event a)"
    and "append_event_once Written Written run (Some ws) e (foldl (append_attempt run ws) s tries) = (t, r)"
  shows "r = Inr () \<and> (\<exists>e'. same_event e e' \<and>
    lf_lines (file_of (Canonical run) t) = lf_lines (file_of (Canonical run) s) @ [stored (with_schema e')] \<and>
    lf_lines (file_of (Mirror ws run) t) = lf_lines (file_of (Mirror ws run) s) @ [stored (with_schema e')])"
proof -
  let ?u = "foldl (append_attempt run ws) s tries"
  let ?L = "lf_lines (file_of (Canonical run) s)" and ?M = "lf_lines (file_of (Mirror ws run) s)"
  have ok: "store_ok s" by (rule reachable_store_ok [OF assms(1)])
  have p: "append_progress ?L ?M e (file_of (Canonical run) s) (file_of (Mirror ws run) s)"
    using assms(2,3) by (simp add: append_progress_def)
  note v = store_okD(1) [OF ok]
  have u: "store_ok ?u" "append_progress ?L ?M e (file_of (Canonical run) ?u) (file_of (Mirror ws run) ?u)"
    using append_attempts_progress [OF ok p v v assms(4-7)] by simp_all
  have "same_event e e" by (simp add: same_event_def)
  from append_progress_step [OF u(2) v v assms(4-6) this, of Written Written]
    append_event_once_spec [OF u(1) assms(4), of Written Written run ws] assms(8)
  show ?thesis by simp
qed

text \<open>
  C36: A log with a line that was cut off is never readable again: every later attempt to record an event of the run
  fails and leaves the log as it is.
\<close>

theorem cut_line_blocks_log:
  assumes "reachable_store s" and "lf_damaged (file_of (Canonical run) s)" and "event_sequence (with_schema e) = Inr n"
  shows "append_event_once w w' run (Some ws) e s = (t, r) \<Longrightarrow>
    r = Inl (ValueError ''Expecting value'') \<and> file_of (Canonical run) t = file_of (Canonical run) s"
proof -
  assume a: "append_event_once w w' run (Some ws) e s = (t, r)"
  have "append_file w True True (with_schema e) (file_of (Canonical run) s)
      = (file_of (Canonical run) s, Inl (ValueError ''Expecting value''))"
    using assms(2) by (simp add: append_file_def load_events_path_def)
  then show ?thesis
    using append_event_once_spec [OF reachable_store_ok [OF assms(1)] assms(3), of w w' run ws] a
    by (simp add: once_files_def)
qed

section \<open>The copy\<close>

text \<open>The copy of a log never holds an event the log does not have.\<close>

definition mirrored :: "run_store \<Rightarrow> bool" where
  "mirrored s = (\<forall>ws run. set (lf_lines (file_of (Mirror ws run) s)) \<subseteq> set (lf_lines (file_of (Canonical run) s)))"

lemma append_file_lines:
  "set (lf_lines f) \<subseteq> set (lf_lines (fst (append_file w once ign e f)))"
  "set (lf_lines (fst (append_file w once ign e f))) \<subseteq> insert (stored e) (set (lf_lines f))"
  by (auto simp: append_file_def lf_lines_write split: sum.splits option.splits)

lemma append_file_Inr:
  assumes "snd (append_file w once ign e f) = Inr x"
  obtains (old) "x \<in> set (lf_lines f)" "event_payload ign x = event_payload ign e" "fst (append_file w once ign e f) = f"
  | (new) "x = stored e" "lf_lines (fst (append_file w once ign e f)) = lf_lines f @ [stored e]"
proof (cases "load_events_path f")
  case (Inl y)
  then show ?thesis using assms by (simp add: append_file_def)
next
  case (Inr evs)
  note l = Inr
  have evs: "evs = lf_lines f" using load_Inr [OF l] by simp
  show ?thesis
  proof (cases "event_sequence e")
    case (Inl y)
    then show ?thesis using assms l by (simp add: append_file_def)
  next
    case (Inr n)
    show ?thesis
    proof (cases "find_event n evs")
      case (Some y)
      then show ?thesis using assms l Inr old evs by (auto simp: append_file_def dest: find_event_Some split: if_splits)
    next
      case None
      then show ?thesis using assms l Inr new evs by (auto simp: append_file_def write_line_Written split: if_splits)
    qed
  qed
qed

lemma append_file_exact:
  assumes "log_valid (lf_lines f)" and "snd (append_file w once False e f) = Inr x"
  shows "x = stored e"
  using assms(2)
proof (cases rule: append_file_Inr)
  case old
  then show ?thesis using log_validD(3) [OF assms(1), of x] by (simp add: event_payload_def)
qed simp

lemma append_file_kept:
  assumes "snd (append_file w once ign e f) = Inr x"
  shows "x \<in> set (lf_lines (fst (append_file w once ign e f)))"
  using assms by (cases rule: append_file_Inr) simp_all

lemma once_files_mirrored:
  assumes "log_valid (lf_lines f)" and "set (lf_lines g) \<subseteq> set (lf_lines f)"
  shows "set (lf_lines (snd (fst (once_files w w' e f g)))) \<subseteq> set (lf_lines (fst (fst (once_files w w' e f g))))"
proof -
  obtain f1 r where a: "append_file w True True (with_schema e) f = (f1, r)" by fastforce
  have f1: "set (lf_lines f) \<subseteq> set (lf_lines f1)" using append_file_lines(1) [of f w True True "with_schema e"] a by simp
  show ?thesis
  proof (cases r)
    case (Inl x)
    then show ?thesis using a f1 assms(2) by (simp add: once_files_def)
  next
    case (Inr k)
    have k: "k \<in> set (lf_lines f1)" using append_file_kept [of w True True "with_schema e" f k] a Inr by simp
    have "stored k = k"
    proof -
      from a Inr have "snd (append_file w True True (with_schema e) f) = Inr k" by simp
      then show ?thesis
        by (cases rule: append_file_Inr) (use log_validD(3) [OF assms(1)] in auto)
    qed
    have "set (lf_lines (fst (append_file w' True False k g))) \<subseteq> set (lf_lines f1)"
      using append_file_lines(2) [of w' True False k g] k f1 assms(2) \<open>stored k = k\<close> by auto
    then show ?thesis using a Inr by (auto simp: once_files_def split: prod.splits sum.splits)
  qed
qed

lemma once_files_grows: "set (lf_lines f) \<subseteq> set (lf_lines (fst (fst (once_files w w' e f g))))"
  using append_file_lines(1) [of f w True True "with_schema e"]
  by (auto simp: once_files_def split: prod.splits sum.splits)

lemma mirroredI:
  assumes "mirrored s" and "\<And>q. q \<noteq> Canonical run \<Longrightarrow> q \<noteq> Mirror ws run \<Longrightarrow> file_of q t = file_of q s"
    and "set (lf_lines (file_of (Canonical run) s)) \<subseteq> set (lf_lines (file_of (Canonical run) t))"
    and "set (lf_lines (file_of (Mirror ws run) t)) \<subseteq> set (lf_lines (file_of (Canonical run) t))"
  shows "mirrored t"
  unfolding mirrored_def
proof (intro allI)
  fix ws' run'
  have m: "set (lf_lines (file_of (Mirror ws' run') s)) \<subseteq> set (lf_lines (file_of (Canonical run') s))"
    using assms(1) by (simp add: mirrored_def)
  show "set (lf_lines (file_of (Mirror ws' run') t)) \<subseteq> set (lf_lines (file_of (Canonical run') t))"
  proof (cases "run' = run")
    case False
    then show ?thesis using m assms(2) by simp
  next
    case True
    then show ?thesis using m assms(2) [of "Mirror ws' run'"] assms(3,4) by (cases "ws' = ws") auto
  qed
qed

lemma append_each_mirrored:
  assumes ok: "store_ok s" and m: "mirrored s"
  shows "mirrored (fst (store_append_event outcomes once run ws e s))"
proof -
  let ?e = "with_schema e" and ?C = "Canonical run"
  let ?w = "case outcomes of [] \<Rightarrow> Written | w # _ \<Rightarrow> w"
  obtain s1 r where s1: "append_path ?w once False ?C ?e s = (s1, r)" by fastforce
  have sp: "store_ok s1" "\<And>q. file_of q s1 = (if q = ?C then fst (append_file ?w once False ?e (file_of ?C s)) else file_of q s)"
    "r = snd (append_file ?w once False ?e (file_of ?C s))"
    using append_path_spec [OF ok, of ?w once False ?C ?e] s1 by auto
  have m1: "mirrored s1"
    using m append_file_lines(1) [of "file_of ?C s" ?w once False ?e] unfolding mirrored_def by (auto simp: sp(2))
  show ?thesis
  proof (cases r)
    case (Inl x)
    then show ?thesis using m1 s1 by (simp add: store_append_event_def)
  next
    case (Inr k)
    have k: "k = stored ?e" "k \<in> set (lf_lines (file_of ?C s1))"
      using append_file_exact [OF store_okD(1) [OF ok], of ?w once ?e ?C k]
        append_file_kept [of ?w once False ?e "file_of ?C s" k] Inr sp by auto
    show ?thesis
    proof (cases ws)
      case None
      then show ?thesis using m1 s1 Inr by (simp add: store_append_event_def mirror_paths_def)
    next
      case (Some x)
      let ?v = "case tl outcomes of [] \<Rightarrow> Written | w # _ \<Rightarrow> w" and ?M = "Mirror x run"
      obtain s2 r2 where s2: "append_path ?v once False ?M ?e s1 = (s2, r2)" by fastforce
      have f2: "\<And>q. file_of q s2 = (if q = ?M then fst (append_file ?v once False ?e (file_of ?M s1)) else file_of q s1)"
        using append_path_spec [OF sp(1), of ?v once False ?M ?e] s2 by auto
      have "set (lf_lines (file_of ?M s1)) \<subseteq> set (lf_lines (file_of ?C s1))" using m1 by (simp add: mirrored_def)
      then have "mirrored s2"
        using k append_file_lines(2) [of ?v once False ?e "file_of ?M s1"] by (intro mirroredI [OF m1]) (auto simp: f2)
      then show ?thesis using s1 s2 Inr Some
        by (auto simp: store_append_event_def mirror_paths_def split: sum.splits)
    qed
  qed
qed

lemma append_once_mirrored:
  assumes ok: "store_ok s" and m: "mirrored s"
  shows "mirrored (fst (append_event_once w w' run ws e s))"
proof (cases "event_sequence (with_schema e)")
  case (Inl x)
  then show ?thesis using m by (simp add: append_event_once_def)
next
  case (Inr n)
  show ?thesis
  proof (cases ws)
    case (Some x)
    note sp = append_event_once_spec [OF ok Inr, of w w' run x]
    have "set (lf_lines (file_of (Mirror x run) s)) \<subseteq> set (lf_lines (file_of (Canonical run) s))" using m by (simp add: mirrored_def)
    from once_files_mirrored [OF store_okD(1) [OF ok] this, of w w' e]
    show ?thesis unfolding Some using sp once_files_grows [of "file_of (Canonical run) s" w w' e "file_of (Mirror x run) s"]
      by (intro mirroredI [OF m, of run x]) simp_all
  next
    case None
    obtain s1 r where s1: "event_log_state (Canonical run) s = (s1, r)" by fastforce
    have ok1: "store_ok s1" and f1: "\<And>q. file_of q s1 = file_of q s"
      using event_log_state_spec [OF ok, of "Canonical run"] s1 by simp_all
    have m1: "mirrored s1" using m by (simp add: mirrored_def f1)
    have "mirrored (fst (append_path w True True (Canonical run) (with_schema e) s1))"
      using m1 append_path_spec [OF ok1, of w True True "Canonical run" "with_schema e"]
        append_file_lines(1) [of "file_of (Canonical run) s1" w True True "with_schema e"]
      unfolding mirrored_def by fastforce
    then show ?thesis using m1
      by (auto simp: append_event_once_def Inr None s1 split: prod.splits sum.splits)
  qed
qed

text \<open>
  The copy of a run's log in its workspace never holds an event that the log itself does not have, whatever
  writes fail and whenever the process is restarted.
\<close>

theorem copy_never_ahead:
  assumes "reachable_store s"
  shows "set (lf_lines (file_of (Mirror ws run) s)) \<subseteq> set (lf_lines (file_of (Canonical run) s))"
proof -
  from assms have "store_ok s \<and> mirrored s"
    unfolding reachable_store_def
  proof (induction rule: rtranclp_induct)
    case base
    show ?case using store_ok_no_store by (simp add: mirrored_def no_store_def file_of_def no_file_def)
  next
    case (step s t)
    from step.hyps(2) step.IH show ?case
    proof cases
      case (forgot p)
      then show ?thesis using step.IH by (simp add: store_ok_forget mirrored_def)
    next
      case restarted
      then show ?thesis using step store_step_ok by (auto simp: mirrored_def)
    next
      case (saved run snap)
      then show ?thesis using step store_step_ok by (auto simp: mirrored_def file_of_def)
    qed (auto intro: append_event_once_ok append_once_mirrored append_each_mirrored store_step_ok store_step.intros)
  qed
  then show ?thesis by (simp add: mirrored_def)
qed


text \<open>
  C33: What is kept in memory of a log is invisible: in every reachable store an append has the same result and leaves
  the same files as one that reads the log anew.
\<close>

theorem log_cache_invisible:
  assumes "reachable_store s"
  shows "snd (append_path w once ign p e s) = snd (append_path w once ign p e (s\<lparr>log_states := []\<rparr>)) \<and>
    file_of q (fst (append_path w once ign p e s)) = file_of q (fst (append_path w once ign p e (s\<lparr>log_states := []\<rparr>)))"
proof -
  have ok: "store_ok s" by (rule reachable_store_ok [OF assms])
  have files: "file_of r (s\<lparr>log_states := []\<rparr>) = file_of r s" for r by (simp add: file_of_def)
  have "store_ok (s\<lparr>log_states := []\<rparr>)" using ok by (simp add: store_ok_def files)
  from append_path_spec [OF this, of w once ign p e] append_path_spec [OF ok, of w once ign p e] show ?thesis
    by (simp add: files)
qed


section \<open>A sample history\<close>

definition sample_event :: "int \<Rightarrow> string \<Rightarrow> event" where
  "sample_event n t = [(''type'', VStr ''note''), (''seq'', VInt n), (''timestamp'', VStr t)]"

definition cut_store :: run_store where
  "cut_store = fst (append_event_once Cut Written ''r'' (Some ''w'') (sample_event 1 ''t1'') no_store)"

lemma reachable_no_store: "reachable_store no_store"
  by (simp add: reachable_store_def)

lemma reachable_cut_store: "reachable_store cut_store"
  unfolding reachable_store_def cut_store_def using store_step.once by (rule r_into_rtranclp)

theorem append_once_exactly_once_witness:
  "snd (append_event_once Written Written ''r'' (Some ''w'') (sample_event 1 ''t3'')
     (foldl (append_attempt ''r'' ''w'') no_store
       [Attempt Unsynced Written (sample_event 1 ''t1''), Attempt Written No_newline (sample_event 1 ''t2'')])) = Inr ()"
proof -
  let ?tries = "[Attempt Unsynced Written (sample_event 1 ''t1''), Attempt Written No_newline (sample_event 1 ''t2'')]"
  let ?o = "append_event_once Written Written ''r'' (Some ''w'') (sample_event 1 ''t3'') (foldl (append_attempt ''r'' ''w'') no_store ?tries)"
  have n: "event_sequence (with_schema (sample_event 1 ''t3'')) = Inr 1" by code_simp
  have d: "\<not> lf_damaged (file_of (Canonical ''r'') no_store)" "\<not> lf_damaged (file_of (Mirror ''w'' ''r'') no_store)"
    "last_sequence (lf_lines (file_of (Canonical ''r'') no_store)) < 1" "last_sequence (lf_lines (file_of (Mirror ''w'' ''r'') no_store)) < 1"
    by code_simp+
  have a: "attempt_uncut (Attempt Unsynced Written (sample_event 1 ''t1''))"
      "same_event (sample_event 1 ''t3'') (attempt_event (Attempt Unsynced Written (sample_event 1 ''t1'')))"
    "attempt_uncut (Attempt Written No_newline (sample_event 1 ''t2''))"
      "same_event (sample_event 1 ''t3'') (attempt_event (Attempt Written No_newline (sample_event 1 ''t2'')))"
    by code_simp+
  then have a: "\<forall>a \<in> set ?tries. attempt_uncut a \<and> same_event (sample_event 1 ''t3'') (attempt_event a)" by simp
  have out: "?o = (fst ?o, snd ?o)" by simp
  from append_once_exactly_once [OF reachable_no_store d(1,2) n d(3,4) a out] show ?thesis by blast
qed

theorem cut_line_blocks_log_witness:
  "snd (append_event_once Written Written ''r'' (Some ''w'') (sample_event 1 ''t2'') cut_store) = Inl (ValueError ''Expecting value'')"
proof -
  let ?o = "append_event_once Written Written ''r'' (Some ''w'') (sample_event 1 ''t2'') cut_store"
  have d: "lf_damaged (file_of (Canonical ''r'') cut_store)" by code_simp
  have n: "event_sequence (with_schema (sample_event 1 ''t2'')) = Inr 1" by code_simp
  have out: "?o = (fst ?o, snd ?o)" by simp
  from cut_line_blocks_log [OF reachable_cut_store d n out] show ?thesis by blast
qed

theorem copy_never_ahead_witness:
  "set (lf_lines (file_of (Mirror ''w'' ''r'') cut_store)) \<subseteq> set (lf_lines (file_of (Canonical ''r'') cut_store))"
  by (rule copy_never_ahead [OF reachable_cut_store])


lemma reachable_sample_store:
  "reachable_store (fst (append_event_once Written No_newline ''r'' (Some ''w'') (sample_event 1 ''t1'') no_store))"
  unfolding reachable_store_def using store_step.once by (rule r_into_rtranclp)

theorem log_cache_invisible_witness:
  "snd (append_path Written True True (Mirror ''w'' ''r'') (with_schema (sample_event 1 ''t2''))
     ((fst (append_event_once Written No_newline ''r'' (Some ''w'') (sample_event 1 ''t1'') no_store))\<lparr>log_states := []\<rparr>)) = Inr (stored (with_schema (sample_event 1 ''t1'')))"
proof -
  let ?s = "fst (append_event_once Written No_newline ''r'' (Some ''w'') (sample_event 1 ''t1'') no_store)"
  have "snd (append_path Written True True (Mirror ''w'' ''r'') (with_schema (sample_event 1 ''t2'')) ?s) = Inr (stored (with_schema (sample_event 1 ''t1'')))" by code_simp
  then show ?thesis using log_cache_invisible [OF reachable_sample_store] by simp
qed

end
