(* ===== verification/Run_Recovery.thy ===== *)
theory Run_Recovery
  imports Run_Store Dynamic_Run
begin

text \<open>
  What happens to the runs that were active when the process died (\<open>DynamicRunStore.recover_interrupted_runs\<close>): a run
  whose log ends with a terminal event gets the state that event says, any other run is recorded as interrupted,
  and the copy of its log is completed. Recovery may itself be cut off and is then repeated. The parser of
  timestamps is an argument: \<open>parse ts\<close> is the time and whether it has a zone, or nothing when \<open>ts\<close> is no timestamp.
\<close>

section \<open>Terminal events\<close>

definition terminal_event_statuses :: "(string, string) dict" where
  "terminal_event_statuses =
     [(''finish_workflow'', ''finalized''), (''task_exception'', ''failed''), (''cancel_dynamic_run'', ''canceled''),
      (''timeout_dynamic_run'', ''timed_out''), (''interrupt_dynamic_run'', ''interrupted'')]"

definition event_terminal_status :: "event \<Rightarrow> string option" where
  "event_terminal_status e = (case vget e ''type'' of VStr t \<Rightarrow> map_of terminal_event_statuses t | _ \<Rightarrow> None)"

definition terminal_candidates :: "event list \<Rightarrow> (event \<times> string) list" where
  "terminal_candidates evs = List.map_filter (\<lambda>e. map_option (Pair e) (event_terminal_status e)) evs"

definition terminal_event_for_recovery ::
    "(string \<Rightarrow> (time \<times> bool) option) \<Rightarrow> string \<Rightarrow> event list \<Rightarrow> (event \<times> string) option result" where
  "terminal_event_for_recovery parse run evs =
     (case terminal_candidates evs of
        [] \<Rightarrow> Inr None
      | [(e, st)] \<Rightarrow>
          let d = dict_or_empty (vget e ''data'') in
          if \<not> is_dict (vget e ''data'') \<or> vget d ''run_id'' \<noteq> VStr run \<or> vget d ''run_status'' \<noteq> VStr st
          then Inl (ValueError ''Invalid terminal dynamic event'')
          else if sequence_or_0 e \<noteq> Max (set (map sequence_or_0 evs))
          then Inl (ValueError ''Terminal dynamic event is not last'')
          else (case vget e ''timestamp'' of
              VStr ts \<Rightarrow>
                if ts = [] then Inl (ValueError ''Terminal dynamic event has no timestamp'')
                else (case parse ts of
                    None \<Rightarrow> Inl (ValueError ''Terminal dynamic event has an invalid timestamp'')
                  | Some (_, zone) \<Rightarrow>
                      if zone then Inr (Some (e, st)) else Inl (ValueError ''Terminal dynamic event timestamp has no timezone''))
            | _ \<Rightarrow> Inl (ValueError ''Terminal dynamic event has no timestamp''))
      | _ \<Rightarrow> Inl (ValueError ''Multiple terminal dynamic events''))"

section \<open>Snapshots\<close>

definition string_items :: "pyval \<Rightarrow> string list" where
  "string_items v = (case v of VList xs \<Rightarrow> List.map_filter (\<lambda>x. case x of VStr s \<Rightarrow> Some s | _ \<Rightarrow> None) xs | _ \<Rightarrow> [])"

definition on_dict :: "string \<Rightarrow> ((string, pyval) dict \<Rightarrow> (string, pyval) dict) \<Rightarrow> event \<Rightarrow> event" where
  "on_dict k f snap = (case vget snap k of VDict d \<Rightarrow> dput k (VDict (f d)) snap | _ \<Rightarrow> snap)"

definition drop_ids :: "string list \<Rightarrow> pyval \<Rightarrow> pyval" where
  "drop_ids ids v = (case v of VList xs \<Rightarrow> VList (filter (\<lambda>x. x \<notin> VStr ` set ids) xs) | _ \<Rightarrow> v)"

definition fail_task_lists :: "string list \<Rightarrow> (string, pyval) dict \<Rightarrow> (string, pyval) dict" where
  "fail_task_lists ids ts =
     (let ts1 = foldl (\<lambda>d k. if dhas k d then dput k (drop_ids ids (vget d k)) d else d) ts [''pending'', ''submitted'', ''running''] in
      dput ''failed'' (VList (map VStr (sort (remdups (string_items (vget ts1 ''failed'') @ ids))))) ts1)"

definition fail_node :: "pyval \<Rightarrow> time \<Rightarrow> (string, pyval) dict \<Rightarrow> string \<Rightarrow> (string, pyval) dict" where
  "fail_node err t nodes i =
     (case vget nodes i of
        VDict n \<Rightarrow> dput i (VDict (dput ''error'' err (dput ''finish_time'' (VFloat (Fin t)) (dput ''status'' (VStr ''failed'') n)))) nodes
      | _ \<Rightarrow> nodes)"

definition count_tasks :: "pyval \<Rightarrow> (string, pyval) dict \<Rightarrow> (string, pyval) dict" where
  "count_tasks tv counts =
     foldl (\<lambda>d k. case vget (dict_or_empty tv) k of VList xs \<Rightarrow> dput k (VInt (int (length xs))) d | _ \<Rightarrow> d)
       counts [''pending'', ''submitted'', ''running'', ''completed'', ''failed'']"

definition fail_snapshot_tasks :: "string list \<Rightarrow> pyval \<Rightarrow> time \<Rightarrow> event \<Rightarrow> event" where
  "fail_snapshot_tasks ids err t snap =
     (if ids = [] then snap
      else
        (let s1 = on_dict ''tasks'' (fail_task_lists ids) snap;
             s2 = on_dict ''task_errors'' (\<lambda>d. foldl (\<lambda>d i. dput i err d) d ids) (dsetdefault ''task_errors'' (VDict []) s1);
             s3 = on_dict ''task_nodes'' (\<lambda>d. foldl (fail_node err t) d ids) s2
         in if is_dict (vget s3 ''tasks'') then on_dict ''task_counts'' (count_tasks (vget s3 ''tasks'')) s3 else s3))"

definition active_task_ids :: "event \<Rightarrow> string list" where
  "active_task_ids snap =
     (let ts = dict_or_empty (vget snap ''tasks'') in
      remdups (concat (map (\<lambda>k. string_items (vget ts k)) [''pending'', ''submitted'', ''running''])))"

definition event_time :: "(string \<Rightarrow> (time \<times> bool) option) \<Rightarrow> event \<Rightarrow> time" where
  "event_time parse e = (case vget e ''timestamp'' of VStr ts \<Rightarrow> (case parse ts of Some (t, _) \<Rightarrow> t | None \<Rightarrow> 0) | _ \<Rightarrow> 0)"

definition put_if_dict :: "string \<Rightarrow> string \<Rightarrow> pyval \<Rightarrow> event \<Rightarrow> event" where
  "put_if_dict k i v snap =
     (if is_dict v then on_dict k (dput i v) (dsetdefault k (VDict []) snap) else snap)"

definition apply_terminal_event ::
    "(string \<Rightarrow> (time \<times> bool) option) \<Rightarrow> event \<Rightarrow> string \<Rightarrow> event list \<Rightarrow> event \<Rightarrow> event" where
  "apply_terminal_event parse e st evs snap =
     (let d = dict_or_empty (vget e ''data''); t = event_time parse e;
          s1 = dput ''updated_time'' (VFloat (Fin t)) (dput ''finished_time'' (VFloat (Fin t)) (dput ''status'' (VStr st) snap));
          s2 = (if st = ''finalized'' then dput ''final_result'' (vget d ''result'') s1
                else if st = ''canceled'' then dput ''cancel_reason'' (vget d ''reason'') s1
                else if st = ''failed'' then
                  (let err = vgetd d ''error'' (vget d ''result''); s3 = dput ''failure_reason'' err s1 in
                   case vget d ''task_id'' of
                     VStr i \<Rightarrow>
                       if i = [] then s3
                       else put_if_dict ''task_fault_tolerance'' i (vget d ''fault_tolerance'')
                              (put_if_dict ''task_file_manifests'' i (vget d ''file_manifest'') (fail_snapshot_tasks [i] err t s3))
                   | _ \<Rightarrow> s3)
                else if st = ''timed_out'' then
                  (let err = error_value ''timeout'' (''Dynamic run timed out after '' @ py_str (vget d ''timeout_seconds'') @ '' seconds'')
                   in fail_snapshot_tasks (active_task_ids s1) err t (dput ''failure_reason'' err s1))
                else if st = ''interrupted'' then
                  (let err = VDict [(''error_type'', VStr ''interrupted''),
                         (''message'', vor (vget d ''reason'') (VStr ''Scheduler process exited before the dynamic run completed''))]
                   in fail_snapshot_tasks (active_task_ids s1) err t (dput ''failure_reason'' (vget d ''reason'') s1))
                else s1)
      in dput ''last_event_seq'' (VInt (last_sequence evs)) (dput ''event_count'' (VInt (int (length evs))) s2))"

section \<open>Recovering one run\<close>

definition snapshot_workspace :: "event \<Rightarrow> string option" where
  "snapshot_workspace snap =
     (case vget (dict_or_empty (vget snap ''file_context'')) ''workspace_dir'' of
        VStr w \<Rightarrow> if w = [] then None else Some w
      | _ \<Rightarrow> None)"

text \<open>\<open>save_run\<close> replaces the file in one step, so its outcome is all or nothing.\<close>

definition save_run_file :: "write_outcome \<Rightarrow> string \<Rightarrow> event \<Rightarrow> run_store \<Rightarrow> run_store \<times> unit result" where
  "save_run_file w run snap s =
     ((if w = Written \<or> w = Unsynced then s\<lparr>run_files := dput run snap (run_files s)\<rparr> else s),
      if w = Written then Inr () else Inl (OSError ''write''))"

fun sync_events :: "write_outcome list list \<Rightarrow> string \<Rightarrow> string option \<Rightarrow> event list \<Rightarrow> run_store \<Rightarrow> run_store \<times> unit result" where
  "sync_events os run ws [] s = (s, Inr ())"
| "sync_events os run ws (e # es) s =
     (case store_append_event (case os of [] \<Rightarrow> [] | w # _ \<Rightarrow> w) True run ws e s of
        (s1, Inl x) \<Rightarrow> (s1, Inl x)
      | (s1, Inr _) \<Rightarrow> sync_events (tl os) run ws es s1)"

definition interrupt_reason :: string where
  "interrupt_reason = ''Head process restarted before run completed''"

definition interrupt_event :: "string \<Rightarrow> int \<Rightarrow> string \<Rightarrow> event" where
  "interrupt_event ts n run =
     [(''type'', VStr ''interrupt_dynamic_run''), (''seq'', VInt n), (''timestamp'', VStr ts), (''schema_version'', VInt 1),
      (''data'', VDict [(''run_id'', VStr run), (''run_status'', VStr ''interrupted''), (''reason'', VStr interrupt_reason)])]"

definition interrupted_snapshot :: "time \<Rightarrow> event \<Rightarrow> event" where
  "interrupted_snapshot now snap =
     (let s1 = dput ''status'' (VStr ''interrupted'') snap;
          s2 = dput ''finished_time'' (vor (vget s1 ''finished_time'') (VFloat (Fin now))) s1;
          s3 = dput ''updated_time'' (VFloat (Fin now)) s2
      in dput ''failure_reason'' (vor (vget s3 ''failure_reason'') (VStr interrupt_reason)) s3)"

definition active_statuses :: "pyval list" where
  "active_statuses = [VStr ''created'', VStr ''running'']"

text \<open>One round of the loop: the outcomes of the appends, the outcome of the save, the time and its text.\<close>

definition recover_run ::
    "(string \<Rightarrow> (time \<times> bool) option) \<Rightarrow> time \<Rightarrow> string \<Rightarrow> write_outcome list list \<Rightarrow> write_outcome \<Rightarrow> string \<Rightarrow> run_store
       \<Rightarrow> run_store \<times> unit result" where
  "recover_run parse now ts os w run s =
     (case map_of (run_files s) run of
        None \<Rightarrow> (s, Inr ())
      | Some snap \<Rightarrow>
          if vget snap ''status'' \<notin> set active_statuses then (s, Inr ())
          else
            (case load_events_path (file_of (Canonical run) s) of
               Inl x \<Rightarrow> (s, Inl x)
             | Inr evs \<Rightarrow>
                 (case terminal_event_for_recovery parse run evs of
                    Inl x \<Rightarrow> (s, Inl x)
                  | Inr (Some (e, st)) \<Rightarrow>
                      (case sync_events os run (snapshot_workspace snap) evs s of
                         (s1, Inl x) \<Rightarrow> (s1, Inl x)
                       | (s1, Inr _) \<Rightarrow> save_run_file w run (apply_terminal_event parse e st evs snap) s1)
                  | Inr None \<Rightarrow>
                      (case sync_events os run (snapshot_workspace snap) (evs @ [interrupt_event ts (last_sequence evs + 1) run]) s of
                         (s1, Inl x) \<Rightarrow> (s1, Inl x)
                       | (s1, Inr _) \<Rightarrow>
                           (case load_events_path (file_of (Canonical run) s1) of
                              Inl x \<Rightarrow> (s1, Inl x)
                            | Inr evs1 \<Rightarrow>
                                save_run_file w run
                                  (dput ''last_event_seq'' (VInt (last_sequence evs1))
                                     (dput ''event_count'' (VInt (int (length evs1))) (interrupted_snapshot now snap))) s1)))))"

text \<open>All runs in the order of \<open>list_runs\<close>; an exception ends the loop, and with it the start of the core.\<close>

fun recover_runs ::
    "(string \<Rightarrow> (time \<times> bool) option) \<Rightarrow> time \<Rightarrow> string \<Rightarrow> string list \<Rightarrow> run_store \<Rightarrow> run_store \<times> unit result" where
  "recover_runs parse now ts [] s = (s, Inr ())"
| "recover_runs parse now ts (r # rs) s =
     (case recover_run parse now ts [] Written r s of
        (s1, Inl x) \<Rightarrow> (s1, Inl x)
      | (s1, Inr _) \<Rightarrow> recover_runs parse now ts rs s1)"


section \<open>Events of a log are complete\<close>

definition complete_event :: "event \<Rightarrow> bool" where
  "complete_event e = (dict_ok e \<and> dhas ''schema_version'' e)"

lemma foldl_dput:
  "dict_ok d \<Longrightarrow> dict_ok (foldl (\<lambda>d (k, v). dput k v d) d xs)"
  "dhas k d \<Longrightarrow> dhas k (foldl (\<lambda>d (k, v). dput k v d) d xs)"
  by (induction xs arbitrary: d) auto

lemma map_of_foldl_dput:
  "dict_ok xs \<Longrightarrow> map_of (foldl (\<lambda>d (k, v). dput k v d) d xs) k = (case map_of xs k of Some v \<Rightarrow> Some v | None \<Rightarrow> map_of d k)"
proof (induction xs arbitrary: d)
  case (Cons p xs)
  obtain a b where p: "p = (a, b)" by (cases p)
  have ok: "dict_ok xs" "map_of xs a = None" using Cons.prems by (auto simp: p dict_ok_def map_of_eq_None_iff)
  then show ?case using Cons.IH [OF ok(1), of "dput a b d"] by (auto simp: p split: option.splits)
qed simp

lemma with_schema_complete: "complete_event (with_schema e)"
  unfolding with_schema_def complete_event_def
  by (intro conjI foldl_dput) (simp_all add: dict_ok_def dkeys_def)

lemma dict_ok_stored: "dict_ok e \<Longrightarrow> dict_ok (stored e)"
proof -
  assume e: "dict_ok e"
  have "mset (map fst (stored e)) = mset (map fst e)"
    unfolding stored_alt mset_map mset_sort by (simp add: image_mset.compositionality comp_def)
  then show ?thesis using e by (metis dict_ok_def mset_eq_imp_distinct_iff)
qed

lemma dhas_stored: "dhas k (stored e) = dhas k e"
  by (simp add: stored_alt dhas_iff map_of_sort_key map_of_map_snd)

lemma complete_stored: "complete_event e \<Longrightarrow> complete_event (stored e)"
  by (simp add: complete_event_def dict_ok_stored dhas_stored)

lemma dict_mset_eq: "dict_ok a \<Longrightarrow> dict_ok b \<Longrightarrow> map_of a = map_of b \<Longrightarrow> mset a = mset b"
proof -
  assume a: "dict_ok a" and b: "dict_ok b" and m: "map_of a = map_of b"
  have "distinct a" "distinct b" using a b by (auto simp: dict_ok_def distinct_map)
  moreover have "set a = set b" using a b m by (auto simp: in_dict_iff)
  ultimately show ?thesis by (simp add: set_eq_iff_mset_eq_distinct)
qed

lemma stored_with_schema: "complete_event e \<Longrightarrow> stored e = e \<Longrightarrow> stored (with_schema e) = e"
proof -
  assume c: "complete_event e" and s: "stored e = e"
  have ok: "dict_ok e" "dhas ''schema_version'' e" using c by (simp_all add: complete_event_def)
  have "map_of (with_schema e) = map_of e"
    using ok by (auto simp: with_schema_def map_of_foldl_dput dhas_iff fun_eq_iff split: option.splits)
  then have "mset (with_schema e) = mset e"
    using with_schema_complete [of e] ok(1) by (intro dict_mset_eq) (simp_all add: complete_event_def)
  then have "stable_normalize (VDict (with_schema e)) = stable_normalize (VDict e)"
    using stable_normalize_order with_schema_complete by (simp add: complete_event_def del: stable_normalize.simps)
  then show ?thesis using s by (simp add: stored_def del: stable_normalize.simps)
qed

definition logs_complete :: "run_store \<Rightarrow> bool" where
  "logs_complete s = (\<forall>p. \<forall>e \<in> set (lf_lines (file_of p s)). complete_event e)"

lemma logs_complete_path:
  assumes "store_ok s" and "logs_complete s" and "complete_event (stored e)"
  shows "logs_complete (fst (append_path w once ign p e s)) \<and>
    (\<forall>k. snd (append_path w once ign p e s) = Inr k \<longrightarrow> complete_event k)"
proof -
  note sp = append_path_spec [OF assms(1), of w once ign p e]
  have "\<forall>q. \<forall>x \<in> set (lf_lines (file_of q (fst (append_path w once ign p e s)))). complete_event x"
    using sp assms(2,3) append_file_lines(2) [of w once ign e "file_of p s"] unfolding logs_complete_def
    by (auto split: if_splits)
  moreover have "complete_event k" if "snd (append_path w once ign p e s) = Inr k" for k
    using that sp append_file_kept [of w once ign e "file_of p s" k] append_file_lines(2) [of w once ign e "file_of p s"] assms(2,3)
    unfolding logs_complete_def by auto
  ultimately show ?thesis by (simp add: logs_complete_def)
qed

lemma logs_complete_each:
  "store_ok s \<Longrightarrow> logs_complete s \<Longrightarrow> complete_event (stored e) \<Longrightarrow> logs_complete (fst (append_each os once e ps s))"
proof (induction os once e ps s rule: append_each.induct)
  case (2 os once e p ps s)
  then show ?case
    using logs_complete_path [OF 2(2-4), of "case os of [] \<Rightarrow> Written | w # _ \<Rightarrow> w" once False p]
      append_path_spec [OF 2(2), of "case os of [] \<Rightarrow> Written | w # _ \<Rightarrow> w" once False p e]
    by (auto split: prod.splits sum.splits)
qed simp

lemma logs_complete_state:
  "store_ok s \<Longrightarrow> logs_complete s \<Longrightarrow> logs_complete (fst (event_log_state p s))"
  using event_log_state_spec [of s p] by (simp add: logs_complete_def)

lemma logs_complete_forget [simp]: "logs_complete (forget p s) = logs_complete s"
  by (simp add: logs_complete_def)

lemma logs_complete_once:
  assumes "store_ok s" and "logs_complete s"
  shows "logs_complete (fst (append_event_once w w' run ws e s))"
proof (cases "event_sequence (with_schema e)")
  case (Inl x)
  then show ?thesis using assms(2) by (simp add: append_event_once_def)
next
  case (Inr n)
  let ?C = "Canonical run"
  obtain s1 r where s1: "event_log_state ?C s = (s1, r)" by fastforce
  have ok1: "store_ok s1" "logs_complete s1"
    using event_log_state_spec [OF assms(1), of ?C] logs_complete_state [OF assms, of ?C] s1 by simp_all
  obtain s2 r2 where s2: "append_path w True True ?C (with_schema e) s1 = (s2, r2)" by fastforce
  have c: "complete_event (stored (with_schema e))" by (rule complete_stored [OF with_schema_complete])
  have ok2: "store_ok s2" "logs_complete s2" "\<And>k. r2 = Inr k \<Longrightarrow> complete_event k"
    using append_path_spec [OF ok1(1), of w True True ?C "with_schema e"] logs_complete_path [OF ok1 c, of w True True ?C] s2 by simp_all
  have m: "logs_complete (fst (append_path w' True False (Mirror x run) k s3))" if "r2 = Inr k" "store_ok s3" "logs_complete s3" for k x s3
    using logs_complete_path [OF that(2,3) complete_stored [OF ok2(3) [OF that(1)]]] by simp
  show ?thesis
  proof (cases r)
    case (Inl x)
    then show ?thesis using ok1 by (simp add: append_event_once_def Inr \<open>event_sequence (with_schema e) = Inr n\<close> s1)
  next
    case (Inr st)
    show ?thesis
    proof (cases r2)
      case (Inl x)
      then show ?thesis using ok2 by (simp add: append_event_once_def \<open>event_sequence (with_schema e) = Inr n\<close> s1 Inr s2)
    next
      case k: (Inr k)
      show ?thesis
      proof (cases ws)
        case None
        then show ?thesis using ok2 by (simp add: append_event_once_def \<open>event_sequence (with_schema e) = Inr n\<close> s1 Inr s2 k)
      next
        case (Some x)
        let ?s3 = "if dhas n (st_events st) then forget (Mirror x run) s2 else s2"
        have "logs_complete (fst (append_path w' True False (Mirror x run) k ?s3))"
          using ok2 by (intro m [OF k]) (simp_all add: store_ok_forget)
        then show ?thesis
          by (auto simp: append_event_once_def \<open>event_sequence (with_schema e) = Inr n\<close> s1 Inr s2 k Some Let_def
              split: prod.splits sum.splits)
      qed
    qed
  qed
qed

lemma reachable_complete:
  assumes "reachable_store s"
  shows "logs_complete s"
proof -
  from assms have "store_ok s \<and> logs_complete s"
    unfolding reachable_store_def
  proof (induction rule: rtranclp_induct)
    case base
    show ?case using store_ok_no_store by (simp add: logs_complete_def no_store_def file_of_def no_file_def)
  next
    case (step s t)
    have "store_ok t" using store_step_ok [OF step.hyps(2)] step.IH by simp
    moreover have "logs_complete t"
      using step.hyps(2)
    proof cases
      case (once w w' run ws e)
      then show ?thesis using logs_complete_once step.IH by simp
    next
      case (appended outcomes once run ws e)
      then show ?thesis using step.IH complete_stored [OF with_schema_complete]
        by (simp add: store_append_event_def logs_complete_each del: append_each.simps)
    next
      case (saved run snap)
      then show ?thesis using step.IH by (simp add: logs_complete_def file_of_def)
    qed (use step.IH in \<open>simp_all add: logs_complete_def\<close>)
    ultimately show ?case by simp
  qed
  then show ?thesis by simp
qed


section \<open>Completing a log\<close>

text \<open>A file that holds the first \<open>m\<close> events of \<open>E\<close>.\<close>

definition prefix_file :: "event list \<Rightarrow> nat \<Rightarrow> log_file \<Rightarrow> bool" where
  "prefix_file E m f = (\<not> lf_damaged f \<and> lf_lines f = take m E \<and> m \<le> length E)"

lemma log_valid_take: "log_valid E \<Longrightarrow> log_valid (take m E)"
  using log_valid_prefix [of "take m E" "drop m E"] by simp

lemma last_sequence_take:
  assumes "log_valid E" and "m < length E"
  shows "last_sequence (take m E) < sequence_or_0 (E ! m)"
proof -
  have "log_valid (take m E @ [E ! m])"
    using log_valid_take [OF assms(1), of "Suc m"] assms(2) by (simp add: take_Suc_conv_app_nth)
  then have a: "\<forall>x \<in> set (take m E). sequence_or_0 x < sequence_or_0 (E ! m)" by (simp add: log_valid_snoc)
  show ?thesis
  proof (cases "take m E = []")
    case True
    then show ?thesis using log_validD(2) [OF assms(1), of "E ! m"] assms(2) by (simp add: last_sequence_def)
  next
    case False
    then show ?thesis using a last_in_set [OF False] by (simp only: last_sequence_def if_False)
  qed
qed

lemma append_prefix:
  assumes f: "prefix_file E m f" and E: "log_valid E" and i: "i < length E" "i \<le> m" and e: "stored e = E ! i" and w: "w \<noteq> Cut"
  obtains m' where "prefix_file E m' (fst (append_file w True False e f))" "m \<le> m'" "m' \<le> max m (Suc i)"
    "\<And>k. snd (append_file w True False e f) = Inr k \<Longrightarrow> i < m'" "w = Written \<Longrightarrow> snd (append_file w True False e f) = Inr (E ! i)"
proof -
  have x: "E ! i \<in> set E" using i(1) by simp
  have q: "event_sequence e = Inr (sequence_or_0 (E ! i))"
    using log_validD(1) [OF E x] event_sequence_stored [of e] e by simp
  have v: "log_valid (lf_lines f)" "\<not> lf_damaged f" using f log_valid_take [OF E] by (auto simp: prefix_file_def)
  show ?thesis
  proof (cases "i < m")
    case True
    have "E ! i \<in> set (lf_lines f)" using True i f by (auto simp: prefix_file_def in_set_conv_nth)
    moreover have "event_payload False (E ! i) = event_payload False e" using e log_validD(3) [OF E x] by (simp add: event_payload_def)
    ultimately have "append_file w True False e f = (f, Inr (E ! i))" using append_file_again [OF v(2,1) _ q] by blast
    then show ?thesis using True f by (intro that [of m]) simp_all
  next
    case False
    then have im: "i = m" using i by simp
    have l: "last_sequence (lf_lines f) < sequence_or_0 (E ! i)"
      using last_sequence_take [OF E] i im f by (simp add: prefix_file_def)
    note fr = append_file_fresh [OF v(2,1) q l w, of True False]
    have s: "take (Suc m) E = take m E @ [E ! m]" using i im by (simp add: take_Suc_conv_app_nth)
    show ?thesis
    proof (cases "lf_lines (fst (append_file w True False e f)) = lf_lines f")
      case True
      then have "w \<noteq> Written" using fr by auto
      then show ?thesis using that [of m] fr True f by (fastforce simp: prefix_file_def)
    next
      case False
      then have "lf_lines (fst (append_file w True False e f)) = take (Suc m) E"
        using fr f e im s by (auto simp: prefix_file_def)
      then show ?thesis using that [of "Suc m"] fr f i im e by (auto simp: prefix_file_def)
    qed
  qed
qed

definition syncing :: "event list \<Rightarrow> string \<Rightarrow> string \<Rightarrow> nat \<Rightarrow> nat \<Rightarrow> run_store \<Rightarrow> bool" where
  "syncing E run ws mc mm s =
     (store_ok s \<and> prefix_file E mc (file_of (Canonical run) s) \<and> prefix_file E mm (file_of (Mirror ws run) s) \<and> mm \<le> mc)"

definition uncut :: "write_outcome list \<Rightarrow> bool" where
  "uncut os = (Cut \<notin> set os)"

lemma uncut_head: "uncut os \<Longrightarrow> (case os of [] \<Rightarrow> Written | w # _ \<Rightarrow> w) \<noteq> Cut \<and> uncut (tl os)"
  by (cases os) (auto simp: uncut_def)

lemma append_both_prefix:
  assumes sy: "syncing E run ws mc mm s" and E: "log_valid E" and i: "i < length E" "i \<le> mm"
    and e: "stored (with_schema e) = E ! i" and os: "uncut os"
  obtains mc' mm' where "syncing E run ws mc' mm' (fst (store_append_event os True run (Some ws) e s))"
    "mc \<le> mc'" "mm \<le> mm'" "snd (store_append_event os True run (Some ws) e s) = Inr () \<Longrightarrow> i < mc' \<and> i < mm'"
    "os = [] \<Longrightarrow> snd (store_append_event os True run (Some ws) e s) = Inr ()"
proof -
  let ?C = "Canonical run" and ?M = "Mirror ws run" and ?e = "with_schema e"
  let ?w = "case os of [] \<Rightarrow> Written | w # _ \<Rightarrow> w" and ?v = "case tl os of [] \<Rightarrow> Written | w # _ \<Rightarrow> w"
  have wv: "?w \<noteq> Cut" "?v \<noteq> Cut" using uncut_head [OF os] uncut_head [of "tl os"] by auto
  have s: "store_ok s" "prefix_file E mc (file_of ?C s)" "prefix_file E mm (file_of ?M s)" "mm \<le> mc"
    using sy by (simp_all add: syncing_def)
  obtain s1 r where s1: "append_path ?w True False ?C ?e s = (s1, r)" by fastforce
  note sp = append_path_spec [OF s(1), of ?w True False ?C ?e, unfolded s1 fst_conv snd_conv]
  obtain mc' where mc: "prefix_file E mc' (file_of ?C s1)" "mc \<le> mc'" "\<And>k. r = Inr k \<Longrightarrow> i < mc'" "os = [] \<Longrightarrow> r = Inr (E ! i)"
    using append_prefix [OF s(2) E i(1) _ e wv(1)] i(2) s(4) sp by (metis list.simps(4) order_trans)
  show ?thesis
  proof (cases r)
    case (Inl x)
    have out: "store_append_event os True run (Some ws) e s = (s1, Inl x)" by (simp add: store_append_event_def s1 Inl)
    have "os \<noteq> []" using mc(4) Inl by auto
    then show ?thesis using mc sp s by (intro that [of mc' mm]) (simp_all add: out syncing_def)
  next
    case (Inr k)
    obtain s2 r2 where s2: "append_path ?v True False ?M ?e s1 = (s2, r2)" by fastforce
    have sp1: "store_ok s1" "file_of ?M s1 = file_of ?M s" using sp by auto
    note sp2 = append_path_spec [OF sp1(1), of ?v True False ?M ?e, unfolded s2 fst_conv snd_conv sp1(2)]
    obtain mm' where mm: "prefix_file E mm' (file_of ?M s2)" "mm \<le> mm'" "mm' \<le> max mm (Suc i)" "\<And>k. r2 = Inr k \<Longrightarrow> i < mm'"
        "os = [] \<Longrightarrow> r2 = Inr (E ! i)"
      using append_prefix [OF s(3) E i e wv(2)] sp2 by (metis list.sel(2) list.simps(4))
    have C2: "file_of ?C s2 = file_of ?C s1" using sp2 by simp
    have le: "mm' \<le> mc'" using mm(3) mc(2) mc(3) [OF Inr] s(4) by simp
    have out: "store_append_event os True run (Some ws) e s = (case r2 of Inl x \<Rightarrow> (s2, Inl x) | Inr _ \<Rightarrow> (s2, Inr ()))"
      by (simp add: store_append_event_def mirror_paths_def s1 s2 Inr)
    have sy2: "syncing E run ws mc' mm' s2" using sp2 mc(1) mm(1) le C2 by (simp add: syncing_def)
    show ?thesis
    proof (rule that [of mc' mm'])
      show "syncing E run ws mc' mm' (fst (store_append_event os True run (Some ws) e s))"
        using sy2 by (simp add: out split: sum.split)
      show "mc \<le> mc'" "mm \<le> mm'" by (fact mc(2), fact mm(2))
      show "i < mc' \<and> i < mm'" if "snd (store_append_event os True run (Some ws) e s) = Inr ()"
        using that mc(3) [OF Inr] mm(4) by (cases r2) (simp_all add: out)
      show "snd (store_append_event os True run (Some ws) e s) = Inr ()" if "os = []"
        using mm(5) [OF that] by (simp add: out)
    qed
  qed
qed

lemma sync_events_prefix:
  assumes "syncing E run ws mc mm s" and "log_valid E" and "i + length es = length E" and "i \<le> mm"
    and "\<forall>j < length es. stored (with_schema (es ! j)) = E ! (i + j)" and "\<forall>o' \<in> set os. uncut o'"
  shows "\<exists>mc' mm'. syncing E run ws mc' mm' (fst (sync_events os run (Some ws) es s)) \<and> mc \<le> mc' \<and> mm \<le> mm' \<and>
    (snd (sync_events os run (Some ws) es s) = Inr () \<longrightarrow> mm' = length E \<and> mc' = length E) \<and>
    (os = [] \<longrightarrow> snd (sync_events os run (Some ws) es s) = Inr ())"
  using assms
proof (induction es arbitrary: os i mc mm s)
  case Nil
  then have "mm \<le> mc" "mm = length E" "mc \<le> length E" by (auto simp: syncing_def prefix_file_def)
  then show ?case using Nil by auto
next
  case (Cons e es)
  let ?o = "case os of [] \<Rightarrow> [] | w # _ \<Rightarrow> w"
  have o: "uncut ?o" "\<forall>o' \<in> set (tl os). uncut o'" using Cons.prems(6) by (cases os; simp add: uncut_def)+
  have e: "stored (with_schema e) = E ! i" using Cons.prems(5) by fastforce
  have il: "i < length E" using Cons.prems(3) by simp
  obtain mc' mm' where a: "syncing E run ws mc' mm' (fst (store_append_event ?o True run (Some ws) e s))"
      "mc \<le> mc'" "mm \<le> mm'" "snd (store_append_event ?o True run (Some ws) e s) = Inr () \<Longrightarrow> i < mc' \<and> i < mm'"
      "?o = [] \<Longrightarrow> snd (store_append_event ?o True run (Some ws) e s) = Inr ()"
    using append_both_prefix [OF Cons.prems(1,2) il Cons.prems(4) e o(1)] by blast
  obtain s1 r where s1: "store_append_event ?o True run (Some ws) e s = (s1, r)" by fastforce
  show ?case
  proof (cases r)
    case (Inl x)
    then show ?thesis using a s1 by (intro exI [of _ mc'] exI [of _ mm']) auto
  next
    case (Inr u)
    have le: "Suc i \<le> mm'" "Suc i + length es = length E" using a(4) s1 Inr Cons.prems(3) by auto
    have nx: "\<forall>j < length es. stored (with_schema (es ! j)) = E ! (Suc i + j)"
      using Cons.prems(5) by (metis Suc_less_eq add_Suc_shift length_Cons nth_Cons_Suc)
    have sy: "syncing E run ws mc' mm' s1" using a(1) s1 by simp
    from Cons.IH [OF sy Cons.prems(2) le(2,1) nx o(2)]
    obtain mc2 mm2 where "syncing E run ws mc2 mm2 (fst (sync_events (tl os) run (Some ws) es s1))" "mc' \<le> mc2" "mm' \<le> mm2"
        "snd (sync_events (tl os) run (Some ws) es s1) = Inr () \<longrightarrow> mm2 = length E \<and> mc2 = length E"
        "tl os = [] \<longrightarrow> snd (sync_events (tl os) run (Some ws) es s1) = Inr ()" by blast
    moreover have "sync_events os run (Some ws) (e # es) s = sync_events (tl os) run (Some ws) es s1"
      by (simp add: s1 Inr)
    ultimately show ?thesis using a(2,3) by (intro exI [of _ mc2] exI [of _ mm2]) auto
  qed
qed


lemma run_files_state: "run_files (fst (event_log_state p s)) = run_files s"
  by (simp add: event_log_state_def forget_def split: option.split sum.split)

lemma run_files_for_append: "run_files (fst (event_for_append ign p e s)) = run_files s"
  using run_files_state [of p s] by (cases "event_log_state p s") (simp add: event_for_append_def split: sum.split)

lemma run_files_path: "run_files (fst (append_path w once ign p e s)) = run_files s"
proof -
  obtain s1 r where s1: "event_for_append ign p e s = (s1, r)" by fastforce
  have f: "run_files s1 = run_files s" using run_files_for_append [of ign p e s] s1 by simp
  show ?thesis
  proof (cases r)
    case (Inl x)
    then show ?thesis by (simp add: append_path_def s1 f forget_def)
  next
    case (Inr a)
    then obtain st old where a: "r = Inr (st, old)" by (cases a) simp
    show ?thesis by (cases old) (simp_all add: append_path_def s1 a f forget_def Let_def)
  qed
qed

lemma run_files_each [simp]: "run_files (fst (append_each os once e ps s)) = run_files s"
proof (induction os once e ps s rule: append_each.induct)
  case (2 os once e p ps s)
  obtain s1 r where s1: "append_path (case os of [] \<Rightarrow> Written | w # _ \<Rightarrow> w) once False p e s = (s1, r)" by fastforce
  have "run_files s1 = run_files s" using run_files_path s1 by (metis fst_conv)
  then show ?case using 2 [OF s1 [symmetric]] s1 by (cases r) simp_all
qed simp

lemma run_files_sync [simp]: "run_files (fst (sync_events os run ws es s)) = run_files s"
proof (induction os run ws es s rule: sync_events.induct)
  case (2 os run ws e es s)
  have "run_files (fst (store_append_event (case os of [] \<Rightarrow> [] | w # _ \<Rightarrow> w) True run ws e s)) = run_files s"
    by (simp add: store_append_event_def del: append_each.simps)
  then show ?case using 2 by (auto split: prod.splits sum.splits)
qed simp

section \<open>Recovery is repeatable\<close>

definition interrupted_event :: "string \<Rightarrow> event list \<Rightarrow> string \<Rightarrow> event" where
  "interrupted_event ts L run = stored (with_schema (interrupt_event ts (last_sequence L + 1) run))"

lemma last_sequence_nonneg: "log_valid L \<Longrightarrow> 0 \<le> last_sequence L"
proof (cases "L = []")
  case False
  assume "log_valid L"
  then have "0 < sequence_or_0 (last L)" using log_validD(2) [of L "last L"] False by simp
  then show ?thesis using False by (simp add: last_sequence_def)
qed (simp add: last_sequence_def)

lemma interrupted_event_vget:
  "vget (interrupted_event ts L run) ''type'' = VStr ''interrupt_dynamic_run''"
  "vget (interrupted_event ts L run) ''timestamp'' = VStr ts"
  "vget (interrupted_event ts L run) ''seq'' = VInt (last_sequence L + 1)"
  by (simp_all add: interrupted_event_def vget_stored with_schema_def interrupt_event_def)

lemma normalize_dict: "stable_normalize (VDict d) = VDict (stored d)"
  by (simp add: stored_def)

lemma interrupted_event_data:
  "vget (interrupted_event ts L run) ''data''
    = VDict (stored [(''run_id'', VStr run), (''run_status'', VStr ''interrupted''), (''reason'', VStr interrupt_reason)])"
  by (simp add: interrupted_event_def vget_stored with_schema_def interrupt_event_def normalize_dict del: stable_normalize.simps)

lemma interrupted_event_seq: "log_valid L \<Longrightarrow> event_sequence (interrupted_event ts L run) = Inr (last_sequence L + 1)"
  using last_sequence_nonneg [of L] by (simp add: event_sequence_def interrupted_event_vget)

lemma interrupted_event_valid: "log_valid L \<Longrightarrow> log_valid (L @ [interrupted_event ts L run])"
  using log_valid_new [of L "interrupted_event ts L run" "last_sequence L + 1"] interrupted_event_seq [of L]
  by (simp add: interrupted_event_def)

lemma interrupted_event_last: "log_valid L \<Longrightarrow> last_sequence (L @ [interrupted_event ts L run]) = last_sequence L + 1"
  using interrupted_event_seq [of L ts run] by (simp add: last_sequence_def sequence_or_0_def)

lemma terminal_candidates_none: "list_all (\<lambda>e. event_terminal_status e = None) L \<Longrightarrow> terminal_candidates L = []"
  unfolding terminal_candidates_def by (induction L) (simp_all add: List.map_filter_simps)

lemma terminal_candidates_append: "terminal_candidates (xs @ ys) = terminal_candidates xs @ terminal_candidates ys"
  unfolding terminal_candidates_def by (induction xs) (simp_all add: List.map_filter_simps split: option.split)

lemma terminal_candidates_one:
  "list_all (\<lambda>e. event_terminal_status e = None) L \<Longrightarrow> event_terminal_status x = Some st \<Longrightarrow> terminal_candidates (L @ [x]) = [(x, st)]"
  using terminal_candidates_none [of L] terminal_candidates_append [of L "[x]"]
  by (simp add: terminal_candidates_def List.map_filter_simps)

lemma Max_last_sequence: "log_valid (L @ [x]) \<Longrightarrow> Max (set (map sequence_or_0 (L @ [x]))) = sequence_or_0 x"
  by (intro Max_eqI) (auto simp: log_valid_snoc less_imp_le)

lemma terminal_interrupted:
  assumes "log_valid L" and "list_all (\<lambda>e. event_terminal_status e = None) L" and "parse ts = Some (t, True)" and "ts \<noteq> []"
  shows "terminal_event_for_recovery parse run (L @ [interrupted_event ts L run]) = Inr (Some (interrupted_event ts L run, ''interrupted''))"
proof -
  let ?x = "interrupted_event ts L run"
  have "event_terminal_status ?x = Some ''interrupted''"
    by (simp add: event_terminal_status_def interrupted_event_vget terminal_event_statuses_def)
  from terminal_candidates_one [OF assms(2) this] Max_last_sequence [OF interrupted_event_valid [OF assms(1)], of ts run]
  show ?thesis using assms(3,4)
    by (simp add: terminal_event_for_recovery_def interrupted_event_vget interrupted_event_data Let_def dict_or_empty_def
        is_dict_def vget_stored)
qed

lemma on_dict_other [simp]: "k \<noteq> j \<Longrightarrow> vget (on_dict j f snap) k = vget snap k"
  by (simp add: on_dict_def split: pyval.split)

lemma vget_dsetdefault [simp]: "k \<noteq> j \<Longrightarrow> vget (dsetdefault j v d) k = vget d k"
  by (simp add: dsetdefault_def)

lemma fail_snapshot_tasks_status [simp]: "vget (fail_snapshot_tasks ids err t snap) ''status'' = vget snap ''status''"
  by (simp add: fail_snapshot_tasks_def Let_def)

lemma apply_terminal_interrupted: "vget (apply_terminal_event parse e ''interrupted'' evs snap) ''status'' = VStr ''interrupted''"
  by (simp add: apply_terminal_event_def Let_def)

lemma interrupted_snapshot_status: "vget (interrupted_snapshot now snap) ''status'' = VStr ''interrupted''"
  by (simp add: interrupted_snapshot_def Let_def)


datatype recovery_try = Recovery_try time string "write_outcome list list" write_outcome

definition try_recover :: "(string \<Rightarrow> (time \<times> bool) option) \<Rightarrow> string \<Rightarrow> run_store \<Rightarrow> recovery_try \<Rightarrow> run_store" where
  "try_recover parse run s a = (case a of Recovery_try now ts os w \<Rightarrow> fst (recover_run parse now ts os w run s))"

fun stamp_of :: "recovery_try \<Rightarrow> string" where "stamp_of (Recovery_try now ts os w) = ts"

definition good_stamp :: "(string \<Rightarrow> (time \<times> bool) option) \<Rightarrow> string \<Rightarrow> bool" where
  "good_stamp parse ts = (ts \<noteq> [] \<and> (case parse ts of Some (_, zone) \<Rightarrow> zone | None \<Rightarrow> False))"

fun try_uncut :: "recovery_try \<Rightarrow> bool" where "try_uncut (Recovery_try now ts os w) = list_all uncut os"

definition recovered :: "string set \<Rightarrow> event list \<Rightarrow> string \<Rightarrow> string \<Rightarrow> run_store \<Rightarrow> bool" where
  "recovered S L run ws s =
     (\<exists>ts \<in> S. syncing (L @ [interrupted_event ts L run]) run ws (Suc (length L)) (Suc (length L)) s \<and>
        (\<exists>snap'. map_of (run_files s) run = Some snap' \<and> vget snap' ''status'' = VStr ''interrupted''))"

definition recovering :: "string set \<Rightarrow> event list \<Rightarrow> string \<Rightarrow> string \<Rightarrow> event \<Rightarrow> run_store \<Rightarrow> bool" where
  "recovering S L run ws snap s =
     ((\<exists>mm. syncing L run ws (length L) mm s \<and> map_of (run_files s) run = Some snap)
      \<or> (\<exists>ts \<in> S. \<exists>mm. syncing (L @ [interrupted_event ts L run]) run ws (Suc (length L)) mm s \<and> map_of (run_files s) run = Some snap)
      \<or> recovered S L run ws s)"

lemma syncing_files [simp]: "syncing E run ws mc mm (s\<lparr>run_files := x\<rparr>) = syncing E run ws mc mm s"
  by (simp add: syncing_def store_ok_def file_of_def)

lemma prefix_load: "log_valid E \<Longrightarrow> prefix_file E m f \<Longrightarrow> load_events_path f = Inr (take m E)"
  using load_valid [of f] log_valid_take [of E m] by (simp add: prefix_file_def)

lemma syncing_shrink:
  assumes "syncing (L @ [x]) run ws mc mm s" and "mc \<le> length L"
  shows "syncing L run ws mc mm s"
  using assms by (auto simp: syncing_def prefix_file_def)

lemma syncing_grow: "syncing L run ws (length L) mm s \<Longrightarrow> syncing (L @ [x]) run ws (length L) mm s"
  by (auto simp: syncing_def prefix_file_def)

lemma good_stampD:
  assumes "good_stamp parse ts"
  obtains t where "parse ts = Some (t, True)" "ts \<noteq> []"
  using assms by (auto simp: good_stamp_def split: option.splits prod.splits)

lemma recover_step:
  assumes rc: "recovering S L run ws snap s" and L: "log_valid L" "list_all complete_event L" "list_all (\<lambda>e. event_terminal_status e = None) L"
    and snap: "vget snap ''status'' \<in> set active_statuses" "snapshot_workspace snap = Some ws"
    and S: "\<forall>ts \<in> S. good_stamp parse ts" "ts \<in> S" and os: "\<forall>o' \<in> set os. uncut o'"
  shows "recovering S L run ws snap (fst (recover_run parse now ts os w run s)) \<and>
    (os = [] \<longrightarrow> w = Written \<longrightarrow> snd (recover_run parse now ts os w run s) = Inr () \<and>
       recovered S L run ws (fst (recover_run parse now ts os w run s)))"
proof -
  let ?x = "\<lambda>ts. interrupted_event ts L run"
  obtain u q where u: "recover_run parse now ts os w run s = (u, q)" by fastforce
  have Lc: "stored (with_schema e) = e" if "e \<in> set L" for e
    using that L(2) log_validD(3) [OF L(1) that] by (intro stored_with_schema) (simp_all add: list_all_iff)
  have xc: "stored (with_schema (?x t)) = ?x t" for t
    by (intro stored_with_schema) (simp_all add: interrupted_event_def complete_stored with_schema_complete)
  have nx: "\<forall>j < length (L @ [e]). stored (with_schema ((L @ [e]) ! j)) = (L @ [?x t]) ! (0 + j)"
    if "stored (with_schema e) = ?x t" for e t
    using that Lc by (auto simp: nth_append less_Suc_eq)
  have act: "VStr ''interrupted'' \<notin> set active_statuses" by (simp add: active_statuses_def)
  from rc consider (done') "recovered S L run ws s"
    | (logged) t mm where "t \<in> S" "syncing (L @ [?x t]) run ws (Suc (length L)) mm s" "map_of (run_files s) run = Some snap"
    | (fresh) mm where "syncing L run ws (length L) mm s" "map_of (run_files s) run = Some snap"
    unfolding recovering_def by blast
  then have "recovering S L run ws snap u \<and> (os = [] \<longrightarrow> w = Written \<longrightarrow> q = Inr () \<and> recovered S L run ws u)"
  proof cases
    case done'
    then have "recover_run parse now ts os w run s = (s, Inr ())"
      using act by (auto simp: recovered_def recover_run_def)
    then have "u = s" "q = Inr ()" using u by simp_all
    then show ?thesis using done' by (simp add: recovering_def)
  next
    case logged
    have v: "log_valid (L @ [?x t])" by (rule interrupted_event_valid [OF L(1)])
    have ld: "load_events_path (file_of (Canonical run) s) = Inr (L @ [?x t])"
      using prefix_load [OF v] logged(2) by (fastforce simp: syncing_def)
    obtain tm where tm: "parse t = Some (tm, True)" "t \<noteq> []" using S(1) logged(1) good_stampD by blast
    note te = terminal_interrupted [of L parse t tm run, OF L(1,3) tm]
    let ?es = "L @ [?x t]" and ?sn = "apply_terminal_event parse (?x t) ''interrupted'' (L @ [?x t]) snap"
    obtain s1 r where s1: "sync_events os run (Some ws) ?es s = (s1, r)" by fastforce
    have len: "0 + length ?es = length (L @ [?x t])" by simp
    from sync_events_prefix [OF logged(2) v len _ nx [OF xc [of t]] os, unfolded s1 fst_conv snd_conv]
    obtain mc' mm' where p: "syncing (L @ [?x t]) run ws mc' mm' s1" "Suc (length L) \<le> mc'"
        "r = Inr () \<longrightarrow> mm' = length (L @ [?x t]) \<and> mc' = length (L @ [?x t])" "os = [] \<longrightarrow> r = Inr ()" by auto
    have mc': "mc' = Suc (length L)" using p(1,2) by (auto simp: syncing_def prefix_file_def)
    have rf: "run_files s1 = run_files s" using run_files_sync [of os run "Some ws" ?es s] s1 by simp
    have out: "(u, q) = (case r of Inl x \<Rightarrow> (s1, Inl x) | Inr _ \<Rightarrow> save_run_file w run ?sn s1)"
      using snap logged(3) u by (simp add: recover_run_def ld te s1)
    show ?thesis
    proof (cases r)
      case (Inl x)
      then show ?thesis using p mc' logged rf out by (auto simp: recovering_def)
    next
      case (Inr y)
      then have m: "mm' = Suc (length L)" using p(3) by simp
      have "recovered S L run ws (s1\<lparr>run_files := dput run ?sn (run_files s1)\<rparr>)"
        unfolding recovered_def using logged(1) p(1) mc' m apply_terminal_interrupted by (intro bexI [of _ t]) simp_all
      moreover have "recovering S L run ws snap s1" using p(1) mc' logged rf by (auto simp: recovering_def)
      ultimately show ?thesis using out by (auto simp: Inr save_run_file_def recovering_def split: if_splits)
    qed
  next
    case fresh
    have ld: "load_events_path (file_of (Canonical run) s) = Inr L"
      using prefix_load [OF L(1)] fresh(1) by (fastforce simp: syncing_def)
    have te: "terminal_event_for_recovery parse run L = Inr None"
      using terminal_candidates_none [OF L(3)] by (simp add: terminal_event_for_recovery_def)
    have v: "log_valid (L @ [?x ts])" by (rule interrupted_event_valid [OF L(1)])
    let ?es = "L @ [interrupt_event ts (last_sequence L + 1) run]"
    obtain s1 r where s1: "sync_events os run (Some ws) ?es s = (s1, r)" by fastforce
    have len: "0 + length ?es = length (L @ [?x ts])" by simp
    have ie: "stored (with_schema (interrupt_event ts (last_sequence L + 1) run)) = ?x ts" by (simp add: interrupted_event_def)
    from sync_events_prefix [OF syncing_grow [OF fresh(1)] v len _ nx [OF ie] os, unfolded s1 fst_conv snd_conv]
    obtain mc' mm' where p: "syncing (L @ [?x ts]) run ws mc' mm' s1" "length L \<le> mc'"
        "r = Inr () \<longrightarrow> mm' = length (L @ [?x ts]) \<and> mc' = length (L @ [?x ts])" "os = [] \<longrightarrow> r = Inr ()" by auto
    have rf: "run_files s1 = run_files s" using run_files_sync [of os run "Some ws" ?es s] s1 by simp
    have mc': "mc' = length L \<or> mc' = Suc (length L)" using p(1,2) by (auto simp: syncing_def prefix_file_def)
    have rc1: "recovering S L run ws snap s1"
      using mc' p(1) syncing_shrink [OF p(1)] fresh(2) rf S(2) by (auto simp: recovering_def)
    show ?thesis
    proof (cases r)
      case (Inl x)
      then have "u = s1" "q = Inl x" using u snap fresh(2) by (simp_all add: recover_run_def ld te s1)
      then show ?thesis using rc1 p(4) Inl by auto
    next
      case (Inr y)
      then have m: "mm' = Suc (length L)" "mc' = Suc (length L)" using p(3) by simp_all
      have ld1: "load_events_path (file_of (Canonical run) s1) = Inr (L @ [?x ts])"
        using prefix_load [OF v] p(1) m by (fastforce simp: syncing_def)
      let ?sn = "dput ''last_event_seq'' (VInt (last_sequence (L @ [?x ts])))
         (dput ''event_count'' (VInt (int (length (L @ [?x ts])))) (interrupted_snapshot now snap))"
      have out: "(u, q) = save_run_file w run ?sn s1"
        using snap fresh(2) u by (simp add: recover_run_def ld te s1 Inr ld1)
      have "recovered S L run ws (s1\<lparr>run_files := dput run ?sn (run_files s1)\<rparr>)"
        unfolding recovered_def using S(2) p(1) m interrupted_snapshot_status by (intro bexI [of _ ts]) simp_all
      then show ?thesis using rc1 out by (auto simp: save_run_file_def recovering_def split: if_splits)
    qed
  qed
  then show ?thesis unfolding u fst_conv snd_conv .
qed

lemma recover_tries:
  assumes "recovering S L run ws snap s" and "log_valid L" "list_all complete_event L" "list_all (\<lambda>e. event_terminal_status e = None) L"
    and "vget snap ''status'' \<in> set active_statuses" "snapshot_workspace snap = Some ws" and "\<forall>ts \<in> S. good_stamp parse ts"
    and "\<forall>a \<in> set tries. try_uncut a \<and> stamp_of a \<in> S"
  shows "recovering S L run ws snap (foldl (try_recover parse run) s tries)"
  using assms(1,8)
proof (induction tries arbitrary: s)
  case (Cons a tries)
  obtain now ts os w where a: "a = Recovery_try now ts os w" by (cases a)
  have "recovering S L run ws snap (try_recover parse run s a)"
    using recover_step [OF Cons.prems(1) assms(2-7), of ts os now w] Cons.prems(2)
    by (simp add: a try_recover_def list_all_iff)
  then show ?case using Cons by simp
qed simp

text \<open>
  C12: Recovery is repeatable, as long as no write cuts a line: take an interrupted run whose log holds no terminal event, whose copy
  of the log is a prefix of it (the copy is written second), and whose files end with whole lines. However often its recovery was
  cut off before by writes that failed without cutting a line, one more recovery succeeds, marks the run interrupted, and leaves its
  log with exactly one more event, the interruption, which the copy of the log also ends with. (After a cut line no event can be
  appended at all: theorem \<open>cut_line_blocks_log\<close> of \<open>Run_Store\<close>.)
\<close>

theorem recovery_converges:
  assumes "reachable_store s" and "lf_lines (file_of (Canonical run) s) = L" and "list_all (\<lambda>e. event_terminal_status e = None) L"
    and "\<not> lf_damaged (file_of (Canonical run) s)" and "\<not> lf_damaged (file_of (Mirror ws run) s)"
    and "k \<le> length L" and "lf_lines (file_of (Mirror ws run) s) = take k L"
    and "map_of (run_files s) run = Some snap" and "vget snap ''status'' \<in> set active_statuses" and "snapshot_workspace snap = Some ws"
    and "\<forall>a \<in> set tries. try_uncut a \<and> good_stamp parse (stamp_of a)" and "good_stamp parse ts"
    and "recover_run parse now ts [] Written run (foldl (try_recover parse run) s tries) = (t, r)"
  shows "r = Inr () \<and> (\<exists>ts'. lf_lines (file_of (Canonical run) t) = L @ [interrupted_event ts' L run] \<and>
    lf_lines (file_of (Mirror ws run) t) = L @ [interrupted_event ts' L run] \<and>
    (\<exists>snap'. map_of (run_files t) run = Some snap' \<and> vget snap' ''status'' = VStr ''interrupted''))"
proof -
  have ok: "store_ok s" by (rule reachable_store_ok [OF assms(1)])
  have L: "log_valid L" "list_all complete_event L"
    using store_okD(1) [OF ok, of "Canonical run"] reachable_complete [OF assms(1)] assms(2)
    unfolding logs_complete_def by (auto simp: list_all_iff)
  let ?S = "Collect (good_stamp parse)" and ?u = "foldl (try_recover parse run) s tries"
  have "syncing L run ws (length L) k s"
    using ok assms(2,4-7) by (simp add: syncing_def prefix_file_def)
  then have rc: "recovering ?S L run ws snap s" using assms(8) by (auto simp: recovering_def)
  have "recovering ?S L run ws snap ?u"
    by (rule recover_tries [OF rc L assms(3,9,10)]) (use assms(11) in auto)
  from recover_step [OF this L assms(3,9,10), of parse ts "[]" now Written] assms(12,13)
  have "r = Inr ()" and "recovered ?S L run ws t" by simp_all
  then show ?thesis by (auto simp: recovered_def syncing_def prefix_file_def)
qed


section \<open>A task that timed out\<close>

lemma vget_with_schema: "dict_ok e \<Longrightarrow> dhas k e \<Longrightarrow> vget (with_schema e) k = vget e k"
  by (auto simp: with_schema_def vget_def dgetd_def map_of_foldl_dput dhas_iff split: option.splits)

text \<open>The event of a failed task carries the state of the run, which a timeout sets to \<open>timed_out\<close>.\<close>

lemma timeout_event:
  assumes "\<not> is_terminal r" and "is_timeout_reason reason" and "dict_ok ev" and "vget ev ''type'' = VStr ''task_exception''"
    and "append_event now ts ev (mark_failed now t reason ft r) = (r1, Inr e)"
  shows "dict_ok e" "vget e ''type'' = VStr ''task_exception''" "vget e ''seq'' = VInt (int (event_seq r) + 1)"
    and "\<exists>d. vget e ''data'' = VDict d \<and> vget d ''run_status'' = VStr ''timed_out''"
proof -
  have st: "status (mark_failed now t reason ft r) = ''timed_out''" "event_seq (mark_failed now t reason ft r) = event_seq r"
    using assms(1,2) by (simp_all add: mark_failed_def set_fault_tolerance_def)
  let ?v = "vor (vget ev ''data'') (VDict [])"
  let ?d = "dput ''run_status'' (VStr ''timed_out'') (dput ''run_id'' (VStr (run_id (mark_failed now t reason ft r))) (dict_or_empty ?v))"
  have e: "e = ddel ''ts'' (stamp_event (event_seq r + 1) ts (dput ''data'' (VDict ?d) ev))"
    using assms(5) st by (auto simp: append_event_def Let_def split: if_splits)
  show "dict_ok e" using assms(3) by (simp add: e stamp_event_def)
  show "vget e ''type'' = VStr ''task_exception''" "vget e ''seq'' = VInt (int (event_seq r) + 1)"
    using assms(4) by (simp_all add: e stamp_event_def vget_def dgetd_def)
  show "\<exists>d. vget e ''data'' = VDict d \<and> vget d ''run_status'' = VStr ''timed_out''"
    by (intro exI [of _ ?d]) (simp add: e stamp_event_def vget_def dgetd_def)
qed

lemma dhas_vget: "vget e k \<noteq> VNone \<Longrightarrow> dhas k e"
  by (auto simp: vget_def dgetd_def dhas_iff split: option.splits)

text \<open>
  C35: When a task of a dynamic run fails by a timeout and the process dies after the event was written but before the
  snapshot was, the next start refuses the run's log: the event says the run timed out, recovery expects that it failed.
\<close>

theorem task_timeout_blocks_recovery:
  assumes "\<not> is_terminal r" and "is_timeout_reason reason" and "dict_ok ev" and "vget ev ''type'' = VStr ''task_exception''"
    and "append_event now ts ev (mark_failed now t reason ft r) = (r1, Inr e)"
    and "reachable_store s" and "\<not> lf_damaged (file_of (Canonical run) s)" and "\<not> lf_damaged (file_of (Mirror ws run) s)"
    and "last_sequence (lf_lines (file_of (Canonical run) s)) \<le> int (event_seq r)"
    and "last_sequence (lf_lines (file_of (Mirror ws run) s)) \<le> int (event_seq r)"
    and "list_all (\<lambda>e. event_terminal_status e = None) (lf_lines (file_of (Canonical run) s))"
    and "map_of (run_files s1) run = Some snap" and "vget snap ''status'' \<in> set active_statuses"
    and "append_event_once Written Written run (Some ws) e s = (s1, Inr ())"
  shows "snd (recover_run parse now' ts' os w run s1) = Inl (ValueError ''Invalid terminal dynamic event'')"
proof -
  let ?L = "lf_lines (file_of (Canonical run) s)" and ?x = "stored (with_schema e)"
  note te = timeout_event [OF assms(1-5)]
  obtain d where d: "vget e ''data'' = VDict d" "vget d ''run_status'' = VStr ''timed_out''" using te(4) by blast
  have w: "vget (with_schema e) k = vget e k" if "vget e k \<noteq> VNone" for k
    using vget_with_schema [OF te(1) dhas_vget [OF that]] .
  have x: "vget ?x ''type'' = VStr ''task_exception''" "vget ?x ''data'' = VDict (stored d)"
    using w [of "''type''"] w [of "''data''"] te(2) d by (simp_all add: vget_stored normalize_dict del: stable_normalize.simps(2))
  have n: "event_sequence (with_schema e) = Inr (int (event_seq r) + 1)"
    using w [of "''seq''"] te(3) by (simp add: event_sequence_def)
  have ok: "store_ok s" by (rule reachable_store_ok [OF assms(6)])
  have v: "log_valid ?L" using store_okD(1) [OF ok] .
  have lt: "last_sequence ?L < int (event_seq r) + 1" "last_sequence (lf_lines (file_of (Mirror ws run) s)) < int (event_seq r) + 1"
    using assms(9,10) by simp_all
  note first = once_files_first [OF assms(7,8) v store_okD(1) [OF ok] n lt, of Written Written]
  have "file_of (Canonical run) s1 = fst (fst (once_files Written Written e (file_of (Canonical run) s) (file_of (Mirror ws run) s)))"
    using append_event_once_spec [OF ok n, of Written Written run ws] assms(14) by simp
  then have C: "lf_lines (file_of (Canonical run) s1) = ?L @ [?x]" "\<not> lf_damaged (file_of (Canonical run) s1)"
    using first(1) by (auto simp: appending_def)
  have ld: "load_events_path (file_of (Canonical run) s1) = Inr (?L @ [?x])"
    using load_valid [OF C(2)] log_valid_new [OF v n lt(1)] C(1) by simp
  have "terminal_candidates (?L @ [?x]) = [(?x, ''failed'')]"
    by (rule terminal_candidates_one [OF assms(11)]) (simp add: event_terminal_status_def x terminal_event_statuses_def)
  moreover have "vget (stored d) ''run_status'' = VStr ''timed_out''" by (simp add: vget_stored d)
  ultimately have "terminal_event_for_recovery parse run (?L @ [?x]) = Inl (ValueError ''Invalid terminal dynamic event'')"
    by (simp add: terminal_event_for_recovery_def x dict_or_empty_def is_dict_def)
  then show ?thesis using assms(12,13) by (simp add: recover_run_def ld)
qed

section \<open>Sample histories\<close>

definition sample_snapshot :: event where
  "sample_snapshot = [(''run_id'', VStr ''r''), (''status'', VStr ''running''), (''file_context'', VDict [(''workspace_dir'', VStr ''w'')])]"

definition crashed_store :: run_store where
  "crashed_store = no_store\<lparr>run_files := dput ''r'' sample_snapshot (run_files no_store)\<rparr>"

lemma reachable_crashed_store: "reachable_store crashed_store"
  unfolding reachable_store_def crashed_store_def using store_step.saved by (rule r_into_rtranclp)

definition sample_parse :: "string \<Rightarrow> (time \<times> bool) option" where
  "sample_parse ts = (if ts = [] then None else Some (1, True))"

theorem recovery_converges_witness:
  "snd (recover_run sample_parse 2 ''t2'' [] Written ''r''
     (foldl (try_recover sample_parse ''r'') crashed_store [Recovery_try 1 ''t1'' [[Written, No_newline]] Written])) = Inr ()"
proof -
  let ?tries = "[Recovery_try 1 ''t1'' [[Written, No_newline]] Written]"
  let ?o = "recover_run sample_parse 2 ''t2'' [] Written ''r'' (foldl (try_recover sample_parse ''r'') crashed_store ?tries)"
  have l: "lf_lines (file_of (Canonical ''r'') crashed_store) = []" "lf_lines (file_of (Mirror ''w'' ''r'') crashed_store) = take 0 []"
    "\<not> lf_damaged (file_of (Canonical ''r'') crashed_store)" "\<not> lf_damaged (file_of (Mirror ''w'' ''r'') crashed_store)"
    "map_of (run_files crashed_store) ''r'' = Some sample_snapshot" "vget sample_snapshot ''status'' \<in> set active_statuses"
    "snapshot_workspace sample_snapshot = Some ''w''" "good_stamp sample_parse ''t2''"
    by code_simp+
  have "try_uncut (Recovery_try 1 ''t1'' [[Written, No_newline]] Written)" "good_stamp sample_parse ''t1''" by code_simp+
  then have t: "\<forall>a \<in> set ?tries. try_uncut a \<and> good_stamp sample_parse (stamp_of a)" by simp
  have out: "?o = (fst ?o, snd ?o)" by simp
  have "snd ?o = Inr ()"
    using recovery_converges [OF reachable_crashed_store l(1) _ l(3,4) _ l(2,5,6,7) t l(8) out] by simp
  then show ?thesis .
qed

theorem task_timeout_blocks_recovery_witness:
  "snd (recover_run sample_parse 2 ''t2'' [] Written ''r''
     (fst (append_event_once Written Written ''r'' (Some ''w'')
        (projr (snd (append_event 1 ''t1'' [(''type'', VStr ''task_exception'')]
           (mark_failed 1 ''a'' (VDict [(''error_type'', VStr ''timeout'')]) VNone (new_run 0 ''r'' 5 VNone VNone []))))) crashed_store)))
   = Inl (ValueError ''Invalid terminal dynamic event'')"
proof -
  let ?reason = "VDict [(''error_type'', VStr ''timeout'')]" and ?ev = "[(''type'', VStr ''task_exception'')]"
  let ?r = "new_run 0 ''r'' 5 VNone VNone []"
  let ?a = "append_event 1 ''t1'' ?ev (mark_failed 1 ''a'' ?reason VNone ?r)"
  let ?e = "projr (snd ?a)"
  let ?o = "append_event_once Written Written ''r'' (Some ''w'') ?e crashed_store"
  have h: "\<not> is_terminal ?r" "is_timeout_reason ?reason" "vget ?ev ''type'' = VStr ''task_exception''"
    "snd ?a = Inr ?e" "\<not> lf_damaged (file_of (Canonical ''r'') crashed_store)" "\<not> lf_damaged (file_of (Mirror ''w'' ''r'') crashed_store)"
    "last_sequence (lf_lines (file_of (Canonical ''r'') crashed_store)) \<le> int (event_seq ?r)"
    "last_sequence (lf_lines (file_of (Mirror ''w'' ''r'') crashed_store)) \<le> int (event_seq ?r)"
    "list_all (\<lambda>e. event_terminal_status e = None) (lf_lines (file_of (Canonical ''r'') crashed_store))"
    "map_of (run_files (fst ?o)) ''r'' = Some sample_snapshot" "vget sample_snapshot ''status'' \<in> set active_statuses"
    "snd ?o = Inr ()"
    by code_simp+
  have d: "dict_ok ?ev" by (simp add: dict_ok_def dkeys_def)
  have a: "?a = (fst ?a, Inr ?e)" using h(4) by (metis prod.collapse)
  have out: "?o = (fst ?o, Inr ())" using h(12) by (metis prod.collapse)
  show ?thesis
    by (rule task_timeout_blocks_recovery [OF h(1,2) d h(3) a reachable_crashed_store h(5-9) h(10,11) out])
qed

end
