(* ===== verification/Core_Events.thy ===== *)
theory Core_Events
  imports Action Attempt_Protocol Run_Recovery
begin

text \<open>
  How the core handles the scheduler's messages about the tasks of dynamic runs (\<open>monitor_coroutine\<close> and
  \<open>_handle_dynamic_scheduler_event\<close> in \<open>maze/core/path/path.py\<close>): a message is accepted or not, changes the run, is
  written to the run's log and snapshot, and a finished task's successors are announced and dispatched. Every write
  may fail; the message is then tried again, and work that is already recorded is continued, not repeated.

  The outcomes of the writes to come are part of the state. The snapshot of a run (\<open>view\<close>), the observation of
  resources (\<open>obs\<close>) and the clocks are arguments. What \<open>run_task\<close> carries besides the task's id is left out, and
  so is the scheduler process, which is taken to be alive.
\<close>

section \<open>State\<close>

record ready_state =
  rs_event :: "event option"
  rs_event_sent :: bool
  rs_dispatched :: bool

record continuation =
  fc_identity :: "pyval \<times> pyval \<times> pyval"
  fc_completed :: bool
  fc_notified :: bool
  fc_ready_ids :: "string list"
  fc_ready :: "(string, ready_state) dict"

record run_box =
  rb_run :: drun
  rb_conts :: "(string, continuation) dict"
  rb_metrics :: "(string, pyval) dict"

record world =
  w_core :: "run_box core"
  w_store :: run_store
  w_io :: "write_outcome list"
  w_sent :: "(string \<times> string) list"
  w_stops :: "string list"
  w_wakes :: "string list"
  w_manifests :: "(task_key, message) dict"

type_synonym 'a core_action = "(world, 'a) action"

section \<open>Actions\<close>

definition next_write :: "write_outcome core_action" where
  "next_write w = (case w_io w of [] \<Rightarrow> (w, Inr Written) | x # xs \<Rightarrow> (w\<lparr>w_io := xs\<rparr>, Inr x))"

definition get_run :: "string \<Rightarrow> run_box core_action" where
  "get_run rid w =
     (case map_of (live_runs (w_core w)) rid of
        None \<Rightarrow> (w, Inl (ValueError ''Dynamic run not found'')) | Some b \<Rightarrow> (w, Inr b))"

definition set_run :: "string \<Rightarrow> run_box \<Rightarrow> unit core_action" where
  "set_run rid b = act_modify (\<lambda>w. w\<lparr>w_core := (w_core w)\<lparr>live_runs := dput rid b (live_runs (w_core w))\<rparr>\<rparr>)"

definition on_cont :: "string \<Rightarrow> string \<Rightarrow> (continuation \<Rightarrow> continuation) \<Rightarrow> unit core_action" where
  "on_cont rid t f =
     act_then (get_run rid) (\<lambda>b.
       case map_of (rb_conts b) t of
         None \<Rightarrow> act_raise (KeyError t)
       | Some c \<Rightarrow> set_run rid (b\<lparr>rb_conts := dput t (f c) (rb_conts b)\<rparr>))"

definition wake :: "string \<Rightarrow> unit core_action" where
  "wake rid = act_modify (\<lambda>w. w\<lparr>w_wakes := w_wakes w @ [rid]\<rparr>)"

definition write_event :: "string \<Rightarrow> string option \<Rightarrow> event \<Rightarrow> unit core_action" where
  "write_event rid ws e =
     act_then next_write (\<lambda>o1. act_then next_write (\<lambda>o2 w.
       case append_event_once o1 o2 rid ws e (w_store w) of (s, r) \<Rightarrow> (w\<lparr>w_store := s\<rparr>, r)))"

text \<open>\<open>_persist_dynamic_run\<close>.\<close>

definition persist_run :: "(run_box \<Rightarrow> event) \<Rightarrow> string \<Rightarrow> unit core_action" where
  "persist_run view rid =
     act_then (get_run rid) (\<lambda>b. act_then next_write (\<lambda>o1 w.
       case save_run_file o1 rid (view b) (w_store w) of (s, r) \<Rightarrow> (w\<lparr>w_store := s\<rparr>, r)))"

text \<open>Appending to the run's log in memory, then to the file, then saving the snapshot.\<close>

definition log_in_memory :: "time \<Rightarrow> string \<Rightarrow> string \<Rightarrow> event \<Rightarrow> event core_action" where
  "log_in_memory now ts rid ev =
     act_then (get_run rid) (\<lambda>b.
       case append_event now ts ev (rb_run b) of
         (r, Inl x) \<Rightarrow> act_raise x
       | (r, Inr e) \<Rightarrow> act_then (set_run rid (b\<lparr>rb_run := r\<rparr>)) (\<lambda>_. act_return e))"

definition log_on_disk :: "(run_box \<Rightarrow> event) \<Rightarrow> string \<Rightarrow> event \<Rightarrow> unit core_action" where
  "log_on_disk view rid e =
     act_then (get_run rid) (\<lambda>b. act_then (write_event rid (snapshot_workspace (view b)) e) (\<lambda>_. persist_run view rid))"

definition message_event :: "msg_kind \<Rightarrow> message \<Rightarrow> event" where
  "message_event m d =
     [(''type'', VStr (case m of Start_task \<Rightarrow> ''start_task'' | Finish_task \<Rightarrow> ''finish_task''
                        | Task_retry \<Rightarrow> ''task_retry'' | Task_exception \<Rightarrow> ''task_exception'')),
      (''data'', VDict d)]"

definition note_metrics :: "msg_kind \<Rightarrow> message \<Rightarrow> string \<Rightarrow> run_box \<Rightarrow> run_box" where
  "note_metrics m d t b =
     b\<lparr>rb_metrics := (if m = Start_task then ddel t (rb_metrics b)
                      else if is_dict (vget d ''metrics'') then dput t (vget d ''metrics'') (rb_metrics b)
                      else rb_metrics b)\<rparr>"

definition persist_scheduler_event ::
    "(run_box \<Rightarrow> event) \<Rightarrow> time \<Rightarrow> string \<Rightarrow> string \<Rightarrow> string \<Rightarrow> msg_kind \<Rightarrow> message \<Rightarrow> unit core_action" where
  "persist_scheduler_event view now ts rid t m d =
     act_then (get_run rid) (\<lambda>b. act_then (set_run rid (note_metrics m d t b)) (\<lambda>_.
     act_then (log_in_memory now ts rid (message_event m d)) (\<lambda>e. log_on_disk view rid e)))"

text \<open>\<open>_emit_dynamic_event\<close>: an event that carries a number is one of the log and is only written again.\<close>

definition emit_event :: "(run_box \<Rightarrow> event) \<Rightarrow> time \<Rightarrow> string \<Rightarrow> string \<Rightarrow> event \<Rightarrow> event core_action" where
  "emit_event view now ts rid ev =
     act_then (get_run rid) (\<lambda>b.
     act_then
       (if vget ev ''seq'' = VNone then log_in_memory now ts rid ev
        else (case event_sequence ev of
            Inl x \<Rightarrow> act_raise x
          | Inr _ \<Rightarrow>
              (case first_match (\<lambda>e. vget e ''seq'' = vget ev ''seq'') (events (rb_run b)) of
                 None \<Rightarrow> log_in_memory now ts rid ev
               | Some e \<Rightarrow> if e = ev then act_return e else act_raise (RuntimeError ''Dynamic event sequence conflict''))))
     (\<lambda>e. act_then (log_on_disk view rid e) (\<lambda>_. act_then (wake rid) (\<lambda>_. act_return e))))"

section \<open>Continuing a finished task\<close>

definition ready_event :: "string \<Rightarrow> code_task \<Rightarrow> event" where
  "ready_event rid x =
     [(''type'', VStr ''task_ready''),
      (''data'', VDict [(''run_id'', VStr rid), (''task_id'', VStr (ct_id x)), (''task_name'', VStr (ct_name x)), (''task_kind'', VStr (ct_kind x))])]"

definition on_ready :: "string \<Rightarrow> string \<Rightarrow> string \<Rightarrow> (ready_state \<Rightarrow> ready_state) \<Rightarrow> unit core_action" where
  "on_ready rid t i f =
     on_cont rid t (\<lambda>c. case map_of (fc_ready c) i of None \<Rightarrow> c | Some x \<Rightarrow> c\<lparr>fc_ready := dput i (f x) (fc_ready c)\<rparr>)"

definition get_cont :: "string \<Rightarrow> string \<Rightarrow> continuation core_action" where
  "get_cont rid t =
     act_then (get_run rid) (\<lambda>b. case map_of (rb_conts b) t of None \<Rightarrow> act_raise (KeyError t) | Some c \<Rightarrow> act_return c)"

definition get_ready :: "string \<Rightarrow> string \<Rightarrow> string \<Rightarrow> ready_state core_action" where
  "get_ready rid t i =
     act_then (get_cont rid t) (\<lambda>c. case map_of (fc_ready c) i of None \<Rightarrow> act_raise (KeyError i) | Some x \<Rightarrow> act_return x)"

text \<open>\<open>_submit_dynamic_task\<close>.\<close>

definition submit_task :: "string \<Rightarrow> string \<Rightarrow> unit core_action" where
  "submit_task rid i = act_modify (\<lambda>w. w\<lparr>w_sent := w_sent w @ [(rid, i)]\<rparr>)"

definition announce_ready :: "(run_box \<Rightarrow> event) \<Rightarrow> time \<Rightarrow> string \<Rightarrow> string \<Rightarrow> string \<Rightarrow> string \<Rightarrow> code_task \<Rightarrow> unit core_action" where
  "announce_ready view now ts rid t i x =
     act_then (get_ready rid t i) (\<lambda>st.
     act_then
       (if rs_event st = None
        then act_then (log_in_memory now ts rid (ready_event rid x)) (\<lambda>e. on_ready rid t i (\<lambda>s. s\<lparr>rs_event := Some e\<rparr>))
        else act_return ()) (\<lambda>_.
     act_then (get_ready rid t i) (\<lambda>st.
     if rs_event_sent st then act_return ()
     else
       (case rs_event st of
          None \<Rightarrow> act_return ()
        | Some e \<Rightarrow>
            act_then (emit_event view now ts rid e) (\<lambda>_.
            act_then (on_ready rid t i (\<lambda>s. s\<lparr>rs_event_sent := True\<rparr>)) (\<lambda>_. persist_run view rid))))))"

definition dispatch_ready :: "(run_box \<Rightarrow> event) \<Rightarrow> string \<Rightarrow> string \<Rightarrow> string \<Rightarrow> unit core_action" where
  "dispatch_ready view rid t i =
     act_then (get_ready rid t i) (\<lambda>st.
     if rs_dispatched st then act_return ()
     else
       act_then (submit_task rid i) (\<lambda>_.
       act_then (on_ready rid t i (\<lambda>s. s\<lparr>rs_dispatched := True\<rparr>)) (\<lambda>_. persist_run view rid)))"

definition release_ready :: "(run_box \<Rightarrow> event) \<Rightarrow> time \<Rightarrow> string \<Rightarrow> string \<Rightarrow> string \<Rightarrow> string \<Rightarrow> unit core_action" where
  "release_ready view now ts rid t i =
     act_then (get_run rid) (\<lambda>b.
       case map_of (dtasks (rb_run b)) i of
         None \<Rightarrow> act_raise (KeyError i)
       | Some x \<Rightarrow> act_then (announce_ready view now ts rid t i (dt_task x)) (\<lambda>_. dispatch_ready view rid t i))"

fun release_all :: "(run_box \<Rightarrow> event) \<Rightarrow> time \<Rightarrow> string \<Rightarrow> string \<Rightarrow> string \<Rightarrow> string list \<Rightarrow> unit core_action" where
  "release_all view now ts rid t [] = act_return ()"
| "release_all view now ts rid t (i # is) = act_then (release_ready view now ts rid t i) (\<lambda>_. release_all view now ts rid t is)"

definition continue_finish :: "(run_box \<Rightarrow> event) \<Rightarrow> time \<Rightarrow> string \<Rightarrow> string \<Rightarrow> string \<Rightarrow> unit core_action" where
  "continue_finish view now ts rid t =
     act_then (get_cont rid t) (\<lambda>c.
     if fc_completed c then persist_run view rid
     else
       act_then
         (if fc_notified c then act_return ()
          else act_then (wake rid) (\<lambda>_. act_then (on_cont rid t (\<lambda>c. c\<lparr>fc_notified := True\<rparr>)) (\<lambda>_. persist_run view rid))) (\<lambda>_.
       act_then (release_all view now ts rid t (fc_ready_ids c)) (\<lambda>_.
       act_then (on_cont rid t (\<lambda>c. c\<lparr>fc_completed := True\<rparr>)) (\<lambda>_. persist_run view rid))))"


section \<open>Handling a message\<close>

definition identity_fields :: "message \<Rightarrow> pyval \<times> pyval \<times> pyval" where
  "identity_fields d = (vget d ''attempt'', vget d ''dispatch_id'', vget d ''lease_id'')"

definition new_continuation :: "message \<Rightarrow> string list \<Rightarrow> continuation" where
  "new_continuation d ready =
     \<lparr>fc_identity = identity_fields d, fc_completed = False, fc_notified = False, fc_ready_ids = ready,
      fc_ready = map (\<lambda>i. (i, \<lparr>rs_event = None, rs_event_sent = False, rs_dispatched = False\<rparr>)) ready\<rparr>"

definition change_run :: "string \<Rightarrow> (run_box \<Rightarrow> run_box) \<Rightarrow> unit core_action" where
  "change_run rid f = act_then (get_run rid) (\<lambda>b. set_run rid (f b))"

text \<open>\<open>_persist_task_file_manifest\<close>.\<close>

definition persist_manifest :: "string \<Rightarrow> string \<Rightarrow> message \<Rightarrow> unit core_action" where
  "persist_manifest rid t m =
     act_then (get_run rid) (\<lambda>b.
       let fc = dict_or_empty (file_context (rb_run b)) in
       if m = [] \<or> \<not> truthy (vget fc ''enabled'') \<or> (truthy (vget fc ''artifact_store'') \<and> \<not> truthy (vget fc ''manifest_root''))
       then act_return ()
       else act_then next_write (\<lambda>o1.
         if o1 = Written then act_modify (\<lambda>w. w\<lparr>w_manifests := dput (rid, t) m (w_manifests w)\<rparr>)
         else act_raise (OSError ''write'')))"

definition error_with_observation :: "pyval \<Rightarrow> pyval \<Rightarrow> pyval" where
  "error_with_observation ob v = (case v of VDict d \<Rightarrow> VDict (dput ''resource_observation'' ob d) | _ \<Rightarrow> v)"

text \<open>
  What a handler did: recorded the message and then succeeded or failed, gave it up because the run had ended, or
  failed before it was recorded. Only a failure carries an exception.
\<close>

datatype handled = Recorded "unit result" | Given_up | Unrecorded pyerr

definition after_record :: "unit core_action \<Rightarrow> unit core_action \<Rightarrow> world \<Rightarrow> world \<times> handled" where
  "after_record before rest w =
     (case before w of
        (w1, Inl x) \<Rightarrow> (w1, Unrecorded x)
      | (w1, Inr _) \<Rightarrow> (case rest w1 of (w2, r) \<Rightarrow> (w2, Recorded r)))"

definition stop_after_artifact_failure :: "message \<Rightarrow> unit core_action" where
  "stop_after_artifact_failure d =
     (case vget d ''error'' of
        VDict e \<Rightarrow>
          if vget e ''error_type'' = VStr ''artifact_error'' \<and> vget e ''origin'' = VStr ''core''
          then act_modify (\<lambda>w. w\<lparr>w_stops := w_stops w @ [py_str (vget d ''workflow_id'')]\<rparr>) else act_return ()
      | _ \<Rightarrow> act_return ())"

definition handle_finish ::
    "(run_box \<Rightarrow> event) \<Rightarrow> (message \<Rightarrow> pyval) \<Rightarrow> time \<Rightarrow> string \<Rightarrow> string \<Rightarrow> string \<Rightarrow> message \<Rightarrow> world \<Rightarrow> world \<times> handled" where
  "handle_finish view obs now ts rid t d w =
     (case publish_manifest d (w_core w) of
        Inl x \<Rightarrow> (w, Unrecorded x)
      | Inr m \<Rightarrow>
          let d1 = (if m = [] then d else dput ''file_manifest'' (VDict m) d);
              d2 = dput ''resource_observation'' (obs d1) d1
          in after_record
               (act_then
                 (act_then (get_run rid) (\<lambda>b.
                   case mark_finished now t (vget d2 ''fault_tolerance'') (set_task_file_manifest now t (if m = [] then VNone else VDict m) (rb_run b)) of
                     (r, ready) \<Rightarrow> set_run rid (b\<lparr>rb_run := r, rb_conts := dput t (new_continuation d2 ready) (rb_conts b)\<rparr>)))
                 (\<lambda>_. act_then (persist_scheduler_event view now ts rid t Finish_task d2) (\<lambda>_. persist_manifest rid t m)))
               (continue_finish view now ts rid t) w)"

definition handle_retry ::
    "(run_box \<Rightarrow> event) \<Rightarrow> (message \<Rightarrow> pyval) \<Rightarrow> time \<Rightarrow> string \<Rightarrow> string \<Rightarrow> string \<Rightarrow> message \<Rightarrow> world \<Rightarrow> world \<times> handled" where
  "handle_retry view obs now ts rid t d =
     (let d1 = ddel ''file_manifest'' d; d2 = dput ''resource_observation'' (obs d1) d1;
          err = error_with_observation (obs d1) (vget d1 ''error'');
          d3 = (if is_dict (vget d1 ''error'') then dput ''error'' err d2 else d2)
      in after_record
           (act_then (change_run rid (\<lambda>b. b\<lparr>rb_run := mark_retrying now t err (vget d3 ''fault_tolerance'') (rb_run b)\<rparr>))
             (\<lambda>_. persist_scheduler_event view now ts rid t Task_retry d3))
           (wake rid))"

definition handle_exception ::
    "(run_box \<Rightarrow> event) \<Rightarrow> (message \<Rightarrow> pyval) \<Rightarrow> time \<Rightarrow> string \<Rightarrow> string \<Rightarrow> string \<Rightarrow> message \<Rightarrow> world \<Rightarrow> world \<times> handled" where
  "handle_exception view obs now ts rid t d =
     (let d1 = ddel ''file_manifest'' d; v = vgetd d1 ''error'' (vget d1 ''result'');
          d2 = dput ''resource_observation'' (obs d1) d1;
          err = error_with_observation (obs d1) v;
          d3 = (if is_dict v then dput ''result'' err (dput ''error'' err d2) else d2)
      in after_record
           (act_then (change_run rid (\<lambda>b. b\<lparr>rb_run := mark_failed now t err (vget d3 ''fault_tolerance'') (rb_run b)\<rparr>))
             (\<lambda>_. persist_scheduler_event view now ts rid t Task_exception d3))
           (act_then (wake rid) (\<lambda>_. stop_after_artifact_failure d3)))"

definition handle_start ::
    "(run_box \<Rightarrow> event) \<Rightarrow> time \<Rightarrow> string \<Rightarrow> string \<Rightarrow> string \<Rightarrow> message \<Rightarrow> world \<Rightarrow> world \<times> handled" where
  "handle_start view now ts rid t d =
     after_record
       (act_then (change_run rid (\<lambda>b. b\<lparr>rb_run := mark_started_run now t (rb_run b)\<rparr>))
         (\<lambda>_. persist_scheduler_event view now ts rid t Start_task d))
       (wake rid)"

text \<open>The resources a task was scheduled with; what else the decision says of them is not part of the run's state here.\<close>

definition note_resources :: "message \<Rightarrow> string \<Rightarrow> run_box \<Rightarrow> run_box" where
  "note_resources dec t b =
     (case vget dec ''requested_resources'' of
        VDict q \<Rightarrow> if q = [] then b else b\<lparr>rb_run := on_task t (\<lambda>x. x\<lparr>ct_resources := Some q\<rparr>) (rb_run b)\<rparr>
      | _ \<Rightarrow> b)"

text \<open>\<open>_handle_dynamic_scheduler_event\<close>.\<close>

definition handle_message ::
    "(run_box \<Rightarrow> event) \<Rightarrow> (message \<Rightarrow> pyval) \<Rightarrow> time \<Rightarrow> string \<Rightarrow> msg_kind \<Rightarrow> message \<Rightarrow> world \<Rightarrow> world \<times> handled" where
  "handle_message view obs now ts m d w =
     (case (vget d ''workflow_id'', vget d ''task_id'') of
        (VStr rid, VStr t) \<Rightarrow>
          (case map_of (live_runs (w_core w)) rid of
             None \<Rightarrow> (w, Unrecorded (ValueError ''Dynamic run not found''))
           | Some b \<Rightarrow>
               if is_terminal (rb_run b) then (w, Given_up)
               else
                 (case or_empty (vget d ''schedule_decision'') of
                    Inl e \<Rightarrow> (w, Unrecorded e)
                  | Inr dec \<Rightarrow>
                      let d1 = dsetdefault ''run_id'' (VStr rid) d;
                          w1 = fst (set_run rid (note_resources dec t b) w)
                      in case m of
                           Start_task \<Rightarrow> handle_start view now ts rid t d1 w1
                         | Finish_task \<Rightarrow> handle_finish view obs now ts rid t d1 w1
                         | Task_retry \<Rightarrow> handle_retry view obs now ts rid t d1 w1
                         | Task_exception \<Rightarrow> handle_exception view obs now ts rid t d1 w1))
      | _ \<Rightarrow> (w, Unrecorded (KeyError ''workflow_id'')))"

definition resume_finish ::
    "(run_box \<Rightarrow> event) \<Rightarrow> time \<Rightarrow> string \<Rightarrow> message \<Rightarrow> unit core_action" where
  "resume_finish view now ts d w =
     (case (vget d ''workflow_id'', vget d ''task_id'') of
        (VStr rid, VStr t) \<Rightarrow>
          (case map_of (live_runs (w_core w)) rid of
             None \<Rightarrow> (w, Inr ())
           | Some b \<Rightarrow>
               (case map_of (rb_conts b) t of
                  None \<Rightarrow> (w, Inr ())
                | Some c \<Rightarrow> if fc_identity c = identity_fields d then continue_finish view now ts rid t w else (w, Inr ())))
      | _ \<Rightarrow> (w, Inr ()))"

section \<open>The monitor\<close>

text \<open>
  One round of \<open>monitor_coroutine\<close>: the message is done with, or the round is repeated with a message after a failed
  write (\<open>OSError\<close> and its subclasses) or a rejected manifest.
\<close>

datatype next_round = Next_message | Repeat_message | Report_failure pyerr

definition is_os_error :: "pyerr \<Rightarrow> bool" where
  "is_os_error e = (case e of OSError _ \<Rightarrow> True | FileNotFoundError _ \<Rightarrow> True | PermissionError _ \<Rightarrow> True | TimeoutError _ \<Rightarrow> True | _ \<Rightarrow> False)"

definition round_after :: "pyerr \<Rightarrow> next_round" where
  "round_after e = (if is_os_error e then Repeat_message else Next_message)"

definition roll_back_world :: "run_box transaction \<Rightarrow> message \<Rightarrow> world \<Rightarrow> world" where
  "roll_back_world tx d w = w\<lparr>w_core := fst (rollback_transaction tx (w_core w, d))\<rparr>"

definition monitor_round ::
    "(run_box \<Rightarrow> event) \<Rightarrow> (message \<Rightarrow> pyval) \<Rightarrow> time \<Rightarrow> string \<Rightarrow> msg_kind \<Rightarrow> message \<Rightarrow> world \<Rightarrow> world \<times> next_round" where
  "monitor_round view obs now ts m d w =
     (case begin_transaction d (w_core w) of
        Inl e \<Rightarrow> (w, round_after e)
      | Inr tx \<Rightarrow>
          (case accept_attempt m d (w_core w) of
             Inl (ArtifactError x) \<Rightarrow> (roll_back_world tx d w, Report_failure (ArtifactError x))
           | Inl e \<Rightarrow> (roll_back_world tx d w, round_after e)
           | Inr (c, False) \<Rightarrow>
               if m = Finish_task
               then (case resume_finish view now ts d (w\<lparr>w_core := c\<rparr>) of
                       (w1, Inl e) \<Rightarrow> (w1, round_after e) | (w1, Inr _) \<Rightarrow> (w1, Next_message))
               else (w\<lparr>w_core := c\<rparr>, Next_message)
           | Inr (c, True) \<Rightarrow>
               (case handle_message view obs now ts m
                       (if m = Task_retry \<or> m = Task_exception then ddel ''file_manifest'' d else d) (w\<lparr>w_core := c\<rparr>) of
                  (w1, Recorded (Inl e)) \<Rightarrow> (w1, round_after e)
                | (w1, Recorded (Inr _)) \<Rightarrow> (w1, Next_message)
                | (w1, Given_up) \<Rightarrow> (roll_back_world tx d w1, Next_message)
                | (w1, Unrecorded e) \<Rightarrow> (roll_back_world tx d w1, round_after e))))"

end
