(* ===== verification/Core_Safety.thy ===== *)
theory Core_Safety
  imports Core_Events
begin

text \<open>
  What holds of the monitor's rounds: an unrecorded message leaves the core as it was, and the successors of a finished
  task are dispatched once however often its message is repeated and whatever writes fail.
\<close>

section \<open>Writes\<close>

text \<open>Properties of the core and the sent messages survive the writes.\<close>

definition core_only :: "(world \<Rightarrow> bool) \<Rightarrow> bool" where
  "core_only P = (\<forall>w w'. P w \<longrightarrow> w_core w' = w_core w \<longrightarrow> w_sent w' = w_sent w \<longrightarrow> P w')"

lemma core_onlyD: "core_only P \<Longrightarrow> P w \<Longrightarrow> w_core w' = w_core w \<Longrightarrow> w_sent w' = w_sent w \<Longrightarrow> P w'"
  by (simp add: core_only_def)

lemma keeping_next_write: "core_only P \<Longrightarrow> keeping P next_write"
  by (rule keepingI) (auto simp: next_write_def elim: core_onlyD split: list.split)

lemma keeping_get_run: "keeping P (get_run rid)"
  by (rule keepingI) (simp add: get_run_def split: option.split)

lemma keeping_wake: "core_only P \<Longrightarrow> keeping P (wake rid)"
  by (rule keepingI) (auto simp: wake_def act_modify_def elim: core_onlyD)

lemma keeping_write_event: "core_only P \<Longrightarrow> keeping P (write_event rid ws e)"
  unfolding write_event_def
  by (intro keeping_then keeping_next_write keepingI) (auto elim: core_onlyD split: prod.split)

lemma keeping_persist_run: "core_only P \<Longrightarrow> keeping P (persist_run view rid)"
  unfolding persist_run_def
  by (intro keeping_then keeping_next_write keeping_get_run keepingI) (auto elim: core_onlyD split: prod.split)

lemma keeping_log_on_disk: "core_only P \<Longrightarrow> keeping P (log_on_disk view rid e)"
  unfolding log_on_disk_def by (intro keeping_then keeping_get_run keeping_write_event keeping_persist_run)

section \<open>Changing a run\<close>

text \<open>\<open>P\<close> does not mind a change of the run \<open>rid\<close> that keeps its continuations.\<close>

definition run_neutral :: "string \<Rightarrow> (world \<Rightarrow> bool) \<Rightarrow> bool" where
  "run_neutral rid P =
     (\<forall>w b b'. P w \<longrightarrow> map_of (live_runs (w_core w)) rid = Some b \<longrightarrow> rb_conts b' = rb_conts b \<longrightarrow>
        P (w\<lparr>w_core := (w_core w)\<lparr>live_runs := dput rid b' (live_runs (w_core w))\<rparr>\<rparr>))"

lemma keeping_log_in_memory: "run_neutral rid P \<Longrightarrow> keeping P (log_in_memory now ts rid ev)"
  by (rule keepingI)
    (auto simp: log_in_memory_def act_then_def get_run_def set_run_def act_modify_def act_return_def act_raise_def run_neutral_def
      split: option.split prod.split sum.split)

lemma keeping_change_run:
  "run_neutral rid P \<Longrightarrow> (\<And>b. rb_conts (f b) = rb_conts b) \<Longrightarrow> keeping P (change_run rid f)"
  by (rule keepingI)
    (auto simp: change_run_def act_then_def get_run_def set_run_def act_modify_def run_neutral_def split: option.split)

lemma keeping_persist_scheduler_event:
  assumes "core_only P" and "run_neutral rid P"
  shows "keeping P (persist_scheduler_event view now ts rid t m d)"
proof -
  have "persist_scheduler_event view now ts rid t m d =
    act_then (change_run rid (note_metrics m d t)) (\<lambda>_. act_then (log_in_memory now ts rid (message_event m d)) (\<lambda>e. log_on_disk view rid e))"
    by (rule ext) (auto simp: persist_scheduler_event_def change_run_def act_then_def split: prod.split sum.split)
  then show ?thesis
    using assms by (auto intro!: keeping_then keeping_change_run keeping_log_in_memory keeping_log_on_disk simp: note_metrics_def)
qed

lemma keeping_emit_event: "core_only P \<Longrightarrow> run_neutral rid P \<Longrightarrow> keeping P (emit_event view now ts rid ev)"
  unfolding emit_event_def
  by (intro keeping_then keeping_get_run)
    (auto intro!: keeping_log_in_memory keeping_return keeping_raise keeping_then keeping_log_on_disk keeping_wake
      split: option.split sum.split)


section \<open>The successors of a finished task\<close>

definition cont_of :: "string \<Rightarrow> string \<Rightarrow> world \<Rightarrow> continuation option" where
  "cont_of rid t w = (case map_of (live_runs (w_core w)) rid of None \<Rightarrow> None | Some b \<Rightarrow> map_of (rb_conts b) t)"

text \<open>The first \<open>j\<close> successors have been dispatched, each once, and the continuation knows which.\<close>

definition sent_upto :: "string \<Rightarrow> string \<Rightarrow> string list \<Rightarrow> (string \<times> string) list \<Rightarrow> nat \<Rightarrow> world \<Rightarrow> bool" where
  "sent_upto rid t ready base j w =
     (\<exists>c. cont_of rid t w = Some c \<and> fc_ready_ids c = ready \<and> j \<le> length ready \<and> w_sent w = base @ map (Pair rid) (take j ready) \<and>
        (\<forall>k < length ready. map_option rs_dispatched (map_of (fc_ready c) (ready ! k)) = Some (k < j)) \<and>
        (fc_completed c \<longrightarrow> j = length ready))"

definition sent_from :: "string \<Rightarrow> string \<Rightarrow> string list \<Rightarrow> (string \<times> string) list \<Rightarrow> nat \<Rightarrow> world \<Rightarrow> bool" where
  "sent_from rid t ready base k w = (\<exists>j \<ge> k. sent_upto rid t ready base j w)"

lemma sent_from_mono: "k \<le> k' \<Longrightarrow> sent_from rid t ready base k' w \<Longrightarrow> sent_from rid t ready base k w"
  unfolding sent_from_def by (meson order_trans)

lemma cont_of_cong: "w_core w' = w_core w \<Longrightarrow> cont_of rid t w' = cont_of rid t w"
  by (simp add: cont_of_def)

lemma core_only_sent: "core_only (sent_upto rid t ready base j)"
  by (simp add: core_only_def sent_upto_def cont_of_def)

lemma cont_of_put:
  "map_of (live_runs (w_core w)) rid = Some b \<Longrightarrow> rb_conts b' = rb_conts b \<Longrightarrow>
   cont_of rid t (w\<lparr>w_core := (w_core w)\<lparr>live_runs := dput rid b' (live_runs (w_core w))\<rparr>\<rparr>) = cont_of rid t w"
  by (simp add: cont_of_def)

lemma run_neutral_sent: "run_neutral rid (sent_upto rid t ready base j)"
  by (simp add: run_neutral_def sent_upto_def cont_of_put)

lemma core_only_sent_from: "core_only (sent_from rid t ready base k)"
  using core_only_sent unfolding core_only_def sent_from_def by blast

lemma run_neutral_sent_from: "run_neutral rid (sent_from rid t ready base k)"
  using run_neutral_sent unfolding run_neutral_def sent_from_def by blast

lemma on_cont_spec:
  assumes "cont_of rid t w = Some c"
  shows "\<exists>w'. on_cont rid t f w = (w', Inr ()) \<and> cont_of rid t w' = Some (f c) \<and> w_sent w' = w_sent w"
  using assms
  by (auto simp: cont_of_def on_cont_def act_then_def get_run_def set_run_def act_modify_def split: option.splits)

lemma sent_upto_cong:
  assumes "sent_upto rid t ready base j w" and "cont_of rid t w = Some c" and "cont_of rid t w' = Some c'" and "w_sent w' = w_sent w"
    and "fc_ready_ids c' = fc_ready_ids c" and "fc_completed c' = fc_completed c"
    and "\<And>x. map_option rs_dispatched (map_of (fc_ready c') x) = map_option rs_dispatched (map_of (fc_ready c) x)"
  shows "sent_upto rid t ready base j w'"
proof -
  from assms(1) obtain c0 where c0: "cont_of rid t w = Some c0" "fc_ready_ids c0 = ready" "j \<le> length ready"
      "w_sent w = base @ map (Pair rid) (take j ready)"
      "\<And>k. k < length ready \<Longrightarrow> map_option rs_dispatched (map_of (fc_ready c0) (ready ! k)) = Some (k < j)"
      "fc_completed c0 \<longrightarrow> j = length ready"
    unfolding sent_upto_def by blast
  have "c0 = c" using c0(1) assms(2) by simp
  show ?thesis
    unfolding sent_upto_def using c0(2-6) assms(3-6) unfolding \<open>c0 = c\<close> assms(7) [symmetric] by (intro exI [of _ c']) metis
qed

lemma keeping_on_cont:
  assumes "\<And>c. fc_ready_ids (f c) = fc_ready_ids c" "\<And>c. fc_ready (f c) = fc_ready c" "\<And>c. fc_completed (f c) = fc_completed c"
  shows "keeping (sent_from rid t ready base k) (on_cont rid t f)"
proof (rule keepingI)
  fix w assume "sent_from rid t ready base k w"
  then obtain j c where j: "k \<le> j" "sent_upto rid t ready base j w" "cont_of rid t w = Some c"
    unfolding sent_from_def sent_upto_def by blast
  obtain w' where "on_cont rid t f w = (w', Inr ())" "cont_of rid t w' = Some (f c)" "w_sent w' = w_sent w"
    using on_cont_spec [OF j(3), of f] by blast
  then show "sent_from rid t ready base k (fst (on_cont rid t f w))"
    using j assms unfolding sent_from_def sent_upto_def by auto
qed

lemma keeping_on_ready:
  assumes "\<And>x. rs_dispatched (f x) = rs_dispatched x"
  shows "keeping (sent_from rid t ready base k) (on_ready rid t i f)"
proof (rule keepingI)
  fix w assume "sent_from rid t ready base k w"
  then obtain j c where j: "k \<le> j" "sent_upto rid t ready base j w" "cont_of rid t w = Some c"
    unfolding sent_from_def sent_upto_def by blast
  let ?g = "\<lambda>c. case map_of (fc_ready c) i of None \<Rightarrow> c | Some x \<Rightarrow> c\<lparr>fc_ready := dput i (f x) (fc_ready c)\<rparr>"
  obtain w' where w': "on_ready rid t i f w = (w', Inr ())" "cont_of rid t w' = Some (?g c)" "w_sent w' = w_sent w"
    using on_cont_spec [OF j(3), of ?g] by (auto simp: on_ready_def)
  have "map_option rs_dispatched (map_of (fc_ready (?g c)) x) = map_option rs_dispatched (map_of (fc_ready c) x)" for x
    using assms by (simp split: option.split)
  moreover have "fc_ready_ids (?g c) = fc_ready_ids c" "fc_completed (?g c) = fc_completed c" by (simp_all split: option.split)
  ultimately have "sent_upto rid t ready base j w'" using sent_upto_cong [OF j(2,3) w'(2,3)] by simp
  then show "sent_from rid t ready base k (fst (on_ready rid t i f w))" using j(1) w'(1) unfolding sent_from_def by auto
qed

lemma keeping_get_cont: "keeping P (get_cont rid t)"
  unfolding get_cont_def by (intro keeping_then keeping_get_run) (simp add: keeping_return keeping_raise split: option.split)

lemma keeping_get_ready: "keeping P (get_ready rid t i)"
  unfolding get_ready_def by (intro keeping_then keeping_get_cont) (simp add: keeping_return keeping_raise split: option.split)

lemma keeping_announce: "keeping (sent_from rid t ready base k) (announce_ready view now ts rid t i x)"
proof -
  note * = core_only_sent_from [of rid t ready base k] run_neutral_sent_from [of rid t ready base k]
  show ?thesis
    unfolding announce_ready_def
    by (intro keeping_then keeping_get_ready)
      (auto intro!: keeping_then keeping_return keeping_get_ready keeping_log_in_memory keeping_emit_event keeping_on_ready keeping_persist_run *
        split: option.split)
qed

lemma submit_and_mark:
  assumes "distinct ready" and "j < length ready"
  shows "triple (sent_upto rid t ready base j)
    (act_then (submit_task rid (ready ! j)) (\<lambda>_. on_ready rid t (ready ! j) (\<lambda>s. s\<lparr>rs_dispatched := True\<rparr>)))
    (\<lambda>_. sent_upto rid t ready base (Suc j)) E"
proof (rule tripleI)
  fix w assume s: "sent_upto rid t ready base j w"
  let ?i = "ready ! j" and ?w1 = "w\<lparr>w_sent := w_sent w @ [(rid, ready ! j)]\<rparr>"
  obtain c where c: "cont_of rid t w = Some c" "fc_ready_ids c = ready" "w_sent w = base @ map (Pair rid) (take j ready)"
      "\<And>k. k < length ready \<Longrightarrow> map_option rs_dispatched (map_of (fc_ready c) (ready ! k)) = Some (k < j)" "\<not> fc_completed c"
    using s assms(2) unfolding sent_upto_def by auto
  obtain st where st: "map_of (fc_ready c) ?i = Some st" using c(4) [OF assms(2)] by (cases "map_of (fc_ready c) ?i") auto
  have c1: "cont_of rid t ?w1 = Some c" using c(1) by (simp add: cont_of_def)
  let ?g = "\<lambda>c. case map_of (fc_ready c) ?i of None \<Rightarrow> c | Some x \<Rightarrow> c\<lparr>fc_ready := dput ?i (x\<lparr>rs_dispatched := True\<rparr>) (fc_ready c)\<rparr>"
  obtain w' where w': "on_cont rid t ?g ?w1 = (w', Inr ())" "cont_of rid t w' = Some (?g c)" "w_sent w' = w_sent ?w1"
    using on_cont_spec [OF c1, of ?g] by blast
  have "map_option rs_dispatched (map_of (fc_ready (?g c)) (ready ! k)) = Some (k < Suc j)" if "k < length ready" for k
    using c(4) [OF that] st nth_eq_iff_index_eq [OF assms(1) that assms(2)] by (auto simp: less_Suc_eq)
  then have "sent_upto rid t ready base (Suc j) w'"
    using c w' st assms(2) unfolding sent_upto_def by (auto simp: take_Suc_conv_app_nth)
  moreover have "act_then (submit_task rid ?i) (\<lambda>_. on_ready rid t ?i (\<lambda>s. s\<lparr>rs_dispatched := True\<rparr>)) w = (w', Inr ())"
    using w'(1) by (simp add: act_then_def submit_task_def act_modify_def on_ready_def)
  ultimately show "case act_then (submit_task rid ?i) (\<lambda>_. on_ready rid t ?i (\<lambda>s. s\<lparr>rs_dispatched := True\<rparr>)) w of
      (w', Inr x) \<Rightarrow> sent_upto rid t ready base (Suc j) w' | (w', Inl e) \<Rightarrow> E w'"
    by simp
qed

lemma get_ready_Inr: "get_ready rid t i w = (w', Inr st) \<Longrightarrow> w' = w \<and> (\<exists>c. cont_of rid t w = Some c \<and> map_of (fc_ready c) i = Some st)"
  by (auto simp: get_ready_def get_cont_def get_run_def act_then_def act_return_def act_raise_def cont_of_def split: option.splits)

lemma get_ready_Inl: "get_ready rid t i w = (w', Inl e) \<Longrightarrow> w' = w"
  by (auto simp: get_ready_def get_cont_def get_run_def act_then_def act_return_def act_raise_def cont_of_def split: option.splits)

lemma dispatch_ready_sent:
  assumes "distinct ready" and "k < length ready"
  shows "triple (sent_from rid t ready base k) (dispatch_ready view rid t (ready ! k)) (\<lambda>_. sent_from rid t ready base (Suc k)) (sent_from rid t ready base k)"
proof (rule tripleI)
  fix w assume "sent_from rid t ready base k w"
  then obtain j where j: "k \<le> j" "sent_upto rid t ready base j w" unfolding sent_from_def by blast
  let ?i = "ready ! k" and ?a = "dispatch_ready view rid t (ready ! k)"
  show "case ?a w of (w', Inr x) \<Rightarrow> sent_from rid t ready base (Suc k) w' | (w', Inl e) \<Rightarrow> sent_from rid t ready base k w'"
  proof (cases "get_ready rid t ?i w")
    case (Pair w1 r)
    show ?thesis
    proof (cases r)
      case (Inl e)
      then show ?thesis using Pair get_ready_Inl [of rid t ?i w w1 e] j by (auto simp: dispatch_ready_def act_then_def sent_from_def)
    next
      case (Inr st)
      then obtain c where w1: "w1 = w" and c: "cont_of rid t w = Some c" "map_of (fc_ready c) ?i = Some st"
        using get_ready_Inr Pair by blast
      have d: "rs_dispatched st = (k < j)" using j(2) c assms(2) unfolding sent_upto_def by auto
      show ?thesis
      proof (cases "k < j")
        case True
        then have "sent_from rid t ready base (Suc k) w" using j(2) unfolding sent_from_def by (intro exI [of _ j]) simp
        then show ?thesis using Pair Inr d w1 True by (simp add: dispatch_ready_def act_then_def act_return_def)
      next
        case False
        then have jk: "j = k" using j(1) by simp
        let ?b = "act_then (act_then (submit_task rid ?i) (\<lambda>_. on_ready rid t ?i (\<lambda>s. s\<lparr>rs_dispatched := True\<rparr>))) (\<lambda>_. persist_run view rid)"
        have tr: "triple (sent_upto rid t ready base k) ?b (\<lambda>_. sent_upto rid t ready base (Suc k)) (sent_upto rid t ready base (Suc k))"
          by (rule triple_then [OF submit_and_mark [OF assms]]) (rule keeping_triple [OF keeping_persist_run [OF core_only_sent]])
        moreover have "?a w = ?b w"
          using Pair Inr d w1 False by (simp add: dispatch_ready_def act_then_assoc act_then_def [of "get_ready rid t ?i"])
        moreover obtain w' q where b: "?b w = (w', q)" by (cases "?b w")
        ultimately have "case q of Inr _ \<Rightarrow> sent_upto rid t ready base (Suc k) w' | Inl _ \<Rightarrow> sent_upto rid t ready base (Suc k) w'"
          and a: "?a w = (w', q)"
          using tripleD [OF tr _ b] j(2) jk b by auto
        then have "sent_from rid t ready base (Suc k) w'"
          unfolding sent_from_def by (intro exI [of _ "Suc k"]) (simp split: sum.splits)
        then show ?thesis using a sent_from_mono [of k "Suc k" rid t ready base w'] by (simp split: sum.split)
      qed
    qed
  qed
qed

lemma release_ready_sent:
  assumes "distinct ready" and "k < length ready"
  shows "triple (sent_from rid t ready base k) (release_ready view now ts rid t (ready ! k)) (\<lambda>_. sent_from rid t ready base (Suc k)) (sent_from rid t ready base k)"
  unfolding release_ready_def
  by (rule triple_then [OF keeping_triple [OF keeping_get_run]])
    (auto intro!: triple_then [OF keeping_triple [OF keeping_announce]] dispatch_ready_sent [OF assms] triple_raise split: option.split)

lemma release_all_sent:
  assumes "distinct ready" and "k \<le> length ready"
  shows "triple (sent_from rid t ready base k) (release_all view now ts rid t (drop k ready)) (\<lambda>_. sent_from rid t ready base (length ready))
    (sent_from rid t ready base 0)"
  using assms(2)
proof (induction "length ready - k" arbitrary: k)
  case 0
  then show ?case by (simp add: triple_def act_return_def)
next
  case (Suc n)
  then have k: "k < length ready" by simp
  have "triple (sent_from rid t ready base (Suc k)) (release_all view now ts rid t (drop (Suc k) ready)) (\<lambda>_. sent_from rid t ready base (length ready))
    (sent_from rid t ready base 0)"
    using Suc by simp
  from triple_then [OF triple_conseq [OF release_ready_sent [OF assms(1) k], where E' = "sent_from rid t ready base 0"] this]
  show ?case using k sent_from_mono [of 0 k] by (simp add: Cons_nth_drop_Suc [symmetric])
qed

lemma continue_finish_sent:
  assumes "distinct ready"
  shows "keeping (sent_from rid t ready base 0) (continue_finish view now ts rid t)"
proof -
  note * = core_only_sent_from [of rid t ready base] run_neutral_sent_from [of rid t ready base]
  have mark: "triple (sent_from rid t ready base (length ready)) (on_cont rid t (\<lambda>c. c\<lparr>fc_completed := True\<rparr>))
    (\<lambda>_. sent_from rid t ready base 0) (sent_from rid t ready base 0)"
  proof (rule tripleI)
    fix w assume "sent_from rid t ready base (length ready) w"
    then obtain c where c: "sent_upto rid t ready base (length ready) w" "cont_of rid t w = Some c"
      unfolding sent_from_def sent_upto_def by (metis le_antisym)
    obtain w' where "on_cont rid t (\<lambda>c. c\<lparr>fc_completed := True\<rparr>) w = (w', Inr ())" "cont_of rid t w' = Some (c\<lparr>fc_completed := True\<rparr>)" "w_sent w' = w_sent w"
      using on_cont_spec [OF c(2)] by blast
    then show "case on_cont rid t (\<lambda>c. c\<lparr>fc_completed := True\<rparr>) w of
        (w', Inr x) \<Rightarrow> sent_from rid t ready base 0 w' | (w', Inl e) \<Rightarrow> sent_from rid t ready base 0 w'"
      using c unfolding sent_from_def sent_upto_def by auto
  qed
  have body: "triple (sent_from rid t ready base 0)
    (act_then
         (if fc_notified c then act_return ()
          else act_then (wake rid) (\<lambda>_. act_then (on_cont rid t (\<lambda>c. c\<lparr>fc_notified := True\<rparr>)) (\<lambda>_. persist_run view rid))) (\<lambda>_.
       act_then (release_all view now ts rid t ready) (\<lambda>_.
       act_then (on_cont rid t (\<lambda>c. c\<lparr>fc_completed := True\<rparr>)) (\<lambda>_. persist_run view rid))))
    (\<lambda>_. sent_from rid t ready base 0) (sent_from rid t ready base 0)" for c
  proof (rule triple_then [where R = "\<lambda>_. sent_from rid t ready base 0"])
    show "triple (sent_from rid t ready base 0)
      (if fc_notified c then act_return ()
          else act_then (wake rid) (\<lambda>_. act_then (on_cont rid t (\<lambda>c. c\<lparr>fc_notified := True\<rparr>)) (\<lambda>_. persist_run view rid)))
      (\<lambda>_. sent_from rid t ready base 0) (sent_from rid t ready base 0)"
      using * by (intro keeping_triple) (auto intro!: keeping_then keeping_return keeping_wake keeping_on_cont keeping_persist_run)
    show "triple (sent_from rid t ready base 0)
      (act_then (release_all view now ts rid t ready) (\<lambda>_. act_then (on_cont rid t (\<lambda>c. c\<lparr>fc_completed := True\<rparr>)) (\<lambda>_. persist_run view rid)))
      (\<lambda>_. sent_from rid t ready base 0) (sent_from rid t ready base 0)"
      using release_all_sent [OF assms, of 0 rid t base view now ts] *
      by (intro triple_then [where R = "\<lambda>_. sent_from rid t ready base (length ready)"] triple_then [OF mark] keeping_triple [OF keeping_persist_run]) simp_all
  qed
  show ?thesis
    unfolding keeping_def
  proof (rule tripleI)
    fix w assume w: "sent_from rid t ready base 0 w"
    then obtain b c where b: "map_of (live_runs (w_core w)) rid = Some b" "map_of (rb_conts b) t = Some c" "fc_ready_ids c = ready"
      unfolding sent_from_def sent_upto_def cont_of_def by (auto split: option.splits)
    have g: "get_cont rid t w = (w, Inr c)" using b by (simp add: get_cont_def get_run_def act_then_def act_return_def)
    show "case continue_finish view now ts rid t w of
        (w', Inr x) \<Rightarrow> sent_from rid t ready base 0 w' | (w', Inl e) \<Rightarrow> sent_from rid t ready base 0 w'"
    proof (cases "fc_completed c")
      case True
      then show ?thesis using w keeping_triple [OF keeping_persist_run [OF *(1)], of 0 view rid] g
        unfolding triple_def by (simp add: continue_finish_def act_then_def)
    next
      case False
      then show ?thesis using w body [of c] g b(3) unfolding triple_def by (simp add: continue_finish_def act_then_def [of "get_cont rid t"])
    qed
  qed
qed


section \<open>A finish message, repeated\<close>

definition ready_successors :: "string \<Rightarrow> drun \<Rightarrow> string list" where
  "ready_successors t r = filter (\<lambda>x. dgetd (task_parents r) x {} \<subseteq> insert t (completed_tasks r)) (pending_tasks r)"

lemma mark_finished_successors:
  assumes "\<not> is_terminal r"
  shows "snd (mark_finished now t ft (set_task_file_manifest now t v r)) = ready_successors t r"
proof -
  let ?r = "set_task_file_manifest now t v r"
  have r: "task_parents ?r = task_parents r" "completed_tasks ?r = completed_tasks r" "pending_tasks ?r = pending_tasks r" "\<not> is_terminal ?r"
    using assms by (simp_all add: set_task_file_manifest_def is_terminal_def)
  show ?thesis
    using mark_finished_frame(2,7,10) [OF r(4), of now t ft] r(1-3)
    by (simp add: ready_successors_def is_task_ready_def [abs_def])
qed

definition attempts_are :: "(task_key, attempt_state) dict \<Rightarrow> world \<Rightarrow> bool" where
  "attempts_are T w = (task_attempts (w_core w) = T)"

lemma core_only_attempts: "core_only (attempts_are T)"
  by (simp add: core_only_def attempts_are_def)

lemma run_neutral_attempts: "run_neutral rid (attempts_are T)"
  by (simp add: run_neutral_def attempts_are_def)

lemma attempts_set_run: "keeping (attempts_are T) (set_run rid b)"
  by (rule keepingI) (simp add: set_run_def act_modify_def attempts_are_def)

lemma attempts_on_cont: "keeping (attempts_are T) (on_cont rid t f)"
  unfolding on_cont_def
  by (intro keeping_then keeping_get_run) (auto intro!: attempts_set_run keeping_raise split: option.split)

lemma attempts_submit: "keeping (attempts_are T) (submit_task rid i)"
  by (rule keepingI) (simp add: submit_task_def act_modify_def attempts_are_def)

lemmas attempts_keeping = core_only_attempts run_neutral_attempts attempts_on_cont attempts_submit
  keeping_then keeping_return keeping_raise keeping_get_run keeping_get_cont keeping_get_ready keeping_log_in_memory keeping_emit_event
  keeping_persist_run keeping_wake

lemma attempts_release: "keeping (attempts_are T) (release_ready view now ts rid t i)"
  unfolding release_ready_def announce_ready_def dispatch_ready_def on_ready_def
  by (intro keeping_then keeping_get_run) (auto intro!: attempts_keeping split: option.split)

lemma attempts_release_all: "keeping (attempts_are T) (release_all view now ts rid t is)"
  by (induction "is") (simp_all add: keeping_return keeping_then attempts_release)

lemma attempts_continue: "keeping (attempts_are T) (continue_finish view now ts rid t)"
  unfolding continue_finish_def
  by (intro keeping_then keeping_get_cont) (auto intro!: attempts_keeping attempts_release_all)

text \<open>The acceptance of a message of a task that has ended, and of a message that ends it.\<close>

definition ended :: "task_key \<Rightarrow> (task_key, attempt_state) dict \<Rightarrow> bool" where
  "ended k T = (\<exists>a. map_of T k = Some a \<and> at_phase a = Attempt_terminal)"

lemma identity_names:
  assumes "task_attempt_identity d = Some (k, i)" and "vget d ''workflow_id'' = VStr rid" and "vget d ''task_id'' = VStr t"
  shows "k = (rid, t)"
  using assms by (auto simp: task_attempt_identity_def task_key_of_def text_field_def split: option.splits pyval.splits if_splits)

lemma hashable_text: "hashable (VStr x)"
  by (simp add: hashable_def)

lemma accept_when_ended:
  assumes "ended (rid, t) (task_attempts c)" and "vget d ''workflow_id'' = VStr rid" and "vget d ''task_id'' = VStr t"
  shows "accept_attempt Finish_task d c = Inr (c, False)"
proof (cases "task_attempt_identity d")
  case (Some ki)
  then have "task_attempt_identity d = Some ((rid, t), snd ki)" using identity_names [OF _ assms(2,3)] by (metis prod.collapse)
  then show ?thesis
    using assms by (auto simp: accept_attempt_def is_rejection_def hashable_key_def hashable_text ended_def accept_identified_def split: option.splits)
qed (use assms in \<open>simp add: accept_attempt_def is_rejection_def hashable_key_def hashable_text split: option.split\<close>)

lemma accept_ends:
  assumes "accept_attempt Finish_task d c = Inr (c', True)" and "vget d ''workflow_id'' = VStr rid" and "vget d ''task_id'' = VStr t"
  shows "ended (rid, t) (task_attempts c')"
proof -
  obtain k i where ki: "task_attempt_identity d = Some (k, i)" "accept_identified Finish_task d k i c = Inr (c', True)"
    using assms(1) by (auto simp: accept_attempt_def is_rejection_def split: if_splits option.splits)
  then show ?thesis
    using identity_names [OF ki(1) assms(2,3)] by (auto elim!: accept_identified_True simp: ended_def new_attempt_def next_phase_def)
qed

text \<open>Until the message is recorded only its task's entries and its run have changed.\<close>

definition aside :: "message \<Rightarrow> world \<Rightarrow> world \<Rightarrow> bool" where
  "aside d w0 w = (touches_only d (w_core w0) (w_core w) \<and> w_sent w = w_sent w0)"

lemma core_only_aside: "core_only (aside d w0)"
  by (simp add: core_only_def aside_def)

lemma dput_twice: "dput k v (dput k u d) = dput k v d"
proof (cases "dhas k d")
  case True
  then show ?thesis unfolding dput_def by (induction d) auto
next
  case False
  then show ?thesis unfolding dput_def by (induction d) auto
qed

lemma run_neutral_aside:
  assumes "vget d ''workflow_id'' = VStr rid"
  shows "run_neutral rid (aside d w0)"
  unfolding run_neutral_def
proof (intro allI impI)
  fix w and b b' :: run_box assume a: "aside d w0 w" "map_of (live_runs (w_core w)) rid = Some b" "rb_conts b' = rb_conts b"
  have "touches_only d (w_core w0) ((w_core w)\<lparr>live_runs := dput rid b' (live_runs (w_core w))\<rparr>)"
    using a(1,2) assms unfolding aside_def touches_only_def
    by (cases "live_runs (w_core w) = live_runs (w_core w0)") (auto simp: dput_twice)
  then show "aside d w0 (w\<lparr>w_core := (w_core w)\<lparr>live_runs := dput rid b' (live_runs (w_core w))\<rparr>\<rparr>)"
    using a(1) by (simp add: aside_def)
qed


lemma aside_set_run:
  assumes "vget d ''workflow_id'' = VStr rid" and "aside d w0 w" and "map_of (live_runs (w_core w)) rid = Some b"
  shows "aside d w0 (fst (set_run rid b' w))"
proof -
  have "touches_only d (w_core w0) ((w_core w)\<lparr>live_runs := dput rid b' (live_runs (w_core w))\<rparr>)"
    using assms unfolding aside_def touches_only_def
    by (cases "live_runs (w_core w) = live_runs (w_core w0)") (auto simp: dput_twice)
  then show ?thesis using assms(2) by (simp add: aside_def set_run_def act_modify_def)
qed

lemma keeping_persist_manifest: "core_only P \<Longrightarrow> keeping P (persist_manifest rid t m)"
proof -
  assume p: "core_only P"
  have "keeping P (if o1 = Written then act_modify (\<lambda>w. w\<lparr>w_manifests := dput (rid, t) m (w_manifests w)\<rparr>) else act_raise (OSError ''write''))"
    for o1
    using p by (auto intro!: keepingI simp: act_modify_def act_raise_def elim: core_onlyD)
  then show ?thesis
    unfolding persist_manifest_def using p
    by (intro keeping_then keeping_get_run) (auto simp: Let_def intro!: keeping_then keeping_return keeping_next_write)
qed

text \<open>What \<open>handle_finish\<close> does before the message counts as recorded.\<close>

definition record_finish ::
    "(run_box \<Rightarrow> event) \<Rightarrow> time \<Rightarrow> string \<Rightarrow> string \<Rightarrow> string \<Rightarrow> message \<Rightarrow> message \<Rightarrow> unit core_action" where
  "record_finish view now ts rid t m d =
     act_then
       (act_then (get_run rid) (\<lambda>b.
         case mark_finished now t (vget d ''fault_tolerance'') (set_task_file_manifest now t (if m = [] then VNone else VDict m) (rb_run b)) of
           (r, ready) \<Rightarrow> set_run rid (b\<lparr>rb_run := r, rb_conts := dput t (new_continuation d ready) (rb_conts b)\<rparr>)))
       (\<lambda>_. act_then (persist_scheduler_event view now ts rid t Finish_task d) (\<lambda>_. persist_manifest rid t m))"

lemma handle_finish_parts:
  "\<exists>d'. handle_finish view obs now ts rid t d w =
     (case publish_manifest d (w_core w) of
        Inl x \<Rightarrow> (w, Unrecorded x)
      | Inr m \<Rightarrow> after_record (record_finish view now ts rid t m d') (continue_finish view now ts rid t) w)"
proof (cases "publish_manifest d (w_core w)")
  case (Inr m)
  then show ?thesis
    by (intro exI [of _ "let d1 = (if m = [] then d else dput ''file_manifest'' (VDict m) d) in dput ''resource_observation'' (obs d1) d1"])
      (simp add: handle_finish_def record_finish_def Let_def)
qed (simp add: handle_finish_def)

lemma record_finish_keeping:
  assumes "core_only P" and "run_neutral rid P" and "\<And>w b b'. P w \<Longrightarrow> map_of (live_runs (w_core w)) rid = Some b \<Longrightarrow> P (fst (set_run rid b' w))"
  shows "keeping P (record_finish view now ts rid t m d)"
proof -
  have "keeping P (act_then (get_run rid) (\<lambda>b.
         case mark_finished now t (vget d ''fault_tolerance'') (set_task_file_manifest now t (if m = [] then VNone else VDict m) (rb_run b)) of
           (r, ready) \<Rightarrow> set_run rid (b\<lparr>rb_run := r, rb_conts := dput t (new_continuation d ready) (rb_conts b)\<rparr>)))"
    using assms(3) by (intro keepingI) (auto simp: act_then_def get_run_def split: option.split prod.split)
  from keeping_then [OF this keeping_then [OF keeping_persist_scheduler_event [OF assms(1,2)] keeping_persist_manifest [OF assms(1)]]]
  show ?thesis unfolding record_finish_def .
qed

lemma new_continuation_sent:
  assumes "cont_of rid t w = Some (new_continuation d ready)"
  shows "sent_upto rid t ready (w_sent w) 0 w"
proof -
  have "map_option rs_dispatched (map_of (map (\<lambda>i. (i, \<lparr>rs_event = None, rs_event_sent = False, rs_dispatched = False\<rparr>)) ready) (ready ! k)) = Some False"
    if "k < length ready" for k
    using that by (simp add: map_of_map_restrict restrict_map_def)
  then show ?thesis using assms unfolding sent_upto_def by (auto simp: new_continuation_def)
qed

lemma record_finish_sent:
  assumes "map_of (live_runs (w_core w)) rid = Some b" and "\<not> is_terminal (rb_run b)"
  shows "sent_upto rid t (ready_successors t (rb_run b)) (w_sent w) 0 (fst (record_finish view now ts rid t m d w))"
proof -
  let ?r = "set_task_file_manifest now t (if m = [] then VNone else VDict m) (rb_run b)"
  let ?mf = "mark_finished now t (vget d ''fault_tolerance'') ?r"
  let ?b = "b\<lparr>rb_run := fst ?mf, rb_conts := dput t (new_continuation d (snd ?mf)) (rb_conts b)\<rparr>"
  let ?w = "fst (set_run rid ?b w)"
  have "cont_of rid t ?w = Some (new_continuation d (ready_successors t (rb_run b)))"
    by (simp add: cont_of_def set_run_def act_modify_def mark_finished_successors [OF assms(2)])
  from new_continuation_sent [OF this] have "sent_upto rid t (ready_successors t (rb_run b)) (w_sent w) 0 ?w"
    by (simp add: set_run_def act_modify_def)
  then have "sent_upto rid t (ready_successors t (rb_run b)) (w_sent w) 0
      (fst (act_then (persist_scheduler_event view now ts rid t Finish_task d) (\<lambda>_. persist_manifest rid t m) ?w))"
    by (rule keeping_D [OF keeping_then [OF keeping_persist_scheduler_event [OF core_only_sent run_neutral_sent] keeping_persist_manifest [OF core_only_sent]]])
  then show ?thesis
    using assms(1) by (simp add: record_finish_def act_then_def get_run_def set_run_def act_modify_def case_prod_beta)
qed


fun repeat_message :: "(run_box \<Rightarrow> event) \<Rightarrow> (message \<Rightarrow> pyval) \<Rightarrow> msg_kind \<Rightarrow> message \<Rightarrow> (time \<times> string) list \<Rightarrow> world \<Rightarrow> world" where
  "repeat_message view obs m d [] w = w"
| "repeat_message view obs m d ((now, ts) # cs) w = repeat_message view obs m d cs (fst (monitor_round view obs now ts m d w))"

text \<open>Nothing has happened, or the message is recorded and its successors are being dispatched.\<close>

definition untouched :: "world \<Rightarrow> world \<Rightarrow> bool" where
  "untouched w0 w = (w_core w = w_core w0 \<and> w_sent w = w_sent w0)"

definition recorded :: "string \<Rightarrow> string \<Rightarrow> string list \<Rightarrow> (string \<times> string) list \<Rightarrow> world \<Rightarrow> bool" where
  "recorded rid t ready base w = (ended (rid, t) (task_attempts (w_core w)) \<and> sent_from rid t ready base 0 w)"

lemma hashable_key_text:
  "vget d ''workflow_id'' = VStr rid \<Longrightarrow> vget d ''task_id'' = VStr t \<Longrightarrow> hashable_key d"
  by (simp add: hashable_key_def hashable_text)

lemma recorded_continue:
  assumes "recorded rid t ready base w" and "distinct ready"
  shows "recorded rid t ready base (fst (continue_finish view now ts rid t w))"
  using assms keeping_D [OF continue_finish_sent [OF assms(2)], of rid t base w view now ts]
    keeping_D [OF attempts_continue, of "task_attempts (w_core w)" w view now ts rid t]
  by (simp add: recorded_def attempts_are_def)

lemma recorded_round:
  assumes "recorded rid t ready base w" and "distinct ready"
    and "vget d ''workflow_id'' = VStr rid" and "vget d ''task_id'' = VStr t"
  shows "recorded rid t ready base (fst (monitor_round view obs now ts Finish_task d w))"
proof -
  obtain tx where "begin_transaction d (w_core w) = Inr tx"
    using hashable_key_text [OF assms(3,4)] by (simp add: begin_transaction_def)
  moreover have "accept_attempt Finish_task d (w_core w) = Inr (w_core w, False)"
    using assms by (intro accept_when_ended) (auto simp: recorded_def)
  ultimately show ?thesis
    using assms(1) recorded_continue [OF assms(1,2), of view now ts]
    by (auto simp: monitor_round_def resume_finish_def assms(3,4) split: option.split prod.split sum.split)
qed

lemma unrecorded_handler:
  assumes "vget d ''workflow_id'' = VStr rid" and "aside d w0 w"
  shows "aside d w0 (fst (record_finish view now ts rid t m d' w))"
proof -
  have "keeping (aside d w0) (record_finish view now ts rid t m d')"
    by (rule record_finish_keeping [OF core_only_aside run_neutral_aside [OF assms(1)]]) (rule aside_set_run [OF assms(1)])
  from keeping_D [OF this assms(2)] show ?thesis .
qed

lemma roll_back_untouched:
  assumes "begin_transaction d (w_core w0) = Inr tx" and "aside d w0 w"
  shows "untouched w0 (roll_back_world tx d w)"
  using rollback_exact [OF assms(1), of "w_core w" d] assms(2) by (simp add: aside_def untouched_def roll_back_world_def)

lemma untouched_refl: "untouched w w"
  by (simp add: untouched_def)

lemma handle_finish_round:
  assumes run: "map_of (live_runs (w_core w)) rid = Some b" and act: "\<not> is_terminal (rb_run b)"
    and wf: "vget d ''workflow_id'' = VStr rid" and a: "aside d w0 w" and e: "ended (rid, t) (task_attempts (w_core w))"
    and dis: "distinct (ready_successors t (rb_run b))" and d1: "d1 = dsetdefault ''run_id'' (VStr rid) d"
    and h: "handle_finish view obs now ts rid t d1 w = (w', r)"
  shows "(case r of Recorded _ \<Rightarrow> recorded rid t (ready_successors t (rb_run b)) (w_sent w) w' | _ \<Rightarrow> aside d w0 w')"
proof -
  let ?ready = "ready_successors t (rb_run b)"
  obtain d' where d': "handle_finish view obs now ts rid t d1 w =
     (case publish_manifest d1 (w_core w) of
        Inl x \<Rightarrow> (w, Unrecorded x)
      | Inr m \<Rightarrow> after_record (record_finish view now ts rid t m d') (continue_finish view now ts rid t) w)"
    using handle_finish_parts by blast
  show ?thesis
  proof (cases "publish_manifest d1 (w_core w)")
    case (Inl x)
    then show ?thesis using d' h a by auto
  next
    case (Inr m)
    obtain w1 q where w1: "record_finish view now ts rid t m d' w = (w1, q)" by fastforce
    have as1: "aside d w0 w1" using unrecorded_handler [OF wf a, of view now ts t m d'] w1 by simp
    have "keeping (attempts_are (task_attempts (w_core w))) (record_finish view now ts rid t m d')"
      by (intro record_finish_keeping core_only_attempts run_neutral_attempts) (simp add: set_run_def act_modify_def attempts_are_def)
    from keeping_D [OF this, of w] have "task_attempts (w_core w1) = task_attempts (w_core w)" using w1 by (simp add: attempts_are_def)
    moreover have "sent_upto rid t ?ready (w_sent w) 0 w1"
      using record_finish_sent [OF run act, of t view now ts m d'] w1 by simp
    ultimately have rec: "recorded rid t ?ready (w_sent w) w1" using e by (auto simp: recorded_def sent_from_def)
    show ?thesis
    proof (cases q)
      case (Inl x)
      then show ?thesis using d' h Inr w1 as1 by (auto simp: after_record_def)
    next
      case (Inr u)
      then show ?thesis
        using d' h \<open>publish_manifest d1 (w_core w) = Inr m\<close> w1 recorded_continue [OF rec dis, of view now ts]
        by (auto simp: after_record_def split: prod.splits)
    qed
  qed
qed

lemma note_resources_frame:
  "is_terminal (rb_run (note_resources dec t b)) = is_terminal (rb_run b)"
  "ready_successors t (rb_run (note_resources dec t b)) = ready_successors t (rb_run b)"
  by (simp_all add: note_resources_def on_task_def ready_successors_def is_terminal_def split: pyval.split option.split)

lemma first_round:
  assumes u: "untouched w0 w" and run: "map_of (live_runs (w_core w0)) rid = Some b" and nc: "map_of (rb_conts b) t = None"
    and dis: "distinct (pending_tasks (rb_run b))" and wf: "vget d ''workflow_id'' = VStr rid" and tk: "vget d ''task_id'' = VStr t"
    and w': "w' = fst (monitor_round view obs now ts Finish_task d w)"
  shows "untouched w0 w' \<or> recorded rid t (ready_successors t (rb_run b)) (w_sent w0) w'"
proof -
  let ?ready = "ready_successors t (rb_run b)"
  have c0: "w_core w = w_core w0" "w_sent w = w_sent w0" using u by (simp_all add: untouched_def)
  obtain tx where tx: "begin_transaction d (w_core w0) = Inr tx"
    using hashable_key_text [OF wf tk] by (simp add: begin_transaction_def)
  have dr: "distinct ?ready" using dis by (simp add: ready_successors_def)
  show ?thesis
  proof (cases "accept_attempt Finish_task d (w_core w0)")
    case (Inl e)
    have "aside d w0 w" using c0 by (simp add: aside_def touches_only_refl)
    from roll_back_untouched [OF tx this] show ?thesis using w' tx Inl c0 by (auto simp: monitor_round_def split: pyerr.split)
  next
    case (Inr cb)
    obtain c ok where cb: "cb = (c, ok)" by (cases cb)
    note acc = Inr [unfolded cb]
    let ?w = "w\<lparr>w_core := c\<rparr>"
    show ?thesis
    proof (cases ok)
      case False
      then have "c = w_core w0" using acc accept_attempt_False [of Finish_task d "w_core w0" c] by simp
      then have "w' = w"
        using w' tx acc False c0 run nc by (simp add: monitor_round_def resume_finish_def wf tk)
      then show ?thesis using u by simp
    next
      case True
      have a: "aside d w0 ?w" using accept_attempt_touches [OF acc] c0 by (simp add: aside_def)
      have l: "live_runs c = live_runs (w_core w0)" using accept_attempt_runs [OF acc] .
      have e: "ended (rid, t) (task_attempts c)" using accept_ends [OF _ wf tk] acc True by simp
      obtain w1 r where h: "handle_message view obs now ts Finish_task d ?w = (w1, r)" by fastforce
      have "case r of Recorded _ \<Rightarrow> recorded rid t ?ready (w_sent w0) w1 | _ \<Rightarrow> aside d w0 w1"
      proof (cases "is_terminal (rb_run b)")
        case True
        then show ?thesis using h l run a by (auto simp: handle_message_def wf tk)
      next
        case False
        note act = False
        show ?thesis
        proof (cases "or_empty (vget d ''schedule_decision'')")
          case (Inl x)
          then show ?thesis using h l run a act by (auto simp: handle_message_def wf tk)
        next
          case (Inr dec)
          let ?b = "note_resources dec t b"
          let ?v = "fst (set_run rid ?b ?w)"
          have hf: "handle_finish view obs now ts rid t (dsetdefault ''run_id'' (VStr rid) d) ?v = (w1, r)"
            using h l run act Inr by (simp add: handle_message_def wf tk)
          have v: "map_of (live_runs (w_core ?v)) rid = Some ?b" "task_attempts (w_core ?v) = task_attempts c" "w_sent ?v = w_sent w"
            by (simp_all add: set_run_def act_modify_def)
          have av: "aside d w0 ?v" using aside_set_run [OF wf a, of b ?b] l run by simp
          note nr = note_resources_frame [where dec = dec and t = t and b = b]
          show ?thesis
            using handle_finish_round [OF v(1) _ wf av _ _ refl hf] act dr e c0(2) unfolding nr v(2,3) by (cases r) simp_all
        qed
      qed
      then show ?thesis
        using w' tx acc True c0 h roll_back_untouched [OF tx, of w1]
        by (cases r) (auto simp: monitor_round_def split: sum.splits)
    qed
  qed
qed

text \<open>
  C8: A finished task releases its successors once. However often its message is delivered again, and whichever writes
  fail in between, either nothing has changed, or the message is recorded and the tasks handed to the scheduler are a
  prefix of the waiting tasks whose last parent it was, each once and in order; all of them when the message is done.
\<close>

theorem finish_dispatches_once:
  assumes "map_of (live_runs (w_core w)) rid = Some b" and "map_of (rb_conts b) t = None" and "distinct (pending_tasks (rb_run b))"
    and "vget d ''workflow_id'' = VStr rid" and "vget d ''task_id'' = VStr t"
    and "w' = repeat_message view obs Finish_task d cs w"
  shows "w_core w' = w_core w \<and> w_sent w' = w_sent w \<or>
    (\<exists>c j. cont_of rid t w' = Some c \<and> w_sent w' = w_sent w @ map (Pair rid) (take j (ready_successors t (rb_run b))) \<and>
       (fc_completed c \<longrightarrow> j = length (ready_successors t (rb_run b))))"
proof -
  let ?ready = "ready_successors t (rb_run b)"
  have dr: "distinct ?ready" using assms(3) by (simp add: ready_successors_def)
  have "untouched w (repeat_message view obs Finish_task d cs v) \<or> recorded rid t ?ready (w_sent w) (repeat_message view obs Finish_task d cs v)"
    if "untouched w v \<or> recorded rid t ?ready (w_sent w) v" for v
    using that
  proof (induction cs arbitrary: v)
    case (Cons x cs)
    obtain now ts where x: "x = (now, ts)" by (cases x)
    have "untouched w (fst (monitor_round view obs now ts Finish_task d v)) \<or>
        recorded rid t ?ready (w_sent w) (fst (monitor_round view obs now ts Finish_task d v))"
      using Cons.prems first_round [OF _ assms(1-5) refl] recorded_round [OF _ dr assms(4,5)] by blast
    from Cons.IH [OF this] show ?case by (simp add: x)
  qed simp
  from this [OF disjI1 [OF untouched_refl]] show ?thesis
    unfolding assms(6) by (auto simp: untouched_def recorded_def sent_from_def sent_upto_def)
qed


section \<open>A sample run\<close>

text \<open>Task \<open>b\<close> waits for \<open>a\<close>, which finishes; the first write of the event and a later one of the snapshot fail.\<close>

definition waiting_run :: drun where
  "waiting_run = (new_run 0 ''r'' 5 VNone VNone [])
     \<lparr>dtasks := [(''b'', \<lparr>dt_task = new_task 0 ''r'' ''b'' ''b'', dt_spec = ''s'', dt_request = None\<rparr>)], task_parents := [(''a'', {}), (''b'', {''a''})],
      pending_tasks := [''b''], submitted_tasks := {''a''}, running_tasks := {''a''}, status := ''running''\<rparr>"

definition waiting_world :: world where
  "waiting_world =
     \<lparr>w_core = no_core [(''r'', \<lparr>rb_run = waiting_run, rb_conts = [], rb_metrics = []\<rparr>)], w_store = no_store,
      w_io = [Not_written, Written, Written, Written, Not_written],
      w_sent = [], w_stops = [], w_wakes = [], w_manifests = []\<rparr>"

definition finish_message :: message where
  "finish_message = [(''workflow_id'', VStr ''r''), (''task_id'', VStr ''a''), (''attempt'', VInt 1), (''dispatch_id'', VStr ''d''), (''lease_id'', VStr ''l'')]"

abbreviation plain_view :: "run_box \<Rightarrow> event" where
  "plain_view \<equiv> (\<lambda>b. [(''run_id'', VStr (run_id (rb_run b)))])"

theorem finish_dispatches_once_witness:
  "w_sent (repeat_message plain_view (\<lambda>_. VNone) Finish_task finish_message [(1, ''t1''), (2, ''t2''), (3, ''t3'')] waiting_world)
     = [(''r'', ''b'')]"
proof -
  let ?b = "\<lparr>rb_run = waiting_run, rb_conts = [], rb_metrics = []\<rparr>"
  define w where w: "w = repeat_message plain_view (\<lambda>_. VNone) Finish_task finish_message [(1, ''t1''), (2, ''t2''), (3, ''t3'')] waiting_world"
  have pre: "map_of (live_runs (w_core waiting_world)) ''r'' = Some ?b" "map_of (rb_conts ?b) ''a'' = None" "distinct (pending_tasks (rb_run ?b))"
    "vget finish_message ''workflow_id'' = VStr ''r''" "vget finish_message ''task_id'' = VStr ''a''"
    by code_simp+
  have e: "cont_of ''r'' ''a'' waiting_world = None" "w_sent waiting_world = []" "ready_successors ''a'' (rb_run ?b) = [''b'']"
    by code_simp+
  have "map_option fc_completed (cont_of ''r'' ''a'' w) = Some True" unfolding w by code_simp
  then obtain c where c: "cont_of ''r'' ''a'' w = Some c" "fc_completed c" by auto
  then have "w_core w \<noteq> w_core waiting_world" using e(1) cont_of_cong [of w waiting_world "''r''" "''a''"] by auto
  then have "w_sent w = [(''r'', ''b'')]" using finish_dispatches_once [OF pre w] c e by auto
  then show ?thesis unfolding w .
qed

end
