(* ===== verification/Static_Store.thy ===== *)
theory Static_Store
  imports Run_Recovery Static_Run Artifact_Store
begin

text \<open>
  The files of static runs (\<open>StaticRunStore\<close> in \<open>maze/core/workflow/static_run.py\<close>): one log of events per run and
  its snapshot, and the recovery of the runs a killed process left behind. Files, writes and the cache of log
  states are those of \<open>Run_Store\<close>; a static run has no copy of its log. The lock between core processes is not
  modelled: one process has the store.
\<close>

section \<open>The log of a static run\<close>

definition static_sequence :: "event \<Rightarrow> int result" where
  "static_sequence e = map_err (\<lambda>_. ValueError ''Static event seq must be a positive integer'') (event_sequence e)"

definition static_read_line :: "event list \<times> int option \<Rightarrow> event \<Rightarrow> (event list \<times> int option) result" where
  "static_read_line a e =
     (case a of (evs, prev) \<Rightarrow>
        rbind (static_sequence e) (\<lambda>n.
          if (case prev of None \<Rightarrow> False | Some m \<Rightarrow> n \<le> m) then Inl (ValueError ''Non-monotonic static event sequence'')
          else Inr (evs @ [e], Some n)))"

definition static_load_events :: "log_file \<Rightarrow> event list result" where
  "static_load_events f =
     (if lf_damaged f then Inl (ValueError ''Expecting value'')
      else rbind (rfold static_read_line ([], None) (lf_lines f)) (\<lambda>(evs, _). Inr evs))"

definition static_log_state :: "string \<Rightarrow> run_store \<Rightarrow> run_store \<times> log_state result" where
  "static_log_state run s =
     (let p = Canonical run in
      case map_of (log_states s) p of
        Some st \<Rightarrow> (s, Inr st)
      | None \<Rightarrow>
          (case static_load_events (file_of p s) of
             Inl e \<Rightarrow> (forget p s, Inl e)
           | Inr evs \<Rightarrow> (s\<lparr>log_states := dput p (state_of (file_of p s) evs) (log_states s)\<rparr>, Inr (state_of (file_of p s) evs))))"

text \<open>\<open>_write_event\<close>; with a cached state it is brought up to date, without one nothing stays cached.\<close>

definition static_write_event ::
    "write_outcome \<Rightarrow> string \<Rightarrow> event \<Rightarrow> log_state option \<Rightarrow> bool \<Rightarrow> run_store \<Rightarrow> run_store \<times> event result" where
  "static_write_event w run payload cached sep s =
     (let p = Canonical run; e = stored payload;
          s1 = s\<lparr>log_files := dput p (write_line w sep e (file_of p s)) (log_files s)\<rparr>
      in if w \<noteq> Written then (s1, Inl (OSError ''write''))
         else (case cached of
             None \<Rightarrow> (forget p s1, Inr e)
           | Some st \<Rightarrow>
               (s1\<lparr>log_states := dput p
                    (st\<lparr>st_events := dput (sequence_or_0 e) e (st_events st), st_last := sequence_or_0 e, st_separator := False\<rparr>)
                    (log_states s1)\<rparr>, Inr e)))"

definition static_store_append :: "write_outcome \<Rightarrow> string \<Rightarrow> event \<Rightarrow> run_store \<Rightarrow> run_store \<times> unit result" where
  "static_store_append w run e s =
     (case static_sequence e of
        Inl x \<Rightarrow> (s, Inl x)
      | Inr _ \<Rightarrow>
          (case static_write_event w run (with_schema e) None (lf_open (file_of (Canonical run) s)) s of
             (s1, Inl x) \<Rightarrow> (forget (Canonical run) s1, Inl x)
           | (s1, Inr _) \<Rightarrow> (s1, Inr ())))"

definition static_append_once :: "write_outcome \<Rightarrow> string \<Rightarrow> event \<Rightarrow> run_store \<Rightarrow> run_store \<times> unit result" where
  "static_append_once w run e s =
     (let p = Canonical run; payload = with_schema e in
      case static_sequence payload of
        Inl x \<Rightarrow> (s, Inl x)
      | Inr n \<Rightarrow>
          (case static_log_state run s of
             (s1, Inl x) \<Rightarrow> (forget p s1, Inl x)
           | (s1, Inr st) \<Rightarrow>
               (case map_of (st_events st) n of
                  Some old \<Rightarrow>
                    if event_payload True old = event_payload True payload then (s1, Inr ())
                    else (forget p s1, Inl (RuntimeError ''Persisted event sequence conflict''))
                | None \<Rightarrow>
                    if n \<le> st_last st then (forget p s1, Inl (ValueError ''Non-monotonic static event sequence''))
                    else (case static_write_event w run payload (Some st) (st_separator st) s1 of
                        (s2, Inl x) \<Rightarrow> (forget p s2, Inl x)
                      | (s2, Inr _) \<Rightarrow> (s2, Inr ())))))"

text \<open>
  \<open>save_run\<close> replaces the file in one step; an ended run's log is forgotten. The code writes the keys of every dictionary in
  sorted order, here the snapshot keeps the order it was built in. The only reader for which the order of keys matters is the
  list of tasks of a recovered run, and a run's \<open>task_nodes\<close> are built sorted already.
\<close>

definition static_payload :: "event \<Rightarrow> event" where
  "static_payload snap = dput ''schema_version'' (VInt 1) (dput ''schema'' (VStr ''static_run'') snap)"

definition static_save_run :: "write_outcome \<Rightarrow> string \<Rightarrow> event \<Rightarrow> run_store \<Rightarrow> run_store \<times> unit result" where
  "static_save_run w run snap s =
     (let s1 = (if w = Written \<or> w = Unsynced then s\<lparr>run_files := dput run (static_payload snap) (run_files s)\<rparr> else s)
      in if w \<noteq> Written then (s1, Inl (OSError ''write''))
         else (if vget snap ''status'' \<in> set (map VStr static_terminal_statuses) then forget (Canonical run) s1 else s1, Inr ()))"

definition static_load_run :: "string \<Rightarrow> run_store \<Rightarrow> event result" where
  "static_load_run run s =
     (case map_of (run_files s) run of None \<Rightarrow> Inl (ValueError ''Static run not found'') | Some snap \<Rightarrow> Inr snap)"

text \<open>\<open>list_runs\<close>: the newest first. The runs saved carry the time they were created as a number.\<close>

definition created_time :: "event \<Rightarrow> rat" where
  "created_time snap = (case py_number (vor (vget snap ''created_time'') (VInt 0)) of Some q \<Rightarrow> q | None \<Rightarrow> 0)"

definition static_list_runs :: "run_store \<Rightarrow> event list" where
  "static_list_runs s = sort_key (\<lambda>snap. - created_time snap) (dvals (run_files s))"

section \<open>Recovery\<close>

definition dispatch_states :: "string list" where
  "dispatch_states = [''prepared'', ''dispatching'', ''active'', ''cleanup_pending'', ''terminal'']"

definition dispatch_valid :: "pyval \<Rightarrow> bool" where
  "dispatch_valid v =
     (case v of VDict d \<Rightarrow> py_eq (vget d ''schema_version'') (VInt 1) \<and> vget d ''status'' \<in> set (map VStr dispatch_states) | _ \<Rightarrow> False)"

definition dispatch_incomplete :: "pyval \<Rightarrow> bool" where
  "dispatch_incomplete v =
     (case v of VDict d \<Rightarrow> vget d ''status'' \<in> set (map VStr [''prepared'', ''dispatching'', ''cleanup_pending'']) | _ \<Rightarrow> False)"

text \<open>\<open>LocalCASArtifactStore(root).revoke_owner_capabilities(owner)\<close> in the stores by their roots.\<close>

definition revoke_at :: "pyval \<Rightarrow> pyval \<Rightarrow> (pyval, 'b artifacts) dict \<Rightarrow> (pyval, 'b artifacts) dict result" where
  "revoke_at place owner as =
     (case owner of
        VStr w \<Rightarrow> rbind (revoke_owner_capabilities w (dgetd as place no_artifacts)) (\<lambda>(t, _). Inr (dput place t as))
      | _ \<Rightarrow> Inl (ValueError ''Artifact capability owner_id must be a non-empty string''))"

definition revoke_reservation ::
    "event \<Rightarrow> (pyval, 'b artifacts) dict \<Rightarrow> ((pyval, 'b artifacts) dict \<times> event) result" where
  "revoke_reservation snap as =
     (case vget snap ''artifact_reservation'' of
        VDict d \<Rightarrow>
          if vget d ''status'' = VStr ''pending''
          then rbind (revoke_at (vget d ''artifact_store_root'') (vget d ''owner_id'') as) (\<lambda>as'.
                 Inr (as', dput ''artifact_reservation'' (VDict (dput ''status'' (VStr ''revoked'') d)) snap))
          else Inr (as, snap)
      | _ \<Rightarrow> Inr (as, snap))"

definition initialization_open :: "(string, pyval) dict \<Rightarrow> bool result" where
  "initialization_open d =
     (if vget d ''status'' = VStr ''initializing'' \<and> truthy (vget d ''artifact_owner_id'')
         \<and> vget d ''artifact_status'' \<in> {VStr ''pending'', VStr ''ready''}
      then rbind (or_empty (vget d ''root_dispatch'')) (\<lambda>r. Inr (list_all (\<lambda>v. v = VStr ''pending'') (dvals r)))
      else Inr False)"

definition revoke_initialization ::
    "event \<Rightarrow> (pyval, 'b artifacts) dict \<Rightarrow> ((pyval, 'b artifacts) dict \<times> event) result" where
  "revoke_initialization snap as =
     (case vget snap ''idempotency_initialization'' of
        VDict d \<Rightarrow>
          rbind (initialization_open d) (\<lambda>b.
            if b
            then rbind (revoke_at (vget d ''artifact_store_root'') (vget d ''artifact_owner_id'') as) (\<lambda>as'.
                   Inr (as', dput ''idempotency_initialization'' (VDict (dput ''artifact_status'' (VStr ''revoked'') d)) snap))
            else Inr (as, snap))
      | _ \<Rightarrow> Inr (as, snap))"

definition snapshot_tasks :: "event \<Rightarrow> (string, pyval) dict" where
  "snapshot_tasks snap = dict_or_empty (vget snap ''task_nodes'')"

definition cancel_open_task :: "pyval \<Rightarrow> pyval" where
  "cancel_open_task v =
     (case v of
        VDict n \<Rightarrow>
          if vget n ''status'' \<in> set (map VStr [''pending'', ''queued'', ''running'']) then VDict (dput ''status'' (VStr ''cancelled'') n) else v
      | _ \<Rightarrow> v)"

definition task_count_names :: "string list" where
  "task_count_names = [''pending'', ''queued'', ''running'', ''succeeded'', ''failed'', ''cancelled'', ''timed_out'']"

text \<open>\<open>_snapshot_task_counts\<close>, and the progress computed from the counts.\<close>

definition tasks_with_status :: "event \<Rightarrow> string \<Rightarrow> nat" where
  "tasks_with_status snap k = length (filter (\<lambda>v. vget (dict_or_empty v) ''status'' = VStr k) (dvals (snapshot_tasks snap)))"

definition snapshot_task_counts :: "event \<Rightarrow> pyval" where
  "snapshot_task_counts snap =
     VDict ((''total'', VInt (int (length (snapshot_tasks snap))))
       # map (\<lambda>k. (k, VInt (int (tasks_with_status snap k)))) task_count_names)"

definition snapshot_progress :: "event \<Rightarrow> pyval" where
  "snapshot_progress snap =
     (let total = length (snapshot_tasks snap);
          done = sum_list (map (tasks_with_status snap) [''succeeded'', ''failed'', ''cancelled'', ''timed_out''])
      in VDict [(''completed'', VInt (int done)), (''total'', VInt (int total)),
                (''fraction'', vnum (round6 (of_nat done / of_nat (if total = 0 then 1 else total))))])"

definition restart_message :: string where
  "restart_message = ''Head process restarted before run completed''"

definition set_tasks :: "(pyval \<Rightarrow> pyval) \<Rightarrow> event \<Rightarrow> event" where
  "set_tasks f snap =
     (if snapshot_tasks snap = [] then snap else dput ''task_nodes'' (VDict (dmapv (\<lambda>_. f) (snapshot_tasks snap))) snap)"

definition static_interrupted_snapshot :: "time \<Rightarrow> event \<Rightarrow> event" where
  "static_interrupted_snapshot now snap =
     (let s1 = dput ''status'' (VStr ''interrupted'') snap;
          s2 = dput ''finished_time'' (vor (vget s1 ''finished_time'') (vnum now)) s1;
          s3 = dput ''updated_time'' (vnum now) s2;
          s4 = dput ''error_summary'' (vor (vget s3 ''error_summary'') (VDict [(''message'', VStr restart_message)])) s3;
          s5 = set_tasks cancel_open_task s4;
          s6 = dput ''task_counts'' (snapshot_task_counts s5) s5
      in dput ''progress'' (snapshot_progress s6) s6)"

definition is_interrupt :: "event \<Rightarrow> bool" where
  "is_interrupt e = (vget e ''type'' = VStr ''interrupt_workflow'')"

definition last_seq_of :: "event list \<Rightarrow> int" where
  "last_seq_of evs = foldr (\<lambda>e m. max (seq_number e) m) evs 0"

definition static_interrupt_event :: "string \<Rightarrow> int \<Rightarrow> string \<Rightarrow> pyval \<Rightarrow> event" where
  "static_interrupt_event ts n run wid =
     [(''type'', VStr ''interrupt_workflow''), (''seq'', VInt n), (''timestamp'', VStr ts), (''schema_version'', VInt 1),
      (''data'', VDict [(''run_id'', VStr run), (''workflow_id'', wid), (''run_status'', VStr ''interrupted''),
         (''reason'', VStr restart_message)])]"

text \<open>
  One round of \<open>recover_interrupted_runs\<close>: \<open>w1\<close> is the outcome of the append, \<open>w2\<close> that of the save. A run whose
  submission was not complete is left to the core.
\<close>

definition record_interrupt ::
    "string \<Rightarrow> write_outcome \<Rightarrow> string \<Rightarrow> pyval \<Rightarrow> event list \<Rightarrow> run_store \<Rightarrow> run_store \<times> (nat \<times> int) result" where
  "record_interrupt ts w run wid evs s =
     (if list_ex is_interrupt evs then (s, Inr (length evs, last_seq_of evs))
      else (case static_store_append w run (static_interrupt_event ts (last_seq_of evs + 1) run wid) s of
          (s1, Inl x) \<Rightarrow> (s1, Inl x)
        | (s1, Inr _) \<Rightarrow> (s1, Inr (length evs + 1, last_seq_of evs + 1))))"

definition static_recover_run ::
    "time \<Rightarrow> string \<Rightarrow> write_outcome \<Rightarrow> write_outcome \<Rightarrow> event \<Rightarrow> run_store \<times> (pyval, 'b artifacts) dict
       \<Rightarrow> (run_store \<times> (pyval, 'b artifacts) dict) \<times> unit result" where
  "static_recover_run now ts w1 w2 snap sa =
     (case (sa, vget snap ''run_id'') of
        ((s, as), VStr run) \<Rightarrow>
          if vget snap ''status'' \<notin> {VStr ''created'', VStr ''running''} then (sa, Inr ())
          else
            (case static_load_events (file_of (Canonical run) s) of
               Inl x \<Rightarrow> (sa, Inl x)
             | Inr evs \<Rightarrow>
                 if 1 < length (filter is_interrupt evs) then (sa, Inl (ValueError ''Duplicate interrupt_workflow event''))
                 else if vget snap ''dispatch'' \<noteq> VNone \<and> \<not> dispatch_valid (vget snap ''dispatch'')
                 then (sa, Inl (ValueError ''Invalid workflow dispatch state''))
                 else if dispatch_incomplete (vget snap ''dispatch'')
                 then (sa, if list_ex is_interrupt evs then Inl (ValueError ''Incomplete workflow dispatch has a terminal interrupt event'')
                           else Inr ())
                 else
                   (case revoke_reservation snap as of
                      Inl x \<Rightarrow> (sa, Inl x)
                    | Inr (as1, snap1) \<Rightarrow>
                        (case revoke_initialization snap1 as1 of
                           Inl x \<Rightarrow> ((s, as1), Inl x)
                         | Inr (as2, snap2) \<Rightarrow>
                             (case record_interrupt ts w1 run (vget snap2 ''workflow_id'') evs s of
                                (s1, Inl x) \<Rightarrow> ((s1, as2), Inl x)
                              | (s1, Inr (k, n)) \<Rightarrow>
                                  (case static_save_run w2 run
                                      (dput ''last_event_seq'' (VInt n)
                                        (dput ''event_count'' (VInt (int k)) (static_interrupted_snapshot now snap2))) s1 of
                                     (s2, r) \<Rightarrow> ((s2, as2), r))))))
      | _ \<Rightarrow> (sa, Inl (KeyError ''run_id'')))"

fun static_recover_runs ::
    "time \<Rightarrow> string \<Rightarrow> (write_outcome \<times> write_outcome) list \<Rightarrow> event list \<Rightarrow> run_store \<times> (pyval, 'b artifacts) dict
       \<Rightarrow> (run_store \<times> (pyval, 'b artifacts) dict) \<times> unit result" where
  "static_recover_runs now ts ws [] sa = (sa, Inr ())"
| "static_recover_runs now ts ws (snap # snaps) sa =
     (case static_recover_run now ts (case ws of [] \<Rightarrow> Written | w # _ \<Rightarrow> fst w) (case ws of [] \<Rightarrow> Written | w # _ \<Rightarrow> snd w) snap sa of
        (sa1, Inl x) \<Rightarrow> (sa1, Inl x)
      | (sa1, Inr _) \<Rightarrow> static_recover_runs now ts (tl ws) snaps sa1)"


section \<open>The same log as that of a dynamic run\<close>

definition static_read_up_to :: "event list \<Rightarrow> event list \<times> int option" where
  "static_read_up_to pre = (pre, if pre = [] then None else Some (last_sequence pre))"

lemma static_sequence_Inr: "static_sequence e = Inr n \<longleftrightarrow> event_sequence e = Inr n"
  by (simp add: static_sequence_def map_err_eq_Inr)

lemma static_read_line_ok:
  assumes "log_valid (pre @ [e])"
  shows "static_read_line (static_read_up_to pre) e = Inr (static_read_up_to (pre @ [e]))"
proof -
  have e: "static_sequence e = Inr (sequence_or_0 e)" "\<forall>x \<in> set pre. sequence_or_0 x < sequence_or_0 e"
    using assms by (simp_all add: log_valid_snoc static_sequence_Inr)
  then have "pre \<noteq> [] \<Longrightarrow> last_sequence pre < sequence_or_0 e" by (simp add: last_sequence_def)
  then show ?thesis using e(1) by (auto simp: static_read_line_def static_read_up_to_def last_sequence_def)
qed

lemma static_read_valid: "log_valid (pre @ evs) \<Longrightarrow> rfold static_read_line (static_read_up_to pre) evs = Inr (static_read_up_to (pre @ evs))"
proof (induction evs arbitrary: pre)
  case (Cons e evs)
  then have v: "log_valid ((pre @ [e]) @ evs)" by simp
  have "static_read_line (static_read_up_to pre) e = Inr (static_read_up_to (pre @ [e]))"
    by (rule static_read_line_ok [OF log_valid_prefix [OF v]])
  then show ?case using Cons.IH [OF v] by simp
qed simp

lemma static_load_valid: "log_valid (lf_lines f) \<Longrightarrow> static_load_events f = load_events_path f"
  using static_read_valid [of "[]" "lf_lines f"] load_valid [of f]
  by (auto simp: static_load_events_def static_read_up_to_def load_events_path_def)

lemma static_log_state_same: "store_ok s \<Longrightarrow> static_log_state run s = event_log_state (Canonical run) s"
  using store_okD(1) [of s "Canonical run"]
  by (simp add: static_log_state_def event_log_state_def static_load_valid Let_def split: option.split sum.split)

text \<open>
  The log of a static run behaves as one log of the dynamic store: appending an event once leaves the same files
  and the same cache as an append of the dynamic store to that file, and fails exactly when that does.
\<close>

theorem static_append_same:
  assumes "store_ok s" and "event_sequence (with_schema e) = Inr n"
  shows "fst (static_append_once w run e s) = fst (append_path w True True (Canonical run) (with_schema e) s) \<and>
    isl (snd (static_append_once w run e s)) = isl (snd (append_path w True True (Canonical run) (with_schema e) s))"
proof -
  have n: "static_sequence (with_schema e) = Inr n" using assms(2) by (simp add: static_sequence_Inr)
  obtain s1 r where s1: "event_log_state (Canonical run) s = (s1, r)" by fastforce
  note defs = static_append_once_def append_path_def event_for_append_def static_log_state_same [OF assms(1)] static_write_event_def
  show ?thesis
  proof (cases r)
    case (Inl x)
    then show ?thesis using s1 n by (simp add: defs)
  next
    case (Inr st)
    show ?thesis
    proof (cases "map_of (st_events st) n")
      case None
      then show ?thesis using s1 n assms(2) Inr by (simp add: defs Let_def)
    next
      case (Some old)
      then show ?thesis using s1 n assms(2) Inr by (simp add: defs)
    qed
  qed
qed


section \<open>Recovery converges\<close>

lemma write_line_uncut:
  "w \<noteq> Cut \<Longrightarrow> \<not> lf_damaged f \<Longrightarrow>
   \<not> lf_damaged (write_line w (lf_open f) e f) \<and> lf_lines (write_line w (lf_open f) e f) \<in> {lf_lines f, lf_lines f @ [e]}
   \<and> (w = Written \<longrightarrow> lf_lines (write_line w (lf_open f) e f) = lf_lines f @ [e])"
  by (cases w) (auto simp: write_line_def Let_def)

lemma static_store_append_file:
  assumes "event_sequence e = Inr n" and "w \<noteq> Cut" and "\<not> lf_damaged (file_of (Canonical run) s)"
    and "static_store_append w run e s = (t, r)"
  shows "\<not> lf_damaged (file_of (Canonical run) t) \<and>
    lf_lines (file_of (Canonical run) t)
      \<in> {lf_lines (file_of (Canonical run) s), lf_lines (file_of (Canonical run) s) @ [stored (with_schema e)]} \<and>
    run_files t = run_files s \<and>
    (w = Written \<longrightarrow> r = Inr () \<and> lf_lines (file_of (Canonical run) t) = lf_lines (file_of (Canonical run) s) @ [stored (with_schema e)]) \<and>
    (r = Inr () \<longrightarrow> lf_lines (file_of (Canonical run) t) = lf_lines (file_of (Canonical run) s) @ [stored (with_schema e)])"
proof -
  have "static_sequence e = Inr n" using assms(1) by (simp add: static_sequence_Inr)
  then show ?thesis
    using assms(4) write_line_uncut [OF assms(2,3), of "stored (with_schema e)"]
    by (auto simp: static_store_append_def static_write_event_def Let_def file_of_put forget_def split: if_splits)
qed

lemma last_seq_of_valid: "log_valid evs \<Longrightarrow> last_seq_of evs = last_sequence evs"
proof -
  have s: "seq_number e = sequence_or_0 e" if "event_sequence e = Inr n" for e n
    using that by (auto simp: seq_number_def sequence_or_0_def event_sequence_def vget_def dgetd_def split: pyval.splits if_splits option.splits)
  have add_one: "last_seq_of (evs @ [e]) = max (last_seq_of evs) (seq_number e)" if "0 \<le> seq_number e" for evs e
    using that unfolding last_seq_of_def by (induction evs) auto
  have "last_seq_of evs = last_sequence evs \<and> 0 \<le> last_sequence evs" if "log_valid evs" for evs
    using that
  proof (induction evs rule: rev_induct)
    case Nil
    show ?case by (simp add: last_seq_of_def last_sequence_def)
  next
    case (snoc e evs)
    then have v: "log_valid evs" "event_sequence e = Inr (sequence_or_0 e)" "\<And>x. x \<in> set evs \<Longrightarrow> sequence_or_0 x < sequence_or_0 e"
      by (simp_all add: log_valid_snoc)
    have p: "0 < sequence_or_0 e" using log_validD(2) [OF snoc.prems, of e] by simp
    have "last_sequence evs \<le> sequence_or_0 e"
      using v(3) [of "last evs"] p by (cases "evs = []") (simp_all add: last_sequence_def order_less_imp_le)
    then show ?case using snoc.IH [OF v(1)] add_one [of e evs] s [OF v(2)] p by (simp add: last_sequence_def)
  qed
  then show "log_valid evs \<Longrightarrow> last_seq_of evs = last_sequence evs" by blast
qed


text \<open>The log with the interruption, and a run's recovery from its files.\<close>

definition static_interrupted_event :: "string \<Rightarrow> event list \<Rightarrow> string \<Rightarrow> pyval \<Rightarrow> event" where
  "static_interrupted_event ts L run wid = stored (with_schema (static_interrupt_event ts (last_seq_of L + 1) run wid))"

definition static_recovery ::
    "string \<Rightarrow> time \<times> string \<times> write_outcome \<times> write_outcome \<Rightarrow> run_store \<times> (pyval, 'b artifacts) dict
       \<Rightarrow> (run_store \<times> (pyval, 'b artifacts) dict) \<times> unit result" where
  "static_recovery run a sa =
     (case a of (now, ts, w1, w2) \<Rightarrow>
        (case static_load_run run (fst sa) of
           Inl x \<Rightarrow> (sa, Inl x)
         | Inr snap \<Rightarrow> static_recover_run now ts w1 w2 snap sa))"

definition plain_snapshot :: "string \<Rightarrow> event \<Rightarrow> bool" where
  "plain_snapshot run snap =
     (vget snap ''run_id'' = VStr run \<and> vget snap ''status'' \<in> {VStr ''created'', VStr ''running''} \<and>
      (vget snap ''dispatch'' = VNone \<or> dispatch_valid (vget snap ''dispatch'') \<and> \<not> dispatch_incomplete (vget snap ''dispatch'')) \<and>
      vget snap ''artifact_reservation'' = VNone \<and> vget snap ''idempotency_initialization'' = VNone)"

lemma last_seq_of_nonneg: "0 \<le> last_seq_of evs"
  unfolding last_seq_of_def by (induction evs) auto

lemma static_interrupt_sequence: "event_sequence (static_interrupt_event ts (last_seq_of L + 1) run wid) = Inr (last_seq_of L + 1)"
  using last_seq_of_nonneg [of L] by (simp add: event_sequence_def static_interrupt_event_def)

lemma static_interrupted_type: "is_interrupt (static_interrupted_event ts L run wid)"
  by (simp add: is_interrupt_def static_interrupted_event_def vget_stored with_schema_def static_interrupt_event_def)

lemma static_interrupted_valid:
  assumes "log_valid L"
  shows "log_valid (L @ [static_interrupted_event ts L run wid])"
  unfolding static_interrupted_event_def
proof (rule log_valid_new [OF assms])
  show "event_sequence (with_schema (static_interrupt_event ts (last_seq_of L + 1) run wid)) = Inr (last_seq_of L + 1)"
    using last_seq_of_nonneg [of L] by (simp add: event_sequence_def static_interrupt_event_def with_schema_def)
  show "last_sequence L < last_seq_of L + 1" by (simp add: last_seq_of_valid [OF assms])
qed

text \<open>What a recovery that is not cut off leaves: the log without or with the interruption, the snapshot old or new.\<close>

definition static_recovering :: "string \<Rightarrow> event list \<Rightarrow> event \<Rightarrow> run_store \<Rightarrow> bool" where
  "static_recovering run L snap s =
     (\<not> lf_damaged (file_of (Canonical run) s) \<and>
      (lf_lines (file_of (Canonical run) s) = L \<and> map_of (run_files s) run = Some snap \<or>
       (\<exists>ts. lf_lines (file_of (Canonical run) s) = L @ [static_interrupted_event ts L run (vget snap ''workflow_id'')] \<and>
         (map_of (run_files s) run = Some snap \<or>
          (\<exists>snap'. map_of (run_files s) run = Some snap' \<and> vget snap' ''run_id'' = VStr run \<and> vget snap' ''status'' = VStr ''interrupted'')))))"

definition static_recovered :: "string \<Rightarrow> event list \<Rightarrow> event \<Rightarrow> run_store \<Rightarrow> bool" where
  "static_recovered run L snap s =
     ((\<exists>ts. lf_lines (file_of (Canonical run) s) = L @ [static_interrupted_event ts L run (vget snap ''workflow_id'')]) \<and>
      (\<exists>snap'. map_of (run_files s) run = Some snap' \<and> vget snap' ''status'' = VStr ''interrupted''))"

lemma static_interrupted_status:
  "vget (static_interrupted_snapshot now snap) ''status'' = VStr ''interrupted''"
  "vget (static_interrupted_snapshot now snap) ''run_id'' = vget snap ''run_id''"
  by (simp_all add: static_interrupted_snapshot_def set_tasks_def Let_def)

lemma record_interrupt_cases:
  assumes "log_valid L" and "\<not> list_ex is_interrupt L" and "w \<noteq> Cut" and "\<not> lf_damaged (file_of (Canonical run) s)"
    and "lf_lines (file_of (Canonical run) s) = L \<or> (\<exists>ts. lf_lines (file_of (Canonical run) s) = L @ [static_interrupted_event ts L run wid])"
    and "record_interrupt ts w run wid (lf_lines (file_of (Canonical run) s)) s = (t, r)"
  shows "\<not> lf_damaged (file_of (Canonical run) t) \<and> run_files t = run_files s \<and>
    (lf_lines (file_of (Canonical run) t) = L \<and> lf_lines (file_of (Canonical run) s) = L \<or>
      (\<exists>ts. lf_lines (file_of (Canonical run) t) = L @ [static_interrupted_event ts L run wid])) \<and>
    (w = Written \<longrightarrow> (\<exists>x. r = Inr x)) \<and>
    (\<forall>x. r = Inr x \<longrightarrow> (\<exists>ts. lf_lines (file_of (Canonical run) t) = L @ [static_interrupted_event ts L run wid]))"
proof (cases "lf_lines (file_of (Canonical run) s) = L")
  case True
  let ?e = "static_interrupt_event ts (last_seq_of L + 1) run wid"
  obtain t' q where q: "static_store_append w run ?e s = (t', q)" by fastforce
  have r: "t = t'" "r = (case q of Inl x \<Rightarrow> Inl x | Inr _ \<Rightarrow> Inr (length L + 1, last_seq_of L + 1))"
    using assms(2,6) True q by (auto simp: record_interrupt_def split: sum.splits)
  from static_store_append_file [OF static_interrupt_sequence assms(3,4) q] show ?thesis
    using True unfolding r static_interrupted_event_def [symmetric] by (auto split: sum.splits)
next
  case False
  then obtain ts' where l: "lf_lines (file_of (Canonical run) s) = L @ [static_interrupted_event ts' L run wid]" using assms(5) by blast
  then have "t = s" "r = Inr (length L + 1, last_seq_of (L @ [static_interrupted_event ts' L run wid]))"
    using assms(6) static_interrupted_type by (auto simp: record_interrupt_def)
  then show ?thesis using assms(4) l by auto
qed


lemma static_save_run_cases:
  assumes "static_save_run w run snap s = (t, r)"
  shows "file_of p t = file_of p s \<and> (w = Written \<longrightarrow> r = Inr () \<and> map_of (run_files t) run = Some (static_payload snap)) \<and>
    map_of (run_files t) run \<in> {map_of (run_files s) run, Some (static_payload snap)}"
  using assms by (auto simp: static_save_run_def Let_def forget_def file_of_def split: if_splits)

lemma static_payload_fields: "k \<noteq> ''schema'' \<Longrightarrow> k \<noteq> ''schema_version'' \<Longrightarrow> vget (static_payload snap) k = vget snap k"
  by (simp add: static_payload_def)

lemma static_recover_active:
  assumes "plain_snapshot run snap" and "static_load_events (file_of (Canonical run) s) = Inr evs" and "length (filter is_interrupt evs) \<le> 1"
  shows "static_recover_run now ts w1 w2 snap (s, as) =
    (case record_interrupt ts w1 run (vget snap ''workflow_id'') evs s of
       (s1, Inl x) \<Rightarrow> ((s1, as), Inl x)
     | (s1, Inr (k, n)) \<Rightarrow>
         (case static_save_run w2 run
             (dput ''last_event_seq'' (VInt n) (dput ''event_count'' (VInt (int k)) (static_interrupted_snapshot now snap))) s1 of
            (s2, r) \<Rightarrow> ((s2, as), r)))"
proof -
  have "revoke_reservation snap as = Inr (as, snap)" "revoke_initialization snap as = Inr (as, snap)"
    using assms(1) by (simp_all add: plain_snapshot_def revoke_reservation_def revoke_initialization_def)
  moreover have "\<not> dispatch_incomplete (vget snap ''dispatch'')"
    using assms(1) by (auto simp: plain_snapshot_def dispatch_incomplete_def)
  ultimately show ?thesis
    using assms by (auto simp: static_recover_run_def plain_snapshot_def split: prod.split sum.split)
qed

lemma static_recovery_step:
  assumes ps: "plain_snapshot run snap" and v: "log_valid L" and ni: "\<not> list_ex is_interrupt L"
    and rc: "static_recovering run L snap s" and w1: "w1 \<noteq> Cut"
    and st: "static_recovery run (now, ts, w1, w2) (s, as) = ((t, as'), r)"
  shows "as' = as \<and> static_recovering run L snap t \<and> (w1 = Written \<longrightarrow> w2 = Written \<longrightarrow> r = Inr () \<and> static_recovered run L snap t)"
proof -
  let ?f = "file_of (Canonical run)" and ?wid = "vget snap ''workflow_id''"
  have nd: "\<not> lf_damaged (?f s)" using rc by (simp add: static_recovering_def)
  have lines: "lf_lines (?f s) = L \<or> (\<exists>ts. lf_lines (?f s) = L @ [static_interrupted_event ts L run ?wid])"
    using rc by (auto simp: static_recovering_def)
  show ?thesis
  proof (cases "map_of (run_files s) run = Some snap")
    case True
    have ld: "static_load_events (?f s) = Inr (lf_lines (?f s))"
      using lines v static_interrupted_valid [OF v] nd by (auto simp: static_load_valid load_valid)
    have "length (filter is_interrupt (lf_lines (?f s))) \<le> 1"
      using lines ni by (auto simp: list_ex_iff filter_empty_conv)
    note act = static_recover_active [OF ps ld this, of now ts w1 w2 as]
    obtain s1 q where q: "record_interrupt ts w1 run ?wid (lf_lines (?f s)) s = (s1, q)" by fastforce
    note ri = record_interrupt_cases [OF v ni w1 nd lines q]
    show ?thesis
    proof (cases q)
      case (Inl x)
      then have "t = s1" "as' = as" "w1 \<noteq> Written" using st True act q ri by (auto simp: static_recovery_def static_load_run_def)
      then show ?thesis using ri True by (auto simp: static_recovering_def)
    next
      case (Inr y)
      obtain k n where y: "y = (k, n)" by (cases y)
      let ?snap = "dput ''last_event_seq'' (VInt n) (dput ''event_count'' (VInt (int k)) (static_interrupted_snapshot now snap))"
      obtain s2 z where z: "static_save_run w2 run ?snap s1 = (s2, z)" by fastforce
      have t: "t = s2" "as' = as" "r = z" using st True act q Inr y z by (auto simp: static_recovery_def static_load_run_def)
      note sv = static_save_run_cases [OF z, of "Canonical run"]
      have f: "vget (static_payload ?snap) ''status'' = VStr ''interrupted''" "vget (static_payload ?snap) ''run_id'' = VStr run"
        using ps by (simp_all add: static_payload_fields static_interrupted_status plain_snapshot_def)
      obtain ts' where l: "lf_lines (?f s1) = L @ [static_interrupted_event ts' L run ?wid]" using ri Inr by blast
      have "static_recovering run L snap t"
        unfolding static_recovering_def t(1) using sv ri l True f by auto
      moreover have "static_recovered run L snap t" if "w2 = Written"
        unfolding static_recovered_def t(1) using sv l f that by auto
      ultimately show ?thesis using sv t by auto
    qed
  next
    case False
    then obtain snap' ts' where d: "map_of (run_files s) run = Some snap'" "vget snap' ''run_id'' = VStr run" "vget snap' ''status'' = VStr ''interrupted''"
        "lf_lines (?f s) = L @ [static_interrupted_event ts' L run ?wid]"
      using rc by (auto simp: static_recovering_def)
    then have "t = s" "as' = as" "r = Inr ()" using st by (auto simp: static_recovery_def static_load_run_def static_recover_run_def)
    then show ?thesis using rc d by (auto simp: static_recovered_def)
  qed
qed

text \<open>
  C13: The recovery of an interrupted static run converges, as long as no write cuts a line: take a run whose saved snapshot is
  plain (it has its own identifier, the status created or running, no submission under way, no artifact reservation and no
  initialisation left over) and whose log is whole, well-formed and holds no interruption yet. However often its recovery was cut off before by writes that failed without cutting a
  line, one more recovery succeeds, and leaves the run interrupted and its log with exactly one more event, the interruption.
\<close>

theorem static_recovery_converges:
  assumes "plain_snapshot run snap" and "map_of (run_files s) run = Some snap" and "lf_lines (file_of (Canonical run) s) = L"
    and "\<not> lf_damaged (file_of (Canonical run) s)" and "log_valid L" and "\<not> list_ex is_interrupt L"
    and "\<forall>(now, ts, w1, w2) \<in> set tries. w1 \<noteq> Cut"
    and "static_recovery run (now, ts, Written, Written) (foldl (\<lambda>sa a. fst (static_recovery run a sa)) (s, as) tries) = ((t, as'), r)"
  shows "r = Inr () \<and> static_recovered run L snap t"
proof -
  have "static_recovering run L snap (fst (foldl (\<lambda>sa a. fst (static_recovery run a sa)) sa tries))"
    if "static_recovering run L snap (fst sa)" for sa :: "run_store \<times> (pyval, 'a artifacts) dict"
    using assms(7) that
  proof (induction tries arbitrary: sa)
    case (Cons a tries)
    obtain now ts w1 w2 where a: "a = (now, ts, w1, w2)" by (metis prod.exhaust)
    obtain s as where sa: "sa = (s, as)" by (cases sa)
    obtain t as' r where o: "static_recovery run a (s, as) = ((t, as'), r)" by (metis prod.exhaust)
    have "static_recovering run L snap t"
      using static_recovery_step [OF assms(1,5,6) _ _ o [unfolded a]] Cons.prems by (simp add: a sa)
    then show ?case using Cons.IH [of "(t, as')"] Cons.prems o by (simp add: sa)
  qed simp
  moreover have "static_recovering run L snap (fst (s, as))" using assms(2-4) by (simp add: static_recovering_def)
  ultimately have "static_recovering run L snap (fst (foldl (\<lambda>sa a. fst (static_recovery run a sa)) (s, as) tries))" by blast
  then show ?thesis
    using static_recovery_step [OF assms(1,5,6), of "fst (foldl (\<lambda>sa a. fst (static_recovery run a sa)) (s, as) tries)" Written now ts Written]
      assms(8) by (metis prod.collapse write_outcome.distinct(7))
qed


section \<open>An end that is lost\<close>

lemma static_finish_event:
  assumes "dict_ok ev" and "vget ev ''type'' = VStr ''finish_task''" and "vget ev ''data'' = VDict d" and "d \<noteq> []" and "\<not> dhas ''run_status'' d"
    and "static_append_event now ts ev r = (r1, e)"
  shows "event_sequence (with_schema e) = Inr (int (sevent_seq r) + 1)"
    and "vget (stored (with_schema e)) ''type'' = VStr ''finish_task''"
    and "vget (dict_or_empty (vget (stored (with_schema e)) ''data'')) ''run_status'' = VStr (sstatus r)"
proof -
  let ?d = "dsetdefault ''run_status'' (VStr (sstatus r)) (dsetdefault ''workflow_id'' (VStr (srun_workflow r)) (dsetdefault ''run_id'' (VStr (srun_id r)) d))"
  have "vor (vget ev ''data'') (VDict []) = VDict d" using assms(3,4) by (simp add: vor_def)
  then have e: "e = stamp_event (sevent_seq r + 1) ts (dput ''data'' (VDict ?d) ev)"
    using assms(6) by (simp add: static_append_event_def event_data_def Let_def)
  have k: "dict_ok e" "dhas ''seq'' e" "dhas ''type'' e" "dhas ''data'' e"
    using assms(1-3) by (auto simp: e stamp_event_def dhas_iff vget_def dgetd_def split: option.splits)
  have f: "vget e ''seq'' = VInt (int (sevent_seq r) + 1)" "vget e ''type'' = VStr ''finish_task''" "vget e ''data'' = VDict ?d"
    using assms(2) by (simp_all add: e stamp_event_def)
  have ws: "vget (with_schema e) ''seq'' = VInt (int (sevent_seq r) + 1)" "vget (with_schema e) ''type'' = VStr ''finish_task''"
    "vget (with_schema e) ''data'' = VDict ?d"
    using vget_with_schema [OF k(1)] k f by simp_all
  show "event_sequence (with_schema e) = Inr (int (sevent_seq r) + 1)" by (simp add: event_sequence_def ws(1))
  show "vget (stored (with_schema e)) ''type'' = VStr ''finish_task''" by (simp add: vget_stored ws(2))
  have "vget (stored (with_schema e)) ''data'' = stable_normalize (VDict ?d)" by (simp only: vget_stored ws(3))
  also have "stable_normalize (VDict ?d) = VDict (stored ?d)" by (simp add: stored_def)
  finally have "vget (stored (with_schema e)) ''data'' = VDict (stored ?d)" .
  moreover have "vget ?d ''run_status'' = VStr (sstatus r)"
    using assms(5) by (simp add: dsetdefault_def dhas_iff)
  ultimately show "vget (dict_or_empty (vget (stored (with_schema e)) ''data'')) ''run_status'' = VStr (sstatus r)"
    by (simp add: dict_or_empty_def vget_stored)
qed

lemma append_path_files: "run_files (fst (append_path w once ign p e s)) = run_files s"
proof -
  have "run_files (fst (event_log_state p s)) = run_files s"
    by (simp add: event_log_state_def forget_def split: option.split sum.split)
  then have "run_files (fst (event_for_append ign p e s)) = run_files s"
    by (cases "event_log_state p s") (simp add: event_for_append_def split: sum.split)
  then show ?thesis
    by (cases "event_for_append ign p e s") (simp add: append_path_def forget_def Let_def split: option.split sum.split)
qed

lemma static_once_written:
  assumes "store_ok s" and "\<not> lf_damaged (file_of (Canonical run) s)" and "event_sequence (with_schema e) = Inr n"
    and "last_sequence (lf_lines (file_of (Canonical run) s)) < n" and "static_append_once Written run e s = (t, r)"
  shows "lf_lines (file_of (Canonical run) t) = lf_lines (file_of (Canonical run) s) @ [stored (with_schema e)]"
    and "\<not> lf_damaged (file_of (Canonical run) t)" and "store_ok t" and "run_files t = run_files s"
proof -
  let ?o = "append_path Written True True (Canonical run) (with_schema e) s"
  have t: "t = fst ?o" using static_append_same [OF assms(1,3), of Written run] assms(5) by simp
  note sp = append_path_spec [OF assms(1), of Written True True "Canonical run" "with_schema e"]
  note fr = append_file_fresh [OF assms(2) store_okD(1) [OF assms(1)] assms(3,4), of Written True True]
  show "lf_lines (file_of (Canonical run) t) = lf_lines (file_of (Canonical run) s) @ [stored (with_schema e)]"
    and "\<not> lf_damaged (file_of (Canonical run) t)" and "store_ok t" and "run_files t = run_files s"
    using sp fr unfolding t by (simp_all add: append_path_files)
qed

text \<open>
  C40: A run that succeeded can be reported as interrupted: when the event of its last task, which says that the run
  succeeded, is in the log and the process dies before the snapshot is saved, recovery marks the run interrupted.
\<close>

theorem static_end_lost:
  assumes "plain_snapshot run snap" and "map_of (run_files s) run = Some snap" and "reachable_store s"
    and "\<not> lf_damaged (file_of (Canonical run) s)" and "\<not> list_ex is_interrupt (lf_lines (file_of (Canonical run) s))"
    and "sstatus r = ''succeeded''" and "last_sequence (lf_lines (file_of (Canonical run) s)) \<le> int (sevent_seq r)"
    and "dict_ok ev" and "vget ev ''type'' = VStr ''finish_task''" and "vget ev ''data'' = VDict d" and "d \<noteq> []" and "\<not> dhas ''run_status'' d"
    and "static_append_event now ts ev r = (r1, e)"
    and "static_append_once Written run e s = (s1, Inr ())"
    and "static_recovery run (now', ts', Written, Written) (s1, as) = ((t, as'), q)"
  shows "(\<exists>x \<in> set (lf_lines (file_of (Canonical run) t)). vget (dict_or_empty (vget x ''data'')) ''run_status'' = VStr ''succeeded'') \<and>
    (\<exists>snap'. map_of (run_files t) run = Some snap' \<and> vget snap' ''status'' = VStr ''interrupted'')"
proof -
  let ?L = "lf_lines (file_of (Canonical run) s)" and ?x = "stored (with_schema e)"
  have ok: "store_ok s" by (rule reachable_store_ok [OF assms(3)])
  note ev = static_finish_event [OF assms(8-13)]
  have "last_sequence ?L < int (sevent_seq r) + 1" using assms(7) by simp
  note s1 = static_once_written [OF ok assms(4) ev(1) this assms(14)]
  have ni: "\<not> list_ex is_interrupt (?L @ [?x])" using assms(5) ev(2) by (simp add: is_interrupt_def)
  from static_recovery_step [OF assms(1) store_okD(1) [OF s1(3), of "Canonical run"], of s1 Written now' ts' Written as t as' q]
  have "static_recovered run (?L @ [?x]) snap t"
    using ni assms(2,15) s1 by (simp add: static_recovering_def)
  then show ?thesis using ev(3) assms(6) by (auto simp: static_recovered_def)
qed


section \<open>Sample files\<close>

definition static_sample_snapshot :: event where
  "static_sample_snapshot = [(''run_id'', VStr ''r''), (''status'', VStr ''running''), (''workflow_id'', VStr ''w'')]"

definition static_sample_store :: run_store where
  "static_sample_store = no_store\<lparr>run_files := dput ''r'' static_sample_snapshot (run_files no_store)\<rparr>"

definition succeeded_run :: srun where
  "succeeded_run =
     \<lparr>srun_id = ''r'', srun_workflow = ''w'', sstatus = ''succeeded'', stimeout = VNone, stags = [], smetadata = [], srun_inputs = [],
      screated = 0, ssubmitted = None, supdated = 0, sstarted = None, sfinished = None, serror = VNone, sresult = VNone, srefs = None,
      sevents = [], sevent_seq = 0, scontinuations = [], sgraph = ([], []), snodes = []\<rparr>"

lemma reachable_static_sample: "reachable_store static_sample_store"
  unfolding reachable_store_def static_sample_store_def using store_step.saved by (rule r_into_rtranclp)

lemma static_sample_facts:
  "plain_snapshot ''r'' static_sample_snapshot" "map_of (run_files static_sample_store) ''r'' = Some static_sample_snapshot"
  "lf_lines (file_of (Canonical ''r'') static_sample_store) = []" "\<not> lf_damaged (file_of (Canonical ''r'') static_sample_store)"
  by code_simp+

theorem static_append_same_witness:
  "\<not> isl (snd (static_append_once Written ''r'' (sample_event 1 ''t1'') static_sample_store))"
proof -
  have "event_sequence (with_schema (sample_event 1 ''t1'')) = Inr 1"
    "\<not> isl (snd (append_path Written True True (Canonical ''r'') (with_schema (sample_event 1 ''t1'')) static_sample_store))"
    by code_simp+
  then show ?thesis using static_append_same [OF reachable_store_ok [OF reachable_static_sample]] by blast
qed

theorem static_recovery_converges_witness:
  "static_recovered ''r'' [] static_sample_snapshot
     (fst (fst (static_recovery ''r'' (2, ''t2'', Written, Written)
       (foldl (\<lambda>sa a. fst (static_recovery ''r'' a sa)) (static_sample_store, [] :: (pyval, nat artifacts) dict)
          [(1, ''t1'', Unsynced, Written), (1, ''t1'', Written, Not_written)]))))"
proof -
  let ?tries = "[(1, ''t1'', Unsynced, Written), (1, ''t1'', Written, Not_written)]"
  let ?o = "static_recovery ''r'' (2, ''t2'', Written, Written)
    (foldl (\<lambda>sa a. fst (static_recovery ''r'' a sa)) (static_sample_store, [] :: (pyval, nat artifacts) dict) ?tries)"
  have t: "\<forall>(now, ts, w1, w2) \<in> set ?tries. w1 \<noteq> Cut" by simp
  have o: "?o = ((fst (fst ?o), snd (fst ?o)), snd ?o)" by simp
  from static_recovery_converges [OF static_sample_facts(1-4) _ _ t o] show ?thesis by simp
qed

theorem static_end_lost_witness:
  "\<exists>snap'. map_of (run_files (fst (fst (static_recovery ''r'' (2, ''t2'', Written, Written)
     (fst (static_append_once Written ''r'' (snd (static_append_event 1 ''t1''
        [(''type'', VStr ''finish_task''), (''data'', VDict [(''task_id'', VStr ''t'')])] succeeded_run)) static_sample_store),
      [] :: (pyval, nat artifacts) dict))))) ''r'' = Some snap' \<and> vget snap' ''status'' = VStr ''interrupted''"
proof -
  let ?ev = "[(''type'', VStr ''finish_task''), (''data'', VDict [(''task_id'', VStr ''t'')])]"
  let ?a = "static_append_event 1 ''t1'' ?ev succeeded_run"
  let ?w = "static_append_once Written ''r'' (snd ?a) static_sample_store"
  let ?o = "static_recovery ''r'' (2, ''t2'', Written, Written) (fst ?w, [] :: (pyval, nat artifacts) dict)"
  have f: "sstatus succeeded_run = ''succeeded''"
    "last_sequence (lf_lines (file_of (Canonical ''r'') static_sample_store)) \<le> int (sevent_seq succeeded_run)"
    "dict_ok ?ev" "vget ?ev ''type'' = VStr ''finish_task''" "vget ?ev ''data'' = VDict [(''task_id'', VStr ''t'')]"
    "[(''task_id'', VStr ''t'')] \<noteq> []" "\<not> dhas ''run_status'' [(''task_id'', VStr ''t'')]" "snd ?w = Inr ()"
    "\<not> list_ex is_interrupt (lf_lines (file_of (Canonical ''r'') static_sample_store))"
    by code_simp+
  have a: "?a = (fst ?a, snd ?a)" by simp
  have w: "?w = (fst ?w, Inr ())" using f(8) by (metis prod.collapse)
  have o: "?o = ((fst (fst ?o), snd (fst ?o)), snd ?o)" by simp
  from static_end_lost [OF static_sample_facts(1,2) reachable_static_sample static_sample_facts(4) f(9) f(1-7) a w o] show ?thesis by blast
qed

end
