(* ===== verification/Submission.thy ===== *)
theory Submission
  imports Action Static_Store Dag_Spec
begin

text \<open>
  Submitting a static workflow and undoing a submission that failed (\<open>run_workflow\<close>, \<open>_start_workflow\<close> and the dispatch
  and cleanup functions of \<open>maze/core/path/path.py\<close>). The dispatch record of a run goes from \<open>prepared\<close> over \<open>dispatching\<close>
  to \<open>active\<close>; a failure before anything was sent ends it, a later one asks the scheduler to stop the workflow until
  that is confirmed (\<open>cleanup_pending\<close>), and then ends it. Every change is saved first, so that a restarted core takes over.

  The outcomes of the writes and sends to come are part of the state, as is what was sent. Clocks, fresh identifiers
  (run, request, capability), the digest of a submission, the hash functions and the files of the workspace are arguments,
  and so is what building a task's message raises. The replies awaited in memory (queues) are left out; a send has no
  result, so the branches for one are never taken.
\<close>

section \<open>State\<close>

record static_entry =
  se_run :: srun
  se_dispatch :: event
  se_digest :: pyval

record cleanup_retry =
  cr_run :: string
  cr_workflow :: string
  cr_attempts :: nat
  cr_next :: rat

datatype order = Run_task string string | Stop_workflow string string | Clear_workflow string | Shutdown_scheduler

record 'b desk =
  ds_runs :: "(string, static_entry) dict"
  ds_store :: run_store
  ds_io :: "write_outcome list"
  ds_artifacts :: "(pyval, 'b artifacts) dict"
  ds_requests :: "(string, string) dict"
  ds_retries :: "(string, cleanup_retry) dict"
  ds_links :: "bool list"
  ds_orders :: "order list"
  ds_shutdown :: bool

section \<open>Writing and sending\<close>

definition desk_write :: "('b desk, write_outcome) action" where
  "desk_write w = (case ds_io w of [] \<Rightarrow> (w, Inr Written) | x # xs \<Rightarrow> (w\<lparr>ds_io := xs\<rparr>, Inr x))"

text \<open>\<open>_send_scheduler_message\<close>; the first entry of \<open>ds_links\<close> says whether the scheduler is there.\<close>

definition desk_send :: "order \<Rightarrow> ('b desk, unit) action" where
  "desk_send o' w =
     (case ds_links w of
        False # bs \<Rightarrow> (w\<lparr>ds_links := bs\<rparr>, Inl (RuntimeError ''scheduler unavailable''))
      | bs \<Rightarrow> (w\<lparr>ds_links := tl bs, ds_orders := ds_orders w @ [o']\<rparr>, Inr ()))"

definition change_store :: "(run_store \<Rightarrow> run_store \<times> unit result) \<Rightarrow> ('b desk, unit) action" where
  "change_store f w = (case f (ds_store w) of (s, r) \<Rightarrow> (w\<lparr>ds_store := s\<rparr>, r))"

definition change_entry :: "string \<Rightarrow> (static_entry \<Rightarrow> static_entry) \<Rightarrow> ('b desk, unit) action" where
  "change_entry rid f =
     act_modify (\<lambda>w. case map_of (ds_runs w) rid of None \<Rightarrow> w | Some e \<Rightarrow> w\<lparr>ds_runs := dput rid (f e) (ds_runs w)\<rparr>)"

definition set_dispatch :: "string \<Rightarrow> event \<Rightarrow> ('b desk, unit) action" where
  "set_dispatch rid d = change_entry rid (\<lambda>e. e\<lparr>se_dispatch := d\<rparr>)"

definition entry_snapshot :: "static_entry \<Rightarrow> event result" where
  "entry_snapshot e =
     rbind (static_snapshot (se_run e)) (\<lambda>v.
       let s1 = dput ''dispatch'' (VDict (se_dispatch e)) (dict_or_empty v)
       in Inr (if se_digest e = VNone then s1 else dput ''submission_digest'' (se_digest e) s1))"

definition save_snapshot :: "string \<Rightarrow> event \<Rightarrow> ('b desk, unit) action" where
  "save_snapshot rid snap = act_then desk_write (\<lambda>o1. change_store (static_save_run o1 rid snap))"

definition persist_entry :: "string \<Rightarrow> ('b desk, unit) action" where
  "persist_entry rid w =
     (case map_of (ds_runs w) rid of
        None \<Rightarrow> (w, Inr ())
      | Some e \<Rightarrow> act_then (act_result (entry_snapshot e)) (save_snapshot rid) w)"

text \<open>\<open>_record_static_event\<close>.\<close>

definition note_node_metrics :: "event \<Rightarrow> srun \<Rightarrow> srun" where
  "note_node_metrics ev r =
     (let d = dict_or_empty (vget ev ''data'') in
      case vget d ''task_id'' of
        VStr t \<Rightarrow>
          if vget ev ''type'' = VStr ''start_task'' then on_node t (ddel ''metrics'') r
          else if is_dict (vget d ''metrics'') then on_node t (dput ''metrics'' (vget d ''metrics'')) r
          else r
      | _ \<Rightarrow> r)"

definition record_event :: "time \<Rightarrow> string \<Rightarrow> string \<Rightarrow> event \<Rightarrow> bool \<Rightarrow> ('b desk, unit) action" where
  "record_event now ts rid ev save w =
     (case map_of (ds_runs w) rid of
        None \<Rightarrow> (w, Inr ())
      | Some e \<Rightarrow>
          (case static_append_event now ts ev (note_node_metrics ev (se_run e)) of
             (r, ev') \<Rightarrow>
               act_then (change_entry rid (\<lambda>e. e\<lparr>se_run := r\<rparr>)) (\<lambda>_.
               act_then desk_write (\<lambda>o1.
               act_then (change_store (static_append_once o1 rid ev')) (\<lambda>_.
               if save then persist_entry rid else act_return ()))) w))"

section \<open>A submission that fails\<close>

fun exception_name :: "pyerr \<Rightarrow> string" where
  "exception_name (ValueError _) = ''ValueError''"
| "exception_name (TypeError _) = ''TypeError''"
| "exception_name (KeyError _) = ''KeyError''"
| "exception_name (IndexError _) = ''IndexError''"
| "exception_name (AttributeError _) = ''AttributeError''"
| "exception_name AssertionError = ''AssertionError''"
| "exception_name OverflowError = ''OverflowError''"
| "exception_name (RuntimeError _) = ''RuntimeError''"
| "exception_name (PermissionError _) = ''PermissionError''"
| "exception_name (TimeoutError _) = ''TimeoutError''"
| "exception_name (FileNotFoundError _) = ''FileNotFoundError''"
| "exception_name (OSError _) = ''OSError''"
| "exception_name (ArtifactError _) = ''ArtifactError''"
| "exception_name (ResourceSpecError _) = ''ResourceSpecError''"
| "exception_name (DagSpecError _) = ''DagSpecError''"
| "exception_name (ResourceLimitExceeded _) = ''ResourceLimitExceeded''"
| "exception_name (FinalOutputResolutionError _ _) = ''FinalOutputResolutionError''"

fun exception_text :: "pyerr \<Rightarrow> string" where
  "exception_text (ValueError x) = x"
| "exception_text (TypeError x) = x"
| "exception_text (KeyError x) = x"
| "exception_text (IndexError x) = x"
| "exception_text (AttributeError x) = x"
| "exception_text AssertionError = []"
| "exception_text OverflowError = []"
| "exception_text (RuntimeError x) = x"
| "exception_text (PermissionError x) = x"
| "exception_text (TimeoutError x) = x"
| "exception_text (FileNotFoundError x) = x"
| "exception_text (OSError x) = x"
| "exception_text (ArtifactError x) = x"
| "exception_text (ResourceSpecError x) = x"
| "exception_text (DagSpecError x) = x"
| "exception_text (ResourceLimitExceeded x) = x"
| "exception_text (FinalOutputResolutionError x y) = x"

definition initialization_error :: "pyval \<Rightarrow> string \<Rightarrow> string \<Rightarrow> pyval" where
  "initialization_error phase msg cause =
     VDict [(''error_type'', VStr ''workflow_initialization_failed''), (''message'', VStr msg), (''phase'', phase), (''cause_type'', VStr cause)]"

definition dispatch_error :: "event \<Rightarrow> pyerr \<Rightarrow> pyval" where
  "dispatch_error d x =
     initialization_error (vor (vget d ''status'') (VStr ''prepared''))
       (if exception_text x = [] then exception_name x else exception_text x) (exception_name x)"

definition validate_dispatch :: "pyval \<Rightarrow> event result" where
  "validate_dispatch v =
     (case v of
        VDict d \<Rightarrow> guard_or (dispatch_valid v) (ValueError ''Stored workflow dispatch state is invalid'') (Inr d)
      | _ \<Rightarrow> Inl (ValueError ''Stored workflow dispatch state is invalid''))"

text \<open>\<open>_revoke_dispatch_artifacts\<close>: the dispatch afterwards.\<close>

definition revoke_dispatch :: "string \<Rightarrow> event \<Rightarrow> ('b desk, event) action" where
  "revoke_dispatch rid d w =
     (if \<not> truthy (vget d ''artifact_owner_id'') \<or> vget d ''artifact_status'' = VStr ''revoked'' then (w, Inr d)
      else if vget d ''artifact_owner_id'' \<noteq> VStr rid then (w, Inl (ValueError ''Stored artifact owner does not match its run''))
      else (case revoke_at (vget d ''artifact_store_root'') (VStr rid) (ds_artifacts w) of
          Inl x \<Rightarrow> (w, Inl x)
        | Inr as \<Rightarrow> (w\<lparr>ds_artifacts := as\<rparr>, Inr (dput ''artifact_status'' (VStr ''revoked'') d))))"

definition terminal_dispatch :: "pyval \<Rightarrow> event \<Rightarrow> event" where
  "terminal_dispatch err d = dput ''error'' err (dput ''status'' (VStr ''terminal'') d)"

definition mark_static_dispatch_failed :: "time \<Rightarrow> pyval \<Rightarrow> static_entry \<Rightarrow> static_entry" where
  "mark_static_dispatch_failed now err e =
     e\<lparr>se_dispatch := terminal_dispatch err (se_dispatch e), se_run := fail_static_run now err (se_run e)\<rparr>"

definition mark_snapshot_dispatch_failed :: "time \<Rightarrow> event \<Rightarrow> pyval \<Rightarrow> event \<Rightarrow> event" where
  "mark_snapshot_dispatch_failed now d err snap =
     (let s1 = dput ''dispatch'' (VDict (terminal_dispatch err d)) snap;
          s2 = dput ''status'' (VStr ''failed'') s1;
          s3 = dput ''finished_time'' (vnum now) s2;
          s4 = dput ''updated_time'' (vnum now) s3;
          s5 = dput ''error_summary'' err s4;
          s6 = set_tasks (\<lambda>v. case v of VDict n \<Rightarrow> VDict (cancelled_node now err n) | _ \<Rightarrow> v) s5;
          s7 = dput ''task_counts'' (snapshot_task_counts s6) s6
      in dput ''progress'' (snapshot_progress s7) s7)"

definition failure_event :: "string \<Rightarrow> int \<Rightarrow> string \<Rightarrow> pyval \<Rightarrow> pyval \<Rightarrow> event" where
  "failure_event ts n rid wid err =
     [(''type'', VStr ''workflow_submission_failed''), (''seq'', VInt n), (''timestamp'', VStr ts), (''schema_version'', VInt 1),
      (''data'', VDict [(''run_id'', VStr rid), (''workflow_id'', wid), (''run_status'', VStr ''failed''), (''error'', err)])]"

definition is_failure :: "event \<Rightarrow> bool" where
  "is_failure e = (vget e ''type'' = VStr ''workflow_submission_failed'')"

definition load_log :: "string \<Rightarrow> ('b desk, event list) action" where
  "load_log rid w = (w, static_load_events (file_of (Canonical rid) (ds_store w)))"

definition record_snapshot_failure :: "string \<Rightarrow> string \<Rightarrow> event \<Rightarrow> pyval \<Rightarrow> ('b desk, unit) action" where
  "record_snapshot_failure ts rid snap err =
     act_then (load_log rid) (\<lambda>evs.
     let n = last_seq_of evs + 1; ev = failure_event ts n rid (vget snap ''workflow_id'') err;
         done = list_ex is_failure evs; evs' = (if done then evs else evs @ [ev])
     in act_then (if done then act_return () else act_then desk_write (\<lambda>o1. change_store (static_store_append o1 rid ev))) (\<lambda>_.
        save_snapshot rid
          (dput ''last_event_seq'' (VInt (last_seq_of evs')) (dput ''event_count'' (VInt (int (length evs'))) snap))))"

definition load_snapshot :: "string \<Rightarrow> ('b desk, event) action" where
  "load_snapshot rid w = (w, static_load_run rid (ds_store w))"

text \<open>\<open>_finish_workflow_dispatch_failure\<close>, for a run in memory and for one that only its snapshot knows.\<close>

definition finish_dispatch_failure :: "time \<Rightarrow> string \<Rightarrow> string \<Rightarrow> pyval \<Rightarrow> ('b desk, unit) action" where
  "finish_dispatch_failure now ts rid err w =
     (case map_of (ds_runs w) rid of
        Some e \<Rightarrow>
          act_then (act_result (validate_dispatch (VDict (se_dispatch e)))) (\<lambda>d.
          if vget d ''status'' = VStr ''terminal'' then act_return ()
          else
            act_then (revoke_dispatch rid d) (\<lambda>d'.
            act_then (set_dispatch rid d') (\<lambda>_.
            act_then (change_entry rid (mark_static_dispatch_failed now err)) (\<lambda>_.
            record_event now ts rid [(''type'', VStr ''workflow_submission_failed''), (''data'', VDict [(''error'', err)])] True)))) w
      | None \<Rightarrow>
          act_then (load_snapshot rid) (\<lambda>snap.
          act_then (act_result (validate_dispatch (vget snap ''dispatch''))) (\<lambda>d.
          if vget d ''status'' = VStr ''terminal'' then act_return ()
          else
            act_then (revoke_dispatch rid d) (\<lambda>d'.
            record_snapshot_failure ts rid (mark_snapshot_dispatch_failed now d' err snap) err))) w)"

section \<open>Asking the scheduler to stop\<close>

definition register_cleanup :: "string \<Rightarrow> string \<Rightarrow> string \<Rightarrow> ('b desk, cleanup_retry) action" where
  "register_cleanup rid wid q w =
     (if dhas q (ds_requests w) \<and> map_of (ds_requests w) q \<noteq> Some rid
      then (w, Inl (ValueError ''Workflow cleanup request belongs to another run''))
      else (let t = dgetd (ds_retries w) q \<lparr>cr_run = rid, cr_workflow = wid, cr_attempts = 0, cr_next = 0\<rparr>;
                w' = w\<lparr>ds_requests := dput q rid (ds_requests w), ds_retries := dput q t (ds_retries w)\<rparr>
            in if cr_run t \<noteq> rid \<or> cr_workflow t \<noteq> wid
               then (w', Inl (ValueError ''Workflow cleanup retry belongs to another run'')) else (w', Inr t)))"

definition clear_cleanup :: "string \<Rightarrow> ('b desk, unit) action" where
  "clear_cleanup q = act_modify (\<lambda>w. w\<lparr>ds_requests := ddel q (ds_requests w), ds_retries := ddel q (ds_retries w)\<rparr>)"

definition cleanup_max_attempts :: nat where
  "cleanup_max_attempts = 5"

text \<open>\<open>RUN_WORKFLOW_CLEANUP_RETRY_SECONDS\<close> is a quarter of a second.\<close>

definition cleanup_delay :: "nat \<Rightarrow> rat" where
  "cleanup_delay n = min 5 (1 / 4 * 2 ^ (n - 1))"

definition send_cleanup :: "rat \<Rightarrow> string \<Rightarrow> string \<Rightarrow> string \<Rightarrow> ('b desk, unit) action" where
  "send_cleanup tick rid wid q =
     act_then (register_cleanup rid wid q) (\<lambda>t.
     act_then (act_modify (\<lambda>w. w\<lparr>ds_retries :=
         dput q (t\<lparr>cr_attempts := cr_attempts t + 1, cr_next := tick + cleanup_delay (cr_attempts t + 1)\<rparr>) (ds_retries w)\<rparr>)) (\<lambda>_.
     act_catch (desk_send (Stop_workflow rid q)) (\<lambda>_. act_return ())))"

text \<open>\<open>keep\<close> stores the changed dispatch where it lives, \<open>save\<close> writes it to disk; \<open>q\<close> is the fresh request.\<close>

definition request_cleanup ::
    "string \<Rightarrow> rat \<Rightarrow> string \<Rightarrow> string \<Rightarrow> event \<Rightarrow> pyval \<Rightarrow> (event \<Rightarrow> ('b desk, unit) action) \<Rightarrow> (event \<Rightarrow> ('b desk, unit) action)
       \<Rightarrow> ('b desk, unit) action" where
  "request_cleanup q tick rid wid d err keep save =
     (let pending = vget d ''status'' = VStr ''cleanup_pending'';
          d' = (if pending then d
                else dput ''error'' err (dput ''cleanup_request_id'' (VStr q) (dput ''status'' (VStr ''cleanup_pending'') d)))
      in act_then (if pending then act_return () else act_then (keep d') (\<lambda>_. save d')) (\<lambda>_.
         case vget d' ''cleanup_request_id'' of
           VStr x \<Rightarrow>
             if x = [] then act_raise (ValueError ''Pending workflow cleanup has no request ID'') else send_cleanup tick rid wid x
         | _ \<Rightarrow> act_raise (ValueError ''Pending workflow cleanup has no request ID'')))"

text \<open>\<open>_fail_workflow_dispatch\<close>; the exception it returns is raised by the caller.\<close>

definition fail_dispatch :: "string \<Rightarrow> rat \<Rightarrow> time \<Rightarrow> string \<Rightarrow> string \<Rightarrow> pyerr \<Rightarrow> ('b desk, unit) action" where
  "fail_dispatch q tick now ts rid x w =
     (case map_of (ds_runs w) rid of
        None \<Rightarrow> (w, Inl (KeyError rid))
      | Some e \<Rightarrow>
          act_then (act_result (validate_dispatch (VDict (se_dispatch e)))) (\<lambda>d.
          if vget d ''status'' = VStr ''prepared'' then finish_dispatch_failure now ts rid (dispatch_error d x)
          else request_cleanup q tick rid (srun_workflow (se_run e)) d (dispatch_error d x) (set_dispatch rid) (\<lambda>_. persist_entry rid)) w)"

definition requires_cleanup :: "static_entry \<Rightarrow> bool" where
  "requires_cleanup e = (vget (se_dispatch e) ''status'' \<in> {VStr ''dispatching'', VStr ''cleanup_pending''})"

text \<open>Ending a submission that is under way, for a reason \<open>x\<close>: whether there was one.\<close>

definition abandon_dispatch :: "string \<Rightarrow> rat \<Rightarrow> string \<Rightarrow> pyerr \<Rightarrow> ('b desk, bool) action" where
  "abandon_dispatch q tick rid x w =
     (case map_of (ds_runs w) rid of
        None \<Rightarrow> (w, Inr False)
      | Some e \<Rightarrow>
          if \<not> requires_cleanup e then (w, Inr False)
          else act_then (request_cleanup q tick rid (srun_workflow (se_run e)) (se_dispatch e)
                   (vor (vget (se_dispatch e) ''error'') (dispatch_error (se_dispatch e) x)) (set_dispatch rid) (\<lambda>_. persist_entry rid))
                 (\<lambda>_. act_return True) w)"

text \<open>\<open>stop_workflow\<close> and the sweep over the deadlines; a run that is not being submitted is left to the caller.\<close>

definition stop_submission :: "string \<Rightarrow> rat \<Rightarrow> string \<Rightarrow> ('b desk, bool) action" where
  "stop_submission q tick rid = abandon_dispatch q tick rid (RuntimeError ''Workflow was stopped before submission completed'')"

definition expire_submission :: "string \<Rightarrow> rat \<Rightarrow> time \<Rightarrow> string \<Rightarrow> ('b desk, bool) action" where
  "expire_submission q tick now rid w =
     (case map_of (ds_runs w) rid of
        Some e \<Rightarrow>
          if requires_cleanup e
          then (case deadline_time (se_run e) of
              Some dl \<Rightarrow>
                if now > dl
                then act_catch (abandon_dispatch q tick rid (TimeoutError ''Workflow submission exceeded the run deadline''))
                       (\<lambda>_. act_return True) w
                else (w, Inr True)
            | None \<Rightarrow> (w, Inr True))
          else (w, Inr False)
      | None \<Rightarrow> (w, Inr False))"

definition dispatch_of :: "string \<Rightarrow> ('b desk, pyval) action" where
  "dispatch_of rid w =
     (case map_of (ds_runs w) rid of
        Some e \<Rightarrow> (w, Inr (VDict (se_dispatch e)))
      | None \<Rightarrow> (w, rbind (static_load_run rid (ds_store w)) (\<lambda>snap. Inr (vget snap ''dispatch''))))"

definition confirm_cleanup :: "time \<Rightarrow> string \<Rightarrow> string \<Rightarrow> string \<Rightarrow> ('b desk, unit) action" where
  "confirm_cleanup now ts rid q =
     act_then (dispatch_of rid) (\<lambda>v.
     act_then (act_result (validate_dispatch v)) (\<lambda>d.
     if vget d ''status'' \<noteq> VStr ''cleanup_pending'' \<or> vget d ''cleanup_request_id'' \<noteq> VStr q then clear_cleanup q
     else
       act_then (finish_dispatch_failure now ts rid
           (vor (vget d ''error'') (initialization_error (VStr ''cleanup'') ''Workflow submission failed'' ''RuntimeError''))) (\<lambda>_.
       clear_cleanup q)))"

definition handle_cleanup_response :: "time \<Rightarrow> string \<Rightarrow> event \<Rightarrow> ('b desk, unit) action" where
  "handle_cleanup_response now ts data w =
     (case vget data ''request_id'' of
        VStr q \<Rightarrow>
          (case (case map_of (ds_requests w) q of Some r \<Rightarrow> if r = [] then vget data ''workflow_id'' else VStr r | None \<Rightarrow> vget data ''workflow_id'') of
             VStr rid \<Rightarrow>
               if vget data ''workflow_id'' \<notin> {VNone, VStr rid} then (w, Inr ())
               else if vget data ''ok'' = VBool True then confirm_cleanup now ts rid q w
               else (w, Inr ())
           | _ \<Rightarrow> (w, Inr ()))
      | _ \<Rightarrow> (w, Inr ()))"

definition cleanup_is_pending :: "string \<Rightarrow> string \<Rightarrow> 'b desk \<Rightarrow> bool" where
  "cleanup_is_pending rid q w =
     (case snd (dispatch_of rid w) of
        Inr (VDict d) \<Rightarrow> vget d ''status'' = VStr ''cleanup_pending'' \<and> vget d ''cleanup_request_id'' = VStr q
      | _ \<Rightarrow> False)"

definition request_shutdown :: "('b desk, unit) action" where
  "request_shutdown w =
     (if ds_shutdown w then (w, Inr ())
      else act_catch (desk_send Shutdown_scheduler) (\<lambda>_. act_return ()) (w\<lparr>ds_shutdown := True\<rparr>))"

definition give_up_error :: "nat \<Rightarrow> pyval" where
  "give_up_error n = initialization_error (VStr ''cleanup'')
     (''Scheduler cleanup could not be confirmed after '' @ py_str (VInt (int n)) @ '' attempts; Scheduler shutdown requested'')
     ''SchedulerUnavailableError''"

definition retry_cleanup :: "rat \<Rightarrow> time \<Rightarrow> string \<Rightarrow> string \<Rightarrow> cleanup_retry \<Rightarrow> ('b desk, unit) action" where
  "retry_cleanup tick now ts q t w =
     (if \<not> cleanup_is_pending (cr_run t) q w then clear_cleanup q w
      else if tick < cr_next t then (w, Inr ())
      else if cleanup_max_attempts \<le> cr_attempts t
      then act_then request_shutdown (\<lambda>_.
           act_then (finish_dispatch_failure now ts (cr_run t) (give_up_error (cr_attempts t))) (\<lambda>_. clear_cleanup q)) w
      else send_cleanup tick (cr_run t) (cr_workflow t) q w)"

fun retry_each :: "rat \<Rightarrow> time \<Rightarrow> string \<Rightarrow> (string \<times> cleanup_retry) list \<Rightarrow> ('b desk, unit) action" where
  "retry_each tick now ts [] = act_return ()"
| "retry_each tick now ts ((q, t) # qs) = act_then (retry_cleanup tick now ts q t) (\<lambda>_. retry_each tick now ts qs)"

definition retry_cleanups :: "rat \<Rightarrow> time \<Rightarrow> string \<Rightarrow> ('b desk, unit) action" where
  "retry_cleanups tick now ts w = retry_each tick now ts (ds_retries w) w"

section \<open>The maintenance loop\<close>

text \<open>
  \<open>_sweep_run_deadlines\<close>, static runs: a run that is being submitted is handled by \<open>expire_submission\<close>, any other one that
  has passed its deadline is ended, and the scheduler is told to stop it (without a request) if it can be.
\<close>

definition timeout_event :: "string \<Rightarrow> srun \<Rightarrow> event" where
  "timeout_event rid r =
     [(''type'', VStr ''timeout_workflow''),
      (''data'', VDict [(''run_id'', VStr rid), (''workflow_id'', VStr (srun_workflow r)), (''timeout_seconds'', stimeout r),
         (''deadline_time'', (case deadline_time r of Some d \<Rightarrow> vnum d | None \<Rightarrow> VNone))])]"

definition time_out_run :: "time \<Rightarrow> string \<Rightarrow> string \<Rightarrow> ('b desk, unit) action" where
  "time_out_run now ts rid w =
     (case map_of (ds_runs w) rid of
        None \<Rightarrow> (w, Inr ())
      | Some e \<Rightarrow>
          (case static_timed_out_if_needed now (se_run e) of
             (_, False) \<Rightarrow> (w, Inr ())
           | (r, True) \<Rightarrow>
               act_then (change_entry rid (\<lambda>e. e\<lparr>se_run := r\<rparr>)) (\<lambda>_.
               act_then (record_event now ts rid (timeout_event rid r) True) (\<lambda>_.
               act_catch (desk_send (Stop_workflow rid [])) (\<lambda>_. act_return ()))) w))"

definition sweep_run :: "string \<Rightarrow> rat \<Rightarrow> time \<Rightarrow> string \<Rightarrow> string \<Rightarrow> ('b desk, unit) action" where
  "sweep_run q tick now ts rid =
     act_then (expire_submission q tick now rid) (\<lambda>submitting. if submitting then act_return () else time_out_run now ts rid)"

fun sweep_each :: "(string \<Rightarrow> string) \<Rightarrow> rat \<Rightarrow> time \<Rightarrow> string \<Rightarrow> string list \<Rightarrow> ('b desk, unit) action" where
  "sweep_each ids tick now ts [] = act_return ()"
| "sweep_each ids tick now ts (rid # rids) = act_then (sweep_run (ids rid) tick now ts rid) (\<lambda>_. sweep_each ids tick now ts rids)"

definition sweep_deadlines :: "(string \<Rightarrow> string) \<Rightarrow> rat \<Rightarrow> time \<Rightarrow> string \<Rightarrow> ('b desk, unit) action" where
  "sweep_deadlines ids tick now ts w = sweep_each ids tick now ts (dkeys (ds_runs w)) w"

text \<open>
  One round of \<open>maintenance_coroutine\<close> while the scheduler is alive (\<open>_handle_scheduler_exit\<close> then does nothing): the monotonic
  clock, the wall clock, its text, and the fresh request a run would get. An exception ends the round, not the loop.
\<close>

record beat =
  bt_tick :: rat
  bt_now :: time
  bt_text :: string
  bt_ids :: "string \<Rightarrow> string"

definition maintenance_round :: "beat \<Rightarrow> 'b desk \<Rightarrow> 'b desk" where
  "maintenance_round b w =
     fst (act_then (retry_cleanups (bt_tick b) (bt_now b) (bt_text b))
       (\<lambda>_. sweep_deadlines (bt_ids b) (bt_tick b) (bt_now b) (bt_text b)) w)"

section \<open>When the scheduler dies\<close>

text \<open>
  The part of \<open>_handle_scheduler_exit\<close> for a run that is being submitted. The core keeps an entry per run over its attempts:
  the cleanup request, once it is known, and whether the run is done. When Ray has been cleaned up (\<open>cleaned\<close>), nobody is left
  to confirm the request, and the core does so itself. A failure is logged and the run is tried again in the next round.
\<close>

record exit_entry =
  xe_request :: "string option"
  xe_complete :: bool

definition exit_request :: "string \<Rightarrow> rat \<Rightarrow> string \<Rightarrow> string \<Rightarrow> static_entry \<Rightarrow> ('b desk, string) action" where
  "exit_request q tick reason rid e =
     (let d = se_dispatch e in
      if vget d ''status'' = VStr ''cleanup_pending''
      then (case vget d ''cleanup_request_id'' of
          VStr x \<Rightarrow>
            if x = [] then act_raise (ValueError ''Pending workflow cleanup has no request ID'')
            else act_then (register_cleanup rid (srun_workflow (se_run e)) x) (\<lambda>_. act_return x)
        | _ \<Rightarrow> act_raise (ValueError ''Pending workflow cleanup has no request ID''))
      else act_then (request_cleanup q tick rid (srun_workflow (se_run e)) d (dispatch_error d (RuntimeError reason))
               (set_dispatch rid) (\<lambda>_. persist_entry rid)) (\<lambda>_. act_return q))"

definition still_submitting :: "string \<Rightarrow> ('b desk, bool) action" where
  "still_submitting rid w = (w, Inr (case map_of (ds_runs w) rid of None \<Rightarrow> False | Some e \<Rightarrow> requires_cleanup e))"

definition exit_confirm :: "time \<Rightarrow> string \<Rightarrow> string \<Rightarrow> exit_entry \<Rightarrow> ('b desk, exit_entry) action" where
  "exit_confirm now ts rid x =
     (case xe_request x of
        None \<Rightarrow> act_return x
      | Some r \<Rightarrow>
          act_catch
            (act_then (confirm_cleanup now ts rid r) (\<lambda>_.
             act_then (still_submitting rid) (\<lambda>b. act_return (if b then x else x\<lparr>xe_complete := True\<rparr>))))
            (\<lambda>_. act_return x))"

definition exit_submission ::
    "string \<Rightarrow> rat \<Rightarrow> time \<Rightarrow> string \<Rightarrow> string \<Rightarrow> bool \<Rightarrow> string \<Rightarrow> exit_entry \<Rightarrow> ('b desk, exit_entry) action" where
  "exit_submission q tick now ts reason cleaned rid x w =
     (case map_of (ds_runs w) rid of
        None \<Rightarrow> (w, Inr x)
      | Some e \<Rightarrow>
          if xe_complete x \<or> \<not> requires_cleanup e then (w, Inr x)
          else act_catch
            (act_then (case xe_request x of Some r \<Rightarrow> act_return r | None \<Rightarrow> exit_request q tick reason rid e) (\<lambda>r.
             if cleaned then exit_confirm now ts rid (x\<lparr>xe_request := Some r\<rparr>) else act_return (x\<lparr>xe_request := Some r\<rparr>)))
            (\<lambda>_. act_return x) w)"

text \<open>The second pass of the same handler, once the cleanup of Ray has succeeded.\<close>

definition exit_finish :: "time \<Rightarrow> string \<Rightarrow> string \<Rightarrow> exit_entry \<Rightarrow> ('b desk, exit_entry) action" where
  "exit_finish now ts rid x = (if xe_complete x then act_return x else exit_confirm now ts rid x)"


section \<open>Submitting\<close>

text \<open>
  What \<open>_start_workflow\<close> has computed when it creates the run: the run, the digest of the submission, the tasks
  without predecessors, whether artifacts are stored and privately, where, the files of the workspace, and what building a
  task's message raises.
\<close>

record 'b plan =
  pl_run :: srun
  pl_digest :: pyval
  pl_roots :: "string list"
  pl_total :: nat
  pl_enabled :: bool
  pl_private :: bool
  pl_place :: pyval
  pl_files :: "'b list"
  pl_payload :: "string \<Rightarrow> unit result"

definition initial_dispatch :: "'b plan \<Rightarrow> event" where
  "initial_dispatch p =
     [(''schema_version'', VInt 1), (''status'', VStr ''prepared''), (''root_task_ids'', VList (map VStr (pl_roots p))),
      (''artifact_status'', VStr (if pl_enabled p then ''pending'' else ''none'')),
      (''artifact_owner_id'', if pl_private p then VStr (srun_id (pl_run p)) else VNone),
      (''artifact_store_root'', if pl_private p then pl_place p else VNone), (''cleanup_request_id'', VNone), (''error'', VNone)]"

definition set_dispatch_field :: "string \<Rightarrow> string \<Rightarrow> pyval \<Rightarrow> ('b desk, unit) action" where
  "set_dispatch_field rid k v = change_entry rid (\<lambda>e. e\<lparr>se_dispatch := dput k v (se_dispatch e)\<rparr>)"

definition change_artifacts :: "pyval \<Rightarrow> ('b artifacts \<Rightarrow> 'b artifacts result) \<Rightarrow> ('b desk, unit) action" where
  "change_artifacts place f w =
     (case f (dgetd (ds_artifacts w) place no_artifacts) of
        Inl x \<Rightarrow> (w, Inl x) | Inr t \<Rightarrow> (w\<lparr>ds_artifacts := dput place t (ds_artifacts w)\<rparr>, Inr ()))"

text \<open>\<open>_prepare_initial_artifacts\<close>: a capability for a private run, then its files.\<close>

fun upload_files ::
    "('b \<Rightarrow> string) \<Rightarrow> (string \<Rightarrow> string) \<Rightarrow> pyval \<Rightarrow> bool \<Rightarrow> string option \<Rightarrow> 'b list \<Rightarrow> ('b desk, unit) action" where
  "upload_files sha hc place private c [] = act_return ()"
| "upload_files sha hc place private c (b # bs) =
     act_then (change_artifacts place (\<lambda>s. rbind (put_file sha hc b b private c s) (\<lambda>(t, _). Inr t)))
       (\<lambda>_. upload_files sha hc place private c bs)"

definition prepare_artifacts :: "('b \<Rightarrow> string) \<Rightarrow> (string \<Rightarrow> string) \<Rightarrow> string \<Rightarrow> 'b plan \<Rightarrow> ('b desk, unit) action" where
  "prepare_artifacts sha hc cap p =
     act_then (if pl_private p
               then change_artifacts (pl_place p) (\<lambda>s. rbind (create_capability hc cap (Some (srun_id (pl_run p))) s) (\<lambda>(t, _). Inr t))
               else act_return ())
       (\<lambda>_. upload_files sha hc (pl_place p) (pl_private p) (if pl_private p then Some cap else None) (pl_files p))"

fun queue_roots :: "time \<Rightarrow> string \<Rightarrow> (string \<Rightarrow> unit result) \<Rightarrow> string list \<Rightarrow> ('b desk, unit) action" where
  "queue_roots now rid payload [] = act_return ()"
| "queue_roots now rid payload (t # ts) =
     act_then (change_entry rid (\<lambda>e. e\<lparr>se_run := mark_task_queued now t (se_run e)\<rparr>)) (\<lambda>_.
     act_then (act_result (payload t)) (\<lambda>_. queue_roots now rid payload ts))"

fun send_roots :: "string \<Rightarrow> string list \<Rightarrow> ('b desk, unit) action" where
  "send_roots rid [] = act_return ()"
| "send_roots rid (t # ts) = act_then (desk_send (Run_task rid t)) (\<lambda>_. send_roots rid ts)"

definition start_event :: "'b plan \<Rightarrow> event" where
  "start_event p =
     [(''type'', VStr ''start_workflow''),
      (''data'', VDict [(''run_id'', VStr (srun_id (pl_run p))), (''workflow_id'', VStr (srun_workflow (pl_run p))),
         (''run_type'', VStr ''static''), (''total_task_num'', VInt (int (pl_total p)))])]"

definition prepare_dispatch :: "('b \<Rightarrow> string) \<Rightarrow> (string \<Rightarrow> string) \<Rightarrow> string \<Rightarrow> time \<Rightarrow> string \<Rightarrow> 'b plan \<Rightarrow> ('b desk, unit) action" where
  "prepare_dispatch sha hc cap now ts p =
     (let rid = srun_id (pl_run p) in
      act_then (if pl_enabled p then prepare_artifacts sha hc cap p else act_return ()) (\<lambda>_.
      act_then (queue_roots now rid (pl_payload p) (pl_roots p)) (\<lambda>_.
      act_then (set_dispatch_field rid ''artifact_status'' (VStr (if pl_enabled p then ''ready'' else ''none''))) (\<lambda>_.
      act_then (persist_entry rid) (\<lambda>_. record_event now ts rid (start_event p) False)))))"

definition send_dispatch :: "'b plan \<Rightarrow> ('b desk, unit) action" where
  "send_dispatch p =
     (let rid = srun_id (pl_run p) in
      act_then (set_dispatch_field rid ''status'' (VStr ''dispatching'')) (\<lambda>_.
      act_then (persist_entry rid) (\<lambda>_.
      act_then (send_roots rid (pl_roots p)) (\<lambda>_.
      act_then (set_dispatch_field rid ''status'' (VStr ''active'')) (\<lambda>_. persist_entry rid)))))"

definition claim_run :: "'b plan \<Rightarrow> ('b desk, unit) action" where
  "claim_run p =
     (let rid = srun_id (pl_run p); e = \<lparr>se_run = pl_run p, se_dispatch = initial_dispatch p, se_digest = pl_digest p\<rparr> in
      act_then (act_modify (\<lambda>w. w\<lparr>ds_runs := dput rid e (ds_runs w)\<rparr>)) (\<lambda>_.
      act_catch (persist_entry rid) (\<lambda>x. act_then (act_modify (\<lambda>w. w\<lparr>ds_runs := ddel rid (ds_runs w)\<rparr>)) (\<lambda>_. act_raise x))))"

definition start_workflow ::
    "('b \<Rightarrow> string) \<Rightarrow> (string \<Rightarrow> string) \<Rightarrow> string \<Rightarrow> string \<Rightarrow> rat \<Rightarrow> time \<Rightarrow> string \<Rightarrow> 'b plan \<Rightarrow> ('b desk, string) action" where
  "start_workflow sha hc cap q tick now ts p =
     (let rid = srun_id (pl_run p) in
      act_then (claim_run p) (\<lambda>_.
      act_then
        (act_catch (act_then (prepare_dispatch sha hc cap now ts p) (\<lambda>_. send_dispatch p))
          (\<lambda>x. act_then (fail_dispatch q tick now ts rid x)
                 (\<lambda>_. act_raise (RuntimeError (if exception_text x = [] then exception_name x else exception_text x)))))
        (\<lambda>_. act_return rid)))"

definition require_scheduler :: "('b desk, unit) action" where
  "require_scheduler w = (w, if ds_links w \<noteq> [] \<and> \<not> hd (ds_links w) then Inl (RuntimeError ''scheduler unavailable'') else Inr ())"

definition validate_run_id :: "pyval \<Rightarrow> string option result" where
  "validate_run_id v =
     (case v of
        VNone \<Rightarrow> Inr None
      | VStr x \<Rightarrow> guard_or (canonical_uuid x) (ValueError ''run_id must be a canonical UUID'') (Inr (Some x))
      | _ \<Rightarrow> Inl (ValueError ''run_id must be a canonical UUID''))"

text \<open>\<open>run_workflow\<close> from where the identifier of the run is chosen: a run that is saved is not submitted again.\<close>

definition run_workflow ::
    "('b \<Rightarrow> string) \<Rightarrow> (string \<Rightarrow> string) \<Rightarrow> string \<Rightarrow> string \<Rightarrow> rat \<Rightarrow> time \<Rightarrow> string \<Rightarrow> 'b plan \<Rightarrow> ('b desk, string) action" where
  "run_workflow sha hc cap q tick now ts p w =
     (case map_of (run_files (ds_store w)) (srun_id (pl_run p)) of
        Some old \<Rightarrow>
          if vget old ''submission_digest'' \<noteq> pl_digest p
          then (w, Inl (ValueError ''Run ID is already bound to a different workflow submission''))
          else (w, Inr (srun_id (pl_run p)))
      | None \<Rightarrow> act_then require_scheduler (\<lambda>_. start_workflow sha hc cap q tick now ts p) w)"

section \<open>After a restart\<close>

text \<open>One round of \<open>_recover_incomplete_workflow_dispatches\<close>: whether the run was taken over.\<close>

definition recover_dispatch :: "string \<Rightarrow> rat \<Rightarrow> time \<Rightarrow> string \<Rightarrow> event \<Rightarrow> ('b desk, bool) action" where
  "recover_dispatch q tick now ts snap =
     (if vget snap ''dispatch'' = VNone then act_return False
      else act_then (act_result (validate_dispatch (vget snap ''dispatch''))) (\<lambda>d.
        if vget d ''status'' \<in> {VStr ''active'', VStr ''terminal''} then act_return False
        else (case (vget snap ''run_id'', vget snap ''workflow_id'') of
            (VStr rid, VStr wid) \<Rightarrow>
              let err = vor (vget d ''error'')
                    (initialization_error (vget d ''status'') ''Head restarted before workflow submission completed'' ''ProcessRestart'')
              in act_then
                   (if vget d ''status'' = VStr ''prepared''
                    then act_then (revoke_dispatch rid d) (\<lambda>d'. record_snapshot_failure ts rid (mark_snapshot_dispatch_failed now d' err snap) err)
                    else request_cleanup q tick rid wid d err (\<lambda>_. act_return ())
                           (\<lambda>d'. save_snapshot rid (dput ''dispatch'' (VDict d') snap)))
                   (\<lambda>_. act_return True)
          | _ \<Rightarrow> act_raise (ValueError ''Stored workflow dispatch identity is invalid''))))"

fun recover_each :: "string list \<Rightarrow> rat \<Rightarrow> time \<Rightarrow> string \<Rightarrow> event list \<Rightarrow> ('b desk, unit) action" where
  "recover_each qs tick now ts [] = act_return ()"
| "recover_each qs tick now ts (snap # snaps) =
     act_then (recover_dispatch (case qs of [] \<Rightarrow> [] | q # _ \<Rightarrow> q) tick now ts snap) (\<lambda>_. recover_each (tl qs) tick now ts snaps)"

definition recover_dispatches :: "string list \<Rightarrow> rat \<Rightarrow> time \<Rightarrow> string \<Rightarrow> ('b desk, unit) action" where
  "recover_dispatches qs tick now ts w = recover_each qs tick now ts (static_list_runs (ds_store w)) w"

end
