(* ===== verification/Submission_Safety.thy ===== *)
theory Submission_Safety
  imports Submission
begin

text \<open>
  What holds of submissions that fail: nothing is reported as failed while the scheduler may still run it, a cleanup
  nobody confirms ends, private artifacts are withdrawn, and a restarted core takes over every incomplete submission.
\<close>

section \<open>What the handlers may change\<close>

definition entry_status :: "static_entry \<Rightarrow> pyval" where
  "entry_status e = vget (se_dispatch e) ''status''"

definition status_of :: "'b desk \<Rightarrow> string \<Rightarrow> pyval option" where
  "status_of w rid = map_option entry_status (map_of (ds_runs w) rid)"

definition saved :: "'b desk \<Rightarrow> string set" where
  "saved w = dom (map_of (run_files (ds_store w)))"

text \<open>\<open>silent\<close> actions change no status of a submission, send nothing, and lose no snapshot.\<close>

definition same_view :: "'b desk \<Rightarrow> 'b desk \<Rightarrow> bool" where
  "same_view w w' = (status_of w' = status_of w \<and> ds_orders w' = ds_orders w \<and> ds_shutdown w' = ds_shutdown w \<and> saved w \<subseteq> saved w')"

definition silent :: "('b desk, 'a) action \<Rightarrow> bool" where
  "silent a = (\<forall>w. same_view w (fst (a w)))"

definition robust :: "('b desk \<Rightarrow> bool) \<Rightarrow> bool" where
  "robust P = (\<forall>w w'. P w \<longrightarrow> same_view w w' \<longrightarrow> P w')"

named_theorems silent_rules

lemma same_view_refl [simp]: "same_view w w"
  by (simp add: same_view_def)

lemma same_view_trans: "same_view w w1 \<Longrightarrow> same_view w1 w2 \<Longrightarrow> same_view w w2"
  by (auto simp: same_view_def)

lemma silentI: "(\<And>w. same_view w (fst (a w))) \<Longrightarrow> silent a"
  by (simp add: silent_def)

lemma silentD: "silent a \<Longrightarrow> a w = (w', r) \<Longrightarrow> same_view w w'"
  unfolding silent_def by (metis fst_conv)

lemma silent_then [silent_rules]: "silent m \<Longrightarrow> (\<And>x. silent (f x)) \<Longrightarrow> silent (act_then m f)"
proof (rule silentI)
  fix w assume a: "silent m" "\<And>x. silent (f x)"
  obtain w1 r where m: "m w = (w1, r)" by fastforce
  have "same_view w w1" using silentD [OF a(1) m] .
  moreover have "same_view w1 (fst (f x w1))" for x using a(2) [of x] by (simp add: silent_def)
  ultimately show "same_view w (fst (act_then m f w))"
    using m same_view_trans by (cases r) (auto simp: act_then_def)
qed

lemma silent_return [silent_rules]: "silent (act_return x)"
  by (rule silentI) (simp add: act_return_def)

lemma silent_raise [silent_rules]: "silent (act_raise x)"
  by (rule silentI) (simp add: act_raise_def)

lemma silent_result [silent_rules]: "silent (act_result x)"
  by (rule silentI) (simp add: act_result_def)

lemma silent_keeping: "silent a \<Longrightarrow> robust P \<Longrightarrow> keeping P a"
  by (rule keepingI) (auto simp: silent_def robust_def)

lemma silent_write [silent_rules]: "silent desk_write"
  by (rule silentI) (auto simp: desk_write_def same_view_def status_of_def saved_def split: list.split)

lemma change_store_view:
  assumes "dom (map_of (run_files (ds_store w))) \<subseteq> dom (map_of (run_files (fst (f (ds_store w)))))"
  shows "same_view w (fst (change_store f w))"
  using assms by (auto simp: change_store_def same_view_def status_of_def saved_def split: prod.split)

lemma static_save_run_dom: "dom (map_of (run_files s)) \<subseteq> dom (map_of (run_files (fst (static_save_run o1 rid snap s))))"
  by (auto simp: static_save_run_def forget_def Let_def)

lemma static_append_dom: "run_files (fst (static_store_append o1 rid e s)) = run_files s"
  by (auto simp: static_store_append_def static_write_event_def forget_def Let_def split: sum.split)

lemma static_once_dom: "run_files (fst (static_append_once o1 rid e s)) = run_files s"
proof -
  have w: "run_files (fst (static_write_event o1 rid p c b s)) = run_files s" for p c b s
    by (auto simp: static_write_event_def forget_def Let_def split: option.split)
  have l: "run_files (fst (static_log_state rid s)) = run_files s"
    by (auto simp: static_log_state_def forget_def Let_def split: option.split sum.split)
  obtain s1 r where s1: "static_log_state rid s = (s1, r)" by fastforce
  have "run_files s1 = run_files s" using l s1 by simp
  then show ?thesis
    using w [of "with_schema e" _ _ s1] s1
    by (auto simp: static_append_once_def forget_def Let_def split: option.split sum.split prod.split) (metis fst_conv)+
qed

lemma silent_save [silent_rules]: "silent (save_snapshot rid snap)"
  unfolding save_snapshot_def
  by (intro silent_then silent_write silentI change_store_view static_save_run_dom)

lemma silent_append [silent_rules]: "silent (change_store (static_store_append o1 rid e))"
  by (intro silentI change_store_view) (simp add: static_append_dom)

lemma silent_once [silent_rules]: "silent (change_store (static_append_once o1 rid e))"
  by (intro silentI change_store_view) (simp add: static_once_dom)

lemma silent_persist [silent_rules]: "silent (persist_entry rid)"
proof (rule silentI)
  fix w :: "'a desk"
  have "silent (act_then (act_result (entry_snapshot e)) (save_snapshot rid) :: ('a desk, unit) action)" for e
    by (intro silent_then silent_result silent_save)
  then show "same_view w (fst (persist_entry rid w))" by (simp add: persist_entry_def silent_def split: option.split)
qed

lemma silent_change_entry:
  "(\<And>e. entry_status (f e) = entry_status e) \<Longrightarrow> silent (change_entry rid f)"
  by (rule silentI)
    (auto simp: change_entry_def act_modify_def same_view_def status_of_def saved_def fun_eq_iff split: option.split)

lemma silent_record_event [silent_rules]: "silent (record_event now ts rid ev b)"
proof (rule silentI)
  fix w :: "'a desk"
  have "silent (act_then (change_entry rid (\<lambda>e. e\<lparr>se_run := r\<rparr>)) (\<lambda>_. act_then desk_write (\<lambda>o1.
      act_then (change_store (static_append_once o1 rid ev')) (\<lambda>_. if b then persist_entry rid else act_return ()))) :: ('a desk, unit) action)" for r ev'
    by (cases b) (auto intro!: silent_rules silent_change_entry simp: entry_status_def)
  note * = this [unfolded silent_def, rule_format]
  show "same_view w (fst (record_event now ts rid ev b w))"
  proof (cases "map_of (ds_runs w) rid")
    case (Some e)
    obtain r ev' where a: "static_append_event now ts ev (note_node_metrics ev (se_run e)) = (r, ev')" by fastforce
    show ?thesis unfolding record_event_def Some a option.case prod.case by (rule *)
  qed (simp add: record_event_def)
qed

lemma silent_revoke [silent_rules]: "silent (revoke_dispatch rid d)"
  by (rule silentI) (auto simp: revoke_dispatch_def same_view_def status_of_def saved_def split: sum.split)

lemma silent_load [silent_rules]: "silent (load_snapshot rid)" "silent (load_log rid)" "silent (dispatch_of rid)"
  by (auto intro!: silentI simp: load_snapshot_def load_log_def dispatch_of_def split: option.split)

lemma silent_record_failure [silent_rules]: "silent (record_snapshot_failure ts rid snap err)"
  unfolding record_snapshot_failure_def
  by (auto intro!: silent_rules simp: Let_def)

lemma silent_modify: "(\<And>w. same_view w (f w)) \<Longrightarrow> silent (act_modify f)"
  by (rule silentI) (simp add: act_modify_def)

lemma silent_register [silent_rules]: "silent (register_cleanup rid wid q)"
  by (rule silentI) (auto simp: register_cleanup_def same_view_def status_of_def saved_def Let_def)

lemma silent_clear [silent_rules]: "silent (clear_cleanup q)"
  unfolding clear_cleanup_def by (rule silent_modify) (simp add: same_view_def status_of_def saved_def fun_eq_iff)

lemma silent_change_artifacts [silent_rules]: "silent (change_artifacts place f)"
  by (rule silentI) (auto simp: change_artifacts_def same_view_def status_of_def saved_def split: sum.split)

lemma silent_upload [silent_rules]: "silent (upload_files sha hc place b c bs)"
  by (induction bs) (auto intro!: silent_rules)

lemma silent_queue [silent_rules]: "silent (queue_roots now rid payload ts)"
  by (induction ts) (auto intro!: silent_rules silent_change_entry simp: entry_status_def)

lemma silent_prepare: "silent (prepare_dispatch sha hc cap now ts p)"
  unfolding prepare_dispatch_def prepare_artifacts_def set_dispatch_field_def
  by (auto intro!: silent_rules silent_change_entry simp: Let_def entry_status_def)

section \<open>A run reported as failed is not running\<close>

definition quiet :: "string \<Rightarrow> 'b desk \<Rightarrow> bool" where
  "quiet rid w = (\<forall>t. Run_task rid t \<notin> set (ds_orders w))"

text \<open>
  What has happened to the scheduler, \<open>C\<close>: the stops it confirmed, and how many messages it had been sent when it last died and
  Ray was cleaned up after it (none if that never happened). A run is stopped when none of its tasks was sent since then, or its
  stop is confirmed, or the scheduler was told to shut down.
\<close>

type_synonym fate = "(string \<times> string) set \<times> nat"

definition quiet_since :: "nat \<Rightarrow> string \<Rightarrow> 'b desk \<Rightarrow> bool" where
  "quiet_since k rid w = (\<forall>t. Run_task rid t \<notin> set (drop k (ds_orders w)))"

definition stopped :: "fate \<Rightarrow> string \<Rightarrow> 'b desk \<Rightarrow> bool" where
  "stopped C rid w = (quiet_since (snd C) rid w \<or> ds_shutdown w \<or> (\<exists>q. (rid, q) \<in> fst C))"

lemma quiet_stopped: "quiet rid w \<Longrightarrow> stopped C rid w"
  by (auto simp: quiet_def quiet_since_def stopped_def dest: in_set_dropD)

lemma stopped_cong: "ds_orders w' = ds_orders w \<Longrightarrow> ds_shutdown w' = ds_shutdown w \<Longrightarrow> stopped C rid w' = stopped C rid w"
  by (simp add: stopped_def quiet_since_def)

definition submission_ok :: "fate \<Rightarrow> string \<Rightarrow> 'b desk \<Rightarrow> bool" where
  "submission_ok C rid w =
     (case status_of w rid of
        None \<Rightarrow> quiet rid w
      | Some v \<Rightarrow> (v = VStr ''prepared'' \<longrightarrow> quiet rid w) \<and> (v = VStr ''terminal'' \<longrightarrow> stopped C rid w) \<and> rid \<in> saved w)"

definition desk_ok :: "fate \<Rightarrow> 'b desk \<Rightarrow> bool" where
  "desk_ok C w = (\<forall>rid. submission_ok C rid w)"

lemma robust_basic [silent_rules]:
  "robust (quiet rid)" "robust (stopped C rid)" "robust (submission_ok C rid)" "robust (desk_ok C)" "robust ds_shutdown"
  "robust (\<lambda>w. status_of w rid = Some v)" "robust (\<lambda>w. rid \<in> saved w)"
  by (auto simp: robust_def same_view_def quiet_def quiet_since_def stopped_def submission_ok_def desk_ok_def split: option.split)

lemma robust_conj [silent_rules]: "robust P \<Longrightarrow> robust Q \<Longrightarrow> robust (\<lambda>w. P w \<and> Q w)"
  unfolding robust_def by blast

lemma robust_all: "(\<And>x. robust (P x)) \<Longrightarrow> robust (\<lambda>w. \<forall>x. Q x \<longrightarrow> P x w)"
  unfolding robust_def by blast

lemma change_entry_status:
  "status_of (fst (change_entry rid f w)) r
     = (if r = rid then map_option (entry_status \<circ> f) (map_of (ds_runs w) rid) else status_of w r)"
  by (auto simp: change_entry_def act_modify_def status_of_def split: option.split)

lemma change_entry_rest [simp]:
  "ds_orders (fst (change_entry rid f w)) = ds_orders w" "ds_shutdown (fst (change_entry rid f w)) = ds_shutdown w"
  "saved (fst (change_entry rid f w)) = saved w"
  by (auto simp: change_entry_def act_modify_def saved_def split: option.split)

text \<open>The one lemma about a change of status.\<close>

lemma change_entry_ok:
  assumes "desk_ok C w"
    and "\<And>e. map_of (ds_runs w) rid = Some e \<Longrightarrow> entry_status (f e) = VStr ''prepared'' \<Longrightarrow> quiet rid w"
    and "\<And>e. map_of (ds_runs w) rid = Some e \<Longrightarrow> entry_status (f e) = VStr ''terminal'' \<Longrightarrow> stopped C rid w"
  shows "desk_ok C (fst (change_entry rid f w))"
  unfolding desk_ok_def
proof
  fix r
  have q: "quiet x (fst (change_entry rid f w)) = quiet x w" "stopped C x (fst (change_entry rid f w)) = stopped C x w" for x
    by (simp_all add: quiet_def quiet_since_def stopped_def)
  show "submission_ok C r (fst (change_entry rid f w))"
    using assms(1) [unfolded desk_ok_def, rule_format, of r] assms(2,3)
    by (auto simp: submission_ok_def change_entry_status q split: option.splits) (auto simp: status_of_def)
qed

definition harmless :: "order \<Rightarrow> bool" where
  "harmless x = (case x of Run_task _ _ \<Rightarrow> False | _ \<Rightarrow> True)"

lemma send_fields:
  "ds_runs (fst (desk_send x w)) = ds_runs w" "ds_store (fst (desk_send x w)) = ds_store w"
  "ds_shutdown (fst (desk_send x w)) = ds_shutdown w" "set (ds_orders (fst (desk_send x w))) \<subseteq> insert x (set (ds_orders w))"
  by (auto simp: desk_send_def split: list.split bool.split)

lemma send_orders: "ds_orders (fst (desk_send x w)) = ds_orders w \<or> ds_orders (fst (desk_send x w)) = ds_orders w @ [x]"
  by (auto simp: desk_send_def split: list.split bool.split)

lemma send_quiet_since:
  assumes "\<And>t. x \<noteq> Run_task r t" and "quiet_since k r w"
  shows "quiet_since k r (fst (desk_send x w))"
proof -
  have "set (drop (k - length (ds_orders w)) [x]) \<subseteq> {x}" using set_drop_subset [of _ "[x]"] by simp
  then have "Run_task r t \<notin> set (drop (k - length (ds_orders w)) [x])" for t using assms(1) by blast
  then show ?thesis using send_orders [of x w] assms(2) by (auto simp: quiet_since_def)
qed

lemma send_ok:
  assumes "desk_ok C w" and "\<And>r t. x = Run_task r t \<Longrightarrow> \<exists>v. status_of w r = Some v \<and> v \<noteq> VStr ''prepared'' \<and> v \<noteq> VStr ''terminal''"
  shows "desk_ok C (fst (desk_send x w))"
  unfolding desk_ok_def
proof
  fix r
  have q: "(\<exists>t. x = Run_task r t) \<or> (quiet r w \<longrightarrow> quiet r (fst (desk_send x w))) \<and> (stopped C r w \<longrightarrow> stopped C r (fst (desk_send x w)))"
    using send_fields(4) [of x w] send_quiet_since [of x r "snd C" w] by (auto simp: quiet_def stopped_def send_fields(3))
  then show "submission_ok C r (fst (desk_send x w))"
    using assms(1) [unfolded desk_ok_def, rule_format, of r] assms(2) [of r]
    by (auto simp: submission_ok_def status_of_def saved_def send_fields split: option.splits)
qed

lemma keeping_robust: "silent a \<Longrightarrow> robust P \<Longrightarrow> triple P a (\<lambda>_. P) P"
  using silent_keeping by (auto simp: keeping_def)

lemma revoke_status: "revoke_dispatch rid d w = (w', Inr d') \<Longrightarrow> vget d' ''status'' = vget d ''status''"
  by (auto simp: revoke_dispatch_def split: if_splits sum.splits)

lemma validate_dispatch_Inr: "validate_dispatch v = Inr d \<Longrightarrow> v = VDict d"
  by (auto simp: validate_dispatch_def guard_or_def split: pyval.splits if_splits)

lemma terminal_status: "entry_status (mark_static_dispatch_failed now err e) = VStr ''terminal''"
  by (simp add: entry_status_def mark_static_dispatch_failed_def terminal_dispatch_def)

lemma mark_failed_keeps:
  "keeping (\<lambda>w. desk_ok C w \<and> stopped C rid w) (change_entry rid (mark_static_dispatch_failed now err))"
proof (rule keepingI)
  fix w :: "'a desk" assume "desk_ok C w \<and> stopped C rid w"
  then show "desk_ok C (fst (change_entry rid (mark_static_dispatch_failed now err) w))
      \<and> stopped C rid (fst (change_entry rid (mark_static_dispatch_failed now err) w))"
    using change_entry_ok [of C w rid "mark_static_dispatch_failed now err"]
    by (simp add: terminal_status stopped_def quiet_since_def)
qed

lemma set_same_status:
  assumes "P w" "robust P" "status_of w rid = Some (vget d ''status'')"
  shows "P (fst (set_dispatch rid d w))"
proof -
  have "same_view w (fst (set_dispatch rid d w))"
    using assms(3)
    by (auto simp: same_view_def fun_eq_iff set_dispatch_def change_entry_status)
      (auto simp: status_of_def entry_status_def)
  then show ?thesis using assms(1,2) by (auto simp: robust_def)
qed

lemma silent_fst: "silent a \<Longrightarrow> robust P \<Longrightarrow> P w \<Longrightarrow> a w = (w', r) \<Longrightarrow> P w'"
  using keeping_D [OF silent_keeping, of a P w] by simp

text \<open>A submission is given up once its tasks cannot run any more.\<close>

lemma finish_keeps:
  "keeping (\<lambda>w. desk_ok C w \<and> stopped C rid w) (finish_dispatch_failure now ts rid err)" (is "keeping ?P _")
proof (rule keepingI)
  fix w :: "'a desk" assume P: "?P w"
  have rob: "robust ?P" by (intro silent_rules)
  show "?P (fst (finish_dispatch_failure now ts rid err w))"
  proof (cases "map_of (ds_runs w) rid")
    case None
    have "silent (act_then (load_snapshot rid) (\<lambda>snap.
          act_then (act_result (validate_dispatch (vget snap ''dispatch''))) (\<lambda>d.
          if vget d ''status'' = VStr ''terminal'' then act_return ()
          else
            act_then (revoke_dispatch rid d) (\<lambda>d'.
            record_snapshot_failure ts rid (mark_snapshot_dispatch_failed now d' err snap) err))) :: ('a desk, unit) action)"
      by (auto intro!: silent_rules)
    from keeping_D [OF silent_keeping [OF this rob] P] None show ?thesis
      by (simp add: finish_dispatch_failure_def)
  next
    case (Some e)
    have tail: "keeping ?P (act_then (change_entry rid (mark_static_dispatch_failed now err)) (\<lambda>_. record_event now ts rid ev b))" for ev b
      by (rule keeping_then [OF mark_failed_keeps silent_keeping [OF silent_record_event rob]])
    have set: "?P (fst (set_dispatch rid d' w1))"
      if "?P w1" "status_of w1 rid = Some (vget d' ''status'')" for d' and w1 :: "'a desk"
      using set_same_status [OF that(1) rob that(2)] by simp
    have set_ok: "snd (set_dispatch rid d' w1) = Inr ()" for d' and w1 :: "'a desk"
      by (simp add: set_dispatch_def change_entry_def act_modify_def)
    show ?thesis
    proof (cases "validate_dispatch (VDict (se_dispatch e))")
      case (Inr d)
      then have d: "d = se_dispatch e" using validate_dispatch_Inr by blast
      obtain w1 r where r: "revoke_dispatch rid d w = (w1, r)" by fastforce
      have P1: "?P w1" by (rule silent_fst [OF silent_revoke rob P r])
      have "status_of w rid = Some (vget d ''status'')" using Some d by (simp add: status_of_def entry_status_def)
      then have s1: "status_of w1 rid = Some (vget d ''status'')"
        using silentD [OF silent_revoke r] by (simp add: same_view_def)
      show ?thesis
      proof (cases r)
        case (Inr d')
        have s2: "status_of w1 rid = Some (vget d' ''status'')" using s1 revoke_status r Inr by metis
        obtain w2 where w2: "set_dispatch rid d' w1 = (w2, Inr ())" using set_ok [of d' w1] by (metis prod.collapse)
        have "?P w2" using set [OF P1 s2] w2 by simp
        from keeping_D [OF tail this] show ?thesis
          using P Some \<open>validate_dispatch _ = _\<close> r Inr w2
          by (simp add: finish_dispatch_failure_def act_then_def [of "act_result _"] act_result_def
              act_then_def [of "revoke_dispatch rid d"] act_then_def [of "set_dispatch rid d'"] act_return_def)
      next
        case (Inl x)
        with P P1 Some \<open>validate_dispatch _ = _\<close> r show ?thesis
          by (simp add: finish_dispatch_failure_def act_then_def act_result_def act_return_def)
      qed
    next
      case (Inl x)
      with P Some show ?thesis by (simp add: finish_dispatch_failure_def act_then_def act_result_def)
    qed
  qed
qed

section \<open>The handlers keep the invariant\<close>

lemma send_keeps [act_rules]: "harmless x \<Longrightarrow> keeping (desk_ok C) (desk_send x)"
  by (rule keepingI) (auto simp: harmless_def intro!: send_ok)

lemma silent_ok: "silent a \<Longrightarrow> keeping (desk_ok C) a"
  by (rule silent_keeping) (assumption | rule silent_rules)+

lemma send_cleanup_keeps: "keeping (desk_ok C) (send_cleanup tick rid wid q)"
proof -
  have "silent (act_modify (\<lambda>w :: 'b desk. w\<lparr>ds_retries := f w\<rparr>))" for f
    by (rule silent_modify) (simp add: same_view_def saved_def status_of_def fun_eq_iff)
  then show ?thesis
    unfolding send_cleanup_def
    by (intro act_rules silent_ok silent_rules) (simp_all add: harmless_def)
qed

lemma set_status_keeps:
  assumes "vget d ''status'' \<noteq> VStr ''prepared''" "vget d ''status'' \<noteq> VStr ''terminal''"
  shows "keeping (desk_ok C) (set_dispatch rid d)"
  unfolding set_dispatch_def
  by (rule keepingI, rule change_entry_ok) (use assms in \<open>auto simp: entry_status_def\<close>)

lemma request_cleanup_keeps:
  assumes "\<And>d. vget d ''status'' = VStr ''cleanup_pending'' \<Longrightarrow> keeping (desk_ok C) (keep d)" "\<And>d. keeping (desk_ok C) (save d)"
  shows "keeping (desk_ok C) (request_cleanup q tick rid wid d err keep save)"
  unfolding request_cleanup_def Let_def
  by (auto intro!: act_rules assms send_cleanup_keeps split: pyval.split)

lemma fail_dispatch_keeps: "keeping (desk_ok C) (fail_dispatch q tick now ts rid x)"
proof (rule keepingI)
  fix w :: "'a desk" assume ok: "desk_ok C w"
  show "desk_ok C (fst (fail_dispatch q tick now ts rid x w))"
  proof (cases "map_of (ds_runs w) rid")
    case (Some e)
    show ?thesis
    proof (cases "validate_dispatch (VDict (se_dispatch e))")
      case (Inr d)
      then have d: "d = se_dispatch e" using validate_dispatch_Inr by blast
      show ?thesis
      proof (cases "vget d ''status'' = VStr ''prepared''")
        case True
        then have "stopped C rid w"
          using ok [unfolded desk_ok_def, rule_format, of rid] Some d
          by (auto simp: submission_ok_def status_of_def entry_status_def intro: quiet_stopped)
        with ok keeping_D [OF finish_keeps [of C rid now ts "dispatch_error d x"], of w] True Some Inr show ?thesis
          by (simp add: fail_dispatch_def act_then_def act_result_def)
      next
        case False
        have "keeping (desk_ok C) (request_cleanup q tick rid (srun_workflow (se_run e)) d (dispatch_error d x)
            (set_dispatch rid) (\<lambda>_. persist_entry rid))"
          by (rule request_cleanup_keeps) (auto intro!: set_status_keeps silent_ok [OF silent_persist])
        with False Some Inr keeping_D [OF this ok] show ?thesis
          by (simp add: fail_dispatch_def act_then_def [of "act_result _"] act_result_def)
      qed
    next
      case (Inl x)
      with ok Some show ?thesis by (simp add: fail_dispatch_def act_then_def act_result_def)
    qed
  qed (simp add: fail_dispatch_def ok)
qed

lemma stopped_keeps: "keeping (\<lambda>w. desk_ok C w \<and> stopped C rid w) a \<Longrightarrow> silent b \<Longrightarrow>
    keeping (\<lambda>w. desk_ok C w \<and> stopped C rid w) (act_then a (\<lambda>_. b))"
  by (rule keeping_then) (assumption | rule silent_keeping silent_rules)+

lemma confirm_keeps: "keeping (\<lambda>w. desk_ok C w \<and> stopped C rid w) (confirm_cleanup now ts rid q)"
proof -
  have "keeping (\<lambda>w. desk_ok C w \<and> stopped C rid w) (act_then (finish_dispatch_failure now ts rid err) (\<lambda>_. clear_cleanup q))" for err
    by (rule stopped_keeps [OF finish_keeps silent_clear])
  moreover have "keeping (\<lambda>w. desk_ok C w \<and> stopped C rid w) (clear_cleanup q)"
    "keeping (\<lambda>w. desk_ok C w \<and> stopped C rid w) (dispatch_of rid)"
    by (intro silent_keeping silent_rules)+
  ultimately show ?thesis unfolding confirm_cleanup_def by (intro keeping_then keeping_result) (auto intro: act_rules)
qed

lemma request_shutdown_stops: "desk_ok C w \<Longrightarrow> desk_ok C (fst (request_shutdown w)) \<and> ds_shutdown (fst (request_shutdown w))"
proof (cases "ds_shutdown w")
  case False
  assume ok: "desk_ok C w"
  have ok1: "desk_ok C (w\<lparr>ds_shutdown := True\<rparr>)"
    using ok unfolding desk_ok_def
    by (elim all_forward) (simp add: submission_ok_def quiet_def quiet_since_def stopped_def status_of_def saved_def split: option.splits)
  have "harmless Shutdown_scheduler" by (simp add: harmless_def)
  from keeping_D [OF send_keeps [OF this] ok1] False send_fields(3) [of Shutdown_scheduler "w\<lparr>ds_shutdown := True\<rparr>"] show ?thesis
    by (auto simp: request_shutdown_def act_catch_def act_return_def split: prod.split sum.split)
qed (simp add: request_shutdown_def)

lemma shutdown_never_fails: "\<exists>w'. request_shutdown w = (w', Inr ())"
  by (auto simp: request_shutdown_def act_catch_def act_return_def split: prod.split sum.split)

lemma retry_keeps: "keeping (desk_ok C) (retry_cleanup tick now ts q t)"
proof (rule keepingI)
  fix w :: "'a desk" assume ok: "desk_ok C w"
  have clear: "desk_ok C (fst (clear_cleanup q w))" by (rule keeping_D [OF silent_ok [OF silent_clear] ok])
  obtain w1 where w1: "request_shutdown w = (w1, Inr ())" using shutdown_never_fails by blast
  have "keeping (\<lambda>w. desk_ok C w \<and> stopped C (cr_run t) w)
      (act_then (finish_dispatch_failure now ts (cr_run t) err) (\<lambda>_. clear_cleanup q))" for err
    by (rule stopped_keeps [OF finish_keeps silent_clear])
  moreover have "desk_ok C w1 \<and> stopped C (cr_run t) w1" using request_shutdown_stops [OF ok] w1 by (simp add: stopped_def)
  ultimately have "desk_ok C (fst (act_then (finish_dispatch_failure now ts (cr_run t) err) (\<lambda>_. clear_cleanup q) w1))" for err
    using keeping_D by fastforce
  with clear ok w1 keeping_D [OF send_cleanup_keeps ok] show "desk_ok C (fst (retry_cleanup tick now ts q t w))"
    by (simp add: retry_cleanup_def act_then_def [of request_shutdown])
qed

lemma retry_each_keeps: "keeping (desk_ok C) (retry_each tick now ts qs)"
  by (induction tick now ts qs rule: retry_each.induct) (auto intro!: act_rules retry_keeps)

lemma abandon_keeps: "keeping (desk_ok C) (abandon_dispatch q tick rid x)"
proof (rule keepingI)
  fix w :: "'a desk" assume ok: "desk_ok C w"
  have "keeping (desk_ok C) (act_then (request_cleanup q tick rid wid d err (set_dispatch rid) (\<lambda>_. persist_entry rid))
      (\<lambda>_. act_return b))" for wid d err and b :: bool
    by (rule keeping_then [OF request_cleanup_keeps keeping_return]) (auto intro!: set_status_keeps silent_ok [OF silent_persist])
  from keeping_D [OF this ok] ok show "desk_ok C (fst (abandon_dispatch q tick rid x w))"
    by (simp add: abandon_dispatch_def split: option.split)
qed

lemma expire_keeps: "keeping (desk_ok C) (expire_submission q tick now rid)"
proof (rule keepingI)
  fix w :: "'a desk" assume ok: "desk_ok C w"
  have "keeping (desk_ok C) (act_catch (abandon_dispatch q tick rid x) (\<lambda>_. act_return True))" for x
    by (rule keeping_catch [OF abandon_keeps keeping_return])
  from keeping_D [OF this ok] ok show "desk_ok C (fst (expire_submission q tick now rid w))"
    by (simp add: expire_submission_def split: option.split)
qed

lemma recover_keeps: "keeping (desk_ok C) (recover_each qs tick now ts snaps)"
proof (induction qs tick now ts snaps rule: recover_each.induct)
  case (2 qs tick now ts snap snaps)
  have "keeping (desk_ok C) (recover_dispatch q tick now ts snap)" for q
    unfolding recover_dispatch_def Let_def
    by (auto intro!: act_rules silent_ok [OF silent_revoke] silent_ok [OF silent_record_failure] silent_ok [OF silent_save]
        request_cleanup_keeps split: pyval.split)
  with 2 show ?case by (auto intro!: act_rules)
qed (auto intro!: act_rules)

section \<open>Starting a run\<close>

text \<open>The run exists, was saved, and nothing of it is sent yet.\<close>

definition claimed :: "fate \<Rightarrow> string \<Rightarrow> string \<Rightarrow> 'b desk \<Rightarrow> bool" where
  "claimed C rid x w = (desk_ok C w \<and> status_of w rid = Some (VStr x))"

lemma robust_claimed [silent_rules]: "robust (claimed C rid x)"
  unfolding claimed_def by (intro silent_rules)

lemma claimed_ok: "claimed C rid x w \<Longrightarrow> desk_ok C w"
  by (simp add: claimed_def)

lemma silent_step:
  "silent a \<Longrightarrow> robust P \<Longrightarrow> (\<And>w. P w \<Longrightarrow> E w) \<Longrightarrow> (\<And>x w. P w \<Longrightarrow> Q x w) \<Longrightarrow> triple P a Q E"
  using keeping_robust [of a P] triple_conseq [of P a "\<lambda>_. P" P] by blast

lemma set_field_step:
  assumes "x \<noteq> ''prepared''" "x \<noteq> ''terminal''"
  shows "triple (claimed C rid y) (set_dispatch_field rid ''status'' (VStr x)) (\<lambda>_. claimed C rid x) E"
proof (rule tripleI)
  fix w :: "'a desk" assume c: "claimed C rid y w"
  let ?f = "\<lambda>e. e\<lparr>se_dispatch := dput ''status'' (VStr x) (se_dispatch e)\<rparr>"
  have "desk_ok C (fst (change_entry rid ?f w))"
    by (rule change_entry_ok) (use assms c in \<open>auto simp: entry_status_def claimed_def\<close>)
  moreover have "status_of (fst (change_entry rid ?f w)) rid = Some (VStr x)"
    using c by (auto simp: claimed_def change_entry_status) (auto simp: status_of_def entry_status_def)
  moreover have "snd (change_entry rid ?f w) = Inr ()" by (simp add: change_entry_def act_modify_def)
  ultimately show "case set_dispatch_field rid ''status'' (VStr x) w of (w', Inr z) \<Rightarrow> claimed C rid x w' | (w', Inl e) \<Rightarrow> E w'"
    by (cases "change_entry rid ?f w") (simp add: set_dispatch_field_def claimed_def)
qed

lemma send_roots_keeps: "keeping (claimed C rid ''dispatching'') (send_roots rid ts)"
proof (induction ts)
  case (Cons t ts)
  have "keeping (claimed C rid ''dispatching'') (desk_send (Run_task rid t))"
    by (rule keepingI)
      (use send_ok [of C _ "Run_task rid t"] in \<open>auto simp: claimed_def status_of_def send_fields\<close>)
  with Cons show ?case by (auto intro!: act_rules)
qed (auto intro!: act_rules)

lemma dispatch_keeps:
  "triple (claimed C (srun_id (pl_run p)) ''prepared'') (act_then (prepare_dispatch sha hc cap now ts p) (\<lambda>_. send_dispatch p))
     (\<lambda>_. desk_ok C) (desk_ok C)" (is "triple ?A _ _ _")
  unfolding send_dispatch_def Let_def
  by (intro triple_then [where R = "\<lambda>_. ?A"] triple_then [where R = "\<lambda>_. claimed C (srun_id (pl_run p)) ''dispatching''"]
      triple_then [where R = "\<lambda>_. claimed C (srun_id (pl_run p)) ''active''"] set_field_step
      silent_step [OF silent_prepare] silent_step [OF silent_persist] triple_conseq [OF keeping_triple [OF send_roots_keeps]] robust_claimed)
    (auto dest: claimed_ok)

lemma persist_saves: "triple (\<lambda>w. status_of w rid \<noteq> None) (persist_entry rid) (\<lambda>_ w. rid \<in> saved w) (\<lambda>_. True)"
proof (rule tripleI)
  fix w :: "'a desk" assume "status_of w rid \<noteq> None"
  then obtain e where e: "map_of (ds_runs w) rid = Some e" by (auto simp: status_of_def)
  have s: "rid \<in> saved w'" if "save_snapshot rid snap w = (w', Inr ())" for snap w'
    using that by (auto simp: save_snapshot_def act_then_def desk_write_def change_store_def static_save_run_def saved_def
        forget_def Let_def split: list.splits if_splits prod.splits)
  show "case persist_entry rid w of (w', Inr _) \<Rightarrow> rid \<in> saved w' | (w', Inl _) \<Rightarrow> True"
    using s by (auto simp: persist_entry_def e act_then_def act_result_def split: sum.split prod.split)
qed

text \<open>Claiming a fresh identifier: until the run is saved, nothing is known of it but that it is quiet.\<close>

definition claiming :: "fate \<Rightarrow> string \<Rightarrow> 'b desk \<Rightarrow> bool" where
  "claiming C rid w = ((\<forall>r. r \<noteq> rid \<longrightarrow> submission_ok C r w) \<and> quiet rid w \<and> status_of w rid = Some (VStr ''prepared''))"

lemma robust_claiming: "robust (claiming C rid)"
  unfolding claiming_def by (intro silent_rules robust_all)

lemma submission_ok_cong:
  "status_of w' r = status_of w r \<Longrightarrow> ds_orders w' = ds_orders w \<Longrightarrow> ds_shutdown w' = ds_shutdown w \<Longrightarrow> saved w' = saved w \<Longrightarrow>
    submission_ok C r w' = submission_ok C r w"
  using stopped_cong [of w' w C r] by (simp add: submission_ok_def quiet_def split: option.split)

lemma desk_ok_unclaimed: "desk_ok C w \<Longrightarrow> rid \<notin> saved w \<Longrightarrow> quiet rid w"
  unfolding desk_ok_def submission_ok_def by (auto split: option.splits dest: spec [of _ rid])

lemma claim_keeps:
  "triple (\<lambda>w. desk_ok C w \<and> srun_id (pl_run p) \<notin> saved w) (claim_run p) (\<lambda>_. claimed C (srun_id (pl_run p)) ''prepared'') (desk_ok C)"
proof -
  define rid where "rid = srun_id (pl_run p)"
  let ?e = "\<lparr>se_run = pl_run p, se_dispatch = initial_dispatch p, se_digest = pl_digest p\<rparr>"
  have put: "triple (\<lambda>w :: 'a desk. desk_ok C w \<and> rid \<notin> saved w) (act_modify (\<lambda>w. w\<lparr>ds_runs := dput rid ?e (ds_runs w)\<rparr>)) (\<lambda>_. claiming C rid) E" for E
  proof (rule triple_modify)
    fix w :: "'a desk" assume w: "desk_ok C w \<and> rid \<notin> saved w"
    let ?w = "w\<lparr>ds_runs := dput rid ?e (ds_runs w)\<rparr>"
    have "submission_ok C r ?w" if "r \<noteq> rid" for r
      using w submission_ok_cong [of ?w r w C] that by (simp add: desk_ok_def status_of_def saved_def)
    moreover have "quiet rid ?w" using w desk_ok_unclaimed [of C w rid] by (simp add: quiet_def)
    ultimately show "claiming C rid ?w"
      by (simp add: claiming_def status_of_def entry_status_def initial_dispatch_def)
  qed
  have del: "triple (claiming C rid) (act_then (act_modify (\<lambda>w :: 'a desk. w\<lparr>ds_runs := ddel rid (ds_runs w)\<rparr>)) (\<lambda>_. act_raise x)) Q (desk_ok C)" for x Q
  proof (rule triple_then [where R = "\<lambda>_. desk_ok C"], rule triple_modify)
    fix w :: "'a desk" assume w: "claiming C rid w"
    let ?w = "w\<lparr>ds_runs := ddel rid (ds_runs w)\<rparr>"
    have other: "submission_ok C r ?w" if "r \<noteq> rid" for r
      using w submission_ok_cong [of ?w r w C] that by (simp add: claiming_def status_of_def saved_def)
    have "submission_ok C rid ?w" using w by (simp add: claiming_def submission_ok_def status_of_def quiet_def)
    then have "submission_ok C r ?w" for r using other by (cases "r = rid") simp_all
    then show "desk_ok C ?w" by (simp add: desk_ok_def)
  qed (rule triple_raise)
  have persist: "triple (claiming C rid) (persist_entry rid :: ('a desk, unit) action) (\<lambda>_. claimed C rid ''prepared'') (claiming C rid)"
  proof (rule tripleI)
    fix w :: "'a desk" assume c: "claiming C rid w"
    obtain w' r where r: "persist_entry rid w = (w', r)" by fastforce
    have c': "claiming C rid w'" by (rule silent_fst [OF silent_persist robust_claiming c r])
    have "rid \<in> saved w'" if "r = Inr ()"
      using tripleD [OF persist_saves _ r] c that by (auto simp: claiming_def)
    then have "submission_ok C x w'" if "r = Inr ()" for x
      using c' that by (cases "x = rid") (auto simp: claiming_def submission_ok_def)
    with c' have "claimed C rid ''prepared'' w'" if "r = Inr ()"
      using that by (simp add: claimed_def claiming_def desk_ok_def)
    with c' r show "case persist_entry rid w of (w', Inr z) \<Rightarrow> claimed C rid ''prepared'' w' | (w', Inl e) \<Rightarrow> claiming C rid w'"
      by (auto split: sum.split)
  qed
  show ?thesis unfolding claim_run_def Let_def rid_def [symmetric]
    by (intro triple_then [OF put] triple_catch [OF persist] del)
qed

lemma start_keeps:
  "triple (\<lambda>w. desk_ok C w \<and> srun_id (pl_run p) \<notin> saved w) (start_workflow sha hc cap q tick now ts p) (\<lambda>_. desk_ok C) (desk_ok C)"
  unfolding start_workflow_def Let_def
  by (intro triple_then [OF claim_keeps] triple_then [where R = "\<lambda>_. desk_ok C"] triple_catch [OF dispatch_keeps]
      keeping_triple [OF fail_dispatch_keeps] triple_raise triple_return)

lemma run_workflow_keeps: "keeping (desk_ok C) (run_workflow sha hc cap q tick now ts p)"
proof (rule keepingI)
  fix w :: "'a desk" assume ok: "desk_ok C w"
  have "desk_ok C (fst (start_workflow sha hc cap q tick now ts p w))" if "srun_id (pl_run p) \<notin> saved w"
    using start_keeps [of C p sha hc cap q tick now ts] ok that unfolding triple_def by (fastforce split: prod.splits sum.splits)
  then show "desk_ok C (fst (run_workflow sha hc cap q tick now ts p w))"
    using ok by (auto simp: run_workflow_def saved_def require_scheduler_def act_then_def split: option.split)
qed

section \<open>What the desk does\<close>

lemma request_exit_keeps: "keeping (desk_ok C) (exit_request q tick reason rid e)"
proof -
  have r: "keeping (desk_ok C) (request_cleanup q tick rid wid d err (set_dispatch rid) (\<lambda>_. persist_entry rid))" for wid d err
    by (rule request_cleanup_keeps) (auto intro!: set_status_keeps silent_ok [OF silent_persist])
  show ?thesis
    unfolding exit_request_def Let_def by (auto intro!: act_rules r silent_ok [OF silent_register] split: pyval.split)
qed

lemma silent_still [silent_rules]: "silent (still_submitting rid)"
  by (rule silentI) (simp add: still_submitting_def)

lemma exit_confirm_keeps: "keeping (\<lambda>w. desk_ok C w \<and> stopped C rid w) (exit_confirm now ts rid x)"
proof -
  have s: "keeping (\<lambda>w. desk_ok C w \<and> stopped C rid w) (still_submitting rid)"
    by (intro silent_keeping silent_rules)
  show ?thesis
    unfolding exit_confirm_def by (auto intro!: act_rules confirm_keeps s split: option.split)
qed

text \<open>As long as Ray is not cleaned up, the handler only asks; afterwards it also confirms.\<close>

lemma exit_keeps: "keeping (desk_ok C) (exit_submission q tick now ts reason False rid x)"
proof (rule keepingI)
  fix w :: "'a desk" assume ok: "desk_ok C w"
  have "keeping (desk_ok C) (act_catch
      (act_then (case xe_request x of Some r \<Rightarrow> act_return r | None \<Rightarrow> exit_request q tick reason rid e) (\<lambda>r. act_return (x\<lparr>xe_request := Some r\<rparr>)))
      (\<lambda>_. act_return x))" for e
    by (auto intro!: act_rules request_exit_keeps split: option.split)
  from keeping_D [OF this ok] ok show "desk_ok C (fst (exit_submission q tick now ts reason False rid x w))"
    by (simp add: exit_submission_def split: option.split)
qed

lemma request_exit_quiet: "keeping (quiet_since k r) (exit_request q tick reason rid e)"
proof -
  have send: "keeping (quiet_since k r) (desk_send (Stop_workflow rid x))" for x
    by (rule keepingI) (simp add: send_quiet_since)
  have rob: "robust (quiet_since k r :: 'a desk \<Rightarrow> bool)" by (simp add: robust_def same_view_def quiet_since_def)
  have mod: "keeping (quiet_since k r) (act_modify (\<lambda>w :: 'a desk. w\<lparr>ds_retries := f w\<rparr>))" for f
    by (rule keeping_modify) (simp add: quiet_since_def)
  have set: "keeping (quiet_since k r) (set_dispatch rid d :: ('a desk, unit) action)" for d
    unfolding set_dispatch_def by (rule keepingI) (simp add: quiet_since_def)
  have reg: "keeping (quiet_since k r) (register_cleanup rid wid x :: ('a desk, cleanup_retry) action)" for wid x
    by (rule silent_keeping [OF silent_register rob])
  have per: "keeping (quiet_since k r) (persist_entry rid :: ('a desk, unit) action)"
    by (rule silent_keeping [OF silent_persist rob])
  show ?thesis
    unfolding exit_request_def request_cleanup_def send_cleanup_def Let_def
    by (auto intro!: act_rules send mod set reg per split: pyval.split)
qed

lemma exit_cleaned_keeps:
  assumes "desk_ok C w" and "quiet_since (snd C) rid w"
  shows "desk_ok C (fst (exit_submission q tick now ts reason True rid x w))"
proof -
  have q: "keeping (\<lambda>w. desk_ok C w \<and> quiet_since (snd C) rid w) (exit_request q tick reason rid e)" for e
    by (rule keeping_conj [OF request_exit_keeps request_exit_quiet])
  have r: "keeping (\<lambda>w. desk_ok C w \<and> quiet_since (snd C) rid w)
      (case xe_request x of Some r \<Rightarrow> act_return r | None \<Rightarrow> exit_request q tick reason rid e)" for e
    by (cases "xe_request x") (simp_all add: q keeping_return)
  have c: "keeping (\<lambda>w. desk_ok C w \<and> stopped C rid w) (exit_confirm now ts rid y)" for y by (rule exit_confirm_keeps)
  have "triple (\<lambda>w. desk_ok C w \<and> quiet_since (snd C) rid w) (act_catch
      (act_then (case xe_request x of Some r \<Rightarrow> act_return r | None \<Rightarrow> exit_request q tick reason rid e)
        (\<lambda>r. exit_confirm now ts rid (x\<lparr>xe_request := Some r\<rparr>)))
      (\<lambda>_. act_return x)) (\<lambda>_. desk_ok C) (desk_ok C)" for e
  proof (rule triple_catch [where R = "desk_ok C"], rule triple_then [where R = "\<lambda>_ w. desk_ok C w \<and> stopped C rid w"])
    show "triple (\<lambda>w. desk_ok C w \<and> quiet_since (snd C) rid w) (case xe_request x of Some r \<Rightarrow> act_return r | None \<Rightarrow> exit_request q tick reason rid e)
        (\<lambda>_ w. desk_ok C w \<and> stopped C rid w) (desk_ok C)"
      by (rule triple_conseq [OF keeping_triple [OF r]]) (auto simp: stopped_def)
    show "triple (\<lambda>w. desk_ok C w \<and> stopped C rid w) (exit_confirm now ts rid (x\<lparr>xe_request := Some r\<rparr>)) (\<lambda>_. desk_ok C) (desk_ok C)" for r
      by (rule triple_conseq [OF keeping_triple [OF c]]) auto
  qed (rule triple_return)
  from triple_fst [OF this] assms have "desk_ok C (fst (act_catch
      (act_then (case xe_request x of Some r \<Rightarrow> act_return r | None \<Rightarrow> exit_request q tick reason rid e)
        (\<lambda>r. exit_confirm now ts rid (x\<lparr>xe_request := Some r\<rparr>)))
      (\<lambda>_. act_return x) w))" for e
    by blast
  with assms(1) show ?thesis by (simp add: exit_submission_def split: option.split)
qed

lemma exit_finish_keeps:
  assumes "desk_ok C w" and "quiet_since (snd C) rid w"
  shows "desk_ok C (fst (exit_finish now ts rid x w))"
proof -
  have "desk_ok C w \<and> stopped C rid w" using assms by (simp add: stopped_def)
  from keeping_D [OF exit_confirm_keeps this, of now ts x] assms(1) show ?thesis by (simp add: exit_finish_def act_return_def)
qed

lemma time_out_keeps: "keeping (desk_ok C) (time_out_run now ts rid)"
proof (rule keepingI)
  fix w :: "'a desk" assume ok: "desk_ok C w"
  have "keeping (desk_ok C) (act_then (change_entry rid (\<lambda>e. e\<lparr>se_run := r\<rparr>)) (\<lambda>_.
      act_then (record_event now ts rid ev True) (\<lambda>_. act_catch (desk_send (Stop_workflow rid [])) (\<lambda>_. act_return ()))))" for r ev
    by (intro act_rules silent_ok [OF silent_record_event] silent_ok [OF silent_change_entry]) (simp_all add: entry_status_def harmless_def)
  from keeping_D [OF this ok] ok show "desk_ok C (fst (time_out_run now ts rid w))"
    by (simp add: time_out_run_def split: option.split prod.split bool.split)
qed

lemma sweep_keeps: "keeping (desk_ok C) (sweep_each ids tick now ts rids)"
  by (induction rids) (auto intro!: act_rules expire_keeps time_out_keeps simp: sweep_run_def)

text \<open>
  The steps of the core while it handles submissions. The scheduler confirms only what it was asked. A round of the maintenance
  loop is \<open>ticked\<close> and then \<open>swept\<close>. The scheduler's process may end at any time: then the core asks for the cleanup of the runs
  being submitted (\<open>exited\<close>), Ray is cleaned up (\<open>cleaned\<close>: nothing the scheduler started runs any more), and from then on the core
  confirms the cleanups itself. A dead scheduler is never started again and is sent nothing (\<open>_require_scheduler_available\<close>), so
  no task was sent since.
\<close>

definition nothing_since :: "nat \<Rightarrow> 'b desk \<Rightarrow> bool" where
  "nothing_since k w = (drop k (ds_orders w) = [])"

inductive desk_step :: "('b \<Rightarrow> string) \<Rightarrow> (string \<Rightarrow> string) \<Rightarrow> fate \<times> 'b desk \<Rightarrow> fate \<times> 'b desk \<Rightarrow> bool"
  for sha hc where
  submitted: "desk_step sha hc (C, w) (C, fst (run_workflow sha hc cap q tick now ts p w))"
| confirmed: "Stop_workflow rid q \<in> set (ds_orders w) \<Longrightarrow> desk_step sha hc ((C, k), w) ((insert (rid, q) C, k), w)"
| answered: "vget data ''ok'' \<noteq> VBool True \<or>
      (\<exists>rid q. vget data ''workflow_id'' = VStr rid \<and> vget data ''request_id'' = VStr q \<and> (rid, q) \<in> fst C) \<Longrightarrow>
    desk_step sha hc (C, w) (C, fst (handle_cleanup_response now ts data w))"
| ticked: "desk_step sha hc (C, w) (C, fst (retry_cleanups tick now ts w))"
| swept: "desk_step sha hc (C, w) (C, fst (sweep_deadlines ids tick now ts w))"
| stopping: "desk_step sha hc (C, w) (C, fst (stop_submission q tick rid w))"
| recovered: "desk_step sha hc (C, w) (C, fst (recover_dispatches qs tick now ts w))"
| exited: "desk_step sha hc (C, w) (C, fst (exit_submission q tick now ts reason False rid x w))"
| cleaned: "desk_step sha hc ((C, k), w) ((C, length (ds_orders w)), w)"
| exit_confirmed: "nothing_since (snd C) w \<Longrightarrow> desk_step sha hc (C, w) (C, fst (exit_submission q tick now ts reason True rid x w))"
| exit_finished: "nothing_since (snd C) w \<Longrightarrow> desk_step sha hc (C, w) (C, fst (exit_finish now ts rid x w))"

definition desk_start :: "'b desk \<Rightarrow> bool" where
  "desk_start w = (ds_runs w = [] \<and> ds_orders w = [] \<and> \<not> ds_shutdown w)"

lemma answered_keeps:
  assumes "desk_ok C w" and "vget data ''ok'' \<noteq> VBool True \<or>
      (\<exists>rid q. vget data ''workflow_id'' = VStr rid \<and> vget data ''request_id'' = VStr q \<and> (rid, q) \<in> fst C)"
  shows "desk_ok C (fst (handle_cleanup_response now ts data w))"
proof (cases "vget data ''ok'' = VBool True")
  case True
  then obtain rid q where d: "vget data ''workflow_id'' = VStr rid" "vget data ''request_id'' = VStr q" "(rid, q) \<in> fst C"
    using assms(2) by blast
  have "desk_ok C w \<and> stopped C rid w" using assms(1) d(3) by (auto simp: stopped_def)
  from keeping_D [OF confirm_keeps [of C rid now ts q] this] have "desk_ok C (fst (confirm_cleanup now ts rid q w))" by simp
  with d True assms(1) show ?thesis
    by (auto simp: handle_cleanup_response_def split: option.split if_splits pyval.split)
qed (use assms(1) in \<open>auto simp: handle_cleanup_response_def split: pyval.split\<close>)

lemma desk_ok_mono: "(\<And>rid. stopped C rid w \<Longrightarrow> stopped C' rid w) \<Longrightarrow> desk_ok C w \<Longrightarrow> desk_ok C' w"
  unfolding desk_ok_def by (elim all_forward) (auto simp: submission_ok_def split: option.splits)

lemma fate_keeps:
  assumes "desk_ok (C, k) w"
  shows "desk_ok (insert x C, k) w" "desk_ok (C, length (ds_orders w)) w"
  by (rule desk_ok_mono [OF _ assms], simp add: stopped_def quiet_since_def, blast)
    (rule desk_ok_mono [OF _ assms], simp add: stopped_def quiet_since_def)

lemma nothing_quiet: "nothing_since k w \<Longrightarrow> quiet_since k rid w"
  by (simp add: nothing_since_def quiet_since_def)

lemma desk_step_ok:
  assumes "desk_step sha hc (C, w) (C', w')" and "desk_ok C w"
  shows "desk_ok C' w'"
  using assms(1)
proof cases
  case submitted
  then show ?thesis using keeping_D [OF run_workflow_keeps assms(2)] by simp
next
  case confirmed
  then show ?thesis using fate_keeps(1) assms(2) by simp
next
  case answered
  then show ?thesis using answered_keeps [OF assms(2)] by simp
next
  case ticked
  then show ?thesis using keeping_D [OF retry_each_keeps assms(2)] by (simp add: retry_cleanups_def)
next
  case swept
  then show ?thesis using keeping_D [OF sweep_keeps assms(2)] by (simp add: sweep_deadlines_def)
next
  case stopping
  then show ?thesis using keeping_D [OF abandon_keeps assms(2)] by (simp add: stop_submission_def)
next
  case recovered
  then show ?thesis using keeping_D [OF recover_keeps assms(2)] by (simp add: recover_dispatches_def)
next
  case exited
  then show ?thesis using keeping_D [OF exit_keeps assms(2)] by simp
next
  case cleaned
  then show ?thesis using fate_keeps(2) assms(2) by simp
next
  case exit_confirmed
  then show ?thesis using exit_cleaned_keeps [OF assms(2) nothing_quiet] by simp
next
  case exit_finished
  then show ?thesis using exit_finish_keeps [OF assms(2) nothing_quiet] by simp
qed

lemma desk_reachable_ok: "(desk_step sha hc)\<^sup>*\<^sup>* (({}, 0), w0) y \<Longrightarrow> desk_start w0 \<Longrightarrow> desk_ok (fst y) (snd y)"
proof (induction rule: rtranclp_induct)
  case base
  then show ?case by (simp add: desk_start_def desk_ok_def submission_ok_def status_of_def quiet_def)
next
  case (step y z)
  then show ?case using desk_step_ok [of sha hc "fst y" "snd y" "fst z" "snd z"] by simp
qed


section \<open>A sample submission\<close>

definition sample_plan :: "nat plan" where
  "sample_plan = \<lparr>pl_run = succeeded_run\<lparr>sstatus := ''created''\<rparr>, pl_digest = VStr ''d'', pl_roots = [''a'', ''b''], pl_total = 2,
     pl_enabled = False, pl_private = False, pl_place = VNone, pl_files = [], pl_payload = (\<lambda>_. Inr ())\<rparr>"

definition sample_desk :: "bool list \<Rightarrow> write_outcome list \<Rightarrow> nat desk" where
  "sample_desk bs io = \<lparr>ds_runs = [], ds_store = no_store, ds_io = io, ds_artifacts = [], ds_requests = [], ds_retries = [],
     ds_links = bs, ds_orders = [], ds_shutdown = False\<rparr>"

definition submit_sample :: "nat desk \<Rightarrow> nat desk" where
  "submit_sample w = fst (run_workflow (\<lambda>_. ''h'') id ''c'' ''q'' 0 1 ''t1'' sample_plan w)"

text \<open>The second root cannot be sent: the scheduler is asked to stop the run, and does.\<close>

definition sample_answer :: event where
  "sample_answer = [(''workflow_id'', VStr ''r''), (''request_id'', VStr ''q''), (''ok'', VBool True)]"

definition sample_failed :: "nat desk" where
  "sample_failed = submit_sample (sample_desk [True, False] [])"

definition sample_stopped :: "nat desk" where
  "sample_stopped = fst (handle_cleanup_response 2 ''t2'' sample_answer sample_failed)"

lemma sample_failed_orders: "ds_orders sample_failed = [Run_task ''r'' ''a'', Stop_workflow ''r'' ''q'']"
  by code_simp

lemma sample_stopped_status:
  "map_option (\<lambda>e. vget (se_dispatch e) ''status'') (map_of (ds_runs sample_stopped) ''r'') = Some (VStr ''terminal'')"
  by code_simp

lemma sample_stopped_reached:
  "(desk_step (\<lambda>_. ''h'') id)\<^sup>*\<^sup>* (({}, 0), sample_desk [True, False] []) (({(''r'', ''q'')}, 0), sample_stopped)"
proof -
  have 1: "desk_step (\<lambda>_. ''h'') id (({}, 0), sample_desk [True, False] []) (({}, 0), sample_failed)"
    unfolding sample_failed_def submit_sample_def by (rule desk_step.submitted)
  have 2: "desk_step (\<lambda>_. ''h'') id (({}, 0), sample_failed) (({(''r'', ''q'')}, 0), sample_failed)"
    by (rule desk_step.confirmed) (simp add: sample_failed_orders)
  have 3: "desk_step (\<lambda>_. ''h'') id (({(''r'', ''q'')}, 0), sample_failed) (({(''r'', ''q'')}, 0), sample_stopped)"
    unfolding sample_stopped_def by (rule desk_step.answered) (simp add: sample_answer_def)
  show ?thesis using 1 2 3 by (meson converse_rtranclp_into_rtranclp rtranclp.rtrancl_refl)
qed


end
