(* ===== verification/Submission_Cleanup.thy ===== *)
theory Submission_Cleanup
  imports Submission_Safety
begin

text \<open>
  Failed submissions and the rounds of the maintenance loop: within its deadline, a cleanup nobody confirms is given up
  (\<open>cleanup_ends\<close>); past the deadline, the sweep keeps renewing it and it is not (\<open>overdue_cleanup_kept\<close>). Two failures of a
  write that the code does not survive: a cleanup whose request cannot be saved is not made before the deadline
  (\<open>unsaved_cleanup_stuck\<close>), and a submission that was refused is taken for accepted when it is sent again (\<open>lost_submission\<close>).
\<close>

section \<open>A cleanup nobody confirms\<close>

text \<open>The run \<open>rid\<close> waits for the scheduler to confirm the request \<open>q\<close>, and nothing else does.\<close>

definition waiting :: "string \<Rightarrow> string \<Rightarrow> static_entry \<Rightarrow> cleanup_retry \<Rightarrow> 'b desk \<Rightarrow> bool" where
  "waiting rid q e t w =
     (ds_retries w = [(q, t)] \<and> cr_run t = rid \<and> map_of (ds_runs w) rid = Some e \<and> map_of (ds_requests w) q \<in> {None, Some rid})"

definition pending_entry :: "string \<Rightarrow> string \<Rightarrow> static_entry \<Rightarrow> bool" where
  "pending_entry rid q e =
     (dispatch_valid (VDict (se_dispatch e)) \<and> vget (se_dispatch e) ''status'' = VStr ''cleanup_pending''
      \<and> vget (se_dispatch e) ''cleanup_request_id'' = VStr q \<and> vget (se_dispatch e) ''artifact_owner_id'' \<in> {VNone, VStr rid})"

text \<open>No other run is being submitted; the run has not passed its deadline.\<close>

definition lone :: "string \<Rightarrow> 'b desk \<Rightarrow> bool" where
  "lone rid w = (\<forall>r e. map_of (ds_runs w) r = Some e \<longrightarrow> r \<noteq> rid \<longrightarrow> \<not> requires_cleanup e)"

definition in_time :: "time \<Rightarrow> static_entry \<Rightarrow> bool" where
  "in_time now e = (case deadline_time (se_run e) of None \<Rightarrow> True | Some dl \<Rightarrow> now \<le> dl)"

text \<open>The run has failed and the scheduler was told to shut down; at most this request is still noted.\<close>

definition given_up :: "string \<Rightarrow> string \<Rightarrow> 'b desk \<Rightarrow> bool" where
  "given_up rid q w =
     (ds_shutdown w \<and> (\<exists>e. map_of (ds_runs w) rid = Some e \<and> vget (se_dispatch e) ''status'' = VStr ''terminal'' \<and> sstatus (se_run e) = ''failed'')
      \<and> (ds_retries w = [] \<or> (\<exists>t. ds_retries w = [(q, t)] \<and> cr_run t = rid)))"

lemma is_pending_entry:
  "map_of (ds_runs w) rid = Some e \<Longrightarrow> cleanup_is_pending rid q w \<longleftrightarrow>
    vget (se_dispatch e) ''status'' = VStr ''cleanup_pending'' \<and> vget (se_dispatch e) ''cleanup_request_id'' = VStr q"
  by (simp add: cleanup_is_pending_def dispatch_of_def)

lemma retry_single: "ds_retries w = [(q, t)] \<Longrightarrow> fst (retry_cleanups tick now ts w) = fst (retry_cleanup tick now ts q t w)"
  by (auto simp: retry_cleanups_def act_then_def act_return_def split: prod.split sum.split)

lemma cleanup_delay_le: "cleanup_delay n \<le> 5"
  by (simp add: cleanup_delay_def)

lemma dput_one: "dput q x [(q, y)] = [(q, x)]"
  by (simp add: dput_def)

lemma send_more: "ds_retries (fst (desk_send x w)) = ds_retries w" "ds_requests (fst (desk_send x w)) = ds_requests w"
  by (auto simp: desk_send_def split: list.split bool.split)

text \<open>Sending the request again: the attempt is counted, and the next one is due after the delay.\<close>

lemma waiting_send:
  fixes tick :: rat and t :: cleanup_retry
  defines "t' \<equiv> t\<lparr>cr_attempts := cr_attempts t + 1, cr_next := tick + cleanup_delay (cr_attempts t + 1)\<rparr>"
  assumes "waiting rid q e t w"
  obtains w' where "send_cleanup tick rid (cr_workflow t) q w = (w', Inr ())" "waiting rid q e t' w'" "ds_runs w' = ds_runs w" "ds_shutdown w' = ds_shutdown w"
proof
  define w1 where "w1 = w\<lparr>ds_requests := dput q rid (ds_requests w), ds_retries := [(q, t')]\<rparr>"
  have w: "ds_retries w = [(q, t)]" "cr_run t = rid" "map_of (ds_runs w) rid = Some e" "map_of (ds_requests w) q \<in> {None, Some rid}"
    using assms(2) by (simp_all add: waiting_def)
  have reg: "register_cleanup rid (cr_workflow t) q w = (w\<lparr>ds_requests := dput q rid (ds_requests w), ds_retries := [(q, t)]\<rparr>, Inr t)"
    using w by (auto simp: register_cleanup_def dhas_iff dgetd_def Let_def dput_one)
  then show "send_cleanup tick rid (cr_workflow t) q w = (fst (desk_send (Stop_workflow rid q) w1), Inr ())"
    by (auto simp: send_cleanup_def act_then_def reg act_modify_def act_catch_def act_return_def w1_def dput_one t'_def split: prod.split sum.split)
  show "waiting rid q e t' (fst (desk_send (Stop_workflow rid q) w1))"
    using w by (simp add: waiting_def send_fields send_more w1_def t'_def)
  show "ds_runs (fst (desk_send (Stop_workflow rid q) w1)) = ds_runs w" "ds_shutdown (fst (desk_send (Stop_workflow rid q) w1)) = ds_shutdown w"
    by (simp_all add: send_fields w1_def)
qed

lemma retry_waits:
  assumes "waiting rid q e t w" and "pending_entry rid q e" and "tick < cr_next t"
  shows "retry_cleanups tick now ts w = (w, Inr ())"
  using assms by (simp add: waiting_def retry_cleanups_def retry_cleanup_def is_pending_entry pending_entry_def act_then_def act_return_def)

lemma retry_sends:
  assumes "waiting rid q e t w" and "pending_entry rid q e" and "cr_attempts t < 5" and "cr_next t \<le> tick"
  obtains w' t' where "retry_cleanups tick now ts w = (w', Inr ())" "waiting rid q e t' w'" "ds_runs w' = ds_runs w" "ds_shutdown w' = ds_shutdown w"
    "cr_attempts t' = Suc (cr_attempts t)" "cr_next t' \<le> tick + 5" "cr_workflow t' = cr_workflow t"
proof -
  have w: "ds_retries w = [(q, t)]" "cr_run t = rid" "map_of (ds_runs w) rid = Some e"
    using assms(1) by (simp_all add: waiting_def)
  let ?t = "t\<lparr>cr_attempts := cr_attempts t + 1, cr_next := tick + cleanup_delay (cr_attempts t + 1)\<rparr>"
  obtain w' where w': "send_cleanup tick rid (cr_workflow t) q w = (w', Inr ())" "waiting rid q e ?t w'" "ds_runs w' = ds_runs w" "ds_shutdown w' = ds_shutdown w"
    by (rule waiting_send [OF assms(1), of tick])
  have "retry_cleanups tick now ts w = (w', Inr ())"
    using w w'(1) assms(2-4)
    by (simp add: retry_cleanups_def retry_cleanup_def is_pending_entry pending_entry_def cleanup_max_attempts_def act_then_def act_return_def)
  with w'(2-4) that cleanup_delay_le show ?thesis by simp
qed

text \<open>Giving up.\<close>

lemma revoke_works:
  assumes "vget d ''artifact_owner_id'' \<in> {VNone, VStr rid}"
  obtains as d' where "revoke_dispatch rid d w = (w\<lparr>ds_artifacts := as\<rparr>, Inr d')"
proof (cases "\<not> truthy (vget d ''artifact_owner_id'') \<or> vget d ''artifact_status'' = VStr ''revoked''")
  case True
  with that [of "ds_artifacts w" d] show ?thesis by (simp add: revoke_dispatch_def)
next
  case False
  then have "rid \<noteq> []" "vget d ''artifact_owner_id'' = VStr rid" using assms by auto
  moreover from this obtain as where "revoke_at (vget d ''artifact_store_root'') (VStr rid) (ds_artifacts w) = Inr as"
    by (auto simp: revoke_at_def revoke_owner_capabilities_def revoke_owner_def Let_def)
  ultimately show ?thesis using False that by (simp add: revoke_dispatch_def)
qed

definition failed_entry :: "static_entry \<Rightarrow> bool" where
  "failed_entry e = (vget (se_dispatch e) ''status'' = VStr ''terminal'' \<and> sstatus (se_run e) = ''failed'')"

definition keeps_noted :: "('b desk, 'a) action \<Rightarrow> bool" where
  "keeps_noted a = (\<forall>w. ds_runs (fst (a w)) = ds_runs w \<and> ds_shutdown (fst (a w)) = ds_shutdown w \<and> ds_retries (fst (a w)) = ds_retries w
     \<and> ds_requests (fst (a w)) = ds_requests w \<and> ds_orders (fst (a w)) = ds_orders w)"

definition failed_desk :: "string \<Rightarrow> (string, cleanup_retry) dict \<Rightarrow> 'b desk \<Rightarrow> bool" where
  "failed_desk rid ts w = (ds_shutdown w \<and> ds_retries w = ts \<and> lone rid w \<and> (\<exists>e. map_of (ds_runs w) rid = Some e \<and> failed_entry e))"

lemma failed_desk_noted: "keeps_noted a \<Longrightarrow> keeping (failed_desk rid ts) a"
  by (rule keepingI) (simp add: keeps_noted_def failed_desk_def lone_def)

lemma failed_desk_change:
  "(\<And>e. failed_entry e \<Longrightarrow> failed_entry (f e)) \<Longrightarrow> keeping (failed_desk rid ts) (change_entry rid f)"
  by (rule keepingI) (auto simp: failed_desk_def lone_def change_entry_def act_modify_def split: option.split)

lemma noted_write: "keeps_noted desk_write"
  by (auto simp: keeps_noted_def desk_write_def split: list.split)

lemma noted_store: "keeps_noted (change_store f)"
  by (auto simp: keeps_noted_def change_store_def split: prod.split)

lemma failed_desk_persist: "keeping (failed_desk rid ts) (persist_entry r)"
proof (rule keepingI)
  fix w :: "'a desk" assume f: "failed_desk rid ts w"
  have "keeping (failed_desk rid ts) (act_then (act_result (entry_snapshot e)) (save_snapshot r) :: ('a desk, unit) action)" for e
    unfolding save_snapshot_def
    by (intro keeping_then keeping_result failed_desk_noted [OF noted_write] failed_desk_noted [OF noted_store])
  from keeping_D [OF this f] f show "failed_desk rid ts (fst (persist_entry r w))"
    by (simp add: persist_entry_def split: option.split)
qed

lemma failed_desk_record:
  fixes w :: "'b desk"
  assumes "failed_desk rid ts w"
  shows "failed_desk rid ts (fst (record_event now t rid ev True w))"
proof -
  obtain e where e: "map_of (ds_runs w) rid = Some e" "failed_entry e" using assms by (auto simp: failed_desk_def)
  obtain r ev' where r: "static_append_event now t ev (note_node_metrics ev (se_run e)) = (r, ev')" by fastforce
  have "sstatus (note_node_metrics ev x) = sstatus x" for x
    by (auto simp: note_node_metrics_def on_node_def Let_def split: pyval.split option.split)
  then have "sstatus r = ''failed''" using r e(2) by (auto simp: static_append_event_def failed_entry_def Let_def)
  then have "keeping (failed_desk rid ts) (act_then (change_entry rid (\<lambda>e. e\<lparr>se_run := r\<rparr>)) (\<lambda>_. act_then desk_write (\<lambda>o1.
      act_then (change_store (static_append_once o1 rid ev')) (\<lambda>_. persist_entry rid))) :: ('b desk, unit) action)"
    by (intro keeping_then failed_desk_change failed_desk_noted [OF noted_write] failed_desk_noted [OF noted_store] failed_desk_persist)
      (simp add: failed_entry_def)
  from keeping_D [OF this assms] e r show ?thesis by (simp add: record_event_def)
qed

lemma finish_fails:
  assumes "map_of (ds_runs w) rid = Some e" "pending_entry rid q e" "ds_shutdown w" "ds_retries w = ts" "lone rid w"
  shows "failed_desk rid ts (fst (finish_dispatch_failure now t rid err w))"
proof -
  obtain as d' where r: "revoke_dispatch rid (se_dispatch e) w = (w\<lparr>ds_artifacts := as\<rparr>, Inr d')"
    using revoke_works [of "se_dispatch e" rid w] assms(2) by (auto simp: pending_entry_def)
  define w1 where "w1 = w\<lparr>ds_artifacts := as, ds_runs := dput rid (mark_static_dispatch_failed now err (e\<lparr>se_dispatch := d'\<rparr>))
      (dput rid (e\<lparr>se_dispatch := d'\<rparr>) (ds_runs w))\<rparr>"
  have f: "failed_entry (mark_static_dispatch_failed now err x)" for x
    by (simp add: failed_entry_def mark_static_dispatch_failed_def terminal_dispatch_def fail_static_run_def)
  have "failed_desk rid ts w1" using assms(3-5) f by (simp add: failed_desk_def lone_def w1_def)
  moreover have "finish_dispatch_failure now t rid err w
      = record_event now t rid [(''type'', VStr ''workflow_submission_failed''), (''data'', VDict [(''error'', err)])] True w1"
    using assms(1,2) r
    by (simp add: finish_dispatch_failure_def pending_entry_def validate_dispatch_def guard_or_def act_then_def [of "act_result _"]
        act_result_def act_then_def [of "revoke_dispatch rid _"] act_then_def [of "act_modify _"]
        set_dispatch_def change_entry_def act_modify_def w1_def)
  ultimately show ?thesis using failed_desk_record by metis
qed

lemma failed_given_up: "failed_desk rid ts w \<Longrightarrow> ts = [] \<or> (\<exists>t. ts = [(q, t)] \<and> cr_run t = rid) \<Longrightarrow> given_up rid q w \<and> lone rid w"
  by (auto simp: failed_desk_def given_up_def failed_entry_def)

lemma waiting_gives_up:
  assumes "waiting rid q e t w" and "pending_entry rid q e" and "5 \<le> cr_attempts t" and "cr_next t \<le> tick" and "lone rid w"
  shows "given_up rid q (fst (retry_cleanups tick now ts w)) \<and> lone rid (fst (retry_cleanups tick now ts w))"
proof -
  have w: "ds_retries w = [(q, t)]" "cr_run t = rid" "map_of (ds_runs w) rid = Some e" using assms(1) by (simp_all add: waiting_def)
  obtain w1 where w1: "request_shutdown w = (w1, Inr ())" using shutdown_never_fails by blast
  have "ds_shutdown w1 \<and> ds_runs w1 = ds_runs w \<and> ds_retries w1 = ds_retries w"
    using w1 send_fields [of Shutdown_scheduler "w\<lparr>ds_shutdown := True\<rparr>"] send_more [of Shutdown_scheduler "w\<lparr>ds_shutdown := True\<rparr>"]
    by (auto simp: request_shutdown_def act_catch_def act_return_def split: if_splits prod.splits sum.splits)
  then have f: "failed_desk rid [(q, t)] (fst (finish_dispatch_failure now ts rid (give_up_error (cr_attempts t)) w1))"
    using finish_fails [of w1 rid e q "[(q, t)]"] w assms(2,5) by (simp add: lone_def)
  have c: "failed_desk rid [] (fst (clear_cleanup q x))" if "failed_desk rid [(q, t)] x" for x :: "'a desk"
    using that by (auto simp: clear_cleanup_def act_modify_def failed_desk_def ddel_def lone_def)
  have "fst (retry_cleanups tick now ts w)
      = fst (act_then (finish_dispatch_failure now ts rid (give_up_error (cr_attempts t))) (\<lambda>_. clear_cleanup q) w1)"
    using w assms(2-4) w1
    by (simp add: retry_single retry_cleanup_def is_pending_entry pending_entry_def cleanup_max_attempts_def act_then_def [of request_shutdown])
  moreover obtain x r where x: "finish_dispatch_failure now ts rid (give_up_error (cr_attempts t)) w1 = (x, r)" by fastforce
  moreover have "failed_desk rid [(q, t)] x" using f x by simp
  ultimately show ?thesis
    using c [of x] failed_given_up [of rid "[(q, t)]" x q] failed_given_up [of rid "[]" "fst (clear_cleanup q x)" q] w(2)
    by (cases r) (simp_all add: act_then_def)
qed

lemma given_up_clears:
  assumes "given_up rid q w" and "lone rid w"
  shows "given_up rid q (fst (retry_cleanups tick now ts w)) \<and> ds_retries (fst (retry_cleanups tick now ts w)) = []
    \<and> lone rid (fst (retry_cleanups tick now ts w))"
proof (cases "ds_retries w")
  case Nil
  with assms show ?thesis by (simp add: retry_cleanups_def act_return_def)
next
  case (Cons _ _)
  then obtain t e where w: "ds_retries w = [(q, t)]" "cr_run t = rid" "map_of (ds_runs w) rid = Some e"
      "vget (se_dispatch e) ''status'' = VStr ''terminal''"
    using assms by (auto simp: given_up_def)
  then have "fst (retry_cleanups tick now ts w) = fst (clear_cleanup q w)"
    by (simp add: retry_single retry_cleanup_def is_pending_entry)
  with assms w(1) show ?thesis by (auto simp: clear_cleanup_def act_modify_def given_up_def ddel_def lone_def)
qed

section \<open>The sweep over the deadlines\<close>

text \<open>What handling another run leaves alone: the run \<open>rid\<close>, the requests noted, and whether the scheduler was told to shut down.\<close>

definition apart :: "string \<Rightarrow> static_entry \<Rightarrow> (string, cleanup_retry) dict \<Rightarrow> (string, string) dict \<Rightarrow> bool \<Rightarrow> 'b desk \<Rightarrow> bool" where
  "apart rid e rs qs sd w =
     (map_of (ds_runs w) rid = Some e \<and> ds_retries w = rs \<and> ds_requests w = qs \<and> ds_shutdown w = sd \<and> lone rid w)"

lemma apart_noted: "keeps_noted a \<Longrightarrow> keeping (apart rid e rs qs sd) a"
  by (rule keepingI) (simp add: keeps_noted_def apart_def lone_def)

lemma apart_change:
  "r \<noteq> rid \<Longrightarrow> (\<And>e. se_dispatch (f e) = se_dispatch e) \<Longrightarrow> keeping (apart rid e rs qs sd) (change_entry r f)"
  by (rule keepingI) (auto simp: apart_def lone_def change_entry_def act_modify_def requires_cleanup_def split: option.split)

lemma apart_persist: "keeping (apart rid e rs qs sd) (persist_entry r)"
proof (rule keepingI)
  fix w :: "'a desk" assume f: "apart rid e rs qs sd w"
  have "keeping (apart rid e rs qs sd) (act_then (act_result (entry_snapshot x)) (save_snapshot r) :: ('a desk, unit) action)" for x
    unfolding save_snapshot_def
    by (intro keeping_then keeping_result apart_noted [OF noted_write] apart_noted [OF noted_store])
  from keeping_D [OF this f] f show "apart rid e rs qs sd (fst (persist_entry r w))"
    by (simp add: persist_entry_def split: option.split)
qed

lemma apart_record: "r \<noteq> rid \<Longrightarrow> keeping (apart rid e rs qs sd) (record_event now ts r ev True)"
proof (rule keepingI)
  fix w :: "'a desk" assume r: "r \<noteq> rid" and f: "apart rid e rs qs sd w"
  have "keeping (apart rid e rs qs sd) (act_then (change_entry r (\<lambda>e. e\<lparr>se_run := x\<rparr>)) (\<lambda>_. act_then desk_write (\<lambda>o1.
      act_then (change_store (static_append_once o1 r y)) (\<lambda>_. persist_entry r))) :: ('a desk, unit) action)" for x y
    by (intro keeping_then apart_change [OF r] apart_noted [OF noted_write] apart_noted [OF noted_store] apart_persist) simp
  from keeping_D [OF this f] f show "apart rid e rs qs sd (fst (record_event now ts r ev True w))"
    by (simp add: record_event_def split: option.split prod.split)
qed

lemma apart_send: "keeping (apart rid e rs qs sd) (desk_send x)"
  by (rule keepingI) (simp add: apart_def lone_def send_fields send_more)

lemma apart_time_out:
  assumes "r \<noteq> rid"
  shows "keeping (apart rid e rs qs sd) (time_out_run now ts r)"
proof (rule keepingI)
  fix w :: "'a desk" assume f: "apart rid e rs qs sd w"
  have "keeping (apart rid e rs qs sd) (act_then (change_entry r (\<lambda>e. e\<lparr>se_run := x\<rparr>)) (\<lambda>_.
      act_then (record_event now ts r ev True) (\<lambda>_. act_catch (desk_send (Stop_workflow r [])) (\<lambda>_. act_return ()))) :: ('a desk, unit) action)" for x ev
    by (intro act_rules apart_change [OF assms] apart_record [OF assms] apart_send) simp
  from keeping_D [OF this f] f show "apart rid e rs qs sd (fst (time_out_run now ts r w))"
    by (simp add: time_out_run_def split: option.split prod.split bool.split)
qed

text \<open>The run itself is not touched by the sweep while it waits within its deadline, nor once it has failed.\<close>

lemma apart_sweep_run:
  assumes "requires_cleanup e \<and> in_time now e \<or> \<not> requires_cleanup e \<and> static_terminal (se_run e)"
  shows "keeping (apart rid e rs qs sd) (sweep_run q tick now ts r)"
proof (rule keepingI)
  fix w :: "'a desk" assume f: "apart rid e rs qs sd w"
  have e: "map_of (ds_runs w) rid = Some e" using f by (simp add: apart_def)
  show "apart rid e rs qs sd (fst (sweep_run q tick now ts r w))"
  proof (cases "r = rid")
    case True
    have "\<not> requires_cleanup e \<Longrightarrow> time_out_run now ts rid w = (w, Inr ())"
      using assms e by (simp add: time_out_run_def static_timed_out_if_needed_def split: option.split)
    then show ?thesis using True e f assms
      by (auto simp: sweep_run_def expire_submission_def in_time_def act_then_def act_return_def split: option.splits)
  next
    case False
    then have "expire_submission q tick now r w = (w, Inr False)"
      using f by (auto simp: expire_submission_def apart_def lone_def split: option.split)
    then show ?thesis using keeping_D [OF apart_time_out [OF False] f] by (simp add: sweep_run_def act_then_def)
  qed
qed

lemma apart_sweep:
  "requires_cleanup e \<and> in_time now e \<or> \<not> requires_cleanup e \<and> static_terminal (se_run e) \<Longrightarrow>
    keeping (apart rid e rs qs sd) (sweep_each ids tick now ts rids)"
  by (induction rids) (auto intro!: act_rules apart_sweep_run)

lemma round_cases:
  obtains "maintenance_round b w = fst (retry_cleanups (bt_tick b) (bt_now b) (bt_text b) w)"
  | "snd (retry_cleanups (bt_tick b) (bt_now b) (bt_text b) w) = Inr ()"
    "maintenance_round b w = fst (sweep_deadlines (bt_ids b) (bt_tick b) (bt_now b) (bt_text b) (fst (retry_cleanups (bt_tick b) (bt_now b) (bt_text b) w)))"
proof -
  obtain w1 r where r: "retry_cleanups (bt_tick b) (bt_now b) (bt_text b) w = (w1, r)" by fastforce
  then show ?thesis using that by (cases r) (simp_all add: maintenance_round_def act_then_def)
qed

lemma round_apart:
  assumes "apart rid e rs qs sd (fst (retry_cleanups (bt_tick b) (bt_now b) (bt_text b) w))"
    and "requires_cleanup e \<and> in_time (bt_now b) e \<or> \<not> requires_cleanup e \<and> static_terminal (se_run e)"
  shows "apart rid e rs qs sd (maintenance_round b w)"
  by (rule round_cases [of b w])
    (use assms keeping_D [OF apart_sweep [OF assms(2)] assms(1)] in \<open>simp_all add: sweep_deadlines_def\<close>)

lemma waiting_apart:
  "waiting rid q e t w \<and> lone rid w \<longleftrightarrow> apart rid e [(q, t)] (ds_requests w) (ds_shutdown w) w \<and> cr_run t = rid \<and> map_of (ds_requests w) q \<in> {None, Some rid}"
  by (auto simp: waiting_def apart_def)

lemma waiting_round:
  assumes "waiting rid q e t (fst (retry_cleanups (bt_tick b) (bt_now b) (bt_text b) w))"
    and "lone rid (fst (retry_cleanups (bt_tick b) (bt_now b) (bt_text b) w))" and "pending_entry rid q e" and "in_time (bt_now b) e"
  shows "waiting rid q e t (maintenance_round b w) \<and> lone rid (maintenance_round b w)"
proof -
  let ?w = "fst (retry_cleanups (bt_tick b) (bt_now b) (bt_text b) w)"
  have a: "apart rid e [(q, t)] (ds_requests ?w) (ds_shutdown ?w) ?w" "cr_run t = rid" "map_of (ds_requests ?w) q \<in> {None, Some rid}"
    using waiting_apart [of rid q e t ?w] assms(1,2) by blast+
  have "requires_cleanup e" using assms(3) by (simp add: pending_entry_def requires_cleanup_def)
  with round_apart [OF a(1)] assms(4) have m: "apart rid e [(q, t)] (ds_requests ?w) (ds_shutdown ?w) (maintenance_round b w)" by blast
  then have "ds_requests (maintenance_round b w) = ds_requests ?w" "ds_shutdown (maintenance_round b w) = ds_shutdown ?w"
    by (simp_all add: apart_def)
  with m a(2,3) waiting_apart [of rid q e t "maintenance_round b w"] show ?thesis by simp
qed

lemma given_up_round:
  assumes "given_up rid q (fst (retry_cleanups (bt_tick b) (bt_now b) (bt_text b) w))"
    and "lone rid (fst (retry_cleanups (bt_tick b) (bt_now b) (bt_text b) w))"
  shows "given_up rid q (maintenance_round b w) \<and> lone rid (maintenance_round b w)
    \<and> ds_retries (maintenance_round b w) = ds_retries (fst (retry_cleanups (bt_tick b) (bt_now b) (bt_text b) w))"
proof -
  let ?w = "fst (retry_cleanups (bt_tick b) (bt_now b) (bt_text b) w)"
  obtain e where e: "map_of (ds_runs ?w) rid = Some e" "vget (se_dispatch e) ''status'' = VStr ''terminal''" "sstatus (se_run e) = ''failed''"
    using assms(1) by (auto simp: given_up_def)
  have "apart rid e (ds_retries ?w) (ds_requests ?w) (ds_shutdown ?w) ?w" using e(1) assms(2) by (simp add: apart_def)
  moreover have "\<not> requires_cleanup e \<and> static_terminal (se_run e)"
    using e(2,3) by (simp add: requires_cleanup_def static_terminal_def static_terminal_statuses_def)
  ultimately have "apart rid e (ds_retries ?w) (ds_requests ?w) (ds_shutdown ?w) (maintenance_round b w)" using round_apart by blast
  with e assms show ?thesis by (auto simp: apart_def given_up_def)
qed

section \<open>Rounds\<close>

definition rounds :: "beat list \<Rightarrow> 'b desk \<Rightarrow> 'b desk" where
  "rounds bs w = foldl (\<lambda>w b. maintenance_round b w) w bs"

lemma rounds_simps [simp]: "rounds [] w = w" "rounds (b # bs) w = rounds bs (maintenance_round b w)"
  by (simp_all add: rounds_def)

text \<open>
  How many rounds, counted from the time \<open>x\<close> on, lie five seconds or more apart: the longest delay between two attempts.
  The loop's rounds come every second, and there may be any number of them in between.
\<close>

fun apart_rounds :: "rat \<Rightarrow> beat list \<Rightarrow> nat" where
  "apart_rounds x [] = 0"
| "apart_rounds x (b # bs) = (if x \<le> bt_tick b then Suc (apart_rounds (bt_tick b + 5) bs) else apart_rounds x bs)"

lemma apart_rounds_step: "(x \<le> y \<longrightarrow> apart_rounds y bs \<le> apart_rounds x bs) \<and> (y \<le> x + 5 \<longrightarrow> apart_rounds x bs \<le> Suc (apart_rounds y bs))"
proof (induction bs arbitrary: x y)
  case (Cons b bs)
  let ?t = "bt_tick b"
  have mono: "x \<le> y \<Longrightarrow> apart_rounds y bs \<le> apart_rounds x bs" for x y using Cons.IH [of x y] by simp
  have near: "y \<le> x + 5 \<Longrightarrow> apart_rounds x bs \<le> Suc (apart_rounds y bs)" for x y using Cons.IH [of x y] by simp
  have 1: "apart_rounds y (b # bs) \<le> apart_rounds x (b # bs)" if "x \<le> y"
  proof (cases "x \<le> ?t \<and> \<not> y \<le> ?t")
    case True
    then have "apart_rounds y bs \<le> Suc (apart_rounds (?t + 5) bs)"
      using near [of "?t + 5" y] mono [of "?t + 5" y] by (cases "y \<le> ?t + 5") auto
    with True show ?thesis by simp
  next
    case False
    then show ?thesis using that mono [of x y] by auto
  qed
  have 2: "apart_rounds x (b # bs) \<le> Suc (apart_rounds y (b # bs))" if "y \<le> x + 5"
  proof (cases "x \<le> ?t")
    case True
    then have "apart_rounds (?t + 5) bs \<le> apart_rounds y bs" using mono [of y "?t + 5"] that by simp
    with True show ?thesis by simp
  next
    case False
    have "apart_rounds x bs \<le> Suc (apart_rounds (?t + 5) bs)" using near [of "?t + 5" x] False by simp
    with False near [OF that] show ?thesis by auto
  qed
  from 1 2 show ?case by blast
qed simp

lemma given_up_rounds:
  "given_up rid q w \<Longrightarrow> lone rid w \<Longrightarrow> given_up rid q (rounds bs w) \<and> (bs \<noteq> [] \<longrightarrow> ds_retries (rounds bs w) = [])"
proof (induction bs arbitrary: w)
  case (Cons b bs)
  let ?w = "maintenance_round b w"
  note c = given_up_clears [OF Cons.prems, of "bt_tick b" "bt_now b" "bt_text b"]
  have g: "given_up rid q ?w" "lone rid ?w" "ds_retries ?w = []"
    using given_up_round [of rid q b w] c by auto
  from Cons.IH [OF g(1,2)] g(3) show ?case by (cases bs) auto
qed simp

lemma waiting_rounds:
  "waiting rid q e t w \<Longrightarrow> lone rid w \<Longrightarrow> pending_entry rid q e \<Longrightarrow> \<forall>b \<in> set bs. in_time (bt_now b) e \<Longrightarrow>
    7 \<le> cr_attempts t + apart_rounds (cr_next t) bs \<Longrightarrow> cr_attempts t \<le> 5 \<Longrightarrow>
    given_up rid q (rounds bs w) \<and> ds_retries (rounds bs w) = []"
proof (induction bs arbitrary: t w)
  case (Cons b bs)
  let ?w = "fst (retry_cleanups (bt_tick b) (bt_now b) (bt_text b) w)"
  have in_time: "in_time (bt_now b) e" using Cons.prems(4) by simp
  consider (early) "bt_tick b < cr_next t" | (send) "cr_next t \<le> bt_tick b" "cr_attempts t < 5" | (over) "cr_next t \<le> bt_tick b" "cr_attempts t = 5"
    using Cons.prems(6) by linarith
  then show ?case
  proof cases
    case early
    have "?w = w" using retry_waits [OF Cons.prems(1,3) early] by simp
    then have "waiting rid q e t (maintenance_round b w) \<and> lone rid (maintenance_round b w)"
      using waiting_round [of rid q e t b w] Cons.prems(1-3) in_time by simp
    with Cons.IH [of t "maintenance_round b w"] Cons.prems early show ?thesis by simp
  next
    case send
    obtain w' t' where w': "retry_cleanups (bt_tick b) (bt_now b) (bt_text b) w = (w', Inr ())" "waiting rid q e t' w'" "ds_runs w' = ds_runs w"
        "cr_attempts t' = Suc (cr_attempts t)" "cr_next t' \<le> bt_tick b + 5"
      by (rule retry_sends [OF Cons.prems(1,3) send(2,1)])
    have "lone rid w'" using Cons.prems(2) w'(3) by (simp add: lone_def)
    then have m: "waiting rid q e t' (maintenance_round b w)" "lone rid (maintenance_round b w)"
      using waiting_round [of rid q e t' b w] w'(1,2) Cons.prems(3) in_time by simp_all
    have "apart_rounds (bt_tick b + 5) bs \<le> apart_rounds (cr_next t') bs" using apart_rounds_step w'(5) by blast
    then have "7 \<le> cr_attempts t' + apart_rounds (cr_next t') bs" using Cons.prems(5) send(1) w'(4) by simp
    from Cons.IH [OF m Cons.prems(3) _ this] Cons.prems(4) w'(4) send(2) show ?thesis by simp
  next
    case over
    have "given_up rid q ?w" "lone rid ?w" using waiting_gives_up [OF Cons.prems(1,3) _ over(1) Cons.prems(2)] over(2) by simp_all
    then have g: "given_up rid q (maintenance_round b w)" "lone rid (maintenance_round b w)" using given_up_round by blast+
    have "bs \<noteq> []" using Cons.prems(5) over by auto
    with given_up_rounds [OF g, of bs] show ?thesis by simp
  qed
qed simp

text \<open>C11: a cleanup nobody confirms ends while the run is within its deadline (or has none): after rounds of the maintenance loop of any
  number and spacing, among them seven at least five seconds apart, the run is reported as failed, its dispatch is over, the scheduler
  was told to shut down and nothing is retried any more, whatever the writes and the links to the scheduler do. The scheduler's
  process is alive, and no other run is being submitted or cleaned up meanwhile; other runs may time out.\<close>

theorem cleanup_ends:
  assumes "ds_retries w = [(q, t)]" and "cr_run t = rid" and "map_of (ds_runs w) rid = Some e" and "map_of (ds_requests w) q \<in> {None, Some rid}"
    and "pending_entry rid q e" and "cr_attempts t \<le> 5" and "lone rid w"
    and "\<forall>b \<in> set bs. in_time (bt_now b) e" and "7 \<le> apart_rounds (cr_next t) bs"
  shows "\<exists>e'. map_of (ds_runs (rounds bs w)) rid = Some e' \<and> vget (se_dispatch e') ''status'' = VStr ''terminal''
      \<and> sstatus (se_run e') = ''failed'' \<and> ds_shutdown (rounds bs w) \<and> ds_retries (rounds bs w) = []"
proof -
  have "waiting rid q e t w" using assms(1-4) by (simp add: waiting_def)
  from waiting_rounds [OF this assms(7,5,8)] assms(6,9) show ?thesis by (auto simp: given_up_def)
qed

section \<open>Past the deadline\<close>

definition overdue :: "time \<Rightarrow> static_entry \<Rightarrow> bool" where
  "overdue now e = (\<not> in_time now e)"

text \<open>The other runs: none is being submitted, and none passes its deadline at one of the rounds.\<close>

definition calm_others :: "string \<Rightarrow> beat list \<Rightarrow> 'b desk \<Rightarrow> bool" where
  "calm_others rid bs w =
     (\<forall>r e. map_of (ds_runs w) r = Some e \<longrightarrow> r \<noteq> rid \<longrightarrow>
        \<not> requires_cleanup e \<and> (\<forall>b \<in> set bs. \<not> snd (static_timed_out_if_needed (bt_now b) (se_run e))))"

text \<open>Each round comes less than four seconds after the one before it; the loop's own interval is one second.\<close>

fun frequent :: "beat list \<Rightarrow> bool" where
  "frequent (b # c # bs) = (bt_tick c < bt_tick b + 4 \<and> frequent (c # bs))"
| "frequent _ = True"

lemma delay_after_five: "5 \<le> n \<Longrightarrow> 4 \<le> cleanup_delay n"
proof -
  assume n: "5 \<le> n"
  have "(2::rat) ^ 4 \<le> 2 ^ (n - 1)" by (rule power_increasing) (use n in auto)
  then have "4 \<le> (1 / 4 :: rat) * 2 ^ (n - 1)" by simp
  then show ?thesis by (simp add: cleanup_delay_def)
qed

lemma sweep_other:
  assumes "r \<noteq> rid" and "calm_others rid bs w" and "b \<in> set bs"
  shows "sweep_run q tick (bt_now b) ts r w = (w, Inr ())"
proof (cases "map_of (ds_runs w) r")
  case (Some e)
  obtain s x where s: "static_timed_out_if_needed (bt_now b) (se_run e) = (s, x)" by fastforce
  have "\<not> requires_cleanup e" "\<not> snd (static_timed_out_if_needed (bt_now b) (se_run e))"
    using assms Some unfolding calm_others_def by blast+
  with s have "\<not> requires_cleanup e" "\<not> x" by simp_all
  with Some s show ?thesis by (simp add: sweep_run_def expire_submission_def act_then_def time_out_run_def)
qed (simp add: sweep_run_def expire_submission_def act_then_def time_out_run_def)

lemma sweep_overdue:
  assumes "waiting rid q e t w" and "pending_entry rid q e" and "overdue now e" and "q \<noteq> []" and "cr_workflow t = srun_workflow (se_run e)"
  obtains w' t' where "sweep_run q' tick now ts rid w = (w', Inr ())" "waiting rid q e t' w'" "ds_runs w' = ds_runs w" "ds_shutdown w' = ds_shutdown w"
    "cr_attempts t' = Suc (cr_attempts t)" "cr_next t' = tick + cleanup_delay (cr_attempts t')" "cr_workflow t' = cr_workflow t"
proof -
  let ?t = "t\<lparr>cr_attempts := cr_attempts t + 1, cr_next := tick + cleanup_delay (cr_attempts t + 1)\<rparr>"
  obtain w' where w': "send_cleanup tick rid (cr_workflow t) q w = (w', Inr ())" "waiting rid q e ?t w'" "ds_runs w' = ds_runs w" "ds_shutdown w' = ds_shutdown w"
    by (rule waiting_send [OF assms(1), of tick])
  obtain dl where dl: "deadline_time (se_run e) = Some dl" "now > dl"
    using assms(3) by (auto simp: overdue_def in_time_def split: option.splits)
  have e: "map_of (ds_runs w) rid = Some e" "requires_cleanup e" "vget (se_dispatch e) ''status'' = VStr ''cleanup_pending''"
      "vget (se_dispatch e) ''cleanup_request_id'' = VStr q"
    using assms(1,2) by (simp_all add: waiting_def pending_entry_def requires_cleanup_def)
  then have "sweep_run q' tick now ts rid w = (w', Inr ())"
    using dl w'(1) assms(4,5)
    by (simp add: sweep_run_def expire_submission_def abandon_dispatch_def request_cleanup_def act_then_def act_catch_def act_return_def)
  with w'(2-4) that [of w' ?t] show ?thesis by simp
qed

lemma sweep_renews:
  "waiting rid q e t w \<Longrightarrow> pending_entry rid q e \<Longrightarrow> overdue (bt_now b) e \<Longrightarrow> q \<noteq> [] \<Longrightarrow> cr_workflow t = srun_workflow (se_run e) \<Longrightarrow>
    calm_others rid bs w \<Longrightarrow> b \<in> set bs \<Longrightarrow>
    \<exists>w' t'. sweep_each ids tick (bt_now b) ts rids w = (w', Inr ()) \<and> waiting rid q e t' w' \<and> ds_runs w' = ds_runs w \<and> ds_shutdown w' = ds_shutdown w
      \<and> cr_workflow t' = cr_workflow t \<and> cr_attempts t \<le> cr_attempts t'
      \<and> (rid \<in> set rids \<longrightarrow> cr_attempts t < cr_attempts t' \<and> cr_next t' = tick + cleanup_delay (cr_attempts t'))
      \<and> (rid \<notin> set rids \<longrightarrow> t' = t)"
proof (induction rids arbitrary: t w)
  case (Cons r rids)
  show ?case
  proof (cases "r = rid")
    case True
    obtain w1 t1 where s: "sweep_run (ids rid) tick (bt_now b) ts rid w = (w1, Inr ())" "waiting rid q e t1 w1" "ds_runs w1 = ds_runs w"
        "ds_shutdown w1 = ds_shutdown w" "cr_attempts t1 = Suc (cr_attempts t)" "cr_next t1 = tick + cleanup_delay (cr_attempts t1)"
        "cr_workflow t1 = cr_workflow t"
      by (rule sweep_overdue [OF Cons.prems(1-5)])
    have "calm_others rid bs w1" using Cons.prems(6) s(3) by (simp add: calm_others_def)
    with Cons.IH [OF s(2) Cons.prems(2-4)] s Cons.prems(5,7) True show ?thesis
      by (cases "rid \<in> set rids") (fastforce simp: act_then_def)+
  next
    case False
    show ?thesis using Cons.IH [OF Cons.prems] sweep_other [OF False Cons.prems(6,7)] False by (simp add: act_then_def)
  qed
qed (simp add: act_return_def)

lemma overdue_round:
  assumes "waiting rid q e t w" and "pending_entry rid q e" and "overdue (bt_now b) e" and "q \<noteq> []" and "cr_workflow t = srun_workflow (se_run e)"
    and "calm_others rid bs w" and "b \<in> set bs" and "cr_attempts t < 5 \<or> bt_tick b < cr_next t"
  obtains t' where "waiting rid q e t' (maintenance_round b w)" "ds_runs (maintenance_round b w) = ds_runs w"
    "ds_shutdown (maintenance_round b w) = ds_shutdown w" "cr_attempts t < cr_attempts t'" "cr_next t' = bt_tick b + cleanup_delay (cr_attempts t')"
    "cr_workflow t' = cr_workflow t"
proof -
  let ?retry = "retry_cleanups (bt_tick b) (bt_now b) (bt_text b) w"
  obtain w1 t1 where r: "?retry = (w1, Inr ())" "waiting rid q e t1 w1" "ds_runs w1 = ds_runs w" "ds_shutdown w1 = ds_shutdown w"
      "cr_attempts t \<le> cr_attempts t1" "cr_workflow t1 = cr_workflow t"
  proof (cases "bt_tick b < cr_next t")
    case True
    then show ?thesis using that [of w t] retry_waits [OF assms(1,2)] assms(1) by simp
  next
    case False
    then have "cr_attempts t < 5" "cr_next t \<le> bt_tick b" using assms(8) by auto
    from retry_sends [OF assms(1,2) this, of "bt_now b" "bt_text b"] show ?thesis using that by (metis lessI less_imp_le)
  qed
  have c: "calm_others rid bs w1" using assms(6) r(3) by (simp add: calm_others_def)
  have "rid \<in> set (dkeys (ds_runs w1))" using assms(1) r(3) by (auto simp: waiting_def dkeys_def dest!: map_of_SomeD intro: rev_image_eqI)
  with sweep_renews [OF r(2) assms(2-4) _ c assms(7), of "bt_ids b" "bt_tick b" "bt_text b" "dkeys (ds_runs w1)"] r(6) assms(5)
  obtain w2 t2 where s: "sweep_each (bt_ids b) (bt_tick b) (bt_now b) (bt_text b) (dkeys (ds_runs w1)) w1 = (w2, Inr ())" "waiting rid q e t2 w2"
      "ds_runs w2 = ds_runs w1" "ds_shutdown w2 = ds_shutdown w1" "cr_workflow t2 = cr_workflow t1" "cr_attempts t1 < cr_attempts t2"
      "cr_next t2 = bt_tick b + cleanup_delay (cr_attempts t2)"
    by auto
  have "maintenance_round b w = w2" using r(1) s(1) by (simp add: maintenance_round_def act_then_def sweep_deadlines_def)
  with that [of t2] r s show ?thesis by simp
qed

lemma overdue_rounds:
  "waiting rid q e t w \<Longrightarrow> pending_entry rid q e \<Longrightarrow> q \<noteq> [] \<Longrightarrow> cr_workflow t = srun_workflow (se_run e) \<Longrightarrow>
    \<forall>b \<in> set bs. overdue (bt_now b) e \<Longrightarrow> calm_others rid bs w \<Longrightarrow> frequent bs \<Longrightarrow> cr_attempts t < 5 \<or> bs = [] \<or> bt_tick (hd bs) < cr_next t \<Longrightarrow>
    \<exists>t'. waiting rid q e t' (rounds bs w) \<and> ds_runs (rounds bs w) = ds_runs w \<and> ds_shutdown (rounds bs w) = ds_shutdown w
      \<and> cr_attempts t + length bs \<le> cr_attempts t'"
proof (induction bs arbitrary: t w)
  case (Cons b bs)
  have o': "overdue (bt_now b) e" "b \<in> set (b # bs)" "cr_attempts t < 5 \<or> bt_tick b < cr_next t" using Cons.prems(5,8) by simp_all
  obtain t' where t': "waiting rid q e t' (maintenance_round b w)" "ds_runs (maintenance_round b w) = ds_runs w"
      "ds_shutdown (maintenance_round b w) = ds_shutdown w" "cr_attempts t < cr_attempts t'" "cr_next t' = bt_tick b + cleanup_delay (cr_attempts t')"
      "cr_workflow t' = cr_workflow t"
    by (rule overdue_round [OF Cons.prems(1,2) o'(1) Cons.prems(3,4,6) o'(2,3)])
  have c: "calm_others rid bs (maintenance_round b w)" using Cons.prems(6) t'(2) by (auto simp: calm_others_def)
  have f: "frequent bs" using Cons.prems(7) by (cases bs) auto
  have n: "cr_attempts t' < 5 \<or> bs = [] \<or> bt_tick (hd bs) < cr_next t'"
  proof (cases "5 \<le> cr_attempts t'")
    case True
    with Cons.prems(7) delay_after_five [of "cr_attempts t'"] t'(5) show ?thesis by (cases bs) auto
  qed simp
  have "\<forall>b \<in> set bs. overdue (bt_now b) e" using Cons.prems(5) by simp
  from Cons.IH [OF t'(1) Cons.prems(2,3) _ this c f n] t' Cons.prems(4) show ?case by fastforce
next
  case Nil
  then show ?case by auto
qed

text \<open>A cleanup nobody confirms is not given up once the run has passed its deadline: with every round of the maintenance loop the
  sweep sends the request again and puts the next attempt further off, so that, with rounds less than four seconds apart (the loop's
  come every second), the limit of five attempts is never applied, however many rounds there are: the run stays as it is, is not
  reported as failed, and the scheduler is not told to shut down. No other run is being submitted or passes its deadline meanwhile.\<close>

theorem overdue_cleanup_kept:
  assumes "ds_retries w = [(q, t)]" and "cr_run t = rid" and "cr_workflow t = srun_workflow (se_run e)" and "map_of (ds_runs w) rid = Some e"
    and "map_of (ds_requests w) q \<in> {None, Some rid}" and "q \<noteq> []" and "pending_entry rid q e" and "\<forall>b \<in> set bs. overdue (bt_now b) e"
    and "calm_others rid bs w" and "frequent bs" and "cr_attempts t < 5 \<or> bs = [] \<or> bt_tick (hd bs) < cr_next t"
  shows "map_of (ds_runs (rounds bs w)) rid = Some e \<and> ds_shutdown (rounds bs w) = ds_shutdown w
    \<and> (\<exists>t'. ds_retries (rounds bs w) = [(q, t')] \<and> cr_attempts t + length bs \<le> cr_attempts t')"
proof -
  have "waiting rid q e t w" using assms(1,2,4,5) by (simp add: waiting_def)
  from overdue_rounds [OF this assms(7,6,3,8-11)] show ?thesis by (auto simp: waiting_def)
qed

section \<open>Writes that fail\<close>

text \<open>A snapshot that cannot be written leaves everything but the store as it is.\<close>

lemma persist_unwritten:
  assumes "ds_io w = x # xs" "x \<noteq> Written" "map_of (ds_runs w) rid = Some e"
  obtains w1 y where "persist_entry rid w = (w1, Inl y)" "ds_runs w1 = ds_runs w" "ds_orders w1 = ds_orders w" "ds_retries w1 = ds_retries w"
proof (cases "entry_snapshot e")
  case (Inl y)
  with assms(3) that [of w y] show ?thesis by (simp add: persist_entry_def act_then_def act_result_def)
next
  case (Inr snap)
  obtain st where "static_save_run x rid snap (ds_store w) = (st, Inl (OSError ''write''))"
    using assms(2) by (simp add: static_save_run_def Let_def)
  with Inr assms that [of "w\<lparr>ds_io := xs, ds_store := st\<rparr>" "OSError ''write''"] show ?thesis
    by (simp add: persist_entry_def act_then_def act_result_def save_snapshot_def desk_write_def change_store_def)
qed

text \<open>What no other run's handling changes about a run: nothing about it is noted, sent or changed.\<close>

definition forgotten :: "string \<Rightarrow> static_entry \<Rightarrow> order set \<Rightarrow> 'b desk \<Rightarrow> bool" where
  "forgotten rid e S w =
     (map_of (ds_runs w) rid = Some e \<and> (\<forall>(q, t) \<in> set (ds_retries w). cr_run t \<noteq> rid)
      \<and> (\<forall>x. Stop_workflow rid x \<in> set (ds_orders w) \<longrightarrow> Stop_workflow rid x \<in> S))"

lemma forgotten_noted: "keeps_noted a \<Longrightarrow> keeping (forgotten rid e S) a"
  by (rule keepingI) (simp add: keeps_noted_def forgotten_def)

lemma forgotten_change: "r \<noteq> rid \<Longrightarrow> keeping (forgotten rid e S) (change_entry r f)"
  by (rule keepingI) (auto simp: forgotten_def change_entry_def act_modify_def split: option.split)

lemma forgotten_send: "(\<And>y. x \<noteq> Stop_workflow rid y) \<Longrightarrow> keeping (forgotten rid e S) (desk_send x)"
proof (rule keepingI)
  fix w :: "'a desk" assume x: "\<And>y. x \<noteq> Stop_workflow rid y" and f: "forgotten rid e S w"
  have "Stop_workflow rid y \<in> set (ds_orders w)" if "Stop_workflow rid y \<in> set (ds_orders (fst (desk_send x w)))" for y
    using that send_fields(4) [of x w] x [of y] by blast
  with f show "forgotten rid e S (fst (desk_send x w))" by (simp add: forgotten_def send_fields send_more)
qed

lemma noted_load: "keeps_noted (load_snapshot r)" "keeps_noted (load_log r)" "keeps_noted (dispatch_of r)" "keeps_noted (revoke_dispatch r d)"
  by (auto simp: keeps_noted_def load_snapshot_def load_log_def dispatch_of_def revoke_dispatch_def split: option.split sum.split)

lemma forgotten_save: "keeping (forgotten rid e S) (save_snapshot r snap)"
  unfolding save_snapshot_def by (intro keeping_then forgotten_noted noted_write noted_store)

lemma forgotten_persist: "keeping (forgotten rid e S) (persist_entry r)"
proof (rule keepingI)
  fix w :: "'a desk" assume f: "forgotten rid e S w"
  have "keeping (forgotten rid e S) (act_then (act_result (entry_snapshot x)) (save_snapshot r) :: ('a desk, unit) action)" for x
    by (intro keeping_then keeping_result forgotten_save)
  from keeping_D [OF this f] f show "forgotten rid e S (fst (persist_entry r w))"
    by (simp add: persist_entry_def split: option.split)
qed

lemma forgotten_record: "r \<noteq> rid \<Longrightarrow> keeping (forgotten rid e S) (record_event now ts r ev True)"
proof (rule keepingI)
  fix w :: "'a desk" assume r: "r \<noteq> rid" and f: "forgotten rid e S w"
  have "keeping (forgotten rid e S) (act_then (change_entry r (\<lambda>e. e\<lparr>se_run := x\<rparr>)) (\<lambda>_. act_then desk_write (\<lambda>o1.
      act_then (change_store (static_append_once o1 r y)) (\<lambda>_. persist_entry r))) :: ('a desk, unit) action)" for x y
    by (intro keeping_then forgotten_change [OF r] forgotten_noted [OF noted_write] forgotten_noted [OF noted_store] forgotten_persist)
  from keeping_D [OF this f] f show "forgotten rid e S (fst (record_event now ts r ev True w))"
    by (simp add: record_event_def split: option.split prod.split)
qed

lemma forgotten_finish:
  assumes "r \<noteq> rid"
  shows "keeping (forgotten rid e S) (finish_dispatch_failure now ts r err)"
proof (rule keepingI)
  fix w :: "'a desk" assume f: "forgotten rid e S w"
  have n: "keeping (forgotten rid e S) (record_snapshot_failure ts r snap err)" for snap
    unfolding record_snapshot_failure_def Let_def
    by (auto intro!: act_rules forgotten_save forgotten_noted [OF noted_load(2)] forgotten_noted [OF noted_write] forgotten_noted [OF noted_store])
  have a: "keeping (forgotten rid e S) (act_then (act_result (validate_dispatch (VDict (se_dispatch x)))) (\<lambda>d.
          if vget d ''status'' = VStr ''terminal'' then act_return ()
          else
            act_then (revoke_dispatch r d) (\<lambda>d'.
            act_then (set_dispatch r d') (\<lambda>_.
            act_then (change_entry r (mark_static_dispatch_failed now err)) (\<lambda>_.
            record_event now ts r [(''type'', VStr ''workflow_submission_failed''), (''data'', VDict [(''error'', err)])] True)))))" for x
    unfolding set_dispatch_def
    by (auto intro!: act_rules forgotten_noted [OF noted_load(4)] forgotten_change [OF assms] forgotten_record [OF assms])
  have b: "keeping (forgotten rid e S) (act_then (load_snapshot r) (\<lambda>snap.
          act_then (act_result (validate_dispatch (vget snap ''dispatch''))) (\<lambda>d.
          if vget d ''status'' = VStr ''terminal'' then act_return ()
          else
            act_then (revoke_dispatch r d) (\<lambda>d'.
            record_snapshot_failure ts r (mark_snapshot_dispatch_failed now d' err snap) err))))"
    by (auto intro!: act_rules n forgotten_noted [OF noted_load(1)] forgotten_noted [OF noted_load(4)])
  show "forgotten rid e S (fst (finish_dispatch_failure now ts r err w))"
    by (cases "map_of (ds_runs w) r"; simp only: finish_dispatch_failure_def option.case)
      (rule keeping_D [OF b f], rule keeping_D [OF a f])
qed

lemma forgotten_send_cleanup:
  assumes "r \<noteq> rid"
  shows "keeping (forgotten rid e S) (send_cleanup tick r wid q)"
  unfolding send_cleanup_def keeping_def
proof (rule triple_then [where R = "\<lambda>t w. forgotten rid e S w \<and> cr_run t = r"])
  show "triple (forgotten rid e S) (register_cleanup r wid q :: ('a desk, cleanup_retry) action) (\<lambda>t w. forgotten rid e S w \<and> cr_run t = r) (forgotten rid e S)"
  proof -
    have "forgotten rid e S w' \<and> (case x of Inr t \<Rightarrow> cr_run t = r | Inl _ \<Rightarrow> True)"
      if f: "forgotten rid e S w" and x: "register_cleanup r wid q w = (w', x)" for w w' :: "'a desk" and x
    proof -
      have "cr_run (dgetd (ds_retries w) q \<lparr>cr_run = r, cr_workflow = wid, cr_attempts = 0, cr_next = 0\<rparr>) \<noteq> rid"
      proof (cases "map_of (ds_retries w) q")
        case (Some t)
        then have "(q, t) \<in> set (ds_retries w)" by (rule map_of_SomeD)
        then show ?thesis using f Some by (auto simp: forgotten_def dgetd_def)
      qed (simp add: dgetd_def assms)
      then show ?thesis using f x by (auto simp: register_cleanup_def forgotten_def Let_def dest!: in_dput split: if_splits)
    qed
    note k = this
    show ?thesis unfolding triple_def
    proof (intro allI impI)
      fix w :: "'a desk" assume f: "forgotten rid e S w"
      obtain w' x where x: "register_cleanup r wid q w = (w', x)" by fastforce
      show "case register_cleanup r wid q w of (w', Inl _) \<Rightarrow> forgotten rid e S w' | (w', Inr t) \<Rightarrow> forgotten rid e S w' \<and> cr_run t = r"
        using k [OF f x] by (cases x) (simp_all add: x)
    qed
  qed
  show "triple (\<lambda>w :: 'a desk. forgotten rid e S w \<and> cr_run t = r)
      (act_then (act_modify (\<lambda>w. w\<lparr>ds_retries := dput q (t\<lparr>cr_attempts := cr_attempts t + 1, cr_next := tick + cleanup_delay (cr_attempts t + 1)\<rparr>) (ds_retries w)\<rparr>))
        (\<lambda>_. act_catch (desk_send (Stop_workflow r q)) (\<lambda>_. act_return ()))) (\<lambda>_. forgotten rid e S) (forgotten rid e S)" for t
  proof (rule triple_then [where R = "\<lambda>_. forgotten rid e S"], rule triple_modify)
    fix w :: "'a desk" assume "forgotten rid e S w \<and> cr_run t = r"
    then show "forgotten rid e S (w\<lparr>ds_retries := dput q (t\<lparr>cr_attempts := cr_attempts t + 1,
        cr_next := tick + cleanup_delay (cr_attempts t + 1)\<rparr>) (ds_retries w)\<rparr>)"
      using assms by (auto simp: forgotten_def dest!: in_dput)
  next
    have "keeping (forgotten rid e S) (act_catch (desk_send (Stop_workflow r q)) (\<lambda>_. act_return ()))"
      by (intro act_rules forgotten_send) (use assms in simp)
    then show "triple (forgotten rid e S) (act_catch (desk_send (Stop_workflow r q)) (\<lambda>_. act_return ())) (\<lambda>_. forgotten rid e S) (forgotten rid e S)"
      by (simp add: keeping_def)
  qed
qed

lemma forgotten_clear: "keeping (forgotten rid e S) (clear_cleanup q)"
  unfolding clear_cleanup_def
  by (rule keeping_modify) (auto simp: forgotten_def ddel_def AList.delete_eq)

lemma forgotten_retry:
  assumes "cr_run t \<noteq> rid"
  shows "keeping (forgotten rid e S) (retry_cleanup tick now ts q t)"
proof (rule keepingI)
  fix w :: "'a desk" assume f: "forgotten rid e S w"
  have shut: "keeping (forgotten rid e S) (request_shutdown :: ('a desk, unit) action)"
  proof (rule keepingI)
    fix w :: "'a desk" assume f: "forgotten rid e S w"
    have "keeping (forgotten rid e S) (act_catch (desk_send Shutdown_scheduler) (\<lambda>_. act_return ()) :: ('a desk, unit) action)"
      by (intro act_rules forgotten_send) simp
    moreover have "forgotten rid e S (w\<lparr>ds_shutdown := True\<rparr>)" using f by (simp add: forgotten_def)
    ultimately show "forgotten rid e S (fst (request_shutdown w))" using f keeping_D by (fastforce simp: request_shutdown_def)
  qed
  have "keeping (forgotten rid e S) (act_then request_shutdown (\<lambda>_.
      act_then (finish_dispatch_failure now ts (cr_run t) (give_up_error (cr_attempts t))) (\<lambda>_. clear_cleanup q)) :: ('a desk, unit) action)"
    by (intro act_rules shut forgotten_finish [OF assms] forgotten_clear)
  from keeping_D [OF this f] keeping_D [OF forgotten_clear f] keeping_D [OF forgotten_send_cleanup [OF assms] f] f
  show "forgotten rid e S (fst (retry_cleanup tick now ts q t w))" by (simp add: retry_cleanup_def)
qed

lemma forgotten_retries: "\<forall>(q, t) \<in> set qs. cr_run t \<noteq> rid \<Longrightarrow> keeping (forgotten rid e S) (retry_each tick now ts qs)"
  by (induction tick now ts qs rule: retry_each.induct) (auto intro!: act_rules forgotten_retry)

lemma forgotten_abandon:
  assumes "r \<noteq> rid"
  shows "keeping (forgotten rid e S) (abandon_dispatch q tick r x)"
proof (rule keepingI)
  fix w :: "'a desk" assume f: "forgotten rid e S w"
  have "keeping (forgotten rid e S) (act_then (request_cleanup q tick r wid d err (set_dispatch r) (\<lambda>_. persist_entry r)) (\<lambda>_. act_return True))"
    for wid d err
    unfolding request_cleanup_def set_dispatch_def Let_def
    by (auto intro!: act_rules forgotten_change [OF assms] forgotten_persist forgotten_send_cleanup [OF assms] split: pyval.split)
  from keeping_D [OF this f] f show "forgotten rid e S (fst (abandon_dispatch q tick r x w))"
    by (simp add: abandon_dispatch_def split: option.split)
qed

lemma forgotten_sweep_run:
  assumes "requires_cleanup e" and "in_time now e"
  shows "keeping (forgotten rid e S) (sweep_run q tick now ts r)"
proof (rule keepingI)
  fix w :: "'a desk" assume f: "forgotten rid e S w"
  show "forgotten rid e S (fst (sweep_run q tick now ts r w))"
  proof (cases "r = rid")
    case True
    then show ?thesis using f assms
      by (auto simp: sweep_run_def expire_submission_def forgotten_def in_time_def act_then_def act_return_def split: option.splits)
  next
    case False
    have "keeping (forgotten rid e S) (act_catch (abandon_dispatch q tick r x) (\<lambda>_. act_return True))" for x
      by (intro act_rules forgotten_abandon [OF False])
    then have x: "keeping (forgotten rid e S) (expire_submission q tick now r)"
      by (intro keepingI) (use keeping_D in \<open>fastforce simp: expire_submission_def split: option.split\<close>)
    have "keeping (forgotten rid e S) (act_then (change_entry r (\<lambda>e. e\<lparr>se_run := y\<rparr>)) (\<lambda>_.
        act_then (record_event now ts r ev True) (\<lambda>_. act_catch (desk_send (Stop_workflow r [])) (\<lambda>_. act_return ()))))" for y ev
      using False by (intro act_rules forgotten_change forgotten_record forgotten_send) simp_all
    then have "keeping (forgotten rid e S) (time_out_run now ts r)"
      by (intro keepingI) (use keeping_D in \<open>fastforce simp: time_out_run_def split: option.split prod.split bool.split\<close>)
    with x have "keeping (forgotten rid e S) (sweep_run q tick now ts r)" unfolding sweep_run_def by (auto intro!: act_rules)
    then show ?thesis using f by (rule keeping_D)
  qed
qed

lemma forgotten_round:
  assumes "requires_cleanup e" and "in_time (bt_now b) e" and "forgotten rid e S w"
  shows "forgotten rid e S (maintenance_round b w)"
proof -
  have "\<forall>(q, t) \<in> set (ds_retries w). cr_run t \<noteq> rid" using assms(3) by (simp add: forgotten_def)
  then have r: "forgotten rid e S (fst (retry_cleanups (bt_tick b) (bt_now b) (bt_text b) w))"
    using keeping_D [OF forgotten_retries assms(3)] by (simp add: retry_cleanups_def)
  have "keeping (forgotten rid e S) (sweep_each ids tick (bt_now b) ts rids)" for ids tick ts rids
    by (induction rids) (auto intro!: act_rules forgotten_sweep_run assms(1,2))
  from keeping_D [OF this r] r show ?thesis by (cases rule: round_cases [of b w]) (simp_all add: sweep_deadlines_def)
qed

lemma forgotten_rounds:
  "requires_cleanup e \<Longrightarrow> \<forall>b \<in> set bs. in_time (bt_now b) e \<Longrightarrow> forgotten rid e S w \<Longrightarrow> forgotten rid e S (rounds bs w)"
  by (induction bs arbitrary: w) (simp_all add: forgotten_round)

text \<open>C39: a cleanup whose request cannot be saved is not made before the run's deadline, and never for a run without one. The
  submission was being sent when it failed; it is marked as waiting for the scheduler, but as long as the run has not passed its
  deadline, no round of the maintenance loop sends it a stop, whatever the other runs do.\<close>

theorem unsaved_cleanup_stuck:
  assumes "map_of (ds_runs w) rid = Some e" and "dispatch_valid (VDict (se_dispatch e))" and "vget (se_dispatch e) ''status'' = VStr ''dispatching''"
    and "\<forall>(q, t) \<in> set (ds_retries w). cr_run t \<noteq> rid" and "ds_io w = x # xs" and "x \<noteq> Written"
    and "fail_dispatch q tick now ts rid y w = (w1, r)" and "\<forall>b \<in> set bs. in_time (bt_now b) e"
  shows "(\<forall>z. Stop_workflow rid z \<in> set (ds_orders (rounds bs w1)) \<longrightarrow> Stop_workflow rid z \<in> set (ds_orders w))
    \<and> (\<exists>e1. map_of (ds_runs (rounds bs w1)) rid = Some e1 \<and> vget (se_dispatch e1) ''status'' = VStr ''cleanup_pending'')"
proof -
  define d' where "d' = dput ''error'' (dispatch_error (se_dispatch e) y)
      (dput ''cleanup_request_id'' (VStr q) (dput ''status'' (VStr ''cleanup_pending'') (se_dispatch e)))"
  define e1 where "e1 = e\<lparr>se_dispatch := d'\<rparr>"
  define w0 where "w0 = w\<lparr>ds_runs := dput rid e1 (ds_runs w)\<rparr>"
  obtain w2 z where p: "persist_entry rid w0 = (w2, Inl z)" "ds_runs w2 = ds_runs w0" "ds_orders w2 = ds_orders w0" "ds_retries w2 = ds_retries w0"
    using persist_unwritten [of w0 x xs rid e1] assms(5,6) by (auto simp: w0_def)
  have "fail_dispatch q tick now ts rid y w = (w2, Inl z)"
    using assms(1-3) p(1)
    by (simp add: fail_dispatch_def validate_dispatch_def guard_or_def act_then_def [of "act_result _"] act_result_def
        request_cleanup_def Let_def act_then_def set_dispatch_def change_entry_def act_modify_def d'_def [symmetric] e1_def [symmetric] w0_def [symmetric])
  then have "w1 = w2" using assms(7) by simp
  then have f: "forgotten rid e1 (set (ds_orders w)) w1" using p assms(4) by (simp add: forgotten_def w0_def)
  have s: "vget (se_dispatch e1) ''status'' = VStr ''cleanup_pending''" by (simp add: e1_def d'_def)
  have "\<forall>b \<in> set bs. in_time (bt_now b) e1" using assms(8) by (simp add: in_time_def e1_def)
  moreover have "requires_cleanup e1" using s by (simp add: requires_cleanup_def)
  ultimately have "forgotten rid e1 (set (ds_orders w)) (rounds bs w1)" using forgotten_rounds f by blast
  with s show ?thesis by (auto simp: forgotten_def)
qed

text \<open>when the first snapshot of a submission reaches the disk but the write is reported as failed, the submission is refused
  and forgotten; sent again it is answered as accepted, though nothing was, or will be, sent to the scheduler.\<close>

theorem lost_submission:
  assumes "map_of (run_files (ds_store w)) (srun_id (pl_run p)) = None" and "ds_links w = []" and "ds_io w = Unsynced # xs"
    and "static_snapshot (pl_run p) = Inr v" and "pl_digest p = VStr dg"
    and "run_workflow sha hc cap q tick now ts p w = (w1, r)"
  shows "r = Inl (OSError ''write'') \<and> run_workflow sha hc cap' q' tick' now' ts' p w1 = (w1, Inr (srun_id (pl_run p)))
    \<and> map_of (ds_runs w1) (srun_id (pl_run p)) = None \<and> ds_orders w1 = ds_orders w"
proof -
  define rid where "rid = srun_id (pl_run p)"
  define snap where "snap = dput ''submission_digest'' (VStr dg) (dput ''dispatch'' (VDict (initial_dispatch p)) (dict_or_empty v))"
  let ?e = "\<lparr>se_run = pl_run p, se_dispatch = initial_dispatch p, se_digest = pl_digest p\<rparr>"
  have e: "entry_snapshot ?e = Inr snap" using assms(4,5) by (simp add: entry_snapshot_def snap_def Let_def)
  define w2 where "w2 = w\<lparr>ds_io := xs, ds_runs := ddel rid (dput rid ?e (ds_runs w)),
      ds_store := ds_store w\<lparr>run_files := dput rid (static_payload snap) (run_files (ds_store w))\<rparr>\<rparr>"
  have "run_workflow sha hc cap q tick now ts p w = (w2, Inl (OSError ''write''))"
    using assms(1-3) e
    by (simp add: run_workflow_def rid_def [symmetric] require_scheduler_def start_workflow_def claim_run_def act_then_def act_modify_def
        act_catch_def act_raise_def persist_entry_def act_result_def save_snapshot_def desk_write_def change_store_def static_save_run_def
        w2_def Let_def)
  then have w1: "w1 = w2" "r = Inl (OSError ''write'')" using assms(6) by simp_all
  have "vget (static_payload snap) ''submission_digest'' = VStr dg" by (simp add: static_payload_def snap_def)
  then show ?thesis using w1 assms(5) by (simp add: run_workflow_def rid_def [symmetric] w2_def)
qed

section \<open>Samples\<close>

text \<open>The loop's rounds, one a second, at the wall clock time \<open>now\<close>.\<close>

definition sample_beats :: "time \<Rightarrow> nat \<Rightarrow> beat list" where
  "sample_beats now n = map (\<lambda>i. \<lparr>bt_tick = of_nat i, bt_now = now, bt_text = ''t'', bt_ids = (\<lambda>_. ''new'')\<rparr>) [0..<n]"

lemma sample_failed_facts:
  "map_option cr_attempts (map_of (ds_retries sample_failed) ''q'') = Some 1" "dkeys (ds_retries sample_failed) = [''q'']"
  "map_option cr_run (map_of (ds_retries sample_failed) ''q'') = Some ''r''" "map_of (ds_requests sample_failed) ''q'' = Some ''r''"
  "map_option (\<lambda>e. (pending_entry ''r'' ''q'' e, in_time 2 e)) (map_of (ds_runs sample_failed) ''r'') = Some (True, True)"
  "dkeys (ds_runs sample_failed) = [''r'']"
  "map_option (\<lambda>t. 7 \<le> apart_rounds (cr_next t) (sample_beats 2 60)) (map_of (ds_retries sample_failed) ''q'') = Some True"
  by code_simp+

lemma dkeys_one: "dkeys d = [k] \<Longrightarrow> \<exists>v. d = [(k, v)]"
  by (cases d) (auto simp: dkeys_def)

theorem cleanup_ends_witness: "ds_retries (rounds (sample_beats 2 60) sample_failed) = []"
proof -
  obtain t where t: "ds_retries sample_failed = [(''q'', t)]" using dkeys_one [OF sample_failed_facts(2)] by blast
  obtain e where e: "ds_runs sample_failed = [(''r'', e)]" using dkeys_one [OF sample_failed_facts(6)] by blast
  have p: "pending_entry ''r'' ''q'' e" "in_time 2 e" using sample_failed_facts(5) e by simp_all
  have "\<forall>b \<in> set (sample_beats 2 60). in_time (bt_now b) e" using p(2) by (auto simp: sample_beats_def)
  moreover have "lone ''r'' sample_failed" by (simp add: lone_def e)
  ultimately show ?thesis
    using cleanup_ends [of sample_failed "''q''" t "''r''" e "sample_beats 2 60"] sample_failed_facts(1,3,4,7) t e p(1) by auto
qed

definition timed_failed :: "nat desk" where
  "timed_failed = fst (run_workflow (\<lambda>_. ''h'') id ''c'' ''q'' 0 1 ''t1''
     (sample_plan\<lparr>pl_run := (pl_run sample_plan)\<lparr>stimeout := VInt 10\<rparr>\<rparr>) (sample_desk [True, False] []))"

lemma timed_failed_facts:
  "map_option cr_attempts (map_of (ds_retries timed_failed) ''q'') = Some 1"
  "dkeys (ds_retries timed_failed) = [''q'']"
  "map_option cr_run (map_of (ds_retries timed_failed) ''q'') = Some ''r''"
  "map_of (ds_requests timed_failed) ''q'' = Some ''r''"
  "map_option (\<lambda>e. (pending_entry ''r'' ''q'' e, overdue 100 e)) (map_of (ds_runs timed_failed) ''r'') = Some (True, True)"
  "dkeys (ds_runs timed_failed) = [''r'']"
  "\<not> ds_shutdown timed_failed"
  "map_option cr_workflow (map_of (ds_retries timed_failed) ''q'') = map_option (\<lambda>e. srun_workflow (se_run e)) (map_of (ds_runs timed_failed) ''r'')"
  by code_simp+

lemma sample_beats_frequent: "frequent (sample_beats 100 30)"
  by code_simp

theorem overdue_cleanup_kept_witness:
  "\<not> ds_shutdown (rounds (sample_beats 100 30) timed_failed) \<and> (\<exists>t. ds_retries (rounds (sample_beats 100 30) timed_failed) = [(''q'', t)] \<and> 30 < cr_attempts t)"
proof -
  obtain t where t: "ds_retries timed_failed = [(''q'', t)]" using dkeys_one [OF timed_failed_facts(2)] by blast
  obtain e where e: "ds_runs timed_failed = [(''r'', e)]" using dkeys_one [OF timed_failed_facts(6)] by blast
  have p: "pending_entry ''r'' ''q'' e" "overdue 100 e" using timed_failed_facts(5) e by simp_all
  have "\<forall>b \<in> set (sample_beats 100 30). overdue (bt_now b) e" using p(2) by (auto simp: sample_beats_def)
  moreover have "calm_others ''r'' (sample_beats 100 30) timed_failed" by (simp add: calm_others_def e)
  moreover have "length (sample_beats 100 30) = 30" by (simp add: sample_beats_def)
  ultimately show ?thesis
    using overdue_cleanup_kept [of timed_failed "''q''" t "''r''" e "sample_beats 100 30"] timed_failed_facts(1,3,4,7,8) sample_beats_frequent t e p(1) by auto
qed

definition sample_sending :: "nat desk" where
  "sample_sending = fst (send_dispatch sample_plan (fst (prepare_dispatch (\<lambda>_. ''h'') id ''c'' 1 ''t1'' sample_plan
     (fst (claim_run sample_plan (sample_desk [True, False] [Written, Written, Written, Written, Unsynced]))))))"

lemma sample_sending_facts:
  "map_option (\<lambda>e. (dispatch_valid (VDict (se_dispatch e)), vget (se_dispatch e) ''status'', in_time 2 e)) (map_of (ds_runs sample_sending) ''r'')
     = Some (True, VStr ''dispatching'', True)"
  "ds_retries sample_sending = []" "ds_io sample_sending = [Unsynced]" "ds_orders sample_sending = [Run_task ''r'' ''a'']"
  by code_simp+

theorem unsaved_cleanup_stuck_witness:
  "\<forall>z. Stop_workflow ''r'' z \<notin> set (ds_orders (rounds (sample_beats 2 60) (fst (fail_dispatch ''q'' 0 1 ''t1'' ''r'' (RuntimeError ''x'') sample_sending))))"
proof -
  obtain e where e: "map_of (ds_runs sample_sending) ''r'' = Some e" "dispatch_valid (VDict (se_dispatch e))"
    "vget (se_dispatch e) ''status'' = VStr ''dispatching''" "in_time 2 e"
    using sample_sending_facts(1) by auto
  have f: "fail_dispatch ''q'' 0 1 ''t1'' ''r'' (RuntimeError ''x'') sample_sending
    = (fst (fail_dispatch ''q'' 0 1 ''t1'' ''r'' (RuntimeError ''x'') sample_sending),
       snd (fail_dispatch ''q'' 0 1 ''t1'' ''r'' (RuntimeError ''x'') sample_sending))" by simp
  have i: "\<forall>b \<in> set (sample_beats 2 60). in_time (bt_now b) e" using e(4) by (auto simp: sample_beats_def)
  have n: "\<forall>(q, t) \<in> set (ds_retries sample_sending). cr_run t \<noteq> ''r''" by (simp add: sample_sending_facts(2))
  from unsaved_cleanup_stuck [OF e(1-3) n sample_sending_facts(3) _ f i] sample_sending_facts(4) show ?thesis by simp
qed

theorem lost_submission_witness:
  "run_workflow (\<lambda>_. ''h'') id ''c'' ''q2'' 1 2 ''t2'' sample_plan (submit_sample (sample_desk [] [Unsynced]))
     = (submit_sample (sample_desk [] [Unsynced]), Inr ''r'')"
proof -
  let ?r = "run_workflow (\<lambda>_. ''h'') id ''c'' ''q'' 0 1 ''t1'' sample_plan (sample_desk [] [Unsynced])"
  obtain v where v: "static_snapshot (pl_run sample_plan) = Inr v"
    by (simp add: static_snapshot_def sample_plan_def succeeded_run_def)
  have f: "srun_id (pl_run sample_plan) = ''r''" "pl_digest sample_plan = VStr ''d''" by (simp_all add: sample_plan_def succeeded_run_def)
  have "map_of (run_files (ds_store (sample_desk [] [Unsynced]))) (srun_id (pl_run sample_plan)) = None"
    "ds_links (sample_desk [] [Unsynced]) = []" "ds_io (sample_desk [] [Unsynced]) = Unsynced # []"
    by (simp_all add: sample_desk_def no_store_def)
  from lost_submission [OF this v f(2), of "\<lambda>_. ''h''" id "''c''" "''q''" 0 1 "''t1''" "fst ?r" "snd ?r"] f(1)
  show ?thesis by (simp add: submit_sample_def)
qed

end
