(* ===== verification/Static_Events.thy ===== *)
theory Static_Events
  imports Submission Core_Events
begin

text \<open>
  How the core handles the scheduler's messages about the tasks of static runs (\<open>monitor_coroutine\<close>,
  \<open>_handle_static_finish_scheduler_event\<close> and \<open>_continue_static_finish\<close> of \<open>maze/core/path/path.py\<close>). What follows the
  end of a task (telling the client, advancing the graph, sending the tasks that became ready, ending the run) is kept in a
  continuation of the run, step by step, so that a message that is handled again after a failed write goes on where it stopped.

  The state is the desk of \<open>Submission\<close> with the graphs of the submitted runs, the queues of the clients and the attempt table. The
  resource observation (\<open>obs\<close>) and what building a task's message raises (\<open>payload\<close>) are arguments; the runtime that is learnt
  from a finished task, the manifest noted in the graph and the duration a cleared workflow reports are left out. The metrics of
  a message are a dict or missing, and the result of a finished task is there.
\<close>

section \<open>State\<close>

record 'b plant =
  pn_desk :: "'b desk"
  pn_graphs :: "(string, workflow) dict"
  pn_queues :: "string list"
  pn_told :: "(string \<times> event) list"
  pn_attempts :: "(task_key, attempt_state) dict"
  pn_rejections :: "task_key set"
  pn_manifests :: "(task_key, message) dict"

definition at_desk :: "('b desk, 'a) action \<Rightarrow> ('b plant, 'a) action" where
  "at_desk a p = (case a (pn_desk p) of (d, r) \<Rightarrow> (p\<lparr>pn_desk := d\<rparr>, r))"

definition get_srun :: "string \<Rightarrow> ('b plant, srun) action" where
  "get_srun rid p = (p, case map_of (ds_runs (pn_desk p)) rid of None \<Rightarrow> Inl (KeyError rid) | Some e \<Rightarrow> Inr (se_run e))"

definition edit_srun :: "string \<Rightarrow> (srun \<Rightarrow> srun) \<Rightarrow> ('b plant, unit) action" where
  "edit_srun rid f = at_desk (change_entry rid (\<lambda>e. e\<lparr>se_run := f (se_run e)\<rparr>))"

definition keep_srun :: "string \<Rightarrow> ('b plant, unit) action" where
  "keep_srun rid = at_desk (persist_entry rid)"

definition tell :: "string \<Rightarrow> event \<Rightarrow> ('b plant, unit) action" where
  "tell rid ev = act_modify (\<lambda>p. if rid \<in> set (pn_queues p) then p\<lparr>pn_told := pn_told p @ [(rid, ev)]\<rparr> else p)"

section \<open>The continuation of a finished task\<close>

definition continuation_of :: "srun \<Rightarrow> string \<Rightarrow> event result" where
  "continuation_of r t = (case map_of (scontinuations r) t of Some (VDict c) \<Rightarrow> Inr c | _ \<Rightarrow> Inl (KeyError t))"

definition edit_continuation :: "string \<Rightarrow> string \<Rightarrow> (event \<Rightarrow> event) \<Rightarrow> ('b plant, unit) action" where
  "edit_continuation rid t f =
     edit_srun rid (\<lambda>r. case map_of (scontinuations r) t of
         Some (VDict c) \<Rightarrow> r\<lparr>scontinuations := dput t (VDict (f c)) (scontinuations r)\<rparr> | _ \<Rightarrow> r)"

definition get_continuation :: "string \<Rightarrow> string \<Rightarrow> ('b plant, event) action" where
  "get_continuation rid t = act_then (get_srun rid) (\<lambda>r. act_result (continuation_of r t))"

definition finish_identity :: "event \<Rightarrow> pyval" where
  "finish_identity d =
     VDict [(''attempt'', vget d ''attempt''), (''dispatch_id'', vget d ''dispatch_id''), (''lease_id'', vget d ''lease_id'')]"

definition new_static_continuation :: "event \<Rightarrow> message \<Rightarrow> event" where
  "new_static_continuation d m =
     [(''schema_version'', VInt 1), (''attempt_identity'', finish_identity d), (''status'', VStr ''pending''),
      (''task_result'', vget d ''result''), (''file_manifest'', if m = [] then VNone else VDict m), (''finish_event'', VNone),
      (''task_notification'', VStr ''pending''), (''workflow_advanced'', VBool False), (''ready_task_ids'', VList []),
      (''dispatch'', VDict []), (''workflow_event'', VNone), (''workflow_notification'', VStr ''pending''),
      (''workflow_cleared'', VStr ''pending'')]"

text \<open>The last \<open>finish_task\<close> event of the task with this identity.\<close>

definition logged_finish :: "string \<Rightarrow> pyval \<Rightarrow> event list \<Rightarrow> event option" where
  "logged_finish t i evs =
     first_match (\<lambda>e. vget e ''type'' = VStr ''finish_task'' \<and> vget (dict_or_empty (vget e ''data'')) ''task_id'' = VStr t
         \<and> finish_identity (dict_or_empty (vget e ''data'')) = i) (rev evs)"

text \<open>The steps of \<open>_continue_static_finish\<close>.\<close>

definition find_finish :: "string \<Rightarrow> string \<Rightarrow> ('b plant, event) action" where
  "find_finish rid t =
     act_then (get_srun rid) (\<lambda>r. act_then (get_continuation rid t) (\<lambda>c.
       case vget c ''finish_event'' of
         VDict e \<Rightarrow> act_return e
       | _ \<Rightarrow>
           (case logged_finish t (vget c ''attempt_identity'') (sevents r) of
              Some e \<Rightarrow> act_then (edit_continuation rid t (dput ''finish_event'' (VDict e))) (\<lambda>_. act_return e)
            | None \<Rightarrow> act_raise (RuntimeError ''Missing durable finish event''))))"

definition tell_finish :: "string \<Rightarrow> string \<Rightarrow> event \<Rightarrow> ('b plant, unit) action" where
  "tell_finish rid t ev =
     act_then (get_continuation rid t) (\<lambda>c.
       if vget c ''task_notification'' = VStr ''sent'' then act_return ()
       else act_then (tell rid ev) (\<lambda>_. act_then (edit_continuation rid t (dput ''task_notification'' (VStr ''sent''))) (\<lambda>_. keep_srun rid)))"

definition finish_in_graph :: "time \<Rightarrow> string \<Rightarrow> string \<Rightarrow> string \<Rightarrow> ('b plant, string list) action" where
  "finish_in_graph now strategy rid t p =
     (case map_of (pn_graphs p) rid of
        None \<Rightarrow> (p, Inl (KeyError rid))
      | Some g \<Rightarrow>
          (case finish_task now t strategy g of
             Inl x \<Rightarrow> (p, Inl x)
           | Inr (g', ready) \<Rightarrow> (p\<lparr>pn_graphs := dput rid g' (pn_graphs p)\<rparr>, Inr ready)))"

definition advanced :: "string list \<Rightarrow> event \<Rightarrow> event" where
  "advanced ready c =
     dput ''workflow_advanced'' (VBool True)
       (dput ''dispatch'' (VDict (map (\<lambda>i. (i, VStr ''pending'')) ready)) (dput ''ready_task_ids'' (VList (map VStr ready)) c))"

definition advance :: "time \<Rightarrow> string \<Rightarrow> string \<Rightarrow> string \<Rightarrow> ('b plant, unit) action" where
  "advance now strategy rid t =
     act_then (get_continuation rid t) (\<lambda>c.
       if truthy (vget c ''workflow_advanced'') then act_return ()
       else act_then (finish_in_graph now strategy rid t) (\<lambda>ready.
            act_then (edit_continuation rid t (advanced ready)) (\<lambda>_. keep_srun rid)))"

definition note_sent :: "string \<Rightarrow> event \<Rightarrow> event" where
  "note_sent i c = dput ''dispatch'' (VDict (dput i (VStr ''sent'') (dict_or_empty (vget c ''dispatch'')))) c"

definition require_task :: "string \<Rightarrow> string \<Rightarrow> ('b plant, unit) action" where
  "require_task rid i p =
     (p, case map_of (pn_graphs p) rid of None \<Rightarrow> Inl (KeyError rid) | Some g \<Rightarrow> if dhas i (tasks g) then Inr () else Inl (KeyError i))"

definition send_ready :: "time \<Rightarrow> (string \<Rightarrow> unit result) \<Rightarrow> string \<Rightarrow> string \<Rightarrow> string \<Rightarrow> ('b plant, unit) action" where
  "send_ready now payload rid t i =
     act_then (get_continuation rid t) (\<lambda>c.
       if vget (dict_or_empty (vget c ''dispatch'')) i = VStr ''sent'' then act_return ()
       else act_then (require_task rid i) (\<lambda>_. act_then (edit_srun rid (mark_task_queued now i)) (\<lambda>_. act_then (keep_srun rid) (\<lambda>_.
            act_then (act_result (payload i)) (\<lambda>_. act_then (at_desk (desk_send (Run_task rid i))) (\<lambda>_.
            act_then (edit_continuation rid t (note_sent i)) (\<lambda>_. keep_srun rid)))))))"

fun send_all_ready :: "time \<Rightarrow> (string \<Rightarrow> unit result) \<Rightarrow> string \<Rightarrow> string \<Rightarrow> string list \<Rightarrow> ('b plant, unit) action" where
  "send_all_ready now payload rid t [] = act_return ()"
| "send_all_ready now payload rid t (i # is) = act_then (send_ready now payload rid t i) (\<lambda>_. send_all_ready now payload rid t is)"

definition workflow_finish_event :: "srun \<Rightarrow> event" where
  "workflow_finish_event r =
     [(''type'', VStr ''finish_workflow''),
      (''data'', VDict [(''run_id'', VStr (srun_id r)), (''workflow_id'', VStr (srun_workflow r))])]"

definition workflow_event :: "time \<Rightarrow> string \<Rightarrow> string \<Rightarrow> string \<Rightarrow> ('b plant, event) action" where
  "workflow_event now ts rid t =
     act_then (get_srun rid) (\<lambda>r. act_then (get_continuation rid t) (\<lambda>c.
       case vget c ''workflow_event'' of
         VDict e \<Rightarrow> act_return e
       | _ \<Rightarrow>
           (case static_append_event now ts (workflow_finish_event r) r of
              (r', e) \<Rightarrow>
                act_then (edit_srun rid (\<lambda>_. r')) (\<lambda>_.
                act_then (edit_continuation rid t (dput ''workflow_event'' (VDict e))) (\<lambda>_. act_return e)))))"

definition write_once :: "string \<Rightarrow> event \<Rightarrow> ('b plant, unit) action" where
  "write_once rid ev = at_desk (act_then desk_write (\<lambda>o1. change_store (static_append_once o1 rid ev)))"

definition tell_end :: "string \<Rightarrow> string \<Rightarrow> event \<Rightarrow> ('b plant, unit) action" where
  "tell_end rid t ev =
     act_then (get_continuation rid t) (\<lambda>c.
       if vget c ''workflow_notification'' = VStr ''sent'' then act_return ()
       else act_then (tell rid ev) (\<lambda>_.
            act_then (edit_continuation rid t (dput ''workflow_notification'' (VStr ''sent''))) (\<lambda>_. keep_srun rid)))"

definition clear_run :: "string \<Rightarrow> string \<Rightarrow> ('b plant, unit) action" where
  "clear_run rid t =
     act_then (get_continuation rid t) (\<lambda>c.
       if vget c ''workflow_cleared'' = VStr ''sent'' then act_return ()
       else act_then (at_desk (desk_send (Clear_workflow rid))) (\<lambda>_.
            act_then (edit_continuation rid t (dput ''workflow_cleared'' (VStr ''sent''))) (\<lambda>_. keep_srun rid)))"

definition end_run :: "time \<Rightarrow> string \<Rightarrow> string \<Rightarrow> string \<Rightarrow> ('b plant, unit) action" where
  "end_run now ts rid t =
     act_then (get_srun rid) (\<lambda>r.
       if sstatus r \<noteq> ''succeeded'' then act_return ()
       else act_then (workflow_event now ts rid t) (\<lambda>ev.
            act_then (write_once rid ev) (\<lambda>_. act_then (keep_srun rid) (\<lambda>_.
            act_then (tell_end rid t ev) (\<lambda>_. clear_run rid t)))))"

definition ready_ids :: "event \<Rightarrow> string list" where
  "ready_ids c = List.map_filter (\<lambda>v. case v of VStr i \<Rightarrow> Some i | _ \<Rightarrow> None) (case vget c ''ready_task_ids'' of VList xs \<Rightarrow> xs | _ \<Rightarrow> [])"

definition complete_continuation :: "string \<Rightarrow> string \<Rightarrow> ('b plant, unit) action" where
  "complete_continuation rid t = act_then (edit_continuation rid t (dput ''status'' (VStr ''completed''))) (\<lambda>_. keep_srun rid)"

definition submission_open :: "string \<Rightarrow> ('b plant, bool) action" where
  "submission_open rid p = (p, case map_of (ds_runs (pn_desk p)) rid of None \<Rightarrow> Inl (KeyError rid) | Some e \<Rightarrow> Inr (requires_cleanup e))"

definition require_graph :: "string \<Rightarrow> ('b plant, unit) action" where
  "require_graph rid p = (p, if dhas rid (pn_graphs p) then Inr () else Inl (KeyError rid))"

definition continue_static_finish ::
    "time \<Rightarrow> string \<Rightarrow> string \<Rightarrow> (string \<Rightarrow> unit result) \<Rightarrow> string \<Rightarrow> string \<Rightarrow> ('b plant, unit) action" where
  "continue_static_finish now ts strategy payload rid t =
     act_then (submission_open rid) (\<lambda>open_submission.
     if open_submission then act_return ()
     else act_then (require_graph rid) (\<lambda>_. act_then (get_continuation rid t) (\<lambda>c.
       if vget c ''status'' = VStr ''completed'' then keep_srun rid
       else
         act_then (find_finish rid t) (\<lambda>ev.
         act_then (tell_finish rid t ev) (\<lambda>_.
         act_then (advance now strategy rid t) (\<lambda>_.
         act_then (get_continuation rid t) (\<lambda>c1.
         act_then (send_all_ready now payload rid t (ready_ids c1)) (\<lambda>_.
         act_then (end_run now ts rid t) (\<lambda>_. complete_continuation rid t)))))))))"

section \<open>Handling a message\<close>

definition attempt_core :: "'b plant \<Rightarrow> static_entry core" where
  "attempt_core p = \<lparr>task_attempts = pn_attempts p, rejections = pn_rejections p, live_runs = ds_runs (pn_desk p)\<rparr>"

definition put_core :: "static_entry core \<Rightarrow> 'b plant \<Rightarrow> 'b plant" where
  "put_core c p =
     p\<lparr>pn_attempts := task_attempts c, pn_rejections := rejections c, pn_desk := (pn_desk p)\<lparr>ds_runs := live_runs c\<rparr>\<rparr>"

definition record_message :: "time \<Rightarrow> string \<Rightarrow> string \<Rightarrow> msg_kind \<Rightarrow> message \<Rightarrow> ('b plant, unit) action" where
  "record_message now ts rid m d =
     at_desk (record_event now ts rid (message_event m d) True)"

definition finish_message :: "message \<Rightarrow> message \<Rightarrow> finish_msg" where
  "finish_message d m =
     \<lparr>f_result = vget d ''result'', f_manifest = (if m = [] then VNone else VDict m), f_metrics = vor (vget d ''metrics'') (VDict []),
      f_started = vget d ''started_at'', f_finished = vget d ''finished_at'', f_duration_ms = vget d ''duration_ms'',
      f_node = vget d ''node_id'', f_fault = vget d ''fault_tolerance'', f_attempt = vget d ''attempt'',
      f_dispatch = vget d ''dispatch_id'', f_lease = vget d ''lease_id''\<rparr>"

text \<open>The event of the message as the run's log has it.\<close>

definition last_event :: "string \<Rightarrow> ('b plant, event) action" where
  "last_event rid = act_then (get_srun rid) (\<lambda>r. case rev (sevents r) of [] \<Rightarrow> act_raise (IndexError rid) | e # _ \<Rightarrow> act_return e)"

definition handled_after :: "('b plant, unit) action \<Rightarrow> ('b plant, unit) action \<Rightarrow> 'b plant \<Rightarrow> 'b plant \<times> handled" where
  "handled_after before rest p =
     (case before p of (p1, Inl x) \<Rightarrow> (p1, Unrecorded x) | (p1, Inr _) \<Rightarrow> (case rest p1 of (p2, r) \<Rightarrow> (p2, Recorded r)))"

text \<open>\<open>_persist_task_file_manifest\<close> for a static run; \<open>fc\<close> is the file context of its graph.\<close>

definition keep_manifest :: "event \<Rightarrow> string \<Rightarrow> string \<Rightarrow> message \<Rightarrow> ('b plant, unit) action" where
  "keep_manifest fc rid t m =
     (if m = [] \<or> \<not> truthy (vget fc ''enabled'') \<or> (truthy (vget fc ''artifact_store'') \<and> \<not> truthy (vget fc ''manifest_root''))
      then act_return ()
      else act_then (at_desk desk_write) (\<lambda>o1.
        if o1 = Written then act_modify (\<lambda>p. p\<lparr>pn_manifests := dput (rid, t) m (pn_manifests p)\<rparr>) else act_raise (OSError ''write'')))"

definition node_metrics :: "string \<Rightarrow> pyval \<Rightarrow> srun \<Rightarrow> srun" where
  "node_metrics t v = on_node t (dput ''metrics'' v)"

text \<open>A finish whose final outputs cannot be resolved becomes the failure of its task.\<close>

definition fail_finish ::
    "(string \<Rightarrow> pyval \<Rightarrow> message \<Rightarrow> pyval) \<Rightarrow> time \<Rightarrow> string \<Rightarrow> string \<Rightarrow> string \<Rightarrow> message \<Rightarrow> pyval \<Rightarrow> ('b plant, unit) action" where
  "fail_finish obs now ts rid t d err0 =
     (let ob = obs ''failed'' err0 d; err = error_with_observation ob err0;
          metrics = error_with_observation ob (vor (vget d ''metrics'') (VDict []));
          d1 = ddel ''file_manifest'' (dput ''resource_observation'' ob (dput ''metrics'' metrics (dput ''result'' err (dput ''error'' err d))))
      in act_then (act_modify (\<lambda>p. case map_of (pn_attempts p) (rid, t) of
             Some a \<Rightarrow> p\<lparr>pn_attempts := dput (rid, t) (a\<lparr>at_event := Task_exception, at_error := err\<rparr>) (pn_attempts p)\<rparr> | None \<Rightarrow> p)) (\<lambda>_.
         act_then (edit_srun rid (\<lambda>r. node_metrics t metrics (mark_task_failed now t err VNone (vget d1 ''fault_tolerance'')
             (vget d1 ''attempt'') (vget d1 ''dispatch_id'') (vget d1 ''lease_id'') r))) (\<lambda>_.
         record_message now ts rid Task_exception d1)))"

definition succeed_finish ::
    "(string \<Rightarrow> pyval \<Rightarrow> message \<Rightarrow> pyval) \<Rightarrow> time \<Rightarrow> string \<Rightarrow> event \<Rightarrow> string \<Rightarrow> string \<Rightarrow> message \<Rightarrow> message \<Rightarrow> ('b plant, unit) action" where
  "succeed_finish obs now ts fc rid t d m =
     (let ob = obs ''succeeded'' VNone d; metrics = error_with_observation ob (vor (vget d ''metrics'') (VDict []));
          d0 = dput ''resource_observation'' ob (dput ''metrics'' metrics d);
          d1 = (if m = [] then d0 else dput ''file_manifest'' (VDict m) d0)
      in act_then (edit_srun rid (\<lambda>r. (node_metrics t metrics r)\<lparr>scontinuations := dput t (VDict (new_static_continuation d1 m)) (scontinuations r)\<rparr>)) (\<lambda>_.
         act_then (record_message now ts rid Finish_task d1) (\<lambda>_.
         act_then (last_event rid) (\<lambda>e.
         act_then (edit_continuation rid t (dput ''finish_event'' (VDict e))) (\<lambda>_. keep_manifest fc rid t m)))))"

definition run_over :: "string \<Rightarrow> 'b plant \<Rightarrow> bool" where
  "run_over rid p =
     (rid \<notin> set (pn_queues p) \<or> \<not> dhas rid (pn_graphs p) \<or>
      (case map_of (ds_runs (pn_desk p)) rid of Some e \<Rightarrow> static_terminal (se_run e) | None \<Rightarrow> False))"

definition tell_last :: "string \<Rightarrow> ('b plant, unit) action" where
  "tell_last rid = act_then (last_event rid) (tell rid)"

definition stop_run :: "string \<Rightarrow> ('b plant, unit) action" where
  "stop_run rid = at_desk (desk_send (Clear_workflow rid))"

text \<open>\<open>_handle_static_finish_scheduler_event\<close> of a run the core keeps.\<close>

definition handle_static_finish ::
    "(string \<Rightarrow> pyval \<Rightarrow> message \<Rightarrow> pyval) \<Rightarrow> time \<Rightarrow> string \<Rightarrow> string \<Rightarrow> (string \<Rightarrow> unit result) \<Rightarrow> event \<Rightarrow> string \<Rightarrow> string \<Rightarrow> message
       \<Rightarrow> 'b plant \<Rightarrow> 'b plant \<times> handled" where
  "handle_static_finish obs now ts strategy payload fc rid t d p =
     (case map_of (ds_runs (pn_desk p)) rid of
        None \<Rightarrow> (p, Given_up)
      | Some e \<Rightarrow>
          if run_over rid p \<or> requires_cleanup e then (p, Given_up)
          else
            (case publish_manifest d (attempt_core p) of
               Inl x \<Rightarrow> (p, Unrecorded x)
             | Inr m \<Rightarrow>
                 (case mark_task_finished now t (finish_message d m) (se_run e) of
                    Inl x \<Rightarrow> (p, Unrecorded x)
                  | Inr (r, err) \<Rightarrow>
                      let p1 = fst (edit_srun rid (\<lambda>_. r) p) in
                      if err = VNone
                      then handled_after (succeed_finish obs now ts fc rid t d m) (continue_static_finish now ts strategy payload rid t) p1
                      else handled_after (fail_finish obs now ts rid t d err) (act_then (tell_last rid) (\<lambda>_. stop_run rid)) p1)))"

text \<open>The other messages: a task started, waits, is retried, or failed.\<close>

definition after_artifact_failure :: "message \<Rightarrow> ('b plant, unit) action" where
  "after_artifact_failure d =
     (case (vget d ''error'', vget d ''workflow_id'') of
        (VDict e, VStr rid) \<Rightarrow>
          if vget e ''error_type'' = VStr ''artifact_error'' \<and> vget e ''origin'' = VStr ''core''
          then act_catch (at_desk (desk_send (Stop_workflow rid []))) (\<lambda>_. act_return ()) else act_return ()
      | _ \<Rightarrow> act_return ())"

definition record_and_tell ::
    "(srun \<Rightarrow> srun) \<Rightarrow> time \<Rightarrow> string \<Rightarrow> string \<Rightarrow> event \<Rightarrow> message \<Rightarrow> 'b plant \<Rightarrow> 'b plant \<times> handled" where
  "record_and_tell f now ts rid ev d =
     handled_after
       (act_then (edit_srun rid f) (\<lambda>_. at_desk (record_event now ts rid ev True)))
       (act_then (tell_last rid) (\<lambda>_. after_artifact_failure d))"

definition start_in_graph :: "time \<Rightarrow> string \<Rightarrow> string \<Rightarrow> 'b plant \<Rightarrow> 'b plant" where
  "start_in_graph now rid t p =
     (case map_of (pn_graphs p) rid of
        None \<Rightarrow> p | Some g \<Rightarrow> p\<lparr>pn_graphs := dput rid (Workflow_Graph.mark_task_started now t g) (pn_graphs p)\<rparr>)"

definition handle_static_start :: "time \<Rightarrow> string \<Rightarrow> string \<Rightarrow> string \<Rightarrow> message \<Rightarrow> 'b plant \<Rightarrow> 'b plant \<times> handled" where
  "handle_static_start now ts rid t d p =
     record_and_tell (static_task_started now t d) now ts rid (message_event Start_task d) d (start_in_graph now rid t p)"

definition handle_static_pending :: "time \<Rightarrow> string \<Rightarrow> string \<Rightarrow> string \<Rightarrow> message \<Rightarrow> 'b plant \<Rightarrow> 'b plant \<times> handled" where
  "handle_static_pending now ts rid t d =
     record_and_tell (mark_task_pending now t (vget d ''pending_reason'') (vget d ''schedule_decision'')) now ts rid
       [(''type'', VStr ''task_pending''), (''data'', VDict d)] d"

definition handle_static_retry ::
    "(string \<Rightarrow> pyval \<Rightarrow> message \<Rightarrow> pyval) \<Rightarrow> time \<Rightarrow> string \<Rightarrow> string \<Rightarrow> string \<Rightarrow> message \<Rightarrow> 'b plant \<Rightarrow> 'b plant \<times> handled" where
  "handle_static_retry obs now ts rid t d =
     (let err0 = vget d ''error''; ob = obs ''failed'' err0 d; err = error_with_observation ob err0;
          d1 = dput ''resource_observation'' ob d; d2 = (if is_dict err0 then dput ''error'' err d1 else d1)
      in record_and_tell (mark_task_retry now t err (vget d2 ''attempt'') (vget d2 ''fault_tolerance'') d2) now ts rid (message_event Task_retry d2) d2)"

definition handle_static_exception ::
    "(string \<Rightarrow> pyval \<Rightarrow> message \<Rightarrow> pyval) \<Rightarrow> time \<Rightarrow> string \<Rightarrow> string \<Rightarrow> string \<Rightarrow> message \<Rightarrow> 'b plant \<Rightarrow> 'b plant \<times> handled" where
  "handle_static_exception obs now ts rid t d =
     (let err0 = vgetd d ''error'' (vget d ''result''); ob = obs ''failed'' err0 d; err = error_with_observation ob err0;
          d1 = (if is_dict err0 then dput ''result'' err (dput ''error'' err d) else d); d2 = dput ''resource_observation'' ob d1
      in record_and_tell (mark_task_failed now t err VNone (vget d2 ''fault_tolerance'') (vget d2 ''attempt'') (vget d2 ''dispatch_id'') (vget d2 ''lease_id''))
           now ts rid (message_event Task_exception d2) d2)"

definition handle_static_message ::
    "(string \<Rightarrow> pyval \<Rightarrow> message \<Rightarrow> pyval) \<Rightarrow> time \<Rightarrow> string \<Rightarrow> string \<Rightarrow> (string \<Rightarrow> unit result) \<Rightarrow> event \<Rightarrow> msg_kind \<Rightarrow> message
       \<Rightarrow> 'b plant \<Rightarrow> 'b plant \<times> handled" where
  "handle_static_message obs now ts strategy payload fc m d p =
     (case (vget d ''workflow_id'', vget d ''task_id'') of
        (VStr rid, VStr t) \<Rightarrow>
          if m = Finish_task then handle_static_finish obs now ts strategy payload fc rid t d p
          else if run_over rid p then (p, Given_up)
          else (case m of
              Start_task \<Rightarrow> handle_static_start now ts rid t d p
            | Task_retry \<Rightarrow> handle_static_retry obs now ts rid t d p
            | _ \<Rightarrow> handle_static_exception obs now ts rid t d p)
      | _ \<Rightarrow> (p, Unrecorded (KeyError ''workflow_id'')))"

text \<open>The static branch of \<open>_resume_terminal_finish_continuation\<close>.\<close>

definition resume_static_finish :: "time \<Rightarrow> string \<Rightarrow> string \<Rightarrow> (string \<Rightarrow> unit result) \<Rightarrow> message \<Rightarrow> ('b plant, unit) action" where
  "resume_static_finish now ts strategy payload d p =
     (case (vget d ''workflow_id'', vget d ''task_id'') of
        (VStr rid, VStr t) \<Rightarrow>
          (case map_of (ds_runs (pn_desk p)) rid of
             None \<Rightarrow> (p, Inr ())
           | Some e \<Rightarrow>
               (case continuation_of (se_run e) t of
                  Inl _ \<Rightarrow> (p, Inr ())
                | Inr c \<Rightarrow>
                    if vget c ''attempt_identity'' = finish_identity d then continue_static_finish now ts strategy payload rid t p else (p, Inr ())))
      | _ \<Rightarrow> (p, Inr ()))"

section \<open>The monitor\<close>

text \<open>One round of \<open>monitor_coroutine\<close> with a message about a task of a static run.\<close>

definition submission_of :: "message \<Rightarrow> 'b plant \<Rightarrow> bool" where
  "submission_of d p =
     (case vget d ''workflow_id'' of
        VStr rid \<Rightarrow> (case map_of (ds_runs (pn_desk p)) rid of Some e \<Rightarrow> requires_cleanup e | None \<Rightarrow> False) | _ \<Rightarrow> False)"

definition undo :: "static_entry transaction \<Rightarrow> message \<Rightarrow> 'b plant \<Rightarrow> 'b plant" where
  "undo tx d p = put_core (fst (rollback_transaction tx (attempt_core p, d))) p"

definition static_round ::
    "(string \<Rightarrow> pyval \<Rightarrow> message \<Rightarrow> pyval) \<Rightarrow> time \<Rightarrow> string \<Rightarrow> string \<Rightarrow> (string \<Rightarrow> unit result) \<Rightarrow> event \<Rightarrow> msg_kind \<Rightarrow> message
       \<Rightarrow> 'b plant \<Rightarrow> 'b plant \<times> next_round" where
  "static_round obs now ts strategy payload fc m d p =
     (if submission_of d p then (p, Next_message)
      else
        (case begin_transaction d (attempt_core p) of
           Inl e \<Rightarrow> (p, round_after e)
         | Inr tx \<Rightarrow>
             (case accept_attempt m d (attempt_core p) of
                Inl (ArtifactError x) \<Rightarrow> (undo tx d p, Report_failure (ArtifactError x))
              | Inl e \<Rightarrow> (undo tx d p, round_after e)
              | Inr (c, False) \<Rightarrow>
                  if m = Finish_task
                  then (case resume_static_finish now ts strategy payload d (put_core c p) of
                          (p1, Inl e) \<Rightarrow> (p1, round_after e) | (p1, Inr _) \<Rightarrow> (p1, Next_message))
                  else (put_core c p, Next_message)
              | Inr (c, True) \<Rightarrow>
                  (case handle_static_message obs now ts strategy payload fc m
                          (if m = Task_retry \<or> m = Task_exception then ddel ''file_manifest'' d else d) (put_core c p) of
                     (p1, Recorded (Inl e)) \<Rightarrow> (p1, round_after e)
                   | (p1, Recorded (Inr _)) \<Rightarrow> (p1, Next_message)
                   | (p1, Given_up) \<Rightarrow> (undo tx d p1, Next_message)
                   | (p1, Unrecorded e) \<Rightarrow> (undo tx d p1, round_after e)))))"

end
