(* ===== verification/Static_Delivery.thy ===== *)
theory Static_Delivery
  imports Static_Events Submission_Safety
begin

text \<open>
  However often the end of a static task is handled again after a failed write or send, the tasks it made ready are sent to
  the scheduler once each, in order, and the run is cleared at most once.
\<close>

section \<open>What the steps may change\<close>

definition sent_tasks :: "string \<Rightarrow> order list \<Rightarrow> string list" where
  "sent_tasks rid os = List.map_filter (\<lambda>x. case x of Run_task r i \<Rightarrow> if r = rid then Some i else None | _ \<Rightarrow> None) os"

definition clears :: "string \<Rightarrow> order list \<Rightarrow> nat" where
  "clears rid os = length (filter (\<lambda>x. x = Clear_workflow rid) os)"

definition tracked_fields :: "string list" where
  "tracked_fields = [''workflow_advanced'', ''ready_task_ids'', ''dispatch'', ''workflow_cleared'', ''status'']"

text \<open>The fields of the continuation that decide what is sent, what was sent, and the graph.\<close>

definition run_fields :: "string \<Rightarrow> srun \<Rightarrow> pyval list option" where
  "run_fields t r = (case map_of (scontinuations r) t of Some (VDict c) \<Rightarrow> Some (map (vget c) tracked_fields) | _ \<Rightarrow> None)"

definition fields_of :: "string \<Rightarrow> string \<Rightarrow> 'b plant \<Rightarrow> pyval list option" where
  "fields_of rid t p = (case map_of (ds_runs (pn_desk p)) rid of None \<Rightarrow> None | Some e \<Rightarrow> run_fields t (se_run e))"

definition plant_view :: "string \<Rightarrow> string \<Rightarrow> 'b plant \<Rightarrow> pyval list option \<times> order list \<times> workflow option" where
  "plant_view rid t p = (fields_of rid t p, ds_orders (pn_desk p), map_of (pn_graphs p) rid)"

definition mild :: "string \<Rightarrow> string \<Rightarrow> ('b plant, 'a) action \<Rightarrow> bool" where
  "mild rid t a = (\<forall>p. plant_view rid t (fst (a p)) = plant_view rid t p)"

named_theorems mild_rules

lemma mildI: "(\<And>p. plant_view rid t (fst (a p)) = plant_view rid t p) \<Longrightarrow> mild rid t a"
  by (simp add: mild_def)

lemma mild_then [mild_rules]: "mild rid t m \<Longrightarrow> (\<And>x. mild rid t (f x)) \<Longrightarrow> mild rid t (act_then m f)"
proof (rule mildI)
  fix p assume a: "mild rid t m" "\<And>x. mild rid t (f x)"
  obtain p1 r where m: "m p = (p1, r)" by fastforce
  have "plant_view rid t p1 = plant_view rid t p" using a(1) m unfolding mild_def by (metis fst_conv)
  then show "plant_view rid t (fst (act_then m f p)) = plant_view rid t p"
    using a(2) m by (cases r) (simp_all add: act_then_def mild_def)
qed

lemma mild_return [mild_rules]: "mild rid t (act_return x)"
  by (rule mildI) (simp add: act_return_def)

lemma mild_raise [mild_rules]: "mild rid t (act_raise x)"
  by (rule mildI) (simp add: act_raise_def)

lemma mild_result [mild_rules]: "mild rid t (act_result x)"
  by (rule mildI) (simp add: act_result_def)

lemma mild_keeping: "mild rid t a \<Longrightarrow> (\<And>p p'. plant_view rid t p' = plant_view rid t p \<Longrightarrow> P p \<Longrightarrow> P p') \<Longrightarrow> keeping P a"
  by (rule keepingI) (auto simp: mild_def)

lemma mild_desk:
  "(\<And>w. ds_runs (fst (a w)) = ds_runs w \<and> ds_orders (fst (a w)) = ds_orders w) \<Longrightarrow> mild rid t (at_desk a)"
proof (rule mildI)
  fix p :: "'a plant" assume a: "\<And>w. ds_runs (fst (a w)) = ds_runs w \<and> ds_orders (fst (a w)) = ds_orders w"
  obtain w r where w: "a (pn_desk p) = (w, r)" by fastforce
  show "plant_view rid t (fst (at_desk a p)) = plant_view rid t p"
    using a [of "pn_desk p"] w by (simp add: at_desk_def plant_view_def fields_of_def)
qed

lemma persist_frame: "ds_runs (fst (persist_entry rid w)) = ds_runs w \<and> ds_orders (fst (persist_entry rid w)) = ds_orders w"
  by (auto simp: persist_entry_def act_then_def act_result_def save_snapshot_def desk_write_def change_store_def
      split: option.split sum.split list.split prod.split)

lemma mild_keep [mild_rules]: "mild rid t (keep_srun r)"
  unfolding keep_srun_def by (rule mild_desk) (rule persist_frame)

lemma mild_write_once [mild_rules]: "mild rid t (write_once r ev)"
  unfolding write_once_def
  by (rule mild_desk) (auto simp: act_then_def desk_write_def change_store_def split: sum.split list.split prod.split)

lemma mild_tell [mild_rules]: "mild rid t (tell r ev)"
  by (rule mildI) (simp add: tell_def act_modify_def plant_view_def fields_of_def)

lemma mild_read [mild_rules]: "mild rid t (get_srun r)" "mild rid t (get_continuation r u)" "mild rid t (require_task r i)"
  "mild rid t (submission_open r)" "mild rid t (require_graph r)"
  by (auto intro!: mildI simp: get_srun_def get_continuation_def require_task_def submission_open_def require_graph_def act_then_def act_result_def
      split: option.split sum.split)

lemma edit_srun_view:
  "fields_of rid t (fst (edit_srun r f p)) =
     (if r = rid
      then (case map_of (ds_runs (pn_desk p)) rid of None \<Rightarrow> None | Some e \<Rightarrow> run_fields t (f (se_run e)))
      else fields_of rid t p)"
  "ds_orders (pn_desk (fst (edit_srun r f p))) = ds_orders (pn_desk p)"
  "pn_graphs (fst (edit_srun r f p)) = pn_graphs p"
  by (auto simp: edit_srun_def at_desk_def change_entry_def act_modify_def fields_of_def split: option.split)

lemma mild_edit_srun:
  assumes "\<And>x. run_fields t (f x) = run_fields t x"
  shows "mild rid t (edit_srun r f)"
proof (rule mildI)
  fix p :: "'a plant"
  have "fields_of rid t (fst (edit_srun r f p)) = fields_of rid t p"
    unfolding edit_srun_view(1) assms by (simp add: fields_of_def)
  then show "plant_view rid t (fst (edit_srun r f p)) = plant_view rid t p" by (simp add: plant_view_def edit_srun_view(2,3))
qed

lemma mild_edit_continuation: "k \<notin> set tracked_fields \<Longrightarrow> mild rid t (edit_continuation r u (dput k v))"
  unfolding edit_continuation_def
  by (rule mild_edit_srun) (auto simp: run_fields_def split: option.split pyval.split)

lemma mild_find [mild_rules]: "mild rid t (find_finish r u)"
  unfolding find_finish_def
  by (auto intro!: mild_rules mild_edit_continuation simp: tracked_fields_def split: pyval.split option.split)

lemma mild_tell_finish [mild_rules]: "mild rid t (tell_finish r u ev)"
  unfolding tell_finish_def by (auto intro!: mild_rules mild_edit_continuation simp: tracked_fields_def)

lemma mild_tell_end [mild_rules]: "mild rid t (tell_end r u ev)"
  unfolding tell_end_def by (auto intro!: mild_rules mild_edit_continuation simp: tracked_fields_def)

section \<open>How far a continuation has come\<close>

text \<open>The graph is advanced and the first \<open>k\<close> of the ready tasks \<open>R\<close> were sent; \<open>O0\<close> and \<open>N0\<close> is what was sent before.\<close>

definition sending :: "string list \<Rightarrow> string list \<Rightarrow> nat \<Rightarrow> string \<Rightarrow> string \<Rightarrow> nat \<Rightarrow> 'b plant \<Rightarrow> bool" where
  "sending R O0 N0 rid t k p =
     (\<exists>d clr sts. fields_of rid t p = Some [VBool True, VList (map VStr R), VDict d, clr, sts] \<and> k \<le> length R
       \<and> sent_tasks rid (ds_orders (pn_desk p)) = O0 @ take k R \<and> (\<forall>i < length R. (vget d (R ! i) = VStr ''sent'') = (i < k))
       \<and> clears rid (ds_orders (pn_desk p)) = N0 + (if clr = VStr ''sent'' then 1 else 0)
       \<and> (sts = VStr ''completed'' \<longrightarrow> k = length R))"

definition to_advance :: "string list \<Rightarrow> string list \<Rightarrow> nat \<Rightarrow> string \<Rightarrow> string \<Rightarrow> string \<Rightarrow> 'b plant \<Rightarrow> bool" where
  "to_advance R O0 N0 strategy rid t p =
     (\<exists>adv rdy dsp clr sts g. fields_of rid t p = Some [adv, rdy, dsp, clr, sts] \<and> \<not> truthy adv \<and> clr \<noteq> VStr ''sent'' \<and> sts \<noteq> VStr ''completed''
       \<and> sent_tasks rid (ds_orders (pn_desk p)) = O0 \<and> clears rid (ds_orders (pn_desk p)) = N0
       \<and> map_of (pn_graphs p) rid = Some g \<and> (\<forall>now. \<exists>g'. finish_task now t strategy g = Inr (g', R)))"

lemma sending_view: "plant_view rid t p' = plant_view rid t p \<Longrightarrow> sending R O0 N0 rid t k p \<Longrightarrow> sending R O0 N0 rid t k p'"
  by (simp add: sending_def plant_view_def)

lemma to_advance_view:
  "plant_view rid t p' = plant_view rid t p \<Longrightarrow> to_advance R O0 N0 s rid t p \<Longrightarrow> to_advance R O0 N0 s rid t p'"
  by (simp add: to_advance_def plant_view_def)

lemma sent_tasks_append [simp]: "sent_tasks rid (xs @ ys) = sent_tasks rid xs @ sent_tasks rid ys"
  unfolding sent_tasks_def by (induction xs) (simp_all add: List.map_filter_simps split: option.split)

lemma clears_append [simp]: "clears rid (xs @ ys) = clears rid xs + clears rid ys"
  by (simp add: clears_def)

lemma order_effect [simp]:
  "sent_tasks rid [Run_task rid i] = [i]" "clears rid [Run_task rid i] = 0"
  "sent_tasks rid [Clear_workflow rid] = []" "clears rid [Clear_workflow rid] = 1"
  by (simp_all add: sent_tasks_def clears_def List.map_filter_simps)

lemma mild_sending: "mild rid t a \<Longrightarrow> keeping (sending R O0 N0 rid t k) a"
  by (rule mild_keeping) (auto intro: sending_view)

lemma mild_sending_some: "mild rid t a \<Longrightarrow> keeping (\<lambda>p. \<exists>k. sending R O0 N0 rid t k p) a"
  by (rule mild_keeping) (auto intro: sending_view)

lemma mild_to_advance: "mild rid t a \<Longrightarrow> keeping (to_advance R O0 N0 s rid t) a"
  by (rule mild_keeping) (auto intro: to_advance_view)

text \<open>What an edit of the continuation does to its fields.\<close>

lemma edit_continuation_fields:
  assumes "fields_of rid t p = Some (map (vget c) tracked_fields)" and "get_continuation rid t p = (p, Inr c)"
  shows "fields_of rid t (fst (edit_continuation rid t f p)) = Some (map (vget (f c)) tracked_fields)"
    "ds_orders (pn_desk (fst (edit_continuation rid t f p))) = ds_orders (pn_desk p)"
    "snd (edit_continuation rid t f p) = Inr ()"
proof -
  obtain e where e: "map_of (ds_runs (pn_desk p)) rid = Some e" "map_of (scontinuations (se_run e)) t = Some (VDict c)"
    using assms(2)
    by (auto simp: get_continuation_def get_srun_def act_then_def act_result_def continuation_of_def
        split: option.splits sum.splits pyval.splits)
  show "fields_of rid t (fst (edit_continuation rid t f p)) = Some (map (vget (f c)) tracked_fields)"
    using e by (simp add: edit_continuation_def edit_srun_view run_fields_def)
  show "ds_orders (pn_desk (fst (edit_continuation rid t f p))) = ds_orders (pn_desk p)"
    by (simp add: edit_continuation_def edit_srun_view)
  show "snd (edit_continuation rid t f p) = Inr ()"
    by (simp add: edit_continuation_def edit_srun_def at_desk_def change_entry_def act_modify_def)
qed

lemma get_continuation_fields:
  assumes "fields_of rid t p = Some fs"
  obtains c where "get_continuation rid t p = (p, Inr c)" "fs = map (vget c) tracked_fields"
  using assms
  by (auto simp: fields_of_def run_fields_def get_continuation_def get_srun_def act_then_def act_result_def continuation_of_def
      split: option.splits pyval.splits)

lemma desk_send_cases:
  obtains (ok) "at_desk (desk_send x) p = (p\<lparr>pn_desk := (pn_desk p)\<lparr>ds_links := tl (ds_links (pn_desk p)), ds_orders := ds_orders (pn_desk p) @ [x]\<rparr>\<rparr>, Inr ())"
  | (fail) "at_desk (desk_send x) p = (p\<lparr>pn_desk := (pn_desk p)\<lparr>ds_links := tl (ds_links (pn_desk p))\<rparr>\<rparr>, Inl (RuntimeError ''scheduler unavailable''))"
  by (cases "ds_links (pn_desk p)"; cases "hd (ds_links (pn_desk p))") (auto simp: at_desk_def desk_send_def)

section \<open>The steps\<close>

lemma note_sent_fields:
  "map (vget (note_sent i c)) tracked_fields =
     [vget c ''workflow_advanced'', vget c ''ready_task_ids'', VDict (dput i (VStr ''sent'') (dict_or_empty (vget c ''dispatch''))),
      vget c ''workflow_cleared'', vget c ''status'']"
  by (simp add: note_sent_def tracked_fields_def)

lemma send_and_note:
  assumes "distinct R" and "k < length R"
  shows "triple (sending R O0 N0 rid t k)
     (act_then (at_desk (desk_send (Run_task rid (R ! k)))) (\<lambda>_. act_then (edit_continuation rid t (note_sent (R ! k))) (\<lambda>_. keep_srun rid)))
     (\<lambda>_. sending R O0 N0 rid t (Suc k)) (\<lambda>p. \<exists>k. sending R O0 N0 rid t k p)"
proof (rule tripleI)
  fix p :: "'a plant" assume s: "sending R O0 N0 rid t k p"
  let ?Q = "\<lambda>q. case q of (p', Inr _) \<Rightarrow> sending R O0 N0 rid t (Suc k) p' | (p', Inl _) \<Rightarrow> \<exists>k. sending R O0 N0 rid t k p'"
  let ?a = "act_then (at_desk (desk_send (Run_task rid (R ! k)))) (\<lambda>_. act_then (edit_continuation rid t (note_sent (R ! k))) (\<lambda>_. keep_srun rid))"
  obtain d clr sts where f: "fields_of rid t p = Some [VBool True, VList (map VStr R), VDict d, clr, sts]"
    "sent_tasks rid (ds_orders (pn_desk p)) = O0 @ take k R" "\<And>i. i < length R \<Longrightarrow> (vget d (R ! i) = VStr ''sent'') = (i < k)"
    "clears rid (ds_orders (pn_desk p)) = N0 + (if clr = VStr ''sent'' then 1 else 0)" "sts = VStr ''completed'' \<longrightarrow> k = length R"
    using s by (auto simp: sending_def)
  show "?Q (?a p)"
  proof (cases rule: desk_send_cases [of "Run_task rid (R ! k)" p])
    case fail
    have "sending R O0 N0 rid t k (p\<lparr>pn_desk := (pn_desk p)\<lparr>ds_links := tl (ds_links (pn_desk p))\<rparr>\<rparr>)"
      by (rule sending_view [OF _ s]) (simp add: plant_view_def fields_of_def)
    with fail show ?thesis by (auto simp: act_then_def)
  next
    case ok
    define p1 where "p1 = p\<lparr>pn_desk := (pn_desk p)\<lparr>ds_links := tl (ds_links (pn_desk p)), ds_orders := ds_orders (pn_desk p) @ [Run_task rid (R ! k)]\<rparr>\<rparr>"
    have f1: "fields_of rid t p1 = Some [VBool True, VList (map VStr R), VDict d, clr, sts]" using f(1) by (simp add: p1_def fields_of_def)
    obtain c where c: "get_continuation rid t p1 = (p1, Inr c)" "[VBool True, VList (map VStr R), VDict d, clr, sts] = map (vget c) tracked_fields"
      by (rule get_continuation_fields [OF f1])
    obtain p2 where p2: "edit_continuation rid t (note_sent (R ! k)) p1 = (p2, Inr ())"
      using edit_continuation_fields(3) [OF f1 [unfolded c(2)] c(1), of "note_sent (R ! k)"] by (metis prod.collapse)
    have cs: "vget c ''workflow_advanced'' = VBool True" "vget c ''ready_task_ids'' = VList (map VStr R)" "vget c ''dispatch'' = VDict d"
      "vget c ''workflow_cleared'' = clr" "vget c ''status'' = sts"
      using c(2) by (simp_all add: tracked_fields_def)
    have "fields_of rid t p2 = Some [VBool True, VList (map VStr R), VDict (dput (R ! k) (VStr ''sent'') d), clr, sts]"
      "ds_orders (pn_desk p2) = ds_orders (pn_desk p) @ [Run_task rid (R ! k)]"
      using edit_continuation_fields(1,2) [OF f1 [unfolded c(2)] c(1), of "note_sent (R ! k)"] p2
      by (simp_all add: note_sent_fields cs dict_or_empty_def p1_def)
    moreover have "(vget (dput (R ! k) (VStr ''sent'') d) (R ! i) = VStr ''sent'') = (i < Suc k)" if "i < length R" for i
      using that assms f(3) [OF that] by (auto simp: nth_eq_iff_index_eq less_Suc_eq)
    ultimately have s2: "sending R O0 N0 rid t (Suc k) p2"
      using f(2,4,5) assms(2) by (simp add: sending_def take_Suc_conv_app_nth)
    have "?Q (keep_srun rid p2)"
      using tripleD [OF keeping_triple [OF mild_sending [OF mild_keep]] s2] by (cases "keep_srun rid p2") (auto split: sum.splits)
    with ok p2 show ?thesis by (simp add: act_then_def p1_def)
  qed
qed

lemma queue_fields: "scontinuations (mark_task_queued now i r) = scontinuations r"
  by (simp add: mark_task_queued_def on_node_def split: option.split)

lemma mild_queue: "mild rid t (edit_srun r (mark_task_queued now i))"
  by (rule mild_edit_srun) (simp add: run_fields_def queue_fields)

text \<open>The task in position \<open>j\<close> is sent unless it was.\<close>

lemma send_ready_step:
  assumes "distinct R" and "j < length R"
  shows "triple (\<lambda>p. \<exists>k \<ge> j. sending R O0 N0 rid t k p) (send_ready now payload rid t (R ! j))
     (\<lambda>_ p. \<exists>k \<ge> Suc j. sending R O0 N0 rid t k p) (\<lambda>p. \<exists>k. sending R O0 N0 rid t k p)"
proof (rule tripleI)
  fix p :: "'a plant" assume "\<exists>k \<ge> j. sending R O0 N0 rid t k p"
  then obtain k where k: "j \<le> k" "sending R O0 N0 rid t k p" by blast
  let ?Q = "\<lambda>q. case q of (p', Inr _) \<Rightarrow> \<exists>k \<ge> Suc j. sending R O0 N0 rid t k p' | (p', Inl _) \<Rightarrow> \<exists>k. sending R O0 N0 rid t k p'"
  obtain d clr sts where f: "fields_of rid t p = Some [VBool True, VList (map VStr R), VDict d, clr, sts]"
    "(vget d (R ! j) = VStr ''sent'') = (j < k)"
    using k(2) assms(2) by (auto simp: sending_def)
  obtain c where c: "get_continuation rid t p = (p, Inr c)" "[VBool True, VList (map VStr R), VDict d, clr, sts] = map (vget c) tracked_fields"
    by (rule get_continuation_fields [OF f(1)])
  have d: "vget c ''dispatch'' = VDict d" using c(2) by (simp add: tracked_fields_def)
  show "?Q (send_ready now payload rid t (R ! j) p)"
  proof (cases "j < k")
    case True
    with k(2) c(1) d f(2) show ?thesis by (auto simp: send_ready_def act_then_def act_return_def dict_or_empty_def intro!: exI [of _ k])
  next
    case False
    then have "j = k" using k(1) by simp
    let ?b = "act_then (at_desk (desk_send (Run_task rid (R ! k)))) (\<lambda>_. act_then (edit_continuation rid t (note_sent (R ! k))) (\<lambda>_. keep_srun rid))"
    have m: "triple (sending R O0 N0 rid t k) a (\<lambda>_. sending R O0 N0 rid t k) (\<lambda>p. \<exists>k. sending R O0 N0 rid t k p)" if "mild rid t a" for a :: "('a plant, unit) action"
      by (rule triple_conseq [OF keeping_triple [OF mild_sending [OF that]]]) auto
    have "triple (sending R O0 N0 rid t k :: 'a plant \<Rightarrow> bool)
       (act_then (require_task rid (R ! k)) (\<lambda>_. act_then (edit_srun rid (mark_task_queued now (R ! k))) (\<lambda>_. act_then (keep_srun rid) (\<lambda>_.
          act_then (act_result (payload (R ! k))) (\<lambda>_. ?b)))))
       (\<lambda>_. sending R O0 N0 rid t (Suc k)) (\<lambda>p. \<exists>k. sending R O0 N0 rid t k p)"
      by (rule triple_then [OF m [OF mild_read(3)]], rule triple_then [OF m [OF mild_queue]], rule triple_then [OF m [OF mild_keep]],
          rule triple_then [OF m [OF mild_result]], rule send_and_note) (use assms \<open>j = k\<close> in simp_all)
    from tripleD [OF this k(2)] False \<open>j = k\<close> c(1) d f(2) show ?thesis
      by (auto simp: send_ready_def act_then_def [of "get_continuation rid t"] dict_or_empty_def split: prod.split sum.splits)
  qed
qed

lemma send_all_step:
  assumes "distinct R"
  shows "j \<le> length R \<Longrightarrow> triple (\<lambda>p :: 'a plant. \<exists>k \<ge> j. sending R O0 N0 rid t k p) (send_all_ready now payload rid t (drop j R))
     (\<lambda>_. sending R O0 N0 rid t (length R)) (\<lambda>p. \<exists>k. sending R O0 N0 rid t k p)"
proof (induction "length R - j" arbitrary: j)
  case 0
  then have "j = length R" by simp
  moreover have "k = length R" if "k \<ge> length R" "sending R O0 N0 rid t k p" for k and p :: "'a plant"
    using that by (auto simp: sending_def)
  ultimately show ?case by (auto simp: triple_def act_return_def)
next
  case (Suc n)
  then have j: "j < length R" by simp
  then have "drop j R = R ! j # drop (Suc j) R" by (simp add: Cons_nth_drop_Suc)
  moreover have "triple (\<lambda>p :: 'a plant. \<exists>k \<ge> Suc j. sending R O0 N0 rid t k p) (send_all_ready now payload rid t (drop (Suc j) R))
     (\<lambda>_. sending R O0 N0 rid t (length R)) (\<lambda>p. \<exists>k. sending R O0 N0 rid t k p)"
    by (rule Suc(1)) (use Suc(2) j in auto)
  ultimately show ?case using triple_then [OF send_ready_step [OF assms j]] by simp
qed

lemma vget_pending: "vget (map (\<lambda>i. (i, v)) R) x = (if x \<in> set R then v else VNone)"
  by (induction R) auto

lemma advanced_fields:
  "map (vget (advanced R c)) tracked_fields =
     [VBool True, VList (map VStr R), VDict (map (\<lambda>i. (i, VStr ''pending'')) R), vget c ''workflow_cleared'', vget c ''status'']"
  by (simp add: advanced_def tracked_fields_def)

definition on_track :: "string list \<Rightarrow> string list \<Rightarrow> nat \<Rightarrow> string \<Rightarrow> string \<Rightarrow> string \<Rightarrow> 'b plant \<Rightarrow> bool" where
  "on_track R O0 N0 s rid t p = (to_advance R O0 N0 s rid t p \<or> (\<exists>k. sending R O0 N0 rid t k p))"

lemma mild_on_track: "mild rid t a \<Longrightarrow> keeping (on_track R O0 N0 s rid t) a"
  by (rule mild_keeping) (auto simp: on_track_def intro: sending_view to_advance_view)

lemma advance_fresh:
  fixes p :: "'b plant"
  assumes "to_advance R O0 N0 s rid t p"
  shows "\<exists>p1 r. advance now s rid t p = (p1, r) \<and> sending R O0 N0 rid t 0 p1"
proof -
  obtain adv rdy dsp clr sts g where f: "fields_of rid t p = Some [adv, rdy, dsp, clr, sts]" "\<not> truthy adv" "clr \<noteq> VStr ''sent''" "sts \<noteq> VStr ''completed''"
    "sent_tasks rid (ds_orders (pn_desk p)) = O0" "clears rid (ds_orders (pn_desk p)) = N0" "map_of (pn_graphs p) rid = Some g"
    "\<And>now. \<exists>g'. finish_task now t s g = Inr (g', R)"
    using assms unfolding to_advance_def by blast
  obtain g' where g': "finish_task now t s g = Inr (g', R)" using f(8) by blast
  define p1 where "p1 = p\<lparr>pn_graphs := dput rid g' (pn_graphs p)\<rparr>"
  have f1: "fields_of rid t p1 = Some [adv, rdy, dsp, clr, sts]" using f(1) by (simp add: p1_def fields_of_def)
  obtain c where c: "get_continuation rid t p = (p, Inr c)" "[adv, rdy, dsp, clr, sts] = map (vget c) tracked_fields"
    by (rule get_continuation_fields [OF f(1)])
  obtain c1 where c1: "get_continuation rid t p1 = (p1, Inr c1)" "[adv, rdy, dsp, clr, sts] = map (vget c1) tracked_fields"
    by (rule get_continuation_fields [OF f1])
  have cs: "vget c ''workflow_advanced'' = adv" "vget c1 ''workflow_cleared'' = clr" "vget c1 ''status'' = sts"
    using c(2) c1(2) by (simp_all add: tracked_fields_def)
  obtain p2 where p2: "edit_continuation rid t (advanced R) p1 = (p2, Inr ())"
    using edit_continuation_fields(3) [OF f1 [unfolded c1(2)] c1(1), of "advanced R"] by (metis prod.collapse)
  have "fields_of rid t p2 = Some [VBool True, VList (map VStr R), VDict (map (\<lambda>i. (i, VStr ''pending'')) R), clr, sts]"
    "ds_orders (pn_desk p2) = ds_orders (pn_desk p)"
    using edit_continuation_fields(1,2) [OF f1 [unfolded c1(2)] c1(1), of "advanced R"] p2
    by (simp_all add: advanced_fields cs p1_def)
  then have s2: "sending R O0 N0 rid t 0 p2"
    using f(3-6) by (auto simp: sending_def vget_pending)
  have "advance now s rid t p = keep_srun rid p2"
    using c(1) f(2,7) g' p2 by (simp add: advance_def act_then_def cs finish_in_graph_def p1_def)
  moreover obtain p3 z where "keep_srun rid p2 = (p3, z)" by fastforce
  ultimately show ?thesis using keeping_D [OF mild_sending [OF mild_keep [of rid t rid]] s2] by simp
qed

lemma advance_step:
  "triple (on_track R O0 N0 s rid t) (advance now s rid t) (\<lambda>_ p. \<exists>k. sending R O0 N0 rid t k p) (on_track R O0 N0 s rid t)"
proof (rule tripleI)
  fix p :: "'a plant" assume "on_track R O0 N0 s rid t p"
  then consider "to_advance R O0 N0 s rid t p" | k where "sending R O0 N0 rid t k p" by (auto simp: on_track_def)
  then show "case advance now s rid t p of (p', Inr _) \<Rightarrow> \<exists>k. sending R O0 N0 rid t k p' | (p', Inl _) \<Rightarrow> on_track R O0 N0 s rid t p'"
  proof cases
    case 1
    from advance_fresh [OF this, of now] show ?thesis by (auto simp: on_track_def split: sum.split)
  next
    case 2
    then obtain d clr sts where f: "fields_of rid t p = Some [VBool True, VList (map VStr R), VDict d, clr, sts]" by (auto simp: sending_def)
    obtain c where c: "get_continuation rid t p = (p, Inr c)" "[VBool True, VList (map VStr R), VDict d, clr, sts] = map (vget c) tracked_fields"
      by (rule get_continuation_fields [OF f])
    then have "vget c ''workflow_advanced'' = VBool True" by (simp add: tracked_fields_def)
    with c(1) 2 show ?thesis by (auto simp: advance_def act_then_def act_return_def)
  qed
qed

text \<open>The end of the run.\<close>

lemma mild_workflow_event [mild_rules]: "mild rid t (workflow_event now ts r t)"
proof (rule mildI)
  fix p :: "'a plant"
  obtain e where e: "get_srun r p = (p, e)" by (simp add: get_srun_def)
  show "plant_view rid t (fst (workflow_event now ts r t p)) = plant_view rid t p"
  proof (cases e)
    case (Inr x)
    obtain y ev where y: "static_append_event now ts (workflow_finish_event x) x = (y, ev)" by fastforce
    have sc: "scontinuations y = scontinuations x" using y by (auto simp: static_append_event_def Let_def)
    obtain en where en: "map_of (ds_runs (pn_desk p)) r = Some en" "se_run en = x"
      using e Inr by (auto simp: get_srun_def split: option.splits)
    have v: "plant_view rid t (fst (edit_srun r (\<lambda>_. y) p)) = plant_view rid t p"
    proof -
      have "fields_of rid t (fst (edit_srun r (\<lambda>_. y) p)) = fields_of rid t p"
        using en sc unfolding edit_srun_view(1) by (cases "r = rid") (simp_all add: fields_of_def run_fields_def)
      then show ?thesis by (simp add: plant_view_def edit_srun_view(2,3))
    qed
    have m2: "mild rid t (act_then (edit_continuation r t (dput ''workflow_event'' (VDict ev))) (\<lambda>_. act_return ev) :: ('a plant, event) action)"
      by (intro mild_rules mild_edit_continuation) (simp add: tracked_fields_def)
    obtain p1 z where p1: "edit_srun r (\<lambda>_. y) p = (p1, z)" by fastforce
    have "plant_view rid t (fst (act_then (edit_srun r (\<lambda>_. y)) (\<lambda>_. act_then (edit_continuation r t (dput ''workflow_event'' (VDict ev))) (\<lambda>_. act_return ev)) p))
        = plant_view rid t p"
      using v m2 p1 by (cases z) (simp_all add: act_then_def [of "edit_srun r (\<lambda>_. y)"] mild_def)
    moreover have "get_continuation r t p = (p, continuation_of x t)"
      using e Inr by (simp add: get_continuation_def act_then_def act_result_def)
    ultimately show ?thesis
      using e Inr y
      by (auto simp: workflow_event_def act_then_def [of "get_srun r"] act_then_def [of "get_continuation r t"] act_return_def
          split: sum.split pyval.split)
  qed (simp add: workflow_event_def act_then_def e)
qed

lemma clear_step: "keeping (sending R O0 N0 rid t k) (clear_run rid t)"
proof (rule keepingI)
  fix p :: "'a plant" assume s: "sending R O0 N0 rid t k p"
  obtain d clr sts where f: "fields_of rid t p = Some [VBool True, VList (map VStr R), VDict d, clr, sts]" "k \<le> length R"
    "sent_tasks rid (ds_orders (pn_desk p)) = O0 @ take k R" "\<And>i. i < length R \<Longrightarrow> (vget d (R ! i) = VStr ''sent'') = (i < k)"
    "clears rid (ds_orders (pn_desk p)) = N0 + (if clr = VStr ''sent'' then 1 else 0)" "sts = VStr ''completed'' \<longrightarrow> k = length R"
    using s by (auto simp: sending_def)
  obtain c where c: "get_continuation rid t p = (p, Inr c)" "[VBool True, VList (map VStr R), VDict d, clr, sts] = map (vget c) tracked_fields"
    by (rule get_continuation_fields [OF f(1)])
  have cl: "vget c ''workflow_cleared'' = clr" using c(2) by (simp add: tracked_fields_def)
  let ?b = "\<lambda>_::unit. act_then (edit_continuation rid t (dput ''workflow_cleared'' (VStr ''sent''))) (\<lambda>_. keep_srun rid)"
  show "sending R O0 N0 rid t k (fst (clear_run rid t p))"
  proof (cases "clr = VStr ''sent''")
    case True
    with s c(1) cl show ?thesis by (simp add: clear_run_def act_then_def act_return_def)
  next
    case False
    have u: "clear_run rid t p = act_then (at_desk (desk_send (Clear_workflow rid))) ?b p"
      using False c(1) cl by (simp add: clear_run_def act_then_def [of "get_continuation rid t"])
    show ?thesis
    proof (cases rule: desk_send_cases [of "Clear_workflow rid" p])
      case fail
      have "sending R O0 N0 rid t k (p\<lparr>pn_desk := (pn_desk p)\<lparr>ds_links := tl (ds_links (pn_desk p))\<rparr>\<rparr>)"
        by (rule sending_view [OF _ s]) (simp add: plant_view_def fields_of_def)
      with u fail show ?thesis by (simp add: act_then_def)
    next
      case ok
      define p1 where "p1 = p\<lparr>pn_desk := (pn_desk p)\<lparr>ds_links := tl (ds_links (pn_desk p)), ds_orders := ds_orders (pn_desk p) @ [Clear_workflow rid]\<rparr>\<rparr>"
      have f1: "fields_of rid t p1 = Some [VBool True, VList (map VStr R), VDict d, clr, sts]" using f(1) by (simp add: p1_def fields_of_def)
      obtain c1 where c1: "get_continuation rid t p1 = (p1, Inr c1)" "[VBool True, VList (map VStr R), VDict d, clr, sts] = map (vget c1) tracked_fields"
        by (rule get_continuation_fields [OF f1])
      let ?g = "dput ''workflow_cleared'' (VStr ''sent'')"
      have cs: "map (vget (?g c1)) tracked_fields = [VBool True, VList (map VStr R), VDict d, VStr ''sent'', sts]"
        using c1(2) by (simp add: tracked_fields_def)
      obtain p2 where p2: "edit_continuation rid t ?g p1 = (p2, Inr ())"
        using edit_continuation_fields(3) [OF f1 [unfolded c1(2)] c1(1), of ?g] by (metis prod.collapse)
      have "fields_of rid t p2 = Some [VBool True, VList (map VStr R), VDict d, VStr ''sent'', sts]"
        "ds_orders (pn_desk p2) = ds_orders (pn_desk p) @ [Clear_workflow rid]"
        using edit_continuation_fields(1,2) [OF f1 [unfolded c1(2)] c1(1), of ?g] p2 by (simp_all add: cs p1_def)
      then have "sending R O0 N0 rid t k p2" using f(2-6) False by (simp add: sending_def)
      from keeping_D [OF mild_sending [OF mild_keep] this] u ok p2 show ?thesis by (simp add: act_then_def p1_def)
    qed
  qed
qed

lemma end_step: "keeping (sending R O0 N0 rid t k) (end_run now ts rid t)"
proof -
  have m: "keeping (sending R O0 N0 rid t k) (act_then (workflow_event now ts rid t) (\<lambda>ev.
      act_then (write_once rid ev) (\<lambda>_. act_then (keep_srun rid) (\<lambda>_. act_then (tell_end rid t ev) (\<lambda>_. clear_run rid t)))))"
    by (intro keeping_then clear_step mild_sending mild_rules)
  show ?thesis
    unfolding end_run_def by (rule keeping_then [OF mild_sending [OF mild_read(1)]]) (auto intro: m act_rules)
qed

lemma complete_step:
  "triple (sending R O0 N0 rid t (length R)) (complete_continuation rid t) (\<lambda>_ p. \<exists>k. sending R O0 N0 rid t k p) (\<lambda>p. \<exists>k. sending R O0 N0 rid t k p)"
proof (rule tripleI)
  fix p :: "'a plant" assume s: "sending R O0 N0 rid t (length R) p"
  obtain d clr sts where f: "fields_of rid t p = Some [VBool True, VList (map VStr R), VDict d, clr, sts]"
    using s by (auto simp: sending_def)
  obtain c where c: "get_continuation rid t p = (p, Inr c)" "[VBool True, VList (map VStr R), VDict d, clr, sts] = map (vget c) tracked_fields"
    by (rule get_continuation_fields [OF f])
  let ?g = "dput ''status'' (VStr ''completed'')"
  have cs: "map (vget (?g c)) tracked_fields = [VBool True, VList (map VStr R), VDict d, clr, VStr ''completed'']"
    using c(2) by (simp add: tracked_fields_def)
  obtain p1 where p1: "edit_continuation rid t ?g p = (p1, Inr ())"
    using edit_continuation_fields(3) [OF f [unfolded c(2)] c(1), of ?g] by (metis prod.collapse)
  have "fields_of rid t p1 = Some [VBool True, VList (map VStr R), VDict d, clr, VStr ''completed'']"
    "ds_orders (pn_desk p1) = ds_orders (pn_desk p)"
    using edit_continuation_fields(1,2) [OF f [unfolded c(2)] c(1), of ?g] p1 by (simp_all add: cs)
  then have s1: "sending R O0 N0 rid t (length R) p1" using s f by (auto simp: sending_def)
  have "complete_continuation rid t p = keep_srun rid p1" using p1 by (simp add: complete_continuation_def act_then_def)
  moreover obtain p2 z where "keep_srun rid p1 = (p2, z)" by fastforce
  ultimately show "case complete_continuation rid t p of (p', Inr _) \<Rightarrow> \<exists>k. sending R O0 N0 rid t k p' | (p', Inl _) \<Rightarrow> \<exists>k. sending R O0 N0 rid t k p'"
    using keeping_D [OF mild_sending [OF mild_keep [of rid t rid]] s1] by (auto split: sum.split)
qed

lemma ready_ids_of: "vget c ''ready_task_ids'' = VList (map VStr R) \<Longrightarrow> ready_ids c = R"
proof -
  have "List.map_filter (\<lambda>v. case v of VStr i \<Rightarrow> Some i | _ \<Rightarrow> None) (map VStr R) = R"
    by (induction R) (simp_all add: List.map_filter_simps)
  then show "vget c ''ready_task_ids'' = VList (map VStr R) \<Longrightarrow> ready_ids c = R" by (simp add: ready_ids_def)
qed

text \<open>From the graph that is advanced to the end.\<close>

lemma send_and_end:
  assumes "distinct R"
  shows "triple (\<lambda>p. \<exists>k. sending R O0 N0 rid t k p)
     (act_then (get_continuation rid t) (\<lambda>c1. act_then (send_all_ready now payload rid t (ready_ids c1)) (\<lambda>_.
        act_then (end_run now ts rid t) (\<lambda>_. complete_continuation rid t))))
     (\<lambda>_ p. \<exists>k. sending R O0 N0 rid t k p) (\<lambda>p. \<exists>k. sending R O0 N0 rid t k p)" (is "triple ?S _ _ _")
proof (rule tripleI)
  fix p :: "'a plant" assume "?S p"
  then obtain k where k: "sending R O0 N0 rid t k p" by blast
  then obtain d clr sts where f: "fields_of rid t p = Some [VBool True, VList (map VStr R), VDict d, clr, sts]" by (auto simp: sending_def)
  obtain c where c: "get_continuation rid t p = (p, Inr c)" "[VBool True, VList (map VStr R), VDict d, clr, sts] = map (vget c) tracked_fields"
    by (rule get_continuation_fields [OF f])
  have "ready_ids c = R" using c(2) by (intro ready_ids_of) (simp add: tracked_fields_def)
  moreover have e: "triple (sending R O0 N0 rid t (length R)) (end_run now ts rid t) (\<lambda>_. sending R O0 N0 rid t (length R)) ?S"
    by (rule triple_conseq [OF keeping_triple [OF end_step]]) auto
  have "triple ?S (act_then (send_all_ready now payload rid t R) (\<lambda>_. act_then (end_run now ts rid t) (\<lambda>_. complete_continuation rid t))) (\<lambda>_. ?S) ?S"
    using triple_then [OF send_all_step [OF assms, of 0] triple_then [OF e complete_step]] by simp
  note tripleD [OF this \<open>?S p\<close>]
  ultimately show "case act_then (get_continuation rid t) (\<lambda>c1. act_then (send_all_ready now payload rid t (ready_ids c1)) (\<lambda>_.
        act_then (end_run now ts rid t) (\<lambda>_. complete_continuation rid t))) p of (p', Inr _) \<Rightarrow> ?S p' | (p', Inl _) \<Rightarrow> ?S p'"
    using c(1) by (auto simp: act_then_def [of "get_continuation rid t"] split: prod.split sum.splits)
qed

lemma continue_keeps:
  assumes "distinct R"
  shows "keeping (on_track R O0 N0 s rid t) (continue_static_finish now ts s payload rid t)"
proof -
  let ?T = "on_track R O0 N0 s rid t"
  have a: "triple ?T (act_then (advance now s rid t) (\<lambda>_. act_then (get_continuation rid t) (\<lambda>c1.
      act_then (send_all_ready now payload rid t (ready_ids c1)) (\<lambda>_. act_then (end_run now ts rid t) (\<lambda>_. complete_continuation rid t)))))
      (\<lambda>_. ?T) ?T"
    by (rule triple_then [OF advance_step], rule triple_conseq [OF send_and_end [OF assms]]) (auto simp: on_track_def)
  have b: "keeping ?T (act_then (find_finish rid t) (\<lambda>ev. act_then (tell_finish rid t ev) (\<lambda>_.
      act_then (advance now s rid t) (\<lambda>_. act_then (get_continuation rid t) (\<lambda>c1.
      act_then (send_all_ready now payload rid t (ready_ids c1)) (\<lambda>_. act_then (end_run now ts rid t) (\<lambda>_. complete_continuation rid t)))))))"
    by (rule keeping_then [OF mild_on_track [OF mild_find]], rule keeping_then [OF mild_on_track [OF mild_tell_finish]])
      (use a in \<open>simp add: keeping_def\<close>)
  show ?thesis
    unfolding continue_static_finish_def
    by (rule keeping_then [OF mild_on_track [OF mild_read(4)]])
      (auto intro!: keeping_return keeping_then [OF mild_on_track [OF mild_read(5)]] keeping_then [OF mild_on_track [OF mild_read(2)]] b mild_on_track [OF mild_keep])
qed

section \<open>Handling the end of a task again and again\<close>

text \<open>Each round has its own clocks and its own failures to build a message; those of the writes and sends are in the state.\<close>

definition continue_often ::
    "string \<Rightarrow> string \<Rightarrow> string \<Rightarrow> (time \<times> string \<times> (string \<Rightarrow> unit result)) list \<Rightarrow> 'b plant \<Rightarrow> 'b plant" where
  "continue_often strategy rid t rs p = foldl (\<lambda>p (now, ts, payload). fst (continue_static_finish now ts strategy payload rid t p)) p rs"

lemma continue_often_keeps: "distinct R \<Longrightarrow> on_track R O0 N0 s rid t p \<Longrightarrow> on_track R O0 N0 s rid t (continue_often s rid t rs p)"
proof (induction rs arbitrary: p)
  case (Cons x rs)
  obtain now ts payload where x: "x = (now, ts, payload)" by (metis prod.exhaust)
  have "on_track R O0 N0 s rid t (fst (continue_static_finish now ts s payload rid t p))"
    by (rule keeping_D [OF continue_keeps [OF Cons.prems(1)] Cons.prems(2)])
  from Cons.IH [OF Cons.prems(1) this] show ?case by (simp add: continue_often_def x)
qed (simp add: continue_often_def)

lemma finish_task_clock:
  assumes "finish_task now t s g = Inr (g', R)"
  shows "\<exists>g''. finish_task now' t s g = Inr (g'', R)"
proof -
  obtain x where x: "map_of (tasks g) t = Some x" using assms by (auto simp: finish_task_def split: option.splits)
  define w where "w = (\<lambda>now. let w1 = g\<lparr>remaining_task_num := remaining_task_num g - 1,
         tasks := dput t (x\<lparr>ct_completed := True, ct_finished := Some now\<rparr>) (tasks g)\<rparr>
     in if s = ''HACS'' \<and> map_option attr_kind (map_of (attrs g) t) = Some ''gpu''
        then w1\<lparr>remaining_gpu_tasks := less_one (remaining_gpu_tasks w1), remaining_value_tasks := map_option less_one (remaining_value_tasks w1)\<rparr> else w1)"
  have f: "finish_task now t s g = Inr (w now, filter (\<lambda>u. list_all (is_completed (w now)) (predecessors (w now) u)) (successors (w now) t))" for now
    using x by (simp add: finish_task_def w_def Let_def)
  have "is_completed (w now) u = is_completed (w now') u" "predecessors (w now) u = predecessors (w now') u"
    "successors (w now) u = successors (w now') u" for u
    by (auto simp: w_def Let_def is_completed_def predecessors_def successors_def split: option.split)
  then show ?thesis using f [of now] f [of now'] assms by (simp add: list_all_iff)
qed

lemma finish_task_distinct: "distinct (g_edges g) \<Longrightarrow> finish_task now t s g = Inr (g', R) \<Longrightarrow> distinct R"
  by (auto simp: finish_task_def Let_def successors_def distinct_map inj_on_def split: option.splits intro!: distinct_filter)

text \<open>C9: the tasks that the end of a task of a static run makes ready are sent to the scheduler once each and in order, and the
  run is cleared at most once, however often the message is handled again and whichever writes and sends fail; when the
  continuation is complete, all of them were sent.\<close>

theorem static_finish_sends_once:
  assumes "map_of (ds_runs (pn_desk p)) rid = Some e" and "continuation_of (se_run e) t = Inr (new_static_continuation d m)"
    and "map_of (pn_graphs p) rid = Some g" and "distinct (g_edges g)" and "finish_task now0 t strategy g = Inr (g', R)"
    and "p' = continue_often strategy rid t rs p"
  shows "\<exists>k \<le> length R. sent_tasks rid (ds_orders (pn_desk p')) = sent_tasks rid (ds_orders (pn_desk p)) @ take k R
    \<and> clears rid (ds_orders (pn_desk p')) \<le> clears rid (ds_orders (pn_desk p)) + 1
    \<and> (\<forall>e' c'. map_of (ds_runs (pn_desk p')) rid = Some e' \<longrightarrow> continuation_of (se_run e') t = Inr c' \<longrightarrow>
         vget c' ''status'' = VStr ''completed'' \<longrightarrow> k = length R)"
proof -
  let ?O = "sent_tasks rid (ds_orders (pn_desk p))" and ?N = "clears rid (ds_orders (pn_desk p))"
  have c: "map_of (scontinuations (se_run e)) t = Some (VDict (new_static_continuation d m))"
    using assms(2) by (auto simp: continuation_of_def split: option.splits pyval.splits)
  have "fields_of rid t p = Some [VBool False, VList [], VDict [], VStr ''pending'', VStr ''pending'']"
    using assms(1) c by (simp add: fields_of_def run_fields_def new_static_continuation_def tracked_fields_def)
  moreover have "\<forall>now. \<exists>g'. finish_task now t strategy g = Inr (g', R)" using finish_task_clock [OF assms(5)] by blast
  ultimately have "to_advance R ?O ?N strategy rid t p" using assms(3) by (auto simp: to_advance_def)
  then have "on_track R ?O ?N strategy rid t p" by (simp add: on_track_def)
  from continue_often_keeps [OF finish_task_distinct [OF assms(4,5)] this, of rs] assms(6)
  have "on_track R ?O ?N strategy rid t p'" by simp
  then show ?thesis unfolding on_track_def
  proof
    assume "to_advance R ?O ?N strategy rid t p'"
    then show ?thesis
      by (intro exI [of _ 0])
        (auto simp: to_advance_def fields_of_def run_fields_def continuation_of_def tracked_fields_def split: option.splits pyval.splits)
  next
    assume "\<exists>k. sending R ?O ?N rid t k p'"
    then obtain k where "sending R ?O ?N rid t k p'" by blast
    then show ?thesis
      by (intro exI [of _ k])
        (auto simp: sending_def fields_of_def run_fields_def continuation_of_def tracked_fields_def split: option.splits pyval.splits)
  qed
qed

text \<open>A run whose first task has ended, on a store that fails once after the second task was sent.\<close>

definition ended_data :: message where
  "ended_data = [(''task_id'', VStr ''a''), (''attempt'', VInt 1), (''dispatch_id'', VStr ''d1''), (''lease_id'', VStr ''l1'')]"

definition sample_ended :: srun where
  "sample_ended = succeeded_run\<lparr>sstatus := ''running'', sevents := [[(''type'', VStr ''finish_task''), (''data'', VDict ended_data)]],
     scontinuations := [(''a'', VDict (new_static_continuation ended_data []))]\<rparr>"

definition sample_plant :: "nat plant" where
  "sample_plant = \<lparr>pn_desk = (sample_desk [] [Written, Written, Written, Unsynced])
       \<lparr>ds_runs := [(''r'', \<lparr>se_run = sample_ended, se_dispatch = [(''status'', VStr ''active'')], se_digest = VStr ''d''\<rparr>)]\<rparr>,
     pn_graphs = [(''r'', sample_two)], pn_queues = [], pn_told = [], pn_attempts = [], pn_rejections = {}, pn_manifests = []\<rparr>"

definition sample_again :: "nat plant" where
  "sample_again = continue_often ''FCFS'' ''r'' ''a'' [(1, ''t1'', \<lambda>_. Inr ()), (2, ''t2'', \<lambda>_. Inr ())] sample_plant"

lemma sample_again_completed:
  "rbind (continuation_of (se_run (snd (hd (ds_runs (pn_desk sample_again))))) ''a'') (\<lambda>c. Inr (vget c ''status'')) = Inr (VStr ''completed'')"
  "length (ds_runs (pn_desk sample_again)) = 1" "fst (hd (ds_runs (pn_desk sample_again))) = ''r''"
  by code_simp+

lemma sample_two_ready: "map_prod id id (case finish_task 0 ''a'' ''FCFS'' sample_two of Inr (g, R) \<Rightarrow> (True, R) | Inl _ \<Rightarrow> (False, [])) = (True, [''b''])"
  by code_simp

theorem static_finish_sends_once_witness: "sent_tasks ''r'' (ds_orders (pn_desk sample_again)) = [''b'']"
proof -
  obtain g' where g': "finish_task 0 ''a'' ''FCFS'' sample_two = Inr (g', [''b''])"
    using sample_two_ready by (auto split: sum.splits prod.splits)
  obtain e' where e': "ds_runs (pn_desk sample_again) = [(''r'', e')]"
    using sample_again_completed(2,3) by (cases "ds_runs (pn_desk sample_again)") auto
  then obtain c' where c': "continuation_of (se_run e') ''a'' = Inr c'" "vget c' ''status'' = VStr ''completed''"
    using sample_again_completed(1) by (cases "continuation_of (se_run e') ''a''") auto
  have p: "map_of (ds_runs (pn_desk sample_plant)) ''r'' = Some \<lparr>se_run = sample_ended, se_dispatch = [(''status'', VStr ''active'')], se_digest = VStr ''d''\<rparr>"
    "map_of (pn_graphs sample_plant) ''r'' = Some sample_two" "ds_orders (pn_desk sample_plant) = []"
    by (simp_all add: sample_plant_def sample_desk_def)
  have r: "continuation_of (se_run \<lparr>se_run = sample_ended, se_dispatch = [(''status'', VStr ''active'')], se_digest = VStr ''d''\<rparr>) ''a''
      = Inr (new_static_continuation ended_data [])"
    by (simp add: continuation_of_def sample_ended_def)
  have d: "distinct (g_edges sample_two)" by (simp add: sample_two_def)
  from static_finish_sends_once [OF p(1) r p(2) d g' sample_again_def] e' c' p(3)
  show ?thesis by (auto simp: sent_tasks_def List.map_filter_simps)
qed

end
