(* ===== verification/Global_Metrics.thy ===== *)
theory Global_Metrics
  imports Static_Store
begin

text \<open>
  The metrics of the cluster (\<open>maze/core/runs/global_metrics.py\<close>): what each saved static run contributes, kept up to date
  with every save (\<open>sync_run\<close>) and computed anew from the saved runs at start (\<open>rebuild\<close>), and their totals
  (\<open>snapshot\<close>). Clocks are left out. Sums of numbers are exact; a number added to a value that is none raises.
\<close>

section \<open>Numbers\<close>

definition is_number :: "pyval \<Rightarrow> bool" where
  "is_number v = (case v of VInt _ \<Rightarrow> True | VFloat _ \<Rightarrow> True | _ \<Rightarrow> False)"

fun add_float :: "pyfloat \<Rightarrow> pyfloat \<Rightarrow> pyfloat" where
  "add_float (Fin a) (Fin b) = Fin (a + b)"
| "add_float NaN _ = NaN"
| "add_float _ NaN = NaN"
| "add_float PosInf NegInf = NaN"
| "add_float NegInf PosInf = NaN"
| "add_float PosInf _ = PosInf"
| "add_float _ PosInf = PosInf"
| "add_float NegInf _ = NegInf"
| "add_float _ NegInf = NegInf"

definition as_float :: "int \<Rightarrow> pyfloat" where
  "as_float n = Fin (of_int n)"

text \<open>\<open>a + b\<close> where \<open>b\<close> is a number; a boolean counts as one.\<close>

definition py_add :: "pyval \<Rightarrow> pyval \<Rightarrow> pyval result" where
  "py_add a b =
     (case ((case a of VBool x \<Rightarrow> VInt (if x then 1 else 0) | _ \<Rightarrow> a), b) of
        (VInt x, VInt y) \<Rightarrow> Inr (VInt (x + y))
      | (VInt x, VFloat y) \<Rightarrow> Inr (VFloat (add_float (as_float x) y))
      | (VFloat x, VInt y) \<Rightarrow> Inr (VFloat (add_float x (as_float y)))
      | (VFloat x, VFloat y) \<Rightarrow> Inr (VFloat (add_float x y))
      | _ \<Rightarrow> Inl (TypeError ''unsupported operand type(s) for +''))"

section \<open>What a run contributes\<close>

definition metric_run_status :: "pyval \<Rightarrow> string" where
  "metric_run_status v =
     (let s = py_str (vor v (VStr ''submitted'')) in
      if s = ''created'' \<or> s = ''submitted'' then ''submitted'' else if s = ''cancelled'' then ''canceled'' else s)"

definition metric_task_status :: "pyval \<Rightarrow> string" where
  "metric_task_status v = (let s = py_str (vor v (VStr [])) in if s = ''cancelled'' then ''canceled'' else s)"

definition task_status_template :: "(string, nat) dict" where
  "task_status_template = [(''running'', 0), (''succeeded'', 0), (''failed'', 0), (''canceled'', 0), (''timed_out'', 0)]"

definition finished_task_statuses :: "string list" where
  "finished_task_statuses = [''succeeded'', ''failed'', ''canceled'', ''timed_out'']"

record task_share =
  ts_in :: pyval
  ts_out :: pyval
  ts_cost :: pyval
  ts_models :: "(string, event) dict"

text \<open>\<open>_add_number\<close> to a counter that is a number.\<close>

definition add_number :: "pyval \<Rightarrow> pyval \<Rightarrow> pyval result" where
  "add_number x v = (if is_number v then py_add x v else Inr x)"

definition nested_models :: "event \<Rightarrow> (string, event) dict" where
  "nested_models d = foldl (\<lambda>acc (m, v). case v of VDict x \<Rightarrow> dput m x acc | _ \<Rightarrow> acc) [] d"

definition task_metrics_share :: "pyval \<Rightarrow> task_share result" where
  "task_metrics_share v =
     (case v of
        VDict d \<Rightarrow>
          rbind (add_number (VInt 0) (vget d ''tokens_in'')) (\<lambda>i.
          rbind (add_number (VInt 0) (vget d ''tokens_out'')) (\<lambda>o'.
          rbind (add_number (VFloat (Fin 0)) (vget d ''cost_usd'')) (\<lambda>c.
            Inr \<lparr>ts_in = i, ts_out = o', ts_cost = c, ts_models =
              (case vget d ''by_model'' of
                 VDict (kv # kvs) \<Rightarrow> nested_models (kv # kvs)
               | _ \<Rightarrow>
                   (case vget d ''model'' of
                      VStr m \<Rightarrow>
                        if m = [] then []
                        else [(m, [(''tokens_in'', i), (''tokens_out'', o'), (''cost_usd'', c), (''calls'', VInt 1)])]
                    | _ \<Rightarrow> []))\<rparr>)))
      | _ \<Rightarrow> Inr \<lparr>ts_in = VInt 0, ts_out = VInt 0, ts_cost = VFloat (Fin 0), ts_models = []\<rparr>)"

text \<open>One value of a model's bucket, one model, and all models.\<close>

definition add_value :: "event \<Rightarrow> string \<times> pyval \<Rightarrow> event result" where
  "add_value bucket kv =
     (case kv of (k, v) \<Rightarrow>
        if is_number v then rbind (py_add (vgetd bucket k (VInt 0)) v) (\<lambda>x. Inr (dput k x bucket)) else Inr (dput k v bucket))"

definition add_model :: "(string, event) dict \<Rightarrow> string \<times> event \<Rightarrow> (string, event) dict result" where
  "add_model models mv =
     (case mv of (m, vs) \<Rightarrow> rbind (rfold add_value (dgetd models m []) vs) (\<lambda>bucket. Inr (dput m bucket models)))"

record run_share =
  rc_workflow :: pyval
  rc_status :: string
  rc_finished :: nat
  rc_tasks :: "(string, nat) dict"
  rc_in :: pyval
  rc_out :: pyval
  rc_cost :: pyval
  rc_models :: "(string, event) dict"

definition count_task :: "string \<Rightarrow> (string, nat) dict \<Rightarrow> (string, nat) dict" where
  "count_task s counts = (case map_of counts s of None \<Rightarrow> counts | Some n \<Rightarrow> dput s (n + 1) counts)"

definition add_task :: "run_share \<Rightarrow> pyval \<Rightarrow> run_share result" where
  "add_task c v =
     (case v of
        VDict n \<Rightarrow>
          (let s = metric_task_status (vget n ''status'');
               c1 = c\<lparr>rc_tasks := count_task s (rc_tasks c), rc_finished := rc_finished c + (if s \<in> set finished_task_statuses then 1 else 0)\<rparr>
           in rbind (task_metrics_share (vget n ''metrics'')) (\<lambda>t.
              rbind (py_add (rc_in c1) (ts_in t)) (\<lambda>i.
              rbind (py_add (rc_out c1) (ts_out t)) (\<lambda>o'.
              rbind (py_add (rc_cost c1) (ts_cost t)) (\<lambda>cost.
              rbind (rfold add_model (rc_models c1) (ts_models t)) (\<lambda>ms.
                Inr (c1\<lparr>rc_in := i, rc_out := o', rc_cost := cost, rc_models := ms\<rparr>)))))))
      | _ \<Rightarrow> Inr c)"

definition run_contribution :: "event \<Rightarrow> run_share result" where
  "run_contribution snap =
     rbind (or_empty (vget snap ''task_nodes'')) (\<lambda>nodes.
       rfold add_task
         \<lparr>rc_workflow = vget snap ''workflow_id'', rc_status = metric_run_status (vget snap ''status''), rc_finished = 0,
          rc_tasks = task_status_template, rc_in = VInt 0, rc_out = VInt 0, rc_cost = VFloat (Fin 0), rc_models = []\<rparr>
         (dvals nodes))"

section \<open>The metrics\<close>

record metrics =
  gm_workflows :: "string list"
  gm_runs :: "(string, run_share) dict"

definition no_metrics :: metrics where
  "no_metrics = \<lparr>gm_workflows = [], gm_runs = []\<rparr>"

definition on_workflow_created :: "string \<Rightarrow> metrics \<Rightarrow> metrics" where
  "on_workflow_created wid m = (if wid = [] then m else m\<lparr>gm_workflows := List.insert wid (gm_workflows m)\<rparr>)"

definition note_workflow :: "run_share \<Rightarrow> metrics \<Rightarrow> metrics" where
  "note_workflow c m =
     (if truthy (rc_workflow c) then m\<lparr>gm_workflows := List.insert (py_str (rc_workflow c)) (gm_workflows m)\<rparr> else m)"

definition note_run :: "string \<Rightarrow> run_share \<Rightarrow> metrics \<Rightarrow> metrics" where
  "note_run rid c m = note_workflow c (m\<lparr>gm_runs := dput rid c (gm_runs m)\<rparr>)"

definition sync_run :: "event \<Rightarrow> metrics \<Rightarrow> metrics result" where
  "sync_run snap m =
     (if \<not> truthy (vget snap ''run_id'') then Inl (ValueError ''Static run snapshot is missing run_id'')
      else rbind (run_contribution snap) (\<lambda>c. Inr (note_run (py_str (vget snap ''run_id'')) c m)))"

text \<open>\<open>rebuild\<close> replaces the runs and adds the workflows, when no snapshot raises.\<close>

definition collect_run :: "metrics \<Rightarrow> event \<Rightarrow> metrics result" where
  "collect_run m snap = (if \<not> truthy (vget snap ''run_id'') then Inr m else sync_run snap m)"

definition rebuild :: "event list \<Rightarrow> metrics \<Rightarrow> metrics result" where
  "rebuild snaps m = rfold collect_run (m\<lparr>gm_runs := []\<rparr>) snaps"

record totals =
  gt_runs :: "(string, nat) dict"
  gt_finished :: nat
  gt_tasks :: "(string, nat) dict"
  gt_in :: pyval
  gt_out :: pyval
  gt_cost :: pyval
  gt_models :: "(string, event) dict"

definition run_status_template :: "(string, nat) dict" where
  "run_status_template = [(''submitted'', 0), (''running'', 0), (''succeeded'', 0), (''failed'', 0), (''canceled'', 0),
     (''interrupted'', 0), (''timed_out'', 0)]"

definition bump :: "string \<Rightarrow> nat \<Rightarrow> (string, nat) dict \<Rightarrow> (string, nat) dict" where
  "bump s n d = dput s (dgetd d s 0 + n) d"

definition add_run :: "totals \<Rightarrow> run_share \<Rightarrow> totals result" where
  "add_run g c =
     (let g1 = g\<lparr>gt_runs := bump (rc_status c) 1 (gt_runs g), gt_finished := gt_finished g + rc_finished c,
                gt_tasks := foldl (\<lambda>d (s, n). bump s n d) (gt_tasks g) (rc_tasks c)\<rparr>
      in rbind (py_add (gt_in g1) (rc_in c)) (\<lambda>i.
         rbind (py_add (gt_out g1) (rc_out c)) (\<lambda>o'.
         rbind (py_add (gt_cost g1) (rc_cost c)) (\<lambda>cost.
         rbind (rfold add_model (gt_models g1) (rc_models c)) (\<lambda>ms.
           Inr (g1\<lparr>gt_in := i, gt_out := o', gt_cost := cost, gt_models := ms\<rparr>))))))"

definition round_cost :: "pyval \<Rightarrow> pyval" where
  "round_cost v = (case v of VFloat (Fin q) \<Rightarrow> VFloat (Fin (round6 q)) | _ \<Rightarrow> v)"

definition metrics_snapshot :: "metrics \<Rightarrow> totals result" where
  "metrics_snapshot m =
     rbind (rfold add_run
         \<lparr>gt_runs = run_status_template, gt_finished = 0, gt_tasks = task_status_template, gt_in = VInt 0, gt_out = VInt 0,
          gt_cost = VFloat (Fin 0), gt_models = []\<rparr> (dvals (gm_runs m)))
       (\<lambda>g. Inr (g\<lparr>gt_cost := round_cost (gt_cost g)\<rparr>))"

text \<open>\<open>_save_static_run_snapshot\<close> of the core: first to disk, then to the metrics.\<close>

definition save_and_sync :: "write_outcome \<Rightarrow> event \<Rightarrow> run_store \<times> metrics \<Rightarrow> (run_store \<times> metrics) \<times> unit result" where
  "save_and_sync w snap sm =
     (case static_save_run w (py_str (vget snap ''run_id'')) snap (fst sm) of
        (s, Inl x) \<Rightarrow> ((s, snd sm), Inl x)
      | (s, Inr _) \<Rightarrow> (case sync_run snap (snd sm) of Inl x \<Rightarrow> ((s, snd sm), Inl x) | Inr m \<Rightarrow> ((s, m), Inr ())))"

section \<open>The same after a restart\<close>

definition run_name :: "event \<Rightarrow> string" where
  "run_name snap = py_str (vget snap ''run_id'')"

text \<open>A snapshot that names its run and whose metrics can be added up.\<close>

definition countable :: "event \<Rightarrow> bool" where
  "countable snap = (truthy (vget snap ''run_id'') \<and> (\<exists>c. run_contribution snap = Inr c))"

definition share_of :: "event \<Rightarrow> run_share" where
  "share_of snap = (case run_contribution snap of Inr c \<Rightarrow> c | Inl _ \<Rightarrow> undefined)"

lemma note_run_runs: "gm_runs (note_run rid c m) = dput rid c (gm_runs m)"
  by (simp add: note_run_def note_workflow_def)

lemma sync_countable: "countable snap \<Longrightarrow> \<exists>m'. sync_run snap m = Inr m' \<and> gm_runs m' = dput (run_name snap) (share_of snap) (gm_runs m)"
  by (auto simp: countable_def sync_run_def share_of_def run_name_def note_run_runs)

lemma sync_Inr: "sync_run snap m = Inr m' \<Longrightarrow> countable snap \<and> gm_runs m' = dput (run_name snap) (share_of snap) (gm_runs m)"
  by (auto simp: countable_def sync_run_def share_of_def run_name_def note_run_runs split: if_splits)

lemma payload_same:
  "run_contribution (static_payload snap) = run_contribution snap" "run_name (static_payload snap) = run_name snap"
  "countable (static_payload snap) = countable snap" "share_of (static_payload snap) = share_of snap"
proof -
  show "run_contribution (static_payload snap) = run_contribution snap"
    by (simp add: run_contribution_def static_payload_def)
  then show "countable (static_payload snap) = countable snap" "share_of (static_payload snap) = share_of snap"
    by (simp_all add: countable_def share_of_def static_payload_def)
  show "run_name (static_payload snap) = run_name snap" by (simp add: run_name_def static_payload_def)
qed

text \<open>The metrics hold the share of exactly the saved runs.\<close>

definition in_step :: "run_store \<times> metrics \<Rightarrow> bool" where
  "in_step sm =
     (dict_ok (run_files (fst sm)) \<and> dict_ok (gm_runs (snd sm)) \<and> (\<forall>rid. map_of (gm_runs (snd sm)) rid = map_option share_of (map_of (run_files (fst sm)) rid))
      \<and> (\<forall>rid snap. map_of (run_files (fst sm)) rid = Some snap \<longrightarrow> countable snap \<and> run_name snap = rid))"

lemma save_in_step:
  assumes "in_step sm" and "save_and_sync Written snap sm = (sm', Inr ())"
  shows "in_step sm'"
proof -
  obtain s m where sm: "sm = (s, m)" by fastforce
  let ?s = "fst (static_save_run Written (run_name snap) snap s)"
  have s: "run_files ?s = dput (run_name snap) (static_payload snap) (run_files s)" "snd (static_save_run Written (run_name snap) snap s) = Inr ()"
    by (simp_all add: static_save_run_def forget_def Let_def)
  obtain m' where m': "sync_run snap m = Inr m'" "sm' = (?s, m')"
    using assms(2) s(2) by (auto simp: save_and_sync_def sm run_name_def split: prod.splits sum.splits)
  with sync_Inr [OF m'(1)] assms(1) s(1) show ?thesis
    by (auto simp: in_step_def sm payload_same)
qed

definition save_all :: "event list \<Rightarrow> run_store \<times> metrics \<Rightarrow> (run_store \<times> metrics) result" where
  "save_all snaps sm = rfold (\<lambda>sm snap. case save_and_sync Written snap sm of (sm', r) \<Rightarrow> rbind r (\<lambda>_. Inr sm')) sm snaps"

lemma save_all_in_step: "save_all snaps sm = Inr sm' \<Longrightarrow> in_step sm \<Longrightarrow> in_step sm'"
  unfolding save_all_def
  by (erule rfold_invariant) (auto split: prod.splits intro: save_in_step)

lemma rebuild_runs:
  "\<forall>snap \<in> set snaps. countable snap \<Longrightarrow> distinct (map run_name snaps) \<Longrightarrow>
    \<exists>m'. rfold collect_run m snaps = Inr m' \<and> (\<forall>snap \<in> set snaps. map_of (gm_runs m') (run_name snap) = Some (share_of snap))
      \<and> (\<forall>rid. rid \<notin> run_name ` set snaps \<longrightarrow> map_of (gm_runs m') rid = map_of (gm_runs m) rid)"
proof (induction snaps arbitrary: m)
  case (Cons snap snaps)
  obtain m1 where m1: "sync_run snap m = Inr m1" "gm_runs m1 = dput (run_name snap) (share_of snap) (gm_runs m)"
    using sync_countable [of snap m] Cons.prems(1) by auto
  have "collect_run m snap = Inr m1" using m1(1) Cons.prems(1) by (auto simp: collect_run_def countable_def)
  moreover obtain m' where m': "rfold collect_run m1 snaps = Inr m'"
    "\<forall>snap \<in> set snaps. map_of (gm_runs m') (run_name snap) = Some (share_of snap)"
    "\<forall>rid. rid \<notin> run_name ` set snaps \<longrightarrow> map_of (gm_runs m') rid = map_of (gm_runs m1) rid"
    using Cons.IH [of m1] Cons.prems by auto
  moreover have "run_name snap \<notin> run_name ` set snaps" using Cons.prems(2) by simp
  ultimately show ?case using m1(2) by auto
qed simp

lemma listed_runs:
  assumes "in_step (s, m)"
  shows "set (static_list_runs s) = set (dvals (run_files s))" "distinct (map run_name (static_list_runs s))"
    "\<forall>snap \<in> set (static_list_runs s). countable snap"
proof -
  have ok: "dict_ok (run_files s)" "\<And>rid snap. map_of (run_files s) rid = Some snap \<Longrightarrow> countable snap \<and> run_name snap = rid"
    using assms by (auto simp: in_step_def)
  show set: "set (static_list_runs s) = set (dvals (run_files s))" by (simp add: static_list_runs_def)
  have e: "(rid, snap) \<in> set (run_files s) \<Longrightarrow> countable snap \<and> run_name snap = rid" for rid snap
    using ok(2) [OF in_map_of [OF ok(1)]] by blast
  then show "\<forall>snap \<in> set (static_list_runs s). countable snap" by (auto simp: set dvals_def)
  have "map run_name (dvals (run_files s)) = dkeys (run_files s)"
    using e by (auto simp: dvals_def dkeys_def)
  then have "distinct (map run_name (dvals (run_files s)))" using ok(1) by (simp add: dict_ok_def dkeys_def)
  moreover have "mset (map run_name (static_list_runs s)) = mset (map run_name (dvals (run_files s)))"
    by (simp add: static_list_runs_def)
  ultimately show "distinct (map run_name (static_list_runs s))" using mset_eq_imp_distinct_iff by blast
qed

text \<open>C34: the metrics of a core that is started again are those of one that never stopped: after any saves that succeeded,
  computing them anew from the runs on disk gives every run the same share as the updates at each save did.\<close>

theorem restart_metrics_equal:
  assumes "save_all snaps (no_store, no_metrics) = Inr (s, m)"
  shows "\<exists>m'. rebuild (static_list_runs s) no_metrics = Inr m' \<and> map_of (gm_runs m') = map_of (gm_runs m)"
proof -
  have "in_step (no_store, no_metrics)" by (simp add: in_step_def no_store_def no_metrics_def)
  then have i: "in_step (s, m)" using save_all_in_step assms by blast
  let ?L = "static_list_runs s"
  obtain m' where m': "rfold collect_run (no_metrics\<lparr>gm_runs := []\<rparr>) ?L = Inr m'"
    "\<forall>snap \<in> set ?L. map_of (gm_runs m') (run_name snap) = Some (share_of snap)"
    "\<forall>rid. rid \<notin> run_name ` set ?L \<longrightarrow> map_of (gm_runs m') rid = None"
    using rebuild_runs [OF listed_runs(3,2) [OF i], of "no_metrics\<lparr>gm_runs := []\<rparr>"] by auto
  have "map_of (gm_runs m') rid = map_option share_of (map_of (run_files s) rid)" for rid
  proof (cases "map_of (run_files s) rid")
    case (Some snap)
    then have "snap \<in> set ?L" "run_name snap = rid"
      using i listed_runs(1) [OF i] map_of_SomeD [OF Some] by (force simp: in_step_def dvals_def)+
    then show ?thesis using m'(2) Some by auto
  next
    case None
    have "rid \<notin> run_name ` set ?L"
    proof
      assume "rid \<in> run_name ` set ?L"
      then obtain k snap where "(k, snap) \<in> set (run_files s)" "run_name snap = rid"
        using listed_runs(1) [OF i] by (auto simp: dvals_def)
      moreover have "dict_ok (run_files s)" using i by (simp add: in_step_def)
      ultimately have "map_of (run_files s) k = Some snap" "run_name snap = rid" by (simp_all add: in_map_of)
      then show False using i None by (auto simp: in_step_def)
    qed
    then show ?thesis using m'(3) None by simp
  qed
  then have "map_of (gm_runs m') = map_of (gm_runs m)" using i by (auto simp: in_step_def)
  then show ?thesis using m'(1) by (auto simp: rebuild_def)
qed

section \<open>Totals\<close>

definition finished_in :: "(string, nat) dict \<Rightarrow> nat" where
  "finished_in d = (\<Sum>x \<leftarrow> finished_task_statuses. dgetd d x 0)"

lemma finished_distinct: "distinct finished_task_statuses"
  by (simp add: finished_task_statuses_def)

lemma sum_indicator: "distinct xs \<Longrightarrow> (\<Sum>x \<leftarrow> xs. f x + (if x = s then n else 0)) = (\<Sum>x \<leftarrow> xs. f x) + (if s \<in> set xs then n else (0 :: nat))"
  by (induction xs) auto

lemma dgetd_bump: "dgetd (bump s n d) x 0 = dgetd d x 0 + (if x = s then n else 0)"
  by (simp add: bump_def dgetd_def)

lemma finished_bump: "finished_in (bump s n d) = finished_in d + (if s \<in> set finished_task_statuses then n else 0)"
  by (simp add: finished_in_def dgetd_bump sum_indicator [OF finished_distinct])

lemma finished_fold:
  "dict_ok e \<Longrightarrow> finished_in (foldl (\<lambda>d (s, n). bump s n d) d e) = finished_in d + finished_in e"
proof (induction e arbitrary: d)
  case (Cons x e)
  obtain s n where x: "x = (s, n)" by fastforce
  have s: "s \<notin> fst ` set e" "dict_ok e" using Cons.prems by (simp_all add: dict_ok_def dkeys_def x)
  have "dgetd ((s, n) # e) y 0 = dgetd e y 0 + (if y = s then n else 0)" for y
    using s(1) by (auto simp: dgetd_def map_of_eq_None_iff [symmetric] split: option.split)
  then have "finished_in (x # e) = finished_in e + (if s \<in> set finished_task_statuses then n else 0)"
    by (simp add: finished_in_def x sum_indicator [OF finished_distinct])
  then show ?case using Cons.IH [OF s(2)] by (simp add: x finished_bump)
qed (simp add: finished_in_def dgetd_def)

lemma finished_template [simp]: "finished_in task_status_template = 0"
  by (simp add: finished_in_def task_status_template_def finished_task_statuses_def dgetd_def)

lemma count_task_finished:
  assumes "set finished_task_statuses \<subseteq> set (dkeys d)"
  shows "finished_in (count_task s d) = finished_in d + (if s \<in> set finished_task_statuses then 1 else 0)"
    "dkeys (count_task s d) = dkeys d"
proof -
  show "finished_in (count_task s d) = finished_in d + (if s \<in> set finished_task_statuses then 1 else 0)"
  proof (cases "map_of d s")
    case None
    then have "s \<notin> set finished_task_statuses" using assms by (auto simp: map_of_eq_None_iff dkeys_def)
    with None show ?thesis by (simp add: count_task_def)
  next
    case (Some n)
    then have "count_task s d = bump s 1 d" by (simp add: count_task_def bump_def dgetd_def)
    then show ?thesis by (simp add: finished_bump)
  qed
  show "dkeys (count_task s d) = dkeys d"
    by (auto simp: count_task_def dkeys_dput_same dhas_iff split: option.split)
qed

definition share_ok :: "run_share \<Rightarrow> bool" where
  "share_ok c = (dkeys (rc_tasks c) = dkeys task_status_template \<and> rc_finished c = finished_in (rc_tasks c))"

lemma template_keys: "set finished_task_statuses \<subseteq> set (dkeys task_status_template)" "dict_ok task_status_template"
  by (simp_all add: finished_task_statuses_def task_status_template_def dkeys_def dict_ok_def)

lemma counted_task_ok: "share_ok c \<Longrightarrow> add_task c v = Inr c' \<Longrightarrow> share_ok c'"
  using count_task_finished [of "rc_tasks c"] template_keys(1)
  by (auto simp: add_task_def share_ok_def Let_def split: pyval.splits)

lemma contribution_ok: "run_contribution snap = Inr c \<Longrightarrow> share_ok c"
proof -
  assume "run_contribution snap = Inr c"
  then obtain c0 nodes where "rfold add_task c0 nodes = Inr c" "share_ok c0"
    by (auto simp: run_contribution_def share_ok_def)
  then show ?thesis by (rule rfold_invariant) (rule counted_task_ok)
qed

definition total_ok :: "nat \<Rightarrow> totals \<Rightarrow> bool" where
  "total_ok n g = (dict_ok (gt_runs g) \<and> sum_list (dvals (gt_runs g)) = n \<and> gt_finished g = finished_in (gt_tasks g))"

lemma sum_bump: "dict_ok d \<Longrightarrow> sum_list (dvals (bump s n d)) = sum_list (dvals d) + n"
proof (induction d)
  case (Cons x d)
  obtain k v where x: "x = (k, v)" by fastforce
  have "dict_ok d" "k \<notin> fst ` set d" using Cons.prems by (simp_all add: dict_ok_def dkeys_def x)
  with Cons.IH show ?case
    by (auto simp: bump_def dput_def dvals_def dgetd_def x)
qed (simp add: bump_def dput_def dvals_def dgetd_def)

lemma add_run_ok: "total_ok n g \<Longrightarrow> share_ok c \<Longrightarrow> add_run g c = Inr g' \<Longrightarrow> total_ok (Suc n) g'"
proof -
  assume g: "total_ok n g" and c: "share_ok c" and a: "add_run g c = Inr g'"
  have "dict_ok (rc_tasks c)" using c template_keys(2) by (simp add: share_ok_def dict_ok_def dkeys_def)
  from finished_fold [OF this, of "gt_tasks g"] a g c show ?thesis
    by (auto simp: add_run_def total_ok_def share_ok_def Let_def sum_bump) (simp_all add: bump_def)
qed

lemma totals_fold:
  "rfold add_run g cs = Inr g' \<Longrightarrow> total_ok n g \<Longrightarrow> \<forall>c \<in> set cs. share_ok c \<Longrightarrow> total_ok (n + length cs) g'"
proof (induction cs arbitrary: g n)
  case (Cons c cs)
  then obtain g1 where g1: "add_run g c = Inr g1" "rfold add_run g1 cs = Inr g'" by auto
  have "total_ok (Suc n) g1" using add_run_ok [OF Cons.prems(2) _ g1(1)] Cons.prems(3) by simp
  from Cons.IH [OF g1(2) this] Cons.prems(3) show ?case by simp
qed simp

text \<open>the totals add up: the counts of runs by status sum up to the number of runs, and the number of finished tasks is
  the sum of the counts of tasks that ended, over all runs.\<close>

theorem totals_add_up:
  assumes "save_all snaps (no_store, no_metrics) = Inr (s, m)" and "metrics_snapshot m = Inr g"
  shows "sum_list (dvals (gt_runs g)) = length (gm_runs m) \<and>
    gt_finished g = (\<Sum>x \<leftarrow> [''succeeded'', ''failed'', ''canceled'', ''timed_out'']. dgetd (gt_tasks g) x 0)"
proof -
  have "in_step (no_store, no_metrics)" by (simp add: in_step_def no_store_def no_metrics_def dict_ok_def)
  then have i: "in_step (s, m)" using save_all_in_step assms(1) by blast
  have "share_ok c" if c: "c \<in> set (dvals (gm_runs m))" for c
  proof -
    obtain rid where "map_of (gm_runs m) rid = Some c" using c i by (auto simp: in_step_def dvals_def in_dict_iff)
    then obtain snap where "map_of (run_files s) rid = Some snap" "share_of snap = c" using i by (auto simp: in_step_def)
    then show ?thesis using i contribution_ok by (fastforce simp: in_step_def countable_def share_of_def)
  qed
  moreover obtain g1 where g1: "rfold add_run \<lparr>gt_runs = run_status_template, gt_finished = 0, gt_tasks = task_status_template, gt_in = VInt 0,
      gt_out = VInt 0, gt_cost = VFloat (Fin 0), gt_models = []\<rparr> (dvals (gm_runs m)) = Inr g1" "gt_runs g = gt_runs g1"
      "gt_finished g = gt_finished g1" "gt_tasks g = gt_tasks g1"
    using assms(2) by (auto simp: metrics_snapshot_def)
  moreover have "total_ok 0 \<lparr>gt_runs = run_status_template, gt_finished = 0, gt_tasks = task_status_template, gt_in = VInt 0,
      gt_out = VInt 0, gt_cost = VFloat (Fin 0), gt_models = []\<rparr>"
    by (simp add: total_ok_def run_status_template_def dict_ok_def dvals_def)
  ultimately have "total_ok (length (dvals (gm_runs m))) g1" using totals_fold [OF g1(1), of 0] by simp
  then show ?thesis using g1 by (simp add: total_ok_def finished_in_def finished_task_statuses_def dvals_def)
qed

section \<open>Metrics that do not fit together\<close>

lemma add_zero: "is_number v \<Longrightarrow> \<exists>w. py_add (VInt 0) v = Inr w \<and> is_number w" "is_number v \<Longrightarrow> \<exists>w. py_add (VFloat x) v = Inr w \<and> is_number w"
  by (cases v; simp add: is_number_def py_add_def)+

lemma add_number_ok: "is_number x \<Longrightarrow> \<exists>w. add_number x v = Inr w \<and> is_number w"
  by (cases x; cases v) (auto simp: add_number_def is_number_def py_add_def)

lemma py_add_ok: "is_number x \<Longrightarrow> is_number y \<Longrightarrow> \<exists>w. py_add x y = Inr w \<and> is_number w"
  by (cases x; cases y) (auto simp: is_number_def py_add_def)

lemma task_share_ok:
  "\<exists>t. task_metrics_share (VDict d) = Inr t \<and> is_number (ts_in t) \<and> is_number (ts_out t) \<and> is_number (ts_cost t)
     \<and> (\<forall>kv kvs. vget d ''by_model'' = VDict (kv # kvs) \<longrightarrow> ts_models t = nested_models (kv # kvs))"
proof -
  obtain i where "add_number (VInt 0) (vget d ''tokens_in'') = Inr i" "is_number i" using add_number_ok [of "VInt 0"] by (auto simp: is_number_def)
  moreover obtain j where "add_number (VInt 0) (vget d ''tokens_out'') = Inr j" "is_number j" using add_number_ok [of "VInt 0"] by (auto simp: is_number_def)
  moreover obtain c where "add_number (VFloat (Fin 0)) (vget d ''cost_usd'') = Inr c" "is_number c"
    using add_number_ok [of "VFloat (Fin 0)"] by (auto simp: is_number_def)
  ultimately show ?thesis by (simp add: task_metrics_share_def)
qed

definition start_share :: "event \<Rightarrow> run_share" where
  "start_share snap = \<lparr>rc_workflow = vget snap ''workflow_id'', rc_status = metric_run_status (vget snap ''status''), rc_finished = 0,
     rc_tasks = task_status_template, rc_in = VInt 0, rc_out = VInt 0, rc_cost = VFloat (Fin 0), rc_models = []\<rparr>"

text \<open>A task reports the value under the key of the model; \<open>jams\<close> says a value can neither be added to nor counts as one.\<close>

definition reports :: "pyval \<Rightarrow> string \<Rightarrow> string \<Rightarrow> pyval \<Rightarrow> bool" where
  "reports node model k v =
     (case node of
        VDict n \<Rightarrow>
          (case task_metrics_share (vget n ''metrics'') of
             Inr t \<Rightarrow> list_ex (\<lambda>(m, vs). m = model \<and> (k, v) \<in> set vs) (ts_models t)
           | Inl _ \<Rightarrow> False)
      | _ \<Rightarrow> False)"

definition jams :: "pyval \<Rightarrow> bool" where
  "jams v = (case v of VInt _ \<Rightarrow> False | VFloat _ \<Rightarrow> False | VBool _ \<Rightarrow> False | _ \<Rightarrow> True)"

definition jammed :: "string \<Rightarrow> event \<Rightarrow> bool" where
  "jammed k bucket = (case map_of bucket k of Some x \<Rightarrow> jams x | None \<Rightarrow> False)"

definition jammed_at :: "string \<Rightarrow> string \<Rightarrow> (string, event) dict \<Rightarrow> bool" where
  "jammed_at model k ms = jammed k (dgetd ms model [])"

lemma jams_cases: "jams v \<or> is_number v \<or> (\<exists>b. v = VBool b)" "\<not> (jams v \<and> is_number v)"
  by (auto simp: jams_def is_number_def split: pyval.split)

lemma add_value_jammed:
  assumes "add_value b (j, v) = Inr b'"
  shows "jammed k b \<Longrightarrow> j = k \<longrightarrow> jams v \<or> is_number v \<Longrightarrow> jammed k b' \<and> (j = k \<longrightarrow> jams v)"
    and "j = k \<Longrightarrow> jams v \<Longrightarrow> jammed k b'"
  using assms jams_cases [of v]
  by (auto simp: add_value_def jammed_def jams_def py_add_def dgetd_def split: if_splits option.splits pyval.splits)

definition no_bool :: "string \<Rightarrow> event \<Rightarrow> bool" where
  "no_bool k vs = (\<forall>(j, v) \<in> set vs. j = k \<longrightarrow> jams v \<or> is_number v)"

lemma add_values_jammed:
  "rfold add_value b vs = Inr b' \<Longrightarrow> no_bool k vs \<Longrightarrow> jammed k b \<Longrightarrow> jammed k b' \<and> (\<forall>v. (k, v) \<in> set vs \<longrightarrow> jams v)"
proof (induction vs arbitrary: b)
  case (Cons p vs)
  obtain j v where p: "p = (j, v)" by fastforce
  obtain b1 where b1: "add_value b (j, v) = Inr b1" "rfold add_value b1 vs = Inr b'" using Cons.prems(1) by (auto simp: p split: sum.splits)
  have "jammed k b1 \<and> (j = k \<longrightarrow> jams v)"
    using add_value_jammed(1) [OF b1(1) Cons.prems(3)] Cons.prems(2) by (auto simp: no_bool_def p)
  with Cons.IH [OF b1(2)] Cons.prems(2) show ?case by (auto simp: no_bool_def p)
qed simp

lemma add_values_jam:
  "rfold add_value b vs = Inr b' \<Longrightarrow> no_bool k vs \<Longrightarrow> (k, v) \<in> set vs \<Longrightarrow> jams v \<Longrightarrow> jammed k b'"
proof (induction vs arbitrary: b)
  case (Cons p vs)
  obtain j w where p: "p = (j, w)" by fastforce
  obtain b1 where b1: "add_value b (j, w) = Inr b1" "rfold add_value b1 vs = Inr b'" using Cons.prems(1) by (auto simp: p split: sum.splits)
  have nb: "no_bool k vs" using Cons.prems(2) by (simp add: no_bool_def)
  show ?case
  proof (cases "(k, v) \<in> set vs")
    case True
    then show ?thesis using Cons.IH [OF b1(2) nb] Cons.prems(4) by blast
  next
    case False
    then have "jammed k b1" using Cons.prems(3,4) p add_value_jammed(2) [OF b1(1)] by auto
    then show ?thesis using add_values_jammed [OF b1(2) nb] by blast
  qed
qed simp

lemma add_model_jammed:
  assumes "add_model ms (m, vs) = Inr ms'" and "m = model \<longrightarrow> no_bool k vs"
  shows "jammed_at model k ms \<Longrightarrow> jammed_at model k ms' \<and> (m = model \<longrightarrow> (\<forall>v. (k, v) \<in> set vs \<longrightarrow> jams v))"
    and "m = model \<Longrightarrow> (k, v) \<in> set vs \<Longrightarrow> jams v \<Longrightarrow> jammed_at model k ms'"
proof -
  obtain b where b: "rfold add_value (dgetd ms m []) vs = Inr b" "ms' = dput m b ms"
    using assms(1) by (auto simp: add_model_def split: sum.splits)
  then show "jammed_at model k ms \<Longrightarrow> jammed_at model k ms' \<and> (m = model \<longrightarrow> (\<forall>v. (k, v) \<in> set vs \<longrightarrow> jams v))"
    using add_values_jammed [OF b(1)] assms(2) by (cases "m = model") (auto simp: jammed_at_def dgetd_def)
  show "m = model \<Longrightarrow> (k, v) \<in> set vs \<Longrightarrow> jams v \<Longrightarrow> jammed_at model k ms'"
    using add_values_jam [OF b(1)] assms(2) b(2) by (simp add: jammed_at_def dgetd_def)
qed

definition clean_models :: "string \<Rightarrow> string \<Rightarrow> (string, event) dict \<Rightarrow> bool" where
  "clean_models model k xs = (\<forall>(m, vs) \<in> set xs. m = model \<longrightarrow> no_bool k vs)"

lemma add_models_jammed:
  "rfold add_model ms xs = Inr ms' \<Longrightarrow> clean_models model k xs \<Longrightarrow> jammed_at model k ms \<Longrightarrow>
    jammed_at model k ms' \<and> (\<forall>vs v. (model, vs) \<in> set xs \<longrightarrow> (k, v) \<in> set vs \<longrightarrow> jams v)"
proof (induction xs arbitrary: ms)
  case (Cons p xs)
  obtain m vs where p: "p = (m, vs)" by fastforce
  obtain m1 where m1: "add_model ms (m, vs) = Inr m1" "rfold add_model m1 xs = Inr ms'" using Cons.prems(1) by (auto simp: p split: sum.splits)
  have c: "m = model \<longrightarrow> no_bool k vs" "clean_models model k xs" using Cons.prems(2) by (auto simp: clean_models_def p)
  have "jammed_at model k m1 \<and> (m = model \<longrightarrow> (\<forall>v. (k, v) \<in> set vs \<longrightarrow> jams v))"
    by (rule add_model_jammed(1) [OF m1(1) c(1) Cons.prems(3)])
  with Cons.IH [OF m1(2) c(2)] show ?case by (auto simp: p)
qed simp

lemma add_models_jam:
  "rfold add_model ms xs = Inr ms' \<Longrightarrow> clean_models model k xs \<Longrightarrow> (model, vs) \<in> set xs \<Longrightarrow> (k, v) \<in> set vs \<Longrightarrow> jams v \<Longrightarrow>
    jammed_at model k ms'"
proof (induction xs arbitrary: ms)
  case (Cons p xs)
  obtain m ws where p: "p = (m, ws)" by fastforce
  obtain m1 where m1: "add_model ms (m, ws) = Inr m1" "rfold add_model m1 xs = Inr ms'" using Cons.prems(1) by (auto simp: p split: sum.splits)
  have c: "m = model \<longrightarrow> no_bool k ws" "clean_models model k xs" using Cons.prems(2) by (auto simp: clean_models_def p)
  show ?case
  proof (cases "(model, vs) \<in> set xs")
    case True
    then show ?thesis using Cons.IH [OF m1(2) c(2)] Cons.prems(4,5) by blast
  next
    case False
    then have "jammed_at model k m1" using Cons.prems(3-5) p add_model_jammed(2) [OF m1(1) c(1)] by auto
    then show ?thesis using add_models_jammed [OF m1(2) c(2)] by blast
  qed
qed simp

text \<open>No task reports a boolean under the key: it would count as a number.\<close>

definition no_bool_reported :: "string \<Rightarrow> string \<Rightarrow> pyval \<Rightarrow> bool" where
  "no_bool_reported model k node = (\<not> reports node model k (VBool True) \<and> \<not> reports node model k (VBool False))"

lemma add_task_models:
  assumes "add_task c node = Inr c'" and "no_bool_reported model k node"
  shows "jammed_at model k (rc_models c) \<Longrightarrow> jammed_at model k (rc_models c') \<and> (\<forall>v. reports node model k v \<longrightarrow> jams v)"
    and "reports node model k v \<Longrightarrow> jams v \<Longrightarrow> jammed_at model k (rc_models c')"
proof -
  have "(jammed_at model k (rc_models c) \<longrightarrow> jammed_at model k (rc_models c') \<and> (\<forall>v. reports node model k v \<longrightarrow> jams v))
      \<and> (\<forall>v. reports node model k v \<longrightarrow> jams v \<longrightarrow> jammed_at model k (rc_models c'))"
  proof (cases node)
    case (VDict n)
    obtain t where t: "task_metrics_share (vget n ''metrics'') = Inr t" "rfold add_model (rc_models c) (ts_models t) = Inr (rc_models c')"
      using assms(1) by (auto simp: VDict add_task_def Let_def split: sum.splits)
    have r: "reports node model k v \<longleftrightarrow> (\<exists>vs. (model, vs) \<in> set (ts_models t) \<and> (k, v) \<in> set vs)" for v
      by (auto simp: reports_def VDict t(1) list_ex_iff)
    have "v \<noteq> VBool b" if "(model, vs) \<in> set (ts_models t)" "(k, v) \<in> set vs" for vs v b
      using assms(2) that by (cases b) (auto simp: no_bool_reported_def r)
    then have c: "clean_models model k (ts_models t)"
      using jams_cases(1) by (fastforce simp: clean_models_def no_bool_def)
    show ?thesis using add_models_jammed [OF t(2) c] add_models_jam [OF t(2) c] by (auto simp: r)
  qed (use assms(1) in \<open>auto simp: add_task_def reports_def\<close>)
  then show "jammed_at model k (rc_models c) \<Longrightarrow> jammed_at model k (rc_models c') \<and> (\<forall>v. reports node model k v \<longrightarrow> jams v)"
    and "reports node model k v \<Longrightarrow> jams v \<Longrightarrow> jammed_at model k (rc_models c')" by blast+
qed

lemma add_tasks_jammed:
  "rfold add_task c xs = Inr c' \<Longrightarrow> \<forall>x \<in> set xs. no_bool_reported model k x \<Longrightarrow> jammed_at model k (rc_models c) \<Longrightarrow>
    jammed_at model k (rc_models c')"
proof (induction xs arbitrary: c)
  case (Cons x xs)
  obtain c1 where c1: "add_task c x = Inr c1" "rfold add_task c1 xs = Inr c'" using Cons.prems(1) by (auto split: sum.splits)
  have "jammed_at model k (rc_models c1)" using add_task_models(1) [OF c1(1)] Cons.prems(2,3) by auto
  with Cons.IH [OF c1(2)] Cons.prems(2) show ?case by auto
qed simp

lemma mixed_contribution:
  assumes "vget snap ''task_nodes'' = VDict nodes" and "dvals nodes = xs @ n1 # ys @ n2 # zs"
    and "reports n1 model k (VStr x)" and "reports n2 model k v" and "is_number v" and "\<forall>n \<in> set (dvals nodes). no_bool_reported model k n"
  shows "\<exists>e. run_contribution snap = Inl e"
proof (rule ccontr)
  assume "\<nexists>e. run_contribution snap = Inl e"
  then obtain c where c: "run_contribution snap = Inr c" by (cases "run_contribution snap") auto
  have "or_empty (VDict nodes) = Inr nodes" by (cases nodes) (auto simp: or_empty_def)
  then have "rfold add_task (start_share snap) (dvals nodes) = Inr c"
    using c assms(1) by (simp add: run_contribution_def start_share_def)
  then obtain c1 c2 c3 c4 where f: "add_task c1 n1 = Inr c2" "rfold add_task c2 ys = Inr c3" "add_task c3 n2 = Inr c4"
    by (auto simp: assms(2) rfold_append split: sum.splits)
  have nb: "no_bool_reported model k n1" "\<forall>n \<in> set ys. no_bool_reported model k n" "no_bool_reported model k n2"
    using assms(2,6) by auto
  have "jammed_at model k (rc_models c2)" by (rule add_task_models(2) [OF f(1) nb(1) assms(3)]) (simp add: jams_def)
  then have "jammed_at model k (rc_models c3)" by (rule add_tasks_jammed [OF f(2) nb(2)])
  then have "jams v" using add_task_models(1) [OF f(3) nb(3)] assms(4) by blast
  then show False using assms(5) jams_cases(2) by blast
qed

lemma collect_raises: "(\<And>m. collect_run m y = Inl e) \<Longrightarrow> y \<in> set ys \<Longrightarrow> \<exists>x. rfold collect_run m ys = Inl x"
proof (induction ys arbitrary: m)
  case (Cons z zs)
  then show ?case by (cases "collect_run m z") auto
qed simp

text \<open>C38: when a task of a run reports a text under a key of a model, and a task after it in the run's order reports a number under the
  same key of the same model, then saving the run, with its snapshot written, raises, and, as the snapshot is on disk by then, the
  core cannot start again, whatever other runs are saved. No task reports a boolean under that key, which would count as a number;
  in the other order, the text only replaces the sum.\<close>

theorem mixed_metrics_block_start:
  assumes "vget snap ''task_nodes'' = VDict nodes" and "dvals nodes = ts1 @ n1 # ts2 @ n2 # ts3"
    and "reports n1 model k (VStr x)" and "reports n2 model k v" and "is_number v" and "\<forall>n \<in> set (dvals nodes). no_bool_reported model k n"
    and "vget snap ''run_id'' = VStr rid" and "rid \<noteq> []" and "save_and_sync Written snap (s, m) = ((s', m'), r)"
  shows "(\<exists>e. r = Inl e) \<and> m' = m \<and> map_of (run_files s') rid = Some (static_payload snap)
    \<and> (\<exists>e. rebuild (static_list_runs s') no_metrics = Inl e)"
proof -
  obtain e where e: "run_contribution snap = Inl e" using mixed_contribution [OF assms(1-6)] by blast
  have s: "run_files (fst (static_save_run Written rid snap s)) = dput rid (static_payload snap) (run_files s)"
    "snd (static_save_run Written rid snap s) = Inr ()"
    by (simp_all add: static_save_run_def forget_def Let_def)
  have "sync_run snap m = Inl e" using assms(7,8) e by (simp add: sync_run_def)
  then have r: "r = Inl e" "m' = m" "run_files s' = dput rid (static_payload snap) (run_files s)"
    using assms(7,9) s by (auto simp: save_and_sync_def split: prod.splits)
  have c: "collect_run m0 (static_payload snap) = Inl e" for m0
    using e assms(7,8) payload_same(1) [of snap] by (simp add: collect_run_def sync_run_def static_payload_def)
  have "map_of (run_files s') rid = Some (static_payload snap)" by (simp add: r(3))
  then have "static_payload snap \<in> set (static_list_runs s')"
    by (force simp: static_list_runs_def dvals_def dest: map_of_SomeD)
  then have "\<exists>e. rebuild (static_list_runs s') no_metrics = Inl e"
    using collect_raises [OF c] by (simp add: rebuild_def)
  then show ?thesis using r by simp
qed

section \<open>Samples\<close>

definition sample_metric_run :: "string \<Rightarrow> pyval \<Rightarrow> pyval \<Rightarrow> event" where
  "sample_metric_run rid x y =
     [(''run_id'', VStr rid), (''workflow_id'', VStr ''w''), (''status'', VStr ''failed''), (''events'', VList []),
      (''task_nodes'', VDict
        [(''a'', VDict [(''status'', VStr ''succeeded''), (''metrics'', VDict [(''by_model'', VDict [(''m'', VDict [(''cost'', x)])])])]),
         (''b'', VDict [(''status'', VStr ''failed''), (''metrics'', VDict [(''by_model'', VDict [(''m'', VDict [(''cost'', y)])])])])])]"

definition sample_saves :: "event list" where
  "sample_saves = [sample_metric_run ''r'' (VInt 1) (VInt 2), sample_metric_run ''q'' (VInt 3) (VStr ''unknown''), sample_metric_run ''r'' (VInt 4) (VInt 2)]"

lemma sample_saves_done:
  "(case save_all sample_saves (no_store, no_metrics) of Inr (s, m) \<Rightarrow> map fst (gm_runs m) | Inl _ \<Rightarrow> []) = [''r'', ''q'']"
  by code_simp

lemma sample_totals_done:
  "(case save_all sample_saves (no_store, no_metrics) of
      Inr (s, m) \<Rightarrow> (case metrics_snapshot m of Inr g \<Rightarrow> Some (gt_finished g, gt_models g, length (gm_runs m)) | Inl _ \<Rightarrow> None) | Inl _ \<Rightarrow> None)
    = Some (4, [(''m'', [(''cost'', VStr ''unknown'')])], 2)"
  by code_simp

theorem restart_metrics_equal_witness:
  "case save_all sample_saves (no_store, no_metrics) of
     Inr (s, m) \<Rightarrow> map fst (gm_runs m) = [''r'', ''q''] \<and>
       (\<exists>m'. rebuild (static_list_runs s) no_metrics = Inr m' \<and> map_of (gm_runs m') = map_of (gm_runs m))
   | Inl _ \<Rightarrow> False"
  using sample_saves_done restart_metrics_equal [of sample_saves] by (auto split: sum.splits)

theorem totals_add_up_witness:
  "case save_all sample_saves (no_store, no_metrics) of
     Inr (s, m) \<Rightarrow>
       (case metrics_snapshot m of Inr g \<Rightarrow> sum_list (dvals (gt_runs g)) = 2 \<and> gt_finished g = 4 | Inl _ \<Rightarrow> False)
   | Inl _ \<Rightarrow> False"
  using sample_totals_done totals_add_up [of sample_saves] by (auto split: sum.splits)

definition sample_mixed :: event where
  "sample_mixed = sample_metric_run ''q'' (VStr ''unknown'') (VInt 3)"

lemma sample_mixed_facts:
  "vget sample_mixed ''run_id'' = VStr ''q''"
  "vget sample_mixed ''task_nodes'' = VDict
      [(''a'', VDict [(''status'', VStr ''succeeded''), (''metrics'', VDict [(''by_model'', VDict [(''m'', VDict [(''cost'', VStr ''unknown'')])])])]),
       (''b'', VDict [(''status'', VStr ''failed''), (''metrics'', VDict [(''by_model'', VDict [(''m'', VDict [(''cost'', VInt 3)])])])])]"
  by (simp_all add: sample_mixed_def sample_metric_run_def vget_def)

lemma sample_reports:
  "reports (VDict [(''status'', s), (''metrics'', VDict [(''by_model'', VDict [(''m'', VDict [(''cost'', x)])])])]) ''m'' ''cost'' y \<longleftrightarrow> y = x"
  by (auto simp: reports_def vget_def dgetd_def task_metrics_share_def add_number_def is_number_def nested_models_def dput_def)

theorem mixed_metrics_block_start_witness:
  "case save_and_sync Written sample_mixed (no_store, no_metrics) of
     ((s, m), r) \<Rightarrow> (\<exists>e. r = Inl e) \<and> m = no_metrics \<and> (\<exists>e. rebuild (static_list_runs s) no_metrics = Inl e)"
proof -
  obtain s m r where o: "save_and_sync Written sample_mixed (no_store, no_metrics) = ((s, m), r)" by (metis prod.exhaust)
  let ?n = "\<lambda>s x. VDict [(''status'', VStr s), (''metrics'', VDict [(''by_model'', VDict [(''m'', VDict [(''cost'', x)])])])]"
  have d: "dvals [(''a'', ?n ''succeeded'' (VStr ''unknown'')), (''b'', ?n ''failed'' (VInt 3))]
      = [] @ ?n ''succeeded'' (VStr ''unknown'') # [] @ ?n ''failed'' (VInt 3) # []"
    by (simp add: dvals_def)
  have b: "\<forall>x \<in> set (dvals [(''a'', ?n ''succeeded'' (VStr ''unknown'')), (''b'', ?n ''failed'' (VInt 3))]). no_bool_reported ''m'' ''cost'' x"
    by (simp add: no_bool_reported_def sample_reports dvals_def)
  from mixed_metrics_block_start [OF sample_mixed_facts(2) d _ _ _ b sample_mixed_facts(1) _ o] o show ?thesis
    by (simp add: is_number_def sample_reports)
qed

end
