(* ===== verification/Run_Inputs.thy ===== *)
theory Run_Inputs
  imports Event_Log Dag_Spec
begin

text \<open>
  The inputs of a run (\<open>_run_input_ref\<close>, \<open>_resolve_run_input_refs\<close> and \<open>_bind_workflow_run_inputs\<close> of
  \<open>maze/core/path/path.py\<close>): a submission gives values for the run inputs a workflow declares, and every reference to one in
  a task's parameters is replaced by its value. The workflow that is bound is a copy, so nothing of a refused submission is kept.
\<close>

section \<open>References\<close>

definition run_input_ref :: "pyval \<Rightarrow> string option result" where
  "run_input_ref v =
     (case v of
        VDict d \<Rightarrow>
          (if \<not> dhas ''__maze_run_input__'' d then Inr None
           else if vget d ''__maze_run_input__'' \<noteq> VBool True \<or> set (dkeys d) \<noteq> {''__maze_run_input__'', ''key''}
               \<or> \<not> is_str (vget d ''key'') \<or> \<not> truthy (vget d ''key'')
           then Inl (ValueError ''Malformed workflow run input reference'')
           else Inr (Some (py_str (vget d ''key''))))
      | _ \<Rightarrow> Inr None)"

text \<open>The value with its references replaced, and the names that were used.\<close>

fun resolve_run_input_refs :: "event \<Rightarrow> pyval \<Rightarrow> (pyval \<times> string list) result" where
  "resolve_run_input_refs inputs (VDict d) =
     (case run_input_ref (VDict d) of
        Inl x \<Rightarrow> Inl x
      | Inr (Some key) \<Rightarrow>
          (case map_of inputs key of
             None \<Rightarrow> Inl (ValueError (''Workflow run input contract mismatch: '' @ key)) | Some v \<Rightarrow> Inr (v, [key]))
      | Inr None \<Rightarrow>
          rbind (rmap (\<lambda>(k, v). rbind (resolve_run_input_refs inputs v) (\<lambda>(x, ks). Inr ((k, x), ks))) d) (\<lambda>ps.
            Inr (VDict (map fst ps), concat (map snd ps))))"
| "resolve_run_input_refs inputs (VList xs) =
     rbind (rmap (resolve_run_input_refs inputs) xs) (\<lambda>ps. Inr (VList (map fst ps), concat (map snd ps)))"
| "resolve_run_input_refs inputs v = Inr (v, [])"

section \<open>Binding\<close>

definition bind_entry :: "event \<Rightarrow> string \<times> pyval \<Rightarrow> ((string \<times> pyval) \<times> string list) result" where
  "bind_entry eff kv =
     (case snd kv of
        VDict d \<Rightarrow>
          (if vget d ''input_schema'' \<noteq> VStr ''from_run'' then Inr (kv, [])
           else rbind (resolve_run_input_refs eff (vget d ''value'')) (\<lambda>(x, ks).
             if ks = [] then Inl (ValueError ''Malformed workflow run input reference'')
             else Inr ((fst kv, VDict (dput ''has_value'' (VBool True) (dput ''input_schema'' (VStr ''from_user'') (dput ''value'' x d)))), ks)))
      | _ \<Rightarrow> Inl (AttributeError ''get''))"

definition bind_task_input :: "event \<Rightarrow> pyval \<Rightarrow> (pyval \<times> string list) result" where
  "bind_task_input eff v =
     (if \<not> truthy v then Inr (v, [])
      else case v of
        VDict ti \<Rightarrow>
          (case map_of ti ''input_params'' of
             None \<Rightarrow> Inr (v, [])
           | Some (VDict ps) \<Rightarrow>
               rbind (rmap (bind_entry eff) ps) (\<lambda>qs.
                 Inr (VDict (dput ''input_params'' (VDict (map fst qs)) ti), concat (map snd qs)))
           | Some _ \<Rightarrow> Inl (AttributeError ''values''))
      | _ \<Rightarrow> Inl (AttributeError ''get''))"

definition bind_task :: "event \<Rightarrow> string \<times> code_task \<Rightarrow> ((string \<times> code_task) \<times> string list) result" where
  "bind_task eff kt =
     rbind (bind_task_input eff (ct_input (snd kt))) (\<lambda>(v, ks). Inr ((fst kt, (snd kt)\<lparr>ct_input := v\<rparr>), ks))"

text \<open>The contract of the workflow: the names the template fixes, and the inputs of a run.\<close>

definition run_contract :: "pyval \<Rightarrow> (string list \<times> event) result" where
  "run_contract v =
     (case v of
        VNone \<Rightarrow> Inr ([], [])
      | VDict c \<Rightarrow>
          (case (strings_of (vget c ''constants''), vget c ''runtime'') of
             (Some cs, VDict rt) \<Rightarrow> Inr (cs, rt) | _ \<Rightarrow> Inl (TypeError ''workflow_input_contract''))
      | _ \<Rightarrow> Inl (TypeError ''workflow_input_contract''))"

definition is_required :: "pyval \<Rightarrow> bool" where
  "is_required spec = truthy (vget (dict_or_empty spec) ''required'')"

definition check_inputs :: "string list \<Rightarrow> event \<Rightarrow> event \<Rightarrow> unit result" where
  "check_inputs constants runtime inputs =
     (let conflicts = sort (filter (\<lambda>k. k \<in> set constants) (dkeys inputs));
          unknown = sort (filter (\<lambda>k. k \<notin> set constants \<and> \<not> dhas k runtime) (dkeys inputs));
          missing = sort (map fst (filter (\<lambda>(k, spec). is_required spec \<and> \<not> dhas k inputs) runtime))
      in if conflicts \<noteq> [] then Inl (ValueError (''Run inputs cannot override template constants: '' @ join_with '', '' conflicts))
         else if unknown \<noteq> [] then Inl (ValueError (''Unknown workflow run inputs: '' @ join_with '', '' unknown))
         else if missing \<noteq> [] then Inl (ValueError (''Missing workflow run inputs: '' @ join_with '', '' missing))
         else Inr ())"

definition effective_input :: "event \<Rightarrow> string \<times> pyval \<Rightarrow> (string \<times> pyval) result" where
  "effective_input inputs ks =
     (case map_of inputs (fst ks) of
        Some v \<Rightarrow> Inr (fst ks, v)
      | None \<Rightarrow> (case map_of (dict_or_empty (snd ks)) ''default'' of Some v \<Rightarrow> Inr (fst ks, v) | None \<Rightarrow> Inl (KeyError ''default'')))"

definition given_inputs :: "pyval \<Rightarrow> event result" where
  "given_inputs v = (case v of VNone \<Rightarrow> Inr [] | VDict d \<Rightarrow> Inr d | _ \<Rightarrow> Inl (TypeError ''run inputs must be a dictionary''))"

definition mismatches :: "string list \<Rightarrow> string list \<Rightarrow> string list" where
  "mismatches names referenced =
     sort (remdups (filter (\<lambda>k. k \<notin> set names) referenced @ filter (\<lambda>k. k \<notin> set referenced) names))"

definition bind_workflow_run_inputs :: "pyval \<Rightarrow> pyval \<Rightarrow> workflow \<Rightarrow> (workflow \<times> event) result" where
  "bind_workflow_run_inputs contract inputs w =
     rbind (given_inputs inputs) (\<lambda>ins.
     rbind (run_contract contract) (\<lambda>(constants, runtime).
     rbind (check_inputs constants runtime ins) (\<lambda>_.
     rbind (rmap (effective_input ins) runtime) (\<lambda>eff.
     rbind (rmap (bind_task eff) (tasks w)) (\<lambda>ts.
       let mismatched = mismatches (dkeys runtime) (concat (map snd ts))
       in if mismatched \<noteq> [] then Inl (ValueError (''Workflow run input contract mismatch: '' @ join_with '', '' mismatched))
          else Inr (w\<lparr>tasks := map fst ts\<rparr>, eff))))))"

section \<open>Substitution, without errors\<close>

text \<open>The references in a value, and the value with them replaced.\<close>

fun refs_in :: "pyval \<Rightarrow> string list" where
  "refs_in (VDict d) = (if dhas ''__maze_run_input__'' d then [py_str (vget d ''key'')] else concat (map (\<lambda>(k, v). refs_in v) d))"
| "refs_in (VList xs) = concat (map refs_in xs)"
| "refs_in v = []"

fun plug :: "event \<Rightarrow> pyval \<Rightarrow> pyval" where
  "plug eff (VDict d) =
     (if dhas ''__maze_run_input__'' d then vget eff (py_str (vget d ''key'')) else VDict (map (\<lambda>(k, v). (k, plug eff v)) d))"
| "plug eff (VList xs) = VList (map (plug eff) xs)"
| "plug eff v = v"

lemma map_of_dhas: "map_of d k = (if dhas k d then Some (vget d k) else None)"
  by (simp add: dhas_iff vget_def dgetd_def split: option.split)

text \<open>Resolving a value is validating it (\<open>_validate_run_input_refs\<close> of the DAG specification), looking its references up, and
  replacing them.\<close>

lemma rmap_iff:
  assumes "\<And>x y. x \<in> set xs \<Longrightarrow> f x = Inr y \<longleftrightarrow> P x \<and> y = h x"
  shows "rmap f xs = Inr ys \<longleftrightarrow> (\<forall>x \<in> set xs. P x) \<and> ys = map h xs"
  using assms by (induction xs arbitrary: ys) auto

lemma ref_validated:
  "dhas ''__maze_run_input__'' d \<Longrightarrow>
    run_input_ref (VDict d) = (if validate_run_input_refs (VDict d) = Inr 1 then Inr (Some (py_str (vget d ''key'')))
      else Inl (ValueError ''Malformed workflow run input reference''))"
  by (auto simp: run_input_ref_def)

lemma rmap_some: "(\<exists>ys. rmap f xs = Inr ys) \<longleftrightarrow> (\<forall>x \<in> set xs. \<exists>y. f x = Inr y)"
  by (induction xs) auto

definition well_formed_refs :: "pyval \<Rightarrow> bool" where
  "well_formed_refs v = (\<exists>n. validate_run_input_refs v = Inr n)"

lemma well_formed_dict: "\<not> dhas ''__maze_run_input__'' d \<Longrightarrow> well_formed_refs (VDict d) = (\<forall>kv \<in> set d. well_formed_refs (snd kv))"
  by (auto simp: well_formed_refs_def rmap_some)

lemma well_formed_list: "well_formed_refs (VList xs) = (\<forall>x \<in> set xs. well_formed_refs x)"
  by (auto simp: well_formed_refs_def rmap_some)

lemma refs_dict: "\<not> dhas ''__maze_run_input__'' d \<Longrightarrow> refs_in (VDict d) = concat (map (\<lambda>kv. refs_in (snd kv)) d)"
  by (simp add: case_prod_unfold)

lemma plug_dict: "\<not> dhas ''__maze_run_input__'' d \<Longrightarrow> plug eff (VDict d) = VDict (map (\<lambda>kv. (fst kv, plug eff (snd kv))) d)"
  by (simp add: case_prod_unfold)

text \<open>The references of a value are well formed and are among the given names.\<close>

definition resolvable :: "event \<Rightarrow> pyval \<Rightarrow> bool" where
  "resolvable eff v = (well_formed_refs v \<and> set (refs_in v) \<subseteq> set (dkeys eff))"

lemma resolve_spec: "resolve_run_input_refs eff v = Inr y \<longleftrightarrow> resolvable eff v \<and> y = (plug eff v, refs_in v)"
proof (induction eff v arbitrary: y rule: resolve_run_input_refs.induct)
  case (1 eff d)
  show ?case
  proof (cases "dhas ''__maze_run_input__'' d")
    case True
    have w: "well_formed_refs (VDict d) = (validate_run_input_refs (VDict d) = Inr 1)"
      using True by (auto simp: well_formed_refs_def)
    show ?thesis
      using True unfolding resolvable_def w resolve_run_input_refs.simps ref_validated [OF True]
      by (auto simp: map_of_dhas dhas_dkeys split: option.split)
  next
    case False
    have r: "run_input_ref (VDict d) = Inr None" using False by (simp add: run_input_ref_def)
    let ?f = "\<lambda>(k, v). rbind (resolve_run_input_refs eff v) (\<lambda>(x, ks). Inr ((k, x), ks))"
    let ?h = "\<lambda>kv. ((fst kv, plug eff (snd kv)), refs_in (snd kv))"
    have p: "rmap ?f d = Inr ps \<longleftrightarrow> (\<forall>kv \<in> set d. resolvable eff (snd kv)) \<and> ps = map ?h d" for ps
    proof (rule rmap_iff)
      fix kv y assume "kv \<in> set d"
      from 1 [OF r refl this] show "?f kv = Inr y \<longleftrightarrow> resolvable eff (snd kv) \<and> y = ?h kv" by (cases kv) auto
    qed
    have "resolvable eff (VDict d) = (\<forall>kv \<in> set d. resolvable eff (snd kv))"
      by (auto simp: resolvable_def well_formed_dict [OF False] refs_dict [OF False] simp del: refs_in.simps)
    then show ?thesis
      by (auto simp: r p refs_dict [OF False] plug_dict [OF False] comp_def simp del: refs_in.simps plug.simps)
  qed
next
  case (2 eff xs)
  have "rmap (resolve_run_input_refs eff) xs = Inr ps \<longleftrightarrow> (\<forall>v \<in> set xs. resolvable eff v) \<and> ps = map (\<lambda>v. (plug eff v, refs_in v)) xs" for ps
    by (rule rmap_iff) (use 2 in auto)
  moreover have "resolvable eff (VList xs) = (\<forall>v \<in> set xs. resolvable eff v)" by (auto simp: resolvable_def well_formed_list)
  ultimately show ?case by (auto simp: comp_def)
qed (auto simp: resolvable_def well_formed_refs_def)

lemma validate_counts: "validate_run_input_refs v = Inr n \<Longrightarrow> n = length (refs_in v)"
proof (induction v arbitrary: n rule: validate_run_input_refs.induct)
  case (1 d)
  show ?case
  proof (cases "dhas ''__maze_run_input__'' d")
    case False
    then obtain ns where ns: "rmap (\<lambda>(k, v). validate_run_input_refs v) d = Inr ns" "n = sum_list ns" using 1(2) by auto
    have "rmap (\<lambda>(k, v). validate_run_input_refs v) e = Inr ns \<Longrightarrow> set e \<subseteq> set d \<Longrightarrow> sum_list ns = length (concat (map (\<lambda>kv. refs_in (snd kv)) e))" for e ns
      using 1(1) [OF False] by (induction e arbitrary: ns) (fastforce split: prod.splits)+
    from this [OF ns(1)] ns(2) show ?thesis by (simp add: refs_dict [OF False] del: refs_in.simps)
  qed (use 1(2) in \<open>auto split: if_splits\<close>)
next
  case (2 xs)
  then obtain ns where ns: "rmap validate_run_input_refs xs = Inr ns" "n = sum_list ns" by auto
  have "rmap validate_run_input_refs ys = Inr ns \<Longrightarrow> set ys \<subseteq> set xs \<Longrightarrow> sum_list ns = length (concat (map refs_in ys))" for ys ns
    using 2(1) by (induction ys arbitrary: ns) auto
  from this [OF ns(1)] ns(2) show ?case by simp
qed auto

section \<open>Parameters, tasks and workflows\<close>

definition entry_refs :: "string \<times> pyval \<Rightarrow> string list" where
  "entry_refs kv = (let d = dict_or_empty (snd kv) in if vget d ''input_schema'' = VStr ''from_run'' then refs_in (vget d ''value'') else [])"

definition entry_ok :: "pyval \<Rightarrow> bool" where
  "entry_ok v =
     (case v of
        VDict d \<Rightarrow> vget d ''input_schema'' = VStr ''from_run'' \<longrightarrow> well_formed_refs (vget d ''value'') \<and> refs_in (vget d ''value'') \<noteq> []
      | _ \<Rightarrow> False)"

definition plug_entry :: "event \<Rightarrow> string \<times> pyval \<Rightarrow> string \<times> pyval" where
  "plug_entry eff kv =
     (let d = dict_or_empty (snd kv) in
      if vget d ''input_schema'' = VStr ''from_run''
      then (fst kv, VDict (dput ''has_value'' (VBool True) (dput ''input_schema'' (VStr ''from_user'') (dput ''value'' (plug eff (vget d ''value'')) d))))
      else kv)"

definition task_entries :: "code_task \<Rightarrow> event" where
  "task_entries t = dict_or_empty (vget (dict_or_empty (ct_input t)) ''input_params'')"

definition plug_task :: "event \<Rightarrow> string \<times> code_task \<Rightarrow> string \<times> code_task" where
  "plug_task eff kt = (fst kt, (snd kt)\<lparr>ct_input := VDict [(''input_params'', VDict (map (plug_entry eff) (task_entries (snd kt))))]\<rparr>)"

definition task_ok :: "code_task \<Rightarrow> bool" where
  "task_ok t = (ct_input t = VDict [(''input_params'', VDict (task_entries t))] \<and> (\<forall>kv \<in> set (task_entries t). entry_ok (snd kv)))"

definition task_refs :: "string \<times> code_task \<Rightarrow> string list" where
  "task_refs kt = concat (map entry_refs (task_entries (snd kt)))"

definition workflow_refs :: "workflow \<Rightarrow> string list" where
  "workflow_refs w = concat (map task_refs (tasks w))"

lemma bind_entry_spec:
  assumes "entry_ok (snd kv)"
  shows "bind_entry eff kv = Inr y \<longleftrightarrow> set (entry_refs kv) \<subseteq> set (dkeys eff) \<and> y = (plug_entry eff kv, entry_refs kv)"
proof -
  obtain d where "snd kv = VDict d" using assms by (auto simp: entry_ok_def split: pyval.splits)
  then show ?thesis
    using assms by (auto simp: bind_entry_def entry_ok_def entry_refs_def plug_entry_def resolve_spec resolvable_def Let_def dict_or_empty_def)
qed

lemma bind_task_spec:
  assumes "task_ok (snd kt)"
  shows "bind_task eff kt = Inr y \<longleftrightarrow> set (task_refs kt) \<subseteq> set (dkeys eff) \<and> y = (plug_task eff kt, task_refs kt)"
proof -
  let ?ps = "task_entries (snd kt)"
  have t: "ct_input (snd kt) = VDict [(''input_params'', VDict ?ps)]" "\<And>kv. kv \<in> set ?ps \<Longrightarrow> entry_ok (snd kv)"
    using assms by (simp_all add: task_ok_def)
  have "rmap (bind_entry eff) ?ps = Inr qs \<longleftrightarrow> (\<forall>kv \<in> set ?ps. set (entry_refs kv) \<subseteq> set (dkeys eff)) \<and> qs = map (\<lambda>kv. (plug_entry eff kv, entry_refs kv)) ?ps" for qs
    by (rule rmap_iff) (simp add: bind_entry_spec t(2))
  then show ?thesis
    unfolding bind_task_def bind_task_input_def t(1)
    by (auto simp: plug_task_def task_refs_def comp_def dput_def)
qed

text \<open>The inputs a submission may give, and those that take effect.\<close>

definition inputs_fit :: "string list \<Rightarrow> event \<Rightarrow> event \<Rightarrow> bool" where
  "inputs_fit constants runtime inputs =
     (set (dkeys inputs) \<inter> set constants = {} \<and> set (dkeys inputs) \<subseteq> set (dkeys runtime)
      \<and> (\<forall>(k, spec) \<in> set runtime. is_required spec \<longrightarrow> dhas k inputs))"

definition effective_inputs :: "event \<Rightarrow> event \<Rightarrow> event" where
  "effective_inputs runtime inputs = map (\<lambda>(k, spec). (k, vgetd inputs k (vget (dict_or_empty spec) ''default''))) runtime"

text \<open>An optional input has a default (\<open>normalize_input_contract\<close> checks it).\<close>

definition defaults_given :: "event \<Rightarrow> bool" where
  "defaults_given runtime = (\<forall>(k, spec) \<in> set runtime. \<not> is_required spec \<longrightarrow> dhas ''default'' (dict_or_empty spec))"

lemma sort_Nil [simp]: "sort xs = [] \<longleftrightarrow> xs = []"
  by (metis length_0_conv length_sort)

lemma mismatches_Nil: "mismatches xs ys = [] \<longleftrightarrow> set ys = set xs"
  by (auto simp: mismatches_def filter_empty_conv)

lemma check_inputs_spec:
  "check_inputs constants runtime inputs = Inr () \<longleftrightarrow> inputs_fit constants runtime inputs"
  by (auto simp: check_inputs_def inputs_fit_def Let_def filter_empty_conv dhas_dkeys)

lemma effective_spec:
  assumes "defaults_given runtime" and "\<forall>(k, spec) \<in> set runtime. is_required spec \<longrightarrow> dhas k inputs"
  shows "rmap (effective_input inputs) runtime = Inr (effective_inputs runtime inputs)"
proof -
  have "effective_input inputs x = Inr y \<longleftrightarrow> True \<and> y = (\<lambda>(k, spec). (k, vgetd inputs k (vget (dict_or_empty spec) ''default''))) x"
    if x: "x \<in> set runtime" for x y
  proof -
    obtain k spec where [simp]: "x = (k, spec)" by fastforce
    have "dhas k inputs \<or> dhas ''default'' (dict_or_empty spec)" using assms x by (auto simp: defaults_given_def)
    then show ?thesis
      by (auto simp: effective_input_def vget_def dgetd_def dhas_iff split: option.split)
  qed
  then have "rmap (effective_input inputs) runtime = Inr ys \<longleftrightarrow> (\<forall>x \<in> set runtime. True) \<and> ys = effective_inputs runtime inputs" for ys
    using rmap_iff [of runtime "effective_input inputs" "\<lambda>_. True"
        "\<lambda>(k, spec). (k, vgetd inputs k (vget (dict_or_empty spec) ''default''))" ys]
    by (simp add: effective_inputs_def)
  then show ?thesis by simp
qed

lemma effective_keys [simp]: "dkeys (effective_inputs runtime inputs) = dkeys runtime"
  by (simp add: effective_inputs_def dkeys_def comp_def case_prod_beta)

definition plug_workflow :: "event \<Rightarrow> workflow \<Rightarrow> workflow" where
  "plug_workflow eff w = w\<lparr>tasks := map (plug_task eff) (tasks w)\<rparr>"

lemma bind_spec:
  assumes "\<forall>kt \<in> set (tasks w). task_ok (snd kt)" and "run_contract contract = Inr (constants, runtime)" and "defaults_given runtime"
  shows "bind_workflow_run_inputs contract (VDict inputs) w = Inr y \<longleftrightarrow>
    inputs_fit constants runtime inputs \<and> set (workflow_refs w) = set (dkeys runtime)
      \<and> y = (plug_workflow (effective_inputs runtime inputs) w, effective_inputs runtime inputs)"
proof (cases "inputs_fit constants runtime inputs")
  case True
  let ?eff = "effective_inputs runtime inputs"
  have e: "rmap (effective_input inputs) runtime = Inr ?eff"
    by (rule effective_spec [OF assms(3)]) (use True in \<open>simp add: inputs_fit_def\<close>)
  have t: "rmap (bind_task ?eff) (tasks w) = Inr ts \<longleftrightarrow> (\<forall>kt \<in> set (tasks w). set (task_refs kt) \<subseteq> set (dkeys runtime))
      \<and> ts = map (\<lambda>kt. (plug_task ?eff kt, task_refs kt)) (tasks w)" for ts
    by (rule rmap_iff) (use assms(1) in \<open>simp add: bind_task_spec\<close>)
  have r: "concat (map snd (map (\<lambda>kt. (plug_task ?eff kt, task_refs kt)) (tasks w))) = workflow_refs w"
    by (simp add: workflow_refs_def comp_def)
  have s: "(\<forall>kt \<in> set (tasks w). set (task_refs kt) \<subseteq> set (dkeys runtime)) \<longleftrightarrow> set (workflow_refs w) \<subseteq> set (dkeys runtime)"
    by (auto simp: workflow_refs_def)
  show ?thesis
  proof (cases "set (workflow_refs w) \<subseteq> set (dkeys runtime)")
    case False
    then have "rmap (bind_task ?eff) (tasks w) \<noteq> Inr ts" for ts using t s by simp
    then show ?thesis
      using False True check_inputs_spec [of constants runtime inputs]
      by (auto simp: bind_workflow_run_inputs_def given_inputs_def assms(2) e)
  next
    case sub: True
    then have "rmap (bind_task ?eff) (tasks w) = Inr (map (\<lambda>kt. (plug_task ?eff kt, task_refs kt)) (tasks w))" using t s by simp
    moreover have "map fst (map (\<lambda>kt. (plug_task ?eff kt, task_refs kt)) (tasks w)) = map (plug_task ?eff) (tasks w)" by simp
    ultimately show ?thesis
      using True check_inputs_spec [of constants runtime inputs] r mismatches_Nil [of "dkeys runtime" "workflow_refs w"]
      by (auto simp: bind_workflow_run_inputs_def given_inputs_def assms(2) e Let_def plug_workflow_def simp del: map_map)
  qed
next
  case False
  then show ?thesis
    using check_inputs_spec [of constants runtime inputs]
    by (auto simp: bind_workflow_run_inputs_def given_inputs_def assms(2))
qed

section \<open>The workflows of accepted DAG specifications\<close>

lemma accepted_entry: "normalize_input nid k v = Inr e \<Longrightarrow> entry_ok e"
  by (erule normalize_input_shape) (auto simp: entry_ok_def input_entry_def well_formed_refs_def dest: validate_counts)

definition entries_ok :: "event \<Rightarrow> bool" where
  "entries_ok d = (\<forall>kv \<in> set d. entry_ok (snd kv))"

lemma entries_put: "entries_ok d \<Longrightarrow> entry_ok v \<Longrightarrow> entries_ok (dput k v d)"
  by (auto simp: entries_ok_def dest!: in_dput)

lemma accepted_inputs:
  assumes "normalize_node raw = Inr n"
  shows "entries_ok (node_inputs n)"
proof (rule normalize_node_cases [OF assms])
  fix node nid name inputs outputs kind res code_str code_ser fc ad retries f retry_on timeout meta
  assume i: "normalize_inputs (vor (vget node ''inputs'') (VDict [])) nid = Inr inputs"
    and n: "n = node_dict nid name inputs outputs kind res code_str code_ser fc (if ad = [] then VNone else VDict ad) retries (max0 f) retry_on timeout meta"
  have "node_inputs n = inputs" unfolding node_inputs_def n node_dict_get by (simp add: dict_or_empty_def)
  moreover have "entry_ok (snd kv)" if "kv \<in> set inputs" for kv
  proof -
    obtain d where "rmap (\<lambda>(k, v). rbind (normalize_input nid k v) (\<lambda>e. Inr (k, e))) d = Inr inputs"
      using i by (auto simp: normalize_inputs_def split: pyval.splits)
    from rmap_in [OF this that] show ?thesis using accepted_entry by auto
  qed
  ultimately show ?thesis by (simp add: entries_ok_def)
qed

definition maps_ok :: "(string, event) dict \<Rightarrow> bool" where
  "maps_ok maps = (\<forall>kd \<in> set maps. entries_ok (snd kd))"

lemma maps_put: "maps_ok maps \<Longrightarrow> entries_ok d \<Longrightarrow> maps_ok (dput k d maps)"
  by (auto simp: maps_ok_def dest!: in_dput)

lemma maps_get: "maps_ok maps \<Longrightarrow> entries_ok (dgetd maps k [])"
proof (cases "map_of maps k")
  case (Some d)
  moreover assume "maps_ok maps"
  ultimately show ?thesis using map_of_SomeD [OF Some] by (fastforce simp: maps_ok_def dgetd_def)
qed (simp add: dgetd_def entries_ok_def)

lemma apply_edge_ok:
  assumes "maps_ok maps" and "apply_edge maps e = Inr maps'"
  shows "maps_ok maps'"
proof -
  have "entries_ok (dgetd maps (target_task_id e) [])" by (rule maps_get [OF assms(1)])
  with assms show ?thesis
    by (auto simp: apply_edge_def Let_def entry_ok_def split: if_splits intro!: maps_put entries_put)
qed

lemma numbered_in: "kv \<in> set (Dag_Spec.numbered i xs) \<Longrightarrow> snd kv \<in> set xs"
  by (induction xs arbitrary: i) auto

lemma built_task_ok:
  assumes "maps_ok maps" and "build_task now wid maps node = Inr t"
  shows "task_ok t"
proof -
  have t: "ct_input t = input_params (dgetd maps (node_id_of node) [])"
    using assms(2) by (auto simp: build_task_def save_task_def)
  have "entries_ok (dgetd maps (node_id_of node) [])" by (rule maps_get [OF assms(1)])
  then show ?thesis
    by (auto simp: task_ok_def task_entries_def t input_params_def dict_or_empty_def entries_ok_def dvals_def dest!: numbered_in)
qed

lemma built_tasks_ok:
  assumes "build_dag_workflow is_dag now wid payload = Inr (w, df)"
  obtains s where "dag_spec_from_payload is_dag payload = Inr s" "df = dag_definition_from_spec s" "\<forall>kt \<in> set (tasks w). task_ok (snd kt)"
proof -
  obtain s maps w1 where s: "dag_spec_from_payload is_dag payload = Inr s" "build_task_inputs (ds_nodes s) (ds_edges s) = Inr maps"
    "rfold (\<lambda>w node. rbind (build_task now wid maps node) (\<lambda>t. add_task (node_id_of node) t w)) (empty_workflow wid) (ds_nodes s) = Inr w1"
    "rfold (\<lambda>w e. add_edge is_dag (source_task_id e) (target_task_id e) w) w1 (ds_edges s) = Inr w" "df = dag_definition_from_spec s"
    using assms by (auto simp: build_dag_workflow_def)
  have "maps_ok (map (\<lambda>n. (node_id_of n, node_inputs n)) (ds_nodes s))"
    using spec_node_raw [OF s(1)] accepted_inputs by (fastforce simp: maps_ok_def)
  then have m: "maps_ok maps"
    by (rule rfold_invariant [OF s(2) [unfolded build_task_inputs_def]]) (rule apply_edge_ok)
  have "\<forall>kt \<in> set (tasks w1). task_ok (snd kt)"
  proof (rule rfold_invariant [OF s(3)])
    fix v n v' assume "\<forall>kt \<in> set (tasks v). task_ok (snd kt)" "rbind (build_task now wid maps n) (\<lambda>t. add_task (node_id_of n) t v) = Inr v'"
    then show "\<forall>kt \<in> set (tasks v'). task_ok (snd kt)"
      using built_task_ok [OF m] by (fastforce simp: add_task_def dest!: in_dput split: if_splits)
  qed (simp add: empty_workflow_def)
  then have "\<forall>kt \<in> set (tasks w). task_ok (snd kt)"
    by (rule rfold_invariant [OF s(4)]) (auto simp: add_edge_def Let_def split: if_splits)
  with s(1,5) that show ?thesis by blast
qed

text \<open>The contract of an accepted specification.\<close>

lemma accepted_contract:
  assumes "dag_spec_from_payload is_dag payload = Inr s" and "run_contract (vget (dag_definition_from_spec s) ''input_contract'') = Inr (cs, rt)"
  shows "defaults_given rt"
proof -
  obtain v where v: "normalize_input_contract v = Inr (ds_contract s)" by (rule spec_cases [OF assms(1)])
  have g: "vget (dag_definition_from_spec s) ''input_contract'' = ds_contract s"
    by (simp add: dag_definition_from_spec_def contract_field_def when_has_def)
  show ?thesis
  proof (cases "v = VNone")
    case True
    then show ?thesis using v assms(2) g by (simp add: normalize_input_contract_def run_contract_def defaults_given_def)
  next
    case False
    then obtain cs0 rt0 where c: "list_all (\<lambda>(k, x). runtime_entry_ok x) rt0"
        "ds_contract s = VDict [(''constants'', VList (map VStr (sort cs0))), (''runtime'', VDict rt0)]"
      by (rule contract_cases [OF v])
    then have "rt = rt0" using assms(2) g by (simp add: run_contract_def)
    moreover have "dhas ''default'' (dict_or_empty x)" if "(k, x) \<in> set rt0" "\<not> is_required x" for k x
    proof -
      have "runtime_entry_ok x" using c(1) that(1) by (auto simp: list_all_iff)
      then obtain d b where "x = VDict d" "vget d ''required'' = VBool b" "set (dkeys d) = (if b then {''required''} else {''required'', ''default''})"
        by (auto simp: runtime_entry_ok_def split: pyval.splits)
      then show ?thesis using that(2) by (auto simp: is_required_def dict_or_empty_def dhas_dkeys split: if_splits)
    qed
    ultimately show ?thesis by (auto simp: defaults_given_def)
  qed
qed

text \<open>C26: a run of an accepted DAG workflow is bound exactly when its inputs fit the contract and the parameters refer to all of
  its run inputs and to nothing else; then every reference in a parameter is replaced by the given value or the default, and
  nothing else of the workflow changes.\<close>

theorem run_inputs_exact:
  assumes "build_dag_workflow is_dag now wid payload = Inr (w, df)"
    and "run_contract (vget df ''input_contract'') = Inr (constants, runtime)"
  shows "bind_workflow_run_inputs (vget df ''input_contract'') (VDict inputs) w = Inr y \<longleftrightarrow>
      set (dkeys inputs) \<inter> set constants = {} \<and> set (dkeys inputs) \<subseteq> set (dkeys runtime)
      \<and> (\<forall>(k, spec) \<in> set runtime. is_required spec \<longrightarrow> dhas k inputs)
      \<and> set (workflow_refs w) = set (dkeys runtime)
      \<and> y = (plug_workflow (effective_inputs runtime inputs) w, effective_inputs runtime inputs)"
proof -
  obtain s where s: "dag_spec_from_payload is_dag payload = Inr s" "df = dag_definition_from_spec s"
    "\<forall>kt \<in> set (tasks w). task_ok (snd kt)"
    by (rule built_tasks_ok [OF assms(1)])
  have "defaults_given runtime" using accepted_contract [OF s(1)] assms(2) s(2) by simp
  from bind_spec [OF s(3) assms(2) this] show ?thesis by (simp add: inputs_fit_def)
qed

text \<open>A workflow with a run input that is required and one with a default.\<close>

definition run_ref :: "string \<Rightarrow> pyval" where
  "run_ref k = VDict [(''__maze_run_input__'', VBool True), (''key'', VStr k)]"

definition run_payload :: pyval where
  "run_payload = VDict [(''nodes'', VList [VDict [(''id'', VStr ''a''), (''code'', VStr ''x''), (''outputs'', VList [VStr ''o'']),
       (''resources'', VDict [(''cpu'', VInt 1)]), (''inputs'', VDict [(''x'', VDict [(''input_schema'', VStr ''from_run''),
          (''value'', VList [run_ref ''q'', VDict [(''depth'', run_ref ''n'')]])]), (''y'', VInt 7)])]]),
     (''input_contract'', VDict [(''constants'', VList [VStr ''c'']), (''runtime'', VDict [(''q'', VDict [(''required'', VBool True)]),
        (''n'', VDict [(''required'', VBool False), (''default'', VInt 3)])])])]"

definition run_contract_dict :: event where
  "run_contract_dict = [(''q'', VDict [(''required'', VBool True)]), (''n'', VDict [(''required'', VBool False), (''default'', VInt 3)])]"

definition run_entries :: event where
  "run_entries = [(''x'', input_entry ''x'' ''from_run'' (VList [run_ref ''q'', VDict [(''depth'', run_ref ''n'')]]) ''any'' False),
     (''y'', input_entry ''y'' ''from_user'' (VInt 7) ''any'' True)]"

lemma run_spec: "\<exists>s. dag_spec_from_payload kahn_dag run_payload = Inr s \<and> ds_edges s = []
   \<and> map node_id_of (ds_nodes s) = [''a''] \<and> map node_inputs (ds_nodes s) = [run_entries]
   \<and> ds_contract s = VDict [(''constants'', VList [VStr ''c'']), (''runtime'', VDict run_contract_dict)]"
  by (simp add: dag_spec_from_payload_def run_payload_def ensure_mapping_def as_list_def normalize_node_def
      vor_def node_id_ok_def id_first_def py_strip_def is_space_def normalize_outputs_def parse_output_def dict_copy_def
      sample_semantics normalize_inputs_def normalize_input_def optional_int_def optional_str_list_def optional_float_def Let_def
      node_id_of_def node_dict_def validate_graph_def edge_pairs_def kahn_dag_def first_match_def
      normalize_run_def str_list_def py_iter_def when_has_def normalize_input_contract_def optional_workflow_id_def
      guard_or_def node_inputs_def dict_or_empty_def run_ref_def run_entries_def run_contract_dict_def strings_of_def
      is_str_def runtime_entry_ok_def dkeys_def dhas_def)

lemma run_built:
  "\<exists>w df t. build_dag_workflow kahn_dag 0 ''w'' run_payload = Inr (w, df) \<and> tasks w = [(''a'', t)] \<and> ct_input t = input_params run_entries
     \<and> run_contract (vget df ''input_contract'') = Inr ([''c''], run_contract_dict)"
proof -
  obtain s where s: "dag_spec_from_payload kahn_dag run_payload = Inr s" "ds_edges s = []" "map node_id_of (ds_nodes s) = [''a'']"
    "map node_inputs (ds_nodes s) = [run_entries]" "ds_contract s = VDict [(''constants'', VList [VStr ''c'']), (''runtime'', VDict run_contract_dict)]"
    using run_spec by (elim exE conjE) (rule that)
  obtain n where n: "ds_nodes s = [n]" "node_id_of n = ''a''" "node_inputs n = run_entries"
    using s(3,4) by (cases "ds_nodes s") auto
  obtain t where t: "build_task 0 ''w'' [(''a'', run_entries)] n = Inr t" "ct_id t = ''a''"
    using spec_node_raw [OF s(1), of n] build_task_ok n by fastforce
  have "ct_input t = input_params run_entries"
    using t(1) n(2) by (auto simp: build_task_def save_task_def dgetd_def)
  moreover have "build_dag_workflow kahn_dag 0 ''w'' run_payload =
      Inr (empty_workflow ''w''\<lparr>tasks := [(''a'', t)], g_nodes := [''a''], remaining_task_num := 1\<rparr>, dag_definition_from_spec s)"
    using t by (simp add: build_dag_workflow_def s(1,2) n build_task_inputs_def add_task_def empty_workflow_def dput_def)
  moreover have "run_contract (vget (dag_definition_from_spec s) ''input_contract'') = Inr ([''c''], run_contract_dict)"
    by (simp add: dag_definition_from_spec_def contract_field_def when_has_def s(5) run_contract_def strings_of_def is_str_def)
  ultimately show ?thesis by simp
qed

theorem run_inputs_exact_witness:
  "\<exists>w df w'. build_dag_workflow kahn_dag 0 ''w'' run_payload = Inr (w, df)
     \<and> bind_workflow_run_inputs (vget df ''input_contract'') (VDict [(''q'', VStr ''why'')]) w = Inr (w', [(''q'', VStr ''why''), (''n'', VInt 3)])
     \<and> map (\<lambda>(k, t). map (\<lambda>(i, e). vget (dict_or_empty e) ''value'') (task_entries t)) (tasks w')
         = [[VList [VStr ''why'', VDict [(''depth'', VInt 3)]], VInt 7]]
     \<and> (\<forall>y. bind_workflow_run_inputs (vget df ''input_contract'') (VDict []) w \<noteq> Inr y)"
proof -
  obtain w df t where w: "build_dag_workflow kahn_dag 0 ''w'' run_payload = Inr (w, df)" "tasks w = [(''a'', t)]"
    "ct_input t = input_params run_entries" "run_contract (vget df ''input_contract'') = Inr ([''c''], run_contract_dict)"
    using run_built by blast
  note exact = run_inputs_exact [OF w(1,4)]
  have t: "task_entries t = [(''1'', snd (run_entries ! 0)), (''2'', snd (run_entries ! 1))]"
    unfolding task_entries_def w(3) by code_simp
  have "set (workflow_refs w) = {''q'', ''n''}"
    by (simp add: workflow_refs_def w(2) task_refs_def t) code_simp
  moreover have "set (dkeys run_contract_dict) = {''q'', ''n''}" "\<forall>(k, spec) \<in> set run_contract_dict. is_required spec \<longrightarrow> dhas k [(''q'', VStr ''why'')]"
    "\<not> (\<forall>(k, spec) \<in> set run_contract_dict. is_required spec \<longrightarrow> dhas k [])"
    by (simp_all add: run_contract_dict_def is_required_def dict_or_empty_def dkeys_def dhas_def)
  moreover have "effective_inputs run_contract_dict [(''q'', VStr ''why'')] = [(''q'', VStr ''why''), (''n'', VInt 3)]"
    by (simp add: effective_inputs_def run_contract_dict_def dict_or_empty_def)
  moreover have "map (\<lambda>(k, t). map (\<lambda>(i, e). vget (dict_or_empty e) ''value'') (task_entries t)) (tasks (plug_workflow [(''q'', VStr ''why''), (''n'', VInt 3)] w))
         = [[VList [VStr ''why'', VDict [(''depth'', VInt 3)]], VInt 7]]"
    by (simp add: plug_workflow_def w(2) plug_task_def t task_entries_def [of "_\<lparr>ct_input := _\<rparr>"]) code_simp
  ultimately show ?thesis using w(1) by (auto simp: exact dkeys_def)
qed

end
