(* ===== verification/File_Lineage.thy ===== *)
theory File_Lineage
  imports Action Artifact_Store Attempt_Protocol Task_Error
begin

text \<open>
  The files of a task on a worker (\<open>maze/core/files/lineage.py\<close>, with an artifact store) and the requests of
  \<open>maze/core/server.py\<close> they use: the initial files and those the parents produced are downloaded into an empty directory, the
  task runs there, and the files it changed are uploaded and listed in its manifest.

  A directory is the files in it by the parts of their paths. SHA-256 is an argument (\<open>sha\<close>, and \<open>hc\<close> of capabilities), as are the size of
  contents (\<open>nbytes\<close>) and the guess of a file's type (\<open>mime\<close>). Whether the requests to come get through is in the state. The mode
  with a shared workspace directory, proxies, temporary directories, their cleanup, and the environment of the task are left out.
\<close>

section \<open>Paths and directories\<close>

type_synonym parts = "string list"
type_synonym 'b tree = "(parts, 'b) dict"

definition safe_relative_path :: "string \<Rightarrow> parts result" where
  "safe_relative_path path =
     (let s = map (\<lambda>c. if c = CHR 0x5C then CHR ''/'' else c) path; ps = filter (\<lambda>p. p \<noteq> [] \<and> p \<noteq> ''.'') (split_on CHR ''/'' s)
      in if take 1 s = ''/'' \<or> ''..'' \<in> set ps then Inl (ValueError (''Unsafe file path: '' @ path)) else Inr ps)"

definition is_ignored :: "parts \<Rightarrow> bool" where
  "is_ignored ps =
     (''__pycache__'' \<in> set ps \<or> (ps \<noteq> [] \<and> 4 < length (last ps) \<and> drop (length (last ps) - 4) (last ps) = ''.pyc''))"

text \<open>A path that cannot be written: it is the directory itself, a directory in it, or below a file.\<close>

definition below :: "parts \<Rightarrow> parts \<Rightarrow> bool" where
  "below p q = (take (length p) q = p \<and> p \<noteq> q)"

definition blocked :: "parts \<Rightarrow> 'b tree \<Rightarrow> bool" where
  "blocked ps t = (ps = [] \<or> list_ex (\<lambda>(q, _). below q ps \<or> below ps q) t)"

definition relative_name :: "parts \<Rightarrow> string" where
  "relative_name ps = join_with ''/'' ps"

definition snapshot_files :: "('b \<Rightarrow> string) \<Rightarrow> ('b \<Rightarrow> int) \<Rightarrow> 'b tree \<Rightarrow> (string, event) dict" where
  "snapshot_files sha nbytes t =
     map (\<lambda>(ps, b). (relative_name ps, [(''path'', VStr (relative_name ps)), (''size'', VInt (nbytes b)), (''sha256'', VStr (sha b))]))
       (filter (\<lambda>(ps, b). \<not> is_ignored ps) t)"

section \<open>The worker\<close>

record 'b site =
  si_head :: "'b artifacts"
  si_cache :: "'b artifacts option"
  si_net :: "bool list"
  si_work :: "'b tree"

definition store_config :: "event \<Rightarrow> event" where
  "store_config ctx = dict_or_empty (vget ctx ''artifact_store'')"

definition artifact_mode :: "event \<Rightarrow> bool" where
  "artifact_mode ctx = truthy (vget ctx ''artifact_store'')"

definition artifact_capability :: "event \<Rightarrow> string option" where
  "artifact_capability ctx =
     (let c = vget (store_config ctx) ''capability'' in if truthy c then Some (py_str c) else None)"

definition private_artifacts :: "event \<Rightarrow> bool" where
  "private_artifacts ctx = (truthy (vget ctx ''private'') \<or> truthy (vget (store_config ctx) ''private''))"

definition artifact_base_url :: "event \<Rightarrow> string result" where
  "artifact_base_url ctx =
     (let u = vor (vget (store_config ctx) ''base_url'') (vget ctx ''artifact_base_url'') in
      if truthy u then Inr (rev (dropWhile (\<lambda>c. c = CHR ''/'') (rev (py_str u))))
      else Inl (ArtifactError ''Artifact file context requires artifact_store.base_url''))"

text \<open>One request: the URL is there and the network carries it.\<close>

definition head_request :: "event \<Rightarrow> ('b site, unit) action" where
  "head_request ctx =
     act_then (act_result (artifact_base_url ctx)) (\<lambda>_. (\<lambda>s.
       (s\<lparr>si_net := tl (si_net s)\<rparr>, if si_net s = [] \<or> hd (si_net s) then Inr () else Inl (ArtifactError ''connection failed''))))"

text \<open>\<open>get_artifact\<close> and \<open>put_artifact\<close> of the server.\<close>

definition head_get :: "(string \<Rightarrow> string) \<Rightarrow> string \<Rightarrow> string option \<Rightarrow> 'b artifacts \<Rightarrow> 'b result" where
  "head_get hc a c s =
     check_sha a
       (case map_of (blobs s) a of
          None \<Rightarrow> Inl (FileNotFoundError ''Artifact not found'') | Some b \<Rightarrow> rbind (require_read hc a c s) (\<lambda>_. Inr b))"

definition head_put ::
    "('b \<Rightarrow> string) \<Rightarrow> (string \<Rightarrow> string) \<Rightarrow> string \<Rightarrow> 'b \<Rightarrow> string option \<Rightarrow> 'b artifacts \<Rightarrow> ('b artifacts \<times> event) result" where
  "head_put sha hc a b c s =
     rbind (case c of Some _ \<Rightarrow> rbind (require_upload_capability hc c s) (\<lambda>_. Inr ())
        | None \<Rightarrow> rbind (is_private a s) (\<lambda>p. guard_or (\<not> p) (PermissionError ''Artifact not found'') (Inr ()))) (\<lambda>_.
     rbind (put_bytes sha hc a b (c \<noteq> None) c s) (\<lambda>(u, x).
     rbind (is_private a u) (\<lambda>p.
       Inr (u, [(''artifact_id'', VStr (''sha256:'' @ x)), (''storage_uri'', VStr (''maze://artifacts/sha256/'' @ x)), (''private'', VBool p)]))))"

section \<open>Staging\<close>

definition write_work :: "parts \<Rightarrow> 'b \<Rightarrow> ('b site, unit) action" where
  "write_work ps b s =
     (if blocked ps (si_work s) then (s, Inl (OSError ''File exists'')) else (s\<lparr>si_work := dput ps b (si_work s)\<rparr>, Inr ()))"

definition cached :: "('b \<Rightarrow> string) \<Rightarrow> (string \<Rightarrow> string) \<Rightarrow> event \<Rightarrow> string \<Rightarrow> ('b site, 'b option) action" where
  "cached sha hc ctx a s =
     (s, if private_artifacts ctx then Inr None
         else case si_cache s of
           None \<Rightarrow> Inr None
         | Some k \<Rightarrow> rbind (blob_exists a k) (\<lambda>e. if e then rbind (get_file sha hc a None k) (\<lambda>b. Inr (Some b)) else Inr None))"

definition keep_cached :: "('b \<Rightarrow> string) \<Rightarrow> (string \<Rightarrow> string) \<Rightarrow> event \<Rightarrow> 'b \<Rightarrow> ('b site, unit) action" where
  "keep_cached sha hc ctx b s =
     (case (if private_artifacts ctx then None else si_cache s) of
        None \<Rightarrow> (s, Inr ())
      | Some k \<Rightarrow> (case put_file sha hc b b False None k of Inl x \<Rightarrow> (s, Inl x) | Inr (k', _) \<Rightarrow> (s\<lparr>si_cache := Some k'\<rparr>, Inr ())))"

definition fetch :: "(string \<Rightarrow> string) \<Rightarrow> event \<Rightarrow> string \<Rightarrow> ('b site, 'b) action" where
  "fetch hc ctx a s =
     (s, map_err (\<lambda>_. ArtifactError (''Failed to download artifact '' @ a)) (head_get hc a (artifact_capability ctx) (si_head s)))"

definition download_artifact ::
    "('b \<Rightarrow> string) \<Rightarrow> (string \<Rightarrow> string) \<Rightarrow> event \<Rightarrow> event \<Rightarrow> parts \<Rightarrow> ('b site, unit) action" where
  "download_artifact sha hc ctx info ps =
     (case vget info ''sha256'' of
        VStr a \<Rightarrow>
          (if a = [] then act_raise (ValueError ''Artifact missing sha256'')
           else act_then (cached sha hc ctx a) (\<lambda>k. case k of
               Some b \<Rightarrow> write_work ps b
             | None \<Rightarrow>
                 act_then (head_request ctx) (\<lambda>_. act_then (fetch hc ctx a) (\<lambda>b.
                   if sha b \<noteq> a then act_raise (ArtifactError (''Artifact checksum mismatch: expected '' @ a))
                   else act_then (write_work ps b) (\<lambda>_. keep_cached sha hc ctx b)))))
      | v \<Rightarrow> act_raise (if truthy v then AttributeError ''lower'' else ValueError ''Artifact missing sha256''))"

definition stage_artifact_file ::
    "('b \<Rightarrow> string) \<Rightarrow> (string \<Rightarrow> string) \<Rightarrow> event \<Rightarrow> event \<Rightarrow> ('b site, unit) action" where
  "stage_artifact_file sha hc ctx info =
     (let v = vget info ''path'' in
      if \<not> truthy v then act_return ()
      else act_then (act_result (safe_relative_path (py_str v))) (download_artifact sha hc ctx info))"

fun act_each :: "('a \<Rightarrow> ('s, unit) action) \<Rightarrow> 'a list \<Rightarrow> ('s, unit) action" where
  "act_each f [] = act_return ()"
| "act_each f (x # xs) = act_then (f x) (\<lambda>_. act_each f xs)"

text \<open>A list of records, each a dict.\<close>

definition records :: "pyval \<Rightarrow> event list result" where
  "records v = (case v of VList xs \<Rightarrow> rmap (\<lambda>x. case x of VDict d \<Rightarrow> Inr d | _ \<Rightarrow> Inl (AttributeError ''get'')) xs | _ \<Rightarrow> Inl (TypeError ''not iterable''))"

definition stage_initial_artifacts :: "('b \<Rightarrow> string) \<Rightarrow> (string \<Rightarrow> string) \<Rightarrow> event \<Rightarrow> ('b site, unit) action" where
  "stage_initial_artifacts sha hc ctx =
     act_then (act_result (records (vor (vget ctx ''initial_files'') (VList [])))) (act_each (stage_artifact_file sha hc ctx))"

definition add_record :: "(string, event) dict \<Rightarrow> event \<Rightarrow> (string, event) dict result" where
  "add_record files r =
     (case vget r ''path'' of
        VStr p \<Rightarrow>
          (if p = [] then Inr files
           else rbind (safe_relative_path p) (\<lambda>_.
             case map_of files p of
               None \<Rightarrow> Inr (dput p r files)
             | Some e \<Rightarrow>
                 if e \<noteq> [] \<and> \<not> py_eq (vget e ''sha256'') (vget r ''sha256'') then Inl (ArtifactError (''File lineage conflict for '' @ p))
                 else Inr (dput p r files)))
      | v \<Rightarrow> if truthy v then Inl (TypeError ''path'') else Inr files)"

definition add_manifest :: "(string, event) dict \<Rightarrow> event \<Rightarrow> (string, event) dict result" where
  "add_manifest files m =
     (if vget m ''published'' \<noteq> VBool True then Inl (ArtifactError ''Parent task manifest is not published'')
      else rbind (records (vgetd m ''files'' (VList []))) (rfold add_record files))"

definition load_parent_files :: "event \<Rightarrow> (string, event) dict result" where
  "load_parent_files ctx =
     (if vget ctx ''parent_file_manifests'' = VNone
      then (if truthy (vget ctx ''parent_task_ids'')
            then Inl (ArtifactError ''Artifact task context requires explicit parent_file_manifests'') else Inr [])
      else rbind (records (vget ctx ''parent_file_manifests'')) (rfold add_manifest []))"

definition stage_parent_files :: "('b \<Rightarrow> string) \<Rightarrow> (string \<Rightarrow> string) \<Rightarrow> event \<Rightarrow> ('b site, unit) action" where
  "stage_parent_files sha hc ctx =
     act_then (act_result (load_parent_files ctx)) (\<lambda>files. act_each (stage_artifact_file sha hc ctx) (dvals files))"

definition as_artifact_error :: "string \<Rightarrow> pyerr \<Rightarrow> pyerr" where
  "as_artifact_error msg e = (case e of ArtifactError x \<Rightarrow> e | _ \<Rightarrow> ArtifactError msg)"

definition stage_files :: "('b \<Rightarrow> string) \<Rightarrow> (string \<Rightarrow> string) \<Rightarrow> event \<Rightarrow> ('b site, unit) action" where
  "stage_files sha hc ctx =
     act_then (act_modify (\<lambda>s. s\<lparr>si_work := []\<rparr>)) (\<lambda>_.
     act_catch (act_then (stage_initial_artifacts sha hc ctx) (\<lambda>_. stage_parent_files sha hc ctx))
       (\<lambda>e. act_raise (as_artifact_error ''Failed to stage task files'' e)))"

section \<open>Collecting\<close>

definition upload_artifact ::
    "('b \<Rightarrow> string) \<Rightarrow> (string \<Rightarrow> string) \<Rightarrow> event \<Rightarrow> 'b \<Rightarrow> string \<Rightarrow> ('b site, event) action" where
  "upload_artifact sha hc ctx b a =
     (if sha b \<noteq> a then act_raise (ArtifactError ''Artifact checksum changed before upload'')
      else act_then (head_request ctx) (\<lambda>_. (\<lambda>s.
        case head_put sha hc a b (artifact_capability ctx) (si_head s) of
          Inl _ \<Rightarrow> (s, Inl (ArtifactError (''Failed to upload artifact '' @ a)))
        | Inr (h, resp) \<Rightarrow> (s\<lparr>si_head := h\<rparr>, Inr resp))))"

definition file_record :: "(string \<Rightarrow> string) \<Rightarrow> event \<Rightarrow> string \<Rightarrow> event \<Rightarrow> event \<Rightarrow> event" where
  "file_record mime ctx rel info resp =
     [(''path'', VStr rel), (''name'', VStr (last (split_on CHR ''/'' rel))), (''size'', vget info ''size''), (''sha256'', vget info ''sha256''),
      (''mime'', VStr (mime rel)), (''producer_task_id'', vget ctx ''task_id''), (''artifact_id'', vget resp ''artifact_id''),
      (''storage_uri'', vget resp ''storage_uri''), (''private'', VBool (truthy (vget resp ''private'') \<or> private_artifacts ctx)),
      (''uri'', VStr (''maze://runs/'' @ py_str (vget ctx ''run_id'') @ ''/artifacts/tasks/'' @ py_str (vget ctx ''task_id'') @ ''/'' @ rel))]"

definition unchanged :: "(string, event) dict \<Rightarrow> string \<Rightarrow> event \<Rightarrow> bool" where
  "unchanged before rel info =
     (case map_of before rel of None \<Rightarrow> False | Some i \<Rightarrow> i \<noteq> [] \<and> vget i ''sha256'' = vget info ''sha256'')"

definition collect_file ::
    "('b \<Rightarrow> string) \<Rightarrow> (string \<Rightarrow> string) \<Rightarrow> (string \<Rightarrow> string) \<Rightarrow> event \<Rightarrow> string \<Rightarrow> event \<Rightarrow> ('b site, event) action" where
  "collect_file sha hc mime ctx rel info =
     act_then (act_result (safe_relative_path rel)) (\<lambda>ps. (\<lambda>s.
       case map_of (si_work s) ps of
         None \<Rightarrow> (s, Inl (FileNotFoundError rel))
       | Some b \<Rightarrow>
           act_then (upload_artifact sha hc ctx b (py_str (vget info ''sha256''))) (\<lambda>resp. act_return (file_record mime ctx rel info resp)) s))"

fun collect_each ::
    "('b \<Rightarrow> string) \<Rightarrow> (string \<Rightarrow> string) \<Rightarrow> (string \<Rightarrow> string) \<Rightarrow> event \<Rightarrow> (string, event) dict \<Rightarrow> (string \<times> event) list \<Rightarrow> ('b site, event list) action" where
  "collect_each sha hc mime ctx before [] = act_return []"
| "collect_each sha hc mime ctx before ((rel, info) # xs) =
     (if unchanged before rel info then collect_each sha hc mime ctx before xs
      else act_then (collect_file sha hc mime ctx rel info) (\<lambda>r.
           act_then (collect_each sha hc mime ctx before xs) (\<lambda>rs. act_return (r # rs))))"

definition new_manifest :: "time \<Rightarrow> event \<Rightarrow> event list \<Rightarrow> string list \<Rightarrow> event" where
  "new_manifest now ctx files deleted =
     [(''schema'', VStr ''maze_task_file_manifest''), (''schema_version'', VInt 1), (''run_id'', vget ctx ''run_id''),
      (''task_id'', vget ctx ''task_id''), (''attempt'', vget ctx ''attempt''), (''dispatch_id'', vget ctx ''dispatch_id''),
      (''lease_id'', vget ctx ''lease_id''), (''published'', VBool False), (''node_id'', vget ctx ''node_id''),
      (''created_time'', VFloat (Fin now)), (''files'', VList (map VDict files)), (''deleted_files'', VList (map VStr deleted))]"

definition collect_output_manifest ::
    "('b \<Rightarrow> string) \<Rightarrow> (string \<Rightarrow> string) \<Rightarrow> ('b \<Rightarrow> int) \<Rightarrow> (string \<Rightarrow> string) \<Rightarrow> time \<Rightarrow> event \<Rightarrow> (string, event) dict \<Rightarrow> ('b site, event) action" where
  "collect_output_manifest sha hc nbytes mime now ctx before s =
     (let after = snapshot_files sha nbytes (si_work s);
          items = sort_key fst after; deleted = sort (filter (\<lambda>p. \<not> dhas p after) (dkeys before))
      in act_then (collect_each sha hc mime ctx before items) (\<lambda>files. act_return (new_manifest now ctx files deleted)) s)"

text \<open>\<open>publish_task_file_manifest\<close>: the checks before the core writes a manifest down.\<close>

definition publish_task_file_manifest :: "event \<Rightarrow> event \<Rightarrow> event result" where
  "publish_task_file_manifest ctx m =
     (if \<not> truthy (vget ctx ''enabled'') then Inl (ArtifactError ''Published task manifest requires an enabled file context'')
      else if vget m ''published'' \<noteq> VBool True then Inl (ArtifactError ''Only an accepted task manifest can be published'')
      else if list_ex (\<lambda>k. vget ctx k = VNone \<or> \<not> py_eq (vget m k) (vget ctx k)) [''run_id'', ''task_id'', ''attempt'', ''dispatch_id'', ''lease_id'']
      then Inl (ArtifactError ''Published task manifest does not match its accepted attempt'')
      else Inr m)"

section \<open>Running a task\<close>

text \<open>The task changes the directory and returns a value or raises.\<close>

type_synonym 'b user_task = "'b tree \<Rightarrow> 'b tree \<times> (raised + pyval)"

definition result_envelope :: "pyval \<Rightarrow> event \<Rightarrow> event" where
  "result_envelope v m = [(''__maze_task_result_envelope__'', VBool True), (''result'', v), (''file_manifest'', VDict m)]"

definition run_task_with_file_context ::
    "('b \<Rightarrow> string) \<Rightarrow> (string \<Rightarrow> string) \<Rightarrow> ('b \<Rightarrow> int) \<Rightarrow> (string \<Rightarrow> string) \<Rightarrow> time \<Rightarrow> string \<Rightarrow> error_site \<Rightarrow> event \<Rightarrow> 'b user_task \<Rightarrow> ('b site, event) action" where
  "run_task_with_file_context sha hc nbytes mime now ts site ctx task =
     act_then (stage_files sha hc ctx) (\<lambda>_. (\<lambda>s.
       let before = snapshot_files sha nbytes (si_work s); (t, r) = task (si_work s)
       in act_then
            (act_catch (collect_output_manifest sha hc nbytes mime now ctx before)
               (\<lambda>e. act_raise (as_artifact_error ''Failed to collect task output artifacts'' e)))
            (\<lambda>m. case r of
                Inr v \<Rightarrow> act_return (result_envelope v m)
              | Inl x \<Rightarrow>
                  act_result (rbind (exception_to_error_envelope ts ''user_code'' x None site) (\<lambda>e.
                    Inr (dput ''file_manifest'' (VDict m) (dict_or_empty (task_error_result e))))))
            (s\<lparr>si_work := t\<rparr>)))"

section \<open>What a staged directory holds\<close>

text \<open>A directory by the checksums of its files.\<close>

definition checksums :: "('b \<Rightarrow> string) \<Rightarrow> 'b tree \<Rightarrow> parts \<Rightarrow> string option" where
  "checksums sha t ps = map_option sha (map_of t ps)"

text \<open>Where a record says its file goes, and the checksums after it was staged.\<close>

definition target :: "event \<Rightarrow> parts option" where
  "target info =
     (if truthy (vget info ''path'') then (case safe_relative_path (py_str (vget info ''path'')) of Inr ps \<Rightarrow> Some ps | Inl _ \<Rightarrow> None) else None)"

definition write_sum :: "(parts \<Rightarrow> string option) \<Rightarrow> event \<Rightarrow> parts \<Rightarrow> string option" where
  "write_sum m info = (case target info of None \<Rightarrow> m | Some ps \<Rightarrow> m(ps \<mapsto> py_str (vget info ''sha256'')))"

lemma act_then_Inr: "act_then m f s = (s', Inr y) \<longleftrightarrow> (\<exists>s1 x. m s = (s1, Inr x) \<and> f x s1 = (s', Inr y))"
  by (auto simp: act_then_def split: prod.splits sum.splits)

lemma act_basic_Inr:
  "act_return x s = (s', Inr y) \<longleftrightarrow> s' = s \<and> x = y" "act_raise e s = (s', Inr y) \<longleftrightarrow> False"
  "act_result r s = (s', Inr y) \<longleftrightarrow> s' = s \<and> r = Inr y" "act_modify f s = (s', Inr u) \<longleftrightarrow> s' = f s"
  by (auto simp: act_return_def act_raise_def act_result_def act_modify_def)

lemmas act_Inr = act_then_Inr act_basic_Inr

lemma sums_dput [simp]: "checksums sha (dput ps b t) = (checksums sha t)(ps \<mapsto> sha b)"
  by (rule ext) (simp add: checksums_def)

lemma write_work_sums: "write_work ps b s = (s', Inr u) \<Longrightarrow> checksums sha (si_work s') = (checksums sha (si_work s))(ps \<mapsto> sha b)"
  by (auto simp: write_work_def split: if_splits)

lemma head_request_work: "head_request ctx s = (s', r) \<Longrightarrow> si_work s' = si_work s"
  by (auto simp: head_request_def act_then_def act_result_def split: sum.splits)

lemma keep_cached_work: "keep_cached sha hc ctx b s = (s', r) \<Longrightarrow> si_work s' = si_work s"
  by (auto simp: keep_cached_def split: option.splits sum.splits if_splits)

lemma cached_sum: "cached sha hc ctx a s = (s', Inr k) \<Longrightarrow> s' = s \<and> (\<forall>b. k = Some b \<longrightarrow> sha b = a)"
  by (auto simp: cached_def get_file_def check_sha_def guard_or_def split: option.splits if_splits)

lemma download_sums:
  assumes "download_artifact sha hc ctx info ps s = (s', Inr u)"
  shows "\<exists>a. vget info ''sha256'' = VStr a \<and> checksums sha (si_work s') = (checksums sha (si_work s))(ps \<mapsto> a)"
proof -
  obtain a where a: "vget info ''sha256'' = VStr a" "a \<noteq> []"
    using assms by (auto simp: download_artifact_def act_Inr split: pyval.splits if_splits)
  obtain k s1 where k: "cached sha hc ctx a s = (s1, Inr k)" using assms a by (auto simp: download_artifact_def act_Inr)
  have s1: "s1 = s" "\<And>b. k = Some b \<Longrightarrow> sha b = a" using cached_sum [OF k] by auto
  show ?thesis
  proof (cases k)
    case (Some b)
    then have "write_work ps b s = (s', Inr u)" using assms a k s1 by (auto simp: download_artifact_def act_Inr)
    from write_work_sums [OF this, of sha] a s1(2) [OF Some] show ?thesis by simp
  next
    case None
    then obtain s2 b s3 v where s: "head_request ctx s = (s2, Inr ())" "fetch hc ctx a s2 = (s3, Inr b)" "sha b = a" "write_work ps b s3 = (v, Inr ())"
      "keep_cached sha hc ctx b v = (s', Inr u)"
      using assms a k s1 by (auto simp: download_artifact_def act_Inr split: if_splits)
    moreover have "s3 = s2" using s(2) by (simp add: fetch_def)
    ultimately have "checksums sha (si_work s') = (checksums sha (si_work s))(ps \<mapsto> sha b)"
      using write_work_sums [OF s(4), of sha] head_request_work [OF s(1)] keep_cached_work [OF s(5)] by simp
    then show ?thesis using a s(3) by simp
  qed
qed

lemma stage_file_sums:
  "stage_artifact_file sha hc ctx info s = (s', Inr u) \<Longrightarrow> checksums sha (si_work s') = write_sum (checksums sha (si_work s)) info"
  by (auto simp: stage_artifact_file_def Let_def act_Inr write_sum_def target_def dest!: download_sums split: if_splits)

lemma stage_each_sums:
  "act_each (stage_artifact_file sha hc ctx) infos s = (s', Inr u) \<Longrightarrow> checksums sha (si_work s') = foldl write_sum (checksums sha (si_work s)) infos"
  by (induction infos arbitrary: s) (auto simp: act_Inr stage_file_sums)

text \<open>What the records of the initial files say.\<close>

definition initial_sums :: "event \<Rightarrow> parts \<Rightarrow> string option" where
  "initial_sums ctx =
     (case records (vor (vget ctx ''initial_files'') (VList [])) of Inr init \<Rightarrow> foldl write_sum Map.empty init | Inl _ \<Rightarrow> Map.empty)"

lemma stage_files_sums:
  assumes "stage_files sha hc ctx s = (s', Inr u)"
  shows "\<exists>files. load_parent_files ctx = Inr files \<and> checksums sha (si_work s') = foldl write_sum (initial_sums ctx) (dvals files)"
proof -
  let ?s = "s\<lparr>si_work := []\<rparr>"
  have e: "checksums sha (si_work ?s) = Map.empty" by (rule ext) (simp add: checksums_def)
  obtain s1 u1 where s1: "stage_initial_artifacts sha hc ctx ?s = (s1, Inr u1)" "stage_parent_files sha hc ctx s1 = (s', Inr u)"
    using assms by (auto simp: stage_files_def act_catch_def act_Inr split: prod.splits sum.splits)
  then obtain init files where i: "records (vor (vget ctx ''initial_files'') (VList [])) = Inr init" "act_each (stage_artifact_file sha hc ctx) init ?s = (s1, Inr u1)"
    "load_parent_files ctx = Inr files" "act_each (stage_artifact_file sha hc ctx) (dvals files) s1 = (s', Inr u)"
    by (auto simp: stage_initial_artifacts_def stage_parent_files_def act_Inr)
  from stage_each_sums [OF i(2)] stage_each_sums [OF i(4)] i(1,3) e show ?thesis by (simp add: initial_sums_def)
qed

lemma write_sums_none: "\<forall>e \<in> set es. target e \<noteq> Some ps \<Longrightarrow> foldl write_sum m es ps = m ps"
  by (induction es arbitrary: m) (auto simp: write_sum_def split: option.split)

lemma write_sums_some:
  "\<forall>e \<in> set es. target e = Some ps \<longrightarrow> py_str (vget e ''sha256'') = a \<Longrightarrow> e \<in> set es \<Longrightarrow> target e = Some ps \<Longrightarrow> foldl write_sum m es ps = Some a"
proof (induction es arbitrary: m rule: rev_induct)
  case (snoc x xs)
  then show ?case by (cases "target x = Some ps") (auto simp: write_sum_def split: option.split)
qed simp

section \<open>The records of the parents\<close>

definition plain :: "parts \<Rightarrow> bool" where
  "plain ps = (ps \<noteq> [] \<and> (\<forall>w \<in> set ps. w \<notin> {[], ''.'', ''..''} \<and> CHR ''/'' \<notin> set w \<and> CHR 0x5C \<notin> set w))"

lemma join_chars: "set (join_with ''/'' ps) \<subseteq> (\<Union>w \<in> set ps. set w) \<union> {CHR ''/''}"
  by (induction "''/'' :: string" ps rule: join_with.induct) auto

lemma split_join: "ps \<noteq> [] \<Longrightarrow> \<forall>w \<in> set ps. CHR ''/'' \<notin> set w \<Longrightarrow> split_on CHR ''/'' (join_with ''/'' ps) = ps"
  by (induction "''/'' :: string" ps rule: join_with.induct) (auto simp: split_on_no_sep split_on_sep)

lemma safe_relative_name:
  assumes "plain ps"
  shows "safe_relative_path (relative_name ps) = Inr ps" "relative_name ps \<noteq> []"
proof -
  let ?s = "relative_name ps"
  have c: "CHR 0x5C \<notin> set ?s" using assms join_chars [of ps] by (auto simp: plain_def relative_name_def)
  have m: "map (\<lambda>c. if c = CHR 0x5C then CHR ''/'' else c) ?s = ?s"
  proof (intro map_idI)
    fix x assume "x \<in> set ?s"
    with c have "x \<noteq> CHR 0x5C" by blast
    then show "(if x = CHR 0x5C then CHR ''/'' else x) = x" by simp
  qed
  have p: "split_on CHR ''/'' ?s = ps" using assms by (simp add: plain_def relative_name_def split_join)
  show ne: "?s \<noteq> []"
  proof
    assume "?s = []"
    with p have "ps = [[]]" by (metis split_on.simps(1))
    with assms show False by (simp add: plain_def)
  qed
  have hd: "hd ps \<noteq> []" using assms by (simp add: plain_def)
  have "take 1 ?s \<noteq> ''/''"
  proof
    assume "take 1 ?s = ''/''"
    then obtain x where "?s = CHR ''/'' # x" by (cases ?s) auto
    with p have "ps = [] # split_on CHR ''/'' x" by (metis split_on.simps(2))
    with hd show False by simp
  qed
  moreover have "filter (\<lambda>p. p \<noteq> [] \<and> p \<noteq> ''.'') ps = ps" using assms by (auto simp: plain_def intro: filter_True)
  ultimately show "safe_relative_path ?s = Inr ps"
    using assms unfolding safe_relative_path_def m p Let_def by (auto simp: plain_def)
qed

lemma relative_name_inj: "plain ps \<Longrightarrow> plain qs \<Longrightarrow> relative_name ps = relative_name qs \<Longrightarrow> ps = qs"
  using safe_relative_name(1) by (metis sum.inject(2))

definition names_file :: "event \<Rightarrow> parts \<Rightarrow> string \<Rightarrow> bool" where
  "names_file r ps a = (plain ps \<and> vget r ''path'' = VStr (relative_name ps) \<and> vget r ''sha256'' = VStr a)"

lemma names_file_target: "names_file r ps a \<Longrightarrow> target r = Some ps \<and> py_str (vget r ''sha256'') = a"
  by (simp add: names_file_def target_def safe_relative_name)

text \<open>The table of the parents' files, when every record names a file.\<close>

definition table_ok :: "(string, event) dict \<Rightarrow> bool" where
  "table_ok files = (dict_ok files \<and> (\<forall>k e. map_of files k = Some e \<longrightarrow> (\<exists>ps a. names_file e ps a \<and> k = relative_name ps)))"

lemma file_table_entry: "table_ok files \<Longrightarrow> map_of files (relative_name ps) = Some e \<Longrightarrow> plain ps \<Longrightarrow> \<exists>a. names_file e ps a"
proof -
  assume "table_ok files" "map_of files (relative_name ps) = Some e" "plain ps"
  then obtain qs a where q: "names_file e qs a" "relative_name ps = relative_name qs"
    unfolding table_ok_def by blast
  then have "ps = qs" using relative_name_inj [OF \<open>plain ps\<close>] by (simp add: names_file_def)
  with q show ?thesis by blast
qed

definition in_table :: "(string, event) dict \<Rightarrow> parts \<Rightarrow> string \<Rightarrow> bool" where
  "in_table files ps a = (\<exists>e. map_of files (relative_name ps) = Some e \<and> names_file e ps a)"

lemma py_eq_text [simp]: "py_eq (VStr a) v \<longleftrightarrow> v = VStr a" "py_eq v (VStr a) \<longleftrightarrow> v = VStr a"
  by (auto simp: py_eq_def py_number_def split: pyval.splits option.splits)

lemma add_record_table:
  assumes "table_ok files" and "names_file r ps a" and "add_record files r = Inr files'"
  shows "table_ok files' \<and> (\<forall>qs b. in_table files' qs b \<longleftrightarrow> in_table files qs b \<or> names_file r qs b)"
proof -
  have p: "plain ps" "vget r ''path'' = VStr (relative_name ps)" "vget r ''sha256'' = VStr a" using assms(2) by (simp_all add: names_file_def)
  have old: "names_file e ps a" if e: "map_of files (relative_name ps) = Some e" for e
  proof -
    obtain b where b: "names_file e ps b" using file_table_entry [OF assms(1) e p(1)] by blast
    then have "e \<noteq> []" by (auto simp: names_file_def)
    then have "b = a" using assms(3) p b e by (auto simp: add_record_def safe_relative_name names_file_def split: if_splits)
    with b show ?thesis by simp
  qed
  have f: "files' = dput (relative_name ps) r files"
    using assms(3) p by (auto simp: add_record_def safe_relative_name split: option.splits if_splits)
  have "table_ok files'"
    using assms(1,2) by (auto simp: f table_ok_def)
  moreover have "in_table files' qs b \<longleftrightarrow> (if qs = ps then names_file r ps b else in_table files qs b)" for qs b
    using p(1) relative_name_inj by (auto simp: in_table_def f names_file_def)
  moreover have "names_file r qs b \<longleftrightarrow> qs = ps \<and> b = a" for qs b using p relative_name_inj by (auto simp: names_file_def)
  moreover have "in_table files ps b \<Longrightarrow> b = a" for b using old by (auto simp: in_table_def names_file_def)
  ultimately show ?thesis by auto
qed

lemma records_dicts [simp]: "records (VList (map VDict ms)) = Inr ms"
  unfolding records_def by (induction ms) auto

lemma add_records_table:
  assumes "rfold add_record files rs = Inr files'" and "table_ok files" and "\<forall>r \<in> set rs. \<exists>ps a. names_file r ps a"
  shows "table_ok files' \<and> (\<forall>qs b. in_table files' qs b \<longleftrightarrow> in_table files qs b \<or> (\<exists>r \<in> set rs. names_file r qs b))"
  using assms
proof (induction rs arbitrary: files)
  case (Cons r rs)
  then obtain files1 where f: "add_record files r = Inr files1" "rfold add_record files1 rs = Inr files'" by auto
  obtain ps a where r: "names_file r ps a" using Cons.prems(3) by auto
  from add_record_table [OF Cons.prems(2) r f(1)] Cons.IH [OF f(2)] Cons.prems(3) show ?case by simp
qed simp

definition readable :: "event \<Rightarrow> event list \<Rightarrow> bool" where
  "readable m rs = (records (vgetd m ''files'' (VList [])) = Inr rs \<and> (\<forall>r \<in> set rs. \<exists>ps a. names_file r ps a))"

lemma add_manifests_table:
  assumes "list_all2 readable ms rss" and "rfold add_manifest files ms = Inr files'" and "table_ok files"
  shows "table_ok files' \<and> (\<forall>qs b. in_table files' qs b \<longleftrightarrow> in_table files qs b \<or> (\<exists>rs \<in> set rss. \<exists>r \<in> set rs. names_file r qs b))"
  using assms
proof (induction ms rss arbitrary: files rule: list_all2_induct)
  case (Cons m ms rs rss)
  then obtain files1 where f1: "add_manifest files m = Inr files1" and f2: "rfold add_manifest files1 ms = Inr files'" by auto
  have f: "rfold add_record files rs = Inr files1" using f1 Cons.hyps(1) by (simp add: add_manifest_def readable_def split: if_splits)
  have "\<forall>r \<in> set rs. \<exists>ps a. names_file r ps a" using Cons.hyps(1) by (simp add: readable_def)
  from add_records_table [OF f Cons.prems(2) this] Cons.IH [OF f2] show ?case by simp
qed simp

text \<open>What staging makes of the table: the files in it, and the initial ones elsewhere.\<close>

lemma table_values: "table_ok files \<Longrightarrow> (e \<in> set (dvals files)) = (\<exists>ps a. names_file e ps a \<and> map_of files (relative_name ps) = Some e)"
proof -
  assume t: "table_ok files"
  then have "e \<in> set (dvals files) \<longleftrightarrow> (\<exists>k. map_of files k = Some e)" by (simp add: table_ok_def in_dvals_iff)
  with t show ?thesis unfolding table_ok_def by blast
qed

lemma table_staged:
  assumes "table_ok files"
  shows "in_table files ps a \<Longrightarrow> foldl write_sum m (dvals files) ps = Some a"
    and "\<forall>b. \<not> in_table files ps b \<Longrightarrow> foldl write_sum m (dvals files) ps = m ps"
proof -
  have v: "\<exists>b. names_file e ps b \<and> map_of files (relative_name ps) = Some e" if "e \<in> set (dvals files)" "target e = Some ps" for e
    using that table_values [OF assms] names_file_target by fastforce
  show "foldl write_sum m (dvals files) ps = Some a" if t: "in_table files ps a"
  proof -
    obtain e where e: "map_of files (relative_name ps) = Some e" "names_file e ps a" using t by (auto simp: in_table_def)
    have "\<forall>x \<in> set (dvals files). target x = Some ps \<longrightarrow> py_str (vget x ''sha256'') = a"
      using v e names_file_target by fastforce
    moreover have "e \<in> set (dvals files)" using table_values [OF assms] e by blast
    ultimately show ?thesis using write_sums_some names_file_target [OF e(2)] by blast
  qed
  show "foldl write_sum m (dvals files) ps = m ps" if "\<forall>b. \<not> in_table files ps b"
    by (rule write_sums_none) (use that v in \<open>fastforce simp: in_table_def\<close>)
qed

section \<open>What a manifest lists\<close>

definition plain_tree :: "'b tree \<Rightarrow> bool" where
  "plain_tree t = (dict_ok t \<and> (\<forall>ps \<in> set (dkeys t). plain ps))"

text \<open>The file is there after the task and was not, or was another, before it.\<close>

definition changed :: "('b \<Rightarrow> string) \<Rightarrow> 'b tree \<Rightarrow> 'b tree \<Rightarrow> parts \<Rightarrow> bool" where
  "changed sha b a ps = (\<not> is_ignored ps \<and> map_of a ps \<noteq> None \<and> checksums sha b ps \<noteq> checksums sha a ps)"

lemma snapshot_in:
  "(rel, info) \<in> set (snapshot_files sha nbytes t) \<longleftrightarrow>
    (\<exists>ps x. (ps, x) \<in> set t \<and> \<not> is_ignored ps \<and> rel = relative_name ps
      \<and> info = [(''path'', VStr rel), (''size'', VInt (nbytes x)), (''sha256'', VStr (sha x))])"
  by (auto simp: snapshot_files_def)

lemma snapshot_lookup:
  assumes "plain_tree t" and "plain ps"
  shows "map_of (snapshot_files sha nbytes t) (relative_name ps) = (if is_ignored ps then None else
     map_option (\<lambda>x. [(''path'', VStr (relative_name ps)), (''size'', VInt (nbytes x)), (''sha256'', VStr (sha x))]) (map_of t ps))"
  using assms
proof (induction t)
  case (Cons kx t)
  obtain k x where kx: "kx = (k, x)" by fastforce
  have "plain_tree t" "plain k" using Cons.prems(1) by (auto simp: plain_tree_def dict_ok_def dkeys_def kx)
  then show ?case
    using Cons.IH Cons.prems(2) relative_name_inj [of k ps] by (auto simp: snapshot_files_def kx)
qed (simp add: snapshot_files_def)

lemma unchanged_iff:
  assumes "plain_tree b" and "plain ps" and "\<not> is_ignored ps" and "vget info ''sha256'' = VStr a"
  shows "unchanged (snapshot_files sha nbytes b) (relative_name ps) info \<longleftrightarrow> checksums sha b ps = Some a"
  using assms(3,4) by (auto simp: unchanged_def snapshot_lookup [OF assms(1,2)] checksums_def split: option.split)

lemma collect_lists:
  "collect_each sha hc mime ctx before xs s = (s', Inr rs) \<Longrightarrow>
    map (\<lambda>r. (vget r ''path'', vget r ''sha256'')) rs = map (\<lambda>(rel, info). (VStr rel, vget info ''sha256'')) (filter (\<lambda>(rel, info). \<not> unchanged before rel info) xs)"
proof (induction xs arbitrary: s rs)
  case (Cons x xs)
  obtain rel info where x: "x = (rel, info)" by fastforce
  show ?case
  proof (cases "unchanged before rel info")
    case True
    then show ?thesis using Cons by (simp add: x)
  next
    case False
    then obtain s1 r rs1 where r: "collect_file sha hc mime ctx rel info s = (s1, Inr r)" "collect_each sha hc mime ctx before xs s1 = (s', Inr rs1)" "rs = r # rs1"
      using Cons.prems by (auto simp: x act_Inr)
    then have "vget r ''path'' = VStr rel" "vget r ''sha256'' = vget info ''sha256''"
      by (auto simp: collect_file_def act_Inr file_record_def split: option.splits)
    with Cons.IH [OF r(2)] r(3) False show ?thesis by (simp add: x)
  qed
qed (simp add: act_Inr)

lemma collected_records:
  assumes "collect_output_manifest sha hc nbytes mime now ctx (snapshot_files sha nbytes b) s = (s', Inr m)" and "plain_tree b" and "plain_tree (si_work s)"
  obtains rs where "vget m ''files'' = VList (map VDict rs)" "m \<noteq> []" "\<forall>r \<in> set rs. \<exists>ps a. names_file r ps a"
    "\<And>ps x. (\<exists>r \<in> set rs. names_file r ps x) \<longleftrightarrow> changed sha b (si_work s) ps \<and> checksums sha (si_work s) ps = Some x"
proof -
  let ?a = "si_work s" let ?before = "snapshot_files sha nbytes b" let ?after = "snapshot_files sha nbytes ?a"
  obtain rs deleted where rs: "collect_each sha hc mime ctx ?before (sort_key fst ?after) s = (s', Inr rs)" "m = new_manifest now ctx rs deleted"
    using assms(1) by (auto simp: collect_output_manifest_def Let_def act_Inr)
  have "set (map (\<lambda>r. (vget r ''path'', vget r ''sha256'')) rs) = (\<lambda>(rel, info). (VStr rel, vget info ''sha256'')) ` {(rel, info) \<in> set ?after. \<not> unchanged ?before rel info}"
    unfolding collect_lists [OF rs(1)] by (simp add: case_prod_unfold)
  also have "\<dots> = {(VStr (relative_name ps), VStr a) | ps a. changed sha b ?a ps \<and> checksums sha ?a ps = Some a}"
  proof -
    have p: "plain ps" "map_of ?a ps = Some x" if "(ps, x) \<in> set ?a" for ps x
      using assms(3) that by (auto simp: plain_tree_def dkeys_def in_map_of)
    have q: "changed sha b ?a ps \<longleftrightarrow> \<not> is_ignored ps \<and> \<not> unchanged ?before (relative_name ps)
        [(''path'', VStr (relative_name ps)), (''size'', VInt (nbytes x)), (''sha256'', VStr (sha x))]" if x: "(ps, x) \<in> set ?a" for ps x
      using unchanged_iff [OF assms(2) p(1) [OF x], of "[(''path'', VStr (relative_name ps)), (''size'', VInt (nbytes x)), (''sha256'', VStr (sha x))]" "sha x" sha nbytes]
        p(2) [OF x] by (auto simp: changed_def checksums_def)
    have e: "(rel, info) \<in> set ?after \<and> \<not> unchanged ?before rel info \<longleftrightarrow>
        (\<exists>ps x. (ps, x) \<in> set ?a \<and> changed sha b ?a ps \<and> rel = relative_name ps \<and> info = [(''path'', VStr rel), (''size'', VInt (nbytes x)), (''sha256'', VStr (sha x))])"
      for rel info
      unfolding snapshot_in using q by blast
    show ?thesis
    proof (intro equalityI subsetI)
      fix z assume "z \<in> (\<lambda>(rel, info). (VStr rel, vget info ''sha256'')) ` {(rel, info) \<in> set ?after. \<not> unchanged ?before rel info}"
      then obtain rel info where z: "z = (VStr rel, vget info ''sha256'')" "(rel, info) \<in> set ?after \<and> \<not> unchanged ?before rel info"
        by (elim imageE) (simp add: case_prod_unfold)
      from z(2) [unfolded e] obtain ps x where x: "(ps, x) \<in> set ?a" "changed sha b ?a ps" "rel = relative_name ps"
        "info = [(''path'', VStr rel), (''size'', VInt (nbytes x)), (''sha256'', VStr (sha x))]" by blast
      have "checksums sha ?a ps = Some (sha x)" using p(2) [OF x(1)] by (simp add: checksums_def)
      with x z(1) show "z \<in> {(VStr (relative_name ps), VStr a) | ps a. changed sha b ?a ps \<and> checksums sha ?a ps = Some a}" by simp blast
    next
      fix z assume "z \<in> {(VStr (relative_name ps), VStr a) | ps a. changed sha b ?a ps \<and> checksums sha ?a ps = Some a}"
      then obtain ps a where z: "z = (VStr (relative_name ps), VStr a)" "changed sha b ?a ps" "checksums sha ?a ps = Some a" by blast
      then obtain x where x: "map_of ?a ps = Some x" "sha x = a" by (auto simp: checksums_def)
      let ?info = "[(''path'', VStr (relative_name ps)), (''size'', VInt (nbytes x)), (''sha256'', VStr (sha x))]"
      have "(relative_name ps, ?info) \<in> set ?after \<and> \<not> unchanged ?before (relative_name ps) ?info"
        unfolding e using map_of_SomeD [OF x(1)] z(2) by blast
      then have "(relative_name ps, ?info) \<in> {(rel, info) \<in> set ?after. \<not> unchanged ?before rel info}" by simp
      from imageI [OF this, of "\<lambda>(rel, info). (VStr rel, vget info ''sha256'')"] z(1) x(2)
      show "z \<in> (\<lambda>(rel, info). (VStr rel, vget info ''sha256'')) ` {(rel, info) \<in> set ?after. \<not> unchanged ?before rel info}" by simp
    qed
  qed
  finally have r: "set (map (\<lambda>r. (vget r ''path'', vget r ''sha256'')) rs) = {(VStr (relative_name ps), VStr a) | ps a. changed sha b ?a ps \<and> checksums sha ?a ps = Some a}" .
  have plain: "plain ps" if "changed sha b ?a ps" for ps
    using that assms(3) by (auto simp: changed_def plain_tree_def dkeys_def dest!: map_of_SomeD)
  show ?thesis
  proof (rule that [of rs])
    show "vget m ''files'' = VList (map VDict rs)" "m \<noteq> []" by (simp_all add: rs(2) new_manifest_def)
    show "\<forall>r \<in> set rs. \<exists>ps a. names_file r ps a"
    proof
      fix x assume "x \<in> set rs"
      then have "(vget x ''path'', vget x ''sha256'') \<in> set (map (\<lambda>r. (vget r ''path'', vget r ''sha256'')) rs)" by simp
      then show "\<exists>ps a. names_file x ps a" unfolding r using plain by (auto simp: names_file_def)
    qed
    fix ps x
    have "(\<exists>r \<in> set rs. names_file r ps x) \<longleftrightarrow> plain ps \<and> (VStr (relative_name ps), VStr x) \<in> set (map (\<lambda>r. (vget r ''path'', vget r ''sha256'')) rs)"
      by (force simp: names_file_def image_iff)
    also have "\<dots> \<longleftrightarrow> changed sha b ?a ps \<and> checksums sha ?a ps = Some x"
      unfolding r using plain relative_name_inj by blast
    finally show "(\<exists>r \<in> set rs. names_file r ps x) \<longleftrightarrow> changed sha b ?a ps \<and> checksums sha ?a ps = Some x" .
  qed
qed

lemma published_files:
  assumes "publish_manifest d c = Inr m" and "vget d ''file_manifest'' = VDict m0" and "m0 \<noteq> []"
  shows "vget m ''files'' = vget m0 ''files''"
  using assms by (auto simp: publish_manifest_def validate_manifest_def Let_def guard_or_def split: if_splits option.splits)

section \<open>What the successors of a task see\<close>

text \<open>A task that found the directory \<open>b\<close> and left \<open>a\<close> behind, and its manifest as the core published it.\<close>

definition handed_on :: "('b \<Rightarrow> string) \<Rightarrow> (string \<Rightarrow> string) \<Rightarrow> ('b \<Rightarrow> int) \<Rightarrow> (string \<Rightarrow> string) \<Rightarrow> event \<Rightarrow> 'b tree \<times> 'b tree \<Rightarrow> bool" where
  "handed_on sha hc nbytes mime m ba =
     (\<exists>now ctx s s' m0 d (c :: unit core).
        si_work s = snd ba \<and> collect_output_manifest sha hc nbytes mime now ctx (snapshot_files sha nbytes (fst ba)) s = (s', Inr m0)
        \<and> vget d ''file_manifest'' = VDict m0 \<and> publish_manifest d c = Inr m)"

lemma handed_on_readable:
  assumes "handed_on sha hc nbytes mime m (b, a)" and "plain_tree b" and "plain_tree a"
  shows "\<exists>rs. readable m rs \<and> (\<forall>ps x. (\<exists>r \<in> set rs. names_file r ps x) \<longleftrightarrow> changed sha b a ps \<and> checksums sha a ps = Some x)"
proof -
  obtain now ctx s s' m0 d and c :: "unit core" where h: "si_work s = a"
    "collect_output_manifest sha hc nbytes mime now ctx (snapshot_files sha nbytes b) s = (s', Inr m0)"
    "vget d ''file_manifest'' = VDict m0" "publish_manifest d c = Inr m"
    using assms(1) by (auto simp: handed_on_def)
  obtain rs where rs: "vget m0 ''files'' = VList (map VDict rs)" "m0 \<noteq> []" "\<forall>r \<in> set rs. \<exists>ps a. names_file r ps a"
    "\<And>ps x. (\<exists>r \<in> set rs. names_file r ps x) \<longleftrightarrow> changed sha b a ps \<and> checksums sha a ps = Some x"
    by (rule collected_records [OF h(2) assms(2)]) (use assms(3) h(1) in auto)
  have v: "vget m ''files'' = VList (map VDict rs)" using published_files [OF h(4,3) rs(2)] rs(1) by simp
  then have "vgetd m ''files'' (VList []) = VList (map VDict rs)" by (auto simp: vget_def dgetd_def split: option.splits)
  then have "records (vgetd m ''files'' (VList [])) = Inr rs" by simp
  with rs(3,4) show ?thesis by (auto simp: readable_def)
qed

lemma handed_on_all:
  assumes "list_all2 (handed_on sha hc nbytes mime) ms runs" and "\<forall>(b, a) \<in> set runs. plain_tree b \<and> plain_tree a"
  shows "\<exists>rss. list_all2 readable ms rss \<and>
    (\<forall>ps x. (\<exists>rs \<in> set rss. \<exists>r \<in> set rs. names_file r ps x) \<longleftrightarrow> (\<exists>(b, a) \<in> set runs. changed sha b a ps \<and> checksums sha a ps = Some x))"
  using assms
proof (induction ms runs rule: list_all2_induct)
  case (Cons m ms ba runs)
  obtain b a where ba: "ba = (b, a)" by fastforce
  obtain rss where rss: "list_all2 readable ms rss"
    "\<And>ps x. (\<exists>rs \<in> set rss. \<exists>r \<in> set rs. names_file r ps x) \<longleftrightarrow> (\<exists>(b, a) \<in> set runs. changed sha b a ps \<and> checksums sha a ps = Some x)"
    using Cons.IH Cons.prems by auto
  obtain rs where rs: "readable m rs" "\<And>ps x. (\<exists>r \<in> set rs. names_file r ps x) \<longleftrightarrow> changed sha b a ps \<and> checksums sha a ps = Some x"
    using handed_on_readable [of sha hc nbytes mime m b a] Cons.hyps(1) Cons.prems by (auto simp: ba)
  show ?case by (rule exI [of _ "rs # rss"]) (simp add: rs rss ba)
qed simp

lemma staged_files:
  assumes "list_all2 (handed_on sha hc nbytes mime) ms runs" and "\<forall>(b, a) \<in> set runs. plain_tree b \<and> plain_tree a"
    and "vget ctx ''parent_file_manifests'' = VList (map VDict ms)" and "stage_files sha hc ctx s = (s', Inr u)"
  shows "(\<forall>(b, a) \<in> set runs. \<forall>ps. changed sha b a ps \<longrightarrow> checksums sha (si_work s') ps = checksums sha a ps)
    \<and> (\<forall>ps. (\<forall>(b, a) \<in> set runs. \<not> changed sha b a ps) \<longrightarrow> checksums sha (si_work s') ps = initial_sums ctx ps)"
proof -
  obtain files where f: "load_parent_files ctx = Inr files" "checksums sha (si_work s') = foldl write_sum (initial_sums ctx) (dvals files)"
    using stage_files_sums [OF assms(4)] by blast
  obtain rss where rss: "list_all2 readable ms rss"
    "\<And>ps x. (\<exists>rs \<in> set rss. \<exists>r \<in> set rs. names_file r ps x) \<longleftrightarrow> (\<exists>(b, a) \<in> set runs. changed sha b a ps \<and> checksums sha a ps = Some x)"
    using handed_on_all [OF assms(1,2)] by blast
  have "rfold add_manifest [] ms = Inr files" using f(1) assms(3) by (simp add: load_parent_files_def)
  from add_manifests_table [OF rss(1) this] have t: "table_ok files"
    "\<And>ps x. in_table files ps x \<longleftrightarrow> (\<exists>(b, a) \<in> set runs. changed sha b a ps \<and> checksums sha a ps = Some x)"
    by (simp_all add: table_ok_def in_table_def rss(2))
  show ?thesis
  proof (intro conjI ballI allI impI; (clarify)?)
    fix b a ps assume "(b, a) \<in> set runs" "changed sha b a ps"
    moreover from this obtain x where "checksums sha a ps = Some x" by (auto simp: changed_def checksums_def)
    ultimately show "checksums sha (si_work s') ps = checksums sha a ps"
      using table_staged(1) [OF t(1), of ps x] t(2) f(2) by auto
  next
    fix ps assume "\<forall>(b, a) \<in> set runs. \<not> changed sha b a ps"
    then have "\<forall>x. \<not> in_table files ps x" using t(2) by blast
    then show "checksums sha (si_work s') ps = initial_sums ctx ps" using table_staged(2) [OF t(1)] f(2) by simp
  qed
qed

lemma staged_as_changed:
  assumes "list_all2 (handed_on sha hc nbytes mime) ms runs" and "\<forall>(b, a) \<in> set runs. plain_tree b \<and> plain_tree a"
    and "vget ctx ''parent_file_manifests'' = VList (map VDict ms)" and "stage_files sha hc ctx s = (s', Inr u)"
    and "(b, a) \<in> set runs" and "changed sha b a ps"
  shows "checksums sha (si_work s') ps = checksums sha a ps"
  using staged_files [OF assms(1-4)] assms(5,6) by blast

text \<open>C31: the directory a task is started in holds every file its parents changed, as they left it, and the initial files
  elsewhere: whenever staging succeeds, the checksums of its files are these.\<close>

theorem child_sees_parent_files:
  assumes "list_all2 (handed_on sha hc nbytes mime) ms runs" and "\<forall>(b, a) \<in> set runs. plain_tree b \<and> plain_tree a"
    and "vget ctx ''parent_file_manifests'' = VList (map VDict ms)" and "stage_files sha hc ctx s = (s', Inr u)"
  shows "(\<forall>(b, a) \<in> set runs. \<forall>ps. changed sha b a ps \<longrightarrow> checksums sha (si_work s') ps = checksums sha a ps)
    \<and> (\<forall>ps. (\<forall>(b, a) \<in> set runs. \<not> changed sha b a ps) \<longrightarrow> checksums sha (si_work s') ps = initial_sums ctx ps)"
  by (rule staged_files [OF assms])

section \<open>A file that becomes a directory\<close>

text \<open>No file is below another.\<close>

definition flat :: "'b site \<Rightarrow> bool" where
  "flat s = (\<forall>p \<in> set (dkeys (si_work s)). \<forall>q \<in> set (dkeys (si_work s)). \<not> below p q)"

lemma flat_write: "keeping flat (write_work ps b)"
proof (rule keepingI)
  fix s :: "'a site" assume f: "flat s"
  show "flat (fst (write_work ps b s))"
  proof (cases "blocked ps (si_work s)")
    case False
    then have "\<forall>q \<in> set (dkeys (si_work s)). \<not> below q ps \<and> \<not> below ps q"
      by (auto simp: blocked_def list_ex_iff dkeys_def)
    moreover have "\<not> below ps ps" by (simp add: below_def)
    ultimately show ?thesis using f False by (auto simp: flat_def write_work_def)
  qed (use f in \<open>simp add: write_work_def\<close>)
qed

lemma flat_same: "(\<And>s. si_work (fst (a s)) = si_work s) \<Longrightarrow> keeping flat a"
  by (rule keepingI) (simp add: flat_def)

lemma flat_reads: "keeping flat (head_request ctx)" "keeping flat (cached sha hc ctx a)" "keeping flat (fetch hc ctx a)" "keeping flat (keep_cached sha hc ctx b)"
  by (auto intro!: flat_same simp: head_request_def act_then_def act_result_def cached_def fetch_def keep_cached_def split: sum.split option.split)

lemma flat_stage: "keeping flat (stage_artifact_file sha hc ctx info)"
  unfolding stage_artifact_file_def download_artifact_def Let_def
  by (auto intro!: act_rules flat_reads flat_write split: pyval.split option.split)

lemma flat_each: "keeping flat (act_each (stage_artifact_file sha hc ctx) infos)"
  by (induction infos) (auto intro: act_rules flat_stage)

lemma stage_files_flat: "flat (fst (stage_files sha hc ctx s))"
proof -
  have k: "keeping flat (act_catch (act_then (stage_initial_artifacts sha hc ctx) (\<lambda>_. stage_parent_files sha hc ctx))
       (\<lambda>e. act_raise (as_artifact_error ''Failed to stage task files'' e)))"
    unfolding stage_initial_artifacts_def stage_parent_files_def by (intro act_rules flat_each)
  have "flat (s\<lparr>si_work := []\<rparr>)" by (simp add: flat_def dkeys_def)
  from keeping_D [OF k this] show ?thesis by (simp add: stage_files_def act_then_def act_modify_def)
qed

lemma write_sums_grow: "m ps \<noteq> None \<Longrightarrow> foldl write_sum m es ps \<noteq> None"
  by (induction es arbitrary: m) (auto simp: write_sum_def split: option.split)

lemma write_sums_there: "r \<in> set es \<Longrightarrow> target r = Some ps \<Longrightarrow> foldl write_sum m es ps \<noteq> None"
proof (induction es arbitrary: m)
  case (Cons e es)
  show ?case
  proof (cases "r = e")
    case True
    then have "write_sum m e ps \<noteq> None" using Cons.prems(2) by (simp add: write_sum_def)
    then show ?thesis using write_sums_grow by simp
  qed (use Cons in auto)
qed simp

lemma staging_error: "stage_files sha hc ctx s = (s', Inl e) \<Longrightarrow> \<exists>x. e = ArtifactError x"
  by (auto simp: stage_files_def act_then_def act_modify_def act_catch_def act_raise_def as_artifact_error_def split: prod.splits sum.splits pyerr.splits)

text \<open>C37: a task that replaces an initial file by a directory with files in it makes every task after it fail: that the file is gone is
  noted in its manifest, but staging puts the file back first and then cannot create the directory.\<close>

theorem replaced_file_blocks_successors:
  assumes "list_all2 (handed_on sha hc nbytes mime) ms runs" and "\<forall>(b, a) \<in> set runs. plain_tree b \<and> plain_tree a"
    and "vget ctx ''parent_file_manifests'' = VList (map VDict ms)" and "vget ctx ''initial_files'' = VList (map VDict init)"
    and "r \<in> set init" and "target r = Some ps" and "(b, a) \<in> set runs" and "changed sha b a (ps @ q # qs)"
  shows "\<exists>x. snd (stage_files sha hc ctx s) = Inl (ArtifactError x)"
proof (cases "snd (stage_files sha hc ctx s)")
  case (Inl e)
  then show ?thesis using staging_error [of sha hc ctx s] by (metis prod.collapse)
next
  case (Inr u)
  then obtain s' where s': "stage_files sha hc ctx s = (s', Inr u)" by (metis prod.collapse)
  obtain files where f: "load_parent_files ctx = Inr files" "checksums sha (si_work s') = foldl write_sum (initial_sums ctx) (dvals files)"
    using stage_files_sums [OF s'] by blast
  have "records (vor (vget ctx ''initial_files'') (VList [])) = Inr init"
    using assms(4) records_dicts [of init] by (cases init) (simp_all add: vor_def)
  then have "initial_sums ctx ps \<noteq> None" using write_sums_there [OF assms(5,6)] by (simp add: initial_sums_def)
  then have p: "map_of (si_work s') ps \<noteq> None" using f(2) write_sums_grow [of "initial_sums ctx" ps "dvals files"] by (metis checksums_def option.map_disc_iff)
  have "checksums sha (si_work s') (ps @ q # qs) = checksums sha a (ps @ q # qs)"
    using staged_as_changed [OF assms(1-3) s' assms(7,8)] .
  then have "map_of (si_work s') (ps @ q # qs) \<noteq> None" using assms(8) by (auto simp: changed_def checksums_def)
  with p have "ps \<in> set (dkeys (si_work s'))" "ps @ q # qs \<in> set (dkeys (si_work s'))"
    by (auto simp: map_of_eq_None_iff dkeys_def)
  moreover have "below ps (ps @ q # qs)" by (simp add: below_def)
  moreover have "flat s'" using stage_files_flat [of sha hc ctx s] s' by simp
  ultimately show ?thesis unfolding flat_def by blast
qed

section \<open>Private twins\<close>

text \<open>A private upload of bytes that are there publicly hides them from every run without a capability: such a run can neither download
  them any more nor upload a file with the same content.\<close>

lemma private_upload_hides_public:
  assumes "head_get hc a None s = Inr b" and "head_put sha hc a b' (Some c) s = Inr (s', resp)"
  shows "\<exists>x y. head_get hc a None s' = Inl x \<and> head_put sha hc a b'' None s' = Inl y"
proof -
  have v: "valid_sha a" "map_of (blobs s) a = Some b" using assms(1) by (auto simp: head_get_def check_sha_def guard_or_def split: if_splits option.splits)
  have "dhas a (access s')" "map_of (blobs s') a = Some b"
    using assms(2) v by (auto simp: head_put_def put_bytes_def put_file_def mark_private_def put_private_blob_def write_blob_def check_sha_def
        guard_or_def dhas_iff Let_def split: if_splits)
  then show ?thesis
    using v by (auto simp: head_get_def head_put_def require_read_def can_read_def is_private_def check_sha_def guard_or_def)
qed

section \<open>Samples\<close>

definition sample_sum :: "nat \<Rightarrow> string" where
  "sample_sum n = replicate 64 (if n = 1 then CHR ''1'' else CHR ''2'')"

definition sample_context :: "string \<Rightarrow> event list \<Rightarrow> event" where
  "sample_context t ms =
     [(''artifact_store'', VDict [(''base_url'', VStr ''http://head'')]), (''run_id'', VStr ''r''), (''task_id'', VStr t), (''attempt'', VInt 1),
      (''dispatch_id'', VStr ''d''), (''lease_id'', VStr ''l''),
      (''initial_files'', VList [VDict [(''path'', VStr ''x''), (''sha256'', VStr (sample_sum 1))]]), (''parent_file_manifests'', VList (map VDict ms))]"

definition sample_before :: "nat tree" where
  "sample_before = [([''x''], 1)]"

definition sample_head :: "nat artifacts" where
  "sample_head = no_artifacts\<lparr>blobs := [(sample_sum 1, 1)]\<rparr>"

definition sample_collect :: "nat tree \<Rightarrow> nat site \<times> event result" where
  "sample_collect t =
     collect_output_manifest sample_sum id (\<lambda>_. 1) (\<lambda>_. ''text/plain'') 0 (sample_context ''a'' []) (snapshot_files sample_sum (\<lambda>_. 1) sample_before)
       \<lparr>si_head = sample_head, si_cache = None, si_net = [], si_work = t\<rparr>"

definition sample_done :: "event \<Rightarrow> message" where
  "sample_done m =
     [(''workflow_id'', VStr ''r''), (''task_id'', VStr ''a''), (''attempt'', VInt 1), (''dispatch_id'', VStr ''d''), (''lease_id'', VStr ''l''),
      (''file_manifest'', VDict m)]"

definition sample_accepted :: "unit core" where
  "sample_accepted = \<lparr>task_attempts = [((''r'', ''a''), \<lparr>at_identity = (1, ''d'', ''l''), at_phase = Attempt_terminal, at_event = Finish_task, at_node = [], at_error = VNone\<rparr>)],
     rejections = {}, live_runs = []\<rparr>"

definition sample_handed :: "nat tree \<Rightarrow> event" where
  "sample_handed t =
     (case sample_collect t of
        (s, Inr m) \<Rightarrow> (case publish_manifest (sample_done m) sample_accepted of Inr p \<Rightarrow> p | Inl _ \<Rightarrow> []) | (s, Inl _) \<Rightarrow> [])"

definition sample_child :: "nat tree \<Rightarrow> nat site \<times> unit result" where
  "sample_child t =
     stage_files sample_sum id (sample_context ''b'' [sample_handed t])
       \<lparr>si_head = si_head (fst (sample_collect t)), si_cache = None, si_net = [], si_work = []\<rparr>"

lemma sample_handed_on:
  assumes "sample_handed t \<noteq> []"
  shows "list_all2 (handed_on sample_sum id (\<lambda>_. 1) (\<lambda>_. ''text/plain'')) [sample_handed t] [(sample_before, t)]"
proof -
  obtain s m where m: "sample_collect t = (s, Inr m)" using assms by (auto simp: sample_handed_def split: prod.splits sum.splits)
  then have p: "publish_manifest (sample_done m) sample_accepted = Inr (sample_handed t)"
    using assms by (auto simp: sample_handed_def split: sum.splits)
  have d: "vget (sample_done m) ''file_manifest'' = VDict m" by (simp add: sample_done_def)
  have "handed_on sample_sum id (\<lambda>_. 1) (\<lambda>_. ''text/plain'') (sample_handed t) (sample_before, t)"
    unfolding handed_on_def
    by (rule exI [of _ 0], rule exI [of _ "sample_context ''a'' []"],
        rule exI [of _ "\<lparr>si_head = sample_head, si_cache = None, si_net = [], si_work = t\<rparr>"], rule exI [of _ s], rule exI [of _ m],
        rule exI [of _ "sample_done m"], rule exI [of _ sample_accepted])
      (use m d p in \<open>simp add: sample_collect_def\<close>)
  then show ?thesis by simp
qed

definition sample_added :: "nat tree" where
  "sample_added = [([''x''], 1), ([''d'', ''y''], 2)]"

definition sample_replaced :: "nat tree" where
  "sample_replaced = [([''x'', ''y''], 2)]"

lemma sample_trees: "plain_tree sample_before" "plain_tree sample_added" "plain_tree sample_replaced"
  by (simp_all add: plain_tree_def plain_def sample_before_def sample_added_def sample_replaced_def dict_ok_def dkeys_def)

lemma sample_changes:
  "changed sample_sum sample_before sample_added [''d'', ''y'']" "changed sample_sum sample_before sample_replaced ([''x''] @ ''y'' # [])"
  by (simp_all add: changed_def checksums_def is_ignored_def sample_before_def sample_added_def sample_replaced_def)

lemma sample_child_staged:
  "sample_handed sample_added \<noteq> []" "(case snd (sample_child sample_added) of Inr _ \<Rightarrow> True | Inl _ \<Rightarrow> False)"
  "sample_handed sample_replaced \<noteq> []"
  by code_simp+

theorem child_sees_parent_files_witness:
  "\<exists>s'. sample_child sample_added = (s', Inr ()) \<and> checksums sample_sum (si_work s') [''d'', ''y''] = Some (sample_sum 2)"
proof -
  obtain s' where s': "sample_child sample_added = (s', Inr ())" using sample_child_staged(2) by (cases "sample_child sample_added") (auto split: sum.splits)
  have c: "vget (sample_context ''b'' [sample_handed sample_added]) ''parent_file_manifests'' = VList (map VDict [sample_handed sample_added])"
    by (simp add: sample_context_def)
  from child_sees_parent_files [OF sample_handed_on [OF sample_child_staged(1)] _ c s' [unfolded sample_child_def]] sample_trees sample_changes(1)
  have "checksums sample_sum (si_work s') [''d'', ''y''] = checksums sample_sum sample_added [''d'', ''y'']" by simp
  with s' show ?thesis by (simp add: checksums_def sample_added_def)
qed

theorem replaced_file_blocks_successors_witness: "\<exists>x. snd (sample_child sample_replaced) = Inl (ArtifactError x)"
proof -
  let ?r = "[(''path'', VStr ''x''), (''sha256'', VStr (sample_sum 1))]"
  have c: "vget (sample_context ''b'' [sample_handed sample_replaced]) ''parent_file_manifests'' = VList (map VDict [sample_handed sample_replaced])"
    "vget (sample_context ''b'' [sample_handed sample_replaced]) ''initial_files'' = VList (map VDict [?r])"
    by (simp_all add: sample_context_def)
  have t: "target ?r = Some [''x'']" by (simp add: target_def safe_relative_path_def Let_def)
  show ?thesis
    unfolding sample_child_def
    by (rule replaced_file_blocks_successors [OF sample_handed_on [OF sample_child_staged(3)] _ c _ t _ sample_changes(2)])
      (simp_all add: sample_trees)
qed

end
