(* ===== verification/Spec2Isabelle.thy ===== *)
theory Spec2Isabelle
  imports Placement Scheduling Dag_Spec Dynamic_Run Static_Run Scheduler_Properties Instance_Properties Standby_Pool
    Runtime_Estimator Artifact_Store Core_Safety Submission_Cleanup
    Static_Delivery Global_Metrics Run_Inputs File_Lineage
begin

text \<open>
  Maze runs workflows of tasks on a Ray cluster. Clients submit workflows to the core (\<open>src/maze/core\<close>): static DAGs,
  known in full, and dynamic runs, to which tasks are added while they run. The core (\<open>path/path.py\<close>) keeps the runs and
  their files, and sends ready tasks to the scheduler process (\<open>scheduler/scheduler.py\<close>), which queues them, places
  them on nodes, submits them to Ray, retries them, and reports every start, finish, retry and failure back to the core.

  \<^bold>\<open>Foundations.\<close>

  \<^item> \<open>Prelude\<close>, \<open>PyValue\<close>: exceptions as values (\<open>pyerr\<close>, \<open>'a result\<close>), dictionaries as insertion-ordered
    association lists (\<open>dput\<close>, \<open>ddel\<close>, \<open>dhas\<close>), the JSON values that cross the interfaces (\<open>pyval\<close>) and Python's
    operations on them, with the hint collections the components use.
  \<^item> \<open>Action\<close>: code that changes a state and may raise half-way, with Hoare-style rules (\<open>triple\<close>, \<open>keeping\<close>).

  \<^bold>\<open>Workflows and runs\<close> (\<open>core/workflow\<close>).

  \<^item> \<open>Resources\<close>: what a task may ask for (\<open>resources.py\<close>) and how much memory is recommended
    (\<open>resource_policy.py\<close>). Lemmas: what normalisation accepts is sound, and normalising again changes nothing.
  \<^item> \<open>Workflow_Graph\<close>: a static workflow and its tasks (\<open>workflow.py\<close>, \<open>task.py\<close>). Every task is released once;
    the depths HACS needs are exact.
  \<^item> \<open>Dag_Spec\<close>: validation and building of a submitted DAG (\<open>dag_spec.py\<close>). What is accepted is well formed and acyclic.
  \<^item> \<open>Event_Log\<close>: numbered event logs as a locale, interpreted by both kinds of run.
  \<^item> \<open>Dynamic_Run\<close> (\<open>dynamic.py\<close>): the state machine of a dynamic run, its invariant \<open>run_ok\<close>, exact release, finality,
    polling as a refinement of the log.
  \<^item> \<open>Static_Run\<close>, \<open>Run_Snapshot\<close> (\<open>static_run.py\<close>, \<open>metrics/usage.py\<close>): the state machine of a static run and its snapshot.
  \<^item> \<open>Run_Store\<close>, \<open>Run_Recovery\<close> (\<open>dynamic_store.py\<close>): the log of a dynamic run on disk and its copy in the
    workspace. A write may fail before, within or after its line (\<open>write_outcome\<close>). \<open>append_path\<close> refines an append
    without cache (\<open>append_file\<close>); an event is appended exactly once however often it is tried; recovery at the next start
    converges. Two theorems show where the code falls short: a line cut in the middle, and a task that timed out.
  \<^item> \<open>Static_Store\<close> (\<open>StaticRunStore\<close> in \<open>static_run.py\<close>): the same for static runs, on the files of \<open>Run_Store\<close>. Its append is
    that of \<open>Run_Store\<close>, its recovery converges, and it misses the end of a run whose snapshot was not saved.

  \<^bold>\<open>Scheduling\<close> (\<open>core/scheduler\<close>).

  \<^item> \<open>Scheduling\<close>: the FCFS and HACS strategies and the three queues (\<open>strategy.py\<close>, \<open>queues.py\<close>).
  \<^item> \<open>Dag_Context\<close>: the node a workflow prefers (\<open>dag_context.py\<close>).
  \<^item> \<open>Cluster\<close>, \<open>Placement\<close>: the resource manager (\<open>resource.py\<close>), nodes and leases in the first, the choice of a
    node in the second. The ledger of every node is exact, and a placed task fits.
  \<^item> \<open>Task_Error\<close>, \<open>Fault_Tolerance\<close> (\<open>error.py\<close>, \<open>fault_tolerance.py\<close>): error envelopes, their diagnosis, retries and repairs.
  \<^item> \<open>Task_Runtime\<close> (\<open>runtime.py\<close>): one task's attempts. \<open>Scheduler_Core\<close> (\<open>scheduler.py\<close>, \<open>recovery.py\<close>):
    the handlers. \<open>Scheduler_Safety\<close>, \<open>Scheduler_Steps\<close> and \<open>Scheduler_Dispatch\<close> prove that every handler keeps the
    invariant; \<open>Scheduler_Properties\<close> states what follows: no lease leaks, a task waits in one place, stopping is final,
    a fitting head of a queue is launched.
  \<^item> \<open>Instance_Pool\<close>, \<open>Instance_Safety\<close>, \<open>Instance_Properties\<close> (\<open>llm_instance.py\<close>): the registry of model instances, the
    routes to them, scaling in and out, and stopping.
  \<^item> \<open>Standby_Pool\<close> (\<open>standby_worker.py\<close>), \<open>Runtime_Estimator\<close> (\<open>runtime_estimator.py\<close>), \<open>Resource_History\<close>
    (\<open>resource_history.py\<close>): warm workers, learnt durations, learnt memory needs.

  \<^bold>\<open>The core.\<close>

  \<^item> \<open>Artifact_Store\<close> (\<open>files/artifact_store.py\<close>): capabilities and grants, private and public bytes, reaping. Each
    transaction of the database is one step; private bytes stay private in every interleaving with crashes.
  \<^item> \<open>File_Lineage\<close> (\<open>files/lineage.py\<close>, \<open>get_artifact\<close> and \<open>put_artifact\<close> of \<open>server.py\<close>): the files of a task, staged from the
    initial files and its parents' manifests, collected and uploaded after it, on \<open>Artifact_Store\<close> and \<open>Attempt_Protocol\<close>. A staged directory
    is abstracted to checksums; a task sees what its parents changed. A file that becomes a directory blocks the successors.
  \<^item> \<open>Attempt_Protocol\<close> (\<open>path.py\<close>, \<open>_accept_task_attempt_event\<close> and its transactions): which messages of the
    scheduler are believed. Accepted messages of a task are in order and have one outcome, whatever the network does.
  \<^item> \<open>Core_Events\<close> (\<open>monitor_coroutine\<close>, \<open>_handle_dynamic_scheduler_event\<close>, \<open>_continue_dynamic_finish\<close>): the
    handlers as actions on the state of the core, its stores and the outcomes of the writes to come, composed from
    \<open>Attempt_Protocol\<close>, \<open>Dynamic_Run\<close> and \<open>Run_Store\<close>. \<open>Core_Safety\<close> proves with the rules of \<open>Action\<close> that a
    finished task's successors are dispatched once.
  \<^item> \<open>Submission\<close> (\<open>run_workflow\<close>, \<open>_start_workflow\<close>, \<open>_fail_workflow_dispatch\<close> and the cleanup functions of \<open>path.py\<close>):
    the dispatch record of a static run, from \<open>prepared\<close> to \<open>active\<close> or \<open>terminal\<close>, and the requests to stop a failed
    submission with their retries. \<open>Submission_Safety\<close> is an invariant of all interleavings of these handlers (\<open>desk_step\<close>):
    a failed run was never sent, or confirmed stopped, or the scheduler was shut down. \<open>Submission_Cleanup\<close>: retries end;
    two failures of a write the code does not survive.
  \<^item> \<open>Static_Events\<close> (\<open>_handle_static_finish_scheduler_event\<close>, \<open>_continue_static_finish\<close> and the other messages in
    \<open>monitor_coroutine\<close>): the handlers of the messages of static runs, on the desk of \<open>Submission\<close> with the graphs and the
    attempt table. \<open>Static_Delivery\<close>: the tasks that the end of a task made ready are sent once each and in order.
  \<^item> \<open>Run_Inputs\<close> (\<open>_bind_workflow_run_inputs\<close> in \<open>path.py\<close>): the inputs of a run replace the references in the parameters of
    a workflow. For a workflow built from an accepted DAG, binding succeeds exactly when the inputs fit its contract.
  \<^item> \<open>Global_Metrics\<close> (\<open>runs/global_metrics.py\<close>): the metrics kept up to date with every save of a static run are those
    computed from the saved runs after a restart; metrics that do not fit together block the start.

  \<^bold>\<open>Interfaces.\<close> The locales \<open>event_log\<close> (interpreted by \<open>dyn_events\<close> and \<open>static_events\<close>) and \<open>lease_ledger\<close>
  (interpreted by the resource manager) state what their clients use; their lemmas are proved once inside.

  \<^bold>\<open>Bounds and fuel.\<close> Loops are structural recursion, or functions with a measure (\<open>reap\<close>, the refill of the standby
  pool); none uses fuel. Numbers are Python's: unbounded integers, and floats as rationals with infinities and not-a-number.

  \<^bold>\<open>Arguments of the model.\<close> Ray, clocks, random identifiers, SHA-256, networkx's graph algorithms, the GPU probe,
  logarithm and exponential are arguments, with their documented behaviour as hypotheses where a proof needs it.

  \<^bold>\<open>Not modelled.\<close> Locks and condition variables (handlers run under one lock, so steps are atomic); sockets, processes and
  HTTP (\<open>server.py\<close>, \<open>worker.py\<close>, \<open>client\<close>, \<open>cli\<close>); the execution of user code; the snapshots the scheduler publishes; in
  \<open>path.py\<close> the scheduler's exit, the requests for model instances and the sandbox; the shared workspace mode of
  \<open>lineage.py\<close>; application specifications.
\<close>

end
